(* ===== verification/Prelude.thy ===== *)
theory Prelude imports Main "HOL-Library.Monad_Syntax" begin

text \<open>
  The vocabulary the component theories share.

  \<^item> Bounds-checked container access (\<open>std::vector::at\<close>): out of range is \<open>None\<close>. The code is
    built without exceptions, so an out-of-range \<open>at\<close> ends the process; a model function that
    returns \<open>None\<close> stands for that, and the safety properties show where it cannot happen.
  \<^item> Linear searches that stop at the first hit.
  \<^item> Strict orders given as Boolean comparators, as the standard library's ordered containers
    take them, and the least element of a list under one.
  \<^item> Runs of a state machine over a list of inputs.
\<close>

named_theorems model_simps
  \<open>unfolding equations of the small model operations, used as \<open>simp add: model_simps\<close>\<close>

named_theorems at_intros
  \<open>facts that show a bounds-checked access succeeds\<close>

section \<open>Bounds-checked access\<close>

definition vec_at :: "'a list \<Rightarrow> nat \<Rightarrow> 'a option" where
  "vec_at xs i = (if i < length xs then Some (xs ! i) else None)"

definition grid_at :: "'a list list \<Rightarrow> nat \<Rightarrow> nat \<Rightarrow> 'a option" where
  "grid_at g r c = Option.bind (vec_at g r) (\<lambda>row. vec_at row c)"

definition in_grid :: "'a list list \<Rightarrow> nat \<Rightarrow> nat \<Rightarrow> bool" where
  "in_grid g r c \<longleftrightarrow> r < length g \<and> c < length (g ! r)"

text \<open>Two grids of the same shape: the rows agree in number and each in length.\<close>

definition same_shape :: "'a list list \<Rightarrow> 'b list list \<Rightarrow> bool" where
  "same_shape g h \<longleftrightarrow> map length g = map length h"

lemma vec_at_Some_iff: "vec_at xs i = Some x \<longleftrightarrow> i < length xs \<and> x = xs ! i"
  by (auto simp: vec_at_def)

lemma vec_at_None_iff: "vec_at xs i = None \<longleftrightarrow> length xs \<le> i"
  by (auto simp: vec_at_def)

lemma vec_at_in [at_intros]: "i < length xs \<Longrightarrow> vec_at xs i = Some (xs ! i)"
  by (simp add: vec_at_def)

lemma vec_at_mem: "vec_at xs i = Some x \<Longrightarrow> x \<in> set xs"
  by (auto simp: vec_at_Some_iff)

lemma grid_at_in [at_intros]: "in_grid g r c \<Longrightarrow> grid_at g r c = Some (g ! r ! c)"
  by (simp add: grid_at_def in_grid_def vec_at_def)

lemma grid_at_Some_iff: "grid_at g r c = Some x \<longleftrightarrow> in_grid g r c \<and> x = g ! r ! c"
  by (auto simp: grid_at_def in_grid_def vec_at_def split: bind_splits)

lemma grid_at_None_iff: "grid_at g r c = None \<longleftrightarrow> \<not> in_grid g r c"
  by (auto simp: grid_at_def in_grid_def vec_at_def split: bind_splits)

lemma in_grid_code [code]:
  "in_grid g r c = (case vec_at g r of None \<Rightarrow> False | Some row \<Rightarrow> c < length row)"
  by (auto simp: in_grid_def vec_at_def)

lemma same_shape_length: "same_shape g h \<Longrightarrow> length g = length h"
  by (auto simp: same_shape_def dest: map_eq_imp_length_eq)

lemma same_shape_row: "same_shape g h \<Longrightarrow> r < length g \<Longrightarrow> length (g ! r) = length (h ! r)"
  unfolding same_shape_def by (metis length_map nth_map)

lemma same_shape_in_grid: "same_shape g h \<Longrightarrow> in_grid g r c \<longleftrightarrow> in_grid h r c"
  by (auto simp: in_grid_def same_shape_length same_shape_row)

lemma same_shape_refl [simp]: "same_shape g g"
  by (simp add: same_shape_def)

lemma same_shape_sym: "same_shape g h \<Longrightarrow> same_shape h g"
  by (simp add: same_shape_def)

lemma same_shape_trans: "same_shape g h \<Longrightarrow> same_shape h k \<Longrightarrow> same_shape g k"
  by (simp add: same_shape_def)

section \<open>Linear search\<close>

fun find_index :: "('a \<Rightarrow> bool) \<Rightarrow> 'a list \<Rightarrow> nat option" where
  "find_index P [] = None"
| "find_index P (x # xs) = (if P x then Some 0 else map_option Suc (find_index P xs))"

lemma find_index_Some:
  "find_index P xs = Some i \<Longrightarrow> i < length xs \<and> P (xs ! i) \<and> (\<forall>j < i. \<not> P (xs ! j))"
proof (induction xs arbitrary: i)
  case Nil
  then show ?case by simp
next
  case (Cons x xs)
  show ?case
  proof (cases "P x")
    case True
    with Cons.prems show ?thesis by simp
  next
    case False
    with Cons.prems obtain k where k: "find_index P xs = Some k" "i = Suc k" by auto
    from Cons.IH [OF k(1)] k(2) False show ?thesis
      by (auto simp: nth_Cons split: nat.splits)
  qed
qed

lemma find_index_None: "find_index P xs = None \<longleftrightarrow> (\<forall>x \<in> set xs. \<not> P x)"
  by (induction xs) auto

lemma find_index_exists: "x \<in> set xs \<Longrightarrow> P x \<Longrightarrow> \<exists>i. find_index P xs = Some i"
  using find_index_None [of P xs] by (cases "find_index P xs") auto

text \<open>Erasing the element a search found (\<open>std::vector::erase\<close> at an iterator).\<close>

fun erase_at :: "nat \<Rightarrow> 'a list \<Rightarrow> 'a list" where
  "erase_at i [] = []"
| "erase_at 0 (x # xs) = xs"
| "erase_at (Suc i) (x # xs) = x # erase_at i xs"

lemma length_erase_at: "i < length xs \<Longrightarrow> length (erase_at i xs) = length xs - 1"
  by (induction i xs rule: erase_at.induct) auto

lemma erase_at_take_drop: "i < length xs \<Longrightarrow> erase_at i xs = take i xs @ drop (Suc i) xs"
  by (induction i xs rule: erase_at.induct) auto

lemma set_erase_at: "set (erase_at i xs) \<subseteq> set xs"
  by (induction i xs rule: erase_at.induct) auto

lemma funpow_split: "n = m + k \<Longrightarrow> (f ^^ n) x = (f ^^ m) ((f ^^ k) x)"
  by (simp add: funpow_add)

section \<open>Comparators\<close>

text \<open>The strict weak order the standard's ordered containers ask of their comparator.\<close>

locale strict_weak =
  fixes A :: "'a set" and lt :: "'a \<Rightarrow> 'a \<Rightarrow> bool"
  assumes irrefl: "x \<in> A \<Longrightarrow> \<not> lt x x"
    and trans: "x \<in> A \<Longrightarrow> y \<in> A \<Longrightarrow> z \<in> A \<Longrightarrow> lt x y \<Longrightarrow> lt y z \<Longrightarrow> lt x z"
    and incomp_trans: "x \<in> A \<Longrightarrow> y \<in> A \<Longrightarrow> z \<in> A \<Longrightarrow>
      \<not> lt x y \<Longrightarrow> \<not> lt y x \<Longrightarrow> \<not> lt y z \<Longrightarrow> \<not> lt z y \<Longrightarrow> \<not> lt x z \<and> \<not> lt z x"
begin

lemma asym: "x \<in> A \<Longrightarrow> y \<in> A \<Longrightarrow> lt x y \<Longrightarrow> \<not> lt y x"
  using irrefl [of x] trans [of x y x] by auto

lemma negatively_trans:
  assumes "x \<in> A" "y \<in> A" "z \<in> A" and "\<not> lt x y" "\<not> lt y z"
  shows "\<not> lt x z"
proof
  assume "lt x z"
  show False
  proof (cases "lt y x")
    case True
    with \<open>lt x z\<close> have "lt y z" using trans [of y x z] assms(1-3) by simp
    with assms(5) show False by simp
  next
    case False
    have "\<not> lt z y"
    proof
      assume "lt z y"
      with \<open>lt x z\<close> have "lt x y" using trans [of x z y] assms(1-3) by simp
      with assms(4) show False by simp
    qed
    with False \<open>lt x z\<close> show False using incomp_trans [of x y z] assms by simp
  qed
qed

end

text \<open>Comparators that never leave two different elements unordered.\<close>

locale strict_total = strict_weak +
  assumes total: "x \<in> A \<Longrightarrow> y \<in> A \<Longrightarrow> x \<noteq> y \<Longrightarrow> lt x y \<or> lt y x"

section \<open>Runs\<close>

text \<open>A machine driven by a list of inputs, where a step may fault.\<close>

fun run_opt :: "('s \<Rightarrow> 'i \<Rightarrow> 's option) \<Rightarrow> 's \<Rightarrow> 'i list \<Rightarrow> 's option" where
  "run_opt step s [] = Some s"
| "run_opt step s (i # is) = Option.bind (step s i) (\<lambda>s'. run_opt step s' is)"

lemma run_opt_append: "run_opt f s (es @ fs) = Option.bind (run_opt f s es) (\<lambda>s'. run_opt f s' fs)"
  by (induction es arbitrary: s) (auto split: bind_splits)

lemma run_opt_inv:
  assumes "\<And>s i. I s \<Longrightarrow> \<exists>s'. step s i = Some s' \<and> I s'" and "I s"
  shows "\<exists>s'. run_opt step s is = Some s' \<and> I s'"
  using assms(2)
proof (induction "is" arbitrary: s)
  case Nil
  then show ?case by simp
next
  case (Cons i "is")
  from assms(1) [OF Cons.prems] obtain t where "step s i = Some t" "I t" by blast
  with Cons.IH [of t] show ?case by auto
qed

end
