(* ===== verification/RnsKeys.thy ===== *)
theory RnsKeys imports Prelude begin

text \<open>
  The key codes of \<open>sdk/RNSKeyCodeMapping.h\<close>: the enumeration \<open>rnsKey\<close> and the table of key
  names \<open>RNSKeyMap\<close>.

  The code does arithmetic on the enumeration (\<open>static_cast<rnsKey>(k - 26)\<close>) and compares codes
  by range, so a key is its integer code and every enumerator is the number C++ gives it, in the
  order of the declaration. The lemmas show that the ranges the other components test are the
  ranges the comments of the header name.
\<close>

section \<open>The enumeration\<close>

type_synonym rnsKey = int

abbreviation (input) RNS_KEY_PowerOff :: rnsKey where "RNS_KEY_PowerOff \<equiv> 0"
abbreviation (input) RNS_KEY_AudioMedia :: rnsKey where "RNS_KEY_AudioMedia \<equiv> 1"
abbreviation (input) RNS_KEY_Menu :: rnsKey where "RNS_KEY_Menu \<equiv> 2"
abbreviation (input) RNS_KEY_AudioLowerVolume :: rnsKey where "RNS_KEY_AudioLowerVolume \<equiv> 3"
abbreviation (input) RNS_KEY_AudioRaiseVolume :: rnsKey where "RNS_KEY_AudioRaiseVolume \<equiv> 4"
abbreviation (input) RNS_KEY_ChannelUp :: rnsKey where "RNS_KEY_ChannelUp \<equiv> 5"
abbreviation (input) RNS_KEY_ChannelDown :: rnsKey where "RNS_KEY_ChannelDown \<equiv> 6"
abbreviation (input) RNS_KEY_Help :: rnsKey where "RNS_KEY_Help \<equiv> 7"
abbreviation (input) RNS_KEY_Refresh :: rnsKey where "RNS_KEY_Refresh \<equiv> 8"
abbreviation (input) RNS_KEY_AudioStop :: rnsKey where "RNS_KEY_AudioStop \<equiv> 9"
abbreviation (input) RNS_KEY_AudioPlay :: rnsKey where "RNS_KEY_AudioPlay \<equiv> 10"
abbreviation (input) RNS_KEY_AudioPause :: rnsKey where "RNS_KEY_AudioPause \<equiv> 11"
abbreviation (input) RNS_KEY_AudioNext :: rnsKey where "RNS_KEY_AudioNext \<equiv> 12"
abbreviation (input) RNS_KEY_AudioRewind :: rnsKey where "RNS_KEY_AudioRewind \<equiv> 13"
abbreviation (input) RNS_KEY_AudioForward :: rnsKey where "RNS_KEY_AudioForward \<equiv> 14"
abbreviation (input) RNS_KEY_AudioPrev :: rnsKey where "RNS_KEY_AudioPrev \<equiv> 15"
abbreviation (input) RNS_KEY_Green :: rnsKey where "RNS_KEY_Green \<equiv> 16"
abbreviation (input) RNS_KEY_Red :: rnsKey where "RNS_KEY_Red \<equiv> 17"
abbreviation (input) RNS_KEY_Blue :: rnsKey where "RNS_KEY_Blue \<equiv> 18"
abbreviation (input) RNS_KEY_Yellow :: rnsKey where "RNS_KEY_Yellow \<equiv> 19"
abbreviation (input) RNS_KEY_TvRad :: rnsKey where "RNS_KEY_TvRad \<equiv> 20"
abbreviation (input) RNS_KEY_AudioRecord :: rnsKey where "RNS_KEY_AudioRecord \<equiv> 21"
abbreviation (input) RNS_KEY_Aud :: rnsKey where "RNS_KEY_Aud \<equiv> 22"
abbreviation (input) RNS_KEY_Cancel :: rnsKey where "RNS_KEY_Cancel \<equiv> 23"
abbreviation (input) RNS_KEY_Mute :: rnsKey where "RNS_KEY_Mute \<equiv> 24"
abbreviation (input) RNS_KEY_Guia :: rnsKey where "RNS_KEY_Guia \<equiv> 25"
abbreviation (input) RNS_KEY_Select :: rnsKey where "RNS_KEY_Select \<equiv> 26"
abbreviation (input) RNS_KEY_Up :: rnsKey where "RNS_KEY_Up \<equiv> 27"
abbreviation (input) RNS_KEY_Down :: rnsKey where "RNS_KEY_Down \<equiv> 28"
abbreviation (input) RNS_KEY_Right :: rnsKey where "RNS_KEY_Right \<equiv> 29"
abbreviation (input) RNS_KEY_Left :: rnsKey where "RNS_KEY_Left \<equiv> 30"
abbreviation (input) RNS_KEY_1 :: rnsKey where "RNS_KEY_1 \<equiv> 31"
abbreviation (input) RNS_KEY_2 :: rnsKey where "RNS_KEY_2 \<equiv> 32"
abbreviation (input) RNS_KEY_3 :: rnsKey where "RNS_KEY_3 \<equiv> 33"
abbreviation (input) RNS_KEY_4 :: rnsKey where "RNS_KEY_4 \<equiv> 34"
abbreviation (input) RNS_KEY_5 :: rnsKey where "RNS_KEY_5 \<equiv> 35"
abbreviation (input) RNS_KEY_6 :: rnsKey where "RNS_KEY_6 \<equiv> 36"
abbreviation (input) RNS_KEY_7 :: rnsKey where "RNS_KEY_7 \<equiv> 37"
abbreviation (input) RNS_KEY_8 :: rnsKey where "RNS_KEY_8 \<equiv> 38"
abbreviation (input) RNS_KEY_9 :: rnsKey where "RNS_KEY_9 \<equiv> 39"
abbreviation (input) RNS_KEY_0 :: rnsKey where "RNS_KEY_0 \<equiv> 40"
abbreviation (input) RNS_KEY_A :: rnsKey where "RNS_KEY_A \<equiv> 41"
abbreviation (input) RNS_KEY_B :: rnsKey where "RNS_KEY_B \<equiv> 42"
abbreviation (input) RNS_KEY_C :: rnsKey where "RNS_KEY_C \<equiv> 43"
abbreviation (input) RNS_KEY_D :: rnsKey where "RNS_KEY_D \<equiv> 44"
abbreviation (input) RNS_KEY_E :: rnsKey where "RNS_KEY_E \<equiv> 45"
abbreviation (input) RNS_KEY_F :: rnsKey where "RNS_KEY_F \<equiv> 46"
abbreviation (input) RNS_KEY_G :: rnsKey where "RNS_KEY_G \<equiv> 47"
abbreviation (input) RNS_KEY_H :: rnsKey where "RNS_KEY_H \<equiv> 48"
abbreviation (input) RNS_KEY_I :: rnsKey where "RNS_KEY_I \<equiv> 49"
abbreviation (input) RNS_KEY_J :: rnsKey where "RNS_KEY_J \<equiv> 50"
abbreviation (input) RNS_KEY_K :: rnsKey where "RNS_KEY_K \<equiv> 51"
abbreviation (input) RNS_KEY_L :: rnsKey where "RNS_KEY_L \<equiv> 52"
abbreviation (input) RNS_KEY_M :: rnsKey where "RNS_KEY_M \<equiv> 53"
abbreviation (input) RNS_KEY_N :: rnsKey where "RNS_KEY_N \<equiv> 54"
abbreviation (input) RNS_KEY_O :: rnsKey where "RNS_KEY_O \<equiv> 55"
abbreviation (input) RNS_KEY_P :: rnsKey where "RNS_KEY_P \<equiv> 56"
abbreviation (input) RNS_KEY_Q :: rnsKey where "RNS_KEY_Q \<equiv> 57"
abbreviation (input) RNS_KEY_R :: rnsKey where "RNS_KEY_R \<equiv> 58"
abbreviation (input) RNS_KEY_S :: rnsKey where "RNS_KEY_S \<equiv> 59"
abbreviation (input) RNS_KEY_T :: rnsKey where "RNS_KEY_T \<equiv> 60"
abbreviation (input) RNS_KEY_U :: rnsKey where "RNS_KEY_U \<equiv> 61"
abbreviation (input) RNS_KEY_V :: rnsKey where "RNS_KEY_V \<equiv> 62"
abbreviation (input) RNS_KEY_W :: rnsKey where "RNS_KEY_W \<equiv> 63"
abbreviation (input) RNS_KEY_X :: rnsKey where "RNS_KEY_X \<equiv> 64"
abbreviation (input) RNS_KEY_Y :: rnsKey where "RNS_KEY_Y \<equiv> 65"
abbreviation (input) RNS_KEY_Z :: rnsKey where "RNS_KEY_Z \<equiv> 66"
abbreviation (input) RNS_KEY_a :: rnsKey where "RNS_KEY_a \<equiv> 67"
abbreviation (input) RNS_KEY_b :: rnsKey where "RNS_KEY_b \<equiv> 68"
abbreviation (input) RNS_KEY_c :: rnsKey where "RNS_KEY_c \<equiv> 69"
abbreviation (input) RNS_KEY_d :: rnsKey where "RNS_KEY_d \<equiv> 70"
abbreviation (input) RNS_KEY_e :: rnsKey where "RNS_KEY_e \<equiv> 71"
abbreviation (input) RNS_KEY_f :: rnsKey where "RNS_KEY_f \<equiv> 72"
abbreviation (input) RNS_KEY_g :: rnsKey where "RNS_KEY_g \<equiv> 73"
abbreviation (input) RNS_KEY_h :: rnsKey where "RNS_KEY_h \<equiv> 74"
abbreviation (input) RNS_KEY_i :: rnsKey where "RNS_KEY_i \<equiv> 75"
abbreviation (input) RNS_KEY_j :: rnsKey where "RNS_KEY_j \<equiv> 76"
abbreviation (input) RNS_KEY_k :: rnsKey where "RNS_KEY_k \<equiv> 77"
abbreviation (input) RNS_KEY_l :: rnsKey where "RNS_KEY_l \<equiv> 78"
abbreviation (input) RNS_KEY_m :: rnsKey where "RNS_KEY_m \<equiv> 79"
abbreviation (input) RNS_KEY_n :: rnsKey where "RNS_KEY_n \<equiv> 80"
abbreviation (input) RNS_KEY_o :: rnsKey where "RNS_KEY_o \<equiv> 81"
abbreviation (input) RNS_KEY_p :: rnsKey where "RNS_KEY_p \<equiv> 82"
abbreviation (input) RNS_KEY_q :: rnsKey where "RNS_KEY_q \<equiv> 83"
abbreviation (input) RNS_KEY_r :: rnsKey where "RNS_KEY_r \<equiv> 84"
abbreviation (input) RNS_KEY_s :: rnsKey where "RNS_KEY_s \<equiv> 85"
abbreviation (input) RNS_KEY_t :: rnsKey where "RNS_KEY_t \<equiv> 86"
abbreviation (input) RNS_KEY_u :: rnsKey where "RNS_KEY_u \<equiv> 87"
abbreviation (input) RNS_KEY_v :: rnsKey where "RNS_KEY_v \<equiv> 88"
abbreviation (input) RNS_KEY_w :: rnsKey where "RNS_KEY_w \<equiv> 89"
abbreviation (input) RNS_KEY_x :: rnsKey where "RNS_KEY_x \<equiv> 90"
abbreviation (input) RNS_KEY_y :: rnsKey where "RNS_KEY_y \<equiv> 91"
abbreviation (input) RNS_KEY_z :: rnsKey where "RNS_KEY_z \<equiv> 92"
abbreviation (input) RNS_KEY_Space :: rnsKey where "RNS_KEY_Space \<equiv> 93"
abbreviation (input) RNS_KEY_Grave :: rnsKey where "RNS_KEY_Grave \<equiv> 94"
abbreviation (input) RNS_KEY_Asciitilde :: rnsKey where "RNS_KEY_Asciitilde \<equiv> 95"
abbreviation (input) RNS_KEY_Exclam :: rnsKey where "RNS_KEY_Exclam \<equiv> 96"
abbreviation (input) RNS_KEY_At :: rnsKey where "RNS_KEY_At \<equiv> 97"
abbreviation (input) RNS_KEY_Numbersign :: rnsKey where "RNS_KEY_Numbersign \<equiv> 98"
abbreviation (input) RNS_KEY_Dollar :: rnsKey where "RNS_KEY_Dollar \<equiv> 99"
abbreviation (input) RNS_KEY_Asciicircum :: rnsKey where "RNS_KEY_Asciicircum \<equiv> 100"
abbreviation (input) RNS_KEY_Ampersand :: rnsKey where "RNS_KEY_Ampersand \<equiv> 101"
abbreviation (input) RNS_KEY_Asterisk :: rnsKey where "RNS_KEY_Asterisk \<equiv> 102"
abbreviation (input) RNS_KEY_ParenLeft :: rnsKey where "RNS_KEY_ParenLeft \<equiv> 103"
abbreviation (input) RNS_KEY_ParenRight :: rnsKey where "RNS_KEY_ParenRight \<equiv> 104"
abbreviation (input) RNS_KEY_Underscore :: rnsKey where "RNS_KEY_Underscore \<equiv> 105"
abbreviation (input) RNS_KEY_Shash :: rnsKey where "RNS_KEY_Shash \<equiv> 106"
abbreviation (input) RNS_KEY_Period :: rnsKey where "RNS_KEY_Period \<equiv> 107"
abbreviation (input) RNS_KEY_Comma :: rnsKey where "RNS_KEY_Comma \<equiv> 108"
abbreviation (input) RNS_KEY_Question :: rnsKey where "RNS_KEY_Question \<equiv> 109"
abbreviation (input) RNS_KEY_Apostrophe :: rnsKey where "RNS_KEY_Apostrophe \<equiv> 110"
abbreviation (input) RNS_KEY_Quotedbl :: rnsKey where "RNS_KEY_Quotedbl \<equiv> 111"
abbreviation (input) RNS_KEY_Semicolon :: rnsKey where "RNS_KEY_Semicolon \<equiv> 112"
abbreviation (input) RNS_KEY_Colon :: rnsKey where "RNS_KEY_Colon \<equiv> 113"
abbreviation (input) RNS_KEY_Bar :: rnsKey where "RNS_KEY_Bar \<equiv> 114"
abbreviation (input) RNS_KEY_BackSlash :: rnsKey where "RNS_KEY_BackSlash \<equiv> 115"
abbreviation (input) RNS_KEY_BraceLeft :: rnsKey where "RNS_KEY_BraceLeft \<equiv> 116"
abbreviation (input) RNS_KEY_BraceRight :: rnsKey where "RNS_KEY_BraceRight \<equiv> 117"
abbreviation (input) RNS_KEY_BracketLeft :: rnsKey where "RNS_KEY_BracketLeft \<equiv> 118"
abbreviation (input) RNS_KEY_BracketRight :: rnsKey where "RNS_KEY_BracketRight \<equiv> 119"
abbreviation (input) RNS_KEY_Minus :: rnsKey where "RNS_KEY_Minus \<equiv> 120"
abbreviation (input) RNS_KEY_Equal :: rnsKey where "RNS_KEY_Equal \<equiv> 121"
abbreviation (input) RNS_KEY_Percent :: rnsKey where "RNS_KEY_Percent \<equiv> 122"
abbreviation (input) RNS_KEY_Plus :: rnsKey where "RNS_KEY_Plus \<equiv> 123"
abbreviation (input) RNS_KEY_Greater :: rnsKey where "RNS_KEY_Greater \<equiv> 124"
abbreviation (input) RNS_KEY_Less :: rnsKey where "RNS_KEY_Less \<equiv> 125"
abbreviation (input) RNS_KEY_Delete :: rnsKey where "RNS_KEY_Delete \<equiv> 126"
abbreviation (input) RNS_KEY_Back :: rnsKey where "RNS_KEY_Back \<equiv> 127"
abbreviation (input) RNS_KEY_Caps_Lock :: rnsKey where "RNS_KEY_Caps_Lock \<equiv> 128"
abbreviation (input) RNS_KEY_Alt_L :: rnsKey where "RNS_KEY_Alt_L \<equiv> 129"
abbreviation (input) RNS_KEY_Alt_R :: rnsKey where "RNS_KEY_Alt_R \<equiv> 130"
abbreviation (input) RNS_KEY_Shift_L :: rnsKey where "RNS_KEY_Shift_L \<equiv> 131"
abbreviation (input) RNS_KEY_Shift_R :: rnsKey where "RNS_KEY_Shift_R \<equiv> 132"
abbreviation (input) RNS_KEY_Control_L :: rnsKey where "RNS_KEY_Control_L \<equiv> 133"
abbreviation (input) RNS_KEY_Control_R :: rnsKey where "RNS_KEY_Control_R \<equiv> 134"
abbreviation (input) RNS_KEY_Tab :: rnsKey where "RNS_KEY_Tab \<equiv> 135"
abbreviation (input) RNS_KEY_Page_Up :: rnsKey where "RNS_KEY_Page_Up \<equiv> 136"
abbreviation (input) RNS_KEY_Page_Down :: rnsKey where "RNS_KEY_Page_Down \<equiv> 137"
abbreviation (input) RNS_KEY_Escape :: rnsKey where "RNS_KEY_Escape \<equiv> 138"
abbreviation (input) RNS_KEY_Home :: rnsKey where "RNS_KEY_Home \<equiv> 139"
abbreviation (input) RNS_KEY_EndKey :: rnsKey where "RNS_KEY_EndKey \<equiv> 140"
abbreviation (input) RNS_KEY_Insert :: rnsKey where "RNS_KEY_Insert \<equiv> 141"
abbreviation (input) RNS_KEY_UnKnown :: rnsKey where "RNS_KEY_UnKnown \<equiv> 142"
abbreviation (input) RNS_KEY_End :: rnsKey where "RNS_KEY_End \<equiv> 143"

datatype rnsKeyAction = RNS_KEY_UnknownAction | RNS_KEY_Press | RNS_KEY_Release

section \<open>The names\<close>

definition RNSKeyMap :: "string list" where
  "RNSKeyMap = [''powerOff'', ''audioMedia'', ''menu'', ''audioLowerVolume'', ''audioRaiseVolume'',
    ''channelUp'', ''channelDown'', ''help'', ''refresh'', ''stop'', ''play'', ''pause'',
    ''next'', ''rewind'', ''fastForward'', ''previous'', ''green'', ''red'', ''blue'',
    ''yellow'', ''tvRad'', ''audioRecord'', ''aud'', ''cancel'', ''mute'', ''guia'',
    ''select'', ''up'', ''down'', ''right'', ''left''] @
    map (\<lambda>c. [c]) ''1234567890'' @
    map (\<lambda>c. [c]) ''ABCDEFGHIJKLMNOPQRSTUVWXYZ'' @
    map (\<lambda>c. [c]) ''abcdefghijklmnopqrstuvwxyz'' @
    ['' '', [CHR 0x60],
    ''~'', ''!'', ''@'', ''#'', ''$'', ''^'', ''&'', ''*'', ''('', '')'', ''_'', ''/'',
    ''.'', '','', ''?'', [CHR 0x27], [CHR 0x22], '';'', '':'', ''|'', [CHR 0x5C], ''{'',
    ''}'', ''['', '']'', ''-'', ''='', ''%'', ''+'', ''>'', ''<'', ''delete'', ''back'',
    ''capsLock'', ''altL'', ''altR'', ''shiftL'', ''shiftR'', ''controlL'', ''controlR'',
    ''tab'', ''pageUp'', ''pageDown'', ''escape'', ''home'', ''end'', ''insert'',
    ''unKnown'']"

text \<open>
  An access \<open>RNSKeyMap[k]\<close> of the C array. A code outside the array is undefined behaviour.
\<close>

definition key_name :: "rnsKey \<Rightarrow> string option" where
  "key_name k = (if 0 \<le> k then vec_at RNSKeyMap (nat k) else None)"

text \<open>The displayable characters: the first to the last enumerator between the header's two
  comments \<open>Displayable Keys statart\<close> and \<open>Displayable Keys end\<close>.\<close>

definition displayable :: "rnsKey \<Rightarrow> bool" where
  "displayable k \<longleftrightarrow> RNS_KEY_1 \<le> k \<and> k \<le> RNS_KEY_Less"

section \<open>What the ranges mean\<close>

lemma length_RNSKeyMap: "length RNSKeyMap = nat RNS_KEY_End"
  by (simp add: RNSKeyMap_def)

lemma distinct_RNSKeyMap: "distinct RNSKeyMap"
  by code_simp

lemma key_name_defined: "0 \<le> k \<Longrightarrow> k < RNS_KEY_End \<Longrightarrow> key_name k = Some (RNSKeyMap ! nat k)"
  by (simp add: key_name_def vec_at_def length_RNSKeyMap)

text \<open>A bounded range of codes, checked one by one.\<close>

lemma key_range_all:
  assumes "\<forall>k \<in> set [lo..hi]. P k" and "lo \<le> k" and "k \<le> hi"
  shows "P (k :: rnsKey)"
  using assms by simp

lemma displayable_single_check:
  "\<forall>k \<in> set [RNS_KEY_1..RNS_KEY_Less]. map_option length (key_name k) = Some 1"
  by code_simp

lemma displayable_single: "displayable k \<Longrightarrow> \<exists>c. key_name k = Some [c]"
proof -
  assume "displayable k"
  then have "map_option length (key_name k) = Some 1"
    using key_range_all [OF displayable_single_check] by (simp add: displayable_def)
  then show ?thesis
    by (auto simp: length_Suc_conv)
qed

text \<open>
  The upper-case code of a letter is its lower-case code less 26, and the character is the
  lower-case one less \<open>LOWER_TO_UPPER_CASE_OFFSET\<close>.
\<close>

definition upper_char :: "char \<Rightarrow> char" where
  "upper_char c = char_of (of_char c - (32 :: nat))"

definition letter_key :: "rnsKey \<Rightarrow> bool" where
  "letter_key k \<longleftrightarrow> RNS_KEY_a \<le> k \<and> k \<le> RNS_KEY_z"

lemma upper_lower_check:
  "\<forall>k \<in> set [RNS_KEY_a..RNS_KEY_z].
     key_name (k - 26) = map_option (map upper_char) (key_name k)"
  by code_simp

lemma upper_lower:
  "letter_key k \<Longrightarrow> key_name (k - 26) = map_option (map upper_char) (key_name k)"
  using key_range_all [OF upper_lower_check] by (simp add: letter_key_def)

lemma letter_key_upper_range:
  "letter_key k \<Longrightarrow> RNS_KEY_A \<le> k - 26 \<and> k - 26 \<le> RNS_KEY_Z"
  by (simp add: letter_key_def)

end
