(* ===== verification/SkGeom.thy ===== *)
theory SkGeom imports Prelude Complex_Main "HOL-Library.Word" begin

text \<open>
  Rectangles and points as the code uses Skia's. Skia is a git submodule, so its functions are not
  definitions here: a rectangle is the record of its four public fields, and the functions the
  code calls on it (\<open>width\<close>, \<open>contains\<close>, \<open>intersect\<close>, ...) are the fields of a record
  \<open>sk_rect_api\<close> that the model takes as an argument. \<open>sk_rect_laws\<close> states what Skia's
  documentation says of them; a property that needs one of these laws has it as a hypothesis, and
  \<open>sk_rect_ref\<close> is an instance of the laws for the witnesses.

  The accessors \<open>left()\<close>, \<open>top()\<close>, \<open>right()\<close>, \<open>bottom()\<close>, \<open>x()\<close>, \<open>y()\<close> return the fields.
  A scalar (\<open>SkScalar\<close>, \<open>float\<close>, \<open>double\<close>) is an exact rational: rounding is not modelled.
\<close>

section \<open>Scalars\<close>

type_synonym scalar = rat

text \<open>\<open>static_cast<int>(x)\<close> of a floating-point value: rounding towards zero.\<close>

definition trunc :: "scalar \<Rightarrow> int" where
  "trunc x = (if 0 \<le> x then \<lfloor>x\<rfloor> else \<lceil>x\<rceil>)"

text \<open>The same for \<open>unsigned int\<close>; the values the code converts are not negative.\<close>

definition trunc_u :: "scalar \<Rightarrow> nat" where
  "trunc_u x = nat (trunc x)"

lemma trunc_of_int [simp]: "trunc (of_int i) = i"
  by (simp add: trunc_def)

lemma trunc_u_of_nat [simp]: "trunc_u (of_nat n) = n"
  using trunc_of_int [of "int n"] by (simp add: trunc_u_def)

lemma trunc_nonneg: "0 \<le> x \<Longrightarrow> 0 \<le> trunc x"
  by (simp add: trunc_def)

lemma trunc_mono: "x \<le> y \<Longrightarrow> trunc x \<le> trunc y"
proof -
  assume le: "x \<le> y"
  show ?thesis
  proof (cases "0 \<le> x")
    case True
    with le show ?thesis by (simp add: trunc_def floor_mono)
  next
    case x: False
    show ?thesis
    proof (cases "0 \<le> y")
      case True
      from x have "\<lceil>x\<rceil> \<le> 0" by simp
      moreover from True have "0 \<le> \<lfloor>y\<rfloor>" by simp
      ultimately have "\<lceil>x\<rceil> \<le> \<lfloor>y\<rfloor>" by linarith
      with x True show ?thesis by (simp add: trunc_def)
    next
      case False
      with x le show ?thesis by (simp add: trunc_def ceiling_mono)
    qed
  qed
qed

lemma trunc_u_mono: "x \<le> y \<Longrightarrow> trunc_u x \<le> trunc_u y"
  by (simp add: trunc_u_def nat_mono trunc_mono)

section \<open>Rectangles\<close>

record sk_irect =
  fLeft :: int
  fTop :: int
  fRight :: int
  fBottom :: int

text \<open>Fields of an \<open>SkIRect\<close> are 32-bit signed integers.\<close>

definition int32 :: "int \<Rightarrow> bool" where
  "int32 i \<longleftrightarrow> - (2 ^ 31) \<le> i \<and> i < 2 ^ 31"

definition irect32 :: "sk_irect \<Rightarrow> bool" where
  "irect32 r \<longleftrightarrow> int32 (fLeft r) \<and> int32 (fTop r) \<and> int32 (fRight r) \<and> int32 (fBottom r)"

text \<open>A 32-bit signed result that wraps around.\<close>

definition wrap32 :: "int \<Rightarrow> int" where
  "wrap32 i = signed_take_bit 31 i"

lemma wrap32_id: "int32 i \<Longrightarrow> wrap32 i = i"
  by (simp add: int32_def wrap32_def signed_take_bit_int_eq_self)

lemma wrap32_inj:
  assumes "wrap32 (a - c) = wrap32 (b - c)" and "int32 a" and "int32 b"
  shows "a = b"
proof -
  have "wrap32 (wrap32 (a - c) + wrap32 c) = wrap32 (wrap32 (b - c) + wrap32 c)"
    using assms(1) by simp
  then have "wrap32 (a - c + c) = wrap32 (b - c + c)"
    unfolding wrap32_def by (simp only: signed_take_bit_add)
  with assms(2,3) show ?thesis by (simp add: wrap32_id)
qed

definition irect_empty :: "sk_irect \<Rightarrow> bool" where
  "irect_empty r \<longleftrightarrow> fRight r \<le> fLeft r \<or> fBottom r \<le> fTop r"

text \<open>A \<open>Rect\<close> of React Native, with an origin and a size.\<close>

record f_rect =
  rx :: scalar
  ry :: scalar
  rw :: scalar
  rh :: scalar

section \<open>What the code calls of Skia\<close>

record sk_rect_api =
  irect_width :: "sk_irect \<Rightarrow> int"
  irect_height :: "sk_irect \<Rightarrow> int"
  irect_makeXYWH :: "int \<Rightarrow> int \<Rightarrow> int \<Rightarrow> int \<Rightarrow> sk_irect"
  irect_makeOffset :: "sk_irect \<Rightarrow> int \<Rightarrow> int \<Rightarrow> sk_irect"
  irect_contains :: "sk_irect \<Rightarrow> sk_irect \<Rightarrow> bool"
  irect_intersect :: "sk_irect \<Rightarrow> sk_irect \<Rightarrow> sk_irect option"
  rect_setXYWH :: "int \<Rightarrow> int \<Rightarrow> int \<Rightarrow> int \<Rightarrow> sk_irect"

text \<open>
  The documented behaviour. \<open>width\<close> and \<open>height\<close> are the spans, which may overflow;
  \<open>MakeXYWH\<close> saturates nothing for coordinates whose sums fit; \<open>contains\<close> is false when either
  rectangle is empty; \<open>intersect\<close> returns false (here \<open>None\<close>) when either is empty or they do not
  overlap, and the overlap otherwise. \<open>SkRect::setXYWH\<close> is used with whole numbers only: its right
  edge is the sum where a \<open>float\<close> holds it exactly, and never left of its left edge.
\<close>

definition overlap :: "sk_irect \<Rightarrow> sk_irect \<Rightarrow> sk_irect" where
  "overlap a b = \<lparr>fLeft = max (fLeft a) (fLeft b), fTop = max (fTop a) (fTop b),
     fRight = min (fRight a) (fRight b), fBottom = min (fBottom a) (fBottom b)\<rparr>"

definition covers :: "sk_irect \<Rightarrow> sk_irect \<Rightarrow> bool" where
  "covers a b \<longleftrightarrow> \<not> irect_empty a \<and> \<not> irect_empty b \<and> fLeft a \<le> fLeft b \<and> fTop a \<le> fTop b \<and>
     fRight b \<le> fRight a \<and> fBottom b \<le> fBottom a"

definition sk_rect_laws :: "sk_rect_api \<Rightarrow> bool" where
  "sk_rect_laws sk \<longleftrightarrow>
     (\<forall>r. irect_width sk r = wrap32 (fRight r - fLeft r)) \<and>
     (\<forall>r. irect_height sk r = wrap32 (fBottom r - fTop r)) \<and>
     (\<forall>x y w h. int32 (x + w) \<longrightarrow> int32 (y + h) \<longrightarrow>
        irect_makeXYWH sk x y w h = \<lparr>fLeft = x, fTop = y, fRight = x + w, fBottom = y + h\<rparr>) \<and>
     (\<forall>r dx dy. irect32 r \<longrightarrow> int32 (fLeft r + dx) \<longrightarrow> int32 (fRight r + dx) \<longrightarrow>
        int32 (fTop r + dy) \<longrightarrow> int32 (fBottom r + dy) \<longrightarrow>
        irect_makeOffset sk r dx dy =
          \<lparr>fLeft = fLeft r + dx, fTop = fTop r + dy, fRight = fRight r + dx,
            fBottom = fBottom r + dy\<rparr>) \<and>
     (\<forall>a b. irect_contains sk a b \<longleftrightarrow> covers a b) \<and>
     (\<forall>a b. irect_intersect sk a b =
        (if irect_empty a \<or> irect_empty b \<or> irect_empty (overlap a b) then None
         else Some (overlap a b))) \<and>
     (\<forall>x y w h. 0 \<le> w \<longrightarrow> fLeft (rect_setXYWH sk x y w h) = x \<and>
        x \<le> fRight (rect_setXYWH sk x y w h)) \<and>
     (\<forall>x y w h. \<bar>x\<bar> + \<bar>w\<bar> < 2 ^ 24 \<longrightarrow> \<bar>y\<bar> + \<bar>h\<bar> < 2 ^ 24 \<longrightarrow>
        rect_setXYWH sk x y w h = \<lparr>fLeft = x, fTop = y, fRight = x + w, fBottom = y + h\<rparr>)"

definition sk_rect_ref :: sk_rect_api where
  "sk_rect_ref = \<lparr>irect_width = (\<lambda>r. wrap32 (fRight r - fLeft r)),
     irect_height = (\<lambda>r. wrap32 (fBottom r - fTop r)),
     irect_makeXYWH = (\<lambda>x y w h. \<lparr>fLeft = x, fTop = y, fRight = x + w, fBottom = y + h\<rparr>),
     irect_makeOffset = (\<lambda>r dx dy. \<lparr>fLeft = fLeft r + dx, fTop = fTop r + dy,
        fRight = fRight r + dx, fBottom = fBottom r + dy\<rparr>),
     irect_contains = covers,
     irect_intersect = (\<lambda>a b. if irect_empty a \<or> irect_empty b \<or> irect_empty (overlap a b)
        then None else Some (overlap a b)),
     rect_setXYWH = (\<lambda>x y w h. \<lparr>fLeft = x, fTop = y, fRight = x + w, fBottom = y + h\<rparr>)\<rparr>"

lemma sk_rect_ref_laws [simp]: "sk_rect_laws sk_rect_ref"
  by (simp add: sk_rect_laws_def sk_rect_ref_def)

lemma sk_width: "sk_rect_laws sk \<Longrightarrow> irect_width sk r = wrap32 (fRight r - fLeft r)"
  and sk_height: "sk_rect_laws sk \<Longrightarrow> irect_height sk r = wrap32 (fBottom r - fTop r)"
  and sk_contains: "sk_rect_laws sk \<Longrightarrow> irect_contains sk a b \<longleftrightarrow> covers a b"
  and sk_makeXYWH: "sk_rect_laws sk \<Longrightarrow> int32 (x + w) \<Longrightarrow> int32 (y + h) \<Longrightarrow>
     irect_makeXYWH sk x y w h = \<lparr>fLeft = x, fTop = y, fRight = x + w, fBottom = y + h\<rparr>"
  and sk_intersect: "sk_rect_laws sk \<Longrightarrow> irect_intersect sk a b =
     (if irect_empty a \<or> irect_empty b \<or> irect_empty (overlap a b) then None
      else Some (overlap a b))"
  and sk_setXYWH: "sk_rect_laws sk \<Longrightarrow> 0 \<le> w \<Longrightarrow> fLeft (rect_setXYWH sk x y w h) = x \<and>
     x \<le> fRight (rect_setXYWH sk x y w h)"
  by (simp_all add: sk_rect_laws_def)

lemma covers_trans: "covers a b \<Longrightarrow> covers b c \<Longrightarrow> covers a c"
  by (auto simp: covers_def)

lemma covers_refl: "\<not> irect_empty a \<Longrightarrow> covers a a"
  by (simp add: covers_def)

lemma covers_antisym: "covers a b \<Longrightarrow> covers b a \<Longrightarrow> a = b"
  by (cases a; cases b) (auto simp: covers_def)

end
