(* ===== verification/OskLayout.thy ===== *)
theory OskLayout imports RnsKeys SkGeom begin

text \<open>
  The layouts of the on-screen keyboard: the key tables of \<open>sdk/OSKLayout.h\<close> and
  \<open>OnScreenKeyboard::createOSKLayout\<close> (\<open>sdk/OnScreenKeyBoard.cpp\<close>), which picks a table, computes
  the highlight tile of every key from the screen size and the fonts, and computes for every key
  the key that each navigation key moves the focus to.

  A key index is the pair \<open>(key in the row, row)\<close>, the \<open>x\<close> and \<open>y\<close> of the code's \<open>SkPoint\<close>.
  The text positions, which need Skia's font metrics, are not modelled.

  The lemmas show that the computation never reads outside a table, that every key has its four
  siblings inside the table, that moving right undoes moving left, and that moving up or down stays
  in the key's group.
\<close>

section \<open>Types\<close>

datatype OSKTypes = OSK_ALPHA_NUMERIC_KB | OSK_NUMERIC_KB | OSK_TYPE_END

datatype OSKThemes = OSK_DARK_THEME | OSK_LIGHT_THEME

datatype OSKReturnKeyType =
  OSK_RETURN_KEY_DEFAULT | OSK_RETURN_KEY_SEARCH | OSK_RETURN_KEY_SUPPORT_END

datatype KBLayoutType =
  ALPHA_LOWERCASE_LAYOUT | ALPHA_UPPERCASE_LAYOUT | SYMBOL_LAYOUT | NUMERIC_LAYOUT

datatype keyType = KEY_TYPE_TOGGLE | KEY_TYPE_TEXT | KEY_TYPE_FUNCTION | KEY_TYPE_COUNT

record key_info =
  keyName :: string
  keyValue :: rnsKey
  key_type :: keyType
  kbPartitionId :: nat

record key_pos =
  highlightTile :: sk_irect

type_synonym key_index = "nat \<times> nat"

record key_sibling_info =
  siblingRight :: key_index
  siblingLeft :: key_index
  siblingUp :: key_index
  siblingDown :: key_index

record key_placement =
  groupOffset :: "scalar \<times> scalar"
  groupKeySpacing :: "scalar \<times> scalar"
  hlTileFontSizeMultiplier :: scalar
  fontScaleFactor :: scalar
  maxTextLength :: nat

abbreviation (input) GROUP1 :: nat where "GROUP1 \<equiv> 0"
abbreviation (input) GROUP2 :: nat where "GROUP2 \<equiv> 1"
abbreviation (input) GROUP3 :: nat where "GROUP3 \<equiv> 2"
abbreviation (input) GROUP4 :: nat where "GROUP4 \<equiv> 3"

section \<open>The tables\<close>

definition key_entry :: "string \<Rightarrow> rnsKey \<Rightarrow> keyType \<Rightarrow> nat \<Rightarrow> key_info" where
  "key_entry n k t g = \<lparr>keyName = n, keyValue = k, key_type = t, kbPartitionId = g\<rparr>"

lemma key_entry_sel [simp]:
  "keyName (key_entry n k t g) = n" "keyValue (key_entry n k t g) = k"
  "key_type (key_entry n k t g) = t" "kbPartitionId (key_entry n k t g) = g"
  by (simp_all add: key_entry_def)

definition alphaNumericKBKeyInfo :: "key_info list list" where
  "alphaNumericKBKeyInfo = [
    [key_entry ''123ABC'' RNS_KEY_UnKnown KEY_TYPE_TOGGLE GROUP1,
     key_entry ''1'' RNS_KEY_1 KEY_TYPE_TEXT GROUP2,
     key_entry ''2'' RNS_KEY_2 KEY_TYPE_TEXT GROUP2,
     key_entry ''3'' RNS_KEY_3 KEY_TYPE_TEXT GROUP2,
     key_entry ''a'' RNS_KEY_a KEY_TYPE_TEXT GROUP3,
     key_entry ''b'' RNS_KEY_b KEY_TYPE_TEXT GROUP3,
     key_entry ''c'' RNS_KEY_c KEY_TYPE_TEXT GROUP3,
     key_entry ''d'' RNS_KEY_d KEY_TYPE_TEXT GROUP3,
     key_entry ''e'' RNS_KEY_e KEY_TYPE_TEXT GROUP3,
     key_entry ''f'' RNS_KEY_f KEY_TYPE_TEXT GROUP3,
     key_entry ''g'' RNS_KEY_g KEY_TYPE_TEXT GROUP3,
     key_entry ''h'' RNS_KEY_h KEY_TYPE_TEXT GROUP3,
     key_entry ''i'' RNS_KEY_i KEY_TYPE_TEXT GROUP3,
     key_entry ''space'' RNS_KEY_Space KEY_TYPE_FUNCTION GROUP4],
    [key_entry ''123abc'' RNS_KEY_UnKnown KEY_TYPE_TOGGLE GROUP1,
     key_entry ''4'' RNS_KEY_4 KEY_TYPE_TEXT GROUP2,
     key_entry ''5'' RNS_KEY_5 KEY_TYPE_TEXT GROUP2,
     key_entry ''6'' RNS_KEY_6 KEY_TYPE_TEXT GROUP2,
     key_entry ''j'' RNS_KEY_j KEY_TYPE_TEXT GROUP3,
     key_entry ''k'' RNS_KEY_k KEY_TYPE_TEXT GROUP3,
     key_entry ''l'' RNS_KEY_l KEY_TYPE_TEXT GROUP3,
     key_entry ''m'' RNS_KEY_m KEY_TYPE_TEXT GROUP3,
     key_entry ''n'' RNS_KEY_n KEY_TYPE_TEXT GROUP3,
     key_entry ''o'' RNS_KEY_o KEY_TYPE_TEXT GROUP3,
     key_entry ''p'' RNS_KEY_p KEY_TYPE_TEXT GROUP3,
     key_entry ''q'' RNS_KEY_q KEY_TYPE_TEXT GROUP3,
     key_entry ''r'' RNS_KEY_r KEY_TYPE_TEXT GROUP3,
     key_entry ''delete'' RNS_KEY_Delete KEY_TYPE_FUNCTION GROUP4],
    [key_entry ''@?#'' RNS_KEY_UnKnown KEY_TYPE_TOGGLE GROUP1,
     key_entry ''7'' RNS_KEY_7 KEY_TYPE_TEXT GROUP2,
     key_entry ''8'' RNS_KEY_8 KEY_TYPE_TEXT GROUP2,
     key_entry ''9'' RNS_KEY_9 KEY_TYPE_TEXT GROUP2,
     key_entry ''s'' RNS_KEY_s KEY_TYPE_TEXT GROUP3,
     key_entry ''t'' RNS_KEY_t KEY_TYPE_TEXT GROUP3,
     key_entry ''u'' RNS_KEY_u KEY_TYPE_TEXT GROUP3,
     key_entry ''v'' RNS_KEY_v KEY_TYPE_TEXT GROUP3,
     key_entry ''w'' RNS_KEY_w KEY_TYPE_TEXT GROUP3,
     key_entry ''x'' RNS_KEY_x KEY_TYPE_TEXT GROUP3,
     key_entry ''y'' RNS_KEY_y KEY_TYPE_TEXT GROUP3,
     key_entry ''z'' RNS_KEY_z KEY_TYPE_TEXT GROUP3,
     key_entry ''.'' RNS_KEY_Period KEY_TYPE_TEXT GROUP3,
     key_entry ''return'' RNS_KEY_Select KEY_TYPE_FUNCTION GROUP4],
    [key_entry ''-'' RNS_KEY_Minus KEY_TYPE_TEXT GROUP2,
     key_entry ''0'' RNS_KEY_0 KEY_TYPE_TEXT GROUP2,
     key_entry ''_'' RNS_KEY_Underscore KEY_TYPE_TEXT GROUP2,
     key_entry ''!'' RNS_KEY_Exclam KEY_TYPE_TEXT GROUP3,
     key_entry ''@'' RNS_KEY_At KEY_TYPE_TEXT GROUP3,
     key_entry ''#'' RNS_KEY_Numbersign KEY_TYPE_TEXT GROUP3,
     key_entry ''?'' RNS_KEY_Question KEY_TYPE_TEXT GROUP3,
     key_entry ''*'' RNS_KEY_Asterisk KEY_TYPE_TEXT GROUP3,
     key_entry '','' RNS_KEY_Comma KEY_TYPE_TEXT GROUP3,
     key_entry '';'' RNS_KEY_Semicolon KEY_TYPE_TEXT GROUP3,
     key_entry ''right'' RNS_KEY_Right KEY_TYPE_FUNCTION GROUP3,
     key_entry ''left'' RNS_KEY_Left KEY_TYPE_FUNCTION GROUP3]]"

definition symbolKBKBKeyInfo :: "key_info list list" where
  "symbolKBKBKeyInfo = [
    [key_entry ''123ABC'' RNS_KEY_UnKnown KEY_TYPE_TOGGLE GROUP1,
     key_entry ''!'' RNS_KEY_Exclam KEY_TYPE_TEXT GROUP2,
     key_entry ''@'' RNS_KEY_At KEY_TYPE_TEXT GROUP2,
     key_entry ''#'' RNS_KEY_Numbersign KEY_TYPE_TEXT GROUP2,
     key_entry ''$'' RNS_KEY_Dollar KEY_TYPE_TEXT GROUP2,
     key_entry ''^'' RNS_KEY_Asciicircum KEY_TYPE_TEXT GROUP2,
     key_entry ''&'' RNS_KEY_Ampersand KEY_TYPE_TEXT GROUP2,
     key_entry ''*'' RNS_KEY_Asterisk KEY_TYPE_TEXT GROUP2,
     key_entry ''~'' RNS_KEY_Asciitilde KEY_TYPE_TEXT GROUP2,
     key_entry ''('' RNS_KEY_ParenLeft KEY_TYPE_TEXT GROUP2,
     key_entry '')'' RNS_KEY_ParenRight KEY_TYPE_TEXT GROUP2,
     key_entry '','' RNS_KEY_Comma KEY_TYPE_TEXT GROUP2,
     key_entry ''.'' RNS_KEY_Period KEY_TYPE_TEXT GROUP2,
     key_entry ''space'' RNS_KEY_Space KEY_TYPE_FUNCTION GROUP3],
    [key_entry ''123abc'' RNS_KEY_UnKnown KEY_TYPE_TOGGLE GROUP1,
     key_entry '';'' RNS_KEY_Semicolon KEY_TYPE_TEXT GROUP2,
     key_entry '':'' RNS_KEY_Colon KEY_TYPE_TEXT GROUP2,
     key_entry ''|'' RNS_KEY_Bar KEY_TYPE_TEXT GROUP2,
     key_entry [CHR 0x5C] RNS_KEY_BackSlash KEY_TYPE_TEXT GROUP2,
     key_entry ''/'' RNS_KEY_Shash KEY_TYPE_TEXT GROUP2,
     key_entry ''{'' RNS_KEY_BraceLeft KEY_TYPE_TEXT GROUP2,
     key_entry ''}'' RNS_KEY_BraceRight KEY_TYPE_TEXT GROUP2,
     key_entry ''['' RNS_KEY_BracketLeft KEY_TYPE_TEXT GROUP2,
     key_entry '']'' RNS_KEY_BracketRight KEY_TYPE_TEXT GROUP2,
     key_entry [CHR 0x60] RNS_KEY_Grave KEY_TYPE_TEXT GROUP2,
     key_entry [CHR 0x27] RNS_KEY_Apostrophe KEY_TYPE_TEXT GROUP2,
     key_entry ''_'' RNS_KEY_Underscore KEY_TYPE_TEXT GROUP2,
     key_entry ''delete'' RNS_KEY_Delete KEY_TYPE_FUNCTION GROUP3],
    [key_entry ''@?#'' RNS_KEY_UnKnown KEY_TYPE_TOGGLE GROUP1,
     key_entry ''%'' RNS_KEY_Percent KEY_TYPE_TEXT GROUP2,
     key_entry ''>'' RNS_KEY_Greater KEY_TYPE_TEXT GROUP2,
     key_entry ''<'' RNS_KEY_Less KEY_TYPE_TEXT GROUP2,
     key_entry ''?'' RNS_KEY_Question KEY_TYPE_TEXT GROUP2,
     key_entry [CHR 0x22] RNS_KEY_Quotedbl KEY_TYPE_TEXT GROUP2,
     key_entry ''='' RNS_KEY_Equal KEY_TYPE_TEXT GROUP2,
     key_entry ''+'' RNS_KEY_Plus KEY_TYPE_TEXT GROUP2,
     key_entry ''-'' RNS_KEY_Minus KEY_TYPE_TEXT GROUP2,
     key_entry ''right'' RNS_KEY_Right KEY_TYPE_FUNCTION GROUP2,
     key_entry ''left'' RNS_KEY_Left KEY_TYPE_FUNCTION GROUP2,
     key_entry ''return'' RNS_KEY_Select KEY_TYPE_FUNCTION GROUP3]]"

definition numericKBKeyKeyInfo :: "key_info list list" where
  "numericKBKeyKeyInfo = [
    [key_entry ''1'' RNS_KEY_1 KEY_TYPE_TEXT GROUP1,
     key_entry ''2'' RNS_KEY_2 KEY_TYPE_TEXT GROUP1,
     key_entry ''3'' RNS_KEY_3 KEY_TYPE_TEXT GROUP1,
     key_entry ''-'' RNS_KEY_Underscore KEY_TYPE_TEXT GROUP1],
    [key_entry ''4'' RNS_KEY_4 KEY_TYPE_TEXT GROUP1,
     key_entry ''5'' RNS_KEY_5 KEY_TYPE_TEXT GROUP1,
     key_entry ''6'' RNS_KEY_6 KEY_TYPE_TEXT GROUP1,
     key_entry ''space'' RNS_KEY_Space KEY_TYPE_FUNCTION GROUP1],
    [key_entry ''7'' RNS_KEY_7 KEY_TYPE_TEXT GROUP1,
     key_entry ''8'' RNS_KEY_8 KEY_TYPE_TEXT GROUP1,
     key_entry ''9'' RNS_KEY_9 KEY_TYPE_TEXT GROUP1,
     key_entry ''delete'' RNS_KEY_Delete KEY_TYPE_FUNCTION GROUP1],
    [key_entry '','' RNS_KEY_Comma KEY_TYPE_TEXT GROUP1,
     key_entry ''0'' RNS_KEY_0 KEY_TYPE_TEXT GROUP1,
     key_entry ''.'' RNS_KEY_Period KEY_TYPE_TEXT GROUP1,
     key_entry ''return'' RNS_KEY_Select KEY_TYPE_FUNCTION GROUP1]]"

definition placement :: "int \<times> int \<Rightarrow> int \<times> int \<Rightarrow> scalar \<Rightarrow> scalar \<Rightarrow> nat \<Rightarrow> key_placement" where
  "placement off sp m f n = \<lparr>groupOffset = map_prod of_int of_int off,
     groupKeySpacing = map_prod of_int of_int sp, hlTileFontSizeMultiplier = m,
     fontScaleFactor = f, maxTextLength = n\<rparr>"

definition alphaNumericKBGroupConfig :: "key_placement list" where
  "alphaNumericKBGroupConfig =
    [placement (20, 60) (15, 30) (13/10) (3/4) 4,
     placement (150, 40) (15, 15) (5/4) 1 1,
     placement (320, 40) (15, 15) (5/4) 1 1,
     placement (820, 50) (15, 15) (3/2) 1 1]"

definition symbolKBGroupConfig :: "key_placement list" where
  "symbolKBGroupConfig =
    [placement (20, 60) (15, 30) (13/10) (3/4) 4,
     placement (150, 40) (15, 25) (13/10) 1 1,
     placement (820, 50) (30, 15) (3/2) 1 1]"

definition numericKBGroupConfig :: "key_placement list" where
  "numericKBGroupConfig = [placement (250, 30) (40, 40) (13/10) (3/2) 1]"

text \<open>\<open>toggleKeyMap\<close>: the layout a toggle key selects.\<close>

definition toggleKeyMap :: "(string \<times> KBLayoutType) list" where
  "toggleKeyMap = [(''123ABC'', ALPHA_UPPERCASE_LAYOUT), (''123abc'', ALPHA_LOWERCASE_LAYOUT),
     (''@?#'', SYMBOL_LAYOUT)]"

text \<open>\<open>functionKeyMap\<close>: the code point and font scale a function key is drawn with.\<close>

definition functionKeyMap :: "(string \<times> nat \<times> scalar) list" where
  "functionKeyMap = [(''delete'', 0x232B, 1), (''space'', 0x23B5, 2), (''return'', 0x23CE, 3/2),
     (''enter'', 0x23CE, 3/2), (''search'', 0x2315, 5/2), (''right'', 0x25BA, 1),
     (''left'', 0x25C4, 1)]"

text \<open>The three sets of tables the layout pointers are set to.\<close>

datatype kb_table = AlphaNumericKB | SymbolKB | NumericKB

fun table_keys :: "kb_table \<Rightarrow> key_info list list" where
  "table_keys AlphaNumericKB = alphaNumericKBKeyInfo"
| "table_keys SymbolKB = symbolKBKBKeyInfo"
| "table_keys NumericKB = numericKBKeyKeyInfo"

fun table_groups :: "kb_table \<Rightarrow> key_placement list" where
  "table_groups AlphaNumericKB = alphaNumericKBGroupConfig"
| "table_groups SymbolKB = symbolKBGroupConfig"
| "table_groups NumericKB = numericKBGroupConfig"

fun table_returnKeyIndex :: "kb_table \<Rightarrow> key_index" where
  "table_returnKeyIndex AlphaNumericKB = (13, 2)"
| "table_returnKeyIndex SymbolKB = (11, 2)"
| "table_returnKeyIndex NumericKB = (3, 3)"

fun table_defaultFocussIndex :: "kb_table \<Rightarrow> key_index" where
  "table_defaultFocussIndex AlphaNumericKB = (7, 0)"
| "table_defaultFocussIndex SymbolKB = (7, 0)"
| "table_defaultFocussIndex NumericKB = (2, 0)"

section \<open>createOSKLayout\<close>

text \<open>Which tables the layout uses.\<close>

definition select_table :: "OSKTypes \<Rightarrow> KBLayoutType \<Rightarrow> kb_table" where
  "select_table oskType kbLayoutType =
     (if oskType = OSK_NUMERIC_KB then NumericKB
      else if kbLayoutType = SYMBOL_LAYOUT then SymbolKB else AlphaNumericKB)"

text \<open>
  What the tile computation reads of the keyboard: the screen size, the two font sizes and the
  start offsets, all set by \<open>launchOSKWindow\<close>.
\<close>

record tile_env =
  env_width :: scalar
  env_height :: scalar
  textFontSize :: scalar
  textHLFontSize :: scalar
  horizontalStartOffset :: scalar
  kBVerticalStart :: scalar

text \<open>The local variables of the tile loop that live from one key to the next.\<close>

record tile_ctx =
  groupKeyIndex :: nat
  groupHLTileWidth :: nat
  groupHLTileHeigth :: nat
  ctx_offset :: "scalar \<times> scalar"
  ctx_spacing :: "scalar \<times> scalar"

definition tile_ctx0 :: tile_ctx where
  "tile_ctx0 = \<lparr>groupKeyIndex = 0, groupHLTileWidth = 0, groupHLTileHeigth = 0,
     ctx_offset = (0, 0), ctx_spacing = (0, 0)\<rparr>"

text \<open>The part of the body under \<open>if(!groupKeyIndex)\<close>: the first key of a group in a row.\<close>

definition enter_group :: "tile_env \<Rightarrow> key_placement \<Rightarrow> tile_ctx \<Rightarrow> tile_ctx" where
  "enter_group env c ctx =
     (let XscaleFactor = env_width env / 1280;
          YscaleFactor = env_height env / 720;
          wide = trunc_u (textHLFontSize env * of_nat (maxTextLength c) * fontScaleFactor c *
                          hlTileFontSizeMultiplier c);
          high = (if maxTextLength c \<noteq> 0
                  then trunc_u (textHLFontSize env * fontScaleFactor c *
                                hlTileFontSizeMultiplier c)
                  else wide)
      in ctx\<lparr>groupHLTileWidth := wide, groupHLTileHeigth := high,
           ctx_offset := (fst (groupOffset c) * XscaleFactor, snd (groupOffset c) * YscaleFactor),
           ctx_spacing := (fst (groupKeySpacing c) * XscaleFactor,
                           snd (groupKeySpacing c) * YscaleFactor)\<rparr>)"

text \<open>The tile of one key; \<open>prev\<close> is the group of the key before it in the row.\<close>

definition tile_step ::
  "sk_rect_api \<Rightarrow> tile_env \<Rightarrow> key_placement list \<Rightarrow> nat \<Rightarrow> nat option \<Rightarrow> tile_ctx \<Rightarrow> key_info \<Rightarrow>
   (tile_ctx \<times> key_pos) option" where
  "tile_step sk env cfg rowIndex prev ctx key =
     (let groupID = kbPartitionId key;
          gki = (case prev of None \<Rightarrow> 0
                 | Some p \<Rightarrow> if groupID \<noteq> p then 0 else Suc (groupKeyIndex ctx));
          ctx1 = ctx\<lparr>groupKeyIndex := gki\<rparr>
      in do {
        ctx2 \<leftarrow> (if gki = 0 then map_option (\<lambda>c. enter_group env c ctx1) (vec_at cfg groupID)
                else Some ctx1);
        let hlX = trunc_u (horizontalStartOffset env + fst (ctx_offset ctx2) +
              (of_nat (groupHLTileWidth ctx2) + fst (ctx_spacing ctx2)) * of_nat gki);
        let hlY = trunc_u (kBVerticalStart env + snd (ctx_offset ctx2) +
              (of_nat (groupHLTileHeigth ctx2) + snd (ctx_spacing ctx2)) * of_nat rowIndex);
        Some (ctx2, \<lparr>highlightTile = rect_setXYWH sk (int hlX) (int hlY)
                       (int (groupHLTileWidth ctx2)) (int (groupHLTileHeigth ctx2))\<rparr>)
      })"

fun tile_row ::
  "sk_rect_api \<Rightarrow> tile_env \<Rightarrow> key_placement list \<Rightarrow> nat \<Rightarrow> nat option \<Rightarrow> tile_ctx \<Rightarrow>
   key_info list \<Rightarrow> (tile_ctx \<times> key_pos list) option" where
  "tile_row sk env cfg r prev ctx [] = Some (ctx, [])"
| "tile_row sk env cfg r prev ctx (k # ks) = do {
     (ctx1, p) \<leftarrow> tile_step sk env cfg r prev ctx k;
     (ctx2, ps) \<leftarrow> tile_row sk env cfg r (Some (kbPartitionId k)) ctx1 ks;
     Some (ctx2, p # ps)
   }"

fun tile_rows ::
  "sk_rect_api \<Rightarrow> tile_env \<Rightarrow> key_placement list \<Rightarrow> nat \<Rightarrow> tile_ctx \<Rightarrow>
   key_info list list \<Rightarrow> key_pos list list option" where
  "tile_rows sk env cfg r ctx [] = Some []"
| "tile_rows sk env cfg r ctx (row # rows) = do {
     (ctx1, ps) \<leftarrow> tile_row sk env cfg r None ctx row;
     pss \<leftarrow> tile_rows sk env cfg (Suc r) ctx1 rows;
     Some (ps # pss)
   }"

text \<open>
  The vertical search: go round the rows, at most once, and take the first key of the first row
  that \<open>hit\<close> accepts. The inner loop accepts a key of the same group whose tile does not end left
  of the start of this key's tile.
\<close>

fun sib_search :: "(nat \<Rightarrow> nat) \<Rightarrow> (nat \<Rightarrow> nat option) \<Rightarrow> nat \<Rightarrow> nat \<Rightarrow> key_index option" where
  "sib_search next_row hit 0 index = None"
| "sib_search next_row hit (Suc n) index =
     (let index' = next_row index
      in case hit index' of Some i \<Rightarrow> Some (i, index')
         | None \<Rightarrow> sib_search next_row hit n index')"

definition row_above :: "nat \<Rightarrow> nat \<Rightarrow> nat" where
  "row_above rowCount index = (if index \<noteq> 0 then index - 1 else rowCount - 1)"

definition row_below :: "nat \<Rightarrow> nat \<Rightarrow> nat" where
  "row_below rowCount index = (if index \<noteq> rowCount - 1 then index + 1 else 0)"

definition sib_hit ::
  "key_info list list \<Rightarrow> key_pos list list \<Rightarrow> nat \<Rightarrow> int \<Rightarrow> nat \<Rightarrow> nat option" where
  "sib_hit keys pos groupID x index =
     find_index (\<lambda>(k, p). groupID = kbPartitionId k \<and>
        (x \<le> fLeft (highlightTile p) \<or> x \<le> fRight (highlightTile p)))
       (zip (keys ! index) (pos ! index))"

definition siblings_of ::
  "key_info list list \<Rightarrow> key_pos list list \<Rightarrow> nat \<Rightarrow> nat \<Rightarrow> key_sibling_info" where
  "siblings_of keys pos rowIndex columnIndex =
     (let keyCount = length (keys ! rowIndex);
          rowCount = length keys;
          hit = sib_hit keys pos (kbPartitionId (keys ! rowIndex ! columnIndex))
                  (fLeft (highlightTile (pos ! rowIndex ! columnIndex)))
      in \<lparr>siblingRight = (if columnIndex < keyCount - 1 then columnIndex + 1 else 0, rowIndex),
          siblingLeft = (if columnIndex \<noteq> 0 then columnIndex - 1 else keyCount - 1, rowIndex),
          siblingUp = (case sib_search (row_above rowCount) hit rowCount rowIndex of
             Some s \<Rightarrow> s | None \<Rightarrow> (0, 0)),
          siblingDown = (case sib_search (row_below rowCount) hit rowCount rowIndex of
             Some s \<Rightarrow> s | None \<Rightarrow> (0, 0))\<rparr>)"

definition sibling_grid ::
  "key_info list list \<Rightarrow> key_pos list list \<Rightarrow> key_sibling_info list list" where
  "sibling_grid keys pos =
     map (\<lambda>r. map (siblings_of keys pos r) [0..<length (keys ! r)]) [0..<length keys]"

text \<open>Both passes: the tile and the sibling tables of a layout.\<close>

definition generate_layout ::
  "sk_rect_api \<Rightarrow> tile_env \<Rightarrow> kb_table \<Rightarrow> (key_pos list list \<times> key_sibling_info list list) option"
where
  "generate_layout sk env t = do {
     pos \<leftarrow> tile_rows sk env (table_groups t) 0 tile_ctx0 (table_keys t);
     Some (pos, sibling_grid (table_keys t) pos)
   }"

section \<open>The tables are well formed\<close>

definition wf_table :: "kb_table \<Rightarrow> bool" where
  "wf_table t \<longleftrightarrow> table_keys t \<noteq> [] \<and> (\<forall>row \<in> set (table_keys t). row \<noteq> []) \<and>
     (\<forall>row \<in> set (table_keys t). \<forall>k \<in> set row. kbPartitionId k < length (table_groups t)) \<and>
     in_grid (table_keys t) (snd (table_returnKeyIndex t)) (fst (table_returnKeyIndex t)) \<and>
     in_grid (table_keys t) (snd (table_defaultFocussIndex t)) (fst (table_defaultFocussIndex t))"

lemma wf_table [simp]: "wf_table t"
  by (cases t) (simp_all add: wf_table_def in_grid_def alphaNumericKBKeyInfo_def
    symbolKBKBKeyInfo_def numericKBKeyKeyInfo_def alphaNumericKBGroupConfig_def
    symbolKBGroupConfig_def numericKBGroupConfig_def)

lemma table_groups_cover:
  "row \<in> set (table_keys t) \<Longrightarrow> k \<in> set row \<Longrightarrow> kbPartitionId k < length (table_groups t)"
  using wf_table [of t] unfolding wf_table_def by blast

section \<open>The tile pass\<close>

lemma tile_row_total:
  assumes "\<And>k. k \<in> set ks \<Longrightarrow> kbPartitionId k < length cfg"
  shows "\<exists>ctx' ps. tile_row sk env cfg r prev ctx ks = Some (ctx', ps) \<and> length ps = length ks"
  using assms
proof (induction ks arbitrary: prev ctx)
  case Nil
  then show ?case by simp
next
  case (Cons k ks)
  have "\<exists>c p. tile_step sk env cfg r prev ctx k = Some (c, p)"
    using Cons.prems [of k] by (auto simp: tile_step_def Let_def vec_at_def)
  then obtain c p where step: "tile_step sk env cfg r prev ctx k = Some (c, p)" by blast
  from Cons.IH [of "Some (kbPartitionId k)" c] Cons.prems
  obtain c' ps where "tile_row sk env cfg r (Some (kbPartitionId k)) c ks = Some (c', ps)"
    and "length ps = length ks" by auto
  with step show ?case by simp
qed

lemma tile_rows_total:
  assumes "\<And>row k. row \<in> set rows \<Longrightarrow> k \<in> set row \<Longrightarrow> kbPartitionId k < length cfg"
  shows "\<exists>pss. tile_rows sk env cfg r ctx rows = Some pss \<and> map length pss = map length rows"
  using assms
proof (induction rows arbitrary: r ctx)
  case Nil
  then show ?case by simp
next
  case (Cons row rows)
  from tile_row_total [of row cfg sk env r None ctx] Cons.prems
  obtain c ps where row: "tile_row sk env cfg r None ctx row = Some (c, ps)" "length ps = length row"
    by auto
  from Cons.IH [of "Suc r" c] Cons.prems
  obtain pss where "tile_rows sk env cfg (Suc r) c rows = Some pss"
    and "map length pss = map length rows" by auto
  with row show ?case by simp
qed

text \<open>No tile ends left of its start.\<close>

definition tile_ok :: "key_pos \<Rightarrow> bool" where
  "tile_ok p \<longleftrightarrow> fLeft (highlightTile p) \<le> fRight (highlightTile p)"

lemma tile_step_ok:
  "sk_rect_laws sk \<Longrightarrow> tile_step sk env cfg r prev ctx k = Some (c, p) \<Longrightarrow> tile_ok p"
  by (auto simp: tile_step_def Let_def tile_ok_def sk_setXYWH split: bind_splits if_splits)

lemma tile_row_ok:
  "sk_rect_laws sk \<Longrightarrow> tile_row sk env cfg r prev ctx ks = Some (c, ps) \<Longrightarrow> p \<in> set ps \<Longrightarrow> tile_ok p"
proof (induction ks arbitrary: prev ctx ps)
  case Nil
  then show ?case by simp
next
  case (Cons k ks)
  from Cons.prems(2) obtain a q qs where q: "tile_step sk env cfg r prev ctx k = Some (a, q)"
    and qs: "tile_row sk env cfg r (Some (kbPartitionId k)) a ks = Some (c, qs)" and "ps = q # qs"
    by (auto split: bind_splits)
  with Cons.prems(3) consider "p = q" | "p \<in> set qs" by auto
  then show ?case
    using tile_step_ok [OF Cons.prems(1) q] Cons.IH [OF Cons.prems(1) qs] by cases auto
qed

lemma tile_rows_ok:
  "sk_rect_laws sk \<Longrightarrow> tile_rows sk env cfg r ctx rows = Some pss \<Longrightarrow> ps \<in> set pss \<Longrightarrow> p \<in> set ps \<Longrightarrow>
   tile_ok p"
proof (induction rows arbitrary: r ctx pss)
  case Nil
  then show ?case by simp
next
  case (Cons row rows)
  from Cons.prems(2) obtain a q qs where q: "tile_row sk env cfg r None ctx row = Some (a, q)"
    and qs: "tile_rows sk env cfg (Suc r) a rows = Some qs" and "pss = q # qs"
    by (auto split: bind_splits)
  with Cons.prems(3) consider "ps = q" | "ps \<in> set qs" by auto
  then show ?case
    using tile_row_ok [OF Cons.prems(1) q] Cons.IH [OF Cons.prems(1) qs] Cons.prems(4)
    by cases auto
qed

section \<open>The sibling pass\<close>

lemma row_above_iter:
  "r < n \<Longrightarrow> k \<le> r \<Longrightarrow> (row_above n ^^ k) r = r - k"
  by (induction k) (auto simp: row_above_def)

lemma row_below_iter:
  "r < n \<Longrightarrow> k < n - r \<Longrightarrow> (row_below n ^^ k) r = r + k"
  by (induction k) (auto simp: row_below_def)

lemma row_above_cycle: "r < n \<Longrightarrow> (row_above n ^^ n) r = r"
proof -
  assume r: "r < n"
  have "(row_above n ^^ n) r = (row_above n ^^ (n - Suc r)) ((row_above n ^^ Suc r) r)"
    by (rule funpow_split) (use r in simp)
  also have "(row_above n ^^ Suc r) r = n - 1"
    using row_above_iter [OF r order.refl] by (simp add: row_above_def)
  also have "(row_above n ^^ (n - Suc r)) (n - 1) = r"
    using r row_above_iter [of "n - 1" n "n - Suc r"] by simp
  finally show ?thesis .
qed

lemma row_below_cycle: "r < n \<Longrightarrow> (row_below n ^^ n) r = r"
proof -
  assume r: "r < n"
  have "(row_below n ^^ n) r = (row_below n ^^ r) ((row_below n ^^ Suc (n - Suc r)) r)"
    by (rule funpow_split) (use r in simp)
  also have "(row_below n ^^ Suc (n - Suc r)) r = 0"
    using r row_below_iter [of r n "n - Suc r"] by (simp add: row_below_def)
  also have "(row_below n ^^ r) 0 = r"
    using r row_below_iter [of 0 n r] by simp
  finally show ?thesis .
qed

text \<open>A search that is allowed as many steps as it takes to meet a hit finds one.\<close>

lemma sib_search_finds:
  "hit ((step ^^ Suc k) r) \<noteq> None \<Longrightarrow> k < n \<Longrightarrow>
   \<exists>i j. sib_search step hit n r = Some (i, (step ^^ Suc j) r) \<and> j \<le> k \<and>
     hit ((step ^^ Suc j) r) = Some i"
proof (induction n arbitrary: k r)
  case 0
  then show ?case by simp
next
  case (Suc n)
  show ?case
  proof (cases "hit (step r)")
    case (Some i)
    then show ?thesis by (intro exI [of _ i] exI [of _ 0]) simp
  next
    case None
    with Suc.prems have "k \<noteq> 0" by (cases k) auto
    then obtain k' where k: "k = Suc k'" by (cases k) auto
    have "hit ((step ^^ Suc k') (step r)) \<noteq> None"
      using Suc.prems(1) k by (simp add: funpow_swap1)
    from Suc.IH [OF this] Suc.prems(2) k obtain i j where
      "sib_search step hit n (step r) = Some (i, (step ^^ Suc j) (step r))" "j \<le> k'"
      "hit ((step ^^ Suc j) (step r)) = Some i" by auto
    with None k show ?thesis
      by (intro exI [of _ i] exI [of _ "Suc j"]) (simp add: funpow_swap1)
  qed
qed

lemma row_above_bound: "r < n \<Longrightarrow> row_above n r < n"
  by (auto simp: row_above_def)

lemma row_below_bound: "r < n \<Longrightarrow> row_below n r < n"
  by (auto simp: row_below_def)

lemma funpow_bound: "(\<And>r. r < n \<Longrightarrow> f r < (n :: nat)) \<Longrightarrow> r < n \<Longrightarrow> (f ^^ k) r < n"
  by (induction k) auto

text \<open>A hit is a key of the row, in the group looked for.\<close>

lemma sib_hit_in:
  assumes "same_shape keys pos" and "index < length keys" and "sib_hit keys pos g x index = Some i"
  shows "in_grid keys index i \<and> kbPartitionId (keys ! index ! i) = g"
proof -
  from find_index_Some [OF assms(3) [unfolded sib_hit_def]] assms(2) show ?thesis
    by (auto simp: in_grid_def)
qed

text \<open>A key's own row has a hit for it: at the latest the key itself.\<close>

lemma sib_hit_self:
  assumes "same_shape keys pos" and "in_grid keys r c" and "tile_ok (pos ! r ! c)"
  shows "sib_hit keys pos (kbPartitionId (keys ! r ! c)) (fLeft (highlightTile (pos ! r ! c))) r
    \<noteq> None"
proof -
  from assms(1,2) have "in_grid pos r c" by (simp add: same_shape_in_grid)
  with assms(2) have "(keys ! r ! c, pos ! r ! c) \<in> set (zip (keys ! r) (pos ! r))"
    by (auto simp: set_zip in_grid_def)
  then show ?thesis
    using assms(3) unfolding sib_hit_def find_index_None tile_ok_def by force
qed

definition index_in :: "'a list list \<Rightarrow> key_index \<Rightarrow> bool" where
  "index_in g i \<longleftrightarrow> in_grid g (snd i) (fst i)"

definition group_at :: "key_info list list \<Rightarrow> key_index \<Rightarrow> nat" where
  "group_at g i = kbPartitionId (g ! snd i ! fst i)"

lemma sib_search_valid:
  assumes shape: "same_shape keys pos" and rc: "in_grid keys r c" and ok: "tile_ok (pos ! r ! c)"
    and bound: "\<And>q. q < length keys \<Longrightarrow> next_row q < length keys"
    and cycle: "(next_row ^^ length keys) r = r"
  shows "\<exists>s. sib_search next_row (sib_hit keys pos (kbPartitionId (keys ! r ! c))
      (fLeft (highlightTile (pos ! r ! c)))) (length keys) r = Some s \<and>
      index_in keys s \<and> group_at keys s = group_at keys (c, r)"
proof -
  let ?hit = "sib_hit keys pos (kbPartitionId (keys ! r ! c)) (fLeft (highlightTile (pos ! r ! c)))"
  from rc have r: "r < length keys" by (simp add: in_grid_def)
  then obtain k where k: "length keys = Suc k" by (cases "length keys") auto
  have "?hit ((next_row ^^ Suc k) r) \<noteq> None"
    using cycle sib_hit_self [OF shape rc ok] k by simp
  with sib_search_finds [where hit = ?hit and step = next_row and r = r and k = k
      and n = "length keys"] k obtain i j where
    s: "sib_search next_row ?hit (length keys) r = Some (i, (next_row ^^ Suc j) r)"
      "?hit ((next_row ^^ Suc j) r) = Some i" by auto
  have "(next_row ^^ Suc j) r < length keys"
    by (rule funpow_bound [where f = next_row, OF bound r])
  from sib_hit_in [OF shape this s(2)] s(1) show ?thesis
    by (simp add: index_in_def group_at_def)
qed

lemma siblings_of_valid:
  assumes shape: "same_shape keys pos" and rc: "in_grid keys r c" and ok: "tile_ok (pos ! r ! c)"
  shows "index_in keys (siblingUp (siblings_of keys pos r c)) \<and>
    index_in keys (siblingDown (siblings_of keys pos r c)) \<and>
    group_at keys (siblingUp (siblings_of keys pos r c)) = group_at keys (c, r) \<and>
    group_at keys (siblingDown (siblings_of keys pos r c)) = group_at keys (c, r)"
proof -
  from rc have r: "r < length keys" by (simp add: in_grid_def)
  from sib_search_valid [OF shape rc ok row_above_bound row_above_cycle [OF r]]
  obtain u where u: "siblingUp (siblings_of keys pos r c) = u" "index_in keys u"
    "group_at keys u = group_at keys (c, r)" by (auto simp: siblings_of_def Let_def)
  from sib_search_valid [OF shape rc ok row_below_bound row_below_cycle [OF r]]
  obtain d where d: "siblingDown (siblings_of keys pos r c) = d" "index_in keys d"
    "group_at keys d = group_at keys (c, r)" by (auto simp: siblings_of_def Let_def)
  from u d show ?thesis by simp
qed

lemma siblings_of_sides:
  assumes "in_grid keys r c"
  shows "index_in keys (siblingRight (siblings_of keys pos r c)) \<and>
    index_in keys (siblingLeft (siblings_of keys pos r c))"
proof -
  from assms have "c < length (keys ! r)" and "r < length keys" and "keys ! r \<noteq> []"
    by (auto simp: in_grid_def)
  then show ?thesis
    unfolding siblings_of_def Let_def index_in_def in_grid_def by auto
qed

lemma sibling_grid_at:
  "in_grid keys r c \<Longrightarrow> sibling_grid keys pos ! r ! c = siblings_of keys pos r c"
  by (simp add: sibling_grid_def in_grid_def)

lemma same_shape_sibling_grid: "same_shape keys (sibling_grid keys pos)"
  by (auto simp: same_shape_def sibling_grid_def intro: nth_equalityI)

section \<open>The layout as a navigation map\<close>

text \<open>A sibling table fits a key table: same shape, and every sibling is a key of the table.\<close>

definition sibs_ok :: "key_info list list \<Rightarrow> key_sibling_info list list \<Rightarrow> bool" where
  "sibs_ok keys sib \<longleftrightarrow> same_shape keys sib \<and>
     (\<forall>r c. in_grid keys r c \<longrightarrow>
        index_in keys (siblingRight (sib ! r ! c)) \<and> index_in keys (siblingLeft (sib ! r ! c)) \<and>
        index_in keys (siblingUp (sib ! r ! c)) \<and> index_in keys (siblingDown (sib ! r ! c)) \<and>
        group_at keys (siblingUp (sib ! r ! c)) = group_at keys (c, r) \<and>
        group_at keys (siblingDown (sib ! r ! c)) = group_at keys (c, r))"

lemma generate_layout_total:
  "\<exists>pos. generate_layout sk env t = Some (pos, sibling_grid (table_keys t) pos) \<and>
     same_shape (table_keys t) pos"
proof -
  obtain pos where "tile_rows sk env (table_groups t) 0 tile_ctx0 (table_keys t) = Some pos"
    and "map length pos = map length (table_keys t)"
    using tile_rows_total [of "table_keys t" "table_groups t" sk env 0 tile_ctx0]
      table_groups_cover by blast
  then show ?thesis by (auto simp: generate_layout_def same_shape_def)
qed

lemma generate_layout_tiles_ok:
  assumes "sk_rect_laws sk" and "generate_layout sk env t = Some (pos, sib)" and "in_grid pos r c"
  shows "tile_ok (pos ! r ! c)"
proof -
  from assms(2) have "tile_rows sk env (table_groups t) 0 tile_ctx0 (table_keys t) = Some pos"
    by (auto simp: generate_layout_def split: bind_splits)
  from tile_rows_ok [OF assms(1) this, of "pos ! r" "pos ! r ! c"] assms(3) show ?thesis
    by (simp add: in_grid_def)
qed

lemma generate_layout_sibs_ok:
  assumes "sk_rect_laws sk" and "generate_layout sk env t = Some (pos, sib)"
  shows "sibs_ok (table_keys t) sib"
proof -
  from generate_layout_total [of sk env t] assms(2) have shape: "same_shape (table_keys t) pos"
    and sib: "sib = sibling_grid (table_keys t) pos" by auto
  show ?thesis
    unfolding sibs_ok_def sib
  proof (intro conjI allI impI same_shape_sibling_grid)
    fix r c
    assume rc: "in_grid (table_keys t) r c"
    with shape have "in_grid pos r c" by (simp add: same_shape_in_grid)
    from generate_layout_tiles_ok [OF assms this] have ok: "tile_ok (pos ! r ! c)" .
    note facts = siblings_of_valid [OF shape rc ok] siblings_of_sides [OF rc, of pos]
    show "index_in (table_keys t) (siblingRight (sibling_grid (table_keys t) pos ! r ! c))"
      and "index_in (table_keys t) (siblingLeft (sibling_grid (table_keys t) pos ! r ! c))"
      and "index_in (table_keys t) (siblingUp (sibling_grid (table_keys t) pos ! r ! c))"
      and "index_in (table_keys t) (siblingDown (sibling_grid (table_keys t) pos ! r ! c))"
      and "group_at (table_keys t) (siblingUp (sibling_grid (table_keys t) pos ! r ! c)) =
        group_at (table_keys t) (c, r)"
      and "group_at (table_keys t) (siblingDown (sibling_grid (table_keys t) pos ! r ! c)) =
        group_at (table_keys t) (c, r)"
      using facts rc by (simp_all add: sibling_grid_at)
  qed
qed


section \<open>Every key can be reached\<close>

text \<open>The keys the focus can be moved to from a key with the four navigation keys.\<close>

inductive nav_reach :: "key_sibling_info list list \<Rightarrow> key_index \<Rightarrow> key_index \<Rightarrow> bool"
  for sib :: "key_sibling_info list list" and i :: key_index where
  here: "nav_reach sib i i"
| right: "nav_reach sib i (c, r) \<Longrightarrow> nav_reach sib i (siblingRight (sib ! r ! c))"
| left: "nav_reach sib i (c, r) \<Longrightarrow> nav_reach sib i (siblingLeft (sib ! r ! c))"
| up: "nav_reach sib i (c, r) \<Longrightarrow> nav_reach sib i (siblingUp (sib ! r ! c))"
| down: "nav_reach sib i (c, r) \<Longrightarrow> nav_reach sib i (siblingDown (sib ! r ! c))"

lemma siblingRight_of:
  "siblingRight (siblings_of keys pos r c) = (if c < length (keys ! r) - 1 then c + 1 else 0, r)"
  by (simp add: siblings_of_def Let_def)

lemma siblingLeft_of:
  "siblingLeft (siblings_of keys pos r c) = (if c \<noteq> 0 then c - 1 else length (keys ! r) - 1, r)"
  by (simp add: siblings_of_def Let_def)

lemma nav_reach_right_by:
  assumes "r < length keys" and "nav_reach (sibling_grid keys pos) i (c, r)"
    and "c + k < length (keys ! r)"
  shows "nav_reach (sibling_grid keys pos) i (c + k, r)"
  using assms(3)
proof (induction k)
  case 0
  with assms(2) show ?case by simp
next
  case (Suc k)
  with assms(1) have "in_grid keys r (c + k)" by (simp add: in_grid_def)
  moreover from Suc.prems have "c + k < length (keys ! r) - 1" by simp
  ultimately show ?case
    using Suc nav_reach.right [of "sibling_grid keys pos" i "c + k" r]
    by (simp add: sibling_grid_at siblingRight_of)
qed

lemma nav_reach_left_to_start:
  assumes "r < length keys" and "nav_reach (sibling_grid keys pos) i (c, r)"
    and "c < length (keys ! r)"
  shows "nav_reach (sibling_grid keys pos) i (0, r)"
  using assms(2,3)
proof (induction c)
  case 0
  then show ?case by simp
next
  case (Suc c)
  with assms(1) have "in_grid keys r (Suc c)" by (simp add: in_grid_def)
  with Suc.prems nav_reach.left [of "sibling_grid keys pos" i "Suc c" r]
  have "nav_reach (sibling_grid keys pos) i (c, r)"
    by (simp add: sibling_grid_at siblingLeft_of)
  with Suc show ?case by simp
qed

lemma nav_reach_row:
  assumes "r < length keys" and "nav_reach (sibling_grid keys pos) i (c, r)"
    and "c < length (keys ! r)" and "c' < length (keys ! r)"
  shows "nav_reach (sibling_grid keys pos) i (c', r)"
  using nav_reach_right_by [OF assms(1) nav_reach_left_to_start [OF assms(1-3)], of c'] assms(4)
  by simp

text \<open>The first key of a group starts at the same place in every row.\<close>

definition group_first :: "key_info list \<Rightarrow> nat \<Rightarrow> bool" where
  "group_first row c \<longleftrightarrow> (c = 0 \<or> kbPartitionId (row ! (c - 1)) \<noteq> kbPartitionId (row ! c))"

definition group_x :: "tile_env \<Rightarrow> key_placement list \<Rightarrow> nat \<Rightarrow> int" where
  "group_x env cfg g =
     int (trunc_u (horizontalStartOffset env + fst (groupOffset (cfg ! g)) * (env_width env / 1280)))"

lemma tile_step_first:
  assumes "sk_rect_laws sk" and "tile_step sk env cfg r prev ctx k = Some (c, p)"
    and "prev \<noteq> Some (kbPartitionId k)"
  shows "fLeft (highlightTile p) = group_x env cfg (kbPartitionId k)"
  using assms
  by (cases prev) (auto simp: tile_step_def Let_def enter_group_def group_x_def sk_setXYWH
    vec_at_def split: bind_splits if_splits)

lemma tile_row_first:
  assumes "sk_rect_laws sk"
  shows "tile_row sk env cfg r prev ctx ks = Some (ctx', ps) \<Longrightarrow> i < length ks \<Longrightarrow>
    (if i = 0 then prev \<noteq> Some (kbPartitionId (ks ! 0))
     else kbPartitionId (ks ! (i - 1)) \<noteq> kbPartitionId (ks ! i)) \<Longrightarrow>
    fLeft (highlightTile (ps ! i)) = group_x env cfg (kbPartitionId (ks ! i))"
proof (induction ks arbitrary: prev ctx ps i)
  case Nil
  then show ?case by simp
next
  case (Cons k ks)
  from Cons.prems(1) obtain a q qs where q: "tile_step sk env cfg r prev ctx k = Some (a, q)"
    and qs: "tile_row sk env cfg r (Some (kbPartitionId k)) a ks = Some (ctx', qs)"
    and ps: "ps = q # qs"
    by (auto split: bind_splits)
  show ?case
  proof (cases i)
    case 0
    with Cons.prems(3) ps tile_step_first [OF assms q] show ?thesis by simp
  next
    case (Suc j)
    with Cons.prems(2,3) ps Cons.IH [OF qs, of j] show ?thesis
      by (cases j) auto
  qed
qed

lemma tile_rows_row:
  "tile_rows sk env cfg r0 ctx rows = Some pss \<Longrightarrow> r < length rows \<Longrightarrow>
   \<exists>r' c c'. tile_row sk env cfg r' None c (rows ! r) = Some (c', pss ! r)"
proof (induction rows arbitrary: r0 ctx pss r)
  case Nil
  then show ?case by simp
next
  case (Cons row rows)
  from Cons.prems(1) obtain a q qs where q: "tile_row sk env cfg r0 None ctx row = Some (a, q)"
    and qs: "tile_rows sk env cfg (Suc r0) a rows = Some qs" and "pss = q # qs"
    by (auto split: bind_splits)
  with Cons.prems(2) Cons.IH [OF qs] show ?case by (cases r) auto
qed

lemma tile_left_first:
  assumes "sk_rect_laws sk" and "generate_layout sk env t = Some (pos, sib)"
    and "in_grid (table_keys t) r c" and "group_first (table_keys t ! r) c"
  shows "fLeft (highlightTile (pos ! r ! c)) =
    group_x env (table_groups t) (kbPartitionId (table_keys t ! r ! c))"
proof -
  from assms(2) have "tile_rows sk env (table_groups t) 0 tile_ctx0 (table_keys t) = Some pos"
    by (auto simp: generate_layout_def split: bind_splits)
  from tile_rows_row [OF this, of r] assms(3) obtain r' x y where
    "tile_row sk env (table_groups t) r' None x (table_keys t ! r) = Some (y, pos ! r)"
    by (auto simp: in_grid_def)
  from tile_row_first [OF assms(1) this, of c] assms(3,4) show ?thesis
    by (auto simp: in_grid_def group_first_def split: if_splits)
qed

text \<open>Rows that follow each other share a group, in every table.\<close>

definition rows_linked :: "kb_table \<Rightarrow> bool" where
  "rows_linked t \<longleftrightarrow> (\<forall>r < length (table_keys t) - 1.
     \<exists>c < length (table_keys t ! r). \<exists>c' < length (table_keys t ! Suc r).
       group_first (table_keys t ! r) c \<and> group_first (table_keys t ! Suc r) c' \<and>
       kbPartitionId (table_keys t ! r ! c) = kbPartitionId (table_keys t ! Suc r ! c'))"

lemma rows_linked: "rows_linked t"
proof (cases t)
  case AlphaNumericKB
  then show ?thesis by (simp only:) code_simp
next
  case SymbolKB
  then show ?thesis by (simp only:) code_simp
next
  case NumericKB
  then show ?thesis by (simp only:) code_simp
qed

lemma default_row: "snd (table_defaultFocussIndex t) = 0"
  by (cases t) simp_all

lemma siblingDown_next_row:
  assumes sk: "sk_rect_laws sk" and gen: "generate_layout sk env t = Some (pos, sib)"
    and r: "Suc r < length (table_keys t)"
    and c: "c < length (table_keys t ! r)" "group_first (table_keys t ! r) c"
    and c': "c' < length (table_keys t ! Suc r)" "group_first (table_keys t ! Suc r) c'"
    and grp: "kbPartitionId (table_keys t ! r ! c) = kbPartitionId (table_keys t ! Suc r ! c')"
  shows "\<exists>i < length (table_keys t ! Suc r). siblingDown (siblings_of (table_keys t) pos r c) = (i, Suc r)"
proof -
  let ?keys = "table_keys t"
  let ?hit = "sib_hit ?keys pos (kbPartitionId (?keys ! r ! c)) (fLeft (highlightTile (pos ! r ! c)))"
  from generate_layout_total [of sk env t] gen have shape: "same_shape ?keys pos" by auto
  have in1: "in_grid ?keys r c" and in2: "in_grid ?keys (Suc r) c'"
    using r c(1) c'(1) by (simp_all add: in_grid_def)
  from shape in2 have "in_grid pos (Suc r) c'" by (simp add: same_shape_in_grid)
  from generate_layout_tiles_ok [OF sk gen this]
  have ok: "tile_ok (pos ! Suc r ! c')" .
  have "fLeft (highlightTile (pos ! r ! c)) = fLeft (highlightTile (pos ! Suc r ! c'))"
    using tile_left_first [OF sk gen in1 c(2)] tile_left_first [OF sk gen in2 c'(2)] grp by simp
  with sib_hit_self [OF shape in2 ok] grp have "?hit (Suc r) \<noteq> None" by simp
  then obtain i where i: "?hit (Suc r) = Some i" by blast
  have next_row: "row_below (length ?keys) r = Suc r" using r by (simp add: row_below_def)
  obtain n where n: "length ?keys = Suc n" using r by (cases "length ?keys") auto
  from sib_hit_in [OF shape _ i] r have "in_grid ?keys (Suc r) i" by blast
  moreover have "siblingDown (siblings_of ?keys pos r c) = (i, Suc r)"
    using i next_row unfolding siblings_of_def Let_def n by simp
  ultimately show ?thesis by (auto simp: in_grid_def)
qed

lemma nav_reach_all_rows:
  assumes sk: "sk_rect_laws sk" and gen: "generate_layout sk env t = Some (pos, sib)"
  shows "r < length (table_keys t) \<Longrightarrow>
    \<exists>c < length (table_keys t ! r). nav_reach sib (table_defaultFocussIndex t) (c, r)"
proof (induction r)
  case 0
  have "in_grid (table_keys t) 0 (fst (table_defaultFocussIndex t))"
    using wf_table [of t] unfolding wf_table_def default_row by blast
  then have "fst (table_defaultFocussIndex t) < length (table_keys t ! 0)"
    by (simp add: in_grid_def)
  moreover obtain c where "table_defaultFocussIndex t = (c, 0)"
    using default_row [of t] by (cases "table_defaultFocussIndex t") auto
  ultimately show ?case
    using nav_reach.here [of sib "table_defaultFocussIndex t"] by auto
next
  case (Suc r)
  let ?keys = "table_keys t"
  from generate_layout_total [of sk env t] gen have sib: "sib = sibling_grid ?keys pos" by auto
  from Suc obtain c0 where c0: "c0 < length (?keys ! r)"
    "nav_reach sib (table_defaultFocussIndex t) (c0, r)" by auto
  from rows_linked [of t] Suc.prems obtain c c' where
    c: "c < length (?keys ! r)" "group_first (?keys ! r) c"
    and c': "c' < length (?keys ! Suc r)" "group_first (?keys ! Suc r) c'"
    and grp: "kbPartitionId (?keys ! r ! c) = kbPartitionId (?keys ! Suc r ! c')"
    unfolding rows_linked_def by (metis Suc_diff_1 Suc_less_eq length_greater_0_conv list.size(3) not_less_zero)
  from siblingDown_next_row [OF sk gen Suc.prems c c' grp] obtain i where
    i: "i < length (?keys ! Suc r)" "siblingDown (siblings_of ?keys pos r c) = (i, Suc r)" by blast
  have "nav_reach sib (table_defaultFocussIndex t) (c, r)"
    using nav_reach_row [of r ?keys pos _ c0 c] Suc.prems c0 c(1) sib by simp
  from nav_reach.down [OF this] i(2) sib Suc.prems c(1)
  have "nav_reach sib (table_defaultFocussIndex t) (i, Suc r)"
    by (simp add: sibling_grid_at in_grid_def)
  with i(1) show ?case by blast
qed

section \<open>Properties\<close>

text \<open>For every table, screen size and font sizes, the layout computation never reads outside a
  table, and it gives every key a tile and four siblings that are keys of the same table; the
  vertical siblings are in the key's own group, so a missing neighbour is never the default
  \<open>(0, 0)\<close>.\<close>

theorem layout_navigation_total:
  assumes "sk_rect_laws sk"
  shows "\<exists>pos sib. generate_layout sk env t = Some (pos, sib) \<and>
    same_shape (table_keys t) pos \<and> sibs_ok (table_keys t) sib"
  using generate_layout_total [of sk env t] generate_layout_sibs_ok [OF assms] by blast

definition env_720p :: tile_env where
  "env_720p = \<lparr>env_width = 1280, env_height = 720, textFontSize = 24, textHLFontSize = 32,
     horizontalStartOffset = 192, kBVerticalStart = 216\<rparr>"

theorem layout_navigation_total_witness:
  "\<exists>pos sib. generate_layout sk_rect_ref env_720p SymbolKB = Some (pos, sib) \<and>
    same_shape (table_keys SymbolKB) pos \<and> sibs_ok (table_keys SymbolKB) sib"
  by (rule layout_navigation_total) simp

text \<open>Moving right undoes moving left, and moving left undoes moving right, from every key of
  every layout.\<close>

theorem layout_left_right_inverse:
  assumes "generate_layout sk env t = Some (pos, sib)" and "in_grid (table_keys t) r c"
  shows "(let (c', r') = siblingLeft (sib ! r ! c) in siblingRight (sib ! r' ! c') = (c, r)) \<and>
    (let (c', r') = siblingRight (sib ! r ! c) in siblingLeft (sib ! r' ! c') = (c, r))"
proof -
  from generate_layout_total [of sk env t] assms(1)
  have sib: "sib = sibling_grid (table_keys t) pos" by auto
  from assms(2) have b: "r < length (table_keys t)" "c < length (table_keys t ! r)"
    by (simp_all add: in_grid_def)
  then have at: "sib ! r ! c' = siblings_of (table_keys t) pos r c'"
    if "c' < length (table_keys t ! r)" for c'
    using that by (simp add: sib sibling_grid_at in_grid_def)
  from b(2) have "0 < length (table_keys t ! r)" and "length (table_keys t ! r) - 1 < length (table_keys t ! r)"
    by auto
  with b(2) show ?thesis
    by (auto simp: at siblingLeft_of siblingRight_of)
qed

theorem layout_left_right_inverse_witness:
  "\<exists>pos sib. generate_layout sk_rect_ref env_720p NumericKB = Some (pos, sib) \<and>
    (let (c', r') = siblingLeft (sib ! 1 ! 0) in siblingRight (sib ! r' ! c') = (0, 1)) \<and>
    (let (c', r') = siblingRight (sib ! 1 ! 0) in siblingLeft (sib ! r' ! c') = (0, 1))"
proof -
  obtain pos sib where gen: "generate_layout sk_rect_ref env_720p NumericKB = Some (pos, sib)"
    using generate_layout_total by blast
  have "in_grid (table_keys NumericKB) 1 0" by (simp add: in_grid_def numericKBKeyKeyInfo_def)
  from layout_left_right_inverse [OF gen this] gen show ?thesis by blast
qed

text \<open>C12: On every layout and every screen size, every key can be focused: from the key that has the
  focus when the layout appears, the navigation keys lead to every key of the layout.\<close>

theorem layout_every_key_reachable:
  assumes "sk_rect_laws sk" and "generate_layout sk env t = Some (pos, sib)"
    and "in_grid (table_keys t) r c"
  shows "nav_reach sib (table_defaultFocussIndex t) (c, r)"
proof -
  from generate_layout_total [of sk env t] assms(2)
  have sib: "sib = sibling_grid (table_keys t) pos" by auto
  from assms(3) have "r < length (table_keys t)" and c: "c < length (table_keys t ! r)"
    by (simp_all add: in_grid_def)
  with nav_reach_all_rows [OF assms(1,2), of r] obtain c0 where
    "c0 < length (table_keys t ! r)" "nav_reach sib (table_defaultFocussIndex t) (c0, r)" by auto
  with nav_reach_row [of r "table_keys t" pos _ c0 c] \<open>r < _\<close> c sib show ?thesis by simp
qed

theorem layout_every_key_reachable_witness:
  "\<exists>pos sib. generate_layout sk_rect_ref env_720p AlphaNumericKB = Some (pos, sib) \<and>
    nav_reach sib (table_defaultFocussIndex AlphaNumericKB) (11, 3)"
proof -
  obtain pos sib where gen: "generate_layout sk_rect_ref env_720p AlphaNumericKB = Some (pos, sib)"
    using generate_layout_total by blast
  have "in_grid (table_keys AlphaNumericKB) 3 11"
    by (simp add: in_grid_def alphaNumericKBKeyInfo_def)
  from layout_every_key_reachable [OF sk_rect_ref_laws gen this] gen show ?thesis by blast
qed

end
