(* ===== verification/OskDisplay.thy ===== *)
theory OskDisplay imports SkGeom begin

text \<open>
  The text line of the on-screen keyboard: \<open>OnScreenKeyboard::getStringBound\<close> and
  \<open>drawPlaceHolderDisplayString\<close> (\<open>sdk/OnScreenKeyBoard.cpp\<close>). The line shows the part of the text
  that fits the placeholder: an existing visible range is kept, moved to hold the cursor, widened
  when there is room and narrowed from one side until it fits.

  Skia's \<open>measureText\<close> is the argument \<open>txw\<close>, the width of the bytes it is given. \<open>None\<close> is a
  read outside the string, an exception of \<open>substr\<close>, or a narrowing loop that ran out of fuel; the
  fuel is one more than the length of the range, which the loop shortens by one each time.

  The lemmas show that drawing succeeds on text without spaces from every range the drawing can
  leave, with a range that fits the box and holds the cursor, and that text of a single space makes
  \<open>getStringBound\<close> read far outside the string.
\<close>

section \<open>getStringBound\<close>

definition u32_of :: "int \<Rightarrow> nat" where
  "u32_of i = nat (i mod 2 ^ 32)"

text \<open>
  Width of \<open>s[startIndex..endIndex]\<close>. The indices and their difference are 32-bit unsigned; the
  bytes are those of \<open>c_str()\<close>, so the terminating null byte may be read too.
\<close>

definition c_str :: "string \<Rightarrow> string" where
  "c_str s = s @ [CHR 0x00]"

definition getStringBound ::
  "(string \<Rightarrow> scalar) \<Rightarrow> scalar \<Rightarrow> string \<Rightarrow> int \<Rightarrow> int \<Rightarrow> scalar option" where
  "getStringBound txw spaceWidth s startIndex0 endIndex0 =
     (if s = [] then Some 0
      else let lead = (hd s = CHR '' ''); trail = (last s = CHR '' '');
               spaceCount = (if lead then 1 else 0) + (if trail then (1 :: nat) else 0);
               startIndex = u32_of (startIndex0 + (if lead then 1 else 0));
               endIndex = endIndex0 - (if trail then 1 else 0);
               count = u32_of (endIndex - int startIndex + 1)
           in if startIndex + count \<le> Suc (length s)
              then Some (txw (take count (drop startIndex (c_str s))) +
                         spaceWidth * of_nat spaceCount)
              else None)"

section \<open>The visible range\<close>

record osk_display =
  displayString :: string
  cursorPosition :: int
  visibleRange :: "int \<times> int"
  displayStrWidth :: scalar

abbreviation (input) OSK_PLACEHOLDER_RESERVED_LENGTH :: scalar where
  "OSK_PLACEHOLDER_RESERVED_LENGTH \<equiv> 8"

definition initial_range :: "osk_display \<Rightarrow> int \<times> int" where
  "initial_range d =
     (let len = int (length (displayString d)); (x, y) = visibleRange d; c = cursorPosition d
      in (if x = -1 then 0 else if c > x then x else c,
          if y < 0 \<or> y > len - 1 then len - 1 else if c \<le> y then y else c))"

definition expand_range :: "scalar \<Rightarrow> int \<Rightarrow> scalar \<Rightarrow> int \<times> int \<Rightarrow> int \<times> int" where
  "expand_range phl len textWidth r =
     (let (s, e) = r
      in if textWidth + OSK_PLACEHOLDER_RESERVED_LENGTH < phl \<and> 0 \<le> e - s \<and> e - s < len - 1
         then (if e \<noteq> len - 1 then (s, len - 1) else (0, e))
         else (s, e))"

definition shrink_range :: "int \<Rightarrow> int \<times> int \<Rightarrow> int \<times> int" where
  "shrink_range cursor r =
     (let (s, e) = r in if cursor \<ge> e - 1 then (s + 1, e) else (s, e - 1))"

text \<open>The loop that narrows the range until its text fits; the result carries the final width.\<close>

fun fit_range ::
  "(int \<times> int \<Rightarrow> scalar option) \<Rightarrow> scalar \<Rightarrow> int \<Rightarrow> nat \<Rightarrow> scalar \<Rightarrow> int \<times> int \<Rightarrow>
   ((int \<times> int) \<times> scalar) option" where
  "fit_range width phl cursor 0 w r = None"
| "fit_range width phl cursor (Suc n) w r =
     (if w + OSK_PLACEHOLDER_RESERVED_LENGTH \<ge> phl
      then let r' = shrink_range cursor r
           in Option.bind (width r') (\<lambda>w'. fit_range width phl cursor n w' r')
      else Some (r, w))"

text \<open>\<open>std::string::substr\<close>: an exception when the position is past the end.\<close>

definition substr :: "string \<Rightarrow> int \<Rightarrow> int \<Rightarrow> string option" where
  "substr s pos count =
     (if 0 \<le> pos \<and> pos \<le> int (length s)
      then Some (if count < 0 then drop (nat pos) s else take (nat count) (drop (nat pos) s))
      else None)"

definition placeholder_range ::
  "(string \<Rightarrow> scalar) \<Rightarrow> scalar \<Rightarrow> scalar \<Rightarrow> osk_display \<Rightarrow> ((int \<times> int) \<times> scalar) option" where
  "placeholder_range txw spaceWidth phl d =
     (let s = displayString d; len = int (length s);
          width = (\<lambda>r. getStringBound txw spaceWidth s (fst r) (snd r));
          r0 = initial_range d
      in do {
        w0 \<leftarrow> width r0;
        let r1 = expand_range phl len w0 r0;
        w1 \<leftarrow> (if r1 = r0 then Some w0 else width r1);
        fit_range width phl (cursorPosition d) (nat (snd r1 - fst r1 + 3)) w1 r1
      })"

text \<open>The whole drawing step, the cursor's own measurement included.\<close>

definition drawPlaceHolderDisplayString ::
  "(string \<Rightarrow> scalar) \<Rightarrow> scalar \<Rightarrow> scalar \<Rightarrow> bool \<Rightarrow> osk_display \<Rightarrow> osk_display option" where
  "drawPlaceHolderDisplayString txw spaceWidth phl showCursor d = do {
     (d1, w) \<leftarrow> (if displayString d = [] then Some (d, 0)
       else do {
         ((s, e), w) \<leftarrow> placeholder_range txw spaceWidth phl d;
         let len = int (length (displayString d));
         let c = (if cursorPosition d < 0 \<or> cursorPosition d > len then len
                  else cursorPosition d);
         shown \<leftarrow> substr (displayString d) s (e - s + 1);
         Some (d\<lparr>cursorPosition := c, visibleRange := (s, e), displayString := shown\<rparr>, w)
       });
     let d2 = d1\<lparr>displayStrWidth :=
       (if w + OSK_PLACEHOLDER_RESERVED_LENGTH < phl then w + OSK_PLACEHOLDER_RESERVED_LENGTH
        else phl)\<rparr>;
     let newcursorPosition =
       (if cursorPosition d2 \<ge> fst (visibleRange d2) + 1
        then cursorPosition d2 - fst (visibleRange d2) else 0);
     _ \<leftarrow> (if showCursor \<and> newcursorPosition \<noteq> 0
       then getStringBound txw spaceWidth (displayString d2) 0 (newcursorPosition - 1)
       else Some 0);
     Some d2
   }"

section \<open>Lemmas\<close>

lemma u32_of_small: "0 \<le> i \<Longrightarrow> i < 2 ^ 32 \<Longrightarrow> u32_of i = nat i"
  by (simp add: u32_of_def)

text \<open>Text without spaces, for which \<open>getStringBound\<close> measures just the bytes it is asked for.\<close>

definition plain_text :: "string \<Rightarrow> bool" where
  "plain_text s \<longleftrightarrow> CHR '' '' \<notin> set s \<and> length s < 2 ^ 31"

text \<open>A range that starts in the text or at its end and reaches the terminator at most.\<close>

definition range_in :: "string \<Rightarrow> int \<times> int \<Rightarrow> bool" where
  "range_in s r \<longleftrightarrow> 0 \<le> fst r \<and> fst r \<le> int (length s) \<and> fst r \<le> snd r + 1 \<and>
     snd r \<le> int (length s)"

definition slice :: "string \<Rightarrow> int \<times> int \<Rightarrow> string" where
  "slice s r = take (nat (snd r - fst r + 1)) (drop (nat (fst r)) (c_str s))"

lemma getStringBound_plain:
  assumes "plain_text s" and "s \<noteq> []" and "range_in s (a, b)"
  shows "getStringBound txw sp s a b = Some (txw (slice s (a, b)))"
proof -
  from assms have len: "int (length s) < 2 ^ 31"
    and r: "0 \<le> a" "a \<le> int (length s)" "a \<le> b + 1" "b \<le> int (length s)"
    by (auto simp: plain_text_def range_in_def)
  from len r have "u32_of a = nat a" and "u32_of (b - int (nat a) + 1) = nat (b - a + 1)"
    by (simp_all add: u32_of_small)
  moreover from r have "nat a + nat (b - a + 1) \<le> Suc (length s)" by simp
  moreover have "hd s \<noteq> CHR '' ''" and "last s \<noteq> CHR '' ''"
    using assms(1,2) hd_in_set [of s] last_in_set [of s] unfolding plain_text_def by metis+
  ultimately show ?thesis
    using assms(2) by (simp add: getStringBound_def slice_def Let_def)
qed

text \<open>The range the loop starts from, and the ranges it goes through, keep the cursor in reach.\<close>

definition cursor_reach :: "int \<Rightarrow> int \<times> int \<Rightarrow> bool" where
  "cursor_reach c r \<longleftrightarrow> c \<le> snd r + 1"

definition display_ok :: "osk_display \<Rightarrow> bool" where
  "display_ok d \<longleftrightarrow> 0 \<le> cursorPosition d \<and>
     cursorPosition d \<le> int (length (displayString d)) \<and> -1 \<le> fst (visibleRange d)"

lemma initial_range_ok:
  assumes "display_ok d" and "displayString d \<noteq> []"
  shows "range_in (displayString d) (initial_range d)"
    and "cursor_reach (cursorPosition d) (initial_range d)"
proof -
  have "0 < length (displayString d)" using assms(2) by simp
  then show "range_in (displayString d) (initial_range d)"
    and "cursor_reach (cursorPosition d) (initial_range d)"
    using assms(1) unfolding display_ok_def initial_range_def range_in_def cursor_reach_def
    by (auto simp: Let_def split: prod.splits)
qed

lemma expand_range_ok:
  assumes "range_in s r" and "cursor_reach c r" and "c \<le> int (length s)"
  shows "range_in s (expand_range phl (int (length s)) w r)"
    and "cursor_reach c (expand_range phl (int (length s)) w r)"
  using assms unfolding expand_range_def range_in_def cursor_reach_def
  by (auto simp: Let_def split: prod.splits)

lemma shrink_range_ok:
  assumes "range_in s r" and "cursor_reach c r" and "fst r \<le> snd r" and "fst r < int (length s)"
  shows "range_in s (shrink_range c r)" and "cursor_reach c (shrink_range c r)"
  using assms unfolding shrink_range_def range_in_def cursor_reach_def
  by (auto simp: Let_def split: prod.splits)

lemma shrink_range_length:
  "snd (shrink_range c r) - fst (shrink_range c r) = snd r - fst r - 1"
  by (cases r) (simp add: shrink_range_def)

lemma slice_empty: "fst r = snd r + 1 \<Longrightarrow> slice s r = []"
  by (simp add: slice_def)

lemma slice_end: "range_in s r \<Longrightarrow> fst r = int (length s) \<Longrightarrow> slice s r \<in> {[], [CHR 0x00]}"
  by (cases r) (auto simp: slice_def range_in_def c_str_def take_Cons' split: if_splits)

text \<open>What the loop needs of the fonts: nothing measures nothing, and a null byte fits the box.\<close>

definition font_fits :: "(string \<Rightarrow> scalar) \<Rightarrow> scalar \<Rightarrow> bool" where
  "font_fits txw phl \<longleftrightarrow> txw [] = 0 \<and> OSK_PLACEHOLDER_RESERVED_LENGTH < phl \<and>
     txw [CHR 0x00] + OSK_PLACEHOLDER_RESERVED_LENGTH < phl"

lemma fit_range_correct:
  assumes font: "font_fits txw phl"
    and total: "\<And>r. range_in s r \<Longrightarrow> width r = Some (txw (slice s r))"
  shows "range_in s r \<Longrightarrow> cursor_reach c r \<Longrightarrow> nat (snd r - fst r + 1) < n \<Longrightarrow>
    \<exists>q. fit_range width phl c n (txw (slice s r)) r = Some (q, txw (slice s q)) \<and>
      range_in s q \<and> cursor_reach c q \<and>
      txw (slice s q) + OSK_PLACEHOLDER_RESERVED_LENGTH < phl"
proof (induction n arbitrary: r)
  case 0
  then show ?case by simp
next
  case (Suc n)
  show ?case
  proof (cases "txw (slice s r) + OSK_PLACEHOLDER_RESERVED_LENGTH \<ge> phl")
    case False
    with Suc.prems(1,2) show ?thesis by simp
  next
    case True
    with font have ne: "slice s r \<noteq> []" and nn: "slice s r \<noteq> [CHR 0x00]"
      by (auto simp: font_fits_def)
    from ne slice_empty [of r s] have "fst r \<noteq> snd r + 1" by blast
    with Suc.prems(1) have le: "fst r \<le> snd r" by (simp add: range_in_def)
    from ne nn slice_end [OF Suc.prems(1)] have "fst r \<noteq> int (length s)" by blast
    with Suc.prems(1) have lt: "fst r < int (length s)" by (simp add: range_in_def)
    let ?r = "shrink_range c r"
    note ok = shrink_range_ok [OF Suc.prems(1,2) le lt]
    have "nat (snd ?r - fst ?r + 1) < n"
      using Suc.prems(3) le shrink_range_length [of c r] by simp
    from Suc.IH [OF ok this] True total [OF ok(1)] show ?thesis
      by (auto simp: Let_def)
  qed
qed

lemma placeholder_range_ok:
  assumes "plain_text (displayString d)" and "displayString d \<noteq> []" and "display_ok d"
    and "font_fits txw phl"
  shows "\<exists>q. placeholder_range txw sp phl d = Some (q, txw (slice (displayString d) q)) \<and>
    range_in (displayString d) q \<and> cursor_reach (cursorPosition d) q \<and>
    txw (slice (displayString d) q) + OSK_PLACEHOLDER_RESERVED_LENGTH < phl"
proof -
  let ?s = "displayString d"
  let ?width = "\<lambda>r. getStringBound txw sp ?s (fst r) (snd r)"
  let ?r0 = "initial_range d"
  let ?r1 = "expand_range phl (int (length ?s)) (txw (slice ?s ?r0)) ?r0"
  have total: "?width r = Some (txw (slice ?s r))" if "range_in ?s r" for r
    using getStringBound_plain [OF assms(1,2), of "fst r" "snd r"] that by simp
  note i0 = initial_range_ok [OF assms(3,2)]
  have "cursorPosition d \<le> int (length ?s)" using assms(3) by (simp add: display_ok_def)
  note i1 = expand_range_ok [OF i0 this, of phl "txw (slice ?s ?r0)"]
  have "nat (snd ?r1 - fst ?r1 + 1) < nat (snd ?r1 - fst ?r1 + 3)"
    using i1(1) by (simp add: range_in_def)
  from fit_range_correct [where width = ?width, OF assms(4) total i1 this] obtain q where
    "fit_range ?width phl (cursorPosition d) (nat (snd ?r1 - fst ?r1 + 3)) (txw (slice ?s ?r1)) ?r1
       = Some (q, txw (slice ?s q))" "range_in ?s q" "cursor_reach (cursorPosition d) q"
    "txw (slice ?s q) + OSK_PLACEHOLDER_RESERVED_LENGTH < phl" by blast
  moreover have "placeholder_range txw sp phl d =
    fit_range ?width phl (cursorPosition d) (nat (snd ?r1 - fst ?r1 + 3)) (txw (slice ?s ?r1)) ?r1"
    using total [OF i0(1)] total [OF i1(1)]
    by (simp add: placeholder_range_def Let_def)
  ultimately show ?thesis by auto
qed

lemma slice_substr:
  assumes "range_in s (a, b)"
  obtains shown where "substr s a (b - a + 1) = Some shown"
    and "int (length shown) = min (b + 1) (int (length s)) - a" and "set shown \<subseteq> set s"
proof
  let ?shown = "take (nat (b - a + 1)) (drop (nat a) s)"
  show "substr s a (b - a + 1) = Some ?shown"
    using assms by (simp add: substr_def range_in_def)
  show "int (length ?shown) = min (b + 1) (int (length s)) - a"
    using assms by (auto simp: range_in_def)
  show "set ?shown \<subseteq> set s"
    using set_take_subset set_drop_subset by fast
qed

lemma cursor_bound_ok:
  assumes "plain_text s" and "0 < n" and "n \<le> int (length s)"
  shows "\<exists>w. getStringBound txw sp s 0 (n - 1) = Some w"
proof -
  from assms(2,3) have "s \<noteq> []" by auto
  moreover from assms(2,3) have "range_in s (0, n - 1)" by (simp add: range_in_def)
  ultimately show ?thesis using getStringBound_plain [OF assms(1)] by blast
qed

text \<open>The drawing step as a whole. Without text it succeeds whatever the cursor.\<close>

lemma drawing_empty:
  "displayString d = [] \<Longrightarrow> \<exists>w. drawPlaceHolderDisplayString txw sp phl showCursor d =
     Some (d\<lparr>displayStrWidth := w\<rparr>)"
  by (auto simp: drawPlaceHolderDisplayString_def getStringBound_def Let_def)

lemma drawing_ok:
  assumes "plain_text (displayString d)" and "display_ok d" and "font_fits txw phl"
  shows "\<exists>d'. drawPlaceHolderDisplayString txw sp phl showCursor d = Some d' \<and>
    -1 \<le> fst (visibleRange d') \<and> cursorPosition d' = cursorPosition d \<and>
    displayStrWidth d' \<le> phl \<and> length (displayString d') \<le> length (displayString d) \<and>
    (displayString d \<noteq> [] \<longrightarrow>
       cursorPosition d' - fst (visibleRange d') \<le> int (length (displayString d')))"
proof (cases "displayString d = []")
  case True
  with assms(2) have "cursorPosition d = 0" and "-1 \<le> fst (visibleRange d)"
    by (auto simp: display_ok_def)
  with True assms(3) show ?thesis
    by (auto simp: drawPlaceHolderDisplayString_def getStringBound_def font_fits_def Let_def)
next
  case False
  let ?s = "displayString d"
  from placeholder_range_ok [OF assms(1) False assms(2,3), of sp] obtain a b where
    q: "placeholder_range txw sp phl d = Some ((a, b), txw (slice ?s (a, b)))"
      "range_in ?s (a, b)" "cursor_reach (cursorPosition d) (a, b)"
    and fits: "txw (slice ?s (a, b)) + OSK_PLACEHOLDER_RESERVED_LENGTH < phl" by fastforce
  from slice_substr [OF q(2)] obtain shown where
    shown: "substr ?s a (b - a + 1) = Some shown"
      "int (length shown) = min (b + 1) (int (length ?s)) - a" "set shown \<subseteq> set ?s" .
  from shown(2) q(2) have len: "length shown \<le> length ?s" by (auto simp: range_in_def)
  with shown(3) assms(1) have plain: "plain_text shown" by (auto simp: plain_text_def)
  have c: "\<not> cursorPosition d < 0" "\<not> cursorPosition d > int (length ?s)"
    using assms(2) by (auto simp: display_ok_def)
  have n: "cursorPosition d - a \<le> int (length shown)"
    using q(3) c(2) shown(2) by (simp add: cursor_reach_def)
  have a: "0 \<le> a" using q(2) by (simp add: range_in_def)
  have "\<exists>w. getStringBound txw sp shown 0 (cursorPosition d - a - 1) = Some w"
    if "a + 1 \<le> cursorPosition d"
    using cursor_bound_ok [OF plain _ n, of txw sp] that by simp
  then show ?thesis
    using False q(1) shown(1) c fits n len a
    by (auto simp: drawPlaceHolderDisplayString_def Let_def)
qed

section \<open>Properties\<close>

text \<open>Drawing the text line succeeds on text without spaces, from every visible range an earlier
  drawing can have left: the narrowing loop ends, no byte is read outside the string, the cursor is
  inside the visible text or left of it, the text with its margin is not wider than the box, and
  the state is again one from which drawing succeeds.\<close>

theorem placeholder_text_fits:
  assumes "plain_text (displayString d)" and "display_ok d" and "font_fits txw phl"
  shows "\<exists>d'. drawPlaceHolderDisplayString txw sp phl showCursor d = Some d' \<and>
    -1 \<le> fst (visibleRange d') \<and> cursorPosition d' = cursorPosition d \<and>
    displayStrWidth d' \<le> phl \<and> length (displayString d') \<le> length (displayString d) \<and>
    (displayString d \<noteq> [] \<longrightarrow>
       cursorPosition d' - fst (visibleRange d') \<le> int (length (displayString d')))"
  by (rule drawing_ok [OF assms])

definition sample_display :: osk_display where
  "sample_display = \<lparr>displayString = ''abcdef'', cursorPosition = 6, visibleRange = (0, 4),
     displayStrWidth = 0\<rparr>"

theorem placeholder_text_fits_witness:
  "\<exists>d'. drawPlaceHolderDisplayString (\<lambda>s. 10 * of_nat (length s)) 5 40 True sample_display =
      Some d' \<and>
    -1 \<le> fst (visibleRange d') \<and> cursorPosition d' = cursorPosition sample_display \<and>
    displayStrWidth d' \<le> 40 \<and> length (displayString d') \<le> length (displayString sample_display) \<and>
    (displayString sample_display \<noteq> [] \<longrightarrow>
       cursorPosition d' - fst (visibleRange d') \<le> int (length (displayString d')))"
  by (rule placeholder_text_fits)
    (simp_all add: sample_display_def plain_text_def display_ok_def font_fits_def)

text \<open>A text of a single space makes the keyboard read outside the string: the space is counted
  as leading and as trailing, the end index wraps around, and 4294967295 bytes are measured. The
  drawing of the text line then fails whatever the cursor and the measurement are.\<close>

theorem single_space_overruns:
  assumes "displayString d = '' ''" and "visibleRange d = (-1, -1)"
  shows "drawPlaceHolderDisplayString txw sp phl showCursor d = None"
  using assms
  by (simp add: drawPlaceHolderDisplayString_def placeholder_range_def initial_range_def Let_def
    getStringBound_def u32_of_def)

theorem single_space_overruns_witness:
  "drawPlaceHolderDisplayString (\<lambda>s. of_nat (length s)) 5 896 True
     \<lparr>displayString = '' '', cursorPosition = 1, visibleRange = (-1, -1), displayStrWidth = 0\<rparr> = None"
  by (rule single_space_overruns) simp_all

end
