(* ===== verification/Osk.thy ===== *)
theory Osk imports OskLayout OskDisplay begin

text \<open>
  The on-screen keyboard (\<open>class OnScreenKeyboard\<close>, \<open>sdk/OnScreenKeyBoard.h\<close> and \<open>.cpp\<close>) as a
  state machine: the launch and exit life cycle, the drawing requests, the navigation and selection
  of keys, and the events it emits.

  \<^item> \<open>osk\<close> is the singleton's state. The two tables a layout owns (\<open>keyPos\<close>, \<open>siblingInfo\<close>) are
    kept per set of tables, as the static containers of \<open>OSKLayout.h\<close> are; the pointers into them
    are \<open>layoutTable\<close>, \<open>None\<close> while they are null.
  \<^item> \<open>out\<close> records what the keyboard does to the rest of the program, in order: events it emits,
    draw calls it commits, its window and its key listener.
  \<^item> The argument \<open>fx\<close> holds what the code calls in Skia: rectangles, text widths, and whether a
    typeface has a symbol.
  \<^item> \<open>None\<close> is a fault: a bounds check of \<open>vector::at\<close> that fails, a null pointer, or a read
    outside the text. The model is the build without key throttling, which is the default one.

  The lemmas show that no sequence of launches, exits, text updates and key presses faults, because
  the focused and the previously focused key always exist on the layout shown; that a selected key
  emits the character it shows; and they state where the code does not do so.
\<close>

section \<open>State\<close>

datatype OSKErrorCode =
  OSK_LAUNCH_SUCCESS | OSK_ERROR_ANOTHER_INSTANCE_ACTIVE | OSK_ERROR_LAUNCH_FAILED

datatype OSKState =
  OSK_STATE_LAUNCH_INPROGRESS | OSK_STATE_ACTIVE | OSK_STATE_EXIT_INPROGRESS | OSK_STATE_INACTIVE

datatype OSKComponents =
  OSK_BACKGROUND_AND_TI_TITLE | OSK_TEXTINPUT_DISPLAY | OSK_KEYBOARD_LAYOUT | OSK_KEYS

record OSKConfig =
  osk_type :: OSKTypes
  theme :: OSKThemes
  returnKeyLabel :: OSKReturnKeyType
  placeHolderName :: string
  showCursor :: bool
  enablesReturnKeyAutomatically :: bool

definition defaultOSKConfig :: OSKConfig where
  "defaultOSKConfig = \<lparr>osk_type = OSK_ALPHA_NUMERIC_KB, theme = OSK_DARK_THEME,
     returnKeyLabel = OSK_RETURN_KEY_DEFAULT, placeHolderName = [], showCursor = False,
     enablesReturnKeyAutomatically = False\<rparr>"

datatype osk_out =
    EmitOSKKeyEvent rnsKey rnsKeyAction
  | EmitKeyboardEvent string
  | CommitDrawCall string bool
  | CreateWindow
  | CloseWindow
  | AddKeyListener int
  | RemoveKeyListener int

record osk_fx =
  fx_rect :: sk_rect_api
  fx_measureText :: "scalar \<Rightarrow> string \<Rightarrow> scalar"
  fx_spaceAdvance :: "scalar \<Rightarrow> scalar"
  fx_hasTypeface :: "nat \<Rightarrow> bool"

record osk =
  oskState :: OSKState
  oskConfig :: OSKConfig
  screenSize :: "scalar \<times> scalar"
  generateOSKLayout :: bool
  kbLayoutType :: KBLayoutType
  layoutTable :: "kb_table option"
  keyPosOf :: "kb_table \<Rightarrow> key_pos list list"
  siblingInfoOf :: "kb_table \<Rightarrow> key_sibling_info list list"
  layoutEnv :: tile_env
  placeHolderLength :: scalar
  kBHeight :: scalar
  spaceWidth :: scalar
  currentFocussIndex :: key_index
  lastFocussIndex :: key_index
  autoActivateReturnKey :: bool
  oskDisplay :: osk_display
  emittedOSKKey :: rnsKey
  subWindowKeyEventId :: int
  out :: "osk_out list"

definition emit_out :: "osk_out \<Rightarrow> osk \<Rightarrow> osk" where
  "emit_out e s = s\<lparr>out := out s @ [e]\<rparr>"

definition osk_init :: osk where
  "osk_init = \<lparr>oskState = OSK_STATE_INACTIVE, oskConfig = defaultOSKConfig, screenSize = (0, 0),
     generateOSKLayout = True, kbLayoutType = ALPHA_LOWERCASE_LAYOUT, layoutTable = None,
     keyPosOf = (\<lambda>_. []), siblingInfoOf = (\<lambda>_. []),
     layoutEnv = \<lparr>env_width = 0, env_height = 0, textFontSize = 0, textHLFontSize = 0,
       horizontalStartOffset = 0, kBVerticalStart = 0\<rparr>,
     placeHolderLength = 0, kBHeight = 0, spaceWidth = 0,
     currentFocussIndex = (0, 0), lastFocussIndex = (0, 0), autoActivateReturnKey = False,
     oskDisplay = \<lparr>displayString = [], cursorPosition = 0, visibleRange = (0, 0),
       displayStrWidth = 0\<rparr>,
     emittedOSKKey = RNS_KEY_UnKnown, subWindowKeyEventId = -1, out = []\<rparr>"

section \<open>Keys as they are shown\<close>

definition is_alpha :: "char \<Rightarrow> bool" where
  "is_alpha c \<longleftrightarrow> (let n = of_char c in (65 \<le> n \<and> n \<le> 90) \<or> (97 \<le> n \<and> n \<le> (122 :: nat)))"

text \<open>The test the code makes in three places: a letter key of the upper-case layout.\<close>

definition shown_upper :: "KBLayoutType \<Rightarrow> key_info \<Rightarrow> bool" where
  "shown_upper kb k \<longleftrightarrow> key_type k = KEY_TYPE_TEXT \<and> kb = ALPHA_UPPERCASE_LAYOUT \<and>
     keyName k \<noteq> [] \<and> is_alpha (hd (keyName k))"

definition shown_value :: "KBLayoutType \<Rightarrow> key_info \<Rightarrow> rnsKey" where
  "shown_value kb k = (if shown_upper kb k then keyValue k - 26 else keyValue k)"

datatype key_label = LabelText string | LabelGlyph nat scalar | LabelFailure

text \<open>The text \<open>drawKBKeyFont\<close> draws on a key.\<close>

definition key_label ::
  "osk_fx \<Rightarrow> KBLayoutType \<Rightarrow> OSKReturnKeyType \<Rightarrow> key_info \<Rightarrow> key_label" where
  "key_label fx kb returnLabel k =
     (if shown_upper kb k then LabelText [upper_char (hd (keyName k))]
      else if key_type k = KEY_TYPE_FUNCTION
      then let name = (if keyName k = ''return''
                then (if returnLabel = OSK_RETURN_KEY_SEARCH then ''search'' else ''enter'')
                else keyName k)
           in (case map_of functionKeyMap name of
                None \<Rightarrow> LabelFailure
              | Some (cp, scale) \<Rightarrow>
                  if fx_hasTypeface fx cp then LabelGlyph cp scale else LabelFailure)
      else LabelText (keyName k))"

section \<open>Drawing\<close>

definition layout_keys :: "osk \<Rightarrow> key_info list list option" where
  "layout_keys s = map_option table_keys (layoutTable s)"

definition layout_pos :: "osk \<Rightarrow> key_pos list list option" where
  "layout_pos s = map_option (keyPosOf s) (layoutTable s)"

definition layout_siblings :: "osk \<Rightarrow> key_sibling_info list list option" where
  "layout_siblings s = map_option (siblingInfoOf s) (layoutTable s)"

text \<open>One key: the label and the tile it is drawn on.\<close>

definition drawKBKeyFont :: "osk_fx \<Rightarrow> osk \<Rightarrow> key_index \<Rightarrow> (key_label \<times> sk_irect) option" where
  "drawKBKeyFont fx s i = do {
     keys \<leftarrow> layout_keys s;
     pos \<leftarrow> layout_pos s;
     k \<leftarrow> grid_at keys (snd i) (fst i);
     p \<leftarrow> grid_at pos (snd i) (fst i);
     Some (key_label fx (kbLayoutType s) (returnKeyLabel (oskConfig s)) k, highlightTile p)
   }"

fun draw_keys :: "osk_fx \<Rightarrow> osk \<Rightarrow> key_index list \<Rightarrow> (key_label \<times> sk_irect) list option" where
  "draw_keys fx s [] = Some []"
| "draw_keys fx s (i # is) = do {
     d \<leftarrow> drawKBKeyFont fx s i;
     ds \<leftarrow> draw_keys fx s is;
     Some (d # ds)
   }"

definition grid_indices :: "'a list list \<Rightarrow> key_index list" where
  "grid_indices g = concat (map (\<lambda>r. map (\<lambda>c. (c, r)) [0..<length (g ! r)]) [0..<length g])"

text \<open>The lines between the groups: one where the group changes along the first row.\<close>

fun partition_lines :: "key_info list list \<Rightarrow> key_pos list list \<Rightarrow> nat list \<Rightarrow> nat list option" where
  "partition_lines keys pos [] = Some []"
| "partition_lines keys pos (i # is) = do {
     k \<leftarrow> grid_at keys 0 i;
     k0 \<leftarrow> grid_at keys 0 (i - 1);
     p \<leftarrow> grid_at pos 0 i;
     p0 \<leftarrow> grid_at pos 0 (i - 1);
     xs \<leftarrow> partition_lines keys pos is;
     Some (if kbPartitionId k \<noteq> kbPartitionId k0
       then trunc_u (of_int (fLeft (highlightTile p)) -
              of_int (fLeft (highlightTile p) - fRight (highlightTile p0)) / 2) # xs
       else xs)
   }"

section \<open>createOSKLayout\<close>

definition createOSKLayout :: "osk_fx \<Rightarrow> osk \<Rightarrow> osk option" where
  "createOSKLayout fx s =
     (let t = select_table (osk_type (oskConfig s)) (kbLayoutType s);
          s1 = s\<lparr>layoutTable := Some t\<rparr>
      in if keyPosOf s t \<noteq> [] \<and> \<not> generateOSKLayout s then Some s1
         else do {
           (pos, sib) \<leftarrow> generate_layout (fx_rect fx) (layoutEnv s) t;
           Some (s1\<lparr>generateOSKLayout := False, keyPosOf := (keyPosOf s)(t := pos),
                    siblingInfoOf := (siblingInfoOf s)(t := sib)\<rparr>)
         })"

definition drawKBLayout :: "osk_fx \<Rightarrow> osk \<Rightarrow> osk option" where
  "drawKBLayout fx s =
     (if oskState s \<noteq> OSK_STATE_ACTIVE then Some s
      else do {
        s1 \<leftarrow> createOSKLayout fx s;
        t \<leftarrow> layoutTable s1;
        let s2 = s1\<lparr>currentFocussIndex := table_defaultFocussIndex t\<rparr>;
        keys \<leftarrow> layout_keys s2;
        pos \<leftarrow> layout_pos s2;
        lastRow \<leftarrow> vec_at keys (length keys - 1);
        p \<leftarrow> grid_at pos (length keys - 1) (length lastRow - 1);
        let s3 = s2\<lparr>kBHeight := of_int (fBottom (highlightTile p)) + 3 -
                                 kBVerticalStart (layoutEnv s2)\<rparr>;
        _ \<leftarrow> draw_keys fx s3 (grid_indices keys);
        _ \<leftarrow> (if osk_type (oskConfig s3) \<noteq> OSK_NUMERIC_KB
             then do {
               k00 \<leftarrow> grid_at keys 0 0;
               _ \<leftarrow> grid_at pos 0 0;
               _ \<leftarrow> vec_at (table_groups t) (kbPartitionId k00);
               row0 \<leftarrow> vec_at keys 0;
               partition_lines keys pos [1..<length row0]
             } else Some []);
        Some s3
      })"

definition drawHighLightOnKey :: "osk_fx \<Rightarrow> osk \<Rightarrow> osk option" where
  "drawHighLightOnKey fx s =
     (if oskState s \<noteq> OSK_STATE_ACTIVE then Some s
      else do {
        pos \<leftarrow> layout_pos s;
        _ \<leftarrow> grid_at pos (snd (lastFocussIndex s)) (fst (lastFocussIndex s));
        _ \<leftarrow> grid_at pos (snd (currentFocussIndex s)) (fst (currentFocussIndex s));
        _ \<leftarrow> drawKBKeyFont fx s (lastFocussIndex s);
        _ \<leftarrow> drawKBKeyFont fx s (currentFocussIndex s);
        Some s
      })"

definition drawDisplayString :: "osk_fx \<Rightarrow> osk \<Rightarrow> osk option" where
  "drawDisplayString fx s =
     (if oskState s \<noteq> OSK_STATE_ACTIVE then Some s
      else map_option (\<lambda>d. s\<lparr>oskDisplay := d\<rparr>)
        (drawPlaceHolderDisplayString (fx_measureText fx (textFontSize (layoutEnv s)))
           (spaceWidth s) (placeHolderLength s) (showCursor (oskConfig s)) (oskDisplay s)))"

text \<open>The draw call a request commits, under its command key.\<close>

fun command_key :: "OSKComponents \<Rightarrow> string" where
  "command_key OSK_BACKGROUND_AND_TI_TITLE = ''OSKBackGroundAndTitle''"
| "command_key OSK_TEXTINPUT_DISPLAY = ''EmbededTIString''"
| "command_key OSK_KEYS = ''HighLight''"
| "command_key OSK_KEYBOARD_LAYOUT = ''KeyBoardLayout''"

fun draw_component :: "osk_fx \<Rightarrow> OSKComponents \<Rightarrow> osk \<Rightarrow> osk option" where
  "draw_component fx OSK_BACKGROUND_AND_TI_TITLE s = Some s"
| "draw_component fx OSK_TEXTINPUT_DISPLAY s = drawDisplayString fx s"
| "draw_component fx OSK_KEYS s = drawHighLightOnKey fx s"
| "draw_component fx OSK_KEYBOARD_LAYOUT s = drawKBLayout fx s"

definition triggerRenderRequest :: "osk_fx \<Rightarrow> OSKComponents \<Rightarrow> bool \<Rightarrow> osk \<Rightarrow> osk option" where
  "triggerRenderRequest fx c batch s = do {
     s1 \<leftarrow> draw_component fx c s;
     Some (if oskState s1 = OSK_STATE_ACTIVE
           then emit_out (CommitDrawCall (command_key c) batch) s1 else s1)
   }"

section \<open>Launch and exit\<close>

definition launchOSKWindow :: "osk_fx \<Rightarrow> scalar \<times> scalar \<Rightarrow> osk \<Rightarrow> osk" where
  "launchOSKWindow fx mainSize s =
     (let (w, h) = mainSize;
          XscaleFactor = w / 1280;
          fontSize = 24 * XscaleFactor;
          phl = w * (7 / 10)
      in emit_out CreateWindow
        (s\<lparr>generateOSKLayout := (screenSize s \<noteq> mainSize),
           screenSize := mainSize,
           kbLayoutType := (if osk_type (oskConfig s) = OSK_ALPHA_NUMERIC_KB
                            then ALPHA_LOWERCASE_LAYOUT else kbLayoutType s),
           autoActivateReturnKey := (enablesReturnKeyAutomatically (oskConfig s) \<or>
                                     autoActivateReturnKey s),
           spaceWidth := fx_spaceAdvance fx fontSize + 1,
           placeHolderLength := phl,
           layoutEnv := \<lparr>env_width = w, env_height = h, textFontSize = fontSize,
             textHLFontSize = 32 * XscaleFactor, horizontalStartOffset = (w - phl) / 2,
             kBVerticalStart = h * (3 / 10)\<rparr>\<rparr>))"

definition osk_launch :: "osk_fx \<Rightarrow> OSKConfig \<Rightarrow> scalar \<times> scalar \<Rightarrow> osk \<Rightarrow> OSKErrorCode \<times> osk" where
  "osk_launch fx cfg mainSize s =
     (if oskState s = OSK_STATE_LAUNCH_INPROGRESS \<or> oskState s = OSK_STATE_ACTIVE
      then (OSK_ERROR_ANOTHER_INSTANCE_ACTIVE, s)
      else (OSK_LAUNCH_SUCCESS,
        launchOSKWindow fx mainSize
          (emit_out (EmitKeyboardEvent ''keyboardWillShow'')
            (s\<lparr>oskConfig := cfg, oskState := OSK_STATE_LAUNCH_INPROGRESS\<rparr>))))"

definition osk_exit :: "osk \<Rightarrow> osk" where
  "osk_exit s =
     (if oskState s = OSK_STATE_EXIT_INPROGRESS \<or> oskState s = OSK_STATE_INACTIVE then s
      else let s1 = emit_out CloseWindow (emit_out (EmitKeyboardEvent ''keyboardWillHide'')
                      (s\<lparr>oskState := OSK_STATE_EXIT_INPROGRESS\<rparr>));
               s2 = (if subWindowKeyEventId s1 \<noteq> -1
                     then (emit_out (RemoveKeyListener (subWindowKeyEventId s1)) s1)
                            \<lparr>subWindowKeyEventId := -1\<rparr>
                     else s1);
               s3 = emit_out (EmitKeyboardEvent ''keyboardDidHide'') s2
           in s3\<lparr>oskState := OSK_STATE_INACTIVE, autoActivateReturnKey := False,
                oskDisplay := (oskDisplay s3)\<lparr>displayString := [], displayStrWidth := 0,
                  visibleRange := (-1, -1)\<rparr>,
                lastFocussIndex := (0, 0), currentFocussIndex := (0, 0),
                emittedOSKKey := RNS_KEY_UnKnown\<rparr>)"

definition updatePlaceHolderString :: "osk_fx \<Rightarrow> string \<Rightarrow> int \<Rightarrow> osk \<Rightarrow> osk option" where
  "updatePlaceHolderString fx str cursor s =
     (let s1 = s\<lparr>oskDisplay := (oskDisplay s)\<lparr>displayString := str, cursorPosition := cursor\<rparr>\<rparr>
      in if oskState s1 \<noteq> OSK_STATE_ACTIVE then Some s1
         else triggerRenderRequest fx OSK_TEXTINPUT_DISPLAY False s1)"

text \<open>\<open>listenerId\<close> is the id the notification center gives the key listener.\<close>

definition windowReadyToDrawCB :: "osk_fx \<Rightarrow> int \<Rightarrow> osk \<Rightarrow> osk option" where
  "windowReadyToDrawCB fx listenerId s =
     (if oskState s = OSK_STATE_LAUNCH_INPROGRESS
      then do {
        s1 \<leftarrow> triggerRenderRequest fx OSK_BACKGROUND_AND_TI_TITLE True
               (s\<lparr>oskState := OSK_STATE_ACTIVE\<rparr>);
        s2 \<leftarrow> triggerRenderRequest fx OSK_TEXTINPUT_DISPLAY True s1;
        s3 \<leftarrow> triggerRenderRequest fx OSK_KEYBOARD_LAYOUT True s2;
        s4 \<leftarrow> triggerRenderRequest fx OSK_KEYS False s3;
        let s5 = (if subWindowKeyEventId s4 = -1
                  then (emit_out (AddKeyListener listenerId) s4)\<lparr>subWindowKeyEventId := listenerId\<rparr>
                  else s4);
        Some (emit_out (EmitKeyboardEvent ''keyboardDidShow'') s5)
      }
      else Some s)"

section \<open>Keys\<close>

text \<open>The search for a key of the layout by its value: the first one, row by row.\<close>

fun find_key :: "KBLayoutType \<Rightarrow> rnsKey \<Rightarrow> nat \<Rightarrow> key_info list list \<Rightarrow> key_index option" where
  "find_key kb v r [] = None"
| "find_key kb v r (row # rows) =
     (case find_index (\<lambda>k. shown_value kb k = v) row of
        Some c \<Rightarrow> Some (c, r)
      | None \<Rightarrow> find_key kb v (Suc r) rows)"

definition layout_key_action ::
  "rnsKey \<Rightarrow> osk \<Rightarrow> (key_index \<times> rnsKey \<times> osk) option" where
  "layout_key_action v s = do {
     keys \<leftarrow> layout_keys s;
     Some (if v = RNS_KEY_Select \<or> (v < RNS_KEY_UnKnown \<and> RNS_KEY_1 \<le> v)
           then (case find_key (kbLayoutType s) v 0 keys of
                   Some i \<Rightarrow> (i, v, s)
                 | None \<Rightarrow> (currentFocussIndex s, RNS_KEY_UnKnown, s))
           else (currentFocussIndex s, RNS_KEY_UnKnown, s))
   }"

definition toggle_key_action :: "osk_fx \<Rightarrow> key_info \<Rightarrow> osk \<Rightarrow> osk option" where
  "toggle_key_action fx k s =
     (case map_of toggleKeyMap (keyName k) of
        None \<Rightarrow> Some s
      | Some kb \<Rightarrow>
          if kb = kbLayoutType s then Some s
          else do {
            s1 \<leftarrow> triggerRenderRequest fx OSK_KEYBOARD_LAYOUT True (s\<lparr>kbLayoutType := kb\<rparr>);
            triggerRenderRequest fx OSK_KEYS False s1
          })"

text \<open>The \<open>switch\<close> of \<open>processKey\<close>: the candidate for the focus, the key to emit, and the state.\<close>

definition key_action ::
  "osk_fx \<Rightarrow> rnsKey \<Rightarrow> osk \<Rightarrow> (key_index \<times> rnsKey \<times> osk) option" where
  "key_action fx v s =
     (let c = fst (currentFocussIndex s); r = snd (currentFocussIndex s);
          sibling = (\<lambda>field. do {
             sib \<leftarrow> layout_siblings s;
             i \<leftarrow> grid_at sib r c;
             Some (field i, RNS_KEY_UnKnown, s)
           })
      in if v = RNS_KEY_Right then sibling siblingRight
         else if v = RNS_KEY_Left then sibling siblingLeft
         else if v = RNS_KEY_Up then sibling siblingUp
         else if v = RNS_KEY_Down then sibling siblingDown
         else if v = RNS_KEY_Select then do {
           keys \<leftarrow> layout_keys s;
           k \<leftarrow> grid_at keys r c;
           if keyValue k = RNS_KEY_Select then layout_key_action v s
           else if key_type k = KEY_TYPE_TOGGLE
           then map_option (\<lambda>s'. (currentFocussIndex s, RNS_KEY_UnKnown, s')) (toggle_key_action fx k s)
           else Some (currentFocussIndex s, shown_value (kbLayoutType s) k, s)
         }
         else layout_key_action v s)"

definition processKey :: "osk_fx \<Rightarrow> rnsKey \<Rightarrow> osk \<Rightarrow> osk option" where
  "processKey fx v s =
     (if v = RNS_KEY_UnKnown \<or> oskState s \<noteq> OSK_STATE_ACTIVE then Some s
      else do {
        (hlCandidate, OSKkeyValue, s1) \<leftarrow> key_action fx v
          (s\<lparr>lastFocussIndex := currentFocussIndex s\<rparr>);
        let validKey = (OSKkeyValue \<noteq> RNS_KEY_UnKnown);
        s2 \<leftarrow> (if validKey \<and> autoActivateReturnKey s1
          then do {
            t \<leftarrow> layoutTable s1;
            triggerRenderRequest fx OSK_KEYS True
              (s1\<lparr>autoActivateReturnKey := False, currentFocussIndex := table_returnKeyIndex t\<rparr>)
          } else Some s1);
        s3 \<leftarrow> (if lastFocussIndex s2 \<noteq> hlCandidate
          then triggerRenderRequest fx OSK_KEYS validKey (s2\<lparr>currentFocussIndex := hlCandidate\<rparr>)
          else Some s2);
        Some (if validKey
              then emit_out (EmitOSKKeyEvent OSKkeyValue RNS_KEY_Press)
                     (s3\<lparr>emittedOSKKey := OSKkeyValue\<rparr>)
              else s3)
      })"

definition onHWkeyHandler :: "osk_fx \<Rightarrow> rnsKey \<Rightarrow> rnsKeyAction \<Rightarrow> bool \<Rightarrow> osk \<Rightarrow> osk option" where
  "onHWkeyHandler fx v action ownWindow s =
     (if \<not> ownWindow then Some s
      else if action = RNS_KEY_Release
      then Some (emit_out (EmitOSKKeyEvent
             (if emittedOSKKey s \<noteq> RNS_KEY_UnKnown then emittedOSKKey s else v) RNS_KEY_Release) s)
      else processKey fx v s)"

section \<open>The machine\<close>

datatype osk_event =
    Launch OSKConfig "scalar \<times> scalar"
  | Exit
  | UpdateText string int
  | WindowReady int
  | HWKey rnsKey rnsKeyAction bool

fun osk_step :: "osk_fx \<Rightarrow> osk \<Rightarrow> osk_event \<Rightarrow> osk option" where
  "osk_step fx s (Launch cfg screen) = Some (snd (osk_launch fx cfg screen s))"
| "osk_step fx s Exit = Some (osk_exit s)"
| "osk_step fx s (UpdateText str c) = updatePlaceHolderString fx str c s"
| "osk_step fx s (WindowReady i) = windowReadyToDrawCB fx i s"
| "osk_step fx s (HWKey v a own) = onHWkeyHandler fx v a own s"

abbreviation osk_run :: "osk_fx \<Rightarrow> osk \<Rightarrow> osk_event list \<Rightarrow> osk option" where
  "osk_run fx \<equiv> run_opt (osk_step fx)"

section \<open>Drawing never faults\<close>

definition tables_ok ::
  "(kb_table \<Rightarrow> key_pos list list) \<Rightarrow> (kb_table \<Rightarrow> key_sibling_info list list) \<Rightarrow> bool" where
  "tables_ok P S \<longleftrightarrow>
     (\<forall>t. P t = [] \<or> same_shape (table_keys t) (P t) \<and> sibs_ok (table_keys t) (S t))"

lemma tables_ok_at:
  assumes "tables_ok P S" and "P t \<noteq> []"
  shows "same_shape (table_keys t) (P t)" and "sibs_ok (table_keys t) (S t)"
  using assms unfolding tables_ok_def by blast+

lemma tables_ok_upd:
  assumes "tables_ok P S" and "same_shape (table_keys t) p" and "sibs_ok (table_keys t) q"
  shows "tables_ok (P(t := p)) (S(t := q))"
  using assms unfolding tables_ok_def by simp

lemma table_keys_rows: "table_keys t \<noteq> []" "row \<in> set (table_keys t) \<Longrightarrow> row \<noteq> []"
  using wf_table [of t] unfolding wf_table_def by blast+

lemma table_in_grid_last:
  "in_grid (table_keys t) (length (table_keys t) - 1)
     (length (table_keys t ! (length (table_keys t) - 1)) - 1)"
  using table_keys_rows(1) [of t] table_keys_rows(2) [of "table_keys t ! (length (table_keys t) - 1)" t]
  by (simp add: in_grid_def)

lemma table_in_grid_first: "in_grid (table_keys t) 0 0"
  using table_keys_rows(1) [of t] table_keys_rows(2) [of "table_keys t ! 0" t]
  by (simp add: in_grid_def)

lemma default_index_in: "index_in (table_keys t) (table_defaultFocussIndex t)"
  and return_index_in: "index_in (table_keys t) (table_returnKeyIndex t)"
  using wf_table [of t] unfolding wf_table_def index_in_def by blast+

lemma createOSKLayout_ok:
  assumes "sk_rect_laws (fx_rect fx)" and "tables_ok (keyPosOf s) (siblingInfoOf s)"
    and "t = select_table (osk_type (oskConfig s)) (kbLayoutType s)"
  shows "\<exists>g P S. createOSKLayout fx s = Some (s\<lparr>layoutTable := Some t, generateOSKLayout := g,
      keyPosOf := P, siblingInfoOf := S\<rparr>) \<and> tables_ok P S \<and> P t \<noteq> []"
proof (cases "keyPosOf s t \<noteq> [] \<and> \<not> generateOSKLayout s")
  case True
  with assms(2,3) have "createOSKLayout fx s = Some (s\<lparr>layoutTable := Some t,
    generateOSKLayout := generateOSKLayout s, keyPosOf := keyPosOf s, siblingInfoOf := siblingInfoOf s\<rparr>)"
    by (simp add: createOSKLayout_def Let_def)
  with True assms(2) show ?thesis by blast
next
  case False
  from generate_layout_total [of "fx_rect fx" "layoutEnv s" t] obtain pos where
    gen: "generate_layout (fx_rect fx) (layoutEnv s) t = Some (pos, sibling_grid (table_keys t) pos)"
    and shape: "same_shape (table_keys t) pos" by blast
  note sib = generate_layout_sibs_ok [OF assms(1) gen]
  from shape table_keys_rows(1) [of t] have ne: "pos \<noteq> []"
    by (auto simp: same_shape_def)
  have "createOSKLayout fx s = Some (s\<lparr>layoutTable := Some t, generateOSKLayout := False,
      keyPosOf := (keyPosOf s)(t := pos),
      siblingInfoOf := (siblingInfoOf s)(t := sibling_grid (table_keys t) pos)\<rparr>)"
    using False gen by (auto simp: createOSKLayout_def Let_def assms(3) [symmetric])
  with tables_ok_upd [OF assms(2) shape sib] ne show ?thesis
    by (metis fun_upd_same)
qed

text \<open>The layout shown is in place: its pointers are set and its tables are filled.\<close>

definition layout_ready :: "osk \<Rightarrow> kb_table \<Rightarrow> bool" where
  "layout_ready s t \<longleftrightarrow> layoutTable s = Some t \<and> keyPosOf s t \<noteq> [] \<and>
     tables_ok (keyPosOf s) (siblingInfoOf s)"

lemma layout_ready_at:
  assumes "layout_ready s t" and "index_in (table_keys t) i"
  shows "grid_at (table_keys t) (snd i) (fst i) = Some (table_keys t ! snd i ! fst i)"
    and "grid_at (keyPosOf s t) (snd i) (fst i) = Some (keyPosOf s t ! snd i ! fst i)"
    and "grid_at (siblingInfoOf s t) (snd i) (fst i) = Some (siblingInfoOf s t ! snd i ! fst i)"
proof -
  from assms(1) have shape: "same_shape (table_keys t) (keyPosOf s t)"
    and "sibs_ok (table_keys t) (siblingInfoOf s t)"
    using tables_ok_at unfolding layout_ready_def by blast+
  then have shape': "same_shape (table_keys t) (siblingInfoOf s t)" by (simp add: sibs_ok_def)
  from assms(2) same_shape_in_grid [OF shape] same_shape_in_grid [OF shape']
  show "grid_at (table_keys t) (snd i) (fst i) = Some (table_keys t ! snd i ! fst i)"
    and "grid_at (keyPosOf s t) (snd i) (fst i) = Some (keyPosOf s t ! snd i ! fst i)"
    and "grid_at (siblingInfoOf s t) (snd i) (fst i) = Some (siblingInfoOf s t ! snd i ! fst i)"
    by (simp_all add: index_in_def grid_at_in)
qed

lemma drawKBKeyFont_ok:
  "layout_ready s t \<Longrightarrow> index_in (table_keys t) i \<Longrightarrow> \<exists>d. drawKBKeyFont fx s i = Some d"
  using layout_ready_at [of s t i]
  by (simp add: drawKBKeyFont_def layout_keys_def layout_pos_def layout_ready_def)

lemma draw_keys_ok:
  "layout_ready s t \<Longrightarrow> \<forall>i \<in> set is. index_in (table_keys t) i \<Longrightarrow> \<exists>ds. draw_keys fx s is = Some ds"
proof (induction "is")
  case Nil
  then show ?case by simp
next
  case (Cons i "is")
  from drawKBKeyFont_ok [OF Cons.prems(1)] Cons.prems(2)
  obtain d where "drawKBKeyFont fx s i = Some d" by fastforce
  with Cons show ?case by auto
qed

lemma grid_indices_in: "i \<in> set (grid_indices g) \<longleftrightarrow> index_in g i"
  by (cases i) (auto simp: grid_indices_def index_in_def in_grid_def intro!: bexI [of _ "snd i"])

lemma partition_lines_ok:
  assumes "same_shape keys pos" and "\<forall>i \<in> set is. in_grid keys 0 i"
  shows "\<exists>xs. partition_lines keys pos is = Some xs"
  using assms(2)
proof (induction "is")
  case Nil
  then show ?case by simp
next
  case (Cons i "is")
  then have "in_grid keys 0 i" and "in_grid keys 0 (i - 1)" by (auto simp: in_grid_def)
  with same_shape_in_grid [OF assms(1)] Cons show ?case
    by (auto simp: grid_at_in)
qed

lemma drawKBLayout_ok:
  assumes "sk_rect_laws (fx_rect fx)" and "tables_ok (keyPosOf s) (siblingInfoOf s)"
    and "oskState s = OSK_STATE_ACTIVE"
    and t: "t = select_table (osk_type (oskConfig s)) (kbLayoutType s)"
  shows "\<exists>g P S h. drawKBLayout fx s = Some (s\<lparr>layoutTable := Some t, generateOSKLayout := g,
      keyPosOf := P, siblingInfoOf := S, currentFocussIndex := table_defaultFocussIndex t,
      kBHeight := h\<rparr>) \<and> tables_ok P S \<and> P t \<noteq> []"
proof -
  from createOSKLayout_ok [OF assms(1,2) t] obtain g P S where
    create: "createOSKLayout fx s = Some (s\<lparr>layoutTable := Some t, generateOSKLayout := g,
      keyPosOf := P, siblingInfoOf := S\<rparr>)" and PS: "tables_ok P S" "P t \<noteq> []" by blast
  let ?last = "(length (table_keys t ! (length (table_keys t) - 1)) - 1, length (table_keys t) - 1)"
  define h where "h = of_int (fBottom (highlightTile (P t ! snd ?last ! fst ?last))) + 3 -
    kBVerticalStart (layoutEnv s)"
  let ?s = "s\<lparr>layoutTable := Some t, generateOSKLayout := g, keyPosOf := P, siblingInfoOf := S,
    currentFocussIndex := table_defaultFocussIndex t, kBHeight := h\<rparr>"
  from PS have ready: "layout_ready ?s t" by (simp add: layout_ready_def)
  have "index_in (table_keys t) ?last" using table_in_grid_last [of t] by (simp add: index_in_def)
  from layout_ready_at(2) [OF ready this] have last: "grid_at (P t) (snd ?last) (fst ?last) =
    Some (P t ! snd ?last ! fst ?last)" by simp
  have "index_in (table_keys t) (0, 0)" using table_in_grid_first [of t] by (simp add: index_in_def)
  from layout_ready_at(1,2) [OF ready this] have first: "grid_at (table_keys t) 0 0 =
    Some (table_keys t ! 0 ! 0)" "grid_at (P t) 0 0 = Some (P t ! 0 ! 0)" by simp_all
  from table_in_grid_first [of t] have b: "length (table_keys t) > 0" by (simp add: in_grid_def)
  have "kbPartitionId (table_keys t ! 0 ! 0) < length (table_groups t)"
    using table_in_grid_first [of t] by (intro table_groups_cover [of "table_keys t ! 0"])
      (auto simp: in_grid_def)
  moreover obtain ds where "draw_keys fx ?s (grid_indices (table_keys t)) = Some ds"
    using draw_keys_ok [OF ready, of "grid_indices (table_keys t)"] by (auto simp: grid_indices_in)
  moreover have "\<forall>i \<in> set [1..<length (table_keys t ! 0)]. in_grid (table_keys t) 0 i"
    using b by (auto simp: in_grid_def)
  from partition_lines_ok [OF tables_ok_at(1) [OF PS] this] obtain xs where
    "partition_lines (table_keys t) (P t) [1..<length (table_keys t ! 0)] = Some xs" by blast
  ultimately have "drawKBLayout fx s = Some ?s"
    using create last first b assms(3)
    by (simp add: drawKBLayout_def layout_keys_def layout_pos_def vec_at_def h_def)
  with PS show ?thesis by blast
qed

lemma drawHighLightOnKey_ok:
  assumes "layout_ready s t" and "index_in (table_keys t) (currentFocussIndex s)"
    and "index_in (table_keys t) (lastFocussIndex s)"
  shows "drawHighLightOnKey fx s = Some s"
  using layout_ready_at [OF assms(1,2)] layout_ready_at [OF assms(1,3)] assms(1)
    drawKBKeyFont_ok [OF assms(1,2), of fx] drawKBKeyFont_ok [OF assms(1,3), of fx]
  by (auto simp: drawHighLightOnKey_def layout_pos_def layout_ready_def)

text \<open>The text is one the drawing is proved for, or there is none.\<close>

definition text_ready :: "osk_display \<Rightarrow> bool" where
  "text_ready d \<longleftrightarrow> -1 \<le> fst (visibleRange d) \<and>
     (displayString d = [] \<or> plain_text (displayString d) \<and> display_ok d)"

lemma drawDisplayString_ok:
  assumes "text_ready (oskDisplay s)"
    and "font_fits (fx_measureText fx (textFontSize (layoutEnv s))) (placeHolderLength s)"
  shows "\<exists>d. drawDisplayString fx s = Some (s\<lparr>oskDisplay := d\<rparr>) \<and> -1 \<le> fst (visibleRange d)"
proof (cases "oskState s = OSK_STATE_ACTIVE")
  case False
  have "s = s\<lparr>oskDisplay := oskDisplay s\<rparr>" by simp
  with False assms(1) show ?thesis
    unfolding drawDisplayString_def text_ready_def by metis
next
  case True
  have "\<exists>d. drawPlaceHolderDisplayString (fx_measureText fx (textFontSize (layoutEnv s)))
      (spaceWidth s) (placeHolderLength s) (showCursor (oskConfig s)) (oskDisplay s) = Some d \<and>
      -1 \<le> fst (visibleRange d)"
  proof (cases "displayString (oskDisplay s) = []")
    case True
    from drawing_empty [OF True] obtain w where
      "drawPlaceHolderDisplayString (fx_measureText fx (textFontSize (layoutEnv s)))
        (spaceWidth s) (placeHolderLength s) (showCursor (oskConfig s)) (oskDisplay s) =
        Some ((oskDisplay s)\<lparr>displayStrWidth := w\<rparr>)" by blast
    with assms(1) show ?thesis by (simp add: text_ready_def)
  next
    case False
    with assms(1) have "plain_text (displayString (oskDisplay s))" "display_ok (oskDisplay s)"
      by (simp_all add: text_ready_def)
    from drawing_ok [OF this assms(2)] show ?thesis by blast
  qed
  with True show ?thesis by (auto simp: drawDisplayString_def)
qed

section \<open>Drawing requests\<close>

lemma trigger_keys_ok:
  assumes "layout_ready s t" and "index_in (table_keys t) (currentFocussIndex s)"
    and "index_in (table_keys t) (lastFocussIndex s)" and "oskState s = OSK_STATE_ACTIVE"
  shows "triggerRenderRequest fx OSK_KEYS batch s =
    Some (emit_out (CommitDrawCall ''HighLight'' batch) s)"
  using drawHighLightOnKey_ok [OF assms(1-3)] assms(4) by (simp add: triggerRenderRequest_def)

lemma trigger_background:
  "oskState s = OSK_STATE_ACTIVE \<Longrightarrow>
   triggerRenderRequest fx OSK_BACKGROUND_AND_TI_TITLE batch s =
     Some (emit_out (CommitDrawCall ''OSKBackGroundAndTitle'' batch) s)"
  by (simp add: triggerRenderRequest_def)

lemma emit_out_sel [simp]:
  "oskState (emit_out e s) = oskState s" "oskConfig (emit_out e s) = oskConfig s"
  "screenSize (emit_out e s) = screenSize s" "generateOSKLayout (emit_out e s) = generateOSKLayout s"
  "kbLayoutType (emit_out e s) = kbLayoutType s" "layoutTable (emit_out e s) = layoutTable s"
  "keyPosOf (emit_out e s) = keyPosOf s" "siblingInfoOf (emit_out e s) = siblingInfoOf s"
  "layoutEnv (emit_out e s) = layoutEnv s" "placeHolderLength (emit_out e s) = placeHolderLength s"
  "spaceWidth (emit_out e s) = spaceWidth s"
  "currentFocussIndex (emit_out e s) = currentFocussIndex s"
  "lastFocussIndex (emit_out e s) = lastFocussIndex s"
  "autoActivateReturnKey (emit_out e s) = autoActivateReturnKey s"
  "oskDisplay (emit_out e s) = oskDisplay s" "emittedOSKKey (emit_out e s) = emittedOSKKey s"
  "subWindowKeyEventId (emit_out e s) = subWindowKeyEventId s"
  "out (emit_out e s) = out s @ [e]"
  by (simp_all add: emit_out_def)

lemma layout_ready_emit [simp]: "layout_ready (emit_out e s) t = layout_ready s t"
  by (simp add: layout_ready_def)

text \<open>
  What holds while the keyboard is active: the layout is the one the configuration and the layout
  type ask for, and both focus indices are keys of it.
\<close>

definition focus_ok :: "osk \<Rightarrow> bool" where
  "focus_ok s \<longleftrightarrow> oskState s = OSK_STATE_ACTIVE \<and>
     (let t = select_table (osk_type (oskConfig s)) (kbLayoutType s)
      in layout_ready s t \<and> index_in (table_keys t) (currentFocussIndex s) \<and>
         index_in (table_keys t) (lastFocussIndex s))"

text \<open>
  What a key press leaves alone: the life cycle, the text and its geometry, the listener. The key
  events are the part of the log the client sees as key presses.
\<close>

fun is_key_event :: "osk_out \<Rightarrow> bool" where
  "is_key_event (EmitOSKKeyEvent _ _) = True"
| "is_key_event _ = False"

definition key_events :: "osk \<Rightarrow> osk_out list" where
  "key_events s = filter is_key_event (out s)"

definition state_frame :: "osk \<Rightarrow> osk \<Rightarrow> bool" where
  "state_frame s s' \<longleftrightarrow> oskState s' = oskState s \<and> oskConfig s' = oskConfig s \<and>
     oskDisplay s' = oskDisplay s \<and> layoutEnv s' = layoutEnv s \<and>
     placeHolderLength s' = placeHolderLength s \<and> subWindowKeyEventId s' = subWindowKeyEventId s"

definition key_frame :: "osk \<Rightarrow> osk \<Rightarrow> bool" where
  "key_frame s s' \<longleftrightarrow> state_frame s s' \<and> key_events s' = key_events s"

lemma key_frame_refl [simp]: "key_frame s s"
  by (simp add: key_frame_def state_frame_def)

lemma key_events_emit [simp]:
  "key_events (emit_out e s) = key_events s @ (if is_key_event e then [e] else [])"
  by (simp add: key_events_def)

lemma state_frame_emit [simp]: "state_frame s (emit_out e s') = state_frame s s'"
  by (simp add: state_frame_def)

lemma key_frame_emit [simp]: "\<not> is_key_event e \<Longrightarrow> key_frame s (emit_out e s') = key_frame s s'"
  by (simp add: key_frame_def)

lemma key_frame_updates [simp]:
  "key_frame s (s'\<lparr>lastFocussIndex := i\<rparr>) = key_frame s s'"
  "key_frame s (s'\<lparr>currentFocussIndex := i\<rparr>) = key_frame s s'"
  "key_frame s (s'\<lparr>autoActivateReturnKey := b\<rparr>) = key_frame s s'"
  "key_frame (s\<lparr>lastFocussIndex := i\<rparr>) s' = key_frame s s'"
  by (simp_all add: key_frame_def state_frame_def key_events_def)

lemma state_frame_emitted [simp]: "state_frame s (s'\<lparr>emittedOSKKey := v\<rparr>) = state_frame s s'"
  by (simp add: state_frame_def)

lemma key_events_updates [simp]:
  "key_events (s\<lparr>currentFocussIndex := i\<rparr>) = key_events s"
  "key_events (s\<lparr>lastFocussIndex := i\<rparr>) = key_events s"
  "key_events (s\<lparr>autoActivateReturnKey := b\<rparr>) = key_events s"
  "key_events (s\<lparr>emittedOSKKey := v\<rparr>) = key_events s"
  by (simp_all add: key_events_def)

text \<open>A toggle key has the same index in both layouts it switches between.\<close>

lemma toggle_everywhere_check:
  "\<forall>t \<in> set [AlphaNumericKB, SymbolKB, NumericKB]. \<forall>i \<in> set (grid_indices (table_keys t)).
     key_type (table_keys t ! snd i ! fst i) = KEY_TYPE_TOGGLE \<longrightarrow>
     t \<noteq> NumericKB \<and> in_grid (table_keys AlphaNumericKB) (snd i) (fst i) \<and>
     in_grid (table_keys SymbolKB) (snd i) (fst i)"
  by code_simp

lemma toggle_everywhere:
  assumes "index_in (table_keys t) i" and "key_type (table_keys t ! snd i ! fst i) = KEY_TYPE_TOGGLE"
  shows "t \<noteq> NumericKB" and "t' \<noteq> NumericKB \<Longrightarrow> index_in (table_keys t') i"
proof -
  have "t \<in> set [AlphaNumericKB, SymbolKB, NumericKB]" by (cases t) simp_all
  moreover have "i \<in> set (grid_indices (table_keys t))" using assms(1) by (simp add: grid_indices_in)
  ultimately have all: "t \<noteq> NumericKB \<and> in_grid (table_keys AlphaNumericKB) (snd i) (fst i) \<and>
     in_grid (table_keys SymbolKB) (snd i) (fst i)"
    using toggle_everywhere_check assms(2) by blast
  then show "t \<noteq> NumericKB" and "t' \<noteq> NumericKB \<Longrightarrow> index_in (table_keys t') i"
    by (cases t'; simp add: index_in_def)+
qed

lemma toggle_key_action_ok:
  assumes laws: "sk_rect_laws (fx_rect fx)" and focus: "focus_ok s"
    and last: "lastFocussIndex s = currentFocussIndex s"
    and layout: "layoutTable s = Some t"
    and toggle: "key_type (table_keys t ! snd (currentFocussIndex s) ! fst (currentFocussIndex s)) =
      KEY_TYPE_TOGGLE"
  shows "\<exists>s'. toggle_key_action fx k s = Some s' \<and> focus_ok s' \<and> key_frame s s' \<and>
    lastFocussIndex s' = lastFocussIndex s"
proof (cases "\<exists>kb. map_of toggleKeyMap (keyName k) = Some kb \<and> kb \<noteq> kbLayoutType s")
  case False
  then have "toggle_key_action fx k s = Some s"
    by (auto simp: toggle_key_action_def split: option.splits)
  with focus show ?thesis by simp
next
  case True
  then obtain kb where kb: "map_of toggleKeyMap (keyName k) = Some kb" "kb \<noteq> kbLayoutType s" by blast
  let ?t = "select_table (osk_type (oskConfig s)) kb"
  let ?s = "s\<lparr>kbLayoutType := kb\<rparr>"
  from focus layout have t: "t = select_table (osk_type (oskConfig s)) (kbLayoutType s)"
    and active: "oskState s = OSK_STATE_ACTIVE" and tabs: "tables_ok (keyPosOf s) (siblingInfoOf s)"
    and cur: "index_in (table_keys t) (currentFocussIndex s)"
    by (auto simp: focus_ok_def Let_def layout_ready_def)
  from toggle_everywhere(1) [OF cur toggle] have num: "?t \<noteq> NumericKB"
    by (auto simp: t select_table_def split: if_splits)
  from drawKBLayout_ok [OF laws, of ?s ?t] tabs active obtain g P S h where
    draw: "drawKBLayout fx ?s = Some (?s\<lparr>layoutTable := Some ?t, generateOSKLayout := g,
      keyPosOf := P, siblingInfoOf := S, currentFocussIndex := table_defaultFocussIndex ?t,
      kBHeight := h\<rparr>)" and PS: "tables_ok P S" "P ?t \<noteq> []"
    by auto
  let ?s1 = "emit_out (CommitDrawCall ''KeyBoardLayout'' True) (?s\<lparr>layoutTable := Some ?t,
    generateOSKLayout := g, keyPosOf := P, siblingInfoOf := S,
    currentFocussIndex := table_defaultFocussIndex ?t, kBHeight := h\<rparr>)"
  have first: "triggerRenderRequest fx OSK_KEYBOARD_LAYOUT True ?s = Some ?s1"
    using draw active by (simp add: triggerRenderRequest_def)
  have ready: "layout_ready ?s1 ?t" using PS by (simp add: layout_ready_def)
  have lastin: "index_in (table_keys ?t) (lastFocussIndex s)"
    using toggle_everywhere(2) [OF cur toggle num] last by simp
  from trigger_keys_ok [OF ready, of fx False] default_index_in lastin active
  have second: "triggerRenderRequest fx OSK_KEYS False ?s1 =
    Some (emit_out (CommitDrawCall ''HighLight'' False) ?s1)" by simp
  have "toggle_key_action fx k s = Some (emit_out (CommitDrawCall ''HighLight'' False) ?s1)"
    using kb first second by (simp add: toggle_key_action_def)
  moreover have "focus_ok (emit_out (CommitDrawCall ''HighLight'' False) ?s1)"
    using ready active default_index_in lastin by (simp add: focus_ok_def Let_def)
  moreover have "key_frame s (emit_out (CommitDrawCall ''HighLight'' False) ?s1)"
    by (simp add: key_frame_def state_frame_def key_events_def)
  ultimately show ?thesis by auto
qed

lemma find_key_Some:
  "find_key kb v r rows = Some (c, r') \<Longrightarrow>
     r \<le> r' \<and> in_grid rows (r' - r) c \<and> shown_value kb (rows ! (r' - r) ! c) = v"
proof (induction kb v r rows rule: find_key.induct)
  case (1 kb v r)
  then show ?case by simp
next
  case (2 kb v r row rows)
  show ?case
  proof (cases "find_index (\<lambda>k. shown_value kb k = v) row")
    case None
    with 2 have "Suc r \<le> r'" "in_grid rows (r' - Suc r) c"
      "shown_value kb (rows ! (r' - Suc r) ! c) = v" by auto
    moreover from \<open>Suc r \<le> r'\<close> have "r' - r = Suc (r' - Suc r)" by simp
    ultimately show ?thesis by (simp add: in_grid_def)
  next
    case (Some c')
    with 2 have "r' = r" "c = c'" by auto
    with find_index_Some [OF Some] show ?thesis by (simp add: in_grid_def)
  qed
qed

lemma find_key_None:
  "find_key kb v r rows = None \<longleftrightarrow> (\<forall>row \<in> set rows. \<forall>k \<in> set row. shown_value kb k \<noteq> v)"
  by (induction kb v r rows rule: find_key.induct)
    (auto simp: find_index_None split: option.splits dest!: find_index_Some intro: bexI [OF _ nth_mem])

text \<open>The keys of a layout, as they are shown in a layout type.\<close>

definition layout_shows :: "kb_table \<Rightarrow> KBLayoutType \<Rightarrow> rnsKey \<Rightarrow> key_index \<Rightarrow> bool" where
  "layout_shows t kb v i \<longleftrightarrow> index_in (table_keys t) i \<and>
     shown_value kb (table_keys t ! snd i ! fst i) = v"

lemma find_key_shows:
  "find_key kb v 0 (table_keys t) = Some i \<Longrightarrow> layout_shows t kb v i"
  using find_key_Some [of kb v 0 "table_keys t" "fst i" "snd i"]
  by (simp add: layout_shows_def index_in_def)

lemma find_key_not_shown:
  "find_key kb v 0 (table_keys t) = None \<Longrightarrow> \<not> layout_shows t kb v i"
  unfolding find_key_None layout_shows_def index_in_def in_grid_def by (metis nth_mem)

lemma layout_key_action_ok:
  assumes "layout_keys s = Some (table_keys t)"
  obtains hl v' where "layout_key_action v s = Some (hl, v', s)"
    and "hl = currentFocussIndex s \<and> v' = RNS_KEY_UnKnown \<or>
      v' = v \<and> layout_shows t (kbLayoutType s) v hl"
proof (cases "find_key (kbLayoutType s) v 0 (table_keys t)")
  case None
  with assms have "layout_key_action v s = Some (currentFocussIndex s, RNS_KEY_UnKnown, s)"
    by (simp add: layout_key_action_def)
  then show thesis using that by blast
next
  case (Some i)
  with assms have "layout_key_action v s \<in> {Some (i, v, s),
      Some (currentFocussIndex s, RNS_KEY_UnKnown, s)}"
    by (simp add: layout_key_action_def)
  with find_key_shows [OF Some] show thesis using that by blast
qed

text \<open>
  The outcome of the \<open>switch\<close>: the candidate is a key of the layout, and a key to emit is one the
  layout shows at the candidate.
\<close>

lemma key_action_ok:
  assumes laws: "sk_rect_laws (fx_rect fx)" and focus: "focus_ok s"
    and last: "lastFocussIndex s = currentFocussIndex s"
  shows "\<exists>hl v' s'. key_action fx v s = Some (hl, v', s') \<and> focus_ok s' \<and> key_frame s s' \<and>
    lastFocussIndex s' = lastFocussIndex s \<and>
    (hl = lastFocussIndex s' \<or> index_in (table_keys (the (layoutTable s'))) hl) \<and>
    (v' \<noteq> RNS_KEY_UnKnown \<longrightarrow> s' = s \<and>
       layout_shows (the (layoutTable s)) (kbLayoutType s) v' hl)"
proof -
  obtain t where layout: "layoutTable s = Some t" and ready: "layout_ready s t"
    and cur: "index_in (table_keys t) (currentFocussIndex s)"
    using focus by (auto simp: focus_ok_def Let_def layout_ready_def)
  define i where "i = currentFocussIndex s"
  note at = layout_ready_at [OF ready cur, folded i_def]
  have sib: "layout_siblings s = Some (siblingInfoOf s t)" by (simp add: layout_siblings_def layout)
  have keys: "layout_keys s = Some (table_keys t)" by (simp add: layout_keys_def layout)
  from tables_ok_at(2) ready have "sibs_ok (table_keys t) (siblingInfoOf s t)"
    unfolding layout_ready_def by blast
  then have sibs: "index_in (table_keys t) (field (siblingInfoOf s t ! snd i ! fst i))"
    if "field \<in> {siblingRight, siblingLeft, siblingUp, siblingDown}" for field
    using that cur by (auto simp: sibs_ok_def index_in_def i_def)
  obtain hl0 v0 where known: "layout_key_action v s = Some (hl0, v0, s)"
    "hl0 = i \<and> v0 = RNS_KEY_UnKnown \<or> v0 = v \<and> layout_shows t (kbLayoutType s) v hl0"
    using layout_key_action_ok [OF keys] unfolding i_def by blast
  show ?thesis
  proof (cases "v \<in> {RNS_KEY_Right, RNS_KEY_Left, RNS_KEY_Up, RNS_KEY_Down}")
    case True
    then have "\<exists>field \<in> {siblingRight, siblingLeft, siblingUp, siblingDown}.
      key_action fx v s = Some (field (siblingInfoOf s t ! snd i ! fst i), RNS_KEY_UnKnown, s)"
      using sib at(3)
      by (elim insertE emptyE) (simp_all add: key_action_def Let_def i_def [symmetric])
    then obtain field where field: "field \<in> {siblingRight, siblingLeft, siblingUp, siblingDown}"
      and "key_action fx v s = Some (field (siblingInfoOf s t ! snd i ! fst i), RNS_KEY_UnKnown, s)"
      by blast
    with sibs [OF field] focus layout show ?thesis
      by (intro exI [of _ "field (siblingInfoOf s t ! snd i ! fst i)"] exI [of _ RNS_KEY_UnKnown]
        exI [of _ s]) simp
  next
    case nav: False
    show ?thesis
    proof (cases "v = RNS_KEY_Select \<and> keyValue (table_keys t ! snd i ! fst i) \<noteq> RNS_KEY_Select")
      case False
      with nav keys at(1) have "key_action fx v s = layout_key_action v s"
        by (auto simp: key_action_def Let_def i_def [symmetric])
      with known focus last show ?thesis by (auto simp: layout layout_shows_def i_def [symmetric])
    next
      case True
      show ?thesis
      proof (cases "key_type (table_keys t ! snd i ! fst i) = KEY_TYPE_TOGGLE")
        case False
        with True nav keys at(1) have "key_action fx v s =
          Some (i, shown_value (kbLayoutType s) (table_keys t ! snd i ! fst i), s)"
          by (auto simp: key_action_def Let_def i_def [symmetric])
        with focus cur last show ?thesis by (auto simp: layout layout_shows_def i_def)
      next
        case toggle: True
        from toggle_key_action_ok [OF laws focus last layout, of "table_keys t ! snd i ! fst i"] toggle
        obtain s' where "toggle_key_action fx (table_keys t ! snd i ! fst i) s = Some s'"
          "focus_ok s'" "key_frame s s'" "lastFocussIndex s' = lastFocussIndex s"
          by (auto simp: i_def)
        with True nav toggle keys at(1) last show ?thesis
          by (auto simp: key_action_def Let_def i_def [symmetric])
      qed
    qed
  qed
qed

section \<open>A key press\<close>

lemma focus_ok_updates [simp]:
  "focus_ok (s\<lparr>autoActivateReturnKey := b\<rparr>) = focus_ok s"
  "focus_ok (s\<lparr>emittedOSKKey := v\<rparr>) = focus_ok s"
  "focus_ok (emit_out e s) = focus_ok s"
  by (simp_all add: focus_ok_def layout_ready_def emit_out_def)

lemma focus_ok_table:
  assumes "focus_ok s"
  shows "\<exists>t. layoutTable s = Some t \<and> t = select_table (osk_type (oskConfig s)) (kbLayoutType s) \<and>
    layout_ready s t \<and> index_in (table_keys t) (currentFocussIndex s) \<and>
    index_in (table_keys t) (lastFocussIndex s) \<and> oskState s = OSK_STATE_ACTIVE"
  using assms by (auto simp: focus_ok_def Let_def layout_ready_def)

lemma focus_ok_current:
  "focus_ok s \<Longrightarrow> index_in (table_keys (the (layoutTable s))) i \<Longrightarrow>
     focus_ok (s\<lparr>currentFocussIndex := i\<rparr>)"
  by (auto simp: focus_ok_def Let_def layout_ready_def)

lemma focus_ok_last: "focus_ok s \<Longrightarrow> focus_ok (s\<lparr>lastFocussIndex := currentFocussIndex s\<rparr>)"
  by (auto simp: focus_ok_def Let_def layout_ready_def)

lemma trigger_focus_ok:
  "focus_ok s \<Longrightarrow> triggerRenderRequest fx OSK_KEYS batch s =
     Some (emit_out (CommitDrawCall ''HighLight'' batch) s)"
  using focus_ok_table [of s] trigger_keys_ok by blast

text \<open>The two focus updates after the \<open>switch\<close>.\<close>

lemma activate_return_ok:
  assumes "focus_ok s"
  shows "\<exists>s'. (if valid \<and> autoActivateReturnKey s
      then do {
        t \<leftarrow> layoutTable s;
        triggerRenderRequest fx OSK_KEYS True
          (s\<lparr>autoActivateReturnKey := False, currentFocussIndex := table_returnKeyIndex t\<rparr>)
      } else Some s) = Some s' \<and> focus_ok s' \<and> key_frame s s' \<and>
    lastFocussIndex s' = lastFocussIndex s \<and> layoutTable s' = layoutTable s \<and>
    kbLayoutType s' = kbLayoutType s \<and> emittedOSKKey s' = emittedOSKKey s"
proof (cases "valid \<and> autoActivateReturnKey s")
  case False
  with assms show ?thesis by auto
next
  case True
  from focus_ok_table [OF assms] obtain t where t: "layoutTable s = Some t" by blast
  let ?s = "s\<lparr>autoActivateReturnKey := False, currentFocussIndex := table_returnKeyIndex t\<rparr>"
  have "focus_ok ?s"
    using focus_ok_current [of "s\<lparr>autoActivateReturnKey := False\<rparr>"] assms t
    by (simp add: return_index_in)
  from trigger_focus_ok [OF this] this True t show ?thesis by simp
qed

lemma move_focus_ok:
  assumes "focus_ok s" and "hl = lastFocussIndex s \<or> index_in (table_keys (the (layoutTable s))) hl"
  shows "\<exists>s'. (if lastFocussIndex s \<noteq> hl
      then triggerRenderRequest fx OSK_KEYS batch (s\<lparr>currentFocussIndex := hl\<rparr>)
      else Some s) = Some s' \<and> focus_ok s' \<and> key_frame s s' \<and>
    (lastFocussIndex s \<noteq> hl \<longrightarrow> currentFocussIndex s' = hl)"
proof (cases "lastFocussIndex s = hl")
  case True
  with assms show ?thesis by simp
next
  case False
  with assms focus_ok_current [OF assms(1)] have "focus_ok (s\<lparr>currentFocussIndex := hl\<rparr>)" by auto
  from trigger_focus_ok [OF this] this False show ?thesis by simp
qed

lemma key_frame_trans: "key_frame a b \<Longrightarrow> key_frame b c \<Longrightarrow> key_frame a c"
  by (simp add: key_frame_def state_frame_def)

text \<open>A key press as a whole.\<close>

lemma processKey_ok:
  assumes laws: "sk_rect_laws (fx_rect fx)" and focus: "focus_ok s" and v: "v \<noteq> RNS_KEY_UnKnown"
  shows "\<exists>hl v' s1 s'. key_action fx v (s\<lparr>lastFocussIndex := currentFocussIndex s\<rparr>) = Some (hl, v', s1) \<and>
    processKey fx v s = Some s' \<and> focus_ok s' \<and> state_frame s s' \<and>
    key_events s' = key_events s @
      (if v' = RNS_KEY_UnKnown then [] else [EmitOSKKeyEvent v' RNS_KEY_Press]) \<and>
    (v' \<noteq> RNS_KEY_UnKnown \<longrightarrow> emittedOSKKey s' = v' \<and>
       layout_shows (the (layoutTable s)) (kbLayoutType s) v' hl) \<and>
    (hl \<noteq> currentFocussIndex s \<longrightarrow> currentFocussIndex s' = hl)"
proof -
  let ?s0 = "s\<lparr>lastFocussIndex := currentFocussIndex s\<rparr>"
  from focus_ok_table [OF focus] have active: "oskState s = OSK_STATE_ACTIVE" by blast
  have "lastFocussIndex ?s0 = currentFocussIndex ?s0" by simp
  from key_action_ok [OF laws focus_ok_last [OF focus] this, of v] obtain hl v' s1 where
    act: "key_action fx v ?s0 = Some (hl, v', s1)" and f1: "focus_ok s1" and k1: "key_frame ?s0 s1"
    and last0: "lastFocussIndex s1 = lastFocussIndex ?s0"
    and hl: "hl = lastFocussIndex s1 \<or> index_in (table_keys (the (layoutTable s1))) hl"
    and valid: "v' \<noteq> RNS_KEY_UnKnown \<longrightarrow>
      s1 = ?s0 \<and> layout_shows (the (layoutTable ?s0)) (kbLayoutType ?s0) v' hl"
    by blast
  from last0 have last: "lastFocussIndex s1 = currentFocussIndex s" by simp
  from activate_return_ok [OF f1, of "v' \<noteq> RNS_KEY_UnKnown" fx] obtain s2 where
    s2: "(if v' \<noteq> RNS_KEY_UnKnown \<and> autoActivateReturnKey s1
      then do {
        t \<leftarrow> layoutTable s1;
        triggerRenderRequest fx OSK_KEYS True
          (s1\<lparr>autoActivateReturnKey := False, currentFocussIndex := table_returnKeyIndex t\<rparr>)
      } else Some s1) = Some s2" "focus_ok s2" "key_frame s1 s2"
      "lastFocussIndex s2 = lastFocussIndex s1" "layoutTable s2 = layoutTable s1" by blast
  from hl s2(4,5) have "hl = lastFocussIndex s2 \<or> index_in (table_keys (the (layoutTable s2))) hl"
    by simp
  from move_focus_ok [OF s2(2) this, of fx "v' \<noteq> RNS_KEY_UnKnown"] obtain s3 where
    s3: "(if lastFocussIndex s2 \<noteq> hl
      then triggerRenderRequest fx OSK_KEYS (v' \<noteq> RNS_KEY_UnKnown) (s2\<lparr>currentFocussIndex := hl\<rparr>)
      else Some s2) = Some s3" "focus_ok s3" "key_frame s2 s3"
      "lastFocussIndex s2 \<noteq> hl \<longrightarrow> currentFocussIndex s3 = hl" by blast
  let ?s' = "if v' \<noteq> RNS_KEY_UnKnown then emit_out (EmitOSKKeyEvent v' RNS_KEY_Press)
    (s3\<lparr>emittedOSKKey := v'\<rparr>) else s3"
  have "processKey fx v s = Some ?s'"
    using v active act s2(1) s3(1) by (simp add: processKey_def Let_def)
  moreover from key_frame_trans [OF key_frame_trans [OF k1 s2(3)] s3(3)] have "key_frame s s3"
    by simp
  then have "state_frame s ?s'" and "key_events s3 = key_events s"
    by (simp_all add: key_frame_def)
  moreover have "focus_ok ?s'" using s3(2) by simp
  moreover have "hl \<noteq> currentFocussIndex s \<longrightarrow> currentFocussIndex ?s' = hl"
    using s3(4) s2(4) last by auto
  moreover have "v' \<noteq> RNS_KEY_UnKnown \<longrightarrow> emittedOSKKey ?s' = v' \<and>
       layout_shows (the (layoutTable s)) (kbLayoutType s) v' hl"
    using valid by simp
  ultimately show ?thesis
    by (intro exI [of _ hl] exI [of _ v'] exI [of _ s1] exI [of _ ?s'])
      (simp add: act split del: if_split, simp)
qed

section \<open>The invariant\<close>

definition osk_inv :: "osk_fx \<Rightarrow> osk \<Rightarrow> bool" where
  "osk_inv fx s \<longleftrightarrow> tables_ok (keyPosOf s) (siblingInfoOf s) \<and>
     -1 \<le> fst (visibleRange (oskDisplay s)) \<and>
     (oskState s \<in> {OSK_STATE_LAUNCH_INPROGRESS, OSK_STATE_ACTIVE} \<longrightarrow>
        font_fits (fx_measureText fx (textFontSize (layoutEnv s))) (placeHolderLength s)) \<and>
     (oskState s = OSK_STATE_ACTIVE \<longrightarrow> focus_ok s) \<and>
     (oskState s \<noteq> OSK_STATE_ACTIVE \<longrightarrow>
        lastFocussIndex s = (0, 0) \<and> text_ready (oskDisplay s))"

text \<open>The events the safety property is about: text without spaces with the cursor inside it, and
  screens on which a null byte is narrower than the text box.\<close>

fun event_ok :: "osk_fx \<Rightarrow> osk_event \<Rightarrow> bool" where
  "event_ok fx (Launch cfg (w, h)) =
     font_fits (fx_measureText fx (24 * (w / 1280))) (w * (7 / 10))"
| "event_ok fx (UpdateText str c) = (plain_text str \<and> 0 \<le> c \<and> c \<le> int (length str))"
| "event_ok fx _ = True"

lemma osk_init_inv: "osk_inv fx osk_init"
  by (simp add: osk_inv_def osk_init_def tables_ok_def text_ready_def)

lemma osk_launch_inv:
  assumes "osk_inv fx s" and "event_ok fx (Launch cfg screen)"
  shows "osk_inv fx (snd (osk_launch fx cfg screen s))"
  using assms by (cases screen) (auto simp: osk_inv_def osk_launch_def launchOSKWindow_def Let_def)

lemma osk_exit_inv: "osk_inv fx s \<Longrightarrow> osk_inv fx (osk_exit s)"
  by (auto simp: osk_inv_def osk_exit_def Let_def text_ready_def)

lemma trigger_display_ok:
  assumes "text_ready (oskDisplay s)" and "oskState s = OSK_STATE_ACTIVE"
    and "font_fits (fx_measureText fx (textFontSize (layoutEnv s))) (placeHolderLength s)"
  shows "\<exists>d. triggerRenderRequest fx OSK_TEXTINPUT_DISPLAY batch s =
      Some (emit_out (CommitDrawCall ''EmbededTIString'' batch) (s\<lparr>oskDisplay := d\<rparr>)) \<and>
    -1 \<le> fst (visibleRange d)"
  using drawDisplayString_ok [OF assms(1,3)] assms(2) by (auto simp: triggerRenderRequest_def)

lemma update_inv:
  assumes "osk_inv fx s" and "event_ok fx (UpdateText str c)"
  shows "\<exists>s'. updatePlaceHolderString fx str c s = Some s' \<and> osk_inv fx s'"
proof -
  let ?s = "s\<lparr>oskDisplay := (oskDisplay s)\<lparr>displayString := str, cursorPosition := c\<rparr>\<rparr>"
  from assms have rtext: "text_ready (oskDisplay ?s)"
    by (auto simp: text_ready_def osk_inv_def display_ok_def)
  show ?thesis
  proof (cases "oskState s = OSK_STATE_ACTIVE")
    case False
    with assms(1) rtext show ?thesis
      by (auto simp: updatePlaceHolderString_def osk_inv_def text_ready_def)
  next
    case True
    with trigger_display_ok [OF rtext, of fx False] assms(1) obtain d where
      "triggerRenderRequest fx OSK_TEXTINPUT_DISPLAY False ?s =
        Some (emit_out (CommitDrawCall ''EmbededTIString'' False) (?s\<lparr>oskDisplay := d\<rparr>))"
      "-1 \<le> fst (visibleRange d)" by (auto simp: osk_inv_def)
    with True assms(1) show ?thesis
      by (auto simp: updatePlaceHolderString_def osk_inv_def focus_ok_def layout_ready_def Let_def)
  qed
qed

lemma window_ready_inv:
  assumes laws: "sk_rect_laws (fx_rect fx)" and inv: "osk_inv fx s"
  shows "\<exists>s'. windowReadyToDrawCB fx i s = Some s' \<and> osk_inv fx s' \<and>
    (oskState s = OSK_STATE_LAUNCH_INPROGRESS \<longrightarrow> oskState s' = OSK_STATE_ACTIVE \<and>
       oskConfig s' = oskConfig s \<and> kbLayoutType s' = kbLayoutType s \<and>
       emittedOSKKey s' = emittedOSKKey s \<and> autoActivateReturnKey s' = autoActivateReturnKey s \<and>
       currentFocussIndex s' =
         table_defaultFocussIndex (select_table (osk_type (oskConfig s)) (kbLayoutType s)))"
proof (cases "oskState s = OSK_STATE_LAUNCH_INPROGRESS")
  case False
  with inv show ?thesis by (simp add: windowReadyToDrawCB_def)
next
  case True
  from inv True have tabs: "tables_ok (keyPosOf s) (siblingInfoOf s)"
    and font: "font_fits (fx_measureText fx (textFontSize (layoutEnv s))) (placeHolderLength s)"
    and rtext: "text_ready (oskDisplay s)" and last: "lastFocussIndex s = (0, 0)"
    by (auto simp: osk_inv_def)
  let ?s1 = "emit_out (CommitDrawCall ''OSKBackGroundAndTitle'' True) (s\<lparr>oskState := OSK_STATE_ACTIVE\<rparr>)"
  have one: "triggerRenderRequest fx OSK_BACKGROUND_AND_TI_TITLE True (s\<lparr>oskState := OSK_STATE_ACTIVE\<rparr>) =
    Some ?s1" by (simp add: trigger_background)
  from trigger_display_ok [of ?s1 fx True] rtext font obtain d where
    two: "triggerRenderRequest fx OSK_TEXTINPUT_DISPLAY True ?s1 =
      Some (emit_out (CommitDrawCall ''EmbededTIString'' True) (?s1\<lparr>oskDisplay := d\<rparr>))"
    and d: "-1 \<le> fst (visibleRange d)" by auto
  let ?s2 = "emit_out (CommitDrawCall ''EmbededTIString'' True) (?s1\<lparr>oskDisplay := d\<rparr>)"
  let ?t = "select_table (osk_type (oskConfig s)) (kbLayoutType s)"
  from drawKBLayout_ok [OF laws, of ?s2 ?t] tabs obtain g P S h where
    draw: "drawKBLayout fx ?s2 = Some (?s2\<lparr>layoutTable := Some ?t, generateOSKLayout := g,
      keyPosOf := P, siblingInfoOf := S, currentFocussIndex := table_defaultFocussIndex ?t,
      kBHeight := h\<rparr>)" and PS: "tables_ok P S" "P ?t \<noteq> []" by auto
  let ?s3 = "emit_out (CommitDrawCall ''KeyBoardLayout'' True) (?s2\<lparr>layoutTable := Some ?t,
    generateOSKLayout := g, keyPosOf := P, siblingInfoOf := S,
    currentFocussIndex := table_defaultFocussIndex ?t, kBHeight := h\<rparr>)"
  have three: "triggerRenderRequest fx OSK_KEYBOARD_LAYOUT True ?s2 = Some ?s3"
    using draw by (simp add: triggerRenderRequest_def)
  have ready: "layout_ready ?s3 ?t" using PS by (simp add: layout_ready_def)
  have "index_in (table_keys ?t) (0, 0)" using table_in_grid_first [of ?t] by (simp add: index_in_def)
  with ready last default_index_in [of ?t] have focus: "focus_ok ?s3"
    by (simp add: focus_ok_def Let_def)
  from trigger_focus_ok [OF this, of fx False]
  have four: "triggerRenderRequest fx OSK_KEYS False ?s3 =
    Some (emit_out (CommitDrawCall ''HighLight'' False) ?s3)" .
  let ?s4 = "emit_out (CommitDrawCall ''HighLight'' False) ?s3"
  let ?s5 = "if subWindowKeyEventId ?s4 = -1
    then (emit_out (AddKeyListener i) ?s4)\<lparr>subWindowKeyEventId := i\<rparr> else ?s4"
  have "windowReadyToDrawCB fx i s = Some (emit_out (EmitKeyboardEvent ''keyboardDidShow'') ?s5)"
    using True one two three four by (simp add: windowReadyToDrawCB_def Let_def)
  moreover have "osk_inv fx (emit_out (EmitKeyboardEvent ''keyboardDidShow'') ?s5)"
    using focus PS font d by (simp add: osk_inv_def focus_ok_def Let_def layout_ready_def)
  ultimately show ?thesis
    by (intro exI [of _ "emit_out (EmitKeyboardEvent ''keyboardDidShow'') ?s5"]) simp
qed

lemma processKey_inv:
  assumes "sk_rect_laws (fx_rect fx)" and "osk_inv fx s"
  shows "\<exists>s'. processKey fx v s = Some s' \<and> osk_inv fx s'"
proof (cases "v = RNS_KEY_UnKnown \<or> oskState s \<noteq> OSK_STATE_ACTIVE")
  case True
  with assms(2) show ?thesis by (simp add: processKey_def)
next
  case False
  with assms(2) have "focus_ok s" by (simp add: osk_inv_def)
  from processKey_ok [OF assms(1) this, of v] False obtain s' where
    s': "processKey fx v s = Some s'" "focus_ok s'" "state_frame s s'" by auto
  moreover from focus_ok_table [OF s'(2)] have "tables_ok (keyPosOf s') (siblingInfoOf s')"
    by (auto simp: layout_ready_def)
  ultimately show ?thesis using assms(2) False by (auto simp: osk_inv_def state_frame_def)
qed

lemma osk_step_inv:
  assumes "sk_rect_laws (fx_rect fx)" and "osk_inv fx s" and "event_ok fx e"
  shows "\<exists>s'. osk_step fx s e = Some s' \<and> osk_inv fx s'"
proof (cases e)
  case (Launch cfg screen)
  with osk_launch_inv assms show ?thesis by simp
next
  case Exit
  with osk_exit_inv assms show ?thesis by simp
next
  case (UpdateText str c)
  with update_inv assms show ?thesis by simp
next
  case (WindowReady i)
  with window_ready_inv [OF assms(1,2), of i] show ?thesis by auto
next
  case (HWKey v a own)
  have "osk_inv fx (emit_out x s)" for x using assms(2) by (simp add: osk_inv_def)
  with HWKey processKey_inv [OF assms(1,2), of v] assms(2) show ?thesis
    by (auto simp: onHWkeyHandler_def)
qed

lemma osk_run_inv:
  assumes "sk_rect_laws (fx_rect fx)" and "osk_inv fx s" and "\<forall>e \<in> set es. event_ok fx e"
  shows "\<exists>s'. osk_run fx s es = Some s' \<and> osk_inv fx s'"
  using assms(2,3)
proof (induction es arbitrary: s)
  case Nil
  then show ?case by simp
next
  case (Cons e es)
  from osk_step_inv [OF assms(1) Cons.prems(1), of e] Cons.prems(2) obtain s1 where
    "osk_step fx s e = Some s1" "osk_inv fx s1" by auto
  with Cons.IH [of s1] Cons.prems(2) show ?case by simp
qed

section \<open>What the keys show\<close>

text \<open>Every text key but one is drawn with the name of the key code it emits.\<close>

lemma text_keys_check:
  "\<forall>t \<in> set [AlphaNumericKB, SymbolKB, NumericKB]. \<forall>i \<in> set (grid_indices (table_keys t)).
     let k = table_keys t ! snd i ! fst i
     in key_type k = KEY_TYPE_TEXT \<and> (t = NumericKB \<longrightarrow> keyName k \<noteq> ''-'') \<longrightarrow>
        key_name (keyValue k) = Some (keyName k) \<and>
        keyValue k \<noteq> RNS_KEY_Select \<and> keyValue k \<noteq> RNS_KEY_UnKnown \<and>
        (is_alpha (hd (keyName k)) \<longrightarrow> key_name (keyValue k - 26) = Some [upper_char (hd (keyName k))] \<and>
           keyValue k - 26 \<noteq> RNS_KEY_UnKnown)"
  by code_simp

lemma text_key_label:
  assumes "index_in (table_keys t) i" and "k = table_keys t ! snd i ! fst i"
    and "key_type k = KEY_TYPE_TEXT" and "t = NumericKB \<longrightarrow> keyName k \<noteq> ''-''"
  shows "\<exists>str. key_label fx kb ret k = LabelText str \<and> key_name (shown_value kb k) = Some str"
    and "keyValue k \<noteq> RNS_KEY_Select" and "shown_value kb k \<noteq> RNS_KEY_UnKnown"
proof -
  have "t \<in> set [AlphaNumericKB, SymbolKB, NumericKB]" by (cases t) simp_all
  moreover have "i \<in> set (grid_indices (table_keys t))" using assms(1) by (simp add: grid_indices_in)
  ultimately have "key_name (keyValue k) = Some (keyName k) \<and>
        keyValue k \<noteq> RNS_KEY_Select \<and> keyValue k \<noteq> RNS_KEY_UnKnown \<and>
        (is_alpha (hd (keyName k)) \<longrightarrow> key_name (keyValue k - 26) = Some [upper_char (hd (keyName k))] \<and>
           keyValue k - 26 \<noteq> RNS_KEY_UnKnown)"
    using text_keys_check assms(2-4) unfolding Let_def by blast
  then show "\<exists>str. key_label fx kb ret k = LabelText str \<and> key_name (shown_value kb k) = Some str"
    and "keyValue k \<noteq> RNS_KEY_Select" and "shown_value kb k \<noteq> RNS_KEY_UnKnown"
    using assms(3) by (auto simp: key_label_def shown_value_def shown_upper_def)
qed

section \<open>Properties\<close>

text \<open>C1: As long as the texts have no spaces (and fewer than 2^31 characters), the cursor is inside the text,
  and on the screens used a null character is narrower than the text box, no sequence of launches, exits,
  window callbacks, text updates and key presses makes the keyboard fault: the run always succeeds, and
  whenever the keyboard is active the layout's pointers are set, its tables are filled, and both the
  focused and the last focused key, which the code reads with \<open>at\<close> on every draw, are keys of
  the layout shown, layout switches included. A text of one space does fault, see
  \<open>single_space_overruns\<close>.\<close>

theorem osk_never_faults:
  assumes "sk_rect_laws (fx_rect fx)" and "\<forall>e \<in> set es. event_ok fx e"
  shows "\<exists>s. osk_run fx osk_init es = Some s \<and> (oskState s = OSK_STATE_ACTIVE \<longrightarrow> focus_ok s)"
proof -
  from osk_run_inv [OF assms(1) osk_init_inv assms(2)] obtain s where
    "osk_run fx osk_init es = Some s" "osk_inv fx s" by blast
  then show ?thesis by (simp add: osk_inv_def)
qed

definition fx_ref :: osk_fx where
  "fx_ref = \<lparr>fx_rect = sk_rect_ref, fx_measureText = (\<lambda>size str. 10 * of_nat (length str)),
     fx_spaceAdvance = (\<lambda>size. 5), fx_hasTypeface = (\<lambda>cp. True)\<rparr>"

theorem osk_never_faults_witness:
  "\<exists>s. osk_run fx_ref osk_init [Launch defaultOSKConfig (1280, 720), UpdateText ''ab'' 2,
      WindowReady 1, HWKey RNS_KEY_Left RNS_KEY_Press True, HWKey RNS_KEY_Down RNS_KEY_Press True,
      HWKey RNS_KEY_Select RNS_KEY_Press True, UpdateText ''abc'' 3, Exit] = Some s \<and>
    (oskState s = OSK_STATE_ACTIVE \<longrightarrow> focus_ok s)"
  by (rule osk_never_faults) (simp_all add: fx_ref_def font_fits_def plain_text_def)

text \<open>C2: A press of a key sends the client at most one key press, never the unknown key, and only a
  key that the layout shows in its current case; the keyboard stays active and its focus stays
  on the layout.\<close>

theorem key_press_emits_shown_key:
  assumes "sk_rect_laws (fx_rect fx)" and "focus_ok s"
  shows "\<exists>s'. processKey fx v s = Some s' \<and> focus_ok s' \<and>
    (key_events s' = key_events s \<or>
     (\<exists>k i. key_events s' = key_events s @ [EmitOSKKeyEvent k RNS_KEY_Press] \<and>
        k \<noteq> RNS_KEY_UnKnown \<and> emittedOSKKey s' = k \<and>
        layout_shows (the (layoutTable s)) (kbLayoutType s) k i))"
proof (cases "v = RNS_KEY_UnKnown")
  case True
  with assms(2) show ?thesis by (simp add: processKey_def)
next
  case False
  from processKey_ok [OF assms this] obtain hl k s' where
    "processKey fx v s = Some s'" "focus_ok s'"
    "key_events s' = key_events s @
      (if k = RNS_KEY_UnKnown then [] else [EmitOSKKeyEvent k RNS_KEY_Press])"
    "k \<noteq> RNS_KEY_UnKnown \<longrightarrow> emittedOSKKey s' = k \<and>
       layout_shows (the (layoutTable s)) (kbLayoutType s) k hl" by blast
  then show ?thesis by (cases "k = RNS_KEY_UnKnown"; simp del: split_paired_Ex; blast)
qed

text \<open>An active keyboard on a 1280 by 720 screen, for the witnesses.\<close>

definition osk_start :: "OSKConfig \<Rightarrow> osk" where
  "osk_start cfg = snd (osk_launch fx_ref cfg (1280, 720) osk_init)"

definition osk_active :: "OSKConfig \<Rightarrow> osk" where
  "osk_active cfg = the (windowReadyToDrawCB fx_ref 1 (osk_start cfg))"

lemma osk_start_inv: "osk_inv fx_ref (osk_start cfg)"
  unfolding osk_start_def
  by (rule osk_launch_inv [OF osk_init_inv]) (simp add: fx_ref_def font_fits_def)

lemma osk_start_state:
  "oskState (osk_start cfg) = OSK_STATE_LAUNCH_INPROGRESS" "oskConfig (osk_start cfg) = cfg"
  "kbLayoutType (osk_start cfg) = ALPHA_LOWERCASE_LAYOUT"
  "emittedOSKKey (osk_start cfg) = RNS_KEY_UnKnown"
  "autoActivateReturnKey (osk_start cfg) = enablesReturnKeyAutomatically cfg"
  by (simp_all add: osk_start_def osk_launch_def launchOSKWindow_def osk_init_def Let_def)

lemma fx_ref_laws [simp]: "sk_rect_laws (fx_rect fx_ref)"
  by (simp add: fx_ref_def)

lemma osk_active:
  "focus_ok (osk_active cfg)" "oskConfig (osk_active cfg) = cfg"
  "kbLayoutType (osk_active cfg) = ALPHA_LOWERCASE_LAYOUT"
  "emittedOSKKey (osk_active cfg) = RNS_KEY_UnKnown"
  "autoActivateReturnKey (osk_active cfg) = enablesReturnKeyAutomatically cfg"
  "currentFocussIndex (osk_active cfg) =
     table_defaultFocussIndex (select_table (osk_type cfg) ALPHA_LOWERCASE_LAYOUT)"
  using window_ready_inv [OF fx_ref_laws osk_start_inv [of cfg], of 1]
  by (auto simp: osk_active_def osk_start_state osk_inv_def)

lemma osk_active_table:
  "layoutTable (osk_active cfg) = Some (select_table (osk_type cfg) ALPHA_LOWERCASE_LAYOUT)"
  using focus_ok_table [OF osk_active(1) [of cfg]] by (auto simp: osk_active)

theorem key_press_emits_shown_key_witness:
  "\<exists>s'. processKey fx_ref RNS_KEY_a (osk_active defaultOSKConfig) = Some s' \<and> focus_ok s' \<and>
    (key_events s' = key_events (osk_active defaultOSKConfig) \<or>
     (\<exists>k i. key_events s' = key_events (osk_active defaultOSKConfig) @
          [EmitOSKKeyEvent k RNS_KEY_Press] \<and>
        k \<noteq> RNS_KEY_UnKnown \<and> emittedOSKKey s' = k \<and>
        layout_shows (the (layoutTable (osk_active defaultOSKConfig)))
          (kbLayoutType (osk_active defaultOSKConfig)) k i))"
  by (rule key_press_emits_shown_key [OF fx_ref_laws osk_active(1)])

text \<open>C3: What you see is what you type: with the focus on the layout, selecting a focused text key sends one
  press of the key code whose name is the text drawn on the key, upper case included, in every layout. The
  one exception is the minus key of the numeric layout, see \<open>numeric_minus_types_underscore\<close>;
  the claim does not cover it.\<close>

theorem select_emits_label:
  assumes "sk_rect_laws (fx_rect fx)" and "focus_ok s"
    and "layoutTable s = Some t" and "currentFocussIndex s = i"
    and "k = table_keys t ! snd i ! fst i"
    and "key_type k = KEY_TYPE_TEXT" and "t = NumericKB \<longrightarrow> keyName k \<noteq> ''-''"
  shows "\<exists>s' v str. processKey fx RNS_KEY_Select s = Some s' \<and>
    key_events s' = key_events s @ [EmitOSKKeyEvent v RNS_KEY_Press] \<and>
    key_label fx (kbLayoutType s) (returnKeyLabel (oskConfig s)) k = LabelText str \<and>
    key_name v = Some str"
proof -
  from focus_ok_table [OF assms(2)] assms(3,4) have i: "index_in (table_keys t) i" by auto
  note label = text_key_label [OF i assms(5-7)]
  from i have "grid_at (table_keys t) (snd i) (fst i) = Some k"
    by (simp add: index_in_def grid_at_in assms(5))
  with assms(3,4,6) label(2) have "key_action fx RNS_KEY_Select (s\<lparr>lastFocussIndex := currentFocussIndex s\<rparr>) =
    Some (i, shown_value (kbLayoutType s) k, s\<lparr>lastFocussIndex := currentFocussIndex s\<rparr>)"
    by (simp add: key_action_def layout_keys_def Let_def)
  with processKey_ok [OF assms(1,2), of RNS_KEY_Select] label(3) obtain s' where
    "processKey fx RNS_KEY_Select s = Some s'"
    "key_events s' = key_events s @ [EmitOSKKeyEvent (shown_value (kbLayoutType s) k) RNS_KEY_Press]"
    by auto
  with label(1) show ?thesis by blast
qed

theorem select_emits_label_witness:
  "\<exists>s' v str. processKey fx_ref RNS_KEY_Select (osk_active defaultOSKConfig) = Some s' \<and>
    key_events s' = key_events (osk_active defaultOSKConfig) @ [EmitOSKKeyEvent v RNS_KEY_Press] \<and>
    key_label fx_ref (kbLayoutType (osk_active defaultOSKConfig))
      (returnKeyLabel (oskConfig (osk_active defaultOSKConfig)))
      (table_keys AlphaNumericKB ! 0 ! 7) = LabelText str \<and>
    key_name v = Some str"
  by (rule select_emits_label [where i = "(7, 0)" and t = AlphaNumericKB])
    (simp_all add: osk_active osk_active_table defaultOSKConfig_def select_table_def
      alphaNumericKBKeyInfo_def)

text \<open>A character key of the remote control is passed on exactly when the layout shows it: then
  the focus goes to a key that shows it and one press of it is sent; otherwise nothing is sent
  and the focus stays.\<close>

theorem character_key_press:
  assumes "sk_rect_laws (fx_rect fx)" and "focus_ok s" and "displayable v"
    and "layoutTable s = Some t"
  shows "\<exists>s'. processKey fx v s = Some s' \<and>
    (if \<exists>i. layout_shows t (kbLayoutType s) v i
     then key_events s' = key_events s @ [EmitOSKKeyEvent v RNS_KEY_Press] \<and>
       (autoActivateReturnKey s \<or> layout_shows t (kbLayoutType s) v (currentFocussIndex s'))
     else key_events s' = key_events s \<and> currentFocussIndex s' = currentFocussIndex s)"
proof -
  let ?s = "s\<lparr>lastFocussIndex := currentFocussIndex s\<rparr>"
  from assms(3) have v: "v \<noteq> RNS_KEY_UnKnown" "v \<noteq> RNS_KEY_Select"
    "v \<notin> {RNS_KEY_Right, RNS_KEY_Left, RNS_KEY_Up, RNS_KEY_Down}" "RNS_KEY_1 \<le> v" "v < RNS_KEY_UnKnown"
    by (auto simp: displayable_def)
  from focus_ok_table [OF assms(2)] have active: "oskState s = OSK_STATE_ACTIVE" by blast
  have act: "key_action fx v ?s = (case find_key (kbLayoutType s) v 0 (table_keys t) of
      Some i \<Rightarrow> Some (i, v, ?s) | None \<Rightarrow> Some (currentFocussIndex s, RNS_KEY_UnKnown, ?s))"
    using v assms(4)
    by (simp add: key_action_def layout_key_action_def layout_keys_def Let_def split: option.splits)
  show ?thesis
  proof (cases "find_key (kbLayoutType s) v 0 (table_keys t)")
    case None
    with act v active have "processKey fx v s = Some ?s"
      by (simp add: processKey_def Let_def)
    with find_key_not_shown [OF None] show ?thesis by simp
  next
    case (Some i)
    from processKey_ok [OF assms(1,2) v(1)] act Some v(1) obtain s' where
      s': "processKey fx v s = Some s'"
      "key_events s' = key_events s @ [EmitOSKKeyEvent v RNS_KEY_Press]"
      "i \<noteq> currentFocussIndex s \<longrightarrow> currentFocussIndex s' = i" by auto
    have "currentFocussIndex s' = currentFocussIndex s"
      if "\<not> autoActivateReturnKey s" "i = currentFocussIndex s"
      using s'(1) act Some v(1) active that
      by (auto simp: processKey_def Let_def split: if_splits)
    with s' find_key_shows [OF Some] show ?thesis by (metis (no_types, lifting))
  qed
qed

theorem character_key_press_witness:
  "\<exists>s'. processKey fx_ref RNS_KEY_a (osk_active defaultOSKConfig) = Some s' \<and>
    (if \<exists>i. layout_shows AlphaNumericKB (kbLayoutType (osk_active defaultOSKConfig)) RNS_KEY_a i
     then key_events s' = key_events (osk_active defaultOSKConfig) @
         [EmitOSKKeyEvent RNS_KEY_a RNS_KEY_Press] \<and>
       (autoActivateReturnKey (osk_active defaultOSKConfig) \<or>
        layout_shows AlphaNumericKB (kbLayoutType (osk_active defaultOSKConfig)) RNS_KEY_a
          (currentFocussIndex s'))
     else key_events s' = key_events (osk_active defaultOSKConfig) \<and>
       currentFocussIndex s' = currentFocussIndex (osk_active defaultOSKConfig))"
  by (rule character_key_press [OF fx_ref_laws osk_active(1)])
    (simp_all add: displayable_def osk_active_table defaultOSKConfig_def select_table_def)

text \<open>The life cycle: a keyboard that is launching or active refuses a second launch and is not
  changed by it; an exit always ends inactive, with no listener, no text, no focus and no emitted
  key left, and a second exit does nothing.\<close>

theorem osk_life_cycle:
  "(oskState s \<in> {OSK_STATE_LAUNCH_INPROGRESS, OSK_STATE_ACTIVE} \<longrightarrow>
      osk_launch fx cfg screen s = (OSK_ERROR_ANOTHER_INSTANCE_ACTIVE, s)) \<and>
   (oskState s \<in> {OSK_STATE_LAUNCH_INPROGRESS, OSK_STATE_ACTIVE} \<longrightarrow>
      (let s' = osk_exit s
       in oskState s' = OSK_STATE_INACTIVE \<and> subWindowKeyEventId s' = -1 \<and>
          displayString (oskDisplay s') = [] \<and> visibleRange (oskDisplay s') = (-1, -1) \<and>
          currentFocussIndex s' = (0, 0) \<and> lastFocussIndex s' = (0, 0) \<and>
          emittedOSKKey s' = RNS_KEY_UnKnown \<and> \<not> autoActivateReturnKey s' \<and>
          out s' = out s @ [EmitKeyboardEvent ''keyboardWillHide'', CloseWindow] @
            (if subWindowKeyEventId s \<noteq> -1 then [RemoveKeyListener (subWindowKeyEventId s)] else []) @
            [EmitKeyboardEvent ''keyboardDidHide''])) \<and>
   osk_exit (osk_exit s) = osk_exit s"
  by (auto simp: osk_launch_def osk_exit_def Let_def)

theorem osk_life_cycle_witness:
  "osk_launch fx_ref defaultOSKConfig (1920, 1080) (osk_active defaultOSKConfig) =
     (OSK_ERROR_ANOTHER_INSTANCE_ACTIVE, osk_active defaultOSKConfig) \<and>
   oskState (osk_exit (osk_active defaultOSKConfig)) = OSK_STATE_INACTIVE"
  using osk_life_cycle [of "osk_active defaultOSKConfig" fx_ref defaultOSKConfig "(1920, 1080)"]
    focus_ok_table [OF osk_active(1) [of defaultOSKConfig]]
  by (auto simp: Let_def)

text \<open>A key release names the wrong key after a key was typed: once a press has emitted a key, the
  release of any later key, a navigation key that emitted nothing included, is sent to the client
  as a release of the typed key.\<close>

theorem stale_release:
  assumes "sk_rect_laws (fx_rect fx)" and "focus_ok s" and "emittedOSKKey s = k"
    and "k \<noteq> RNS_KEY_UnKnown" and "v \<in> {RNS_KEY_Right, RNS_KEY_Left, RNS_KEY_Up, RNS_KEY_Down}"
  shows "\<exists>s'. osk_run fx s [HWKey v RNS_KEY_Press True, HWKey v RNS_KEY_Release True] = Some s' \<and>
    key_events s' = key_events s @ [EmitOSKKeyEvent k RNS_KEY_Release]"
proof -
  from assms(5) have v: "v \<noteq> RNS_KEY_UnKnown" by auto
  let ?s = "s\<lparr>lastFocussIndex := currentFocussIndex s\<rparr>"
  from processKey_ok [OF assms(1,2) v] obtain hl v' s1 s' where
    act: "key_action fx v ?s = Some (hl, v', s1)" and s': "processKey fx v s = Some s'"
    and ev: "key_events s' = key_events s @
      (if v' = RNS_KEY_UnKnown then [] else [EmitOSKKeyEvent v' RNS_KEY_Press])" by blast
  from act assms(5) have nav: "v' = RNS_KEY_UnKnown" "s1 = ?s"
    by (auto simp: key_action_def Let_def split: bind_splits)
  have "emittedOSKKey s' = emittedOSKKey s"
    using s' act nav v by (auto simp: processKey_def Let_def triggerRenderRequest_def
      drawHighLightOnKey_def split: if_splits bind_splits)
  with s' ev nav assms(3,4) show ?thesis
    by (simp add: onHWkeyHandler_def)
qed

lemma osk_active_emitted_focus:
  "focus_ok (osk_active defaultOSKConfig\<lparr>emittedOSKKey := RNS_KEY_a\<rparr>)"
  by (simp add: osk_active)

theorem stale_release_witness:
  "\<exists>s'. osk_run fx_ref (osk_active defaultOSKConfig\<lparr>emittedOSKKey := RNS_KEY_a\<rparr>)
      [HWKey RNS_KEY_Right RNS_KEY_Press True, HWKey RNS_KEY_Right RNS_KEY_Release True] = Some s' \<and>
    key_events s' = key_events (osk_active defaultOSKConfig\<lparr>emittedOSKKey := RNS_KEY_a\<rparr>) @
      [EmitOSKKeyEvent RNS_KEY_a RNS_KEY_Release]"
  by (rule stale_release [OF fx_ref_laws osk_active_emitted_focus]) simp_all

lemma createOSKLayout_frame:
  assumes "createOSKLayout fx s = Some u"
  shows "t \<noteq> select_table (osk_type (oskConfig s)) (kbLayoutType s) \<Longrightarrow> keyPosOf u t = keyPosOf s t"
    and "\<not> generateOSKLayout u"
    and "\<not> generateOSKLayout s \<Longrightarrow> keyPosOf s t \<noteq> [] \<Longrightarrow> keyPosOf u t = keyPosOf s t"
    and "oskState u = oskState s"
  using assms by (auto simp: createOSKLayout_def Let_def split: if_splits bind_splits)

lemma createOSKLayout_total: "\<exists>u. createOSKLayout fx s = Some u"
  using generate_layout_total [of "fx_rect fx" "layoutEnv s"
      "select_table (osk_type (oskConfig s)) (kbLayoutType s)"]
  by (auto simp: createOSKLayout_def Let_def)

lemma trigger_other_frame:
  "triggerRenderRequest fx c b s = Some s' \<Longrightarrow> c \<noteq> OSK_KEYBOARD_LAYOUT \<Longrightarrow>
     keyPosOf s' = keyPosOf s \<and> generateOSKLayout s' = generateOSKLayout s \<and>
     oskConfig s' = oskConfig s \<and> kbLayoutType s' = kbLayoutType s \<and> oskState s' = oskState s"
  by (cases c) (auto simp: triggerRenderRequest_def drawDisplayString_def drawHighLightOnKey_def
    split: if_splits bind_splits)

lemma trigger_layout_frame:
  assumes "triggerRenderRequest fx OSK_KEYBOARD_LAYOUT b s = Some s'"
    and "oskState s = OSK_STATE_ACTIVE"
  shows "\<exists>u. createOSKLayout fx s = Some u \<and> keyPosOf s' = keyPosOf u \<and>
    generateOSKLayout s' = generateOSKLayout u"
proof -
  from assms obtain s1 where "drawKBLayout fx s = Some s1"
    and s1: "keyPosOf s' = keyPosOf s1" "generateOSKLayout s' = generateOSKLayout s1"
    by (auto simp: triggerRenderRequest_def split: bind_splits if_splits)
  then obtain u where "createOSKLayout fx s = Some u" "keyPosOf s1 = keyPosOf u"
    "generateOSKLayout s1 = generateOSKLayout u"
    using assms(2) by (auto simp: drawKBLayout_def Let_def split: bind_splits)
  with s1 show ?thesis by auto
qed

lemma window_ready_layout:
  assumes "windowReadyToDrawCB fx i s = Some s'" and "oskState s = OSK_STATE_LAUNCH_INPROGRESS"
  shows "\<exists>s1 u. createOSKLayout fx s1 = Some u \<and> keyPosOf s1 = keyPosOf s \<and>
    oskConfig s1 = oskConfig s \<and> kbLayoutType s1 = kbLayoutType s \<and>
    keyPosOf s' = keyPosOf u \<and> generateOSKLayout s' = generateOSKLayout u"
proof -
  from assms obtain s1 s2 s3 s4 where
    s1: "triggerRenderRequest fx OSK_BACKGROUND_AND_TI_TITLE True
      (s\<lparr>oskState := OSK_STATE_ACTIVE\<rparr>) = Some s1"
    and s2: "triggerRenderRequest fx OSK_TEXTINPUT_DISPLAY True s1 = Some s2"
    and s3: "triggerRenderRequest fx OSK_KEYBOARD_LAYOUT True s2 = Some s3"
    and s4: "triggerRenderRequest fx OSK_KEYS False s3 = Some s4"
    and s': "keyPosOf s' = keyPosOf s4" "generateOSKLayout s' = generateOSKLayout s4"
    by (auto simp: windowReadyToDrawCB_def Let_def split: bind_splits)
  note f = trigger_other_frame [OF s1] trigger_other_frame [OF s2] trigger_other_frame [OF s4]
  from f(1,2) have "oskState s2 = OSK_STATE_ACTIVE" by simp
  from trigger_layout_frame [OF s3 this] f s' show ?thesis by auto
qed

text \<open>After a change of the screen size only the layout shown first is computed again: that clears
  the flag, and a layout that was shown before the change keeps the tiles of the old screen, also
  when the user switches to it.\<close>

theorem stale_tiles_after_resize:
  assumes "windowReadyToDrawCB fx i s = Some s'" and "oskState s = OSK_STATE_LAUNCH_INPROGRESS"
    and "t \<noteq> select_table (osk_type (oskConfig s)) (kbLayoutType s)" and "keyPosOf s t \<noteq> []"
  shows "keyPosOf s' t = keyPosOf s t \<and>
    map_option (\<lambda>u. keyPosOf u t) (createOSKLayout fx (s'\<lparr>kbLayoutType := kb\<rparr>)) =
      Some (keyPosOf s t)"
proof -
  from window_ready_layout [OF assms(1,2)] obtain s1 u where
    u: "createOSKLayout fx s1 = Some u" "keyPosOf s1 = keyPosOf s" "oskConfig s1 = oskConfig s"
      "kbLayoutType s1 = kbLayoutType s" "keyPosOf s' = keyPosOf u"
      "generateOSKLayout s' = generateOSKLayout u" by blast
  from createOSKLayout_frame(1) [OF u(1), of t] u assms(3) have same: "keyPosOf s' t = keyPosOf s t"
    by simp
  let ?s = "s'\<lparr>kbLayoutType := kb\<rparr>"
  obtain w where w: "createOSKLayout fx ?s = Some w" using createOSKLayout_total by blast
  from createOSKLayout_frame(2) [OF u(1)] u(6) same assms(4)
    createOSKLayout_frame(3) [OF w, of t] have "keyPosOf w t = keyPosOf s t" by simp
  with w same show ?thesis by simp
qed

lemma osk_relaunched_inv:
  assumes "generate_layout sk_rect_ref env_720p SymbolKB = Some (pos, sib)"
  shows "osk_inv fx_ref (osk_start cfg\<lparr>keyPosOf := (\<lambda>_. [])(SymbolKB := pos),
    siblingInfoOf := (\<lambda>_. [])(SymbolKB := sib)\<rparr>)"
proof -
  from generate_layout_total [of sk_rect_ref env_720p SymbolKB] assms
  have "same_shape (table_keys SymbolKB) pos" by auto
  moreover have "tables_ok (\<lambda>_. []) (\<lambda>_. [])" by (simp add: tables_ok_def)
  ultimately have "tables_ok ((\<lambda>_. [])(SymbolKB := pos)) ((\<lambda>_. [])(SymbolKB := sib))"
    using tables_ok_upd generate_layout_sibs_ok [OF sk_rect_ref_laws assms] by blast
  then show ?thesis
    using osk_start_inv [of cfg] by (simp add: osk_inv_def osk_start_state)
qed

theorem stale_tiles_after_resize_witness:
  "\<exists>pos sib s'. generate_layout sk_rect_ref env_720p SymbolKB = Some (pos, sib) \<and> pos \<noteq> [] \<and>
     windowReadyToDrawCB fx_ref 1 (osk_start defaultOSKConfig\<lparr>
       keyPosOf := (\<lambda>_. [])(SymbolKB := pos), siblingInfoOf := (\<lambda>_. [])(SymbolKB := sib)\<rparr>) = Some s' \<and>
     keyPosOf s' SymbolKB = pos \<and>
     map_option (\<lambda>u. keyPosOf u SymbolKB) (createOSKLayout fx_ref (s'\<lparr>kbLayoutType := SYMBOL_LAYOUT\<rparr>)) =
       Some pos"
proof -
  obtain pos sib where gen: "generate_layout sk_rect_ref env_720p SymbolKB = Some (pos, sib)"
    and "same_shape (table_keys SymbolKB) pos"
    using generate_layout_total [of sk_rect_ref env_720p SymbolKB] by blast
  then have ne: "pos \<noteq> []" by (auto simp: same_shape_def symbolKBKBKeyInfo_def)
  let ?s = "osk_start defaultOSKConfig\<lparr>keyPosOf := (\<lambda>_. [])(SymbolKB := pos),
    siblingInfoOf := (\<lambda>_. [])(SymbolKB := sib)\<rparr>"
  from window_ready_inv [OF fx_ref_laws osk_relaunched_inv [OF gen], of 1 defaultOSKConfig]
  obtain s' where s': "windowReadyToDrawCB fx_ref 1 ?s = Some s'" by blast
  from stale_tiles_after_resize [OF s', of SymbolKB SYMBOL_LAYOUT] ne
  have "keyPosOf s' SymbolKB = pos \<and> map_option (\<lambda>u. keyPosOf u SymbolKB)
      (createOSKLayout fx_ref (s'\<lparr>kbLayoutType := SYMBOL_LAYOUT\<rparr>)) = Some pos"
    by (simp add: osk_start_state defaultOSKConfig_def select_table_def)
  with gen ne s' show ?thesis by blast
qed

text \<open>The minus key of the numeric layout types an underscore: the key is drawn as \<open>-\<close> and emits
  the key code named \<open>_\<close>.\<close>

theorem numeric_minus_types_underscore:
  "\<exists>i. index_in (table_keys NumericKB) i \<and>
     key_label fx kb ret (table_keys NumericKB ! snd i ! fst i) = LabelText ''-'' \<and>
     key_name (shown_value kb (table_keys NumericKB ! snd i ! fst i)) = Some ''_''"
  by (intro exI [of _ "(3, 0)"])
    (simp add: index_in_def in_grid_def numericKBKeyKeyInfo_def key_label_def shown_value_def
      shown_upper_def is_alpha_def key_name_def vec_at_def RNSKeyMap_def)

end
