(* ===== verification/Containers.thy ===== *)
theory Containers imports Prelude "HOL-Library.List_Lexorder" "HOL-Library.Char_ord" begin

text \<open>
  The containers the components are built on.

  \<^item> \<open>std::map\<close>, used by the notification center, the caches and the registries: an association
    list with strictly increasing keys, in the order iteration visits them. The locale
    \<open>ordered_map\<close> states what the clients rely on.
  \<^item> \<open>ThreadSafeQueue\<close> (\<open>sdk/ThreadSafeQueue.h\<close>): each operation runs under the queue's mutex, so
    the operations of all threads form one sequence of atomic steps. \<open>pop\<close> on an empty queue waits;
    the model gives \<open>None\<close>, the caller cannot go on. The locale \<open>fifo_queue\<close> states the queue's
    contract; what follows from it for any interleaving of producers and consumers is proved there.
\<close>

section \<open>Ordered maps\<close>

locale ordered_map =
  fixes emp :: 'm and find :: "'m \<Rightarrow> ('k :: linorder) \<Rightarrow> 'v option"
    and put :: "'k \<Rightarrow> 'v \<Rightarrow> 'm \<Rightarrow> 'm" and drop_key :: "'k \<Rightarrow> 'm \<Rightarrow> 'm"
    and keys :: "'m \<Rightarrow> 'k list" and ok :: "'m \<Rightarrow> bool"
  assumes ok_emp: "ok emp" and ok_put: "ok m \<Longrightarrow> ok (put k v m)" and ok_drop: "ok m \<Longrightarrow> ok (drop_key k m)"
    and find_emp: "find emp k = None"
    and find_put: "find (put k v m) k' = (if k' = k then Some v else find m k')"
    and find_drop: "ok m \<Longrightarrow> find (drop_key k m) k' = (if k' = k then None else find m k')"
    and keys_sorted: "ok m \<Longrightarrow> sorted_wrt (<) (keys m)"
    and keys_set: "set (keys m) = {k. find m k \<noteq> None}"
begin

lemma keys_put: "set (keys (put k v m)) = insert k (set (keys m))"
  by (auto simp: keys_set find_put)

lemma keys_drop: "ok m \<Longrightarrow> set (keys (drop_key k m)) = set (keys m) - {k}"
  by (auto simp: keys_set find_drop)

lemma keys_distinct: "ok m \<Longrightarrow> distinct (keys m)"
  using keys_sorted [of m] by (simp add: strict_sorted_iff)

lemma length_keys_put:
  assumes "ok m"
  shows "length (keys (put k v m)) = length (keys m) + (if find m k = None then 1 else 0)"
proof -
  have "length (keys (put k v m)) = card (insert k (set (keys m)))"
    using keys_distinct [OF ok_put [OF assms], of k v] distinct_card [of "keys (put k v m)"]
    by (simp add: keys_put)
  also have "\<dots> = length (keys m) + (if k \<in> set (keys m) then 0 else 1)"
    using distinct_card [OF keys_distinct [OF assms]] by (simp add: card_insert_if)
  also have "k \<in> set (keys m) \<longleftrightarrow> find m k \<noteq> None"
    by (simp add: keys_set)
  finally show ?thesis by simp
qed

lemma length_keys_drop:
  assumes "ok m" and "find m k \<noteq> None"
  shows "Suc (length (keys (drop_key k m))) = length (keys m)"
proof -
  have mem: "k \<in> set (keys m)" using assms(2) by (simp add: keys_set)
  have "length (keys (drop_key k m)) = card (set (keys m) - {k})"
    using keys_distinct [OF ok_drop [OF assms(1)], of k] distinct_card [of "keys (drop_key k m)"]
    by (simp add: keys_drop [OF assms(1)])
  moreover have "Suc (card (set (keys m) - {k})) = length (keys m)"
    using card_Suc_Diff1 [OF finite_set mem] distinct_card [OF keys_distinct [OF assms(1)]] by simp
  ultimately show ?thesis by simp
qed

end

type_synonym ('k, 'v) amap = "('k \<times> 'v) list"

abbreviation am_find :: "('k, 'v) amap \<Rightarrow> 'k \<Rightarrow> 'v option" where
  "am_find \<equiv> map_of"

fun am_put :: "'k :: linorder \<Rightarrow> 'v \<Rightarrow> ('k, 'v) amap \<Rightarrow> ('k, 'v) amap" where
  "am_put k v [] = [(k, v)]"
| "am_put k v ((k', v') # m) =
     (if k < k' then (k, v) # (k', v') # m
      else if k = k' then (k, v) # m
      else (k', v') # am_put k v m)"

fun am_erase :: "'k \<Rightarrow> ('k, 'v) amap \<Rightarrow> ('k, 'v) amap" where
  "am_erase k [] = []"
| "am_erase k ((k', v') # m) = (if k = k' then m else (k', v') # am_erase k m)"

definition am_ok :: "('k :: linorder, 'v) amap \<Rightarrow> bool" where
  "am_ok m \<longleftrightarrow> sorted_wrt (<) (map fst m)"

lemma am_ok_Nil [simp]: "am_ok []"
  by (simp add: am_ok_def)

lemma am_ok_Cons: "am_ok ((k, v) # m) \<longleftrightarrow> (\<forall>k' \<in> fst ` set m. k < k') \<and> am_ok m"
  by (auto simp: am_ok_def)

lemma fst_am_put: "fst ` set (am_put k v m) = insert k (fst ` set m)"
  by (induction k v m rule: am_put.induct) (simp_all add: insert_commute)

lemma set_am_erase: "set (am_erase k m) \<subseteq> set m"
  by (induction m) (auto split: if_splits)

lemma fst_am_erase: "fst ` set (am_erase k m) \<subseteq> fst ` set m"
  using set_am_erase by (rule image_mono)

lemma am_ok_put: "am_ok m \<Longrightarrow> am_ok (am_put k v m)"
proof (induction m)
  case Nil
  then show ?case by (simp add: am_ok_Cons)
next
  case (Cons p m)
  obtain k' v' where p: "p = (k', v')" by (cases p)
  consider "k < k'" | "k = k'" | "k' < k" by fastforce
  then show ?case
    using Cons by cases (auto simp: p am_ok_Cons fst_am_put, (meson image_eqI less_trans)?)
qed

lemma am_ok_erase: "am_ok m \<Longrightarrow> am_ok (am_erase k m)"
proof (induction m)
  case Nil
  then show ?case by simp
next
  case (Cons p m)
  obtain k' v' where p: "p = (k', v')" by (cases p)
  from Cons.prems have "\<forall>x \<in> fst ` set (am_erase k m). k' < x"
    using fst_am_erase [of k m] unfolding p am_ok_Cons by blast
  with Cons show ?case by (simp add: p am_ok_Cons)
qed

lemma am_find_put: "am_find (am_put k v m) k' = (if k' = k then Some v else am_find m k')"
  by (induction m) auto

lemma am_find_erase: "am_ok m \<Longrightarrow> am_find (am_erase k m) k' = (if k' = k then None else am_find m k')"
proof (induction m)
  case Nil
  then show ?case by simp
next
  case (Cons p m)
  obtain k0 v0 where p: "p = (k0, v0)" by (cases p)
  from Cons.prems have "k0 \<notin> fst ` set m" by (auto simp: p am_ok_Cons)
  then have "am_find m k0 = None" by (simp add: map_of_eq_None_iff)
  with Cons show ?case by (auto simp: p am_ok_Cons)
qed

lemma set_am_put: "set (am_put k v m) \<subseteq> insert (k, v) (set m)"
  by (induction m) (auto split: if_splits)

interpretation std_map: ordered_map "[]" am_find am_put am_erase "map fst" am_ok
proof
  show "sorted_wrt (<) (map fst m)" if "am_ok m" for m :: "('a, 'b) amap"
    using that by (simp add: am_ok_def)
  show "set (map fst m) = {k. am_find m k \<noteq> None}" for m :: "('a, 'b) amap"
    by (auto simp: map_of_eq_None_iff)
qed (simp_all add: am_ok_put am_ok_erase am_find_put am_find_erase)

section \<open>Queues\<close>

datatype 'a queue_op = Push 'a | TryPop

fun pushed :: "'a queue_op list \<Rightarrow> 'a list" where
  "pushed [] = []"
| "pushed (Push x # ops) = x # pushed ops"
| "pushed (TryPop # ops) = pushed ops"

lemma pushed_append: "pushed (xs @ ys) = pushed xs @ pushed ys"
proof (induction xs)
  case Nil
  then show ?case by simp
next
  case (Cons op xs)
  then show ?case by (cases op) simp_all
qed

locale fifo_queue =
  fixes emp :: 'q and push :: "'a \<Rightarrow> 'q \<Rightarrow> 'q" and try_pop :: "'q \<Rightarrow> ('a \<times> 'q) option"
    and contents :: "'q \<Rightarrow> 'a list"
  assumes contents_emp: "contents emp = []"
    and contents_push: "contents (push x q) = contents q @ [x]"
    and try_pop_None: "try_pop q = None \<longleftrightarrow> contents q = []"
    and try_pop_Some: "try_pop q = Some (x, q') \<Longrightarrow> contents q = x # contents q'"
begin

text \<open>Any interleaving of pushes and pops, with the values the pops take out in order.\<close>

fun run_ops :: "'q \<Rightarrow> 'a queue_op list \<Rightarrow> 'a list \<times> 'q" where
  "run_ops q [] = ([], q)"
| "run_ops q (Push x # ops) = run_ops (push x q) ops"
| "run_ops q (TryPop # ops) =
     (case try_pop q of None \<Rightarrow> run_ops q ops
      | Some (x, q') \<Rightarrow> let (xs, q'') = run_ops q' ops in (x # xs, q''))"

lemma run_ops_fifo: "run_ops q ops = (xs, q') \<Longrightarrow> xs @ contents q' = contents q @ pushed ops"
proof (induction q ops arbitrary: xs rule: run_ops.induct)
  case (1 q)
  then show ?case by simp
next
  case (2 q x ops)
  then show ?case by (simp add: contents_push)
next
  case (3 q ops)
  show ?case
  proof (cases "try_pop q")
    case None
    with 3 show ?thesis by simp
  next
    case (Some p)
    obtain x r where p: "p = (x, r)" by (cases p)
    from 3(3) Some p obtain ys where ys: "run_ops r ops = (ys, q')" "xs = x # ys"
      by (auto split: prod.splits)
    from 3(2) [OF Some p [symmetric] ys(1)] try_pop_Some [OF Some [unfolded p]] ys(2) show ?thesis by simp
  qed
qed

text \<open>As many pops as there are elements empty the queue.\<close>

lemma drain: "length (contents q) = n \<Longrightarrow>
    fst (run_ops q (replicate n TryPop)) = contents q \<and>
    contents (snd (run_ops q (replicate n TryPop))) = []"
proof (induction n arbitrary: q)
  case 0
  then show ?case by simp
next
  case (Suc n)
  then have "try_pop q \<noteq> None" by (auto simp: try_pop_None)
  then obtain x r where r: "try_pop q = Some (x, r)" by auto
  from try_pop_Some [OF r] Suc.prems Suc.IH [of r] r show ?case
    by (auto split: prod.splits)
qed

end

subsection \<open>ThreadSafeQueue\<close>

record 'a ts_queue = dataQueue :: "'a list"

definition tsq_empty :: "'a ts_queue" where
  "tsq_empty = \<lparr>dataQueue = []\<rparr>"

definition tsq_push :: "'a \<Rightarrow> 'a ts_queue \<Rightarrow> 'a ts_queue" where
  "tsq_push x q = q\<lparr>dataQueue := dataQueue q @ [x]\<rparr>"

text \<open>\<open>tryPop(value)\<close>: the result, the new value of the reference argument, and the queue.\<close>

definition tsq_tryPop :: "'a \<Rightarrow> 'a ts_queue \<Rightarrow> bool \<times> 'a \<times> 'a ts_queue" where
  "tsq_tryPop value q =
     (case dataQueue q of [] \<Rightarrow> (False, value, q)
      | x # xs \<Rightarrow> (True, x, q\<lparr>dataQueue := xs\<rparr>))"

definition tsq_pop :: "'a ts_queue \<Rightarrow> ('a \<times> 'a ts_queue) option" where
  "tsq_pop q = (case dataQueue q of [] \<Rightarrow> None | x # xs \<Rightarrow> Some (x, q\<lparr>dataQueue := xs\<rparr>))"

definition tsq_size :: "'a ts_queue \<Rightarrow> nat" where
  "tsq_size q = length (dataQueue q)"

definition tsq_isEmpty :: "'a ts_queue \<Rightarrow> bool" where
  "tsq_isEmpty q \<longleftrightarrow> dataQueue q = []"

definition tsq_clear :: "'a ts_queue \<Rightarrow> 'a ts_queue" where
  "tsq_clear q = q\<lparr>dataQueue := []\<rparr>"

lemmas tsq_simps [model_simps] = tsq_empty_def tsq_push_def tsq_tryPop_def tsq_pop_def tsq_size_def
  tsq_isEmpty_def tsq_clear_def

lemma tsq_tryPop_eq: "tsq_tryPop value q =
    (case tsq_pop q of None \<Rightarrow> (False, value, q) | Some (x, q') \<Rightarrow> (True, x, q'))"
  by (simp add: tsq_simps split: list.splits)

interpretation tsq: fifo_queue tsq_empty tsq_push tsq_pop "dataQueue"
  by unfold_locales (auto simp: tsq_simps split: list.splits)

text \<open>A run of queue operations of any number of threads, each of them atomic.\<close>

fun tsq_run :: "'a ts_queue \<Rightarrow> 'a queue_op list \<Rightarrow> 'a list \<times> 'a ts_queue" where
  "tsq_run q [] = ([], q)"
| "tsq_run q (Push x # ops) = tsq_run (tsq_push x q) ops"
| "tsq_run q (TryPop # ops) =
     (case tsq_tryPop undefined q of
        (False, _, q') \<Rightarrow> tsq_run q' ops
      | (True, x, q') \<Rightarrow> let (xs, q'') = tsq_run q' ops in (x # xs, q''))"

lemma tsq_run_eq: "tsq_run q ops = tsq.run_ops q ops"
proof (induction ops arbitrary: q)
  case Nil
  then show ?case by simp
next
  case (Cons op ops)
  then show ?case by (cases op) (auto simp: tsq_tryPop_eq split: option.splits prod.splits)
qed

section \<open>Properties\<close>

text \<open>The queue loses, invents and reorders nothing: however pushes and non-blocking pops of any
  number of threads interleave, what was taken out followed by what is left is what was in the
  queue followed by what was pushed, and the queue's size and emptiness agree with it.\<close>

theorem queue_fifo:
  assumes "tsq_run q ops = (taken, q')"
  shows "taken @ dataQueue q' = dataQueue q @ pushed ops \<and>
    tsq_size q' + length taken = tsq_size q + length (pushed ops) \<and>
    (tsq_isEmpty q' \<longleftrightarrow> taken = dataQueue q @ pushed ops)"
proof -
  from assms have eq: "taken @ dataQueue q' = dataQueue q @ pushed ops"
    using tsq.run_ops_fifo by (simp add: tsq_run_eq)
  then have "length taken + length (dataQueue q') = length (dataQueue q) + length (pushed ops)"
    by (metis length_append)
  moreover have "dataQueue q' = [] \<longleftrightarrow> taken = dataQueue q @ pushed ops"
    using eq by (metis append_self_conv)
  ultimately show ?thesis using eq by (simp add: tsq_simps)
qed

theorem queue_fifo_witness:
  "let (taken, q') = tsq_run (tsq_empty :: nat ts_queue) [Push 1, TryPop, TryPop, Push 2, Push 3, TryPop]
   in taken = [1, 2] \<and> taken @ dataQueue q' = [1, 2, 3]"
proof -
  obtain taken q' where run: "tsq_run (tsq_empty :: nat ts_queue)
      [Push 1, TryPop, TryPop, Push 2, Push 3, TryPop] = (taken, q')" by fastforce
  from queue_fifo [OF this] have "taken @ dataQueue q' = [1, 2, 3]" by (simp add: tsq_empty_def)
  moreover from run have "taken = [1, 2]" by (simp add: tsq_simps)
  ultimately show ?thesis by (simp only: run Let_def prod.case)
qed

end
