(* ===== verification/NotifCenter.thy ===== *)
theory NotifCenter imports Containers "HOL-Library.Multiset" begin

text \<open>
  The notification center (\<open>sdk/NotificationCenter.h\<close> and \<open>.cpp\<close>), the event bus between the
  window system, the input manager, the keyboard and the components.

  \<^item> \<open>addListener\<close> and \<open>emit\<close> post a task to the event thread; \<open>folly::EventBase\<close> runs the posted
    tasks one at a time in the order they were posted. \<open>removeListener\<close> acts at once, on the
    caller's thread, under the mutex.
  \<^item> A dispatched event takes a snapshot of the listeners and calls them one after another without
    the mutex, so other threads, and the callbacks themselves, can act in between: one step of the
    event thread is one callback, or the start of one task.
  \<^item> The handler of an event locks the mutex with a \<open>unique_lock\<close> and unlocks it by hand before the
    callbacks; the \<open>unique_lock\<close> unlocks it once more when the handler ends. That is undefined when the mutex
    is not locked then, and takes it from another thread when it is: \<open>stray_unlocks\<close> counts how often it
    happens, and the model goes on as if nobody held the mutex at that moment.
  \<^item> \<open>fired\<close> records the callbacks that were run. A listener is stored with the types its callback
    takes; \<open>emit\<close> casts it to the types of its own arguments, and a failed cast is a null pointer
    that is dereferenced, \<open>None\<close> in the model.

  The lemmas show that identifiers are never used twice, that an event reaches exactly the listeners
  registered when it is dispatched, in the order they were added, and that a listener removed after
  its registration ran is never called again.
\<close>

section \<open>State\<close>

record listener =
  lid :: nat
  lsig :: nat

type_synonym args = "int list"

datatype task =
    AddTask string listener
  | DispatchTask string nat args

record center =
  last_listener :: nat
  listenersList :: "(string, listener list) amap"
  tasks :: "task list"
  firing :: "(listener list \<times> nat \<times> args) option"
  fired :: "(nat \<times> args) list"
  stray_unlocks :: nat

definition nc_init :: center where
  "nc_init = \<lparr>last_listener = 0, listenersList = [], tasks = [], firing = None, fired = [], stray_unlocks = 0\<rparr>"

section \<open>Operations\<close>

text \<open>\<open>sig\<close> is \<open>None\<close> for an empty \<open>std::function\<close>. The counter is a 32-bit unsigned integer.\<close>

definition nc_addListener :: "string \<Rightarrow> nat option \<Rightarrow> center \<Rightarrow> nat \<times> center" where
  "nc_addListener name sig s =
     (case sig of None \<Rightarrow> (0, s)
      | Some g \<Rightarrow> let i = (last_listener s + 1) mod 2 ^ 32
                  in (i, s\<lparr>last_listener := i,
                       tasks := tasks s @ [AddTask name \<lparr>lid = i, lsig = g\<rparr>]\<rparr>))"

text \<open>The task \<open>addListener\<close> posts.\<close>

definition add_handler :: "string \<Rightarrow> listener \<Rightarrow> center \<Rightarrow> center" where
  "add_handler name l s = s\<lparr>listenersList :=
     (case am_find (listenersList s) name of
        Some ls \<Rightarrow> am_put name (ls @ [l]) (listenersList s)
      | None \<Rightarrow> am_put name [l] (listenersList s))\<rparr>"

text \<open>The search of \<open>removeListener\<close> through the entries of the map, in order.\<close>

fun remove_from :: "nat \<Rightarrow> (string, listener list) amap \<Rightarrow> (string, listener list) amap" where
  "remove_from i [] = []"
| "remove_from i ((name, ls) # m) =
     (case find_index (\<lambda>l. lid l = i) ls of
        Some j \<Rightarrow> (if erase_at j ls = [] then m else (name, erase_at j ls) # m)
      | None \<Rightarrow> (name, ls) # remove_from i m)"

definition nc_removeListener :: "nat \<Rightarrow> center \<Rightarrow> center" where
  "nc_removeListener i s = s\<lparr>listenersList := remove_from i (listenersList s)\<rparr>"

definition nc_emit :: "string \<Rightarrow> nat \<Rightarrow> args \<Rightarrow> center \<Rightarrow> center" where
  "nc_emit name g a s = s\<lparr>tasks := tasks s @ [DispatchTask name g a]\<rparr>"

text \<open>One step of the event thread: the next callback of the event it is dispatching, or the next
  task.\<close>

definition nc_run :: "center \<Rightarrow> center option" where
  "nc_run s =
     (case firing s of
        Some (l # ls, g, a) \<Rightarrow>
          if lsig l = g
          then Some (s\<lparr>firing := (if ls = [] then None else Some (ls, g, a)),
                       fired := fired s @ [(lid l, a)],
                       stray_unlocks := (if ls = [] then Suc (stray_unlocks s) else stray_unlocks s)\<rparr>)
          else None
      | Some ([], g, a) \<Rightarrow> Some (s\<lparr>firing := None, stray_unlocks := Suc (stray_unlocks s)\<rparr>)
      | None \<Rightarrow>
          (case tasks s of
             [] \<Rightarrow> Some s
           | AddTask name l # ts \<Rightarrow> Some (add_handler name l (s\<lparr>tasks := ts\<rparr>))
           | DispatchTask name g a # ts \<Rightarrow>
               (case am_find (listenersList s) name of
                  None \<Rightarrow> Some (s\<lparr>tasks := ts\<rparr>)
                | Some ls \<Rightarrow> Some (s\<lparr>tasks := ts, firing := Some (ls, g, a)\<rparr>))))"

datatype nc_event =
    NcAdd string "nat option"
  | NcRemove nat
  | NcEmit string nat args
  | NcRun

fun nc_step :: "center \<Rightarrow> nc_event \<Rightarrow> center option" where
  "nc_step s (NcAdd name sig) = Some (snd (nc_addListener name sig s))"
| "nc_step s (NcRemove i) = Some (nc_removeListener i s)"
| "nc_step s (NcEmit name g a) = Some (nc_emit name g a s)"
| "nc_step s NcRun = nc_run s"

section \<open>Identifiers\<close>

definition task_ids :: "task \<Rightarrow> nat list" where
  "task_ids t = (case t of AddTask _ l \<Rightarrow> [lid l] | DispatchTask _ _ _ \<Rightarrow> [])"

definition map_ids :: "(string, listener list) amap \<Rightarrow> nat list" where
  "map_ids m = concat (map (\<lambda>(_, ls). map lid ls) m)"

text \<open>The identifiers a listener can still be called under.\<close>

definition firing_ids :: "center \<Rightarrow> nat list" where
  "firing_ids s = (case firing s of None \<Rightarrow> [] | Some (ls, _, _) \<Rightarrow> map lid ls)"

definition live_ids :: "center \<Rightarrow> nat set" where
  "live_ids s = set (map_ids (listenersList s)) \<union> set (concat (map task_ids (tasks s))) \<union>
     set (firing_ids s)"

text \<open>
  No identifier is registered, or waiting to be registered, twice; all of them are at most the
  counter; no entry of the map is empty.
\<close>

definition nc_ok :: "center \<Rightarrow> bool" where
  "nc_ok s \<longleftrightarrow> am_ok (listenersList s) \<and>
     distinct (map_ids (listenersList s) @ concat (map task_ids (tasks s))) \<and>
     (\<forall>i \<in> live_ids s. i \<le> last_listener s) \<and>
     (\<forall>(name, ls) \<in> set (listenersList s). ls \<noteq> [])"

lemma map_ids_simps [simp]:
  "map_ids [] = []" "map_ids ((name, ls) # m) = map lid ls @ map_ids m"
  by (simp_all add: map_ids_def)

lemma mset_erase_at:
  "find_index (\<lambda>l. lid l = i) ls = Some j \<Longrightarrow>
     mset (map lid (erase_at j ls)) = mset (map lid ls) - {#i#}"
  by (induction ls arbitrary: j) (auto split: if_splits)

lemma mset_diff_right: "i \<notin># A \<Longrightarrow> A + B - {#i#} = A + (B - {#i#})"
  by (auto simp: multiset_eq_iff not_in_iff)

lemma remove_from_ids: "mset (map_ids (remove_from i m)) = mset (map_ids m) - {#i#}"
proof (induction m)
  case Nil
  then show ?case by simp
next
  case (Cons p m)
  obtain name ls where p: "p = (name, ls)" by (cases p)
  show ?case
  proof (cases "find_index (\<lambda>l. lid l = i) ls")
    case None
    then have "i \<notin># mset (map lid ls)" by (auto simp: find_index_None)
    from mset_diff_right [OF this, of "mset (map_ids m)"] None Cons show ?thesis by (simp add: p)
  next
    case (Some j)
    then have "i \<in># mset (map lid ls)" using find_index_Some [OF Some] by force
    moreover have "mset (map_ids (remove_from i (p # m))) =
      (mset (map lid ls) - {#i#}) + mset (map_ids m)"
      using Some mset_erase_at [OF Some] by (auto simp: p)
    ultimately show ?thesis by (simp add: p)
  qed
qed

lemma remove_from_set:
  assumes "distinct (map_ids m)"
  shows "distinct (map_ids (remove_from i m))" and "set (map_ids (remove_from i m)) = set (map_ids m) - {i}"
proof -
  have eq: "mset (map_ids (remove_from i m)) = mset (remove1 i (map_ids m))"
    using remove_from_ids [of i m] by simp
  then show "distinct (map_ids (remove_from i m))"
    using mset_eq_imp_distinct_iff [OF eq] assms by (simp add: distinct_remove1)
  show "set (map_ids (remove_from i m)) = set (map_ids m) - {i}"
    using mset_eq_setD [OF eq] assms by simp
qed

lemma remove_from_none: "i \<notin> set (map_ids m) \<Longrightarrow> remove_from i m = m"
  by (induction i m rule: remove_from.induct) (auto simp: find_index_None split: option.splits dest!: find_index_Some)

lemma remove_from_keys: "fst ` set (remove_from i m) \<subseteq> fst ` set m"
  by (induction i m rule: remove_from.induct) (auto split: option.splits)

lemma remove_from_ok: "am_ok m \<Longrightarrow> am_ok (remove_from i m)"
proof (induction i m rule: remove_from.induct)
  case (1 i)
  then show ?case by simp
next
  case (2 i name ls m)
  from "2.prems" have "\<forall>k \<in> fst ` set (remove_from i m). name < k"
    using remove_from_keys [of i m] unfolding am_ok_Cons by blast
  with 2 show ?case by (auto simp: am_ok_Cons split: option.splits)
qed

lemma remove_from_nonempty:
  "\<forall>(name, ls) \<in> set m. ls \<noteq> [] \<Longrightarrow> \<forall>(name, ls) \<in> set (remove_from i m). ls \<noteq> []"
  by (induction i m rule: remove_from.induct) (auto split: option.splits)

text \<open>The listeners registered for an event, and what the add task does to all identifiers.\<close>

definition listeners_of :: "center \<Rightarrow> string \<Rightarrow> listener list" where
  "listeners_of s name = (case am_find (listenersList s) name of None \<Rightarrow> [] | Some ls \<Rightarrow> ls)"

lemma add_handler_eq:
  "add_handler name l s = s\<lparr>listenersList := am_put name (listeners_of s name @ [l]) (listenersList s)\<rparr>"
  by (simp add: add_handler_def listeners_of_def split: option.splits)

lemma am_put_ids:
  assumes "am_ok m"
  shows "mset (map_ids (am_put name ((case am_find m name of None \<Rightarrow> [] | Some ls \<Rightarrow> ls) @ [l]) m)) =
    add_mset (lid l) (mset (map_ids m))"
  using assms
proof (induction m)
  case Nil
  then show ?case by simp
next
  case (Cons p m)
  obtain name' ls' where p: "p = (name', ls')" by (cases p)
  from Cons.prems have sorted: "\<forall>k \<in> fst ` set m. name' < k" by (auto simp: p am_ok_Cons)
  consider "name < name'" | "name = name'" | "name' < name" by fastforce
  then show ?case
  proof cases
    case 1
    with sorted have "name \<notin> fst ` set m" by fastforce
    then have "am_find m name = None" by (simp add: map_of_eq_None_iff)
    moreover from 1 have "name \<noteq> name'" by auto
    ultimately show ?thesis using 1 by (simp add: p)
  next
    case 2
    then show ?thesis by (simp add: p)
  next
    case 3
    then have "name \<noteq> name'" "\<not> name < name'" by auto
    with Cons show ?thesis by (simp add: p am_ok_Cons)
  qed
qed

lemma am_find_mem: "am_find m name = Some ls \<Longrightarrow> (name, ls) \<in> set m"
  by (rule map_of_SomeD)

lemma am_find_ids: "am_find m name = Some ls \<Longrightarrow> l \<in> set ls \<Longrightarrow> lid l \<in> set (map_ids m)"
  using am_find_mem [of m name ls] by (force simp: map_ids_def)

section \<open>Steps\<close>

lemma nc_init_ok: "nc_ok nc_init"
  by (simp add: nc_ok_def nc_init_def live_ids_def firing_ids_def)

lemma nc_add_ok:
  assumes "nc_ok s" and "last_listener s + 1 < 2 ^ 32"
  shows "nc_ok (snd (nc_addListener name sig s)) \<and>
    last_listener s \<le> last_listener (snd (nc_addListener name sig s)) \<and>
    last_listener (snd (nc_addListener name sig s)) \<le> last_listener s + 1 \<and>
    live_ids (snd (nc_addListener name sig s)) \<subseteq> insert (last_listener (snd (nc_addListener name sig s)))
       (live_ids s) \<and>
    (sig \<noteq> None \<longrightarrow> last_listener (snd (nc_addListener name sig s)) = last_listener s + 1) \<and>
    (sig = None \<longrightarrow> snd (nc_addListener name sig s) = s)"
proof (cases sig)
  case None
  with assms show ?thesis by (auto simp: nc_addListener_def)
next
  case (Some g)
  let ?s = "snd (nc_addListener name sig s)"
  have eq: "?s = s\<lparr>last_listener := last_listener s + 1,
      tasks := tasks s @ [AddTask name \<lparr>lid = last_listener s + 1, lsig = g\<rparr>]\<rparr>"
    using assms(2) Some by (simp add: nc_addListener_def Let_def)
  have live: "live_ids ?s = insert (last_listener s + 1) (live_ids s)"
    by (auto simp: eq live_ids_def firing_ids_def task_ids_def)
  have new: "last_listener s + 1 \<notin> live_ids s"
    using assms(1) by (auto simp: nc_ok_def)
  from new have fresh: "last_listener s + 1 \<notin> set (map_ids (listenersList s))"
    "last_listener s + 1 \<notin> set (concat (map task_ids (tasks s)))"
    unfolding live_ids_def by blast+
  have new_task: "concat (map task_ids (tasks ?s)) =
    concat (map task_ids (tasks s)) @ [last_listener s + 1]"
    by (simp add: eq task_ids_def)
  have "\<forall>i \<in> live_ids ?s. i \<le> last_listener ?s"
    using assms(1) unfolding live by (auto simp: nc_ok_def eq)
  moreover have "distinct (map_ids (listenersList ?s) @ concat (map task_ids (tasks ?s)))"
    using assms(1) fresh unfolding new_task by (auto simp: nc_ok_def eq)
  ultimately have "nc_ok ?s" using assms(1) by (simp add: nc_ok_def eq)
  moreover have "last_listener ?s = last_listener s + 1" by (simp add: eq)
  ultimately show ?thesis using live Some by auto
qed

lemma nc_remove_ok:
  assumes "nc_ok s"
  shows "nc_ok (nc_removeListener i s) \<and> live_ids (nc_removeListener i s) \<subseteq> live_ids s \<and>
    (i \<notin> set (concat (map task_ids (tasks s))) \<longrightarrow> i \<notin> set (firing_ids s) \<longrightarrow>
       i \<notin> live_ids (nc_removeListener i s))"
proof -
  from assms have d: "distinct (map_ids (listenersList s))" by (simp add: nc_ok_def)
  note rm = remove_from_set [OF d, of i]
  have firing: "firing_ids (nc_removeListener i s) = firing_ids s"
    by (simp add: nc_removeListener_def firing_ids_def)
  have live: "live_ids (nc_removeListener i s) = (set (map_ids (listenersList s)) - {i}) \<union>
      set (concat (map task_ids (tasks s))) \<union> set (firing_ids s)"
    unfolding live_ids_def firing by (simp add: nc_removeListener_def rm)
  have "nc_ok (nc_removeListener i s)"
    using assms rm remove_from_ok remove_from_nonempty [of "listenersList s" i]
    unfolding nc_ok_def live by (auto simp: nc_removeListener_def live_ids_def)
  with live show ?thesis by (auto simp: live_ids_def)
qed

lemma nc_ok_frame:
  assumes "nc_ok s" and "listenersList s' = listenersList s" and "last_listener s' = last_listener s"
    and "concat (map task_ids (tasks s')) = concat (map task_ids (tasks s))"
    and "set (firing_ids s') \<subseteq> live_ids s"
  shows "nc_ok s' \<and> live_ids s' \<subseteq> live_ids s"
proof -
  have "live_ids s' \<subseteq> live_ids s"
    using assms(5) unfolding live_ids_def assms(2,4) by blast
  with assms(1) show ?thesis unfolding nc_ok_def assms(2-4) by blast
qed

lemma nc_emit_ok:
  "nc_ok s \<Longrightarrow> nc_ok (nc_emit name g a s) \<and> live_ids (nc_emit name g a s) \<subseteq> live_ids s"
  by (rule nc_ok_frame) (auto simp: nc_emit_def firing_ids_def task_ids_def live_ids_def)

lemma add_handler_ok:
  assumes "nc_ok s" and "tasks s = AddTask name l # ts"
  shows "nc_ok (add_handler name l (s\<lparr>tasks := ts\<rparr>)) \<and>
    live_ids (add_handler name l (s\<lparr>tasks := ts\<rparr>)) = live_ids s"
proof -
  let ?m = "am_put name (listeners_of s name @ [l]) (listenersList s)"
  have eq: "add_handler name l (s\<lparr>tasks := ts\<rparr>) = s\<lparr>tasks := ts, listenersList := ?m\<rparr>"
    by (simp add: add_handler_eq listeners_of_def)
  from assms(1) have ok: "am_ok (listenersList s)" by (simp add: nc_ok_def)
  from am_put_ids [OF ok, of name l] have ids: "mset (map_ids ?m) =
    mset (lid l # map_ids (listenersList s))" by (simp add: listeners_of_def)
  then have set: "set (map_ids ?m) = insert (lid l) (set (map_ids (listenersList s)))"
    using mset_eq_setD [OF ids] by simp
  have "mset (map_ids ?m @ concat (map task_ids ts)) =
    mset (map_ids (listenersList s) @ concat (map task_ids (tasks s)))"
    using ids by (simp add: assms(2) task_ids_def)
  from mset_eq_imp_distinct_iff [OF this] assms(1)
  have dist: "distinct (map_ids ?m @ concat (map task_ids ts))" by (simp add: nc_ok_def)
  have live: "live_ids (s\<lparr>tasks := ts, listenersList := ?m\<rparr>) = live_ids s"
    using set by (auto simp: live_ids_def firing_ids_def assms(2) task_ids_def)
  have "\<forall>(name, ls) \<in> set ?m. ls \<noteq> []"
    using assms(1) set_am_put [of name "listeners_of s name @ [l]" "listenersList s"]
    by (fastforce simp: nc_ok_def)
  with assms(1) am_ok_put [OF ok] dist live show ?thesis
    unfolding eq by (auto simp: nc_ok_def)
qed

lemma nc_run_ok:
  assumes "nc_ok s" and "nc_run s = Some s'"
  shows "nc_ok s' \<and> live_ids s' \<subseteq> live_ids s \<and> last_listener s' = last_listener s \<and>
    (\<exists>xs. fired s' = fired s @ xs \<and> fst ` set xs \<subseteq> live_ids s)"
proof (cases "firing s")
  case (Some f)
  obtain ls g a where f: "f = (ls, g, a)" by (cases f)
  show ?thesis
  proof (cases ls)
    case Nil
    with assms(2) Some f have s': "s' = s\<lparr>firing := None, stray_unlocks := Suc (stray_unlocks s)\<rparr>" by (simp add: nc_run_def)
    have "nc_ok s' \<and> live_ids s' \<subseteq> live_ids s"
      by (rule nc_ok_frame [OF assms(1)]) (simp_all add: s' firing_ids_def)
    with s' show ?thesis by simp
  next
    case (Cons l rest)
    with assms(2) Some f have s': "s' = s\<lparr>firing := (if rest = [] then None else Some (rest, g, a)),
        fired := fired s @ [(lid l, a)], stray_unlocks := (if rest = [] then Suc (stray_unlocks s) else stray_unlocks s)\<rparr>"
      by (auto simp: nc_run_def split: if_splits)
    have ids: "set (lid l # map lid rest) \<subseteq> live_ids s"
      using Some f Cons by (simp add: live_ids_def firing_ids_def subset_iff)
    then have "nc_ok s' \<and> live_ids s' \<subseteq> live_ids s"
      by (intro nc_ok_frame [OF assms(1)]) (auto simp: s' firing_ids_def)
    with s' ids show ?thesis by simp
  qed
next
  case None
  show ?thesis
  proof (cases "tasks s")
    case Nil
    with None assms show ?thesis by (auto simp: nc_run_def)
  next
    case (Cons t ts)
    show ?thesis
    proof (cases t)
      case (AddTask name l)
      with Cons None assms add_handler_ok [OF assms(1), of name l ts] show ?thesis
        by (auto simp: nc_run_def add_handler_eq)
    next
      case (DispatchTask name g a)
      show ?thesis
      proof (cases "am_find (listenersList s) name")
        case None2: None
        with DispatchTask Cons None assms(2) have s': "s' = s\<lparr>tasks := ts\<rparr>"
          by (simp add: nc_run_def)
        have "nc_ok s' \<and> live_ids s' \<subseteq> live_ids s"
          by (rule nc_ok_frame [OF assms(1)])
            (simp_all add: s' firing_ids_def None Cons DispatchTask task_ids_def)
        with s' show ?thesis by simp
      next
        case (Some ls)
        with DispatchTask Cons None assms(2)
        have s': "s' = s\<lparr>tasks := ts, firing := Some (ls, g, a)\<rparr>" by (simp add: nc_run_def)
        have "nc_ok s' \<and> live_ids s' \<subseteq> live_ids s"
          using am_find_ids [OF Some]
          by (intro nc_ok_frame [OF assms(1)])
            (auto simp: s' firing_ids_def Cons DispatchTask task_ids_def live_ids_def)
        with s' show ?thesis by simp
      qed
    qed
  qed
qed

lemma nc_step_ok:
  assumes "nc_ok s" and "nc_step s e = Some s'" and "last_listener s + 1 < 2 ^ 32"
  shows "nc_ok s' \<and> last_listener s \<le> last_listener s' \<and> last_listener s' \<le> last_listener s + 1 \<and>
    live_ids s' \<subseteq> live_ids s \<union> {last_listener s <.. last_listener s'} \<and>
    (\<exists>xs. fired s' = fired s @ xs \<and> fst ` set xs \<subseteq> live_ids s)"
proof (cases e)
  case (NcAdd name sig)
  have "fired (snd (nc_addListener name sig s)) = fired s"
    by (simp add: nc_addListener_def Let_def split: option.splits)
  with NcAdd nc_add_ok [OF assms(1,3), of name sig] assms(2) show ?thesis
    by (cases sig) auto
next
  case (NcRemove i)
  with nc_remove_ok [OF assms(1), of i] assms(2) show ?thesis
    by (auto simp: nc_removeListener_def)
next
  case (NcEmit name g a)
  with nc_emit_ok [OF assms(1), of name g a] assms(2) show ?thesis
    by (auto simp: nc_emit_def)
next
  case NcRun
  with nc_run_ok [OF assms(1)] assms(2) show ?thesis by auto
qed

abbreviation nc_steps :: "center \<Rightarrow> nc_event list \<Rightarrow> center option" where
  "nc_steps \<equiv> run_opt nc_step"

lemma nc_steps_ok:
  assumes "nc_ok s" and "nc_steps s es = Some s'" and "last_listener s + length es < 2 ^ 32"
  shows "nc_ok s' \<and> last_listener s \<le> last_listener s' \<and>
    live_ids s' \<subseteq> live_ids s \<union> {last_listener s <.. last_listener s'} \<and>
    (\<exists>xs. fired s' = fired s @ xs \<and> fst ` set xs \<subseteq> live_ids s \<union> {last_listener s <..})"
  using assms
proof (induction es arbitrary: s)
  case Nil
  then show ?case by simp
next
  case (Cons e es)
  from Cons.prems(2) obtain s1 where s1: "nc_step s e = Some s1" "nc_steps s1 es = Some s'"
    by (auto split: bind_splits)
  from Cons.prems(3) have "last_listener s + 1 < 2 ^ 32" by simp
  from nc_step_ok [OF Cons.prems(1) s1(1) this] obtain xs where
    step: "nc_ok s1" "last_listener s \<le> last_listener s1" "last_listener s1 \<le> last_listener s + 1"
      "live_ids s1 \<subseteq> live_ids s \<union> {last_listener s <.. last_listener s1}"
    and xs: "fired s1 = fired s @ xs" "fst ` set xs \<subseteq> live_ids s" by blast
  from step(3) Cons.prems(3) have "last_listener s1 + length es < 2 ^ 32" by simp
  from Cons.IH [OF step(1) s1(2) this] obtain ys where
    rest: "nc_ok s'" "last_listener s1 \<le> last_listener s'"
      "live_ids s' \<subseteq> live_ids s1 \<union> {last_listener s1 <.. last_listener s'}"
    and ys: "fired s' = fired s1 @ ys" "fst ` set ys \<subseteq> live_ids s1 \<union> {last_listener s1 <..}" by blast
  have "live_ids s' \<subseteq> live_ids s \<union> {last_listener s <.. last_listener s'}"
    using rest(2,3) step(2,4) by fastforce
  moreover have "fst ` set (xs @ ys) \<subseteq> live_ids s \<union> {last_listener s <..}"
    using xs(2) ys(2) step(2,4) by (simp add: image_Un) fastforce
  ultimately show ?case using rest(1,2) step(2) xs(1) ys(1) by auto
qed

section \<open>Dispatch\<close>

text \<open>Events and listeners agree on the argument types of every event.\<close>

definition nc_typed :: "(string \<Rightarrow> nat) \<Rightarrow> center \<Rightarrow> bool" where
  "nc_typed sg s \<longleftrightarrow>
     (\<forall>(name, ls) \<in> set (listenersList s). \<forall>l \<in> set ls. lsig l = sg name) \<and>
     (\<forall>t \<in> set (tasks s). case t of AddTask name l \<Rightarrow> lsig l = sg name
        | DispatchTask name g a \<Rightarrow> g = sg name) \<and>
     (case firing s of None \<Rightarrow> True | Some (ls, g, a) \<Rightarrow> \<forall>l \<in> set ls. lsig l = g)"

fun nc_event_typed :: "(string \<Rightarrow> nat) \<Rightarrow> nc_event \<Rightarrow> bool" where
  "nc_event_typed sg (NcAdd name sig) = (case sig of None \<Rightarrow> True | Some g \<Rightarrow> g = sg name)"
| "nc_event_typed sg (NcEmit name g a) = (g = sg name)"
| "nc_event_typed sg _ = True"

lemma remove_from_typed:
  "\<forall>(name, ls) \<in> set m. \<forall>l \<in> set ls. P name l \<Longrightarrow>
     \<forall>(name, ls) \<in> set (remove_from i m). \<forall>l \<in> set ls. P name l"
proof (induction i m rule: remove_from.induct)
  case (1 i)
  then show ?case by simp
next
  case (2 i name ls m)
  have "set (erase_at j ls) \<subseteq> set ls" for j by (rule set_erase_at)
  with 2 show ?case by (auto split: option.splits)
qed

lemma typed_lookup:
  "\<forall>(n, ls) \<in> set m. \<forall>l \<in> set ls. lsig l = sg n \<Longrightarrow> am_find m name = Some ls \<Longrightarrow> l \<in> set ls \<Longrightarrow>
     lsig l = sg name"
  using am_find_mem [of m name ls] by fast

lemma nc_run_typed:
  assumes "nc_typed sg s"
  shows "\<exists>s'. nc_run s = Some s' \<and> nc_typed sg s'"
proof (cases "firing s")
  case (Some f)
  obtain ls g a where f: "f = (ls, g, a)" by (cases f)
  with assms Some show ?thesis
    by (cases ls) (auto simp: nc_run_def nc_typed_def)
next
  case None
  show ?thesis
  proof (cases "tasks s")
    case Nil
    with None assms show ?thesis by (simp add: nc_run_def)
  next
    case (Cons t ts)
    show ?thesis
    proof (cases t)
      case (AddTask name l)
      from assms AddTask Cons have l: "lsig l = sg name"
        and old: "\<forall>(n, ls) \<in> set (listenersList s). \<forall>l \<in> set ls. lsig l = sg n"
        by (simp_all add: nc_typed_def)
      have "lsig k = sg name" if "k \<in> set (listeners_of s name)" for k
        using that typed_lookup [OF old, of name]
        by (cases "am_find (listenersList s) name") (auto simp: listeners_of_def)
      then have "\<forall>k \<in> set (listeners_of s name @ [l]). lsig k = sg name"
        using l by auto
      with old set_am_put [of name "listeners_of s name @ [l]" "listenersList s"]
      have "\<forall>(n, ls) \<in> set (am_put name (listeners_of s name @ [l]) (listenersList s)).
          \<forall>l \<in> set ls. lsig l = sg n" by fast
      moreover have "nc_run s = Some (s\<lparr>tasks := ts,
          listenersList := am_put name (listeners_of s name @ [l]) (listenersList s)\<rparr>)"
        using AddTask Cons None by (simp add: nc_run_def add_handler_eq listeners_of_def)
      moreover from assms have "\<forall>t \<in> set ts. case t of AddTask name l \<Rightarrow> lsig l = sg name
        | DispatchTask name g a \<Rightarrow> g = sg name" by (simp add: nc_typed_def Cons)
      ultimately show ?thesis by (simp add: nc_typed_def None)
    next
      case (DispatchTask name g a)
      with assms Cons have old: "\<forall>(n, ls) \<in> set (listenersList s). \<forall>l \<in> set ls. lsig l = sg n"
        and g: "g = sg name" by (simp_all add: nc_typed_def)
      from typed_lookup [OF old, of name] DispatchTask Cons None assms g show ?thesis
        by (auto simp: nc_run_def nc_typed_def split: option.splits)
    qed
  qed
qed

lemma nc_step_typed:
  assumes "nc_typed sg s" and "nc_event_typed sg e"
  shows "\<exists>s'. nc_step s e = Some s' \<and> nc_typed sg s'"
proof (cases e)
  case (NcAdd name sig)
  with assms show ?thesis
    by (auto simp: nc_addListener_def nc_typed_def Let_def split: option.splits)
next
  case (NcRemove i)
  with assms(1) remove_from_typed [of "listenersList s" "\<lambda>name l. lsig l = sg name" i] show ?thesis
    by (simp add: nc_removeListener_def nc_typed_def)
next
  case (NcEmit name g a)
  with assms show ?thesis by (auto simp: nc_emit_def nc_typed_def)
next
  case NcRun
  with nc_run_typed [OF assms(1)] show ?thesis by simp
qed

lemma nc_steps_typed:
  "nc_typed sg s \<Longrightarrow> \<forall>e \<in> set es. nc_event_typed sg e \<Longrightarrow> \<exists>s'. nc_steps s es = Some s' \<and> nc_typed sg s'"
proof (induction es arbitrary: s)
  case Nil
  then show ?case by simp
next
  case (Cons e es)
  from nc_step_typed [OF Cons.prems(1), of e] Cons.prems(2) obtain s1 where
    "nc_step s e = Some s1" "nc_typed sg s1" by auto
  with Cons.IH [of s1] Cons.prems(2) show ?case by simp
qed

section \<open>Properties\<close>

text \<open>When every listener and every emit of an event name agree on the argument types, no sequence
  of registrations, removals, emits and steps of the event thread faults, and, for fewer than
  \<open>2^32\<close> of them, no two registrations, done or still waiting, ever share an identifier.\<close>

theorem notification_runs_safe:
  assumes "\<forall>e \<in> set es. nc_event_typed sg e" and "length es < 2 ^ 32"
  shows "\<exists>s. nc_steps nc_init es = Some s \<and> nc_ok s"
proof -
  have "nc_typed sg nc_init" by (simp add: nc_typed_def nc_init_def)
  from nc_steps_typed [OF this assms(1)] obtain s where s: "nc_steps nc_init es = Some s" by blast
  from nc_steps_ok [OF nc_init_ok s] assms(2) s show ?thesis by (simp add: nc_init_def)
qed

theorem notification_runs_safe_witness:
  "\<exists>s. nc_steps nc_init [NcAdd ''onHWKeyEvent'' (Some 0), NcRun, NcEmit ''onHWKeyEvent'' 0 [31, 1],
      NcAdd ''windowExposed'' (Some 1), NcRun, NcRun, NcRemove 1] = Some s \<and> nc_ok s"
  by (rule notification_runs_safe [where sg = "\<lambda>n. if n = ''windowExposed'' then 1 else 0"]) simp_all

text \<open>What other threads, and the callbacks, do to an event that is being dispatched: nothing.\<close>

lemma dispatch_undisturbed:
  assumes "nc_typed sg s" and "firing s = (if ls = [] then None else Some (ls, g, a))" and "\<forall>e \<in> set es. nc_event_typed sg e"
    and "length (filter (\<lambda>e. e = NcRun) es) = length ls"
  shows "\<exists>s'. nc_steps s es = Some s' \<and> firing s' = None \<and> fired s' = fired s @ map (\<lambda>l. (lid l, a)) ls \<and>
    stray_unlocks s' = stray_unlocks s + (if ls = [] then 0 else 1)"
  using assms
proof (induction es arbitrary: s ls)
  case (Cons e es)
  from nc_step_typed [OF Cons.prems(1), of e] Cons.prems(3) obtain s1 where s1: "nc_step s e = Some s1" "nc_typed sg s1" by auto
  have rest: "\<forall>e \<in> set es. nc_event_typed sg e" using Cons.prems(3) by simp
  show ?case
  proof (cases "e = NcRun")
    case True
    with Cons.prems(4) obtain l ks where ls: "ls = l # ks" "length (filter (\<lambda>e. e = NcRun) es) = length ks" by (cases ls) auto
    with True s1(1) Cons.prems(2) have f: "firing s1 = (if ks = [] then None else Some (ks, g, a))" "fired s1 = fired s @ [(lid l, a)]"
        "stray_unlocks s1 = stray_unlocks s + (if ks = [] then 1 else 0)"
      by (auto simp: nc_run_def split: if_splits)
    from Cons.IH [OF s1(2) f(1) rest ls(2)] s1(1) f(2,3) ls(1) show ?thesis by auto
  next
    case False
    with s1(1) have f: "firing s1 = firing s" "fired s1 = fired s" "stray_unlocks s1 = stray_unlocks s"
      by (cases e; auto simp: nc_addListener_def nc_removeListener_def nc_emit_def Let_def split: option.splits)+
    have "length (filter (\<lambda>e. e = NcRun) es) = length ls" using False Cons.prems(4) by simp
    from Cons.IH [OF s1(2) _ rest this] Cons.prems(2) s1(1) f show ?thesis by auto
  qed
qed simp

text \<open>C14: When the event thread gets to an emitted event, the event reaches every listener registered at that
  moment, each exactly once, in the order of registration and with the emitted arguments, and no other
  listener, whatever is registered, removed or emitted while the callbacks run; provided listeners and emits of
  every name agree on the types of the arguments. Each such event ends with an unlock of the mutex that the
  handler does not hold.\<close>

theorem emit_reaches_listeners:
  assumes "nc_typed sg s" and "firing s = None" and "tasks s = DispatchTask name g a # ts"
    and "am_find (listenersList s) name = Some ls" and "ls \<noteq> []"
    and "\<forall>e \<in> set es. nc_event_typed sg e" and "length (filter (\<lambda>e. e = NcRun) es) = length ls"
  shows "\<exists>s'. nc_steps s (NcRun # es) = Some s' \<and> firing s' = None \<and> fired s' = fired s @ map (\<lambda>l. (lid l, a)) ls \<and>
    stray_unlocks s' = Suc (stray_unlocks s)"
proof -
  let ?s = "s\<lparr>tasks := ts, firing := Some (ls, g, a)\<rparr>"
  have run: "nc_run s = Some ?s" using assms(2-4) by (simp add: nc_run_def)
  with nc_run_typed [OF assms(1)] have "nc_typed sg ?s" by simp
  from dispatch_undisturbed [OF this _ assms(6,7), of g a] assms(5) run show ?thesis by auto
qed

text \<open>A third listener is added and the second one removed while the first is called.\<close>

theorem emit_reaches_listeners_witness:
  "let s = nc_init\<lparr>last_listener := 3, listenersList := [(''dimension'', [\<lparr>lid = 1, lsig = 0\<rparr>, \<lparr>lid = 3, lsig = 0\<rparr>])]\<rparr>;
       es = [NcAdd ''dimension'' (Some 0), NcRemove 3, NcRun, NcEmit ''dimension'' 0 [640, 480], NcRun]
   in \<exists>s'. nc_steps s (NcEmit ''dimension'' 0 [1280, 720] # NcRun # es) = Some s' \<and> firing s' = None \<and>
     fired s' = [(1, [1280, 720]), (3, [1280, 720])] \<and> stray_unlocks s' = 1"
proof -
  let ?s = "nc_init\<lparr>last_listener := 3, listenersList := [(''dimension'', [\<lparr>lid = 1, lsig = 0\<rparr>, \<lparr>lid = 3, lsig = 0\<rparr>])]\<rparr>"
  let ?es = "[NcAdd ''dimension'' (Some 0), NcRemove 3, NcRun, NcEmit ''dimension'' 0 [640, 480], NcRun]"
  have "\<exists>s'. nc_steps (nc_emit ''dimension'' 0 [1280, 720] ?s) (NcRun # ?es) = Some s' \<and> firing s' = None \<and>
      fired s' = fired (nc_emit ''dimension'' 0 [1280, 720] ?s) @ map (\<lambda>l. (lid l, [1280, 720])) [\<lparr>lid = 1, lsig = 0\<rparr>, \<lparr>lid = 3, lsig = 0\<rparr>] \<and>
      stray_unlocks s' = Suc (stray_unlocks (nc_emit ''dimension'' 0 [1280, 720] ?s))"
    by (rule emit_reaches_listeners [where sg = "\<lambda>_. 0" and ts = "[]" and name = "''dimension''" and g = 0])
      (simp_all add: nc_emit_def nc_init_def nc_typed_def)
  then show ?thesis by (simp add: nc_emit_def nc_init_def)
qed

text \<open>A removed listener stays silent: once an identifier whose registration has run and that is not
  being called is removed, no later sequence of steps calls it, whatever is added, removed or
  emitted afterwards, for fewer than \<open>2^32\<close> registrations.\<close>

theorem removed_listener_silent:
  assumes "nc_ok s" and "i \<le> last_listener s"
    and "i \<notin> set (concat (map task_ids (tasks s)))" and "i \<notin> set (firing_ids s)"
    and "nc_steps (nc_removeListener i s) es = Some s'"
    and "last_listener s + length es < 2 ^ 32"
  shows "filter (\<lambda>(j, _). j = i) (fired s') = filter (\<lambda>(j, _). j = i) (fired s)"
proof -
  let ?s = "nc_removeListener i s"
  from nc_remove_ok [OF assms(1)] assms(3,4) have ok: "nc_ok ?s" and dead: "i \<notin> live_ids ?s" by auto
  have frame: "last_listener ?s = last_listener s" "fired ?s = fired s"
    by (simp_all add: nc_removeListener_def)
  from nc_steps_ok [OF ok assms(5)] assms(6) frame obtain xs where
    xs: "fired s' = fired s @ xs" "fst ` set xs \<subseteq> live_ids ?s \<union> {last_listener s <..}" by auto
  from xs(2) dead assms(2) have "\<forall>p \<in> set xs. fst p \<noteq> i" by fastforce
  with xs(1) show ?thesis by (auto simp: filter_empty_conv)
qed

theorem removed_listener_silent_witness:
  "let s = nc_init\<lparr>last_listener := 1, listenersList := [(''key'', [\<lparr>lid = 1, lsig = 0\<rparr>])]\<rparr>
   in \<exists>s'. nc_steps (nc_removeListener 1 s) [NcEmit ''key'' 0 [], NcRun, NcRun] = Some s' \<and>
      filter (\<lambda>(j, _). j = 1) (fired s') = []"
proof -
  let ?s = "nc_init\<lparr>last_listener := 1, listenersList := [(''key'', [\<lparr>lid = 1, lsig = 0\<rparr>])]\<rparr>"
  have ok: "nc_ok ?s" by (simp add: nc_ok_def nc_init_def live_ids_def firing_ids_def am_ok_def)
  have run: "nc_steps (nc_removeListener 1 ?s) [NcEmit ''key'' 0 [], NcRun, NcRun] =
      Some (nc_removeListener 1 ?s)"
    by (simp add: nc_removeListener_def nc_init_def nc_emit_def nc_run_def)
  from removed_listener_silent [OF ok _ _ _ run] run show ?thesis
    by (simp add: nc_init_def firing_ids_def)
qed

text \<open>A listener removed too early is never removed: when \<open>removeListener\<close> is called before the
  event thread ran the task that registers the listener, the removal finds nothing and reports
  nothing, the registration runs afterwards, and every later emit calls the listener.\<close>

theorem early_removal_is_lost:
  assumes "tasks s = []" and "firing s = None" and "i = last_listener s + 1" and "i < 2 ^ 32"
    and "nc_ok s" and "am_find (listenersList s) name = None"
  shows "map_option (\<lambda>s'. fired s') (nc_steps s
      [NcAdd name (Some g), NcRemove i, NcRun, NcEmit name g a, NcRun, NcRun]) =
    Some (fired s @ [(i, a)])"
proof -
  have "i \<notin> live_ids s" using assms(3,5) by (auto simp: nc_ok_def)
  then have "i \<notin> set (map_ids (listenersList s))" by (simp add: live_ids_def)
  then have none: "remove_from i (listenersList s) = listenersList s" by (rule remove_from_none)
  show ?thesis
    using assms(1-4,6) none
    by (simp add: nc_addListener_def nc_removeListener_def nc_emit_def nc_run_def add_handler_eq
      listeners_of_def am_find_put Let_def)
qed

theorem early_removal_is_lost_witness:
  "map_option (\<lambda>s'. fired s') (nc_steps nc_init
      [NcAdd ''onHWKeyEvent'' (Some 0), NcRemove 1, NcRun, NcEmit ''onHWKeyEvent'' 0 [31, 1],
       NcRun, NcRun]) =
    Some [(1, [31, 1])]"
  using early_removal_is_lost [of nc_init 1 "''onHWKeyEvent''" 0 "[31, 1]"] nc_init_ok
  by (simp add: nc_init_def)

end
