(* ===== verification/ScrollLayer.thy ===== *)
theory ScrollLayer imports SkGeom begin

text \<open>
  The state of a scroll layer (\<open>rns_shell/compositor/layers/ScrollLayer.h\<close> and \<open>.cpp\<close>): the
  content size, the scroll position, and the scroll bar that shows it. Painting is not modelled.

  Scroll positions are whole numbers: every caller passes whole numbers, and the layer stores the
  two coordinates as \<open>int\<close>. Skia's rectangles are the argument \<open>sk\<close>, \<open>SkScalarRoundToInt\<close> is the
  argument \<open>rnd\<close>; what is used of it is that it rounds to a nearest whole number.

  The lemmas show that the bar never leaves the part of the frame the insets leave it, whatever the
  content, for every scroll position inside the content.
\<close>

section \<open>State\<close>

datatype LayerInvalidateMask = LayerInvalidateNone | LayerPaintInvalidate | LayerRemoveInvalidate

datatype ScrollBarPosition =
  ScrollBarPositionLeft | ScrollBarPositionRight | ScrollBarPositionTop | ScrollBarPositionBottom

record scroll_bar =
  bar_mask :: LayerInvalidateMask
  barPosition :: ScrollBarPosition
  barFrame :: sk_irect
  barFrameInsets :: sk_irect
  barOffsetTranslate :: "int \<times> int"
  barOffsetMultiplier :: "scalar \<times> scalar"
  bar_contentSize :: "int \<times> int"
  bar_scrollFrame :: sk_irect
  bar_scrollPos :: "int \<times> int"

record scroll_layer =
  layer_frame :: sk_irect
  contentSize :: "int \<times> int"
  scrollPosition :: "int \<times> int"
  scrollbar :: scroll_bar

definition irect_zero :: sk_irect where
  "irect_zero = \<lparr>fLeft = 0, fTop = 0, fRight = 0, fBottom = 0\<rparr>"

definition scroll_bar_init :: scroll_bar where
  "scroll_bar_init = \<lparr>bar_mask = LayerInvalidateNone, barPosition = ScrollBarPositionRight,
     barFrame = irect_zero, barFrameInsets = irect_zero, barOffsetTranslate = (0, 0),
     barOffsetMultiplier = (1, 1), bar_contentSize = (0, 0), bar_scrollFrame = irect_zero,
     bar_scrollPos = (0, 0)\<rparr>"

definition scroll_layer_init :: scroll_layer where
  "scroll_layer_init = \<lparr>layer_frame = irect_zero, contentSize = (0, 0), scrollPosition = (0, 0),
     scrollbar = scroll_bar_init\<rparr>"

section \<open>The scroll bar\<close>

abbreviation (input) SCROLLBAR_THICKNESS :: int where "SCROLLBAR_THICKNESS \<equiv> 5"
abbreviation (input) SCROLLBAR_MIN_LENGTH :: int where "SCROLLBAR_MIN_LENGTH \<equiv> 20"

definition showScrollBar :: "bool \<Rightarrow> scroll_bar \<Rightarrow> scroll_bar" where
  "showScrollBar show_it b = b\<lparr>bar_mask :=
     (if show_it then LayerPaintInvalidate
      else if bar_mask b = LayerPaintInvalidate then LayerRemoveInvalidate
      else LayerInvalidateNone)\<rparr>"

definition bar_horizontal :: "scroll_bar \<Rightarrow> bool" where
  "bar_horizontal b \<longleftrightarrow> barPosition b \<in> {ScrollBarPositionTop, ScrollBarPositionBottom}"

definition updateBarOffset :: "(scalar \<Rightarrow> int) \<Rightarrow> scroll_bar \<Rightarrow> scroll_bar" where
  "updateBarOffset rnd b =
     (let (tx, ty) = barOffsetTranslate b; (mx, my) = barOffsetMultiplier b;
          (px, py) = bar_scrollPos b
      in b\<lparr>barOffsetTranslate :=
           (if bar_horizontal b then (rnd (of_int px * mx), ty)
            else (tx, rnd (of_int py * my)))\<rparr>)"

text \<open>Length and offset multiplier along the scroll axis, for an area longer than the minimum.\<close>

definition bar_length :: "(scalar \<Rightarrow> int) \<Rightarrow> int \<Rightarrow> int \<Rightarrow> int \<Rightarrow> int" where
  "bar_length rnd area content frame =
     max SCROLLBAR_MIN_LENGTH (rnd (of_int area / of_int content * of_int frame))"

definition bar_multiplier :: "int \<Rightarrow> int \<Rightarrow> int \<Rightarrow> int \<Rightarrow> scalar" where
  "bar_multiplier area len content frame = of_int (area - len) / of_int (content - frame)"

text \<open>C++ integer division rounds towards zero.\<close>

definition calculateBarLayoutMetrics ::
  "sk_rect_api \<Rightarrow> (scalar \<Rightarrow> int) \<Rightarrow> scroll_bar \<Rightarrow> scroll_bar" where
  "calculateBarLayoutMetrics sk rnd b =
     (let f = bar_scrollFrame b; (cw, ch) = bar_contentSize b; ins = barFrameInsets b;
          fw = irect_width sk f; fh = irect_height sk f;
          (tx, ty) = barOffsetTranslate b
      in if bar_horizontal b
         then if cw \<le> fw
              then b\<lparr>barFrame := irect_zero, barOffsetMultiplier := (0, 0),
                     barOffsetTranslate := (0, 0)\<rparr>
              else let area = fw - fLeft ins - fRight ins;
                       len = bar_length rnd area cw fw;
                       (frame, mult) =
                         (if area \<le> SCROLLBAR_MIN_LENGTH
                          then (irect_makeXYWH sk (trunc (of_int (fw - SCROLLBAR_MIN_LENGTH) / 2)) 0
                                  SCROLLBAR_MIN_LENGTH SCROLLBAR_THICKNESS, (0, 1))
                          else (irect_makeXYWH sk (fLeft ins) 0 len SCROLLBAR_THICKNESS,
                                (bar_multiplier area len cw fw, 1)))
                   in updateBarOffset rnd
                     (if barPosition b = ScrollBarPositionTop
                      then b\<lparr>barOffsetMultiplier := mult,
                             barFrame := irect_makeOffset sk frame 0 (fTop ins)\<rparr>
                      else b\<lparr>barOffsetMultiplier := mult,
                             barFrame := irect_makeOffset sk frame 0 (- fBottom ins),
                             barOffsetTranslate := (tx, fh - SCROLLBAR_THICKNESS)\<rparr>)
         else if ch \<le> fh
              then b\<lparr>barFrame := irect_zero, barOffsetMultiplier := (0, 0),
                     barOffsetTranslate := (0, 0)\<rparr>
              else let area = fh - fTop ins - fBottom ins;
                       len = bar_length rnd area ch fh;
                       (frame, mult) =
                         (if area \<le> SCROLLBAR_MIN_LENGTH
                          then (irect_makeXYWH sk 0 (trunc (of_int (fh - SCROLLBAR_MIN_LENGTH) / 2))
                                  SCROLLBAR_THICKNESS SCROLLBAR_MIN_LENGTH, (1, 0))
                          else (irect_makeXYWH sk 0 (fTop ins) SCROLLBAR_THICKNESS len,
                                (1, bar_multiplier area len ch fh)))
                   in updateBarOffset rnd
                     (if barPosition b = ScrollBarPositionLeft
                      then b\<lparr>barOffsetMultiplier := mult,
                             barFrame := irect_makeOffset sk frame (fLeft ins) 0\<rparr>
                      else b\<lparr>barOffsetMultiplier := mult,
                             barFrame := irect_makeOffset sk frame (- fRight ins) 0,
                             barOffsetTranslate := (fw - SCROLLBAR_THICKNESS, ty)\<rparr>))"

definition setScrollBarOffset :: "(scalar \<Rightarrow> int) \<Rightarrow> int \<times> int \<Rightarrow> scroll_bar \<Rightarrow> scroll_bar" where
  "setScrollBarOffset rnd pos b =
     (if bar_scrollPos b = pos then b else updateBarOffset rnd (b\<lparr>bar_scrollPos := pos\<rparr>))"

definition setScrollBarPosition ::
  "sk_rect_api \<Rightarrow> (scalar \<Rightarrow> int) \<Rightarrow> ScrollBarPosition \<Rightarrow> scroll_bar \<Rightarrow> scroll_bar" where
  "setScrollBarPosition sk rnd p b =
     (if barPosition b = p then b else calculateBarLayoutMetrics sk rnd (b\<lparr>barPosition := p\<rparr>))"

definition setScrollBarInsets ::
  "sk_rect_api \<Rightarrow> (scalar \<Rightarrow> int) \<Rightarrow> sk_irect \<Rightarrow> scroll_bar \<Rightarrow> scroll_bar" where
  "setScrollBarInsets sk rnd ins b =
     (if barFrameInsets b = ins then b
      else calculateBarLayoutMetrics sk rnd (b\<lparr>barFrameInsets := ins\<rparr>))"

definition updateScrollLayerLayout ::
  "sk_rect_api \<Rightarrow> (scalar \<Rightarrow> int) \<Rightarrow> int \<times> int \<Rightarrow> sk_irect \<Rightarrow> scroll_bar \<Rightarrow> scroll_bar" where
  "updateScrollLayerLayout sk rnd sz frame b =
     (if bar_contentSize b = sz \<and> bar_scrollFrame b = frame then b
      else calculateBarLayoutMetrics sk rnd (b\<lparr>bar_contentSize := sz, bar_scrollFrame := frame\<rparr>))"

text \<open>The part of the screen to repaint for the bar; the mask is reset once a hidden bar is gone.\<close>

definition getScrollBarAbsFrame ::
  "sk_rect_api \<Rightarrow> sk_irect \<Rightarrow> LayerInvalidateMask \<Rightarrow> scroll_bar \<Rightarrow> sk_irect \<times> scroll_bar" where
  "getScrollBarAbsFrame sk absFrame layerMask b =
     (if bar_mask b \<noteq> LayerInvalidateNone
      then if layerMask = LayerInvalidateNone \<and> bar_mask b = LayerPaintInvalidate
           then (irect_zero, b)
           else (irect_makeOffset sk (barFrame b)
                   (fLeft absFrame + fst (barOffsetTranslate b))
                   (fTop absFrame + snd (barOffsetTranslate b)),
                 if bar_mask b = LayerRemoveInvalidate then showScrollBar False b else b)
      else (irect_zero, b))"

section \<open>The layer\<close>

definition setContentSize ::
  "sk_rect_api \<Rightarrow> (scalar \<Rightarrow> int) \<Rightarrow> int \<times> int \<Rightarrow> scroll_layer \<Rightarrow> bool \<times> scroll_layer" where
  "setContentSize sk rnd sz l =
     (if contentSize l \<noteq> sz
      then (True, l\<lparr>contentSize := sz,
              scrollbar := updateScrollLayerLayout sk rnd sz (layer_frame l) (scrollbar l)\<rparr>)
      else (False, l))"

definition setScrollPosition :: "(scalar \<Rightarrow> int) \<Rightarrow> int \<times> int \<Rightarrow> scroll_layer \<Rightarrow> scroll_layer" where
  "setScrollPosition rnd pos l =
     l\<lparr>scrollPosition := pos, scrollbar := setScrollBarOffset rnd pos (scrollbar l)\<rparr>"

section \<open>The bar stays in its area\<close>

definition rounds :: "(scalar \<Rightarrow> int) \<Rightarrow> bool" where
  "rounds rnd \<longleftrightarrow> (\<forall>x. \<bar>of_int (rnd x) - x\<bar> \<le> 1 / 2)"

lemma rounds_le: "rounds rnd \<Longrightarrow> x \<le> of_int n \<Longrightarrow> rnd x \<le> n"
proof -
  assume "rounds rnd" and x: "x \<le> of_int n"
  then have "of_int (rnd x) - x \<le> 1 / 2" unfolding rounds_def by (meson abs_le_D1)
  with x have "(of_int (rnd x) :: scalar) < of_int n + 1" by simp
  then have "(of_int (rnd x) :: scalar) < of_int (n + 1)" by simp
  then show "rnd x \<le> n" unfolding of_int_less_iff by simp
qed

lemma rounds_ge: "rounds rnd \<Longrightarrow> of_int n \<le> x \<Longrightarrow> n \<le> rnd x"
proof -
  assume "rounds rnd" and x: "of_int n \<le> x"
  then have "x - of_int (rnd x) \<le> 1 / 2" unfolding rounds_def by (metis abs_le_D1 abs_minus_commute)
  with x have "(of_int n :: scalar) < of_int (rnd x) + 1" by simp
  then have "(of_int n :: scalar) < of_int (rnd x + 1)" by simp
  then show "n \<le> rnd x" unfolding of_int_less_iff by simp
qed

lemma rounds_round: "rounds round"
  unfolding rounds_def using of_int_round_abs_le by blast

lemma bar_length_bounds:
  assumes "rounds rnd" and "SCROLLBAR_MIN_LENGTH < area" and "0 \<le> frame" and "frame < content"
  shows "SCROLLBAR_MIN_LENGTH \<le> bar_length rnd area content frame"
    and "bar_length rnd area content frame \<le> area"
proof -
  have "(of_int frame :: scalar) \<le> of_int content" and "(0 :: scalar) < of_int content"
    using assms(3,4) by simp_all
  then have "of_int area / of_int content * of_int frame \<le> (of_int area :: scalar)"
    using assms(2,3) by (simp add: divide_simps mult_left_mono)
  from rounds_le [OF assms(1) this] assms(2)
  show "bar_length rnd area content frame \<le> area" by (simp add: bar_length_def)
qed (simp add: bar_length_def)

text \<open>The offset of the bar along its axis, for a scroll position inside the content.\<close>

lemma bar_offset_bounds:
  assumes "rounds rnd" and "0 \<le> pos" and "pos \<le> content - frame" and "frame < content"
    and "len \<le> area"
  shows "0 \<le> rnd (of_int pos * bar_multiplier area len content frame)"
    and "rnd (of_int pos * bar_multiplier area len content frame) \<le> area - len"
proof -
  let ?x = "of_int pos * bar_multiplier area len content frame"
  have d: "(0 :: scalar) < of_int (content - frame)" using assms(4) by simp
  have "0 \<le> ?x"
    using assms(2,5) d by (simp add: bar_multiplier_def)
  with rounds_ge [OF assms(1), of 0 ?x] show "0 \<le> rnd ?x" by simp
  have "(of_int pos :: scalar) \<le> of_int (content - frame)" using assms(3) by simp
  then have "of_int pos * of_int (area - len) \<le> (of_int (content - frame) * of_int (area - len) :: scalar)"
    using assms(5) by (intro mult_right_mono) simp_all
  then have "?x \<le> of_int (area - len)"
    using d by (simp add: bar_multiplier_def divide_le_eq mult.commute)
  from rounds_le [OF assms(1) this] show "rnd ?x \<le> area - len" .
qed

lemma sk_makeOffset:
  "sk_rect_laws sk \<Longrightarrow> irect32 r \<Longrightarrow> int32 (fLeft r + dx) \<Longrightarrow> int32 (fRight r + dx) \<Longrightarrow>
     int32 (fTop r + dy) \<Longrightarrow> int32 (fBottom r + dy) \<Longrightarrow>
     irect_makeOffset sk r dx dy = \<lparr>fLeft = fLeft r + dx, fTop = fTop r + dy,
       fRight = fRight r + dx, fBottom = fBottom r + dy\<rparr>"
  by (simp add: sk_rect_laws_def)

text \<open>The layout of a vertical bar on the right edge, when the area is long enough.\<close>

lemma vertical_layout:
  assumes "sk_rect_laws sk" and "rounds rnd" and "barPosition b = ScrollBarPositionRight"
    and "bar_scrollFrame b = \<lparr>fLeft = fx, fTop = fy, fRight = fx + fw, fBottom = fy + fh\<rparr>"
    and "int32 fh" and "int32 fw" and "0 \<le> fh" and "fh < ch" and "bar_contentSize b = (cw, ch)"
    and "barFrameInsets b = \<lparr>fLeft = 0, fTop = t, fRight = 0, fBottom = e\<rparr>"
    and "0 \<le> t" and "0 \<le> e" and "SCROLLBAR_MIN_LENGTH < fh - t - e"
  defines "len \<equiv> bar_length rnd (fh - t - e) ch fh"
  shows "calculateBarLayoutMetrics sk rnd b = updateBarOffset rnd (b\<lparr>
     barOffsetMultiplier := (1, bar_multiplier (fh - t - e) len ch fh),
     barFrame := \<lparr>fLeft = 0, fTop = t, fRight = SCROLLBAR_THICKNESS, fBottom = t + len\<rparr>,
     barOffsetTranslate := (fw - SCROLLBAR_THICKNESS, snd (barOffsetTranslate b))\<rparr>)"
proof -
  have h: "irect_height sk (bar_scrollFrame b) = fh" and w: "irect_width sk (bar_scrollFrame b) = fw"
    using assms(1,4-6) by (simp_all add: sk_height sk_width wrap32_id)
  note len = bar_length_bounds [OF assms(2,13,7,8), folded len_def]
  have t_len: "t + len \<le> fh" using len(2) assms(12) by simp
  have ints: "int32 (0 + SCROLLBAR_THICKNESS)" "int32 (t + len)" "int32 t" "int32 0"
    using assms(5,11) len(1) t_len by (simp_all add: int32_def)
  have frame: "irect_makeXYWH sk 0 t SCROLLBAR_THICKNESS len =
    \<lparr>fLeft = 0, fTop = t, fRight = SCROLLBAR_THICKNESS, fBottom = t + len\<rparr>"
    using sk_makeXYWH [OF assms(1) ints(1,2)] by simp
  have offset: "irect_makeOffset sk \<lparr>fLeft = 0, fTop = t, fRight = SCROLLBAR_THICKNESS,
      fBottom = t + len\<rparr> 0 0 =
    \<lparr>fLeft = 0, fTop = t, fRight = SCROLLBAR_THICKNESS, fBottom = t + len\<rparr>"
    using ints by (subst sk_makeOffset [OF assms(1)]) (simp_all add: irect32_def)
  have "\<not> fh - t - e \<le> SCROLLBAR_MIN_LENGTH" and "\<not> ch \<le> fh" using assms(8,13) by simp_all
  then show ?thesis
    using assms(3,9,10) by (cases "barOffsetTranslate b")
      (simp add: calculateBarLayoutMetrics_def bar_horizontal_def Let_def h w frame offset
        len_def [symmetric])
qed

section \<open>Properties\<close>

text \<open>The scroll bar stays inside its area: for content longer than the frame and every scroll
  position inside the content, laying out the vertical bar and moving it to the position gives a bar
  of at least the minimum length that starts at or below the top inset and ends at or above the
  bottom inset of the frame, when the insets leave more than the minimum length.\<close>

theorem scroll_bar_in_area:
  assumes "sk_rect_laws sk" and "rounds rnd" and "barPosition b = ScrollBarPositionRight"
    and "bar_scrollFrame b = \<lparr>fLeft = fx, fTop = fy, fRight = fx + fw, fBottom = fy + fh\<rparr>"
    and "int32 fh" and "int32 fw" and "0 \<le> fh" and "fh < ch" and "bar_contentSize b = (cw, ch)"
    and "barFrameInsets b = \<lparr>fLeft = 0, fTop = t, fRight = 0, fBottom = e\<rparr>"
    and "0 \<le> t" and "0 \<le> e" and "SCROLLBAR_MIN_LENGTH < fh - t - e"
    and "0 \<le> y" and "y \<le> ch - fh"
  shows "let m = setScrollBarOffset rnd (x, y) (calculateBarLayoutMetrics sk rnd b);
             top = snd (barOffsetTranslate m) + fTop (barFrame m);
             bottom = snd (barOffsetTranslate m) + fBottom (barFrame m)
         in t \<le> top \<and> bottom \<le> fh - e \<and> SCROLLBAR_MIN_LENGTH \<le> bottom - top"
proof -
  let ?len = "bar_length rnd (fh - t - e) ch fh"
  let ?off = "rnd (of_int y * bar_multiplier (fh - t - e) ?len ch fh)"
  let ?m = "setScrollBarOffset rnd (x, y) (calculateBarLayoutMetrics sk rnd b)"
  note len = bar_length_bounds [OF assms(2,13,7,8)]
  note off = bar_offset_bounds [OF assms(2,14,15,8) len(2)]
  have layout: "calculateBarLayoutMetrics sk rnd b = updateBarOffset rnd (b\<lparr>
     barOffsetMultiplier := (1, bar_multiplier (fh - t - e) ?len ch fh),
     barFrame := \<lparr>fLeft = 0, fTop = t, fRight = SCROLLBAR_THICKNESS, fBottom = t + ?len\<rparr>,
     barOffsetTranslate := (fw - SCROLLBAR_THICKNESS, snd (barOffsetTranslate b))\<rparr>)"
    by (rule vertical_layout [OF assms(1-13)])
  have "snd (barOffsetTranslate ?m) = ?off" and "fTop (barFrame ?m) = t"
    and "fBottom (barFrame ?m) = t + ?len"
    by (auto simp: layout setScrollBarOffset_def updateBarOffset_def bar_horizontal_def assms(3)
      Let_def split: prod.splits)
  with off len show ?thesis by (simp add: Let_def)
qed

theorem scroll_bar_in_area_witness:
  "let b = scroll_bar_init\<lparr>bar_contentSize := (1280, 4000),
         bar_scrollFrame := \<lparr>fLeft = 0, fTop = 0, fRight = 0 + 1280, fBottom = 0 + 720\<rparr>\<rparr>;
       m = setScrollBarOffset round (0, 3280) (calculateBarLayoutMetrics sk_rect_ref round b);
       top = snd (barOffsetTranslate m) + fTop (barFrame m);
       bottom = snd (barOffsetTranslate m) + fBottom (barFrame m)
   in 0 \<le> top \<and> bottom \<le> 720 - 0 \<and> SCROLLBAR_MIN_LENGTH \<le> bottom - top"
  unfolding Let_def
  by (rule scroll_bar_in_area [unfolded Let_def, where fx = 0 and fy = 0 and cw = 1280 and ch = 4000 and fw = 1280])
    (simp_all add: rounds_round scroll_bar_init_def irect_zero_def int32_def)

end
