(* ===== verification/ScrollView.thy ===== *)
theory ScrollView imports ScrollLayer RnsKeys begin

text \<open>
  The scroll view component (\<open>components/RSkComponentScrollView.cpp\<close>): scrolling by key, by command
  and by property, paging, snapping to offsets, and scrolling a component into view.

  \<^item> A candidate is the absolute frame of the component the spatial navigator wants to reach;
    \<open>None\<close> stands for no candidate and for the scroll view itself, which the code treats alike.
  \<^item> \<open>sv_out\<close> records the scroll events sent to JavaScript and the calls that bracket a repaint.
  \<^item> The scroll indicator feature is built in, as in the default build.

  The lemmas show that every operation keeps the scroll position inside the content, that scrolling
  to a component makes it visible, and that pressing one key reaches the end of the content.
\<close>

section \<open>State\<close>

datatype ScrollStatus = noScroll | scrollOnly | scrollToFocus

datatype sv_event = FlushBegin | FlushRequired | InvalidatePaint | OnScroll "int \<times> int" | TimerArmed

record scroll_view =
  pagingEnabled :: bool
  scrollEnabled :: bool
  isHorizontalScroll :: bool
  snapToOffsets :: "int list"
  contentOffset :: "scalar \<times> scalar"
  showHorizontalScrollIndicator :: bool
  showVerticalScrollIndicator :: bool
  persistentScrollIndicator :: bool
  drawScrollIndicator :: bool
  scrollbarTimer :: bool
  sv_layer :: scroll_layer
  sv_out :: "sv_event list"

record scroll_props =
  p_scrollEnabled :: bool
  p_pagingEnabled :: bool
  p_snapToOffsets :: "scalar list"
  p_contentOffset :: "scalar \<times> scalar"
  p_indicatorInsets :: "scalar \<times> scalar \<times> scalar \<times> scalar"
  p_showsHorizontal :: bool
  p_showsVertical :: bool

definition scroll_view_init :: scroll_view where
  "scroll_view_init = \<lparr>pagingEnabled = False, scrollEnabled = True, isHorizontalScroll = False,
     snapToOffsets = [], contentOffset = (0, 0), showHorizontalScrollIndicator = False,
     showVerticalScrollIndicator = False, persistentScrollIndicator = False,
     drawScrollIndicator = False, scrollbarTimer = False, sv_layer = scroll_layer_init, sv_out = []\<rparr>"

definition sv_emit :: "sv_event \<Rightarrow> scroll_view \<Rightarrow> scroll_view" where
  "sv_emit e v = v\<lparr>sv_out := sv_out v @ [e]\<rparr>"

definition sv_bar :: "(scroll_bar \<Rightarrow> scroll_bar) \<Rightarrow> scroll_view \<Rightarrow> scroll_view" where
  "sv_bar f v = v\<lparr>sv_layer := (sv_layer v)\<lparr>scrollbar := f (scrollbar (sv_layer v))\<rparr>\<rparr>"

definition sv_frameW :: "sk_rect_api \<Rightarrow> scroll_view \<Rightarrow> int" where
  "sv_frameW sk v = irect_width sk (layer_frame (sv_layer v))"

definition sv_frameH :: "sk_rect_api \<Rightarrow> scroll_view \<Rightarrow> int" where
  "sv_frameH sk v = irect_height sk (layer_frame (sv_layer v))"

abbreviation sv_pos :: "scroll_view \<Rightarrow> int \<times> int" where
  "sv_pos v \<equiv> scrollPosition (sv_layer v)"

abbreviation sv_content :: "scroll_view \<Rightarrow> int \<times> int" where
  "sv_content v \<equiv> contentSize (sv_layer v)"

section \<open>Scrolling\<close>

definition fadeOutScrollBar :: "scroll_view \<Rightarrow> scroll_view" where
  "fadeOutScrollBar v = sv_emit TimerArmed (v\<lparr>scrollbarTimer := True\<rparr>)"

text \<open>The callback of the timer.\<close>

definition hideScrollBar :: "scroll_view \<Rightarrow> scroll_view" where
  "hideScrollBar v = sv_emit FlushRequired (sv_bar (showScrollBar False) (sv_emit FlushBegin v))"

definition handleScroll :: "(scalar \<Rightarrow> int) \<Rightarrow> bool \<Rightarrow> int \<times> int \<Rightarrow> scroll_view \<Rightarrow> ScrollStatus \<times> scroll_view" where
  "handleScroll rnd isFlush pos v =
     (if pos = sv_pos v then (noScroll, v)
      else let v1 = (if isFlush then sv_emit FlushBegin v else v);
               v2 = v1\<lparr>sv_layer := setScrollPosition rnd pos (sv_layer v1)\<rparr>;
               v3 = (if drawScrollIndicator v2 then sv_bar (showScrollBar True) v2 else v2);
               v4 = sv_emit InvalidatePaint v3;
               v5 = (if isFlush then sv_emit FlushRequired v4 else v4);
               v6 = sv_emit (OnScroll pos) v5
           in (scrollOnly,
               if drawScrollIndicator v6 \<and> \<not> persistentScrollIndicator v6 then fadeOutScrollBar v6
               else v6))"

definition handleScrollXY ::
  "sk_rect_api \<Rightarrow> (scalar \<Rightarrow> int) \<Rightarrow> bool \<Rightarrow> int \<Rightarrow> int \<Rightarrow> scroll_view \<Rightarrow> ScrollStatus \<times> scroll_view" where
  "handleScrollXY sk rnd isFlush x y v =
     (let (cw, ch) = sv_content v; fw = sv_frameW sk v; fh = sv_frameH sk v
      in handleScroll rnd isFlush
           (if isHorizontalScroll v then (min (max 0 x) (cw - fw), 0)
            else (0, if ch \<le> fh then 0 else min (max 0 y) (ch - fh))) v)"

text \<open>Scrolling the frame of a candidate into view.\<close>

definition handleScrollTo ::
  "sk_rect_api \<Rightarrow> (scalar \<Rightarrow> int) \<Rightarrow> rnsKey \<Rightarrow> sk_irect \<Rightarrow> scroll_view \<Rightarrow> ScrollStatus \<times> scroll_view" where
  "handleScrollTo sk rnd direction c v =
     (let (x, y) = sv_pos v;
          (x', y') =
            (if direction = RNS_KEY_Right then (fRight c - sv_frameW sk v, y)
             else if direction = RNS_KEY_Left then (fLeft c, y)
             else if direction = RNS_KEY_Down then (x, fBottom c - sv_frameH sk v)
             else if direction = RNS_KEY_Up then (x, fTop c)
             else (x, y))
      in (scrollToFocus, snd (handleScrollXY sk rnd True x' y' v)))"

definition updateScrollOffset ::
  "sk_rect_api \<Rightarrow> (scalar \<Rightarrow> int) \<Rightarrow> int \<Rightarrow> int \<Rightarrow> scroll_view \<Rightarrow> scroll_view" where
  "updateScrollOffset sk rnd x y v = snd (handleScrollXY sk rnd False x y v)"

section \<open>The next position\<close>

text \<open>Half the view length is an integer division.\<close>

definition calculateNextScrollOffset :: "bool \<Rightarrow> bool \<Rightarrow> int \<Rightarrow> int \<Rightarrow> int \<Rightarrow> int" where
  "calculateNextScrollOffset paging forward contentLength viewLength offset =
     (let defaultOffset = (if paging then viewLength else trunc (of_int viewLength / 2))
      in if forward
         then (let offset' = offset + defaultOffset
               in if contentLength - offset' \<le> viewLength then contentLength - viewLength else offset')
         else if offset \<le> defaultOffset then 0
         else offset - defaultOffset)"

definition getNextScrollPosition :: "sk_rect_api \<Rightarrow> rnsKey \<Rightarrow> scroll_view \<Rightarrow> int \<times> int" where
  "getNextScrollPosition sk direction v =
     (let (x, y) = sv_pos v; (cw, ch) = sv_content v
      in if direction = RNS_KEY_Right \<or> direction = RNS_KEY_Left
         then (calculateNextScrollOffset (pagingEnabled v) (direction = RNS_KEY_Right) cw (sv_frameW sk v) x, y)
         else if direction = RNS_KEY_Down \<or> direction = RNS_KEY_Up
         then (x, calculateNextScrollOffset (pagingEnabled v) (direction = RNS_KEY_Down) ch (sv_frameH sk v) y)
         else (x, y))"

definition canScrollInDirection :: "sk_rect_api \<Rightarrow> rnsKey \<Rightarrow> scroll_view \<Rightarrow> bool" where
  "canScrollInDirection sk direction v =
     (let (x, y) = sv_pos v; (cw, ch) = sv_content v; fw = sv_frameW sk v; fh = sv_frameH sk v
      in if \<not> scrollEnabled v then False
         else if isHorizontalScroll v
         then (if direction = RNS_KEY_Right then cw - x > fw
               else if direction = RNS_KEY_Left then x \<noteq> 0 else False)
         else if ch < fh then False
         else if direction = RNS_KEY_Down then ch - y > fh
         else if direction = RNS_KEY_Up then y \<noteq> 0 else False)"

definition isVisible :: "sk_rect_api \<Rightarrow> sk_irect \<Rightarrow> scroll_view \<Rightarrow> bool" where
  "isVisible sk c v = irect_contains sk
     (irect_makeXYWH sk (fst (sv_pos v)) (snd (sv_pos v)) (sv_frameW sk v) (sv_frameH sk v)) c"

definition getScrollOffset :: "scroll_view \<Rightarrow> int \<times> int" where
  "getScrollOffset v = (if isHorizontalScroll v then (fst (sv_pos v), 0) else (0, snd (sv_pos v)))"

section \<open>Snapping\<close>

text \<open>\<open>std::lower_bound\<close> and \<open>std::upper_bound\<close> on a sorted vector.\<close>

definition first_above :: "int \<Rightarrow> int list \<Rightarrow> int option" where
  "first_above x xs = List.find (\<lambda>o'. x < o') xs"

definition last_below :: "int \<Rightarrow> int list \<Rightarrow> int option" where
  "last_below x xs = (case takeWhile (\<lambda>o'. o' < x) xs of [] \<Rightarrow> None | ys \<Rightarrow> Some (last ys))"

text \<open>Current offset, next and previous offset to snap to (\<open>-1\<close> for none), and the status.\<close>

definition snap_offsets ::
  "sk_rect_api \<Rightarrow> sk_irect option \<Rightarrow> scroll_view \<Rightarrow> int \<times> int \<times> int \<times> ScrollStatus" where
  "snap_offsets sk cand v =
     (let hor = isHorizontalScroll v;
          frameLength = (if hor then sv_frameW sk v else sv_frameH sk v);
          scrollOff = (if hor then fst (sv_pos v) else snd (sv_pos v));
          (currentOffset, upper, status) =
            (case cand of
               None \<Rightarrow> (scrollOff, first_above (scrollOff + frameLength) (snapToOffsets v), scrollOnly)
             | Some c \<Rightarrow> (let p = (if hor then fLeft c else fTop c)
                         in (p, first_above p (snapToOffsets v), scrollToFocus)))
      in (currentOffset, (case upper of Some u \<Rightarrow> u | None \<Rightarrow> scrollOff),
          (case last_below currentOffset (snapToOffsets v) of Some l \<Rightarrow> l | None \<Rightarrow> -1), status))"

definition handleSnapToOffsetScroll ::
  "sk_rect_api \<Rightarrow> (scalar \<Rightarrow> int) \<Rightarrow> rnsKey \<Rightarrow> sk_irect option \<Rightarrow> scroll_view \<Rightarrow> ScrollStatus \<times> scroll_view" where
  "handleSnapToOffsetScroll sk rnd direction cand v =
     (let (x, y) = sv_pos v; hor = isHorizontalScroll v;
          frameLength = (if hor then sv_frameW sk v else sv_frameH sk v);
          contentLength = (if hor then fst (sv_content v) else snd (sv_content v));
          (currentOffset, nextOffset0, prevOffset, status) = snap_offsets sk cand v;
          forward = (direction = RNS_KEY_Right \<or> direction = RNS_KEY_Down);
          backward = (direction = RNS_KEY_Left \<or> direction = RNS_KEY_Up);
          nextOffset = (if forward \<and> contentLength - nextOffset0 < frameLength
                        then contentLength - frameLength else nextOffset0)
      in if forward \<and> nextOffset0 = currentOffset then (noScroll, v)
         else if backward \<and> prevOffset = -1 then (noScroll, v)
         else if direction = RNS_KEY_Right then (status, snd (handleScroll rnd True (nextOffset, y) v))
         else if direction = RNS_KEY_Left then (status, snd (handleScroll rnd True (prevOffset, y) v))
         else if direction = RNS_KEY_Down then (status, snd (handleScroll rnd True (x, nextOffset) v))
         else if direction = RNS_KEY_Up then (status, snd (handleScroll rnd True (x, prevOffset) v))
         else (noScroll, v))"

section \<open>The interface of the spatial navigator\<close>

definition scrollInDirection ::
  "sk_rect_api \<Rightarrow> (scalar \<Rightarrow> int) \<Rightarrow> sk_irect option \<Rightarrow> rnsKey \<Rightarrow> scroll_view \<Rightarrow> ScrollStatus \<times> scroll_view" where
  "scrollInDirection sk rnd cand direction v =
     (if \<not> canScrollInDirection sk direction v then (noScroll, v)
      else if snapToOffsets v \<noteq> [] then handleSnapToOffsetScroll sk rnd direction cand v
      else let pos = getNextScrollPosition sk direction v
           in case cand of
                None \<Rightarrow> handleScroll rnd True pos v
              | Some c \<Rightarrow>
                  if isVisible sk c v then (noScroll, v)
                  else (case irect_intersect sk
                          (irect_makeXYWH sk (fst pos) (snd pos) (sv_frameW sk v) (sv_frameH sk v)) c of
                          None \<Rightarrow> handleScroll rnd True pos v
                        | Some _ \<Rightarrow> (scrollToFocus,
                            if pagingEnabled v then snd (handleScroll rnd True pos v)
                            else snd (handleScrollTo sk rnd direction c v))))"

definition scrollTo ::
  "sk_rect_api \<Rightarrow> (scalar \<Rightarrow> int) \<Rightarrow> sk_irect option \<Rightarrow> scroll_view \<Rightarrow> ScrollStatus \<times> scroll_view" where
  "scrollTo sk rnd cand v =
     (case cand of
        None \<Rightarrow> (noScroll, v)
      | Some c \<Rightarrow>
          if isVisible sk c v then (noScroll, v)
          else handleScrollTo sk rnd
            (if isHorizontalScroll v
             then (if fLeft c < fst (sv_pos v) then RNS_KEY_Left else RNS_KEY_Right)
             else (if fTop c < snd (sv_pos v) then RNS_KEY_Up else RNS_KEY_Down)) c v)"

section \<open>Properties, state and commands\<close>

definition draw_indicator :: "scroll_view \<Rightarrow> bool" where
  "draw_indicator v \<longleftrightarrow> isHorizontalScroll v \<and> showHorizontalScrollIndicator v \<or>
     \<not> isHorizontalScroll v \<and> showVerticalScrollIndicator v"

definition sv_updateComponentProps ::
  "sk_rect_api \<Rightarrow> (scalar \<Rightarrow> int) \<Rightarrow> bool \<Rightarrow> scroll_props \<Rightarrow> scroll_props \<Rightarrow> scroll_view \<Rightarrow> bool \<times> scroll_view" where
  "sv_updateComponentProps sk rnd force old new v =
     (let v1 = v\<lparr>scrollEnabled := p_scrollEnabled new, pagingEnabled := p_pagingEnabled new,
                 snapToOffsets := sort (map trunc (p_snapToOffsets new))\<rparr>;
          moved = (force \<or> p_contentOffset old \<noteq> p_contentOffset new);
          (ox, oy) = p_contentOffset new;
          v2 = (if moved then updateScrollOffset sk rnd (trunc ox) (trunc oy) (v1\<lparr>contentOffset := (ox, oy)\<rparr>)
                else v1);
          (il, it, ir, ib) = p_indicatorInsets new;
          v3 = (if force \<or> p_indicatorInsets old \<noteq> p_indicatorInsets new
                then sv_bar (setScrollBarInsets sk rnd
                       \<lparr>fLeft = rnd il, fTop = rnd it, fRight = rnd ir, fBottom = rnd ib\<rparr>) v2
                else v2);
          v4 = v3\<lparr>showHorizontalScrollIndicator := p_showsHorizontal new,
                  showVerticalScrollIndicator := p_showsVertical new\<rparr>
      in (moved, v4\<lparr>drawScrollIndicator := draw_indicator v4\<rparr>))"

text \<open>\<open>newSize\<close> is the rounded content size of the new state; the result tells whether to repaint.\<close>

definition sv_updateComponentState ::
  "sk_rect_api \<Rightarrow> (scalar \<Rightarrow> int) \<Rightarrow> int \<times> int \<Rightarrow> scroll_view \<Rightarrow> bool \<times> scroll_view" where
  "sv_updateComponentState sk rnd newSize v =
     (let (changed, layer) = setContentSize sk rnd newSize (sv_layer v);
          v1 = v\<lparr>sv_layer := layer\<rparr>
      in if \<not> changed then (False, v1)
         else let hor = (fst newSize > sv_frameW sk v1)
              in if hor \<noteq> isHorizontalScroll v1
                 then let v2 = v1\<lparr>isHorizontalScroll := hor\<rparr>;
                          v3 = v2\<lparr>drawScrollIndicator := draw_indicator v2\<rparr>;
                          v4 = sv_bar (setScrollBarPosition sk rnd
                                 (if hor then ScrollBarPositionBottom else ScrollBarPositionRight)) v3
                      in (True, updateScrollOffset sk rnd (trunc (fst (contentOffset v4)))
                            (trunc (snd (contentOffset v4))) v4)
                 else (True, updateScrollOffset sk rnd (fst (sv_pos v1)) (snd (sv_pos v1)) v1))"

text \<open>Command arguments are dynamic values; reading one at the wrong type ends the process.\<close>

datatype dyn = DBool bool | DDouble scalar | DOther

fun getBool :: "dyn \<Rightarrow> bool option" where
  "getBool (DBool b) = Some b" | "getBool _ = None"

fun getDouble :: "dyn \<Rightarrow> scalar option" where
  "getDouble (DDouble d) = Some d" | "getDouble _ = None"

definition sv_handleCommand ::
  "sk_rect_api \<Rightarrow> (scalar \<Rightarrow> int) \<Rightarrow> string \<Rightarrow> dyn list \<Rightarrow> scroll_view \<Rightarrow> scroll_view option" where
  "sv_handleCommand sk rnd commandName args v =
     (let (cw, ch) = sv_content v; fw = sv_frameW sk v; fh = sv_frameH sk v
      in if commandName = ''scrollToEnd''
         then (if length args \<noteq> 1 then Some v
               else if \<not> isHorizontalScroll v \<and> ch \<le> fh then Some v
               else do {
                 _ \<leftarrow> getBool (args ! 0);
                 Some (snd (handleScroll rnd True
                   (if isHorizontalScroll v then (cw - fw, 0) else (0, ch - fh)) v))
               })
         else if commandName = ''scrollTo''
         then (if length args \<noteq> 3 then Some v
               else do {
                 _ \<leftarrow> getBool (args ! 2);
                 x \<leftarrow> getDouble (args ! 0);
                 y \<leftarrow> getDouble (args ! 1);
                 Some (snd (handleScrollXY sk rnd True (trunc x) (trunc y) v))
               })
         else if commandName = ''flashScrollIndicators''
         then Some (if \<not> drawScrollIndicator v \<or> persistentScrollIndicator v then v
                    else fadeOutScrollBar (sv_emit FlushRequired
                           (sv_bar (showScrollBar True) (sv_emit FlushBegin v))))
         else Some v)"

section \<open>What an operation leaves alone\<close>

definition sv_same :: "scroll_view \<Rightarrow> scroll_view \<Rightarrow> bool" where
  "sv_same v v' \<longleftrightarrow> layer_frame (sv_layer v') = layer_frame (sv_layer v) \<and> sv_content v' = sv_content v \<and>
     isHorizontalScroll v' = isHorizontalScroll v \<and> snapToOffsets v' = snapToOffsets v \<and>
     scrollEnabled v' = scrollEnabled v \<and> pagingEnabled v' = pagingEnabled v"

lemma sv_same_refl [simp]: "sv_same v v"
  by (simp add: sv_same_def)

lemma sv_same_trans: "sv_same a b \<Longrightarrow> sv_same b c \<Longrightarrow> sv_same a c"
  by (simp add: sv_same_def)

lemma sv_same_frame: "sv_same v v' \<Longrightarrow> sv_frameW sk v' = sv_frameW sk v"
  "sv_same v v' \<Longrightarrow> sv_frameH sk v' = sv_frameH sk v"
  by (simp_all add: sv_same_def sv_frameW_def sv_frameH_def)

lemma handleScroll_pos [simp]: "sv_pos (snd (handleScroll rnd f pos v)) = pos"
  by (simp add: handleScroll_def Let_def sv_emit_def sv_bar_def setScrollPosition_def
    fadeOutScrollBar_def)

lemma handleScroll_same [simp]: "sv_same v (snd (handleScroll rnd f pos v))"
  by (simp add: handleScroll_def Let_def sv_emit_def sv_bar_def setScrollPosition_def
    fadeOutScrollBar_def sv_same_def)

lemma handleScrollXY_pos:
  "sv_pos (snd (handleScrollXY sk rnd f x y v)) =
     (if isHorizontalScroll v then (min (max 0 x) (fst (sv_content v) - sv_frameW sk v), 0)
      else (0, if snd (sv_content v) \<le> sv_frameH sk v then 0
               else min (max 0 y) (snd (sv_content v) - sv_frameH sk v)))"
  by (simp add: handleScrollXY_def Let_def split: prod.splits)

lemma handleScrollXY_same [simp]: "sv_same v (snd (handleScrollXY sk rnd f x y v))"
  by (simp add: handleScrollXY_def Let_def split: prod.splits)

lemma handleScrollTo_same [simp]: "sv_same v (snd (handleScrollTo sk rnd d c v))"
  by (simp add: handleScrollTo_def Let_def split: prod.splits)

section \<open>The position stays inside the content\<close>

text \<open>
  \<open>axis_ok\<close>: a horizontal view has content at least as wide as its frame, which holds when
  \<open>updateComponentState\<close> last computed the direction. \<open>snap_ok\<close>: the offsets to snap to are
  scroll positions.
\<close>

definition pos_ok :: "sk_rect_api \<Rightarrow> scroll_view \<Rightarrow> bool" where
  "pos_ok sk v \<longleftrightarrow> (let (x, y) = sv_pos v; (cw, ch) = sv_content v
     in 0 \<le> x \<and> x \<le> max 0 (cw - sv_frameW sk v) \<and> 0 \<le> y \<and> y \<le> max 0 (ch - sv_frameH sk v))"

definition axis_ok :: "sk_rect_api \<Rightarrow> scroll_view \<Rightarrow> bool" where
  "axis_ok sk v \<longleftrightarrow> 0 \<le> sv_frameW sk v \<and> 0 \<le> sv_frameH sk v \<and>
     (isHorizontalScroll v \<longrightarrow> sv_frameW sk v \<le> fst (sv_content v))"

definition snap_ok :: "sk_rect_api \<Rightarrow> scroll_view \<Rightarrow> bool" where
  "snap_ok sk v \<longleftrightarrow> (\<forall>o' \<in> set (snapToOffsets v). 0 \<le> o' \<and>
     o' \<le> (if isHorizontalScroll v then fst (sv_content v) - sv_frameW sk v
           else snd (sv_content v) - sv_frameH sk v))"

lemma handleScrollXY_ok: "axis_ok sk v \<Longrightarrow> pos_ok sk (snd (handleScrollXY sk rnd f x y v))"
  using sv_same_frame [OF handleScrollXY_same [of v sk rnd f x y], of sk]
    handleScrollXY_same [of v sk rnd f x y]
  by (auto simp: pos_ok_def handleScrollXY_pos axis_ok_def sv_same_def split: prod.splits)

lemma handleScrollTo_ok: "axis_ok sk v \<Longrightarrow> pos_ok sk (snd (handleScrollTo sk rnd d c v))"
  by (simp add: handleScrollTo_def Let_def handleScrollXY_ok split: prod.splits)

lemma handleScroll_ok:
  assumes "0 \<le> x" "x \<le> max 0 (fst (sv_content v) - sv_frameW sk v)"
    and "0 \<le> y" "y \<le> max 0 (snd (sv_content v) - sv_frameH sk v)"
  shows "pos_ok sk (snd (handleScroll rnd f (x, y) v))"
  using assms sv_same_frame [OF handleScroll_same [of v rnd f "(x, y)"], of sk]
    handleScroll_same [of v rnd f "(x, y)"]
  by (auto simp: pos_ok_def sv_same_def split: prod.splits)

lemma trunc_half_nonneg: "0 \<le> n \<Longrightarrow> 0 \<le> trunc (of_int n / 2)"
  by (simp add: trunc_def)

lemma calculateNext_bounds:
  assumes "0 \<le> view" and "0 \<le> off" and "off \<le> max 0 (content - view)"
    and "forward \<longrightarrow> view < content - off"
  shows "0 \<le> calculateNextScrollOffset paging forward content view off"
    and "calculateNextScrollOffset paging forward content view off \<le> max 0 (content - view)"
  using assms trunc_half_nonneg [OF assms(1)]
  by (auto simp: calculateNextScrollOffset_def Let_def)

lemma getNext_ok:
  assumes "axis_ok sk v" and "pos_ok sk v" and "canScrollInDirection sk d v"
  shows "pos_ok sk (snd (handleScroll rnd f (getNextScrollPosition sk d v) v))"
proof -
  obtain x y cw ch where v: "sv_pos v = (x, y)" "sv_content v = (cw, ch)"
    by (cases "sv_pos v"; cases "sv_content v")
  from assms(2) have p: "0 \<le> x" "x \<le> max 0 (cw - sv_frameW sk v)" "0 \<le> y" "y \<le> max 0 (ch - sv_frameH sk v)"
    by (simp_all add: pos_ok_def v)
  from assms(1) have f: "0 \<le> sv_frameW sk v" "0 \<le> sv_frameH sk v" by (simp_all add: axis_ok_def)
  from assms(3) consider
    "d = RNS_KEY_Right" "sv_frameW sk v < cw - x" | "d = RNS_KEY_Left"
    | "d = RNS_KEY_Down" "sv_frameH sk v < ch - y" | "d = RNS_KEY_Up"
    by (auto simp: canScrollInDirection_def v Let_def split: if_splits)
  then show ?thesis
  proof cases
    case 1
    then show ?thesis
      using calculateNext_bounds [OF f(1) p(1,2)] p
      by (auto simp: getNextScrollPosition_def v intro!: handleScroll_ok)
  next
    case 2
    then show ?thesis
      using calculateNext_bounds [OF f(1) p(1,2), of False] p
      by (auto simp: getNextScrollPosition_def v intro!: handleScroll_ok)
  next
    case 3
    then show ?thesis
      using calculateNext_bounds [OF f(2) p(3,4)] p
      by (auto simp: getNextScrollPosition_def v intro!: handleScroll_ok)
  next
    case 4
    then show ?thesis
      using calculateNext_bounds [OF f(2) p(3,4), of False] p
      by (auto simp: getNextScrollPosition_def v intro!: handleScroll_ok)
  qed
qed

lemma first_above_mem: "first_above x xs = Some o' \<Longrightarrow> o' \<in> set xs \<and> x < o'"
  by (auto simp: first_above_def find_Some_iff)

lemma last_below_mem: "last_below x xs = Some o' \<Longrightarrow> o' \<in> set xs \<and> o' < x"
proof -
  assume h: "last_below x xs = Some o'"
  then have "takeWhile (\<lambda>o'. o' < x) xs \<noteq> []" and "o' = last (takeWhile (\<lambda>o'. o' < x) xs)"
    by (auto simp: last_below_def split: list.splits)
  then have "o' \<in> set (takeWhile (\<lambda>o'. o' < x) xs)" by simp
  then show ?thesis using set_takeWhileD by fast
qed

lemma snap_offsets_mem:
  assumes "snap_offsets sk cand v = (c, n, l, st)"
  shows "n = (if isHorizontalScroll v then fst (sv_pos v) else snd (sv_pos v)) \<or> n \<in> set (snapToOffsets v)"
    and "l = -1 \<or> l \<in> set (snapToOffsets v)"
  using assms first_above_mem last_below_mem [of c "snapToOffsets v"]
  by (auto simp: snap_offsets_def Let_def split: option.splits)

lemma snap_ok_scroll:
  assumes "axis_ok sk v" and "pos_ok sk v" and "snap_ok sk v" and "canScrollInDirection sk d v"
  shows "pos_ok sk (snd (handleSnapToOffsetScroll sk rnd d cand v))"
proof -
  obtain x y cw ch where v: "sv_pos v = (x, y)" "sv_content v = (cw, ch)"
    by (cases "sv_pos v"; cases "sv_content v")
  obtain c n l st where offs: "snap_offsets sk cand v = (c, n, l, st)" by (metis prod_cases4)
  note mem = snap_offsets_mem [OF offs]
  from assms(2) have p: "0 \<le> x" "x \<le> max 0 (cw - sv_frameW sk v)" "0 \<le> y" "y \<le> max 0 (ch - sv_frameH sk v)"
    by (simp_all add: pos_ok_def v)
  show ?thesis
  proof (cases "isHorizontalScroll v")
    case True
    with assms(1,4) have range: "sv_frameW sk v \<le> cw" and d: "d = RNS_KEY_Right \<or> d = RNS_KEY_Left"
      by (auto simp: axis_ok_def canScrollInDirection_def v Let_def split: if_splits)
    have move: "pos_ok sk (snd (handleScroll rnd True (q, y) v))" if "0 \<le> q" "q \<le> cw - sv_frameW sk v" for q
      using that p v by (intro handleScroll_ok) auto
    have snap: "0 \<le> q \<and> q \<le> cw - sv_frameW sk v" if "q \<in> set (snapToOffsets v)" for q
      using that assms(3) True by (auto simp: snap_ok_def v)
    have "0 \<le> n \<and> n \<le> cw - sv_frameW sk v" using mem(1) snap [of n] p range True by (auto simp: v)
    moreover have "l = -1 \<or> 0 \<le> l \<and> l \<le> cw - sv_frameW sk v" using mem(2) snap [of l] by blast
    ultimately show ?thesis
      using d move [of n] move [of l] move [of "cw - sv_frameW sk v"] range assms(2) True
      by (auto simp: handleSnapToOffsetScroll_def v offs Let_def)
  next
    case False
    with assms(1,4) have range: "sv_frameH sk v \<le> ch" and d: "d = RNS_KEY_Down \<or> d = RNS_KEY_Up"
      by (auto simp: axis_ok_def canScrollInDirection_def v Let_def split: if_splits)
    have move: "pos_ok sk (snd (handleScroll rnd True (x, q) v))" if "0 \<le> q" "q \<le> ch - sv_frameH sk v" for q
      using that p v by (intro handleScroll_ok) auto
    have snap: "0 \<le> q \<and> q \<le> ch - sv_frameH sk v" if "q \<in> set (snapToOffsets v)" for q
      using that assms(3) False by (auto simp: snap_ok_def v)
    have "0 \<le> n \<and> n \<le> ch - sv_frameH sk v" using mem(1) snap [of n] p range False by (auto simp: v)
    moreover have "l = -1 \<or> 0 \<le> l \<and> l \<le> ch - sv_frameH sk v" using mem(2) snap [of l] by blast
    ultimately show ?thesis
      using d move [of n] move [of l] move [of "ch - sv_frameH sk v"] range assms(2) False
      by (auto simp: handleSnapToOffsetScroll_def v offs Let_def)
  qed
qed

lemma scrollInDirection_ok:
  assumes "axis_ok sk v" and "pos_ok sk v" and "snap_ok sk v"
  shows "pos_ok sk (snd (scrollInDirection sk rnd cand d v))"
  using assms snap_ok_scroll [OF assms, of d rnd cand] getNext_ok [OF assms(1,2), of d rnd True]
    handleScrollTo_ok [OF assms(1)]
  by (auto simp: scrollInDirection_def Let_def split: option.splits)

lemma scrollTo_ok: "axis_ok sk v \<Longrightarrow> pos_ok sk v \<Longrightarrow> pos_ok sk (snd (scrollTo sk rnd cand v))"
  by (auto simp: scrollTo_def handleScrollTo_ok split: option.splits)

lemma handleCommand_ok:
  assumes "axis_ok sk v" and "pos_ok sk v" and "sv_handleCommand sk rnd name args v = Some v'"
  shows "pos_ok sk v'"
proof -
  obtain cw ch where v: "sv_content v = (cw, ch)" by (cases "sv_content v")
  have to_end: "pos_ok sk (snd (handleScroll rnd True
      (if isHorizontalScroll v then (cw - sv_frameW sk v, 0) else (0, ch - sv_frameH sk v)) v))"
    if "isHorizontalScroll v \<or> \<not> ch \<le> sv_frameH sk v"
    using that assms(1) by (auto simp: axis_ok_def v intro!: handleScroll_ok)
  have flash: "pos_ok sk (fadeOutScrollBar (sv_emit FlushRequired
      (sv_bar (showScrollBar True) (sv_emit FlushBegin v))))"
    using assms(2) by (simp add: pos_ok_def fadeOutScrollBar_def sv_emit_def sv_bar_def
      sv_frameW_def sv_frameH_def)
  show ?thesis
    using assms to_end flash handleScrollXY_ok [OF assms(1)]
    by (auto simp: sv_handleCommand_def v Let_def split: if_splits bind_splits)
qed

text \<open>A new content size: the direction is computed again and the position is clamped.\<close>

lemma updateState_ok:
  assumes "axis_ok sk v" and "pos_ok sk v" and "0 \<le> fst sz"
    and "sv_updateComponentState sk rnd sz v = (r, v')"
  shows "pos_ok sk v' \<and> axis_ok sk v'"
proof (cases "sv_content v = sz")
  case True
  with assms show ?thesis
    by (auto simp: sv_updateComponentState_def setContentSize_def Let_def split: prod.splits)
next
  case False
  let ?v1 = "v\<lparr>sv_layer := snd (setContentSize sk rnd sz (sv_layer v))\<rparr>"
  let ?hor = "fst sz > sv_frameW sk v"
  have c: "sv_content ?v1 = sz" "layer_frame (sv_layer ?v1) = layer_frame (sv_layer v)"
    "isHorizontalScroll ?v1 = isHorizontalScroll v"
    using False by (simp_all add: setContentSize_def)
  obtain w x y where "v' = updateScrollOffset sk rnd x y w" and w: "sv_content w = sz"
    "layer_frame (sv_layer w) = layer_frame (sv_layer v)" "isHorizontalScroll w = ?hor"
    using assms(4) False c
    by (auto simp: sv_updateComponentState_def setContentSize_def sv_bar_def sv_frameW_def Let_def
      split: if_splits)
  then have v': "v' = snd (handleScrollXY sk rnd False x y w)" by (simp add: updateScrollOffset_def)
  have fr: "sv_frameW sk w = sv_frameW sk v" "sv_frameH sk w = sv_frameH sk v"
    using w(2) by (simp_all add: sv_frameW_def sv_frameH_def)
  have axis: "axis_ok sk w" using assms(1) w fr by (simp add: axis_ok_def)
  with handleScrollXY_same [of w sk rnd False x y] sv_same_frame [OF handleScrollXY_same [of w sk rnd False x y], of sk]
  have "axis_ok sk v'" by (auto simp: v' axis_ok_def sv_same_def)
  with handleScrollXY_ok [OF axis] v' show ?thesis by simp
qed

text \<open>New properties: a moved content offset is clamped like any other position.\<close>

lemma updateProps_ok:
  assumes "axis_ok sk v" and "pos_ok sk v"
    and "sv_updateComponentProps sk rnd force old new v = (r, v')"
  shows "pos_ok sk v' \<and> axis_ok sk v'"
proof -
  obtain ox oy il it ir ib where o: "p_contentOffset new = (ox, oy)"
    and i: "p_indicatorInsets new = (il, it, ir, ib)"
    by (metis prod_cases3 surj_pair)
  let ?v1 = "v\<lparr>scrollEnabled := p_scrollEnabled new, pagingEnabled := p_pagingEnabled new,
      snapToOffsets := sort (map trunc (p_snapToOffsets new))\<rparr>"
  let ?w = "?v1\<lparr>contentOffset := (ox, oy)\<rparr>"
  let ?m = "updateScrollOffset sk rnd (trunc ox) (trunc oy) ?w"
  have axis: "axis_ok sk ?v1" "axis_ok sk ?w" and pos: "pos_ok sk ?v1"
    using assms(1,2) by (simp_all add: axis_ok_def pos_ok_def sv_frameW_def sv_frameH_def)
  have m: "pos_ok sk ?m" "axis_ok sk ?m"
    using handleScrollXY_ok [OF axis(2)] handleScrollXY_same [of ?w sk rnd False "trunc ox" "trunc oy"] axis(2)
      sv_same_frame [OF handleScrollXY_same [of ?w sk rnd False "trunc ox" "trunc oy"], of sk]
    by (auto simp: updateScrollOffset_def axis_ok_def sv_same_def)
  obtain u where u: "pos_ok sk u" "axis_ok sk u" and l: "sv_content v' = sv_content u" "sv_pos v' = sv_pos u"
    "layer_frame (sv_layer v') = layer_frame (sv_layer u)" "isHorizontalScroll v' = isHorizontalScroll u"
  proof (cases "force \<or> p_contentOffset old \<noteq> p_contentOffset new")
    case True
    show thesis using True assms(3) o i
      by (intro that [OF m]) (auto simp: sv_updateComponentProps_def Let_def sv_bar_def split: if_splits)
  next
    case False
    show thesis using False assms(3) o i
      by (intro that [OF pos axis(1)]) (auto simp: sv_updateComponentProps_def Let_def sv_bar_def split: if_splits)
  qed
  have "sv_frameW sk v' = sv_frameW sk u" "sv_frameH sk v' = sv_frameH sk u"
    by (simp_all add: sv_frameW_def sv_frameH_def l)
  with u show ?thesis by (simp add: pos_ok_def axis_ok_def l)
qed

lemma handleSnap_same [simp]: "sv_same v (snd (handleSnapToOffsetScroll sk rnd d cand v))"
  by (simp add: handleSnapToOffsetScroll_def Let_def split: prod.splits)

lemma scrollInDirection_same: "sv_same v (snd (scrollInDirection sk rnd cand d v))"
  by (simp add: scrollInDirection_def Let_def split: option.splits)

lemma scrollTo_same: "sv_same v (snd (scrollTo sk rnd cand v))"
  by (simp add: scrollTo_def split: option.splits)

lemma handleCommand_same: "sv_handleCommand sk rnd name args v = Some v' \<Longrightarrow> sv_same v v'"
proof -
  have "sv_same v (fadeOutScrollBar (sv_emit FlushRequired
      (sv_bar (showScrollBar True) (sv_emit FlushBegin v))))"
    by (simp add: sv_same_def fadeOutScrollBar_def sv_emit_def sv_bar_def)
  then show "sv_handleCommand sk rnd name args v = Some v' \<Longrightarrow> sv_same v v'"
    by (auto simp: sv_handleCommand_def Let_def split: if_splits bind_splits prod.splits)
qed

lemma sv_same_axis: "sv_same v v' \<Longrightarrow> axis_ok sk v \<Longrightarrow> axis_ok sk v'"
  using sv_same_frame [of v v' sk] by (simp add: axis_ok_def sv_same_def)

section \<open>The machine\<close>

datatype sv_op =
    ScrollKey "sk_irect option" rnsKey
  | ScrollInto "sk_irect option"
  | Command string "dyn list"
  | NewState "int \<times> int"
  | NewProps bool scroll_props scroll_props
  | BarTimer

fun sv_step :: "sk_rect_api \<Rightarrow> (scalar \<Rightarrow> int) \<Rightarrow> scroll_view \<Rightarrow> sv_op \<Rightarrow> scroll_view option" where
  "sv_step sk rnd v (ScrollKey cand d) = Some (snd (scrollInDirection sk rnd cand d v))"
| "sv_step sk rnd v (ScrollInto cand) = Some (snd (scrollTo sk rnd cand v))"
| "sv_step sk rnd v (Command name args) = sv_handleCommand sk rnd name args v"
| "sv_step sk rnd v (NewState sz) = Some (snd (sv_updateComponentState sk rnd sz v))"
| "sv_step sk rnd v (NewProps force old new) =
     Some (snd (sv_updateComponentProps sk rnd force old new v))"
| "sv_step sk rnd v BarTimer = Some (hideScrollBar v)"

section \<open>Repeated scrolling\<close>

definition press_down :: "sk_rect_api \<Rightarrow> (scalar \<Rightarrow> int) \<Rightarrow> scroll_view \<Rightarrow> scroll_view" where
  "press_down sk rnd v = snd (scrollInDirection sk rnd None RNS_KEY_Down v)"

lemma press_down_pos:
  assumes "snapToOffsets v = []" and "scrollEnabled v" and "\<not> isHorizontalScroll v"
    and "sv_frameH sk v < snd (sv_content v) - snd (sv_pos v)" and "0 \<le> snd (sv_pos v)"
  shows "sv_pos (press_down sk rnd v) = (fst (sv_pos v),
    calculateNextScrollOffset (pagingEnabled v) True (snd (sv_content v)) (sv_frameH sk v) (snd (sv_pos v)))"
  using assms
  by (cases "sv_pos v"; cases "sv_content v")
    (simp add: press_down_def scrollInDirection_def canScrollInDirection_def getNextScrollPosition_def Let_def)

text \<open>The default step is not zero.\<close>

definition step_ok :: "sk_rect_api \<Rightarrow> scroll_view \<Rightarrow> bool" where
  "step_ok sk v \<longleftrightarrow> (if pagingEnabled v then 1 \<le> sv_frameH sk v else 2 \<le> sv_frameH sk v)"

lemma half_pos: "2 \<le> n \<Longrightarrow> 1 \<le> trunc (of_int n / 2)"
  using trunc_mono [of 1 "of_int n / 2"] trunc_of_int [of 1] by simp

lemma next_forward:
  assumes "if paging then 1 \<le> view else 2 \<le> view" and "view < content - off"
  shows "off < calculateNextScrollOffset paging True content view off"
    and "calculateNextScrollOffset paging True content view off \<le> content - view"
  using assms half_pos [of view] by (auto simp: calculateNextScrollOffset_def Let_def split: if_splits)

lemma press_down_reaches:
  "snapToOffsets v = [] \<Longrightarrow> scrollEnabled v \<Longrightarrow> \<not> isHorizontalScroll v \<Longrightarrow> step_ok sk v \<Longrightarrow>
   0 \<le> snd (sv_pos v) \<Longrightarrow> snd (sv_pos v) \<le> snd (sv_content v) - sv_frameH sk v \<Longrightarrow>
   \<exists>n. snd (sv_pos ((press_down sk rnd ^^ n) v)) = snd (sv_content v) - sv_frameH sk v"
proof (induction "nat (snd (sv_content v) - sv_frameH sk v - snd (sv_pos v))" arbitrary: v
    rule: less_induct)
  case less
  show ?case
  proof (cases "snd (sv_pos v) = snd (sv_content v) - sv_frameH sk v")
    case True
    then show ?thesis by (intro exI [of _ 0]) simp
  next
    case False
    with less.prems have lt: "sv_frameH sk v < snd (sv_content v) - snd (sv_pos v)" by simp
    let ?v = "press_down sk rnd v"
    note pos = press_down_pos [OF less.prems(1-3) lt less.prems(5), of rnd]
    have same: "sv_same v ?v" unfolding press_down_def by (rule scrollInDirection_same)
    note fr = sv_same_frame(2) [OF same, of sk]
    from less.prems(4) have "if pagingEnabled v then 1 \<le> sv_frameH sk v else 2 \<le> sv_frameH sk v"
      by (simp add: step_ok_def)
    note fwd = next_forward [OF this lt]
    have "\<exists>n. snd (sv_pos ((press_down sk rnd ^^ n) ?v)) = snd (sv_content ?v) - sv_frameH sk ?v"
      using less.prems same fr fwd lt pos
      by (intro less.hyps) (auto simp: sv_same_def step_ok_def)
    then obtain n where "snd (sv_pos ((press_down sk rnd ^^ n) ?v)) = snd (sv_content v) - sv_frameH sk v"
      using same fr by (auto simp: sv_same_def)
    then show ?thesis by (intro exI [of _ "Suc n"]) (simp add: funpow_swap1)
  qed
qed

section \<open>Properties\<close>

text \<open>What an operation is asked to bring: a content width that is not negative, and, for scrolling
  by key only, offsets to snap to that are scroll positions.\<close>

definition sv_op_ok :: "sk_rect_api \<Rightarrow> scroll_view \<Rightarrow> sv_op \<Rightarrow> bool" where
  "sv_op_ok sk v op \<longleftrightarrow> (case op of NewState sz \<Rightarrow> 0 \<le> fst sz | ScrollKey cand d \<Rightarrow> snap_ok sk v | _ \<Rightarrow> True)"

text \<open>C13: While the frame of a scroll view stays as it is, no operation scrolls past the content:
  scrolling by key with or without paging or snapping, scrolling a component into view, a command,
  new properties, a new content size or the timer of the scroll bar leaves the scroll position
  between zero and the content less the frame in both directions. The view must start at such a
  position, with content at least as wide as the frame when it scrolls horizontally (which is kept);
  a new content width must not be negative, and when a key scrolls, the offsets to snap to must be
  scroll positions themselves. A change of the frame is not covered:
  \<open>horizontal_position_negative\<close> shows the position a frame wider than the content leads to.\<close>

theorem scroll_position_in_content:
  assumes "pos_ok sk v" and "axis_ok sk v" and "sv_op_ok sk v op"
    and "sv_step sk rnd v op = Some v'"
  shows "pos_ok sk v' \<and> axis_ok sk v'"
proof (cases op)
  case (ScrollKey cand d)
  with assms(3) have "snap_ok sk v" by (simp add: sv_op_ok_def)
  from ScrollKey assms scrollInDirection_ok [OF assms(2,1) this, of rnd cand d]
    sv_same_axis [OF scrollInDirection_same [of v sk rnd cand d] assms(2)] show ?thesis by auto
next
  case (ScrollInto cand)
  with assms scrollTo_ok [OF assms(2,1), of rnd cand]
    sv_same_axis [OF scrollTo_same [of v sk rnd cand] assms(2)] show ?thesis by auto
next
  case (Command name args)
  with assms handleCommand_ok [OF assms(2,1)] sv_same_axis [OF handleCommand_same assms(2)]
  show ?thesis by auto
next
  case (NewState sz)
  with assms updateState_ok [OF assms(2,1), of sz rnd] show ?thesis
    by (cases "sv_updateComponentState sk rnd sz v") (auto simp: sv_op_ok_def)
next
  case (NewProps force old new)
  with assms(4) updateProps_ok [OF assms(2,1), of rnd force old new] show ?thesis
    by (cases "sv_updateComponentProps sk rnd force old new v") auto
next
  case BarTimer
  with assms show ?thesis
    by (auto simp: hideScrollBar_def pos_ok_def axis_ok_def sv_emit_def sv_bar_def sv_frameW_def
      sv_frameH_def)
qed

text \<open>A vertical view of 400 by 300 with content of 400 by 1000, for the witnesses.\<close>

definition sv_sample :: scroll_view where
  "sv_sample = scroll_view_init\<lparr>sv_layer := scroll_layer_init\<lparr>layer_frame :=
     \<lparr>fLeft = 0, fTop = 0, fRight = 400, fBottom = 300\<rparr>, contentSize := (400, 1000)\<rparr>\<rparr>"

lemma sv_sample:
  "sv_frameW sk_rect_ref sv_sample = 400" "sv_frameH sk_rect_ref sv_sample = 300"
  "sv_content sv_sample = (400, 1000)" "sv_pos sv_sample = (0, 0)" "\<not> isHorizontalScroll sv_sample"
  "snapToOffsets sv_sample = []" "scrollEnabled sv_sample" "\<not> pagingEnabled sv_sample"
  by (simp_all add: sv_sample_def scroll_view_init_def scroll_layer_init_def sv_frameW_def
    sv_frameH_def sk_width sk_height wrap32_id int32_def)

theorem scroll_position_in_content_witness:
  "\<exists>v'. sv_step sk_rect_ref round sv_sample (Command ''scrollTo'' [DDouble 0, DDouble 5000, DBool False]) =
      Some v' \<and> pos_ok sk_rect_ref v' \<and> axis_ok sk_rect_ref v'"
proof -
  have "\<exists>v'. sv_step sk_rect_ref round sv_sample
      (Command ''scrollTo'' [DDouble 0, DDouble 5000, DBool False]) = Some v'"
    by (simp add: sv_handleCommand_def Let_def split: prod.splits)
  then obtain v' where step: "sv_step sk_rect_ref round sv_sample
      (Command ''scrollTo'' [DDouble 0, DDouble 5000, DBool False]) = Some v'" by blast
  from scroll_position_in_content [OF _ _ _ step] step show ?thesis
    by (auto simp: pos_ok_def axis_ok_def sv_op_ok_def sv_sample)
qed

text \<open>Scrolling to a component makes it visible: for a component inside the content whose frame
  fits the view along the scroll axis and lies inside it across the axis, \<open>scrollTo\<close> ends with a
  position at which the whole frame is visible.\<close>

theorem scrollTo_makes_visible:
  assumes laws: "sk_rect_laws sk" and "axis_ok sk v" and c: "\<not> irect_empty c"
    and "0 \<le> fLeft c" and "0 \<le> fTop c"
    and "if isHorizontalScroll v
      then fRight c \<le> fst (sv_content v) \<and> fBottom c \<le> sv_frameH sk v \<and> fRight c - fLeft c \<le> sv_frameW sk v
      else fBottom c \<le> snd (sv_content v) \<and> fRight c \<le> sv_frameW sk v \<and> fBottom c - fTop c \<le> sv_frameH sk v"
    and "int32 (fst (sv_content v))" and "int32 (snd (sv_content v))"
    and "int32 (sv_frameW sk v)" and "int32 (sv_frameH sk v)"
  shows "isVisible sk c (snd (scrollTo sk rnd (Some c) v))"
proof (cases "isVisible sk c v")
  case True
  then show ?thesis by (simp add: scrollTo_def)
next
  case False
  obtain x y cw ch where v: "sv_pos v = (x, y)" "sv_content v = (cw, ch)"
    by (cases "sv_pos v"; cases "sv_content v")
  let ?v = "snd (scrollTo sk rnd (Some c) v)"
  let ?fw = "sv_frameW sk v" and ?fh = "sv_frameH sk v"
  have same: "sv_same v ?v" by (rule scrollTo_same)
  note fr = sv_same_frame [OF same, of sk]
  have vis: "isVisible sk c ?v" if "sv_pos ?v = (px, py)" "px + ?fw \<le> max cw ?fw" "py + ?fh \<le> max ch ?fh"
    "0 \<le> px" "0 \<le> py" "px \<le> fLeft c" "py \<le> fTop c" "fRight c \<le> px + ?fw" "fBottom c \<le> py + ?fh" for px py
  proof -
    from that(2-5) assms(2,7-10) have "int32 (px + ?fw)" "int32 (py + ?fh)"
      by (auto simp: v int32_def axis_ok_def)
    from sk_makeXYWH [OF laws this] that c show ?thesis
      by (auto simp: isVisible_def fr sk_contains [OF laws] covers_def irect_empty_def)
  qed
  show ?thesis
  proof (cases "isHorizontalScroll v")
    case True
    with False assms(2,4,5,6) have
      "sv_pos ?v = (if fLeft c < x then min (max 0 (fLeft c)) (cw - ?fw)
         else min (max 0 (fRight c - ?fw)) (cw - ?fw), 0)" and "?fw \<le> cw"
      by (auto simp: scrollTo_def handleScrollTo_def handleScrollXY_pos v axis_ok_def Let_def)
    with True assms(2,4,5,6) show ?thesis
      by (intro vis [of "if fLeft c < x then min (max 0 (fLeft c)) (cw - ?fw)
         else min (max 0 (fRight c - ?fw)) (cw - ?fw)" 0]) (auto simp: v axis_ok_def)
  next
    case hor: False
    with False have
      "sv_pos ?v = (0, if ch \<le> ?fh then 0 else min (max 0 (if fTop c < y then fTop c else fBottom c - ?fh)) (ch - ?fh))"
      by (auto simp: scrollTo_def handleScrollTo_def handleScrollXY_pos v Let_def)
    with hor assms(2,4,5,6) show ?thesis
      by (intro vis [of 0 "if ch \<le> ?fh then 0 else min (max 0 (if fTop c < y then fTop c else fBottom c - ?fh)) (ch - ?fh)"])
        (auto simp: v axis_ok_def)
  qed
qed

theorem scrollTo_makes_visible_witness:
  "isVisible sk_rect_ref \<lparr>fLeft = 10, fTop = 800, fRight = 110, fBottom = 900\<rparr>
     (snd (scrollTo sk_rect_ref round (Some \<lparr>fLeft = 10, fTop = 800, fRight = 110, fBottom = 900\<rparr>) sv_sample))"
  by (rule scrollTo_makes_visible) (simp_all add: sv_sample axis_ok_def irect_empty_def int32_def)

text \<open>Pressing the down key repeatedly reaches the end of the content of a vertical view without
  snapping: after finitely many presses the position is the content height less the frame height,
  when the view is at least two units high (one with paging).\<close>

theorem scroll_down_reaches_end:
  assumes "snapToOffsets v = []" and "scrollEnabled v" and "\<not> isHorizontalScroll v"
    and "step_ok sk v" and "pos_ok sk v" and "sv_frameH sk v \<le> snd (sv_content v)"
  shows "\<exists>n. snd (sv_pos ((press_down sk rnd ^^ n) v)) = snd (sv_content v) - sv_frameH sk v"
  using assms(5,6) by (intro press_down_reaches [OF assms(1-4)]) (auto simp: pos_ok_def split: prod.splits)

theorem scroll_down_reaches_end_witness:
  "\<exists>n. snd (sv_pos ((press_down sk_rect_ref round ^^ n) sv_sample)) = 700"
  using scroll_down_reaches_end [of sv_sample sk_rect_ref round]
  by (simp add: sv_sample step_ok_def pos_ok_def)

text \<open>A horizontal view whose frame has grown past its content scrolls to a negative position: the
  clamp of the horizontal branch has no counterpart of the vertical branch's test for content that
  fits the frame.\<close>

theorem horizontal_position_negative:
  assumes "isHorizontalScroll v" and "fst (sv_content v) < sv_frameW sk v"
  shows "fst (sv_pos (snd (handleScrollXY sk rnd f x y v))) < 0"
  using assms by (simp add: handleScrollXY_pos)

theorem horizontal_position_negative_witness:
  "fst (sv_pos (snd (handleScrollXY sk_rect_ref round True 0 0
     (sv_sample\<lparr>isHorizontalScroll := True, sv_layer := (sv_layer sv_sample)\<lparr>contentSize := (300, 300)\<rparr>\<rparr>)))) < 0"
  by (rule horizontal_position_negative)
    (simp_all add: sv_sample_def scroll_view_init_def scroll_layer_init_def sv_frameW_def sk_width
      wrap32_id int32_def)

end
