(* ===== verification/Components.thy ===== *)
theory Components imports ScrollView begin

text \<open>
  The component tree and the lists of focusable components: the parts of
  \<open>components/RSkComponent.h\<close> and \<open>.cpp\<close> that keep parents and focus, the container operations
  of \<open>core_modules/RSkSpatialNavigatorContainer.cpp\<close>, and the mounting of views by
  \<open>MountingManager.cpp\<close> with the registry of \<open>RSkComponentProvider.h\<close>.

  \<^item> A component has an address; \<open>heap\<close> maps addresses to live components. A null pointer or a
    pointer to a component that was deleted is not in the heap, and using it is a fault, \<open>None\<close>.
  \<^item> A focusable component is listed by its nearest ancestor that is a container. A view that is
    mounted below a view without a container is listed by that view, and the list is merged into
    the container's when the view is mounted itself.
  \<^item> \<open>notices\<close> records the focus and blur notifications, \<open>pendingFocus\<close> the components that asked
    for the focus with \<open>setNeedFocusUpdate\<close> and wait for the main loop.
  \<^item> \<open>c_preferredFocus\<close> is \<open>commonProps.hasTVPreferredFocus\<close>, which the constructor leaves
    uninitialised: \<open>None\<close> until the first update sets it, and reading it before is a fault.
    \<open>c_props\<close> is the pointer to the view properties, null for the root view that \<open>RNInstance\<close> makes.

  Layers are not modelled here; the absolute frame a layer computes is a field. The properties and
  the state of a scroll view itself are updated by the functions of \<open>ScrollView\<close>.

  The lemmas about these definitions are in \<open>Mounting\<close>.
\<close>

section \<open>State\<close>

type_synonym cid = nat

datatype comp_kind = ViewKind | RootKind | UnimplementedKind | ScrollKind scroll_view

record view_props =
  vp_zIndex :: "int option"
  isTVSelectable :: bool
  focusable :: bool
  hasTVPreferredFocus :: bool

record comp =
  c_tag :: int
  c_kind :: comp_kind
  c_parent :: "cid option"
  c_absFrame :: sk_irect
  c_zIndex :: int
  c_preferredFocus :: "bool option"
  c_props :: "view_props option"
  c_navList :: "cid list"

record view_data =
  v_handle :: nat
  v_tag :: int
  v_props :: "view_props option"

datatype nav_notice = Blur int | Focus int | HandleBlur cid | HandleFocus cid

record nav =
  heap :: "cid \<Rightarrow> comp option"
  nextCid :: cid
  registry :: "nat \<Rightarrow> int \<Rightarrow> cid option"
  providers :: "nat \<Rightarrow> comp_kind option"
  rootComp :: "cid option"
  currentFocus :: "cid option"
  currentContainer :: "cid option"
  rootContainer :: "cid option"
  pendingFocus :: "cid list"
  notices :: "nav_notice list"

definition nav_init :: "(nat \<Rightarrow> comp_kind option) \<Rightarrow> nav" where
  "nav_init ps = \<lparr>heap = (\<lambda>_. None), nextCid = 0, registry = (\<lambda>_ _. None), providers = ps,
     rootComp = None, currentFocus = None, currentContainer = None, rootContainer = None,
     pendingFocus = [], notices = []\<rparr>"

definition put_comp :: "cid \<Rightarrow> comp \<Rightarrow> nav \<Rightarrow> nav" where
  "put_comp c k s = s\<lparr>heap := (heap s)(c := Some k)\<rparr>"

definition notify :: "nav_notice \<Rightarrow> nav \<Rightarrow> nav" where
  "notify n s = s\<lparr>notices := notices s @ [n]\<rparr>"

section \<open>Virtual functions\<close>

fun container_kind :: "comp_kind \<Rightarrow> bool" where
  "container_kind RootKind = True"
| "container_kind (ScrollKind v) = True"
| "container_kind _ = False"

definition isContainer :: "comp \<Rightarrow> bool" where
  "isContainer k = container_kind (c_kind k)"

definition isScrollable :: "comp \<Rightarrow> bool" where
  "isScrollable k = (case c_kind k of ScrollKind _ \<Rightarrow> True | _ \<Rightarrow> False)"

definition isFocusable :: "comp \<Rightarrow> bool option" where
  "isFocusable k = do {
     p \<leftarrow> c_props k;
     Some (isTVSelectable p \<or> focusable p \<or> isContainer k)
   }"

text \<open>\<open>container->isVisible(candidate)\<close>, for the absolute frame of a candidate.\<close>

definition comp_isVisible :: "sk_rect_api \<Rightarrow> comp \<Rightarrow> sk_irect \<Rightarrow> bool" where
  "comp_isVisible sk k frame =
     (case c_kind k of
        ScrollKind v \<Rightarrow> isVisible sk frame v
      | RootKind \<Rightarrow> irect_contains sk (c_absFrame k) frame
      | UnimplementedKind \<Rightarrow> irect_contains sk (c_absFrame k) frame
      | ViewKind \<Rightarrow> False)"

section \<open>Walking up the tree\<close>

partial_function (option) nearestAncestorContainer ::
  "(cid \<Rightarrow> comp option) \<Rightarrow> cid \<Rightarrow> cid option option" where
  "nearestAncestorContainer h c = do {
     k \<leftarrow> h c;
     case c_parent k of
       None \<Rightarrow> Some None
     | Some p \<Rightarrow> do {
         pk \<leftarrow> h p;
         if isContainer pk then Some (Some p) else nearestAncestorContainer h p
       }
   }"

partial_function (option) hasAncestor :: "(cid \<Rightarrow> comp option) \<Rightarrow> cid \<Rightarrow> cid \<Rightarrow> bool option" where
  "hasAncestor h c a = do {
     k \<leftarrow> h c;
     case c_parent k of
       None \<Rightarrow> Some False
     | Some p \<Rightarrow> do {
         pk \<leftarrow> h p;
         if isContainer pk \<and> p = a then Some True else hasAncestor h p a
       }
   }"

text \<open>The frame on the screen: the absolute frame, moved by every scroll view above it.\<close>

partial_function (option) getScreenFrame ::
  "sk_rect_api \<Rightarrow> (cid \<Rightarrow> comp option) \<Rightarrow> cid \<Rightarrow> sk_irect option" where
  "getScreenFrame sk h c = do {
     k \<leftarrow> h c;
     a \<leftarrow> nearestAncestorContainer h c;
     case a of
       None \<Rightarrow> Some (c_absFrame k)
     | Some p \<Rightarrow> do {
         pk \<leftarrow> h p;
         case c_kind pk of
           ScrollKind v \<Rightarrow> do {
             f \<leftarrow> getScreenFrame sk h p;
             Some (irect_makeOffset sk
               (irect_makeOffset sk (c_absFrame k) (- fst (getScrollOffset v)) (- snd (getScrollOffset v)))
               (fLeft f) (fTop f))
           }
         | _ \<Rightarrow> Some (c_absFrame k)
       }
   }"

declare nearestAncestorContainer.simps [code] hasAncestor.simps [code] getScreenFrame.simps [code]

section \<open>Container operations\<close>

datatype NavigatorStateOperation = ComponentAdded | ComponentRemoved | ComponentUpdated

definition updateSpatialNavigatorState :: "NavigatorStateOperation \<Rightarrow> cid \<Rightarrow> nav \<Rightarrow> nav option" where
  "updateSpatialNavigatorState op c s = do {
     k \<leftarrow> heap s c;
     Some (case op of
         ComponentAdded \<Rightarrow> s
       | _ \<Rightarrow> if currentFocus s = Some c then (notify (Blur (c_tag k)) s)\<lparr>currentFocus := None\<rparr> else s)
   }"

definition addComponent :: "cid \<Rightarrow> cid \<Rightarrow> nav \<Rightarrow> nav option" where
  "addComponent cont c s = do {
     k \<leftarrow> heap s cont;
     updateSpatialNavigatorState ComponentAdded c (put_comp cont (k\<lparr>c_navList := c_navList k @ [c]\<rparr>) s)
   }"

text \<open>The list is passed by value: clearing it in the callee leaves the child's list as it was.\<close>

definition mergeComponent :: "cid \<Rightarrow> cid list \<Rightarrow> nav \<Rightarrow> nav option" where
  "mergeComponent cont cs s = do {
     k \<leftarrow> heap s cont;
     Some (put_comp cont (k\<lparr>c_navList := c_navList k @ cs\<rparr>) s)
   }"

definition removeComponent :: "cid \<Rightarrow> cid \<Rightarrow> nav \<Rightarrow> nav option" where
  "removeComponent cont c s = do {
     k \<leftarrow> heap s cont;
     if c \<in> set (c_navList k)
     then do {
       s1 \<leftarrow> updateSpatialNavigatorState ComponentRemoved c s;
       Some (put_comp cont (k\<lparr>c_navList := remove1 c (c_navList k)\<rparr>) s1)
     } else Some s
   }"

definition updateComponent :: "cid \<Rightarrow> cid \<Rightarrow> nav \<Rightarrow> nav option" where
  "updateComponent cont c s = do {
     k \<leftarrow> heap s cont;
     ck \<leftarrow> heap s c;
     foc \<leftarrow> isFocusable ck;
     if c \<in> set (c_navList k)
     then (if \<not> foc
           then do {
             s1 \<leftarrow> updateSpatialNavigatorState ComponentUpdated c s;
             Some (put_comp cont (k\<lparr>c_navList := remove1 c (c_navList k)\<rparr>) s1)
           } else Some s)
     else if foc then addComponent cont c s
     else Some s
   }"

section \<open>Mounting\<close>

definition mountChildComponent :: "cid \<Rightarrow> cid \<Rightarrow> nav \<Rightarrow> nav option" where
  "mountChildComponent p c s = do {
     ck \<leftarrow> heap s c;
     let s1 = put_comp c (ck\<lparr>c_parent := Some p\<rparr>) s;
     pk \<leftarrow> heap s1 p;
     cont \<leftarrow> (if isContainer pk then Some p
            else do {
              a \<leftarrow> nearestAncestorContainer (heap s1) p;
              Some (case a of None \<Rightarrow> p | Some q \<Rightarrow> q)
            });
     foc \<leftarrow> isFocusable ck;
     if foc
     then do {
       s2 \<leftarrow> addComponent cont c s1;
       if \<not> isContainer ck \<and> c_navList ck \<noteq> [] then mergeComponent cont (c_navList ck) s2 else Some s2
     }
     else if c_navList ck \<noteq> [] then mergeComponent cont (c_navList ck) s1
     else Some s1
   }"

definition unmountChildComponent :: "cid \<Rightarrow> nav \<Rightarrow> nav option" where
  "unmountChildComponent c s = do {
     ck \<leftarrow> heap s c;
     a \<leftarrow> nearestAncestorContainer (heap s) c;
     s1 \<leftarrow> (case a of
         Some cont \<Rightarrow> do {
           foc \<leftarrow> isFocusable ck;
           if foc then removeComponent cont c s else Some s
         }
       | None \<Rightarrow> Some s);
     ck1 \<leftarrow> heap s1 c;
     Some (put_comp c (ck1\<lparr>c_parent := None\<rparr>) s1)
   }"

definition setNeedFocusUpdate :: "cid \<Rightarrow> nav \<Rightarrow> nav" where
  "setNeedFocusUpdate c s = s\<lparr>pendingFocus := pendingFocus s @ [c]\<rparr>"

text \<open>
  \<open>updateProps\<close>, as far as it touches order and focus: an attribute of \<open>commonProps\<close> is set when the
  update is forced or the property changed. The caller stores the new properties.
\<close>

definition updateProps :: "bool \<Rightarrow> view_props \<Rightarrow> cid \<Rightarrow> nav \<Rightarrow> nav option" where
  "updateProps force new c s = do {
     k \<leftarrow> heap s c;
     old \<leftarrow> c_props k;
     let k1 = (if force \<or> vp_zIndex old \<noteq> vp_zIndex new
               then k\<lparr>c_zIndex := (case vp_zIndex new of Some z \<Rightarrow> z | None \<Rightarrow> 0)\<rparr> else k);
     if force \<or> hasTVPreferredFocus old \<noteq> hasTVPreferredFocus new
     then let s1 = put_comp c (k1\<lparr>c_preferredFocus := Some (hasTVPreferredFocus new)\<rparr>) s
          in Some (if hasTVPreferredFocus new then setNeedFocusUpdate c s1 else s1)
     else Some (put_comp c k1 s)
   }"

definition propsUpdate :: "bool \<Rightarrow> view_data \<Rightarrow> cid \<Rightarrow> nav \<Rightarrow> nav option" where
  "propsUpdate force view c s = do {
     new \<leftarrow> v_props view;
     s1 \<leftarrow> updateProps force new c s;
     k \<leftarrow> heap s1 c;
     let s2 = put_comp c (k\<lparr>c_props := Some new\<rparr>) s1;
     a \<leftarrow> nearestAncestorContainer (heap s2) c;
     case a of Some cont \<Rightarrow> updateComponent cont c s2 | None \<Rightarrow> Some s2
   }"

text \<open>
  \<open>updateComponentData\<close>, as far as it touches focus. \<open>propsMask\<close> and \<open>layoutMask\<close> are bits of the
  update mask; the preferred focus is read only if the update is not forced.
\<close>

definition updateComponentData :: "bool \<Rightarrow> bool \<Rightarrow> bool \<Rightarrow> view_data \<Rightarrow> cid \<Rightarrow> nav \<Rightarrow> nav option" where
  "updateComponentData force propsMask layoutMask view c s = do {
     s1 \<leftarrow> (if propsMask then propsUpdate force view c s else Some s);
     k \<leftarrow> heap s1 c;
     if force then Some s1
     else do {
       preferred \<leftarrow> c_preferredFocus k;
       Some (if preferred \<and> layoutMask then setNeedFocusUpdate c s1 else s1)
     }
   }"

section \<open>The registry\<close>

text \<open>The root view has a provider of its own, which keeps the last component it made.\<close>

definition GetComponent :: "view_data \<Rightarrow> nav \<Rightarrow> cid option" where
  "GetComponent v s =
     (case providers s (v_handle v) of
        None \<Rightarrow> None
      | Some RootKind \<Rightarrow> rootComp s
      | Some _ \<Rightarrow> registry s (v_handle v) (v_tag v))"

definition new_comp :: "comp_kind \<Rightarrow> view_data \<Rightarrow> comp" where
  "new_comp kind v = \<lparr>c_tag = v_tag v, c_kind = kind, c_parent = None, c_absFrame = irect_zero,
     c_zIndex = 0, c_preferredFocus = None, c_props = v_props v, c_navList = []\<rparr>"

text \<open>A component is freed when no provider refers to it any more.\<close>

definition release :: "nat \<Rightarrow> cid option \<Rightarrow> nav \<Rightarrow> nav" where
  "release h d s =
     (case d of None \<Rightarrow> s
      | Some c \<Rightarrow>
          (case heap s c of None \<Rightarrow> s
           | Some k \<Rightarrow> if rootComp s = Some c \<or> registry s h (c_tag k) = Some c then s
                       else s\<lparr>heap := (heap s)(c := None)\<rparr>))"

definition CreateComponent :: "comp_kind \<Rightarrow> view_data \<Rightarrow> nav \<Rightarrow> cid \<times> nav" where
  "CreateComponent kind v s =
     (let c = nextCid s;
          s1 = s\<lparr>heap := (heap s)(c := Some (new_comp kind v)), nextCid := Suc c\<rparr>
      in (c, if kind = RootKind
             then release (v_handle v) (rootComp s) (s1\<lparr>rootComp := Some c\<rparr>) else s1))"

definition CreateAndAddComponent :: "comp_kind \<Rightarrow> view_data \<Rightarrow> nav \<Rightarrow> nav" where
  "CreateAndAddComponent kind v s =
     (let (c, s1) = CreateComponent kind v s
      in release (v_handle v) (registry s1 (v_handle v) (v_tag v))
           (s1\<lparr>registry := (registry s1)(v_handle v := (registry s1 (v_handle v))(v_tag v := Some c))\<rparr>))"

definition DeleteComponent :: "view_data \<Rightarrow> nav \<Rightarrow> nav" where
  "DeleteComponent v s =
     (case registry s (v_handle v) (v_tag v) of
        None \<Rightarrow> s
      | Some c \<Rightarrow> release (v_handle v) (Some c)
          (s\<lparr>registry := (registry s)(v_handle v := (registry s (v_handle v))(v_tag v := None))\<rparr>))"

text \<open>The part of \<open>RNInstance::Start\<close> that makes the root view and hands it to the navigator.\<close>

definition Start :: "nat \<Rightarrow> nav \<Rightarrow> nav" where
  "Start h s = (let (c, s1) = CreateComponent RootKind \<lparr>v_handle = h, v_tag = 0, v_props = None\<rparr> s
                in s1\<lparr>rootContainer := Some c\<rparr>)"

section \<open>The mounting manager\<close>

definition CreateMountInstruction :: "view_data \<Rightarrow> nav \<Rightarrow> nav" where
  "CreateMountInstruction v s =
     (case providers s (v_handle v) of
        None \<Rightarrow> s
      | Some kind \<Rightarrow> CreateAndAddComponent kind v s)"

definition DeleteMountInstruction :: "view_data \<Rightarrow> nav \<Rightarrow> nav" where
  "DeleteMountInstruction v s =
     (case GetComponent v s of
        None \<Rightarrow> s
      | Some c \<Rightarrow> DeleteComponent v s)"

definition InsertMountInstruction :: "view_data \<Rightarrow> view_data \<Rightarrow> nav \<Rightarrow> nav option" where
  "InsertMountInstruction parent child s =
     (let newChild = GetComponent child s; par = GetComponent parent s
      in do {
        s1 \<leftarrow> (case newChild of
            None \<Rightarrow> Some s
          | Some c \<Rightarrow> updateComponentData True True True child c s);
        (case (par, newChild) of
           (Some p, Some c) \<Rightarrow> mountChildComponent p c s1
         | _ \<Rightarrow> Some s1)
      })"

definition RemoveMountInstruction :: "view_data \<Rightarrow> view_data \<Rightarrow> nav \<Rightarrow> nav option" where
  "RemoveMountInstruction parent child s =
     (case (GetComponent parent s, GetComponent child s) of
        (Some _, Some c) \<Rightarrow> unmountChildComponent c s
      | _ \<Rightarrow> Some s)"

text \<open>Of an update: whether the properties, the layout, or anything else (state, emitter) changed.\<close>

definition UpdateMountInstruction :: "bool \<Rightarrow> bool \<Rightarrow> bool \<Rightarrow> view_data \<Rightarrow> nav \<Rightarrow> nav option" where
  "UpdateMountInstruction propsChanged layoutChanged otherChanged child s =
     (case GetComponent child s of
        None \<Rightarrow> Some s
      | Some c \<Rightarrow> if propsChanged \<or> layoutChanged \<or> otherChanged
                 then updateComponentData False propsChanged layoutChanged child c s else Some s)"

datatype mutation =
    Create view_data
  | Delete view_data
  | Insert view_data view_data
  | Remove view_data view_data
  | Update bool bool bool view_data

fun mount_step :: "nav \<Rightarrow> mutation \<Rightarrow> nav option" where
  "mount_step s (Create v) = Some (CreateMountInstruction v s)"
| "mount_step s (Delete v) = Some (DeleteMountInstruction v s)"
| "mount_step s (Insert p c) = InsertMountInstruction p c s"
| "mount_step s (Remove p c) = RemoveMountInstruction p c s"
| "mount_step s (Update ps ls os c) = UpdateMountInstruction ps ls os c s"

definition ProcessMutations :: "nav \<Rightarrow> mutation list \<Rightarrow> nav option" where
  "ProcessMutations s ms = run_opt mount_step s ms"

end
