(* ===== verification/Mounting.thy ===== *)
theory Mounting imports Components begin

text \<open>
  That mounting keeps the lists of focusable components exact.

  \<^item> \<open>rooted\<close> and \<open>owns\<close> describe the tree: the walk up ends, and which component's list another
    belongs in. \<open>nearest_rooted\<close> shows that the code's walk computes the owner.
  \<^item> \<open>mounts\<close>, \<open>unmounts\<close> and \<open>adds\<close> are the three ways a mutation changes the tree, with the owners
    after each of them.
  \<^item> \<open>nav_ok\<close> is the invariant, \<open>mount_ok\<close> the order in which React mounts, and \<open>mount_step_ok\<close>
    shows that one preserves the other without a fault.
\<close>

section \<open>The tree\<close>

definition parent_of :: "(cid \<Rightarrow> comp option) \<Rightarrow> cid \<Rightarrow> cid option" where
  "parent_of h c = Option.bind (h c) c_parent"

definition container_at :: "(cid \<Rightarrow> comp option) \<Rightarrow> cid \<Rightarrow> bool" where
  "container_at h c = (case h c of Some k \<Rightarrow> isContainer k | None \<Rightarrow> False)"

definition focusable_at :: "(cid \<Rightarrow> comp option) \<Rightarrow> cid \<Rightarrow> bool" where
  "focusable_at h c = (case h c of Some k \<Rightarrow> isFocusable k = Some True | None \<Rightarrow> False)"

lemma container_live: "container_at h c \<Longrightarrow> h c \<noteq> None"
  and focusable_live: "focusable_at h c \<Longrightarrow> h c \<noteq> None"
  by (cases "h c"; simp add: container_at_def focusable_at_def)+

text \<open>A component from which the walk to the root ends, over live components.\<close>

inductive rooted :: "(cid \<Rightarrow> comp option) \<Rightarrow> cid \<Rightarrow> bool" for h where
  rooted_top: "h c \<noteq> None \<Longrightarrow> parent_of h c = None \<Longrightarrow> rooted h c"
| rooted_step: "h c \<noteq> None \<Longrightarrow> parent_of h c = Some p \<Longrightarrow> rooted h p \<Longrightarrow> rooted h c"

text \<open>The component in whose list a mounted component belongs.\<close>

inductive owns :: "(cid \<Rightarrow> comp option) \<Rightarrow> cid \<Rightarrow> cid \<Rightarrow> bool" for h where
  owns_here: "parent_of h c = Some p \<Longrightarrow> container_at h p \<or> parent_of h p = None \<Longrightarrow> owns h p c"
| owns_above: "parent_of h c = Some p \<Longrightarrow> \<not> container_at h p \<Longrightarrow> parent_of h p \<noteq> None \<Longrightarrow>
    owns h a p \<Longrightarrow> owns h a c"

inductive_simps rooted_iff: "rooted h c"

lemma rooted_live: "rooted h c \<Longrightarrow> h c \<noteq> None"
  by (erule rooted.cases) auto

lemma owns_iff: "owns h a c \<longleftrightarrow> (\<exists>p. parent_of h c = Some p \<and>
    (if container_at h p \<or> parent_of h p = None then a = p else owns h a p))"
  by (subst owns.simps) auto

lemma owns_unique: "owns h a c \<Longrightarrow> owns h b c \<Longrightarrow> a = b"
proof (induction rule: owns.induct)
  case (owns_here c p)
  from owns_here(3) show ?case
    by (rule owns.cases) (use owns_here(1,2) in auto)
next
  case (owns_above c p a)
  from owns_above.prems show ?case
    by (rule owns.cases) (use owns_above in auto)
qed

lemma owner_is_end: "owns h a c \<Longrightarrow> container_at h a \<or> parent_of h a = None"
  by (induction rule: owns.induct) auto

lemma owner_exists: "rooted h c \<Longrightarrow> parent_of h c \<noteq> None \<Longrightarrow> \<exists>a. owns h a c"
proof (induction rule: rooted.induct)
  case (rooted_top c)
  then show ?case by simp
next
  case (rooted_step c p)
  show ?case
  proof (cases "container_at h p \<or> parent_of h p = None")
    case True
    with rooted_step(2) show ?thesis by (blast intro: owns.owns_here)
  next
    case False
    with rooted_step show ?thesis by (blast intro: owns.owns_above)
  qed
qed

lemma nearest_step: "h c = Some k \<Longrightarrow> nearestAncestorContainer h c =
    (case c_parent k of None \<Rightarrow> Some None
     | Some p \<Rightarrow> if h p = None then None else if container_at h p then Some (Some p)
                else nearestAncestorContainer h p)"
proof -
  assume k: "h c = Some k"
  show ?thesis
  proof (cases "c_parent k")
    case None
    with k show ?thesis by (subst nearestAncestorContainer.simps) simp
  next
    case (Some p)
    with k show ?thesis
      by (subst nearestAncestorContainer.simps) (cases "h p", simp_all add: container_at_def)
  qed
qed

text \<open>The code's walk computes the owner.\<close>

lemma nearest_rooted: "rooted h c \<Longrightarrow> \<exists>a. nearestAncestorContainer h c = Some a \<and>
    (\<forall>q. a = Some q \<longleftrightarrow> owns h q c \<and> container_at h q)"
proof (induction rule: rooted.induct)
  case (rooted_top c)
  then obtain k where "h c = Some k" "c_parent k = None" by (auto simp: parent_of_def)
  moreover from rooted_top have "\<not> owns h q c" for q by (auto elim: owns.cases)
  ultimately show ?case by (auto simp: nearest_step)
next
  case (rooted_step c p)
  then obtain k where k: "h c = Some k" "c_parent k = Some p" by (auto simp: parent_of_def)
  from rooted_step(3) have p: "h p \<noteq> None" by (rule rooted_live)
  show ?case
  proof (cases "container_at h p")
    case True
    with rooted_step(2) have "owns h q c \<longleftrightarrow> q = p" for q by (subst owns_iff) auto
    with True k p show ?thesis by (auto simp: nearest_step)
  next
    case nc: False
    from rooted_step.IH obtain a where a: "nearestAncestorContainer h p = Some a"
      "\<And>q. a = Some q \<longleftrightarrow> owns h q p \<and> container_at h q" by blast
    have "owns h q c \<and> container_at h q \<longleftrightarrow> owns h q p \<and> container_at h q" for q
    proof (cases "parent_of h p = None")
      case True
      then have "\<not> owns h q p" by (auto elim: owns.cases)
      moreover from True rooted_step(2) nc have "owns h q c \<longleftrightarrow> q = p" by (subst owns_iff) auto
      ultimately show ?thesis using nc by auto
    next
      case False
      with rooted_step(2) nc show ?thesis by (subst owns_iff) auto
    qed
    with a nc k p show ?thesis by (auto simp: nearest_step)
  qed
qed

lemma nearest_total: "rooted h c \<Longrightarrow> \<exists>a. nearestAncestorContainer h c = Some a"
  using nearest_rooted by blast

lemma nearest_owner: "rooted h c \<Longrightarrow>
    nearestAncestorContainer h c = Some (Some q) \<longleftrightarrow> owns h q c \<and> container_at h q"
proof -
  assume "rooted h c"
  from nearest_rooted [OF this] obtain a where
    "nearestAncestorContainer h c = Some a" and a: "a = Some q \<longleftrightarrow> owns h q c \<and> container_at h q" by blast
  then show ?thesis by (simp add: a)
qed

text \<open>What the walk reads of a component.\<close>

definition same_tree :: "(cid \<Rightarrow> comp option) \<Rightarrow> (cid \<Rightarrow> comp option) \<Rightarrow> bool" where
  "same_tree h g \<longleftrightarrow> (\<forall>c. (h c = None \<longleftrightarrow> g c = None) \<and> parent_of h c = parent_of g c \<and>
     container_at h c = container_at g c)"

lemma same_treeD:
  assumes "same_tree h g"
  shows "h x = None \<longleftrightarrow> g x = None" and "parent_of h x = parent_of g x"
    and "container_at h x = container_at g x"
  using assms by (simp_all add: same_tree_def)

lemma same_tree_sym: "same_tree h g \<Longrightarrow> same_tree g h"
  by (simp add: same_tree_def)

lemma same_tree_refl [simp]: "same_tree h h"
  by (simp add: same_tree_def)

lemma same_tree_trans: "same_tree h g \<Longrightarrow> same_tree g f \<Longrightarrow> same_tree h f"
  by (simp add: same_tree_def)

lemma same_tree_put: "h c = Some k \<Longrightarrow> c_parent k' = c_parent k \<Longrightarrow> isContainer k' = isContainer k \<Longrightarrow>
    same_tree h (h(c := Some k'))"
  by (auto simp: same_tree_def parent_of_def container_at_def)

lemma same_tree_rooted: "rooted h c \<Longrightarrow> same_tree h g \<Longrightarrow> rooted g c"
proof (induction rule: rooted.induct)
  case (rooted_top c)
  then show ?case unfolding same_tree_def by (metis rooted.rooted_top)
next
  case (rooted_step c p)
  then show ?case unfolding same_tree_def by (metis rooted.rooted_step)
qed

lemma same_tree_owns_imp: "owns h a c \<Longrightarrow> same_tree h g \<Longrightarrow> owns g a c"
  by (induction rule: owns.induct) (auto simp: same_tree_def intro: owns.intros)

lemma same_tree_owns: "same_tree h g \<Longrightarrow> owns h a c \<longleftrightarrow> owns g a c"
  using same_tree_owns_imp same_tree_sym by blast

section \<open>Changing a parent\<close>

text \<open>The end of the walk up, as \<open>None\<close> when it meets a dead component.\<close>

partial_function (option) tree_top :: "(cid \<Rightarrow> comp option) \<Rightarrow> cid \<Rightarrow> cid option" where
  "tree_top h c = do {
     k \<leftarrow> h c;
     case c_parent k of None \<Rightarrow> Some c | Some p \<Rightarrow> tree_top h p
   }"

declare tree_top.simps [code]

lemma tree_top_end: "h c \<noteq> None \<Longrightarrow> parent_of h c = None \<Longrightarrow> tree_top h c = Some c"
  by (subst tree_top.simps) (auto simp: parent_of_def)

lemma tree_top_step: "h c \<noteq> None \<Longrightarrow> parent_of h c = Some p \<Longrightarrow> tree_top h c = tree_top h p"
  by (subst tree_top.simps) (auto simp: parent_of_def)

lemma owner_is_top: "owns h a c \<Longrightarrow> rooted h c \<Longrightarrow> parent_of h a = None \<Longrightarrow> tree_top h c = Some a"
proof (induction rule: owns.induct)
  case (owns_here c p)
  from owns_here(3,1) have "h c \<noteq> None" "rooted h p" by (auto elim: rooted.cases)
  then have "h c \<noteq> None" "h p \<noteq> None" by (auto dest: rooted_live)
  with owns_here(1,4) show ?case by (simp add: tree_top_step tree_top_end)
next
  case (owns_above c p a)
  from owns_above.prems(1) owns_above.hyps(1) have "h c \<noteq> None" "rooted h p"
    by (auto elim: rooted.cases)
  with owns_above show ?case by (simp add: tree_top_step)
qed

definition reparented ::
  "(cid \<Rightarrow> comp option) \<Rightarrow> cid \<Rightarrow> cid option \<Rightarrow> (cid \<Rightarrow> comp option) \<Rightarrow> bool" where
  "reparented h c q g \<longleftrightarrow> (\<forall>x. (g x = None \<longleftrightarrow> h x = None) \<and> container_at g x = container_at h x \<and>
     parent_of g x = (if x = c then q else parent_of h x))"

lemma reparentedD:
  assumes "reparented h c q g"
  shows "g x = None \<longleftrightarrow> h x = None" and "container_at g x = container_at h x"
    and "parent_of g c = q" and "x \<noteq> c \<Longrightarrow> parent_of g x = parent_of h x"
  using assms by (simp_all add: reparented_def)

lemma reparented_put: "h c = Some k \<Longrightarrow> reparented h c q (h(c := Some (k\<lparr>c_parent := q\<rparr>)))"
  by (auto simp: reparented_def container_at_def parent_of_def isContainer_def)

lemma reparented_same_tree: "reparented h c q g \<Longrightarrow> same_tree g f \<Longrightarrow> reparented h c q f"
  by (auto simp: reparented_def same_tree_def)

text \<open>Component \<open>c\<close>, which has no parent, gets parent \<open>p\<close>, which is not below it.\<close>

definition mounts :: "(cid \<Rightarrow> comp option) \<Rightarrow> cid \<Rightarrow> cid \<Rightarrow> (cid \<Rightarrow> comp option) \<Rightarrow> bool" where
  "mounts h c p g \<longleftrightarrow> (\<forall>x. h x \<noteq> None \<longrightarrow> rooted h x) \<and> h c \<noteq> None \<and> h p \<noteq> None \<and>
     parent_of h c = None \<and> tree_top h p \<noteq> Some c \<and> reparented h c (Some p) g"

definition target :: "(cid \<Rightarrow> comp option) \<Rightarrow> cid \<Rightarrow> cid" where
  "target h p = (if container_at h p \<or> parent_of h p = None then p else (THE a. owns h a p))"

lemma target_unique:
  "owns h a p \<Longrightarrow> \<not> container_at h p \<Longrightarrow> parent_of h p \<noteq> None \<Longrightarrow> target h p = a"
  unfolding target_def using owns_unique by auto

lemma mounts_tree: "mounts h c p g \<Longrightarrow> h x \<noteq> None \<Longrightarrow> rooted h x"
  and mounts_live: "mounts h c p g \<Longrightarrow> h c \<noteq> None" "mounts h c p g \<Longrightarrow> h p \<noteq> None"
  and mounts_loose: "mounts h c p g \<Longrightarrow> parent_of h c = None"
  and mounts_no_cycle: "mounts h c p g \<Longrightarrow> tree_top h p \<noteq> Some c"
  and mounts_moved: "mounts h c p g \<Longrightarrow> reparented h c (Some p) g"
  by (simp_all add: mounts_def)

lemma mounts_neq: "mounts h c p g \<Longrightarrow> c \<noteq> p"
  using mounts_live mounts_loose mounts_no_cycle by (metis tree_top_end)

lemma mounts_below: "rooted h x \<Longrightarrow> mounts h c p g \<Longrightarrow> tree_top h x \<noteq> Some c \<Longrightarrow> rooted g x"
proof (induction rule: rooted.induct)
  case (rooted_top x)
  then have "x \<noteq> c" by (auto simp: tree_top_end)
  with rooted_top reparentedD(1,4) [OF mounts_moved [OF rooted_top(3)], of x]
  show ?case by (metis rooted.rooted_top)
next
  case (rooted_step x q)
  note m = rooted_step.prems(1)
  from rooted_step(2) mounts_loose [OF m] have x: "x \<noteq> c" by auto
  moreover from rooted_step have "rooted g q" by (simp add: tree_top_step)
  ultimately show ?case
    using rooted_step(1,2) reparentedD(1,4) [OF mounts_moved [OF m], of x] by (metis rooted.rooted_step)
qed

lemma mounts_c_rooted: "mounts h c p g \<Longrightarrow> rooted g c"
proof -
  assume m: "mounts h c p g"
  note moved = mounts_moved [OF m]
  have "rooted g p"
    using mounts_below [OF mounts_tree [OF m mounts_live(2) [OF m]] m mounts_no_cycle [OF m]] .
  moreover have "g c \<noteq> None" using mounts_live(1) [OF m] reparentedD(1) [OF moved, of c] by simp
  ultimately show ?thesis using reparentedD(3) [OF moved] by (metis rooted.rooted_step)
qed

lemma mounts_rooted: "mounts h c p g \<Longrightarrow> g x \<noteq> None \<Longrightarrow> rooted g x"
proof -
  assume m: "mounts h c p g" and "g x \<noteq> None"
  note moved = mounts_moved [OF m] and c = mounts_c_rooted [OF m]
  from \<open>g x \<noteq> None\<close> have "rooted h x" using mounts_tree [OF m] reparentedD(1) [OF moved, of x] by simp
  then show ?thesis
  proof (induction rule: rooted.induct)
    case (rooted_top x)
    then show ?case
      using c reparentedD(1,4) [OF moved, of x] by (cases "x = c") (auto simp: rooted_iff [of g x])
  next
    case (rooted_step x q)
    then show ?case
      using c reparentedD(1,4) [OF moved, of x] by (cases "x = c") (auto simp: rooted_iff [of g x])
  qed
qed

lemma mounts_not_owner: "mounts h c p g \<Longrightarrow> \<not> owns h c p"
  using owner_is_top [of h c p] mounts_tree mounts_live mounts_loose mounts_no_cycle by metis

lemma owns_after_imp: "owns g a x \<Longrightarrow> mounts h c p g \<Longrightarrow>
    (if x = c \<or> owns h c x \<and> \<not> container_at h c then a = target h p else owns h a x)"
proof (induction rule: owns.induct)
  case (owns_here x q)
  note m = owns_here(3)
  note moved = mounts_moved [OF m] and loose = mounts_loose [OF m] and neq = mounts_neq [OF m]
  show ?case
  proof (cases "x = c")
    case True
    with owns_here reparentedD(3) [OF moved] have "q = p" by simp
    with owns_here neq reparentedD(2,4) [OF moved, of p] have "container_at h p \<or> parent_of h p = None"
      by auto
    with True \<open>q = p\<close> show ?thesis by (simp add: target_def)
  next
    case False
    with owns_here reparentedD(4) [OF moved, of x] have q: "parent_of h x = Some q" by simp
    have e: "container_at h q \<or> parent_of h q = None"
      using owns_here(2) loose reparentedD(2,4) [OF moved, of q] by (cases "q = c") auto
    with q have own: "owns h q x" by (rule owns.owns_here)
    moreover have "\<not> (owns h c x \<and> \<not> container_at h c)"
    proof
      assume a: "owns h c x \<and> \<not> container_at h c"
      with own have "q = c" by (blast dest: owns_unique)
      with owns_here(2) a reparentedD(2,3) [OF moved] show False by auto
    qed
    ultimately show ?thesis using False by auto
  qed
next
  case (owns_above x q a)
  note m = owns_above.prems
  note moved = mounts_moved [OF m] and loose = mounts_loose [OF m] and neq = mounts_neq [OF m]
  have nc: "\<not> container_at h q" using owns_above(2) reparentedD(2) [OF moved] by simp
  note IH = owns_above.IH [OF m]
  show ?case
  proof (cases "x = c")
    case True
    with owns_above(1) reparentedD(3) [OF moved] have qp: "q = p" by simp
    with IH neq mounts_not_owner [OF m] have "owns h a p" by (auto split: if_splits)
    moreover have "parent_of h p \<noteq> None"
      using owns_above(3) qp neq reparentedD(4) [OF moved, of p] by simp
    ultimately show ?thesis using True nc qp target_unique by auto
  next
    case False
    with owns_above(1) reparentedD(4) [OF moved, of x] have q: "parent_of h x = Some q" by simp
    show ?thesis
    proof (cases "q = c")
      case True
      with q nc loose have "owns h c x" by (blast intro: owns.owns_here)
      with True False IH nc show ?thesis by auto
    next
      case qc: False
      with owns_above(3) reparentedD(4) [OF moved, of q] have pq: "parent_of h q \<noteq> None" by simp
      have up: "owns h b x \<longleftrightarrow> owns h b q" for b
        using q nc pq by (subst owns_iff) auto
      with IH qc False show ?thesis by simp
    qed
  qed
qed

lemma owner_parent: "owns h a x \<Longrightarrow> parent_of h x \<noteq> None"
  by (erule owns.cases) auto

lemma parent_live: "parent_of h x \<noteq> None \<Longrightarrow> h x \<noteq> None"
  by (cases "h x") (simp_all add: parent_of_def)

lemma owns_after: "mounts h c p g \<Longrightarrow> owns g a x \<longleftrightarrow>
    (if x = c \<or> owns h c x \<and> \<not> container_at h c then a = target h p else owns h a x)"
proof
  assume m: "mounts h c p g" and r: "if x = c \<or> owns h c x \<and> \<not> container_at h c then a = target h p
    else owns h a x"
  note moved = mounts_moved [OF m]
  have "parent_of g x \<noteq> None"
  proof (cases "x = c")
    case True
    with reparentedD(3) [OF moved] show ?thesis by simp
  next
    case False
    with r have "\<exists>b. owns h b x" by (auto split: if_splits)
    with False reparentedD(4) [OF moved, of x] show ?thesis using owner_parent by metis
  qed
  with parent_live [OF this] obtain b where b: "owns g b x"
    using owner_exists mounts_rooted [OF m] by blast
  from owns_after_imp [OF b m] r have "a = b" by (auto split: if_splits dest: owns_unique)
  with b show "owns g a x" by simp
qed (rule owns_after_imp)

text \<open>Taking a component from its parent.\<close>

definition unmounts :: "(cid \<Rightarrow> comp option) \<Rightarrow> cid \<Rightarrow> (cid \<Rightarrow> comp option) \<Rightarrow> bool" where
  "unmounts h c g \<longleftrightarrow> (\<forall>x. h x \<noteq> None \<longrightarrow> rooted h x) \<and> reparented h c None g \<and>
     (container_at h c \<or> (\<forall>x. parent_of h x \<noteq> Some c))"

lemma unmounts_rooted: "unmounts h c g \<Longrightarrow> g x \<noteq> None \<Longrightarrow> rooted g x"
proof -
  assume u: "unmounts h c g" and "g x \<noteq> None"
  then have r: "reparented h c None g" by (simp add: unmounts_def)
  from u \<open>g x \<noteq> None\<close> have "rooted h x"
    using reparentedD(1) [OF r, of x] by (simp add: unmounts_def)
  then show ?thesis
  proof (induction rule: rooted.induct)
    case (rooted_top x)
    then show ?case using reparentedD(1,4) [OF r, of x] reparentedD(3) [OF r] by (cases "x = c") (auto simp: rooted_iff [of g x] rooted_iff [of g c])
  next
    case (rooted_step x q)
    then show ?case using reparentedD(1,4) [OF r, of x] reparentedD(3) [OF r] by (cases "x = c") (auto simp: rooted_iff [of g x] rooted_iff [of g c])
  qed
qed

lemma owns_unmount_imp: "owns g a x \<Longrightarrow> unmounts h c g \<Longrightarrow> x \<noteq> c \<and> owns h a x"
proof (induction rule: owns.induct)
  case (owns_here x q)
  then have r: "reparented h c None g"
    and kids: "container_at h c \<or> (\<forall>x. parent_of h x \<noteq> Some c)" by (auto simp: unmounts_def)
  from owns_here(1) reparentedD(3) [OF r] have "x \<noteq> c" by auto
  with owns_here(1) reparentedD(4) [OF r, of x] have q: "parent_of h x = Some q" by simp
  have "container_at h q \<or> parent_of h q = None"
    using owns_here(2) q kids reparentedD(2,4) [OF r, of q] by (cases "q = c") auto
  with q \<open>x \<noteq> c\<close> show ?case by (auto intro: owns.owns_here)
next
  case (owns_above x q a)
  then have r: "reparented h c None g" by (simp add: unmounts_def)
  from owns_above(1) reparentedD(3) [OF r] have "x \<noteq> c" by auto
  from owns_above(3) reparentedD(3) [OF r] have "q \<noteq> c" by auto
  with owns_above \<open>x \<noteq> c\<close> reparentedD(2,4) [OF r] show ?case by (metis owns.owns_above)
qed

lemma owns_unmount: "unmounts h c g \<Longrightarrow> owns g a x \<longleftrightarrow> x \<noteq> c \<and> owns h a x"
proof
  assume u: "unmounts h c g" and r: "x \<noteq> c \<and> owns h a x"
  then have rp: "reparented h c None g" by (simp add: unmounts_def)
  from r reparentedD(4) [OF rp, of x] have "parent_of g x \<noteq> None" using owner_parent by metis
  with parent_live [OF this] obtain b where b: "owns g b x"
    using owner_exists unmounts_rooted [OF u] by blast
  from owns_unmount_imp [OF b u] r have "a = b" by (auto dest: owns_unique)
  with b show "owns g a x" by simp
qed (rule owns_unmount_imp)

section \<open>Lists that are exact\<close>

definition belongs :: "(cid \<Rightarrow> comp option) \<Rightarrow> cid \<Rightarrow> cid \<Rightarrow> bool" where
  "belongs h a x \<longleftrightarrow> focusable_at h x \<and> owns h a x"

definition list_at :: "(cid \<Rightarrow> comp option) \<Rightarrow> cid \<Rightarrow> cid list" where
  "list_at h c = (case h c of Some k \<Rightarrow> c_navList k | None \<Rightarrow> [])"

text \<open>
  A container lists each focusable component that belongs to it once and nothing else. The list of
  a view that is not mounted yet holds at least what belongs to it.
\<close>

definition lists_ok :: "(cid \<Rightarrow> comp option) \<Rightarrow> bool" where
  "lists_ok h \<longleftrightarrow>
     (\<forall>a. container_at h a \<longrightarrow> distinct (list_at h a) \<and> (\<forall>x. x \<in> set (list_at h a) \<longleftrightarrow> belongs h a x)) \<and>
     (\<forall>a x. belongs h a x \<longrightarrow> x \<in> set (list_at h a))"

lemma lists_ok_container: "lists_ok h \<Longrightarrow> container_at h a \<Longrightarrow> distinct (list_at h a)"
  "lists_ok h \<Longrightarrow> container_at h a \<Longrightarrow> x \<in> set (list_at h a) \<longleftrightarrow> belongs h a x"
  by (simp_all add: lists_ok_def)

lemma lists_ok_pending: "lists_ok h \<Longrightarrow> belongs h a x \<Longrightarrow> x \<in> set (list_at h a)"
  by (simp add: lists_ok_def)

text \<open>New properties of one component, and the list of its owner brought up to date.\<close>

lemma lists_ok_update:
  assumes ok: "lists_ok h" and tree: "same_tree h g"
    and foc: "\<And>x. x \<noteq> c \<Longrightarrow> focusable_at g x = focusable_at h x"
    and own: "\<And>a. owns h a c \<Longrightarrow> container_at h a"
    and lists: "\<And>a. list_at g a = (if \<not> owns h a c then list_at h a
        else if focusable_at g c then (if c \<in> set (list_at h a) then list_at h a else list_at h a @ [c])
        else remove1 c (list_at h a))"
  shows "lists_ok g"
proof -
  have ct: "container_at g a = container_at h a" for a using tree by (simp add: same_tree_def)
  note ow = same_tree_owns [OF tree]
  have b: "belongs g a x \<longleftrightarrow> (if x = c then focusable_at g c \<and> owns h a c else belongs h a x)" for a x
    using foc [of x] ow by (auto simp: belongs_def)
  have bc: "belongs h a c \<Longrightarrow> owns h a c" for a by (simp add: belongs_def)
  have "distinct (list_at g a) \<and> (\<forall>x. x \<in> set (list_at g a) \<longleftrightarrow> belongs g a x)"
    if a: "container_at h a" for a
  proof -
    note d = lists_ok_container(1) [OF ok a] and m = lists_ok_container(2) [OF ok a]
    show ?thesis
    proof (cases "owns h a c")
      case False
      then have "\<not> belongs h a c" using bc by blast
      with False d m show ?thesis by (auto simp: lists b)
    next
      case True
      then show ?thesis
      proof (cases "focusable_at g c")
        case True
        with \<open>owns h a c\<close> d m show ?thesis by (auto simp: lists b)
      next
        case False
        with \<open>owns h a c\<close> d m have "list_at g a = remove1 c (list_at h a)" by (simp add: lists)
        with False d m show ?thesis by (auto simp: b)
      qed
    qed
  qed
  moreover have "x \<in> set (list_at g a)" if "belongs g a x" for a x
  proof (cases "container_at h a")
    case True
    with that \<open>\<And>a. container_at h a \<Longrightarrow> _ a\<close> show ?thesis by blast
  next
    case False
    with own have n: "\<not> owns h a c" by blast
    with that bc have "belongs h a x" by (auto simp: b split: if_splits)
    with lists_ok_pending [OF ok] n show ?thesis by (simp add: lists)
  qed
  ultimately show ?thesis by (simp add: lists_ok_def ct)
qed

text \<open>Mounting: the owner of the parent takes over what the child lists.\<close>

lemma lists_ok_mount:
  assumes ok: "lists_ok h" and m: "mounts h c p g"
    and foc: "\<And>x. focusable_at g x = focusable_at h x"
    and clean: "\<not> container_at h c \<Longrightarrow> distinct (list_at h c) \<and> (\<forall>x \<in> set (list_at h c). belongs h c x)"
    and lists: "\<And>a. list_at g a = (if a = target h p
        then list_at h a @ (if focusable_at h c then [c] else []) @ (if container_at h c then [] else list_at h c)
        else list_at h a)"
  shows "lists_ok g"
proof -
  let ?t = "target h p" and ?new = "(if focusable_at h c then [c] else []) @
    (if container_at h c then [] else list_at h c)"
  note moved = mounts_moved [OF m]
  have ct: "container_at g a = container_at h a" for a using reparentedD(2) [OF moved] .
  have noc: "\<not> owns h a c" for a using mounts_loose [OF m] owner_parent by metis
  have pend: "x \<in> set (list_at h c) \<longleftrightarrow> belongs h c x" if "\<not> container_at h c" for x
    using clean [OF that] lists_ok_pending [OF ok] by blast
  have b: "belongs g a x \<longleftrightarrow> (if x = c \<or> owns h c x \<and> \<not> container_at h c
      then focusable_at h x \<and> a = ?t else belongs h a x)" for a x
    by (simp add: belongs_def foc owns_after [OF m])
  have new: "x \<in> set ?new \<longleftrightarrow> focusable_at h x \<and> (x = c \<or> owns h c x \<and> \<not> container_at h c)" for x
    using pend by (auto simp: belongs_def)
  have tc: "?t \<noteq> c" if "\<not> container_at h c"
  proof
    assume e: "?t = c"
    from mounts_rooted [OF m] moved have "owns g ?t c" by (simp add: owns_after [OF m])
    with e have "container_at g c \<or> parent_of g c = None" by (auto dest: owner_is_end)
    with that ct reparentedD(3) [OF moved] show False by simp
  qed
  have bt: "belongs g ?t x \<longleftrightarrow> belongs h ?t x \<or> x \<in> set ?new" for x
    unfolding b new by (auto simp: belongs_def)
  have lt: "set (list_at g ?t) = set (list_at h ?t) \<union> set ?new"
    by (simp add: lists)
  have bo: "belongs g a x \<Longrightarrow> belongs h a x" if "a \<noteq> ?t" for a x
    using that by (auto simp: b split: if_splits)
  have bo2: "belongs h a x \<Longrightarrow> container_at h a \<Longrightarrow> belongs g a x" if "a \<noteq> ?t" for a x
    unfolding b using that noc by (auto simp: belongs_def dest: owns_unique)
  have "distinct (list_at g a) \<and> (\<forall>x. x \<in> set (list_at g a) \<longleftrightarrow> belongs g a x)"
    if a: "container_at h a" for a
  proof (cases "a = ?t")
    case False
    with lists_ok_container [OF ok a] bo bo2 a show ?thesis by (auto simp: lists)
  next
    case True
    note mem = lists_ok_container(2) [OF ok a] and d = lists_ok_container(1) [OF ok a]
    have "distinct ?new" using clean noc by (auto simp: belongs_def)
    moreover have "set (list_at h a) \<inter> set ?new = {}"
      using noc tc True a unfolding disjoint_iff mem new
      by (auto simp: belongs_def dest: owns_unique)
    ultimately have "distinct (list_at g a)" using d True by (simp add: lists)
    moreover have "x \<in> set (list_at g a) \<longleftrightarrow> belongs g a x" for x
      using mem [of x] bt [of x] lt unfolding True by blast
    ultimately show ?thesis by blast
  qed
  moreover have "x \<in> set (list_at g a)" if bg: "belongs g a x" for a x
  proof (cases "a = ?t")
    case True
    with bg bt [of x] lists_ok_pending [OF ok, of ?t x] lt show ?thesis by blast
  next
    case False
    with bo [OF False bg] lists_ok_pending [OF ok] show ?thesis by (simp add: lists)
  qed
  ultimately show ?thesis by (simp add: lists_ok_def ct)
qed

text \<open>Unmounting: the owner forgets the component.\<close>

lemma lists_ok_unmount:
  assumes ok: "lists_ok h" and u: "unmounts h c g"
    and foc: "\<And>x. focusable_at g x = focusable_at h x"
    and lists: "\<And>a. list_at g a = (if owns h a c \<and> container_at h a then remove1 c (list_at h a)
        else list_at h a)"
  shows "lists_ok g"
proof -
  from u have ct: "container_at g a = container_at h a" for a
    by (auto simp: unmounts_def dest: reparentedD(2))
  have b: "belongs g a x \<longleftrightarrow> x \<noteq> c \<and> belongs h a x" for a x
    by (auto simp: belongs_def foc owns_unmount [OF u])
  have "distinct (list_at g a) \<and> (\<forall>x. x \<in> set (list_at g a) \<longleftrightarrow> belongs g a x)"
    if a: "container_at h a" for a
  proof -
    note d = lists_ok_container(1) [OF ok a] and mem = lists_ok_container(2) [OF ok a]
    show ?thesis
    proof (cases "owns h a c")
      case True
      with a d mem show ?thesis by (simp add: lists b) auto
    next
      case False
      then have "c \<notin> set (list_at h a)" using mem by (simp add: belongs_def)
      with False d mem show ?thesis by (auto simp: lists b)
    qed
  qed
  moreover have "x \<in> set (list_at g a)" if "belongs g a x" for a x
    using that lists_ok_pending [OF ok, of a x] by (auto simp: lists b)
  ultimately show ?thesis by (simp add: lists_ok_def ct)
qed

section \<open>What each operation does\<close>

definition drop_focus :: "cid \<Rightarrow> comp \<Rightarrow> nav \<Rightarrow> nav" where
  "drop_focus c k s =
     (if currentFocus s = Some c then (notify (Blur (c_tag k)) s)\<lparr>currentFocus := None\<rparr> else s)"

lemma drop_focus_simps [simp]:
  "heap (drop_focus c k s) = heap s" "registry (drop_focus c k s) = registry s"
  "nextCid (drop_focus c k s) = nextCid s" "rootComp (drop_focus c k s) = rootComp s"
  "providers (drop_focus c k s) = providers s"
  by (simp_all add: drop_focus_def notify_def)

lemma put_comp_simps [simp]:
  "heap (put_comp c k s) = (heap s)(c := Some k)" "registry (put_comp c k s) = registry s"
  "nextCid (put_comp c k s) = nextCid s" "rootComp (put_comp c k s) = rootComp s"
  "providers (put_comp c k s) = providers s" "currentFocus (put_comp c k s) = currentFocus s"
  "notices (put_comp c k s) = notices s" "pendingFocus (put_comp c k s) = pendingFocus s"
  by (simp_all add: put_comp_def)

lemma setNeedFocusUpdate_simps [simp]:
  "heap (setNeedFocusUpdate c s) = heap s" "registry (setNeedFocusUpdate c s) = registry s"
  "nextCid (setNeedFocusUpdate c s) = nextCid s" "rootComp (setNeedFocusUpdate c s) = rootComp s"
  "providers (setNeedFocusUpdate c s) = providers s"
  "currentFocus (setNeedFocusUpdate c s) = currentFocus s"
  "notices (setNeedFocusUpdate c s) = notices s"
  by (simp_all add: setNeedFocusUpdate_def)

lemma updateState_result: "heap s c = Some k \<Longrightarrow> updateSpatialNavigatorState op c s =
    Some (if op = ComponentAdded then s else drop_focus c k s)"
  by (cases op) (simp_all add: updateSpatialNavigatorState_def drop_focus_def)

lemma addComponent_result: "heap s a = Some k \<Longrightarrow> heap s c \<noteq> None \<Longrightarrow>
    addComponent a c s = Some (put_comp a (k\<lparr>c_navList := c_navList k @ [c]\<rparr>) s)"
  by (cases "a = c") (auto simp: addComponent_def updateState_result)

lemma mergeComponent_result: "heap s a = Some k \<Longrightarrow>
    mergeComponent a cs s = Some (put_comp a (k\<lparr>c_navList := c_navList k @ cs\<rparr>) s)"
  by (simp add: mergeComponent_def)

lemma removeComponent_result: "heap s a = Some k \<Longrightarrow> heap s c = Some kc \<Longrightarrow> removeComponent a c s =
    Some (if c \<in> set (c_navList k)
          then put_comp a (k\<lparr>c_navList := remove1 c (c_navList k)\<rparr>) (drop_focus c kc s) else s)"
  by (simp add: removeComponent_def updateState_result)

lemma updateComponent_result:
  "heap s a = Some k \<Longrightarrow> heap s c = Some kc \<Longrightarrow> isFocusable kc = Some f \<Longrightarrow> updateComponent a c s =
    Some (if c \<in> set (c_navList k)
          then if f then s
               else put_comp a (k\<lparr>c_navList := remove1 c (c_navList k)\<rparr>) (drop_focus c kc s)
          else if f then put_comp a (k\<lparr>c_navList := c_navList k @ [c]\<rparr>) s else s)"
  by (simp add: updateComponent_def updateState_result addComponent_result)

text \<open>Two heaps with the same components, where tags never change, and whether one is a container.\<close>

definition sim :: "(cid \<Rightarrow> comp option) \<Rightarrow> (cid \<Rightarrow> comp option) \<Rightarrow> bool" where
  "sim h g \<longleftrightarrow> (\<forall>x. (h x = None \<longleftrightarrow> g x = None) \<and> (\<forall>k k'. h x = Some k \<longrightarrow> g x = Some k' \<longrightarrow>
     c_tag k' = c_tag k \<and> isContainer k' = isContainer k \<and> (c_props k \<noteq> None \<longrightarrow> c_props k' \<noteq> None)))"

lemma simD: "sim h g \<Longrightarrow> h x = None \<longleftrightarrow> g x = None"
  by (simp add: sim_def)

lemma simD_Some: "sim h g \<Longrightarrow> h x = Some k \<Longrightarrow> \<exists>k'. g x = Some k' \<and> c_tag k' = c_tag k \<and>
    isContainer k' = isContainer k \<and> (c_props k \<noteq> None \<longrightarrow> c_props k' \<noteq> None)"
  unfolding sim_def by (metis not_Some_eq)

lemma sim_refl [simp]: "sim h h"
  by (simp add: sim_def)

lemma sim_trans: "sim h g \<Longrightarrow> sim g f \<Longrightarrow> sim h f"
proof -
  assume hg: "sim h g" and gf: "sim g f"
  have "c_tag k' = c_tag k \<and> isContainer k' = isContainer k \<and> (c_props k \<noteq> None \<longrightarrow> c_props k' \<noteq> None)"
    if k: "h x = Some k" and k': "f x = Some k'" for x k k'
  proof -
  from simD_Some [OF hg k] obtain m where m: "g x = Some m" "c_tag m = c_tag k" "isContainer m = isContainer k"
    "c_props k \<noteq> None \<longrightarrow> c_props m \<noteq> None" by blast
  from simD_Some [OF gf m(1)] k' m
    show ?thesis by auto
  qed
  moreover have "h x = None \<longleftrightarrow> f x = None" for x
    by (rule trans [OF simD [OF hg] simD [OF gf]])
  ultimately show ?thesis unfolding sim_def by blast
qed

lemma sim_put: "h c = Some k \<Longrightarrow> c_tag k' = c_tag k \<Longrightarrow> isContainer k' = isContainer k \<Longrightarrow>
    (c_props k \<noteq> None \<longrightarrow> c_props k' \<noteq> None) \<Longrightarrow> sim h (h(c := Some k'))"
  by (auto simp: sim_def)

lemma sim_container: "sim h g \<Longrightarrow> container_at g x = container_at h x"
  using simD [of h g x] simD_Some [of h g x]
  by (cases "h x") (auto simp: container_at_def)

section \<open>The invariant\<close>

text \<open>The component JavaScript takes to be focused, from the notifications it was sent.\<close>

fun js_focus_step :: "int option \<Rightarrow> nav_notice \<Rightarrow> int option" where
  "js_focus_step f (Focus t) = Some t"
| "js_focus_step f (Blur t) = None"
| "js_focus_step f _ = f"

definition js_focused :: "nav_notice list \<Rightarrow> int option" where
  "js_focused ns = foldl js_focus_step None ns"

definition focus_tag :: "nav \<Rightarrow> int option" where
  "focus_tag s = Option.bind (currentFocus s) (\<lambda>c. map_option c_tag (heap s c))"

text \<open>The focused component is listed by a container, and JavaScript knows it as the focused one.\<close>

definition focus_ok :: "nav \<Rightarrow> bool" where
  "focus_ok s \<longleftrightarrow>
     (\<forall>c. currentFocus s = Some c \<longrightarrow> (\<exists>a. container_at (heap s) a \<and> c \<in> set (list_at (heap s) a))) \<and>
     js_focused (notices s) = focus_tag s"

definition nav_ok :: "nav \<Rightarrow> bool" where
  "nav_ok s \<longleftrightarrow>
     (\<forall>x. heap s x \<noteq> None \<longrightarrow> rooted (heap s) x \<and> x < nextCid s) \<and>
     (\<forall>h t c. registry s h t = Some c \<longrightarrow>
        (\<exists>k. heap s c = Some k \<and> c_tag k = t \<and> c_props k \<noteq> None)) \<and>
     (\<forall>h t h' t' c. registry s h t = Some c \<longrightarrow> registry s h' t' = Some c \<longrightarrow> h = h' \<and> t = t') \<and>
     (\<forall>r. rootComp s = Some r \<longrightarrow> container_at (heap s) r \<and> parent_of (heap s) r = None \<and>
        (\<forall>h t. registry s h t \<noteq> Some r)) \<and>
     (\<forall>x k. heap s x = Some k \<longrightarrow> c_parent k \<noteq> None \<longrightarrow> c_preferredFocus k \<noteq> None \<and> c_props k \<noteq> None) \<and>
     lists_ok (heap s) \<and> focus_ok s"

lemma nav_okD:
  assumes "nav_ok s"
  shows "heap s x \<noteq> None \<Longrightarrow> rooted (heap s) x" and "heap s x \<noteq> None \<Longrightarrow> x < nextCid s"
    and "registry s h t = Some c \<Longrightarrow> \<exists>k. heap s c = Some k \<and> c_tag k = t \<and> c_props k \<noteq> None"
    and "registry s h t = Some c \<Longrightarrow> registry s h' t' = Some c \<Longrightarrow> h = h' \<and> t = t'"
    and "rootComp s = Some r \<Longrightarrow> container_at (heap s) r \<and> parent_of (heap s) r = None \<and> registry s h t \<noteq> Some r"
    and "heap s x = Some k \<Longrightarrow> c_parent k \<noteq> None \<Longrightarrow> c_preferredFocus k \<noteq> None \<and> c_props k \<noteq> None"
    and "lists_ok (heap s)" and "focus_ok s"
  using assms unfolding nav_ok_def by blast+

lemma nav_ok_intro:
  assumes ok: "nav_ok s"
    and frame: "registry s' = registry s" "nextCid s' = nextCid s" "rootComp s' = rootComp s"
    and sim: "sim (heap s) (heap s')"
    and rooted: "\<And>x. heap s' x \<noteq> None \<Longrightarrow> rooted (heap s') x"
    and root: "\<And>r. rootComp s = Some r \<Longrightarrow> parent_of (heap s') r = None"
    and ready: "\<And>x k. heap s' x = Some k \<Longrightarrow> c_parent k \<noteq> None \<Longrightarrow>
        c_preferredFocus k \<noteq> None \<and> c_props k \<noteq> None"
    and lists: "lists_ok (heap s')" and focus: "focus_ok s'"
  shows "nav_ok s'"
proof -
  have "heap s' x \<noteq> None \<longrightarrow> rooted (heap s') x \<and> x < nextCid s'" for x
    using rooted nav_okD(2) [OF ok] simD [OF sim, of x] by (auto simp: frame)
  moreover have "registry s' h t = Some c \<longrightarrow> (\<exists>k. heap s' c = Some k \<and> c_tag k = t \<and> c_props k \<noteq> None)"
    for h t c
    using nav_okD(3) [OF ok, of h t c] simD_Some [OF sim, of c] by (force simp: frame)
  moreover have "registry s' h t = Some c \<longrightarrow> registry s' h' t' = Some c \<longrightarrow> h = h' \<and> t = t'" for h t h' t' c
    using nav_okD(4) [OF ok, of h t c h' t'] by (simp add: frame)
  moreover have "rootComp s' = Some r \<longrightarrow> container_at (heap s') r \<and> parent_of (heap s') r = None \<and>
      (\<forall>h t. registry s' h t \<noteq> Some r)" for r
    using nav_okD(5) [OF ok] root sim_container [OF sim, of r] by (simp add: frame)
  ultimately show ?thesis
    using ready lists focus unfolding nav_ok_def by blast
qed

lemma focus_ok_drop: "currentFocus s' = None \<Longrightarrow> notices s' = ns @ [Blur t] \<Longrightarrow> focus_ok s'"
  by (simp add: focus_ok_def focus_tag_def js_focused_def)

lemma focus_ok_keep:
  assumes "focus_ok s" "sim (heap s) (heap s')" "currentFocus s' = currentFocus s" "notices s' = notices s"
    and "\<And>a x. currentFocus s = Some x \<Longrightarrow> container_at (heap s) a \<Longrightarrow> x \<in> set (list_at (heap s) a) \<Longrightarrow>
        x \<in> set (list_at (heap s') a)"
  shows "focus_ok s'"
proof -
  have "focus_tag s' = focus_tag s"
  proof (cases "currentFocus s")
    case None
    with assms(3) show ?thesis by (simp add: focus_tag_def)
  next
    case (Some c)
    with assms(3) simD [OF assms(2), of c] simD_Some [OF assms(2), of c] show ?thesis
      by (cases "heap s c") (auto simp: focus_tag_def)
  qed
  with assms sim_container [OF assms(2)] show ?thesis unfolding focus_ok_def by metis
qed

section \<open>Mounting keeps the invariant\<close>

definition edit_list :: "(cid list \<Rightarrow> cid list) \<Rightarrow> cid \<Rightarrow> nav \<Rightarrow> nav" where
  "edit_list f a s =
     (case heap s a of None \<Rightarrow> s | Some k \<Rightarrow> put_comp a (k\<lparr>c_navList := f (c_navList k)\<rparr>) s)"

abbreviation append_list :: "cid \<Rightarrow> cid list \<Rightarrow> nav \<Rightarrow> nav" where
  "append_list a xs \<equiv> edit_list (\<lambda>l. l @ xs) a"

lemma edit_list_id: "(\<And>l. f l = l) \<Longrightarrow> edit_list f a s = s"
proof -
  assume "\<And>l. f l = l"
  moreover have "put_comp a k s = s" if "heap s a = Some k" for k
    using that by (simp add: put_comp_def fun_upd_idem)
  ultimately show ?thesis by (simp add: edit_list_def split: option.split)
qed

lemma append_list_append: "append_list a ys (append_list a xs s) = append_list a (xs @ ys) s"
  by (simp add: edit_list_def put_comp_def split: option.split)

lemma edit_list_simps [simp]:
  "registry (edit_list f a s) = registry s" "nextCid (edit_list f a s) = nextCid s"
  "rootComp (edit_list f a s) = rootComp s" "currentFocus (edit_list f a s) = currentFocus s"
  "notices (edit_list f a s) = notices s"
  by (simp_all add: edit_list_def split: option.split)

lemma edit_list_same_tree: "same_tree (heap s) (heap (edit_list f a s))"
  by (cases "heap s a") (simp_all add: edit_list_def same_tree_put isContainer_def)

lemma edit_list_sim: "sim (heap s) (heap (edit_list f a s))"
  by (cases "heap s a") (simp_all add: edit_list_def sim_put isContainer_def)

lemma edit_list_focusable: "focusable_at (heap (edit_list f a s)) x = focusable_at (heap s) x"
  by (cases "heap s a") (auto simp: edit_list_def focusable_at_def isFocusable_def isContainer_def)

lemma edit_list_at: "heap s a \<noteq> None \<Longrightarrow> list_at (heap (edit_list f a s)) x =
    (if x = a then f (list_at (heap s) x) else list_at (heap s) x)"
  by (auto simp: edit_list_def list_at_def)

lemma edit_list_live: "heap (edit_list f a s) x = None \<longleftrightarrow> heap s x = None"
  using simD [OF edit_list_sim] by metis

lemma edit_list_ready: "heap (edit_list f a s) x = Some k \<Longrightarrow> \<exists>k0. heap s x = Some k0 \<and>
    c_parent k = c_parent k0 \<and> c_preferredFocus k = c_preferredFocus k0 \<and> c_props k = c_props k0"
  by (auto simp: edit_list_def split: option.splits if_splits)

lemma addComponent_append: "heap s a \<noteq> None \<Longrightarrow> heap s c \<noteq> None \<Longrightarrow>
    addComponent a c s = Some (append_list a [c] s)"
  by (auto simp: edit_list_def addComponent_result)

lemma mergeComponent_append: "heap s a \<noteq> None \<Longrightarrow> mergeComponent a cs s = Some (append_list a cs s)"
  by (auto simp: edit_list_def mergeComponent_result)

text \<open>Where the code looks for the container, after the child got its parent.\<close>

lemma mount_container:
  assumes m: "mounts h c p g"
    and attach: "container_at h p \<or> parent_of h p = None \<or> nearestAncestorContainer h p \<noteq> Some None"
  shows "(if container_at g p then Some p
          else Option.bind (nearestAncestorContainer g p)
            (\<lambda>a. Some (case a of None \<Rightarrow> p | Some q \<Rightarrow> q))) = Some (target h p)"
proof -
  note moved = mounts_moved [OF m]
  have ct: "container_at g x = container_at h x" for x using reparentedD(2) [OF moved] .
  have gp: "g p \<noteq> None" using mounts_live(2) [OF m] reparentedD(1) [OF moved] by simp
  have pp: "parent_of g p = parent_of h p" using mounts_neq [OF m] reparentedD(4) [OF moved] by simp
  have ow: "owns g a p \<longleftrightarrow> owns h a p" for a
    using mounts_neq [OF m] mounts_not_owner [OF m] by (simp add: owns_after [OF m])
  show ?thesis
  proof (cases "container_at h p")
    case True
    then show ?thesis by (simp add: ct target_def)
  next
    case nc: False
    show ?thesis
    proof (cases "parent_of h p = None")
      case True
      from gp obtain k where "g p = Some k" by blast
      with True pp have "nearestAncestorContainer g p = Some None"
        by (simp add: nearest_step parent_of_def)
      with nc True show ?thesis by (simp add: ct target_def)
    next
      case False
      obtain a where "nearestAncestorContainer h p = Some a"
        using nearest_total mounts_tree [OF m mounts_live(2) [OF m]] by blast
      with attach nc False obtain q where "nearestAncestorContainer h p = Some (Some q)"
        by (cases a) auto
      then have q: "owns h q p" "container_at h q"
        using nearest_owner mounts_tree [OF m mounts_live(2) [OF m]] by blast+
      then have "nearestAncestorContainer g p = Some (Some q)"
        using nearest_owner [OF mounts_rooted [OF m gp], of q] ow ct by simp
      with nc False q target_unique show ?thesis by (auto simp: ct)
    qed
  qed
qed

lemma target_live: "mounts h c p g \<Longrightarrow> h (target h p) \<noteq> None"
proof -
  assume m: "mounts h c p g"
  have own: "h a \<noteq> None" if "owns h a x" "rooted h x" for a x
    using that
  proof (induction rule: owns.induct)
    case (owns_here x p)
    then have "rooted h p" by (auto elim: rooted.cases)
    then show ?case by (rule rooted_live)
  next
    case (owns_above x p a)
    from owns_above.prems owns_above.hyps(1) have "rooted h p" by (auto elim: rooted.cases)
    then show ?case by (rule owns_above.IH)
  qed
  show ?thesis
  proof (cases "container_at h p \<or> parent_of h p = None")
    case True
    with mounts_live(2) [OF m] show ?thesis by (simp add: target_def)
  next
    case False
    note r = mounts_tree [OF m mounts_live(2) [OF m]]
    from False owner_exists [OF r] obtain a where "owns h a p" by blast
    with False target_unique [OF this] own [OF this r] show ?thesis by simp
  qed
qed

lemma mount_result:
  assumes m: "mounts (heap s) c p ((heap s)(c := Some (ck\<lparr>c_parent := Some p\<rparr>)))"
    and ck: "heap s c = Some ck" and props: "c_props ck \<noteq> None"
    and attach: "container_at (heap s) p \<or> parent_of (heap s) p = None \<or>
        nearestAncestorContainer (heap s) p \<noteq> Some None"
  shows "mountChildComponent p c s = Some (append_list (target (heap s) p)
      ((if isFocusable ck = Some True then [c] else []) @ (if isContainer ck then [] else c_navList ck))
      (put_comp c (ck\<lparr>c_parent := Some p\<rparr>) s))"
proof -
  let ?s1 = "put_comp c (ck\<lparr>c_parent := Some p\<rparr>) s" and ?t = "target (heap s) p"
  have g: "heap ?s1 = (heap s)(c := Some (ck\<lparr>c_parent := Some p\<rparr>))" by simp
  note mc = mount_container [OF m attach, folded g]
  from mounts_live(2) [OF m] obtain pk where pk: "heap ?s1 p = Some pk" by (cases "p = c") auto
  then have ct: "container_at (heap ?s1) p = isContainer pk" by (simp add: container_at_def)
  have t1: "heap ?s1 ?t \<noteq> None" using target_live [OF m] by simp
  have c1: "heap ?s1 c \<noteq> None" by simp
  from props obtain f where f: "isFocusable ck = Some f" by (auto simp: isFocusable_def)
  have cont: "isContainer ck \<Longrightarrow> f" using f by (auto simp: isFocusable_def split: bind_splits)
  have add: "addComponent ?t c ?s1 = Some (append_list ?t [c] ?s1)"
    by (rule addComponent_append [OF t1 c1])
  have merge: "mergeComponent ?t cs (append_list ?t xs ?s1) = Some (append_list ?t (xs @ cs) ?s1)" for xs cs
    using t1 by (simp add: mergeComponent_append edit_list_live append_list_append)
  have merge0: "mergeComponent ?t cs ?s1 = Some (append_list ?t cs ?s1)" for cs
    using merge [of cs "[]"] by (simp add: edit_list_id)
  have "mountChildComponent p c s =
     (if f then (if \<not> isContainer ck \<and> c_navList ck \<noteq> [] then mergeComponent ?t (c_navList ck) (append_list ?t [c] ?s1)
                 else Some (append_list ?t [c] ?s1))
      else if c_navList ck \<noteq> [] then mergeComponent ?t (c_navList ck) ?s1 else Some ?s1)"
    unfolding mountChildComponent_def ck Option.bind.bind_lunit Let_def pk
    using mc unfolding ct by (simp add: f add)
  then show ?thesis
    using cont by (auto simp: f merge merge0 edit_list_id)
qed

lemma mount_ok_step:
  assumes ok: "nav_ok s" and c: "heap s c = Some ck" and p: "heap s p \<noteq> None"
    and loose: "c_parent ck = None" and top: "tree_top (heap s) p \<noteq> Some c"
    and attach: "container_at (heap s) p \<or> parent_of (heap s) p = None \<or>
        nearestAncestorContainer (heap s) p \<noteq> Some None"
    and clean: "\<not> isContainer ck \<Longrightarrow> distinct (c_navList ck) \<and>
        (\<forall>x \<in> set (c_navList ck). belongs (heap s) c x)"
    and ready: "c_preferredFocus ck \<noteq> None" "c_props ck \<noteq> None" and root: "rootComp s \<noteq> Some c"
  shows "\<exists>s'. mountChildComponent p c s = Some s' \<and> nav_ok s'"
proof -
  let ?ck = "ck\<lparr>c_parent := Some p\<rparr>"
  let ?h = "heap s" and ?g = "(heap s)(c := Some ?ck)" and ?t = "target (heap s) p"
  let ?new = "(if isFocusable ck = Some True then [c] else []) @ (if isContainer ck then [] else c_navList ck)"
  let ?s1 = "put_comp c ?ck s" and ?s2 = "append_list ?t ?new (put_comp c ?ck s)"
  have r: "reparented ?h c (Some p) ?g" using c by (rule reparented_put)
  have m: "mounts ?h c p ?g"
    using nav_okD(1) [OF ok] c p loose top r by (simp add: mounts_def parent_of_def)
  note res = mount_result [OF m c ready(2) attach]
  have st: "same_tree ?g (heap ?s2)" using edit_list_same_tree [of ?s1] by simp
  have m2: "mounts ?h c p (heap ?s2)"
    using m reparented_same_tree [OF r st] by (simp add: mounts_def)
  have ccon: "container_at ?h c = isContainer ck" and cfoc: "focusable_at ?h c = (isFocusable ck = Some True)"
    and clist: "list_at ?h c = c_navList ck"
    by (simp_all add: c container_at_def focusable_at_def list_at_def)
  have tg: "heap ?s1 ?t \<noteq> None" using target_live [OF m] by simp
  have foc: "focusable_at (heap ?s2) x = focusable_at ?h x" for x
    using c unfolding edit_list_focusable by (auto simp: focusable_at_def isFocusable_def isContainer_def)
  have la: "list_at ?g x = list_at ?h x" for x
    using c by (simp add: list_at_def)
  have lists: "lists_ok (heap ?s2)"
    by (rule lists_ok_mount [OF nav_okD(7) [OF ok] m2 foc])
      (use clean in \<open>simp_all add: ccon cfoc clist edit_list_at [OF tg] la\<close>)
  have sim: "sim ?h (heap ?s2)"
    using c by (intro sim_trans [OF _ edit_list_sim]) (simp add: sim_put isContainer_def)
  have mem: "x \<in> set (list_at ?h a) \<Longrightarrow> x \<in> set (list_at (heap ?s2) a)" for a x
    unfolding edit_list_at [OF tg] by (auto simp: la)
  have par: "parent_of (heap ?s2) x = (if x = c then Some p else parent_of ?h x)" for x
    using reparentedD(3,4) [OF mounts_moved [OF m2]] by simp
  have "nav_ok ?s2"
  proof (rule nav_ok_intro [OF ok])
    show "sim ?h (heap ?s2)" "lists_ok (heap ?s2)" by (fact sim, fact lists)
    show "heap ?s2 x \<noteq> None \<Longrightarrow> rooted (heap ?s2) x" for x by (rule mounts_rooted [OF m2])
    show "parent_of (heap ?s2) r = None" if "rootComp s = Some r" for r
      using that root nav_okD(5) [OF ok that] par by auto
    show "c_preferredFocus k \<noteq> None \<and> c_props k \<noteq> None"
      if "heap ?s2 x = Some k" "c_parent k \<noteq> None" for x k
    proof -
      have "\<exists>k0. ?g x = Some k0 \<and> c_parent k0 \<noteq> None \<and> c_preferredFocus k = c_preferredFocus k0 \<and>
          c_props k = c_props k0"
        using edit_list_ready [OF that(1)] that(2) by auto
      then show ?thesis using ready nav_okD(6) [OF ok, of x] by (auto split: if_splits)
    qed
    show "focus_ok ?s2" by (rule focus_ok_keep [OF nav_okD(8) [OF ok] sim]) (use mem in auto)
  qed simp_all
  with res show ?thesis by blast
qed

section \<open>Unmounting and updating keep the invariant\<close>

definition cut_list :: "cid \<Rightarrow> cid \<Rightarrow> comp \<Rightarrow> nav \<Rightarrow> nav" where
  "cut_list a c k s = edit_list (remove1 c) a (drop_focus c k s)"

lemma cut_list_simps [simp]:
  "registry (cut_list a c k s) = registry s" "nextCid (cut_list a c k s) = nextCid s"
  "rootComp (cut_list a c k s) = rootComp s"
  "heap (cut_list a c k s) = heap (edit_list (remove1 c) a s)"
  by (simp_all add: cut_list_def edit_list_def split: option.split)

lemma removeComponent_cut: "heap s a \<noteq> None \<Longrightarrow> heap s c = Some k \<Longrightarrow> c \<in> set (list_at (heap s) a) \<Longrightarrow>
    removeComponent a c s = Some (cut_list a c k s)"
  by (auto simp: removeComponent_result cut_list_def edit_list_def list_at_def)

lemma focus_ok_cut:
  assumes "focus_ok s" and a: "heap s a \<noteq> None"
    and heap: "sim (heap s) (heap s')" "\<And>b. list_at (heap s') b = list_at (heap (cut_list a c k s)) b"
    and eq: "currentFocus s' = currentFocus (cut_list a c k s)" "notices s' = notices (cut_list a c k s)"
  shows "focus_ok s'"
proof (cases "currentFocus s = Some c")
  case True
  with eq show ?thesis
    by (intro focus_ok_drop [where ns = "notices s" and t = "c_tag k"])
      (simp_all add: cut_list_def drop_focus_def notify_def)
next
  case False
  show ?thesis
  proof (rule focus_ok_keep [OF assms(1) heap(1)])
    fix b x
    assume "currentFocus s = Some x" "x \<in> set (list_at (heap s) b)"
    with False a show "x \<in> set (list_at (heap s') b)"
      by (auto simp: heap(2) edit_list_at)
  qed (use False eq in \<open>simp_all add: cut_list_def drop_focus_def\<close>)
qed

lemma nav_ok_pending [simp]: "nav_ok (s\<lparr>pendingFocus := ps\<rparr>) = nav_ok s"
  by (simp add: nav_ok_def focus_ok_def focus_tag_def)

lemma focusable_put: "h c = Some k \<Longrightarrow> c_props k' = c_props k \<Longrightarrow> c_kind k' = c_kind k \<Longrightarrow>
    focusable_at (h(c := Some k')) x = focusable_at h x"
  by (simp add: focusable_at_def isFocusable_def isContainer_def)

lemma unmount_ok_step:
  assumes ok: "nav_ok s" and c: "heap s c = Some ck" and par: "c_parent ck \<noteq> None"
    and kids: "isContainer ck \<or> (\<forall>x. parent_of (heap s) x \<noteq> Some c)"
  shows "\<exists>s'. unmountChildComponent c s = Some s' \<and> nav_ok s'"
proof -
  let ?h = "heap s"
  have live: "?h c \<noteq> None" using c by simp
  note rooted = nav_okD(1) [OF ok live]
  obtain a where a: "nearestAncestorContainer ?h c = Some a" using nearest_total [OF rooted] by blast
  have own: "a = Some q \<longleftrightarrow> owns ?h q c \<and> container_at ?h q" for q
    using nearest_owner [OF rooted, of q] a by simp
  from nav_okD(6) [OF ok c par] obtain f where f: "isFocusable ck = Some f"
    by (auto simp: isFocusable_def)
  define s1 where "s1 = (case a of Some q \<Rightarrow> if f then cut_list q c ck s else s | None \<Rightarrow> s)"
  have mem: "c \<in> set (list_at ?h q) \<longleftrightarrow> f" if "a = Some q" for q
    using lists_ok_container(2) [OF nav_okD(7) [OF ok], of q c] own [of q] that c f
    by (simp add: belongs_def focusable_at_def)
  have q_live: "?h q \<noteq> None" if "a = Some q" for q
    using own [of q] that by (cases "?h q") (auto simp: container_at_def)
  have sim1: "sim ?h (heap s1)" and tree1: "same_tree ?h (heap s1)"
    and foc1: "focusable_at (heap s1) x = focusable_at ?h x" for x
    by (simp_all add: s1_def edit_list_sim edit_list_same_tree edit_list_focusable split: option.split)
  have list1: "list_at (heap s1) b =
      (if owns ?h b c \<and> container_at ?h b then remove1 c (list_at ?h b) else list_at ?h b)" for b
  proof (cases a)
    case None
    with own [of b] have "\<not> (owns ?h b c \<and> container_at ?h b)" by simp
    with None show ?thesis by (simp add: s1_def del: de_Morgan_conj)
  next
    case (Some q)
    with own [of b] have e: "owns ?h b c \<and> container_at ?h b \<longleftrightarrow> b = q" by auto
    show ?thesis
      using Some mem [OF Some] q_live [OF Some] unfolding e
      by (simp add: s1_def edit_list_at remove1_idem)
  qed
  obtain ck1 where ck1: "heap s1 c = Some ck1" using simD [OF sim1, of c] c by auto
  have run: "unmountChildComponent c s = Some (put_comp c (ck1\<lparr>c_parent := None\<rparr>) s1)"
  proof (cases a)
    case None
    with ck1 show ?thesis by (simp add: unmountChildComponent_def c a s1_def)
  next
    case (Some q)
    have "removeComponent q c s = Some (cut_list q c ck s)" if f
      using removeComponent_cut [OF q_live [OF Some] c] mem [OF Some] that by simp
    with Some ck1 c f show ?thesis
      by (cases f) (simp_all add: unmountChildComponent_def a f s1_def)
  qed
  let ?s2 = "put_comp c (ck1\<lparr>c_parent := None\<rparr>) s1"
  have rp1: "reparented (heap s1) c None (heap ?s2)"
    using ck1 unfolding put_comp_simps(1) by (rule reparented_put)
  have rp: "reparented ?h c None (heap ?s2)"
    using rp1 tree1 by (simp add: reparented_def same_tree_def)
  have u: "unmounts ?h c (heap ?s2)"
    using nav_okD(1) [OF ok] rp kids c by (auto simp: unmounts_def container_at_def)
  have list2: "list_at (heap ?s2) b = list_at (heap s1) b" for b
    using ck1 by (simp add: list_at_def)
  have foc2: "focusable_at (heap ?s2) x = focusable_at ?h x" for x
    using ck1 by (simp add: focusable_put foc1)
  have sim2: "sim ?h (heap ?s2)"
    using ck1 by (intro sim_trans [OF sim1]) (simp add: sim_put isContainer_def)
  have "nav_ok ?s2"
  proof (rule nav_ok_intro [OF ok])
    show "registry ?s2 = registry s" "nextCid ?s2 = nextCid s" "rootComp ?s2 = rootComp s"
      by (simp_all add: s1_def split: option.split)
    show "sim ?h (heap ?s2)" by (fact sim2)
    show "heap ?s2 x \<noteq> None \<Longrightarrow> rooted (heap ?s2) x" for x by (rule unmounts_rooted [OF u])
    show "parent_of (heap ?s2) r = None" if "rootComp s = Some r" for r
      using nav_okD(5) [OF ok that] reparentedD(3,4) [OF rp] by (cases "r = c") auto
    show "lists_ok (heap ?s2)"
      by (rule lists_ok_unmount [OF nav_okD(7) [OF ok] u foc2]) (simp only: list2 list1)
    show "c_preferredFocus k \<noteq> None \<and> c_props k \<noteq> None"
      if k: "heap ?s2 x = Some k" "c_parent k \<noteq> None" for x k
    proof -
      from k have "heap s1 x = Some k" by (auto split: if_splits)
      then have "\<exists>k0. ?h x = Some k0 \<and> c_parent k = c_parent k0 \<and>
          c_preferredFocus k = c_preferredFocus k0 \<and> c_props k = c_props k0"
        by (auto simp: s1_def dest: edit_list_ready split: option.splits if_splits)
      with k(2) nav_okD(6) [OF ok, of x] show ?thesis by auto
    qed
    show "focus_ok ?s2"
    proof (cases "\<exists>q. a = Some q \<and> f")
      case True
      then obtain q where q: "a = Some q" "s1 = cut_list q c ck s" by (auto simp: s1_def)
      have "list_at (heap ?s2) b = list_at (heap (cut_list q c ck s)) b" for b
        unfolding list2 by (simp only: q(2))
      then show ?thesis
        by (rule focus_ok_cut [OF nav_okD(8) [OF ok] q_live [OF q(1)] sim2]) (simp_all add: q(2))
    next
      case False
      then have s1: "s1 = s" by (auto simp: s1_def split: option.split)
      show ?thesis
        by (rule focus_ok_keep [OF nav_okD(8) [OF ok] sim2]) (use list2 s1 in simp_all)
    qed
  qed
  with run show ?thesis by blast
qed

lemma updateProps_result:
  assumes "heap s c = Some k" and "c_props k = Some old"
  shows "\<exists>z pf ps. updateProps force new c s =
      Some ((put_comp c (k\<lparr>c_zIndex := z, c_preferredFocus := pf\<rparr>) s)\<lparr>pendingFocus := ps\<rparr>) \<and>
      (force \<or> c_preferredFocus k \<noteq> None \<longrightarrow> pf \<noteq> None)"
proof -
  have put: "put_comp c k' s = (put_comp c k' s)\<lparr>pendingFocus := pendingFocus s\<rparr>" for k'
    by (simp add: put_comp_def)
  have same: "k\<lparr>c_zIndex := z\<rparr> = k\<lparr>c_zIndex := z, c_preferredFocus := c_preferredFocus k\<rparr>" for z
    by simp
  define z where "z = (if force \<or> vp_zIndex old \<noteq> vp_zIndex new
    then (case vp_zIndex new of Some z \<Rightarrow> z | None \<Rightarrow> 0) else c_zIndex k)"
  show ?thesis
  proof (cases "force \<or> hasTVPreferredFocus old \<noteq> hasTVPreferredFocus new")
    case True
    with assms show ?thesis
      by (intro exI [of _ z] exI [of _ "Some (hasTVPreferredFocus new)"]
            exI [of _ "if hasTVPreferredFocus new then pendingFocus s @ [c] else pendingFocus s"])
        (auto simp: updateProps_def Let_def setNeedFocusUpdate_def put_comp_def z_def)
  next
    case False
    with assms show ?thesis
      by (intro exI [of _ z] exI [of _ "c_preferredFocus k"] exI [of _ "pendingFocus s"])
        (auto simp: updateProps_def Let_def put_comp_def z_def)
  qed
qed

lemma updateComponent_pending: "updateComponent a c (s\<lparr>pendingFocus := ps\<rparr>) =
    map_option (\<lambda>t. t\<lparr>pendingFocus := ps\<rparr>) (updateComponent a c s)"
proof -
  have st: "updateSpatialNavigatorState op x (t\<lparr>pendingFocus := ps\<rparr>) =
      map_option (\<lambda>u. u\<lparr>pendingFocus := ps\<rparr>) (updateSpatialNavigatorState op x t)" for op x t
    by (cases op; cases "heap t x") (simp_all add: updateSpatialNavigatorState_def notify_def)
  show ?thesis
    by (cases "heap s a"; cases "heap s c")
      (auto simp: updateComponent_def addComponent_def st put_comp_def notify_def
        updateSpatialNavigatorState_def split: bind_splits)
qed

text \<open>New properties for a component that is either not mounted or below a container.\<close>

lemma props_ok_step:
  assumes ok: "nav_ok s" and c: "heap s c = Some ck" and props: "c_props ck \<noteq> None"
    and new: "v_props v = Some new" and root: "rootComp s \<noteq> Some c"
    and place: "c_parent ck = None \<or> nearestAncestorContainer (heap s) c \<noteq> Some None"
    and force: "force \<or> c_preferredFocus ck \<noteq> None"
  shows "\<exists>s1 k1. propsUpdate force v c s = Some s1 \<and> nav_ok s1 \<and> heap s1 c = Some k1 \<and>
      c_preferredFocus k1 \<noteq> None \<and> c_props k1 \<noteq> None \<and> isContainer k1 = isContainer ck \<and>
      c_parent k1 = c_parent ck \<and> same_tree (heap s) (heap s1) \<and> rootComp s1 = rootComp s \<and>
      (c_parent ck = None \<longrightarrow> c_navList k1 = c_navList ck \<and>
        (\<forall>x. x \<noteq> c \<longrightarrow> focusable_at (heap s1) x = focusable_at (heap s) x))"
proof -
  let ?h = "heap s"
  from props obtain old where old: "c_props ck = Some old" by blast
  from updateProps_result [OF c old, of force new] obtain z pf ps where
    up: "updateProps force new c s =
      Some ((put_comp c (ck\<lparr>c_zIndex := z, c_preferredFocus := pf\<rparr>) s)\<lparr>pendingFocus := ps\<rparr>)"
    and pf: "pf \<noteq> None" using force by blast
  let ?k2 = "ck\<lparr>c_zIndex := z, c_preferredFocus := pf, c_props := Some new\<rparr>"
  let ?s2 = "put_comp c ?k2 s"
  let ?g = "?h(c := Some ?k2)"
  have tree2: "same_tree ?h ?g" using c by (simp add: same_tree_put isContainer_def)
  have sim2: "sim ?h ?g" using c by (simp add: sim_put isContainer_def)
  define f where "f = (isTVSelectable new \<or> focusable new \<or> isContainer ck)"
  have f: "isFocusable ?k2 = Some f" by (simp add: isFocusable_def f_def isContainer_def)
  have list2: "list_at ?g x = list_at ?h x" for x using c by (simp add: list_at_def)
  have live: "?h c \<noteq> None" using c by simp
  note rooted = nav_okD(1) [OF ok live]
  note rooted2 = same_tree_rooted [OF rooted tree2]
  obtain a where a: "nearestAncestorContainer ?g c = Some a" using nearest_total [OF rooted2] by blast
  have own: "a = Some q \<longleftrightarrow> owns ?h q c \<and> container_at ?h q" for q
    using nearest_owner [OF rooted2, of q] a same_tree_owns [OF tree2] tree2 by (simp add: same_tree_def)
  have loose: "\<not> owns ?h q c" if "c_parent ck = None" for q
    using that c owner_parent [of ?h q c] by (auto simp: parent_of_def)
  have a_place: "a = None \<longleftrightarrow> c_parent ck = None"
  proof
    assume "a = None"
    moreover obtain b where b: "nearestAncestorContainer ?h c = Some b"
      using nearest_total [OF rooted] by blast
    moreover have "b = Some q \<longleftrightarrow> a = Some q" for q
      using own [of q] nearest_owner [OF rooted, of q] b by simp
    ultimately show "c_parent ck = None" using place by (cases b) auto
  next
    assume "c_parent ck = None"
    with own loose show "a = None" by (cases a) auto
  qed
  have owner: "owns ?h q c \<Longrightarrow> container_at ?h q" for q
  proof -
    assume q: "owns ?h q c"
    with loose a_place obtain r where "a = Some r" by (cases a) auto
    with own [of r] q show ?thesis by (auto dest: owns_unique)
  qed
  define s3 where "s3 = (case a of None \<Rightarrow> ?s2
    | Some q \<Rightarrow> if c \<in> set (list_at ?h q) then if f then ?s2 else cut_list q c ?k2 ?s2
                else if f then append_list q [c] ?s2 else ?s2)"
  have q_live: "?h q \<noteq> None" "?g q \<noteq> None" if "a = Some q" for q
    using own [of q] that by (cases "?h q"; auto simp: container_at_def)+
  have run: "(case a of None \<Rightarrow> Some ?s2 | Some q \<Rightarrow> updateComponent q c ?s2) = Some s3"
  proof (cases a)
    case None
    then show ?thesis by (simp add: s3_def)
  next
    case (Some q)
    from q_live(2) [OF Some] obtain qk where qk: "?g q = Some qk" by blast
    then have "c_navList qk = list_at ?h q" using list2 [of q] by (simp add: list_at_def)
    with Some qk show ?thesis
      by (simp add: s3_def updateComponent_result [OF _ _ f] cut_list_def edit_list_def)
  qed
  have sim3: "sim ?g (heap s3)" and tree3: "same_tree ?g (heap s3)"
    and foc3: "focusable_at (heap s3) x = focusable_at ?g x"
    and frame: "registry s3 = registry s" "nextCid s3 = nextCid s" "rootComp s3 = rootComp s" for x
    using edit_list_sim [of ?s2] edit_list_same_tree [of ?s2] edit_list_focusable [where s = ?s2]
    by (simp_all add: s3_def split: option.split)
  have fc: "focusable_at ?g c = f" using f by (simp add: focusable_at_def)
  have list3: "list_at (heap s3) b = (if \<not> owns ?h b c then list_at ?h b
        else if focusable_at (heap s3) c then (if c \<in> set (list_at ?h b) then list_at ?h b else list_at ?h b @ [c])
        else remove1 c (list_at ?h b))" for b
  proof (cases a)
    case None
    with own owner have "\<not> owns ?h b c" by blast
    with None show ?thesis by (simp add: s3_def list2)
  next
    case (Some q)
    have e: "owns ?h b c \<longleftrightarrow> b = q" using own [of b] own [of q] Some owner by auto
    have g2: "heap ?s2 = ?g" by simp
    have ql: "heap ?s2 q \<noteq> None" using q_live(2) [OF Some] by simp
    show ?thesis
      unfolding e foc3 fc
      using Some by (simp add: s3_def edit_list_at [OF ql] list2 remove1_idem)
  qed
  have simt: "sim ?h (heap s3)" by (rule sim_trans [OF sim2 sim3])
  have treet: "same_tree ?h (heap s3)" by (rule same_tree_trans [OF tree2 tree3])
  have foc_other: "x \<noteq> c \<Longrightarrow> focusable_at (heap s3) x = focusable_at ?h x" for x
    unfolding foc3 by (simp add: focusable_at_def)
  have ready3: "\<exists>k0. ?g x = Some k0 \<and> c_parent k = c_parent k0 \<and>
      c_preferredFocus k = c_preferredFocus k0 \<and> c_props k = c_props k0" if "heap s3 x = Some k" for x k
    using that edit_list_ready [where s = ?s2 and x = x and k = k]
    by (auto simp: s3_def split: option.splits if_splits)
  have "nav_ok s3"
  proof (rule nav_ok_intro [OF ok frame simt])
    show "rooted (heap s3) x" if "heap s3 x \<noteq> None" for x
    proof -
      have "?h x \<noteq> None" using that simD [OF simt, of x] by simp
      then show ?thesis by (rule same_tree_rooted [OF nav_okD(1) [OF ok] treet])
    qed
    show "parent_of (heap s3) r = None" if "rootComp s = Some r" for r
      using nav_okD(5) [OF ok that] treet by (simp add: same_tree_def)
    show "lists_ok (heap s3)"
      by (rule lists_ok_update [OF nav_okD(7) [OF ok] treet foc_other owner list3])
    show "c_preferredFocus k \<noteq> None \<and> c_props k \<noteq> None"
      if k: "heap s3 x = Some k" "c_parent k \<noteq> None" for x k
    proof -
      from ready3 [OF k(1)] obtain k0 where k0: "?g x = Some k0" "c_parent k0 \<noteq> None"
        "c_preferredFocus k = c_preferredFocus k0" "c_props k = c_props k0" using k(2) by auto
      with pf nav_okD(6) [OF ok, of x k0] show ?thesis by (cases "x = c") auto
    qed
    show "focus_ok s3"
    proof (cases "\<exists>q. s3 = cut_list q c ?k2 ?s2 \<and> a = Some q")
      case True
      then obtain q where q: "s3 = cut_list q c ?k2 ?s2" "a = Some q" by blast
      have fo: "focus_ok ?s2"
        by (rule focus_ok_keep [OF nav_okD(8) [OF ok]]) (use sim2 list2 in simp_all)
      show ?thesis
      proof (rule focus_ok_cut [OF fo])
        show "heap ?s2 q \<noteq> None" using q_live(2) [OF q(2)] by simp
        show "sim (heap ?s2) (heap s3)" using sim3 by simp
      qed (simp_all only: q(1))
    next
      case False
      have d: "s3 = ?s2 \<or> (\<exists>q. a = Some q \<and> s3 = append_list q [c] ?s2)"
      proof (cases a)
        case None
        then show ?thesis by (simp add: s3_def)
      next
        case (Some q)
        with False have "s3 \<noteq> cut_list q c ?k2 ?s2" by blast
        with Some show ?thesis
          unfolding s3_def by (cases "c \<in> set (list_at ?h q)"; cases f) simp_all
      qed
      then have n: "currentFocus s3 = currentFocus s" "notices s3 = notices s" by auto
      show ?thesis
      proof (rule focus_ok_keep [OF nav_okD(8) [OF ok] simt n])
        fix b x
        assume "x \<in> set (list_at ?h b)"
        moreover have "list_at (heap s3) b = list_at ?h b \<or> list_at (heap s3) b = list_at ?h b @ [c]"
          using d
        proof
          assume "s3 = ?s2"
          then show ?thesis by (simp add: list2)
        next
          assume "\<exists>q. a = Some q \<and> s3 = append_list q [c] ?s2"
          then obtain q where q: "a = Some q" "s3 = append_list q [c] ?s2" by blast
          have "heap ?s2 q \<noteq> None" using q_live(2) [OF q(1)] by simp
          then show ?thesis unfolding q(2) by (simp add: edit_list_at list2)
        qed
        ultimately show "x \<in> set (list_at (heap s3) b)" by auto
      qed
    qed
  qed
  moreover have "propsUpdate force v c s = Some (s3\<lparr>pendingFocus := ps\<rparr>)"
  proof -
    have s2: "put_comp c ?k2 ((put_comp c (ck\<lparr>c_zIndex := z, c_preferredFocus := pf\<rparr>) s)\<lparr>pendingFocus := ps\<rparr>)
        = ?s2\<lparr>pendingFocus := ps\<rparr>"
      by (simp add: put_comp_def)
    have "propsUpdate force v c s =
        (case a of None \<Rightarrow> Some (?s2\<lparr>pendingFocus := ps\<rparr>) | Some q \<Rightarrow> updateComponent q c (?s2\<lparr>pendingFocus := ps\<rparr>))"
      using a by (simp add: propsUpdate_def new up s2 Let_def)
    also have "\<dots> = map_option (\<lambda>t. t\<lparr>pendingFocus := ps\<rparr>)
        (case a of None \<Rightarrow> Some ?s2 | Some q \<Rightarrow> updateComponent q c ?s2)"
      by (simp add: updateComponent_pending split: option.split)
    finally show ?thesis by (simp add: run)
  qed
  moreover obtain k1 where k1: "heap s3 c = Some k1" using simD [OF simt, of c] c by auto
  moreover from simD_Some [OF simt c] k1 have "isContainer k1 = isContainer ck" by simp
  moreover from ready3 [OF k1] pf have "c_preferredFocus k1 \<noteq> None" "c_props k1 \<noteq> None"
    "c_parent k1 = c_parent ck" by auto
  moreover have "c_navList k1 = c_navList ck" if "c_parent ck = None"
    using that list3 [of c] loose k1 c by (simp add: list_at_def)
  ultimately show ?thesis
    using treet foc_other frame(3) by (intro exI [of _ "s3\<lparr>pendingFocus := ps\<rparr>"] exI [of _ k1]) simp
qed

section \<open>Creating and deleting\<close>

text \<open>A heap with one more component, which is in no one's tree.\<close>

definition adds :: "(cid \<Rightarrow> comp option) \<Rightarrow> cid \<Rightarrow> (cid \<Rightarrow> comp option) \<Rightarrow> bool" where
  "adds h c g \<longleftrightarrow> h c = None \<and> g c \<noteq> None \<and> parent_of g c = None \<and> (\<forall>x. parent_of g x \<noteq> Some c) \<and>
     (\<forall>x. x \<noteq> c \<longrightarrow> g x = h x)"

lemma addsD: "adds h c g \<Longrightarrow> parent_of g x = parent_of h x"
  "adds h c g \<Longrightarrow> x \<noteq> c \<Longrightarrow> container_at g x = container_at h x"
  by (cases "x = c"; simp add: adds_def parent_of_def container_at_def)+

lemma owner_has_child: "owns h a x \<Longrightarrow> \<exists>y. parent_of h y = Some a"
  by (induction rule: owns.induct) auto

lemma owns_add: "adds h c g \<Longrightarrow> owns g a x \<longleftrightarrow> owns h a x"
proof
  assume ad: "adds h c g"
  have nc: "parent_of g y \<noteq> Some c" for y using ad by (simp add: adds_def)
  show "owns h a x" if "owns g a x"
    using that
  proof (induction rule: owns.induct)
    case (owns_here x p)
    with nc have "p \<noteq> c" by auto
    with owns_here show ?case using addsD [OF ad] by (auto intro: owns.owns_here)
  next
    case (owns_above x p a)
    with nc have "p \<noteq> c" by auto
    with owns_above show ?case using addsD [OF ad] by (auto intro: owns.owns_above)
  qed
  show "owns g a x" if "owns h a x"
    using that
  proof (induction rule: owns.induct)
    case (owns_here x p)
    with nc addsD(1) [OF ad] have "p \<noteq> c" by metis
    with owns_here show ?case using addsD [OF ad] by (auto intro: owns.owns_here)
  next
    case (owns_above x p a)
    with nc addsD(1) [OF ad] have "p \<noteq> c" by metis
    with owns_above show ?case using addsD [OF ad] by (auto intro: owns.owns_above)
  qed
qed

lemma rooted_add: "adds h c g \<Longrightarrow> x \<noteq> c \<Longrightarrow> rooted g x \<longleftrightarrow> rooted h x"
proof
  assume ad: "adds h c g"
  have same: "g y = None \<longleftrightarrow> h y = None" if "y \<noteq> c" for y using ad that by (simp add: adds_def)
  have nc: "parent_of g y \<noteq> Some c" for y using ad by (simp add: adds_def)
  show "rooted h x" if "rooted g x" "x \<noteq> c"
    using that
  proof (induction rule: rooted.induct)
    case (rooted_top x)
    then show ?case using same [of x] addsD(1) [OF ad, of x] by (metis rooted.rooted_top)
  next
    case (rooted_step x p)
    then have "p \<noteq> c" using nc by auto
    with rooted_step show ?case using same [of x] addsD(1) [OF ad, of x] by (metis rooted.rooted_step)
  qed
  show "rooted g x" if "rooted h x"
    using that
  proof (induction rule: rooted.induct)
    case (rooted_top x)
    then have "x \<noteq> c" using ad by (auto simp: adds_def)
    with rooted_top show ?case using same [of x] addsD(1) [OF ad, of x] by (metis rooted.rooted_top)
  next
    case (rooted_step x p)
    then have "x \<noteq> c" using ad by (auto simp: adds_def)
    with rooted_step show ?case using same [of x] addsD(1) [OF ad, of x] by (metis rooted.rooted_step)
  qed
qed

lemma add_not_owned: "adds h c g \<Longrightarrow> \<not> owns h a c" "adds h c g \<Longrightarrow> \<not> owns h c x"
proof -
  assume ad: "adds h c g"
  then have "parent_of g c = None" by (simp add: adds_def)
  then show "\<not> owns h a c" using owner_parent [of h a c] addsD(1) [OF ad, of c] by auto
  show "\<not> owns h c x"
    using owner_has_child [of h c x] addsD(1) [OF ad] ad by (auto simp: adds_def)
qed

lemma belongs_add: "adds h c g \<Longrightarrow> belongs g a x \<longleftrightarrow> belongs h a x"
  using add_not_owned(1) [of h c g a]
  by (cases "x = c") (auto simp: belongs_def owns_add focusable_at_def adds_def)

lemma list_add: "adds h c g \<Longrightarrow> x \<noteq> c \<Longrightarrow> list_at g x = list_at h x"
  by (simp add: adds_def list_at_def)

lemma lists_ok_add: "adds h c g \<Longrightarrow> list_at g c = [] \<Longrightarrow> lists_ok h \<Longrightarrow> lists_ok g"
proof -
  assume ad: "adds h c g" and e: "list_at g c = []" and ok: "lists_ok h"
  have nb: "\<not> belongs h c x" for x using add_not_owned(2) [OF ad] by (simp add: belongs_def)
  have "distinct (list_at g a) \<and> (\<forall>x. x \<in> set (list_at g a) \<longleftrightarrow> belongs g a x)" if "container_at g a" for a
    using that e nb lists_ok_container [OF ok, of a] addsD(2) [OF ad, of a] list_add [OF ad, of a]
    by (cases "a = c") (simp_all add: belongs_add [OF ad])
  moreover have "x \<in> set (list_at g a)" if "belongs g a x" for a x
    using that nb lists_ok_pending [OF ok, of a x] list_add [OF ad, of a]
    by (cases "a = c") (simp_all add: belongs_add [OF ad])
  ultimately show ?thesis by (simp add: lists_ok_def)
qed

lemma lists_ok_delete: "adds h c g \<Longrightarrow> lists_ok g \<Longrightarrow> lists_ok h"
proof -
  assume ad: "adds h c g" and ok: "lists_ok g"
  have hc: "\<not> container_at h c" using ad by (simp add: adds_def container_at_def)
  have nb: "\<not> belongs h c x" for x using add_not_owned(2) [OF ad] by (simp add: belongs_def)
  have "distinct (list_at h a) \<and> (\<forall>x. x \<in> set (list_at h a) \<longleftrightarrow> belongs h a x)" if "container_at h a" for a
    using that hc lists_ok_container [OF ok, of a] addsD(2) [OF ad, of a] list_add [OF ad, of a]
    by (cases "a = c") (simp_all add: belongs_add [OF ad])
  moreover have "x \<in> set (list_at h a)" if "belongs h a x" for a x
    using that nb lists_ok_pending [OF ok, of a x] list_add [OF ad, of a]
    by (cases "a = c") (simp_all add: belongs_add [OF ad])
  ultimately show ?thesis by (simp add: lists_ok_def)
qed

lemma create_ok_step:
  assumes ok: "nav_ok s" and kind: "kind \<noteq> RootKind" and props: "v_props v \<noteq> None"
    and fresh: "registry s (v_handle v) (v_tag v) = None"
  shows "nav_ok (CreateAndAddComponent kind v s)"
proof -
  let ?c = "nextCid s" and ?k = "new_comp kind v"
  let ?h = "heap s" and ?g = "(heap s)(nextCid s := Some (new_comp kind v))"
  let ?r = "(registry s)(v_handle v := (registry s (v_handle v))(v_tag v := Some ?c))"
  let ?s = "s\<lparr>heap := ?g, nextCid := Suc ?c, registry := ?r\<rparr>"
  have run: "CreateAndAddComponent kind v s = ?s"
    using kind fresh by (simp add: CreateAndAddComponent_def CreateComponent_def Let_def release_def)
  have dead: "?h ?c = None" using nav_okD(2) [OF ok, of ?c] by (cases "?h ?c") auto
  have k: "c_parent ?k = None" "c_navList ?k = []" "c_tag ?k = v_tag v" "c_props ?k = v_props v"
    by (simp_all add: new_comp_def)
  have "parent_of ?h x \<noteq> Some ?c" for x
  proof
    assume p: "parent_of ?h x = Some ?c"
    then have "rooted ?h x" using nav_okD(1) [OF ok] parent_live [of ?h x] by simp
    then have "rooted ?h ?c" by (rule rooted.cases) (use p in auto)
    with dead show False by (auto dest: rooted_live)
  qed
  with dead k have ad: "adds ?h ?c ?g" by (auto simp: adds_def parent_of_def)
  have old: "x \<noteq> ?c" if "?h x \<noteq> None" for x using that dead by auto
  have fo: "focus_ok ?s"
  proof -
    have fh: "currentFocus s = Some x \<Longrightarrow> ?h x \<noteq> None" for x
    proof -
      assume f: "currentFocus s = Some x"
      with nav_okD(8) [OF ok] obtain a where "container_at ?h a" "x \<in> set (list_at ?h a)"
        by (auto simp: focus_ok_def)
      with lists_ok_container(2) [OF nav_okD(7) [OF ok]] have "focusable_at ?h x" by (auto simp: belongs_def)
      then show "?h x \<noteq> None" by (rule focusable_live)
    qed
    have "container_at ?g a \<and> x \<in> set (list_at ?g a)" if "container_at ?h a" "x \<in> set (list_at ?h a)" for a x
    proof -
      have "a \<noteq> ?c" using container_live [OF that(1)] by (rule old)
      with that show ?thesis using addsD(2) [OF ad, of a] list_add [OF ad, of a] by simp
    qed
    moreover have "focus_tag ?s = focus_tag s"
      using fh old by (cases "currentFocus s") (auto simp: focus_tag_def)
    ultimately show ?thesis using nav_okD(8) [OF ok] unfolding focus_ok_def by fastforce
  qed
  have rt: "rooted ?g x \<and> x < Suc ?c" if "?g x \<noteq> None" for x
  proof (cases "x = ?c")
    case True
    then show ?thesis using k ad by (auto intro: rooted_top simp: adds_def)
  next
    case False
    with that nav_okD(1,2) [OF ok, of x] rooted_add [OF ad False] show ?thesis by auto
  qed
  have reg: "?r h t = Some c \<longleftrightarrow> (if h = v_handle v \<and> t = v_tag v then c = ?c else registry s h t = Some c)" for h t c
    by auto
  have rl: "registry s h t \<noteq> Some ?c" for h t using nav_okD(3) [OF ok, of h t ?c] dead by auto
  have "\<exists>k. ?g c = Some k \<and> c_tag k = t \<and> c_props k \<noteq> None" if "?r h t = Some c" for h t c
    using that nav_okD(3) [OF ok, of h t c] k props old [of c] unfolding reg by (auto split: if_splits)
  moreover have "h = h' \<and> t = t'" if "?r h t = Some c" "?r h' t' = Some c" for h t h' t' c
    using that nav_okD(4) [OF ok, of h t c h' t'] rl unfolding reg by (auto split: if_splits)
  moreover have "container_at ?g r \<and> parent_of ?g r = None \<and> (\<forall>h t. ?r h t \<noteq> Some r)" if "rootComp s = Some r" for r
  proof -
    have "?h r \<noteq> None" using nav_okD(5) [OF ok that] container_live by blast
    with old have "r \<noteq> ?c" by blast
    with nav_okD(5) [OF ok that] addsD [OF ad] show ?thesis unfolding reg by auto
  qed
  moreover have "c_preferredFocus k' \<noteq> None \<and> c_props k' \<noteq> None" if "?g x = Some k'" "c_parent k' \<noteq> None" for x k'
    using that k nav_okD(6) [OF ok, of x k'] by (auto split: if_splits)
  moreover have "lists_ok ?g"
    by (rule lists_ok_add [OF ad _ nav_okD(7) [OF ok]]) (simp add: list_at_def k)
  ultimately have "nav_ok ?s"
    using fo rt unfolding nav_ok_def by (simp del: fun_upd_apply)
  with run show ?thesis by simp
qed

lemma delete_ok_step:
  assumes ok: "nav_ok s" and reg: "registry s (v_handle v) (v_tag v) = Some c"
    and loose: "parent_of (heap s) c = None" and kids: "\<And>x. parent_of (heap s) x \<noteq> Some c"
  shows "nav_ok (DeleteComponent v s)"
proof -
  let ?g = "heap s" and ?h = "(heap s)(c := None)"
  let ?r = "(registry s)(v_handle v := (registry s (v_handle v))(v_tag v := None))"
  let ?s = "s\<lparr>registry := ?r, heap := ?h\<rparr>"
  from nav_okD(3) [OF ok reg] obtain k where k: "?g c = Some k" "c_tag k = v_tag v" by blast
  have nroot: "rootComp s \<noteq> Some c" using nav_okD(5) [OF ok] reg by blast
  have run: "DeleteComponent v s = ?s"
    using reg k nroot by (simp add: DeleteComponent_def release_def)
  have ad: "adds ?h c ?g" using k loose kids by (auto simp: adds_def)
  have unlisted: "c \<notin> set (list_at ?g a)" if "container_at ?g a" for a
    using lists_ok_container(2) [OF nav_okD(7) [OF ok] that] owner_parent [of ?g a c] loose
    by (auto simp: belongs_def)
  have nfocus: "currentFocus s \<noteq> Some c"
    using nav_okD(8) [OF ok] unlisted by (auto simp: focus_ok_def)
  have "focus_ok ?s"
  proof -
    have "container_at ?h a \<and> x \<in> set (list_at ?h a)"
      if "container_at ?g a" "x \<in> set (list_at ?g a)" for a x
    proof -
      have "owns ?g a x" using that lists_ok_container(2) [OF nav_okD(7) [OF ok]] by (auto simp: belongs_def)
      with owner_has_child kids have "a \<noteq> c" by metis
      with that show ?thesis using addsD(2) [OF ad, of a] list_add [OF ad, of a] by simp
    qed
    moreover have "focus_tag ?s = focus_tag s"
      using nfocus by (cases "currentFocus s") (auto simp: focus_tag_def)
    ultimately show ?thesis using nav_okD(8) [OF ok] unfolding focus_ok_def by fastforce
  qed
  moreover have "rooted ?h x \<and> x < nextCid s" if "?h x \<noteq> None" for x
    using that nav_okD(1,2) [OF ok, of x] rooted_add [OF ad, of x] by (auto split: if_splits)
  moreover have "\<exists>k. ?h d = Some k \<and> c_tag k = t \<and> c_props k \<noteq> None" if "?r h t = Some d" for h t d
  proof -
    from that have r: "registry s h t = Some d" "h \<noteq> v_handle v \<or> t \<noteq> v_tag v" by (auto split: if_splits)
    with nav_okD(4) [OF ok r(1), of "v_handle v" "v_tag v"] reg have "d \<noteq> c" by auto
    with nav_okD(3) [OF ok r(1)] show ?thesis by simp
  qed
  moreover have "h = h' \<and> t = t'" if "?r h t = Some d" "?r h' t' = Some d" for h t h' t' d
    using that nav_okD(4) [OF ok, of h t d h' t'] by (auto split: if_splits)
  moreover have "container_at ?h r \<and> parent_of ?h r = None \<and> (\<forall>h t. ?r h t \<noteq> Some r)"
    if "rootComp s = Some r" for r
  proof -
    have "r \<noteq> c" using that nroot by auto
    with nav_okD(5) [OF ok that] addsD [OF ad] show ?thesis by auto
  qed
  moreover have "c_preferredFocus k' \<noteq> None \<and> c_props k' \<noteq> None" if "?h x = Some k'" "c_parent k' \<noteq> None" for x k'
    using that nav_okD(6) [OF ok, of x k'] by (auto split: if_splits)
  moreover have "lists_ok ?h" by (rule lists_ok_delete [OF ad nav_okD(7) [OF ok]])
  ultimately have "nav_ok ?s" unfolding nav_ok_def by (simp del: fun_upd_apply)
  with run show ?thesis by simp
qed

section \<open>The order in which React mounts\<close>

definition childless :: "nav \<Rightarrow> cid \<Rightarrow> bool" where
  "childless s c \<longleftrightarrow> list_all (\<lambda>x. parent_of (heap s) x \<noteq> Some c) [0..<nextCid s]"

definition clean_list :: "(cid \<Rightarrow> comp option) \<Rightarrow> cid \<Rightarrow> bool" where
  "clean_list h c \<longleftrightarrow> container_at h c \<or> distinct (list_at h c) \<and>
     list_all (\<lambda>x. focusable_at h x \<and> x \<noteq> c \<and> tree_top h x = Some c \<and>
       nearestAncestorContainer h x = Some None) (list_at h c)"

text \<open>
  What the differ of React guarantees of its mutations: a view is created once, with properties; it
  is inserted when it has no parent, below a live parent that is not below it, children before
  parents; a view leaves its parent after its own children did, and is deleted last. On top of that
  \<open>clean_list\<close> asks that an inserted view does not list components that left it.
\<close>

fun mount_ok :: "nav \<Rightarrow> mutation \<Rightarrow> bool" where
  "mount_ok s (Create v) = (case providers s (v_handle v) of None \<Rightarrow> True
     | Some kind \<Rightarrow> kind \<noteq> RootKind \<and> v_props v \<noteq> None \<and> registry s (v_handle v) (v_tag v) = None)"
| "mount_ok s (Delete v) = (case GetComponent v s of None \<Rightarrow> True
     | Some c \<Rightarrow> registry s (v_handle v) (v_tag v) = Some c \<and> parent_of (heap s) c = None \<and> childless s c)"
| "mount_ok s (Insert pv cv) = (case (GetComponent pv s, GetComponent cv s) of
       (Some p, Some c) \<Rightarrow> v_props cv \<noteq> None \<and> rootComp s \<noteq> Some c \<and> parent_of (heap s) c = None \<and>
         tree_top (heap s) p \<noteq> Some c \<and> clean_list (heap s) c \<and>
         (container_at (heap s) p \<or> parent_of (heap s) p = None \<or>
          nearestAncestorContainer (heap s) p \<noteq> Some None)
     | _ \<Rightarrow> False)"
| "mount_ok s (Remove pv cv) = (case (GetComponent pv s, GetComponent cv s) of
       (Some p, Some c) \<Rightarrow> parent_of (heap s) c = Some p \<and> (container_at (heap s) c \<or> childless s c)
     | _ \<Rightarrow> False)"
| "mount_ok s (Update ps ls os v) = (case GetComponent v s of None \<Rightarrow> True
     | Some c \<Rightarrow> v_props v \<noteq> None \<and> parent_of (heap s) c \<noteq> None \<and>
         nearestAncestorContainer (heap s) c \<noteq> Some None)"

fun in_order :: "nav \<Rightarrow> mutation list \<Rightarrow> bool" where
  "in_order s [] = True"
| "in_order s (m # ms) = (mount_ok s m \<and> (case mount_step s m of None \<Rightarrow> True | Some t \<Rightarrow> in_order t ms))"

lemma childless_iff: "nav_ok s \<Longrightarrow> childless s c \<longleftrightarrow> (\<forall>x. parent_of (heap s) x \<noteq> Some c)"
proof -
  assume ok: "nav_ok s"
  have "x < nextCid s" if "parent_of (heap s) x = Some c" for x
    using nav_okD(2) [OF ok] parent_live [of "heap s" x] that by simp
  then show ?thesis by (auto simp: childless_def list_all_iff)
qed

lemma tree_top_same: "rooted h x \<Longrightarrow> same_tree h g \<Longrightarrow> tree_top h x = tree_top g x"
proof (induction rule: rooted.induct)
  case (rooted_top x)
  then show ?case using same_treeD(1,2) [OF rooted_top(3), of x] by (simp add: tree_top_end)
next
  case (rooted_step x p)
  then show ?case using same_treeD(1,2) [OF rooted_step.prems, of x] by (simp add: tree_top_step)
qed

lemma nearest_same: "rooted h x \<Longrightarrow> same_tree h g \<Longrightarrow>
    nearestAncestorContainer h x = nearestAncestorContainer g x"
proof -
  assume r: "rooted h x" and t: "same_tree h g"
  note r2 = same_tree_rooted [OF r t]
  obtain a b where ab: "nearestAncestorContainer h x = Some a" "nearestAncestorContainer g x = Some b"
    using nearest_total [OF r] nearest_total [OF r2] by blast
  have "a = Some q \<longleftrightarrow> owns h q x \<and> container_at h q" for q
    using nearest_owner [OF r, of q] ab(1) by simp
  moreover have "b = Some q \<longleftrightarrow> owns h q x \<and> container_at h q" for q
    using nearest_owner [OF r2, of q] ab(2) unfolding same_tree_owns [OF t] same_treeD(3) [OF t] by simp
  ultimately have "a = b" by (metis option.exhaust)
  with ab show ?thesis by simp
qed

lemma clean_listD:
  assumes "nav_ok s" "clean_list (heap s) c" "\<not> container_at (heap s) c"
  shows "distinct (list_at (heap s) c)" and "x \<in> set (list_at (heap s) c) \<Longrightarrow> belongs (heap s) c x \<and> x \<noteq> c"
proof -
  let ?h = "heap s"
  from assms show "distinct (list_at ?h c)" by (simp add: clean_list_def)
  assume "x \<in> set (list_at ?h c)"
  with assms have x: "focusable_at ?h x" "x \<noteq> c" "tree_top ?h x = Some c"
    "nearestAncestorContainer ?h x = Some None"
    by (auto simp: clean_list_def list_all_iff)
  have r: "rooted ?h x" using nav_okD(1) [OF assms(1)] focusable_live [OF x(1)] by blast
  have "parent_of ?h x \<noteq> None" using x(2,3) rooted_live [OF r] tree_top_end [of ?h x] by auto
  with owner_exists [OF r] obtain a where a: "owns ?h a x" by blast
  with nearest_owner [OF r, of a] x(4) have "\<not> container_at ?h a" by simp
  with owner_is_end [OF a] owner_is_top [OF a r] x(3) have "a = c" by auto
  with a x show "belongs ?h c x \<and> x \<noteq> c" by (simp add: belongs_def)
qed

lemma GetComponent_live: "nav_ok s \<Longrightarrow> GetComponent v s = Some c \<Longrightarrow> heap s c \<noteq> None"
  using nav_okD(3) [of s] nav_okD(5) [of s c] container_live [of "heap s" c]
  by (auto simp: GetComponent_def split: option.splits comp_kind.splits) blast+

lemma GetComponent_props: "nav_ok s \<Longrightarrow> GetComponent v s = Some c \<Longrightarrow> rootComp s \<noteq> Some c \<Longrightarrow>
    heap s c = Some k \<Longrightarrow> c_props k \<noteq> None"
  using nav_okD(3) [of s "v_handle v" "v_tag v" c]
  by (auto simp: GetComponent_def split: option.splits comp_kind.splits)

lemma insert_ok_step:
  assumes ok: "nav_ok s" and g: "mount_ok s (Insert pv cv)"
  shows "\<exists>t. mount_step s (Insert pv cv) = Some t \<and> nav_ok t"
proof -
  from g obtain p c where pc: "GetComponent pv s = Some p" "GetComponent cv s = Some c"
    and new: "v_props cv \<noteq> None" and root: "rootComp s \<noteq> Some c" and loose: "parent_of (heap s) c = None"
    and top: "tree_top (heap s) p \<noteq> Some c" and clean: "clean_list (heap s) c"
    and attach: "container_at (heap s) p \<or> parent_of (heap s) p = None \<or>
      nearestAncestorContainer (heap s) p \<noteq> Some None"
    by (auto split: option.splits)
  from GetComponent_live [OF ok pc(2)] obtain ck where ck: "heap s c = Some ck" by blast
  note plive = GetComponent_live [OF ok pc(1)]
  have cp: "c_parent ck = None" using loose ck by (simp add: parent_of_def)
  from new obtain props where props: "v_props cv = Some props" by blast
  from props_ok_step [OF ok ck GetComponent_props [OF ok pc(2) root ck] props root, of True] cp
  obtain s1 k1 where s1: "propsUpdate True cv c s = Some s1" "nav_ok s1" "heap s1 c = Some k1"
    "c_preferredFocus k1 \<noteq> None" "c_props k1 \<noteq> None" "isContainer k1 = isContainer ck" "c_parent k1 = None"
    "same_tree (heap s) (heap s1)" "rootComp s1 = rootComp s" "c_navList k1 = c_navList ck"
    "\<And>x. x \<noteq> c \<Longrightarrow> focusable_at (heap s1) x = focusable_at (heap s) x"
    by auto
  have upd: "updateComponentData True True True cv c s = Some s1"
    by (simp add: updateComponentData_def s1)
  have r: "rooted (heap s) p" by (rule nav_okD(1) [OF ok plive])
  have "\<exists>t. mountChildComponent p c s1 = Some t \<and> nav_ok t"
  proof (rule mount_ok_step [OF s1(2,3) _ s1(7)])
    show "heap s1 p \<noteq> None" using plive same_treeD(1) [OF s1(8), of p] by simp
    show "tree_top (heap s1) p \<noteq> Some c" using top tree_top_same [OF r s1(8)] by simp
    show "container_at (heap s1) p \<or> parent_of (heap s1) p = None \<or>
        nearestAncestorContainer (heap s1) p \<noteq> Some None"
      using attach nearest_same [OF r s1(8)] s1(8) by (simp add: same_tree_def)
    show "rootComp s1 \<noteq> Some c" using root s1(9) by simp
    assume "\<not> isContainer k1"
    then have nc: "\<not> container_at (heap s) c" by (simp add: container_at_def ck s1(6))
    have l: "c_navList k1 = list_at (heap s) c" by (simp add: list_at_def ck s1(10))
    have "belongs (heap s1) c x" if "x \<in> set (list_at (heap s) c)" for x
      using clean_listD(2) [OF ok clean nc that] s1(11) [of x] same_tree_owns [OF s1(8)]
      by (simp add: belongs_def)
    with clean_listD(1) [OF ok clean nc]
    show "distinct (c_navList k1) \<and> (\<forall>x\<in>set (c_navList k1). belongs (heap s1) c x)" by (simp add: l)
  qed (fact s1)+
  then show ?thesis by (simp add: InsertMountInstruction_def pc Let_def upd)
qed

lemma mount_step_ok: "nav_ok s \<Longrightarrow> mount_ok s m \<Longrightarrow> \<exists>t. mount_step s m = Some t \<and> nav_ok t"
proof (cases m)
  case (Create v)
  assume "nav_ok s" "mount_ok s m"
  with Create create_ok_step [of s _ v] show ?thesis
    by (auto simp: CreateMountInstruction_def split: option.splits)
next
  case (Delete v)
  assume ok: "nav_ok s" and g: "mount_ok s m"
  show ?thesis
  proof (cases "GetComponent v s")
    case None
    with ok Delete show ?thesis by (simp add: DeleteMountInstruction_def)
  next
    case (Some c)
    with g Delete childless_iff [OF ok] delete_ok_step [OF ok, of v c] show ?thesis
      by (simp add: DeleteMountInstruction_def)
  qed
next
  case (Insert pv cv)
  assume "nav_ok s" "mount_ok s m"
  with Insert insert_ok_step show ?thesis by blast
next
  case (Remove pv cv)
  assume ok: "nav_ok s" and g: "mount_ok s m"
  from g Remove obtain p c where pc: "GetComponent pv s = Some p" "GetComponent cv s = Some c"
    "parent_of (heap s) c = Some p" "container_at (heap s) c \<or> childless s c"
    by (auto split: option.splits)
  from GetComponent_live [OF ok pc(2)] obtain ck where ck: "heap s c = Some ck" by blast
  with pc have "c_parent ck \<noteq> None" "isContainer ck \<or> (\<forall>x. parent_of (heap s) x \<noteq> Some c)"
    using childless_iff [OF ok, of c] by (auto simp: parent_of_def container_at_def)
  from unmount_ok_step [OF ok ck this] Remove pc show ?thesis by (simp add: RemoveMountInstruction_def)
next
  case (Update ps ls os v)
  assume ok: "nav_ok s" and g: "mount_ok s m"
  show ?thesis
  proof (cases "GetComponent v s")
    case None
    with ok Update show ?thesis by (simp add: UpdateMountInstruction_def)
  next
    case (Some c)
    with g Update obtain new where new: "v_props v = Some new" and par: "parent_of (heap s) c \<noteq> None"
      and near: "nearestAncestorContainer (heap s) c \<noteq> Some None" by auto
    from GetComponent_live [OF ok Some] obtain ck where ck: "heap s c = Some ck" by blast
    with par have cp: "c_parent ck \<noteq> None" by (simp add: parent_of_def)
    note ready = nav_okD(6) [OF ok ck cp]
    have root: "rootComp s \<noteq> Some c" using nav_okD(5) [OF ok, of c] par by auto
    from props_ok_step [OF ok ck _ new root, of False] ready near obtain s1 k1 where
      s1: "propsUpdate False v c s = Some s1" "nav_ok s1" "heap s1 c = Some k1" "c_preferredFocus k1 \<noteq> None"
      by blast
    have pend: "nav_ok (if b then setNeedFocusUpdate c t else t)" if "nav_ok t" for b t
      using that by (simp add: setNeedFocusUpdate_def)
    show ?thesis
    proof (cases "ps \<or> ls \<or> os")
      case False
      with Some ok Update show ?thesis by (simp add: UpdateMountInstruction_def)
    next
      case True
      have "\<exists>t. updateComponentData False ps ls v c s = Some t \<and> nav_ok t"
      proof (cases ps)
        case True
        from s1(4) obtain b where "c_preferredFocus k1 = Some b" by blast
        with True s1(1-3) pend show ?thesis by (auto simp: updateComponentData_def)
      next
        case False
        from ready obtain b where "c_preferredFocus ck = Some b" by blast
        with False ck pend [OF ok] show ?thesis by (auto simp: updateComponentData_def)
      qed
      with True Some Update show ?thesis by (auto simp: UpdateMountInstruction_def)
    qed
  qed
qed

lemma mount_run_ok: "nav_ok s \<Longrightarrow> in_order s ms \<Longrightarrow> \<exists>t. ProcessMutations s ms = Some t \<and> nav_ok t"
proof (induction ms arbitrary: s)
  case Nil
  then show ?case by (simp add: ProcessMutations_def)
next
  case (Cons m ms)
  from mount_step_ok [OF Cons.prems(1), of m] Cons.prems(2) obtain t where
    "mount_step s m = Some t" "nav_ok t" by auto
  with Cons show ?case by (simp add: ProcessMutations_def)
qed

lemma Start_heap: "heap (Start h (nav_init ps)) = [0 \<mapsto> new_comp RootKind \<lparr>v_handle = h, v_tag = 0, v_props = None\<rparr>]"
  by (simp add: Start_def nav_init_def CreateComponent_def Let_def release_def)

lemma Start_ok: "nav_ok (Start h (nav_init ps))"
proof -
  have f: "registry (Start h (nav_init ps)) = (\<lambda>_ _. None)" "nextCid (Start h (nav_init ps)) = 1"
    "rootComp (Start h (nav_init ps)) = Some 0" "currentFocus (Start h (nav_init ps)) = None"
    "notices (Start h (nav_init ps)) = []"
    by (simp_all add: Start_def nav_init_def CreateComponent_def Let_def release_def)
  let ?h = "heap (Start h (nav_init ps))"
  have p: "parent_of ?h x = None" for x by (simp add: parent_of_def Start_heap new_comp_def)
  then have b: "\<not> belongs ?h a x" for a x using owner_parent [of ?h a x] by (auto simp: belongs_def)
  have "lists_ok ?h"
    using b by (simp add: lists_ok_def list_at_def Start_heap new_comp_def)
  moreover have "focus_ok (Start h (nav_init ps))"
    by (simp add: focus_ok_def focus_tag_def js_focused_def f)
  moreover have "rooted ?h x" if "?h x \<noteq> None" for x using that p by (rule rooted_top)
  ultimately show ?thesis
    unfolding nav_ok_def using p f by (auto simp: Start_heap new_comp_def container_at_def isContainer_def split: if_splits)
qed

section \<open>Properties\<close>

definition view_ref :: "nat \<Rightarrow> int \<Rightarrow> bool \<Rightarrow> view_data" where
  "view_ref h t foc = \<lparr>v_handle = h, v_tag = t, v_props = Some \<lparr>vp_zIndex = None, isTVSelectable = False,
     focusable = foc, hasTVPreferredFocus = False\<rparr>\<rparr>"

definition sample_providers :: "nat \<Rightarrow> comp_kind option" where
  "sample_providers h = (if h = 0 then Some RootKind else if h = 1 then Some ViewKind
     else if h = 2 then Some (ScrollKind scroll_view_init) else None)"

definition build_screen :: "mutation list" where
  "build_screen =
     (let root = view_ref 0 1 False; row = view_ref 1 4 False; key = view_ref 1 6 True; list = view_ref 2 8 False
      in [Create row, Create key, Create list, Insert row key, Insert list row, Insert root list,
          Update True True False key, Remove row key, Insert root key])"

text \<open>C6: Mounting in the order that \<open>in_order\<close> describes never faults, and afterwards the list
  of every container (the root view and each scroll view) holds exactly the focusable components whose
  nearest container it is, each once. The order is that of a tree built and taken down: views are created
  with properties, inserted below a live parent, children before parents, when they have no parent and
  list no component that left them, updated when they are below a container, removed after their own
  children unless they are containers, and deleted last. It leaves out updates of the root view, and moves
  in which a view other than a container is removed with its children and inserted again. Both break the
  claim, see \<open>root_layout_reads_uninitialised\<close> and \<open>reordering_leaves_dangling\<close>.\<close>

theorem container_lists_exact:
  assumes "in_order (Start h (nav_init ps)) ms"
  shows "\<exists>s. ProcessMutations (Start h (nav_init ps)) ms = Some s \<and>
    (\<forall>a k. heap s a = Some k \<longrightarrow> isContainer k \<longrightarrow> distinct (c_navList k) \<and>
       set (c_navList k) = {x. (\<exists>c. heap s x = Some c \<and> isFocusable c = Some True) \<and>
         nearestAncestorContainer (heap s) x = Some (Some a)})"
proof -
  from mount_run_ok [OF Start_ok assms] obtain s where
    s: "ProcessMutations (Start h (nav_init ps)) ms = Some s" "nav_ok s" by blast
  have "distinct (c_navList k) \<and> set (c_navList k) = {x. (\<exists>c. heap s x = Some c \<and> isFocusable c = Some True) \<and>
         nearestAncestorContainer (heap s) x = Some (Some a)}" if a: "heap s a = Some k" "isContainer k" for a k
  proof -
    have ca: "container_at (heap s) a" and l: "list_at (heap s) a = c_navList k"
      using a by (simp_all add: container_at_def list_at_def)
    have "belongs (heap s) a x \<longleftrightarrow> (\<exists>c. heap s x = Some c \<and> isFocusable c = Some True) \<and>
         nearestAncestorContainer (heap s) x = Some (Some a)" for x
    proof (cases "heap s x")
      case None
      then show ?thesis by (simp add: belongs_def focusable_at_def)
    next
      case (Some xk)
      then have "rooted (heap s) x" using nav_okD(1) [OF s(2)] by simp
      from nearest_owner [OF this, of a] Some ca show ?thesis by (auto simp: belongs_def focusable_at_def)
    qed
    with lists_ok_container [OF nav_okD(7) [OF s(2)] ca] l show ?thesis by auto
  qed
  with s(1) show ?thesis by blast
qed

theorem container_lists_exact_witness:
  "\<exists>s. ProcessMutations (Start 0 (nav_init sample_providers)) build_screen = Some s \<and>
    (\<forall>a k. heap s a = Some k \<longrightarrow> isContainer k \<longrightarrow> distinct (c_navList k) \<and>
       set (c_navList k) = {x. (\<exists>c. heap s x = Some c \<and> isFocusable c = Some True) \<and>
         nearestAncestorContainer (heap s) x = Some (Some a)})"
proof (rule container_lists_exact)
  show "in_order (Start 0 (nav_init sample_providers)) build_screen" by code_simp
qed

text \<open>Moving a view among its siblings corrupts the list of its container: the view is removed and
  inserted again, its own stale list is merged once more, and every focusable component inside it is
  listed twice. When the component is then removed and deleted, as React does, only one entry goes, and
  the container keeps a pointer to a deleted component.\<close>

theorem reordering_leaves_dangling:
  "map_option (\<lambda>s. (list_at (heap s) 0, heap s 2))
     (let root = view_ref 0 1 False; row = view_ref 1 4 False; key = view_ref 1 6 True
      in ProcessMutations (Start 0 (nav_init sample_providers))
           [Create row, Create key, Insert row key, Insert root row,
            Remove root row, Insert root row, Remove row key, Delete key])
   = Some ([2], None)"
  by code_simp

text \<open>The first layout of the root view reads an uninitialised flag: React updates the layout of the
  root, which was never inserted, and the update reads \<open>commonProps.hasTVPreferredFocus\<close>, which only
  an update of properties sets.\<close>

theorem root_layout_reads_uninitialised:
  assumes "ps (v_handle v) = Some RootKind"
  shows "mount_step (Start h (nav_init ps)) (Update False True os v) = None"
  using assms
  by (simp add: UpdateMountInstruction_def GetComponent_def updateComponentData_def Start_def nav_init_def
      CreateComponent_def Let_def release_def new_comp_def)

theorem root_layout_reads_uninitialised_witness:
  "mount_step (Start 0 (nav_init sample_providers)) (Update False True False (view_ref 0 1 False)) = None"
  by (rule root_layout_reads_uninitialised) (simp add: sample_providers_def view_ref_def)

end
