(* ===== verification/SpatialNav.thy ===== *)
theory SpatialNav imports Mounting begin

text \<open>
  The spatial navigator (\<open>core_modules/RSkSpatialNavigator.cpp\<close>, and the searches of
  \<open>RSkSpatialNavigatorContainer.cpp\<close>): which component an arrow key moves the focus to.

  \<^item> The candidates of a container are sorted by \<open>before\<close>, the comparator
    \<open>sortDirectionComparator\<close>. The sorted set is folly's \<open>sorted_vector_set\<close>, a parameter
    \<open>nx_insert\<close> with its documented behaviour \<open>svs_laws\<close>.
  \<^item> Functions that walk over pointers return \<open>None\<close> when they use a null or dead pointer.
  \<^item> \<open>nav_step\<close> is one task of the main loop: a transaction of mutations, a key, a component that
    asked for the focus, or a new layout.

  The lemmas show that the comparator is a strict weak order, that the candidate chosen is eligible
  and nearest, that navigating never faults while the current container lives, and that JavaScript
  always agrees with the navigator on what is focused.
\<close>

section \<open>The comparator\<close>

record cand =
  cd_cid :: cid
  cd_frame :: sk_irect
  cd_zIndex :: int
  cd_tag :: int

record nav_fx =
  nx_rect :: sk_rect_api
  nx_round :: "scalar \<Rightarrow> int"
  nx_insert :: "(cand \<Rightarrow> cand \<Rightarrow> bool) \<Rightarrow> cand \<Rightarrow> cand list \<Rightarrow> cand list"

text \<open>One rule: decide by a smaller key, or go on to the next rule.\<close>

definition rule_less :: "int \<Rightarrow> int \<Rightarrow> bool \<Rightarrow> bool" where
  "rule_less a b next_rule = (if a < b then True else if b < a then False else next_rule)"

definition before :: "sk_rect_api \<Rightarrow> rnsKey \<Rightarrow> cand \<Rightarrow> cand \<Rightarrow> bool" where
  "before sk direction x y =
     (let a = cd_frame x; b = cd_frame y
      in if a = b
         then rule_less (cd_zIndex y) (cd_zIndex x) (cd_tag x > cd_tag y)
         else if direction = RNS_KEY_Right \<or> direction = RNS_KEY_Left
         then (if direction = RNS_KEY_Right then rule_less (fLeft a) (fLeft b)
               else rule_less (fRight b) (fRight a))
              (rule_less (fTop a) (fTop b)
                (rule_less (irect_width sk a) (irect_width sk b)
                  (rule_less (irect_height sk a) (irect_height sk b) False)))
         else if direction = RNS_KEY_Up \<or> direction = RNS_KEY_Down
         then (if direction = RNS_KEY_Up then rule_less (fBottom b) (fBottom a)
               else rule_less (fTop a) (fTop b))
              (rule_less (fLeft a) (fLeft b)
                (rule_less (irect_height sk a) (irect_height sk b)
                  (rule_less (irect_width sk a) (irect_width sk b) False)))
         else False)"

section \<open>Which candidates count\<close>

definition isValidCandidate :: "rnsKey \<Rightarrow> sk_irect \<Rightarrow> sk_irect \<Rightarrow> bool" where
  "isValidCandidate direction current candidate =
     (if candidate = current then False
      else if direction = RNS_KEY_Right then fLeft candidate > fLeft current
      else if direction = RNS_KEY_Left then fRight candidate < fRight current
      else if direction = RNS_KEY_Up then fBottom candidate < fBottom current
      else if direction = RNS_KEY_Down then fTop candidate > fTop current
      else False)"

datatype cand_class = Overlapping | NonOverlapping | Ignored

text \<open>Rules 3 and 3.a, for a valid candidate.\<close>

definition classify :: "rnsKey \<Rightarrow> sk_irect \<Rightarrow> sk_irect \<Rightarrow> cand_class" where
  "classify direction current candidate =
     (if direction = RNS_KEY_Right \<or> direction = RNS_KEY_Left
      then (if fBottom candidate < fTop current \<or> fTop candidate > fBottom current then Ignored
            else Overlapping)
      else if direction = RNS_KEY_Up \<or> direction = RNS_KEY_Down
      then (if \<not> (fRight candidate < fLeft current \<or> fLeft candidate > fRight current)
            then Overlapping
            else if direction = RNS_KEY_Up \<and> fBottom candidate \<le> fTop current then NonOverlapping
            else if direction = RNS_KEY_Down \<and> fTop candidate \<ge> fBottom current then NonOverlapping
            else Ignored)
      else Ignored)"

definition pickCandidateInDirection :: "rnsKey \<Rightarrow> cand list \<Rightarrow> cand list \<Rightarrow> cand option" where
  "pickCandidateInDirection key overlapping nonOverlapping =
     (let front = (case overlapping of [] \<Rightarrow> None | x # _ \<Rightarrow> Some x);
          chosen =
            (if key = RNS_KEY_Up \<or> key = RNS_KEY_Down
             then (case nonOverlapping of [] \<Rightarrow> front
                   | y # _ \<Rightarrow>
                     (case front of None \<Rightarrow> Some y
                      | Some x \<Rightarrow>
                          if key = RNS_KEY_Up
                          then (if fBottom (cd_frame x) < fBottom (cd_frame y) then Some y else Some x)
                          else (if fTop (cd_frame x) > fTop (cd_frame y) then Some y else Some x)))
             else front)
      in case chosen of None \<Rightarrow> None | Some x \<Rightarrow> if cd_tag x = -1 then None else Some x)"

section \<open>Searching a container\<close>

partial_function (option) firstInContainer ::
  "sk_rect_api \<Rightarrow> (cid \<Rightarrow> comp option) \<Rightarrow> bool \<Rightarrow> bool \<Rightarrow> cid \<Rightarrow> cid option option" where
  "firstInContainer sk h visible skipChildren c = do {
     k \<leftarrow> h c;
     case c_navList k of
       [] \<Rightarrow> Some None
     | first # _ \<Rightarrow>
         if \<not> visible then Some None
         else do {
           fk \<leftarrow> h first;
           if \<not> comp_isVisible sk k (c_absFrame fk) then Some None
           else if \<not> skipChildren \<and> isContainer fk
           then do {
             inner \<leftarrow> firstInContainer sk h visible skipChildren first;
             Some (Some (case inner of None \<Rightarrow> first | Some i \<Rightarrow> i))
           }
           else Some (Some first)
         }
   }"

text \<open>The loop of \<open>preferredFocusInContainer\<close>, over the rest of a list taken from its end.\<close>

partial_function (option) preferredFocus :: "(cid \<Rightarrow> comp option) \<Rightarrow> cid list \<Rightarrow> cid option option" where
  "preferredFocus h cs =
     (case cs of
        [] \<Rightarrow> Some None
      | c # rest \<Rightarrow> do {
          k \<leftarrow> h c;
          found \<leftarrow> (if isContainer k then preferredFocus h (rev (c_navList k)) else Some (Some c));
          case found of
            None \<Rightarrow> preferredFocus h rest
          | Some d \<Rightarrow> do {
              dk \<leftarrow> h d;
              p \<leftarrow> c_props dk;
              if hasTVPreferredFocus p then Some (Some d) else preferredFocus h rest
            }
        })"

declare firstInContainer.simps [code] preferredFocus.simps [code]

definition preferredFocusInContainer :: "(cid \<Rightarrow> comp option) \<Rightarrow> cid \<Rightarrow> cid option option" where
  "preferredFocusInContainer h c = do {
     k \<leftarrow> h c;
     preferredFocus h (rev (c_navList k))
   }"

definition findDefaultFocusInContainer ::
  "sk_rect_api \<Rightarrow> (cid \<Rightarrow> comp option) \<Rightarrow> cid \<Rightarrow> cid option option" where
  "findDefaultFocusInContainer sk h c = do {
     p \<leftarrow> preferredFocusInContainer h c;
     case p of Some d \<Rightarrow> Some (Some d) | None \<Rightarrow> firstInContainer sk h True False c
   }"

text \<open>The loop of \<open>findFocusCandidateInContainer\<close>: the two sorted sets.\<close>

fun scan_candidates ::
  "nav_fx \<Rightarrow> (cid \<Rightarrow> comp option) \<Rightarrow> comp \<Rightarrow> cid \<Rightarrow> sk_irect \<Rightarrow> rnsKey \<Rightarrow> bool \<Rightarrow> cid list \<Rightarrow>
   cand list \<times> cand list \<Rightarrow> (cand list \<times> cand list) option" where
  "scan_candidates fx h contk cur curRect key visibleOnly [] acc = Some acc"
| "scan_candidates fx h contk cur curRect key visibleOnly (c # cs) acc = do {
     k \<leftarrow> h c;
     rect \<leftarrow> getScreenFrame (nx_rect fx) h c;
     let x = \<lparr>cd_cid = c, cd_frame = rect, cd_zIndex = c_zIndex k, cd_tag = c_tag k\<rparr>;
     scan_candidates fx h contk cur curRect key visibleOnly cs
       (if c = cur then acc
        else if visibleOnly \<and> \<not> comp_isVisible (nx_rect fx) contk (c_absFrame k) then acc
        else if \<not> isValidCandidate key curRect rect then acc
        else (case classify key curRect rect of
                Overlapping \<Rightarrow> (nx_insert fx (before (nx_rect fx) key) x (fst acc), snd acc)
              | NonOverlapping \<Rightarrow> (fst acc, nx_insert fx (before (nx_rect fx) key) x (snd acc))
              | Ignored \<Rightarrow> acc))
   }"

definition findFocusCandidateInContainer ::
  "nav_fx \<Rightarrow> cid \<Rightarrow> rnsKey \<Rightarrow> bool \<Rightarrow> nav \<Rightarrow> cid option option" where
  "findFocusCandidateInContainer fx cont key visibleOnly s =
     (case currentFocus s of
        None \<Rightarrow> findDefaultFocusInContainer (nx_rect fx) (heap s) cont
      | Some f \<Rightarrow> do {
          _ \<leftarrow> heap s f;
          curRect \<leftarrow> getScreenFrame (nx_rect fx) (heap s) f;
          k \<leftarrow> heap s cont;
          (ov, non) \<leftarrow> scan_candidates fx (heap s) k f curRect key visibleOnly (c_navList k) ([], []);
          Some (map_option cd_cid (pickCandidateInDirection key ov non))
        })"

section \<open>Moving the focus\<close>

text \<open>The virtual functions of a container; \<open>None\<close> as the frame stands for no candidate or the
  container itself.\<close>

definition comp_canScroll :: "sk_rect_api \<Rightarrow> rnsKey \<Rightarrow> comp \<Rightarrow> bool" where
  "comp_canScroll sk key k = (case c_kind k of ScrollKind v \<Rightarrow> canScrollInDirection sk key v | _ \<Rightarrow> False)"

definition comp_scrollInDirection :: "nav_fx \<Rightarrow> sk_irect option \<Rightarrow> rnsKey \<Rightarrow> comp \<Rightarrow> ScrollStatus \<times> comp" where
  "comp_scrollInDirection fx cand key k =
     (case c_kind k of
        ScrollKind v \<Rightarrow> let (st, v') = scrollInDirection (nx_rect fx) (nx_round fx) cand key v
                       in (st, k\<lparr>c_kind := ScrollKind v'\<rparr>)
      | _ \<Rightarrow> (noScroll, k))"

definition comp_scrollTo :: "nav_fx \<Rightarrow> sk_irect option \<Rightarrow> comp \<Rightarrow> ScrollStatus \<times> comp" where
  "comp_scrollTo fx cand k =
     (case c_kind k of
        ScrollKind v \<Rightarrow> let (st, v') = scrollTo (nx_rect fx) (nx_round fx) cand v
                       in (st, k\<lparr>c_kind := ScrollKind v'\<rparr>)
      | _ \<Rightarrow> (noScroll, k))"

definition updateFocusCandidate :: "nav_fx \<Rightarrow> bool \<Rightarrow> cid \<Rightarrow> nav \<Rightarrow> nav option" where
  "updateFocusCandidate fx needScroll c s =
     (if currentFocus s = Some c then Some s
      else do {
        s1 \<leftarrow> (case currentFocus s of
            None \<Rightarrow> Some s
          | Some f \<Rightarrow> do { fk \<leftarrow> heap s f; Some (notify (HandleBlur f) (notify (Blur (c_tag fk)) s)) });
        ck \<leftarrow> heap s c;
        cont \<leftarrow> (if isContainer ck then Some (Some c) else nearestAncestorContainer (heap s) c);
        let s2 = (notify (Focus (c_tag ck)) s1)\<lparr>currentFocus := Some c, currentContainer := cont\<rparr>;
        if needScroll
        then do {
          q \<leftarrow> cont;
          qk \<leftarrow> heap s q;
          let (st, qk') = comp_scrollTo fx (if q = c then None else Some (c_absFrame ck)) qk;
          Some (notify (HandleFocus c) (put_comp q qk' s2))
        }
        else Some s2
      })"

text \<open>Scrolling to bring a candidate into view: \<open>Some\<close> the result the caller returns at once.\<close>

definition scroll_for_candidate :: "nav_fx \<Rightarrow> cid \<Rightarrow> comp \<Rightarrow> cid \<Rightarrow> comp \<Rightarrow> rnsKey \<Rightarrow> nav \<Rightarrow> bool option \<times> nav" where
  "scroll_for_candidate fx cont k c ck key s =
     (if comp_isVisible (nx_rect fx) k (c_absFrame ck) then (None, s)
      else let (st, k') = comp_scrollInDirection fx (if c = cont then None else Some (c_absFrame ck)) key k;
               s1 = put_comp cont k' s
           in (case st of noScroll \<Rightarrow> (Some False, s1) | scrollOnly \<Rightarrow> (Some True, s1)
               | scrollToFocus \<Rightarrow> (None, s1)))"

text \<open>Whether the container holds the focus, and whether only visible candidates count.\<close>

definition search_mode :: "sk_rect_api \<Rightarrow> cid \<Rightarrow> comp \<Rightarrow> rnsKey \<Rightarrow> nav \<Rightarrow> (bool \<times> bool) option" where
  "search_mode sk cont k key s =
     (case currentFocus s of
        None \<Rightarrow> Some (False, False)
      | Some f \<Rightarrow> do {
          anc \<leftarrow> (if f = cont then Some True else hasAncestor (heap s) f cont);
          Some (anc, \<not> (anc \<and> comp_canScroll sk key k))
        })"

partial_function (option) advanceFocusInDirection ::
  "nav_fx \<Rightarrow> cid \<Rightarrow> rnsKey \<Rightarrow> nav \<Rightarrow> (bool \<times> nav) option" where
  "advanceFocusInDirection fx cont key s = do {
     k \<leftarrow> heap s cont;
     mode \<leftarrow> search_mode (nx_rect fx) cont k key s;
     candidate \<leftarrow> findFocusCandidateInContainer fx cont key (snd mode) s;
     case candidate of
       None \<Rightarrow>
         if \<not> fst mode then Some (False, s)
         else let r = comp_scrollInDirection fx None key k
              in Some (fst r = scrollOnly, put_comp cont (snd r) s)
     | Some c \<Rightarrow> do {
         ck \<leftarrow> heap s c;
         let go = scroll_for_candidate fx cont k c ck key s;
         case fst go of
           Some b \<Rightarrow> Some (b, snd go)
         | None \<Rightarrow> do {
             inner \<leftarrow> (if isContainer ck then advanceFocusInDirection fx c key (snd go)
                      else Some (False, snd go));
             if fst inner then Some (True, snd inner)
             else do {
               s3 \<leftarrow> updateFocusCandidate fx False c (snd inner);
               Some (True, s3)
             }
           }
       }
   }"

text \<open>The loop of \<open>navigateInDirection\<close>, from one container to the next one above.\<close>

partial_function (option) navigate_from :: "nav_fx \<Rightarrow> cid \<Rightarrow> rnsKey \<Rightarrow> nav \<Rightarrow> nav option" where
  "navigate_from fx cont key s = do {
     r \<leftarrow> advanceFocusInDirection fx cont key s;
     above \<leftarrow> nearestAncestorContainer (heap (snd r)) cont;
     if fst r then Some (snd r)
     else (case above of None \<Rightarrow> Some (snd r) | Some q \<Rightarrow> navigate_from fx q key (snd r))
   }"

declare advanceFocusInDirection.simps [code] navigate_from.simps [code]

definition navigateInDirection :: "nav_fx \<Rightarrow> rnsKey \<Rightarrow> nav \<Rightarrow> nav option" where
  "navigateInDirection fx key s =
     (let s1 = (if currentContainer s = None then s\<lparr>currentContainer := rootContainer s\<rparr> else s)
      in do {
        cont \<leftarrow> currentContainer s1;
        navigate_from fx cont key s1
      })"

definition arrow_key :: "rnsKey \<Rightarrow> bool" where
  "arrow_key key \<longleftrightarrow> key = RNS_KEY_Up \<or> key = RNS_KEY_Down \<or> key = RNS_KEY_Left \<or> key = RNS_KEY_Right"

definition handleKeyEvent :: "nav_fx \<Rightarrow> rnsKey \<Rightarrow> rnsKeyAction \<Rightarrow> nav \<Rightarrow> nav option" where
  "handleKeyEvent fx key action s =
     (if action \<noteq> RNS_KEY_Press then Some s
      else if arrow_key key then navigateInDirection fx key s
      else Some s)"

section \<open>The main loop\<close>

text \<open>The task \<open>setNeedFocusUpdate\<close> posted: it does nothing if the component is gone.\<close>

definition run_pending :: "nav_fx \<Rightarrow> nav \<Rightarrow> nav option" where
  "run_pending fx s =
     (case pendingFocus s of
        [] \<Rightarrow> Some s
      | c # cs \<Rightarrow>
          if heap s c = None then Some (s\<lparr>pendingFocus := cs\<rparr>)
          else updateFocusCandidate fx True c (s\<lparr>pendingFocus := cs\<rparr>))"

text \<open>The compositor has computed the frames of the layers again.\<close>

definition set_layout :: "cid \<Rightarrow> sk_irect \<Rightarrow> nav \<Rightarrow> nav" where
  "set_layout c r s =
     (case heap s c of None \<Rightarrow> s | Some k \<Rightarrow> put_comp c (k\<lparr>c_absFrame := r\<rparr>) s)"

datatype nav_event =
    Transaction "mutation list"
  | Key rnsKey rnsKeyAction
  | FocusTask
  | Layout cid sk_irect

fun nav_step :: "nav_fx \<Rightarrow> nav \<Rightarrow> nav_event \<Rightarrow> nav option" where
  "nav_step fx s (Transaction ms) = ProcessMutations s ms"
| "nav_step fx s (Key key action) = handleKeyEvent fx key action s"
| "nav_step fx s FocusTask = run_pending fx s"
| "nav_step fx s (Layout c r) = Some (set_layout c r s)"

abbreviation nav_run :: "nav_fx \<Rightarrow> nav \<Rightarrow> nav_event list \<Rightarrow> nav option" where
  "nav_run fx \<equiv> run_opt (nav_step fx)"

section \<open>The order of the candidates\<close>

fun lex_less :: "int list \<Rightarrow> int list \<Rightarrow> bool" where
  "lex_less (a # as) (b # bs) = rule_less a b (lex_less as bs)"
| "lex_less _ _ = False"

lemma lex_less_irrefl: "\<not> lex_less xs xs"
  by (induction xs) (simp_all add: rule_less_def)

lemma lex_less_trans: "lex_less xs ys \<Longrightarrow> lex_less ys zs \<Longrightarrow> lex_less xs zs"
proof (induction xs ys arbitrary: zs rule: lex_less.induct)
  case (1 a as b bs)
  then show ?case by (cases zs) (auto simp: rule_less_def split: if_splits)
qed simp_all

lemma lex_less_total: "length xs = length ys \<Longrightarrow> xs \<noteq> ys \<Longrightarrow> lex_less xs ys \<or> lex_less ys xs"
  by (induction xs ys rule: list_induct2) (auto simp: rule_less_def)

text \<open>The rules of the comparator applied to the keys of six rules.\<close>

interpretation rules: strict_total "{ks :: int list. length ks = 6}" lex_less
proof
  fix x y z :: "int list"
  assume n: "x \<in> {ks. length ks = 6}" "y \<in> {ks. length ks = 6}"
  show "\<not> lex_less x x" by (rule lex_less_irrefl)
  show "x \<noteq> y \<Longrightarrow> lex_less x y \<or> lex_less y x" using n lex_less_total [of x y] by simp
  assume z: "z \<in> {ks. length ks = 6}"
  show "lex_less x y \<Longrightarrow> lex_less y z \<Longrightarrow> lex_less x z" by (rule lex_less_trans)
  assume "\<not> lex_less x y" "\<not> lex_less y x" "\<not> lex_less y z" "\<not> lex_less z y"
  then have "x = y" "y = z" using n z lex_less_total [of x y] lex_less_total [of y z] by auto
  then show "\<not> lex_less x z \<and> \<not> lex_less z x" by (simp add: lex_less_irrefl)
qed

definition rule_keys :: "sk_rect_api \<Rightarrow> rnsKey \<Rightarrow> cand \<Rightarrow> int list" where
  "rule_keys sk direction x =
     (let r = cd_frame x
      in (if direction = RNS_KEY_Right then [fLeft r, fTop r, irect_width sk r, irect_height sk r]
          else if direction = RNS_KEY_Left then [- fRight r, fTop r, irect_width sk r, irect_height sk r]
          else if direction = RNS_KEY_Up then [- fBottom r, fLeft r, irect_height sk r, irect_width sk r]
          else [fTop r, fLeft r, irect_height sk r, irect_width sk r])
         @ [- cd_zIndex x, - cd_tag x])"

definition cands :: "cand set" where
  "cands = {x. irect32 (cd_frame x)}"

lemma length_rule_keys: "length (rule_keys sk d x) = 6"
  by (simp add: rule_keys_def Let_def)

lemma same_span: "sk_rect_laws sk \<Longrightarrow> irect32 a \<Longrightarrow> irect32 b \<Longrightarrow>
    irect_width sk a = irect_width sk b \<Longrightarrow> fLeft a = fLeft b \<or> fRight a = fRight b \<Longrightarrow>
    fLeft a = fLeft b \<and> fRight a = fRight b"
proof -
  assume sk: "sk_rect_laws sk" and ab: "irect32 a" "irect32 b"
    and w: "irect_width sk a = irect_width sk b" and e: "fLeft a = fLeft b \<or> fRight a = fRight b"
  have wr: "wrap32 (fRight a - fLeft a) = wrap32 (fRight b - fLeft b)" using w by (simp add: sk_width [OF sk])
  from e show ?thesis
  proof
    assume l: "fLeft a = fLeft b"
    with wr ab show ?thesis using wrap32_inj [of "fRight a" "fLeft a" "fRight b"] by (simp add: irect32_def)
  next
    assume r: "fRight a = fRight b"
    have "wrap32 (- (fLeft a - fRight a)) = wrap32 (- (fLeft b - fRight a))" using wr r by simp
    then have "wrap32 (fLeft a - fRight a) = wrap32 (fLeft b - fRight a)"
      unfolding wrap32_def by (metis minus_minus signed_take_bit_minus)
    with r ab show ?thesis using wrap32_inj [of "fLeft a" "fRight a" "fLeft b"] by (simp add: irect32_def)
  qed
qed

lemma same_rise: "sk_rect_laws sk \<Longrightarrow> irect32 a \<Longrightarrow> irect32 b \<Longrightarrow>
    irect_height sk a = irect_height sk b \<Longrightarrow> fTop a = fTop b \<or> fBottom a = fBottom b \<Longrightarrow>
    fTop a = fTop b \<and> fBottom a = fBottom b"
proof -
  assume sk: "sk_rect_laws sk" and ab: "irect32 a" "irect32 b"
    and w: "irect_height sk a = irect_height sk b" and e: "fTop a = fTop b \<or> fBottom a = fBottom b"
  let ?t = "\<lambda>r. \<lparr>fLeft = fTop r, fTop = fLeft r, fRight = fBottom r, fBottom = fRight r\<rparr>"
  have "irect_width sk (?t a) = irect_width sk (?t b)"
    using w by (simp add: sk_width [OF sk] sk_height [OF sk])
  from same_span [OF sk _ _ this] ab e show ?thesis by (simp add: irect32_def)
qed

lemma before_keys:
  assumes sk: "sk_rect_laws sk" and d: "arrow_key d" and x: "x \<in> cands" and y: "y \<in> cands"
  shows "before sk d x y \<longleftrightarrow> lex_less (rule_keys sk d x) (rule_keys sk d y)"
proof (cases "cd_frame x = cd_frame y")
  case True
  then show ?thesis
    by (simp add: before_def rule_keys_def Let_def rule_less_def)
next
  case False
  let ?a = "cd_frame x" and ?b = "cd_frame y"
  have xy: "irect32 ?a" "irect32 ?b" using x y by (simp_all add: cands_def)
  have ne: "\<not> (fLeft ?a = fLeft ?b \<and> fRight ?a = fRight ?b \<and> fTop ?a = fTop ?b \<and> fBottom ?a = fBottom ?b)"
    using False by (cases ?a; cases ?b) auto
  note span = same_span [OF sk xy] and rise = same_rise [OF sk xy]
  let ?w = "irect_width sk ?a = irect_width sk ?b" and ?h = "irect_height sk ?a = irect_height sk ?b"
  have n: "\<not> (fLeft ?a = fLeft ?b \<and> fTop ?a = fTop ?b \<and> ?w \<and> ?h)"
    "\<not> (fRight ?a = fRight ?b \<and> fTop ?a = fTop ?b \<and> ?w \<and> ?h)"
    "\<not> (fBottom ?a = fBottom ?b \<and> fLeft ?a = fLeft ?b \<and> ?w \<and> ?h)"
    using ne span rise by blast+
  from d consider "d = RNS_KEY_Right" | "d = RNS_KEY_Left" | "d = RNS_KEY_Up" | "d = RNS_KEY_Down"
    by (auto simp: arrow_key_def)
  then show ?thesis
  proof cases
    case 1
    with False n(1) show ?thesis by (auto simp: before_def rule_keys_def Let_def rule_less_def)
  next
    case 2
    with False n(2) show ?thesis by (auto simp: before_def rule_keys_def Let_def rule_less_def)
  next
    case 3
    with False n(3) show ?thesis by (auto simp: before_def rule_keys_def Let_def rule_less_def)
  next
    case 4
    with False n(1) show ?thesis by (auto simp: before_def rule_keys_def Let_def rule_less_def)
  qed
qed

lemma before_strict_weak:
  assumes "sk_rect_laws sk" and "arrow_key d"
  shows "strict_weak cands (before sk d)"
proof
  note k = before_keys [OF assms] and n = length_rule_keys
  fix x y z
  show "x \<in> cands \<Longrightarrow> \<not> before sk d x x" by (simp add: k lex_less_irrefl)
  show "x \<in> cands \<Longrightarrow> y \<in> cands \<Longrightarrow> z \<in> cands \<Longrightarrow> before sk d x y \<Longrightarrow> before sk d y z \<Longrightarrow> before sk d x z"
    by (auto simp: k intro: lex_less_trans)
  assume "x \<in> cands" "y \<in> cands" "z \<in> cands" "\<not> before sk d x y" "\<not> before sk d y x"
    "\<not> before sk d y z" "\<not> before sk d z y"
  then have "rule_keys sk d x = rule_keys sk d y" "rule_keys sk d y = rule_keys sk d z"
    using rules.total [of "rule_keys sk d x" "rule_keys sk d y"]
      rules.total [of "rule_keys sk d y" "rule_keys sk d z"] by (auto simp: k n)
  then show "\<not> before sk d x z \<and> \<not> before sk d z x"
    using \<open>x \<in> cands\<close> \<open>z \<in> cands\<close> by (simp add: k lex_less_irrefl)
qed

section \<open>Sorted sets\<close>

text \<open>A sorted set of candidates, as a strictly sorted list: what the navigator asks of folly.\<close>

locale sorted_set = strict_weak A lt for A :: "'a set" and lt :: "'a \<Rightarrow> 'a \<Rightarrow> bool" +
  fixes ins :: "'a \<Rightarrow> 'a list \<Rightarrow> 'a list"
  assumes ins_known: "x \<in> A \<Longrightarrow> set xs \<subseteq> A \<Longrightarrow> sorted_wrt lt xs \<Longrightarrow> y \<in> set xs \<Longrightarrow>
      \<not> lt x y \<Longrightarrow> \<not> lt y x \<Longrightarrow> ins x xs = xs"
    and ins_new: "x \<in> A \<Longrightarrow> set xs \<subseteq> A \<Longrightarrow> sorted_wrt lt xs \<Longrightarrow> (\<And>y. y \<in> set xs \<Longrightarrow> lt x y \<or> lt y x) \<Longrightarrow>
      sorted_wrt lt (ins x xs) \<and> set (ins x xs) = insert x (set xs)"
begin

definition ins_all :: "'a list \<Rightarrow> 'a list \<Rightarrow> 'a list" where
  "ins_all xs acc = fold ins xs acc"

lemma ins_ok:
  assumes "x \<in> A" "set xs \<subseteq> A" "sorted_wrt lt xs"
  shows "sorted_wrt lt (ins x xs)" and "set xs \<subseteq> set (ins x xs)" and "set (ins x xs) \<subseteq> insert x (set xs)"
    and "\<exists>y \<in> set (ins x xs). \<not> lt x y"
proof -
  have "sorted_wrt lt (ins x xs) \<and> set xs \<subseteq> set (ins x xs) \<and> set (ins x xs) \<subseteq> insert x (set xs) \<and>
      (\<exists>y \<in> set (ins x xs). \<not> lt x y)"
  proof (cases "\<exists>y \<in> set xs. \<not> lt x y \<and> \<not> lt y x")
    case True
    then obtain y where y: "y \<in> set xs" "\<not> lt x y" "\<not> lt y x" by blast
    with ins_known [OF assms y] assms show ?thesis by auto
  next
    case False
    with ins_new [OF assms] irrefl [OF assms(1)] show ?thesis by auto
  qed
  then show "sorted_wrt lt (ins x xs)" "set xs \<subseteq> set (ins x xs)" "set (ins x xs) \<subseteq> insert x (set xs)"
    "\<exists>y \<in> set (ins x xs). \<not> lt x y" by simp_all
qed

lemma ins_all_ok:
  assumes "set xs \<subseteq> A" "set acc \<subseteq> A" "sorted_wrt lt acc"
  shows "sorted_wrt lt (ins_all xs acc) \<and> set acc \<subseteq> set (ins_all xs acc) \<and>
    set (ins_all xs acc) \<subseteq> set xs \<union> set acc \<and> (\<forall>x \<in> set xs. \<exists>y \<in> set (ins_all xs acc). \<not> lt x y)"
  using assms
proof (induction xs arbitrary: acc)
  case Nil
  then show ?case by (simp add: ins_all_def)
next
  case (Cons x xs)
  then have x: "x \<in> A" and xs: "set xs \<subseteq> A" by auto
  note i = ins_ok [OF x Cons.prems(2,3)]
  have A: "set (ins x acc) \<subseteq> A" using i(3) x Cons.prems(2) by auto
  have e: "ins_all (x # xs) acc = ins_all xs (ins x acc)" by (simp add: ins_all_def)
  show ?case using Cons.IH [OF xs A i(1)] i unfolding e by fastforce
qed

text \<open>The first element precedes or equals everything that was put in.\<close>

lemma least_first:
  assumes "set xs \<subseteq> A"
  shows "(ins_all xs [] = [] \<longleftrightarrow> xs = []) \<and>
    (\<forall>y ys. ins_all xs [] = y # ys \<longrightarrow> y \<in> set xs \<and> (\<forall>x \<in> set xs. \<not> lt x y))"
proof -
  from ins_all_ok [OF assms, of "[]"] have
    s: "sorted_wrt lt (ins_all xs [])" "set (ins_all xs []) \<subseteq> set xs"
      "\<And>x. x \<in> set xs \<Longrightarrow> \<exists>y \<in> set (ins_all xs []). \<not> lt x y" by auto
  have "\<not> lt x y" if y: "ins_all xs [] = y # ys" and x: "x \<in> set xs" for x y ys
  proof -
    from s(3) [OF x] obtain z where z: "z \<in> set (y # ys)" "\<not> lt x z" using y by auto
    have yA: "y \<in> A" "z \<in> A" "x \<in> A" using y s(2) z(1) x assms by auto
    have "\<not> lt z y" using z(1) s(1) y irrefl [OF yA(1)] asym [OF yA(1,2)] by auto
    then show ?thesis using negatively_trans [of x z y] z(2) yA by simp
  qed
  moreover have "y \<in> set xs" if "ins_all xs [] = y # ys" for y ys using that s(2) by auto
  moreover have "xs = []" if "ins_all xs [] = []" using that s(3) by (cases xs) auto
  ultimately show ?thesis by (auto simp: ins_all_def)
qed

end

text \<open>The documented behaviour of \<open>folly::sorted_vector_set::insert\<close>, for any comparator that is a
  strict weak order: nothing happens if an equivalent element is there; otherwise the element is
  added and the elements stay sorted. Whatever the comparator, no other element is made up.\<close>

definition svs_laws :: "((cand \<Rightarrow> cand \<Rightarrow> bool) \<Rightarrow> cand \<Rightarrow> cand list \<Rightarrow> cand list) \<Rightarrow> bool" where
  "svs_laws insert_into \<longleftrightarrow> (\<forall>lt x xs. set (insert_into lt x xs) \<subseteq> insert x (set xs)) \<and> (\<forall>A lt x xs. strict_weak A lt \<longrightarrow> x \<in> A \<longrightarrow> set xs \<subseteq> A \<longrightarrow> sorted_wrt lt xs \<longrightarrow>
     (if \<exists>y \<in> set xs. \<not> lt x y \<and> \<not> lt y x then insert_into lt x xs = xs
      else sorted_wrt lt (insert_into lt x xs) \<and> set (insert_into lt x xs) = insert x (set xs)))"

lemma svs_sorted_set: "svs_laws f \<Longrightarrow> strict_weak A lt \<Longrightarrow> sorted_set A lt (f lt)"
  unfolding sorted_set_def sorted_set_axioms_def svs_laws_def by (auto split: if_splits) metis+

fun svs_ref :: "(cand \<Rightarrow> cand \<Rightarrow> bool) \<Rightarrow> cand \<Rightarrow> cand list \<Rightarrow> cand list" where
  "svs_ref lt x [] = [x]"
| "svs_ref lt x (y # ys) = (if lt x y then x # y # ys else if lt y x then y # svs_ref lt x ys else y # ys)"

lemma svs_ref_set: "set (svs_ref lt x xs) \<subseteq> insert x (set xs)"
  by (induction xs) auto

lemma svs_ref_known: "strict_weak A lt \<Longrightarrow> x \<in> A \<Longrightarrow> set xs \<subseteq> A \<Longrightarrow> sorted_wrt lt xs \<Longrightarrow> y \<in> set xs \<Longrightarrow>
    \<not> lt x y \<Longrightarrow> \<not> lt y x \<Longrightarrow> svs_ref lt x xs = xs"
proof (induction xs)
  case (Cons z zs)
  note sw = Cons.prems(1)
  show ?case
  proof (cases "y = z")
    case True
    with Cons show ?thesis by simp
  next
    case False
    with Cons.prems have y: "y \<in> set zs" "lt z y" by auto
    have "\<not> lt x z" using strict_weak.trans [OF sw, of x z y] Cons.prems y by auto
    with Cons.IH Cons.prems y show ?thesis by auto
  qed
qed simp

lemma svs_ref_new: "strict_weak A lt \<Longrightarrow> x \<in> A \<Longrightarrow> set xs \<subseteq> A \<Longrightarrow> sorted_wrt lt xs \<Longrightarrow>
    (\<forall>y \<in> set xs. lt x y \<or> lt y x) \<Longrightarrow>
    sorted_wrt lt (svs_ref lt x xs) \<and> set (svs_ref lt x xs) = insert x (set xs)"
proof (induction xs)
  case (Cons z zs)
  note sw = Cons.prems(1)
  show ?case
  proof (cases "lt x z")
    case True
    have "lt x y" if "y \<in> set zs" for y
      using strict_weak.trans [OF sw, of x z y] that Cons.prems True by auto
    with True Cons.prems show ?thesis by auto
  next
    case False
    with Cons.prems have "lt z x" by auto
    with Cons False show ?thesis by auto
  qed
qed simp

lemma svs_ref_laws [simp]: "svs_laws svs_ref"
  unfolding svs_laws_def
proof (intro conjI allI impI)
  show "set (svs_ref lt x xs) \<subseteq> insert x (set xs)" for lt x xs by (rule svs_ref_set)
next
  fix A and lt :: "cand \<Rightarrow> cand \<Rightarrow> bool" and x xs
  assume a: "strict_weak A lt" "x \<in> A" "set xs \<subseteq> A" "sorted_wrt lt xs"
  show "if \<exists>y \<in> set xs. \<not> lt x y \<and> \<not> lt y x then svs_ref lt x xs = xs
      else sorted_wrt lt (svs_ref lt x xs) \<and> set (svs_ref lt x xs) = insert x (set xs)"
    using svs_ref_known [OF a] svs_ref_new [OF a] by auto
qed

interpretation candidates: sorted_set cands "before sk_rect_ref RNS_KEY_Right"
  "svs_ref (before sk_rect_ref RNS_KEY_Right)"
  by (rule svs_sorted_set) (simp_all add: before_strict_weak arrow_key_def)

section \<open>The candidate chosen\<close>

definition cand_of :: "(cid \<Rightarrow> comp option) \<Rightarrow> (cid \<Rightarrow> sk_irect) \<Rightarrow> cid \<Rightarrow> cand" where
  "cand_of h F c = (case h c of
     Some k \<Rightarrow> \<lparr>cd_cid = c, cd_frame = F c, cd_zIndex = c_zIndex k, cd_tag = c_tag k\<rparr>
   | None \<Rightarrow> \<lparr>cd_cid = c, cd_frame = F c, cd_zIndex = 0, cd_tag = 0\<rparr>)"

text \<open>What the rules ask of a candidate before it is compared with others.\<close>

definition eligible ::
  "sk_rect_api \<Rightarrow> (cid \<Rightarrow> comp option) \<Rightarrow> (cid \<Rightarrow> sk_irect) \<Rightarrow> cid \<Rightarrow> cid \<Rightarrow> rnsKey \<Rightarrow> bool \<Rightarrow> cid \<Rightarrow> bool" where
  "eligible sk h F cont f key visibleOnly c \<longleftrightarrow>
     (case (h cont, h c) of
        (Some k, Some ck) \<Rightarrow> c \<noteq> f \<and> c \<in> set (c_navList k) \<and>
          (visibleOnly \<longrightarrow> comp_isVisible sk k (c_absFrame ck)) \<and>
          isValidCandidate key (F f) (F c) \<and> classify key (F f) (F c) \<noteq> Ignored
      | _ \<Rightarrow> False)"

text \<open>How far a frame is in a direction: smaller is closer.\<close>

definition distance :: "rnsKey \<Rightarrow> sk_irect \<Rightarrow> int" where
  "distance key r =
     (if key = RNS_KEY_Right then fLeft r else if key = RNS_KEY_Left then - fRight r
      else if key = RNS_KEY_Up then - fBottom r else fTop r)"

definition candidates_of ::
  "sk_rect_api \<Rightarrow> (cid \<Rightarrow> comp option) \<Rightarrow> (cid \<Rightarrow> sk_irect) \<Rightarrow> cid \<Rightarrow> cid \<Rightarrow> rnsKey \<Rightarrow> bool \<Rightarrow> cand_class \<Rightarrow>
   cid list \<Rightarrow> cand list" where
  "candidates_of sk h F cont f key vo cls cs =
     map (cand_of h F) (filter (\<lambda>c. eligible sk h F cont f key vo c \<and> classify key (F f) (F c) = cls) cs)"

lemma scan_result:
  assumes "h cont = Some k"
  shows "\<forall>c \<in> set cs. h c \<noteq> None \<and> getScreenFrame (nx_rect fx) h c = Some (F c) \<Longrightarrow>
    set cs \<subseteq> set (c_navList k) \<Longrightarrow>
    scan_candidates fx h k f (F f) key vo cs acc =
    Some (fold (nx_insert fx (before (nx_rect fx) key)) (candidates_of (nx_rect fx) h F cont f key vo Overlapping cs) (fst acc),
          fold (nx_insert fx (before (nx_rect fx) key)) (candidates_of (nx_rect fx) h F cont f key vo NonOverlapping cs) (snd acc))"
proof (induction cs arbitrary: acc)
  case Nil
  then show ?case by (simp add: candidates_of_def)
next
  case (Cons c cs)
  from Cons.prems(1) obtain ck where ck: "h c = Some ck" "getScreenFrame (nx_rect fx) h c = Some (F c)" by auto
  have co: "cand_of h F c = \<lparr>cd_cid = c, cd_frame = F c, cd_zIndex = c_zIndex ck, cd_tag = c_tag ck\<rparr>"
    by (simp add: cand_of_def ck)
  have el: "eligible (nx_rect fx) h F cont f key vo c \<longleftrightarrow> c \<noteq> f \<and>
      (vo \<longrightarrow> comp_isVisible (nx_rect fx) k (c_absFrame ck)) \<and> isValidCandidate key (F f) (F c) \<and>
      classify key (F f) (F c) \<noteq> Ignored"
    using Cons.prems(2) by (simp add: eligible_def assms ck)
  have IH: "scan_candidates fx h k f (F f) key vo cs a =
    Some (fold (nx_insert fx (before (nx_rect fx) key)) (candidates_of (nx_rect fx) h F cont f key vo Overlapping cs) (fst a),
          fold (nx_insert fx (before (nx_rect fx) key)) (candidates_of (nx_rect fx) h F cont f key vo NonOverlapping cs) (snd a))" for a
    using Cons by simp
  show ?case
    by (cases "classify key (F f) (F c)")
      (auto simp: ck co el candidates_of_def Let_def IH [unfolded candidates_of_def])
qed

lemma before_distance: "arrow_key key \<Longrightarrow> \<not> before sk key x y \<Longrightarrow>
    distance key (cd_frame y) \<le> distance key (cd_frame x)"
  by (cases "cd_frame x = cd_frame y")
    (auto simp: before_def distance_def Let_def rule_less_def arrow_key_def split: if_splits)

lemma pick_nearest:
  assumes key: "arrow_key key"
    and ov0: "\<forall>y ys. ov = y # ys \<longrightarrow> y \<in> X \<and> (\<forall>x \<in> X. \<not> before sk key x y)" and ovE: "ov = [] \<longleftrightarrow> X = {}"
    and non0: "\<forall>y ys. non = y # ys \<longrightarrow> y \<in> Y \<and> (\<forall>x \<in> Y. \<not> before sk key x y)" and nonE: "non = [] \<longleftrightarrow> Y = {}"
    and side: "key = RNS_KEY_Right \<or> key = RNS_KEY_Left \<longrightarrow> Y = {}"
    and tags0: "\<forall>x \<in> X \<union> Y. cd_tag x \<noteq> -1"
  shows "pickCandidateInDirection key ov non = None \<longleftrightarrow> X \<union> Y = {}"
    and "pickCandidateInDirection key ov non = Some z \<Longrightarrow> z \<in> X \<union> Y \<and>
      (\<forall>x \<in> X \<union> Y. distance key (cd_frame z) \<le> distance key (cd_frame x))"
proof -
  note near = before_distance [OF key]
  have ov: "ov = y # ys \<Longrightarrow> y \<in> X \<and> (\<forall>x \<in> X. \<not> before sk key x y)"
    and non: "non = y # ys \<Longrightarrow> y \<in> Y \<and> (\<forall>x \<in> Y. \<not> before sk key x y)" for y ys
    using ov0 non0 by blast+
  have tags: "x \<in> X \<union> Y \<Longrightarrow> cd_tag x \<noteq> -1" for x using tags0 by blast
  have "(pickCandidateInDirection key ov non = None \<longleftrightarrow> X \<union> Y = {}) \<and>
    (\<forall>z. pickCandidateInDirection key ov non = Some z \<longrightarrow> z \<in> X \<union> Y \<and>
      (\<forall>x \<in> X \<union> Y. distance key (cd_frame z) \<le> distance key (cd_frame x)))"
  proof (cases ov)
    case Nil
    with ovE have X: "X = {}" by simp
    show ?thesis
    proof (cases non)
      case Nil
      with nonE X \<open>ov = []\<close> show ?thesis by (simp add: pickCandidateInDirection_def)
    next
      case (Cons y ys)
      from non [OF Cons] have y: "y \<in> Y" "\<And>x. x \<in> Y \<Longrightarrow> distance key (cd_frame y) \<le> distance key (cd_frame x)"
        using near by blast+
      with side have ud: "key = RNS_KEY_Up \<or> key = RNS_KEY_Down" using key by (auto simp: arrow_key_def)
      have "pickCandidateInDirection key ov non = Some y"
        using ud tags [of y] y(1) Cons \<open>ov = []\<close> by (simp add: pickCandidateInDirection_def Let_def)
      with y X show ?thesis by auto
    qed
  next
    case ovC: (Cons x xs)
    from ov [OF ovC] have x: "x \<in> X" "\<And>a. a \<in> X \<Longrightarrow> distance key (cd_frame x) \<le> distance key (cd_frame a)"
      using near by blast+
    show ?thesis
    proof (cases non)
      case Nil
      with nonE have "Y = {}" by simp
      moreover have "pickCandidateInDirection key ov non = Some x"
        using tags [of x] x(1) Nil ovC by (simp add: pickCandidateInDirection_def Let_def)
      ultimately show ?thesis using x by auto
    next
      case (Cons y ys)
      from non [OF Cons] have y: "y \<in> Y" "\<And>a. a \<in> Y \<Longrightarrow> distance key (cd_frame y) \<le> distance key (cd_frame a)"
        using near by blast+
      with side have ud: "key = RNS_KEY_Up \<or> key = RNS_KEY_Down" using key by (auto simp: arrow_key_def)
      have "pickCandidateInDirection key ov non =
          Some (if distance key (cd_frame y) < distance key (cd_frame x) then y else x)"
        using ud tags [of x] tags [of y] x(1) y(1) Cons ovC
        by (auto simp: pickCandidateInDirection_def Let_def distance_def)
      with x y show ?thesis by (auto split: if_splits) (meson order_trans less_imp_le linear not_le)+
    qed
  qed
  then show "pickCandidateInDirection key ov non = None \<longleftrightarrow> X \<union> Y = {}"
    "pickCandidateInDirection key ov non = Some z \<Longrightarrow> z \<in> X \<union> Y \<and>
      (\<forall>x \<in> X \<union> Y. distance key (cd_frame z) \<le> distance key (cd_frame x))" by blast+
qed

definition frames_of :: "sk_rect_api \<Rightarrow> (cid \<Rightarrow> comp option) \<Rightarrow> (cid \<Rightarrow> sk_irect) \<Rightarrow> cid set \<Rightarrow> bool" where
  "frames_of sk h F C \<longleftrightarrow> (\<forall>c \<in> C. h c \<noteq> None \<and> getScreenFrame sk h c = Some (F c) \<and> irect32 (F c))"

lemma find_candidate:
  assumes sk: "sk_rect_laws (nx_rect fx)" and svs: "svs_laws (nx_insert fx)" and key: "arrow_key key"
    and cont: "heap s cont = Some k" and f: "currentFocus s = Some f"
    and frames: "frames_of (nx_rect fx) (heap s) F (insert f (set (c_navList k)))"
    and tags: "\<And>c ck. c \<in> set (c_navList k) \<Longrightarrow> heap s c = Some ck \<Longrightarrow> c_tag ck \<noteq> -1"
  shows "\<exists>r. findFocusCandidateInContainer fx cont key vo s = Some r \<and>
    (case r of
       None \<Rightarrow> \<forall>c. \<not> eligible (nx_rect fx) (heap s) F cont f key vo c
     | Some c \<Rightarrow> eligible (nx_rect fx) (heap s) F cont f key vo c \<and>
         (\<forall>x. eligible (nx_rect fx) (heap s) F cont f key vo x \<longrightarrow> distance key (F c) \<le> distance key (F x)))"
proof -
  let ?sk = "nx_rect fx" and ?h = "heap s"
  let ?el = "eligible ?sk ?h F cont f key vo" and ?lt = "before ?sk key"
  let ?xs = "candidates_of ?sk ?h F cont f key vo Overlapping (c_navList k)"
    and ?ys = "candidates_of ?sk ?h F cont f key vo NonOverlapping (c_navList k)"
  let ?ov = "fold (nx_insert fx ?lt) ?xs []" and ?non = "fold (nx_insert fx ?lt) ?ys []"
  have cf: "cd_frame (cand_of ?h F c) = F c" "cd_cid (cand_of ?h F c) = c" for c
    by (simp_all add: cand_of_def split: option.split)
  have in_list: "?el c \<Longrightarrow> c \<in> set (c_navList k)" for c
    by (auto simp: eligible_def cont split: option.splits)
  have cand_A: "set ?xs \<subseteq> cands" "set ?ys \<subseteq> cands"
    using frames in_list by (auto simp: candidates_of_def cands_def cf frames_of_def)
  note ss = svs_sorted_set [OF svs before_strict_weak [OF sk key]]
  note ov = sorted_set.least_first [OF ss cand_A(1)] and non = sorted_set.least_first [OF ss cand_A(2)]
  note fold_eq = sorted_set.ins_all_def [OF ss]
  have set: "set ?xs \<union> set ?ys = cand_of ?h F ` {c. ?el c}"
  proof -
    have "classify key (F f) (F c) = Overlapping \<or> classify key (F f) (F c) = NonOverlapping" if "?el c" for c
      using that by (cases "classify key (F f) (F c)") (auto simp: eligible_def split: option.splits)
    then show ?thesis using in_list by (auto simp: candidates_of_def)
  qed
  have side: "key = RNS_KEY_Right \<or> key = RNS_KEY_Left \<longrightarrow> set ?ys = {}"
    by (auto simp: candidates_of_def classify_def split: if_splits)
  have tg: "\<forall>x \<in> set ?xs \<union> set ?ys. cd_tag x \<noteq> -1"
  proof
    fix x assume "x \<in> set ?xs \<union> set ?ys"
    with set obtain c where c: "x = cand_of ?h F c" "?el c" by auto
    then obtain ck where ck: "?h c = Some ck" by (auto simp: eligible_def split: option.splits)
    from tags [OF in_list [OF c(2)] ck] c(1) ck show "cd_tag x \<noteq> -1" by (simp add: cand_of_def)
  qed
  have "scan_candidates fx ?h k f (F f) key vo (c_navList k) ([], []) = Some (?ov, ?non)"
    using scan_result [where F = F and cs = "c_navList k" and h = ?h and cont = cont and k = k] cont frames
    by (simp add: frames_of_def)
  moreover obtain fk where "?h f = Some fk" "getScreenFrame ?sk ?h f = Some (F f)"
    using frames by (auto simp: frames_of_def)
  ultimately have run: "findFocusCandidateInContainer fx cont key vo s =
      Some (map_option cd_cid (pickCandidateInDirection key ?ov ?non))"
    by (simp add: findFocusCandidateInContainer_def f cont)
  have o1: "\<forall>y ys. ?ov = y # ys \<longrightarrow> y \<in> set ?xs \<and> (\<forall>x \<in> set ?xs. \<not> ?lt x y)"
    using ov unfolding fold_eq by blast
  have o2: "?ov = [] \<longleftrightarrow> set ?xs = {}" using ov unfolding fold_eq by simp
  have n1: "\<forall>y ys. ?non = y # ys \<longrightarrow> y \<in> set ?ys \<and> (\<forall>x \<in> set ?ys. \<not> ?lt x y)"
    using non unfolding fold_eq by blast
  have n2: "?non = [] \<longleftrightarrow> set ?ys = {}" using non unfolding fold_eq by simp
  note pick = pick_nearest [OF key o1 o2 n1 n2 side tg]
  show ?thesis
  proof (cases "pickCandidateInDirection key ?ov ?non")
    case None
    with pick(1) set have "{c. ?el c} = {}" by auto
    with None run show ?thesis by auto
  next
    case (Some z)
    from pick(2) [OF Some] set obtain c where c: "z = cand_of ?h F c" "?el c" by auto
    have "distance key (F c) \<le> distance key (F x)" if "?el x" for x
    proof -
      have "cand_of ?h F x \<in> set ?xs \<union> set ?ys" using that set by auto
      with pick(2) [OF Some] have "distance key (cd_frame z) \<le> distance key (cd_frame (cand_of ?h F x))" by blast
      with c(1) show ?thesis by (simp add: cf)
    qed
    with c Some run show ?thesis by (simp add: cf)
  qed
qed

end
