(* ===== verification/NavSafety.thy ===== *)
theory NavSafety imports SpatialNav begin

text \<open>
  Moving the focus is safe. The walks of \<open>SpatialNav\<close> end and use live components only, by induction
  over the relation that leads from a component to the container that lists it. \<open>quiet\<close> relates the
  states that differ in scroll positions and focus only; \<open>nav_live\<close> is the invariant of \<open>Mounting\<close> with
  live container pointers. Every task of the main loop keeps it (\<open>nav_step_ok\<close>), under the guards that
  \<open>event_ok\<close> spells out; the last properties show what happens without them.
\<close>

section \<open>Walks that end\<close>

definition owner_rel :: "(cid \<Rightarrow> comp option) \<Rightarrow> (cid \<times> cid) set" where
  "owner_rel h = {(a, c). owns h a c}"

lemma wf_owner_rel:
  assumes "\<And>x. h x \<noteq> None \<Longrightarrow> rooted h x"
  shows "wf (owner_rel h)"
proof -
  let ?P = "{(p, c). parent_of h c = Some p}"
  have acc: "c \<in> Wellfounded.acc ?P" if "rooted h c" for c
    using that
  proof (induction rule: rooted.induct)
    case (rooted_top c)
    show ?case
    proof (rule accI)
      fix y assume "(y, c) \<in> ?P"
      with rooted_top(2) show "y \<in> Wellfounded.acc ?P" by simp
    qed
  next
    case (rooted_step c p)
    show ?case
    proof (rule accI)
      fix y assume "(y, c) \<in> ?P"
      with rooted_step(2) have "y = p" by simp
      with rooted_step.IH show "y \<in> Wellfounded.acc ?P" by simp
    qed
  qed
  have "c \<in> Wellfounded.acc ?P" for c
  proof (cases "h c")
    case None
    show ?thesis
    proof (rule accI)
      fix y assume "(y, c) \<in> ?P"
      with None show "y \<in> Wellfounded.acc ?P" by (simp add: parent_of_def)
    qed
  next
    case (Some k)
    then have "rooted h c" by (intro assms) simp
    then show ?thesis by (rule acc)
  qed
  then have "\<forall>c. c \<in> Wellfounded.acc ?P" by (rule allI)
  then have "wf ?P" by (rule acc_wfI)
  then have "wf (?P\<^sup>+)" by (rule wf_trancl)
  moreover have "(a, c) \<in> ?P\<^sup>+" if "owns h a c" for a c
    using that by (induction rule: owns.induct) (auto intro: trancl_into_trancl)
  then have "owner_rel h \<subseteq> ?P\<^sup>+" by (auto simp: owner_rel_def)
  ultimately show ?thesis by (rule wf_subset)
qed

lemma owner_live: "owns h a c \<Longrightarrow> (\<And>x. h x \<noteq> None \<Longrightarrow> rooted h x) \<Longrightarrow> h a \<noteq> None \<and> h c \<noteq> None"
proof (induction rule: owns.induct)
  case (owns_here c p)
  then have "rooted h c" using parent_live [of h c] by simp
  then have "rooted h p" by (rule rooted.cases) (use owns_here(1) in auto)
  then show ?case using rooted_live parent_live [of h c] owns_here(1) by auto
next
  case (owns_above c p a)
  then show ?case using parent_live [of h c] by auto
qed

lemma wf_below:
  assumes ok: "nav_ok s"
  shows "wf ((owner_rel (heap s))\<inverse>)"
proof -
  have "owner_rel (heap s) \<subseteq> {..<nextCid s} \<times> {..<nextCid s}"
    using owner_live [OF _ nav_okD(1) [OF ok]] nav_okD(2) [OF ok] by (fastforce simp: owner_rel_def)
  then have "finite (owner_rel (heap s))" by (rule finite_subset) simp
  moreover have "acyclic (owner_rel (heap s))"
    using wf_owner_rel [OF nav_okD(1) [OF ok]] by (rule wf_acyclic)
  ultimately show ?thesis by (intro finite_acyclic_wf) (auto simp: finite_converse acyclic_converse)
qed

lemma screen_frame_total:
  assumes tree: "\<And>x. h x \<noteq> None \<Longrightarrow> rooted h x" and "h c \<noteq> None"
  shows "\<exists>r. getScreenFrame sk h c = Some r"
  using assms(2)
proof (induction c rule: wf_induct_rule [OF wf_owner_rel [OF tree]])
  case (2 c)
  then obtain k where k: "h c = Some k" by blast
  note r = tree [OF 2(2)]
  obtain a where a: "nearestAncestorContainer h c = Some a" using nearest_total [OF r] by blast
  show ?case
  proof (cases a)
    case None
    with k a show ?thesis by (subst getScreenFrame.simps) simp
  next
    case (Some p)
    with nearest_owner [OF r, of p] a have p: "owns h p c" "container_at h p" by auto
    then obtain pk where pk: "h p = Some pk" using container_live by blast
    from 2(1) [of p] p pk obtain f where "getScreenFrame sk h p = Some f" by (auto simp: owner_rel_def)
    with k a Some pk show ?thesis
      by (subst getScreenFrame.simps) (auto split: comp_kind.split)
  qed
qed auto

lemma has_ancestor_total: "rooted h c \<Longrightarrow> \<exists>b. hasAncestor h c a = Some b"
proof (induction rule: rooted.induct)
  case (rooted_top c)
  then show ?case by (subst hasAncestor.simps) (auto simp: parent_of_def)
next
  case (rooted_step c p)
  then obtain k where k: "h c = Some k" "c_parent k = Some p" by (auto simp: parent_of_def)
  from rooted_live [OF rooted_step(3)] obtain pk where "h p = Some pk" by blast
  with k rooted_step.IH show ?case by (subst hasAncestor.simps) auto
qed

section \<open>What navigating keeps\<close>

text \<open>A component that a container lists, so that the focus may go to it.\<close>

definition listed :: "(cid \<Rightarrow> comp option) \<Rightarrow> cid \<Rightarrow> bool" where
  "listed h c \<longleftrightarrow> (\<exists>a. container_at h a \<and> c \<in> set (list_at h a))"

text \<open>Only scroll positions, frames and the focus differ.\<close>

definition quiet :: "nav \<Rightarrow> nav \<Rightarrow> bool" where
  "quiet s t \<longleftrightarrow> same_tree (heap s) (heap t) \<and> sim (heap s) (heap t) \<and>
     (\<forall>x. list_at (heap t) x = list_at (heap s) x \<and> focusable_at (heap t) x = focusable_at (heap s) x) \<and>
     registry t = registry s \<and> nextCid t = nextCid s \<and> rootComp t = rootComp s \<and>
     rootContainer t = rootContainer s \<and> providers t = providers s"

text \<open>The container pointers are live, and the root container is the root view.\<close>

definition nav_live :: "nav \<Rightarrow> bool" where
  "nav_live s \<longleftrightarrow> nav_ok s \<and> (\<forall>q. currentContainer s = Some q \<longrightarrow> container_at (heap s) q) \<and>
     (\<exists>r. rootComp s = Some r \<and> rootContainer s = Some r)"

lemma quiet_refl [simp]: "quiet s s"
  by (simp add: quiet_def)

lemma quiet_trans: "quiet s t \<Longrightarrow> quiet t u \<Longrightarrow> quiet s u"
  using same_tree_trans sim_trans unfolding quiet_def by metis

lemma quiet_listed: "quiet s t \<Longrightarrow> listed (heap t) c = listed (heap s) c"
  by (simp add: quiet_def listed_def same_tree_def)

lemma quiet_container: "quiet s t \<Longrightarrow> container_at (heap t) c = container_at (heap s) c"
  by (simp add: quiet_def same_tree_def)

lemma lists_ok_same:
  assumes "same_tree h g" "\<And>x. list_at g x = list_at h x" "\<And>x. focusable_at g x = focusable_at h x"
  shows "lists_ok g = lists_ok h"
  using assms same_tree_owns [OF assms(1)] same_treeD(3) [OF assms(1)]
  by (simp add: lists_ok_def belongs_def)

definition same_component :: "comp \<Rightarrow> comp \<Rightarrow> bool" where
  "same_component k k' \<longleftrightarrow> c_tag k' = c_tag k \<and> c_parent k' = c_parent k \<and> c_props k' = c_props k \<and>
     c_preferredFocus k' = c_preferredFocus k \<and> c_navList k' = c_navList k \<and> isContainer k' = isContainer k"

lemma quiet_put:
  assumes c: "heap s c = Some k" and same: "same_component k k'"
  shows "quiet s (put_comp c k' s)"
  using same_tree_put [of "heap s" c k k'] sim_put [of "heap s" c k k'] c same
  by (auto simp: quiet_def same_component_def list_at_def focusable_at_def isFocusable_def put_comp_def)

lemma nav_ok_put:
  assumes ok: "nav_ok s" and c: "heap s c = Some k" and same: "same_component k k'"
  shows "nav_ok (put_comp c k' s)"
proof -
  let ?t = "put_comp c k' s"
  note q = quiet_put [OF c same]
  then have tree: "same_tree (heap s) (heap ?t)" and sim: "sim (heap s) (heap ?t)"
    and lists: "\<And>x. list_at (heap ?t) x = list_at (heap s) x"
    and foc: "\<And>x. focusable_at (heap ?t) x = focusable_at (heap s) x"
    unfolding quiet_def by blast+
  show ?thesis
  proof (rule nav_ok_intro [OF ok _ _ _ sim])
    show "rooted (heap ?t) x" if "heap ?t x \<noteq> None" for x
    proof -
      have "heap s x \<noteq> None" using that simD [OF sim, of x] by simp
      then show ?thesis by (rule same_tree_rooted [OF nav_okD(1) [OF ok] tree])
    qed
    show "parent_of (heap ?t) r = None" if "rootComp s = Some r" for r
      using nav_okD(5) [OF ok that] same_treeD(2) [OF tree, of r] by simp
    show "c_preferredFocus j \<noteq> None \<and> c_props j \<noteq> None" if j: "heap ?t x = Some j" "c_parent j \<noteq> None" for x j
    proof (cases "x = c")
      case True
      with j same nav_okD(6) [OF ok c] show ?thesis by (simp add: same_component_def)
    next
      case False
      with j nav_okD(6) [OF ok, of x j] show ?thesis by simp
    qed
    show "lists_ok (heap ?t)" using lists_ok_same [OF tree lists foc] nav_okD(7) [OF ok] by simp
    show "focus_ok ?t"
      by (rule focus_ok_keep [OF nav_okD(8) [OF ok] sim]) (use lists in simp_all)
  qed simp_all
qed

lemma nav_live_put:
  assumes live: "nav_live s" and c: "heap s c = Some k" and same: "same_component k k'"
  shows "nav_live (put_comp c k' s)"
  using nav_ok_put [OF _ c same] quiet_container [OF quiet_put [OF c same]] live
  by (simp add: nav_live_def put_comp_def)

lemma scroll_same: "same_component k (snd (comp_scrollInDirection fx cand key k))"
  "same_component k (snd (comp_scrollTo fx cand k))"
  by (auto simp: comp_scrollInDirection_def comp_scrollTo_def same_component_def isContainer_def Let_def
      split: comp_kind.split prod.split)

lemma same_component_refl [simp]: "same_component k k"
  by (simp add: same_component_def)

lemma listed_live:
  assumes ok: "nav_ok s" and l: "listed (heap s) c"
  shows "heap s c \<noteq> None" and "focusable_at (heap s) c"
    and "\<exists>q. nearestAncestorContainer (heap s) c = Some (Some q) \<and> container_at (heap s) q \<and> owns (heap s) q c"
proof -
  from l obtain a where a: "container_at (heap s) a" "c \<in> set (list_at (heap s) a)" by (auto simp: listed_def)
  with lists_ok_container(2) [OF nav_okD(7) [OF ok]] have b: "belongs (heap s) a c" by blast
  then show "focusable_at (heap s) c" by (simp add: belongs_def)
  then show n: "heap s c \<noteq> None" by (rule focusable_live)
  with nearest_owner [OF nav_okD(1) [OF ok n], of a] a(1) b
  show "\<exists>q. nearestAncestorContainer (heap s) c = Some (Some q) \<and> container_at (heap s) q \<and> owns (heap s) q c"
    by (auto simp: belongs_def)
qed

lemma focused_listed: "nav_ok s \<Longrightarrow> currentFocus s = Some c \<Longrightarrow> listed (heap s) c"
  using nav_okD(8) [of s] by (auto simp: focus_ok_def listed_def)

lemma update_focus_ok:
  assumes live: "nav_live s" and c: "listed (heap s) c"
  shows "\<exists>t. updateFocusCandidate fx needScroll c s = Some t \<and> nav_live t \<and> quiet s t"
proof (cases "currentFocus s = Some c")
  case True
  then show ?thesis using live by (simp add: updateFocusCandidate_def)
next
  case False
  from live have ok: "nav_ok s" by (simp add: nav_live_def)
  from listed_live [OF ok c] obtain ck q where ck: "heap s c = Some ck"
    and q: "nearestAncestorContainer (heap s) c = Some (Some q)" "container_at (heap s) q" by blast
  define cont where "cont = (if isContainer ck then c else q)"
  have contc: "container_at (heap s) cont" using q(2) ck by (simp add: cont_def container_at_def)
  then obtain qk where qk: "heap s cont = Some qk" using container_live by blast
  have blur: "\<exists>ns. (case currentFocus s of None \<Rightarrow> Some s
      | Some f \<Rightarrow> do { fk \<leftarrow> heap s f; Some (notify (HandleBlur f) (notify (Blur (c_tag fk)) s)) }) =
      Some (s\<lparr>notices := ns\<rparr>)"
  proof (cases "currentFocus s")
    case None
    then show ?thesis by (intro exI [of _ "notices s"]) simp
  next
    case (Some f)
    with listed_live(1) [OF ok focused_listed [OF ok Some]] show ?thesis
      by (auto simp: notify_def)
  qed
  then obtain ns where ns: "(case currentFocus s of None \<Rightarrow> Some s
      | Some f \<Rightarrow> do { fk \<leftarrow> heap s f; Some (notify (HandleBlur f) (notify (Blur (c_tag fk)) s)) }) =
      Some (s\<lparr>notices := ns\<rparr>)" by blast
  let ?s2 = "s\<lparr>notices := ns @ [Focus (c_tag ck)], currentFocus := Some c, currentContainer := Some cont\<rparr>"
  have f2: "focus_ok ?s2"
    using c ck by (simp add: focus_ok_def listed_def focus_tag_def js_focused_def)
  have ok2: "nav_ok ?s2"
    using ok f2 by (simp add: nav_ok_def)
  have live2: "nav_live ?s2" using live ok2 contc by (simp add: nav_live_def)
  have q2: "quiet s ?s2" by (simp add: quiet_def)
  have near: "(if isContainer ck then Some (Some c) else nearestAncestorContainer (heap s) c) = Some (Some cont)"
    using q by (simp add: cont_def)
  show ?thesis
  proof (cases needScroll)
    case False
    with \<open>currentFocus s \<noteq> Some c\<close> ns near ck live2 q2 show ?thesis
      by (simp add: updateFocusCandidate_def notify_def)
  next
    case True
    let ?r = "comp_scrollTo fx (if cont = c then None else Some (c_absFrame ck)) qk"
    let ?s3 = "put_comp cont (snd ?r) ?s2"
    have qk2: "heap ?s2 cont = Some qk" using qk by simp
    have live3: "nav_live ?s3" by (rule nav_live_put [OF live2 qk2 scroll_same(2)])
    have q3: "quiet s ?s3" by (rule quiet_trans [OF q2 quiet_put [OF qk2 scroll_same(2)]])
    have hf: "nav_live (notify (HandleFocus c) t) = nav_live t \<and> quiet s (notify (HandleFocus c) t) = quiet s t" for t
      by (simp add: nav_live_def nav_ok_def focus_ok_def focus_tag_def notify_def js_focused_def quiet_def)
    have "updateFocusCandidate fx needScroll c s = Some (notify (HandleFocus c) ?s3)"
      using False True ns near ck qk
      by (cases ?r) (simp add: updateFocusCandidate_def notify_def Let_def \<open>currentFocus s \<noteq> Some c\<close>)
    with live3 q3 hf show ?thesis by blast
  qed
qed

section \<open>Searching never faults\<close>

text \<open>A listed component below a container.\<close>

definition found_in :: "(cid \<Rightarrow> comp option) \<Rightarrow> cid \<Rightarrow> cid \<Rightarrow> bool" where
  "found_in h a d \<longleftrightarrow> listed h d \<and> (a, d) \<in> (owner_rel h)\<^sup>+"

lemma found_here: "listed h d \<Longrightarrow> owns h a d \<Longrightarrow> found_in h a d"
  by (auto simp: found_in_def owner_rel_def)

lemma found_above: "owns h a c \<Longrightarrow> found_in h c d \<Longrightarrow> found_in h a d"
  by (auto simp: found_in_def owner_rel_def intro: trancl_into_trancl2)

lemma in_list_owned:
  assumes "nav_ok s" "container_at (heap s) a" "x \<in> set (list_at (heap s) a)"
  shows "owns (heap s) a x" and "listed (heap s) x" and "focusable_at (heap s) x"
  using lists_ok_container(2) [OF nav_okD(7) [OF assms(1)] assms(2), of x] assms(2,3)
  by (auto simp: belongs_def listed_def)

lemma first_total:
  assumes ok: "nav_ok s" and "container_at (heap s) c"
  shows "\<exists>r. firstInContainer sk (heap s) vis skip c = Some r \<and> (\<forall>d. r = Some d \<longrightarrow> found_in (heap s) c d)"
  using assms(2)
proof (induction c rule: wf_induct_rule [OF wf_below [OF ok]])
  case (1 c)
  let ?h = "heap s"
  obtain k where k: "?h c = Some k" using container_live [OF 1(2)] by blast
  show ?case
  proof (cases "c_navList k")
    case Nil
    with k show ?thesis by (subst firstInContainer.simps) simp
  next
    case (Cons first rest)
    with k have mem: "first \<in> set (list_at ?h c)" by (simp add: list_at_def)
    note l = in_list_owned [OF ok 1(2) mem]
    obtain fk where fk: "?h first = Some fk" using focusable_live [OF l(3)] by blast
    show ?thesis
    proof (cases "isContainer fk")
      case True
      then have "container_at ?h first" using fk by (simp add: container_at_def)
      with 1(1) [of first] l(1) obtain r where
        r: "firstInContainer sk ?h vis skip first = Some r" "\<forall>d. r = Some d \<longrightarrow> found_in ?h first d"
        by (auto simp: owner_rel_def)
      show ?thesis
        using r k Cons fk found_here [OF l(2,1)] found_above [OF l(1)]
        by (subst firstInContainer.simps) (auto split: option.split)
    next
      case False
      with k Cons fk found_here [OF l(2,1)] show ?thesis by (subst firstInContainer.simps) auto
    qed
  qed
qed

lemma focusable_props: "focusable_at h c \<Longrightarrow> \<exists>k p. h c = Some k \<and> c_props k = Some p"
  by (cases "h c") (auto simp: focusable_at_def isFocusable_def split: bind_splits)

lemma preferred_step:
  assumes found: "preferredFocus h rest = Some r" "\<forall>d. r = Some d \<longrightarrow> found_in h a d"
    and k: "h c = Some k"
    and inner: "(if isContainer k then preferredFocus h (rev (c_navList k)) else Some (Some c)) = Some f"
    and f: "\<forall>d. f = Some d \<longrightarrow> found_in h a d \<and> focusable_at h d"
  shows "\<exists>r. preferredFocus h (c # rest) = Some r \<and> (\<forall>d. r = Some d \<longrightarrow> found_in h a d)"
proof (cases f)
  case None
  with found k inner show ?thesis by (subst preferredFocus.simps) simp
next
  case (Some d)
  with f obtain dk p where "h d = Some dk" "c_props dk = Some p" using focusable_props by blast
  with Some f found k inner show ?thesis by (subst preferredFocus.simps) simp
qed

lemma preferred_list:
  assumes ok: "nav_ok s" and cont: "container_at (heap s) a" and sub: "set cs \<subseteq> set (list_at (heap s) a)"
    and below: "\<And>c. owns (heap s) a c \<Longrightarrow> container_at (heap s) c \<Longrightarrow>
      \<exists>r. preferredFocus (heap s) (rev (list_at (heap s) c)) = Some r \<and> (\<forall>d. r = Some d \<longrightarrow> found_in (heap s) c d)"
  shows "\<exists>r. preferredFocus (heap s) cs = Some r \<and> (\<forall>d. r = Some d \<longrightarrow> found_in (heap s) a d)"
  using sub
proof (induction cs)
  case Nil
  then show ?case by (subst preferredFocus.simps) simp
next
  case (Cons c cs)
  let ?h = "heap s"
  from Cons.prems have mem: "c \<in> set (list_at ?h a)" by simp
  note l = in_list_owned [OF ok cont mem]
  obtain k where k: "?h c = Some k" using focusable_live [OF l(3)] by blast
  from Cons obtain r where r: "preferredFocus ?h cs = Some r" "\<forall>d. r = Some d \<longrightarrow> found_in ?h a d" by auto
  have "\<exists>f. (if isContainer k then preferredFocus ?h (rev (c_navList k)) else Some (Some c)) = Some f \<and>
      (\<forall>d. f = Some d \<longrightarrow> found_in ?h a d)"
    using below [OF l(1)] found_here [OF l(2,1)] found_above [OF l(1)] k
    by (auto simp: container_at_def list_at_def)
  then obtain f where "(if isContainer k then preferredFocus ?h (rev (c_navList k)) else Some (Some c)) = Some f"
    "\<forall>d. f = Some d \<longrightarrow> found_in ?h a d \<and> focusable_at ?h d"
    using listed_live(2) [OF ok] unfolding found_in_def by blast
  with r k show ?case by (intro preferred_step)
qed

lemma preferred_total:
  assumes ok: "nav_ok s" and "container_at (heap s) a"
  shows "\<exists>r. preferredFocus (heap s) (rev (list_at (heap s) a)) = Some r \<and> (\<forall>d. r = Some d \<longrightarrow> found_in (heap s) a d)"
  using assms(2)
proof (induction a rule: wf_induct_rule [OF wf_below [OF ok]])
  case (1 a)
  show ?case by (rule preferred_list [OF ok 1(2)]) (use 1(1) in \<open>auto simp: owner_rel_def\<close>)
qed

lemma default_total:
  assumes ok: "nav_ok s" and c: "container_at (heap s) c"
  shows "\<exists>r. findDefaultFocusInContainer sk (heap s) c = Some r \<and> (\<forall>d. r = Some d \<longrightarrow> found_in (heap s) c d)"
proof -
  from preferred_total [OF ok c] obtain r where
    r: "preferredFocus (heap s) (rev (list_at (heap s) c)) = Some r" "\<forall>d. r = Some d \<longrightarrow> found_in (heap s) c d" by blast
  from container_live [OF c] obtain k where k: "heap s c = Some k" by blast
  show ?thesis
  proof (cases r)
    case None
    with r k first_total [OF ok c, of sk True False] show ?thesis
      by (simp add: findDefaultFocusInContainer_def preferredFocusInContainer_def list_at_def)
  next
    case (Some d)
    with r k show ?thesis
      by (simp add: findDefaultFocusInContainer_def preferredFocusInContainer_def list_at_def)
  qed
qed

lemma scan_total:
  assumes svs: "svs_laws (nx_insert fx)"
  shows "\<forall>c \<in> set cs. h c \<noteq> None \<and> (\<exists>r. getScreenFrame (nx_rect fx) h c = Some r) \<Longrightarrow>
    \<exists>ov non. scan_candidates fx h k f fr key vo cs acc = Some (ov, non) \<and>
      cd_cid ` (set ov \<union> set non) \<subseteq> set cs \<union> cd_cid ` (set (fst acc) \<union> set (snd acc))"
proof (induction cs arbitrary: acc)
  case Nil
  then show ?case by (cases acc) simp
next
  case (Cons c cs)
  then obtain ck r where ck: "h c = Some ck" "getScreenFrame (nx_rect fx) h c = Some r" by auto
  let ?x = "\<lparr>cd_cid = c, cd_frame = r, cd_zIndex = c_zIndex ck, cd_tag = c_tag ck\<rparr>"
  let ?acc = "if c = f then acc
        else if vo \<and> \<not> comp_isVisible (nx_rect fx) k (c_absFrame ck) then acc
        else if \<not> isValidCandidate key fr r then acc
        else (case classify key fr r of
                Overlapping \<Rightarrow> (nx_insert fx (before (nx_rect fx) key) ?x (fst acc), snd acc)
              | NonOverlapping \<Rightarrow> (fst acc, nx_insert fx (before (nx_rect fx) key) ?x (snd acc))
              | Ignored \<Rightarrow> acc)"
  have ins: "set (nx_insert fx lt x xs) \<subseteq> insert x (set xs)" for lt x xs
    using svs by (simp add: svs_laws_def)
  have more: "cd_cid ` (set (fst ?acc) \<union> set (snd ?acc)) \<subseteq>
      insert c (cd_cid ` (set (fst acc) \<union> set (snd acc)))"
    using ins [of "before (nx_rect fx) key" ?x "fst acc"] ins [of "before (nx_rect fx) key" ?x "snd acc"]
    by (cases "classify key fr r") (auto split: if_splits)
  from Cons.prems have rest: "\<forall>c \<in> set cs. h c \<noteq> None \<and> (\<exists>r. getScreenFrame (nx_rect fx) h c = Some r)"
    by simp
  from Cons.IH [OF rest, of ?acc] obtain ov non where
    o: "scan_candidates fx h k f fr key vo cs ?acc = Some (ov, non)"
      "cd_cid ` (set ov \<union> set non) \<subseteq> set cs \<union> cd_cid ` (set (fst ?acc) \<union> set (snd ?acc))" by blast
  have "scan_candidates fx h k f fr key vo (c # cs) acc = Some (ov, non)"
    using ck o(1) by (simp add: Let_def)
  moreover have "cd_cid ` (set ov \<union> set non) \<subseteq> set (c # cs) \<union> cd_cid ` (set (fst acc) \<union> set (snd acc))"
    using subset_trans [OF o(2) Un_mono [OF subset_refl more]] by auto
  ultimately show ?case by blast
qed

lemma pick_member: "pickCandidateInDirection key ov non = Some x \<Longrightarrow> x \<in> set ov \<union> set non"
  by (auto simp: pickCandidateInDirection_def Let_def split: list.splits option.splits if_splits)

lemma find_total:
  assumes ok: "nav_ok s" and cont: "container_at (heap s) c" and svs: "svs_laws (nx_insert fx)"
  shows "\<exists>r. findFocusCandidateInContainer fx c key vo s = Some r \<and>
    (\<forall>d. r = Some d \<longrightarrow> found_in (heap s) c d)"
proof (cases "currentFocus s")
  case None
  then show ?thesis using default_total [OF ok cont] by (simp add: findFocusCandidateInContainer_def)
next
  case (Some f)
  let ?h = "heap s"
  note live = nav_okD(1) [OF ok]
  from listed_live(1) [OF ok focused_listed [OF ok Some]] obtain fk where fk: "?h f = Some fk" by blast
  obtain fr where fr: "getScreenFrame (nx_rect fx) ?h f = Some fr" using screen_frame_total [OF live] fk by blast
  obtain k where k: "?h c = Some k" using container_live [OF cont] by blast
  have l: "found_in ?h c x" "?h x \<noteq> None" if "x \<in> set (c_navList k)" for x
    using in_list_owned [OF ok cont, of x] found_here [of ?h x c] that k focusable_live [of ?h x]
    by (simp_all add: list_at_def)
  have "\<forall>x \<in> set (c_navList k). ?h x \<noteq> None \<and> (\<exists>r. getScreenFrame (nx_rect fx) ?h x = Some r)"
    using l(2) screen_frame_total [OF live] by blast
  from scan_total [OF svs this, of k f fr key vo "([], [])"] obtain ov non where
    o: "scan_candidates fx ?h k f fr key vo (c_navList k) ([], []) = Some (ov, non)"
      "cd_cid ` (set ov \<union> set non) \<subseteq> set (c_navList k)" by auto
  have "cd_cid x \<in> set (c_navList k)" if "pickCandidateInDirection key ov non = Some x" for x
    using pick_member [OF that] o(2) by blast
  with l Some fk fr k o(1) show ?thesis
    by (auto simp: findFocusCandidateInContainer_def)
qed
section \<open>Navigating never faults\<close>

lemma nav_liveD:
  assumes "nav_live s"
  shows "nav_ok s" and "currentContainer s = Some q \<Longrightarrow> container_at (heap s) q"
    and "\<exists>r. rootComp s = Some r \<and> rootContainer s = Some r \<and> container_at (heap s) r"
  using assms nav_okD(5) [of s] unfolding nav_live_def by blast+

lemma same_tree_owner: "same_tree h g \<Longrightarrow> owner_rel g = owner_rel h"
  using same_tree_owns [of h g] by (auto simp: owner_rel_def)

lemma quiet_owner: "quiet s t \<Longrightarrow> owner_rel (heap t) = owner_rel (heap s)"
  using same_tree_owner unfolding quiet_def by blast

lemma search_mode_total:
  assumes "nav_ok s"
  shows "\<exists>m. search_mode sk c k key s = Some m"
proof (cases "currentFocus s")
  case (Some f)
  from listed_live(1) [OF assms focused_listed [OF assms Some]] have "rooted (heap s) f"
    by (rule nav_okD(1) [OF assms])
  from has_ancestor_total [OF this, of c] Some show ?thesis by (auto simp: search_mode_def)
qed (auto simp: search_mode_def)

lemma scroll_for_ok:
  assumes live: "nav_live s" and k: "heap s cont = Some k"
  shows "nav_live (snd (scroll_for_candidate fx cont k c ck key s))"
    and "quiet s (snd (scroll_for_candidate fx cont k c ck key s))"
proof -
  have "\<exists>k'. same_component k k' \<and> (snd (scroll_for_candidate fx cont k c ck key s) = s \<or>
      snd (scroll_for_candidate fx cont k c ck key s) = put_comp cont k' s)"
    using scroll_same(1) [of k fx "if c = cont then None else Some (c_absFrame ck)" key]
    by (cases "comp_scrollInDirection fx (if c = cont then None else Some (c_absFrame ck)) key k")
      (auto simp: scroll_for_candidate_def Let_def split: ScrollStatus.split)
  then show "nav_live (snd (scroll_for_candidate fx cont k c ck key s))"
    "quiet s (snd (scroll_for_candidate fx cont k c ck key s))"
    using nav_live_put [OF live k] quiet_put [OF k] live by auto
qed

text \<open>A search from a container ends well, from any state that differs quietly from the first.\<close>

definition ends_well :: "nav \<Rightarrow> (bool \<times> nav) option \<Rightarrow> bool" where
  "ends_well s r \<longleftrightarrow> (\<exists>b u. r = Some (b, u) \<and> nav_live u \<and> quiet s u)"

lemma ends_well_Some [simp]: "ends_well s (Some (b, u)) \<longleftrightarrow> nav_live u \<and> quiet s u"
  by (auto simp: ends_well_def)

lemma ends_well_after: "quiet s t \<Longrightarrow> ends_well t r \<Longrightarrow> ends_well s r"
  unfolding ends_well_def using quiet_trans by blast

lemma advance_into:
  assumes live: "nav_live t" and d: "listed (heap t) d"
    and inner: "(if isContainer dk then advanceFocusInDirection fx d key t else Some (False, t)) = Some (b, u)"
      "nav_live u" "quiet t u"
  shows "ends_well t (if b then Some (True, u) else do { v \<leftarrow> updateFocusCandidate fx False d u; Some (True, v) })"
proof (cases b)
  case True
  with inner show ?thesis by simp
next
  case False
  have "listed (heap u) d" using d quiet_listed [OF inner(3)] by simp
  from update_focus_ok [OF inner(2) this, of fx False] obtain v where
    "updateFocusCandidate fx False d u = Some v" "nav_live v" "quiet u v" by blast
  with False quiet_trans [OF inner(3)] show ?thesis by simp
qed

lemma advance_ok:
  assumes ok: "nav_ok s0" and svs: "svs_laws (nx_insert fx)" and "container_at (heap s0) c"
    and "quiet s0 t" and "nav_live t"
  shows "ends_well t (advanceFocusInDirection fx c key t)"
  using assms(3-)
proof (induction c arbitrary: t rule: wf_induct_rule [OF wf_trancl [OF wf_below [OF ok]]])
  case (1 c)
  note q = 1(3) and live = 1(4)
  have okt: "nav_ok t" using live by (rule nav_liveD)
  have cont: "container_at (heap t) c" using 1(2) quiet_container [OF q] by simp
  obtain k where k: "heap t c = Some k" using container_live [OF cont] by blast
  obtain anc vo where m: "search_mode (nx_rect fx) c k key t = Some (anc, vo)"
    using search_mode_total [OF okt] by fast
  from find_total [OF okt cont svs, of key vo] obtain r where
    r: "findFocusCandidateInContainer fx c key vo t = Some r" "\<forall>d. r = Some d \<longrightarrow> found_in (heap t) c d" by blast
  show ?case
  proof (cases r)
    case None
    let ?r = "comp_scrollInDirection fx None key k"
    have "nav_live (put_comp c (snd ?r) t)" "quiet t (put_comp c (snd ?r) t)"
      using nav_live_put [OF live k scroll_same(1)] quiet_put [OF k scroll_same(1)] .
    with None k m r live show ?thesis
      by (subst advanceFocusInDirection.simps) (simp add: Let_def)
  next
    case (Some d)
    with r have d: "listed (heap t) d" "(c, d) \<in> (owner_rel (heap s0))\<^sup>+"
      using quiet_owner [OF q] by (auto simp: found_in_def)
    obtain dk where dk: "heap t d = Some dk" using listed_live(1) [OF okt d(1)] by blast
    let ?go = "scroll_for_candidate fx c k d dk key t"
    note go = scroll_for_ok [OF live k, of fx d dk key]
    show ?thesis
    proof (cases "fst ?go")
      case (Some b)
      with \<open>r = Some d\<close> k m r dk go show ?thesis
        by (subst advanceFocusInDirection.simps) (simp add: Let_def)
    next
      case None
      have dl: "listed (heap (snd ?go)) d" using d(1) quiet_listed [OF go(2)] by simp
      have "ends_well (snd ?go) (if isContainer dk then advanceFocusInDirection fx d key (snd ?go)
          else Some (False, snd ?go))"
      proof (cases "isContainer dk")
        case True
        have "container_at (heap s0) d" using True dk quiet_container [OF q, of d] by (simp add: container_at_def)
        moreover have "(d, c) \<in> ((owner_rel (heap s0))\<inverse>)\<^sup>+" using d(2) by (simp add: trancl_converse)
        ultimately show ?thesis using 1(1) [OF _ _ quiet_trans [OF q go(2)] go(1)] True by simp
      next
        case False
        with go show ?thesis by simp
      qed
      then obtain b u where bu: "(if isContainer dk then advanceFocusInDirection fx d key (snd ?go)
          else Some (False, snd ?go)) = Some (b, u)" "nav_live u" "quiet (snd ?go) u"
        by (auto simp: ends_well_def)
      have "advanceFocusInDirection fx c key t =
          (if b then Some (True, u) else do { v \<leftarrow> updateFocusCandidate fx False d u; Some (True, v) })"
        using None \<open>r = Some d\<close> k m r dk bu(1)
        by (subst advanceFocusInDirection.simps) (simp add: Let_def)
      then show ?thesis
        using ends_well_after [OF go(2) advance_into [OF go(1) dl bu]] by simp
    qed
  qed
qed

lemma navigate_ok:
  assumes ok: "nav_ok s0" and svs: "svs_laws (nx_insert fx)" and "container_at (heap s0) c"
    and "quiet s0 t" and "nav_live t"
  shows "\<exists>u. navigate_from fx c key t = Some u \<and> nav_live u \<and> quiet s0 u"
  using assms(3-)
proof (induction c arbitrary: t rule: wf_induct_rule [OF wf_owner_rel [OF nav_okD(1) [OF ok]]])
  case 1
  then show ?case by simp
next
  case (2 c)
  from advance_ok [OF ok svs 2(2-4), of key] obtain b u where
    u: "advanceFocusInDirection fx c key t = Some (b, u)" "nav_live u" "quiet t u"
    by (auto simp: ends_well_def)
  note qu = quiet_trans [OF 2(3) u(3)]
  have cont: "container_at (heap u) c" using 2(2) quiet_container [OF qu] by simp
  have r: "rooted (heap u) c" by (rule nav_okD(1) [OF nav_liveD(1) [OF u(2)] container_live [OF cont]])
  obtain a where a: "nearestAncestorContainer (heap u) c = Some a" using nearest_total [OF r] by blast
  show ?case
  proof (cases "b \<or> a = None")
    case True
    with u a qu show ?thesis by (subst navigate_from.simps) auto
  next
    case False
    then obtain q where q: "a = Some q" by blast
    with nearest_owner [OF r, of q] a have "owns (heap u) q c" "container_at (heap u) q" by auto
    then have "(q, c) \<in> owner_rel (heap s0)" "container_at (heap s0) q"
      using quiet_owner [OF qu] quiet_container [OF qu] by (auto simp: owner_rel_def)
    from 2(1) [OF this qu u(2)] u a q False show ?thesis by (subst navigate_from.simps) simp
  qed
qed

lemma nav_live_container: "nav_live s \<Longrightarrow> container_at (heap s) q \<Longrightarrow> nav_live (s\<lparr>currentContainer := Some q\<rparr>)"
  by (simp add: nav_live_def nav_ok_def focus_ok_def focus_tag_def)

lemma handle_key_ok:
  assumes live: "nav_live s" and svs: "svs_laws (nx_insert fx)"
  shows "\<exists>t. handleKeyEvent fx key action s = Some t \<and> nav_live t \<and> quiet s t"
proof (cases "action = RNS_KEY_Press \<and> arrow_key key")
  case False
  with live show ?thesis by (auto simp: handleKeyEvent_def)
next
  case True
  let ?s1 = "if currentContainer s = None then s\<lparr>currentContainer := rootContainer s\<rparr> else s"
  obtain q where q: "currentContainer ?s1 = Some q" "container_at (heap s) q" "nav_live ?s1"
    using nav_liveD(2,3) [OF live] live nav_live_container [OF live] by (cases "currentContainer s") auto
  have quiet: "quiet s ?s1" by (simp add: quiet_def)
  from navigate_ok [OF nav_liveD(1) [OF live] svs q(2) quiet q(3), of key] True q(1) show ?thesis
    by (simp add: handleKeyEvent_def navigateInDirection_def Let_def)
qed

section \<open>Transactions leave the containers alone\<close>

definition same_root :: "nav \<Rightarrow> nav \<Rightarrow> bool" where
  "same_root s t \<longleftrightarrow> rootComp t = rootComp s \<and> rootContainer t = rootContainer s \<and>
     currentContainer t = currentContainer s"

lemma same_root_refl [simp]: "same_root s s"
  by (simp add: same_root_def)

















section \<open>Runs\<close>




lemma nav_live_pending [simp]: "nav_live (s\<lparr>pendingFocus := ps\<rparr>) = nav_live s"
  by (simp add: nav_live_def)






lemma Start_live: "nav_live (Start h (nav_init ps))"
  using Start_ok [of h ps] nav_okD(5) [OF Start_ok, of h ps]
  by (simp add: nav_live_def Start_def nav_init_def CreateComponent_def release_def Let_def)

section \<open>Properties\<close>

lemma rule_keys_inj:
  assumes sk: "sk_rect_laws sk" and x: "x \<in> cands" and y: "y \<in> cands"
    and e: "rule_keys sk d x = rule_keys sk d y"
  shows "cd_frame x = cd_frame y \<and> cd_zIndex x = cd_zIndex y \<and> cd_tag x = cd_tag y"
proof -
  let ?a = "cd_frame x" and ?b = "cd_frame y"
  have xy: "irect32 ?a" "irect32 ?b" using x y by (simp_all add: cands_def)
  have w: "irect_width sk ?a = irect_width sk ?b" "irect_height sk ?a = irect_height sk ?b"
    "fLeft ?a = fLeft ?b \<or> fRight ?a = fRight ?b" "fTop ?a = fTop ?b \<or> fBottom ?a = fBottom ?b"
    "cd_zIndex x = cd_zIndex y" "cd_tag x = cd_tag y"
    using e by (auto simp: rule_keys_def Let_def split: if_splits)
  then show ?thesis
    using same_span [OF sk xy w(1,3)] same_rise [OF sk xy w(2,4)] by (cases ?a; cases ?b) auto
qed

text \<open>C7: The comparator of the spatial navigator is fit for the sorted sets it is given: for each
  arrow key it is irreflexive and transitive on frames with 32-bit edges, and two candidates are
  equivalent for it, so that only one of them is kept, only if they have the same frame, the same z index
  and the same tag.\<close>

theorem comparator_is_strict_order:
  assumes sk: "sk_rect_laws sk" and d: "arrow_key d"
    and A: "irect32 (cd_frame x)" "irect32 (cd_frame y)" "irect32 (cd_frame z)"
  shows "\<not> before sk d x x \<and> (before sk d x y \<longrightarrow> before sk d y z \<longrightarrow> before sk d x z) \<and>
    (\<not> before sk d x y \<longrightarrow> \<not> before sk d y x \<longrightarrow>
      cd_frame x = cd_frame y \<and> cd_zIndex x = cd_zIndex y \<and> cd_tag x = cd_tag y)"
proof -
  have c: "x \<in> cands" "y \<in> cands" "z \<in> cands" using A by (simp_all add: cands_def)
  note k = before_keys [OF sk d]
  have "\<not> before sk d x x" using c by (simp add: k lex_less_irrefl)
  moreover have "before sk d x y \<longrightarrow> before sk d y z \<longrightarrow> before sk d x z"
    using c by (auto simp: k intro: lex_less_trans)
  moreover have "rule_keys sk d x = rule_keys sk d y" if "\<not> before sk d x y" "\<not> before sk d y x"
    using that c rules.total [of "rule_keys sk d x" "rule_keys sk d y"] by (auto simp: k length_rule_keys)
  ultimately show ?thesis using rule_keys_inj [OF sk c(1,2)] by blast
qed

definition cand_at :: "cid \<Rightarrow> int \<Rightarrow> cand" where
  "cand_at c l = \<lparr>cd_cid = c, cd_frame = \<lparr>fLeft = l, fTop = 0, fRight = l + 10, fBottom = 10\<rparr>,
     cd_zIndex = 0, cd_tag = int c\<rparr>"

theorem comparator_is_strict_order_witness:
  "before sk_rect_ref RNS_KEY_Right (cand_at 1 5) (cand_at 3 40)"
  using comparator_is_strict_order [of sk_rect_ref RNS_KEY_Right "cand_at 1 5" "cand_at 2 20" "cand_at 3 40"]
  by (simp add: arrow_key_def before_def cand_at_def rule_less_def Let_def irect32_def int32_def)

text \<open>C5: An arrow key chooses the right neighbour: among the components that a container lists, with
  something focused, the search returns none only if no candidate passes the rules of the direction, and
  otherwise returns a candidate that passes them and whose leading edge is nearest in that direction of
  all that do, whatever sorted set of unique elements the candidates are kept in.\<close>

theorem nearest_candidate_chosen:
  assumes "sk_rect_laws (nx_rect fx)" and "svs_laws (nx_insert fx)" and "arrow_key key"
    and "heap s cont = Some k" and "currentFocus s = Some f"
    and "frames_of (nx_rect fx) (heap s) F (insert f (set (c_navList k)))"
    and "\<forall>c ck. c \<in> set (c_navList k) \<longrightarrow> heap s c = Some ck \<longrightarrow> c_tag ck \<noteq> -1"
  shows "\<exists>r. findFocusCandidateInContainer fx cont key vo s = Some r \<and>
    (case r of
       None \<Rightarrow> \<forall>c. \<not> eligible (nx_rect fx) (heap s) F cont f key vo c
     | Some c \<Rightarrow> eligible (nx_rect fx) (heap s) F cont f key vo c \<and>
         (\<forall>x. eligible (nx_rect fx) (heap s) F cont f key vo x \<longrightarrow> distance key (F c) \<le> distance key (F x)))"
  by (rule find_candidate) (use assms in blast)+

definition nav_fx_ref :: nav_fx where
  "nav_fx_ref = \<lparr>nx_rect = sk_rect_ref, nx_round = round, nx_insert = svs_ref\<rparr>"

definition frame_at :: "int \<Rightarrow> int \<Rightarrow> sk_irect" where
  "frame_at l t = \<lparr>fLeft = l, fTop = t, fRight = l + 10, fBottom = t + 10\<rparr>"

text \<open>Three focusable views in the root view, the first of them focused.\<close>

definition row_events :: "nav_event list" where
  "row_events =
     (let root = view_ref 0 1 False; key = view_ref 1
      in [Transaction [Create (key 4 True), Create (key 6 True), Create (key 8 True),
            Insert root (key 4 True), Insert root (key 6 True), Insert root (key 8 True)],
          Layout 0 \<lparr>fLeft = 0, fTop = 0, fRight = 200, fBottom = 50\<rparr>,
          Layout 1 (frame_at 0 0), Layout 2 (frame_at 20 0), Layout 3 (frame_at 60 0),
          Key RNS_KEY_Down RNS_KEY_Press])"

definition row_state :: nav where
  "row_state = the (nav_run nav_fx_ref (Start 0 (nav_init sample_providers)) row_events)"

theorem nearest_candidate_chosen_witness:
  "\<exists>r. findFocusCandidateInContainer nav_fx_ref 0 RNS_KEY_Right False row_state = Some r \<and>
    (case r of
       None \<Rightarrow> \<forall>c. \<not> eligible sk_rect_ref (heap row_state)
         (\<lambda>c. frame_at (if c = 1 then 0 else if c = 2 then 20 else 60) 0) 0 1 RNS_KEY_Right False c
     | Some c \<Rightarrow> eligible sk_rect_ref (heap row_state)
         (\<lambda>c. frame_at (if c = 1 then 0 else if c = 2 then 20 else 60) 0) 0 1 RNS_KEY_Right False c \<and>
         (\<forall>x. eligible sk_rect_ref (heap row_state)
            (\<lambda>c. frame_at (if c = 1 then 0 else if c = 2 then 20 else 60) 0) 0 1 RNS_KEY_Right False x \<longrightarrow>
          distance RNS_KEY_Right ((\<lambda>c. frame_at (if c = 1 then 0 else if c = 2 then 20 else 60) 0) c) \<le>
          distance RNS_KEY_Right ((\<lambda>c. frame_at (if c = 1 then 0 else if c = 2 then 20 else 60) 0) x)))"
proof -
  let ?F = "\<lambda>c. frame_at (if c = 1 then 0 else if c = 2 then 20 else 60) 0 :: sk_irect"
  have fx: "nx_rect nav_fx_ref = sk_rect_ref" "nx_insert nav_fx_ref = svs_ref" by (simp_all add: nav_fx_ref_def)
  have list: "map_option c_navList (heap row_state 0) = Some [1, 2, 3]" by code_simp
  then obtain k where k: "heap row_state 0 = Some k" "c_navList k = [1, 2, 3]" by auto
  have foc: "currentFocus row_state = Some 1" by code_simp
  have all: "list_all (\<lambda>c. getScreenFrame sk_rect_ref (heap row_state) c = Some (?F c) \<and>
      map_option c_tag (heap row_state c) = Some (2 * int c + 2)) [1, 2, 3]" by code_simp
  have f: "getScreenFrame sk_rect_ref (heap row_state) c = Some (?F c)"
    "map_option c_tag (heap row_state c) = Some (2 * int c + 2)" if "c \<in> set [1, 2, 3]" for c
    using that all unfolding list_all_iff by blast+
  have f32: "irect32 (?F c)" for c by (simp add: frame_at_def irect32_def int32_def)
  have frames: "frames_of sk_rect_ref (heap row_state) ?F (set [1, 2, 3])"
    unfolding frames_of_def
  proof (intro ballI conjI)
    fix c :: nat assume c: "c \<in> set [1, 2, 3]"
    show "getScreenFrame sk_rect_ref (heap row_state) c = Some (?F c)" by (rule f(1) [OF c])
    show "heap row_state c \<noteq> None" using f(2) [OF c] by (cases "heap row_state c") simp_all
  qed (rule f32)
  have tags: "c_tag ck \<noteq> -1" if "c \<in> set [1, 2, 3]" "heap row_state c = Some ck" for c ck
    using f(2) [OF that(1)] that(2) by simp
  show ?thesis
  proof (rule nearest_candidate_chosen [where F = ?F and k = k and f = 1 and fx = nav_fx_ref, unfolded fx])
    show "frames_of sk_rect_ref (heap row_state) ?F (insert 1 (set (c_navList k)))"
      unfolding k(2) using frames by (simp add: insert_absorb)
    show "\<forall>c ck. c \<in> set (c_navList k) \<longrightarrow> heap row_state c = Some ck \<longrightarrow> c_tag ck \<noteq> -1"
      unfolding k(2) using tags by blast
  qed (use k foc in \<open>simp_all add: arrow_key_def\<close>)
qed




text \<open>C11: Handling a key always ends: from every consistent state, for every key, the search through nested
  containers and the climb to the containers above return, and leave a consistent state in which the
  same components exist with the same lists.\<close>

theorem key_handling_terminates:
  assumes "nav_live s" and "svs_laws (nx_insert fx)"
  shows "\<exists>t. handleKeyEvent fx key action s = Some t \<and> nav_live t \<and>
    (\<forall>c. (heap t c = None) = (heap s c = None) \<and> list_at (heap t) c = list_at (heap s) c)"
  using handle_key_ok [OF assms, of key action] unfolding quiet_def same_tree_def by metis

theorem key_handling_terminates_witness:
  "\<exists>t. handleKeyEvent nav_fx_ref RNS_KEY_Down RNS_KEY_Press (Start 0 (nav_init sample_providers)) = Some t \<and> nav_live t \<and>
    (\<forall>c. (heap t c = None) = (heap (Start 0 (nav_init sample_providers)) c = None) \<and>
      list_at (heap t) c = list_at (heap (Start 0 (nav_init sample_providers))) c)"
  by (rule key_handling_terminates) (simp_all add: Start_live nav_fx_ref_def)

text \<open>The nested conditions of the comparator are one lexicographic comparison of six keys: the leading
  edge, the crossing edge, the two sizes, then z index and tag, both larger first.\<close>

theorem comparator_is_lexicographic:
  assumes "sk_rect_laws sk" and "arrow_key d" and "irect32 (cd_frame x)" and "irect32 (cd_frame y)"
  shows "before sk d x y \<longleftrightarrow> lex_less (rule_keys sk d x) (rule_keys sk d y)"
  by (rule before_keys) (use assms in \<open>simp_all add: cands_def\<close>)

theorem comparator_is_lexicographic_witness:
  "before sk_rect_ref RNS_KEY_Down (cand_at 1 5) (cand_at 3 40) \<longleftrightarrow>
   lex_less (rule_keys sk_rect_ref RNS_KEY_Down (cand_at 1 5)) (rule_keys sk_rect_ref RNS_KEY_Down (cand_at 3 40))"
  by (rule comparator_is_lexicographic) (simp_all add: arrow_key_def cand_at_def irect32_def int32_def)

text \<open>Deleting a focused list leaves the navigator with a dangling container: a view inside a scroll
  view is focused, React removes and deletes both, and the next arrow key uses the deleted scroll view,
  because nothing clears \<open>currentContainer_\<close>.\<close>

theorem deleted_container_used:
  "let root = view_ref 0 1 False; list = view_ref 2 8 False; item = view_ref 1 6 True;
       built = [Transaction [Create list, Create item, Insert list item, Insert root list],
                Layout 1 (frame_at 0 0), Layout 0 (frame_at 0 0), Layout 2 (frame_at 0 0),
                Key RNS_KEY_Down RNS_KEY_Press];
       gone = Transaction [Remove list item, Remove root list, Delete item, Delete list];
       start = Start 0 (nav_init sample_providers)
   in map_option currentContainer (nav_run nav_fx_ref start (built @ [gone])) = Some (Some 1) \<and>
      map_option (\<lambda>s. heap s 1 = None) (nav_run nav_fx_ref start (built @ [gone])) = Some True \<and>
      nav_run nav_fx_ref start (built @ [gone, Key RNS_KEY_Down RNS_KEY_Press]) = None"
  by code_simp

text \<open>A preferred focus on a view that is not focusable leaves a dangling focus: the request focuses
  the view although no container lists it, so its removal does not clear \<open>currentFocus_\<close>, and once it is
  deleted the next arrow key uses it.\<close>

theorem unfocusable_preferred_dangles:
  "let root = view_ref 0 1 False;
       box = \<lparr>v_handle = 1, v_tag = 6, v_props = Some \<lparr>vp_zIndex = None, isTVSelectable = False,
         focusable = False, hasTVPreferredFocus = True\<rparr>\<rparr>;
       built = [Transaction [Create box, Insert root box], FocusTask];
       gone = Transaction [Remove root box, Delete box];
       start = Start 0 (nav_init sample_providers)
   in map_option currentFocus (nav_run nav_fx_ref start (built @ [gone])) = Some (Some 1) \<and>
      map_option (\<lambda>s. heap s 1 = None) (nav_run nav_fx_ref start (built @ [gone])) = Some True \<and>
      nav_run nav_fx_ref start (built @ [gone, Key RNS_KEY_Down RNS_KEY_Press]) = None"
  by code_simp

end
