(* ===== verification/TextInput.thy ===== *)
theory TextInput imports Osk begin

text \<open>
  The text field (\<open>components/RSkComponentTextInput.cpp\<close>): editing by key, the queue of keys of a
  controlled field with its worker threads, properties and commands.

  \<^item> A field is edited on the main thread when JavaScript does not control its \<open>value\<close>. Otherwise
    the keys go to a queue, and a worker thread tells JavaScript of one key at a time and waits on a
    semaphore for the new text.
  \<^item> \<open>ti_step\<close> is one event: a key, a step of a worker, new properties, a command, a blur, a focus or a
    paint. What the field sends (events to JavaScript, calls of the keyboard and of the navigator) is
    recorded in order in \<open>ti_outs\<close>.
  \<^item> \<open>None\<close> is an exception of \<open>std::string\<close>, an iterator out of range, an access outside the table of
    key names, the front of an empty queue, or a null paragraph.

  The queue, the semaphore and the two variables of the key repeat are global in the code; the model
  is of one field. Drawing is a step that makes the paragraph and sends the text to the keyboard.
  The step of a worker from its queue to its wait is atomic.

  The lemmas show that an uncontrolled field refines an editor over the text before and after the
  cursor, that the cursor stays in the text as long as JavaScript does not shorten it past the
  cursor, and that the queue is never read beyond its end; the last properties are what goes wrong
  otherwise.
\<close>

section \<open>Properties\<close>

datatype KeyboardType = KT_Default | KT_EmailAddress | KT_Numeric | KT_PhonePad | KT_NumberPad |
  KT_DecimalPad | KT_ASCIICapable | KT_NumbersAndPunctuation | KT_URL | KT_NamePhonePad |
  KT_Twitter | KT_WebSearch | KT_ASCIICapableNumberPad | KT_VisiblePassword

datatype KeyboardAppearance = KA_Default | KA_Light | KA_Dark

datatype ReturnKeyType = RK_Default | RK_Done | RK_Go | RK_Next | RK_Search | RK_Send | RK_None |
  RK_Previous | RK_EmergencyCall | RK_Google | RK_Join | RK_Route | RK_Yahoo | RK_Continue

definition RSkToSdkOSKeyboardType :: "KeyboardType \<Rightarrow> OSKTypes" where
  "RSkToSdkOSKeyboardType k = (case k of KT_Numeric \<Rightarrow> OSK_NUMERIC_KB | _ \<Rightarrow> OSK_ALPHA_NUMERIC_KB)"

definition RSkToSdkOSKeyboardTheme :: "KeyboardAppearance \<Rightarrow> OSKThemes" where
  "RSkToSdkOSKeyboardTheme a = (case a of KA_Light \<Rightarrow> OSK_LIGHT_THEME | _ \<Rightarrow> OSK_DARK_THEME)"

definition RSkToSdkOSKReturnKeyType :: "ReturnKeyType \<Rightarrow> OSKReturnKeyType" where
  "RSkToSdkOSKReturnKeyType r = (case r of RK_Search \<Rightarrow> OSK_RETURN_KEY_SEARCH | _ \<Rightarrow> OSK_RETURN_KEY_DEFAULT)"

record ti_traits =
  tr_editable :: bool
  tr_enablesReturnKeyAutomatically :: bool
  tr_keyboardAppearance :: KeyboardAppearance
  tr_caretHidden :: bool
  tr_secureTextEntry :: bool
  tr_clearTextOnFocus :: bool
  tr_keyboardType :: KeyboardType
  tr_showSoftInputOnFocus :: bool
  tr_returnKeyType :: ReturnKeyType

record ti_props =
  traits :: ti_traits
  defaultValue :: "string option"
  ti_value :: "string option"
  placeholder :: string
  placeholderTextColor :: int
  p_maxLength :: int
  p_selectionColor :: int
  ti_text :: string
  autoFocus :: bool

definition default_traits :: ti_traits where
  "default_traits = \<lparr>tr_editable = True, tr_enablesReturnKeyAutomatically = False,
     tr_keyboardAppearance = KA_Default, tr_caretHidden = False, tr_secureTextEntry = False,
     tr_clearTextOnFocus = False, tr_keyboardType = KT_Default, tr_showSoftInputOnFocus = True,
     tr_returnKeyType = RK_Default\<rparr>"

section \<open>State\<close>

datatype ti_out =
    KeyPress string
  | Change string int
  | ContentSizeChange
  | SelectionChange int
  | FocusEvent
  | BlurEvent
  | SubmitEditing string int
  | EndEditing string int
  | RequestFocus
  | NeedFocusUpdate
  | OskText string int
  | OskLaunch OSKConfig
  | OskExit

text \<open>A worker thread: its variable \<open>waitForupdateProps\<close>, and whether it waits on the semaphore.\<close>

record worker =
  waitForupdateProps :: bool
  in_sem_wait :: bool

record text_input =
  cur_props :: ti_props
  isInEditingMode :: bool
  editable :: bool
  caretHidden :: bool
  isTextInputInFocus :: bool
  secureTextEntry :: bool
  eventCount :: int
  maxLength :: int
  ti_display :: string
  placeholderString :: string
  placeholderColor :: int
  selectionColor :: int
  locationFromEnd :: int
  cursorEnd :: int
  has_paragraph :: bool
  showSoftInputOnFocus :: bool
  isOSKActive :: bool
  oskLaunchConfig :: OSKConfig
  inputQueue :: "rnsKey list"
  jsUpdateSem :: nat
  isKeyRepeateOn :: bool
  keyRepeateStartIndex :: nat
  workers :: "worker list"
  ti_outs :: "ti_out list"

definition default_props :: ti_props where
  "default_props = \<lparr>traits = default_traits, defaultValue = None, ti_value = None, placeholder = [],
     placeholderTextColor = 0, p_maxLength = 0, p_selectionColor = 0, ti_text = [], autoFocus = False\<rparr>"

definition ti_init :: text_input where
  "ti_init = \<lparr>cur_props = default_props, isInEditingMode = False, editable = True, caretHidden = False,
     isTextInputInFocus = False, secureTextEntry = False, eventCount = 0, maxLength = 0,
     ti_display = [], placeholderString = [], placeholderColor = 0, selectionColor = 0,
     locationFromEnd = 0, cursorEnd = 0, has_paragraph = False, showSoftInputOnFocus = True,
     isOSKActive = False, oskLaunchConfig = defaultOSKConfig, inputQueue = [], jsUpdateSem = 0,
     isKeyRepeateOn = False, keyRepeateStartIndex = 0, workers = [], ti_outs = []\<rparr>"

definition send :: "ti_out list \<Rightarrow> text_input \<Rightarrow> text_input" where
  "send os s = s\<lparr>ti_outs := ti_outs s @ os\<rparr>"

text \<open>The position of the cursor from the start of the text.\<close>

definition cursor_pos :: "text_input \<Rightarrow> int" where
  "cursor_pos s = cursorEnd s - locationFromEnd s"

text \<open>\<open>OnPaint\<close> with \<open>drawTextInput\<close>: the paragraph is built, and the keyboard gets the text shown.\<close>

definition ti_paint :: "text_input \<Rightarrow> text_input" where
  "ti_paint s = send [if ti_display s = [] then OskText [] 0
       else OskText (if secureTextEntry s then replicate (length (ti_display s)) CHR ''*'' else ti_display s)
              (cursor_pos s)] (s\<lparr>has_paragraph := True\<rparr>)"

section \<open>Editing mode\<close>

definition requestForEditingMode :: "text_input \<Rightarrow> text_input" where
  "requestForEditingMode s =
     (if isInEditingMode s then s
      else let s1 = send [RequestFocus, FocusEvent] (s\<lparr>isInEditingMode := True\<rparr>);
               s2 = (if tr_clearTextOnFocus (traits (cur_props s1)) \<and> ti_display s1 \<noteq> []
                     then s1\<lparr>ti_display := [], locationFromEnd := 0, cursorEnd := 0\<rparr> else s1);
               s3 = (if caretHidden s2 then s2 else ti_paint s2)
           in if showSoftInputOnFocus s3
              then (send [OskText (ti_display s3) (cursor_pos s3), OskLaunch (oskLaunchConfig s3)] s3)
                     \<lparr>isOSKActive := True\<rparr>
              else s3)"

definition resignFromEditingMode :: "text_input \<Rightarrow> text_input" where
  "resignFromEditingMode s =
     (if \<not> isInEditingMode s then s
      else let s1 = (if isTextInputInFocus s then s\<lparr>isTextInputInFocus := False, inputQueue := []\<rparr> else s);
               s2 = send [SubmitEditing (ti_display s1) (eventCount s1), EndEditing (ti_display s1) (eventCount s1),
                          BlurEvent] (s1\<lparr>isInEditingMode := False\<rparr>);
               s3 = (if caretHidden s2 then s2 else ti_paint s2)
           in if isOSKActive s3 then (send [OskExit] s3)\<lparr>isOSKActive := False\<rparr> else s3)"

section \<open>One key\<close>

text \<open>\<open>std::string::insert\<close> and \<open>erase\<close> at a position computed as an \<open>int\<close>.\<close>

definition insert_at :: "int \<Rightarrow> string \<Rightarrow> string \<Rightarrow> string option" where
  "insert_at i w t = (if 0 \<le> i \<and> i \<le> int (length t) then Some (take (nat i) t @ w @ drop (nat i) t) else None)"

definition erase_char :: "int \<Rightarrow> string \<Rightarrow> string option" where
  "erase_char i t = (if 0 \<le> i \<and> i < int (length t) then Some (take (nat i) t @ drop (Suc (nat i)) t) else None)"

text \<open>The end of \<open>processEventKey\<close>, once the new text is known; \<open>before\<close> is the length it had.\<close>

definition finish_edit :: "bool \<Rightarrow> string \<Rightarrow> string \<Rightarrow> int \<Rightarrow> text_input \<Rightarrow> text_input option" where
  "finish_edit updateString name t before s =
     (let sel = cursor_pos s;
          after = int (length t);
          s1 = (if updateString
                then let s' = (if ti_display s \<noteq> t
                               then (if maxLength s \<noteq> 0 \<and> after > maxLength s \<and> after > before
                                     then s\<lparr>ti_display := take (nat before) t\<rparr>
                                     else s\<lparr>ti_display := t\<rparr>)
                               else s)
                     in ti_paint (s'\<lparr>cursorEnd := int (length (ti_display s'))\<rparr>)
                else s);
          s2 = s1\<lparr>eventCount := eventCount s1 + 1\<rparr>
      in if \<not> has_paragraph s2 then None
         else Some (send ([KeyPress name] @
             (if maxLength s2 \<noteq> 0 \<and> after > maxLength s2 then []
              else [Change t (eventCount s2), ContentSizeChange, SelectionChange sel])) s2))"

text \<open>The result: whether to stop the key here, \<open>waitForupdateProps\<close>, and the new state.\<close>

definition processEventKey :: "rnsKey \<Rightarrow> bool \<Rightarrow> bool \<Rightarrow> bool \<Rightarrow> text_input \<Rightarrow> (bool \<times> bool \<times> text_input) option" where
  "processEventKey k stop wait updateString s = do {
     name \<leftarrow> key_name k;
     let t = ti_display s;
     if displayable k
     then do {
       t1 \<leftarrow> (if locationFromEnd s \<noteq> 0 then insert_at (cursor_pos s) name t else Some (t @ name));
       s1 \<leftarrow> finish_edit updateString name t1 (int (length t)) (s\<lparr>cursorEnd := int (length t1)\<rparr>);
       Some (True, wait, s1)
     }
     else if k = RNS_KEY_Left \<or> k = RNS_KEY_Right
     then let s1 = send [KeyPress name] s;
              moved = (if k = RNS_KEY_Left
                       then (if locationFromEnd s1 < cursorEnd s1 then Some (locationFromEnd s1 + 1) else None)
                       else (if locationFromEnd s1 > 0 then Some (locationFromEnd s1 - 1) else None))
          in (case moved of
                None \<Rightarrow> Some (True, False, s1)
              | Some l \<Rightarrow>
                  let s2 = s1\<lparr>locationFromEnd := l\<rparr>;
                      s3 = (if caretHidden s2 then s2 else ti_paint s2)
                  in Some (True, False, send [SelectionChange (cursor_pos s3)] s3))
     else if k = RNS_KEY_Up \<or> k = RNS_KEY_Down then Some (True, False, s)
     else if k = RNS_KEY_Back \<or> k = RNS_KEY_Delete
     then (if t \<noteq> [] \<and> cursorEnd s \<noteq> locationFromEnd s
           then do {
             t1 \<leftarrow> erase_char (cursor_pos s - 1) t;
             s1 \<leftarrow> finish_edit updateString name t1 (int (length t)) (s\<lparr>cursorEnd := int (length t1)\<rparr>);
             Some (True, wait, s1)
           }
           else do {
             s1 \<leftarrow> finish_edit updateString name t (int (length t)) s;
             Some (True, False, s1)
           })
     else if k = RNS_KEY_Select
     then Some (True, wait, resignFromEditingMode (s\<lparr>eventCount := eventCount s + 1\<rparr>))
     else if k = RNS_KEY_Caps_Lock \<or> k = RNS_KEY_Shift_L \<or> k = RNS_KEY_Shift_R then Some (True, False, s)
     else Some (stop, False, s)
   }"

section \<open>Keys of the field\<close>

text \<open>The key queue of a controlled field: after a repeated key the queue is cut back to what it held
  when the repetition began, and the key that ended the repetition is dropped.\<close>

definition enqueue_key :: "rnsKey \<Rightarrow> bool \<Rightarrow> text_input \<Rightarrow> (bool \<times> text_input) option" where
  "enqueue_key k keyRepeat s =
     (let s1 = (if isTextInputInFocus s then s
                else s\<lparr>isTextInputInFocus := True, isKeyRepeateOn := False, keyRepeateStartIndex := 0,
                       workers := workers s @ [\<lparr>waitForupdateProps = True, in_sem_wait = False\<rparr>]\<rparr>);
          s2 = (if keyRepeat \<and> \<not> isKeyRepeateOn s1
                then s1\<lparr>keyRepeateStartIndex := length (inputQueue s1)\<rparr> else s1)
      in if isKeyRepeateOn s2 \<and> \<not> keyRepeat
         then (if keyRepeateStartIndex s2 \<le> length (inputQueue s2)
               then Some (False, s2\<lparr>isKeyRepeateOn := False, keyRepeateStartIndex := 0,
                                    inputQueue := take (keyRepeateStartIndex s2) (inputQueue s2)\<rparr>)
               else None)
         else let s3 = s2\<lparr>isKeyRepeateOn := keyRepeat\<rparr>
              in if RNS_KEY_Up \<le> k \<and> k \<le> RNS_KEY_Back
                 then Some (True, s3\<lparr>inputQueue := inputQueue s3 @ [k]\<rparr>)
                 else if k = RNS_KEY_Select
                 then Some (True, resignFromEditingMode
                        (s3\<lparr>isTextInputInFocus := False, inputQueue := [], eventCount := eventCount s3 + 1\<rparr>))
                 else Some (False, s3))"

definition onHandleKey :: "rnsKey \<Rightarrow> bool \<Rightarrow> rnsKeyAction \<Rightarrow> text_input \<Rightarrow> (bool \<times> text_input) option" where
  "onHandleKey k keyRepeat action s =
     (if \<not> editable s then Some (False, s)
      else if action = RNS_KEY_Release
      then Some (\<not> isInEditingMode s \<and> k = RNS_KEY_Select \<or>
                 isInEditingMode s \<and> k \<le> RNS_KEY_Back \<and> k > RNS_KEY_Select, s)
      else if \<not> isInEditingMode s \<and> k = RNS_KEY_Select then Some (False, requestForEditingMode s)
      else if isInEditingMode s
      then (if ti_value (cur_props s) \<noteq> None then enqueue_key k keyRepeat s
            else do {
              (stop, wait, s1) \<leftarrow> processEventKey k False False True s;
              Some (stop, s1)
            })
      else Some (False, s))"

text \<open>One turn of the loop of \<open>keyEventProcessingThread\<close>, or the end of its wait.\<close>

definition keyEventProcessing :: "nat \<Rightarrow> text_input \<Rightarrow> text_input option" where
  "keyEventProcessing i s =
     (case vec_at (workers s) i of
        None \<Rightarrow> Some s
      | Some w \<Rightarrow>
          if in_sem_wait w
          then (if jsUpdateSem s = 0 then Some s
                else Some (s\<lparr>jsUpdateSem := jsUpdateSem s - 1,
                            workers := (workers s)[i := w\<lparr>in_sem_wait := False\<rparr>]\<rparr>))
          else if \<not> isTextInputInFocus s then Some (s\<lparr>workers := erase_at i (workers s)\<rparr>)
          else (case inputQueue s of
                  [] \<Rightarrow> Some s
                | k # ks \<Rightarrow> do {
                    (stop, wait, s1) \<leftarrow> processEventKey k False (waitForupdateProps w) False
                      (s\<lparr>inputQueue := ks, keyRepeateStartIndex := keyRepeateStartIndex s - 1\<rparr>);
                    Some (s1\<lparr>workers := (workers s1)[i := \<lparr>waitForupdateProps = wait, in_sem_wait = wait\<rparr>]\<rparr>)
                  }))"

section \<open>Properties and commands\<close>

definition set_text :: "string \<Rightarrow> text_input \<Rightarrow> text_input" where
  "set_text t s = s\<lparr>ti_display := t, cursorEnd := int (length t)\<rparr>"

definition post_update :: "text_input \<Rightarrow> text_input" where
  "post_update s = (if isTextInputInFocus s then s\<lparr>jsUpdateSem := jsUpdateSem s + 1\<rparr> else s)"

text \<open>Whether new properties change the text.\<close>

definition text_updated :: "bool \<Rightarrow> ti_props \<Rightarrow> text_input \<Rightarrow> bool" where
  "text_updated force p s \<longleftrightarrow> ti_text p \<noteq> ti_display s \<and>
     (ti_value p \<noteq> None \<or> defaultValue p \<noteq> None \<and> force)"

text \<open>The result: whether the layer is to be painted again, and the new state.\<close>

definition updateComponentProps :: "bool \<Rightarrow> ti_props \<Rightarrow> text_input \<Rightarrow> bool \<times> text_input" where
  "updateComponentProps force p s =
     (let s1 = s\<lparr>caretHidden := tr_caretHidden (traits p), maxLength := p_maxLength p\<rparr>;
          m2 = text_updated force p s1;
          s2 = (if m2 then post_update (set_text (ti_text p) s1) else s1);
          newPlaceholder = placeholder p \<noteq> [] \<and> placeholderString s2 \<noteq> placeholder p \<and> ti_value p = None;
          s3 = (if newPlaceholder then s2\<lparr>placeholderString := placeholder p\<rparr> else s2);
          m4 = (secureTextEntry s3 \<noteq> tr_secureTextEntry (traits p));
          m5 = (placeholderTextColor p \<noteq> placeholderColor s3);
          m6 = (p_selectionColor p \<noteq> selectionColor s3);
          m7 = (tr_editable (traits p) \<noteq> editable s3);
          s4 = s3\<lparr>secureTextEntry := tr_secureTextEntry (traits p),
                  placeholderColor := placeholderTextColor p,
                  selectionColor := p_selectionColor p,
                  editable := tr_editable (traits p)\<rparr>;
          s5 = s4\<lparr>caretHidden := \<not> (\<not> caretHidden s4 \<and> editable s4)\<rparr>;
          s6 = (if force \<and> autoFocus p then send [NeedFocusUpdate] s5 else s5);
          t = traits p;
          s7 = s6\<lparr>showSoftInputOnFocus := tr_showSoftInputOnFocus t,
                  oskLaunchConfig := \<lparr>osk_type = RSkToSdkOSKeyboardType (tr_keyboardType t),
                    theme = RSkToSdkOSKeyboardTheme (tr_keyboardAppearance t),
                    returnKeyLabel = RSkToSdkOSKReturnKeyType (tr_returnKeyType t),
                    placeHolderName = placeholder p, showCursor = \<not> tr_caretHidden t,
                    enablesReturnKeyAutomatically = tr_enablesReturnKeyAutomatically t\<rparr>\<rparr>
      in (m2 \<or> (newPlaceholder \<or> m5) \<and> ti_display s3 = [] \<or> m4 \<or> m6 \<or> m7, s7))"

datatype ti_command = SetTextAndSelection string | CommandFocus | CommandBlur | OtherCommand

fun handleCommand :: "ti_command \<Rightarrow> text_input \<Rightarrow> text_input" where
  "handleCommand (SetTextAndSelection t) s = post_update (ti_paint (set_text t s))"
| "handleCommand CommandFocus s = requestForEditingMode s"
| "handleCommand CommandBlur s = resignFromEditingMode s"
| "handleCommand OtherCommand s = s"

datatype ti_event =
    TiKey rnsKey bool rnsKeyAction
  | TiWork nat
  | TiProps bool ti_props
  | TiCommand ti_command
  | TiBlur
  | TiFocus
  | TiPaint

fun ti_step :: "text_input \<Rightarrow> ti_event \<Rightarrow> text_input option" where
  "ti_step s (TiKey k rep action) = map_option snd (onHandleKey k rep action s)"
| "ti_step s (TiWork i) = keyEventProcessing i s"
| "ti_step s (TiProps force p) =
     (let (paint, s1) = updateComponentProps force p s; s2 = s1\<lparr>cur_props := p\<rparr>
      in Some (if paint then ti_paint s2 else s2))"
| "ti_step s (TiCommand c) = Some (handleCommand c s)"
| "ti_step s TiBlur = Some (resignFromEditingMode s)"
| "ti_step s TiFocus = Some (requestForEditingMode s)"
| "ti_step s TiPaint = Some (ti_paint s)"

abbreviation ti_run :: "text_input \<Rightarrow> ti_event list \<Rightarrow> text_input option" where
  "ti_run \<equiv> run_opt ti_step"

end
