(* ===== verification/TextEditing.thy ===== *)
theory TextEditing imports TextInput begin

text \<open>
  What editing a text field does. \<open>editor_step\<close> is the specification, an editor over the text before
  and after the cursor; \<open>ti_view\<close> is the abstraction of a field to it. \<open>key_refines\<close> is the
  simulation of one key on the main thread, \<open>worker_refines\<close> that of one key in a worker thread, and
  \<open>answered_run\<close> the composition of the worker with a JavaScript side that answers each key.
  \<open>queue_ok\<close> is the invariant of the key queue. The properties come last, errors at the end.
\<close>

section \<open>Editing refines an editor\<close>

text \<open>The specification: the text before and after the cursor.\<close>

datatype edit = Type string | MoveLeft | MoveRight | Backspace | Stay

fun editor_step :: "edit \<Rightarrow> string \<times> string \<Rightarrow> string \<times> string" where
  "editor_step (Type w) (b, a) = (b @ w, a)"
| "editor_step MoveLeft (b, a) = (if b = [] then (b, a) else (butlast b, last b # a))"
| "editor_step MoveRight (b, a) = (case a of [] \<Rightarrow> (b, a) | x # xs \<Rightarrow> (b @ [x], xs))"
| "editor_step Backspace (b, a) = (butlast b, a)"
| "editor_step Stay (b, a) = (b, a)"

definition edit_of :: "rnsKey \<Rightarrow> edit" where
  "edit_of k = (if displayable k then Type (RNSKeyMap ! nat k)
     else if k = RNS_KEY_Left then MoveLeft else if k = RNS_KEY_Right then MoveRight
     else if k = RNS_KEY_Back \<or> k = RNS_KEY_Delete then Backspace else Stay)"

definition edit_key :: "rnsKey \<Rightarrow> bool" where
  "edit_key k \<longleftrightarrow> RNS_KEY_Up \<le> k \<and> k \<le> RNS_KEY_Caps_Lock"

definition ti_view :: "text_input \<Rightarrow> string \<times> string" where
  "ti_view s = (take (nat (cursor_pos s)) (ti_display s), drop (nat (cursor_pos s)) (ti_display s))"

definition text_ok :: "text_input \<Rightarrow> bool" where
  "text_ok s \<longleftrightarrow> 0 \<le> locationFromEnd s \<and> locationFromEnd s \<le> cursorEnd s \<and> cursorEnd s = int (length (ti_display s))"

definition editing :: "text_input \<Rightarrow> bool" where
  "editing s \<longleftrightarrow> text_ok s \<and> has_paragraph s \<and> editable s \<and> isInEditingMode s \<and> ti_value (cur_props s) = None"

text \<open>The text JavaScript takes the field to have, from the events it was sent.\<close>

fun js_text_step :: "string \<Rightarrow> ti_out \<Rightarrow> string" where
  "js_text_step t (Change u n) = u"
| "js_text_step t _ = t"

definition js_text :: "string \<Rightarrow> ti_out list \<Rightarrow> string" where
  "js_text t os = foldl js_text_step t os"

lemma js_text_append [simp]: "js_text t (xs @ ys) = js_text (js_text t xs) ys"
  by (simp add: js_text_def)

lemma js_text_simps [simp]: "js_text t [] = t" "js_text t (x # xs) = js_text (js_text_step t x) xs"
  by (simp_all add: js_text_def)

lemma send_simps [simp]:
  "ti_display (send os s) = ti_display s" "locationFromEnd (send os s) = locationFromEnd s"
  "cursorEnd (send os s) = cursorEnd s" "has_paragraph (send os s) = has_paragraph s"
  "cursor_pos (send os s) = cursor_pos s" "ti_outs (send os s) = ti_outs s @ os"
  "caretHidden (send os s) = caretHidden s" "maxLength (send os s) = maxLength s"
  "editable (send os s) = editable s" "isInEditingMode (send os s) = isInEditingMode s"
  "cur_props (send os s) = cur_props s" "eventCount (send os s) = eventCount s"
  "isTextInputInFocus (send os s) = isTextInputInFocus s" "inputQueue (send os s) = inputQueue s"
  "keyRepeateStartIndex (send os s) = keyRepeateStartIndex s" "isKeyRepeateOn (send os s) = isKeyRepeateOn s"
  "workers (send os s) = workers s" "jsUpdateSem (send os s) = jsUpdateSem s"
  "secureTextEntry (send os s) = secureTextEntry s"
  by (simp_all add: send_def cursor_pos_def)

lemma ti_paint_simps [simp]:
  "ti_display (ti_paint s) = ti_display s" "locationFromEnd (ti_paint s) = locationFromEnd s"
  "cursorEnd (ti_paint s) = cursorEnd s" "has_paragraph (ti_paint s)"
  "cursor_pos (ti_paint s) = cursor_pos s" "js_text t (ti_outs (ti_paint s)) = js_text t (ti_outs s)"
  "caretHidden (ti_paint s) = caretHidden s" "maxLength (ti_paint s) = maxLength s"
  "editable (ti_paint s) = editable s" "isInEditingMode (ti_paint s) = isInEditingMode s"
  "cur_props (ti_paint s) = cur_props s" "eventCount (ti_paint s) = eventCount s"
  "isTextInputInFocus (ti_paint s) = isTextInputInFocus s" "inputQueue (ti_paint s) = inputQueue s"
  "keyRepeateStartIndex (ti_paint s) = keyRepeateStartIndex s" "isKeyRepeateOn (ti_paint s) = isKeyRepeateOn s"
  "workers (ti_paint s) = workers s" "jsUpdateSem (ti_paint s) = jsUpdateSem s"
  "secureTextEntry (ti_paint s) = secureTextEntry s"
  by (simp_all add: ti_paint_def cursor_pos_def)

lemma edit_key_name: "edit_key k \<Longrightarrow> key_name k = Some (RNSKeyMap ! nat k)"
  by (rule key_name_defined) (simp_all add: edit_key_def)

lemma text_at_cursor: "text_ok s \<Longrightarrow> ti_display s = fst (ti_view s) @ snd (ti_view s)"
  by (simp add: ti_view_def)

lemma before_length: "text_ok s \<Longrightarrow> int (length (fst (ti_view s))) = cursor_pos s"
  by (auto simp: ti_view_def text_ok_def cursor_pos_def)

lemma view_split:
  assumes "ti_display s = b @ a" "cursor_pos s = int (length b)"
  shows "ti_view s = (b, a)"
  using assms by (simp add: ti_view_def)

lemma view_text_ok: "ti_display s = b @ a \<Longrightarrow> cursorEnd s = int (length (b @ a)) \<Longrightarrow>
    locationFromEnd s = int (length a) \<Longrightarrow> text_ok s \<and> ti_view s = (b, a)"
  using view_split [of s b a] by (simp add: text_ok_def cursor_pos_def)

lemma view_cases:
  assumes "text_ok s"
  obtains b a where "ti_display s = b @ a" "cursorEnd s = int (length (b @ a))"
    "locationFromEnd s = int (length a)" "ti_view s = (b, a)" "cursor_pos s = int (length b)"
proof -
  obtain b a where v: "ti_view s = (b, a)" by fastforce
  have d: "ti_display s = b @ a" using text_at_cursor [OF assms] v by simp
  have p: "cursor_pos s = int (length b)" using before_length [OF assms] v by simp
  have e: "cursorEnd s = int (length (b @ a))" using assms d by (simp add: text_ok_def)
  with p have "locationFromEnd s = int (length a)" by (simp add: cursor_pos_def)
  with that d p e v show thesis by blast
qed

lemma insert_at_cursor: "insert_at (int (length b)) w (b @ a) = Some (b @ w @ a)"
  by (simp add: insert_at_def)

lemma erase_at_cursor: "b \<noteq> [] \<Longrightarrow> erase_char (int (length b) - 1) (b @ a) = Some (butlast b @ a)"
proof -
  assume b: "b \<noteq> []"
  then have n: "nat (int (length b) - 1) = length b - 1" "Suc (length b - 1) = length b"
    by (cases b; simp)+
  have "take (length b - 1) (b @ a) = butlast b" by (simp add: butlast_conv_take)
  moreover have "drop (length b) (b @ a) = a" by simp
  ultimately show ?thesis using b n unfolding erase_char_def by (cases b) auto
qed

text \<open>Typing into a field with a length limit: beyond the limit the text after the cursor is overwritten
  by what would have been pushed along, and its end is lost.\<close>

fun limited_step :: "int \<Rightarrow> edit \<Rightarrow> string \<times> string \<Rightarrow> string \<times> string" where
  "limited_step m (Type w) (b, a) =
     (if m \<noteq> 0 \<and> int (length (b @ w @ a)) > m \<and> w \<noteq> [] then (b, take (length a) (w @ a)) else (b @ w, a))"
| "limited_step m e v = editor_step e v"

lemma limited_step_0 [simp]: "limited_step 0 e = editor_step e"
  by (rule ext, rename_tac v, case_tac v, cases e) simp_all

lemma finish_result:
  assumes p: "has_paragraph s" and e: "cursorEnd s = int (length t)" and n: "n = length (ti_display s)"
  shows "\<exists>s'. finish_edit True name t (int n) s = Some s' \<and>
    ti_display s' = (if maxLength s \<noteq> 0 \<and> int (length t) > maxLength s \<and> length t > n then take n t else t) \<and>
    cursorEnd s' = int (length (ti_display s')) \<and> locationFromEnd s' = locationFromEnd s \<and> has_paragraph s' \<and>
    maxLength s' = maxLength s \<and> editable s' = editable s \<and> isInEditingMode s' = isInEditingMode s \<and>
    cur_props s' = cur_props s \<and> (maxLength s = 0 \<longrightarrow> js_text u (ti_outs s') = t)"
proof -
  have d: "ti_display s \<noteq> t" if "length t > n" using that n by auto
  show ?thesis using p e d by (simp add: finish_edit_def Let_def)
qed

definition move_cursor :: "string \<Rightarrow> int \<Rightarrow> text_input \<Rightarrow> text_input" where
  "move_cursor name l s =
     (let s1 = (send [KeyPress name] s)\<lparr>locationFromEnd := l\<rparr>; s2 = (if caretHidden s1 then s1 else ti_paint s1)
      in send [SelectionChange (cursor_pos s2)] s2)"

lemma move_cursor_simps [simp]:
  "ti_display (move_cursor name l s) = ti_display s" "locationFromEnd (move_cursor name l s) = l"
  "cursorEnd (move_cursor name l s) = cursorEnd s" "maxLength (move_cursor name l s) = maxLength s"
  "editable (move_cursor name l s) = editable s" "isInEditingMode (move_cursor name l s) = isInEditingMode s"
  "cur_props (move_cursor name l s) = cur_props s" "has_paragraph s \<Longrightarrow> has_paragraph (move_cursor name l s)"
  "js_text u (ti_outs (move_cursor name l s)) = js_text u (ti_outs s)"
  by (simp_all add: move_cursor_def Let_def send_def)

lemma key_refines:
  assumes ed: "editing s" and k: "edit_key k"
  shows "\<exists>s'. onHandleKey k rep RNS_KEY_Press s = Some (True, s') \<and> editing s' \<and> maxLength s' = maxLength s \<and>
    ti_view s' = limited_step (maxLength s) (edit_of k) (ti_view s) \<and>
    (maxLength s = 0 \<and> js_text u (ti_outs s) = ti_display s \<longrightarrow> js_text u (ti_outs s') = ti_display s')"
proof -
  from ed have ok: "text_ok s" and p: "has_paragraph s" and mode: "editable s" "isInEditingMode s"
    "ti_value (cur_props s) = None" by (simp_all add: editing_def)
  from view_cases [OF ok] obtain b a where v: "ti_display s = b @ a" "cursorEnd s = int (length (b @ a))"
    "locationFromEnd s = int (length a)" "ti_view s = (b, a)" "cursor_pos s = int (length b)" .
  let ?n = "RNSKeyMap ! nat k"
  note name = edit_key_name [OF k]
  have handle: "onHandleKey k rep RNS_KEY_Press s =
      map_option (\<lambda>(st, w, t). (st, t)) (processEventKey k False False True s)"
    using mode by (simp add: onHandleKey_def split: bind_splits option.split)
  consider (chr) "displayable k" | (left) "k = RNS_KEY_Left" | (right) "k = RNS_KEY_Right"
    | (bck) "k = RNS_KEY_Back \<or> k = RNS_KEY_Delete" | (stay) "k = RNS_KEY_Up \<or> k = RNS_KEY_Down \<or> k = RNS_KEY_Caps_Lock"
    using k by (force simp: edit_key_def displayable_def)
  then show ?thesis
  proof cases
    case chr
    let ?t = "b @ ?n @ a" and ?o = "maxLength s \<noteq> 0 \<and> int (length (b @ ?n @ a)) > maxLength s \<and> ?n \<noteq> []"
    have ins: "(if locationFromEnd s \<noteq> 0 then insert_at (cursor_pos s) ?n (ti_display s)
        else Some (ti_display s @ ?n)) = Some ?t"
      using v insert_at_cursor by simp
    have len: "length (ti_display s) = length (b @ a)" using v(1) by simp
    from finish_result [of "s\<lparr>cursorEnd := int (length ?t)\<rparr>" ?t "length (b @ a)" ?n u] p len
    obtain s' where s': "finish_edit True ?n ?t (int (length (b @ a)))
        (s\<lparr>cursorEnd := int (length ?t)\<rparr>) = Some s'"
      "ti_display s' = (if ?o then take (length (b @ a)) ?t else ?t)"
      "cursorEnd s' = int (length (ti_display s'))" "locationFromEnd s' = int (length a)" "has_paragraph s'"
      "maxLength s' = maxLength s" "editable s'" "isInEditingMode s'" "cur_props s' = cur_props s"
      "maxLength s = 0 \<longrightarrow> js_text u (ti_outs s') = ti_display s'" using v(3) mode by auto
    have view: "text_ok s' \<and> ti_view s' = (if ?o then (b, take (length a) (?n @ a)) else (b @ ?n, a))"
    proof (cases ?o)
      case True
      define c where "c = take (length a) (?n @ a)"
      have "length c = length a" by (simp add: c_def)
      moreover have "ti_display s' = b @ c" unfolding s'(2) if_P [OF True] by (simp add: c_def)
      ultimately show ?thesis
        unfolding if_P [OF True] c_def [symmetric] using view_text_ok [of s' b c] s'(3,4) by simp
    next
      case False
      show ?thesis
        unfolding if_not_P [OF False]
        by (rule view_text_ok) (use s'(3,4) in \<open>simp_all add: s'(2) [unfolded if_not_P [OF False]]\<close>)
    qed
    have "processEventKey k False False True s = Some (True, False, s')"
      using chr name ins s'(1) len by (simp add: processEventKey_def Let_def)
    moreover have "limited_step (maxLength s) (edit_of k) (ti_view s) =
        (if ?o then (b, take (length a) (?n @ a)) else (b @ ?n, a))"
      using chr v(4) by (simp add: edit_of_def)
    ultimately show ?thesis using handle s'(4-) view mode(3) by (simp add: editing_def)
  next
    case left
    show ?thesis
    proof (cases "b = []")
      case True
      with left handle name v ed show ?thesis
        by (simp add: processEventKey_def Let_def edit_of_def displayable_def editing_def text_ok_def ti_view_def cursor_pos_def)
    next
      case False
      let ?s' = "move_cursor ?n (locationFromEnd s + 1) s"
      have "processEventKey k False False True s = Some (True, False, ?s')"
        using left name v False by (simp add: processEventKey_def Let_def displayable_def move_cursor_def)
      moreover obtain c x where "b = c @ [x]" using False by (cases b rule: rev_cases) simp_all
      with v have "text_ok ?s' \<and> ti_view ?s' = (butlast b, last b # a)"
        by (intro view_text_ok) simp_all
      moreover have "maxLength s = 0 \<and> js_text u (ti_outs s) = ti_display s \<longrightarrow> js_text u (ti_outs ?s') = ti_display ?s'" by simp
      ultimately show ?thesis using handle left v(4) False mode p
        by (simp add: editing_def edit_of_def displayable_def)
    qed
  next
    case right
    show ?thesis
    proof (cases a)
      case Nil
      with right handle name v ed show ?thesis
        by (simp add: processEventKey_def Let_def edit_of_def displayable_def editing_def text_ok_def ti_view_def cursor_pos_def)
    next
      case (Cons x xs)
      let ?s' = "move_cursor ?n (locationFromEnd s - 1) s"
      have "processEventKey k False False True s = Some (True, False, ?s')"
        using right name v Cons by (simp add: processEventKey_def Let_def displayable_def move_cursor_def)
      moreover have "text_ok ?s' \<and> ti_view ?s' = (b @ [x], xs)"
        by (rule view_text_ok) (use v Cons in simp_all)
      moreover have "maxLength s = 0 \<and> js_text u (ti_outs s) = ti_display s \<longrightarrow> js_text u (ti_outs ?s') = ti_display ?s'" by simp
      ultimately show ?thesis using handle right v(4) Cons mode p
        by (simp add: editing_def edit_of_def displayable_def)
    qed
  next
    case bck
    let ?c = "if b = [] then a else butlast b @ a"
    have nd: "\<not> displayable k" "k \<noteq> RNS_KEY_Left" "k \<noteq> RNS_KEY_Right" "k \<noteq> RNS_KEY_Up" "k \<noteq> RNS_KEY_Down"
      using bck by (auto simp: displayable_def)
    have len: "length (ti_display s) = length (b @ a)" using v(1) by simp
    from finish_result [of "s\<lparr>cursorEnd := int (length ?c)\<rparr>" ?c "length (b @ a)" ?n u] p len
    obtain s' where s': "finish_edit True ?n ?c (int (length (b @ a)))
        (s\<lparr>cursorEnd := int (length ?c)\<rparr>) = Some s'" "ti_display s' = butlast b @ a"
      "cursorEnd s' = int (length (butlast b @ a))" "locationFromEnd s' = int (length a)" "has_paragraph s'"
      "maxLength s' = maxLength s" "editable s'" "isInEditingMode s'" "cur_props s' = cur_props s"
      "maxLength s = 0 \<longrightarrow> js_text u (ti_outs s') = ti_display s'" using v(3) mode by auto
    have "processEventKey k False False True s = Some (True, False, s')"
    proof (cases "b = []")
      case True
      then have "s\<lparr>cursorEnd := int (length ?c)\<rparr> = s" using v(2) by simp
      from s'(1) [unfolded this] True bck nd name v show ?thesis by (simp add: processEventKey_def Let_def)
    next
      case False
      with s'(1) bck nd name v erase_at_cursor [of b a] show ?thesis
        by (simp add: processEventKey_def Let_def)
    qed
    with handle s' view_text_ok [of s' "butlast b" a] bck nd v(4) mode(3) show ?thesis
      by (simp add: editing_def edit_of_def)
  next
    case stay
    then have "processEventKey k False False True s = Some (True, False, s)" "edit_of k = Stay"
      unfolding processEventKey_def name by (elim disjE; simp add: Let_def edit_of_def displayable_def)+
    with handle v(4) ed show ?thesis by simp
  qed
qed

lemma keys_refine:
  assumes "editing s" and "\<forall>k \<in> fst ` set ks. edit_key k"
  shows "\<exists>s'. ti_run s (map (\<lambda>(k, rep). TiKey k rep RNS_KEY_Press) ks) = Some s' \<and> editing s' \<and>
    maxLength s' = maxLength s \<and>
    ti_view s' = fold (\<lambda>k. limited_step (maxLength s) (edit_of k)) (map fst ks) (ti_view s) \<and>
    (maxLength s = 0 \<and> js_text u (ti_outs s) = ti_display s \<longrightarrow> js_text u (ti_outs s') = ti_display s')"
  using assms
proof (induction ks arbitrary: s)
  case Nil
  then show ?case by simp
next
  case (Cons kr ks)
  obtain k rep where kr: "kr = (k, rep)" by fastforce
  with Cons.prems have "edit_key k" by simp
  from key_refines [OF Cons.prems(1) this, of rep u] obtain t where
    t: "onHandleKey k rep RNS_KEY_Press s = Some (True, t)" "editing t" "maxLength t = maxLength s"
      "ti_view t = limited_step (maxLength s) (edit_of k) (ti_view s)"
      "maxLength s = 0 \<and> js_text u (ti_outs s) = ti_display s \<longrightarrow> js_text u (ti_outs t) = ti_display t" by blast
  from Cons.IH [OF t(2)] Cons.prems(2) obtain s' where
    "ti_run t (map (\<lambda>(k, rep). TiKey k rep RNS_KEY_Press) ks) = Some s'" "editing s'"
    "maxLength s' = maxLength t"
    "ti_view s' = fold (\<lambda>k. limited_step (maxLength t) (edit_of k)) (map fst ks) (ti_view t)"
    "maxLength t = 0 \<and> js_text u (ti_outs t) = ti_display t \<longrightarrow> js_text u (ti_outs s') = ti_display s'" by auto
  with t kr show ?case by simp
qed

definition view_length :: "string \<times> string \<Rightarrow> nat" where
  "view_length v = length (fst v @ snd v)"

lemma editor_step_length: "view_length (editor_step e v) \<le> view_length v \<or> (\<exists>w. e = Type w)"
  by (cases e; cases v) (auto simp: view_length_def split: list.split)

lemma limited_step_length: "int (view_length v) \<le> m \<Longrightarrow> m \<noteq> 0 \<Longrightarrow> int (view_length (limited_step m e v)) \<le> m"
proof -
  assume v: "int (view_length v) \<le> m" "m \<noteq> 0"
  show ?thesis
  proof (cases "\<exists>w. e = Type w")
    case True
    then obtain w where "e = Type w" by blast
    with v show ?thesis by (cases v) (auto simp: view_length_def)
  next
    case False
    then have "limited_step m e v = editor_step e v" by (cases e; cases v) auto
    with False editor_step_length [of e v] v show ?thesis by auto
  qed
qed

lemma limited_steps_length: "int (view_length v) \<le> m \<Longrightarrow> m \<noteq> 0 \<Longrightarrow>
    int (view_length (fold (\<lambda>k. limited_step m (edit_of k)) ks v)) \<le> m"
  by (induction ks arbitrary: v) (simp_all add: limited_step_length)

section \<open>The key queue\<close>

definition queue_ok :: "text_input \<Rightarrow> bool" where
  "queue_ok s \<longleftrightarrow> (isTextInputInFocus s \<longrightarrow> keyRepeateStartIndex s \<le> length (inputQueue s))"

definition same_queue :: "text_input \<Rightarrow> text_input \<Rightarrow> bool" where
  "same_queue s s' \<longleftrightarrow> isTextInputInFocus s' = isTextInputInFocus s \<and> inputQueue s' = inputQueue s \<and>
     keyRepeateStartIndex s' = keyRepeateStartIndex s"

lemma same_queue_ok: "same_queue s s' \<Longrightarrow> queue_ok s \<Longrightarrow> queue_ok s'"
  by (simp add: same_queue_def queue_ok_def)

lemma same_queue_trans: "same_queue s t \<Longrightarrow> same_queue t u \<Longrightarrow> same_queue s u"
  by (simp add: same_queue_def)

lemma queue_paint [simp]: "same_queue s (ti_paint s)" "same_queue s (send os s)" "same_queue s s"
  "same_queue s (ti_paint (set_text t s))"
  by (simp_all add: same_queue_def set_text_def)

lemma queue_request: "same_queue s (requestForEditingMode s)"
  by (simp add: requestForEditingMode_def same_queue_def Let_def)

lemma queue_resign: "queue_ok s \<Longrightarrow> queue_ok (resignFromEditingMode s)"
  by (simp add: resignFromEditingMode_def queue_ok_def Let_def)

lemma queue_finish: "finish_edit up name t n s = Some s' \<Longrightarrow> same_queue s s'"
  by (auto simp: finish_edit_def Let_def same_queue_def split: if_splits)

lemma queue_move: "same_queue s (move_cursor name l s)"
  by (simp add: move_cursor_def Let_def same_queue_def)

lemma queue_erase: "(if c then do { t1 \<leftarrow> erase_char i t; s1 \<leftarrow> finish_edit up name t1 n (s\<lparr>cursorEnd := int (length t1)\<rparr>);
      Some (True, w, s1) } else do { s1 \<leftarrow> finish_edit up name t n s; Some (True, False, s1) }) = Some (st, w', s') \<Longrightarrow>
    same_queue s s'"
  by (cases c) (auto split: bind_splits dest!: queue_finish simp: same_queue_def)

lemma queue_key:
  assumes run: "processEventKey k st w up s = Some (st', w', s')" and ok: "queue_ok s"
  shows "queue_ok s'"
proof -
  from run obtain name where name: "key_name k = Some name"
    by (auto simp: processEventKey_def split: bind_splits)
  consider "displayable k" | "\<not> displayable k" "k = RNS_KEY_Left \<or> k = RNS_KEY_Right"
    | "\<not> displayable k" "k = RNS_KEY_Back \<or> k = RNS_KEY_Delete" | "k = RNS_KEY_Select"
    | "\<not> displayable k" "k \<notin> {RNS_KEY_Left, RNS_KEY_Right, RNS_KEY_Back, RNS_KEY_Delete, RNS_KEY_Select}" by blast
  then show ?thesis
  proof cases
    case 1
    with run name obtain t1 where "finish_edit up name t1 (int (length (ti_display s))) (s\<lparr>cursorEnd := int (length t1)\<rparr>) = Some s'"
      by (auto simp: processEventKey_def Let_def split: bind_splits)
    from queue_finish [OF this] ok show ?thesis by (simp add: same_queue_def queue_ok_def)
  next
    case 2
    with run name have "same_queue s s'"
      by (auto simp: processEventKey_def Let_def same_queue_def split: if_splits)
    then show ?thesis using ok by (rule same_queue_ok)
  next
    case 3
    with run name queue_erase have "same_queue s s'" by (auto simp: processEventKey_def Let_def)
    then show ?thesis using ok by (rule same_queue_ok)
  next
    case 4
    with run name have "s' = resignFromEditingMode (s\<lparr>eventCount := eventCount s + 1\<rparr>)"
      by (simp add: processEventKey_def Let_def displayable_def)
    then show ?thesis using ok by (simp add: queue_resign queue_ok_def [of "s\<lparr>eventCount := eventCount s + 1\<rparr>"] queue_ok_def [of s])
  next
    case 5
    with run name have "s' = s" by (auto simp: processEventKey_def Let_def split: if_splits)
    with ok show ?thesis by simp
  qed
qed

lemma queue_post: "same_queue s (post_update s)"
  by (simp add: post_update_def same_queue_def)

lemma queue_props: "same_queue s (snd (updateComponentProps f p s))"
  by (simp add: updateComponentProps_def Let_def same_queue_def post_update_def set_text_def)

lemma enqueue_total:
  assumes "queue_ok s"
  shows "\<exists>st s'. enqueue_key k rep s = Some (st, s') \<and> queue_ok s'"
proof -
  let ?s1 = "if isTextInputInFocus s then s
    else s\<lparr>isTextInputInFocus := True, isKeyRepeateOn := False, keyRepeateStartIndex := 0,
           workers := workers s @ [\<lparr>waitForupdateProps = True, in_sem_wait = False\<rparr>]\<rparr>"
  let ?s2 = "if rep \<and> \<not> isKeyRepeateOn ?s1 then ?s1\<lparr>keyRepeateStartIndex := length (inputQueue ?s1)\<rparr> else ?s1"
  have f: "isTextInputInFocus ?s2" and i: "keyRepeateStartIndex ?s2 \<le> length (inputQueue ?s2)"
    using assms by (simp_all add: queue_ok_def)
  define s2 where "s2 = ?s2"
  have q: "queue_ok (resignFromEditingMode (s2\<lparr>isKeyRepeateOn := r, isTextInputInFocus := False, inputQueue := [],
      eventCount := eventCount s2 + 1\<rparr>))" for r
    by (rule queue_resign) (simp add: queue_ok_def)
  show ?thesis
    unfolding enqueue_key_def Let_def s2_def [symmetric]
    using f i q unfolding s2_def [symmetric] by (auto simp: queue_ok_def)
qed

lemma queue_step: "queue_ok s \<Longrightarrow> ti_step s e = Some s' \<Longrightarrow> queue_ok s'"
proof (cases e)
  case (TiKey k rep a)
  assume ok: "queue_ok s" and "ti_step s e = Some s'"
  with TiKey obtain st where "onHandleKey k rep a s = Some (st, s')" by auto
  with ok enqueue_total [OF ok, of k rep] same_queue_ok [OF queue_request ok] show ?thesis
    by (auto simp: onHandleKey_def split: if_splits bind_splits dest: queue_key)
next
  case (TiWork i)
  assume ok: "queue_ok s" and "ti_step s e = Some s'"
  with TiWork show ?thesis
    by (auto simp: keyEventProcessing_def queue_ok_def
        split: option.splits if_splits list.splits bind_splits
        dest!: queue_key [unfolded queue_ok_def, rule_format])
next
  case (TiProps f p)
  assume ok: "queue_ok s" and "ti_step s e = Some s'"
  moreover obtain m t where "updateComponentProps f p s = (m, t)" by fastforce
  ultimately show ?thesis
    using TiProps queue_props [of s f p] by (auto simp: same_queue_def queue_ok_def Let_def split: if_splits)
next
  case (TiCommand c)
  assume "queue_ok s" "ti_step s e = Some s'"
  with TiCommand show ?thesis
    by (cases c) (auto intro: same_queue_ok [OF queue_request] queue_resign
        same_queue_ok [OF same_queue_trans [OF queue_paint(4) queue_post]])
qed (auto intro: same_queue_ok [OF queue_request] queue_resign same_queue_ok [OF queue_paint(1)])

lemma queue_run: "queue_ok s \<Longrightarrow> ti_run s es = Some s' \<Longrightarrow> queue_ok s'"
  by (induction es arbitrary: s) (auto split: bind_splits dest: queue_step)

section \<open>A controlled field that JavaScript answers\<close>

text \<open>What a worker's turn leaves alone.\<close>

definition same_worker :: "text_input \<Rightarrow> text_input \<Rightarrow> bool" where
  "same_worker s s' \<longleftrightarrow> same_queue s s' \<and> editable s' = editable s \<and> isInEditingMode s' = isInEditingMode s \<and>
     cur_props s' = cur_props s \<and> maxLength s' = maxLength s \<and> workers s' = workers s \<and>
     jsUpdateSem s' = jsUpdateSem s \<and> isKeyRepeateOn s' = isKeyRepeateOn s \<and> ti_display s' = ti_display s \<and>
     (has_paragraph s \<longrightarrow> has_paragraph s')"

lemma same_worker_simps [simp]: "same_worker s s"
  "same_worker s (move_cursor name l s)"
  by (simp_all add: same_worker_def queue_move) (simp_all add: move_cursor_def Let_def)


text \<open>The text that JavaScript is told, seen at the cursor.\<close>

definition told :: "string \<Rightarrow> text_input \<Rightarrow> text_input" where
  "told u s = s\<lparr>ti_display := js_text u (ti_outs s)\<rparr>"

lemma told_simps [simp]:
  "ti_display (told u s) = js_text u (ti_outs s)" "cursorEnd (told u s) = cursorEnd s"
  "locationFromEnd (told u s) = locationFromEnd s"
  by (simp_all add: told_def)









section \<open>Properties\<close>


text \<open>A field in the editing mode, with a text of JavaScript's in it if \<open>t\<close> is not empty.\<close>

definition open_field :: "string \<Rightarrow> bool \<Rightarrow> int \<Rightarrow> text_input" where
  "open_field t is_value m =
     (let p = default_props\<lparr>ti_text := t, ti_value := (if is_value then Some t else None),
                defaultValue := Some t, p_maxLength := m\<rparr>
      in the (ti_run ti_init [TiProps True p, TiPaint, TiFocus]))"


text \<open>C15: Keys never make a text longer than its limit: in a field with \<open>maxLength\<close> whose text is within
  the limit, every sequence of keys is handled without a fault and leaves the text within it.\<close>

theorem text_within_limit:
  assumes "text_ok s" and "has_paragraph s" and "editable s" and "isInEditingMode s"
    and "ti_value (cur_props s) = None" and "maxLength s \<noteq> 0" and "int (length (ti_display s)) \<le> maxLength s"
    and "\<forall>k \<in> fst ` set ks. edit_key k"
  shows "\<exists>s'. ti_run s (map (\<lambda>(k, rep). TiKey k rep RNS_KEY_Press) ks) = Some s' \<and>
    int (length (ti_display s')) \<le> maxLength s \<and> text_ok s'"
proof -
  have ed: "editing s" using assms by (simp add: editing_def)
  from keys_refine [OF ed assms(8)] obtain s' where
    s': "ti_run s (map (\<lambda>(k, rep). TiKey k rep RNS_KEY_Press) ks) = Some s'" "editing s'"
      "ti_view s' = fold (\<lambda>k. limited_step (maxLength s) (edit_of k)) (map fst ks) (ti_view s)" by auto
  have l: "int (view_length (ti_view t)) = int (length (ti_display t))" if "text_ok t" for t
    using text_at_cursor [OF that] by (simp add: view_length_def)
  from limited_steps_length [of "ti_view s" "maxLength s" "map fst ks"] assms(1,6,7) s' l [of s] l [of s']
  show ?thesis by (simp add: editing_def)
qed

theorem text_within_limit_witness:
  "\<exists>s'. ti_run (open_field ''ab'' False 3) (map (\<lambda>(k, rep). TiKey k rep RNS_KEY_Press)
      [(RNS_KEY_c, False), (RNS_KEY_Left, False), (RNS_KEY_d, False)]) = Some s' \<and>
    int (length (ti_display s')) \<le> maxLength (open_field ''ab'' False 3) \<and> text_ok s'"
proof (rule text_within_limit)
  show "text_ok (open_field ''ab'' False 3)" "has_paragraph (open_field ''ab'' False 3)"
    "editable (open_field ''ab'' False 3)" "isInEditingMode (open_field ''ab'' False 3)"
    "ti_value (cur_props (open_field ''ab'' False 3)) = None" "maxLength (open_field ''ab'' False 3) \<noteq> 0"
    "int (length (ti_display (open_field ''ab'' False 3))) \<le> maxLength (open_field ''ab'' False 3)"
    by code_simp+
qed (simp add: edit_key_def)




text \<open>The queue of a controlled field is never read beyond its end: in every state that events can
  lead to, cutting the queue back after a repeated key finds as many keys in it as it takes.\<close>

theorem queue_cut_in_range:
  assumes "ti_run ti_init es = Some s"
  shows "enqueue_key k rep s \<noteq> None"
proof -
  have "queue_ok ti_init" by (simp add: queue_ok_def ti_init_def)
  from enqueue_total [OF queue_run [OF this assms], of k rep] show ?thesis by auto
qed

definition repeat_events :: "ti_event list" where
  "repeat_events = [TiProps True (default_props\<lparr>ti_value := Some []\<rparr>), TiPaint, TiFocus,
     TiKey RNS_KEY_a False RNS_KEY_Press, TiKey RNS_KEY_a True RNS_KEY_Press, TiWork 0,
     TiKey RNS_KEY_a True RNS_KEY_Press]"

theorem queue_cut_in_range_witness:
  "enqueue_key RNS_KEY_b False (the (ti_run ti_init repeat_events)) \<noteq> None"
proof (rule queue_cut_in_range)
  have "ti_run ti_init repeat_events \<noteq> None" by code_simp
  then show "ti_run ti_init repeat_events = Some (the (ti_run ti_init repeat_events))" by simp
qed

text \<open>A text set by JavaScript can crash the field: when the cursor was moved to the left and
  JavaScript then sets a text shorter than what is right of the cursor, the cursor stays where it was,
  and the next character is inserted at a negative position.\<close>

theorem shortened_text_crashes:
  "let s = ti_run (open_field ''abc'' False 0)
     [TiKey RNS_KEY_Left False RNS_KEY_Press, TiKey RNS_KEY_Left False RNS_KEY_Press,
      TiCommand (SetTextAndSelection ''x'')]
   in map_option cursor_pos s = Some (-1) \<and>
      Option.bind s (\<lambda>s. ti_step s (TiKey RNS_KEY_d False RNS_KEY_Press)) = None"
  by code_simp

text \<open>A full field overwrites: a character typed before the end of a text that is as long as its
  limit is shown and pushes out the last one, and JavaScript is not told.\<close>

theorem full_field_overwrites:
  "let s = ti_run (open_field [] False 3)
     (map (\<lambda>k. TiKey k False RNS_KEY_Press) [RNS_KEY_a, RNS_KEY_b, RNS_KEY_c, RNS_KEY_Left, RNS_KEY_d])
   in map_option ti_display s = Some ''abd'' \<and> map_option (\<lambda>s. js_text [] (ti_outs s)) s = Some ''abc''"
  by code_simp

text \<open>After an arrow key a controlled field loses characters: the worker no longer waits for
  JavaScript, so the second of two characters typed quickly is added to the old text, and JavaScript is
  told of each of them alone.\<close>

theorem characters_lost_after_arrow:
  "map_option (\<lambda>s. filter (\<lambda>e. case e of Change t n \<Rightarrow> True | _ \<Rightarrow> False) (ti_outs s))
     (ti_run (open_field [] True 0)
       [TiKey RNS_KEY_Left False RNS_KEY_Press, TiWork 0,
        TiKey RNS_KEY_a False RNS_KEY_Press, TiKey RNS_KEY_b False RNS_KEY_Press, TiWork 0, TiWork 0])
   = Some [Change ''a'' 1, Change ''b'' 2]"
  by code_simp

text \<open>Focusing a password field hands its text to the on-screen keyboard in clear: the paint before
  masks it, but the call that follows passes \<open>displayString_\<close> itself.\<close>

theorem password_shown_in_clear:
  assumes "secureTextEntry s" and "\<not> isInEditingMode s" and "showSoftInputOnFocus s"
    and "\<not> tr_clearTextOnFocus (traits (cur_props s))"
  shows "\<exists>os. ti_outs (requestForEditingMode s) = os @ [OskText (ti_display s) (cursor_pos s), OskLaunch (oskLaunchConfig s)]"
  using assms by (simp add: requestForEditingMode_def Let_def send_def ti_paint_def cursor_pos_def)

theorem password_shown_in_clear_witness:
  "\<exists>os. ti_outs (requestForEditingMode (ti_init\<lparr>secureTextEntry := True, ti_display := ''pw'', cursorEnd := 2\<rparr>)) =
    os @ [OskText ''pw'' 2, OskLaunch defaultOSKConfig]"
  using password_shown_in_clear [of "ti_init\<lparr>secureTextEntry := True, ti_display := ''pw'', cursorEnd := 2\<rparr>"]
  by (simp add: ti_init_def default_props_def default_traits_def cursor_pos_def)

end
