(* ===== verification/InputEvents.thy ===== *)
theory InputEvents imports NavSafety TextEditing begin

text \<open>
  The input event manager (\<open>core_modules/RSkInputEventManager.cpp\<close>, without key throttling): where a
  key goes. A key from the remote control or the on-screen keyboard is first offered to the focused
  component; if that does not stop it, JavaScript is told, the spatial navigator moves the focus, and
  the registered callbacks are called.

  \<open>app\<close> puts together the navigator (\<open>SpatialNav\<close>), the text fields among the components (\<open>TextInput\<close>)
  and the state of the manager, with its two file-scope variables \<open>keyRepeat\<close> and \<open>previousKeyType\<close>.
  Focus changes of the navigator reach the fields as \<open>onHandleBlur\<close> and \<open>onHandleFocus\<close>.

  The lemmas show that keys never fault whatever is focused, that an editing field keeps its keys, and
  how quick taps are mistaken for a key that is held.
\<close>

section \<open>State\<close>

record key_input =
  ki_key :: rnsKey
  ki_action :: rnsKeyAction
  ki_repeat :: bool

datatype im_out =
    TvEvent string int rnsKeyAction
  | ClientCallback nat key_input

record app =
  im_nav :: nav
  im_fields :: "cid \<Rightarrow> text_input option"
  keyRepeat :: bool
  previousKeyType :: rnsKey
  callbackId :: int
  eventCallbackMap :: "(int \<times> nat) list"
  im_outs :: "im_out list"

definition app_init :: "nav \<Rightarrow> (cid \<Rightarrow> text_input option) \<Rightarrow> app" where
  "app_init n fs = \<lparr>im_nav = n, im_fields = fs, keyRepeat = False, previousKeyType = RNS_KEY_UnKnown,
     callbackId = 0, eventCallbackMap = [], im_outs = []\<rparr>"

section \<open>Callbacks\<close>

definition addKeyEventCallback :: "nat \<Rightarrow> app \<Rightarrow> int \<times> app" where
  "addKeyEventCallback client a =
     (let i = callbackId a + 1
      in (i, a\<lparr>callbackId := i, eventCallbackMap := insort_key fst (i, client) (eventCallbackMap a)\<rparr>))"

definition removeKeyEventCallback :: "int \<Rightarrow> app \<Rightarrow> app" where
  "removeKeyEventCallback i a = a\<lparr>eventCallbackMap := filter (\<lambda>p. fst p \<noteq> i) (eventCallbackMap a)\<rparr>"

section \<open>Focus changes reach the fields\<close>

fun focus_notice :: "nav_notice \<Rightarrow> (cid \<Rightarrow> text_input option) \<Rightarrow> (cid \<Rightarrow> text_input option)" where
  "focus_notice (HandleBlur c) fs = (case fs c of None \<Rightarrow> fs | Some t \<Rightarrow> fs(c := Some (resignFromEditingMode t)))"
| "focus_notice (HandleFocus c) fs = (case fs c of None \<Rightarrow> fs | Some t \<Rightarrow> fs(c := Some (requestForEditingMode t)))"
| "focus_notice _ fs = fs"

text \<open>The navigator has moved on to \<open>n\<close>.\<close>

definition set_nav :: "nav \<Rightarrow> app \<Rightarrow> app" where
  "set_nav n a = a\<lparr>im_nav := n,
     im_fields := fold focus_notice (drop (length (notices (im_nav a))) (notices n)) (im_fields a)\<rparr>"

text \<open>The field of component \<open>c\<close> has gone from \<open>t\<close> to \<open>t'\<close>; it may have asked for the focus.\<close>

definition set_field :: "nav_fx \<Rightarrow> cid \<Rightarrow> text_input \<Rightarrow> text_input \<Rightarrow> app \<Rightarrow> app option" where
  "set_field fx c t t' a =
     (let a1 = a\<lparr>im_fields := (im_fields a)(c := Some t')\<rparr>
      in if RequestFocus \<in> set (drop (length (ti_outs t)) (ti_outs t'))
         then do {
           n \<leftarrow> updateFocusCandidate fx False c (im_nav a1);
           Some (set_nav n a1)
         } else Some a1)"

section \<open>Keys\<close>

definition offer_key :: "nav_fx \<Rightarrow> key_input \<Rightarrow> app \<Rightarrow> (bool \<times> app) option" where
  "offer_key fx ki a =
     (case currentFocus (im_nav a) of
        None \<Rightarrow> Some (False, a)
      | Some f \<Rightarrow> do {
          _ \<leftarrow> heap (im_nav a) f;
          case im_fields a f of
            None \<Rightarrow> Some (False, a)
          | Some t \<Rightarrow> do {
              (stop, t') \<leftarrow> onHandleKey (ki_key ki) (ki_repeat ki) (ki_action ki) t;
              a1 \<leftarrow> set_field fx f t t' a;
              Some (stop, a1)
            }
        })"

definition im_processKey :: "nav_fx \<Rightarrow> key_input \<Rightarrow> app \<Rightarrow> app option" where
  "im_processKey fx ki a = do {
     (stop, a1) \<leftarrow> offer_key fx ki a;
     if stop then Some a1
     else do {
       a2 \<leftarrow> (if ki_action ki = RNS_KEY_Press
             then do {
               name \<leftarrow> key_name (ki_key ki);
               tag \<leftarrow> (case currentFocus (im_nav a) of
                   None \<Rightarrow> Some (-1)
                 | Some f \<Rightarrow> map_option c_tag (heap (im_nav a1) f));
               n \<leftarrow> handleKeyEvent fx (ki_key ki) (ki_action ki) (im_nav a1);
               Some (set_nav n (a1\<lparr>im_outs := im_outs a1 @ [TvEvent name tag (ki_action ki)]\<rparr>))
             } else Some a1);
       Some (a2\<lparr>im_outs := im_outs a2 @ map (\<lambda>p. ClientCallback (snd p) ki) (eventCallbackMap a2)\<rparr>)
     }
   }"

text \<open>The key repeat: the two variables after an event.\<close>

fun repeat_step :: "rnsKey \<times> rnsKeyAction \<Rightarrow> bool \<times> rnsKey \<Rightarrow> bool \<times> rnsKey" where
  "repeat_step (k, action) (rep, prev) =
     (let rep1 = (if prev = k \<and> action = RNS_KEY_Press then True else rep);
          (rep2, prev2) = (if action = RNS_KEY_Release then (if rep1 then False else rep1, RNS_KEY_UnKnown)
                           else (rep1, prev))
      in (rep2, k))"

definition keyHandler :: "nav_fx \<Rightarrow> rnsKey \<Rightarrow> rnsKeyAction \<Rightarrow> app \<Rightarrow> app option" where
  "keyHandler fx k action a =
     (let (rep, prev) = repeat_step (k, action) (keyRepeat a, previousKeyType a)
      in im_processKey fx \<lparr>ki_key = k, ki_action = action, ki_repeat = rep\<rparr>
           (a\<lparr>keyRepeat := rep, previousKeyType := prev\<rparr>))"

abbreviation key_run :: "nav_fx \<Rightarrow> app \<Rightarrow> (rnsKey \<times> rnsKeyAction) list \<Rightarrow> app option" where
  "key_run fx \<equiv> run_opt (\<lambda>a (k, action). keyHandler fx k action a)"

section \<open>Keys are safe\<close>

definition field_ok :: "text_input \<Rightarrow> bool" where
  "field_ok t \<longleftrightarrow> text_ok t \<and> has_paragraph t \<and> ti_value (cur_props t) = None"

lemma resign_ok: "field_ok t \<Longrightarrow> field_ok (resignFromEditingMode t)"
  by (simp add: resignFromEditingMode_def field_ok_def text_ok_def Let_def)

lemma request_ok: "field_ok t \<Longrightarrow> field_ok (requestForEditingMode t)"
  by (simp add: requestForEditingMode_def field_ok_def text_ok_def Let_def)

lemma other_key_ok:
  assumes ok: "field_ok t" and k: "0 \<le> k" "k < RNS_KEY_End" "\<not> edit_key k"
  shows "\<exists>st w t'. processEventKey k False False True t = Some (st, w, t') \<and> field_ok t'"
proof -
  have "\<not> displayable k" "k \<noteq> RNS_KEY_Left" "k \<noteq> RNS_KEY_Right" "k \<noteq> RNS_KEY_Up" "k \<noteq> RNS_KEY_Down"
    "k \<noteq> RNS_KEY_Back" "k \<noteq> RNS_KEY_Delete"
    using k(3) by (auto simp: edit_key_def displayable_def)
  moreover have "field_ok (t\<lparr>eventCount := eventCount t + 1\<rparr>)"
    using ok by (simp add: field_ok_def text_ok_def)
  ultimately show ?thesis
    using ok resign_ok key_name_defined [OF k(1,2)] by (auto simp: processEventKey_def Let_def)
qed

lemma field_key_ok:
  assumes ok: "field_ok t" and k: "0 \<le> k" "k < RNS_KEY_End"
  shows "\<exists>st t'. onHandleKey k rep action t = Some (st, t') \<and> field_ok t'"
proof (cases "editable t \<and> isInEditingMode t \<and> action \<noteq> RNS_KEY_Release")
  case False
  then show ?thesis using ok request_ok [OF ok] by (auto simp: onHandleKey_def)
next
  case True
  show ?thesis
  proof (cases "edit_key k")
    case e: True
    have "editing t" using ok True by (simp add: editing_def field_ok_def)
    from key_refines [OF this e, of rep] obtain t' where
      t': "onHandleKey k rep RNS_KEY_Press t = Some (True, t')" "editing t'" by blast
    have "onHandleKey k rep action t = onHandleKey k rep RNS_KEY_Press t"
      using True by (simp add: onHandleKey_def)
    with t' show ?thesis by (auto simp: editing_def field_ok_def)
  next
    case False
    from other_key_ok [OF ok k False] True ok show ?thesis
      by (auto simp: onHandleKey_def field_ok_def)
  qed
qed

definition fields_ok :: "(cid \<Rightarrow> text_input option) \<Rightarrow> bool" where
  "fields_ok fs \<longleftrightarrow> (\<forall>c t. fs c = Some t \<longrightarrow> field_ok t)"

definition app_ok :: "app \<Rightarrow> bool" where
  "app_ok a \<longleftrightarrow> nav_live (im_nav a) \<and> fields_ok (im_fields a)"

lemma fields_ok_upd: "fields_ok fs \<Longrightarrow> field_ok t \<Longrightarrow> fields_ok (fs(c := Some t))"
  by (simp add: fields_ok_def)

lemma focus_notice_ok: "fields_ok fs \<Longrightarrow> fields_ok (focus_notice n fs)"
  by (cases n) (auto simp: fields_ok_def split: option.splits intro: resign_ok request_ok)

lemma focus_notices_ok: "fields_ok fs \<Longrightarrow> fields_ok (fold focus_notice ns fs)"
  by (induction ns arbitrary: fs) (simp_all add: focus_notice_ok)

lemma set_nav_ok: "app_ok a \<Longrightarrow> nav_live n \<Longrightarrow> app_ok (set_nav n a)"
  using focus_notices_ok by (simp add: app_ok_def set_nav_def)

lemma set_field_current: "currentFocus (im_nav a) = Some f \<Longrightarrow>
    set_field fx f t t' a = Some (a\<lparr>im_fields := (im_fields a)(f := Some t')\<rparr>)"
  by (simp add: set_field_def Let_def updateFocusCandidate_def set_nav_def)

lemma offer_ok:
  assumes ok: "app_ok a" and k: "0 \<le> ki_key ki" "ki_key ki < RNS_KEY_End"
  shows "\<exists>st a'. offer_key fx ki a = Some (st, a') \<and> app_ok a' \<and> im_nav a' = im_nav a \<and>
    eventCallbackMap a' = eventCallbackMap a"
proof (cases "currentFocus (im_nav a)")
  case None
  with ok show ?thesis by (auto simp: offer_key_def)
next
  case (Some f)
  from ok have live: "nav_ok (im_nav a)" by (simp add: app_ok_def nav_live_def)
  from listed_live(1) [OF live focused_listed [OF live Some]] obtain fk where fk: "heap (im_nav a) f = Some fk" by blast
  show ?thesis
  proof (cases "im_fields a f")
    case None
    with Some fk ok show ?thesis by (auto simp: offer_key_def)
  next
    case t: (Some t)
    with ok have "field_ok t" by (simp add: app_ok_def fields_ok_def)
    from field_key_ok [OF this k] obtain st t' where
      "onHandleKey (ki_key ki) (ki_repeat ki) (ki_action ki) t = Some (st, t')" "field_ok t'" by blast
    with Some fk t ok fields_ok_upd show ?thesis by (auto simp: offer_key_def set_field_current app_ok_def)
  qed
qed

lemma process_ok:
  assumes ok: "app_ok a" and svs: "svs_laws (nx_insert fx)" and k: "0 \<le> ki_key ki" "ki_key ki < RNS_KEY_End"
  shows "\<exists>a'. im_processKey fx ki a = Some a' \<and> app_ok a'"
proof -
  from offer_ok [OF ok k] obtain st a1 where
    a1: "offer_key fx ki a = Some (st, a1)" "app_ok a1" "im_nav a1 = im_nav a" by blast
  from ok have live: "nav_live (im_nav a)" "nav_ok (im_nav a)" by (simp_all add: app_ok_def nav_live_def)
  have more: "app_ok (x\<lparr>im_outs := os\<rparr>) = app_ok x" for x os by (simp add: app_ok_def)
  show ?thesis
  proof (cases "st \<or> ki_action ki \<noteq> RNS_KEY_Press")
    case True
    with a1 more show ?thesis by (auto simp: im_processKey_def)
  next
    case False
    from handle_key_ok [OF live(1) svs] obtain n where
      n: "handleKeyEvent fx (ki_key ki) (ki_action ki) (im_nav a) = Some n" "nav_live n" by blast
    obtain tag where "(case currentFocus (im_nav a) of None \<Rightarrow> Some (-1)
        | Some f \<Rightarrow> map_option c_tag (heap (im_nav a1) f)) = Some tag"
      using listed_live(1) [OF live(2) focused_listed [OF live(2)]] a1(3)
      by (cases "currentFocus (im_nav a)") auto
    with False a1 n key_name_defined [OF k] set_nav_ok [OF _ n(2)] more show ?thesis
      by (simp add: im_processKey_def)
  qed
qed

lemma handler_ok:
  assumes "app_ok a" "svs_laws (nx_insert fx)" "0 \<le> k" "k < RNS_KEY_End"
  shows "\<exists>a'. keyHandler fx k action a = Some a' \<and> app_ok a'"
proof -
  obtain rep prev where r: "repeat_step (k, action) (keyRepeat a, previousKeyType a) = (rep, prev)" by fastforce
  have "app_ok (a\<lparr>keyRepeat := rep, previousKeyType := prev\<rparr>)" using assms(1) by (simp add: app_ok_def)
  from process_ok [OF this assms(2), of "\<lparr>ki_key = k, ki_action = action, ki_repeat = rep\<rparr>"] assms(3,4) r
  show ?thesis by (simp add: keyHandler_def)
qed

section \<open>Properties\<close>

text \<open>C8: Keys are safe whatever has the focus: with a consistent navigator and any text fields that
  JavaScript does not control, every sequence of key events (presses, releases, repeats) is handled
  without a fault, the navigator stays consistent and every cursor stays inside its text.\<close>

theorem key_events_never_fault:
  assumes "svs_laws (nx_insert fx)" and "nav_live (im_nav a)"
    and "\<forall>c t. im_fields a c = Some t \<longrightarrow> field_ok t"
    and "\<forall>e \<in> set es. 0 \<le> fst e \<and> fst e < RNS_KEY_End"
  shows "\<exists>b. key_run fx a es = Some b \<and> nav_live (im_nav b) \<and> (\<forall>c t. im_fields b c = Some t \<longrightarrow> field_ok t)"
proof -
  have "\<exists>b. key_run fx a es = Some b \<and> app_ok b" if "app_ok a" for a
    using that assms(4)
  proof (induction es arbitrary: a)
    case (Cons e es)
    from handler_ok [OF Cons.prems(1) assms(1), of "fst e" "snd e"] Cons.prems(2) obtain b where
      b: "keyHandler fx (fst e) (snd e) a = Some b" "app_ok b" by auto
    with Cons.IH [OF b(2)] Cons.prems(2) show ?case by (cases e) simp
  qed simp
  from this [of a] assms(2,3) show ?thesis by (simp add: app_ok_def fields_ok_def)
qed

text \<open>Three views, the second one a text field.\<close>

definition sample_app :: "text_input \<Rightarrow> app" where
  "sample_app t = app_init (the (nav_run nav_fx_ref row_state [Key RNS_KEY_Right RNS_KEY_Press])) [2 \<mapsto> t]"

theorem key_events_never_fault_witness:
  "\<exists>b. key_run nav_fx_ref (app_init (Start 0 (nav_init sample_providers)) [2 \<mapsto> open_field ''ab'' False 3])
      [(RNS_KEY_a, RNS_KEY_Press), (RNS_KEY_a, RNS_KEY_Release)] = Some b \<and>
    nav_live (im_nav b) \<and> (\<forall>c t. im_fields b c = Some t \<longrightarrow> field_ok t)"
proof (rule key_events_never_fault)
  show "nav_live (im_nav (app_init (Start 0 (nav_init sample_providers)) [2 \<mapsto> open_field ''ab'' False 3]))"
    by (simp add: app_init_def Start_live)
  have "field_ok (open_field ''ab'' False 3)" by code_simp
  then show "\<forall>c t. im_fields (app_init (Start 0 (nav_init sample_providers)) [2 \<mapsto> open_field ''ab'' False 3]) c = Some t \<longrightarrow> field_ok t"
    by (simp add: app_init_def)
qed (simp_all add: nav_fx_ref_def)

text \<open>A text field that is being edited keeps its keys: an arrow, a character or a deletion changes
  only the field; the focus does not move, and neither JavaScript's remote-control events nor the
  registered callbacks see the key.\<close>

theorem editing_field_keeps_keys:
  assumes "currentFocus (im_nav a) = Some f" and "heap (im_nav a) f \<noteq> None" and "im_fields a f = Some t"
    and "field_ok t" and "editable t" and "isInEditingMode t" and "edit_key k"
  shows "\<exists>t' rep prev. keyHandler fx k RNS_KEY_Press a =
      Some (a\<lparr>keyRepeat := rep, previousKeyType := prev, im_fields := (im_fields a)(f := Some t')\<rparr>) \<and>
    ti_view t' = limited_step (maxLength t) (edit_of k) (ti_view t)"
proof -
  obtain rep prev where r: "repeat_step (k, RNS_KEY_Press) (keyRepeat a, previousKeyType a) = (rep, prev)" by fastforce
  have ed: "editing t" using assms by (simp add: editing_def field_ok_def)
  from key_refines [OF ed assms(7), of rep] obtain t' where t': "onHandleKey k rep RNS_KEY_Press t = Some (True, t')"
    "ti_view t' = limited_step (maxLength t) (edit_of k) (ti_view t)" by blast
  have "keyHandler fx k RNS_KEY_Press a =
      Some (a\<lparr>keyRepeat := rep, previousKeyType := prev, im_fields := (im_fields a)(f := Some t')\<rparr>)"
    using assms(1-3) r t'(1) by (auto simp: keyHandler_def im_processKey_def offer_key_def set_field_current)
  with t'(2) show ?thesis by blast
qed

theorem editing_field_keeps_keys_witness:
  "\<exists>t' rep prev. keyHandler nav_fx_ref RNS_KEY_Left RNS_KEY_Press (sample_app (open_field ''ab'' False 0)) =
      Some ((sample_app (open_field ''ab'' False 0))\<lparr>keyRepeat := rep, previousKeyType := prev,
        im_fields := (im_fields (sample_app (open_field ''ab'' False 0)))(2 := Some t')\<rparr>) \<and>
    ti_view t' = limited_step (maxLength (open_field ''ab'' False 0)) (edit_of RNS_KEY_Left)
      (ti_view (open_field ''ab'' False 0))"
proof (rule editing_field_keeps_keys)
  show "currentFocus (im_nav (sample_app (open_field ''ab'' False 0))) = Some 2" by code_simp
  show "heap (im_nav (sample_app (open_field ''ab'' False 0))) 2 \<noteq> None" by code_simp
  show "im_fields (sample_app (open_field ''ab'' False 0)) 2 = Some (open_field ''ab'' False 0)"
    by (simp add: sample_app_def app_init_def)
  show "field_ok (open_field ''ab'' False 0)" "editable (open_field ''ab'' False 0)"
    "isInEditingMode (open_field ''ab'' False 0)" "edit_key RNS_KEY_Left" by code_simp+
qed

text \<open>Two quick taps count as a repeat: releasing a key is meant to forget it, but the next line
  remembers it again, so a key pressed, released and pressed once more is reported as held, from every
  state.\<close>

theorem taps_count_as_repeat:
  "fst (fold repeat_step [(k, RNS_KEY_Press), (k, RNS_KEY_Release), (k, RNS_KEY_Press)] s) = True"
  by (cases s) (simp add: Let_def split: prod.split)

text \<open>Typing a double letter quickly into a controlled field loses it together with the letter that
  follows: the second tap counts as a repeat, and the key after a repeat cuts the queue back and is
  dropped itself.\<close>

theorem double_letter_lost:
  "map_option (\<lambda>a. map_option inputQueue (im_fields a 2))
     (key_run nav_fx_ref (sample_app (open_field [] True 0))
       [(RNS_KEY_e, RNS_KEY_Press), (RNS_KEY_e, RNS_KEY_Release), (RNS_KEY_e, RNS_KEY_Press),
        (RNS_KEY_e, RNS_KEY_Release), (RNS_KEY_d, RNS_KEY_Press), (RNS_KEY_d, RNS_KEY_Release)])
   = Some (Some [RNS_KEY_e])"
  by code_simp

text \<open>An arrow key after a repeated one leaves a controlled field: the dropped key is not stopped, so
  the navigator moves the focus to the neighbour and the field stops editing.\<close>

theorem arrow_after_repeat_leaves_field:
  "let a = sample_app (open_field ''ab'' True 0);
       b = key_run nav_fx_ref a
         [(RNS_KEY_Right, RNS_KEY_Press), (RNS_KEY_Right, RNS_KEY_Press), (RNS_KEY_Right, RNS_KEY_Release),
          (RNS_KEY_Left, RNS_KEY_Press)]
   in currentFocus (im_nav a) = Some 2 \<and> map_option isInEditingMode (im_fields a 2) = Some True \<and>
      map_option (\<lambda>b. currentFocus (im_nav b)) b = Some (Some 1) \<and>
      map_option (\<lambda>b. map_option isInEditingMode (im_fields b 2)) b = Some (Some False)"
  by code_simp

end
