(* ===== verification/FollyTimer.thy ===== *)
theory FollyTimer imports SkGeom begin

text \<open>
  The timer of the runtime (\<open>sdk/FollyTimer.cpp\<close>): one callback on a thread of its own.

  The thread is folly's: it runs the tasks posted to it in order (\<open>tm_tasks\<close>), and its wheel timer has
  at most one deadline for the callback (\<open>tm_deadline\<close>), which scheduling again replaces and
  \<open>cancelAll\<close> removes. When the deadline fires, and when a task runs, are events from outside. Clock
  readings are milliseconds, as exact numbers.

  The callback is a parameter: it changes the state of its owner together with the timer.
\<close>

section \<open>State\<close>

datatype 'i task = RunTimeout | ScheduleIn scalar | RescheduleIn scalar | CancelAll | Immediate 'i

text \<open>\<open>cb_set\<close>: the timer was given a callback; \<open>tm_cb\<close>: the wheel's callback object holds it.\<close>

record 'i timer =
  targetDuration :: scalar
  tm_repeats :: bool
  cb_set :: bool
  tm_cb :: bool
  tm_deadline :: "scalar option"
  tm_tasks :: "'i task list"

definition new_timer :: "scalar \<Rightarrow> bool \<Rightarrow> bool \<Rightarrow> 'i timer" where
  "new_timer d rep given =
     \<lparr>targetDuration = d, tm_repeats = rep, cb_set = given, tm_cb = False, tm_deadline = None, tm_tasks = []\<rparr>"

definition post :: "'i task \<Rightarrow> 'i timer \<Rightarrow> 'i timer" where
  "post t tm = tm\<lparr>tm_tasks := tm_tasks tm @ [t]\<rparr>"

abbreviation isScheduled :: "'i timer \<Rightarrow> bool" where
  "isScheduled tm \<equiv> tm_deadline tm \<noteq> None"

section \<open>Operations\<close>

definition timer_start :: "'i timer \<Rightarrow> 'i timer" where
  "timer_start tm =
     (if \<not> cb_set tm \<or> isScheduled tm then tm
      else if targetDuration tm < 1 then post RunTimeout tm
      else post (ScheduleIn (targetDuration tm)) (tm\<lparr>tm_cb := True\<rparr>))"

definition Timer :: "scalar \<Rightarrow> bool \<Rightarrow> bool \<Rightarrow> bool \<Rightarrow> 'i timer" where
  "Timer d rep given autostart =
     (if autostart then timer_start (new_timer d rep given) else new_timer d rep given)"

definition timer_abort :: "'i timer \<Rightarrow> 'i timer" where
  "timer_abort tm =
     (let tm1 = tm\<lparr>tm_cb := False\<rparr> in if isScheduled tm1 then post CancelAll tm1 else tm1)"

definition timer_reschedule :: "scalar \<Rightarrow> bool \<Rightarrow> 'i timer \<Rightarrow> 'i timer" where
  "timer_reschedule d rep tm =
     (if \<not> cb_set tm then tm
      else let tm1 = tm\<lparr>tm_repeats := rep\<rparr>
           in if d < 1 then post RunTimeout (if isScheduled tm1 then timer_abort tm1 else tm1)
              else post (RescheduleIn d) (tm1\<lparr>tm_cb := True\<rparr>))"

text \<open>folly's remaining time is a number of milliseconds; the code divides it by 1000.\<close>

definition getTimeRemaining :: "scalar \<Rightarrow> 'i timer \<Rightarrow> scalar" where
  "getTimeRemaining now tm =
     (case tm_deadline tm of None \<Rightarrow> 0 | Some t \<Rightarrow> of_nat (trunc_u (max 0 (t - now)) div 1000))"

text \<open>One year after a clock reading.\<close>

lemma Min_insert_min: "finite A \<Longrightarrow> Min (insert (min x y) A) = Min (insert x (insert y A))"
  for x y :: "'a :: linorder"
  by (cases "A = {}") (simp_all add: min.assoc)

definition getFutureTime :: "scalar \<Rightarrow> scalar" where
  "getFutureTime now = now + 31536000000"

definition schedule_at :: "scalar \<Rightarrow> scalar \<Rightarrow> 'i timer \<Rightarrow> 'i timer" where
  "schedule_at now d tm = tm\<lparr>tm_deadline := Some (now + of_nat (trunc_u d))\<rparr>"

definition scheduleImmediate :: "'i \<Rightarrow> 'i timer \<Rightarrow> 'i timer" where
  "scheduleImmediate i tm = post (Immediate i) tm"

text \<open>
  A callback may fault (\<open>None\<close>). It runs, and a repeating timer is scheduled again; \<open>elapsed\<close> is how
  long the callback took.
\<close>

type_synonym ('s, 'i) timer_cb = "'s \<times> 'i timer \<Rightarrow> ('s \<times> 'i timer) option"

definition scheduleTimerTimeout ::
  "scalar \<Rightarrow> ('s, 'i) timer_cb \<Rightarrow> 's \<times> 'i timer \<Rightarrow> ('s \<times> 'i timer) option" where
  "scheduleTimerTimeout elapsed cb st =
     (case (if cb_set (snd st) then cb st else Some st) of
        None \<Rightarrow> None
      | Some (s, tm) \<Rightarrow>
          Some (if tm_repeats tm
                then let d = max (targetDuration tm - max elapsed 0) 0
                     in (s, post (if d < 1 then RunTimeout else ScheduleIn d) tm)
                else (s, tm)))"

section \<open>The timer thread\<close>

text \<open>
  The first task of the queue runs; the first component of the result is the immediate callback to
  call, if the task was one.
\<close>

fun run_task ::
  "scalar \<Rightarrow> scalar \<Rightarrow> ('s, 'i) timer_cb \<Rightarrow> 's \<times> 'i timer \<Rightarrow> ('i option \<times> 's \<times> 'i timer) option" where
  "run_task now elapsed cb (s, tm) =
     (case tm_tasks tm of
        [] \<Rightarrow> Some (None, s, tm)
      | t # ts \<Rightarrow>
          let tm1 = tm\<lparr>tm_tasks := ts\<rparr>
          in (case t of
                RunTimeout \<Rightarrow> map_option (Pair None) (scheduleTimerTimeout elapsed cb (s, tm1))
              | ScheduleIn d \<Rightarrow> Some (None, s, if tm_cb tm1 then schedule_at now d tm1 else tm1)
              | RescheduleIn d \<Rightarrow> Some (None, s,
                  if tm_cb tm1 \<and> (\<not> isScheduled tm1 \<or> d < getTimeRemaining now tm1)
                  then (schedule_at now d tm1)\<lparr>targetDuration := d\<rparr> else tm1)
              | CancelAll \<Rightarrow> Some (None, s, tm1\<lparr>tm_deadline := None\<rparr>)
              | Immediate i \<Rightarrow> Some (Some i, s, tm1)))"

text \<open>The deadline passes.\<close>

definition wheel_fires ::
  "scalar \<Rightarrow> scalar \<Rightarrow> ('s, 'i) timer_cb \<Rightarrow> 's \<times> 'i timer \<Rightarrow> ('s \<times> 'i timer) option" where
  "wheel_fires now elapsed cb st =
     (case tm_deadline (snd st) of
        None \<Rightarrow> Some st
      | Some t \<Rightarrow>
          if now < t then Some st
          else let st1 = (fst st, (snd st)\<lparr>tm_deadline := None\<rparr>)
               in if tm_cb (snd st1) then scheduleTimerTimeout elapsed cb st1 else Some st1)"

text \<open>A task, or the deadline, of an owner's timer, when there is one.\<close>

definition timer_thread_task ::
  "scalar \<Rightarrow> scalar \<Rightarrow> ('s, 'i) timer_cb \<Rightarrow> 's \<times> 'i timer option \<Rightarrow> ('s \<times> 'i timer option) option" where
  "timer_thread_task now elapsed cb st =
     (case snd st of
        None \<Rightarrow> Some st
      | Some tm \<Rightarrow> map_option (map_prod id Some \<circ> snd) (run_task now elapsed cb (fst st, tm)))"

definition timer_thread_wheel ::
  "scalar \<Rightarrow> scalar \<Rightarrow> ('s, 'i) timer_cb \<Rightarrow> 's \<times> 'i timer option \<Rightarrow> ('s \<times> 'i timer option) option" where
  "timer_thread_wheel now elapsed cb st =
     (case snd st of
        None \<Rightarrow> Some st
      | Some tm \<Rightarrow> map_option (map_prod id Some) (wheel_fires now elapsed cb (fst st, tm)))"

section \<open>A wake-up that is on its way\<close>

text \<open>Whether the deadline will be set once the tasks posted have run, the callback being set.\<close>

fun deadline_after :: "bool \<Rightarrow> 'i task list \<Rightarrow> bool" where
  "deadline_after b [] = b"
| "deadline_after b (t # ts) = deadline_after
     (case t of CancelAll \<Rightarrow> False | ScheduleIn d \<Rightarrow> True | RescheduleIn d \<Rightarrow> True | _ \<Rightarrow> b) ts"

text \<open>The callback will run: a task to run it is posted, or the deadline is or will be set.\<close>

definition wakes :: "'i timer \<Rightarrow> bool" where
  "wakes tm \<longleftrightarrow> cb_set tm \<and>
     (RunTimeout \<in> set (tm_tasks tm) \<or> tm_cb tm \<and> deadline_after (isScheduled tm) (tm_tasks tm))"

lemma deadline_after_append: "deadline_after b (ts @ us) = deadline_after (deadline_after b ts) us"
  by (induction ts arbitrary: b) simp_all

lemma cb_set_simps [simp]:
  "cb_set (post t tm) = cb_set tm" "cb_set (timer_abort tm) = cb_set tm"
  "cb_set (timer_reschedule d rep tm) = cb_set tm" "cb_set (schedule_at now d tm) = cb_set tm"
  "cb_set (scheduleImmediate i tm) = cb_set tm" "cb_set (new_timer d rep given) = given"
  by (simp_all add: post_def timer_abort_def timer_reschedule_def schedule_at_def scheduleImmediate_def
      new_timer_def Let_def)

lemma cb_set_Timer [simp]: "cb_set (Timer d rep given auto) = given"
  by (simp add: Timer_def timer_start_def new_timer_def post_def)

lemma reschedule_wakes: "cb_set tm \<Longrightarrow> wakes (timer_reschedule d rep tm)"
  by (simp add: timer_reschedule_def wakes_def Let_def post_def timer_abort_def deadline_after_append)

lemma new_timer_wakes: "wakes (Timer d rep True True)"
  by (simp add: Timer_def timer_start_def new_timer_def wakes_def post_def)

lemma post_wakes:
  "wakes tm \<Longrightarrow> wakes (scheduleImmediate i tm)"
  "wakes tm \<Longrightarrow> wakes (post RunTimeout tm)"
  "wakes tm \<Longrightarrow> wakes (post (ScheduleIn d) tm)"
  by (auto simp: scheduleImmediate_def wakes_def post_def deadline_after_append)

text \<open>
  A client of the timer: its callback keeps the timer's callback, and asks for another wake-up
  whenever it leaves work to do. Then the timer is never asleep while there is work.
\<close>

locale timer_client =
  fixes busy :: "'s \<Rightarrow> bool" and cb :: "('s, 'i) timer_cb"
  assumes cb_keeps: "cb (s, tm) = Some (s', tm') \<Longrightarrow> cb_set tm' = cb_set tm"
    and cb_wakes: "cb (s, tm) = Some (s', tm') \<Longrightarrow> cb_set tm \<Longrightarrow> busy s' \<Longrightarrow> wakes tm'"
begin

definition awake :: "'s \<times> 'i timer \<Rightarrow> bool" where
  "awake st \<longleftrightarrow> cb_set (snd st) \<and> (busy (fst st) \<longrightarrow> wakes (snd st))"

lemma timeout_awake:
  assumes "scheduleTimerTimeout elapsed cb (s, tm) = Some st" and g: "cb_set tm"
  shows "awake st"
proof -
  from assms obtain s1 tm1 where c: "cb (s, tm) = Some (s1, tm1)"
    by (auto simp: scheduleTimerTimeout_def split: option.splits)
  with cb_keeps [OF c] cb_wakes [OF c] g assms(1) show ?thesis
    by (auto simp: awake_def scheduleTimerTimeout_def Let_def post_wakes split: if_splits)
qed

lemma task_awake:
  assumes r: "run_task now elapsed cb (s, tm) = Some (i, st)" and w: "awake (s, tm)"
  shows "awake st"
proof (cases "tm_tasks tm")
  case Nil
  with r w show ?thesis by simp
next
  case (Cons t ts)
  show ?thesis
  proof (cases "t = RunTimeout")
    case True
    with r Cons have "scheduleTimerTimeout elapsed cb (s, tm\<lparr>tm_tasks := ts\<rparr>) = Some st" by auto
    then show ?thesis by (rule timeout_awake) (use w in \<open>simp add: awake_def\<close>)
  next
    case False
    with Cons r w show ?thesis
      by (cases t) (auto simp: awake_def wakes_def Let_def schedule_at_def split: if_splits)
  qed
qed

lemma wheel_awake:
  assumes r: "wheel_fires now elapsed cb (s, tm) = Some st" and w: "awake (s, tm)"
  shows "awake st"
proof (cases "tm_cb tm \<and> (\<exists>t. tm_deadline tm = Some t \<and> \<not> now < t)")
  case True
  with r have "scheduleTimerTimeout elapsed cb (s, tm\<lparr>tm_deadline := None\<rparr>) = Some st"
    by (auto simp: wheel_fires_def)
  then show ?thesis by (rule timeout_awake) (use w in \<open>simp add: awake_def\<close>)
next
  case False
  with r w show ?thesis
    by (cases "tm_deadline tm") (auto simp: wheel_fires_def awake_def wakes_def Let_def split: if_splits)
qed

text \<open>With a timer that may not exist yet: without one there is no work.\<close>

definition attended :: "'s \<times> 'i timer option \<Rightarrow> bool" where
  "attended st \<longleftrightarrow> (case snd st of None \<Rightarrow> \<not> busy (fst st) | Some tm \<Rightarrow> awake (fst st, tm))"

lemma attended_task: "attended st \<Longrightarrow> timer_thread_task now elapsed cb st = Some st' \<Longrightarrow> attended st'"
  by (cases st) (auto simp: attended_def timer_thread_task_def simp del: run_task.simps dest: task_awake split: option.splits)

lemma attended_wheel: "attended st \<Longrightarrow> timer_thread_wheel now elapsed cb st = Some st' \<Longrightarrow> attended st'"
  by (cases st) (auto simp: attended_def timer_thread_wheel_def dest: wheel_awake split: option.splits)

end

section \<open>The wake-up comes\<close>

text \<open>
  When nothing else is posted, running the tasks one after the other either runs the callback or
  leaves the deadline set with the callback in place, at most the scheduled time ahead.
\<close>

fun tasks_run_cb :: "scalar \<Rightarrow> 'i timer \<Rightarrow> 'i task list \<Rightarrow> bool \<times> 'i timer" where
  "tasks_run_cb now tm [] = (False, tm)"
| "tasks_run_cb now tm (RunTimeout # ts) = (True, tm)"
| "tasks_run_cb now tm (t # ts) =
     tasks_run_cb now (snd (snd (the (run_task now 0 Some ((), tm\<lparr>tm_tasks := [t]\<rparr>))))) ts"

lemma wake_up_comes:
  assumes "wakes tm" and "tasks_run_cb now tm (tm_tasks tm) = (woken, tm')" and "\<not> woken"
  shows "tm_cb tm' \<and> isScheduled tm'"
proof -
  have "RunTimeout \<notin> set ts" "tm_cb tm' = tm_cb tm" "isScheduled tm' = deadline_after (isScheduled tm) ts"
    if "tasks_run_cb now tm ts = (False, tm')" "tm_cb tm" for ts and tm :: "'a timer"
    using that
    by (induction now tm ts rule: tasks_run_cb.induct)
      (auto simp: schedule_at_def Let_def split: if_splits)
  moreover have "RunTimeout \<notin> set ts" if "tasks_run_cb now tm ts = (False, tm')" for ts and tm :: "'a timer"
    using that by (induction now tm ts rule: tasks_run_cb.induct) auto
  ultimately show ?thesis using assms by (fastforce simp: wakes_def)
qed

end
