(* ===== verification/TimingModule.thy ===== *)
theory TimingModule imports FollyTimer "HOL-Library.Multiset" begin

text \<open>
  The timers of the application's script (\<open>core_modules/RSkTimingModule.cpp\<close> and \<open>.h\<close>): the map
  \<open>jsTimers_\<close> of the pending ones, the one timer thread that serves them all (\<open>timer_\<close>), and the
  calls made into the script.

  A \<open>js_timer\<close> is an object on the heap; \<open>jt_addr\<close> is its address, which an erased entry frees, so
  that a pointer the timer thread kept to it is dangling (\<open>None\<close>). The iteration order of
  \<open>better::map\<close> is not specified: it is the parameter \<open>ord\<close>, a permutation (\<open>permutes_list\<close>). Clock
  readings are parameters, one for each call of \<open>system_clock::now()\<close>.
\<close>

section \<open>State\<close>

record js_timer =
  jt_target :: scalar
  jt_callbackId :: scalar
  jt_repeats :: bool
  jt_duration :: scalar
  jt_addr :: nat

datatype js_call = CallTimers "scalar list" | CallIdleCallbacks

record timing =
  sendIdleEvents :: bool
  bridgeInstance :: bool
  jsTimers :: "js_timer list"
  tg_fresh :: nat
  js_calls :: "js_call list"

definition new_timing :: "bool \<Rightarrow> timing" where
  "new_timing bridge =
     \<lparr>sendIdleEvents = False, bridgeInstance = bridge, jsTimers = [], tg_fresh = 0, js_calls = []\<rparr>"

type_synonym order = "js_timer list \<Rightarrow> js_timer list"

definition permutes_list :: "order \<Rightarrow> bool" where
  "permutes_list ord \<longleftrightarrow> (\<forall>ts. mset (ord ts) = mset ts)"

definition js_call_out :: "js_call \<Rightarrow> timing \<Rightarrow> timing" where
  "js_call_out c m = (if bridgeInstance m then m\<lparr>js_calls := js_calls m @ [c]\<rparr> else m)"

definition put_timer :: "js_timer \<Rightarrow> js_timer list \<Rightarrow> js_timer list" where
  "put_timer t ts = [u \<leftarrow> ts. jt_callbackId u \<noteq> jt_callbackId t] @ [t]"

definition erase_timer :: "scalar \<Rightarrow> js_timer list \<Rightarrow> js_timer list" where
  "erase_timer i ts = [u \<leftarrow> ts. jt_callbackId u \<noteq> i]"

text \<open>\<open>milliseconds(static_cast<unsigned long long>(d))\<close>\<close>

definition millis :: "scalar \<Rightarrow> scalar" where
  "millis d = of_nat (trunc_u d)"

definition js_reschedule :: "scalar \<Rightarrow> js_timer \<Rightarrow> js_timer" where
  "js_reschedule now t = t\<lparr>jt_target := now + millis (jt_duration t)\<rparr>"

definition deref :: "timing \<Rightarrow> nat \<Rightarrow> js_timer option" where
  "deref m a = find (\<lambda>t. jt_addr t = a) (jsTimers m)"

section \<open>The timer fires\<close>

text \<open>
  Under the lock: the addresses of the expired timers, inserted at \<open>lower_bound\<close> of their target,
  and the earliest target of the others.
\<close>

fun insert_sorted :: "js_timer \<Rightarrow> js_timer list \<Rightarrow> js_timer list" where
  "insert_sorted x [] = [x]"
| "insert_sorted x (y # ys) = (if jt_target y < jt_target x then y # insert_sorted x ys else x # y # ys)"

definition collect_step :: "scalar \<Rightarrow> js_timer \<Rightarrow> js_timer list \<times> scalar \<Rightarrow> js_timer list \<times> scalar" where
  "collect_step now t acc =
     (if jt_target t \<le> now then (insert_sorted t (fst acc), snd acc)
      else (fst acc, if jt_target t < snd acc then jt_target t else snd acc))"

definition fire_collect :: "order \<Rightarrow> scalar \<Rightarrow> scalar \<Rightarrow> timing \<Rightarrow> nat list \<times> scalar" where
  "fire_collect ord now far m =
     (let (called, nxt) = fold (collect_step now) (ord (jsTimers m)) ([], far)
      in (map jt_addr called, nxt))"

text \<open>The expired callbacks are called, through the pointers collected.\<close>

definition fire_call :: "nat list \<Rightarrow> timing \<Rightarrow> timing option" where
  "fire_call as m =
     (if as \<noteq> [] \<and> bridgeInstance m
      then map_option (\<lambda>ts. js_call_out (CallTimers (map jt_callbackId ts)) m) (those (map (deref m) as))
      else Some m)"

text \<open>Repeating timers get a new target, the others are erased.\<close>

fun fire_update :: "scalar \<Rightarrow> nat list \<Rightarrow> timing \<times> scalar \<Rightarrow> (timing \<times> scalar) option" where
  "fire_update now [] st = Some st"
| "fire_update now (a # as) (m, nxt) =
     (case deref m a of
        None \<Rightarrow> None
      | Some t \<Rightarrow>
          if jt_repeats t
          then let t' = js_reschedule now t
               in fire_update now as
                    (m\<lparr>jsTimers := map (\<lambda>u. if jt_addr u = a then t' else u) (jsTimers m)\<rparr>,
                     if jt_target t' < nxt then jt_target t' else nxt)
          else fire_update now as (m\<lparr>jsTimers := erase_timer (jt_callbackId t) (jsTimers m)\<rparr>, nxt))"

definition fire_finish :: "scalar \<Rightarrow> scalar \<Rightarrow> timing \<times> scalar timer \<Rightarrow> timing \<times> scalar timer" where
  "fire_finish now nxt st =
     (let m = (if sendIdleEvents (fst st) then js_call_out CallIdleCallbacks (fst st) else fst st)
      in (m, if jsTimers m \<noteq> [] then timer_reschedule (max (nxt - now) 0) False (snd st) else snd st))"

text \<open>The whole handler, when nothing runs in between; \<open>r = (n1, n2, n3)\<close> are its clock readings.\<close>

type_synonym readings = "scalar \<times> scalar \<times> scalar"

fun timerDidFire :: "order \<Rightarrow> readings \<Rightarrow> (timing, scalar) timer_cb" where
  "timerDidFire ord (n1, n2, n3) (m, tm) =
     (let (as, nxt) = fire_collect ord n1 (getFutureTime n2) m
      in case fire_call as m of
           None \<Rightarrow> None
         | Some m1 \<Rightarrow> map_option (\<lambda>(m2, nxt2). fire_finish n3 nxt2 (m2, tm)) (fire_update n1 as (m1, nxt)))"

definition immediatelyCallTimer :: "scalar \<Rightarrow> timing \<Rightarrow> timing" where
  "immediatelyCallTimer i m = js_call_out (CallTimers [i]) m"

section \<open>The methods called from the script\<close>

text \<open>
  \<open>createTimerForNextFrame\<close> asks the timer for a wake-up and then, under the lock, adds the entry:
  two steps, between which the timer thread may run.
\<close>

definition target_of :: "scalar \<Rightarrow> scalar \<Rightarrow> scalar \<Rightarrow> scalar" where
  "target_of now dur sched = max (dur - max (now - sched) 0) 0"

definition next_frame_schedule :: "scalar \<Rightarrow> scalar timer \<Rightarrow> scalar timer" where
  "next_frame_schedule target tm = timer_reschedule target False tm"

definition next_frame_insert :: "scalar \<Rightarrow> scalar \<Rightarrow> scalar \<Rightarrow> scalar \<Rightarrow> bool \<Rightarrow> timing \<Rightarrow> timing" where
  "next_frame_insert now target i dur rep m =
     m\<lparr>jsTimers := put_timer \<lparr>jt_target = now + millis target, jt_callbackId = i, jt_repeats = rep,
          jt_duration = dur, jt_addr = tg_fresh m\<rparr> (jsTimers m),
       tg_fresh := Suc (tg_fresh m)\<rparr>"

definition createTimerForNextFrame ::
  "scalar \<Rightarrow> scalar \<Rightarrow> scalar \<Rightarrow> scalar \<Rightarrow> scalar \<Rightarrow> bool \<Rightarrow> timing \<times> scalar timer \<Rightarrow> timing \<times> scalar timer" where
  "createTimerForNextFrame n1 n2 i dur sched rep st =
     (let target = target_of n1 dur sched
      in (next_frame_insert n2 target i dur rep (fst st), next_frame_schedule target (snd st)))"

definition createTimer ::
  "scalar \<Rightarrow> scalar \<Rightarrow> scalar \<Rightarrow> scalar \<Rightarrow> scalar \<Rightarrow> bool \<Rightarrow> timing \<times> scalar timer option
     \<Rightarrow> timing \<times> scalar timer option" where
  "createTimer n1 n2 i dur jsSched rep st =
     (let sched = millis jsSched;
          tm = (case snd st of None \<Rightarrow> Timer dur False True False | Some tm \<Rightarrow> tm)
      in if dur = 0 \<and> \<not> rep then (fst st, Some (scheduleImmediate i tm))
         else map_prod id Some (createTimerForNextFrame n1 n2 i dur sched rep (fst st, tm)))"

text \<open>
  The timer is deleted with the last entry; when there is none, \<open>timer_->abort()\<close> is a call on a
  null pointer (\<open>None\<close>). What the aborted timer does is gone with it.
\<close>

definition deleteTimer :: "scalar \<Rightarrow> timing \<times> scalar timer option \<Rightarrow> (timing \<times> scalar timer option) option" where
  "deleteTimer i st =
     (let m = (fst st)\<lparr>jsTimers := erase_timer i (jsTimers (fst st))\<rparr>
      in if jsTimers m = [] then (case snd st of None \<Rightarrow> None | Some tm \<Rightarrow> Some (m, None))
         else Some (m, snd st))"

definition setSendIdleEvents :: "bool \<Rightarrow> timing \<Rightarrow> timing" where
  "setSendIdleEvents b m = m\<lparr>sendIdleEvents := b\<rparr>"

section \<open>The module and its timer thread\<close>

text \<open>Clock readings come with the event; \<open>elapsed\<close> is how long the callback took.\<close>

datatype timing_event =
  CreateTimer scalar scalar scalar scalar scalar bool
| DeleteTimer scalar
| SetIdle bool
| RunTask scalar scalar readings
| WheelFires scalar scalar readings

type_synonym timing_state = "timing \<times> scalar timer option"

fun timing_step :: "order \<Rightarrow> timing_state \<Rightarrow> timing_event \<Rightarrow> timing_state option" where
  "timing_step ord st (CreateTimer n1 n2 i dur sched rep) = Some (createTimer n1 n2 i dur sched rep st)"
| "timing_step ord st (DeleteTimer i) = deleteTimer i st"
| "timing_step ord (m, tmo) (SetIdle b) = Some (setSendIdleEvents b m, tmo)"
| "timing_step ord (m, tmo) (RunTask now el r) =
     (case tmo of
        None \<Rightarrow> Some (m, None)
      | Some tm \<Rightarrow> map_option (\<lambda>(i, m', tm'). (case i of None \<Rightarrow> m' | Some c \<Rightarrow> immediatelyCallTimer c m', Some tm'))
          (run_task now el (timerDidFire ord r) (m, tm)))"
| "timing_step ord (m, tmo) (WheelFires now el r) =
     (case tmo of
        None \<Rightarrow> Some (m, None)
      | Some tm \<Rightarrow> map_option (map_prod id Some) (wheel_fires now el (timerDidFire ord r) (m, tm)))"

fun timing_run :: "order \<Rightarrow> timing_state \<Rightarrow> timing_event list \<Rightarrow> timing_state option" where
  "timing_run ord st [] = Some st"
| "timing_run ord st (e # es) = (case timing_step ord st e of None \<Rightarrow> None | Some st' \<Rightarrow> timing_run ord st' es)"


section \<open>What firing does\<close>

definition timers_ok :: "timing \<Rightarrow> bool" where
  "timers_ok m \<longleftrightarrow> distinct (map jt_addr (jsTimers m)) \<and> distinct (map jt_callbackId (jsTimers m)) \<and>
     (\<forall>t \<in> set (jsTimers m). jt_addr t < tg_fresh m)"

lemma insert_sorted_insort: "insert_sorted x ys = insort_key jt_target x ys"
  by (induction ys) auto

lemma fold_insort: "fold (insort_key f) xs ys = foldr (insort_key f) (rev xs) ys"
  by (simp add: foldr_conv_fold)

lemma js_reschedule_simps [simp]:
  "jt_addr (js_reschedule n t) = jt_addr t" "jt_callbackId (js_reschedule n t) = jt_callbackId t"
  "jt_target (js_reschedule n t) = n + millis (jt_duration t)" "jt_repeats (js_reschedule n t) = jt_repeats t" "jt_duration (js_reschedule n t) = jt_duration t"
  by (simp_all add: js_reschedule_def)

lemma Min_merge: "finite A \<Longrightarrow> finite B \<Longrightarrow> Min (insert (Min (insert x A)) B) = Min (insert x (A \<union> B))"
  for x :: "'a :: linorder"
  by (cases "A = {}"; cases "B = {}") (simp_all add: Min.union min.assoc)

lemma collect_fold:
  "fold (collect_step n) ts (ys, far) =
     (foldr (insort_key jt_target) (rev [t \<leftarrow> ts. jt_target t \<le> n]) ys,
      Min (insert far (jt_target ` {t \<in> set ts. \<not> jt_target t \<le> n})))"
proof (induction ts arbitrary: ys far)
  case (Cons t ts)
  have s: "collect_step n t (ys, far) = (if jt_target t \<le> n then (insort_key jt_target t ys, far)
      else (ys, min far (jt_target t)))"
    by (simp add: collect_step_def insert_sorted_insort)
  show ?case
  proof (cases "jt_target t \<le> n")
    case True
    then have "{u \<in> set (t # ts). \<not> jt_target u \<le> n} = {u \<in> set ts. \<not> jt_target u \<le> n}" by auto
    with True s show ?thesis by (simp add: Cons.IH del: not_le)
  next
    case False
    then have e: "{u \<in> set (t # ts). \<not> jt_target u \<le> n} = insert t {u \<in> set ts. \<not> jt_target u \<le> n}" by auto
    show ?thesis unfolding e using False s by (simp add: Cons.IH Min_insert_min del: not_le Min_insert)
  qed
qed simp

lemma collect_result:
  "fire_collect ord n far m =
     (map jt_addr (sort_key jt_target (rev [t \<leftarrow> ord (jsTimers m). jt_target t \<le> n])),
      Min (insert far (jt_target ` {t \<in> set (ord (jsTimers m)). \<not> jt_target t \<le> n})))"
  by (simp add: fire_collect_def collect_fold sort_key_def)

lemma set_ord: "permutes_list ord \<Longrightarrow> set (ord ts) = set ts"
  unfolding permutes_list_def by (metis set_mset_mset)

lemma deref_in:
  assumes "timers_ok m" and "t \<in> set (jsTimers m)"
  shows "deref m (jt_addr t) = Some t"
proof -
  have "find (\<lambda>u. jt_addr u = jt_addr t) us = Some t" if "distinct (map jt_addr us)" "t \<in> set us" for us
    using that by (induction us) (auto simp: rev_image_eqI)
  with assms show ?thesis by (simp add: deref_def timers_ok_def)
qed

lemma deref_none: "deref m a = None \<longleftrightarrow> a \<notin> jt_addr ` set (jsTimers m)"
  by (auto simp: deref_def find_None_iff)

lemma deref_map:
  assumes "timers_ok m" and "set ts \<subseteq> set (jsTimers m)"
  shows "those (map (deref m) (map jt_addr ts)) = Some ts"
  using assms(2) by (induction ts) (auto simp: deref_in [OF assms(1)])

lemma call_result:
  assumes "timers_ok m" and "set ts \<subseteq> set (jsTimers m)"
  shows "fire_call (map jt_addr ts) m =
    Some (if ts = [] then m else js_call_out (CallTimers (map jt_callbackId ts)) m)"
  using deref_map [OF assms] by (simp add: fire_call_def js_call_out_def)

definition updated :: "scalar \<Rightarrow> nat set \<Rightarrow> js_timer list \<Rightarrow> js_timer list" where
  "updated n A ts = map (\<lambda>t. if jt_addr t \<in> A then js_reschedule n t else t) [t \<leftarrow> ts. jt_addr t \<in> A \<longrightarrow> jt_repeats t]"

lemma updated_ok: "timers_ok m \<Longrightarrow> timers_ok (m\<lparr>jsTimers := updated n A (jsTimers m)\<rparr>)"
  by (auto simp: timers_ok_def updated_def comp_def if_distrib distinct_map inj_on_def cong: if_cong)

lemma updated_insert: "updated n A (updated n {a} ts) = updated n (insert a A) ts" if "a \<notin> A"
  using that by (induction ts) (auto simp: updated_def)

lemma update_one:
  assumes ok: "timers_ok m" and t: "t \<in> set (jsTimers m)"
  shows "updated n {jt_addr t} (jsTimers m) =
    (if jt_repeats t then map (\<lambda>u. if jt_addr u = jt_addr t then js_reschedule n t else u) (jsTimers m)
     else erase_timer (jt_callbackId t) (jsTimers m))"
proof -
  have a: "jt_addr u = jt_addr t \<longleftrightarrow> u = t" "jt_callbackId u = jt_callbackId t \<longleftrightarrow> u = t"
    if "u \<in> set (jsTimers m)" for u
    using ok t that by (auto simp: timers_ok_def distinct_map inj_on_def)
  show ?thesis
    unfolding updated_def erase_timer_def
    by (auto simp: a intro!: map_idI filter_cong map_cong filter_True cong: filter_cong)
qed

lemma update_result:
  assumes "timers_ok m" and "distinct as" and "set as \<subseteq> jt_addr ` set (jsTimers m)"
  shows "fire_update n as (m, nxt) =
    Some (m\<lparr>jsTimers := updated n (set as) (jsTimers m)\<rparr>,
          Min (insert nxt ((\<lambda>t. n + millis (jt_duration t)) ` {t \<in> set (jsTimers m). jt_addr t \<in> set as \<and> jt_repeats t})))"
  using assms
proof (induction as arbitrary: m nxt)
  case Nil
  then show ?case by (simp add: updated_def)
next
  case (Cons a as)
  from Cons.prems obtain t where t: "t \<in> set (jsTimers m)" "a = jt_addr t" by auto
  let ?m = "m\<lparr>jsTimers := updated n {a} (jsTimers m)\<rparr>"
  let ?f = "\<lambda>t. n + millis (jt_duration t)"
  have uniq: "jt_addr u = a \<longleftrightarrow> u = t" if "u \<in> set (jsTimers m)" for u
    using Cons.prems(1) t that by (auto simp: timers_ok_def distinct_map inj_on_def)
  have sub: "set as \<subseteq> jt_addr ` set (jsTimers ?m)"
    using Cons.prems by (fastforce simp: updated_def)
  have step: "fire_update n (a # as) (m, nxt) =
      fire_update n as (?m, if jt_repeats t then min nxt (?f t) else nxt)"
    using t deref_in [OF Cons.prems(1) t(1)] update_one [OF Cons.prems(1) t(1), of n]
    by (auto simp: min_def Let_def)
  have img: "?f ` {u \<in> set (jsTimers ?m). jt_addr u \<in> set as \<and> jt_repeats u} =
      ?f ` {u \<in> set (jsTimers m). jt_addr u \<in> set as \<and> jt_repeats u}"
    using Cons.prems(2) by (auto simp: updated_def image_iff split: if_splits)
  have all: "{u \<in> set (jsTimers m). jt_addr u \<in> set (a # as) \<and> jt_repeats u} =
      (if jt_repeats t then {t} else {}) \<union> {u \<in> set (jsTimers m). jt_addr u \<in> set as \<and> jt_repeats u}"
    using t uniq by auto
  have "fire_update n as (?m, if jt_repeats t then min nxt (?f t) else nxt) =
    Some (?m\<lparr>jsTimers := updated n (set as) (jsTimers ?m)\<rparr>,
      Min (insert (if jt_repeats t then min nxt (?f t) else nxt)
        (?f ` {u \<in> set (jsTimers ?m). jt_addr u \<in> set as \<and> jt_repeats u})))"
    by (rule Cons.IH [OF updated_ok [OF Cons.prems(1)] _ sub]) (use Cons.prems(2) in simp)
  with step img all updated_insert [of a "set as" n "jsTimers m"] Cons.prems(2) show ?case
    by (simp add: Min_insert_min del: fire_update.simps Min_insert)
qed


definition expired :: "scalar \<Rightarrow> js_timer \<Rightarrow> bool" where
  "expired n t \<longleftrightarrow> jt_target t \<le> n"

definition to_call :: "order \<Rightarrow> scalar \<Rightarrow> timing \<Rightarrow> js_timer list" where
  "to_call ord n m = sort_key jt_target (rev [t \<leftarrow> ord (jsTimers m). expired n t])"

lemma set_to_call: "permutes_list ord \<Longrightarrow> set (to_call ord n m) = {t \<in> set (jsTimers m). expired n t}"
  by (auto simp: to_call_def set_ord)

lemma mset_to_call: "permutes_list ord \<Longrightarrow> mset (to_call ord n m) = filter_mset (expired n) (mset (jsTimers m))"
  by (simp add: to_call_def permutes_list_def)

definition after_fire :: "scalar \<Rightarrow> js_timer list \<Rightarrow> js_timer list" where
  "after_fire n ts = map (\<lambda>t. if expired n t then js_reschedule n t else t) [t \<leftarrow> ts. expired n t \<longrightarrow> jt_repeats t]"

definition next_target :: "scalar \<Rightarrow> js_timer list \<Rightarrow> scalar" where
  "next_target far ts = Min (insert far (jt_target ` set ts))"

lemma after_fire_targets:
  "jt_target ` set (after_fire n ts) =
     jt_target ` {t \<in> set ts. \<not> expired n t} \<union> (\<lambda>t. n + millis (jt_duration t)) ` {t \<in> set ts. expired n t \<and> jt_repeats t}"
proof -
  have "jt_target ` set (after_fire n ts) =
     jt_target ` set [t \<leftarrow> ts. \<not> expired n t] \<union> (\<lambda>t. n + millis (jt_duration t)) ` set [t \<leftarrow> ts. expired n t \<and> jt_repeats t]"
    by (induction ts) (auto simp: after_fire_def simp del: set_filter)
  then show ?thesis by simp
qed

lemma updated_after_fire:
  assumes "timers_ok m" and "permutes_list ord"
  shows "updated n (jt_addr ` set (to_call ord n m)) (jsTimers m) = after_fire n (jsTimers m)"
proof -
  have "jt_addr t \<in> jt_addr ` set (to_call ord n m) \<longleftrightarrow> expired n t" if "t \<in> set (jsTimers m)" for t
    using assms that by (auto simp: set_to_call timers_ok_def distinct_map inj_on_def)
  then show ?thesis
    unfolding updated_def after_fire_def by (auto intro!: map_cong filter_cong)
qed

lemma distinct_to_call:
  assumes "timers_ok m" and "permutes_list ord"
  shows "distinct (map jt_addr (to_call ord n m))"
proof -
  have "mset (map jt_addr (ord (jsTimers m))) = mset (map jt_addr (jsTimers m))"
    using assms(2) by (simp add: permutes_list_def)
  with assms(1) have "distinct (map jt_addr (ord (jsTimers m)))"
    unfolding timers_ok_def by (metis mset_eq_imp_distinct_iff)
  then show ?thesis
    by (auto simp: to_call_def distinct_map intro: inj_on_subset)
qed

lemma fire_result:
  assumes ok: "timers_ok m" and p: "permutes_list ord"
  shows "timerDidFire ord (n1, n2, n3) (m, tm) =
    (let called = to_call ord n1 m; ts = after_fire n1 (jsTimers m);
         m1 = (if called = [] then m else js_call_out (CallTimers (map jt_callbackId called)) m)\<lparr>jsTimers := ts\<rparr>;
         m2 = (if sendIdleEvents m then js_call_out CallIdleCallbacks m1 else m1)
     in Some (m2, if ts = [] then tm
                  else timer_reschedule (max (next_target (getFutureTime n2) ts - n3) 0) False tm))"
proof -
  let ?called = "to_call ord n1 m" and ?far = "getFutureTime n2"
  let ?m1 = "if ?called = [] then m else js_call_out (CallTimers (map jt_callbackId ?called)) m"
  have col: "fire_collect ord n1 ?far m =
      (map jt_addr ?called, Min (insert ?far (jt_target ` {t \<in> set (jsTimers m). \<not> expired n1 t})))"
    by (simp only: collect_result to_call_def expired_def set_ord [OF p])
  have sub: "set ?called \<subseteq> set (jsTimers m)" by (auto simp: set_to_call [OF p])
  have call: "fire_call (map jt_addr ?called) m = Some ?m1" by (rule call_result [OF ok sub])
  have m1: "jsTimers ?m1 = jsTimers m" "timers_ok ?m1" "sendIdleEvents ?m1 = sendIdleEvents m"
    using ok by (auto simp: js_call_out_def timers_ok_def)
  have A: "jt_addr t \<in> set (map jt_addr ?called) \<longleftrightarrow> expired n1 t" if "t \<in> set (jsTimers m)" for t
    using ok that by (auto simp: set_to_call [OF p] timers_ok_def distinct_map inj_on_def)
  have "fire_update n1 (map jt_addr ?called) (?m1, nxt) =
    Some (?m1\<lparr>jsTimers := updated n1 (set (map jt_addr ?called)) (jsTimers ?m1)\<rparr>,
      Min (insert nxt ((\<lambda>t. n1 + millis (jt_duration t)) `
        {t \<in> set (jsTimers ?m1). jt_addr t \<in> set (map jt_addr ?called) \<and> jt_repeats t})))" for nxt
    by (rule update_result) (use m1 sub distinct_to_call [OF ok p] in auto)
  moreover have "{t \<in> set (jsTimers m). jt_addr t \<in> set (map jt_addr ?called) \<and> jt_repeats t} =
      {t \<in> set (jsTimers m). expired n1 t \<and> jt_repeats t}" using A by blast
  ultimately have upd: "fire_update n1 (map jt_addr ?called)
        (?m1, Min (insert ?far (jt_target ` {t \<in> set (jsTimers m). \<not> expired n1 t}))) =
      Some (?m1\<lparr>jsTimers := after_fire n1 (jsTimers m)\<rparr>, next_target ?far (after_fire n1 (jsTimers m)))"
    using updated_after_fire [OF ok p, of n1]
    by (simp add: m1 next_target_def after_fire_targets Min_merge)
  show ?thesis
    unfolding timerDidFire.simps col Let_def prod.case call option.case upd
    by (simp add: fire_finish_def Let_def js_call_out_def)
qed


section \<open>The module is a client of the timer\<close>

lemma fire_finish_last:
  assumes "timerDidFire ord r (m, tm) = Some st"
  obtains n nxt m1 where "st = fire_finish n nxt (m1, tm)"
proof -
  obtain n1 n2 n3 where "r = (n1, n2, n3)" by (cases r)
  with assms that show ?thesis
    by (auto simp: Let_def split: prod.splits option.splits)
qed

interpretation js_timers: timer_client "\<lambda>m. jsTimers m \<noteq> []" "timerDidFire ord r" for ord r
proof (unfold_locales, goal_cases)
  case (1 m tm m' tm')
  then show ?case by (rule fire_finish_last) (simp add: fire_finish_def Let_def)
next
  case (2 m tm m' tm')
  from 2(1) show ?case
    by (rule fire_finish_last) (use 2(2,3) in \<open>auto simp: fire_finish_def Let_def intro: reschedule_wakes\<close>)
qed

abbreviation awake :: "timing \<times> scalar timer \<Rightarrow> bool" where
  "awake \<equiv> timer_client.awake (\<lambda>m. jsTimers m \<noteq> [])"

definition timing_inv :: "timing_state \<Rightarrow> bool" where
  "timing_inv st \<longleftrightarrow> timers_ok (fst st) \<and>
     (case snd st of None \<Rightarrow> jsTimers (fst st) = [] | Some tm \<Rightarrow> awake (fst st, tm))"

lemma timers_ok_cong:
  "jsTimers m' = jsTimers m \<Longrightarrow> tg_fresh m' = tg_fresh m \<Longrightarrow> timers_ok m' = timers_ok m"
  by (simp add: timers_ok_def)

lemma js_call_out_timers [simp]:
  "jsTimers (js_call_out c m) = jsTimers m" "tg_fresh (js_call_out c m) = tg_fresh m"
  "timers_ok (js_call_out c m) = timers_ok m" "sendIdleEvents (js_call_out c m) = sendIdleEvents m"
  by (auto simp: js_call_out_def timers_ok_def)

lemma after_fire_ok: "timers_ok m \<Longrightarrow> timers_ok (m\<lparr>jsTimers := after_fire n (jsTimers m)\<rparr>)"
  by (auto simp: timers_ok_def after_fire_def comp_def if_distrib distinct_map inj_on_def cong: if_cong)

lemma fire_ok:
  assumes "timers_ok m" and "permutes_list ord"
  obtains m' tm' where "timerDidFire ord r (m, tm) = Some (m', tm')" and "timers_ok m'"
proof -
  obtain n1 n2 n3 where r: "r = (n1, n2, n3)" by (cases r)
  define called where "called = to_call ord n1 m"
  define m1 where "m1 = (if called = [] then m else js_call_out (CallTimers (map jt_callbackId called)) m)"
  have "timers_ok m1" "jsTimers m1 = jsTimers m" using assms(1) by (simp_all add: m1_def)
  with after_fire_ok [of m1 n1] have "timers_ok (m1\<lparr>jsTimers := after_fire n1 (jsTimers m)\<rparr>)" by simp
  with that fire_result [OF assms, of n1 n2 n3 tm] show thesis
    unfolding r Let_def called_def [symmetric] m1_def [symmetric] by auto
qed

lemma timeout_ok:
  assumes "timers_ok m" and "permutes_list ord"
  shows "\<exists>st. scheduleTimerTimeout el (timerDidFire ord r) (m, tm) = Some st \<and> timers_ok (fst st)"
proof -
  obtain m1 tm1 where "timerDidFire ord r (m, tm) = Some (m1, tm1)" "timers_ok m1"
    using fire_ok [OF assms] by blast
  with assms(1) show ?thesis
    by (cases "cb_set tm") (simp_all add: scheduleTimerTimeout_def Let_def)
qed

lemma js_task_ok:
  assumes "timers_ok m" and "permutes_list ord"
  shows "\<exists>i st. run_task now el (timerDidFire ord r) (m, tm) = Some (i, st) \<and> timers_ok (fst st)"
proof (cases "tm_tasks tm")
  case (Cons t ts)
  obtain m' tm' where "scheduleTimerTimeout el (timerDidFire ord r) (m, tm\<lparr>tm_tasks := ts\<rparr>) = Some (m', tm')" "timers_ok m'"
    using timeout_ok [OF assms] by fastforce
  with Cons assms(1) show ?thesis by (cases t) (simp_all add: Let_def)
qed (use assms in simp)

lemma wheel_ok:
  assumes "timers_ok m" and "permutes_list ord"
  shows "\<exists>st. wheel_fires now el (timerDidFire ord r) (m, tm) = Some st \<and> timers_ok (fst st)"
proof -
  obtain m1 tm1 where "scheduleTimerTimeout el (timerDidFire ord r) (m, tm\<lparr>tm_deadline := None\<rparr>) = Some (m1, tm1)"
    "timers_ok m1" using timeout_ok [OF assms] by fastforce
  with assms(1) show ?thesis by (cases "tm_deadline tm") (simp_all add: wheel_fires_def Let_def)
qed

lemma put_timer_ok:
  assumes "timers_ok m"
  shows "timers_ok (next_frame_insert n target i dur rep m)"
  using assms
  by (auto simp: timers_ok_def next_frame_insert_def put_timer_def distinct_map inj_on_def less_SucI)

lemma erase_timer_ok: "timers_ok m \<Longrightarrow> timers_ok (m\<lparr>jsTimers := erase_timer i (jsTimers m)\<rparr>)"
  by (auto simp: timers_ok_def erase_timer_def distinct_map inj_on_def)

lemma awake_cong: "jsTimers m' = jsTimers m \<Longrightarrow> awake (m', tm) = awake (m, tm)"
  by (simp add: js_timers.awake_def)

lemma createTimer_inv:
  assumes "timing_inv (m, tmo)"
  shows "timing_inv (createTimer n1 n2 i dur sched rep (m, tmo))"
proof -
  have "cb_set tm" if "tmo = Some tm" for tm using assms that by (simp add: timing_inv_def js_timers.awake_def)
  moreover have "awake (m, scheduleImmediate i tm)" if "tmo = Some tm" for tm
    using assms that by (auto simp: timing_inv_def js_timers.awake_def post_wakes)
  ultimately show ?thesis
    using assms
    by (auto simp: createTimer_def Let_def timing_inv_def createTimerForNextFrame_def put_timer_ok Timer_def
        next_frame_schedule_def reschedule_wakes js_timers.awake_def split: option.splits)
qed

lemma step_inv:
  assumes inv: "timing_inv (m, tmo)" and p: "permutes_list ord"
  shows "timing_step ord (m, tmo) e = None \<Longrightarrow> \<exists>i. e = DeleteTimer i \<and> tmo = None"
    and "timing_step ord (m, tmo) e = Some st \<Longrightarrow> timing_inv st"
proof -
  have ok: "timers_ok m" using inv by (simp add: timing_inv_def)
  have "(timing_step ord (m, tmo) e = None \<longrightarrow> (\<exists>i. e = DeleteTimer i \<and> tmo = None)) \<and>
      (\<forall>st. timing_step ord (m, tmo) e = Some st \<longrightarrow> timing_inv st)"
  proof (cases e)
    case CreateTimer
    then show ?thesis using createTimer_inv [OF inv] by simp
  next
    case (DeleteTimer i)
    with inv erase_timer_ok [OF ok, of i] show ?thesis
      by (auto simp: deleteTimer_def Let_def timing_inv_def erase_timer_def js_timers.awake_def split: option.splits)
  next
    case (SetIdle b)
    with inv show ?thesis
      by (auto simp: setSendIdleEvents_def timing_inv_def timers_ok_def js_timers.awake_def split: option.splits)
  next
    case (RunTask now el r)
    show ?thesis
    proof (cases tmo)
      case None
      with RunTask inv show ?thesis by simp
    next
      case (Some tm)
      obtain i m' tm' where t: "run_task now el (timerDidFire ord r) (m, tm) = Some (i, m', tm')" "timers_ok m'"
        using js_task_ok [OF ok p] by fastforce
      have "awake (m, tm)" using inv Some by (simp add: timing_inv_def)
      with js_timers.task_awake [OF t(1)] have "awake (m', tm')" .
      with t Some RunTask show ?thesis
        by (cases i) (auto simp: timing_inv_def immediatelyCallTimer_def js_timers.awake_def simp del: run_task.simps)
    qed
  next
    case (WheelFires now el r)
    show ?thesis
    proof (cases tmo)
      case None
      with WheelFires inv show ?thesis by simp
    next
      case (Some tm)
      obtain m' tm' where t: "wheel_fires now el (timerDidFire ord r) (m, tm) = Some (m', tm')" "timers_ok m'"
        using wheel_ok [OF ok p] by fastforce
      have "awake (m, tm)" using inv Some by (simp add: timing_inv_def)
      with js_timers.wheel_awake [OF t(1)] have "awake (m', tm')" .
      with t Some WheelFires show ?thesis by (simp add: timing_inv_def)
    qed
  qed
  then show "timing_step ord (m, tmo) e = None \<Longrightarrow> \<exists>i. e = DeleteTimer i \<and> tmo = None"
    and "timing_step ord (m, tmo) e = Some st \<Longrightarrow> timing_inv st" by auto
qed

lemma run_inv: "timing_inv st \<Longrightarrow> permutes_list ord \<Longrightarrow> timing_run ord st es = Some st' \<Longrightarrow> timing_inv st'"
  by (induction ord st es rule: timing_run.induct) (auto split: option.splits dest: step_inv(2))

lemma new_timing_inv: "timing_inv (new_timing b, None)"
  by (simp add: timing_inv_def timers_ok_def new_timing_def)


section \<open>Properties\<close>

lemma those_none: "None \<in> set xs \<Longrightarrow> those xs = None"
  by (induction xs) (auto split: option.splits)

lemma update_dangling:
  assumes "a \<in> set as" and "a \<notin> jt_addr ` set (jsTimers m)"
  shows "fire_update n as (m, nxt) = None"
  using assms
proof (induction as arbitrary: m nxt)
  case (Cons b as)
  show ?case
  proof (cases "deref m b")
    case (Some t)
    with Cons.prems have "a \<in> set as" by (auto simp: deref_none [symmetric])
    moreover have "a \<notin> jt_addr ` set (map (\<lambda>u. if jt_addr u = b then js_reschedule n t else u) (jsTimers m))"
      "a \<notin> jt_addr ` set (erase_timer (jt_callbackId t) (jsTimers m))"
      using Cons.prems(2) Some by (auto simp: deref_def find_Some_iff erase_timer_def split: if_splits)
    ultimately show ?thesis by (simp add: Some Cons.IH Let_def del: set_map)
  qed simp
qed simp

text \<open>C16: When the timer fires, the script is called once with exactly the expired timers, earliest
  target first; the one-shot ones are gone, the repeating ones have a new target, and the timer is
  asked to wake up at the earliest target left.\<close>

theorem firing_calls_expired:
  assumes "timers_ok m" and "permutes_list ord" and "bridgeInstance m" and "\<not> sendIdleEvents m"
  shows "\<exists>called m'. timerDidFire ord (n1, n2, n3) (m, tm) =
      Some (m', if jsTimers m' = [] then tm
                else timer_reschedule (max (next_target (getFutureTime n2) (jsTimers m') - n3) 0) False tm) \<and>
    mset called = filter_mset (\<lambda>t. jt_target t \<le> n1) (mset (jsTimers m)) \<and>
    sorted (map jt_target called) \<and>
    js_calls m' = js_calls m @ (if called = [] then [] else [CallTimers (map jt_callbackId called)]) \<and>
    jsTimers m' = map (\<lambda>t. if jt_target t \<le> n1 then js_reschedule n1 t else t)
      [t \<leftarrow> jsTimers m. jt_target t \<le> n1 \<longrightarrow> jt_repeats t]"
proof -
  have "mset (to_call ord n1 m) = filter_mset (\<lambda>t. jt_target t \<le> n1) (mset (jsTimers m))"
    using mset_to_call [OF assms(2)] by (simp add: expired_def [abs_def])
  moreover have "sorted (map jt_target (to_call ord n1 m))" by (simp add: to_call_def)
  ultimately show ?thesis
    using assms(3,4)
    by (intro exI [of _ "to_call ord n1 m"]
          exI [of _ "m\<lparr>js_calls := js_calls m @ (if to_call ord n1 m = [] then []
              else [CallTimers (map jt_callbackId (to_call ord n1 m))]), jsTimers := after_fire n1 (jsTimers m)\<rparr>"])
      (simp add: fire_result [OF assms(1,2)] Let_def js_call_out_def del: timerDidFire.simps,
       simp add: after_fire_def expired_def)
qed

text \<open>C17: No pending timer is forgotten: as long as \<open>createTimer\<close> is not interrupted, whatever the
  script and the timer thread do, in any order and at any time, while a timer is pending the timer
  thread has a wake-up on its way.\<close>

theorem no_timer_forgotten:
  assumes "permutes_list ord" and "timing_run ord (new_timing b, None) es = Some (m, tmo)"
    and "jsTimers m \<noteq> []"
  shows "\<exists>tm. tmo = Some tm \<and> wakes tm"
proof -
  have "timing_inv (m, tmo)" by (rule run_inv [OF new_timing_inv assms(1,2)])
  with assms(3) show ?thesis by (auto simp: timing_inv_def js_timers.awake_def split: option.splits)
qed

text \<open>The only fault of the module, as long as its operations do not overlap, is to clear a timer
  when there is no timer thread.\<close>

theorem timing_fault_is_clear:
  assumes "permutes_list ord" and "timing_run ord (new_timing b, None) es = Some (m, tmo)"
    and "timing_step ord (m, tmo) e = None"
  shows "\<exists>i. e = DeleteTimer i \<and> tmo = None"
  using step_inv(1) [OF run_inv [OF new_timing_inv assms(1,2)] assms(1,3)] .

text \<open>Clearing two pending \<open>setTimeout(f, 0)\<close> calls one after the other dereferences a null
  pointer: they are never in the map, so that clearing the first deletes the timer thread.\<close>

theorem clearing_two_zero_timeouts_faults:
  "timing_run ord (new_timing b, None)
     [CreateTimer n1 n2 i 0 s False, CreateTimer n3 n4 j 0 s' False, DeleteTimer i, DeleteTimer j] = None"
  by (simp add: createTimer_def deleteTimer_def new_timing_def erase_timer_def Let_def)

text \<open>\<open>createTimerForNextFrame\<close> interrupted between asking for the wake-up and adding the entry:
  when the wake-up comes in between, the timer is pending with no wake-up on its way.\<close>

theorem create_race_forgets_timer:
  assumes "target_of n1 dur sched < 1" and "cb_set tm" and "\<not> isScheduled tm" and "tm_tasks tm = []"
    and "permutes_list ord" and "jsTimers m = []" and "\<not> sendIdleEvents m"
  shows "\<exists>tm'. run_task now el (timerDidFire ord (r1, r2, r3))
        (m, next_frame_schedule (target_of n1 dur sched) tm) = Some (None, m, tm') \<and>
      jsTimers (next_frame_insert n2 (target_of n1 dur sched) i dur rep m) \<noteq> [] \<and> \<not> wakes tm'"
proof -
  have ok: "timers_ok m" using assms(6) by (simp add: timers_ok_def)
  have "ord [] = []" using assms(5) by (metis permutes_list_def mset_zero_iff)
  with assms show ?thesis
    by (simp add: next_frame_schedule_def timer_reschedule_def post_def scheduleTimerTimeout_def
        fire_result [OF ok assms(5)] to_call_def after_fire_def Let_def wakes_def next_frame_insert_def
        put_timer_def del: timerDidFire.simps)
qed

text \<open>A timer cleared by the script while the timer thread is calling it: the pointer the timer
  thread collected is dangling, and the handler goes on to use it.\<close>

theorem clearing_while_firing_dangles:
  assumes "timers_ok m" and "permutes_list ord" and "t \<in> set (jsTimers m)" and "jt_target t \<le> n"
    and "fire_collect ord n far m = (as, nxt)"
    and "deleteTimer (jt_callbackId t) (m, tmo) = Some (m', tmo')" and "bridgeInstance m"
  shows "fire_call as m' = None \<and> fire_update n as (m', nxt) = None"
proof -
  have a: "jt_addr t \<in> set as"
    using assms(3,4,5) by (auto simp: collect_result set_ord [OF assms(2)])
  have m': "m' = m\<lparr>jsTimers := erase_timer (jt_callbackId t) (jsTimers m)\<rparr>"
    using assms(6) by (auto simp: deleteTimer_def Let_def split: if_splits option.splits)
  with assms(1,3) have "deref m' (jt_addr t) = None"
    by (auto simp: deref_none erase_timer_def timers_ok_def distinct_map inj_on_def)
  moreover have "None \<in> set (map (deref m') as)" using a calculation by force
  moreover have "as \<noteq> []" using a by auto
  moreover have "jt_addr t \<notin> jt_addr ` set (jsTimers m')" using calculation(1) unfolding deref_none .
  ultimately show ?thesis
    using a m' assms(7) by (simp add: fire_call_def those_none update_dangling del: set_map)
qed

text \<open>An earlier timer may be late: with the wheel set for \<open>rem\<close> milliseconds from now, a request
  for a shorter time \<open>d\<close> is ignored unless \<open>d\<close> is below \<open>rem / 1000\<close>, since the remaining
  milliseconds are divided by 1000 before they are compared with \<open>d\<close>.\<close>

theorem earlier_timer_late:
  assumes "tm_deadline tm = Some (now + of_nat left)" and "1 \<le> d" and "of_nat left \<le> 1000 * d"
    and "cb_set tm" and "tm_tasks tm = []"
  shows "\<exists>tm'. run_task now el cb (s, timer_reschedule d rep tm) = Some (None, s, tm') \<and>
      tm_deadline tm' = Some (now + of_nat left)"
proof -
  have "(of_nat (left div 1000) :: scalar) \<le> of_nat left / 1000"
    using of_nat_mono [OF div_times_less_eq_dividend [of left 1000], where 'a = rat] by simp
  with assms(3) have "\<not> d < of_nat (left div 1000)" by simp
  with assms show ?thesis
    by (simp add: timer_reschedule_def post_def getTimeRemaining_def Let_def)
qed

text \<open>Two timers, an expired one-shot and one pending.\<close>

definition sample_timing :: timing where
  "sample_timing = (new_timing True)\<lparr>jsTimers :=
     [\<lparr>jt_target = 10, jt_callbackId = 1, jt_repeats = False, jt_duration = 10, jt_addr = 0\<rparr>,
      \<lparr>jt_target = 90, jt_callbackId = 2, jt_repeats = False, jt_duration = 90, jt_addr = 1\<rparr>], tg_fresh := 2\<rparr>"

lemma sample_timing_ok: "timers_ok sample_timing" "bridgeInstance sample_timing" "\<not> sendIdleEvents sample_timing"
  by (simp_all add: sample_timing_def new_timing_def timers_ok_def)

lemma id_permutes: "permutes_list id"
  by (simp add: permutes_list_def)

lemma firing_calls_expired_witness:
  "\<exists>called m'. timerDidFire id (20, 20, 21) (sample_timing, new_timer 10 False True) =
      Some (m', if jsTimers m' = [] then new_timer 10 False True
                else timer_reschedule (max (next_target (getFutureTime 20) (jsTimers m') - 21) 0) False (new_timer 10 False True)) \<and>
    mset called = filter_mset (\<lambda>t. jt_target t \<le> 20) (mset (jsTimers sample_timing)) \<and>
    sorted (map jt_target called) \<and>
    js_calls m' = js_calls sample_timing @ (if called = [] then [] else [CallTimers (map jt_callbackId called)]) \<and>
    jsTimers m' = map (\<lambda>t. if jt_target t \<le> 20 then js_reschedule 20 t else t)
      [t \<leftarrow> jsTimers sample_timing. jt_target t \<le> 20 \<longrightarrow> jt_repeats t]"
  by (rule firing_calls_expired) (simp_all only: sample_timing_ok id_permutes not_False_eq_True)

lemma no_timer_forgotten_witness:
  "\<exists>m tmo. timing_run id (new_timing True, None) [CreateTimer 0 0 1 50 0 False] = Some (m, tmo) \<and>
     jsTimers m \<noteq> [] \<and> (\<exists>tm. tmo = Some tm \<and> wakes tm)"
proof -
  let ?st = "createTimer 0 0 1 50 0 False (new_timing True, None)"
  have r: "timing_run id (new_timing True, None) [CreateTimer 0 0 1 50 0 False] = Some (fst ?st, snd ?st)" by simp
  have ne: "jsTimers (fst ?st) \<noteq> []"
    by (simp add: createTimer_def createTimerForNextFrame_def next_frame_insert_def put_timer_def Let_def)
  from r ne no_timer_forgotten [OF id_permutes r ne] show ?thesis by blast
qed

lemma timing_fault_is_clear_witness:
  "timing_step id (new_timing True, None) (DeleteTimer 7) = None \<and> (\<exists>i. DeleteTimer 7 = DeleteTimer i \<and> True)"
proof -
  have f: "timing_step id (new_timing True, None) (DeleteTimer 7) = None"
    by (simp add: deleteTimer_def new_timing_def erase_timer_def)
  have "timing_run id (new_timing True, None) [] = Some (new_timing True, None)" by simp
  from f timing_fault_is_clear [OF id_permutes this f] show ?thesis by simp
qed

lemma create_race_forgets_timer_witness:
  "\<exists>tm'. run_task 0 0 (timerDidFire id (0, 0, 0))
        (new_timing True, next_frame_schedule (target_of 1 1 0) (Timer 1 False True False)) = Some (None, new_timing True, tm') \<and>
      jsTimers (next_frame_insert 1 (target_of 1 1 0) 5 1 False (new_timing True)) \<noteq> [] \<and> \<not> wakes tm'"
  by (rule create_race_forgets_timer)
    (simp_all add: target_of_def Timer_def new_timer_def new_timing_def id_permutes)

lemma clearing_while_firing_dangles_witness:
  "\<exists>as nxt m' tmo'. fire_collect id 20 1000 sample_timing = (as, nxt) \<and>
     deleteTimer 1 (sample_timing, Some (new_timer 10 False True)) = Some (m', tmo') \<and>
     fire_call as m' = None \<and> fire_update 20 as (m', nxt) = None"
proof -
  let ?t = "\<lparr>jt_target = 10, jt_callbackId = 1, jt_repeats = False, jt_duration = 10, jt_addr = 0\<rparr> :: js_timer"
  obtain as nxt where c: "fire_collect id 20 1000 sample_timing = (as, nxt)" by fastforce
  have t: "?t \<in> set (jsTimers sample_timing)" "jt_target ?t \<le> 20" by (simp_all add: sample_timing_def)
  obtain m' tmo' where d: "deleteTimer (jt_callbackId ?t) (sample_timing, Some (new_timer 10 False True)) = Some (m', tmo')"
    by (auto simp: deleteTimer_def Let_def sample_timing_def erase_timer_def)
  show ?thesis
    using clearing_while_firing_dangles [OF sample_timing_ok(1) id_permutes t c d sample_timing_ok(2)] c d by auto
qed

lemma earlier_timer_late_witness:
  "\<exists>tm'. run_task 0 0 Some ((), timer_reschedule 100 False ((Timer 5000 False True False)\<lparr>tm_deadline := Some (0 + of_nat 5000)\<rparr>))
      = Some (None, (), tm') \<and> tm_deadline tm' = Some (0 + of_nat 5000)"
  by (rule earlier_timer_late) (simp_all add: Timer_def new_timer_def)

end
