(* ===== verification/Caches.thy ===== *)
theory Caches imports FollyTimer "HOL-Library.AList" "HOL-Library.Multiset" begin

text \<open>
  The two caches whose entries expire: \<open>sdk/ThreadSafeCache.h\<close> (network responses) and
  \<open>views/common/RSkImageCacheManager.cpp\<close> (decoded images). Both keep a map from a key to a value
  and its expiry time, the time \<open>scheduleTimeExpiry_\<close> of the next clean-up, and a timer of
  \<open>FollyTimer\<close> that runs it; the timer is created with the first entry.

  The map is an association list without duplicate keys. Eviction walks it in the iteration order of
  \<open>better::map\<close>, which is not specified: the parameter \<open>ord\<close>. Skia's \<open>unique()\<close> of an image and
  its memory counters are parameters too. A call through the null \<open>timer_\<close> is \<open>None\<close>.
\<close>

section \<open>State\<close>

record ('k, 'v) cache =
  cacheMap :: "('k \<times> 'v \<times> scalar) list"
  scheduleTimeExpiry :: scalar
  overallCurrentSize :: scalar

type_synonym ('k, 'v) cache_state = "('k, 'v) cache \<times> unit timer option"

definition new_cache :: "('k, 'v) cache" where
  "new_cache = \<lparr>cacheMap = [], scheduleTimeExpiry = 0, overallCurrentSize = 0\<rparr>"

definition expiry :: "'k \<times> 'v \<times> scalar \<Rightarrow> scalar" where
  "expiry e = snd (snd e)"

section \<open>Expiry\<close>

text \<open>The clean-up loop: the entries left, and the earliest of their expiry times.\<close>

fun expire_loop :: "scalar \<Rightarrow> ('k \<times> 'v \<times> scalar) list \<Rightarrow> scalar \<Rightarrow> ('k \<times> 'v \<times> scalar) list \<times> scalar" where
  "expire_loop now [] s = ([], s)"
| "expire_loop now (e # es) s =
     (if expiry e \<le> now then expire_loop now es s
      else let (kept, s') = expire_loop now es (if s > expiry e then expiry e else s) in (e # kept, s'))"

definition expire :: "scalar \<Rightarrow> scalar \<Rightarrow> scalar \<Rightarrow> (('k, 'v) cache, unit) timer_cb" where
  "expire now n2 n3 st =
     (let (es, s) = expire_loop now (cacheMap (fst st)) (getFutureTime n2);
          c = (fst st)\<lparr>cacheMap := es\<rparr>
      in if es \<noteq> [] then Some (c\<lparr>scheduleTimeExpiry := s\<rparr>, timer_reschedule (s - n3) False (snd st))
         else Some (c\<lparr>scheduleTimeExpiry := 0\<rparr>, snd st))"

text \<open>\<open>ThreadSafeCache\<close> uses one clock reading for the loop and for the next wake-up,
  \<open>RSkImageCacheManager\<close> takes another one. Neither takes the lock of the map.\<close>

definition expiryTimerCallback :: "scalar \<Rightarrow> scalar \<Rightarrow> (('k, 'v) cache, unit) timer_cb" where
  "expiryTimerCallback now n2 = expire now n2 now"

definition expiryTimeCallback :: "scalar \<Rightarrow> scalar \<Rightarrow> scalar \<Rightarrow> (('k, 'v) cache, unit) timer_cb" where
  "expiryTimeCallback now n2 n3 = expire now n2 n3"

section \<open>The thread-safe cache\<close>

definition isAvailableInCache :: "'k \<Rightarrow> ('k, 'v) cache \<Rightarrow> bool" where
  "isAvailableInCache k c \<longleftrightarrow> map_of (cacheMap c) k \<noteq> None"

definition getCacheData :: "'k \<Rightarrow> ('k, 'v) cache \<Rightarrow> 'v option" where
  "getCacheData k c = (case map_of (cacheMap c) k of None \<Rightarrow> None | Some (v, e) \<Rightarrow> Some v)"

text \<open>The first entry starts the timer, a later one brings the wake-up forward if it expires before.\<close>

definition arm_timer :: "scalar \<Rightarrow> scalar \<Rightarrow> ('k, 'v) cache_state \<Rightarrow> ('k, 'v) cache_state option" where
  "arm_timer now e st =
     (let c = (fst st)\<lparr>scheduleTimeExpiry := e\<rparr>
      in if length (cacheMap (fst st)) = 1
         then Some (c, Some (case snd st of
                None \<Rightarrow> Timer (e - now) False True True
              | Some tm \<Rightarrow> timer_reschedule (e - now) False tm))
         else if e < scheduleTimeExpiry (fst st)
         then map_option (\<lambda>tm. (c, Some (timer_reschedule (e - now) False tm))) (snd st)
         else Some st)"

definition setCache :: "'k \<Rightarrow> 'v \<Rightarrow> scalar \<Rightarrow> scalar \<Rightarrow> ('k, 'v) cache_state \<Rightarrow> ('k, 'v) cache_state option" where
  "setCache k v e now st =
     arm_timer now e ((fst st)\<lparr>cacheMap := AList.update k (v, e) (cacheMap (fst st))\<rparr>, snd st)"

definition needEvict :: "scalar \<Rightarrow> ('k, 'v) cache \<Rightarrow> bool" where
  "needEvict required c \<longleftrightarrow> \<not> overallCurrentSize c + required < 10 * 1024 * 1024 * (95 / 100)"

section \<open>The image cache\<close>

text \<open>Up to \<open>EVICT_COUNT\<close> images that nothing else refers to are erased; \<open>n\<close> counts them.\<close>

fun evict_loop :: "('v \<Rightarrow> bool) \<Rightarrow> nat \<Rightarrow> ('k \<times> 'v \<times> scalar) list \<Rightarrow> ('k \<times> 'v \<times> scalar) list \<times> nat" where
  "evict_loop uniq n [] = ([], n)"
| "evict_loop uniq n (e # es) =
     (if 2 \<le> n then (e # es, n)
      else if uniq (fst (snd e)) then evict_loop uniq (Suc n) es
      else let (kept, n') = evict_loop uniq n es in (e # kept, n'))"

type_synonym ('k, 'v) entry_order = "('k \<times> 'v \<times> scalar) list \<Rightarrow> ('k \<times> 'v \<times> scalar) list"

definition hwm_limit :: scalar where
  "hwm_limit = 50 * 1024 * 1024 * (95 / 100)"

definition evictAsNeeded ::
  "('k, 'v) entry_order \<Rightarrow> ('v \<Rightarrow> bool) \<Rightarrow> scalar \<times> scalar \<Rightarrow> ('k, 'v) cache \<Rightarrow> bool \<times> ('k, 'v) cache" where
  "evictAsNeeded ord uniq usage c =
     (if fst usage < hwm_limit \<and> snd usage < hwm_limit then (True, c)
      else let (es, n) = evict_loop uniq 0 (ord (cacheMap c)) in (n = 2, c\<lparr>cacheMap := es\<rparr>))"

definition findImageDataInCache :: "'k \<Rightarrow> ('k, 'v) cache \<Rightarrow> 'v option" where
  "findImageDataInCache k c = map_option fst (map_of (cacheMap c) k)"

text \<open>\<open>std::map::insert\<close> leaves an entry that is there as it is.\<close>

definition insert_entry :: "'k \<Rightarrow> 'v \<times> scalar \<Rightarrow> ('k \<times> 'v \<times> scalar) list \<Rightarrow> ('k \<times> 'v \<times> scalar) list" where
  "insert_entry k x es = (case map_of es k of None \<Rightarrow> (k, x) # es | Some y \<Rightarrow> es)"

text \<open>The image may be missing (\<open>v = None\<close>).\<close>

definition imageDataInsertInCache ::
  "('k, 'v) entry_order \<Rightarrow> ('v \<Rightarrow> bool) \<Rightarrow> scalar \<times> scalar \<Rightarrow> 'k \<Rightarrow> 'v option \<Rightarrow> scalar \<Rightarrow> scalar
     \<Rightarrow> ('k, 'v) cache_state \<Rightarrow> (bool \<times> ('k, 'v) cache_state) option" where
  "imageDataInsertInCache ord uniq usage k v e now st =
     (case v of
        None \<Rightarrow> Some (False, st)
      | Some img \<Rightarrow>
          let (ok, c) = evictAsNeeded ord uniq usage (fst st)
          in if ok
             then map_option (Pair True)
               (arm_timer now e (c\<lparr>cacheMap := insert_entry k (img, e) (cacheMap c)\<rparr>, snd st))
             else Some (False, (c, snd st)))"

definition clearMemory :: "('v \<Rightarrow> bool) \<Rightarrow> ('k, 'v) cache_state \<Rightarrow> (bool \<times> ('k, 'v) cache_state) option" where
  "clearMemory uniq st =
     (let c = (fst st)\<lparr>cacheMap := [e \<leftarrow> cacheMap (fst st). \<not> uniq (fst (snd e))]\<rparr>
      in if cacheMap c = [] then map_option (\<lambda>tm. (True, (c, Some (timer_abort tm)))) (snd st)
         else Some (True, (c, snd st)))"

section \<open>The caches and their timer threads\<close>

datatype ('k, 'v) cache_event =
  SetCache 'k 'v scalar scalar
| CacheTask scalar scalar scalar scalar
| CacheWheel scalar scalar scalar scalar

fun cache_step :: "('k, 'v) cache_state \<Rightarrow> ('k, 'v) cache_event \<Rightarrow> ('k, 'v) cache_state option" where
  "cache_step st (SetCache k v e now) = setCache k v e now st"
| "cache_step st (CacheTask now el n1 n2) = timer_thread_task now el (expiryTimerCallback n1 n2) st"
| "cache_step st (CacheWheel now el n1 n2) = timer_thread_wheel now el (expiryTimerCallback n1 n2) st"

text \<open>The clean-up goes through the map on the timer thread without \<open>cacheLock_\<close>, which the other threads take to
  set or look up an entry (\<open>isAvailableInCache\<close> takes none, but is called on the thread that sets entries). What
  another thread does between the start and the end of such a turn is a data race on the map, which is \<open>None\<close>:
  \<open>Turn\<close> is the start, \<open>Do\<close> with a step of the timer thread the end.\<close>

datatype ('k, 'v) cache_use = Look 'k | Turn | Do "('k, 'v) cache_event"

fun cache_use_step :: "('k, 'v) cache_state \<times> bool \<Rightarrow> ('k, 'v) cache_use \<Rightarrow> (('k, 'v) cache_state \<times> bool) option" where
  "cache_use_step (st, turning) (Look k) = (if turning then None else Some (st, False))"
| "cache_use_step (st, turning) Turn = Some (st, True)"
| "cache_use_step (st, turning) (Do e) =
     (case e of
        SetCache k v t now \<Rightarrow> if turning then None else map_option (\<lambda>st'. (st', False)) (cache_step st e)
      | _ \<Rightarrow> if turning then map_option (\<lambda>st'. (st', False)) (cache_step st e) else Some (st, False))"

text \<open>No entry is set or looked up in a turn of the timer thread.\<close>

fun turns_apart :: "bool \<Rightarrow> ('k, 'v) cache_use list \<Rightarrow> bool" where
  "turns_apart turning [] \<longleftrightarrow> True"
| "turns_apart turning (Look k # us) \<longleftrightarrow> \<not> turning \<and> turns_apart False us"
| "turns_apart turning (Turn # us) \<longleftrightarrow> \<not> turning \<and> turns_apart True us"
| "turns_apart turning (Do e # us) \<longleftrightarrow> (turning \<longleftrightarrow> (\<forall>k v t now. e \<noteq> SetCache k v t now)) \<and> turns_apart False us"

fun done_by :: "('k, 'v) cache_use list \<Rightarrow> ('k, 'v) cache_event list" where
  "done_by [] = []"
| "done_by (Do e # us) = e # done_by us"
| "done_by (_ # us) = done_by us"

datatype ('k, 'v) image_event =
  InsertImage "scalar \<times> scalar" 'k "'v option" scalar scalar
| ClearMemory
| ImageTask scalar scalar scalar scalar scalar
| ImageWheel scalar scalar scalar scalar scalar

fun image_step ::
  "('k, 'v) entry_order \<Rightarrow> ('v \<Rightarrow> bool) \<Rightarrow> ('k, 'v) cache_state \<Rightarrow> ('k, 'v) image_event
     \<Rightarrow> ('k, 'v) cache_state option" where
  "image_step ord uniq st (InsertImage usage k v e now) =
     map_option snd (imageDataInsertInCache ord uniq usage k v e now st)"
| "image_step ord uniq st ClearMemory = map_option snd (clearMemory uniq st)"
| "image_step ord uniq st (ImageTask now el n1 n2 n3) = timer_thread_task now el (expiryTimeCallback n1 n2 n3) st"
| "image_step ord uniq st (ImageWheel now el n1 n2 n3) = timer_thread_wheel now el (expiryTimeCallback n1 n2 n3) st"


section \<open>Lookups\<close>

definition keys_ok :: "('k, 'v) cache \<Rightarrow> bool" where
  "keys_ok c \<longleftrightarrow> distinct (map fst (cacheMap c))"

text \<open>A cache as a map.\<close>

definition contents :: "('k, 'v) cache \<Rightarrow> 'k \<Rightarrow> ('v \<times> scalar) option" where
  "contents c = map_of (cacheMap c)"

definition pending :: "scalar \<Rightarrow> 'k \<times> 'v \<times> scalar \<Rightarrow> bool" where
  "pending now e \<longleftrightarrow> \<not> expiry e \<le> now"

lemma expire_loop_result:
  "expire_loop now es s = ([e \<leftarrow> es. pending now e], Min (insert s (expiry ` set [e \<leftarrow> es. pending now e])))"
proof (induction es arbitrary: s)
  case (Cons e es)
  have "(if expiry e < s then expiry e else s) = min s (expiry e)" by (simp add: min_def)
  then show ?case by (auto simp: Cons.IH pending_def Min_insert_min simp del: Min_insert set_filter)
qed simp

lemma map_of_filter_distinct:
  "distinct (map fst es) \<Longrightarrow>
     map_of [e \<leftarrow> es. P e] k = (case map_of es k of None \<Rightarrow> None | Some x \<Rightarrow> if P (k, x) then Some x else None)"
  by (induction es) (auto simp: map_of_eq_None_iff image_iff split: option.splits)

lemma expire_cache:
  assumes "expire now n2 n3 (c, tm) = Some (c', tm')"
  shows "cacheMap c' = [e \<leftarrow> cacheMap c. pending now e]" "overallCurrentSize c' = overallCurrentSize c"
  using assms by (auto simp: expire_def Let_def expire_loop_result simp del: filter_empty_conv split: if_splits)

lemma expire_contents:
  assumes "keys_ok c" and "expire now n2 n3 (c, tm) = Some (c', tm')"
  shows "contents c' k = (case contents c k of None \<Rightarrow> None | Some (v, e) \<Rightarrow> if e \<le> now then None else Some (v, e))"
  using expire_cache(1) [OF assms(2)] assms(1)
  by (auto simp: contents_def map_of_filter_distinct keys_ok_def pending_def expiry_def split: option.splits)

lemma arm_timer_cache:
  assumes "arm_timer now e (c, tmo) = Some (c', tmo')"
  shows "cacheMap c' = cacheMap c" and "overallCurrentSize c' = overallCurrentSize c"
  using assms by (auto simp: arm_timer_def Let_def split: if_splits)

lemma keys_ok_cong: "cacheMap c' = cacheMap c \<Longrightarrow> keys_ok c' = keys_ok c"
  by (simp add: keys_ok_def)

lemma setCache_contents:
  assumes "setCache k v e now (c, tmo) = Some (c', tmo')"
  shows "contents c' = (contents c)(k \<mapsto> (v, e))" and "keys_ok c \<Longrightarrow> keys_ok c'"
  using arm_timer_cache [OF assms [unfolded setCache_def fst_conv snd_conv]] distinct_update
  by (auto simp: contents_def keys_ok_def update_conv')

section \<open>The caches are clients of the timer\<close>

lemma expire_awake:
  assumes "expire now n2 n3 (c, tm) = Some (c', tm')"
  shows "cb_set tm' = cb_set tm" and "cb_set tm \<Longrightarrow> cacheMap c' \<noteq> [] \<Longrightarrow> wakes tm'"
  using assms by (auto simp: expire_def Let_def reschedule_wakes split: prod.splits if_splits)

interpretation response_cache: timer_client "\<lambda>c. cacheMap c \<noteq> []" "expiryTimerCallback n1 n2" for n1 n2
  by unfold_locales (auto simp: expiryTimerCallback_def dest: expire_awake)

interpretation image_cache: timer_client "\<lambda>c. cacheMap c \<noteq> []" "expiryTimeCallback n1 n2 n3" for n1 n2 n3
  by unfold_locales (auto simp: expiryTimeCallback_def dest: expire_awake)

abbreviation cache_attended :: "('k, 'v) cache_state \<Rightarrow> bool" where
  "cache_attended \<equiv> timer_client.attended (\<lambda>c. cacheMap c \<noteq> [])"

lemmas cache_attended_def = response_cache.attended_def response_cache.awake_def

lemma arm_attended:
  assumes "arm_timer now e (c, tmo) = Some st" and "cacheMap c \<noteq> []"
    and "\<And>tm. tmo = Some tm \<Longrightarrow> cb_set tm" and "1 < length (cacheMap c) \<Longrightarrow> cache_attended (c, tmo)"
  shows "cache_attended st"
proof (cases "length (cacheMap c) = 1")
  case True
  with assms show ?thesis
    by (auto simp: arm_timer_def Let_def cache_attended_def reschedule_wakes new_timer_wakes split: option.splits)
next
  case False
  with assms(2) have "1 < length (cacheMap c)" by (cases "cacheMap c") auto
  from assms(4) [OF this] False assms(1,3) show ?thesis
    by (auto simp: arm_timer_def Let_def cache_attended_def reschedule_wakes split: if_splits option.splits)
qed

lemma arm_succeeds: "tmo = None \<Longrightarrow> length (cacheMap c) = 1 \<Longrightarrow> arm_timer now e (c, tmo) \<noteq> None"
  "tmo \<noteq> None \<Longrightarrow> arm_timer now e (c, tmo) \<noteq> None"
  by (auto simp: arm_timer_def Let_def)


lemma task_total:
  assumes "\<And>s tm. cb (s, tm) \<noteq> None"
  shows "timer_thread_task now el cb st \<noteq> None" and "timer_thread_wheel now el cb st \<noteq> None"
proof -
  have t: "scheduleTimerTimeout el cb (s, tm) \<noteq> None" for s tm
    using assms [of s tm] by (auto simp: scheduleTimerTimeout_def)
  then have "run_task now el cb (s, tm) \<noteq> None" for s tm
    by (auto simp: Let_def split: list.splits task.splits)
  moreover have "wheel_fires now el cb (s, tm) \<noteq> None" for s tm
    using t by (auto simp: wheel_fires_def Let_def split: option.splits)
  ultimately show "timer_thread_task now el cb st \<noteq> None" "timer_thread_wheel now el cb st \<noteq> None"
    by (simp_all add: timer_thread_task_def timer_thread_wheel_def del: run_task.simps not_None_eq split: option.splits)
qed

text \<open>What a step of the timer thread does to the entries: nothing, or a clean-up.\<close>

lemma timeout_fst:
  assumes "scheduleTimerTimeout el cb (s, tm) = Some (s', tm')"
  shows "s' = s \<or> (\<exists>tm1. cb (s, tm) = Some (s', tm1))"
  using assms by (auto simp: scheduleTimerTimeout_def Let_def split: option.splits if_splits)

lemma thread_fst:
  assumes "timer_thread_task now el cb (s, tmo) = Some (s', tmo') \<or> timer_thread_wheel now el cb (s, tmo) = Some (s', tmo')"
  shows "s' = s \<or> (\<exists>tm tm1. cb (s, tm) = Some (s', tm1))"
proof -
  have "s' = s \<or> (\<exists>tm tm1. cb (s, tm) = Some (s', tm1))" if "run_task now el cb (s, tm) = Some (i, s', tm')" for tm i tm'
    using that timeout_fst [of el cb s] by (auto simp: Let_def split: list.splits task.splits) blast
  moreover have "s' = s \<or> (\<exists>tm tm1. cb (s, tm) = Some (s', tm1))" if "wheel_fires now el cb (s, tm) = Some (s', tm')" for tm tm'
    using that timeout_fst [of el cb s] by (fastforce simp: wheel_fires_def Let_def split: option.splits if_splits)
  ultimately show ?thesis
    using assms by (auto simp: timer_thread_task_def timer_thread_wheel_def simp del: run_task.simps split: option.splits)
qed

lemma attended_timer:
  "cache_attended (c, tmo) \<Longrightarrow> tmo = Some tm \<Longrightarrow> cb_set tm"
  "cache_attended (c, tmo) \<Longrightarrow> cacheMap c \<noteq> [] \<Longrightarrow> \<exists>tm. tmo = Some tm \<and> cb_set tm \<and> wakes tm"
  "cb_set tm \<Longrightarrow> wakes tm \<Longrightarrow> cache_attended (c, Some tm)"
  by (auto simp: cache_attended_def split: option.splits)

text \<open>An entry added or replaced, after some were removed.\<close>

lemma arm_after_change:
  assumes a: "cache_attended (c, tmo)" and ne: "cacheMap c' \<noteq> []"
    and len: "1 < length (cacheMap c') \<Longrightarrow> cacheMap c \<noteq> []"
  obtains st where "arm_timer now e (c', tmo) = Some st" and "cache_attended st"
proof -
  have g: "cb_set tm" if "tmo = Some tm" for tm using attended_timer(1) [OF a that] .
  have w: "cache_attended (c', tmo) \<and> tmo \<noteq> None" if "1 < length (cacheMap c')"
    using attended_timer(2) [OF a len [OF that]] attended_timer(3) by auto
  have "length (cacheMap c') = 1 \<or> 1 < length (cacheMap c')" using ne by (cases "cacheMap c'") auto
  with w have "arm_timer now e (c', tmo) \<noteq> None" using arm_succeeds by blast
  then obtain st where st: "arm_timer now e (c', tmo) = Some st" by auto
  from that [OF st] arm_attended [OF st ne] g w show thesis by blast
qed

definition cache_inv :: "('k, 'v) cache_state \<Rightarrow> bool" where
  "cache_inv st \<longleftrightarrow> keys_ok (fst st) \<and> cache_attended st"

lemma length_update_le: "length (AList.update k v es) \<le> Suc (length es)"
  by (induction es) auto

lemma expire_total: "expire now n2 n3 st \<noteq> None"
  by (auto simp: expire_def Let_def split: prod.splits)

lemma expire_keys: "keys_ok c \<Longrightarrow> expire now n2 n3 (c, tm) = Some (c', tm') \<Longrightarrow> keys_ok c'"
  by (auto simp: keys_ok_def expire_cache(1) distinct_map intro: inj_on_subset)

lemma expire_thread_ok:
  assumes "cache_inv st"
  shows "\<exists>st'. timer_thread_task t el (expire now n2 n3) st = Some st' \<and> cache_inv st'"
    and "\<exists>st'. timer_thread_wheel t el (expire now n2 n3) st = Some st' \<and> cache_inv st'"
proof -
  obtain c tmo where st: "st = (c, tmo)" by fastforce
  have inv: "cache_inv (c', tmo')"
    if s: "timer_thread_task t el (expire now n2 n3) (c, tmo) = Some (c', tmo') \<or>
      timer_thread_wheel t el (expire now n2 n3) (c, tmo) = Some (c', tmo')" for c' tmo'
    using s assms thread_fst [OF s] image_cache.attended_task [of "(c, tmo)" t el now n2 n3 "(c', tmo')"]
      image_cache.attended_wheel [of "(c, tmo)" t el now n2 n3 "(c', tmo')"]
    by (auto simp: st cache_inv_def expiryTimeCallback_def dest: expire_keys)
  from task_total [of "expire now n2 n3", OF expire_total] obtain st1 st2 where
    "timer_thread_task t el (expire now n2 n3) st = Some st1" "timer_thread_wheel t el (expire now n2 n3) st = Some st2"
    by blast
  with inv st show "\<exists>st'. timer_thread_task t el (expire now n2 n3) st = Some st' \<and> cache_inv st'"
    and "\<exists>st'. timer_thread_wheel t el (expire now n2 n3) st = Some st' \<and> cache_inv st'"
    by (metis prod.collapse)+
qed

lemma cache_step_ok:
  assumes "cache_inv st"
  shows "\<exists>st'. cache_step st e = Some st' \<and> cache_inv st'"
proof -
  obtain c tmo where st: "st = (c, tmo)" by fastforce
  with assms have k: "keys_ok c" and a: "cache_attended (c, tmo)" by (auto simp: cache_inv_def)
  show ?thesis
  proof (cases e)
    case (SetCache k v t now)
    let ?c = "c\<lparr>cacheMap := AList.update k (v, t) (cacheMap c)\<rparr>"
    have "1 < length (cacheMap ?c) \<Longrightarrow> cacheMap c \<noteq> []" by auto
    moreover have "cacheMap ?c \<noteq> []" by (cases "cacheMap c") auto
    ultimately obtain st' where s: "arm_timer now t (?c, tmo) = Some st'" "cache_attended st'"
      using arm_after_change [OF a] by blast
    then have "setCache k v t now (c, tmo) = Some (fst st', snd st')" by (simp add: setCache_def)
    from setCache_contents(2) [OF this] k s st SetCache show ?thesis by (simp add: setCache_def cache_inv_def)
  qed (use expire_thread_ok [OF assms] in \<open>simp_all add: expiryTimerCallback_def\<close>)
qed

lemma new_cache_inv: "cache_inv (new_cache, None)"
  by (simp add: cache_inv_def keys_ok_def new_cache_def cache_attended_def)

lemma cache_run_ok: "\<exists>st. run_opt cache_step (new_cache, None) es = Some st \<and> cache_inv st"
  by (rule run_opt_inv) (use cache_step_ok new_cache_inv in blast)+


section \<open>Eviction\<close>

lemma evict_loop_result:
  assumes "n \<le> 2" and "evict_loop uniq n es = (kept, n')"
  shows "\<exists>removed. mset es = mset kept + mset removed \<and> (\<forall>e \<in> set removed. uniq (fst (snd e))) \<and>
    n' = n + length removed \<and> n' \<le> 2 \<and> (n' < 2 \<longrightarrow> (\<forall>e \<in> set kept. \<not> uniq (fst (snd e))))"
  using assms
proof (induction uniq n es arbitrary: kept n' rule: evict_loop.induct)
  case (1 uniq n)
  then show ?case by (intro exI [of _ "[]"]) auto
next
  case (2 uniq n e es)
  consider "2 \<le> n" | "n < 2" "uniq (fst (snd e))" | "n < 2" "\<not> uniq (fst (snd e))" by linarith
  then show ?case
  proof cases
    case 1
    with 2(3,4) show ?thesis by (intro exI [of _ "[]"]) auto
  next
    case a: 2
    with 2(4) have "evict_loop uniq (Suc n) es = (kept, n')" by simp
    from 2(1) [OF _ a(2) _ this] a obtain removed where
      "mset es = mset kept + mset removed" "\<forall>e \<in> set removed. uniq (fst (snd e))" "n' = Suc n + length removed"
      "n' \<le> 2" "n' < 2 \<longrightarrow> (\<forall>e \<in> set kept. \<not> uniq (fst (snd e)))" by auto
    with a show ?thesis by (intro exI [of _ "e # removed"]) auto
  next
    case a: 3
    obtain ks where k: "evict_loop uniq n es = (ks, n')" "kept = e # ks"
      using 2(4) a by (auto split: prod.splits)
    from 2(2) [OF _ a(2) _ k(1)] a obtain removed where
      "mset es = mset ks + mset removed" "\<forall>e \<in> set removed. uniq (fst (snd e))" "n' = n + length removed"
      "n' \<le> 2" "n' < 2 \<longrightarrow> (\<forall>e \<in> set ks. \<not> uniq (fst (snd e)))" by auto
    with a k(2) show ?thesis by (intro exI [of _ removed]) auto
  qed
qed

definition permutes_entries :: "('k, 'v) entry_order \<Rightarrow> bool" where
  "permutes_entries ord \<longleftrightarrow> (\<forall>es. mset (ord es) = mset es)"

lemma evict_result:
  assumes "permutes_entries ord" and "evictAsNeeded ord uniq usage c = (ok, c')"
  shows "\<exists>removed. mset (cacheMap c) = mset (cacheMap c') + mset removed \<and>
      (\<forall>e \<in> set removed. uniq (fst (snd e))) \<and> length removed \<le> 2 \<and>
      (ok \<longleftrightarrow> fst usage < hwm_limit \<and> snd usage < hwm_limit \<or> length removed = 2) \<and>
      (fst usage < hwm_limit \<and> snd usage < hwm_limit \<longrightarrow> removed = [])"
proof (cases "fst usage < hwm_limit \<and> snd usage < hwm_limit")
  case True
  with assms(2) show ?thesis by (intro exI [of _ "[]"]) (auto simp: evictAsNeeded_def)
next
  case False
  obtain es n where l: "evict_loop uniq 0 (ord (cacheMap c)) = (es, n)" by fastforce
  from evict_loop_result [OF _ l] assms(1) obtain removed where
    "mset (cacheMap c) = mset es + mset removed" "\<forall>e \<in> set removed. uniq (fst (snd e))" "n = length removed" "n \<le> 2"
    by (auto simp: permutes_entries_def)
  moreover have "ok = (n = 2)" "cacheMap c' = es"
    using False assms(2) l by (auto simp: evictAsNeeded_def)
  ultimately show ?thesis using False by (intro exI [of _ removed]) auto
qed

lemma evict_keys:
  assumes "permutes_entries ord" and "evictAsNeeded ord uniq usage c = (ok, c')" and "keys_ok c"
  shows "keys_ok c'"
proof -
  from evict_result [OF assms(1,2)] obtain removed where
    "mset (cacheMap c) = mset (cacheMap c' @ removed)" by auto
  then have "mset (map fst (cacheMap c)) = mset (map fst (cacheMap c' @ removed))"
    by (metis mset_map)
  then have "distinct (map fst (cacheMap c' @ removed))"
    using assms(3) unfolding keys_ok_def by (metis mset_eq_imp_distinct_iff)
  then show ?thesis by (simp add: keys_ok_def)
qed

lemma evict_attended:
  assumes "permutes_entries ord" and "evictAsNeeded ord uniq usage c = (ok, c')"
  shows "cacheMap c' \<noteq> [] \<Longrightarrow> cacheMap c \<noteq> []" and "cache_attended (c, tmo) \<Longrightarrow> cache_attended (c', tmo)"
proof -
  show *: "cacheMap c' \<noteq> [] \<Longrightarrow> cacheMap c \<noteq> []" using evict_result [OF assms] by auto
  then show "cache_attended (c, tmo) \<Longrightarrow> cache_attended (c', tmo)"
    by (auto simp: cache_attended_def split: option.splits)
qed

lemma insert_entry_keys: "distinct (map fst es) \<Longrightarrow> distinct (map fst (insert_entry k x es))"
  by (auto simp: insert_entry_def map_of_eq_None_iff split: option.splits)

lemma abort_cb_set_attended: "cacheMap c = [] \<Longrightarrow> cb_set tm \<Longrightarrow> cache_attended (c, Some (timer_abort tm))"
  by (simp add: cache_attended_def)

lemma insert_image_ok:
  assumes "cache_inv (c, tmo)" and p: "permutes_entries ord"
  shows "\<exists>ok st. imageDataInsertInCache ord uniq usage k v e now (c, tmo) = Some (ok, st) \<and> cache_inv st"
proof (cases v)
  case None
  with assms(1) show ?thesis by (auto simp: imageDataInsertInCache_def)
next
  case (Some img)
  have a: "keys_ok c" "cache_attended (c, tmo)" using assms(1) by (auto simp: cache_inv_def)
  obtain ok c1 where ev: "evictAsNeeded ord uniq usage c = (ok, c1)" by fastforce
  have a1: "keys_ok c1" "cache_attended (c1, tmo)"
    using evict_keys [OF p ev a(1)] evict_attended(2) [OF p ev a(2)] by auto
  let ?c = "c1\<lparr>cacheMap := insert_entry k (img, e) (cacheMap c1)\<rparr>"
  have "cacheMap ?c \<noteq> []" by (cases "cacheMap c1") (auto simp: insert_entry_def split: option.splits)
  moreover have "1 < length (cacheMap ?c) \<Longrightarrow> cacheMap c1 \<noteq> []" by (auto simp: insert_entry_def)
  ultimately obtain st where st: "arm_timer now e (?c, tmo) = Some st" "cache_attended st"
    using arm_after_change [OF a1(2)] by blast
  have "keys_ok (fst st)"
    using arm_timer_cache(1) [of now e ?c tmo "fst st" "snd st"] st(1) a1(1) insert_entry_keys by (auto simp: keys_ok_def)
  with st a1 ev Some show ?thesis by (cases ok) (auto simp: imageDataInsertInCache_def cache_inv_def)
qed

lemma clear_ok:
  assumes "cache_inv (c, Some tm) \<or> cache_inv (c, tmo) \<and> tmo = Some tm"
  shows "\<exists>st. clearMemory uniq (c, Some tm) = Some (True, st) \<and> cache_inv st"
proof -
  let ?c = "c\<lparr>cacheMap := [e \<leftarrow> cacheMap c. \<not> uniq (fst (snd e))]\<rparr>"
  have a: "keys_ok c" "cache_attended (c, Some tm)" "cb_set tm"
    using assms attended_timer(1) by (auto simp: cache_inv_def)
  then have k: "keys_ok ?c" by (auto simp: keys_ok_def distinct_map intro: inj_on_subset)
  show ?thesis
  proof (cases "cacheMap ?c = []")
    case True
    have "cache_attended (?c, Some (timer_abort tm))" by (rule abort_cb_set_attended [OF True a(3)])
    with True k show ?thesis by (simp add: clearMemory_def Let_def cache_inv_def del: filter_empty_conv)
  next
    case False
    then have "cacheMap c \<noteq> []" by auto
    with a attended_timer have "cache_attended (?c, Some tm)" by blast
    with False k show ?thesis by (simp add: clearMemory_def Let_def cache_inv_def del: filter_empty_conv)
  qed
qed

lemma image_step_ok:
  assumes inv: "cache_inv st" and p: "permutes_entries ord" and ok: "e = ClearMemory \<Longrightarrow> snd st \<noteq> None"
  shows "\<exists>st'. image_step ord uniq st e = Some st' \<and> cache_inv st'"
proof -
  obtain c tmo where st: "st = (c, tmo)" by fastforce
  with inv have k: "keys_ok c" and a: "cache_attended (c, tmo)" by (auto simp: cache_inv_def)
  show ?thesis
  proof (cases e)
    case (InsertImage usage k v t now)
    obtain ok' st' where "imageDataInsertInCache ord uniq usage k v t now (c, tmo) = Some (ok', st')" "cache_inv st'"
      using insert_image_ok [OF inv [unfolded st] p] by blast
    with st InsertImage show ?thesis by simp
  next
    case ClearMemory
    with ok st obtain tm where "tmo = Some tm" by auto
    with clear_ok [of c tm] inv st obtain st' where "clearMemory uniq (c, tmo) = Some (True, st')" "cache_inv st'" by blast
    with st ClearMemory show ?thesis by simp
  qed (use expire_thread_ok [OF inv] in \<open>simp_all add: expiryTimeCallback_def\<close>)
qed


section \<open>Properties\<close>

text \<open>The value last set for a key, and the times of the clean-ups that may have run.\<close>

fun last_set :: "'k \<Rightarrow> ('k, 'v) cache_event list \<Rightarrow> ('v \<times> scalar) option" where
  "last_set k [] = None"
| "last_set k (SetCache k' v e now # es) =
     (case last_set k es of None \<Rightarrow> if k' = k then Some (v, e) else None | Some x \<Rightarrow> Some x)"
| "last_set k (_ # es) = last_set k es"

definition cleanup_times :: "('k, 'v) cache_event list \<Rightarrow> scalar set" where
  "cleanup_times es = {n1. \<exists>now el n2. CacheTask now el n1 n2 \<in> set es \<or> CacheWheel now el n1 n2 \<in> set es}"

lemma last_set_snoc:
  "last_set k (es @ [e]) = (case e of SetCache k' v t now \<Rightarrow> if k' = k then Some (v, t) else last_set k es | _ \<Rightarrow> last_set k es)"
  by (induction k es rule: last_set.induct) (auto split: cache_event.splits option.splits)

lemma cleanup_times_snoc: "cleanup_times es \<subseteq> cleanup_times (es @ [e])"
  "cleanup_times (es @ [CacheTask a b n c]) = insert n (cleanup_times es)"
  "cleanup_times (es @ [CacheWheel a b n c]) = insert n (cleanup_times es)"
  by (auto simp: cleanup_times_def)

text \<open>\<open>m\<close> holds what was last set, less what a clean-up at one of the times \<open>T\<close> found expired.\<close>

definition holds_last :: "('k \<Rightarrow> ('v \<times> scalar) option) \<Rightarrow> scalar set \<Rightarrow> ('k \<Rightarrow> ('v \<times> scalar) option) \<Rightarrow> bool" where
  "holds_last l T m \<longleftrightarrow> (\<forall>k. m k = l k \<or> m k = None \<and> (\<exists>v e t. l k = Some (v, e) \<and> t \<in> T \<and> e \<le> t))"

lemma holds_last_mono: "holds_last l T m \<Longrightarrow> T \<subseteq> T' \<Longrightarrow> holds_last l T' m"
  unfolding holds_last_def by blast

lemma expire_holds_last:
  assumes "keys_ok c" and "holds_last l T (contents c)" and "expire n1 n2 n3 (c, tm) = Some (c', tm')" and "n1 \<in> T"
  shows "holds_last l T (contents c')"
  unfolding holds_last_def
proof
  fix k
  have "contents c' k = (case contents c k of None \<Rightarrow> None | Some (v, e) \<Rightarrow> if e \<le> n1 then None else Some (v, e))"
    by (rule expire_contents [OF assms(1,3)])
  moreover have "contents c k = l k \<or> contents c k = None \<and> (\<exists>v e t. l k = Some (v, e) \<and> t \<in> T \<and> e \<le> t)"
    using assms(2) by (auto simp: holds_last_def)
  ultimately show "contents c' k = l k \<or> contents c' k = None \<and> (\<exists>v e t. l k = Some (v, e) \<and> t \<in> T \<and> e \<le> t)"
    using assms(4) by (auto split: option.splits if_splits)
qed

lemma cleanup_holds_last:
  assumes "keys_ok c" and "holds_last l T (contents c)" and "n1 \<in> T"
    and "c' = c \<or> (\<exists>tm tm1. expiryTimerCallback n1 n2 (c, tm) = Some (c', tm1))"
  shows "holds_last l T (contents c')"
  using assms(2,4) expire_holds_last [OF assms(1,2) _ assms(3)] by (auto simp: expiryTimerCallback_def)

lemma run_holds_last:
  "run_opt cache_step (new_cache, None) es = Some st \<Longrightarrow>
     holds_last (\<lambda>k. last_set k es) (cleanup_times es) (contents (fst st))"
proof (induction es arbitrary: st rule: rev_induct)
  case Nil
  then show ?case by (auto simp: holds_last_def contents_def new_cache_def)
next
  case (snoc e es)
  obtain c tmo where r: "run_opt cache_step (new_cache, None) es = Some (c, tmo)" and s: "cache_step (c, tmo) e = Some st"
    using snoc.prems by (auto simp: run_opt_append split: bind_splits)
  have k: "keys_ok c" using cache_run_ok [of es] r by (auto simp: cache_inv_def)
  have h: "holds_last (\<lambda>k. last_set k es) (cleanup_times (es @ [e])) (contents c)"
    using snoc.IH [OF r] holds_last_mono [OF _ cleanup_times_snoc(1)] by simp
  show ?case
  proof (cases e)
    case (SetCache k' v t now)
    with s have "contents (fst st) = (contents c)(k' \<mapsto> (v, t))"
      using setCache_contents(1) [of k' v t now c tmo "fst st" "snd st"] by simp
    with h SetCache show ?thesis by (auto simp: holds_last_def last_set_snoc)
  next
    case (CacheTask now el n1 n2)
    then have "fst st = c \<or> (\<exists>tm tm1. expiryTimerCallback n1 n2 (c, tm) = Some (fst st, tm1))"
      using s thread_fst [of now el _ c tmo "fst st" "snd st"] by simp
    from cleanup_holds_last [OF k h _ this] CacheTask show ?thesis by (auto simp: last_set_snoc cleanup_times_snoc)
  next
    case (CacheWheel now el n1 n2)
    then have "fst st = c \<or> (\<exists>tm tm1. expiryTimerCallback n1 n2 (c, tm) = Some (fst st, tm1))"
      using s thread_fst [of now el _ c tmo "fst st" "snd st"] by simp
    from cleanup_holds_last [OF k h _ this] CacheWheel show ?thesis by (auto simp: last_set_snoc cleanup_times_snoc)
  qed
qed

lemma uses_are_steps:
  "turns_apart b us \<Longrightarrow> \<exists>b'. run_opt cache_use_step (st, b) us = map_option (\<lambda>st'. (st', b')) (run_opt cache_step st (done_by us))"
proof (induction us arbitrary: st b)
  case (Cons u us)
  show ?case
  proof (cases u)
    case (Do e)
    with Cons.prems have "turns_apart False us" by simp
    moreover have "cache_use_step (st, b) u = map_option (\<lambda>st'. (st', False)) (cache_step st e)"
      using Do Cons.prems by (cases e) auto
    ultimately show ?thesis using Do Cons.IH by (cases "cache_step st e") auto
  qed (use Cons in auto)
qed simp

text \<open>C18: As long as no entry is set or looked up while the timer thread cleans up, which the code does not
  rule out, the response cache implements a map with expiry: it never faults, a lookup returns the value last set
  for the key, unless a clean-up found it expired, and while an entry is there the clean-up has a wake-up on its
  way.\<close>

theorem response_cache_is_map_with_expiry:
  assumes "turns_apart False us"
  shows "\<exists>c tmo b. run_opt cache_use_step ((new_cache, None), False) us = Some ((c, tmo), b) \<and>
     (case last_set k (done_by us) of
        None \<Rightarrow> getCacheData k c = None
      | Some (v, e) \<Rightarrow> getCacheData k c = Some v \<or> getCacheData k c = None \<and> (\<exists>t \<in> cleanup_times (done_by us). e \<le> t)) \<and>
     isAvailableInCache k c = (getCacheData k c \<noteq> None) \<and>
     (cacheMap c = [] \<or> (\<exists>tm. tmo = Some tm \<and> wakes tm))"
proof -
  let ?es = "done_by us"
  obtain c tmo where r: "run_opt cache_step (new_cache, None) ?es = Some (c, tmo)" and i: "cache_inv (c, tmo)"
    using cache_run_ok [of ?es] by auto
  obtain b where u: "run_opt cache_use_step ((new_cache, None), False) us = Some ((c, tmo), b)"
    using uses_are_steps [OF assms, of "(new_cache, None)"] r by auto
  have "contents c k = last_set k ?es \<or> contents c k = None \<and> (\<exists>v e t. last_set k ?es = Some (v, e) \<and> t \<in> cleanup_times ?es \<and> e \<le> t)"
    using run_holds_last [OF r] by (simp add: holds_last_def)
  moreover have "cacheMap c = [] \<or> (\<exists>tm. tmo = Some tm \<and> wakes tm)"
    using i attended_timer(2) by (auto simp: cache_inv_def)
  moreover have "getCacheData k c = map_option fst (contents c k)" "isAvailableInCache k c = (contents c k \<noteq> None)"
    by (auto simp: getCacheData_def isAvailableInCache_def contents_def split: option.splits)
  ultimately show ?thesis using u by (intro exI [of _ c] exI [of _ tmo] exI [of _ b]) (cases "last_set k ?es"; auto)
qed

text \<open>An entry that expires at 10 is set, and cleaned up in a turn of the timer thread at 20.\<close>

definition sample_uses :: "(nat, nat) cache_use list" where
  "sample_uses = [Do (SetCache 1 7 10 0), Look 1, Turn, Do (CacheTask 0 0 20 20), Turn, Do (CacheWheel 20 20 20 20)]"

theorem response_cache_is_map_with_expiry_witness:
  "\<exists>c tmo b. run_opt cache_use_step ((new_cache, None), False) sample_uses = Some ((c, tmo), b) \<and>
     (getCacheData 1 c = Some 7 \<or> getCacheData 1 c = None)"
  using response_cache_is_map_with_expiry [of sample_uses 1] by (auto simp: sample_uses_def)

text \<open>The response cache never finds itself full: what it holds is not counted, so that whether
  an entry of a size needs eviction depends on that size alone.\<close>

theorem need_evict_ignores_contents:
  assumes "run_opt cache_step (new_cache, None) es = Some (c, tmo)"
  shows "needEvict required c \<longleftrightarrow> 9961472 \<le> required"
proof -
  have "overallCurrentSize (fst st') = overallCurrentSize (fst st)" if "cache_step st e = Some st'"
    for st st' :: "('a, 'b) cache_state" and e
  proof -
    obtain c tmo where st: "st = (c, tmo)" by fastforce
    show ?thesis
    proof (cases e)
      case (SetCache k v t now)
      with that arm_timer_cache(2) [of now t _ tmo "fst st'" "snd st'"] show ?thesis by (fastforce simp: setCache_def st)
    qed (use that thread_fst [of _ _ _ c tmo "fst st'" "snd st'"] in \<open>fastforce simp: st expiryTimerCallback_def dest: expire_cache(2)\<close>)+
  qed
  then have "run_opt cache_step st es = Some st' \<Longrightarrow> overallCurrentSize (fst st') = overallCurrentSize (fst st)"
    for st st' :: "('a, 'b) cache_state"
    by (induction es arbitrary: st) (auto split: bind_splits)
  from this [OF assms] show ?thesis by (auto simp: needEvict_def new_cache_def)
qed

text \<open>Eviction of images: at most two go, none of them in use, and only under memory pressure; an
  insertion succeeds exactly when there is none, or two images went (one does not suffice).\<close>

theorem eviction_spares_images_in_use:
  assumes "permutes_entries ord" and "imageDataInsertInCache ord uniq usage k (Some img) e now (c, tmo) = Some (ok, c', tmo')"
  shows "\<exists>removed kept. mset (cacheMap c) = mset kept + mset removed \<and> (\<forall>x \<in> set removed. uniq (fst (snd x))) \<and>
    cacheMap c' = (if ok then insert_entry k (img, e) kept else kept) \<and>
    (if fst usage < hwm_limit \<and> snd usage < hwm_limit then ok \<and> removed = [] else length removed \<le> 2 \<and> ok = (length removed = 2))"
proof -
  obtain ok1 c1 where ev: "evictAsNeeded ord uniq usage c = (ok1, c1)" by fastforce
  from evict_result [OF assms(1) ev] obtain removed where r:
    "mset (cacheMap c) = mset (cacheMap c1) + mset removed" "\<forall>x \<in> set removed. uniq (fst (snd x))"
    "length removed \<le> 2" "ok1 \<longleftrightarrow> fst usage < hwm_limit \<and> snd usage < hwm_limit \<or> length removed = 2"
    "fst usage < hwm_limit \<and> snd usage < hwm_limit \<longrightarrow> removed = []" by blast
  moreover have "ok = ok1" and "cacheMap c' = (if ok1 then insert_entry k (img, e) (cacheMap c1) else cacheMap c1)"
    using assms(2) ev by (auto simp: imageDataInsertInCache_def dest: arm_timer_cache(1) split: if_splits)
  ultimately show ?thesis by (intro exI [of _ removed] exI [of _ "cacheMap c1"]) auto
qed

lemma eviction_spares_images_in_use_witness:
  "\<exists>removed kept. mset (cacheMap (new_cache\<lparr>cacheMap := [(1, (True, 5)), (2, (False, 6))]\<rparr>)) = mset kept + mset removed \<and>
    (\<forall>x \<in> set removed. fst (snd x)) \<and>
    cacheMap (new_cache\<lparr>cacheMap := [(2 :: nat, (False, 6))]\<rparr>) = (if False then insert_entry 3 (True, 9) kept else kept) \<and>
    (if fst (hwm_limit, 0 :: scalar) < hwm_limit \<and> snd (hwm_limit, 0) < hwm_limit then False \<and> removed = []
     else length removed \<le> 2 \<and> False = (length removed = 2))"
proof -
  let ?c = "new_cache\<lparr>cacheMap := [(1, (True, 5)), (2 :: nat, (False, 6))]\<rparr>"
  let ?c' = "new_cache\<lparr>cacheMap := [(2 :: nat, (False, 6))]\<rparr>"
  have "imageDataInsertInCache id (\<lambda>v. v) (hwm_limit, 0) 3 (Some True) 9 1 (?c, None) = Some (False, ?c', None)"
    by (simp add: imageDataInsertInCache_def evictAsNeeded_def)
  from eviction_spares_images_in_use [OF _ this] show ?thesis by (simp add: permutes_entries_def)
qed

text \<open>The image cache never faults unless it is cleared before anything was ever inserted, and while
  an image is in it the clean-up has a wake-up on its way.\<close>

theorem image_cache_attended:
  assumes "permutes_entries ord" and "\<forall>e \<in> set es. e \<noteq> ClearMemory"
  shows "\<exists>c tmo. run_opt (image_step ord uniq) (new_cache, None) es = Some (c, tmo) \<and> distinct (map fst (cacheMap c)) \<and>
     (cacheMap c = [] \<or> (\<exists>tm. tmo = Some tm \<and> wakes tm)) \<and>
     (tmo = None \<or> (\<exists>c' tm'. image_step ord uniq (c, tmo) ClearMemory = Some (c', Some tm') \<and> (cacheMap c' = [] \<or> wakes tm')))"
proof -
  have "run_opt (image_step ord uniq) st es \<noteq> None \<and> (\<forall>st'. run_opt (image_step ord uniq) st es = Some st' \<longrightarrow> cache_inv st')"
    if "cache_inv st" for st
    using that assms(2)
  proof (induction es arbitrary: st)
    case (Cons e es)
    then obtain st1 where "image_step ord uniq st e = Some st1" "cache_inv st1"
      using image_step_ok [OF _ assms(1), of st e uniq] by auto
    with Cons show ?case by auto
  qed simp
  from this [OF new_cache_inv] obtain c tmo where r: "run_opt (image_step ord uniq) (new_cache, None) es = Some (c, tmo)"
    and i: "cache_inv (c, tmo)" by auto
  have "tmo = None \<or> (\<exists>c' tm'. image_step ord uniq (c, tmo) ClearMemory = Some (c', Some tm') \<and> (cacheMap c' = [] \<or> wakes tm'))"
  proof (cases tmo)
    case (Some tm)
    with image_step_ok [OF i assms(1), of ClearMemory uniq] obtain c' tmo' where
      s: "image_step ord uniq (c, tmo) ClearMemory = Some (c', tmo')" "cache_inv (c', tmo')" by auto
    moreover have "tmo' \<noteq> None" using s(1) Some by (auto simp: clearMemory_def Let_def split: if_splits)
    ultimately show ?thesis using attended_timer(2) by (fastforce simp: cache_inv_def)
  qed simp
  with r i attended_timer(2) show ?thesis by (auto simp: cache_inv_def keys_ok_def)
qed

lemma image_cache_attended_witness:
  "\<exists>c tmo. run_opt (image_step id (\<lambda>v. v)) (new_cache, None) [InsertImage (0, 0) (1 :: nat) (Some True) 50 0] = Some (c, tmo) \<and>
     distinct (map fst (cacheMap c)) \<and> (cacheMap c = [] \<or> (\<exists>tm. tmo = Some tm \<and> wakes tm)) \<and>
     (tmo = None \<or> (\<exists>c' tm'. image_step id (\<lambda>v. v) (c, tmo) ClearMemory = Some (c', Some tm') \<and> (cacheMap c' = [] \<or> wakes tm')))"
  by (rule image_cache_attended) (simp_all add: permutes_entries_def)

text \<open>Clearing the image cache before anything was inserted calls a method of a null timer.\<close>

theorem clearing_unused_image_cache_faults: "clearMemory uniq (new_cache, None) = None"
  by (simp add: clearMemory_def new_cache_def)

lemma need_evict_ignores_contents_witness:
  "\<exists>c tmo. run_opt cache_step (new_cache, None) [SetCache (1 :: nat) (0 :: nat) 50 0] = Some (c, tmo) \<and>
     cacheMap c \<noteq> [] \<and> (needEvict 100 c \<longleftrightarrow> 9961472 \<le> (100 :: scalar))"
proof -
  obtain c tmo where r: "run_opt cache_step (new_cache, None) [SetCache (1 :: nat) (0 :: nat) 50 0] = Some (c, tmo)"
    and "cacheMap c \<noteq> []" by (auto simp: setCache_def arm_timer_def new_cache_def)
  with need_evict_ignores_contents [OF r, of 100] show ?thesis by blast
qed

end
