(* ===== verification/Damage.thy ===== *)
theory Damage imports SkGeom begin

text \<open>
  Lists of dirty rectangles: what has to be painted again. The compositor's
  (\<open>Layer::addDamageRect\<close>, \<open>rns_shell/compositor/layers/Layer.cpp\<close>) and the window delegator's
  (\<open>generateDirtyRect\<close>, \<open>ReactSkia/sdk/WindowDelegator.cpp\<close>) both drop a rectangle that another
  one contains.

  \<open>pixels\<close> is the set of the points of a list. The contract \<open>dirty_list\<close> says that adding a
  rectangle adds its points and nothing else; both routines satisfy it, and on a list without
  redundant rectangles they give the same list.
\<close>

section \<open>The two routines\<close>

type_synonym damage = "sk_irect list"

text \<open>
  The loop of \<open>addDamageRect\<close>: rectangles inside the new one are erased, and after the first
  erasure no further test is made whether one contains the new one (\<open>chk\<close>). \<open>None\<close>: one does, and
  the list stays as it was.
\<close>

fun damage_loop :: "sk_rect_api \<Rightarrow> sk_irect \<Rightarrow> bool \<Rightarrow> damage \<Rightarrow> damage option" where
  "damage_loop sk r chk [] = Some []"
| "damage_loop sk r chk (d # ds) =
     (if r \<noteq> d \<and> irect_contains sk r d then damage_loop sk r False ds
      else if chk \<and> irect_contains sk d r then None
      else map_option (Cons d) (damage_loop sk r chk ds))"

definition addDamageRect :: "sk_rect_api \<Rightarrow> sk_irect \<Rightarrow> damage \<Rightarrow> damage" where
  "addDamageRect sk r ds = (case damage_loop sk r True ds of None \<Rightarrow> ds | Some ds' \<Rightarrow> ds' @ [r])"

text \<open>The inner loop of \<open>generateDirtyRect\<close>, and whether the new rectangle is to be added.\<close>

fun dirty_loop :: "sk_rect_api \<Rightarrow> sk_irect \<Rightarrow> damage \<Rightarrow> damage \<times> bool" where
  "dirty_loop sk r [] = ([], True)"
| "dirty_loop sk r (d # ds) =
     (if d = r \<or> irect_contains sk d r then (d # ds, False)
      else if irect_contains sk r d then dirty_loop sk r ds
      else apfst (Cons d) (dirty_loop sk r ds))"

definition add_dirty :: "sk_rect_api \<Rightarrow> sk_irect \<Rightarrow> damage \<Rightarrow> damage" where
  "add_dirty sk r ds = (let (ds', add) = dirty_loop sk r ds in if add then ds' @ [r] else ds')"

definition generateDirtyRect :: "sk_rect_api \<Rightarrow> sk_irect list \<Rightarrow> damage \<Rightarrow> damage" where
  "generateDirtyRect sk rs ds = fold (add_dirty sk) rs ds"

section \<open>Points\<close>

definition in_rect :: "int \<times> int \<Rightarrow> sk_irect \<Rightarrow> bool" where
  "in_rect p r \<longleftrightarrow> fLeft r \<le> fst p \<and> fst p < fRight r \<and> fTop r \<le> snd p \<and> snd p < fBottom r"

definition rect_pixels :: "sk_irect \<Rightarrow> (int \<times> int) set" where
  "rect_pixels r = {p. in_rect p r}"

definition pixels :: "damage \<Rightarrow> (int \<times> int) set" where
  "pixels ds = (\<Union>d \<in> set ds. rect_pixels d)"

lemma pixels_simps [simp]:
  "pixels [] = {}" "pixels (d # ds) = rect_pixels d \<union> pixels ds" "pixels (ds @ es) = pixels ds \<union> pixels es"
  by (auto simp: pixels_def)

lemma covers_pixels: "covers a b \<Longrightarrow> rect_pixels b \<subseteq> rect_pixels a"
  by (auto simp: covers_def rect_pixels_def in_rect_def)

lemma empty_pixels: "irect_empty r \<Longrightarrow> rect_pixels r = {}"
  by (auto simp: irect_empty_def rect_pixels_def in_rect_def)

text \<open>No rectangle of the list contains another one.\<close>

definition irredundant :: "damage \<Rightarrow> bool" where
  "irredundant ds \<longleftrightarrow> sorted_wrt (\<lambda>a b. \<not> covers a b \<and> \<not> covers b a) ds"

lemma irredundant_simps [simp]:
  "irredundant []"
  "irredundant (d # ds) \<longleftrightarrow> (\<forall>e \<in> set ds. \<not> covers d e \<and> \<not> covers e d) \<and> irredundant ds"
  "irredundant (ds @ es) \<longleftrightarrow> irredundant ds \<and> irredundant es \<and>
     (\<forall>d \<in> set ds. \<forall>e \<in> set es. \<not> covers d e \<and> \<not> covers e d)"
  by (auto simp: irredundant_def sorted_wrt_append)

section \<open>The contract\<close>

text \<open>What a routine that adds a rectangle to the list promises, if Skia's rectangles keep theirs.\<close>

locale dirty_list =
  fixes sk :: sk_rect_api and add :: "sk_irect \<Rightarrow> damage \<Rightarrow> damage"
  assumes add_pixels: "sk_rect_laws sk \<Longrightarrow> pixels (add r ds) = rect_pixels r \<union> pixels ds"
    and add_irredundant: "sk_rect_laws sk \<Longrightarrow> irredundant ds \<Longrightarrow> irredundant (add r ds)"
    and add_set: "set (add r ds) \<subseteq> insert r (set ds)"
begin

lemma fold_pixels: "sk_rect_laws sk \<Longrightarrow> pixels (fold add rs ds) = pixels rs \<union> pixels ds"
  by (induction rs arbitrary: ds) (auto simp: add_pixels)

lemma fold_irredundant: "sk_rect_laws sk \<Longrightarrow> irredundant ds \<Longrightarrow> irredundant (fold add rs ds)"
  by (induction rs arbitrary: ds) (simp_all add: add_irredundant)

lemma fold_set: "set (fold add rs ds) \<subseteq> set rs \<union> set ds"
  using add_set by (induction rs arbitrary: ds) fastforce+

end

section \<open>Both routines keep it\<close>

lemma damage_loop_some:
  assumes "sk_rect_laws sk" and "damage_loop sk r chk ds = Some ds'"
  shows "ds' = [d \<leftarrow> ds. r = d \<or> \<not> covers r d]"
  using assms(2)
proof (induction ds arbitrary: chk ds')
  case (Cons d ds)
  then show ?case by (auto simp: sk_contains [OF assms(1)] split: if_splits)
qed simp

lemma damage_loop_none:
  assumes "sk_rect_laws sk" and "damage_loop sk r chk ds = None"
  shows "\<exists>d \<in> set ds. covers d r"
  using assms(2)
proof (induction ds arbitrary: chk)
  case (Cons d ds)
  then show ?case by (auto simp: sk_contains [OF assms(1)] split: if_splits)
qed simp

lemma damage_loop_uncovered:
  assumes "sk_rect_laws sk" and "irredundant ds" and "damage_loop sk r True ds = Some ds'" and "d \<in> set ds"
    and "covers d r"
  shows False
  using assms(2,3,4)
proof (induction ds arbitrary: ds')
  case (Cons e ds)
  note c = sk_contains [OF assms(1)]
  show ?case
  proof (cases "r \<noteq> e \<and> covers r e")
    case True
    with Cons.prems(3) assms(5) have "d = e \<and> covers e r \<or> d \<in> set ds" by auto
    then show False
    proof
      assume "d = e \<and> covers e r"
      with True covers_antisym [of r e] show False by auto
    next
      assume "d \<in> set ds"
      with Cons.prems(1) True assms(5) covers_trans [of d r e] show False by auto
    qed
  next
    case False
    with Cons.prems c have "\<not> covers e r" "\<exists>es. damage_loop sk r True ds = Some es" by (auto split: if_splits)
    with Cons.IH Cons.prems(1,3) assms(5) show False by auto
  qed
qed simp

lemma damage_loop_set: "damage_loop sk r chk ds = Some ds' \<Longrightarrow> set ds' \<subseteq> set ds"
proof (induction ds arbitrary: chk ds')
  case (Cons d ds)
  show ?case
  proof (cases "r \<noteq> d \<and> irect_contains sk r d")
    case True
    with Cons show ?thesis by fastforce
  next
    case False
    with Cons.prems obtain es where "damage_loop sk r chk ds = Some es" "ds' = d # es" by (auto split: if_splits)
    with Cons.IH show ?thesis by fastforce
  qed
qed simp

lemma filter_pixels: "pixels [d \<leftarrow> ds. r = d \<or> \<not> covers r d] \<union> rect_pixels r = rect_pixels r \<union> pixels ds"
  using covers_pixels by (induction ds) auto

lemma irredundant_filter: "irredundant ds \<Longrightarrow> irredundant (filter P ds)"
  by (induction ds) auto

interpretation layer_damage: dirty_list sk "addDamageRect sk" for sk
proof (unfold_locales, goal_cases)
  case (1 r ds)
  then show ?case
    using covers_pixels damage_loop_none [OF 1, of r True ds] filter_pixels [of r ds]
    by (fastforce simp: addDamageRect_def pixels_def split: option.splits dest: damage_loop_some [OF 1])
next
  case (2 ds r)
  show ?case
  proof (cases "damage_loop sk r True ds")
    case None
    with 2 show ?thesis by (simp add: addDamageRect_def)
  next
    case (Some ds')
    then have ds': "ds' = [d \<leftarrow> ds. r = d \<or> \<not> covers r d]" by (rule damage_loop_some [OF 2(1)])
    have u: "\<not> covers d r" if "d \<in> set ds'" for d
      using that ds' damage_loop_uncovered [OF 2 Some, of d] by fastforce
    then have "\<not> covers r d \<and> \<not> covers d r" if "d \<in> set ds'" for d
      using that u [OF that] unfolding ds' by (cases "r = d") simp_all
    moreover have "irredundant ds'" unfolding ds' by (rule irredundant_filter [OF 2(2)])
    ultimately show ?thesis by (simp add: addDamageRect_def Some)
  qed
next
  case (3 r ds)
  show ?case using damage_loop_set [of sk r True ds] by (auto simp: addDamageRect_def split: option.splits)
qed

lemma dirty_loop_pixels:
  assumes "sk_rect_laws sk"
  shows "rect_pixels r \<union> pixels (fst (dirty_loop sk r ds)) = rect_pixels r \<union> pixels ds"
proof (induction ds)
  case (Cons d ds)
  then show ?case
    using covers_pixels [of r d] by (cases "d = r \<or> covers d r"; cases "covers r d") (auto simp: sk_contains [OF assms])
qed simp

lemma dirty_loop_result:
  assumes "sk_rect_laws sk"
  shows "if snd (dirty_loop sk r ds)
    then fst (dirty_loop sk r ds) = [d \<leftarrow> ds. \<not> covers r d] \<and> (\<forall>d \<in> set ds. d \<noteq> r \<and> \<not> covers d r)
    else \<exists>d \<in> set (fst (dirty_loop sk r ds)). d = r \<or> covers d r"
proof (induction ds)
  case (Cons d ds)
  then show ?case
    by (cases "d = r \<or> covers d r"; cases "covers r d"; cases "snd (dirty_loop sk r ds)")
      (auto simp: sk_contains [OF assms])
qed simp

lemma dirty_loop_set: "set (fst (dirty_loop sk r ds)) \<subseteq> set ds"
  by (induction ds) auto

lemma dirty_loop_irredundant:
  assumes "sk_rect_laws sk" and "irredundant ds"
  shows "irredundant (fst (dirty_loop sk r ds))"
  using assms(2) dirty_loop_set [of sk r] by (induction ds) (auto simp: sk_contains [OF assms(1)])

interpretation delegator_damage: dirty_list sk "add_dirty sk" for sk
proof (unfold_locales, goal_cases)
  case (1 r ds)
  have "rect_pixels r \<subseteq> pixels (fst (dirty_loop sk r ds))" if "\<not> snd (dirty_loop sk r ds)"
    using dirty_loop_result [OF 1, of r ds] that covers_pixels by (fastforce simp: pixels_def)
  then have "if snd (dirty_loop sk r ds) then True else rect_pixels r \<union> pixels (fst (dirty_loop sk r ds)) = pixels (fst (dirty_loop sk r ds))"
    by (auto split: if_splits)
  with dirty_loop_pixels [OF 1, of r ds] show ?case
    by (simp add: add_dirty_def split_beta Un_commute split: if_splits)
next
  case (2 ds r)
  show ?case
    using dirty_loop_irredundant [OF 2, of r] dirty_loop_result [OF 2(1), of r ds]
    by (auto simp: add_dirty_def split: prod.splits if_splits)
next
  case (3 r ds)
  show ?case using dirty_loop_set [of sk r ds] by (auto simp: add_dirty_def split_beta split: if_splits)
qed

section \<open>Properties\<close>

lemma dirty_loop_covered:
  assumes "sk_rect_laws sk" and "irredundant ds" and "d \<in> set ds" and "covers d r"
  shows "dirty_loop sk r ds = (ds, False)"
  using assms(2,3)
proof (induction ds)
  case (Cons e ds)
  show ?case
  proof (cases "e = r \<or> covers e r")
    case False
    then have d: "d \<in> set ds" using Cons.prems(2) assms(4) by auto
    then have "\<not> covers d e" using Cons.prems(1) by simp
    then have "\<not> covers r e" using assms(4) covers_trans by blast
    with False d Cons show ?thesis by (simp add: sk_contains [OF assms(1)])
  qed (simp add: sk_contains [OF assms(1)])
qed simp

text \<open>C19: The compositor's and the window delegator's routine for adding a dirty rectangle are
  equivalent on lists without redundant rectangles.\<close>

theorem damage_routines_agree:
  assumes "sk_rect_laws sk" and "irredundant ds" and "\<not> irect_empty r"
  shows "generateDirtyRect sk [r] ds = addDamageRect sk r ds"
proof (cases "damage_loop sk r True ds")
  case None
  then obtain d where "d \<in> set ds" "covers d r" using damage_loop_none [OF assms(1)] by blast
  with None dirty_loop_covered [OF assms(1,2)] show ?thesis
    by (simp add: generateDirtyRect_def add_dirty_def addDamageRect_def)
next
  case (Some ds')
  have u: "\<not> covers d r \<and> d \<noteq> r" if "d \<in> set ds" for d
    using damage_loop_uncovered [OF assms(1,2) Some that] covers_refl [OF assms(3)] by auto
  then have snd: "snd (dirty_loop sk r ds)"
    using dirty_loop_result [OF assms(1), of r ds] dirty_loop_set [of sk r ds] by (auto split: if_splits)
  moreover have "[d \<leftarrow> ds. r = d \<or> \<not> covers r d] = [d \<leftarrow> ds. \<not> covers r d]"
    using u by (auto intro: filter_cong)
  ultimately show ?thesis
    using dirty_loop_result [OF assms(1), of r ds] damage_loop_some [OF assms(1) Some] Some
    by (simp add: generateDirtyRect_def add_dirty_def addDamageRect_def split_beta)
qed

lemma damage_routines_agree_witness:
  "generateDirtyRect sk_rect_ref [\<lparr>fLeft = 0, fTop = 0, fRight = 9, fBottom = 9\<rparr>] [\<lparr>fLeft = 1, fTop = 1, fRight = 2, fBottom = 2\<rparr>] =
   addDamageRect sk_rect_ref \<lparr>fLeft = 0, fTop = 0, fRight = 9, fBottom = 9\<rparr> [\<lparr>fLeft = 1, fTop = 1, fRight = 2, fBottom = 2\<rparr>]"
  by (rule damage_routines_agree) (simp_all add: irect_empty_def)

text \<open>A list of dirty rectangles covers exactly what was added to it, and it never holds a rectangle
  that another one contains, in whatever order they come.\<close>

theorem damage_exact:
  assumes "sk_rect_laws sk"
  shows "pixels (fold (addDamageRect sk) rs []) = pixels rs \<and> irredundant (fold (addDamageRect sk) rs []) \<and>
    pixels (generateDirtyRect sk rs []) = pixels rs \<and> irredundant (generateDirtyRect sk rs [])"
  using layer_damage.fold_pixels [OF assms] layer_damage.fold_irredundant [OF assms]
    delegator_damage.fold_pixels [OF assms] delegator_damage.fold_irredundant [OF assms]
  by (simp add: generateDirtyRect_def)

lemma damage_exact_witness:
  "pixels (fold (addDamageRect sk_rect_ref) [\<lparr>fLeft = 0, fTop = 0, fRight = 9, fBottom = 9\<rparr>] []) =
     pixels [\<lparr>fLeft = 0, fTop = 0, fRight = 9, fBottom = 9\<rparr>]"
  using damage_exact [OF sk_rect_ref_laws] by blast

end
