(* ===== verification/Layers.thy ===== *)
theory Layers imports Damage ScrollLayer begin

text \<open>
  The tree of layers the compositor paints (\<open>rns_shell/compositor/layers/Layer.cpp\<close> and
  \<open>PictureLayer.cpp\<close>, and the part of \<open>ScrollLayer.cpp\<close> that walks the tree), in the default
  configuration: partial updates, no bitmap for scroll layers.

  \<open>prePaint\<close> lays the layers out and collects what has to be painted again, \<open>paint\<close> is the list of
  canvas operations. What is Skia's, matrices (\<open>'m\<close>) and the bounds of shadows, is a parameter:
  \<open>gfx\<close>. The pointer a layer has to its parent is used for the parent's matrix and frame: they are
  an argument here; the pointers themselves are in \<open>LayerLinks\<close>.
\<close>

section \<open>State\<close>

datatype LayerType = LAYER_TYPE_DEFAULT | LAYER_TYPE_VIRTUAL | LAYER_TYPE_PICTURE | LAYER_TYPE_SCROLL | LAYER_TYPE_TEXTURED

text \<open>\<open>LayerInvalidateMask\<close>, one field for each bit.\<close>

record layer_mask =
  paintInvalid :: bool
  layoutInvalid :: bool
  removeInvalid :: bool

definition mask_none :: layer_mask where
  "mask_none = \<lparr>paintInvalid = False, layoutInvalid = False, removeInvalid = False\<rparr>"

definition mask_remove :: layer_mask where
  "mask_remove = \<lparr>paintInvalid = False, layoutInvalid = False, removeInvalid = True\<rparr>"

definition mask_all :: layer_mask where
  "mask_all = \<lparr>paintInvalid = True, layoutInvalid = True, removeInvalid = False\<rparr>"

definition mask_or :: "layer_mask \<Rightarrow> layer_mask \<Rightarrow> layer_mask" where
  "mask_or a b = \<lparr>paintInvalid = (paintInvalid a \<or> paintInvalid b), layoutInvalid = (layoutInvalid a \<or> layoutInvalid b),
     removeInvalid = (removeInvalid a \<or> removeInvalid b)\<rparr>"

definition keep_remove :: "layer_mask \<Rightarrow> layer_mask" where
  "keep_remove a = \<lparr>paintInvalid = False, layoutInvalid = False, removeInvalid = removeInvalid a\<rparr>"

text \<open>
  What the code uses of Skia besides rectangles: \<open>gx_mapOut\<close> maps a rectangle and rounds the result
  outward, \<open>gx_join\<close> is the smallest rectangle around two.
\<close>

record 'm gfx =
  gx_sk :: sk_rect_api
  gx_round :: "scalar \<Rightarrow> int"
  gx_identity :: 'm
  gx_isIdentity :: "'m \<Rightarrow> bool"
  gx_preTranslate :: "scalar \<Rightarrow> scalar \<Rightarrow> 'm \<Rightarrow> 'm"
  gx_preConcat :: "'m \<Rightarrow> 'm \<Rightarrow> 'm"
  gx_mapOut :: "'m \<Rightarrow> sk_irect \<Rightarrow> sk_irect"
  gx_join :: "sk_irect \<Rightarrow> sk_irect \<Rightarrow> sk_irect"

text \<open>
  A shadow filter is the function from a frame to the bounds of its shadow, rounded outward (for the
  mask filter, of the frame moved by the shadow's offset). \<open>l_scroll\<close> is what a scroll layer has
  besides: its own state and the damage of its children.
\<close>

record 'm layer =
  layerId :: nat
  layer_type :: LayerType
  l_frame :: sk_irect
  frameBounds :: sk_irect
  absFrame :: sk_irect
  bounds :: sk_irect
  anchorPosition :: "scalar \<times> scalar"
  transformMatrix :: 'm
  absoluteTransformMatrix :: 'm
  isHidden :: bool
  masksToBounds :: bool
  skipParentMatrix :: bool
  invalidateMask :: layer_mask
  l_opacity :: scalar
  isShadowVisible :: bool
  shadowMaskFilter :: "(sk_irect \<Rightarrow> sk_irect) option"
  shadowImageFilter :: "(sk_irect \<Rightarrow> sk_irect) option"
  l_scroll :: "(scroll_layer \<times> damage) option"

datatype 'm tree = Node (layer_of: "'m layer") (children_of: "'m tree list")

definition layer_init :: "'m gfx \<Rightarrow> nat \<Rightarrow> LayerType \<Rightarrow> 'm layer" where
  "layer_init gx i ty = \<lparr>layerId = i, layer_type = ty, l_frame = irect_zero, frameBounds = irect_zero, absFrame = irect_zero,
     bounds = irect_zero, anchorPosition = (1 / 2, 1 / 2), transformMatrix = gx_identity gx,
     absoluteTransformMatrix = gx_identity gx, isHidden = False, masksToBounds = False, skipParentMatrix = False,
     invalidateMask = mask_all, l_opacity = 2559999 / 10000, isShadowVisible = False, shadowMaskFilter = None,
     shadowImageFilter = None, l_scroll = (if ty = LAYER_TYPE_SCROLL then Some (scroll_layer_init, []) else None)\<rparr>"

definition layer_invalidate :: "layer_mask \<Rightarrow> 'm layer \<Rightarrow> 'm layer" where
  "layer_invalidate k l = l\<lparr>invalidateMask := mask_or (invalidateMask l) k\<rparr>"

fun requireInvalidate :: "bool \<Rightarrow> 'm tree \<Rightarrow> bool" where
  "requireInvalidate skip (Node l ts) \<longleftrightarrow>
     invalidateMask l \<noteq> mask_none \<or> \<not> skip \<and> (\<exists>t \<in> set ts. requireInvalidate skip t)"

section \<open>Layout\<close>

text \<open>The parent's matrix and frame.\<close>

type_synonym 'm parent = "('m \<times> sk_irect) option"

definition calculateTransformMatrix :: "'m gfx \<Rightarrow> 'm parent \<Rightarrow> 'm layer \<Rightarrow> 'm" where
  "calculateTransformMatrix gx par l =
     (let m = (case par of
                 Some (pm, pf) \<Rightarrow> if \<not> skipParentMatrix l
                   then gx_preTranslate gx (of_int (fLeft pf)) (of_int (fTop pf)) pm else gx_identity gx
               | None \<Rightarrow> gx_identity gx);
          f = l_frame l;
          x = of_int (fLeft f) + of_int (irect_width (gx_sk gx) f) * fst (anchorPosition l);
          y = of_int (fTop f) + of_int (irect_height (gx_sk gx) f) * snd (anchorPosition l)
      in if gx_isIdentity gx (transformMatrix l) then m
         else gx_preTranslate gx (- x) (- y) (gx_preConcat gx (transformMatrix l) (gx_preTranslate gx x y m)))"

definition getFrameBoundsWithShadow :: "'m gfx \<Rightarrow> 'm layer \<Rightarrow> sk_irect" where
  "getFrameBoundsWithShadow gx l =
     (case shadowMaskFilter l of
        Some f \<Rightarrow> gx_join gx (f (l_frame l)) (l_frame l)
      | None \<Rightarrow>
          (case shadowImageFilter l of
             Some f \<Rightarrow> gx_join gx (f (l_frame l)) (l_frame l)
           | None \<Rightarrow> l_frame l))"

definition layout_layer :: "'m gfx \<Rightarrow> 'm parent \<Rightarrow> 'm layer \<Rightarrow> 'm layer" where
  "layout_layer gx par l =
     (let m = calculateTransformMatrix gx par l;
          af = gx_mapOut gx m (l_frame l);
          fb = (if isShadowVisible l then getFrameBoundsWithShadow gx l else l_frame l)
      in l\<lparr>absoluteTransformMatrix := m, absFrame := af, frameBounds := fb,
           bounds := if isShadowVisible l then gx_mapOut gx m fb else af\<rparr>)"

text \<open>\<open>preRoll\<close>: the layer laid out, and the damage; \<open>pu\<close>: partial updates are supported.\<close>

definition preRoll :: "'m gfx \<Rightarrow> bool \<Rightarrow> 'm parent \<Rightarrow> bool \<Rightarrow> 'm layer \<Rightarrow> damage \<Rightarrow> 'm layer \<times> damage" where
  "preRoll gx pu par force l ds =
     (let sk = gx_sk gx;
          relayout = force \<or> layoutInvalid (invalidateMask l);
          l1 = (if relayout then layout_layer gx par l else l);
          ds1 = (if relayout \<and> layoutInvalid (invalidateMask l) \<and> pu \<and> \<not> irect_empty (bounds l) \<and>
                   \<not> irect_contains sk (bounds l1) (bounds l)
                 then addDamageRect sk (bounds l) ds else ds);
          ds2 = (if pu \<and> invalidateMask l \<noteq> mask_none then addDamageRect sk (bounds l1) ds1 else ds1)
      in (l1, ds2))"

section \<open>Before painting\<close>

text \<open>Damage of the children of a scroll layer, on the screen and inside the layer.\<close>

definition screen_damage :: "sk_rect_api \<Rightarrow> sk_irect \<Rightarrow> int \<times> int \<Rightarrow> sk_irect \<Rightarrow> damage \<Rightarrow> damage" where
  "screen_damage sk af off r ds =
     (case irect_intersect sk
             (irect_makeOffset sk (irect_makeOffset sk r (- fst off) (- snd off)) (fLeft af) (fTop af)) af of
        None \<Rightarrow> ds
      | Some r' \<Rightarrow> addDamageRect sk r' ds)"

definition set_skip :: "'m tree \<Rightarrow> 'm tree" where
  "set_skip t = Node ((layer_of t)\<lparr>skipParentMatrix := True\<rparr>) (children_of t)"

lemma size_set_skip [simp]: "size (set_skip t) = size t"
  by (cases t) (simp add: set_skip_def)

text \<open>
  The end of a scroll layer's \<open>prePaint\<close>: the scroll bar and, unless the layer is painted as a
  whole, the damage of its children. \<open>bitmapSurfaceDamage_\<close> (\<open>bd\<close>) is cleared by \<open>paint\<close>.
\<close>

definition scroll_prePaint :: "'m gfx \<Rightarrow> bool \<Rightarrow> 'm layer \<Rightarrow> scroll_layer \<Rightarrow> damage \<Rightarrow> damage \<Rightarrow> 'm layer \<times> damage" where
  "scroll_prePaint gx pu l sl bd ds =
     (let sk = gx_sk gx;
          k = invalidateMask l;
          bar = (if layoutInvalid k then updateScrollLayerLayout sk (gx_round gx) (contentSize sl) (l_frame l) (scrollbar sl)
                 else scrollbar sl);
          lm = (if k = mask_none then LayerInvalidateNone else LayerPaintInvalidate);
          (br, bar1) = (if pu then getScrollBarAbsFrame sk (absFrame l) lm bar else (irect_zero, bar));
          ds1 = (if pu \<and> br \<noteq> irect_zero then addDamageRect sk br ds else ds);
          ds2 = (if pu \<and> k = mask_none then fold (screen_damage sk (absFrame l) (scrollPosition sl)) bd ds1 else ds1)
      in (l\<lparr>invalidateMask := keep_remove k, l_scroll := Some (sl\<lparr>scrollbar := bar1\<rparr>, bd)\<rparr>, ds2))"

function (sequential)
  prePaint :: "'m gfx \<Rightarrow> bool \<Rightarrow> 'm parent \<Rightarrow> bool \<Rightarrow> 'm tree \<Rightarrow> damage \<Rightarrow> 'm tree \<times> damage" and
  prePaint_list :: "'m gfx \<Rightarrow> bool \<Rightarrow> 'm parent \<Rightarrow> bool \<Rightarrow> 'm tree list \<Rightarrow> damage \<Rightarrow> 'm tree list \<times> damage" where
  "prePaint gx pu par force (Node l ts) ds =
     (let force' = force \<or> layoutInvalid (invalidateMask l);
          (l1, ds1) = preRoll gx pu par force l ds;
          par' = Some (absoluteTransformMatrix l1, l_frame l1)
      in (case l_scroll l of
            None \<Rightarrow>
              let (ts', ds2) = prePaint_list gx pu par' force' ts ds1
              in (Node (l1\<lparr>invalidateMask := keep_remove (invalidateMask l1)\<rparr>)
                    [t \<leftarrow> ts'. invalidateMask (layer_of t) \<noteq> mask_remove], ds2)
          | Some (sl, bd) \<Rightarrow>
              let (ts', bd') = prePaint_list gx True par' force' (map set_skip ts) bd;
                  (l2, ds2) = scroll_prePaint gx pu l1 sl bd' ds1
              in (Node l2 [t \<leftarrow> ts'. \<not> removeInvalid (invalidateMask (layer_of t))], ds2)))"
| "prePaint_list gx pu par force [] ds = ([], ds)"
| "prePaint_list gx pu par force (t # ts) ds =
     (let (t', ds1) = prePaint gx pu par force t ds;
          (ts', ds2) = prePaint_list gx pu par force ts ds1
      in (t' # ts', ds2))"
  by pat_completeness auto
termination
  by (relation "measure (\<lambda>x. case x of Inl (gx, pu, par, force, t, ds) \<Rightarrow> size t
        | Inr (gx, pu, par, force, ts, ds) \<Rightarrow> size_list size ts)")
    (auto simp: size_list_conv_sum_list comp_def)

section \<open>Painting\<close>

text \<open>
  \<open>SetMatrix m off\<close>: the layer's matrix after a translation by the scroll offset. A layer is named by
  its \<open>layerId\<close>.
\<close>

datatype 'm paint_op =
  Save | Restore | SetMatrix 'm "int \<times> int" | SaveAlpha nat | PaintSelf nat | ClipFrame nat | PaintBar nat | PaintBorder nat

definition needsPainting :: "'m gfx \<Rightarrow> bool \<Rightarrow> int \<times> int \<Rightarrow> damage \<Rightarrow> 'm layer \<Rightarrow> bool" where
  "needsPainting gx pu off ds l \<longleftrightarrow>
     \<not> (irect_empty (l_frame l) \<or> isHidden l) \<and>
     (\<not> pu \<or> (\<exists>d \<in> set ds.
        let b = (if off = (0, 0) then bounds l else irect_makeOffset (gx_sk gx) (bounds l) (fst off) (snd off))
        in irect_intersect (gx_sk gx) b d \<noteq> None))"

definition apply_alpha :: "'m layer \<Rightarrow> 'm paint_op list" where
  "apply_alpha l = (if 0 \<le> l_opacity l \<and> l_opacity l < 255 then [SaveAlpha (layerId l)] else [])"

fun paint :: "'m gfx \<Rightarrow> bool \<Rightarrow> int \<times> int \<Rightarrow> damage \<Rightarrow> 'm tree \<Rightarrow> 'm paint_op list \<times> 'm tree"
  and paintChildren :: "'m gfx \<Rightarrow> bool \<Rightarrow> int \<times> int \<Rightarrow> damage \<Rightarrow> 'm tree list \<Rightarrow> 'm paint_op list \<times> 'm tree list" where
  "paint gx pu off ds (Node l ts) =
     (let pre = [Save, SetMatrix (absoluteTransformMatrix l) off]
      in if l_opacity l \<le> 0 then (pre @ [Restore], Node l ts)
         else (case l_scroll l of
                 None \<Rightarrow>
                   let (ops, ts') = paintChildren gx pu off ds ts
                   in (pre @ apply_alpha l @ [PaintSelf (layerId l)] @
                         (if masksToBounds l then [ClipFrame (layerId l)] else []) @ ops @ [Restore], Node l ts')
               | Some (sl, bd) \<Rightarrow>
                   let off' = (fst off + fLeft (absFrame l) - fst (scrollPosition sl),
                               snd off + fTop (absFrame l) - snd (scrollPosition sl));
                       (ops, ts') = paintChildren gx pu off' ds ts
                   in (pre @ apply_alpha l @ [PaintSelf (layerId l), ClipFrame (layerId l)] @ ops @
                         [PaintBar (layerId l), PaintBorder (layerId l), Restore],
                       Node (l\<lparr>l_scroll := Some (sl, [])\<rparr>) ts')))"
| "paintChildren gx pu off ds [] = ([], [])"
| "paintChildren gx pu off ds (t # ts) =
     (let (ops, t') = (if needsPainting gx pu off ds (layer_of t) then paint gx pu off ds t else ([], t));
          (ops', ts') = paintChildren gx pu off ds ts
      in (ops @ ops', t' # ts'))"

section \<open>What is painted again\<close>

text \<open>The layers outside scroll layers: their bounds are places on the screen.\<close>

fun outer :: "'m tree \<Rightarrow> 'm layer list" where
  "outer (Node l ts) = l # (if l_scroll l = None then concat (map outer ts) else [])"

lemma add_damage_pixels:
  "sk_rect_laws sk \<Longrightarrow> pixels (addDamageRect sk r ds) = rect_pixels r \<union> pixels ds"
  by (rule layer_damage.add_pixels)

lemma preRoll_layer [simp]:
  "layerId (fst (preRoll gx pu par force l ds)) = layerId l"
  "invalidateMask (fst (preRoll gx pu par force l ds)) = invalidateMask l"
  "l_scroll (fst (preRoll gx pu par force l ds)) = l_scroll l"
  "l_frame (fst (preRoll gx pu par force l ds)) = l_frame l"
  by (simp_all add: preRoll_def layout_layer_def Let_def)

lemma preRoll_damage:
  assumes "sk_rect_laws (gx_sk gx)"
  shows "pixels ds \<subseteq> pixels (snd (preRoll gx pu par force l ds))"
    and "pu \<Longrightarrow> invalidateMask l \<noteq> mask_none \<Longrightarrow>
      rect_pixels (bounds (fst (preRoll gx pu par force l ds))) \<subseteq> pixels (snd (preRoll gx pu par force l ds))"
    and "pu \<Longrightarrow> layoutInvalid (invalidateMask l) \<Longrightarrow> rect_pixels (bounds l) \<subseteq> pixels (snd (preRoll gx pu par force l ds))"
proof -
  have n: "layoutInvalid k \<Longrightarrow> k \<noteq> mask_none" for k by (auto simp: mask_none_def)
  show "pixels ds \<subseteq> pixels (snd (preRoll gx pu par force l ds))"
    by (auto simp: preRoll_def Let_def add_damage_pixels [OF assms])
  show "pu \<Longrightarrow> invalidateMask l \<noteq> mask_none \<Longrightarrow>
      rect_pixels (bounds (fst (preRoll gx pu par force l ds))) \<subseteq> pixels (snd (preRoll gx pu par force l ds))"
    by (auto simp: preRoll_def Let_def add_damage_pixels [OF assms])
  show "rect_pixels (bounds l) \<subseteq> pixels (snd (preRoll gx pu par force l ds))" if "pu" "layoutInvalid (invalidateMask l)"
  proof (cases "irect_empty (bounds l) \<or> covers (bounds (layout_layer gx par l)) (bounds l)")
    case True
    then show ?thesis
      using that n [OF that(2)] empty_pixels [of "bounds l"] covers_pixels
      by (fastforce simp: preRoll_def Let_def add_damage_pixels [OF assms] sk_contains [OF assms])
  next
    case False
    with that n [OF that(2)] show ?thesis
      by (simp add: preRoll_def Let_def add_damage_pixels [OF assms] sk_contains [OF assms]) blast
  qed
qed

lemma screen_damage_pixels:
  assumes "sk_rect_laws sk"
  shows "pixels ds \<subseteq> pixels (fold (screen_damage sk af off) rs ds)"
proof (induction rs arbitrary: ds)
  case (Cons r rs)
  have "pixels ds \<subseteq> pixels (screen_damage sk af off r ds)"
    by (auto simp: screen_damage_def add_damage_pixels [OF assms] split: option.splits)
  with Cons [of "screen_damage sk af off r ds"] show ?case by simp
qed simp

lemma scroll_prePaint_damage:
  assumes "sk_rect_laws (gx_sk gx)"
  shows "pixels ds \<subseteq> pixels (snd (scroll_prePaint gx pu l sl bd ds))"
    and "layerId (fst (scroll_prePaint gx pu l sl bd ds)) = layerId l"
    and "bounds (fst (scroll_prePaint gx pu l sl bd ds)) = bounds l"
    and "invalidateMask (fst (scroll_prePaint gx pu l sl bd ds)) = keep_remove (invalidateMask l)"
    and "l_scroll (fst (scroll_prePaint gx pu l sl bd ds)) \<noteq> None"
proof -
  have "\<exists>ds1. pixels ds \<subseteq> pixels ds1 \<and> snd (scroll_prePaint gx pu l sl bd ds) =
      (if pu \<and> invalidateMask l = mask_none
       then fold (screen_damage (gx_sk gx) (absFrame l) (scrollPosition sl)) bd ds1 else ds1)"
    unfolding scroll_prePaint_def Let_def split_beta snd_conv
    by (rule exI, rule conjI [rotated], rule refl) (simp add: add_damage_pixels [OF assms])
  with screen_damage_pixels [OF assms] show "pixels ds \<subseteq> pixels (snd (scroll_prePaint gx pu l sl bd ds))"
    by (metis subset_trans)
qed (simp_all add: scroll_prePaint_def Let_def split_beta)


definition repainted :: "'m layer list \<Rightarrow> 'm layer list \<Rightarrow> damage \<Rightarrow> bool" where
  "repainted ls ls' ds \<longleftrightarrow>
     (\<forall>l \<in> set ls. layoutInvalid (invalidateMask l) \<longrightarrow> rect_pixels (bounds l) \<subseteq> pixels ds) \<and>
     (\<forall>l' \<in> set ls'. \<exists>l \<in> set ls. layerId l = layerId l' \<and>
        (invalidateMask l \<noteq> mask_none \<longrightarrow> rect_pixels (bounds l') \<subseteq> pixels ds))"

lemma repainted_mono: "repainted ls ls' ds \<Longrightarrow> pixels ds \<subseteq> pixels ds' \<Longrightarrow> repainted ls ls' ds'"
  unfolding repainted_def by (meson subset_trans)

lemma repainted_append:
  "repainted ls ls' ds \<Longrightarrow> repainted ms ms' ds \<Longrightarrow> repainted (ls @ ms) (ls' @ ms') ds"
  unfolding repainted_def by (simp add: ball_Un bex_Un)

lemma repainted_subset: "repainted ls ls' ds \<Longrightarrow> set ms' \<subseteq> set ls' \<Longrightarrow> repainted ls ms' ds"
  unfolding repainted_def by blast

lemma prePaint_repainted:
  assumes laws: "sk_rect_laws (gx_sk gx)"
  shows "pixels ds \<subseteq> pixels (snd (prePaint gx pu par force t ds)) \<and>
      (pu \<longrightarrow> repainted (outer t) (outer (fst (prePaint gx pu par force t ds))) (snd (prePaint gx pu par force t ds)))"
    and "pixels ds \<subseteq> pixels (snd (prePaint_list gx pu par force ts ds)) \<and>
      (pu \<longrightarrow> repainted (concat (map outer ts)) (concat (map outer (fst (prePaint_list gx pu par force ts ds))))
        (snd (prePaint_list gx pu par force ts ds)))"
  using laws
proof (induction gx pu par force t ds and gx pu par force ts ds rule: prePaint_prePaint_list.induct)
  case (1 gx pu par force l ts ds)
  note laws = 1(3)
  obtain l1 ds1 where roll: "preRoll gx pu par force l ds = (l1, ds1)" by fastforce
  let ?par = "Some (absoluteTransformMatrix l1, l_frame l1)" and ?f = "force \<or> layoutInvalid (invalidateMask l)"
  have l1: "layerId l1 = layerId l" "invalidateMask l1 = invalidateMask l" "l_scroll l1 = l_scroll l"
    using preRoll_layer [of gx pu par force l ds] roll by simp_all
  have d1: "pixels ds \<subseteq> pixels ds1"
    "pu \<Longrightarrow> invalidateMask l \<noteq> mask_none \<Longrightarrow> rect_pixels (bounds l1) \<subseteq> pixels ds1"
    "pu \<Longrightarrow> layoutInvalid (invalidateMask l) \<Longrightarrow> rect_pixels (bounds l) \<subseteq> pixels ds1"
    using preRoll_damage [OF laws, where ds = ds and pu = pu and par = par and force = force and l = l] roll by simp_all
  show ?case
  proof (cases "l_scroll l")
    case None
    obtain ts' ds2 where ch: "prePaint_list gx pu ?par ?f ts ds1 = (ts', ds2)" by fastforce
    let ?l2 = "l1\<lparr>invalidateMask := keep_remove (invalidateMask l1)\<rparr>"
    have ih: "pixels ds1 \<subseteq> pixels ds2" "pu \<Longrightarrow> repainted (concat (map outer ts)) (concat (map outer ts')) ds2"
      using 1(1) [OF refl refl roll [symmetric] refl None laws] ch by auto
    have own: "pu \<Longrightarrow> repainted [l] [?l2] ds2"
      using d1 ih(1) l1 unfolding repainted_def by simp (meson subset_trans)
    have r: "prePaint gx pu par force (Node l ts) ds =
        (Node ?l2 [t \<leftarrow> ts'. invalidateMask (layer_of t) \<noteq> mask_remove], ds2)"
      using None roll ch by (simp add: Let_def)
    have "repainted (outer (Node l ts)) (outer (Node ?l2 [t \<leftarrow> ts'. invalidateMask (layer_of t) \<noteq> mask_remove])) ds2" if pu
    proof -
      have *: "repainted (l # concat (map outer ts)) (?l2 # concat (map outer ts')) ds2"
        using repainted_append [OF own ih(2), OF that that] by simp
      show ?thesis using None l1(3) by (simp, intro repainted_subset [OF *]) auto
    qed
    with r d1(1) ih(1) show ?thesis by auto
  next
    case (Some s)
    obtain sl bd where s: "s = (sl, bd)" by fastforce
    obtain ts' bd' where ch: "prePaint_list gx True ?par ?f (map set_skip ts) bd = (ts', bd')" by fastforce
    obtain l2 ds2 where sc: "scroll_prePaint gx pu l1 sl bd' ds1 = (l2, ds2)" by fastforce
    have s2: "pixels ds1 \<subseteq> pixels ds2" "layerId l2 = layerId l" "bounds l2 = bounds l1" "l_scroll l2 \<noteq> None"
      using scroll_prePaint_damage [OF laws, where pu = pu and l = l1 and sl = sl and bd = bd' and ds = ds1] sc l1 by simp_all
    have r: "prePaint gx pu par force (Node l ts) ds =
        (Node l2 [t \<leftarrow> ts'. \<not> removeInvalid (invalidateMask (layer_of t))], ds2)"
      using Some s roll ch sc by (simp add: Let_def)
    have "pu \<Longrightarrow> repainted [l] [l2] ds2"
      using d1 s2 l1 unfolding repainted_def by simp (meson subset_trans)
    with r d1(1) s2 Some show ?thesis by auto
  qed
next
  case (2 gx pu par force ds)
  then show ?case by (simp add: repainted_def)
next
  case (3 gx pu par force t ts ds)
  obtain t' ds1 where t: "prePaint gx pu par force t ds = (t', ds1)" by fastforce
  obtain ts' ds2 where ts: "prePaint_list gx pu par force ts ds1 = (ts', ds2)" by fastforce
  have a: "pixels ds \<subseteq> pixels ds1" "pu \<Longrightarrow> repainted (outer t) (outer t') ds1"
    using 3(1) [OF 3(3)] t by auto
  have b: "pixels ds1 \<subseteq> pixels ds2" "pu \<Longrightarrow> repainted (concat (map outer ts)) (concat (map outer ts')) ds2"
    using 3(2) [OF t [symmetric] refl 3(3)] ts by auto
  have "pu \<Longrightarrow> repainted (outer t @ concat (map outer ts)) (outer t' @ concat (map outer ts')) ds2"
    using repainted_append [OF repainted_mono [OF a(2) b(1)] b(2)] .
  with t ts a(1) b(1) show ?case by auto
qed

section \<open>Masks\<close>


lemma keep_remove_cases [simp]:
  "keep_remove k \<noteq> mask_remove \<longleftrightarrow> keep_remove k = mask_none"
  "keep_remove (keep_remove k) = keep_remove k" "removeInvalid (keep_remove k) = removeInvalid k"
  "keep_remove k = mask_none \<longleftrightarrow> \<not> removeInvalid k"
  by (auto simp: keep_remove_def mask_remove_def mask_none_def)







section \<open>What is painted\<close>

definition painted :: "'m paint_op list \<Rightarrow> nat set" where
  "painted ops = {i. PaintSelf i \<in> set ops}"

lemma painted_append [simp]: "painted (a @ b) = painted a \<union> painted b"
  by (auto simp: painted_def)

text \<open>The tree is nested: outside scroll layers, a child stays inside the bounds of its parent.\<close>

fun nested :: "'m tree \<Rightarrow> bool" where
  "nested (Node l ts) \<longleftrightarrow>
     (l_scroll l = None \<longrightarrow> (\<forall>t \<in> set ts. rect_pixels (bounds (layer_of t)) \<subseteq> rect_pixels (bounds l) \<and> nested t))"

definition opaque :: "'m layer \<Rightarrow> bool" where
  "opaque l \<longleftrightarrow> \<not> irect_empty (l_frame l) \<and> \<not> isHidden l \<and> 0 < l_opacity l"

lemma overlap_pixels: "rect_pixels (overlap a b) = rect_pixels a \<inter> rect_pixels b"
  by (auto simp: rect_pixels_def in_rect_def overlap_def)

lemma empty_iff_pixels: "irect_empty r \<longleftrightarrow> rect_pixels r = {}"
proof
  assume "rect_pixels r = {}"
  then have "(fLeft r, fTop r) \<notin> rect_pixels r" by simp
  then show "irect_empty r" by (auto simp: rect_pixels_def in_rect_def irect_empty_def)
qed (rule empty_pixels)

lemma intersect_pixels:
  "sk_rect_laws sk \<Longrightarrow> irect_intersect sk a b \<noteq> None \<longleftrightarrow> rect_pixels a \<inter> rect_pixels b \<noteq> {}"
  by (auto simp: sk_intersect empty_iff_pixels overlap_pixels)

lemma needsPainting_pixels:
  assumes "sk_rect_laws (gx_sk gx)"
  shows "needsPainting gx True (0, 0) ds l \<longleftrightarrow>
    \<not> irect_empty (l_frame l) \<and> \<not> isHidden l \<and> rect_pixels (bounds l) \<inter> pixels ds \<noteq> {}"
  by (auto simp: needsPainting_def Let_def intersect_pixels [OF assms] pixels_def simp del: not_None_eq)

lemma painted_Cons [simp]: "painted (op # a) = (case op of PaintSelf i \<Rightarrow> {i} | _ \<Rightarrow> {}) \<union> painted a"
  by (cases op) (auto simp: painted_def)

lemma paint_root: "0 < l_opacity l \<Longrightarrow> layerId l \<in> painted (fst (paint gx pu off ds (Node l ts)))"
  by (auto simp: painted_def Let_def split: option.splits prod.splits)

lemma paintChildren_mem:
  assumes "t \<in> set ts" and "needsPainting gx pu off ds (layer_of t)" and "i \<in> painted (fst (paint gx pu off ds t))"
  shows "i \<in> painted (fst (paintChildren gx pu off ds ts))"
  using assms by (induction ts) (auto simp: split_beta)

lemma paint_outer:
  assumes laws: "sk_rect_laws (gx_sk gx)"
  shows "nested t \<Longrightarrow> \<forall>l \<in> set (outer t). opaque l \<Longrightarrow> l \<in> set (outer t) \<Longrightarrow>
    rect_pixels (bounds l) \<inter> pixels ds \<noteq> {} \<Longrightarrow> layerId l \<in> painted (fst (paint gx True (0, 0) ds t)) \<and>
    rect_pixels (bounds (layer_of t)) \<inter> pixels ds \<noteq> {}"
proof (induction t)
  case (Node k ts)
  have k: "opaque k" using Node.prems(2) by simp
  show ?case
  proof (cases "l = k")
    case True
    with k Node.prems(4) paint_root [of k gx True "(0, 0)" ds ts] show ?thesis by (simp add: opaque_def)
  next
    case False
    with Node.prems(3) obtain t where t: "t \<in> set ts" "l \<in> set (outer t)" "l_scroll k = None"
      by (auto split: if_splits)
    have "nested t" "\<forall>l \<in> set (outer t). opaque l" and sub: "rect_pixels (bounds (layer_of t)) \<subseteq> rect_pixels (bounds k)"
      using Node.prems(1,2) t by auto
    from Node.IH [OF t(1) this(1,2) t(2) Node.prems(4)]
    have p: "layerId l \<in> painted (fst (paint gx True (0, 0) ds t))" and m: "rect_pixels (bounds (layer_of t)) \<inter> pixels ds \<noteq> {}"
      by auto
    have "layer_of t \<in> set (outer t)" by (cases t) simp
    then have "needsPainting gx True (0, 0) ds (layer_of t)"
      using m \<open>\<forall>l \<in> set (outer t). opaque l\<close> by (auto simp: needsPainting_pixels [OF laws] opaque_def)
    from paintChildren_mem [OF t(1) this p] have "layerId l \<in> painted (fst (paintChildren gx True (0, 0) ds ts))" .
    with t(3) k m sub show ?thesis by (auto simp: Let_def split_beta opaque_def)
  qed
qed

section \<open>Properties\<close>

lemma layout_layer_simps [simp]:
  "invalidateMask (layout_layer gx par l) = invalidateMask l" "l_scroll (layout_layer gx par l) = l_scroll l"
  by (simp_all add: layout_layer_def Let_def)

lemma mask_none_simps [simp]:
  "\<not> layoutInvalid mask_none" "\<not> removeInvalid mask_none" "keep_remove mask_none = mask_none" "mask_none \<noteq> mask_remove"
  by (simp_all add: mask_none_def keep_remove_def mask_remove_def)


text \<open>Painting after \<open>prePaint\<close> paints every layer outside scroll layers that was invalidated and
  is still in the tree, when every layer stays inside its parent's bounds and none is hidden.\<close>

theorem invalid_layers_repainted:
  assumes "sk_rect_laws (gx_sk gx)" and "prePaint gx True None False t [] = (t', ds)"
    and "nested t'" and "\<forall>l \<in> set (outer t'). opaque l" and "distinct (map layerId (outer t))"
    and "l \<in> set (outer t)" and "invalidateMask l \<noteq> mask_none"
    and "l' \<in> set (outer t')" and "layerId l' = layerId l" and "\<not> irect_empty (bounds l')"
  shows "layerId l \<in> painted (fst (paint gx True (0, 0) ds t'))"
proof -
  have "repainted (outer t) (outer t') ds"
    using prePaint_repainted(1) [OF assms(1), where ds = "[]" and pu = True and par = None and force = False and t = t]
      assms(2) by simp
  with assms(8) obtain k where k: "k \<in> set (outer t)" "layerId k = layerId l'"
    "invalidateMask k \<noteq> mask_none \<longrightarrow> rect_pixels (bounds l') \<subseteq> pixels ds"
    unfolding repainted_def by blast
  then have "k = l" using assms(5,6,9) by (auto simp: distinct_map dest: inj_onD)
  with k assms(7,10) have "rect_pixels (bounds l') \<inter> pixels ds \<noteq> {}" by (auto simp: empty_iff_pixels)
  with paint_outer [OF assms(1,3,4,8)] assms(9) show ?thesis by auto
qed

text \<open>A layer that reaches out of its parent, and asks to be painted again alone, is not painted: the
  parent does not meet the damage, and is skipped with all its children.\<close>

theorem overflowing_layer_not_repainted:
  assumes "sk_rect_laws (gx_sk gx)"
    and "invalidateMask r = mask_none" and "invalidateMask p = mask_none"
    and "invalidateMask c = \<lparr>paintInvalid = True, layoutInvalid = False, removeInvalid = False\<rparr>"
    and "l_scroll r = None" and "l_scroll p = None" and "l_scroll c = None"
    and "rect_pixels (bounds c) \<inter> rect_pixels (bounds p) = {}" and "layerId c \<noteq> layerId r"
    and "prePaint gx True None False (Node r [Node p [Node c []]]) [] = (t', ds)"
  shows "rect_pixels (bounds c) = pixels ds \<and> layerId c \<notin> painted (fst (paint gx True (0, 0) ds t'))"
proof -
  have ds: "ds = [bounds c]" and t': "t' = Node (r\<lparr>invalidateMask := mask_none\<rparr>) [Node (p\<lparr>invalidateMask := mask_none\<rparr>)
      [Node (c\<lparr>invalidateMask := mask_none\<rparr>) []]]"
    using assms(2-7,10)
    by (auto simp: preRoll_def Let_def mask_none_def keep_remove_def mask_remove_def addDamageRect_def)
  have "\<not> needsPainting gx True (0, 0) ds (p\<lparr>invalidateMask := mask_none\<rparr>)"
    using assms(8) by (auto simp: needsPainting_pixels [OF assms(1)] ds)
  then have "painted (fst (paint gx True (0, 0) ds t')) \<subseteq> {layerId r}"
    using assms(5) by (auto simp: t' painted_def apply_alpha_def Let_def)
  with assms(9) ds show ?thesis by auto
qed

text \<open>A layer that moves with its parent is laid out again, but its old and new places are damaged
  only where they are inside the parent's.\<close>

theorem moved_overflow_not_damaged:
  assumes "sk_rect_laws (gx_sk gx)" and "layoutInvalid (invalidateMask p)" and "invalidateMask c = mask_none"
    and "l_scroll p = None" and "l_scroll c = None"
    and "prePaint gx True None False (Node p [Node c []]) [] = (Node p' ts', ds)"
    and "rect_pixels (bounds c) \<inter> (rect_pixels (bounds p) \<union> rect_pixels (bounds p')) = {}"
  shows "rect_pixels (bounds c) \<inter> pixels ds = {}"
proof -
  have "pixels ds \<subseteq> rect_pixels (bounds p) \<union> rect_pixels (bounds p')"
    using assms(2-6) by (auto simp: preRoll_def Let_def add_damage_pixels [OF assms(1)] split: if_splits)
  with assms(7) show ?thesis by blast
qed

section \<open>Examples\<close>

text \<open>An instance of the graphics parameter: translations as matrices.\<close>

definition gfx_ref :: "(scalar \<times> scalar) gfx" where
  "gfx_ref = \<lparr>gx_sk = sk_rect_ref, gx_round = (\<lambda>x. \<lfloor>x\<rfloor>), gx_identity = (0, 0), gx_isIdentity = (\<lambda>m. m = (0, 0)),
     gx_preTranslate = (\<lambda>x y m. (fst m + x, snd m + y)), gx_preConcat = (\<lambda>a b. (fst a + fst b, snd a + snd b)),
     gx_mapOut = (\<lambda>m r. \<lparr>fLeft = \<lfloor>of_int (fLeft r) + fst m\<rfloor>, fTop = \<lfloor>of_int (fTop r) + snd m\<rfloor>,
        fRight = \<lceil>of_int (fRight r) + fst m\<rceil>, fBottom = \<lceil>of_int (fBottom r) + snd m\<rceil>\<rparr>),
     gx_join = (\<lambda>a b. \<lparr>fLeft = min (fLeft a) (fLeft b), fTop = min (fTop a) (fTop b),
        fRight = max (fRight a) (fRight b), fBottom = max (fBottom a) (fBottom b)\<rparr>)\<rparr>"

definition box :: "int \<Rightarrow> int \<Rightarrow> sk_irect" where
  "box a b = \<lparr>fLeft = a, fTop = a, fRight = b, fBottom = b\<rparr>"

definition plain_layer :: "nat \<Rightarrow> int \<Rightarrow> int \<Rightarrow> layer_mask \<Rightarrow> (scalar \<times> scalar) layer" where
  "plain_layer i a b k = (layer_init gfx_ref i LAYER_TYPE_DEFAULT)
     \<lparr>l_frame := box a b, absFrame := box a b, bounds := box a b, invalidateMask := k\<rparr>"

lemma gfx_ref_laws: "sk_rect_laws (gx_sk gfx_ref)"
  by (simp add: gfx_ref_def)

lemma plain_layer_simps [simp]:
  "l_scroll (plain_layer i a b k) = None" "invalidateMask (plain_layer i a b k) = k"
  "layerId (plain_layer i a b k) = i" "bounds (plain_layer i a b k) = box a b"
  "opaque (plain_layer i a b k) \<longleftrightarrow> a < b"
  by (auto simp: plain_layer_def layer_init_def opaque_def box_def irect_empty_def)

lemma box_pixels: "rect_pixels (box a b) = {a..<b} \<times> {a..<b}"
  by (auto simp: rect_pixels_def in_rect_def box_def)

lemma mask_all_simps [simp]: "layoutInvalid mask_all" "mask_all \<noteq> mask_none"
  by (simp_all add: mask_all_def mask_none_def)

lemma prePaint_plain_root:
  "prePaint gfx_ref True None False (Node (plain_layer 1 0 9 mask_all) []) [] =
     (Node (plain_layer 1 0 9 mask_none\<lparr>frameBounds := box 0 9\<rparr>) [], [box 0 9])"
  by (simp add: Let_def preRoll_def layout_layer_def calculateTransformMatrix_def gfx_ref_def plain_layer_def layer_init_def
      box_def addDamageRect_def sk_rect_ref_def covers_def irect_empty_def keep_remove_def mask_all_def mask_none_def)


lemma invalid_layers_repainted_witness:
  "1 \<in> painted (fst (paint gfx_ref True (0, 0) [box 0 9] (Node (plain_layer 1 0 9 mask_none\<lparr>frameBounds := box 0 9\<rparr>) [])))"
proof -
  let ?l' = "plain_layer 1 0 9 mask_none\<lparr>frameBounds := box 0 9\<rparr>"
  have "opaque ?l'" "l_scroll ?l' = None" "layerId ?l' = 1" "bounds ?l' = box 0 9"
    by (simp_all add: opaque_def plain_layer_def layer_init_def box_def irect_empty_def)
  then show ?thesis
    using invalid_layers_repainted [OF gfx_ref_laws prePaint_plain_root, of "plain_layer 1 0 9 mask_all" ?l']
    by (simp add: box_def irect_empty_def)
qed

lemma overflowing_layer_not_repainted_witness:
  "\<exists>t' ds. prePaint gfx_ref True None False (Node (plain_layer 1 0 9 mask_none) [Node (plain_layer 2 0 3 mask_none)
      [Node (plain_layer 3 5 7 \<lparr>paintInvalid = True, layoutInvalid = False, removeInvalid = False\<rparr>) []]]) [] = (t', ds) \<and>
     rect_pixels (box 5 7) = pixels ds \<and> 3 \<notin> painted (fst (paint gfx_ref True (0, 0) ds t'))"
proof -
  let ?k = "\<lparr>paintInvalid = True, layoutInvalid = False, removeInvalid = False\<rparr>"
  obtain t' ds where p: "prePaint gfx_ref True None False (Node (plain_layer 1 0 9 mask_none) [Node (plain_layer 2 0 3 mask_none)
      [Node (plain_layer 3 5 7 ?k) []]]) [] = (t', ds)" by fastforce
  have d: "rect_pixels (bounds (plain_layer 3 5 7 ?k)) \<inter> rect_pixels (bounds (plain_layer 2 0 3 mask_none)) = {}"
    by (auto simp: box_pixels)
  have "rect_pixels (bounds (plain_layer 3 5 7 ?k)) = pixels ds \<and>
      layerId (plain_layer 3 5 7 ?k) \<notin> painted (fst (paint gfx_ref True (0, 0) ds t'))"
    by (rule overflowing_layer_not_repainted [OF gfx_ref_laws _ _ _ _ _ _ d _ p]) simp_all
  with p show ?thesis unfolding plain_layer_simps by blast
qed

lemma moved_overflow_not_damaged_witness:
  "\<exists>p' ts' ds. prePaint gfx_ref True None False (Node (plain_layer 1 0 3 mask_all) [Node (plain_layer 2 5 7 mask_none) []]) [] =
      (Node p' ts', ds) \<and> rect_pixels (box 5 7) \<inter> pixels ds = {}"
proof -
  obtain p' ts' ds where p: "prePaint gfx_ref True None False (Node (plain_layer 1 0 3 mask_all) [Node (plain_layer 2 5 7 mask_none) []]) [] =
      (Node p' ts', ds)" by (metis prod.exhaust tree.exhaust)
  then have "bounds p' = box 0 3"
    by (auto simp: Let_def split_beta preRoll_def layout_layer_def calculateTransformMatrix_def gfx_ref_def plain_layer_def layer_init_def box_def)
  then have d: "rect_pixels (bounds (plain_layer 2 5 7 mask_none)) \<inter> (rect_pixels (bounds (plain_layer 1 0 3 mask_all)) \<union> rect_pixels (bounds p')) = {}"
    by (auto simp: box_pixels)
  have "rect_pixels (bounds (plain_layer 2 5 7 mask_none)) \<inter> pixels ds = {}"
    by (rule moved_overflow_not_damaged [OF gfx_ref_laws _ _ _ _ p d]) simp_all
  with p show ?thesis unfolding plain_layer_simps by blast
qed

end
