(* ===== verification/Compositor.thy ===== *)
theory Compositor imports Layers "HOL-Library.Monad_Syntax" begin

text \<open>
  The compositor (\<open>rns_shell/compositor/Compositor.cpp\<close>): when the layer tree may change, when it is
  rendered, and which part of the screen a frame paints and shows.

  The lock \<open>isMutating\<close> has the thread that holds it; a thread that takes it again does not return, and
  releasing it by a thread that does not hold it is undefined: both are \<open>None\<close>. A thread that commits
  first releases the lock and dispatches the render afterwards (\<open>cm_posting\<close> counts the threads in between). A
  render dispatched to the main loop is counted in \<open>cm_dispatched\<close>, and runs when the main loop gets to
  it; \<open>TaskLoop::dispatch\<close> drops it when the loop is not running (\<open>cm_lost\<close>). \<open>age\<close> is the age of the back buffer the
  window reports, where the build asks for it (\<open>RNS_SHELL_BUFFER_AGE\<close>), and \<open>None\<close> in the default
  build. The list \<open>frameDamageHistory\<close> has the newest frame at its end.
\<close>

section \<open>State\<close>

datatype UpdateState = Idle | Scheduled | InProgress

record 'm frame =
  fr_clip :: damage
  fr_ops :: "'m paint_op list"
  fr_swap :: damage

record 'm compositor =
  rootLayer :: "'m tree option"
  windowContext :: bool
  backBuffer :: bool
  supportPartialUpdate :: bool
  surfaceDamage :: damage
  frameDamageHistory :: "damage list"
  isMutating :: "nat option"
  updateState :: UpdateState
  viewportSize :: "int \<times> int"
  needsResize :: bool
  cm_running :: bool
  cm_posting :: nat
  cm_dispatched :: nat
  cm_lost :: nat
  cm_frames :: "'m frame list"

text \<open>The constructor, for a main loop that runs or does not run yet, and a window of a size that was or
  was not given.\<close>

definition new_compositor :: "bool \<Rightarrow> bool \<Rightarrow> bool \<Rightarrow> int \<times> int \<Rightarrow> int \<times> int \<Rightarrow> 'm compositor" where
  "new_compositor running window pu window_size sz =
     (let given = (0 < fst sz \<and> 0 < snd sz)
      in \<lparr>rootLayer = None, windowContext = window, backBuffer = window, supportPartialUpdate = (window \<and> pu),
          surfaceDamage = [], frameDamageHistory = [], isMutating = None, updateState = Idle,
          viewportSize = (if \<not> window then (0, 0) else if given then sz else window_size),
          needsResize = (window \<and> given), cm_running = running, cm_posting = 0, cm_dispatched = 0, cm_lost = 0, cm_frames = []\<rparr>)"

definition setRootLayer :: "'m tree \<Rightarrow> 'm compositor \<Rightarrow> 'm compositor" where
  "setRootLayer t c = c\<lparr>rootLayer := Some t\<rparr>"

definition invalidate_compositor :: "'m compositor \<Rightarrow> 'm compositor" where
  "invalidate_compositor c = c\<lparr>windowContext := False, backBuffer := False\<rparr>"

definition compositor_addDamageRect :: "sk_irect \<Rightarrow> 'm compositor \<Rightarrow> 'm compositor" where
  "compositor_addDamageRect r c =
     (if supportPartialUpdate c \<and> \<not> irect_empty r then c\<lparr>surfaceDamage := surfaceDamage c @ [r]\<rparr> else c)"

section \<open>Clipping to the damage\<close>

text \<open>
  Adding the damage of earlier frames, newest first. The code keeps a reference to the newest entry
  of the history, and assigns each entry it visits to it.
\<close>

fun age_loop :: "sk_rect_api \<Rightarrow> nat \<Rightarrow> nat \<Rightarrow> damage list \<Rightarrow> damage \<Rightarrow> damage \<Rightarrow> damage list \<times> damage \<times> damage" where
  "age_loop sk 0 k h sd clip = (h, sd, clip)"
| "age_loop sk (Suc n) k h sd clip =
     (if k < length h
      then let d = rev h ! k
           in age_loop sk n (Suc k) (h[length h - 1 := d]) (fold (addDamageRect sk) d sd) (clip @ d)
      else (h, sd, clip))"

text \<open>
  The clip, as the rectangles of the path, and the damage to show. The comparison of the age with the
  length of the history is unsigned, so that a negative age is larger.
\<close>

definition beginClip :: "sk_rect_api \<Rightarrow> int option \<Rightarrow> 'm compositor \<Rightarrow> damage \<times> 'm compositor" where
  "beginClip sk age c =
     (if surfaceDamage c = [] then ([], c)
      else (case age of
              None \<Rightarrow> (surfaceDamage c, c)
            | Some a \<Rightarrow>
                if a = 1 then (surfaceDamage c, c)
                else if a \<le> 0 \<or> int (length (frameDamageHistory c)) < a
                then let full = \<lparr>fLeft = 0, fTop = 0, fRight = fst (viewportSize c), fBottom = snd (viewportSize c)\<rparr>
                     in ([full], c\<lparr>surfaceDamage := addDamageRect sk full []\<rparr>)
                else let (h, sd, clip) = age_loop sk (nat (a - 1)) 0 (frameDamageHistory c) (surfaceDamage c) (surfaceDamage c)
                     in (clip, c\<lparr>frameDamageHistory := h, surfaceDamage := sd\<rparr>)))"

section \<open>Rendering\<close>

definition push_history :: "damage \<Rightarrow> damage list \<Rightarrow> damage list" where
  "push_history d h = (if 5 \<le> length h then tl h else h) @ [d]"

definition renderLayerTree :: "'m gfx \<Rightarrow> int option \<Rightarrow> 'm compositor \<Rightarrow> 'm compositor" where
  "renderLayerTree gx age c =
     (if \<not> windowContext c then c
      else case (backBuffer c, rootLayer c) of
        (True, Some t) \<Rightarrow>
          let (t1, sd) = prePaint gx (supportPartialUpdate c) None False t (surfaceDamage c);
              (clip, c1) = beginClip (gx_sk gx) age (c\<lparr>needsResize := False, rootLayer := Some t1, surfaceDamage := sd\<rparr>)
          in if \<not> needsPainting gx (supportPartialUpdate c) (0, 0) (surfaceDamage c1) (layer_of t1) then c1
             else let (ops, t2) = paint gx (supportPartialUpdate c) (0, 0) (surfaceDamage c1) t1
                  in c1\<lparr>rootLayer := Some t2,
                        cm_frames := cm_frames c1 @ [\<lparr>fr_clip = clip, fr_ops = ops, fr_swap = surfaceDamage c1\<rparr>],
                        frameDamageHistory := if age = None then frameDamageHistory c1
                          else push_history sd (frameDamageHistory c1)\<rparr>
      | _ \<Rightarrow> c)"

section \<open>Changing the tree\<close>

definition begin_mutation :: "nat \<Rightarrow> 'm compositor \<Rightarrow> 'm compositor option" where
  "begin_mutation th c = (if isMutating c \<noteq> None then None else Some (c\<lparr>isMutating := Some th, surfaceDamage := []\<rparr>))"

definition unlock :: "nat \<Rightarrow> 'm compositor \<Rightarrow> 'm compositor option" where
  "unlock th c = (if isMutating c = Some th then Some (c\<lparr>isMutating := None\<rparr>) else None)"

definition commit :: "'m gfx \<Rightarrow> int option \<Rightarrow> nat \<Rightarrow> bool \<Rightarrow> 'm compositor \<Rightarrow> 'm compositor option" where
  "commit gx age th immediate c =
     (if \<not> windowContext c then unlock th c
      else if immediate then unlock th (renderLayerTree gx age c)
      else case updateState c of
        Idle \<Rightarrow> map_option (\<lambda>c1. c1\<lparr>cm_posting := Suc (cm_posting c1)\<rparr>) (unlock th (c\<lparr>updateState := Scheduled\<rparr>))
      | InProgress \<Rightarrow> unlock th c
      | Scheduled \<Rightarrow> unlock th c)"

text \<open>The thread that committed hands the render to \<open>TaskLoop::dispatch\<close>, which drops it if the main loop is
  not running.\<close>

definition dispatch_render :: "'m compositor \<Rightarrow> 'm compositor" where
  "dispatch_render c =
     (if cm_posting c = 0 then c
      else let c1 = c\<lparr>cm_posting := cm_posting c - 1\<rparr>
           in if cm_running c then c1\<lparr>cm_dispatched := Suc (cm_dispatched c)\<rparr>
              else c1\<lparr>cm_lost := Suc (cm_lost c)\<rparr>)"

text \<open>The main loop gets to the render: it waits while the tree is being changed.\<close>

definition run_dispatched :: "'m gfx \<Rightarrow> int option \<Rightarrow> 'm compositor \<Rightarrow> 'm compositor" where
  "run_dispatched gx age c =
     (if cm_dispatched c = 0 \<or> \<not> cm_running c \<or> isMutating c \<noteq> None then c
      else (renderLayerTree gx age c)\<lparr>updateState := Idle, cm_dispatched := cm_dispatched c - 1\<rparr>)"

text \<open>A new size is committed without \<open>begin\<close>: the thread does not hold the lock that \<open>commit\<close> releases.\<close>

definition setViewportSize :: "'m gfx \<Rightarrow> int option \<Rightarrow> nat \<Rightarrow> int \<times> int \<Rightarrow> 'm compositor \<Rightarrow> 'm compositor option" where
  "setViewportSize gx age th sz c =
     (if sz = viewportSize c then Some c
      else commit gx age th False (c\<lparr>viewportSize := sz, needsResize := True\<rparr>))"

text \<open>A change of the tree, as the components make it: under the lock.\<close>

definition change_tree :: "'m gfx \<Rightarrow> int option \<Rightarrow> nat \<Rightarrow> bool \<Rightarrow> ('m tree option \<Rightarrow> 'm tree option) \<Rightarrow> 'm compositor \<Rightarrow> 'm compositor option" where
  "change_tree gx age th immediate f c = do {
     c1 \<leftarrow> begin_mutation th c;
     c2 \<leftarrow> commit gx age th immediate (c1\<lparr>rootLayer := f (rootLayer c1)\<rparr>);
     Some (dispatch_render c2)
   }"

text \<open>
  The steps of the threads: each thread that changes the tree takes the lock (and waits while another
  has it), changes the tree, commits and dispatches; a resize comes to a thread that is not changing the
  tree itself; the main loop starts, stops, and runs what was dispatched.
\<close>

datatype 'm compositor_event =
  BeginChange nat
| EditTree nat "'m tree option \<Rightarrow> 'm tree option"
| CommitChange nat bool "int option"
| DispatchRender
| MainLoop "int option"
| Damage sk_irect
| Resize nat "int \<times> int" "int option"
| LoopRuns bool

fun compositor_step :: "'m gfx \<Rightarrow> 'm compositor \<Rightarrow> 'm compositor_event \<Rightarrow> 'm compositor option" where
  "compositor_step gx c (BeginChange th) = (if isMutating c = None then begin_mutation th c else Some c)"
| "compositor_step gx c (EditTree th f) = Some (if isMutating c = Some th then c\<lparr>rootLayer := f (rootLayer c)\<rparr> else c)"
| "compositor_step gx c (CommitChange th immediate age) = (if isMutating c = Some th then commit gx age th immediate c else Some c)"
| "compositor_step gx c DispatchRender = Some (dispatch_render c)"
| "compositor_step gx c (MainLoop age) = Some (run_dispatched gx age c)"
| "compositor_step gx c (Damage r) = Some (compositor_addDamageRect r c)"
| "compositor_step gx c (Resize th sz age) = (if isMutating c = Some th then Some c else setViewportSize gx age th sz c)"
| "compositor_step gx c (LoopRuns b) = Some (c\<lparr>cm_running := b\<rparr>)"

section \<open>What does not change\<close>

lemma beginClip_other [simp]:
  "isMutating (snd (beginClip sk age c)) = isMutating c" "updateState (snd (beginClip sk age c)) = updateState c"
  "cm_dispatched (snd (beginClip sk age c)) = cm_dispatched c" "cm_posting (snd (beginClip sk age c)) = cm_posting c"
  "cm_lost (snd (beginClip sk age c)) = cm_lost c" "cm_running (snd (beginClip sk age c)) = cm_running c" "cm_frames (snd (beginClip sk age c)) = cm_frames c"
  "windowContext (snd (beginClip sk age c)) = windowContext c" "rootLayer (snd (beginClip sk age c)) = rootLayer c"
  by (auto simp: beginClip_def Let_def split: option.splits prod.splits)

lemma render_other [simp]:
  "isMutating (renderLayerTree gx age c) = isMutating c" "updateState (renderLayerTree gx age c) = updateState c"
  "cm_dispatched (renderLayerTree gx age c) = cm_dispatched c" "cm_posting (renderLayerTree gx age c) = cm_posting c"
  "cm_lost (renderLayerTree gx age c) = cm_lost c" "cm_running (renderLayerTree gx age c) = cm_running c" "windowContext (renderLayerTree gx age c) = windowContext c"
  by (auto simp: renderLayerTree_def Let_def split_beta split: option.splits bool.splits)

section \<open>Scheduling\<close>

text \<open>A render is about to be dispatched, dispatched, or lost, exactly if the state says that one is
  scheduled.\<close>

definition scheduling_ok :: "'m compositor \<Rightarrow> bool" where
  "scheduling_ok c \<longleftrightarrow> updateState c \<noteq> InProgress \<and>
     cm_posting c + cm_dispatched c + cm_lost c = (if updateState c = Scheduled then 1 else 0)"

text \<open>The only step that fails.\<close>

definition bad_resize :: "'m compositor \<Rightarrow> 'm compositor_event \<Rightarrow> bool" where
  "bad_resize c e \<longleftrightarrow> (\<exists>th sz age. e = Resize th sz age \<and> isMutating c \<noteq> Some th \<and> sz \<noteq> viewportSize c)"

lemma commit_none: "commit gx age th immediate c = None \<longleftrightarrow> isMutating c \<noteq> Some th"
  by (cases "updateState c") (auto simp: commit_def unlock_def)

lemma step_none: "compositor_step gx c e = None \<longleftrightarrow> bad_resize c e"
  by (cases e) (auto simp: bad_resize_def begin_mutation_def setViewportSize_def commit_none simp flip: not_None_eq)

lemma commit_scheduling:
  "scheduling_ok c \<Longrightarrow> commit gx age th immediate c = Some c' \<Longrightarrow> scheduling_ok c'"
  by (cases "updateState c") (auto simp: scheduling_ok_def commit_def unlock_def split: if_splits)

lemma commit_lost [simp]:
  "commit gx age th immediate c = Some c' \<Longrightarrow> cm_lost c' = cm_lost c \<and> cm_running c' = cm_running c"
  by (cases "updateState c") (auto simp: commit_def unlock_def split: if_splits)

lemma step_scheduling: "scheduling_ok c \<Longrightarrow> compositor_step gx c e = Some c' \<Longrightarrow> scheduling_ok c'"
proof (cases e)
  case (CommitChange th immediate age)
  then show "scheduling_ok c \<Longrightarrow> compositor_step gx c e = Some c' \<Longrightarrow> scheduling_ok c'"
    using commit_scheduling by (auto split: if_splits)
next
  case (Resize th sz age)
  moreover have "scheduling_ok c \<Longrightarrow> scheduling_ok (c\<lparr>viewportSize := sz, needsResize := True\<rparr>)"
    by (simp add: scheduling_ok_def)
  ultimately show "scheduling_ok c \<Longrightarrow> compositor_step gx c e = Some c' \<Longrightarrow> scheduling_ok c'"
    using commit_scheduling by (auto simp: setViewportSize_def split: if_splits)
qed (auto simp: scheduling_ok_def begin_mutation_def dispatch_render_def run_dispatched_def Let_def
  compositor_addDamageRect_def split: if_splits)

text \<open>A committed change leaves exactly one render dispatched.\<close>

lemma change_scheduled:
  assumes "scheduling_ok c" "isMutating c = None" "cm_running c" "cm_posting c = 0" "cm_lost c = 0" "windowContext c"
    and "change_tree gx age th False f c = Some c1"
  shows "rootLayer c1 = f (rootLayer c)" "surfaceDamage c1 = []" "windowContext c1" "backBuffer c1 = backBuffer c"
    "supportPartialUpdate c1 = supportPartialUpdate c" "isMutating c1 = None" "cm_running c1" "cm_dispatched c1 = 1"
    "cm_frames c1 = cm_frames c"
proof -
  let ?e = "c\<lparr>isMutating := Some th, surfaceDamage := [], rootLayer := f (rootLayer c)\<rparr>"
  obtain c2 where c2: "commit gx age th False ?e = Some c2" "c1 = dispatch_render c2"
    using assms(2,7) by (auto simp: change_tree_def begin_mutation_def split: bind_splits)
  have "c2 = ?e\<lparr>isMutating := None, updateState := Scheduled, cm_posting := 1\<rparr> \<and> cm_dispatched c = 0 \<or>
      c2 = ?e\<lparr>isMutating := None\<rparr> \<and> cm_dispatched c = 1"
    using c2(1) assms(1,4-6) by (cases "updateState c") (auto simp: commit_def unlock_def scheduling_ok_def)
  then show "rootLayer c1 = f (rootLayer c)" "surfaceDamage c1 = []" "windowContext c1" "backBuffer c1 = backBuffer c"
    "supportPartialUpdate c1 = supportPartialUpdate c" "isMutating c1 = None" "cm_running c1" "cm_dispatched c1 = 1"
    "cm_frames c1 = cm_frames c"
    using assms(3-6) by (auto simp: c2(2) dispatch_render_def Let_def)
qed

lemma new_scheduling: "scheduling_ok (new_compositor run w pu ws s)"
  by (simp add: scheduling_ok_def new_compositor_def Let_def)

lemma new_scheduling_simps:
  "cm_running (new_compositor run w pu ws s) = run" "cm_lost (new_compositor run w pu ws s) = 0"
  by (simp_all add: new_compositor_def Let_def)

lemma step_running:
  assumes "compositor_step gx c e = Some c'" and "cm_running c" and "e \<noteq> LoopRuns False"
  shows "cm_running c' \<and> cm_lost c' = cm_lost c"
proof (cases e)
  case (CommitChange th immediate age)
  with assms show ?thesis by (auto split: if_splits)
next
  case (Resize th sz age)
  with assms show ?thesis by (auto simp: setViewportSize_def dest!: commit_lost split: if_splits)
qed (use assms in \<open>auto simp: begin_mutation_def dispatch_render_def run_dispatched_def Let_def
  compositor_addDamageRect_def split: if_splits\<close>)

lemma step_lost: "compositor_step gx c e = Some c' \<Longrightarrow> cm_lost c \<le> cm_lost c'"
  by (cases e) (auto simp: begin_mutation_def dispatch_render_def run_dispatched_def
    setViewportSize_def compositor_addDamageRect_def Let_def dest!: commit_lost split: if_splits)

lemma run_lost: "run_opt (compositor_step gx) c es = Some c' \<Longrightarrow> cm_lost c \<le> cm_lost c'"
proof (induction es arbitrary: c)
  case (Cons e es)
  then obtain c1 where "compositor_step gx c e = Some c1" "run_opt (compositor_step gx) c1 es = Some c'"
    by (auto split: bind_splits)
  with Cons.IH [of c1] step_lost [of gx c e c1] show ?case by simp
qed simp

lemma run_scheduling:
  "scheduling_ok c \<Longrightarrow> run_opt (compositor_step gx) c es = Some c' \<Longrightarrow>
   scheduling_ok c' \<and> (cm_running c \<and> LoopRuns False \<notin> set es \<longrightarrow> cm_lost c' = cm_lost c)"
proof (induction es arbitrary: c)
  case (Cons e es)
  then obtain c1 where "compositor_step gx c e = Some c1" "run_opt (compositor_step gx) c1 es = Some c'"
    by (auto split: bind_splits)
  with Cons step_scheduling [of c gx e c1] step_running [of gx c e c1] show ?case by auto
qed simp

lemma run_none:
  "run_opt (compositor_step gx) c es = None \<longleftrightarrow>
   (\<exists>pre e post c'. es = pre @ e # post \<and> run_opt (compositor_step gx) c pre = Some c' \<and> bad_resize c' e)"
proof (induction es arbitrary: c)
  case (Cons e es)
  show ?case
  proof (cases "compositor_step gx c e")
    case None
    then have "bad_resize c e" by (simp add: step_none)
    moreover have "e # es = [] @ e # es" "run_opt (compositor_step gx) c [] = Some c" by simp_all
    ultimately have "\<exists>pre e' post c'. e # es = pre @ e' # post \<and>
        run_opt (compositor_step gx) c pre = Some c' \<and> bad_resize c' e'" by blast
    with None show ?thesis by simp
  next
    case (Some c1)
    then have ok: "\<not> bad_resize c e" using step_none [of gx c e] by simp
    have "(\<exists>pre e' post c'. e # es = pre @ e' # post \<and> run_opt (compositor_step gx) c pre = Some c' \<and> bad_resize c' e') \<longleftrightarrow>
        (\<exists>pre e' post c'. es = pre @ e' # post \<and> run_opt (compositor_step gx) c1 pre = Some c' \<and> bad_resize c' e')"
      (is "?l \<longleftrightarrow> ?r")
    proof
      assume ?l
      then obtain pre e' post c' where l: "e # es = pre @ e' # post" "run_opt (compositor_step gx) c pre = Some c'" "bad_resize c' e'"
        by blast
      with ok obtain pre' where "pre = e # pre'" by (cases pre) auto
      with l Some show ?r by auto
    next
      assume ?r
      then obtain pre e' post c' where "es = pre @ e' # post" "run_opt (compositor_step gx) c1 pre = Some c'" "bad_resize c' e'"
        by blast
      then show ?l using Some by (intro exI [of _ "e # pre"]) auto
    qed
    with Some Cons.IH [of c1] show ?thesis by simp
  qed
qed simp

section \<open>Buffer age\<close>

lemma rev_update_last: "0 < j \<Longrightarrow> j < length h \<Longrightarrow> rev (h[length h - 1 := d]) ! j = rev h ! j"
  by (simp add: rev_nth)

lemma age_loop_result:
  assumes laws: "sk_rect_laws sk"
  shows "0 < k \<Longrightarrow> k + n \<le> length h \<Longrightarrow> age_loop sk n k h sd clip = (h', sd', clip') \<Longrightarrow>
    pixels sd' = pixels sd \<union> (\<Union>j \<in> {k..<k + n}. pixels (rev h ! j)) \<and>
    pixels clip' = pixels clip \<union> (\<Union>j \<in> {k..<k + n}. pixels (rev h ! j)) \<and>
    h' = (if n = 0 then h else h[length h - 1 := rev h ! (k + n - 1)])"
proof (induction n arbitrary: k h sd clip)
  case (Suc n)
  let ?d = "rev h ! k" and ?h = "h[length h - 1 := rev h ! k]"
  have l: "age_loop sk n (Suc k) ?h (fold (addDamageRect sk) ?d sd) (clip @ ?d) = (h', sd', clip')"
    using Suc.prems by (simp add: Let_def)
  have same: "rev ?h ! j = rev h ! j" if "j \<in> {Suc k..<Suc k + n}" for j
    using that Suc.prems(1,2) by (intro rev_update_last) auto
  have "pixels sd' = pixels (fold (addDamageRect sk) ?d sd) \<union> (\<Union>j \<in> {Suc k..<Suc k + n}. pixels (rev ?h ! j)) \<and>
    pixels clip' = pixels (clip @ ?d) \<union> (\<Union>j \<in> {Suc k..<Suc k + n}. pixels (rev ?h ! j)) \<and>
    h' = (if n = 0 then ?h else ?h[length ?h - 1 := rev ?h ! (Suc k + n - 1)])"
    by (rule Suc.IH [OF _ _ l]) (use Suc.prems in auto)
  moreover have "{k..<k + Suc n} = insert k {Suc k..<Suc k + n}" by auto
  moreover have "n \<noteq> 0 \<Longrightarrow> rev ?h ! (Suc k + n - 1) = rev h ! (k + n)" using same [of "k + n"] by simp
  ultimately show ?case
    using same by (auto simp: layer_damage.fold_pixels [OF laws])
qed simp

lemma age_loop_from_start:
  assumes laws: "sk_rect_laws sk" and "0 < n" and "n \<le> length h" and "age_loop sk n 0 h sd clip = (h', sd', clip')"
  shows "pixels sd' = pixels sd \<union> (\<Union>d \<in> set (take n (rev h)). pixels d)"
    and "pixels clip' = pixels clip \<union> (\<Union>d \<in> set (take n (rev h)). pixels d)"
    and "h' = h[length h - 1 := rev h ! (n - 1)]"
proof -
  obtain m where n: "n = Suc m" using assms(2) by (cases n) auto
  let ?d = "rev h ! 0"
  have "0 < length h" using assms(2,3) by linarith
  then have h: "h[length h - 1 := ?d] = h" by (simp add: rev_nth)
  have l: "age_loop sk m (Suc 0) h (fold (addDamageRect sk) ?d sd) (clip @ ?d) = (h', sd', clip')"
    using assms(4) \<open>0 < length h\<close> by (simp only: n age_loop.simps Let_def if_True h)
  have t: "(\<Union>d \<in> set (take n (rev h)). pixels d) = pixels ?d \<union> (\<Union>j \<in> {Suc 0..<Suc 0 + m}. pixels (rev h ! j))"
  proof -
    have "set (take n (rev h)) = (\<lambda>j. rev h ! j) ` {0..<n}"
      using nth_image [of n "rev h"] assms(3) by (simp add: lessThan_atLeast0)
    moreover have "{0..<n} = insert 0 {Suc 0..<Suc 0 + m}" by (auto simp: n)
    ultimately show ?thesis by simp
  qed
  note r = age_loop_result [OF laws _ _ l]
  show "pixels sd' = pixels sd \<union> (\<Union>d \<in> set (take n (rev h)). pixels d)"
    and "pixels clip' = pixels clip \<union> (\<Union>d \<in> set (take n (rev h)). pixels d)"
    using r assms(3) unfolding t by (auto simp: n layer_damage.fold_pixels [OF laws])
  show "h' = h[length h - 1 := rev h ! (n - 1)]" using r assms(3) h by (auto simp: n)
qed

lemma beginClip_aged:
  assumes "sk_rect_laws sk" and "2 \<le> a" and "a \<le> int (length (frameDamageHistory c))" and "surfaceDamage c \<noteq> []"
    and "beginClip sk (Some a) c = (clip, c')"
  shows "pixels (surfaceDamage c') = pixels (surfaceDamage c) \<union> (\<Union>d \<in> set (take (nat (a - 1)) (rev (frameDamageHistory c))). pixels d)"
    and "pixels clip = pixels (surfaceDamage c')"
    and "frameDamageHistory c' = (frameDamageHistory c)[length (frameDamageHistory c) - 1 := rev (frameDamageHistory c) ! nat (a - 2)]"
proof -
  obtain h sd cl where l: "age_loop sk (nat (a - 1)) 0 (frameDamageHistory c) (surfaceDamage c) (surfaceDamage c) = (h, sd, cl)"
    by (metis prod_cases3)
  have c': "clip = cl" "c' = c\<lparr>frameDamageHistory := h, surfaceDamage := sd\<rparr>"
    using assms(2-5) l by (auto simp: beginClip_def)
  have n: "nat (a - 1) - 1 = nat (a - 2)" using assms(2) by simp
  note r = age_loop_from_start [OF assms(1) _ _ l, unfolded n]
  show "pixels (surfaceDamage c') = pixels (surfaceDamage c) \<union> (\<Union>d \<in> set (take (nat (a - 1)) (rev (frameDamageHistory c))). pixels d)"
    "pixels clip = pixels (surfaceDamage c')"
    "frameDamageHistory c' = (frameDamageHistory c)[length (frameDamageHistory c) - 1 := rev (frameDamageHistory c) ! nat (a - 2)]"
    using r assms(2,3) by (simp_all add: c')
qed

section \<open>Properties\<close>

text \<open>C21: A frame painted into a back buffer that is \<open>a\<close> frames old repaints the damage of this frame
  and of the \<open>a - 1\<close> frames before it, as the history has them, and nothing else.\<close>

theorem buffer_age_repaints_missed_frames:
  assumes "sk_rect_laws sk" and "1 \<le> a" and "a \<le> int (length (frameDamageHistory c))" and "surfaceDamage c \<noteq> []"
    and "beginClip sk (Some a) c = (clip, c')"
  shows "pixels (surfaceDamage c') = pixels (surfaceDamage c) \<union> (\<Union>d \<in> set (take (nat (a - 1)) (rev (frameDamageHistory c))). pixels d) \<and>
    pixels clip = pixels (surfaceDamage c')"
proof (cases "a = 1")
  case True
  with assms(4,5) show ?thesis by (auto simp: beginClip_def)
next
  case False
  with assms(2) have "2 \<le> a" by simp
  from beginClip_aged [OF assms(1) this assms(3-5)] show ?thesis by simp
qed

text \<open>The history is spoilt on the way: with a back buffer three frames old, the damage of the newest
  frame is overwritten with that of the frame before it, and the next frame does not repaint it.\<close>

theorem buffer_age_loses_damage:
  assumes "sk_rect_laws sk" and "frameDamageHistory c = h @ [older, newest]" and "h \<noteq> []" and "surfaceDamage c = cur" and "cur \<noteq> []"
    and "beginClip sk (Some 3) c = (clip1, c1)" and "nxt \<noteq> []"
    and "beginClip sk (Some 3) (c1\<lparr>frameDamageHistory := push_history cur (frameDamageHistory c1), surfaceDamage := nxt\<rparr>) = (clip2, c2)"
  shows "pixels (surfaceDamage c2) = pixels nxt \<union> pixels cur \<union> pixels older"
proof -
  have "3 \<le> int (length (frameDamageHistory c))" using assms(2,3) by (cases h) auto
  then have "frameDamageHistory c1 = h @ [older, older]"
    using beginClip_aged(3) [OF assms(1) _ _ _ assms(6)] assms(2,4,5) by (simp add: rev_nth nth_append list_update_append)
  moreover obtain a hs where "h = a # hs" using assms(3) by (cases h) auto
  ultimately have "push_history cur (frameDamageHistory c1) = (if 2 \<le> length hs then hs @ [older] else a # hs @ [older]) @ [older, cur]"
    by (simp add: push_history_def)
  then obtain g where g: "push_history cur (frameDamageHistory c1) = g @ [older, cur]" and "g \<noteq> []" by force
  let ?c = "c1\<lparr>frameDamageHistory := push_history cur (frameDamageHistory c1), surfaceDamage := nxt\<rparr>"
  have "3 \<le> int (length (frameDamageHistory ?c))" using g \<open>g \<noteq> []\<close> by (cases g) auto
  from beginClip_aged(1) [OF assms(1) _ this _ assms(8)] assms(7) g show ?thesis by (auto simp: numeral_eq_Suc)
qed

text \<open>C22: However changes of the tree by several threads, dispatches, renderings, resizes, and starts and
  stops of the main loop are ordered: a step fails exactly when a thread that does not hold the lock
  resizes to a new size (\<open>setViewportSize\<close> commits without \<open>begin\<close>); up to there, exactly one render is on its
  way to the main loop, dispatched to it, or lost when the state is \<open>Scheduled\<close>, and none otherwise. None is
  lost while the main loop runs all the time.\<close>

theorem one_render_scheduled:
  "(run_opt (compositor_step gx) (new_compositor running w pu ws s) es = None \<longleftrightarrow>
     (\<exists>pre th sz age post c. es = pre @ Resize th sz age # post \<and>
        run_opt (compositor_step gx) (new_compositor running w pu ws s) pre = Some c \<and>
        isMutating c \<noteq> Some th \<and> sz \<noteq> viewportSize c)) \<and>
   (\<forall>c. run_opt (compositor_step gx) (new_compositor running w pu ws s) es = Some c \<longrightarrow>
     updateState c \<noteq> InProgress \<and>
     cm_posting c + cm_dispatched c + cm_lost c = (if updateState c = Scheduled then 1 else 0) \<and>
     (running \<and> LoopRuns False \<notin> set es \<longrightarrow> cm_lost c = 0))"
proof (intro conjI allI impI)
  show "run_opt (compositor_step gx) (new_compositor running w pu ws s) es = None \<longleftrightarrow>
     (\<exists>pre th sz age post c. es = pre @ Resize th sz age # post \<and>
        run_opt (compositor_step gx) (new_compositor running w pu ws s) pre = Some c \<and>
        isMutating c \<noteq> Some th \<and> sz \<noteq> viewportSize c)"
    unfolding run_none bad_resize_def by blast
next
  fix c
  assume run: "run_opt (compositor_step gx) (new_compositor running w pu ws s) es = Some c"
  note ok = run_scheduling [OF new_scheduling run]
  from ok show "updateState c \<noteq> InProgress"
    "cm_posting c + cm_dispatched c + cm_lost c = (if updateState c = Scheduled then 1 else 0)"
    by (simp_all add: scheduling_ok_def)
  show "cm_lost c = 0" if "running \<and> LoopRuns False \<notin> set es"
    using ok that by (simp add: new_scheduling_simps)
qed

text \<open>A new size of the window releases a lock that the thread does not hold.\<close>

theorem resize_unlocks_free_lock:
  assumes "isMutating c \<noteq> Some th" and "sz \<noteq> viewportSize c"
  shows "setViewportSize gx age th sz c = None"
  using assms by (simp add: setViewportSize_def commit_none)

text \<open>A render that was lost is never made up for: the state stays \<open>Scheduled\<close>, so that no later change is
  dispatched, although the main loop runs by then.\<close>

theorem lost_render_blocks_rendering:
  assumes "scheduling_ok c" and "cm_lost c \<noteq> 0" and "run_opt (compositor_step gx) c es = Some c'"
  shows "updateState c' = Scheduled \<and> cm_dispatched c' = 0"
proof -
  have "cm_lost c \<le> cm_lost c'" using assms(3) by (rule run_lost)
  moreover have "scheduling_ok c'" using run_scheduling [OF assms(1,3)] by simp
  ultimately show ?thesis using assms(2) by (auto simp: scheduling_ok_def split: if_splits)
qed

text \<open>C23: With a running main loop, a window with its back buffer and partial updates, and no render under way
  but one already dispatched, a change of the tree reaches the screen: the render it schedules shows one
  frame, in which every layer outside scroll layers that was invalidated and is still in the tree is painted,
  inside the part shown. The layers must lie inside their parents, be opaque and have distinct ids, and the
  layer must not be empty; \<open>overflowing_layer_not_repainted\<close> shows a layer that reaches out of its parent
  left out.\<close>

theorem change_reaches_screen:
  assumes laws: "sk_rect_laws (gx_sk gx)" and ok: "scheduling_ok c" "isMutating c = None" "cm_running c" "cm_posting c = 0" "cm_lost c = 0"
    and win: "windowContext c" "backBuffer c" "supportPartialUpdate c"
    and ch: "change_tree gx None th False (\<lambda>_. Some t) c = Some c1"
    and pp: "prePaint gx True None False t [] = (t', ds)"
    and nest: "nested t'" "\<forall>l \<in> set (outer t'). opaque l" "distinct (map layerId (outer t))"
    and l: "l \<in> set (outer t)" "invalidateMask l \<noteq> mask_none" "l' \<in> set (outer t')" "layerId l' = layerId l" "\<not> irect_empty (bounds l')"
  shows "\<exists>fr. cm_frames (run_dispatched gx None c1) = cm_frames c @ [fr] \<and>
    layerId l \<in> painted (fr_ops fr) \<and> rect_pixels (bounds l') \<subseteq> pixels (fr_swap fr) \<and> fr_clip fr = fr_swap fr"
proof -
  note c1 = change_scheduled [OF ok win(1) ch]
  have rep: "repainted (outer t) (outer t') ds"
    using prePaint_repainted(1) [OF laws, where ds = "[]" and pu = True and par = None and force = False and t = t] pp by simp
  then obtain k where k: "k \<in> set (outer t)" "layerId k = layerId l'"
    "invalidateMask k \<noteq> mask_none \<longrightarrow> rect_pixels (bounds l') \<subseteq> pixels ds"
    using l(3) unfolding repainted_def by blast
  then have "k = l" using nest(3) l(1,4) by (auto simp: distinct_map dest: inj_onD)
  with k l have sub: "rect_pixels (bounds l') \<subseteq> pixels ds" and "rect_pixels (bounds l') \<inter> pixels ds \<noteq> {}"
    by (auto simp: empty_iff_pixels)
  from paint_outer [OF laws nest(1,2) l(3) this(2)]
  have p: "layerId l \<in> painted (fst (paint gx True (0, 0) ds t'))" and m: "rect_pixels (bounds (layer_of t')) \<inter> pixels ds \<noteq> {}"
    using l(4) by auto
  have "layer_of t' \<in> set (outer t')" by (cases t') simp
  with m nest(2) have np: "needsPainting gx True (0, 0) ds (layer_of t')"
    by (auto simp: needsPainting_pixels [OF laws] opaque_def)
  have "ds \<noteq> []" using sub l(5) by (auto simp: empty_iff_pixels)
  then have bc: "beginClip (gx_sk gx) None c0 = (ds, c0)" if "surfaceDamage c0 = ds" for c0 :: "'a compositor"
    using that by (simp add: beginClip_def)
  show ?thesis
    using win pp np p sub c1 by (simp add: run_dispatched_def renderLayerTree_def bc split_beta)
qed

section \<open>Examples\<close>

definition aged :: "damage list \<Rightarrow> damage \<Rightarrow> (scalar \<times> scalar) compositor" where
  "aged h sd = (new_compositor True True True (99, 99) (0, 0))\<lparr>frameDamageHistory := h, surfaceDamage := sd\<rparr>"

lemma aged_simps: "frameDamageHistory (aged h sd) = h" "surfaceDamage (aged h sd) = sd"
  by (simp_all add: aged_def)

lemma buffer_age_repaints_missed_frames_witness:
  "\<exists>clip c'. beginClip sk_rect_ref (Some 2) (aged [[box 0 1], [box 2 3]] [box 4 5]) = (clip, c') \<and>
     pixels (surfaceDamage c') = pixels [box 4 5] \<union> pixels [box 2 3]"
proof -
  obtain clip c' where b: "beginClip sk_rect_ref (Some 2) (aged [[box 0 1], [box 2 3]] [box 4 5]) = (clip, c')" by fastforce
  have "pixels (surfaceDamage c') = pixels [box 4 5] \<union> (\<Union>d \<in> set (take (nat (2 - 1)) (rev [[box 0 1], [box 2 3]])). pixels d)"
    using buffer_age_repaints_missed_frames [OF sk_rect_ref_laws _ _ _ b] by (simp add: aged_simps)
  with b show ?thesis by simp
qed

lemma buffer_age_loses_damage_witness:
  "\<exists>clip1 c1 clip2 c2. beginClip sk_rect_ref (Some 3) (aged ([[]] @ [[box 0 1], [box 2 3]]) [box 4 5]) = (clip1, c1) \<and>
     beginClip sk_rect_ref (Some 3)
       (c1\<lparr>frameDamageHistory := push_history [box 4 5] (frameDamageHistory c1), surfaceDamage := [box 6 7]\<rparr>) = (clip2, c2) \<and>
     (2, 2) \<in> pixels [box 2 3] \<and> (2, 2) \<notin> pixels (surfaceDamage c2)"
proof -
  obtain clip1 c1 where b: "beginClip sk_rect_ref (Some 3) (aged ([[]] @ [[box 0 1], [box 2 3]]) [box 4 5]) = (clip1, c1)" by fastforce
  obtain clip2 c2 where b2: "beginClip sk_rect_ref (Some 3)
       (c1\<lparr>frameDamageHistory := push_history [box 4 5] (frameDamageHistory c1), surfaceDamage := [box 6 7]\<rparr>) = (clip2, c2)" by fastforce
  have "pixels (surfaceDamage c2) = pixels [box 6 7] \<union> pixels [box 4 5] \<union> pixels [box 0 1]"
    by (rule buffer_age_loses_damage [OF sk_rect_ref_laws, where h = "[[]]", OF _ _ _ _ b _ b2]) (simp_all add: aged_simps)
  with b b2 show ?thesis by (auto simp: box_pixels)
qed

lemma one_render_scheduled_witness:
  "\<exists>c. run_opt (compositor_step gfx_ref) (new_compositor True True True (99, 99) (0, 0))
     [BeginChange 1, BeginChange 2, CommitChange 1 False None, BeginChange 2, DispatchRender,
      CommitChange 2 False None, MainLoop None] = Some c \<and> updateState c \<noteq> InProgress \<and> cm_lost c = 0"
proof -
  let ?es = "[BeginChange 1, BeginChange 2, CommitChange 1 False None, BeginChange 2, DispatchRender,
      CommitChange 2 False None, MainLoop None] :: (scalar \<times> scalar) compositor_event list"
  note w = one_render_scheduled [of gfx_ref True True True "(99, 99)" "(0, 0)" ?es]
  have "run_opt (compositor_step gfx_ref) (new_compositor True True True (99, 99) (0, 0)) ?es \<noteq> None"
    using w [THEN conjunct1] by (auto simp: Cons_eq_append_conv)
  then obtain c where c: "run_opt (compositor_step gfx_ref) (new_compositor True True True (99, 99) (0, 0)) ?es = Some c"
    by blast
  with w [THEN conjunct2] have "updateState c \<noteq> InProgress \<and> cm_lost c = 0" by fastforce
  with c show ?thesis by blast
qed

lemma resize_unlocks_free_lock_witness: "setViewportSize gfx_ref None 0 (50, 50) (aged [] []) = None"
  by (rule resize_unlocks_free_lock) (simp_all add: aged_def new_compositor_def Let_def)

text \<open>A change that is committed before the main loop runs.\<close>

definition early_change :: "(scalar \<times> scalar) compositor_event list" where
  "early_change = [BeginChange 0, CommitChange 0 False None, DispatchRender, LoopRuns True]"

lemma lost_render_blocks_rendering_witness:
  "\<exists>c. run_opt (compositor_step gfx_ref) (new_compositor False True True (99, 99) (0, 0)) early_change = Some c \<and>
     cm_running c \<and> (\<forall>c'. run_opt (compositor_step gfx_ref) c [BeginChange 0, CommitChange 0 False None, DispatchRender, MainLoop None] = Some c' \<longrightarrow>
       updateState c' = Scheduled \<and> cm_dispatched c' = 0)"
proof -
  obtain c where c: "run_opt (compositor_step gfx_ref) (new_compositor False True True (99, 99) (0, 0)) early_change = Some c"
    and l: "cm_running c" "cm_lost c \<noteq> 0" "scheduling_ok c"
    by (auto simp: early_change_def new_compositor_def begin_mutation_def commit_def unlock_def dispatch_render_def
      scheduling_ok_def Let_def)
  from lost_render_blocks_rendering [OF l(3,2)] c l(1) show ?thesis by blast
qed

lemma change_reaches_screen_witness:
  "\<exists>c1 fr. change_tree gfx_ref None 0 False (\<lambda>_. Some (Node (plain_layer 1 0 9 mask_all) [])) (aged [] []) = Some c1 \<and>
     cm_frames (run_dispatched gfx_ref None c1) = [fr] \<and> 1 \<in> painted (fr_ops fr) \<and>
     rect_pixels (box 0 9) \<subseteq> pixels (fr_swap fr)"
proof -
  let ?t = "Node (plain_layer 1 0 9 mask_all) []" and ?l' = "plain_layer 1 0 9 mask_none\<lparr>frameBounds := box 0 9\<rparr>"
  have ok: "scheduling_ok (aged [] [])" "isMutating (aged [] []) = None" "cm_running (aged [] [])" "cm_posting (aged [] []) = 0" "cm_lost (aged [] []) = 0"
    by (simp_all add: aged_def scheduling_ok_def new_compositor_def Let_def)
  have w: "windowContext (aged [] [])" "backBuffer (aged [] [])" "supportPartialUpdate (aged [] [])" "cm_frames (aged [] []) = []"
    by (simp_all add: aged_def new_compositor_def Let_def)
  obtain c1 where c: "change_tree gfx_ref None 0 False (\<lambda>_. Some ?t) (aged [] []) = Some c1"
    by (auto simp: change_tree_def begin_mutation_def commit_def unlock_def aged_def new_compositor_def Let_def)
  have l': "opaque ?l'" "l_scroll ?l' = None" "layerId ?l' = 1" "bounds ?l' = box 0 9" "\<not> irect_empty (box 0 9)"
    by (simp_all add: opaque_def plain_layer_def layer_init_def box_def irect_empty_def)
  have "\<exists>fr. cm_frames (run_dispatched gfx_ref None c1) = cm_frames (aged [] []) @ [fr] \<and>
    layerId (plain_layer 1 0 9 mask_all) \<in> painted (fr_ops fr) \<and> rect_pixels (bounds ?l') \<subseteq> pixels (fr_swap fr) \<and> fr_clip fr = fr_swap fr"
    by (rule change_reaches_screen [OF gfx_ref_laws ok w(1,2,3) c prePaint_plain_root]) (use l' in simp_all)
  with c w(4) l'(4) show ?thesis by fastforce
qed

end
