(* ===== verification/Windows.thy ===== *)
theory Windows imports Damage RnsKeys "HOL-Library.Monad_Syntax" begin

text \<open>
  Windows of the SDK: the window delegator (\<open>ReactSkia/sdk/WindowDelegator.cpp\<close>), in a build with
  partial updates and a GPU, and the alert window that uses it (\<open>ReactSkia/sdk/Alert.cpp\<close>).

  The delegator's worker thread runs the tasks dispatched to it in order (\<open>wd_tasks\<close>); starting a
  second one while the first can still be joined ends the program (\<open>None\<close>). \<open>wd_out\<close> records what is
  played on the canvas and shown. A native window is a number, which the window system chooses; the
  age of the back buffer comes with each render. On X11 drawing waits for the first expose event.
\<close>

section \<open>The window delegator\<close>

record 'p picture_object =
  po_dirtyRect :: "sk_irect list"
  po_picture :: "'p option"
  po_invalidate :: bool

datatype 'p window_task = CreateNative nat | Render string "'p picture_object" bool

datatype 'p window_out = Playback 'p | Swap damage

record 'p delegator =
  wd_x11 :: bool
  wd_size :: "int \<times> int"
  windowActive :: bool
  wd_window :: "nat option"
  supportsPartialUpdate :: bool
  fullScreenDirtyRects :: "sk_irect list"
  dirtyRects :: damage
  exposePending :: bool
  workerThread :: bool
  wd_tasks :: "'p window_task list"
  recentComponentCommands :: "(string \<times> 'p picture_object) list"
  wd_out :: "'p window_out list"

text \<open>\<open>createWindow\<close> on a task runner of its own: the thread starts, and creates the window \<open>w\<close>.\<close>

definition createWindow :: "nat \<Rightarrow> int \<times> int \<Rightarrow> ('p, 'z) delegator_scheme \<Rightarrow> ('p, 'z) delegator_scheme option" where
  "createWindow w sz d =
     (if workerThread d then None
      else Some (d\<lparr>wd_size := sz, workerThread := True, wd_tasks := wd_tasks d @ [CreateNative w]\<rparr>))"

definition createNativeWindow :: "nat \<Rightarrow> ('p, 'z) delegator_scheme \<Rightarrow> ('p, 'z) delegator_scheme" where
  "createNativeWindow w d =
     d\<lparr>wd_window := Some w, exposePending := wd_x11 d, windowActive := True,
       fullScreenDirtyRects := fullScreenDirtyRects d @ [\<lparr>fLeft = 0, fTop = 0, fRight = fst (wd_size d), fBottom = snd (wd_size d)\<rparr>]\<rparr>"

definition closeNativeWindow :: "('p, 'z) delegator_scheme \<Rightarrow> ('p, 'z) delegator_scheme" where
  "closeNativeWindow d = d\<lparr>exposePending := False, wd_window := None, recentComponentCommands := []\<rparr>"

definition commitDrawCall :: "string \<Rightarrow> 'p picture_object \<Rightarrow> bool \<Rightarrow> ('p, 'z) delegator_scheme \<Rightarrow> ('p, 'z) delegator_scheme" where
  "commitDrawCall key po batch d =
     (if windowActive d \<and> workerThread d then d\<lparr>wd_tasks := wd_tasks d @ [Render key po batch]\<rparr> else d)"

definition add_dirty_rects :: "sk_rect_api \<Rightarrow> sk_irect list \<Rightarrow> ('p, 'z) delegator_scheme \<Rightarrow> ('p, 'z) delegator_scheme" where
  "add_dirty_rects sk rs d = d\<lparr>dirtyRects := generateDirtyRect sk rs (dirtyRects d)\<rparr>"

definition play :: "'p picture_object \<Rightarrow> ('p, 'z) delegator_scheme \<Rightarrow> ('p, 'z) delegator_scheme" where
  "play po d = (case po_picture po of None \<Rightarrow> d | Some p \<Rightarrow> d\<lparr>wd_out := wd_out d @ [Playback p]\<rparr>)"

text \<open>The command of a component is replaced, or added at the end.\<close>

fun put_command :: "string \<Rightarrow> 'p picture_object \<Rightarrow> (string \<times> 'p picture_object) list \<Rightarrow> (string \<times> 'p picture_object) list" where
  "put_command k po [] = [(k, po)]"
| "put_command k po (c # cs) = (if fst c = k then (k, po) # cs else c # put_command k po cs)"

definition updateRecentCommand ::
  "sk_rect_api \<Rightarrow> string \<Rightarrow> 'p picture_object \<Rightarrow> int \<Rightarrow> bool \<Rightarrow> ('p, 'z) delegator_scheme \<Rightarrow> ('p, 'z) delegator_scheme" where
  "updateRecentCommand sk k po age upd d =
     (let d1 = (case map_of (recentComponentCommands d) k of
                  Some old \<Rightarrow> if upd \<and> supportsPartialUpdate d \<and> age \<noteq> 0 then add_dirty_rects sk (po_dirtyRect old) d else d
                | None \<Rightarrow> d)
      in d1\<lparr>recentComponentCommands := put_command k po (recentComponentCommands d)\<rparr>)"

text \<open>The stored commands are played again, to fill in missed frames; \<open>full\<close>: the whole screen is dirty.\<close>

fun replay :: "sk_rect_api \<Rightarrow> int \<Rightarrow> bool \<Rightarrow> (string \<times> 'p picture_object) list \<Rightarrow> ('p, 'z) delegator_scheme \<Rightarrow> ('p, 'z) delegator_scheme" where
  "replay sk age full [] d = d"
| "replay sk age full ((k, po) # cs) d =
     (if po_picture po = None then replay sk age full cs d
      else let d1 = play po d
           in if supportsPartialUpdate d \<and> \<not> full
              then if age = 0 then replay sk age True cs (add_dirty_rects sk (fullScreenDirtyRects d) d1)
                   else if po_invalidate po then replay sk age full cs (add_dirty_rects sk (po_dirtyRect po) d1)
                   else replay sk age full cs d1
              else replay sk age full cs d1)"

definition show_frame :: "('p, 'z) delegator_scheme \<Rightarrow> ('p, 'z) delegator_scheme" where
  "show_frame d = d\<lparr>wd_out := wd_out d @ [Swap (dirtyRects d)], dirtyRects := []\<rparr>"

definition renderToDisplay ::
  "sk_rect_api \<Rightarrow> int \<Rightarrow> string \<Rightarrow> 'p picture_object \<Rightarrow> bool \<Rightarrow> ('p, 'z) delegator_scheme \<Rightarrow> ('p, 'z) delegator_scheme" where
  "renderToDisplay sk age k po batch d =
     (if \<not> windowActive d then d
      else if age \<noteq> 1 \<and> batch then updateRecentCommand sk k po 0 False d
      else let d1 = updateRecentCommand sk k po age True d;
               d2 = (if age \<noteq> 1 then replay sk age False (recentComponentCommands d1) d1
                     else let d' = play po d1
                          in if po_picture po \<noteq> None \<and> supportsPartialUpdate d then add_dirty_rects sk (po_dirtyRect po) d' else d')
           in if batch then d2 else show_frame d2)"

section \<open>The alert window\<close>

datatype AlertWindowState = ALERT_WINDOW_ON_CREATION | ALERT_WINDOW_ACTIVE | ALERT_WINDOW_DESTRUCTED

record alert_info =
  alertTitle :: string
  alertMessage :: string

text \<open>What is drawn: the background, or an alert, or nothing.\<close>

datatype alert_picture = Background | AlertText alert_info | NoText

record alert = "alert_picture delegator" +
  alertInfoList :: "alert_info list"
  idOfMessageOnDisplay :: int
  msgPendingToBeChanged :: bool
  alertWindowState :: AlertWindowState

definition new_alert :: "bool \<Rightarrow> bool \<Rightarrow> alert" where
  "new_alert x11 pu = \<lparr>wd_x11 = x11, wd_size = (0, 0), windowActive = False, wd_window = None, supportsPartialUpdate = pu,
     fullScreenDirtyRects = [], dirtyRects = [], exposePending = False, workerThread = False, wd_tasks = [],
     recentComponentCommands = [], wd_out = [], alertInfoList = [], idOfMessageOnDisplay = - 1,
     msgPendingToBeChanged = False, alertWindowState = ALERT_WINDOW_DESTRUCTED\<rparr>"

text \<open>
  The environment: the size of the main window, the native window that is created next, and where
  the text of an alert is drawn, as Skia measures it.
\<close>

record alert_env =
  ae_size :: "int \<times> int"
  ae_window :: nat
  ae_textRect :: "alert_info \<Rightarrow> sk_irect"
  ae_sk :: sk_rect_api

definition drawRecentAlertTitleAndMsg :: "alert_env \<Rightarrow> alert \<Rightarrow> alert_picture picture_object \<times> alert" where
  "drawRecentAlertTitleAndMsg env a =
     (if alertInfoList a = [] \<or> alertWindowState a \<noteq> ALERT_WINDOW_ACTIVE \<or> msgPendingToBeChanged a
      then (\<lparr>po_dirtyRect = [], po_picture = Some NoText, po_invalidate = True\<rparr>, a)
      else let i = last (alertInfoList a)
           in (\<lparr>po_dirtyRect = [ae_textRect env i], po_picture = Some (AlertText i), po_invalidate = True\<rparr>,
               a\<lparr>idOfMessageOnDisplay := int (length (alertInfoList a))\<rparr>))"

text \<open>
  \<open>closeWindow\<close> waits for the worker thread: the tasks that are left do nothing any more, except that
  a window still to be created is created and closed.
\<close>

definition closeWindow :: "alert \<Rightarrow> alert" where
  "closeWindow a =
     (let a1 = a\<lparr>windowActive := False\<rparr>
      in if workerThread a
         then (closeNativeWindow (fold (\<lambda>t d. case t of CreateNative w \<Rightarrow> createNativeWindow w d | Render _ _ _ \<Rightarrow> d) (wd_tasks a) a1))
                \<lparr>wd_tasks := [], workerThread := False\<rparr>
         else a1)"

datatype AlertComponents = ALERT_BACKGROUND | ALERT_TITLE_AND_MESSAGE

definition triggerRenderRequest :: "alert_env \<Rightarrow> AlertComponents \<Rightarrow> bool \<Rightarrow> alert \<Rightarrow> alert option" where
  "triggerRenderRequest env part batch a =
     (if alertWindowState a \<noteq> ALERT_WINDOW_ACTIVE
      then createWindow (ae_window env) (ae_size env) (a\<lparr>alertWindowState := ALERT_WINDOW_ON_CREATION\<rparr>)
      else if alertInfoList a = [] then Some ((closeWindow a)\<lparr>alertWindowState := ALERT_WINDOW_DESTRUCTED\<rparr>)
      else Some (case part of
        ALERT_BACKGROUND \<Rightarrow> commitDrawCall ''AlertBackGround''
          \<lparr>po_dirtyRect = [\<lparr>fLeft = 0, fTop = 0, fRight = fst (wd_size a), fBottom = snd (wd_size a)\<rparr>],
            po_picture = Some Background, po_invalidate = False\<rparr> batch a
      | ALERT_TITLE_AND_MESSAGE \<Rightarrow>
          let (po, a1) = drawRecentAlertTitleAndMsg env a in commitDrawCall ''AlertTitleAndMessage'' po batch a1))"

definition showAlert :: "alert_env \<Rightarrow> alert_info \<Rightarrow> alert \<Rightarrow> alert option" where
  "showAlert env i a = triggerRenderRequest env ALERT_TITLE_AND_MESSAGE False (a\<lparr>alertInfoList := alertInfoList a @ [i]\<rparr>)"

definition windowReadyToDrawCB :: "alert_env \<Rightarrow> alert \<Rightarrow> alert option" where
  "windowReadyToDrawCB env a =
     do { a1 \<leftarrow> triggerRenderRequest env ALERT_BACKGROUND True (a\<lparr>alertWindowState := ALERT_WINDOW_ACTIVE\<rparr>);
          triggerRenderRequest env ALERT_TITLE_AND_MESSAGE False a1 }"

text \<open>\<open>msgIndex\<close> counts from 1, the position in the list from 0.\<close>

definition removeAlertFromAlertList :: "nat \<Rightarrow> alert \<Rightarrow> alert" where
  "removeAlertFromAlertList msgIndex a =
     (let l = alertInfoList a
      in if l = [] \<or> length l < msgIndex then a
         else if int (length l) = idOfMessageOnDisplay a then a\<lparr>alertInfoList := butlast l\<rparr>
         else a\<lparr>alertInfoList := take msgIndex l @ drop (Suc msgIndex) l\<rparr>)"

text \<open>
  The key handler, up to where it waits for the lock of the list, and from there. The first part's
  result is the index it has read, or \<open>None\<close> if the key is not for it.
\<close>

definition alert_key_begin :: "rnsKey \<Rightarrow> rnsKeyAction \<Rightarrow> nat \<Rightarrow> alert \<Rightarrow> nat option \<times> alert" where
  "alert_key_begin key act w a =
     (if wd_window a \<noteq> Some w \<or> act \<noteq> RNS_KEY_Press \<or> key \<noteq> RNS_KEY_Select \<or> idOfMessageOnDisplay a = - 1 then (None, a)
      else (Some (nat (idOfMessageOnDisplay a)), a\<lparr>msgPendingToBeChanged := True\<rparr>))"

definition alert_key_finish :: "alert_env \<Rightarrow> nat \<Rightarrow> alert \<Rightarrow> alert option" where
  "alert_key_finish env msgIndex a =
     triggerRenderRequest env ALERT_TITLE_AND_MESSAGE False ((removeAlertFromAlertList msgIndex a)\<lparr>msgPendingToBeChanged := False\<rparr>)"

definition onHWKeyHandler :: "alert_env \<Rightarrow> rnsKey \<Rightarrow> rnsKeyAction \<Rightarrow> nat \<Rightarrow> alert \<Rightarrow> alert option" where
  "onHWKeyHandler env key act w a =
     (case alert_key_begin key act w a of (None, a1) \<Rightarrow> Some a1 | (Some i, a1) \<Rightarrow> alert_key_finish env i a1)"

text \<open>The worker thread runs its first task.\<close>

definition alert_worker :: "alert_env \<Rightarrow> int \<Rightarrow> alert \<Rightarrow> alert option" where
  "alert_worker env age a =
     (case wd_tasks a of
        [] \<Rightarrow> Some a
      | CreateNative w # ts \<Rightarrow>
          let a1 = createNativeWindow w (a\<lparr>wd_tasks := ts\<rparr>)
          in if wd_x11 a then Some a1 else windowReadyToDrawCB env a1
      | Render k po batch # ts \<Rightarrow> Some (renderToDisplay (ae_sk env) age k po batch (a\<lparr>wd_tasks := ts\<rparr>)))"

definition onExposeHandler :: "alert_env \<Rightarrow> nat \<Rightarrow> alert \<Rightarrow> alert option" where
  "onExposeHandler env w a =
     (if exposePending a \<and> wd_window a = Some w then windowReadyToDrawCB env (a\<lparr>exposePending := False\<rparr>) else Some a)"

datatype alert_event = ShowAlert alert_info | AlertKey rnsKey rnsKeyAction nat | Worker int | Expose nat

fun alert_step :: "alert_env \<Rightarrow> alert \<Rightarrow> alert_event \<Rightarrow> alert option" where
  "alert_step env a (ShowAlert i) = showAlert env i a"
| "alert_step env a (AlertKey k act w) = onHWKeyHandler env k act w a"
| "alert_step env a (Worker age) = alert_worker env age a"
| "alert_step env a (Expose w) = onExposeHandler env w a"

section \<open>The stored commands\<close>

lemma map_of_put_command: "map_of (put_command k po cs) = (map_of cs)(k \<mapsto> po)"
  by (induction cs) (auto simp: fun_eq_iff)

lemma keys_put_command: "map fst (put_command k po cs) = (if k \<in> fst ` set cs then map fst cs else map fst cs @ [k])"
  by (induction cs) auto

lemma replay_other:
  "windowActive (replay sk age full cs d) = windowActive d" "recentComponentCommands (replay sk age full cs d) = recentComponentCommands d"
  by (induction sk age full cs d rule: replay.induct) (auto simp: add_dirty_rects_def play_def Let_def split: option.splits)

lemma update_command_simps [simp]:
  "recentComponentCommands (updateRecentCommand sk k po age upd d) = put_command k po (recentComponentCommands d)"
  "windowActive (updateRecentCommand sk k po age upd d) = windowActive d"
  "wd_out (updateRecentCommand sk k po age upd d) = wd_out d"
  "supportsPartialUpdate (updateRecentCommand sk k po age upd d) = supportsPartialUpdate d"
  "fullScreenDirtyRects (updateRecentCommand sk k po age upd d) = fullScreenDirtyRects d"
  by (auto simp: updateRecentCommand_def add_dirty_rects_def Let_def split: option.splits)

lemma render_commands:
  "windowActive (renderToDisplay sk age k po batch d) = windowActive d"
  "windowActive d \<Longrightarrow> recentComponentCommands (renderToDisplay sk age k po batch d) = put_command k po (recentComponentCommands d)"
  by (auto simp: renderToDisplay_def Let_def replay_other show_frame_def add_dirty_rects_def play_def split: option.splits)

lemma dirty_pixels:
  assumes "sk_rect_laws sk"
  shows "pixels (generateDirtyRect sk rs ds) = pixels rs \<union> pixels ds"
  unfolding generateDirtyRect_def by (rule delegator_damage.fold_pixels [OF assms])

definition put_all :: "(string \<times> 'p picture_object) list \<Rightarrow> (string \<times> 'p picture_object) list \<Rightarrow> (string \<times> 'p picture_object) list" where
  "put_all ps cs = fold (\<lambda>p. put_command (fst p) (snd p)) ps cs"

lemma put_all_result:
  "map_of (put_all ps cs) k = map_of (rev ps @ cs) k"
  "fst ` set (put_all ps cs) = fst ` set ps \<union> fst ` set cs"
  "distinct (map fst cs) \<Longrightarrow> distinct (map fst (put_all ps cs))"
proof (induction ps rule: rev_induct)
  case (snoc p ps)
  have s: "put_all (ps @ [p]) cs = put_command (fst p) (snd p) (put_all ps cs)" by (simp add: put_all_def)
  {
    case 1
    show ?case using snoc.IH(1) unfolding s by (cases "k = fst p") (auto simp: map_of_put_command map_add_def)
  next
    case 2
    have "fst ` set (put_all (ps @ [p]) cs) = insert (fst p) (fst ` set (put_all ps cs))"
      using arg_cong [OF keys_put_command [of "fst p" "snd p" "put_all ps cs"], of set] by (auto simp: s)
    with snoc.IH(2) show ?case by auto
  next
    case 3
    with snoc.IH(3) show ?case by (simp add: s keys_put_command)
  }
qed (simp_all add: put_all_def)

text \<open>A render: the age of the buffer, the component, the command and whether it is batched.\<close>

type_synonym 'p render_call = "int \<times> (string \<times> 'p picture_object) \<times> bool"

definition render_call :: "sk_rect_api \<Rightarrow> 'p render_call \<Rightarrow> 'p delegator \<Rightarrow> 'p delegator" where
  "render_call sk r d = renderToDisplay sk (fst r) (fst (fst (snd r))) (snd (fst (snd r))) (snd (snd r)) d"

lemma render_calls_commands:
  "windowActive d \<Longrightarrow> recentComponentCommands (fold (render_call sk) rs d) = put_all (map (fst \<circ> snd) rs) (recentComponentCommands d)"
  by (induction rs arbitrary: d) (simp_all add: render_call_def render_commands put_all_def)

text \<open>The window delegator keeps exactly the last command of every component that was drawn, once.\<close>

theorem last_commands_kept:
  assumes "windowActive d" and "recentComponentCommands d = []"
  shows "let cs = recentComponentCommands (fold (render_call sk) rs d)
    in distinct (map fst cs) \<and> (\<forall>k. map_of cs k = map_of (rev (map (fst \<circ> snd) rs)) k)"
  using put_all_result(1,3) [where ps = "map (fst \<circ> snd) rs" and cs = "[]"] by (simp add: render_calls_commands [OF assms(1)] assms(2) Let_def)

section \<open>What a frame shows\<close>

text \<open>When the back buffer holds the last frame, only the component that changed is drawn, and the part
  shown is its old and its new place and what was batched before.\<close>

theorem fresh_buffer_shows_change:
  assumes "sk_rect_laws sk" and "windowActive d" and "supportsPartialUpdate d"
    and "map_of (recentComponentCommands d) k = Some old" and "po_picture po = Some p"
  shows "\<exists>sd. wd_out (renderToDisplay sk 1 k po False d) = wd_out d @ [Playback p, Swap sd] \<and>
    pixels sd = pixels (dirtyRects d) \<union> pixels (po_dirtyRect old) \<union> pixels (po_dirtyRect po)"
  using assms(2-5)
  by (auto simp: renderToDisplay_def updateRecentCommand_def show_frame_def add_dirty_rects_def play_def Let_def
      dirty_pixels [OF assms(1)])

definition pictures :: "(string \<times> 'p picture_object) list \<Rightarrow> 'p list" where
  "pictures cs = concat (map (\<lambda>(k, po). case po_picture po of None \<Rightarrow> [] | Some p \<Rightarrow> [p]) cs)"

lemma replay_out:
  "wd_out (replay sk age full cs d) = wd_out d @ map Playback (pictures cs)"
proof (induction sk age full cs d rule: replay.induct)
  case (2 sk age full k po cs d)
  then show ?case
    by (cases "po_picture po") (auto simp: pictures_def add_dirty_rects_def play_def Let_def)
qed (simp add: pictures_def)

lemma replay_full:
  assumes "sk_rect_laws sk"
  shows "pixels (dirtyRects (replay sk 0 full cs d)) =
    (if full \<or> pictures cs = [] \<or> \<not> supportsPartialUpdate d then pixels (dirtyRects d) else pixels (fullScreenDirtyRects d) \<union> pixels (dirtyRects d))"
proof (induction cs arbitrary: full d)
  case (Cons c cs)
  then show ?case
    by (cases c; cases "po_picture (snd c)") (auto simp: pictures_def add_dirty_rects_def play_def Let_def dirty_pixels [OF assms])
qed (simp add: pictures_def)

text \<open>When the back buffer is empty, the last pictures of all components are drawn again in order, and
  the whole screen is shown.\<close>

theorem empty_buffer_redrawn:
  assumes "sk_rect_laws sk" and "windowActive d" and "supportsPartialUpdate d" and "po_picture po = Some p"
  shows "\<exists>sd. wd_out (renderToDisplay sk 0 k po False d) =
      wd_out d @ map Playback (pictures (put_command k po (recentComponentCommands d))) @ [Swap sd] \<and>
    pixels sd = pixels (dirtyRects d) \<union> pixels (fullScreenDirtyRects d)"
proof -
  let ?d = "updateRecentCommand sk k po 0 True d"
  have "pictures (put_command k po cs) \<noteq> []" for cs
    using assms(4) by (induction cs) (auto simp: pictures_def)
  moreover have "dirtyRects ?d = dirtyRects d" by (auto simp: updateRecentCommand_def Let_def split: option.splits)
  ultimately show ?thesis
    using assms(2-4)
    by (auto simp: renderToDisplay_def show_frame_def Let_def replay_out replay_full [OF assms(1)])
qed

text \<open>A batched change is stored without its old place: when the back buffer is older than one frame,
  the part shown by the next render does not include where the component was.\<close>

theorem batched_change_loses_old_place:
  assumes "sk_rect_laws sk" and "windowActive d" and "supportsPartialUpdate d" and "2 \<le> age"
    and "recentComponentCommands d = [(k, old)]" and "k' \<noteq> k" and "po_picture po = Some p" and "po_picture po' = Some p'"
    and "dirtyRects d = []"
  shows "\<exists>sd. wd_out (renderToDisplay sk age k' po' False (renderToDisplay sk age k po True d)) = wd_out d @ [Playback p, Playback p', Swap sd] \<and>
    pixels sd \<subseteq> pixels (po_dirtyRect po) \<union> pixels (po_dirtyRect po')"
  using assms(2-9)
  by (auto simp: renderToDisplay_def updateRecentCommand_def show_frame_def add_dirty_rects_def play_def Let_def
      dirty_pixels [OF assms(1)])

section \<open>Alerts\<close>

text \<open>
  What the window shows as its text once the worker thread has caught up: the last text handed to the
  worker, or else the one stored.
\<close>

definition text_renders :: "'p window_task list \<Rightarrow> 'p picture_object list" where
  "text_renders ts = concat (map (\<lambda>t. case t of
     CreateNative w \<Rightarrow> [] | Render k po b \<Rightarrow> if k = ''AlertTitleAndMessage'' then [po] else []) ts)"

definition text_shown :: "alert \<Rightarrow> alert_picture picture_object option" where
  "text_shown a = (if text_renders (wd_tasks a) = [] then map_of (recentComponentCommands a) ''AlertTitleAndMessage''
     else Some (last (text_renders (wd_tasks a))))"

definition shows_top :: "alert \<Rightarrow> bool" where
  "shows_top a \<longleftrightarrow> map_option po_picture (text_shown a) = Some (Some (AlertText (last (alertInfoList a))))"

definition active_ok :: "alert \<Rightarrow> bool" where
  "active_ok a \<longleftrightarrow> alertInfoList a \<noteq> [] \<and> idOfMessageOnDisplay a = int (length (alertInfoList a)) \<and>
     workerThread a \<and> windowActive a \<and> wd_window a \<noteq> None \<and> \<not> msgPendingToBeChanged a \<and> \<not> exposePending a \<and>
     (\<forall>t \<in> set (wd_tasks a). \<exists>k po b. t = Render k po b) \<and> shows_top a"

definition creation_ok :: "alert \<Rightarrow> bool" where
  "creation_ok a \<longleftrightarrow> (\<exists>i. alertInfoList a = [i]) \<and> workerThread a \<and> \<not> msgPendingToBeChanged a \<and>
     (wd_window a = None \<and> \<not> exposePending a \<and> (\<exists>w. wd_tasks a = [CreateNative w]) \<or>
      wd_window a \<noteq> None \<and> exposePending a \<and> windowActive a \<and> wd_tasks a = [])"

definition closed_ok :: "alert \<Rightarrow> bool" where
  "closed_ok a \<longleftrightarrow> alertInfoList a = [] \<and> \<not> workerThread a \<and> \<not> msgPendingToBeChanged a \<and> wd_window a = None \<and>
     \<not> exposePending a \<and> wd_tasks a = []"

definition alert_ok :: "alert \<Rightarrow> bool" where
  "alert_ok a \<longleftrightarrow> (case alertWindowState a of
     ALERT_WINDOW_ACTIVE \<Rightarrow> active_ok a | ALERT_WINDOW_ON_CREATION \<Rightarrow> creation_ok a | ALERT_WINDOW_DESTRUCTED \<Rightarrow> closed_ok a)"

text \<open>The key that dismisses an alert.\<close>

definition dismisses :: "alert \<Rightarrow> alert_event \<Rightarrow> bool" where
  "dismisses a e \<longleftrightarrow> (\<exists>w. e = AlertKey RNS_KEY_Select RNS_KEY_Press w \<and> wd_window a = Some w)"

text \<open>Another alert or a key must not come while the window is being created.\<close>

definition allowed :: "alert \<Rightarrow> alert_event \<Rightarrow> bool" where
  "allowed a e \<longleftrightarrow> alertWindowState a \<noteq> ALERT_WINDOW_ON_CREATION \<or> (\<forall>i. e \<noteq> ShowAlert i) \<and> \<not> dismisses a e"

inductive alert_reach :: "alert_env \<Rightarrow> bool \<Rightarrow> bool \<Rightarrow> alert \<Rightarrow> bool" for env x11 pu where
  reach_init: "alert_reach env x11 pu (new_alert x11 pu)"
| reach_step: "alert_reach env x11 pu a \<Longrightarrow> allowed a e \<Longrightarrow> alert_step env a e = Some a' \<Longrightarrow> alert_reach env x11 pu a'"

lemma text_renders_simps [simp]:
  "text_renders [] = []" "text_renders (ts @ us) = text_renders ts @ text_renders us"
  "text_renders (CreateNative w # ts) = text_renders ts"
  "text_renders (Render k po b # ts) = (if k = ''AlertTitleAndMessage'' then [po] else []) @ text_renders ts"
  by (simp_all add: text_renders_def)

text \<open>Drawing the text in an active window.\<close>

lemma draw_active:
  assumes "alertWindowState a = ALERT_WINDOW_ACTIVE" and "alertInfoList a \<noteq> []" and "workerThread a" and "windowActive a"
    and "\<not> msgPendingToBeChanged a" and "wd_window a \<noteq> None" and "\<not> exposePending a"
    and "\<forall>t \<in> set (wd_tasks a). \<exists>k po b. t = Render k po b"
  shows "\<exists>a'. triggerRenderRequest env ALERT_TITLE_AND_MESSAGE False a = Some a' \<and> alert_ok a' \<and>
    alertWindowState a' = ALERT_WINDOW_ACTIVE \<and> alertInfoList a' = alertInfoList a"
  using assms
  by (auto simp: triggerRenderRequest_def drawRecentAlertTitleAndMsg_def commitDrawCall_def alert_ok_def active_ok_def
      shows_top_def text_shown_def Let_def split_beta)

lemma ready_ok:
  assumes "alertInfoList a = [i]" and "workerThread a" and "windowActive a" and "\<not> msgPendingToBeChanged a"
    and "wd_window a \<noteq> None" and "\<not> exposePending a" and "wd_tasks a = []"
  shows "\<exists>a'. windowReadyToDrawCB env a = Some a' \<and> alert_ok a' \<and> alertWindowState a' = ALERT_WINDOW_ACTIVE \<and> alertInfoList a' = [i]"
  using assms
  by (auto simp: windowReadyToDrawCB_def triggerRenderRequest_def drawRecentAlertTitleAndMsg_def commitDrawCall_def alert_ok_def
      active_ok_def shows_top_def text_shown_def Let_def split_beta)

lemma close_ok:
  assumes "workerThread a" and "\<forall>t \<in> set (wd_tasks a). \<exists>k po b. t = Render k po b"
  shows "closeWindow a = (closeNativeWindow (a\<lparr>windowActive := False\<rparr>))\<lparr>wd_tasks := [], workerThread := False\<rparr>"
proof -
  have "fold (\<lambda>t d. case t of CreateNative w \<Rightarrow> createNativeWindow w d | Render _ _ _ \<Rightarrow> d) ts d = d"
    if "\<forall>t \<in> set ts. \<exists>k po b. t = Render k po b" for ts and d :: alert
    using that by (induction ts) auto
  from this [OF assms(2)] assms(1) show ?thesis by (simp add: closeWindow_def Let_def)
qed

text \<open>What rendering leaves alone.\<close>

definition same_alert :: "alert \<Rightarrow> alert \<Rightarrow> bool" where
  "same_alert b a \<longleftrightarrow> alertInfoList b = alertInfoList a \<and> idOfMessageOnDisplay b = idOfMessageOnDisplay a \<and>
     msgPendingToBeChanged b = msgPendingToBeChanged a \<and> alertWindowState b = alertWindowState a \<and> workerThread b = workerThread a \<and>
     wd_window b = wd_window a \<and> wd_tasks b = wd_tasks a \<and> exposePending b = exposePending a"

lemma replay_same: "same_alert b a \<Longrightarrow> same_alert (replay sk age full cs b) a"
proof (induction cs arbitrary: full b)
  case (Cons c cs)
  have p: "same_alert (play po b) a" "same_alert (add_dirty_rects sk rs (play po b)) a" for po rs
    using Cons.prems by (auto simp: same_alert_def play_def add_dirty_rects_def split: option.splits)
  show ?case
    using Cons p by (cases c) (auto simp: Let_def)
qed simp

lemma render_same: "same_alert (renderToDisplay sk age k po batch a) a"
proof -
  have u: "same_alert (updateRecentCommand sk k po x upd a) a" for x upd
    by (auto simp: same_alert_def updateRecentCommand_def add_dirty_rects_def Let_def split: option.splits)
  have p: "same_alert (play po b) a" if "same_alert b a" for b
    using that by (auto simp: same_alert_def play_def split: option.splits)
  have d: "same_alert (add_dirty_rects sk rs b) a" "same_alert (show_frame b) a" if "same_alert b a" for b rs
    using that by (auto simp: same_alert_def add_dirty_rects_def show_frame_def)
  have "same_alert a a" by (simp add: same_alert_def)
  then show ?thesis
    by (auto simp: renderToDisplay_def Let_def intro!: u p d replay_same)
qed

lemma render_text:
  assumes "windowActive a"
  shows "map_of (recentComponentCommands (renderToDisplay sk age k po b a)) t = (if k = t then Some po else map_of (recentComponentCommands a) t)"
  by (simp add: render_commands(2) [OF assms] map_of_put_command)

lemma worker_active:
  assumes "active_ok a"
  shows "\<exists>a'. alert_worker env age a = Some a' \<and> active_ok a' \<and> alertInfoList a' = alertInfoList a \<and> alertWindowState a' = alertWindowState a"
proof (cases "wd_tasks a")
  case Nil
  with assms show ?thesis by (simp add: alert_worker_def)
next
  case (Cons t ts)
  with assms obtain k po b where t: "t = Render k po b" by (auto simp: active_ok_def)
  let ?a = "a\<lparr>wd_tasks := ts\<rparr>" and ?a' = "renderToDisplay (ae_sk env) age k po b (a\<lparr>wd_tasks := ts\<rparr>)"
  have same: "same_alert ?a' ?a" by (rule render_same)
  have act: "windowActive ?a" using assms by (simp add: active_ok_def)
  have "text_shown ?a' = text_shown a"
    using same Cons t render_text [OF act, of "ae_sk env" age k po b "''AlertTitleAndMessage''"]
    by (auto simp: text_shown_def same_alert_def)
  with same assms act t Cons show ?thesis
    by (auto simp: alert_worker_def active_ok_def same_alert_def shows_top_def render_commands(1))
qed

text \<open>The list after an event: a stack.\<close>

definition stack_after :: "alert \<Rightarrow> alert_event \<Rightarrow> alert_info list" where
  "stack_after a e = (case e of ShowAlert i \<Rightarrow> alertInfoList a @ [i] | _ \<Rightarrow> if dismisses a e then butlast (alertInfoList a) else alertInfoList a)"

lemma alert_ok_states:
  "alertWindowState a = ALERT_WINDOW_ACTIVE \<Longrightarrow> alert_ok a = active_ok a"
  "alertWindowState a = ALERT_WINDOW_ON_CREATION \<Longrightarrow> alert_ok a = creation_ok a"
  "alertWindowState a = ALERT_WINDOW_DESTRUCTED \<Longrightarrow> alert_ok a = closed_ok a"
  by (simp_all add: alert_ok_def)

lemma key_ignored: "\<not> dismisses a (AlertKey k act w) \<Longrightarrow> onHWKeyHandler env k act w a = Some a"
  by (auto simp: dismisses_def onHWKeyHandler_def alert_key_begin_def)

lemma dismiss_active:
  assumes "alertWindowState a = ALERT_WINDOW_ACTIVE" and "active_ok a" and "dismisses a (AlertKey k act w)"
  shows "\<exists>a'. onHWKeyHandler env k act w a = Some a' \<and> alert_ok a' \<and> alertInfoList a' = butlast (alertInfoList a)"
proof -
  let ?a = "a\<lparr>alertInfoList := butlast (alertInfoList a), msgPendingToBeChanged := False\<rparr>"
  have ok: "alertInfoList a \<noteq> []" "idOfMessageOnDisplay a = int (length (alertInfoList a))" "workerThread a" "windowActive a"
    "\<forall>t \<in> set (wd_tasks a). \<exists>k po b. t = Render k po b" "wd_window a \<noteq> None" "\<not> exposePending a"
    using assms(2) by (auto simp: active_ok_def)
  have h: "onHWKeyHandler env k act w a = triggerRenderRequest env ALERT_TITLE_AND_MESSAGE False ?a"
    using assms(3) ok(1,2)
    by (auto simp: dismisses_def onHWKeyHandler_def alert_key_begin_def alert_key_finish_def removeAlertFromAlertList_def Let_def)
  show ?thesis
  proof (cases "butlast (alertInfoList a) = []")
    case True
    have "closed_ok ((closeWindow ?a)\<lparr>alertWindowState := ALERT_WINDOW_DESTRUCTED\<rparr>)"
      using ok True close_ok [of ?a] by (simp add: closed_ok_def closeNativeWindow_def)
    with h True assms(1) show ?thesis
      using close_ok [of ?a] ok by (simp add: triggerRenderRequest_def alert_ok_def closeNativeWindow_def)
  next
    case False
    with draw_active [of ?a env] assms(1) ok h show ?thesis by auto
  qed
qed

lemma alert_step_ok:
  assumes ok: "alert_ok a" and al: "allowed a e"
  shows "\<exists>a'. alert_step env a e = Some a' \<and> alert_ok a' \<and> alertInfoList a' = stack_after a e"
proof (cases "alertWindowState a")
  case ALERT_WINDOW_ON_CREATION
  then have c: "creation_ok a" using ok by (simp add: alert_ok_def)
  then obtain i where i: "alertInfoList a = [i]" by (auto simp: creation_ok_def)
  show ?thesis
  proof (cases e)
    case (ShowAlert j)
    with al ALERT_WINDOW_ON_CREATION show ?thesis by (simp add: allowed_def)
  next
    case (AlertKey k act w)
    with al ALERT_WINDOW_ON_CREATION have "\<not> dismisses a (AlertKey k act w)" by (simp add: allowed_def)
    with key_ignored ok AlertKey show ?thesis by (simp add: stack_after_def)
  next
    case (Worker age)
    show ?thesis
    proof (cases "wd_tasks a")
      case Nil
      with ok Worker show ?thesis by (simp add: alert_worker_def stack_after_def dismisses_def)
    next
      case (Cons t ts)
      with c obtain w where t: "t = CreateNative w" "ts = []" by (auto simp: creation_ok_def)
      let ?a = "createNativeWindow w (a\<lparr>wd_tasks := []\<rparr>)"
      have "creation_ok ?a \<and> alertWindowState ?a = ALERT_WINDOW_ON_CREATION" if "wd_x11 a"
        using c that ALERT_WINDOW_ON_CREATION by (auto simp: creation_ok_def createNativeWindow_def)
      moreover have "\<exists>a'. windowReadyToDrawCB env ?a = Some a' \<and> alert_ok a' \<and> alertInfoList a' = [i]" if "\<not> wd_x11 a"
        using ready_ok [of ?a i env] c i that by (auto simp: creation_ok_def createNativeWindow_def)
      ultimately show ?thesis
        using Cons t Worker i
        by (cases "wd_x11 a") (auto simp: alert_worker_def Let_def alert_ok_def stack_after_def dismisses_def createNativeWindow_def)
    qed
  next
    case (Expose w)
    show ?thesis
    proof (cases "exposePending a \<and> wd_window a = Some w")
      case True
      with c have "\<exists>a'. windowReadyToDrawCB env (a\<lparr>exposePending := False\<rparr>) = Some a' \<and> alert_ok a' \<and> alertInfoList a' = [i]"
        using ready_ok [of "a\<lparr>exposePending := False\<rparr>" i env] i by (auto simp: creation_ok_def)
      with True Expose i show ?thesis by (auto simp: onExposeHandler_def stack_after_def dismisses_def)
    next
      case False
      with ok Expose show ?thesis by (auto simp: onExposeHandler_def stack_after_def dismisses_def)
    qed
  qed
next
  case ALERT_WINDOW_ACTIVE
  then have c: "active_ok a" using ok by (simp add: alert_ok_def)
  show ?thesis
  proof (cases e)
    case (ShowAlert j)
    have "\<exists>a'. triggerRenderRequest env ALERT_TITLE_AND_MESSAGE False (a\<lparr>alertInfoList := alertInfoList a @ [j]\<rparr>) = Some a' \<and>
        alert_ok a' \<and> alertWindowState a' = ALERT_WINDOW_ACTIVE \<and> alertInfoList a' = alertInfoList a @ [j]"
      using draw_active [of "a\<lparr>alertInfoList := alertInfoList a @ [j]\<rparr>" env] c ALERT_WINDOW_ACTIVE by (simp add: active_ok_def)
    with ShowAlert show ?thesis by (auto simp: showAlert_def stack_after_def)
  next
    case (AlertKey k act w)
    with dismiss_active [OF ALERT_WINDOW_ACTIVE c, of k act w env] key_ignored [of a k act w env] ok show ?thesis
      by (cases "dismisses a (AlertKey k act w)") (auto simp: stack_after_def)
  next
    case (Worker age)
    with worker_active [OF c, of env age] ALERT_WINDOW_ACTIVE show ?thesis
      by (auto simp: alert_ok_def stack_after_def dismisses_def)
  next
    case (Expose w)
    with c ok show ?thesis by (auto simp: onExposeHandler_def active_ok_def stack_after_def dismisses_def)
  qed
next
  case ALERT_WINDOW_DESTRUCTED
  then have c: "closed_ok a" using ok by (simp add: alert_ok_def)
  show ?thesis
  proof (cases e)
    case (ShowAlert j)
    with c ALERT_WINDOW_DESTRUCTED show ?thesis
      by (auto simp: showAlert_def triggerRenderRequest_def createWindow_def closed_ok_def alert_ok_def creation_ok_def stack_after_def)
  next
    case (AlertKey k act w)
    have nd: "\<not> dismisses a e" using c by (auto simp: closed_ok_def dismisses_def)
    with key_ignored ok AlertKey show ?thesis by (simp add: stack_after_def)
  qed (use c ok in \<open>auto simp: alert_worker_def onExposeHandler_def closed_ok_def stack_after_def dismisses_def\<close>)
qed

lemma reach_ok: "alert_reach env x11 pu a \<Longrightarrow> alert_ok a"
proof (induction rule: alert_reach.induct)
  case reach_init
  then show ?case by (simp add: new_alert_def alert_ok_def closed_ok_def)
next
  case (reach_step a e a')
  with alert_step_ok [of a e env] show ?case by auto
qed

text \<open>C24: As long as no alert is shown and no key dismisses one while the window is being created, and the
  handler of a key is not interrupted by another alert, the alerts are a stack: showing one never fails
  and puts it on top, the select key in its window removes the top one, and nothing else changes the
  stack. While the window is active it shows the top one; it is closed exactly when there is none. Without
  the conditions it fails, see \<open>alert_during_creation_terminates\<close> and
  \<open>new_alert_removed_instead\<close>.\<close>

theorem alerts_are_a_stack:
  assumes "alert_reach env x11 pu a" and "allowed a e"
  shows "\<exists>a'. alert_step env a e = Some a' \<and> alertInfoList a' = stack_after a e \<and>
    (alertInfoList a' = [] \<longleftrightarrow> alertWindowState a' = ALERT_WINDOW_DESTRUCTED) \<and>
    (alertWindowState a' = ALERT_WINDOW_ACTIVE \<longrightarrow>
       map_option po_picture (text_shown a') = Some (Some (AlertText (last (alertInfoList a')))))"
proof -
  obtain a' where a': "alert_step env a e = Some a'" "alert_ok a'" "alertInfoList a' = stack_after a e"
    using alert_step_ok [OF reach_ok [OF assms(1)] assms(2)] by blast
  then show ?thesis
    by (cases "alertWindowState a'")
      (auto simp: alert_ok_def active_ok_def creation_ok_def closed_ok_def shows_top_def)
qed

text \<open>A second alert before the window of the first one is ready starts a second worker thread while
  the first can still be joined, which ends the program.\<close>

theorem alert_during_creation_terminates:
  "run_opt (alert_step env) (new_alert x11 pu) [ShowAlert i, ShowAlert j] = None"
  by (simp add: new_alert_def showAlert_def triggerRenderRequest_def createWindow_def)

text \<open>An alert that comes between the two halves of the key handler is removed instead of the one
  the user dismissed: the index counts from 1, the list from 0.\<close>

theorem new_alert_removed_instead:
  assumes "alert_reach env x11 pu a" and "alertWindowState a = ALERT_WINDOW_ACTIVE" and "wd_window a = Some w"
  shows "\<exists>n a1 a2 a3. alert_key_begin RNS_KEY_Select RNS_KEY_Press w a = (Some n, a1) \<and> showAlert env i a1 = Some a2 \<and>
    alertInfoList a2 = alertInfoList a @ [i] \<and> alert_key_finish env n a2 = Some a3 \<and> alertInfoList a3 = alertInfoList a"
proof -
  have c: "active_ok a" using reach_ok [OF assms(1)] assms(2) by (simp add: alert_ok_def)
  then have n: "alertInfoList a \<noteq> []" "idOfMessageOnDisplay a = int (length (alertInfoList a))" by (auto simp: active_ok_def)
  show ?thesis
    using n assms(2,3)
    by (simp add: alert_key_begin_def showAlert_def triggerRenderRequest_def drawRecentAlertTitleAndMsg_def commitDrawCall_def
        alert_key_finish_def removeAlertFromAlertList_def Let_def)
qed

section \<open>Examples\<close>

definition sample_env :: alert_env where
  "sample_env = \<lparr>ae_size = (1280, 720), ae_window = 7,
     ae_textRect = (\<lambda>_. \<lparr>fLeft = 0, fTop = 0, fRight = 100, fBottom = 20\<rparr>), ae_sk = sk_rect_ref\<rparr>"

definition sample_info :: alert_info where
  "sample_info = \<lparr>alertTitle = ''Hello'', alertMessage = ''''\<rparr>"

lemma alerts_are_a_stack_witness:
  "\<exists>a'. alert_step sample_env (new_alert False True) (ShowAlert sample_info) = Some a' \<and> alertInfoList a' = [sample_info]"
proof -
  have "allowed (new_alert False True) (ShowAlert sample_info)" by (simp add: allowed_def new_alert_def)
  from alerts_are_a_stack [OF reach_init this, of sample_env] show ?thesis
    by (auto simp: stack_after_def new_alert_def)
qed

lemma sample_active:
  "\<exists>a. alert_reach sample_env False True a \<and> alertWindowState a = ALERT_WINDOW_ACTIVE \<and> wd_window a = Some 7"
proof -
  let ?n = "new_alert False True"
  obtain a1 where a1: "alert_step sample_env ?n (ShowAlert sample_info) = Some a1" "alertWindowState a1 = ALERT_WINDOW_ON_CREATION"
      "wd_tasks a1 = [CreateNative 7]" "alertInfoList a1 = [sample_info]" "\<not> wd_x11 a1" "\<not> msgPendingToBeChanged a1"
    by (auto simp: new_alert_def showAlert_def triggerRenderRequest_def createWindow_def sample_env_def)
  have r1: "alert_reach sample_env False True a1"
    by (rule reach_step [OF reach_init _ a1(1)]) (simp add: allowed_def new_alert_def)
  have "\<exists>a2. alert_step sample_env a1 (Worker 1) = Some a2 \<and> alertWindowState a2 = ALERT_WINDOW_ACTIVE \<and> wd_window a2 = Some 7"
    using a1(2-6) by (simp add: alert_worker_def windowReadyToDrawCB_def triggerRenderRequest_def drawRecentAlertTitleAndMsg_def
        commitDrawCall_def createNativeWindow_def Let_def)
  then obtain a2 where a2: "alert_step sample_env a1 (Worker 1) = Some a2" "alertWindowState a2 = ALERT_WINDOW_ACTIVE" "wd_window a2 = Some 7"
    by blast
  have "alert_reach sample_env False True a2"
    by (rule reach_step [OF r1 _ a2(1)]) (simp add: allowed_def dismisses_def)
  with a2 show ?thesis by blast
qed

lemma new_alert_removed_instead_witness:
  "\<exists>a n a1 a2 a3. alert_reach sample_env False True a \<and> alert_key_begin RNS_KEY_Select RNS_KEY_Press 7 a = (Some n, a1) \<and>
     showAlert sample_env sample_info a1 = Some a2 \<and> alert_key_finish sample_env n a2 = Some a3 \<and> alertInfoList a3 = alertInfoList a"
proof -
  obtain a where a: "alert_reach sample_env False True a" "alertWindowState a = ALERT_WINDOW_ACTIVE" "wd_window a = Some 7"
    using sample_active by blast
  from new_alert_removed_instead [OF a, of sample_info] a show ?thesis by blast
qed

definition sample_po :: "int \<Rightarrow> nat picture_object" where
  "sample_po i = \<lparr>po_dirtyRect = [\<lparr>fLeft = i, fTop = i, fRight = i + 1, fBottom = i + 1\<rparr>], po_picture = Some 0, po_invalidate = True\<rparr>"

definition sample_del :: "(string \<times> nat picture_object) list \<Rightarrow> nat delegator" where
  "sample_del cs = \<lparr>wd_x11 = False, wd_size = (9, 9), windowActive = True, wd_window = Some 1, supportsPartialUpdate = True,
     fullScreenDirtyRects = [], dirtyRects = [], exposePending = False, workerThread = True, wd_tasks = [],
     recentComponentCommands = cs, wd_out = []\<rparr>"

lemma last_commands_kept_witness:
  "let cs = recentComponentCommands (fold (render_call sk_rect_ref) [(1, (''A'', sample_po 1), False), (1, (''A'', sample_po 2), False)] (sample_del []))
   in distinct (map fst cs) \<and> (\<forall>k. map_of cs k = map_of (rev (map (fst \<circ> snd) [(1 :: int, (''A'', sample_po 1), False), (1, (''A'', sample_po 2), False)])) k)"
  by (rule last_commands_kept) (simp_all add: sample_del_def)

lemma fresh_buffer_shows_change_witness:
  "\<exists>sd. wd_out (renderToDisplay sk_rect_ref 1 ''A'' (sample_po 2) False (sample_del [(''A'', sample_po 1)])) =
      wd_out (sample_del [(''A'', sample_po 1)]) @ [Playback 0, Swap sd] \<and>
    pixels sd = pixels (dirtyRects (sample_del [(''A'', sample_po 1)])) \<union> pixels (po_dirtyRect (sample_po 1)) \<union> pixels (po_dirtyRect (sample_po 2))"
  by (rule fresh_buffer_shows_change [OF sk_rect_ref_laws]) (simp_all add: sample_del_def sample_po_def)

lemma empty_buffer_redrawn_witness:
  "\<exists>sd. wd_out (renderToDisplay sk_rect_ref 0 ''A'' (sample_po 2) False (sample_del [(''B'', sample_po 1)])) =
      wd_out (sample_del [(''B'', sample_po 1)]) @
        map Playback (pictures (put_command ''A'' (sample_po 2) (recentComponentCommands (sample_del [(''B'', sample_po 1)])))) @ [Swap sd] \<and>
    pixels sd = pixels (dirtyRects (sample_del [(''B'', sample_po 1)])) \<union> pixels (fullScreenDirtyRects (sample_del [(''B'', sample_po 1)]))"
  by (rule empty_buffer_redrawn [OF sk_rect_ref_laws]) (simp_all add: sample_del_def sample_po_def)

lemma batched_change_loses_old_place_witness:
  "\<exists>sd. wd_out (renderToDisplay sk_rect_ref 2 ''B'' (sample_po 5) False (renderToDisplay sk_rect_ref 2 ''A'' (sample_po 3) True (sample_del [(''A'', sample_po 1)]))) =
      wd_out (sample_del [(''A'', sample_po 1)]) @ [Playback 0, Playback 0, Swap sd] \<and>
    pixels sd \<subseteq> pixels (po_dirtyRect (sample_po 3)) \<union> pixels (po_dirtyRect (sample_po 5))"
  by (rule batched_change_loses_old_place [OF sk_rect_ref_laws, where old = "sample_po 1"]) (simp_all add: sample_del_def sample_po_def)

end
