(* ===== verification/HttpText.thy ===== *)
theory HttpText imports SkGeom "HOL-Library.AList" begin

text \<open>
  The text of HTTP responses as \<open>sdk/CurlNetworking.cpp\<close> reads it: one header line per callback of
  libcurl, and the \<open>Cache-Control\<close> header, with \<open>std::string::find\<close>, \<open>strtok_r\<close> and \<open>atoi\<close>.
  Strings are lists of bytes.
\<close>

section \<open>Searching and splitting strings\<close>

text \<open>\<open>std::string::find\<close>: the first place of a pattern; \<open>None\<close> is \<open>npos\<close>.\<close>

fun find_sub :: "string \<Rightarrow> string \<Rightarrow> nat option" where
  "find_sub p [] = (if p = [] then Some 0 else None)"
| "find_sub p (c # s) = (if take (length p) (c # s) = p then Some 0 else map_option Suc (find_sub p s))"

definition contains :: "string \<Rightarrow> string \<Rightarrow> bool" where
  "contains p s \<longleftrightarrow> find_sub p s \<noteq> None"

text \<open>A \<open>char*\<close> ends at the first zero byte.\<close>

definition c_str :: "string \<Rightarrow> string" where
  "c_str s = takeWhile (\<lambda>c. c \<noteq> CHR 0x00) s"

text \<open>\<open>strtok_r\<close> with one delimiter: the next token and what follows its end.\<close>

definition strtok :: "char \<Rightarrow> string \<Rightarrow> (string \<times> string) option" where
  "strtok d s =
     (case dropWhile (\<lambda>c. c = d) s of
        [] \<Rightarrow> None
      | c # t \<Rightarrow> Some (takeWhile (\<lambda>c. c \<noteq> d) (c # t), tl (dropWhile (\<lambda>c. c \<noteq> d) (c # t))))"

definition is_space :: "char \<Rightarrow> bool" where
  "is_space c \<longleftrightarrow> c = CHR 0x20 \<or> c \<in> {CHR 0x09, CHR 0x0A, CHR 0x0B, CHR 0x0C, CHR 0x0D}"

definition is_digit :: "char \<Rightarrow> bool" where
  "is_digit c \<longleftrightarrow> 48 \<le> (of_char c :: nat) \<and> (of_char c :: nat) \<le> 57"

fun digits_value :: "nat \<Rightarrow> string \<Rightarrow> nat" where
  "digits_value n [] = n"
| "digits_value n (c # s) = (if is_digit c then digits_value (10 * n + (of_char c - 48)) s else n)"

text \<open>\<open>atoi\<close>; a value that is no \<open>int\<close> is undefined behaviour, \<open>None\<close>.\<close>

definition atoi :: "string \<Rightarrow> int option" where
  "atoi s =
     (let t = dropWhile is_space s;
          v = (case t of
                 [] \<Rightarrow> 0
               | c # u \<Rightarrow>
                   if c = CHR ''-'' then - int (digits_value 0 u)
                   else if c = CHR ''+'' then int (digits_value 0 u)
                   else int (digits_value 0 t))
      in if - (2 ^ 31) \<le> v \<and> v < 2 ^ 31 then Some v else None)"

section \<open>Responses\<close>

record curl_response =
  headerBuffer :: "(string \<times> string) list"
  responseBuffer :: "string option"
  responseBufferOffset :: nat
  contentSize :: nat
  headerBufferSize :: nat
  responseurl :: "string option"
  statusCode :: int
  errorResult :: string
  responseTimeout :: bool
  cacheExpiryTime :: scalar

text \<open>The constructor leaves \<open>statusCode\<close> and \<open>responseTimeout\<close> as they are in memory (the arguments).\<close>

definition DEFAULT_MAX_CACHE_EXPIRY_TIME :: scalar where
  "DEFAULT_MAX_CACHE_EXPIRY_TIME = 1800000"

definition new_response :: "int \<Rightarrow> bool \<Rightarrow> curl_response" where
  "new_response junk_code junk_timeout =
     \<lparr>headerBuffer = [], responseBuffer = None, responseBufferOffset = 0, contentSize = 0, headerBufferSize = 0,
      responseurl = None, statusCode = junk_code, errorResult = '''', responseTimeout = junk_timeout,
      cacheExpiryTime = DEFAULT_MAX_CACHE_EXPIRY_TIME\<rparr>"

section \<open>Header lines\<close>

text \<open>
  The key ends at the first colon with a space, the value at the carriage return after it, or at the
  end of the line if there is none (neither the colon nor the space is one).
\<close>

definition parse_header :: "string \<Rightarrow> (string \<times> string) option" where
  "parse_header str =
     (case find_sub '': '' str of
        None \<Rightarrow> None
      | Some k \<Rightarrow> Some (take k str, takeWhile (\<lambda>c. c \<noteq> CHR 0x0D) (drop (k + 2) str)))"

text \<open>
  One header line; \<open>url\<close> and \<open>code\<close> are what libcurl answers. The second component tells that
  the line was the empty one and the header callback of the client is called. The size of an item is 1.
\<close>

definition headerCallback :: "string option \<Rightarrow> int \<Rightarrow> string \<Rightarrow> curl_response \<Rightarrow> curl_response \<times> bool" where
  "headerCallback url code str r =
     (let r1 = (case parse_header str of None \<Rightarrow> r
                | Some (k, v) \<Rightarrow> r\<lparr>headerBuffer := AList.update k v (headerBuffer r)\<rparr>);
          last_line = (str = [CHR 0x0D, CHR 0x0A]);
          r2 = (if last_line then r1\<lparr>responseurl := url, statusCode := code\<rparr> else r1)
      in (r2\<lparr>headerBufferSize := headerBufferSize r2 + length str\<rparr>, last_line))"

text \<open>A piece of the body is copied behind what is there, and a zero byte after it.\<close>

definition writeCallback :: "string option \<Rightarrow> string \<Rightarrow> curl_response \<Rightarrow> curl_response" where
  "writeCallback url chunk r =
     (let n = responseBufferOffset r + length chunk
      in r\<lparr>responseBuffer := Some (take (responseBufferOffset r) (case responseBuffer r of None \<Rightarrow> [] | Some b \<Rightarrow> b) @ chunk @ [CHR 0x00]),
           responseBufferOffset := n, contentSize := n,
           responseurl := if responseurl r = None then url else responseurl r\<rparr>)"

section \<open>Cache control\<close>

lemma strtok_shorter: "strtok d s = Some (t, r) \<Longrightarrow> length r < length s"
proof -
  assume "strtok d s = Some (t, r)"
  then obtain c u where cu: "dropWhile (\<lambda>c. c = d) s = c # u" and r: "r = tl (dropWhile (\<lambda>c. c \<noteq> d) (c # u))"
    by (auto simp: strtok_def split: list.splits)
  have "c \<noteq> d" using hd_dropWhile [of "\<lambda>c. c = d" s] cu by simp
  then have "length r \<le> length u" using r length_dropWhile_le [of "\<lambda>c. c \<noteq> d" u] by simp
  moreover have "length (c # u) \<le> length s" using length_dropWhile_le [of "\<lambda>c. c = d" s] cu by metis
  ultimately show ?thesis by simp
qed

function max_age_token :: "string \<Rightarrow> string option" where
  "max_age_token rest =
     (case strtok CHR '','' rest of
        None \<Rightarrow> None
      | Some (t, r) \<Rightarrow> if contains ''max-age'' t then Some t else max_age_token r)"
  by auto
termination by (relation "measure length") (auto dest: strtok_shorter)

declare max_age_token.simps [simp del]

definition shouldCacheData :: "scalar \<Rightarrow> curl_response \<Rightarrow> (bool \<times> curl_response) option" where
  "shouldCacheData now r =
     (let r1 = r\<lparr>cacheExpiryTime := DEFAULT_MAX_CACHE_EXPIRY_TIME\<rparr>
      in (case map_of (headerBuffer r) ''Cache-Control'' of
            None \<Rightarrow> Some (True, r1)
          | Some s \<Rightarrow>
              if contains ''no-store'' s then Some (False, r1)
              else if contains ''no-cache'' s then Some (False, r1)
              else if contains ''max-age'' s
              then (case max_age_token (c_str s) of
                      None \<Rightarrow> Some (True, r1)
                    | Some t \<Rightarrow>
                        (case atoi (case strtok CHR ''='' t of None \<Rightarrow> [] | Some (_, v) \<Rightarrow> v) of
                           None \<Rightarrow> None
                         | Some n \<Rightarrow>
                             if n = 0 then Some (False, r1)
                             else Some (True, r1\<lparr>cacheExpiryTime :=
                               now + min (min (of_int n * 1000) DEFAULT_MAX_CACHE_EXPIRY_TIME) DEFAULT_MAX_CACHE_EXPIRY_TIME\<rparr>)))
              else Some (True, r1)))"

section \<open>The string routines\<close>

lemma find_sub_Some:
  "find_sub p s = Some i \<Longrightarrow> (\<exists>b. s = take i s @ p @ b) \<and> (\<forall>j < i. take (length p) (drop j s) \<noteq> p)"
proof (induction p s arbitrary: i rule: find_sub.induct)
  case (1 p)
  then show ?case by (auto split: if_splits)
next
  case (2 p c s)
  show ?case
  proof (cases "take (length p) (c # s) = p")
    case True
    then have "c # s = p @ drop (length p) (c # s)" by (metis append_take_drop_id)
    with 2(2) True show ?thesis by auto
  next
    case False
    with 2(2) obtain k where k: "find_sub p s = Some k" "i = Suc k" by auto
    from 2(1) [OF False k(1)] obtain b where b: "s = take k s @ p @ b" and n: "\<forall>j < k. take (length p) (drop j s) \<noteq> p" by auto
    have "c # s = take i (c # s) @ p @ b" using b k(2) by simp
    moreover have "\<forall>j < i. take (length p) (drop j (c # s)) \<noteq> p"
    proof (intro allI impI)
      fix j assume "j < i"
      then show "take (length p) (drop j (c # s)) \<noteq> p"
        using False n k(2) by (cases j) auto
    qed
    ultimately show ?thesis by blast
  qed
qed

lemma find_sub_at: "\<exists>k \<le> length a. find_sub p (a @ p @ b) = Some k"
proof (induction a)
  case Nil
  have "take (length p) (p @ b) = p" by simp
  then show ?case by (cases "p @ b") (auto simp del: take_append)
next
  case (Cons c a)
  then obtain k where "k \<le> length a" "find_sub p (a @ p @ b) = Some k" by blast
  then show ?case by (cases "take (length p) (c # a @ p @ b) = p") auto
qed

lemma contains_iff: "contains p s \<longleftrightarrow> (\<exists>a b. s = a @ p @ b)"
proof
  assume "contains p s"
  then obtain i where "find_sub p s = Some i" by (auto simp: contains_def)
  from find_sub_Some [OF this] show "\<exists>a b. s = a @ p @ b" by blast
next
  assume "\<exists>a b. s = a @ p @ b"
  then obtain a b where "s = a @ p @ b" by blast
  with find_sub_at [of a p b] show "contains p s" by (auto simp: contains_def)
qed

lemma contains_Nil: "contains p [] \<longleftrightarrow> p = []"
  by (auto simp: contains_iff)

lemma append_eq_sep: "a @ d # b = u @ v \<Longrightarrow> (\<exists>w. u = a @ d # w \<and> b = w @ v) \<or> (\<exists>w. a = u @ w \<and> v = w @ d # b)"
  by (auto simp: append_eq_append_conv2 Cons_eq_append_conv append_eq_Cons_conv)

lemma contains_sep:
  assumes "d \<notin> set p"
  shows "contains p (a @ d # b) \<longleftrightarrow> contains p a \<or> contains p b"
proof
  assume "contains p (a @ d # b)"
  then obtain x y where e: "a @ d # b = x @ p @ y" by (auto simp: contains_iff)
  from append_eq_sep [OF e] consider w where "b = w @ p @ y" | w where "a = x @ w" "p @ y = w @ d # b" by blast
  then show "contains p a \<or> contains p b"
  proof cases
    case (1 w)
    then show ?thesis by (auto simp: contains_iff)
  next
    case (2 w)
    from append_eq_sep [OF 2(2) [symmetric]] assms obtain z where "w = p @ z" by auto
    with 2(1) show ?thesis by (auto simp: contains_iff)
  qed
next
  assume "contains p a \<or> contains p b"
  then show "contains p (a @ d # b)"
  proof
    assume "contains p a"
    then obtain x y where "a = x @ p @ y" by (auto simp: contains_iff)
    then have "a @ d # b = x @ p @ (y @ d # b)" by simp
    then show ?thesis unfolding contains_iff by blast
  next
    assume "contains p b"
    then obtain x y where "b = x @ p @ y" by (auto simp: contains_iff)
    then have "a @ d # b = (a @ d # x) @ p @ y" by simp
    then show ?thesis unfolding contains_iff by blast
  qed
qed

text \<open>The first place of a pattern, when it is not earlier.\<close>

lemma find_sub_first:
  assumes "\<And>j. j < length a \<Longrightarrow> take (length p) (drop j (a @ p @ b)) \<noteq> p"
  shows "find_sub p (a @ p @ b) = Some (length a)"
proof -
  obtain k where k: "k \<le> length a" "find_sub p (a @ p @ b) = Some k" using find_sub_at by blast
  have "take (length p) (drop k (a @ p @ b)) = p"
  proof -
    obtain c where "a @ p @ b = take k (a @ p @ b) @ p @ c" using find_sub_Some [OF k(2)] by blast
    then have "drop k (a @ p @ b) = p @ c" using k(1) by (metis append_eq_conv_conj length_append length_take min.absorb2 trans_le_add1)
    then show ?thesis by simp
  qed
  with assms [of k] k show ?thesis by force
qed

section \<open>Directives\<close>

text \<open>The directives of a header: what stands between its commas.\<close>

fun directives :: "string \<Rightarrow> string list" where
  "directives [] = [[]]"
| "directives (c # s) =
     (if c = CHR '','' then [] # directives s
      else case directives s of [] \<Rightarrow> [[c]] | d # ds \<Rightarrow> (c # d) # ds)"

lemma directives_last: "CHR '','' \<notin> set s \<Longrightarrow> directives s = [s]"
  by (induction s) auto

lemma directives_cons: "CHR '','' \<notin> set d \<Longrightarrow> directives (d @ CHR '','' # s) = d # directives s"
  by (induction d) auto

lemma directives_induct [case_names last cons]:
  assumes "\<And>d. CHR '','' \<notin> set d \<Longrightarrow> P d" and "\<And>d s. CHR '','' \<notin> set d \<Longrightarrow> P s \<Longrightarrow> P (d @ CHR '','' # s)"
  shows "P s"
proof (induction s rule: length_induct)
  case (1 s)
  let ?d = "takeWhile (\<lambda>c. c \<noteq> CHR '','') s"
  have d: "CHR '','' \<notin> set ?d" by (auto dest: set_takeWhileD)
  show ?case
  proof (cases "dropWhile (\<lambda>c. c \<noteq> CHR '','') s")
    case Nil
    then have "s = ?d" by (metis append_Nil2 takeWhile_dropWhile_id)
    with assms(1) [OF d] show ?thesis by simp
  next
    case (Cons c t)
    then have "c = CHR '',''" using hd_dropWhile [of "\<lambda>c. c \<noteq> CHR '',''" s] by simp
    with Cons have s: "s = ?d @ CHR '','' # t" by (metis takeWhile_dropWhile_id)
    then have "length t < length s" by (metis length_append length_Cons le_add2 less_Suc_eq_le add_Suc_right)
    with 1 have "P t" by blast
    from assms(2) [OF d this] s show ?thesis by simp
  qed
qed

lemma contains_directives:
  "CHR '','' \<notin> set p \<Longrightarrow> contains p s \<longleftrightarrow> (\<exists>d \<in> set (directives s). contains p d)"
  by (induction s rule: directives_induct) (simp_all add: directives_last directives_cons contains_sep)

lemma until_sep:
  "c \<notin> set d \<Longrightarrow> takeWhile (\<lambda>x. x \<noteq> c) (d @ c # s) = d"
  "c \<notin> set d \<Longrightarrow> dropWhile (\<lambda>x. x \<noteq> c) (d @ c # s) = c # s"
  "c \<notin> set d \<Longrightarrow> takeWhile (\<lambda>x. x \<noteq> c) d = d"
  "c \<notin> set d \<Longrightarrow> dropWhile (\<lambda>x. x \<noteq> c) d = []"
  by (induction d) auto

lemma strtok_sep: "c \<notin> set d \<Longrightarrow> strtok c (d @ c # s) = (if d = [] then strtok c s else Some (d, s))"
  by (cases d) (auto simp: strtok_def until_sep)

lemma strtok_end: "c \<notin> set d \<Longrightarrow> strtok c d = (if d = [] then None else Some (d, []))"
  by (cases d) (auto simp: strtok_def until_sep)

lemma max_age_token_directive: "max_age_token s = find (contains ''max-age'') (directives s)"
proof (induction s rule: directives_induct)
  case (last d)
  have "max_age_token [] = None" by (subst max_age_token.simps) (simp add: strtok_def)
  with last show ?case
    by (subst max_age_token.simps) (auto simp: strtok_end directives_last contains_Nil)
next
  case (cons d s)
  show ?case
  proof (cases "d = []")
    case True
    have "max_age_token (CHR '','' # s) = max_age_token s"
      by (subst (1 2) max_age_token.simps) (simp add: strtok_sep [of _ "[]", simplified])
    with cons True show ?thesis by (simp add: directives_cons [of "[]", simplified] contains_Nil)
  next
    case False
    with cons show ?thesis
      by (subst max_age_token.simps) (simp add: strtok_sep directives_cons)
  qed
qed
section \<open>Numbers\<close>

fun decimal :: "nat \<Rightarrow> string" where
  "decimal n = (if n < 10 then [char_of (48 + n)] else decimal (n div 10) @ [char_of (48 + n mod 10)])"

declare decimal.simps [simp del]

lemma digits_value_append:
  "\<forall>c \<in> set s. is_digit c \<Longrightarrow> digits_value n (s @ t) = digits_value (digits_value n s) t"
  by (induction n s rule: digits_value.induct) auto

lemma digit_char: "n < 10 \<Longrightarrow> is_digit (char_of (48 + n)) \<and> (of_char (char_of (48 + n) :: char) :: nat) = 48 + n"
  by (simp add: is_digit_def)

lemma decimal_digits: "\<forall>c \<in> set (decimal n). is_digit c"
proof (induction n rule: decimal.induct)
  case (1 n)
  then show ?case
    by (subst decimal.simps) (auto simp: digit_char)
qed

lemma digits_value_decimal: "digits_value 0 (decimal n) = n"
proof (induction n rule: decimal.induct)
  case (1 n)
  show ?case
  proof (cases "n < 10")
    case True
    then show ?thesis by (subst decimal.simps) (simp add: digit_char)
  next
    case False
    with 1 show ?thesis
      by (subst decimal.simps) (simp add: digits_value_append decimal_digits digit_char)
  qed
qed

lemma atoi_decimal:
  assumes "n < 2 ^ 31"
  shows "atoi (decimal n) = Some (int n)"
proof -
  obtain c t where ct: "decimal n = c # t" by (cases "decimal n") (auto simp: decimal.simps [of n] split: if_splits)
  then have "is_digit c" using decimal_digits [of n] by simp
  then have "\<not> is_space c" "c \<noteq> CHR ''-''" "c \<noteq> CHR ''+''" by (auto simp: is_digit_def is_space_def)
  with assms ct digits_value_decimal [of n] show ?thesis by (simp add: atoi_def Let_def del: digits_value.simps)
qed

section \<open>What the routines compute\<close>

lemma parse_header_line:
  assumes "CHR '':'' \<notin> set k" and "CHR 0x0D \<notin> set v"
  shows "parse_header (k @ '': '' @ v @ [CHR 0x0D, CHR 0x0A]) = Some (k, v)"
proof -
  let ?e = "[CHR 0x0D, CHR 0x0A]"
  have "take (length '': '') (drop j (k @ '': '' @ v @ ?e)) \<noteq> '': ''" if "j < length k" for j
  proof
    assume "take (length '': '') (drop j (k @ '': '' @ v @ ?e)) = '': ''"
    then have "drop j k ! 0 = CHR '':''" using that by (cases "drop j k") (auto simp: take_Cons')
    with that assms(1) show False by (auto simp: in_set_conv_nth)
  qed
  then have "find_sub '': '' (k @ '': '' @ v @ ?e) = Some (length k)" by (rule find_sub_first)
  with assms(2) show ?thesis by (simp add: parse_header_def until_sep)
qed

text \<open>A header line made of a name without a colon, a colon and a space, a value without a carriage
  return, and the end of the line is stored under that name with that value.\<close>

theorem header_line_roundtrip:
  assumes "CHR '':'' \<notin> set k" and "CHR 0x0D \<notin> set v"
  shows "map_of (headerBuffer (fst (headerCallback url code (k @ '': '' @ v @ [CHR 0x0D, CHR 0x0A]) r))) =
    (map_of (headerBuffer r))(k \<mapsto> v)"
  using parse_header_line [OF assms] by (simp add: headerCallback_def Let_def update_conv')

lemma writes_append:
  assumes "responseBuffer r = Some (x @ [CHR 0x00])" and "contentSize r = length x" and "responseBufferOffset r = length x"
  shows "responseBuffer (fold (writeCallback url) cs r) = Some (x @ concat cs @ [CHR 0x00]) \<and>
    contentSize (fold (writeCallback url) cs r) = length (x @ concat cs)"
  using assms
proof (induction cs arbitrary: r x)
  case Nil
  then show ?case by simp
next
  case (Cons c cs)
  from Cons.IH [of "writeCallback url c r" "x @ c"] Cons.prems show ?case
    by (simp add: writeCallback_def Let_def)
qed

text \<open>The body of a response is what came, piece by piece, with a zero byte behind it.\<close>

theorem body_is_concatenation:
  assumes "cs \<noteq> []"
  shows "responseBuffer (fold (writeCallback url) cs (new_response i b)) = Some (concat cs @ [CHR 0x00]) \<and>
    contentSize (fold (writeCallback url) cs (new_response i b)) = length (concat cs)"
proof -
  obtain c cs' where cs: "cs = c # cs'" using assms by (cases cs) auto
  show ?thesis
    using writes_append [of "writeCallback url c (new_response i b)" c url cs']
    by (simp add: cs writeCallback_def new_response_def Let_def)
qed

lemma find_first: "\<forall>d \<in> set a. \<not> P d \<Longrightarrow> P x \<Longrightarrow> find P (a @ x # b) = Some x"
  by (induction a) auto

text \<open>A response may be kept for as long as its \<open>max-age\<close> says, at most half an hour, unless a directive
  forbids it.\<close>

theorem max_age_respected:
  assumes "map_of (headerBuffer r) ''Cache-Control'' = Some s" and "CHR 0x00 \<notin> set s"
    and "directives s = before @ (sp @ ''max-age='' @ decimal n) # behind" and "\<forall>c \<in> set sp. c = CHR '' ''"
    and "\<forall>d \<in> set before. \<not> contains ''max-age'' d"
    and "\<forall>d \<in> set (directives s). \<not> contains ''no-store'' d \<and> \<not> contains ''no-cache'' d"
    and "0 < n" and "n < 2 ^ 31"
  shows "shouldCacheData now r = Some (True, r\<lparr>cacheExpiryTime := now + min (of_nat n * 1000) 1800000\<rparr>)"
proof -
  let ?d = "sp @ ''max-age='' @ decimal n"
  have "c_str s = s" using assms(2) by (simp add: c_str_def takeWhile_eq_all_conv) metis
  moreover have d: "contains ''max-age'' ?d" unfolding contains_iff by (rule exI [of _ sp]) simp
  moreover have "find (contains ''max-age'') (directives s) = Some ?d"
    using assms(3,5) d by (simp only: find_first)
  ultimately have t: "max_age_token (c_str s) = Some ?d" by (simp add: max_age_token_directive)
  have "CHR ''='' \<notin> set (sp @ ''max-age'')" using assms(4) by auto
  from strtok_sep [OF this, of "decimal n"] have v: "strtok CHR ''='' ?d = Some (sp @ ''max-age'', decimal n)" by simp
  have "\<not> contains ''no-store'' s" "\<not> contains ''no-cache'' s"
    using assms(6) contains_directives [of "''no-store''" s] contains_directives [of "''no-cache''" s] by auto
  moreover have "contains ''max-age'' s"
    using contains_directives [of "''max-age''" s] assms(3) d by auto
  ultimately show ?thesis
    using assms(1,7,8) t v by (simp add: shouldCacheData_def atoi_decimal DEFAULT_MAX_CACHE_EXPIRY_TIME_def)
qed
text \<open>Header names are compared as they are written: with the header in lower case, as HTTP/2 has it, a
  response that must not be stored is kept.\<close>

theorem lower_case_no_store_kept:
  "shouldCacheData now (fst (headerCallback url code (''cache-control: no-store'' @ [CHR 0x0D, CHR 0x0A]) (new_response i b))) =
    Some (True, (fst (headerCallback url code (''cache-control: no-store'' @ [CHR 0x0D, CHR 0x0A]) (new_response i b)))
      \<lparr>cacheExpiryTime := 1800000\<rparr>)"
proof -
  let ?r = "fst (headerCallback url code (''cache-control: no-store'' @ [CHR 0x0D, CHR 0x0A]) (new_response i b))"
  have "map_of (headerBuffer ?r) = (map_of (headerBuffer (new_response i b)))(''cache-control'' \<mapsto> ''no-store'')"
    using parse_header_line [of "''cache-control''" "''no-store''"] by (simp add: headerCallback_def Let_def update_conv')
  then have "map_of (headerBuffer ?r) ''Cache-Control'' = None" by (simp add: new_response_def)
  then show ?thesis by (simp add: shouldCacheData_def DEFAULT_MAX_CACHE_EXPIRY_TIME_def)
qed

section \<open>Examples\<close>

lemma header_line_roundtrip_witness:
  "map_of (headerBuffer (fst (headerCallback None 200 (''ETag'' @ '': '' @ ''x1'' @ [CHR 0x0D, CHR 0x0A]) (new_response 0 False)))) =
    (map_of (headerBuffer (new_response 0 False)))(''ETag'' \<mapsto> ''x1'')"
  by (rule header_line_roundtrip) simp_all

lemma body_is_concatenation_witness:
  "responseBuffer (fold (writeCallback None) [''ab'', ''c''] (new_response 0 False)) = Some (concat [''ab'', ''c''] @ [CHR 0x00]) \<and>
    contentSize (fold (writeCallback None) [''ab'', ''c''] (new_response 0 False)) = length (concat [''ab'', ''c''])"
  by (rule body_is_concatenation) simp

lemma max_age_respected_witness:
  "shouldCacheData 5000 ((new_response 0 False)\<lparr>headerBuffer := [(''Cache-Control'', ''public, max-age=60'')]\<rparr>) =
    Some (True, (new_response 0 False)\<lparr>headerBuffer := [(''Cache-Control'', ''public, max-age=60'')],
      cacheExpiryTime := 5000 + min (of_nat 60 * 1000) 1800000\<rparr>)"
proof -
  have d60: "decimal 60 = ''60''" by code_simp
  show ?thesis
    by (rule max_age_respected [where s = "''public, max-age=60''" and before = "[''public'']" and sp = "'' ''" and behind = "[]"])
      (simp_all add: d60 contains_def)
qed

end
