(* ===== verification/Network.thy ===== *)
theory Network imports HttpText Caches "HOL-Library.Monad_Syntax" begin

text \<open>
  The network thread (\<open>sdk/CurlNetworking.cpp\<close>): requests, their responses, the cache of responses and
  the thread that drives libcurl's multi handle.

  Requests are objects under shared pointers: \<open>rq_owners\<close> counts them, and using a request without an
  owner is a fault (\<open>None\<close>). Responses are shared between a request and the cache, so they are in a
  store. An easy handle of libcurl is a number with the options the code sets; \<open>multi\<close> lists the
  handles added to the multi handle. What libcurl reports (the handles that are done, how many are still
  running, the pieces of a response) comes with the events; \<open>net_allowed\<close> has what its documentation says
  of that. The callbacks of a client are a parameter: they work on the client's own state, and may give up
  the client's pointer to the request.
\<close>

section \<open>State\<close>

datatype curl_result = CURLE_OK | CURLE_OPERATION_TIMEDOUT | CURLE_OTHER

record curl_request =
  handle :: "nat option"
  URL :: string
  rq_timeout :: nat
  rq_method :: string
  headerCb :: bool
  progressCb :: bool
  completionCb :: bool
  curlResponse :: nat

record easy_handle =
  eh_private :: nat
  eh_timeout :: nat
  eh_headers :: "string list"
  eh_post :: "string option"
  eh_writes :: bool
  eh_headerCb :: bool
  eh_progressCb :: bool

text \<open>
  The worker waits at the semaphore, is about to perform, reads the messages while so many transfers are
  running, or handles the end of one.
\<close>

datatype worker = WaitSem | Performing | Reading nat | Got nat curl_result nat

record net =
  networkCache :: "(string, nat) cache_state"
  requests :: "nat \<Rightarrow> curl_request"
  rq_owners :: "nat \<Rightarrow> nat"
  responses :: "nat \<Rightarrow> curl_response"
  easy :: "nat \<Rightarrow> easy_handle option"
  next_easy :: nat
  multi :: "nat list"
  messages :: "(nat \<times> curl_result) list"
  networkRequestSem :: nat
  net_worker :: worker
  cacheProviders :: "nat list"
  next_request :: nat

record 's client =
  cl_header :: "scalar \<Rightarrow> nat \<Rightarrow> curl_response \<Rightarrow> 's \<Rightarrow> ('s \<times> curl_response) option"
  cl_progress :: "nat \<Rightarrow> scalar \<times> scalar \<times> scalar \<times> scalar \<Rightarrow> curl_response \<Rightarrow> 's \<Rightarrow> ('s \<times> curl_response) option"
  cl_completion :: "scalar \<Rightarrow> nat \<Rightarrow> curl_response \<Rightarrow> 's \<Rightarrow> ('s \<times> bool) option"

definition new_net :: net where
  "new_net = \<lparr>networkCache = (new_cache, None),
     requests = (\<lambda>_. \<lparr>handle = None, URL = '''', rq_timeout = 0, rq_method = '''', headerCb = False, progressCb = False,
       completionCb = False, curlResponse = 0\<rparr>),
     rq_owners = (\<lambda>_. 0), responses = (\<lambda>_. new_response 0 False), easy = (\<lambda>_. None), next_easy = 0, multi = [], messages = [],
     networkRequestSem = 0, net_worker = WaitSem, cacheProviders = [], next_request = 0\<rparr>"

definition alive :: "net \<Rightarrow> nat \<Rightarrow> bool" where
  "alive n r \<longleftrightarrow> 0 < rq_owners n r"

definition response_of :: "net \<Rightarrow> nat \<Rightarrow> curl_response" where
  "response_of n r = responses n (curlResponse (requests n r))"

definition put_response :: "nat \<Rightarrow> curl_response \<Rightarrow> net \<Rightarrow> net" where
  "put_response r x n = n\<lparr>responses := (responses n)(curlResponse (requests n r) := x)\<rparr>"

definition put_handle :: "nat \<Rightarrow> nat option \<Rightarrow> net \<Rightarrow> net" where
  "put_handle r h n = n\<lparr>requests := (requests n)(r := (requests n r)\<lparr>handle := h\<rparr>)\<rparr>"

definition drop_owner :: "nat \<Rightarrow> net \<Rightarrow> net" where
  "drop_owner r n = n\<lparr>rq_owners := (rq_owners n)(r := rq_owners n r - 1)\<rparr>"

text \<open>A client makes a request, with a response of its own, which gets the same number.\<close>

definition make_request :: "curl_request \<Rightarrow> net \<Rightarrow> net" where
  "make_request q n =
     (let r = next_request n
      in n\<lparr>requests := (requests n)(r := q\<lparr>handle := None, curlResponse := r\<rparr>), rq_owners := (rq_owners n)(r := 1),
           responses := (responses n)(r := new_response 0 False), next_request := Suc r\<rparr>)"

section \<open>Sending\<close>

text \<open>
  The body of a request: none, a string, or one of the other kinds. For those, \<open>data["string"].c_str()\<close>
  is applied to the null value of folly, which throws.
\<close>

datatype post_data = NoData | StringData string | OtherData

definition preparePostRequest :: "post_data \<Rightarrow> easy_handle \<Rightarrow> easy_handle option" where
  "preparePostRequest d e =
     (case d of StringData s \<Rightarrow> Some (e\<lparr>eh_post := Some s, eh_writes := True\<rparr>) | _ \<Rightarrow> None)"

definition setHeaders :: "(string \<times> string) list \<Rightarrow> easy_handle \<Rightarrow> easy_handle" where
  "setHeaders hs e = (if hs = [] then e else e\<lparr>eh_headers := map (\<lambda>(k, v). k @ '': '' @ v) hs\<rparr>)"

text \<open>The options of the handle, and whether the method is supported.\<close>

definition easy_options ::
  "nat \<Rightarrow> curl_request \<Rightarrow> (string \<times> string) list option \<Rightarrow> post_data \<Rightarrow> (bool \<times> easy_handle) option" where
  "easy_options r q headers data =
     (let e = \<lparr>eh_private = r, eh_timeout = rq_timeout q, eh_headers = [], eh_post = None, eh_writes = False,
               eh_headerCb = headerCb q, eh_progressCb = progressCb q\<rparr>;
          e1 = (case headers of None \<Rightarrow> e | Some hs \<Rightarrow> setHeaders hs e)
      in if rq_method q = ''POST''
         then (if data = NoData then Some (True, e1) else map_option (Pair True) (preparePostRequest data e1))
         else if rq_method q = ''GET'' then Some (True, e1\<lparr>eh_writes := True\<rparr>)
         else Some (False, e1))"

text \<open>A cached response without a body is taken over, but nobody answers with it.\<close>

definition sendRequest ::
  "nat \<Rightarrow> bool \<Rightarrow> (string \<times> string) list option \<Rightarrow> post_data \<Rightarrow> net \<Rightarrow> (bool \<times> net) option" where
  "sendRequest r easy_init headers data n =
     (let q = requests n r
      in case getCacheData (URL q) (fst (networkCache n)) of
           Some x \<Rightarrow>
             let n1 = n\<lparr>requests := (requests n)(r := q\<lparr>curlResponse := x\<rparr>)\<rparr>
             in Some (True,
                  if responseBuffer (responses n x) \<noteq> None
                  then n1\<lparr>cacheProviders := cacheProviders n @ [r], rq_owners := (rq_owners n)(r := rq_owners n r + 1)\<rparr>
                  else n1)
         | None \<Rightarrow>
             if \<not> easy_init then Some (False, n)
             else let h = next_easy n
                  in do { (supported, e) \<leftarrow> easy_options r q headers data;
                          let n1 = (put_handle r (Some h) n)\<lparr>next_easy := Suc h, easy := (easy n)(h := Some e)\<rparr>;
                          Some (supported,
                            if supported
                            then n1\<lparr>multi := multi n @ [h],
                                   networkRequestSem := if networkRequestSem n = 0 then 1 else networkRequestSem n\<rparr>
                            else n1) })"

definition abortRequest :: "nat \<Rightarrow> net \<Rightarrow> (bool \<times> net) option" where
  "abortRequest r n =
     (case handle (requests n r) of
        None \<Rightarrow> Some (False, n)
      | Some h \<Rightarrow>
          if easy n h = None then None
          else Some (True, put_handle r None
                 (n\<lparr>multi := remove1 h (multi n), messages := filter (\<lambda>m. fst m \<noteq> h) (messages n), easy := (easy n)(h := None)\<rparr>)))"

section \<open>The pieces of a response\<close>

text \<open>The request behind a handle.\<close>

definition private_request :: "net \<Rightarrow> nat \<Rightarrow> nat option" where
  "private_request n h =
     (case easy n h of None \<Rightarrow> None | Some e \<Rightarrow> if alive n (eh_private e) then Some (eh_private e) else None)"

definition header_line ::
  "'s client \<Rightarrow> scalar \<Rightarrow> nat \<Rightarrow> string option \<Rightarrow> int \<Rightarrow> string \<Rightarrow> 's \<times> net \<Rightarrow> ('s \<times> net) option" where
  "header_line cl now h url code line st =
     do { r \<leftarrow> private_request (snd st) h;
          let (x, last_line) = headerCallback url code line (response_of (snd st) r);
          if last_line
          then do { (s, y) \<leftarrow> cl_header cl now r x (fst st); Some (s, put_response r y (snd st)) }
          else Some (fst st, put_response r x (snd st)) }"

definition body_piece :: "nat \<Rightarrow> string option \<Rightarrow> string \<Rightarrow> net \<Rightarrow> net option" where
  "body_piece h url chunk n =
     do { r \<leftarrow> private_request n h; Some (put_response r (writeCallback url chunk (response_of n r)) n) }"

definition progress ::
  "'s client \<Rightarrow> nat \<Rightarrow> scalar \<times> scalar \<times> scalar \<times> scalar \<Rightarrow> 's \<times> net \<Rightarrow> ('s \<times> net) option" where
  "progress cl h nums st =
     do { r \<leftarrow> private_request (snd st) h;
          (s, x) \<leftarrow> cl_progress cl r nums (response_of (snd st) r) (fst st);
          Some (s, put_response r x (snd st)) }"

section \<open>The end of a transfer\<close>

text \<open>The error text comes from the result of \<open>curl_multi_perform\<close> (\<open>multi_ok\<close>), not from the transfer's.\<close>

definition record_result :: "bool \<Rightarrow> string \<Rightarrow> curl_result \<Rightarrow> curl_response \<Rightarrow> curl_response" where
  "record_result multi_ok strerror res x =
     x\<lparr>errorResult := if multi_ok then '''' else strerror, responseTimeout := (res = CURLE_OPERATION_TIMEDOUT)\<rparr>"

text \<open>A response that may be kept goes to the cache, unless there is one for its address.\<close>

definition store_response :: "scalar \<Rightarrow> nat \<Rightarrow> net \<Rightarrow> net option" where
  "store_response now r n =
     do { (keep, x) \<leftarrow> shouldCacheData now (response_of n r);
          let n1 = put_response r x n;
          let q = requests n r;
          if keep \<and> \<not> isAvailableInCache (URL q) (fst (networkCache n1)) \<and>
             \<not> needEvict (of_nat (contentSize x + headerBufferSize x)) (fst (networkCache n1))
          then do { c \<leftarrow> setCache (URL q) (curlResponse q) (cacheExpiryTime x) now (networkCache n1); Some (n1\<lparr>networkCache := c\<rparr>) }
          else Some n1 }"

definition call_completion :: "'s client \<Rightarrow> scalar \<Rightarrow> nat \<Rightarrow> 's \<times> net \<Rightarrow> ('s \<times> net) option" where
  "call_completion cl now r st =
     (if completionCb (requests (snd st) r)
      then do { (s, dropped) \<leftarrow> cl_completion cl now r (response_of (snd st) r) (fst st);
                Some (s, if dropped then drop_owner r (snd st) else snd st) }
      else Some st)"

text \<open>
  The result of the transfer is read twice: before the handle is taken out of the multi handle, and
  afterwards, when libcurl has freed the message. What the second read gives (\<open>late\<close>) is anything.
\<close>

definition complete_request ::
  "'s client \<Rightarrow> scalar \<Rightarrow> bool \<Rightarrow> string \<Rightarrow> nat \<Rightarrow> curl_result \<Rightarrow> curl_result \<Rightarrow> 's \<times> net \<Rightarrow> ('s \<times> net) option" where
  "complete_request cl now multi_ok strerror h res late st =
     do { r \<leftarrow> private_request (snd st) h;
          let n1 = (put_response r (record_result multi_ok strerror res (response_of (snd st) r)) (snd st))
                     \<lparr>multi := remove1 h (multi (snd st))\<rparr>;
          n2 \<leftarrow> (if late = CURLE_OK then store_response now r n1 else Some n1);
          (s, n3) \<leftarrow> call_completion cl now r (fst st, n2);
          if alive n3 r then Some (s, put_handle r None (n3\<lparr>easy := (easy n3)(h := None)\<rparr>)) else None }"

text \<open>The thread that answers from the cache; it owns the request while it runs.\<close>

definition sendResponseCacheData :: "'s client \<Rightarrow> scalar \<Rightarrow> nat \<Rightarrow> 's \<times> net \<Rightarrow> ('s \<times> net) option" where
  "sendResponseCacheData cl now r st =
     do { (s, n) \<leftarrow> (if headerCb (requests (snd st) r)
                    then do { (s, y) \<leftarrow> cl_header cl now r (response_of (snd st) r) (fst st); Some (s, put_response r y (snd st)) }
                    else Some st);
          (s1, n1) \<leftarrow> call_completion cl now r (s, n);
          Some (s1, drop_owner r (n1\<lparr>cacheProviders := remove1 r (cacheProviders n1)\<rparr>)) }"

section \<open>Steps\<close>

datatype net_event =
  Make curl_request
| Drop nat
| Send nat bool "(string \<times> string) list option" post_data
| Abort nat
| Wake
| Performed "(nat \<times> curl_result) list" nat
| ReadMessage
| Completed scalar bool string curl_result
| HeaderLine scalar nat "string option" int string
| BodyPiece nat "string option" string
| Progressed nat "scalar \<times> scalar \<times> scalar \<times> scalar"
| AnswerFromCache scalar nat
| ExpiryTask scalar scalar
| ExpiryWheel scalar scalar

definition update_cache :: "net \<Rightarrow> (string, nat) cache_state option \<Rightarrow> net option" where
  "update_cache n c = map_option (\<lambda>c. n\<lparr>networkCache := c\<rparr>) c"

text \<open>The loop of the worker, one round of reading or performing at a time.\<close>

definition next_message :: "net \<Rightarrow> net" where
  "next_message n =
     (case net_worker n of
        Reading k \<Rightarrow>
          (case messages n of
             (h, res) # ms \<Rightarrow> n\<lparr>net_worker := Got h res k, messages := ms\<rparr>
           | [] \<Rightarrow> n\<lparr>net_worker := if 0 < k then Performing else WaitSem\<rparr>)
      | _ \<Rightarrow> n)"

fun net_step :: "'s client \<Rightarrow> 's \<times> net \<Rightarrow> net_event \<Rightarrow> ('s \<times> net) option" where
  "net_step cl (s, n) (Make q) = Some (s, make_request q n)"
| "net_step cl (s, n) (Drop r) = Some (s, drop_owner r n)"
| "net_step cl (s, n) (Send r init hs d) = map_option (\<lambda>x. (s, snd x)) (sendRequest r init hs d n)"
| "net_step cl (s, n) (Abort r) = map_option (\<lambda>x. (s, snd x)) (abortRequest r n)"
| "net_step cl (s, n) Wake =
     Some (s, if net_worker n = WaitSem \<and> 0 < networkRequestSem n
              then n\<lparr>networkRequestSem := networkRequestSem n - 1, net_worker := Performing\<rparr> else n)"
| "net_step cl (s, n) (Performed dn k) =
     Some (s, if net_worker n = Performing then n\<lparr>net_worker := Reading k, messages := messages n @ dn\<rparr> else n)"
| "net_step cl (s, n) ReadMessage = Some (s, next_message n)"
| "net_step cl (s, n) (Completed now ok err late) =
     (case net_worker n of
        Got h res k \<Rightarrow> map_option (\<lambda>(s', n'). (s', n'\<lparr>net_worker := Reading k\<rparr>)) (complete_request cl now ok err h res late (s, n))
      | _ \<Rightarrow> Some (s, n))"
| "net_step cl (s, n) (HeaderLine now h url code line) = header_line cl now h url code line (s, n)"
| "net_step cl (s, n) (BodyPiece h url chunk) = map_option (Pair s) (body_piece h url chunk n)"
| "net_step cl (s, n) (Progressed h nums) = progress cl h nums (s, n)"
| "net_step cl (s, n) (AnswerFromCache now r) =
     (if r \<in> set (cacheProviders n) then sendResponseCacheData cl now r (s, n) else Some (s, n))"
| "net_step cl (s, n) (ExpiryTask now n2) =
     map_option (Pair s) (update_cache n (timer_thread_task now 0 (expiryTimerCallback now n2) (networkCache n)))"
| "net_step cl (s, n) (ExpiryWheel now n2) =
     map_option (Pair s) (update_cache n (timer_thread_wheel now 0 (expiryTimerCallback now n2) (networkCache n)))"

section \<open>What keeps the network thread going\<close>

text \<open>A live request and its easy handle.\<close>

definition has_handle :: "net \<Rightarrow> nat \<Rightarrow> nat \<Rightarrow> bool" where
  "has_handle n r h \<longleftrightarrow> alive n r \<and> handle (requests n r) = Some h"

definition private_of :: "net \<Rightarrow> nat \<Rightarrow> nat option" where
  "private_of n h = map_option eh_private (easy n h)"

definition handles_ok :: "net \<Rightarrow> bool" where
  "handles_ok n \<longleftrightarrow>
     (\<forall>r h. has_handle n r h \<longrightarrow> private_of n h = Some r) \<and> (\<forall>h \<in> set (multi n). \<exists>r. has_handle n r h) \<and>
     (\<forall>h. next_easy n \<le> h \<longrightarrow> easy n h = None)"

definition owners_ok :: "net \<Rightarrow> bool" where
  "owners_ok n \<longleftrightarrow>
     (\<forall>r. alive n r \<longrightarrow> r < next_request n) \<and> distinct (cacheProviders n) \<and>
     (\<forall>r \<in> set (cacheProviders n). alive n r \<and> handle (requests n r) = None)"

definition messages_ok :: "net \<Rightarrow> bool" where
  "messages_ok n \<longleftrightarrow>
     distinct (multi n) \<and> distinct (map fst (messages n)) \<and> fst ` set (messages n) \<subseteq> set (multi n) \<and>
     (\<forall>h res k. net_worker n = Got h res k \<longrightarrow> h \<notin> fst ` set (messages n) \<and> h < next_easy n \<and>
        (h \<in> set (multi n) \<or> easy n h = None))"

text \<open>The worker will look at the transfers again.\<close>

definition will_perform :: "net \<Rightarrow> bool" where
  "will_perform n \<longleftrightarrow> 0 < networkRequestSem n \<or>
     (case net_worker n of WaitSem \<Rightarrow> False | Performing \<Rightarrow> True | Reading k \<Rightarrow> 0 < k | Got _ _ k \<Rightarrow> 0 < k)"

text \<open>The end of a transfer is known, and is handled or waits to be.\<close>

definition ended :: "net \<Rightarrow> nat \<Rightarrow> bool" where
  "ended n h \<longleftrightarrow> h \<in> fst ` set (messages n) \<or> (\<exists>res k. net_worker n = Got h res k)"

definition attended_ok :: "net \<Rightarrow> bool" where
  "attended_ok n \<longleftrightarrow> (\<forall>h \<in> set (multi n). ended n h \<or> will_perform n)"

definition net_ok :: "net \<Rightarrow> bool" where
  "net_ok n \<longleftrightarrow> handles_ok n \<and> owners_ok n \<and> messages_ok n \<and> attended_ok n \<and> cache_inv (networkCache n)"

text \<open>
  What a client must keep to, what libcurl's documentation promises, and that the numbers in headers are
  in range (\<open>net_contract\<close>): a request is sent and given up only when it is idle, and aborted while there is
  a pointer to it; libcurl reports transfers it was given, each once, and no running ones only when all
  are done; and it delivers pieces only of transfers that were added. Beside that the callbacks of the
  client must not fail (\<open>callbacks_fine\<close>); \<open>final_response\<close> and \<open>answered_header\<close> are what they are called
  with.
\<close>

definition idle :: "net \<Rightarrow> nat \<Rightarrow> bool" where
  "idle n r \<longleftrightarrow> alive n r \<and> handle (requests n r) = None \<and> r \<notin> set (cacheProviders n)"

definition final_response :: "scalar \<Rightarrow> bool \<Rightarrow> string \<Rightarrow> curl_result \<Rightarrow> curl_result \<Rightarrow> curl_response \<Rightarrow> curl_response option" where
  "final_response now ok err res late x =
     (if late = CURLE_OK then map_option snd (shouldCacheData now (record_result ok err res x)) else Some (record_result ok err res x))"

definition answered_header :: "'s client \<Rightarrow> scalar \<Rightarrow> nat \<Rightarrow> 's \<times> net \<Rightarrow> ('s \<times> curl_response) option" where
  "answered_header cl now r st =
     (if headerCb (requests (snd st) r) then cl_header cl now r (response_of (snd st) r) (fst st)
      else Some (fst st, response_of (snd st) r))"

fun net_contract :: "net \<Rightarrow> net_event \<Rightarrow> bool" where
  "net_contract n (Send r init hs d) \<longleftrightarrow> idle n r"
| "net_contract n (Abort r) \<longleftrightarrow> alive n r"
| "net_contract n (Drop r) \<longleftrightarrow> idle n r"
| "net_contract n (Performed dn k) \<longleftrightarrow>
     distinct (map fst dn) \<and> fst ` set dn \<subseteq> set (multi n) - fst ` set (messages n) \<and>
     (k = 0 \<longrightarrow> set (multi n) \<subseteq> fst ` set (messages n @ dn))"
| "net_contract n (HeaderLine now h url code line) \<longleftrightarrow> h \<in> set (multi n)"
| "net_contract n (BodyPiece h url chunk) \<longleftrightarrow> h \<in> set (multi n)"
| "net_contract n (Progressed h nums) \<longleftrightarrow> h \<in> set (multi n)"
| "net_contract n e \<longleftrightarrow> True"

fun callbacks_fine :: "'s client \<Rightarrow> 's \<times> net \<Rightarrow> net_event \<Rightarrow> bool" where
  "callbacks_fine cl (s, n) (Completed now ok err late) \<longleftrightarrow>
     (\<forall>h res k r. net_worker n = Got h res k \<longrightarrow> private_request n h = Some r \<longrightarrow>
        (\<exists>y. final_response now ok err res late (response_of n r) = Some y \<and> cl_completion cl now r y s \<noteq> None))"
| "callbacks_fine cl (s, n) (HeaderLine now h url code line) \<longleftrightarrow>
     (\<forall>r. private_request n h = Some r \<longrightarrow> snd (headerCallback url code line (response_of n r)) \<longrightarrow>
        cl_header cl now r (fst (headerCallback url code line (response_of n r))) s \<noteq> None)"
| "callbacks_fine cl (s, n) (Progressed h nums) \<longleftrightarrow>
     (\<forall>r. private_request n h = Some r \<longrightarrow> cl_progress cl r nums (response_of n r) s \<noteq> None)"
| "callbacks_fine cl (s, n) (AnswerFromCache now r) \<longleftrightarrow>
     (r \<in> set (cacheProviders n) \<longrightarrow> (\<exists>s' y. answered_header cl now r (s, n) = Some (s', y) \<and> cl_completion cl now r y s' \<noteq> None))"
| "callbacks_fine cl (s, n) e \<longleftrightarrow> True"

definition net_allowed :: "'s client \<Rightarrow> 's \<times> net \<Rightarrow> net_event \<Rightarrow> bool" where
  [simp]: "net_allowed cl st e \<longleftrightarrow> net_contract (snd st) e \<and> callbacks_fine cl st e"

inductive net_reach :: "'s client \<Rightarrow> 's \<Rightarrow> 's \<times> net \<Rightarrow> bool" for cl s0 where
  net_init: "net_reach cl s0 (s0, new_net)"
| net_next: "net_reach cl s0 st \<Longrightarrow> net_allowed cl st e \<Longrightarrow> net_step cl st e = Some st' \<Longrightarrow> net_reach cl s0 st'"

subsection \<open>Small facts\<close>

lemma put_response_simps [simp]:
  "requests (put_response r x n) = requests n" "rq_owners (put_response r x n) = rq_owners n"
  "easy (put_response r x n) = easy n" "next_easy (put_response r x n) = next_easy n" "multi (put_response r x n) = multi n"
  "messages (put_response r x n) = messages n" "networkRequestSem (put_response r x n) = networkRequestSem n"
  "net_worker (put_response r x n) = net_worker n" "cacheProviders (put_response r x n) = cacheProviders n"
  "networkCache (put_response r x n) = networkCache n" "next_request (put_response r x n) = next_request n"
  by (simp_all add: put_response_def)

lemma put_response_ok [simp]: "net_ok (put_response r x n) = net_ok n"
  by (simp add: has_handle_def private_of_def net_ok_def handles_ok_def owners_ok_def messages_ok_def attended_ok_def ended_def will_perform_def alive_def)

lemma private_multi:
  assumes "net_ok n" and "h \<in> set (multi n)"
  obtains r where "private_request n h = Some r" and "has_handle n r h"
proof -
  obtain r where r: "has_handle n r h" "private_of n h = Some r"
    using assms by (auto simp: net_ok_def handles_ok_def)
  then have "private_request n h = Some r"
    by (auto simp: private_of_def private_request_def has_handle_def)
  with that r show thesis by blast
qed

lemma handle_bound:
  assumes "net_ok n" and "has_handle n r h"
  shows "h < next_easy n \<and> easy n h \<noteq> None \<and> private_of n h = Some r"
proof -
  have p: "private_of n h = Some r" using assms by (auto simp: net_ok_def handles_ok_def)
  then have e: "easy n h \<noteq> None" by (auto simp: private_of_def)
  then have "\<not> next_easy n \<le> h" using assms(1) by (auto simp: net_ok_def handles_ok_def)
  with p e show ?thesis by simp
qed

lemma multi_bound: "net_ok n \<Longrightarrow> h \<in> set (multi n) \<Longrightarrow> h < next_easy n"
  using handle_bound private_multi by metis

lemma new_net_ok: "net_ok new_net"
  by (simp add: net_ok_def handles_ok_def owners_ok_def messages_ok_def attended_ok_def new_net_def alive_def has_handle_def
      private_of_def new_cache_inv)

subsection \<open>Every step\<close>

text \<open>The parts of the invariant that only depend on some of the state.\<close>

lemma messages_cong:
  "multi n' = multi n \<Longrightarrow> messages n' = messages n \<Longrightarrow> net_worker n' = net_worker n \<Longrightarrow> easy n' = easy n \<Longrightarrow>
    next_easy n' = next_easy n \<Longrightarrow> messages_ok n' = messages_ok n"
  by (simp add: messages_ok_def)

text \<open>The transfer whose end is handled is there, unless it was aborted meanwhile.\<close>

lemma got_multi:
  "net_ok n \<Longrightarrow> net_worker n = Got h res k \<Longrightarrow> private_request n h \<noteq> None \<Longrightarrow> h \<in> set (multi n)"
  by (auto simp: net_ok_def messages_ok_def private_request_def)

lemma attended_cong:
  "multi n' = multi n \<Longrightarrow> messages n' = messages n \<Longrightarrow> net_worker n' = net_worker n \<Longrightarrow>
    networkRequestSem n' = networkRequestSem n \<Longrightarrow> attended_ok n' = attended_ok n"
  by (simp add: attended_ok_def ended_def will_perform_def)

lemma handles_cong:
  "has_handle n' = has_handle n \<Longrightarrow> easy n' = easy n \<Longrightarrow> multi n' = multi n \<Longrightarrow> next_easy n' = next_easy n \<Longrightarrow>
    handles_ok n' = handles_ok n"
  by (simp add: handles_ok_def private_of_def)

lemma make_ok:
  assumes "net_ok n"
  shows "net_ok (make_request q n)"
proof -
  let ?n = "make_request q n"
  have "has_handle ?n = has_handle n"
    using assms by (fastforce simp: fun_eq_iff has_handle_def net_ok_def owners_ok_def make_request_def alive_def Let_def)
  then have "handles_ok ?n = handles_ok n" by (rule handles_cong) (simp_all add: make_request_def Let_def)
  moreover have "owners_ok ?n"
    using assms by (auto simp: net_ok_def owners_ok_def make_request_def alive_def Let_def less_Suc_eq)
  moreover have "messages_ok ?n = messages_ok n" "attended_ok ?n = attended_ok n"
    by (rule messages_cong attended_cong; simp add: make_request_def Let_def)+
  ultimately show ?thesis using assms by (simp add: net_ok_def make_request_def Let_def)
qed

lemma setHeaders_private [simp]: "eh_private (setHeaders hs e) = eh_private e"
  by (simp add: setHeaders_def)

lemma easy_options_private:
  "(\<exists>b e. easy_options r q hs d = Some (b, e) \<and> eh_private e = r) \<or>
     d = OtherData \<and> rq_method q = ''POST'' \<and> easy_options r q hs d = None"
  by (cases d; cases hs) (auto simp: easy_options_def preparePostRequest_def Let_def)

lemma send_ok:
  assumes ok: "net_ok n" and r: "idle n r"
  shows "(\<exists>b n'. sendRequest r init hs d n = Some (b, n') \<and> net_ok n') \<or>
    d = OtherData \<and> rq_method (requests n r) = ''POST'' \<and> sendRequest r init hs d n = None"
proof (cases "getCacheData (URL (requests n r)) (fst (networkCache n))")
  case (Some x)
  let ?n1 = "n\<lparr>requests := (requests n)(r := (requests n r)\<lparr>curlResponse := x\<rparr>)\<rparr>"
  let ?n2 = "?n1\<lparr>cacheProviders := cacheProviders n @ [r], rq_owners := (rq_owners n)(r := rq_owners n r + 1)\<rparr>"
  have hh: "has_handle ?n1 = has_handle n" "has_handle ?n2 = has_handle n"
    using r by (auto simp: fun_eq_iff has_handle_def alive_def idle_def)
  have "handles_ok ?n1 = handles_ok n" by (rule handles_cong [OF hh(1)]) simp_all
  moreover have "handles_ok ?n2 = handles_ok n" by (rule handles_cong [OF hh(2)]) simp_all
  moreover have "owners_ok ?n1" "owners_ok ?n2"
    using ok r by (auto simp: net_ok_def owners_ok_def alive_def idle_def)
  moreover have "messages_ok ?n1 = messages_ok n" "messages_ok ?n2 = messages_ok n"
    "attended_ok ?n1 = attended_ok n" "attended_ok ?n2 = attended_ok n"
    by (rule messages_cong attended_cong; simp)+
  ultimately have "net_ok ?n1" "net_ok ?n2" using ok by (simp_all add: net_ok_def)
  with Some show ?thesis by (auto simp: sendRequest_def Let_def)
next
  case none: None
  show ?thesis
  proof (cases "easy_options r (requests n r) hs d")
    case None
    with none ok easy_options_private [of r "requests n r" hs d] show ?thesis by (auto simp: sendRequest_def Let_def)
  next
    case (Some be)
    then obtain b e where e: "easy_options r (requests n r) hs d = Some (b, e)" "eh_private e = r"
      using easy_options_private [of r "requests n r" hs d] by fastforce
    let ?h = "next_easy n"
    let ?n1 = "(put_handle r (Some ?h) n)\<lparr>next_easy := Suc ?h, easy := (easy n)(?h := Some e)\<rparr>"
    let ?n2 = "?n1\<lparr>multi := multi n @ [?h], networkRequestSem := if networkRequestSem n = 0 then 1 else networkRequestSem n\<rparr>"
    have new: "?h \<notin> set (multi n)" using multi_bound [OF ok] by blast
    have rh: "alive n r" "handle (requests n r) = None" "r \<notin> set (cacheProviders n)" using r by (simp_all add: idle_def)
    have hh: "has_handle ?n1 r' h \<longleftrightarrow> has_handle n r' h \<or> r' = r \<and> h = ?h" "has_handle ?n2 r' h \<longleftrightarrow> has_handle n r' h \<or> r' = r \<and> h = ?h" for r' h
      using rh by (auto simp: has_handle_def alive_def put_handle_def)
    have p: "private_of ?n1 h = (if h = ?h then Some r else private_of n h)" "private_of ?n2 h = (if h = ?h then Some r else private_of n h)" for h
      using e(2) by (simp_all add: private_of_def)
    have b: "\<forall>h. Suc ?h \<le> h \<longrightarrow> ((easy n)(?h := Some e)) h = None" using ok by (auto simp: net_ok_def handles_ok_def)
    have "has_handle n r' h \<Longrightarrow> h \<noteq> ?h" for r' h using handle_bound [OF ok] by blast
    with ok b have h1: "handles_ok ?n1" and h2: "handles_ok ?n2"
      by (auto simp: net_ok_def handles_ok_def hh p) (auto simp: put_handle_def)
    have o: "owners_ok ?n1" "owners_ok ?n2"
      using ok rh by (auto simp: net_ok_def owners_ok_def alive_def put_handle_def)
    have m1: "attended_ok ?n1 = attended_ok n"
      by (rule attended_cong; simp add: put_handle_def)+
    have m2: "messages_ok ?n1" "messages_ok ?n2" "attended_ok ?n2"
      using ok new by (auto simp: net_ok_def messages_ok_def attended_ok_def ended_def will_perform_def put_handle_def
        less_Suc_eq)
    have "net_ok ?n1" "net_ok ?n2" using ok h1 h2 o m1 m2 by (simp_all add: net_ok_def put_handle_def)
    with none e ok show ?thesis by (auto simp: sendRequest_def Let_def)
  qed
qed

text \<open>A transfer and its handle are given up, by aborting it or when its end is handled.\<close>

lemma release_ok:
  assumes ok: "net_ok n" and rh: "has_handle n r h"
    and q: "requests n' = (requests n)(r := (requests n r)\<lparr>handle := None\<rparr>)" and e: "easy n' = (easy n)(h := None)"
    and m': "multi n' = remove1 h (multi n)" and ms: "messages n' = filter (\<lambda>m. fst m \<noteq> h) (messages n)"
    and nx: "next_easy n' = next_easy n" "next_request n' = next_request n"
    and p: "cacheProviders n' = cacheProviders n" and sem: "networkRequestSem n' = networkRequestSem n"
    and al: "\<And>r'. alive n' r' = alive n r'" and c: "cache_inv (networkCache n')"
    and w: "net_worker n' = net_worker n \<or>
      (\<exists>res k. net_worker n = Got h res k \<and> net_worker n' = Reading k)"
  shows "net_ok n'"
proof -
  have d: "distinct (multi n)" using ok by (simp add: net_ok_def messages_ok_def)
  have other: "r' = r" if "has_handle n r' h" for r'
    using handle_bound [OF ok rh] handle_bound [OF ok that] by simp
  have one: "h' = h" if "has_handle n r h'" for h' using that rh by (simp add: has_handle_def)
  have hh: "has_handle n' r' h' \<longleftrightarrow> has_handle n r' h' \<and> r' \<noteq> r" for r' h'
    using rh by (auto simp: has_handle_def al q)
  have pr: "private_of n' h' = (if h' = h then None else private_of n h')" for h'
    by (simp add: private_of_def e)
  have m: "set (multi n') = set (multi n) - {h}" using d by (simp add: m' set_remove1_eq)
  have got: "net_worker n = Got h' res k" if "net_worker n' = Got h' res k" for h' res k
    using w that by auto
  have "handles_ok n'"
  proof -
    have "private_of n' h' = Some r'" if "has_handle n' r' h'" for r' h'
      using that handle_bound [OF ok] other by (auto simp: hh pr)
    moreover have "\<exists>r'. has_handle n' r' h'" if "h' \<in> set (multi n) - {h}" for h'
    proof -
      have "\<exists>r'. has_handle n r' h'" using ok that by (auto simp: net_ok_def handles_ok_def)
      then show ?thesis using one that by (auto simp: hh)
    qed
    moreover have "\<forall>h'. next_easy n' \<le> h' \<longrightarrow> easy n' h' = None" using ok by (auto simp: net_ok_def handles_ok_def e nx)
    ultimately show ?thesis by (simp add: handles_ok_def m)
  qed
  moreover have "owners_ok n'" using ok by (auto simp: net_ok_def owners_ok_def q nx p al)
  moreover have "messages_ok n'"
  proof -
    have "distinct (map fst (messages n'))" "fst ` set (messages n') \<subseteq> set (multi n) - {h}"
      using ok by (auto simp: net_ok_def messages_ok_def ms distinct_map_filter)
    moreover have "h' \<notin> fst ` set (messages n') \<and> h' < next_easy n' \<and> (h' \<in> set (multi n) - {h} \<or> easy n' h' = None)"
      if "net_worker n' = Got h' res k" for h' res k
      using ok got [OF that] by (auto simp: net_ok_def messages_ok_def ms nx e)
    ultimately show ?thesis using d unfolding messages_ok_def m by (simp add: m')
  qed
  moreover have "attended_ok n'"
  proof -
    have "ended n' h'" if "ended n h'" "h' \<noteq> h" for h' using that w by (force simp: ended_def ms)
    moreover have "will_perform n' = will_perform n" using w by (auto simp: will_perform_def sem)
    ultimately show ?thesis using ok by (auto simp: net_ok_def attended_ok_def m)
  qed
  ultimately show ?thesis using c by (simp add: net_ok_def)
qed

lemma abort_ok:
  assumes ok: "net_ok n" and r: "alive n r"
  shows "\<exists>b n'. abortRequest r n = Some (b, n') \<and> net_ok n'"
proof (cases "handle (requests n r)")
  case None
  with ok show ?thesis by (auto simp: abortRequest_def)
next
  case (Some h)
  with r have rh: "has_handle n r h" by (simp add: has_handle_def)
  let ?n = "put_handle r None (n\<lparr>multi := remove1 h (multi n), messages := filter (\<lambda>m. fst m \<noteq> h) (messages n), easy := (easy n)(h := None)\<rparr>)"
  have "net_ok ?n"
    using ok by (intro release_ok [OF ok rh]) (simp_all add: put_handle_def alive_def net_ok_def)
  then show ?thesis using Some handle_bound [OF ok rh] by (auto simp: abortRequest_def)
qed

lemma drop_ok:
  assumes "net_ok n" and "idle n r"
  shows "net_ok (drop_owner r n)"
proof -
  let ?n = "drop_owner r n"
  have less: "alive ?n r' \<Longrightarrow> alive n r'" for r' by (auto simp: alive_def drop_owner_def split: if_splits)
  have same: "r' \<noteq> r \<Longrightarrow> alive ?n r' = alive n r'" for r' by (simp add: alive_def drop_owner_def)
  have q: "requests ?n = requests n" "cacheProviders ?n = cacheProviders n" "next_request ?n = next_request n"
    by (simp_all add: drop_owner_def)
  have "has_handle ?n r' h \<longleftrightarrow> has_handle n r' h" for r' h
    using assms(2) same [of r'] by (cases "r' = r") (auto simp: has_handle_def idle_def q)
  then have "has_handle ?n = has_handle n" by (simp add: fun_eq_iff)
  moreover have "owners_ok ?n"
    using assms less same unfolding net_ok_def owners_ok_def q idle_def by metis
  moreover have "messages_ok ?n = messages_ok n" "attended_ok ?n = attended_ok n"
    by (rule messages_cong attended_cong; simp add: drop_owner_def)+
  moreover have "handles_ok ?n = handles_ok n"
    by (rule handles_cong) (use \<open>has_handle ?n = has_handle n\<close> in \<open>simp_all add: drop_owner_def\<close>)
  ultimately show ?thesis using assms by (simp add: net_ok_def drop_owner_def)
qed

lemma put_cache_ok: "net_ok n \<Longrightarrow> cache_inv c \<Longrightarrow> net_ok (n\<lparr>networkCache := c\<rparr>)"
  by (simp add: net_ok_def handles_ok_def owners_ok_def messages_ok_def attended_ok_def ended_def will_perform_def alive_def
      has_handle_def private_of_def)

lemma setCache_ok: "cache_inv c \<Longrightarrow> \<exists>c'. setCache k v e now c = Some c' \<and> cache_inv c'"
  using cache_step_ok [of c "SetCache k v e now"] by simp

lemma store_result:
  assumes "cache_inv (networkCache n)" and k: "shouldCacheData now (response_of n r) = Some (keep, x)"
  shows "\<exists>c. store_response now r n = Some ((put_response r x n)\<lparr>networkCache := c\<rparr>) \<and> cache_inv c"
proof -
  obtain c' where c: "setCache (URL (requests n r)) (curlResponse (requests n r)) (cacheExpiryTime x) now (networkCache n) = Some c'"
      "cache_inv c'"
    using setCache_ok [OF assms(1)] by blast
  have same: "(put_response r x n)\<lparr>networkCache := networkCache n\<rparr> = put_response r x n" by (simp add: put_response_def)
  show ?thesis
  proof (cases "keep \<and> \<not> isAvailableInCache (URL (requests n r)) (fst (networkCache n)) \<and>
      \<not> needEvict (of_nat (contentSize x + headerBufferSize x)) (fst (networkCache n))")
    case True
    with k c show ?thesis by (intro exI [of _ c']) (simp add: store_response_def Let_def)
  next
    case False
    with k assms(1) same show ?thesis
      by (intro exI [of _ "networkCache n"]) (auto simp: store_response_def Let_def)
  qed
qed

text \<open>The end of a transfer: the client gave up the last pointer in its callback, or all is well.\<close>

definition last_owner_dropped :: "'s client \<Rightarrow> nat \<Rightarrow> 's \<times> net \<Rightarrow> bool" where
  "last_owner_dropped cl r st \<longleftrightarrow> completionCb (requests (snd st) r) \<and> rq_owners (snd st) r = 1 \<and>
     (\<exists>now x s. cl_completion cl now r x (fst st) = Some (s, True))"

lemma call_completion_result:
  assumes "cl_completion cl now r (response_of n r) s \<noteq> None"
  shows "\<exists>s' w. call_completion cl now r (s, n) = Some (s', n\<lparr>rq_owners := w\<rparr>) \<and> (\<forall>r'. r' \<noteq> r \<longrightarrow> w r' = rq_owners n r') \<and>
     (w r = 0 \<longrightarrow> alive n r \<longrightarrow> last_owner_dropped cl r (s, n))"
proof -
  obtain s1 d where c: "cl_completion cl now r (response_of n r) s = Some (s1, d)" using assms by fastforce
  show ?thesis
  proof (cases "completionCb (requests n r) \<and> d")
    case True
    with c show ?thesis
      by (intro exI [of _ s1] exI [of _ "(rq_owners n)(r := rq_owners n r - 1)"])
        (auto simp: call_completion_def drop_owner_def last_owner_dropped_def alive_def)
  next
    case False
    have "n = n\<lparr>rq_owners := rq_owners n\<rparr>" by simp
    with False c show ?thesis
      by (intro exI [of _ "if completionCb (requests n r) then s1 else s"] exI [of _ "rq_owners n"])
        (auto simp: call_completion_def alive_def)
  qed
qed

lemma complete_ok:
  assumes ok: "net_ok n" and w: "net_worker n = Got h res k" and r: "private_request n h = Some r"
    and hd: "final_response now mok err res late (response_of n r) = Some y" and cp: "cl_completion cl now r y s \<noteq> None"
  shows "(\<exists>s' n'. complete_request cl now mok err h res late (s, n) = Some (s', n') \<and> net_ok (n'\<lparr>net_worker := Reading k\<rparr>)) \<or>
    complete_request cl now mok err h res late (s, n) = None \<and> last_owner_dropped cl r (s, n)"
proof -
  have h: "h \<in> set (multi n)" "h \<notin> fst ` set (messages n)"
    using got_multi [OF ok w] ok w r by (auto simp: net_ok_def messages_ok_def)
  have rh: "has_handle n r h"
    using private_multi [OF ok h(1)] r by (metis option.inject)
  let ?x = "record_result mok err res (response_of n r)"
  let ?n1 = "(put_response r ?x n)\<lparr>multi := remove1 h (multi n)\<rparr>"
  have r1: "response_of ?n1 r = ?x" by (simp add: response_of_def put_response_def)
  have "\<exists>c. (if late = CURLE_OK then store_response now r ?n1 else Some ?n1) =
      Some ((put_response r y n)\<lparr>multi := remove1 h (multi n), networkCache := c\<rparr>) \<and> cache_inv c"
  proof (cases "late = CURLE_OK")
    case True
    have c: "cache_inv (networkCache ?n1)" using ok by (simp add: net_ok_def)
    obtain keep where "shouldCacheData now (response_of ?n1 r) = Some (keep, y)"
      using hd True r1 by (auto simp: final_response_def)
    from store_result [OF c this] obtain c where
      "store_response now r ?n1 = Some ((put_response r y ?n1)\<lparr>networkCache := c\<rparr>)" "cache_inv c" by auto
    with True show ?thesis by (intro exI [of _ c]) (simp add: put_response_def)
  next
    case False
    with ok hd show ?thesis
      by (intro exI [of _ "networkCache n"]) (simp add: net_ok_def put_response_def final_response_def)
  qed
  then obtain c where n2: "(if late = CURLE_OK then store_response now r ?n1 else Some ?n1) =
      Some ((put_response r y n)\<lparr>multi := remove1 h (multi n), networkCache := c\<rparr>)" "cache_inv c" by blast
  let ?n2 = "(put_response r y n)\<lparr>multi := remove1 h (multi n), networkCache := c\<rparr>"
  have cp2: "cl_completion cl now r (response_of ?n2 r) s \<noteq> None" using cp by (simp add: response_of_def put_response_def)
  obtain s' o' where n3: "call_completion cl now r (s, ?n2) = Some (s', ?n2\<lparr>rq_owners := o'\<rparr>)"
      "\<forall>r'. r' \<noteq> r \<longrightarrow> o' r' = rq_owners n r'" "o' r = 0 \<longrightarrow> alive ?n2 r \<longrightarrow> last_owner_dropped cl r (s, ?n2)"
    using call_completion_result [OF cp2] by auto
  have al: "alive n r" using rh by (simp add: has_handle_def)
  have "last_owner_dropped cl r (s, ?n2) = last_owner_dropped cl r (s, n)" by (simp add: last_owner_dropped_def)
  with n3(3) al have drop: "o' r = 0 \<Longrightarrow> last_owner_dropped cl r (s, n)" by (auto simp: alive_def)
  let ?n3 = "?n2\<lparr>rq_owners := o'\<rparr>"
  let ?n4 = "put_handle r None (?n3\<lparr>easy := (easy ?n3)(h := None)\<rparr>)"
  have c4: "complete_request cl now mok err h res late (s, n) = (if 0 < o' r then Some (s', ?n4) else None)"
    using r n2(1) n3(1) by (simp add: complete_request_def Let_def alive_def)
  show ?thesis
  proof (cases "0 < o' r")
    case True
    have al': "0 < o' r' \<longleftrightarrow> alive n r'" for r' using n3(2) True al by (cases "r' = r") (auto simp: alive_def)
    have "filter (\<lambda>m. fst m \<noteq> h) (messages n) = messages n"
      using h(2) by (auto simp: filter_id_conv)
    then have "net_ok (?n4\<lparr>net_worker := Reading k\<rparr>)"
      using n2(2) w by (intro release_ok [OF ok rh]) (simp_all add: put_handle_def alive_def al' [unfolded alive_def])
    with c4 True show ?thesis by auto
  qed (use c4 drop in auto)
qed

lemma wake_ok:
  assumes "net_ok n" and "net_worker n = WaitSem" and "0 < networkRequestSem n"
  shows "net_ok (n\<lparr>networkRequestSem := networkRequestSem n - 1, net_worker := Performing\<rparr>)" (is "net_ok ?n")
proof -
  have "handles_ok ?n = handles_ok n" by (rule handles_cong) (simp_all add: fun_eq_iff has_handle_def alive_def)
  moreover have "owners_ok ?n = owners_ok n" by (simp add: owners_ok_def alive_def)
  moreover have "messages_ok ?n" using assms by (simp add: net_ok_def messages_ok_def)
  moreover have "attended_ok ?n" by (simp add: attended_ok_def will_perform_def)
  ultimately show ?thesis using assms(1) by (simp add: net_ok_def)
qed

lemma worker_messages_ok:
  assumes "net_ok n" and "messages_ok (n\<lparr>net_worker := w, messages := ms\<rparr>)" and "attended_ok (n\<lparr>net_worker := w, messages := ms\<rparr>)"
  shows "net_ok (n\<lparr>net_worker := w, messages := ms\<rparr>)" (is "net_ok ?n")
proof -
  have "handles_ok ?n = handles_ok n" by (rule handles_cong) (simp_all add: fun_eq_iff has_handle_def alive_def)
  moreover have "owners_ok ?n = owners_ok n" by (simp add: owners_ok_def alive_def)
  ultimately show ?thesis using assms by (simp add: net_ok_def)
qed

lemma performed_ok:
  assumes ok: "net_ok n" and w: "net_worker n = Performing" and d: "distinct (map fst dn)"
    and s: "fst ` set dn \<subseteq> set (multi n) - fst ` set (messages n)" and k: "k = 0 \<longrightarrow> set (multi n) \<subseteq> fst ` set (messages n @ dn)"
  shows "net_ok (n\<lparr>net_worker := Reading k, messages := messages n @ dn\<rparr>)"
proof (rule worker_messages_ok [OF ok])
  show "messages_ok (n\<lparr>net_worker := Reading k, messages := messages n @ dn\<rparr>)"
    using ok d s by (auto simp: net_ok_def messages_ok_def)
  show "attended_ok (n\<lparr>net_worker := Reading k, messages := messages n @ dn\<rparr>)"
    using k by (cases k) (auto simp: attended_ok_def ended_def will_perform_def)
qed

lemma read_ok:
  assumes ok: "net_ok n"
  shows "net_ok (next_message n)"
proof (cases "net_worker n")
  case (Reading k)
  show ?thesis
  proof (cases "messages n")
    case Nil
    let ?n = "n\<lparr>net_worker := if 0 < k then Performing else WaitSem, messages := []\<rparr>"
    have "messages_ok ?n" using ok by (simp add: net_ok_def messages_ok_def)
    moreover have "attended_ok ?n"
      using ok Reading Nil by (auto simp: net_ok_def attended_ok_def ended_def will_perform_def)
    ultimately have "net_ok ?n" by (rule worker_messages_ok [OF ok])
    moreover have "next_message n = ?n" using Reading Nil by (simp add: next_message_def)
    ultimately show ?thesis by simp
  next
    case (Cons m ms)
    obtain h res where m: "m = (h, res)" by fastforce
    let ?n = "n\<lparr>net_worker := Got h res k, messages := ms\<rparr>"
    have "h < next_easy n" using multi_bound [OF ok] ok Cons m by (auto simp: net_ok_def messages_ok_def)
    then have "messages_ok ?n" using ok Cons m by (auto simp: net_ok_def messages_ok_def)
    moreover have "attended_ok ?n"
      using ok Reading Cons m by (auto simp: net_ok_def attended_ok_def ended_def will_perform_def)
    ultimately have "net_ok ?n" by (rule worker_messages_ok [OF ok])
    with Reading Cons m show ?thesis by (simp add: next_message_def)
  qed
qed (use ok in \<open>simp_all add: next_message_def\<close>)

lemma provider_ok:
  assumes ok: "net_ok n" and r: "r \<in> set (cacheProviders n)" and hd: "answered_header cl now r (s, n) = Some (s1, x)"
    and cp: "cl_completion cl now r x s1 \<noteq> None"
  shows "\<exists>s' n'. sendResponseCacheData cl now r (s, n) = Some (s', n') \<and> net_ok n'"
proof -
  have h: "(if headerCb (requests n r) then do { (s, y) \<leftarrow> cl_header cl now r (response_of n r) s; Some (s, put_response r y n) }
      else Some (s, n)) = Some (s1, put_response r x n)"
    using hd by (auto simp: answered_header_def put_response_def response_of_def split: if_splits)
  let ?n = "put_response r x n"
  have okn: "net_ok ?n" using ok by simp
  have "cl_completion cl now r (response_of ?n r) s1 \<noteq> None" using cp by (simp add: response_of_def put_response_def)
  from call_completion_result [OF this]
  obtain s2 w where c: "call_completion cl now r (s1, ?n) = Some (s2, ?n\<lparr>rq_owners := w\<rparr>)" "\<forall>r'. r' \<noteq> r \<longrightarrow> w r' = rq_owners n r'"
    by auto
  let ?n1 = "?n\<lparr>rq_owners := w\<rparr>"
  let ?n2 = "drop_owner r (?n1\<lparr>cacheProviders := remove1 r (cacheProviders n)\<rparr>)"
  have rr: "alive n r" "handle (requests n r) = None" "distinct (cacheProviders n)"
    using ok r by (auto simp: net_ok_def owners_ok_def)
  have al: "r' \<noteq> r \<Longrightarrow> alive ?n2 r' = alive n r'" for r' using c(2) by (simp add: alive_def drop_owner_def)
  have bound: "alive ?n2 r' \<Longrightarrow> r' < next_request n" for r'
    using ok al rr by (cases "r' = r") (auto simp: net_ok_def owners_ok_def)
  have q: "requests ?n2 = requests n" "cacheProviders ?n2 = remove1 r (cacheProviders n)" "next_request ?n2 = next_request n"
    by (simp_all add: drop_owner_def)
  have "has_handle ?n2 r' h \<longleftrightarrow> has_handle n r' h" for r' h
    using al [of r'] rr unfolding has_handle_def q by (cases "r' = r") auto
  then have hh: "has_handle ?n2 = has_handle n" by (simp add: fun_eq_iff)
  have "handles_ok ?n2 = handles_ok n" by (rule handles_cong [OF hh]) (simp_all add: drop_owner_def)
  moreover have "owners_ok ?n2"
    using ok rr al bound unfolding net_ok_def owners_ok_def q by auto
  moreover have "messages_ok ?n2 = messages_ok n" "attended_ok ?n2 = attended_ok n"
    by (rule messages_cong attended_cong; simp add: drop_owner_def)+
  ultimately have "net_ok ?n2" using ok by (simp add: net_ok_def drop_owner_def)
  moreover have "sendResponseCacheData cl now r (s, n) = Some (s2, ?n2)"
    unfolding sendResponseCacheData_def fst_conv snd_conv h using c(1) by simp
  ultimately show ?thesis by blast
qed

lemma net_step_ok:
  assumes ok: "net_ok n" and al: "net_allowed cl (s, n) e"
  shows "(\<exists>s' n'. net_step cl (s, n) e = Some (s', n') \<and> net_ok n') \<or> net_step cl (s, n) e = None \<and>
    ((\<exists>now mok err late h res k. e = Completed now mok err late \<and> net_worker n = Got h res k \<and>
       (private_request n h = None \<or> (\<exists>r. private_request n h = Some r \<and> last_owner_dropped cl r (s, n)))) \<or>
     (\<exists>r init hs. e = Send r init hs OtherData))"
proof (cases e)
  case (Make q)
  with make_ok [OF ok] show ?thesis by simp
next
  case (Drop r)
  with drop_ok [OF ok] al show ?thesis by simp
next
  case (Send r init hs d)
  with al send_ok [OF ok, of r init hs d] show ?thesis by auto
next
  case (Abort r)
  with al abort_ok [OF ok, of r] show ?thesis by auto
next
  case Wake
  with ok wake_ok [OF ok] show ?thesis by auto
next
  case (Performed dn k)
  with ok al performed_ok [OF ok, of dn k] show ?thesis by auto
next
  case ReadMessage
  with read_ok [OF ok] show ?thesis by simp
next
  case (Completed now mok err late)
  show ?thesis
  proof (cases "net_worker n")
    case (Got h res k)
    show ?thesis
    proof (cases "private_request n h")
      case None
      with Completed Got show ?thesis by (simp add: complete_request_def)
    next
      case r: (Some r)
      obtain y where y: "final_response now mok err res late (response_of n r) = Some y" "cl_completion cl now r y s \<noteq> None"
        using al Completed Got r by auto
      show ?thesis using complete_ok [OF ok Got r y] Completed Got r by fastforce
    qed
  qed (use ok Completed in simp_all)
next
  case (HeaderLine now h url code line)
  with al have "h \<in> set (multi n)" by simp
  then obtain r where r: "private_request n h = Some r" by (rule private_multi [OF ok])
  obtain x b where x: "headerCallback url code line (response_of n r) = (x, b)" by fastforce
  show ?thesis
  proof (cases b)
    case True
    then have "cl_header cl now r x s \<noteq> None" using al HeaderLine r x by auto
    then obtain s1 y where "cl_header cl now r x s = Some (s1, y)" by fastforce
    with True HeaderLine r x ok show ?thesis by (simp add: header_line_def)
  qed (use HeaderLine r x ok in \<open>simp add: header_line_def\<close>)
next
  case (BodyPiece h url chunk)
  with al have "h \<in> set (multi n)" by simp
  then obtain r where "private_request n h = Some r" by (rule private_multi [OF ok])
  with BodyPiece ok show ?thesis by (simp add: body_piece_def)
next
  case (Progressed h nums)
  with al have "h \<in> set (multi n)" by simp
  then obtain r where r: "private_request n h = Some r" by (rule private_multi [OF ok])
  have "cl_progress cl r nums (response_of n r) s \<noteq> None" using al Progressed r by auto
  then obtain s1 y where "cl_progress cl r nums (response_of n r) s = Some (s1, y)" by fastforce
  moreover note r
  ultimately show ?thesis using Progressed ok by (simp add: progress_def)
next
  case (AnswerFromCache now r)
  show ?thesis
  proof (cases "r \<in> set (cacheProviders n)")
    case True
    then obtain s1 y where "answered_header cl now r (s, n) = Some (s1, y)" "cl_completion cl now r y s1 \<noteq> None"
      using al AnswerFromCache by auto
    from provider_ok [OF ok True this] True AnswerFromCache show ?thesis by auto
  qed (use ok AnswerFromCache in simp)
next
  case (ExpiryTask now n2)
  have "cache_inv (networkCache n)" using ok by (simp add: net_ok_def)
  from expire_thread_ok(1) [OF this, of now 0 now n2 now] ExpiryTask put_cache_ok [OF ok] show ?thesis
    by (auto simp: update_cache_def expiryTimerCallback_def)
next
  case (ExpiryWheel now n2)
  have "cache_inv (networkCache n)" using ok by (simp add: net_ok_def)
  from expire_thread_ok(2) [OF this, of now 0 now n2 now] ExpiryWheel put_cache_ok [OF ok] show ?thesis
    by (auto simp: update_cache_def expiryTimerCallback_def)
qed

lemma net_reach_ok: "net_reach cl s0 st \<Longrightarrow> net_ok (snd st)"
proof (induction rule: net_reach.induct)
  case net_init
  show ?case by (simp add: new_net_ok)
next
  case (net_next st e st')
  obtain s n where st: "st = (s, n)" by fastforce
  with net_next net_step_ok [of n cl s e] show ?case by auto
qed

text \<open>C30: No transfer is forgotten: in every state that clients, libcurl and the network thread reach with
  steps in any order, for every transfer handed to libcurl its end is known, or the thread will perform
  again. The clients must send and give up a request only when it is idle and abort it only while they have
  it, and libcurl must do as its documentation says (\<open>net_contract\<close>); their callbacks must not fail
  (\<open>callbacks_fine\<close>). A fault ends the run: with the networking module of the repository the first end
  that is handled is one (\<open>completion_uses_freed_request\<close>).\<close>

theorem no_transfer_forgotten:
  assumes "net_reach cl s0 (s, n)" and "h \<in> set (multi n)"
  shows "h \<in> fst ` set (messages n) \<or> (\<exists>res k. net_worker n = Got h res k) \<or> 0 < networkRequestSem n \<or>
    net_worker n = Performing \<or> (\<exists>k > 0. net_worker n = Reading k \<or> (\<exists>h' res. net_worker n = Got h' res k))"
proof -
  have "net_ok n" using net_reach_ok [OF assms(1)] by simp
  then have "ended n h \<or> will_perform n" using assms(2) by (auto simp: net_ok_def attended_ok_def)
  then show ?thesis by (cases "net_worker n") (auto simp: ended_def will_perform_def)
qed

text \<open>The only faults of the network thread, as long as clients and libcurl keep to their contracts: it uses
  a request after its client, told of the end, gave up the last pointer to it; it handles the end of a transfer
  that was aborted meanwhile; or a request is sent with a body that is not a string.\<close>

theorem network_thread_faults:
  assumes "net_reach cl s0 (s, n)" and "net_allowed cl (s, n) e" and "net_step cl (s, n) e = None"
  shows "(\<exists>now mok err late h res k. e = Completed now mok err late \<and> net_worker n = Got h res k \<and>
      (private_request n h = None \<or> (\<exists>r x. private_request n h = Some r \<and>
        completionCb (requests n r) \<and> rq_owners n r = 1 \<and> (\<exists>t s'. cl_completion cl t r x s = Some (s', True))))) \<or>
    (\<exists>r init hs. e = Send r init hs OtherData)"
proof -
  have "net_ok n" using net_reach_ok [OF assms(1)] by simp
  from net_step_ok [OF this assms(2)] assms(3) show ?thesis
    unfolding last_owner_dropped_def fst_conv snd_conv by (elim disjE exE conjE) (simp; blast)+
qed

section \<open>What can go wrong\<close>

lemma store_makes_available:
  assumes "cache_inv (networkCache n)" and "store_response now r n = Some n1" and "shouldCacheData now (response_of n r) = Some (True, x)"
    and "\<not> needEvict (of_nat (contentSize x + headerBufferSize x)) (fst (networkCache n))"
  shows "getCacheData (URL (requests n r)) (fst (networkCache n1)) \<noteq> None" and "requests n1 = requests n" and "multi n1 = multi n"
proof -
  let ?u = "URL (requests n r)"
  obtain c tmo where n: "networkCache n = (c, tmo)" by fastforce
  have "getCacheData ?u (fst (networkCache n1)) \<noteq> None \<and> requests n1 = requests n \<and> multi n1 = multi n"
  proof (cases "isAvailableInCache ?u c")
    case True
    with assms(2,3) n have "n1 = put_response r x n" by (simp add: store_response_def Let_def)
    with True n show ?thesis by (auto simp: isAvailableInCache_def getCacheData_def split: option.splits)
  next
    case False
    with assms(2,3,4) n obtain c' where c': "setCache ?u (curlResponse (requests n r)) (cacheExpiryTime x) now (c, tmo) = Some c'"
        "n1 = (put_response r x n)\<lparr>networkCache := c'\<rparr>"
      by (auto simp: store_response_def Let_def split: bind_splits)
    then have "contents (fst c') ?u \<noteq> None"
      using setCache_contents(1) [of ?u "curlResponse (requests n r)" "cacheExpiryTime x" now c tmo "fst c'" "snd c'"] by simp
    with c' show ?thesis by (auto simp: contents_def getCacheData_def split: option.splits)
  qed
  then show "getCacheData ?u (fst (networkCache n1)) \<noteq> None" "requests n1 = requests n" "multi n1 = multi n" by auto
qed

text \<open>Once a response for an address is kept, a request to that address is answered with it, whatever its
  method and body: a second POST is never sent.\<close>

theorem post_answered_from_cache:
  assumes "cache_inv (networkCache n)" and "store_response now r n = Some n1" and "shouldCacheData now (response_of n r) = Some (True, x)"
    and "\<not> needEvict (of_nat (contentSize x + headerBufferSize x)) (fst (networkCache n))"
    and "URL (requests n r') = URL (requests n r)"
  shows "\<exists>n2. sendRequest r' init hs d n1 = Some (True, n2) \<and> multi n2 = multi n \<and> easy n2 = easy n1"
  using store_makes_available [OF assms(1-4)] assms(5)
  by (auto simp: sendRequest_def Let_def)

text \<open>A request whose kept response has no body is accepted and never answered: no transfer is started, and
  no thread will call the client.\<close>

theorem empty_response_never_answered:
  assumes "getCacheData (URL (requests n r)) (fst (networkCache n)) = Some x" and "responseBuffer (responses n x) = None"
  shows "\<exists>n'. sendRequest r init hs d n = Some (True, n') \<and> multi n' = multi n \<and> cacheProviders n' = cacheProviders n \<and>
    handle (requests n' r) = handle (requests n r)"
  using assms by (simp add: sendRequest_def Let_def)

text \<open>A response without \<open>Cache-Control\<close> is kept until half an hour after 1970 began: the clean-up that
  keeping it starts removes it at once.\<close>

theorem undated_response_expires_at_once:
  assumes "networkCache n = (new_cache, None)" and "map_of (headerBuffer (response_of n r)) ''Cache-Control'' = None"
    and "1800000 \<le> now" and "now \<le> later" and "store_response now r n = Some n1"
  shows "\<exists>s' n2. net_step cl (s, n1) (ExpiryTask later n2') = Some (s', n2) \<and> cacheMap (fst (networkCache n2)) = []"
proof -
  let ?x = "(response_of n r)\<lparr>cacheExpiryTime := 1800000\<rparr>"
  have sc: "shouldCacheData now (response_of n r) = Some (True, ?x)"
    using assms(2) by (simp add: shouldCacheData_def DEFAULT_MAX_CACHE_EXPIRY_TIME_def)
  show ?thesis
  proof (cases "needEvict (of_nat (contentSize ?x + headerBufferSize ?x)) (new_cache :: (string, nat) cache)")
    case True
    with assms(1,5) sc have "networkCache n1 = (new_cache, None)" by (auto simp: store_response_def Let_def)
    then show ?thesis by (simp add: update_cache_def timer_thread_task_def new_cache_def)
  next
    case False
    have "timer_start (new_timer (1800000 - now) False True) = post RunTimeout (new_timer (1800000 - now) False True)"
      using assms(3) by (simp add: timer_start_def new_timer_def)
    with False assms(1,5) sc have n1: "networkCache n1 =
        (\<lparr>cacheMap = [(URL (requests n r), curlResponse (requests n r), 1800000)], scheduleTimeExpiry = 1800000, overallCurrentSize = 0\<rparr>,
         Some (post RunTimeout (new_timer (1800000 - now) False True)))"
      by (auto simp: store_response_def Let_def isAvailableInCache_def new_cache_def setCache_def arm_timer_def Timer_def)
    have "1800000 \<le> later" using assms(3,4) by simp
    with n1 show ?thesis
      by (simp add: update_cache_def timer_thread_task_def post_def new_timer_def scheduleTimerTimeout_def expiryTimerCallback_def
          expire_def expiry_def Let_def)
  qed
qed

text \<open>A request aborted while the thread handles its end: the thread goes on with the freed handle.\<close>

theorem abort_during_completion_faults:
  assumes "has_handle n r h" and "abortRequest r n = Some (b, n')"
  shows "complete_request cl now mok err h res late (s, n') = None"
  using assms
  by (auto simp: has_handle_def abortRequest_def complete_request_def private_request_def put_handle_def split: if_splits)

text \<open>A POST request without a body is sent with the options of no method at all, which libcurl takes for a
  GET, and without anybody to take its response.\<close>

theorem post_without_body_is_no_post:
  assumes "getCacheData (URL (requests n r)) (fst (networkCache n)) = None" and "rq_method (requests n r) = ''POST''"
  shows "\<exists>n' e. sendRequest r True hs NoData n = Some (True, n') \<and> easy n' (next_easy n) = Some e \<and> next_easy n \<in> set (multi n') \<and>
    eh_post e = None \<and> \<not> eh_writes e"
  using assms
  by (auto simp: sendRequest_def easy_options_def setHeaders_def put_handle_def Let_def split: option.splits)

section \<open>Examples\<close>

fun allowed_run :: "'s client \<Rightarrow> 's \<times> net \<Rightarrow> net_event list \<Rightarrow> bool" where
  "allowed_run cl st [] = True"
| "allowed_run cl st (e # es) =
     (net_allowed cl st e \<and> (case net_step cl st e of None \<Rightarrow> False | Some st' \<Rightarrow> allowed_run cl st' es))"

lemma allowed_run_reach:
  "net_reach cl s0 st \<Longrightarrow> allowed_run cl st es \<Longrightarrow> \<exists>st'. run_opt (net_step cl) st es = Some st' \<and> net_reach cl s0 st'"
proof (induction es arbitrary: st)
  case Nil
  then show ?case by simp
next
  case (Cons e es)
  from Cons.prems(2) obtain st1 where s: "net_allowed cl st e" "net_step cl st e = Some st1" "allowed_run cl st1 es"
    by (auto split: option.splits)
  from Cons.IH [OF net_next [OF Cons.prems(1) s(1,2)] s(3)] s(2) show ?case by simp
qed

definition sample_client :: "bool \<Rightarrow> unit client" where
  "sample_client drops = \<lparr>cl_header = (\<lambda>_ _ x s. Some (s, x)), cl_progress = (\<lambda>_ _ x s. Some (s, x)), cl_completion = (\<lambda>_ _ _ s. Some (s, drops))\<rparr>"

definition sample_request :: curl_request where
  "sample_request = \<lparr>handle = None, URL = ''http://a/'', rq_timeout = 0, rq_method = ''GET'', headerCb = False, progressCb = False,
     completionCb = True, curlResponse = 0\<rparr>"

lemmas net_eval = make_request_def sendRequest_def easy_options_def setHeaders_def put_handle_def next_message_def idle_def alive_def
  new_net_def sample_request_def getCacheData_def new_cache_def

lemma sample_transfer:
  "\<exists>n. net_reach (sample_client True) () ((), n) \<and> net_worker n = Got 0 CURLE_OTHER 0 \<and> 0 \<in> set (multi n) \<and>
     net_step (sample_client True) ((), n) (Completed 0 True '''' CURLE_OTHER) = None"
proof -
  let ?es = "[Make sample_request, Send 0 True None NoData, Wake, Performed [(0, CURLE_OTHER)] 0, ReadMessage]"
  have a: "allowed_run (sample_client True) ((), new_net) ?es" by (simp add: net_eval Let_def)
  obtain n where n: "run_opt (net_step (sample_client True)) ((), new_net) ?es = Some ((), n)" "net_reach (sample_client True) () ((), n)"
    using allowed_run_reach [OF net_init a] by auto
  from n(1) have "net_worker n = Got 0 CURLE_OTHER 0 \<and> 0 \<in> set (multi n) \<and> net_step (sample_client True) ((), n) (Completed 0 True '''' CURLE_OTHER) = None"
    by (auto simp: net_eval Let_def complete_request_def private_request_def call_completion_def put_response_def sample_client_def
        drop_owner_def)
  with n(2) show ?thesis by blast
qed

lemma no_transfer_forgotten_witness:
  "\<exists>n. net_reach (sample_client True) () ((), n) \<and> 0 \<in> set (multi n) \<and>
    (0 \<in> fst ` set (messages n) \<or> (\<exists>res k. net_worker n = Got 0 res k) \<or> 0 < networkRequestSem n \<or>
     net_worker n = Performing \<or> (\<exists>k > 0. net_worker n = Reading k \<or> (\<exists>h' res. net_worker n = Got h' res k)))"
proof -
  obtain n where n: "net_reach (sample_client True) () ((), n)" "0 \<in> set (multi n)" using sample_transfer by blast
  from no_transfer_forgotten [OF n] n show ?thesis by blast
qed

lemma network_thread_faults_witness:
  "\<exists>n h res k r x. net_reach (sample_client True) () ((), n) \<and> net_worker n = Got h res k \<and>
     (private_request n h = None \<or> private_request n h = Some r \<and> rq_owners n r = 1 \<and>
        (\<exists>t s'. cl_completion (sample_client True) t r x () = Some (s', True))) \<and>
     net_step (sample_client True) ((), n) (Completed 0 True '''' CURLE_OTHER) = None"
proof -
  obtain n where n: "net_reach (sample_client True) () ((), n)" "net_worker n = Got 0 CURLE_OTHER 0"
      "net_step (sample_client True) ((), n) (Completed 0 True '''' CURLE_OTHER) = None"
    using sample_transfer by blast
  let ?e = "Completed 0 True '''' CURLE_OTHER"
  have "net_allowed (sample_client True) ((), n) ?e"
    using n(2) by (simp add: sample_client_def final_response_def)
  from network_thread_faults [OF n(1) this n(3)] n show ?thesis by blast
qed
end
