(* ===== verification/NetworkModule.thy ===== *)
theory NetworkModule imports Network "HOL-Library.Word" begin

text \<open>
  The native module behind JavaScript's \<open>XMLHttpRequest\<close> (\<open>modules/platform/libcurl/RSkNetworkingModule.cpp\<close>)
  on top of the network thread: it makes the requests, keeps its own \<open>NetworkRequest\<close> for each, and sends the
  events. It is the client of \<open>Network\<close>: its callbacks are \<open>module_client\<close>.

  A \<open>NetworkRequest\<close> gets the number of its \<open>CurlRequest\<close>; one that is deleted is \<open>None\<close> and must not be
  used. \<open>sendRequest\<close> of the module is two steps, up to the return of \<open>CurlNetworking::sendRequest\<close> and the
  rest: the network thread may run in between.
\<close>

section \<open>State\<close>

record network_request =
  requestId :: int
  useIncrementalUpdates :: bool
  responseType :: string
  uploadComplete :: bool
  downloadComplete :: bool

datatype network_event =
  DidReceiveNetworkResponse int int "(string \<times> string) list" string
| DidSendNetworkData int scalar scalar
| DidReceiveNetworkIncrementalData int string scalar scalar
| DidReceiveNetworkDataProgress int scalar scalar
| DidReceiveNetworkData int string
| DidCompleteNetworkResponse int string bool

text \<open>
  A null pointer in the connection list is \<open>Some None\<close>. \<open>sending\<close> is the request that \<open>sendRequest\<close> of the
  module is about to register; it has a pointer to it.
\<close>

record net_module =
  network_requests :: "nat \<Rightarrow> network_request option"
  connectionList :: "int \<Rightarrow> nat option option"
  next_id :: "64 word"
  sending :: "nat option"
  network_events :: "network_event list"

definition new_module :: net_module where
  "new_module = \<lparr>network_requests = (\<lambda>_. None), connectionList = (\<lambda>_. None), next_id = 1, sending = None, network_events = []\<rparr>"

definition sendEvent :: "network_event \<Rightarrow> net_module \<Rightarrow> net_module" where
  "sendEvent e s = s\<lparr>network_events := network_events s @ [e]\<rparr>"

definition nextUniqueId :: "64 word \<Rightarrow> 64 word \<times> 64 word" where
  "nextUniqueId w = (if w = 0 then (1, 2) else (w, w + 1))"

section \<open>The callbacks\<close>

text \<open>The event gets a \<open>std::string\<close> made from the address of the response, which must not be null.\<close>

definition headerCallbackWrapper :: "nat \<Rightarrow> curl_response \<Rightarrow> net_module \<Rightarrow> net_module option" where
  "headerCallbackWrapper r x s =
     do { q \<leftarrow> network_requests s r;
          url \<leftarrow> responseurl x;
          Some (sendEvent (DidReceiveNetworkResponse (requestId q) (statusCode x) (headerBuffer x) url) s) }"

definition put_request :: "nat \<Rightarrow> network_request option \<Rightarrow> net_module \<Rightarrow> net_module" where
  "put_request r q s = s\<lparr>network_requests := (network_requests s)(r := q)\<rparr>"

text \<open>The upload part and the download part; sending a piece of text starts the buffer anew.\<close>

definition upload_progress :: "nat \<Rightarrow> network_request \<Rightarrow> scalar \<Rightarrow> scalar \<Rightarrow> net_module \<Rightarrow> net_module" where
  "upload_progress r q ultotal ulnow s =
     (if \<not> uploadComplete q \<and> ultotal \<noteq> 0
      then put_request r (Some (if ultotal \<le> ulnow then q\<lparr>uploadComplete := True\<rparr> else q))
             (sendEvent (DidSendNetworkData (requestId q) ulnow ultotal) s)
      else s)"

definition download_progress ::
  "network_request \<Rightarrow> scalar \<Rightarrow> scalar \<Rightarrow> curl_response \<Rightarrow> net_module \<Rightarrow> (net_module \<times> curl_response) option" where
  "download_progress q dltotal dlnow x s =
     (if \<not> downloadComplete q \<and> dlnow \<noteq> 0 \<and> useIncrementalUpdates q
      then (if responseType q = ''text'' \<and> responseBufferOffset x \<noteq> 0
            then do { b \<leftarrow> responseBuffer x;
                      Some (sendEvent (DidReceiveNetworkIncrementalData (requestId q) (c_str b) dlnow dltotal) s,
                            x\<lparr>responseBufferOffset := 0\<rparr>) }
            else Some (sendEvent (DidReceiveNetworkDataProgress (requestId q) dlnow dltotal) s, x))
      else Some (s, x))"

definition sendProgressEventwrapper ::
  "nat \<Rightarrow> scalar \<times> scalar \<times> scalar \<times> scalar \<Rightarrow> curl_response \<Rightarrow> net_module \<Rightarrow> (net_module \<times> curl_response) option" where
  "sendProgressEventwrapper r nums x s =
     (case nums of (dltotal, dlnow, ultotal, ulnow) \<Rightarrow>
        do { q \<leftarrow> network_requests s r;
             download_progress q dltotal dlnow x (upload_progress r q ultotal ulnow s) })"

text \<open>
  The whole response. For \<open>base64\<close> the buffer stays null, and making the event's string of it throws in
  the network thread.
\<close>

definition sendData :: "curl_response \<Rightarrow> network_request \<Rightarrow> net_module \<Rightarrow> net_module option" where
  "sendData x q s =
     (case responseBuffer x of
        None \<Rightarrow> Some s
      | Some b \<Rightarrow>
          if contentSize x = 0 then Some s
          else if responseType q = ''text'' then Some (sendEvent (DidReceiveNetworkData (requestId q) (c_str b)) s)
          else if responseType q = ''base64'' then None
          else Some s)"

text \<open>The \<open>NetworkRequest\<close> is deleted, and with it its pointer to the \<open>CurlRequest\<close>: the callback answers true.\<close>

definition completionCallback :: "nat \<Rightarrow> curl_response \<Rightarrow> net_module \<Rightarrow> (net_module \<times> bool) option" where
  "completionCallback r x s =
     do { q \<leftarrow> network_requests s r;
          let q1 = q\<lparr>downloadComplete := True\<rparr>;
          s1 \<leftarrow> (if useIncrementalUpdates q1 \<and> responseType q1 = ''text'' then Some s else sendData x q1 s);
          let s2 = sendEvent (DidCompleteNetworkResponse (requestId q1) (errorResult x) (responseTimeout x)) s1;
          Some (s2\<lparr>network_requests := (network_requests s2)(r := None),
                   connectionList := (connectionList s2)(requestId q1 := None)\<rparr>, True) }"

definition module_client :: "net_module client" where
  "module_client = \<lparr>cl_header = (\<lambda>_ r x s. map_option (\<lambda>s. (s, x)) (headerCallbackWrapper r x s)),
     cl_progress = sendProgressEventwrapper, cl_completion = (\<lambda>_. completionCallback)\<rparr>"

section \<open>What JavaScript calls\<close>

record js_query =
  js_method :: string
  js_url :: string
  js_responseType :: string
  js_incremental :: bool
  js_timeout :: nat
  js_headers :: "(string \<times> string) list option"
  js_data :: post_data

definition js_request :: "js_query \<Rightarrow> curl_request" where
  "js_request q = \<lparr>handle = None, URL = js_url q, rq_timeout = js_timeout q, rq_method = js_method q, headerCb = True,
     progressCb = True, completionCb = True, curlResponse = 0\<rparr>"

definition own_request :: "nat \<Rightarrow> net \<Rightarrow> net" where
  "own_request r n = n\<lparr>rq_owners := (rq_owners n)(r := rq_owners n r + 1)\<rparr>"

text \<open>\<open>sendRequest\<close> until the network layer returned; when it refused, all is given up.\<close>

definition js_sendRequest :: "js_query \<Rightarrow> bool \<Rightarrow> net_module \<times> net \<Rightarrow> (net_module \<times> net) option" where
  "js_sendRequest q easy_init st =
     (let s = fst st; r = next_request (snd st); (w, w') = nextUniqueId (next_id s);
          nq = \<lparr>requestId = sint (ucast w :: 32 word), useIncrementalUpdates = js_incremental q, responseType = js_responseType q,
                uploadComplete = False, downloadComplete = False\<rparr>;
          s1 = (put_request r (Some nq) s)\<lparr>next_id := w'\<rparr>;
          n1 = own_request r (make_request (js_request q) (snd st))
      in do { (accepted, n2) \<leftarrow> sendRequest r easy_init (js_headers q) (js_data q) n1;
              Some (if accepted then (s1\<lparr>sending := Some r\<rparr>, n2) else (put_request r None s1, drop_owner r (drop_owner r n2))) })"

text \<open>The rest of it: the request is registered, and the local pointer goes.\<close>

definition js_registerRequest :: "net_module \<times> net \<Rightarrow> (net_module \<times> net) option" where
  "js_registerRequest st =
     (case sending (fst st) of
        None \<Rightarrow> Some st
      | Some r \<Rightarrow>
          do { q \<leftarrow> network_requests (fst st) r;
               Some ((fst st)\<lparr>connectionList := (connectionList (fst st))(requestId q \<mapsto> Some r), sending := None\<rparr>,
                     drop_owner r (snd st)) })"

text \<open>Looking an id up that is not there puts a null pointer there. The result is the status.\<close>

definition js_abortRequest :: "int \<Rightarrow> net_module \<times> net \<Rightarrow> (int \<times> net_module \<times> net) option" where
  "js_abortRequest i st =
     (case connectionList (fst st) i of
        Some (Some r) \<Rightarrow>
          do { q \<leftarrow> network_requests (fst st) r;
               (aborted, n) \<leftarrow> abortRequest r (snd st);
               Some (0, if aborted then (fst st)\<lparr>connectionList := (connectionList (fst st))(requestId q := None)\<rparr> else fst st, n) }
      | _ \<Rightarrow> Some (- 1, (fst st)\<lparr>connectionList := (connectionList (fst st))(i \<mapsto> None)\<rparr>, snd st))"

section \<open>Steps\<close>

datatype module_event = JsSend js_query bool | JsRegister | JsAbort int | Thread net_event

fun module_step :: "net_module \<times> net \<Rightarrow> module_event \<Rightarrow> (net_module \<times> net) option" where
  "module_step st (JsSend q init) = js_sendRequest q init st"
| "module_step st JsRegister = js_registerRequest st"
| "module_step st (JsAbort i) = map_option snd (js_abortRequest i st)"
| "module_step st (Thread e) = net_step module_client st e"


section \<open>What the network thread leaves of a request\<close>

lemma store_frame:
  assumes "store_response now r n = Some n'"
  shows "\<exists>k x. shouldCacheData now (response_of n r) = Some (k, x) \<and> responses n' = responses (put_response r x n) \<and>
    requests n' = requests n \<and> rq_owners n' = rq_owners n \<and> easy n' = easy n \<and> multi n' = multi n \<and>
    cacheProviders n' = cacheProviders n"
proof -
  obtain k x where x: "shouldCacheData now (response_of n r) = Some (k, x)"
    using assms by (cases "shouldCacheData now (response_of n r)") (auto simp: store_response_def)
  then have "n' = put_response r x n \<or> (\<exists>c. n' = (put_response r x n)\<lparr>networkCache := c\<rparr>)"
    using assms by (auto simp: store_response_def Let_def split: if_splits bind_splits)
  with x show ?thesis by auto
qed

lemma completion_frame:
  assumes "call_completion cl now r (s, n) = Some (s', n')" and "completionCb (requests n r)"
  shows "\<exists>d. cl_completion cl now r (response_of n r) s = Some (s', d) \<and> n' = (if d then drop_owner r n else n)"
proof -
  obtain s1 d where c: "cl_completion cl now r (response_of n r) s = Some (s1, d)"
    using assms by (cases "cl_completion cl now r (response_of n r) s") (auto simp: call_completion_def)
  with assms have "s1 = s'" "n' = (if d then drop_owner r n else n)" by (auto simp: call_completion_def)
  with c show ?thesis by blast
qed

lemma complete_frame:
  assumes c: "complete_request cl now mok err h res late (s, n) = Some (s', n')" and r: "private_request n h = Some r"
    and cb: "completionCb (requests n r)"
  shows "\<exists>y d. final_response now mok err res late (response_of n r) = Some y \<and> cl_completion cl now r y s = Some (s', d) \<and>
    responses n' = responses (put_response r y n) \<and> requests n' = (requests n)(r := (requests n r)\<lparr>handle := None\<rparr>) \<and>
    rq_owners n' = (if d then (rq_owners n)(r := rq_owners n r - 1) else rq_owners n) \<and> cacheProviders n' = cacheProviders n \<and>
    0 < rq_owners n' r"
proof -
  let ?n1 = "(put_response r (record_result mok err res (response_of n r)) n)\<lparr>multi := remove1 h (multi n)\<rparr>"
  obtain n2 n3 where n2: "(if late = CURLE_OK then store_response now r ?n1 else Some ?n1) = Some n2"
      and n3: "call_completion cl now r (s, n2) = Some (s', n3)" and n': "alive n3 r"
        "n' = put_handle r None (n3\<lparr>easy := (easy n3)(h := None)\<rparr>)"
    using c r by (auto simp: complete_request_def Let_def split: bind_splits if_splits)
  have r1: "response_of ?n1 r = record_result mok err res (response_of n r)" by (simp add: response_of_def put_response_def)
  have "\<exists>y. final_response now mok err res late (response_of n r) = Some y \<and> responses n2 = responses (put_response r y n) \<and>
      requests n2 = requests n \<and> rq_owners n2 = rq_owners n \<and> cacheProviders n2 = cacheProviders n"
  proof (cases "late = CURLE_OK")
    case True
    with n2 have "store_response now r ?n1 = Some n2" by simp
    from store_frame [OF this] True r1 show ?thesis by (auto simp: final_response_def put_response_def)
  next
    case False
    with n2 have "n2 = ?n1" by simp
    with False show ?thesis by (simp add: final_response_def)
  qed
  then obtain y where y: "final_response now mok err res late (response_of n r) = Some y" "responses n2 = responses (put_response r y n)"
    and f: "requests n2 = requests n \<and> rq_owners n2 = rq_owners n \<and> cacheProviders n2 = cacheProviders n" by blast
  have "response_of n2 r = y" using y(2) f by (simp add: response_of_def put_response_def)
  then obtain d where d: "cl_completion cl now r y s = Some (s', d)" "n3 = (if d then drop_owner r n2 else n2)"
    using completion_frame [OF n3] cb f by auto
  have g: "requests n3 = requests n" "rq_owners n3 = (if d then (rq_owners n)(r := rq_owners n r - 1) else rq_owners n)"
      "cacheProviders n3 = cacheProviders n" "responses n3 = responses (put_response r y n)"
    using d(2) f y(2) by (auto simp: drop_owner_def)
  have "requests n' = (requests n)(r := (requests n r)\<lparr>handle := None\<rparr>)" "rq_owners n' = rq_owners n3"
      "cacheProviders n' = cacheProviders n3" "responses n' = responses n3"
    using n'(2) g(1) by (simp_all add: put_handle_def)
  moreover have "0 < rq_owners n3 r" using n'(1) by (simp add: alive_def)
  ultimately show ?thesis using d(1) g(2-4) y(1) by metis
qed

lemma provider_frame:
  assumes c: "sendResponseCacheData cl now r (s, n) = Some (s', n')" and cb: "headerCb (requests n r)" "completionCb (requests n r)"
  shows "\<exists>s1 y d. cl_header cl now r (response_of n r) s = Some (s1, y) \<and> cl_completion cl now r y s1 = Some (s', d) \<and>
    requests n' = requests n \<and> cacheProviders n' = remove1 r (cacheProviders n) \<and> responses n' = responses (put_response r y n) \<and>
    rq_owners n' = (rq_owners n)(r := rq_owners n r - (if d then 2 else 1))"
proof -
  obtain s1 y where h: "cl_header cl now r (response_of n r) s = Some (s1, y)"
    using c cb by (auto simp: sendResponseCacheData_def split: bind_splits)
  obtain n1 where n1: "call_completion cl now r (s1, put_response r y n) = Some (s', n1)"
      "n' = drop_owner r (n1\<lparr>cacheProviders := remove1 r (cacheProviders n1)\<rparr>)"
    using c cb h by (auto simp: sendResponseCacheData_def split: bind_splits)
  obtain d where d: "cl_completion cl now r (response_of (put_response r y n) r) s1 = Some (s', d)"
      "n1 = (if d then drop_owner r (put_response r y n) else put_response r y n)"
    using completion_frame [OF n1(1)] cb by auto
  have "response_of (put_response r y n) r = y" by (simp add: response_of_def put_response_def)
  with d h n1(2) show ?thesis by (auto simp: drop_owner_def numeral_2_eq_2)
qed

section \<open>Who owns a request\<close>

definition held :: "net_module \<Rightarrow> net \<Rightarrow> nat \<Rightarrow> nat" where
  "held s n r = of_bool (network_requests s r \<noteq> None) + of_bool (sending s = Some r) + of_bool (r \<in> set (cacheProviders n))"

definition registered_ok :: "net_module \<Rightarrow> bool" where
  "registered_ok s \<longleftrightarrow> (\<forall>i r. connectionList s i = Some (Some r) \<longrightarrow> map_option requestId (network_requests s r) = Some i)"

definition needed_ok :: "net_module \<Rightarrow> net \<Rightarrow> bool" where
  "needed_ok s n \<longleftrightarrow> (\<forall>r. alive n r \<longrightarrow> handle (requests n r) \<noteq> None \<or> r \<in> set (cacheProviders n) \<longrightarrow> network_requests s r \<noteq> None)"

definition callbacks_set :: "net \<Rightarrow> nat \<Rightarrow> bool" where
  "callbacks_set n r \<longleftrightarrow> headerCb (requests n r) \<and> completionCb (requests n r)"

text \<open>The responses: what has an offset has a buffer.\<close>

definition buffer_ok :: "curl_response \<Rightarrow> bool" where
  "buffer_ok x \<longleftrightarrow> (responseBufferOffset x = 0 \<or> responseBuffer x \<noteq> None)"

definition module_ok :: "net_module \<times> net \<Rightarrow> bool" where
  "module_ok st \<longleftrightarrow>
     (case st of (s, n) \<Rightarrow>
        net_ok n \<and> (\<forall>r. rq_owners n r = held s n r) \<and> registered_ok s \<and> needed_ok s n \<and>
        (\<forall>r. network_requests s r \<noteq> None \<longrightarrow> callbacks_set n r) \<and> (\<forall>i. buffer_ok (responses n i)))"

text \<open>Steps that leave the ownership alone.\<close>

definition same_requests :: "net_module \<times> net \<Rightarrow> net_module \<times> net \<Rightarrow> bool" where
  "same_requests st st' \<longleftrightarrow>
     (\<forall>r. map_option requestId (network_requests (fst st') r) = map_option requestId (network_requests (fst st) r)) \<and>
     sending (fst st') = sending (fst st) \<and> connectionList (fst st') = connectionList (fst st) \<and>
     rq_owners (snd st') = rq_owners (snd st) \<and> requests (snd st') = requests (snd st) \<and>
     cacheProviders (snd st') = cacheProviders (snd st)"

lemma same_requests_ok:
  assumes ok: "module_ok (s, n)" and same: "same_requests (s, n) (s', n')" and net: "net_ok n'" and b: "\<forall>i. buffer_ok (responses n' i)"
  shows "module_ok (s', n')"
proof -
  have "map_option requestId (network_requests s' r) = map_option requestId (network_requests s r)" for r
    using same by (simp add: same_requests_def)
  then have N: "network_requests s' r = None \<longleftrightarrow> network_requests s r = None" for r by (metis option.map_disc_iff)
  have "held s' n' = held s n" "registered_ok s' = registered_ok s" "needed_ok s' n' = needed_ok s n"
    using same N by (auto simp: held_def registered_ok_def needed_ok_def same_requests_def alive_def fun_eq_iff)
  moreover have "\<forall>r. network_requests s' r \<noteq> None \<longrightarrow> callbacks_set n' r"
    using ok same N by (simp add: module_ok_def same_requests_def callbacks_set_def)
  moreover have "rq_owners n' = rq_owners n" using same by (simp add: same_requests_def)
  ultimately show ?thesis using ok net b by (simp add: module_ok_def)
qed

lemma sendEvent_simps [simp]:
  "network_requests (sendEvent e s) = network_requests s" "connectionList (sendEvent e s) = connectionList s"
  "sending (sendEvent e s) = sending s" "next_id (sendEvent e s) = next_id s"
  by (simp_all add: sendEvent_def)

lemma put_request_simps [simp]:
  "network_requests (put_request r q s) = (network_requests s)(r := q)" "connectionList (put_request r q s) = connectionList s"
  "sending (put_request r q s) = sending s" "next_id (put_request r q s) = next_id s"
  by (simp_all add: put_request_def)

lemma headerCallback_frame:
  "responseBuffer (fst (headerCallback url code l x)) = responseBuffer x"
  "responseBufferOffset (fst (headerCallback url code l x)) = responseBufferOffset x"
  by (simp_all add: headerCallback_def Let_def split: option.split prod.split)

lemma shouldCacheData_frame:
  assumes "shouldCacheData now x = Some (k, y)"
  shows "\<exists>e. y = x\<lparr>cacheExpiryTime := e\<rparr>"
proof -
  note split = option.splits if_splits prod.splits
  show ?thesis
    using assms unfolding shouldCacheData_def Let_def
    by (cases "map_of (headerBuffer x) ''Cache-Control''") (auto split: split simp del: max_age_token.simps)
qed

lemma buffer_ok_updates:
  "buffer_ok (new_response a b)" "buffer_ok (writeCallback url c x)"
  "buffer_ok x \<Longrightarrow> buffer_ok (fst (headerCallback url code l x))" "buffer_ok x \<Longrightarrow> buffer_ok (record_result ok err res x)"
  by (simp_all add: buffer_ok_def new_response_def writeCallback_def headerCallback_frame record_result_def Let_def)

lemma buffer_ok_kept: "buffer_ok x \<Longrightarrow> shouldCacheData now x = Some (k, y) \<Longrightarrow> buffer_ok y"
  by (drule shouldCacheData_frame) (auto simp: buffer_ok_def)

lemma put_response_buffers: "\<forall>i. buffer_ok (responses n i) \<Longrightarrow> buffer_ok x \<Longrightarrow> \<forall>i. buffer_ok (responses (put_response r x n) i)"
  by (simp add: put_response_def)


section \<open>Steps of the network thread that leave the requests alone\<close>

lemma header_frame:
  assumes "headerCallbackWrapper r x s = Some s'"
  shows "network_requests s' = network_requests s \<and> sending s' = sending s \<and> connectionList s' = connectionList s"
proof -
  obtain q url where "network_requests s r = Some q" "responseurl x = Some url"
    using assms by (cases "network_requests s r"; cases "responseurl x") (auto simp: headerCallbackWrapper_def)
  with assms show ?thesis by (auto simp: headerCallbackWrapper_def)
qed

lemma upload_frame:
  assumes "network_requests s r = Some q"
  shows "map_option requestId (network_requests (upload_progress r q a b s) r') = map_option requestId (network_requests s r')"
    "sending (upload_progress r q a b s) = sending s" "connectionList (upload_progress r q a b s) = connectionList s"
  using assms by (auto simp: upload_progress_def)

lemma download_frame:
  assumes "buffer_ok x"
  shows "\<exists>s' y. download_progress q a b x s = Some (s', y) \<and> buffer_ok y \<and> network_requests s' = network_requests s \<and>
    sending s' = sending s \<and> connectionList s' = connectionList s"
  using assms by (cases "responseBuffer x") (auto simp: download_progress_def buffer_ok_def)

lemma progress_frame:
  assumes "network_requests s r = Some q" and "buffer_ok x"
  shows "\<exists>s' y. sendProgressEventwrapper r nums x s = Some (s', y) \<and> buffer_ok y \<and>
    (\<forall>r'. map_option requestId (network_requests s' r') = map_option requestId (network_requests s r')) \<and>
    sending s' = sending s \<and> connectionList s' = connectionList s"
proof -
  obtain dt dl ut ul where nums: "nums = (dt, dl, ut, ul)" by (cases nums) auto
  note U = upload_frame [OF assms(1), where a = ut and b = ul]
  from download_frame [OF assms(2), of q dt dl "upload_progress r q ut ul s"] U
  show ?thesis by (auto simp: sendProgressEventwrapper_def nums assms(1))
qed

lemma module_okD:
  assumes "module_ok (s, n)"
  shows "net_ok n" "rq_owners n r = held s n r" "registered_ok s" "needed_ok s n"
    "network_requests s r \<noteq> None \<Longrightarrow> callbacks_set n r" "buffer_ok (responses n i)" "\<forall>i. buffer_ok (responses n i)"
  using assms by (auto simp: module_ok_def)

lemma transfer_request:
  assumes ok: "module_ok (s, n)" and h: "h \<in> set (multi n)"
  shows "\<exists>r q. private_request n h = Some r \<and> has_handle n r h \<and> network_requests s r = Some q \<and> callbacks_set n r"
proof -
  note D = module_okD [OF ok]
  obtain r where r: "private_request n h = Some r" "has_handle n r h" using private_multi [OF D(1) h] by blast
  have "network_requests s r \<noteq> None" using D(4) r(2) by (auto simp: needed_ok_def has_handle_def)
  with r D(5) show ?thesis by blast
qed

definition quiet :: "net_event \<Rightarrow> bool" where
  "quiet e \<longleftrightarrow> (case e of Wake \<Rightarrow> True | Performed dn k \<Rightarrow> True | ReadMessage \<Rightarrow> True | HeaderLine now h url code line \<Rightarrow> True
     | BodyPiece h url c \<Rightarrow> True | Progressed h nums \<Rightarrow> True | ExpiryTask a b \<Rightarrow> True | ExpiryWheel a b \<Rightarrow> True | _ \<Rightarrow> False)"

lemma next_message_frame [simp]:
  "rq_owners (next_message n) = rq_owners n" "requests (next_message n) = requests n"
  "cacheProviders (next_message n) = cacheProviders n" "responses (next_message n) = responses n"
  by (simp_all add: next_message_def split: worker.split list.split prod.split)

lemma update_cache_frame: "update_cache n c = Some n' \<Longrightarrow> \<exists>c. n' = n\<lparr>networkCache := c\<rparr>"
  by (auto simp: update_cache_def)

lemma put_response_frame: "same_requests (s, n) (s', n') \<Longrightarrow> same_requests (s, n) (s', put_response r x n')"
  by (simp add: same_requests_def)

lemma quiet_frame:
  assumes ok: "module_ok (s, n)" and e: "quiet e" and c: "net_contract n e" and st: "net_step module_client (s, n) e = Some (s', n')"
  shows "same_requests (s, n) (s', n') \<and> (\<forall>i. buffer_ok (responses n' i))"
proof -
  note D = module_okD [OF ok]
  have same: "same_requests (s, n) (s, n)" by (simp add: same_requests_def)
  show ?thesis
  proof (cases e)
    case Wake
    with st D(7) show ?thesis by (auto simp: same_requests_def split: if_splits)
  next
    case (Performed dn k)
    with st D(7) show ?thesis by (auto simp: same_requests_def split: if_splits)
  next
    case ReadMessage
    with st D(7) show ?thesis by (auto simp: same_requests_def)
  next
    case (HeaderLine now h url code line)
    then have "h \<in> set (multi n)" using c by simp
    then obtain r q where r: "private_request n h = Some r" "network_requests s r = Some q"
      using transfer_request [OF ok] by blast
    obtain x b where x: "headerCallback url code line (response_of n r) = (x, b)" by fastforce
    have bx: "buffer_ok x" using buffer_ok_updates(3) [of "response_of n r" url code line] D(6) x by (simp add: response_of_def)
    show ?thesis
    proof (cases b)
      case True
      obtain s1 where s1: "headerCallbackWrapper r x s = Some s1"
        using st HeaderLine r(1) x True by (cases "headerCallbackWrapper r x s") (auto simp: header_line_def module_client_def)
      then have "s' = s1" "n' = put_response r x n"
        using st HeaderLine r(1) x True by (simp_all add: header_line_def module_client_def)
      with header_frame [OF s1] put_response_buffers [OF D(7) bx] show ?thesis by (simp add: same_requests_def)
    next
      case False
      then have "s' = s" "n' = put_response r x n" using st HeaderLine r(1) x by (simp_all add: header_line_def)
      with put_response_buffers [OF D(7) bx] same show ?thesis by (simp add: put_response_frame)
    qed
  next
    case (BodyPiece h url chunk)
    then have "h \<in> set (multi n)" using c by simp
    then obtain r where r: "private_request n h = Some r" using transfer_request [OF ok] by blast
    with st BodyPiece have "s' = s" "n' = put_response r (writeCallback url chunk (response_of n r)) n"
      by (simp_all add: body_piece_def)
    with put_response_buffers [OF D(7) buffer_ok_updates(2)] same show ?thesis by (simp add: put_response_frame)
  next
    case (Progressed h nums)
    then have "h \<in> set (multi n)" using c by simp
    then obtain r q where r: "private_request n h = Some r" "network_requests s r = Some q"
      using transfer_request [OF ok] by blast
    have "buffer_ok (response_of n r)" using D(6) by (simp add: response_of_def)
    from progress_frame [OF r(2) this, of nums] obtain s1 y where y: "sendProgressEventwrapper r nums (response_of n r) s = Some (s1, y)"
        "buffer_ok y" "\<forall>r'. map_option requestId (network_requests s1 r') = map_option requestId (network_requests s r')"
        "sending s1 = sending s" "connectionList s1 = connectionList s" by blast
    with st Progressed r(1) have "s' = s1" "n' = put_response r y n" by (simp_all add: progress_def module_client_def)
    with y(3-5) put_response_buffers [OF D(7) y(2)] show ?thesis by (simp add: same_requests_def)
  next
    case (ExpiryTask a b)
    with st obtain k where "n' = n\<lparr>networkCache := k\<rparr>" "s' = s" using update_cache_frame by fastforce
    with D(7) show ?thesis by (simp add: same_requests_def)
  next
    case (ExpiryWheel a b)
    with st obtain k where "n' = n\<lparr>networkCache := k\<rparr>" "s' = s" using update_cache_frame by fastforce
    with D(7) show ?thesis by (simp add: same_requests_def)
  qed (use e in \<open>simp_all add: quiet_def\<close>)
qed


section \<open>Giving up and taking pointers\<close>

lemma owners_change_ok:
  assumes ok: "net_ok n" and n': "n' = n\<lparr>rq_owners := w\<rparr>"
    and al: "\<And>r'. r' \<noteq> r \<Longrightarrow> 0 < w r' \<longleftrightarrow> alive n r'" and less: "0 < w r \<Longrightarrow> alive n r"
    and free: "0 < w r \<or> r \<notin> set (cacheProviders n) \<and> (\<forall>h. handle (requests n r) = Some h \<longrightarrow> h \<notin> set (multi n))"
  shows "net_ok n'"
proof -
  have alive': "alive n' r' \<longleftrightarrow> 0 < w r'" for r' by (simp add: alive_def n')
  have less': "alive n' r' \<Longrightarrow> alive n r'" for r' using al less by (cases "r' = r") (auto simp: alive')
  have q: "requests n' = requests n" "cacheProviders n' = cacheProviders n" "next_request n' = next_request n" "easy n' = easy n"
      "multi n' = multi n" "next_easy n' = next_easy n"
    by (simp_all add: n')
  have sub: "has_handle n' r' h \<Longrightarrow> has_handle n r' h" for r' h using less' by (simp add: has_handle_def q)
  have "handles_ok n'"
  proof -
    have "\<exists>r'. has_handle n' r' h" if h: "h \<in> set (multi n)" for h
    proof -
      obtain r' where r': "has_handle n r' h" using ok h by (auto simp: net_ok_def handles_ok_def)
      have "r' \<noteq> r \<or> 0 < w r" using free r' h by (auto simp: has_handle_def)
      then have "alive n' r'" using al [of r'] r' unfolding alive' by (auto simp: has_handle_def)
      with r' show ?thesis by (auto simp: has_handle_def q)
    qed
    with ok sub show ?thesis by (auto simp: net_ok_def handles_ok_def q private_of_def)
  qed
  moreover have "owners_ok n'"
  proof -
    have "alive n' r'" if "r' \<in> set (cacheProviders n)" for r'
      using that ok free al [of r'] unfolding alive' by (auto simp: net_ok_def owners_ok_def)
    with ok less' show ?thesis by (simp add: net_ok_def owners_ok_def q)
  qed
  moreover have "messages_ok n' = messages_ok n" "attended_ok n' = attended_ok n"
    by (rule messages_cong attended_cong; simp add: n')+
  ultimately show ?thesis using ok by (simp add: net_ok_def n')
qed

lemma drop_shared_ok: "net_ok n \<Longrightarrow> 2 \<le> rq_owners n r \<Longrightarrow> net_ok (drop_owner r n)"
  by (rule owners_change_ok [where r = r, OF _ drop_owner_def]) (auto simp: alive_def)

lemma drop_unused_ok:
  "net_ok n \<Longrightarrow> r \<notin> set (cacheProviders n) \<Longrightarrow> \<forall>h. handle (requests n r) = Some h \<longrightarrow> h \<notin> set (multi n) \<Longrightarrow> net_ok (drop_owner r n)"
  by (rule owners_change_ok [where r = r, OF _ drop_owner_def]) (auto simp: alive_def)

lemma own_ok: "net_ok n \<Longrightarrow> alive n r \<Longrightarrow> net_ok (own_request r n)"
  by (rule owners_change_ok [where r = r, OF _ own_request_def]) (auto simp: alive_def)

text \<open>What sending leaves of the other requests.\<close>

lemma send_frame:
  assumes s: "sendRequest r init hs d n = Some (acc, n')" and ok: "net_ok n"
  shows "(\<forall>r'. r' \<noteq> r \<longrightarrow> requests n' r' = requests n r')" "callbacks_set n' r' = callbacks_set n r'"
    "responses n' = responses n"
    "(acc \<and> cacheProviders n' = cacheProviders n @ [r] \<and> rq_owners n' = (rq_owners n)(r := rq_owners n r + 1)) \<or>
     (cacheProviders n' = cacheProviders n \<and> rq_owners n' = rq_owners n \<and>
      (\<not> acc \<longrightarrow> requests n' r = requests n r \<or> (\<exists>h. handle (requests n' r) = Some h \<and> h \<notin> set (multi n'))))"
proof -
  have "(\<forall>r'. r' \<noteq> r \<longrightarrow> requests n' r' = requests n r') \<and> callbacks_set n' r' = callbacks_set n r' \<and> responses n' = responses n \<and>
    ((acc \<and> cacheProviders n' = cacheProviders n @ [r] \<and> rq_owners n' = (rq_owners n)(r := rq_owners n r + 1)) \<or>
     (cacheProviders n' = cacheProviders n \<and> rq_owners n' = rq_owners n \<and>
      (\<not> acc \<longrightarrow> requests n' r = requests n r \<or> (\<exists>h. handle (requests n' r) = Some h \<and> h \<notin> set (multi n')))))"
  proof (cases "getCacheData (URL (requests n r)) (fst (networkCache n))")
    case (Some x)
    with s show ?thesis
      by (cases "responseBuffer (responses n x)") (auto simp: sendRequest_def Let_def callbacks_set_def split: if_splits)
  next
    case None
    show ?thesis
    proof (cases init)
      case True
      obtain b e where e: "easy_options r (requests n r) hs d = Some (b, e)"
        using s None True by (cases "easy_options r (requests n r) hs d") (auto simp: sendRequest_def Let_def)
      have new: "next_easy n \<notin> set (multi n)" using multi_bound [OF ok] by blast
      from s None True e show ?thesis
        using new by (cases b) (auto simp: sendRequest_def Let_def put_handle_def callbacks_set_def split: if_splits)
    qed (use s None in \<open>simp add: sendRequest_def Let_def\<close>)
  qed
  then show "(\<forall>r'. r' \<noteq> r \<longrightarrow> requests n' r' = requests n r')" "callbacks_set n' r' = callbacks_set n r'"
    "responses n' = responses n"
    "(acc \<and> cacheProviders n' = cacheProviders n @ [r] \<and> rq_owners n' = (rq_owners n)(r := rq_owners n r + 1)) \<or>
     (cacheProviders n' = cacheProviders n \<and> rq_owners n' = rq_owners n \<and>
      (\<not> acc \<longrightarrow> requests n' r = requests n r \<or> (\<exists>h. handle (requests n' r) = Some h \<and> h \<notin> set (multi n'))))"
    by auto
qed

lemma completionCallback_frame:
  assumes "completionCallback r x s = Some (s', d)"
  shows "\<exists>q. network_requests s r = Some q \<and> d \<and> network_requests s' = (network_requests s)(r := None) \<and> sending s' = sending s \<and>
    connectionList s' = (connectionList s)(requestId q := None)"
proof -
  obtain q where q: "network_requests s r = Some q"
    using assms by (cases "network_requests s r") (auto simp: completionCallback_def)
  let ?q = "q\<lparr>downloadComplete := True\<rparr>"
  let ?s = "if useIncrementalUpdates q \<and> responseType q = ''text'' then Some s else sendData x ?q s"
  have same: "network_requests s1 = network_requests s \<and> sending s1 = sending s \<and> connectionList s1 = connectionList s"
    if "sendData x ?q s = Some s1" for s1
    using that by (auto simp: sendData_def split: option.splits if_splits)
  obtain s1 where s1: "?s = Some s1" using assms q by (cases ?s) (auto simp: completionCallback_def Let_def)
  then have "network_requests s1 = network_requests s \<and> sending s1 = sending s \<and> connectionList s1 = connectionList s"
    using same by (auto split: if_splits)
  moreover from assms q s1 have "d \<and> s' = (let s2 = sendEvent (DidCompleteNetworkResponse (requestId q) (errorResult x) (responseTimeout x)) s1
      in s2\<lparr>network_requests := (network_requests s2)(r := None), connectionList := (connectionList s2)(requestId q := None)\<rparr>)"
    by (auto simp: completionCallback_def Let_def simp del: fun_upd_apply)
  ultimately show ?thesis using q by (auto simp: Let_def)
qed


section \<open>Every step of the module\<close>

text \<open>The network thread's events; the others are the module's own.\<close>

definition thread_event :: "net_event \<Rightarrow> bool" where
  "thread_event e \<longleftrightarrow> (case e of Make q \<Rightarrow> False | Drop r \<Rightarrow> False | Send r init hs d \<Rightarrow> False | Abort r \<Rightarrow> False | _ \<Rightarrow> True)"

text \<open>
  JavaScript's thread does one thing at a time, and libcurl keeps to its documentation.
\<close>

fun module_contract :: "net_module \<times> net \<Rightarrow> module_event \<Rightarrow> bool" where
  "module_contract (s, n) (JsSend q init) \<longleftrightarrow> sending s = None"
| "module_contract (s, n) JsRegister \<longleftrightarrow> True"
| "module_contract (s, n) (JsAbort i) \<longleftrightarrow> sending s = None"
| "module_contract (s, n) (Thread e) \<longleftrightarrow> thread_event e \<and> net_contract n e"

inductive module_reach :: "net_module \<times> net \<Rightarrow> bool" where
  module_init: "module_reach (new_module, new_net)"
| module_next: "module_reach st \<Longrightarrow> module_contract st e \<Longrightarrow> module_step st e = Some st' \<Longrightarrow> module_reach st'"

lemma module_init_ok: "module_ok (new_module, new_net)"
proof -
  have "\<forall>i. buffer_ok (responses new_net i)" using buffer_ok_updates(1) by (simp add: new_net_def)
  moreover have "registered_ok new_module" "needed_ok new_module new_net"
    by (simp_all add: registered_ok_def needed_ok_def new_module_def new_net_def alive_def)
  ultimately show ?thesis
    using new_net_ok by (simp add: module_ok_def held_def new_module_def new_net_def)
qed

text \<open>Where one request loses its \<open>NetworkRequest\<close>.\<close>

lemma finished_ok:
  assumes ok: "module_ok (s, n)" and net: "net_ok n'" and b: "\<forall>i. buffer_ok (responses n' i)"
    and q: "network_requests s r = Some q" and s': "network_requests s' = (network_requests s)(r := None)"
      "sending s' = sending s" "connectionList s' = (connectionList s)(requestId q := None)"
    and others: "\<And>r'. r' \<noteq> r \<Longrightarrow> requests n' r' = requests n r' \<and> rq_owners n' r' = rq_owners n r'"
    and prov: "\<And>r'. r' \<in> set (cacheProviders n') \<longleftrightarrow> r' \<in> set (cacheProviders n) \<and> r' \<noteq> r"
    and r: "handle (requests n' r) = None" "rq_owners n' r = of_bool (sending s = Some r)"
  shows "module_ok (s', n')"
proof -
  note D = module_okD [OF ok]
  have "rq_owners n' r' = held s' n' r'" for r'
    using D(2) [of r'] others [of r'] prov r s' by (cases "r' = r") (simp_all add: held_def)
  moreover have "registered_ok s'"
    unfolding registered_ok_def
  proof (intro allI impI)
    fix i r'
    assume c: "connectionList s' i = Some (Some r')"
    then have i: "i \<noteq> requestId q" "connectionList s i = Some (Some r')" using s'(3) by (auto split: if_splits)
    then have "map_option requestId (network_requests s r') = Some i" using D(3) by (simp add: registered_ok_def)
    moreover have "r' \<noteq> r" using calculation i(1) q by auto
    ultimately show "map_option requestId (network_requests s' r') = Some i" by (simp add: s'(1))
  qed
  moreover have "needed_ok s' n'"
    unfolding needed_ok_def
  proof (intro allI impI)
    fix r'
    assume a: "alive n' r'" "handle (requests n' r') \<noteq> None \<or> r' \<in> set (cacheProviders n')"
    then have ne: "r' \<noteq> r" using r(1) prov [of r'] by (cases "r' = r") simp_all
    with a others [OF ne] prov [of r'] have "alive n r'" "handle (requests n r') \<noteq> None \<or> r' \<in> set (cacheProviders n)"
      by (auto simp: alive_def)
    with D(4) have "network_requests s r' \<noteq> None" unfolding needed_ok_def by blast
    with ne s'(1) show "network_requests s' r' \<noteq> None" by simp
  qed
  moreover have "network_requests s' r' \<noteq> None \<longrightarrow> callbacks_set n' r'" for r'
    using D(5) [of r'] others [of r'] s'(1) by (cases "r' = r") (simp_all add: callbacks_set_def)
  ultimately show ?thesis using net b by (simp add: module_ok_def)
qed

lemma thread_ok:
  assumes ok: "module_ok (s, n)" and e: "thread_event e" and c: "net_contract n e"
    and st: "net_step module_client (s, n) e = Some (s', n')"
  shows "module_ok (s', n')"
proof -
  note D = module_okD [OF ok]
  have net: "net_ok n'" if "callbacks_fine module_client (s, n) e"
    using net_step_ok [OF D(1), of module_client s e] that c st by auto
  show ?thesis
  proof (cases "quiet e")
    case True
    note F = quiet_frame [OF ok True c st]
    have "callbacks_fine module_client (s, n) e"
    proof (cases e)
      case (HeaderLine now h url code line)
      have run: "header_line module_client now h url code line (s, n) \<noteq> None" using st HeaderLine by simp
      show ?thesis
        unfolding HeaderLine callbacks_fine.simps
      proof (intro allI impI)
        fix r assume r: "private_request n h = Some r" "snd (headerCallback url code line (response_of n r))"
        obtain x where "headerCallback url code line (response_of n r) = (x, True)" using r(2) by (metis prod.collapse)
        with run r(1) show "cl_header module_client now r (fst (headerCallback url code line (response_of n r))) s \<noteq> None"
          by (cases "cl_header module_client now r x s") (simp_all add: header_line_def)
      qed
    next
      case (Progressed h nums)
      with st show ?thesis by (auto simp: progress_def split: bind_splits)
    qed (use True in \<open>simp_all add: quiet_def\<close>)
    from same_requests_ok [OF ok _ net [OF this]] F show ?thesis by blast
  next
    case False
    then consider now mok err late where "e = Completed now mok err late" | now r where "e = AnswerFromCache now r"
      using e by (cases e) (simp_all add: quiet_def thread_event_def)
    then show ?thesis
    proof cases
      case 1
      show ?thesis
      proof (cases "net_worker n")
        case (Got h res k)
        have "private_request n h \<noteq> None" using st 1 Got by (auto simp: complete_request_def split: bind_splits)
        then have h: "h \<in> set (multi n)" by (rule got_multi [OF D(1) Got])
        obtain r q where r: "private_request n h = Some r" "has_handle n r h" "network_requests s r = Some q" "callbacks_set n r"
          using transfer_request [OF ok h] by blast
        obtain n1 where n1: "complete_request module_client now mok err h res late (s, n) = Some (s', n1)" "n' = n1\<lparr>net_worker := Reading k\<rparr>"
          using st 1 Got by auto
        have "completionCb (requests n r)" using r(4) by (simp add: callbacks_set_def)
        from complete_frame [OF n1(1) r(1) this] obtain y d where
          y: "final_response now mok err res late (response_of n r) = Some y" and d: "completionCallback r y s = Some (s', d)"
          and f: "responses n1 = responses (put_response r y n)" "requests n1 = (requests n)(r := (requests n r)\<lparr>handle := None\<rparr>)"
            "rq_owners n1 = (if d then (rq_owners n)(r := rq_owners n r - 1) else rq_owners n)"
            "cacheProviders n1 = cacheProviders n" "0 < rq_owners n1 r"
          by (auto simp: module_client_def)
        from completionCallback_frame [OF d] r(3) have t: d "network_requests s' = (network_requests s)(r := None)"
          "sending s' = sending s" "connectionList s' = (connectionList s)(requestId q := None)" by auto
        have np: "r \<notin> set (cacheProviders n)" using D(1) r(2) by (auto simp: net_ok_def owners_ok_def has_handle_def)
        have "callbacks_fine module_client (s, n) e" using 1 Got r(1) y d by (simp add: module_client_def)
        then have net': "net_ok n'" by (rule net)
        have yb: "buffer_ok y"
        proof (cases "late = CURLE_OK")
          case True
          then obtain k where "shouldCacheData now (record_result mok err res (response_of n r)) = Some (k, y)"
            using y by (auto simp: final_response_def)
          with buffer_ok_kept buffer_ok_updates(4) D(6) show ?thesis by (metis response_of_def)
        next
          case False
          with y have "y = record_result mok err res (response_of n r)" by (simp add: final_response_def)
          with buffer_ok_updates(4) D(6) show ?thesis by (metis response_of_def)
        qed
        have bs: "\<forall>i. buffer_ok (responses n' i)" using put_response_buffers [OF D(7) yb] f(1) n1(2) by simp
        show ?thesis
        proof (rule finished_ok [OF ok net' bs r(3) t(2-4)])
          show "rq_owners n' r = of_bool (sending s = Some r)"
            using f(3) t(1) n1(2) D(2) [of r] np r(3) by (simp add: held_def)
        qed (use f n1(2) t(1) np in auto)
      qed (use st 1 ok in simp_all)
    next
      case 2
      show ?thesis
      proof (cases "r \<in> set (cacheProviders n)")
        case True
        have dist: "distinct (cacheProviders n)" and al: "alive n r" "handle (requests n r) = None"
          using D(1) True by (auto simp: net_ok_def owners_ok_def)
        obtain q where q: "network_requests s r = Some q" using D(4) al True by (auto simp: needed_ok_def)
        have cb: "headerCb (requests n r)" "completionCb (requests n r)" using D(5) [of r] q by (simp_all add: callbacks_set_def)
        have sc: "sendResponseCacheData module_client now r (s, n) = Some (s', n')" using st 2 True by simp
        from provider_frame [OF sc cb] obtain s1 y d where
          h: "cl_header module_client now r (response_of n r) s = Some (s1, y)" and d: "completionCallback r y s1 = Some (s', d)"
          and f: "requests n' = requests n" "cacheProviders n' = remove1 r (cacheProviders n)" "responses n' = responses (put_response r y n)"
            "rq_owners n' = (rq_owners n)(r := rq_owners n r - (if d then 2 else 1))"
          by (auto simp: module_client_def)
        have hs: "headerCallbackWrapper r (response_of n r) s = Some s1" "y = response_of n r"
          using h by (auto simp: module_client_def)
        note H = header_frame [OF hs(1)]
        from completionCallback_frame [OF d] q H have t: d "network_requests s' = (network_requests s)(r := None)"
          "sending s' = sending s" "connectionList s' = (connectionList s)(requestId q := None)" by auto
        have "callbacks_fine module_client (s, n) e"
          using 2 hs d cb by (auto simp: answered_header_def module_client_def)
        then have net': "net_ok n'" by (rule net)
        have "buffer_ok y" using D(6) hs(2) by (simp add: response_of_def)
        then have bs: "\<forall>i. buffer_ok (responses n' i)" using put_response_buffers [OF D(7)] f(3) by simp
        show ?thesis
        proof (rule finished_ok [OF ok net' bs q t(2-4)])
          show "rq_owners n' r = of_bool (sending s = Some r)"
            using f(4) t(1) D(2) [of r] True q by (simp add: held_def)
        qed (use f t(1) al dist in \<open>auto simp: set_remove1_eq\<close>)
      qed (use st 2 ok in simp)
    qed
  qed
qed


lemma make_frame:
  "requests (make_request q n) = (requests n)(next_request n := q\<lparr>handle := None, curlResponse := next_request n\<rparr>)"
  "rq_owners (make_request q n) = (rq_owners n)(next_request n := 1)" "cacheProviders (make_request q n) = cacheProviders n"
  "responses (make_request q n) = (responses n)(next_request n := new_response 0 False)"
  by (simp_all add: make_request_def Let_def)

lemma own_frame:
  "requests (own_request r n) = requests n" "rq_owners (own_request r n) = (rq_owners n)(r := Suc (rq_owners n r))"
  "cacheProviders (own_request r n) = cacheProviders n" "responses (own_request r n) = responses n"
  by (simp_all add: own_request_def)

lemma drop_frame:
  "requests (drop_owner r n) = requests n" "rq_owners (drop_owner r n) = (rq_owners n)(r := rq_owners n r - 1)"
  "cacheProviders (drop_owner r n) = cacheProviders n" "responses (drop_owner r n) = responses n" "multi (drop_owner r n) = multi n"
  by (simp_all add: drop_owner_def)

text \<open>A new request is nobody's.\<close>

lemma fresh_request:
  assumes "module_ok (s, n)"
  shows "network_requests s (next_request n) = None" "sending s \<noteq> Some (next_request n)" "next_request n \<notin> set (cacheProviders n)"
proof -
  note D = module_okD [OF assms]
  have "\<not> alive n (next_request n)" using D(1) by (auto simp: net_ok_def owners_ok_def)
  then have z: "held s n (next_request n) = 0" using D(2) [of "next_request n"] by (simp add: alive_def)
  then show "network_requests s (next_request n) = None" "sending s \<noteq> Some (next_request n)" "next_request n \<notin> set (cacheProviders n)"
    by (auto simp: held_def)
qed

lemma js_send_ok:
  assumes ok: "module_ok (s, n)" and sd: "sending s = None"
  shows "(\<exists>st'. js_sendRequest q init (s, n) = Some st' \<and> module_ok st') \<or>
    js_data q = OtherData \<and> js_method q = ''POST'' \<and> js_sendRequest q init (s, n) = None"
proof -
  note D = module_okD [OF ok]
  let ?r = "next_request n"
  let ?n1 = "own_request ?r (make_request (js_request q) n)"
  obtain w w' where w: "nextUniqueId (next_id s) = (w, w')" by fastforce
  let ?nq = "\<lparr>requestId = sint (ucast w :: 32 word), useIncrementalUpdates = js_incremental q, responseType = js_responseType q,
                uploadComplete = False, downloadComplete = False\<rparr>"
  let ?s1 = "(put_request ?r (Some ?nq) s)\<lparr>next_id := w'\<rparr>"
  note new = fresh_request [OF ok]
  have al: "alive (make_request (js_request q) n) ?r" by (simp add: alive_def make_frame)
  have net1: "net_ok ?n1" using own_ok [OF make_ok [OF D(1)] al] .
  have o1: "rq_owners ?n1 = (rq_owners n)(?r := 2)" "cacheProviders ?n1 = cacheProviders n" "handle (requests ?n1 ?r) = None"
    by (simp_all add: own_frame make_frame numeral_2_eq_2)
  have idle: "idle ?n1 ?r" using o1 new(3) by (simp add: idle_def alive_def)
  show ?thesis
  proof (cases "sendRequest ?r init (js_headers q) (js_data q) ?n1")
    case None
    have "rq_method (requests ?n1 ?r) = js_method q" by (simp add: own_frame make_frame js_request_def)
    with None send_ok [OF net1 idle, of init "js_headers q" "js_data q"] w show ?thesis
      by (auto simp: js_sendRequest_def Let_def)
  next
    case (Some x)
    obtain acc n2 where n2: "sendRequest ?r init (js_headers q) (js_data q) ?n1 = Some (acc, n2)" "net_ok n2"
      using Some send_ok [OF net1 idle, of init "js_headers q" "js_data q"] by (cases x) auto
    note F = send_frame [OF n2(1) net1]
    have bs: "\<forall>i. buffer_ok (responses n2 i)"
      using D(7) buffer_ok_updates(1) by (simp add: F(3) own_frame make_frame)
    have rq: "requests n2 r' = requests n r'" if "r' \<noteq> ?r" for r'
      using that F(1) by (simp add: own_frame make_frame)
    have cbs: "callbacks_set n2 ?r" using F(2) [of ?r] by (simp add: callbacks_set_def own_frame make_frame js_request_def)
    have conn: "connectionList s i \<noteq> Some (Some ?r)" for i
    proof
      assume "connectionList s i = Some (Some ?r)"
      then have "map_option requestId (network_requests s ?r) = Some i" using D(3) unfolding registered_ok_def by blast
      with new(1) show False by simp
    qed
    have res: "js_sendRequest q init (s, n) =
        Some (if acc then (?s1\<lparr>sending := Some ?r\<rparr>, n2) else (put_request ?r None ?s1, drop_owner ?r (drop_owner ?r n2)))"
      using w n2(1) by (simp add: js_sendRequest_def Let_def)
    have hold: "rq_owners n r' = held s n r'" for r' using D(2) .
    show ?thesis
    proof (cases acc)
      case True
      let ?s2 = "?s1\<lparr>sending := Some ?r\<rparr>"
      have "rq_owners n2 r' = held ?s2 n2 r'" for r'
        using F(4) o1 hold [of r'] new sd by (cases "r' = ?r") (auto simp: held_def)
      moreover have "registered_ok ?s2"
        using D(3) conn by (auto simp: registered_ok_def)
      moreover have "needed_ok ?s2 n2"
        unfolding needed_ok_def
      proof (intro allI impI)
        fix r' assume a: "alive n2 r'" "handle (requests n2 r') \<noteq> None \<or> r' \<in> set (cacheProviders n2)"
        show "network_requests ?s2 r' \<noteq> None"
        proof (cases "r' = ?r")
          case False
          have "alive n r'" using a(1) F(4) o1 False by (auto simp: alive_def)
          moreover have "handle (requests n r') \<noteq> None \<or> r' \<in> set (cacheProviders n)"
            using a(2) rq [OF False] F(4) o1 False by auto
          ultimately have "network_requests s r' \<noteq> None" using D(4) unfolding needed_ok_def by blast
          with False show ?thesis by simp
        qed simp
      qed
      moreover have "network_requests ?s2 r' \<noteq> None \<longrightarrow> callbacks_set n2 r'" for r'
        using D(5) [of r'] cbs rq [of r'] by (cases "r' = ?r") (simp_all add: callbacks_set_def)
      ultimately have "module_ok (?s2, n2)" using n2(2) bs by (simp add: module_ok_def)
      with res True show ?thesis by simp
    next
      case False
      let ?s2 = "put_request ?r None ?s1" and ?n3 = "drop_owner ?r (drop_owner ?r n2)"
      have p: "cacheProviders n2 = cacheProviders n" "rq_owners n2 = (rq_owners n)(?r := 2)" using F(4) False o1 by auto
      have hd: "\<forall>h. handle (requests n2 ?r) = Some h \<longrightarrow> h \<notin> set (multi n2)"
        using F(4) False o1 by auto
      have "net_ok (drop_owner ?r n2)" by (rule drop_shared_ok [OF n2(2)]) (simp add: p)
      then have net3: "net_ok ?n3" by (rule drop_unused_ok) (use hd new(3) p in \<open>simp_all add: drop_frame\<close>)
      have "rq_owners ?n3 r' = held ?s2 ?n3 r'" for r'
        using p hold [of r'] new sd by (cases "r' = ?r") (simp_all add: held_def drop_frame)
      moreover have "registered_ok ?s2" using D(3) conn by (auto simp: registered_ok_def)
      moreover have "needed_ok ?s2 ?n3"
        unfolding needed_ok_def
      proof (intro allI impI)
        fix r' assume a: "alive ?n3 r'" "handle (requests ?n3 r') \<noteq> None \<or> r' \<in> set (cacheProviders ?n3)"
        have ne: "r' \<noteq> ?r" using a(1) p by (auto simp: alive_def drop_frame)
        have "alive n r'" using a(1) p ne by (simp add: alive_def drop_frame)
        moreover have "handle (requests n r') \<noteq> None \<or> r' \<in> set (cacheProviders n)"
          using a(2) rq [OF ne] p by (simp add: drop_frame)
        ultimately have "network_requests s r' \<noteq> None" using D(4) unfolding needed_ok_def by blast
        with ne show "network_requests ?s2 r' \<noteq> None" by simp
      qed
      moreover have "network_requests ?s2 r' \<noteq> None \<longrightarrow> callbacks_set ?n3 r'" for r'
        using D(5) [of r'] rq [of r'] by (cases "r' = ?r") (simp_all add: callbacks_set_def drop_frame)
      ultimately have "module_ok (?s2, ?n3)" using net3 bs by (simp add: module_ok_def drop_frame)
      with res False show ?thesis by simp
    qed
  qed
qed

lemma js_register_ok:
  assumes ok: "module_ok (s, n)" and st: "js_registerRequest (s, n) = Some st'"
  shows "module_ok st'"
proof (cases "sending s")
  case None
  with st ok show ?thesis by (simp add: js_registerRequest_def)
next
  case (Some r)
  note D = module_okD [OF ok]
  obtain q where q: "network_requests s r = Some q"
    using st Some by (cases "network_requests s r") (auto simp: js_registerRequest_def)
  let ?s = "s\<lparr>connectionList := (connectionList s)(requestId q \<mapsto> Some r), sending := None\<rparr>"
  have st': "st' = (?s, drop_owner r n)" using st Some q by (simp add: js_registerRequest_def)
  have o2: "2 \<le> rq_owners n r" using D(2) [of r] q Some by (simp add: held_def)
  have "net_ok (drop_owner r n)" by (rule drop_shared_ok [OF D(1) o2])
  moreover have "rq_owners (drop_owner r n) r' = held ?s (drop_owner r n) r'" for r'
    using D(2) [of r'] Some q by (cases "r' = r") (simp_all add: held_def drop_frame)
  moreover have "registered_ok ?s" using D(3) q by (auto simp: registered_ok_def)
  moreover have "needed_ok ?s (drop_owner r n)"
    using D(4) by (auto simp: needed_ok_def drop_frame alive_def split: if_splits)
  moreover have "network_requests ?s r' \<noteq> None \<longrightarrow> callbacks_set (drop_owner r n) r'" for r'
    using D(5) [of r'] by (simp add: callbacks_set_def drop_frame)
  ultimately show ?thesis using st' D(7) by (simp add: module_ok_def drop_frame)
qed

lemma js_abort_ok:
  assumes ok: "module_ok (s, n)"
  shows "\<exists>x st'. js_abortRequest i (s, n) = Some (x, st') \<and> module_ok st'"
proof (cases "\<exists>r. connectionList s i = Some (Some r)")
  case False
  then have j: "js_abortRequest i (s, n) = Some (- 1, s\<lparr>connectionList := (connectionList s)(i \<mapsto> None)\<rparr>, n)"
    by (auto simp: js_abortRequest_def split: option.splits)
  have "registered_ok (s\<lparr>connectionList := (connectionList s)(i \<mapsto> None)\<rparr>)"
    using module_okD(3) [OF ok] by (auto simp: registered_ok_def)
  with ok have "module_ok (s\<lparr>connectionList := (connectionList s)(i \<mapsto> None)\<rparr>, n)"
    by (simp add: module_ok_def held_def needed_ok_def)
  with j show ?thesis by blast
next
  case True
  then obtain r where r: "connectionList s i = Some (Some r)" by blast
  note D = module_okD [OF ok]
  obtain q where q: "network_requests s r = Some q" "requestId q = i" using D(3) r by (fastforce simp: registered_ok_def)
  have al: "alive n r" using D(2) [of r] q by (simp add: alive_def held_def)
  have "\<exists>b n'. abortRequest r n = Some (b, n') \<and> net_ok n'" by (rule abort_ok [OF D(1) al])
  then obtain b n' where n': "abortRequest r n = Some (b, n')" "net_ok n'" by blast
  let ?s = "if b then s\<lparr>connectionList := (connectionList s)(i := None)\<rparr> else s"
  have j: "js_abortRequest i (s, n) = Some (0, ?s, n')" using r q n'(1) by (simp add: js_abortRequest_def)
  have f: "rq_owners n' = rq_owners n" "cacheProviders n' = cacheProviders n" "responses n' = responses n"
      "\<forall>r'. handle (requests n' r') = None \<or> handle (requests n' r') = handle (requests n r')"
      "callbacks_set n' = callbacks_set n"
    using n'(1) by (auto simp: abortRequest_def put_handle_def callbacks_set_def fun_eq_iff split: option.splits if_splits)
  have "registered_ok ?s" using D(3) by (auto simp: registered_ok_def)
  moreover have "rq_owners n' r' = held ?s n' r'" for r' using D(2) [of r'] f(1,2) by (simp add: held_def)
  moreover have "needed_ok ?s n'"
    using D(4) f(4) unfolding needed_ok_def f(1,2) alive_def by (auto; metis option.distinct(1))
  moreover have "network_requests ?s r' \<noteq> None \<longrightarrow> callbacks_set n' r'" for r' using D(5) [of r'] f(5) by simp
  ultimately have "module_ok (?s, n')" using n'(2) D(7) f(3) by (simp add: module_ok_def)
  with j show ?thesis by blast
qed

lemma module_step_ok:
  assumes ok: "module_ok (s, n)" and c: "module_contract (s, n) e" and st: "module_step (s, n) e = Some st'"
  shows "module_ok st'"
proof (cases e)
  case (JsSend q init)
  with js_send_ok [OF ok, of q init] c st show ?thesis by auto
next
  case JsRegister
  with js_register_ok [OF ok] st show ?thesis by simp
next
  case (JsAbort i)
  with js_abort_ok [OF ok, of i] c st show ?thesis by auto
next
  case (Thread e')
  obtain s' n' where "st' = (s', n')" by fastforce
  with thread_ok [OF ok] c st Thread show ?thesis by auto
qed

lemma module_reach_ok: "module_reach st \<Longrightarrow> module_ok st"
proof (induction rule: module_reach.induct)
  case module_init
  show ?case by (rule module_init_ok)
next
  case (module_next st e st')
  obtain s n where "st = (s, n)" by fastforce
  with module_next module_step_ok show ?case by blast
qed


section \<open>What can fail\<close>









lemma completion_faults:
  assumes "module_reach (s, n)" and "net_worker n = Got h res k" and "private_request n h \<noteq> sending s"
  shows "module_step (s, n) (Thread (Completed now mok err late)) = None"
proof (rule ccontr)
  have ok: "module_ok (s, n)" by (rule module_reach_ok [OF assms(1)])
  note D = module_okD [OF ok]
  assume "module_step (s, n) (Thread (Completed now mok err late)) \<noteq> None"
  then obtain s' n' where c: "complete_request module_client now mok err h res late (s, n) = Some (s', n')"
    using assms(2) by auto
  from c have "private_request n h \<noteq> None" by (auto simp: complete_request_def split: bind_splits)
  then have h: "h \<in> set (multi n)" by (rule got_multi [OF D(1) assms(2)])
  obtain r q where r: "private_request n h = Some r" "has_handle n r h" "network_requests s r = Some q" "callbacks_set n r"
    using transfer_request [OF ok h] by blast
  have "completionCb (requests n r)" using r(4) by (simp add: callbacks_set_def)
  from complete_frame [OF c r(1) this] obtain y d where d: "completionCallback r y s = Some (s', d)"
    "rq_owners n' = (if d then (rq_owners n)(r := rq_owners n r - 1) else rq_owners n)" "0 < rq_owners n' r"
    by (auto simp: module_client_def)
  have "r \<notin> set (cacheProviders n)" using D(1) r(2) by (auto simp: net_ok_def owners_ok_def has_handle_def)
  with D(2) [of r] r assms(3) have "rq_owners n r = 1" by (auto simp: held_def)
  with d completionCallback_frame [OF d(1)] show False by auto
qed

text \<open>The end of every transfer that the module has registered uses the request after it was freed: the
  module's completion callback gives up the last pointer, and its answer, that nothing must be done with the
  request any more, is not looked at.\<close>

theorem completion_uses_freed_request:
  assumes "module_reach (s, n)" and "net_worker n = Got h res k" and "private_request n h \<noteq> sending s"
  shows "module_step (s, n) (Thread (Completed now mok err late)) = None"
  by (rule completion_faults [OF assms])


section \<open>What JavaScript gets\<close>

text \<open>The transfer of one request as the module sees it: pieces of the body and progress reports.\<close>

datatype transfer_event = Piece string | Report "scalar \<times> scalar \<times> scalar \<times> scalar"

fun transfer_step :: "nat \<Rightarrow> string option \<Rightarrow> curl_response \<times> net_module \<Rightarrow> transfer_event \<Rightarrow> (curl_response \<times> net_module) option" where
  "transfer_step r url (x, s) (Piece c) = Some (writeCallback url c x, s)"
| "transfer_step r url (x, s) (Report nums) = map_option (\<lambda>(s, x). (x, s)) (sendProgressEventwrapper r nums x s)"

fun piece_of :: "transfer_event \<Rightarrow> string" where
  "piece_of (Piece c) = c"
| "piece_of (Report nums) = []"

fun incremental_of :: "network_event \<Rightarrow> string" where
  "incremental_of (DidReceiveNetworkIncrementalData i t a b) = t"
| "incremental_of e = []"

definition incremental_text :: "net_module \<Rightarrow> string" where
  "incremental_text s = concat (map incremental_of (network_events s))"

text \<open>What was received and not sent yet.\<close>

definition unsent :: "curl_response \<Rightarrow> string" where
  "unsent x = (if responseBufferOffset x = 0 then [] else c_str (case responseBuffer x of None \<Rightarrow> [] | Some b \<Rightarrow> b))"

definition no_nul :: "string \<Rightarrow> bool" where
  "no_nul t \<longleftrightarrow> CHR 0x00 \<notin> set t"

definition text_buffer :: "curl_response \<Rightarrow> bool" where
  "text_buffer x \<longleftrightarrow> responseBufferOffset x = 0 \<or>
     (\<exists>t. no_nul t \<and> length t = responseBufferOffset x \<and> responseBuffer x = Some (t @ [CHR 0x00]))"

definition wants_text :: "net_module \<Rightarrow> nat \<Rightarrow> bool" where
  "wants_text s r \<longleftrightarrow> (case network_requests s r of None \<Rightarrow> False
     | Some q \<Rightarrow> useIncrementalUpdates q \<and> responseType q = ''text'' \<and> \<not> downloadComplete q)"

lemma c_str_text: "no_nul t \<Longrightarrow> c_str (t @ CHR 0x00 # b) = t"
  unfolding c_str_def no_nul_def by (induction t) auto

lemma piece_text:
  assumes "text_buffer x" and "no_nul c"
  shows "text_buffer (writeCallback url c x)" "unsent (writeCallback url c x) = unsent x @ c"
proof -
  obtain t where t: "no_nul t" "length t = responseBufferOffset x" "unsent x = t"
    "take (responseBufferOffset x) (case responseBuffer x of None \<Rightarrow> [] | Some b \<Rightarrow> b) = t"
  proof (cases "responseBufferOffset x = 0")
    case True
    with that [of "[]"] show thesis by (simp add: no_nul_def unsent_def)
  next
    case False
    with assms(1) obtain t where "no_nul t" "length t = responseBufferOffset x" "responseBuffer x = Some (t @ [CHR 0x00])"
      by (auto simp: text_buffer_def)
    with that [of t] False c_str_text [of t "[]"] show thesis by (simp add: unsent_def)
  qed
  have n: "no_nul (t @ c)" using t(1) assms(2) by (auto simp: no_nul_def)
  have w: "responseBuffer (writeCallback url c x) = Some ((t @ c) @ [CHR 0x00])"
      "responseBufferOffset (writeCallback url c x) = length (t @ c)"
    using t(2,4) by (simp_all add: writeCallback_def Let_def)
  with n show "text_buffer (writeCallback url c x)" unfolding text_buffer_def by metis
  show "unsent (writeCallback url c x) = unsent x @ c"
    using n w t(3) c_str_text [of "t @ c" "[]"] by (auto simp: unsent_def)
qed

lemma report_text:
  assumes "text_buffer x" and "wants_text s r"
  shows "\<exists>s' y. sendProgressEventwrapper r nums x s = Some (s', y) \<and> text_buffer y \<and> wants_text s' r \<and>
    incremental_text s' @ unsent y = incremental_text s @ unsent x \<and> (fst (snd nums) \<noteq> 0 \<longrightarrow> unsent y = [])"
proof -
  obtain dt dl ut ul where nums: "nums = (dt, dl, ut, ul)" by (cases nums) auto
  obtain q where q: "network_requests s r = Some q" "useIncrementalUpdates q" "responseType q = ''text''" "\<not> downloadComplete q"
    using assms(2) by (auto simp: wants_text_def split: option.splits)
  let ?s = "upload_progress r q ut ul s"
  have u: "wants_text ?s r" "incremental_text ?s = incremental_text s"
    using q assms(2) by (auto simp: upload_progress_def wants_text_def incremental_text_def sendEvent_def put_request_def)
  have start: "sendProgressEventwrapper r nums x s = download_progress q dt dl x ?s"
    using q(1) by (simp add: sendProgressEventwrapper_def nums)
  show ?thesis
  proof (cases "dl \<noteq> 0 \<and> responseBufferOffset x \<noteq> 0")
    case True
    with assms(1) obtain t where t: "no_nul t" "responseBuffer x = Some (t @ [CHR 0x00])"
      by (auto simp: text_buffer_def)
    have c: "c_str (t @ [CHR 0x00]) = t" using c_str_text [OF t(1)] .
    have "download_progress q dt dl x ?s = Some (sendEvent (DidReceiveNetworkIncrementalData (requestId q) t dl dt) ?s, x\<lparr>responseBufferOffset := 0\<rparr>)"
      using True q t(2) c by (simp add: download_progress_def)
    moreover have "wants_text (sendEvent e ?s) r" for e using u(1) by (simp add: wants_text_def)
    ultimately show ?thesis
      using start u(2) t c True by (auto simp: text_buffer_def unsent_def incremental_text_def sendEvent_def)
  next
    case False
    then have "download_progress q dt dl x ?s = Some (?s, x) \<or>
        download_progress q dt dl x ?s = Some (sendEvent (DidReceiveNetworkDataProgress (requestId q) dl dt) ?s, x)"
      using q by (auto simp: download_progress_def)
    moreover have "wants_text (sendEvent e ?s) r" for e using u(1) by (simp add: wants_text_def)
    moreover have "fst (snd nums) \<noteq> 0 \<longrightarrow> unsent x = []" using False nums by (auto simp: unsent_def)
    ultimately show ?thesis using start u assms(1) by (auto simp: incremental_text_def sendEvent_def)
  qed
qed

text \<open>The text of a whole transfer.\<close>

lemma transfer_text:
  assumes "wants_text s r" and "text_buffer x" and "\<forall>e \<in> set es. no_nul (piece_of e)"
  shows "\<exists>x' s'. run_opt (transfer_step r url) (x, s) es = Some (x', s') \<and> wants_text s' r \<and> text_buffer x' \<and>
    incremental_text s' @ unsent x' = incremental_text s @ unsent x @ concat (map piece_of es)"
  using assms
proof (induction es arbitrary: s x)
  case (Cons e es)
  show ?case
  proof (cases e)
    case (Piece c)
    with Cons.prems have "no_nul c" by simp
    note P = piece_text [OF Cons.prems(2) this, of url]
    from Cons.IH [OF Cons.prems(1) P(1)] Cons.prems(3) P(2) Piece show ?thesis by auto
  next
    case (Report nums)
    from report_text [OF Cons.prems(2,1), of nums] obtain s1 y where y: "sendProgressEventwrapper r nums x s = Some (s1, y)"
      "text_buffer y" "wants_text s1 r" "incremental_text s1 @ unsent y = incremental_text s @ unsent x" by blast
    from Cons.IH [OF y(3,2)] Cons.prems(3) obtain x' s' where
      "run_opt (transfer_step r url) (y, s1) es = Some (x', s')" "wants_text s' r" "text_buffer x'"
      "incremental_text s' @ unsent x' = incremental_text s1 @ unsent y @ concat (map piece_of es)" by auto
    moreover have "incremental_text s1 @ unsent y @ concat (map piece_of es) = incremental_text s @ unsent x @ concat (map piece_of es)"
      using y(4) by (metis append_assoc)
    ultimately show ?thesis using y(1) Report by simp
  qed
qed simp

text \<open>C29: Text without null characters that the network delivers to a request for text in pieces: whatever
  pieces come, with progress reports in between, once progress is reported after the last piece (with a
  number of received bytes other than zero) the texts of the events JavaScript got are the received text,
  in order and nothing twice; before, they are a part of it from the start, and the rest waits in the buffer.
  Responses from the cache make no progress reports, see \<open>cached_text_not_delivered\<close>.\<close>

theorem incremental_text_complete:
  assumes "wants_text s r" and "responseBufferOffset x = 0" and "\<forall>e \<in> set es. no_nul (piece_of e)"
  shows "(\<exists>x' s'. run_opt (transfer_step r url) (x, s) es = Some (x', s') \<and>
      incremental_text s' @ unsent x' = incremental_text s @ concat (map piece_of es)) \<and>
    (dlnow \<noteq> 0 \<longrightarrow> (\<exists>x' s'. run_opt (transfer_step r url) (x, s) (es @ [Report (dltotal, dlnow, ultotal, ulnow)]) = Some (x', s') \<and>
      incremental_text s' = incremental_text s @ concat (map piece_of es)))"
proof -
  have x: "text_buffer x" "unsent x = []" using assms(2) by (simp_all add: text_buffer_def unsent_def)
  from transfer_text [OF assms(1) x(1) assms(3), of url] obtain x1 s1 where
    t: "run_opt (transfer_step r url) (x, s) es = Some (x1, s1)" "wants_text s1 r" "text_buffer x1"
      "incremental_text s1 @ unsent x1 = incremental_text s @ concat (map piece_of es)"
    by (auto simp: x(2))
  from report_text [OF t(3,2), of "(dltotal, dlnow, ultotal, ulnow)"] obtain s2 y where
    "sendProgressEventwrapper r (dltotal, dlnow, ultotal, ulnow) x1 s1 = Some (s2, y)"
    "incremental_text s2 @ unsent y = incremental_text s1 @ unsent x1" "dlnow \<noteq> 0 \<longrightarrow> unsent y = []"
    by auto
  with t show ?thesis by (auto simp: run_opt_append)
qed

text \<open>Text asked for in pieces and answered from the cache never arrives: the events are the one for the
  headers and the one that all is done.\<close>

theorem cached_text_not_delivered:
  assumes "network_requests s r = Some q" and "useIncrementalUpdates q" and "responseType q = ''text''"
    and "responseurl (response_of n r) = Some url" and "callbacks_set n r"
  shows "\<exists>s' n'. sendResponseCacheData module_client now r (s, n) = Some (s', n') \<and>
    network_events s' = network_events s @
      [DidReceiveNetworkResponse (requestId q) (statusCode (response_of n r)) (headerBuffer (response_of n r)) url,
       DidCompleteNetworkResponse (requestId q) (errorResult (response_of n r)) (responseTimeout (response_of n r))]"
proof -
  let ?x = "response_of n r"
  have same: "put_response r ?x n = n" "response_of (put_response r y n) r = y" for y by (simp_all add: put_response_def response_of_def)
  let ?s1 = "sendEvent (DidReceiveNetworkResponse (requestId q) (statusCode ?x) (headerBuffer ?x) url) s"
  have h: "headerCallbackWrapper r ?x s = Some ?s1" using assms(1,4) by (simp add: headerCallbackWrapper_def)
  show ?thesis
    using assms h by (simp add: sendResponseCacheData_def module_client_def callbacks_set_def same call_completion_def
        completionCallback_def Let_def sendEvent_def)
qed

text \<open>What the cache keeps of a text that was sent in pieces is the last piece: each event starts the buffer
  anew.\<close>

theorem cache_keeps_last_piece:
  assumes "wants_text s r" and "text_buffer x" and "responseBufferOffset x \<noteq> 0" and "no_nul c"
  shows "\<exists>x' s'. run_opt (transfer_step r url) (x, s) [Report (dltotal, dlnow, 0, 0), Piece c] = Some (x', s') \<and>
    (dlnow \<noteq> 0 \<longrightarrow> responseBuffer x' = Some (c @ [CHR 0x00]) \<and> contentSize x' = length c)"
proof -
  obtain q where q: "network_requests s r = Some q" "useIncrementalUpdates q" "responseType q = ''text''" "\<not> downloadComplete q"
    using assms(1) by (auto simp: wants_text_def split: option.splits)
  obtain t where t: "responseBuffer x = Some (t @ [CHR 0x00])" using assms(2,3) by (auto simp: text_buffer_def)
  show ?thesis
    using q t assms(3) by (auto simp: sendProgressEventwrapper_def upload_progress_def download_progress_def writeCallback_def Let_def)
qed


section \<open>Examples\<close>

fun module_runs :: "net_module \<times> net \<Rightarrow> module_event list \<Rightarrow> bool" where
  "module_runs st [] \<longleftrightarrow> True"
| "module_runs st (e # es) \<longleftrightarrow>
     module_contract st e \<and> (case module_step st e of None \<Rightarrow> False | Some st' \<Rightarrow> module_runs st' es)"

lemma module_runs_reach:
  "module_reach st \<Longrightarrow> module_runs st es \<Longrightarrow> \<exists>st'. run_opt module_step st es = Some st' \<and> module_reach st'"
proof (induction es arbitrary: st)
  case (Cons e es)
  then obtain st1 where s: "module_contract st e" "module_step st e = Some st1" "module_runs st1 es"
    by (auto split: option.splits)
  from Cons.IH [OF module_next [OF Cons.prems(1) s(1,2)] s(3)] s(2) show ?case by simp
qed simp

definition sample_query :: js_query where
  "sample_query = \<lparr>js_method = ''GET'', js_url = ''http://a/'', js_responseType = ''text'', js_incremental = True, js_timeout = 0,
     js_headers = None, js_data = NoData\<rparr>"

lemmas module_eval = net_eval js_sendRequest_def js_registerRequest_def js_request_def own_request_def drop_owner_def put_request_def
  new_module_def sample_query_def nextUniqueId_def thread_event_def

lemma sample_module_run:
  "\<exists>s n. module_reach (s, n) \<and> net_worker n = Got 0 CURLE_OTHER 0 \<and> sending s = None \<and> private_request n 0 = Some 0"
proof -
  let ?es = "[JsSend sample_query True, JsRegister, Thread Wake, Thread (Performed [(0, CURLE_OTHER)] 0), Thread ReadMessage]"
  have a: "module_runs (new_module, new_net) ?es" by (simp add: module_eval Let_def)
  obtain s n where n: "run_opt module_step (new_module, new_net) ?es = Some (s, n)" "module_reach (s, n)"
    using module_runs_reach [OF module_init a] by auto
  from n(1) have "net_worker n = Got 0 CURLE_OTHER 0 \<and> sending s = None \<and> private_request n 0 = Some 0"
    by (auto simp: module_eval Let_def private_request_def)
  with n(2) show ?thesis by blast
qed

lemma completion_uses_freed_request_witness:
  "\<exists>s n. module_reach (s, n) \<and> module_step (s, n) (Thread (Completed 0 True '''' CURLE_OTHER)) = None"
proof -
  obtain s n where n: "module_reach (s, n)" "net_worker n = Got 0 CURLE_OTHER 0" "sending s = None" "private_request n 0 = Some 0"
    using sample_module_run by blast
  have "module_step (s, n) (Thread (Completed 0 True '''' CURLE_OTHER)) = None"
    by (rule completion_uses_freed_request [OF n(1,2)]) (use n in simp)
  with n(1) show ?thesis by blast
qed


definition sample_module :: net_module where
  "sample_module = new_module\<lparr>network_requests := [0 \<mapsto> \<lparr>requestId = 7, useIncrementalUpdates = True, responseType = ''text'',
     uploadComplete = False, downloadComplete = False\<rparr>]\<rparr>"

lemma incremental_text_complete_witness:
  "\<exists>x' s'. run_opt (transfer_step 0 None) (new_response 0 False, sample_module)
       [Piece ''ab'', Report (4, 2, 0, 0), Piece ''c'', Piece ''d'', Report (4, 4, 0, 0)] = Some (x', s') \<and>
     incremental_text s' = ''abcd''"
  using incremental_text_complete [of sample_module 0 "new_response 0 False" "[Piece ''ab'', Report (4, 2, 0, 0), Piece ''c'', Piece ''d'']"
    None 4 4 0 0]
  by (simp add: sample_module_def new_module_def wants_text_def new_response_def no_nul_def incremental_text_def)

lemma cached_text_not_delivered_witness:
  "\<exists>s' n'. sendResponseCacheData module_client 0 0 (sample_module, new_net\<lparr>requests := (\<lambda>_. js_request sample_query),
       responses := (\<lambda>_. (new_response 200 False)\<lparr>responseBuffer := Some ''ab'', contentSize := 2, responseurl := Some ''u''\<rparr>)\<rparr>) = Some (s', n') \<and>
     network_events s' = [DidReceiveNetworkResponse 7 200 [] ''u'', DidCompleteNetworkResponse 7 '''' False]"
  using cached_text_not_delivered [of sample_module 0 "\<lparr>requestId = 7, useIncrementalUpdates = True, responseType = ''text'',
     uploadComplete = False, downloadComplete = False\<rparr>" "new_net\<lparr>requests := (\<lambda>_. js_request sample_query),
       responses := (\<lambda>_. (new_response 200 False)\<lparr>responseBuffer := Some ''ab'', contentSize := 2, responseurl := Some ''u''\<rparr>)\<rparr>" "''u''" 0]
  by (simp add: sample_module_def new_module_def response_of_def callbacks_set_def js_request_def new_response_def sample_query_def new_net_def)

lemma cache_keeps_last_piece_witness:
  "\<exists>x' s'. run_opt (transfer_step 0 None) (writeCallback None ''ab'' (new_response 0 False), sample_module) [Report (3, 2, 0, 0), Piece ''c''] =
     Some (x', s') \<and> (2 \<noteq> (0 :: scalar) \<longrightarrow> responseBuffer x' = Some (''c'' @ [CHR 0x00]) \<and> contentSize x' = length ''c'')"
  by (rule cache_keeps_last_piece)
    (simp_all add: sample_module_def new_module_def wants_text_def new_response_def no_nul_def text_buffer_def writeCallback_def)

end
