(* ===== verification/WebSockets.thy ===== *)
theory WebSockets imports HttpText "HOL-Library.Monad_Syntax" begin

text \<open>
  Web sockets: the queue of operations with its threads (\<open>sdk/NopollWebsocket.cpp\<close>) and the native module
  behind JavaScript's \<open>WebSocket\<close> (\<open>modules/platform/nopoll/RSkWebSocketModule.cpp\<close>). One thread watches the
  queue and starts up to five workers, which take operations until it is empty. An operation is a pointer to
  the request of its socket, which also holds the kind of the operation and its data. The library nopoll is
  what it answers, an argument of the steps; \<open>None\<close> is undefined behaviour. A \<open>WebsocketRequest\<close> and its
  \<open>NopollRequest\<close>, made together and never deleted, are one number.
\<close>

section \<open>State\<close>

datatype MessageType = REQUEST_MESSAGE_TYPE_OPEN | REQUEST_MESSAGE_TYPE_SEND | REQUEST_MESSAGE_TYPE_SENDBINARY
  | REQUEST_MESSAGE_TYPE_PING | REQUEST_MESSAGE_TYPE_CLOSE

record nopoll_request =
  np_url :: string
  closeRequestCode :: int
  sendMessageData :: string
  closeReason :: string
  sendMessageBase64Data :: string
  np_conn :: "nat option"
  messageType :: MessageType
  np_disconnectCb :: bool
  socketID :: int

datatype ws_event = WebsocketOpen int | WebsocketClosed int int string | WebsocketMessage int string string
  | WebsocketFailed int string

datatype nopoll_call = ConnNew string string | SendText nat string | SendBinary nat string | SendPing nat | CloseExt nat int string

datatype poll_at = PollLoop | PollWait

text \<open>
  A worker is between two operations, works on one, has set a new connection up and is about to tell the
  module, or has changed the module's list and is about to tell JavaScript. The thread of JavaScript is not in
  a call, has written to the request of an operation and is about to put it into the queue (the kind \<open>PING\<close> is
  written then), or has put it there and is about to post the semaphore. \<open>ws_pushed\<close> and \<open>ws_taken\<close> are there for
  the statements only.
\<close>

datatype worker_at = Free | Busy nat | Connected nat | Telling ws_event

datatype js_at = JsFree | JsPush nat "MessageType option" | JsPost

record websockets =
  ws_requests :: "nat \<Rightarrow> nopoll_request"
  ws_next :: nat
  RequestQueue :: "nat list"
  ws_js :: js_at
  startDownloadingThread :: nat
  poll_thread :: poll_at
  ws_workers :: "worker_at list"
  currentWorkerThreadCount :: nat
  connectionList :: "int \<Rightarrow> nat option option"
  ws_events :: "ws_event list"
  ws_calls :: "nopoll_call list"
  ws_pushed :: "nat list"
  ws_taken :: "nat list"

definition MAX_WORKER_THEAD_COUNT :: nat where
  "MAX_WORKER_THEAD_COUNT = 5"

definition new_request :: "string \<Rightarrow> int \<Rightarrow> nopoll_request" where
  "new_request url i = \<lparr>np_url = url, closeRequestCode = 0, sendMessageData = '''', closeReason = '''', sendMessageBase64Data = '''',
     np_conn = None, messageType = REQUEST_MESSAGE_TYPE_OPEN, np_disconnectCb = False, socketID = i\<rparr>"

definition new_websockets :: websockets where
  "new_websockets = \<lparr>ws_requests = (\<lambda>_. new_request '''' 0), ws_next = 0, RequestQueue = [], ws_js = JsFree, startDownloadingThread = 0,
     poll_thread = PollLoop, ws_workers = [], currentWorkerThreadCount = 0, connectionList = (\<lambda>_. None), ws_events = [], ws_calls = [],
     ws_pushed = [], ws_taken = []\<rparr>"

definition ws_emit :: "ws_event \<Rightarrow> websockets \<Rightarrow> websockets" where
  "ws_emit e s = s\<lparr>ws_events := ws_events s @ [e]\<rparr>"

definition ws_call :: "nopoll_call \<Rightarrow> websockets \<Rightarrow> websockets" where
  "ws_call c s = s\<lparr>ws_calls := ws_calls s @ [c]\<rparr>"

definition ws_put :: "nat \<Rightarrow> nopoll_request \<Rightarrow> websockets \<Rightarrow> websockets" where
  "ws_put r q s = s\<lparr>ws_requests := (ws_requests s)(r := q)\<rparr>"

section \<open>Addresses\<close>

text \<open>
  The host is what stands between the first colon, two characters further, and the next colon; the port is
  everything after that. With no further colon, both are all of it.
\<close>

definition parseUrl :: "string \<Rightarrow> (string \<times> string) option" where
  "parseUrl url =
     (if \<not> contains ''s://'' url then None
      else do { k \<leftarrow> find_sub '':'' url;
                let endpoint = drop (k + 3) url;
                Some (case find_sub '':'' endpoint of
                        None \<Rightarrow> (endpoint, endpoint)
                      | Some j \<Rightarrow> (take j endpoint, drop (Suc j) endpoint)) })"

section \<open>The queue and its threads\<close>

text \<open>\<open>getConnect\<close>, \<open>send\<close>, \<open>sendBinary\<close> and \<open>close\<close> of the queue differ in the kind only, which they write before
  they take the lock; \<open>ping\<close> writes it under the lock.\<close>

definition enqueue :: "MessageType \<Rightarrow> nat \<Rightarrow> websockets \<Rightarrow> websockets" where
  "enqueue ty r s = (ws_put r ((ws_requests s r)\<lparr>messageType := ty\<rparr>) s)\<lparr>ws_js := JsPush r None\<rparr>"

definition push_request :: "websockets \<Rightarrow> websockets" where
  "push_request s =
     (case ws_js s of
        JsPush r k \<Rightarrow>
          (case k of None \<Rightarrow> s | Some ty \<Rightarrow> ws_put r ((ws_requests s r)\<lparr>messageType := ty\<rparr>) s)
            \<lparr>RequestQueue := RequestQueue s @ [r], ws_js := JsPost, ws_pushed := ws_pushed s @ [r]\<rparr>
      | _ \<Rightarrow> s)"

definition post_queue :: "websockets \<Rightarrow> websockets" where
  "post_queue s = (if ws_js s = JsPost then s\<lparr>ws_js := JsFree, startDownloadingThread := Suc (startDownloadingThread s)\<rparr> else s)"

definition pollThread :: "websockets \<Rightarrow> websockets" where
  "pollThread s =
     (case poll_thread s of
        PollWait \<Rightarrow>
          if 0 < startDownloadingThread s
          then s\<lparr>startDownloadingThread := startDownloadingThread s - 1, poll_thread := PollLoop\<rparr> else s
      | PollLoop \<Rightarrow>
          if RequestQueue s = [] then s\<lparr>poll_thread := PollWait\<rparr>
          else if currentWorkerThreadCount s < MAX_WORKER_THEAD_COUNT
          then s\<lparr>ws_workers := ws_workers s @ [Free], currentWorkerThreadCount := Suc (currentWorkerThreadCount s)\<rparr>
          else s)"

text \<open>The part of \<open>multiConn\<close> under the lock: the next operation, or the end of the worker.\<close>

definition take_request :: "nat \<Rightarrow> websockets \<Rightarrow> websockets" where
  "take_request i s =
     (if i < length (ws_workers s) \<and> ws_workers s ! i = Free
      then (case RequestQueue s of
              r # rs \<Rightarrow> s\<lparr>RequestQueue := rs, ws_workers := (ws_workers s)[i := Busy r], ws_taken := ws_taken s @ [r]\<rparr>
            | [] \<Rightarrow> s\<lparr>ws_workers := take i (ws_workers s) @ drop (Suc i) (ws_workers s),
                       currentWorkerThreadCount := currentWorkerThreadCount s - 1\<rparr>)
      else s)"

section \<open>The operations of a worker\<close>

text \<open>What nopoll answers: a connection that is ready, the number of bytes sent, and the decoded bytes with
  what lies behind them in the buffer.\<close>

record nopoll_answer =
  an_conn :: "nat option"
  an_sent :: int
  an_decoded :: "(string \<times> string) option"

definition failure :: "nat \<Rightarrow> string \<Rightarrow> websockets \<Rightarrow> websockets" where
  "failure r msg s = ws_emit (WebsocketFailed (socketID (ws_requests s r)) msg) s"

text \<open>The callbacks of the module change its list under the lock; what they tell JavaScript afterwards is the
  second component.\<close>

definition connectCallback :: "nat \<Rightarrow> websockets \<Rightarrow> websockets \<times> ws_event" where
  "connectCallback r s =
     (let i = socketID (ws_requests s r) in (s\<lparr>connectionList := (connectionList s)(i \<mapsto> Some r)\<rparr>, WebsocketOpen i))"

text \<open>Opening a connection; the second component tells that it is ready and the connect callback follows.\<close>

definition getConnectNopoll :: "nopoll_answer \<Rightarrow> nat \<Rightarrow> websockets \<Rightarrow> websockets \<times> bool" where
  "getConnectNopoll a r s =
     (case parseUrl (np_url (ws_requests s r)) of
        None \<Rightarrow> (s, False)
      | Some (host, port) \<Rightarrow>
          let s1 = ws_call (ConnNew host port) s
          in (case an_conn a of
                None \<Rightarrow> (s1, False)
              | Some c \<Rightarrow> (ws_put r ((ws_requests s1 r)\<lparr>np_conn := Some c\<rparr>) s1, True)))"

definition sendNopoll :: "nopoll_answer \<Rightarrow> nat \<Rightarrow> websockets \<Rightarrow> websockets" where
  "sendNopoll a r s =
     (let q = ws_requests s r
      in case np_conn q of
           None \<Rightarrow> failure r ''sending data is failed'' s
         | Some c \<Rightarrow>
             let s1 = ws_call (SendText c (sendMessageData q)) s
             in if an_sent a = int (length (sendMessageData q)) then s1 else failure r ''sending data is failed'' s1)"

text \<open>The length of what is sent is that up to the first zero byte, wherever it is.\<close>

definition sendBinaryNopoll :: "nopoll_answer \<Rightarrow> nat \<Rightarrow> websockets \<Rightarrow> websockets option" where
  "sendBinaryNopoll a r s =
     (let q = ws_requests s r
      in case an_decoded a of
           None \<Rightarrow> Some (failure r ''base64 string error'' s)
         | Some (bytes, behind) \<Rightarrow>
             (case np_conn q of
                None \<Rightarrow> Some (failure r ''sending binary data is failed'' s)
              | Some c \<Rightarrow>
                  if CHR 0x00 \<notin> set (bytes @ behind) then None
                  else let sent = c_str (bytes @ behind); s1 = ws_call (SendBinary c sent) s
                       in Some (if an_sent a = int (length sent) then s1 else failure r ''sending binary data is failed'' s1)))"

definition pingNopoll :: "nat \<Rightarrow> websockets \<Rightarrow> websockets" where
  "pingNopoll r s =
     (case np_conn (ws_requests s r) of None \<Rightarrow> failure r ''ping operation failed'' s | Some c \<Rightarrow> ws_call (SendPing c) s)"

definition disconnectCallback :: "nat \<Rightarrow> websockets \<Rightarrow> websockets \<times> ws_event" where
  "disconnectCallback r s =
     (let q = ws_requests s r
      in (s\<lparr>connectionList := (connectionList s)(socketID q := None)\<rparr>, WebsocketClosed (socketID q) (closeRequestCode q) (closeReason q)))"

definition closeNopoll :: "nat \<Rightarrow> websockets \<Rightarrow> websockets \<times> worker_at" where
  "closeNopoll r s =
     (let q = ws_requests s r
      in case np_conn q of
           None \<Rightarrow> (failure r ''close connection is failed'' s, Free)
         | Some c \<Rightarrow>
             let s1 = ws_call (CloseExt c (closeRequestCode q) (closeReason q)) s
             in if np_disconnectCb q then (let (t, e) = disconnectCallback r s1 in (t, Telling e)) else (s1, Free))"

text \<open>The kind is read when the worker gets to the operation; the result tells where the worker is then.\<close>

definition perform_request :: "nopoll_answer \<Rightarrow> nat \<Rightarrow> websockets \<Rightarrow> (websockets \<times> worker_at) option" where
  "perform_request a r s =
     (case messageType (ws_requests s r) of
        REQUEST_MESSAGE_TYPE_OPEN \<Rightarrow> (case getConnectNopoll a r s of (t, ready) \<Rightarrow> Some (t, if ready then Connected r else Free))
      | REQUEST_MESSAGE_TYPE_SEND \<Rightarrow> Some (sendNopoll a r s, Free)
      | REQUEST_MESSAGE_TYPE_SENDBINARY \<Rightarrow> map_option (\<lambda>t. (t, Free)) (sendBinaryNopoll a r s)
      | REQUEST_MESSAGE_TYPE_PING \<Rightarrow> Some (pingNopoll r s, Free)
      | REQUEST_MESSAGE_TYPE_CLOSE \<Rightarrow> Some (closeNopoll r s))"

definition multiConn :: "nopoll_answer \<Rightarrow> nat \<Rightarrow> websockets \<Rightarrow> websockets option" where
  "multiConn a i s =
     (if i < length (ws_workers s)
      then (case ws_workers s ! i of
              Free \<Rightarrow> Some (take_request i s)
            | Connected r \<Rightarrow> (let (t, e) = connectCallback r s in Some (t\<lparr>ws_workers := (ws_workers s)[i := Telling e]\<rparr>))
            | Telling e \<Rightarrow> Some ((ws_emit e s)\<lparr>ws_workers := (ws_workers s)[i := Free]\<rparr>)
            | Busy r \<Rightarrow> do { (t, w) \<leftarrow> perform_request a r s; Some (t\<lparr>ws_workers := (ws_workers s)[i := w]\<rparr>) })
      else Some s)"

text \<open>The cases of the switch have no \<open>break\<close>.\<close>

datatype opcode = NOPOLL_TEXT_FRAME | NOPOLL_BINARY_FRAME | NOPOLL_OTHER_FRAME

definition message_type :: "opcode \<Rightarrow> string" where
  "message_type op =
     (let t1 = (if op = NOPOLL_TEXT_FRAME then ''blob'' else '''');
          t2 = (if op \<in> {NOPOLL_TEXT_FRAME, NOPOLL_BINARY_FRAME} then ''binary'' else t1)
      in ''unKnown'')"

definition onMessageHandler :: "opcode \<Rightarrow> string \<Rightarrow> nat \<Rightarrow> websockets \<Rightarrow> websockets" where
  "onMessageHandler op content r s =
     (if np_conn (ws_requests s r) = None then s
      else ws_emit (WebsocketMessage (socketID (ws_requests s r)) (message_type op) (c_str content)) s)"

section \<open>What JavaScript calls\<close>

definition ws_getConnect :: "string \<Rightarrow> int \<Rightarrow> websockets \<Rightarrow> websockets" where
  "ws_getConnect url i s =
     (let r = ws_next s in enqueue REQUEST_MESSAGE_TYPE_OPEN r ((ws_put r (new_request (c_str url) i) s)\<lparr>ws_next := Suc r\<rparr>))"

text \<open>Looking a socket up that is not there puts a null pointer there.\<close>

definition with_socket :: "int \<Rightarrow> (nat \<Rightarrow> websockets \<Rightarrow> websockets) \<Rightarrow> websockets \<Rightarrow> websockets" where
  "with_socket i f s =
     (case connectionList s i of
        Some (Some r) \<Rightarrow> f r s
      | _ \<Rightarrow> s\<lparr>connectionList := (connectionList s)(i \<mapsto> None)\<rparr>)"

definition ws_send :: "string \<Rightarrow> int \<Rightarrow> websockets \<Rightarrow> websockets" where
  "ws_send msg i = with_socket i (\<lambda>r s. enqueue REQUEST_MESSAGE_TYPE_SEND r (ws_put r ((ws_requests s r)\<lparr>sendMessageData := msg\<rparr>) s))"

definition ws_sendBinary :: "string \<Rightarrow> int \<Rightarrow> websockets \<Rightarrow> websockets" where
  "ws_sendBinary b64 i =
     with_socket i (\<lambda>r s. enqueue REQUEST_MESSAGE_TYPE_SENDBINARY r (ws_put r ((ws_requests s r)\<lparr>sendMessageBase64Data := b64\<rparr>) s))"

definition ws_ping :: "int \<Rightarrow> websockets \<Rightarrow> websockets" where
  "ws_ping i = with_socket i (\<lambda>r s. s\<lparr>ws_js := JsPush r (Some REQUEST_MESSAGE_TYPE_PING)\<rparr>)"

definition ws_getClose :: "int \<Rightarrow> string \<Rightarrow> int \<Rightarrow> websockets \<Rightarrow> websockets" where
  "ws_getClose code reason i =
     with_socket i (\<lambda>r s. enqueue REQUEST_MESSAGE_TYPE_CLOSE r
       (ws_put r ((ws_requests s r)\<lparr>closeRequestCode := code, closeReason := reason, np_disconnectCb := True\<rparr>) s))"

section \<open>Steps\<close>

datatype ws_step = WsConnect string int | WsSend string int | WsSendBinary string int | WsPing int | WsClose int string int
  | WsPush | WsPost | WsPoll | WsWorker nopoll_answer nat | WsMessage opcode string nat

text \<open>The thread of JavaScript ends a call before it does anything else.\<close>

fun ws_do :: "websockets \<Rightarrow> ws_step \<Rightarrow> websockets option" where
  "ws_do s (WsConnect url i) = Some (if ws_js s \<noteq> JsFree then s else ws_getConnect url i s)"
| "ws_do s (WsSend msg i) = Some (if ws_js s \<noteq> JsFree then s else ws_send msg i s)"
| "ws_do s (WsSendBinary b64 i) = Some (if ws_js s \<noteq> JsFree then s else ws_sendBinary b64 i s)"
| "ws_do s (WsPing i) = Some (if ws_js s \<noteq> JsFree then s else ws_ping i s)"
| "ws_do s (WsClose code reason i) = Some (if ws_js s \<noteq> JsFree then s else ws_getClose code reason i s)"
| "ws_do s WsPush = Some (push_request s)"
| "ws_do s WsPost = Some (post_queue s)"
| "ws_do s WsPoll = Some (pollThread s)"
| "ws_do s (WsWorker a i) = multiConn a i s"
| "ws_do s (WsMessage op content r) = Some (onMessageHandler op content r s)"


section \<open>The queue\<close>

lemmas ws_ops = enqueue_def push_request_def post_queue_def pollThread_def take_request_def failure_def connectCallback_def getConnectNopoll_def
  sendNopoll_def sendBinaryNopoll_def pingNopoll_def disconnectCallback_def closeNopoll_def ws_emit_def ws_call_def ws_put_def
  onMessageHandler_def ws_getConnect_def with_socket_def ws_send_def ws_sendBinary_def ws_ping_def ws_getClose_def

definition queue_ok :: "websockets \<Rightarrow> bool" where
  "queue_ok s \<longleftrightarrow> currentWorkerThreadCount s = length (ws_workers s) \<and> length (ws_workers s) \<le> MAX_WORKER_THEAD_COUNT \<and>
     (RequestQueue s \<noteq> [] \<and> poll_thread s = PollWait \<longrightarrow> 0 < startDownloadingThread s \<or> ws_js s = JsPost) \<and>
     ws_taken s @ RequestQueue s = ws_pushed s"

text \<open>What a worker does with an operation leaves the queue alone.\<close>

definition same_queue :: "websockets \<Rightarrow> websockets \<Rightarrow> bool" where
  "same_queue s t \<longleftrightarrow> RequestQueue t = RequestQueue s \<and> ws_js t = ws_js s \<and> startDownloadingThread t = startDownloadingThread s \<and>
     poll_thread t = poll_thread s \<and> ws_workers t = ws_workers s \<and> currentWorkerThreadCount t = currentWorkerThreadCount s \<and>
     ws_pushed t = ws_pushed s \<and> ws_taken t = ws_taken s \<and> ws_next t = ws_next s"

lemma perform_same_queue: "perform_request a r s = Some (t, w) \<Longrightarrow> same_queue s t"
  by (auto simp: perform_request_def same_queue_def ws_ops Let_def
      split: MessageType.splits option.splits prod.splits if_splits)

lemma queue_ok_same: "queue_ok s \<Longrightarrow> same_queue s t \<Longrightarrow> queue_ok t"
  by (simp add: queue_ok_def same_queue_def)

lemma enqueue_queue_ok:
  assumes "queue_ok s" and "ws_js s = JsFree"
  shows "queue_ok (enqueue ty r s)"
  using assms by (auto simp: queue_ok_def enqueue_def ws_put_def)

lemma push_queue_ok: "queue_ok s \<Longrightarrow> queue_ok (push_request s)"
  by (auto simp: queue_ok_def push_request_def ws_put_def simp flip: append_assoc split: js_at.splits option.splits)

lemma take_request_queue_ok:
  assumes "queue_ok s"
  shows "queue_ok (take_request i s)"
  using assms by (auto simp: queue_ok_def take_request_def split: list.splits)

lemma ws_do_queue_ok:
  assumes "queue_ok s" and "ws_do s e = Some t"
  shows "queue_ok t"
proof (cases e)
  case (WsWorker a i)
  show ?thesis
  proof (cases "i < length (ws_workers s)")
    case True
    show ?thesis
    proof (cases "ws_workers s ! i")
      case Free
      with assms WsWorker True take_request_queue_ok show ?thesis by (auto simp: multiConn_def)
    next
      case (Busy r)
      with assms(2) WsWorker True obtain u w where u: "perform_request a r s = Some (u, w)" "t = u\<lparr>ws_workers := (ws_workers s)[i := w]\<rparr>"
        by (auto simp: multiConn_def split: bind_splits)
      with perform_same_queue [OF u(1)] assms(1) show ?thesis by (simp add: queue_ok_def same_queue_def)
    qed (use assms WsWorker True in \<open>auto simp: multiConn_def queue_ok_def connectCallback_def ws_emit_def Let_def\<close>)
  next
    case False
    with assms WsWorker show ?thesis by (simp add: multiConn_def)
  qed
next
  case (WsMessage op content r)
  with assms have "same_queue s t" by (auto simp: onMessageHandler_def ws_emit_def same_queue_def split: if_splits)
  with assms(1) show ?thesis by (rule queue_ok_same)
next
  case WsPoll
  with assms show ?thesis by (auto simp: queue_ok_def pollThread_def split: poll_at.splits if_splits)
next
  case WsPost
  with assms show ?thesis by (auto simp: queue_ok_def post_queue_def)
next
  case WsPush
  with assms push_queue_ok show ?thesis by auto
qed (use assms in \<open>auto simp: ws_getConnect_def ws_send_def ws_sendBinary_def ws_ping_def ws_getClose_def with_socket_def Let_def
      intro!: enqueue_queue_ok split: if_splits option.splits, (simp_all add: queue_ok_def ws_put_def)?\<close>)

lemma new_queue_ok: "queue_ok new_websockets"
  by (simp add: queue_ok_def new_websockets_def)

lemma ws_run_queue_ok: "run_opt ws_do s es = Some t \<Longrightarrow> queue_ok s \<Longrightarrow> queue_ok t"
proof (induction es arbitrary: s)
  case (Cons e es)
  then obtain u where "ws_do s e = Some u" "run_opt ws_do u es = Some t" by (cases "ws_do s e") auto
  with Cons ws_do_queue_ok show ?case by blast
qed simp

section \<open>What JavaScript hears\<close>

definition opened :: "websockets \<Rightarrow> nat \<Rightarrow> bool" where
  "opened s r \<longleftrightarrow> np_conn (ws_requests s r) \<noteq> None \<and> WebsocketOpen (socketID (ws_requests s r)) \<in> set (ws_events s)"

fun reports_on :: "ws_event \<Rightarrow> int option" where
  "reports_on (WebsocketClosed i c re) = Some i"
| "reports_on (WebsocketFailed i m) = Some i"
| "reports_on e = None"

definition open_first :: "ws_event list \<Rightarrow> bool" where
  "open_first l \<longleftrightarrow> (\<forall>es e es' i. l = es @ e # es' \<longrightarrow> reports_on e = Some i \<longrightarrow> WebsocketOpen i \<in> set es)"

definition sockets_ok :: "websockets \<Rightarrow> bool" where
  "sockets_ok s \<longleftrightarrow>
     (\<forall>i r. connectionList s i = Some (Some r) \<longrightarrow> r < ws_next s \<and> socketID (ws_requests s r) = i \<and> np_conn (ws_requests s r) \<noteq> None) \<and>
     (\<forall>r. messageType (ws_requests s r) \<noteq> REQUEST_MESSAGE_TYPE_OPEN \<longrightarrow> opened s r) \<and>
     (\<forall>r. Connected r \<in> set (ws_workers s) \<longrightarrow> r < ws_next s \<and> np_conn (ws_requests s r) \<noteq> None) \<and>
     (\<forall>e i. Telling e \<in> set (ws_workers s) \<longrightarrow> reports_on e = Some i \<longrightarrow> WebsocketOpen i \<in> set (ws_events s)) \<and>
     (\<forall>r. r \<in> set (RequestQueue s) \<or> Busy r \<in> set (ws_workers s) \<longrightarrow> r < ws_next s) \<and>
     (\<forall>r k. ws_js s = JsPush r k \<longrightarrow> r < ws_next s \<and> (k \<noteq> None \<longrightarrow> opened s r)) \<and>
     (\<forall>r \<ge> ws_next s. messageType (ws_requests s r) = REQUEST_MESSAGE_TYPE_OPEN) \<and> open_first (ws_events s)"

lemma open_first_add: "open_first l \<Longrightarrow> (\<And>i. reports_on e = Some i \<Longrightarrow> WebsocketOpen i \<in> set l) \<Longrightarrow> open_first (l @ [e])"
  unfolding open_first_def
proof (intro allI impI)
  fix es e' es' i
  assume a: "\<forall>es e es' i. l = es @ e # es' \<longrightarrow> reports_on e = Some i \<longrightarrow> WebsocketOpen i \<in> set es"
    and b: "\<And>i. reports_on e = Some i \<Longrightarrow> WebsocketOpen i \<in> set l" and c: "l @ [e] = es @ e' # es'" and d: "reports_on e' = Some i"
  show "WebsocketOpen i \<in> set es"
  proof (cases es' rule: rev_exhaust)
    case Nil
    with b c d show ?thesis by simp
  next
    case (snoc us u)
    with c have "l = es @ e' # us" by simp
    with a d show ?thesis by blast
  qed
qed

lemma sockets_okD:
  assumes "sockets_ok s"
  shows "connectionList s i = Some (Some r) \<Longrightarrow> r < ws_next s" and "connectionList s i = Some (Some r) \<Longrightarrow> socketID (ws_requests s r) = i"
    and "connectionList s i = Some (Some r) \<Longrightarrow> np_conn (ws_requests s r) \<noteq> None"
    and "messageType (ws_requests s r) \<noteq> REQUEST_MESSAGE_TYPE_OPEN \<Longrightarrow> opened s r"
    and "Connected r \<in> set (ws_workers s) \<Longrightarrow> r < ws_next s" and "Connected r \<in> set (ws_workers s) \<Longrightarrow> np_conn (ws_requests s r) \<noteq> None"
    and "r \<in> set (RequestQueue s) \<Longrightarrow> r < ws_next s" and "Busy r \<in> set (ws_workers s) \<Longrightarrow> r < ws_next s"
    and "ws_next s \<le> r \<Longrightarrow> messageType (ws_requests s r) = REQUEST_MESSAGE_TYPE_OPEN" and "open_first (ws_events s)"
    and "Telling e \<in> set (ws_workers s) \<Longrightarrow> reports_on e = Some i \<Longrightarrow> WebsocketOpen i \<in> set (ws_events s)"
    and "ws_js s = JsPush r k \<Longrightarrow> r < ws_next s" and "ws_js s = JsPush r (Some ty) \<Longrightarrow> opened s r"
  using assms unfolding sockets_ok_def by blast+

text \<open>An event about a socket that was opened, or another one that reports nothing.\<close>

lemma emit_sockets_ok:
  assumes "sockets_ok s" and "\<And>i. reports_on e = Some i \<Longrightarrow> WebsocketOpen i \<in> set (ws_events s)"
  shows "sockets_ok (ws_emit e s)"
  using assms open_first_add [OF sockets_okD(10) [OF assms(1)] assms(2)]
  unfolding sockets_ok_def by (auto simp: ws_emit_def opened_def)

lemma call_sockets_ok: "sockets_ok s \<Longrightarrow> sockets_ok (ws_call c s)"
  unfolding sockets_ok_def by (auto simp: ws_call_def opened_def)

lemma failure_sockets_ok: "sockets_ok s \<Longrightarrow> opened s r \<Longrightarrow> sockets_ok (failure r m s)"
  unfolding failure_def by (rule emit_sockets_ok) (auto simp: opened_def)

lemma opened_call: "opened (ws_call c s) r = opened s r"
  by (simp add: opened_def ws_call_def)

lemma erase_sockets_ok: "sockets_ok s \<Longrightarrow> sockets_ok (s\<lparr>connectionList := (connectionList s)(i := None)\<rparr>)"
  unfolding sockets_ok_def by (auto simp: opened_def)

text \<open>Where a worker may be next, and what it has to tell.\<close>

definition worker_ok :: "websockets \<Rightarrow> nat \<Rightarrow> worker_at \<Rightarrow> bool" where
  "worker_ok s r w = (case w of
       Free \<Rightarrow> True
     | Busy _ \<Rightarrow> False
     | Connected r' \<Rightarrow> r' = r \<and> np_conn (ws_requests s r) \<noteq> None
     | Telling e \<Rightarrow> (\<forall>i. reports_on e = Some i \<longrightarrow> WebsocketOpen i \<in> set (ws_events s)))"

lemma close_sockets_ok: "sockets_ok s \<Longrightarrow> opened s r \<Longrightarrow> closeNopoll r s = (t, w) \<Longrightarrow> sockets_ok t \<and> worker_ok t r w"
  by (auto simp: closeNopoll_def disconnectCallback_def worker_ok_def Let_def opened_call
      intro!: failure_sockets_ok erase_sockets_ok call_sockets_ok split: option.splits if_splits)
    (auto simp: opened_def ws_call_def)

lemma send_sockets_ok: "sockets_ok s \<Longrightarrow> opened s r \<Longrightarrow> sockets_ok (sendNopoll a r s)"
  by (auto simp: sendNopoll_def Let_def opened_call intro!: failure_sockets_ok call_sockets_ok split: option.splits)

lemma binary_sockets_ok: "sockets_ok s \<Longrightarrow> opened s r \<Longrightarrow> sendBinaryNopoll a r s = Some t \<Longrightarrow> sockets_ok t"
  by (auto simp: sendBinaryNopoll_def Let_def opened_call intro!: failure_sockets_ok call_sockets_ok split: option.splits if_splits)

lemma ping_sockets_ok: "sockets_ok s \<Longrightarrow> opened s r \<Longrightarrow> sockets_ok (pingNopoll r s)"
  by (auto simp: pingNopoll_def intro!: failure_sockets_ok call_sockets_ok split: option.splits)

lemma connect_sockets_ok:
  assumes "sockets_ok s" and "getConnectNopoll a r s = (t, ready)" and "r < ws_next s"
  shows "sockets_ok t" and "ready \<Longrightarrow> np_conn (ws_requests t r) \<noteq> None"
proof -
  have p: "sockets_ok (ws_put r ((ws_requests s r)\<lparr>np_conn := Some c\<rparr>) s)" if "sockets_ok s" for c s
    using that unfolding sockets_ok_def by (auto simp: ws_put_def opened_def)
  show "sockets_ok t"
    using assms p [OF call_sockets_ok [OF assms(1)]]
    by (auto simp: getConnectNopoll_def Let_def call_sockets_ok split: option.splits prod.splits)
  show "ready \<Longrightarrow> np_conn (ws_requests t r) \<noteq> None"
    using assms(2) by (auto simp: getConnectNopoll_def Let_def ws_put_def split: option.splits prod.splits)
qed

lemma perform_sockets_ok:
  assumes "sockets_ok s" and "perform_request a r s = Some (t, w)" and "r < ws_next s"
  shows "sockets_ok t \<and> worker_ok t r w"
proof (cases "messageType (ws_requests s r)")
  case REQUEST_MESSAGE_TYPE_OPEN
  then obtain ready where g: "getConnectNopoll a r s = (t, ready)" "w = (if ready then Connected r else Free)"
    using assms(2) by (auto simp: perform_request_def split: prod.splits)
  with connect_sockets_ok [OF assms(1) g(1) assms(3)] show ?thesis by (auto simp: worker_ok_def)
next
  case REQUEST_MESSAGE_TYPE_SENDBINARY
  with assms(1) have "opened s r" using sockets_okD(4) by simp
  with assms REQUEST_MESSAGE_TYPE_SENDBINARY show ?thesis by (auto simp: perform_request_def worker_ok_def intro: binary_sockets_ok)
next
  case REQUEST_MESSAGE_TYPE_CLOSE
  with assms(1) have "opened s r" using sockets_okD(4) by simp
  moreover have "closeNopoll r s = (t, w)" using assms(2) REQUEST_MESSAGE_TYPE_CLOSE by (simp add: perform_request_def)
  ultimately show ?thesis by (rule close_sockets_ok [OF assms(1)])
qed (use assms sockets_okD(4) [OF assms(1), of r] in
      \<open>auto simp: perform_request_def worker_ok_def intro: send_sockets_ok ping_sockets_ok\<close>)

lemma enqueue_sockets_ok: "sockets_ok s \<Longrightarrow> opened s r \<Longrightarrow> r < ws_next s \<Longrightarrow> sockets_ok (enqueue ty r s)"
  unfolding sockets_ok_def by (auto simp: enqueue_def ws_put_def opened_def)

lemma push_sockets_ok: "sockets_ok s \<Longrightarrow> sockets_ok (push_request s)"
  unfolding sockets_ok_def by (auto simp: push_request_def ws_put_def opened_def split: js_at.splits option.splits)

lemma put_data_sockets_ok:
  assumes "sockets_ok s" and "q = ws_requests s r" and "np_conn q' = np_conn q" and "socketID q' = socketID q" and "messageType q' = messageType q"
  shows "sockets_ok (ws_put r q' s)" and "opened (ws_put r q' s) r = opened s r"
  using assms unfolding sockets_ok_def by (auto simp: ws_put_def opened_def)

lemma with_socket_ok:
  assumes "sockets_ok s" and "WebsocketOpen i \<in> set (ws_events s)" and "\<And>r. r < ws_next s \<Longrightarrow> opened s r \<Longrightarrow> sockets_ok (f r s)"
  shows "sockets_ok (with_socket i f s)"
proof -
  have "sockets_ok (s\<lparr>connectionList := (connectionList s)(i \<mapsto> None)\<rparr>)"
    using assms(1) unfolding sockets_ok_def by (auto simp: opened_def)
  moreover have "opened s r" if "connectionList s i = Some (Some r)" for r
    using sockets_okD(2,3) [OF assms(1) that] assms(2) by (simp add: opened_def)
  ultimately show ?thesis using assms(3) sockets_okD(1) [OF assms(1)] by (auto simp: with_socket_def split: option.splits)
qed

lemma put_enqueue_ok:
  assumes "sockets_ok s" and "opened s r" and "r < ws_next s"
    and "np_conn q = np_conn (ws_requests s r)" and "socketID q = socketID (ws_requests s r)" and "messageType q = messageType (ws_requests s r)"
  shows "sockets_ok (enqueue ty r (ws_put r q s))"
  using put_data_sockets_ok [OF assms(1) refl assms(4-6)] assms(2,3) by (intro enqueue_sockets_ok) (auto simp: ws_put_def)

lemma connect_js_ok:
  assumes "sockets_ok s"
  shows "sockets_ok (ws_getConnect url i s)"
proof -
  note D = sockets_okD [OF assms]
  have n: "r \<noteq> ws_next s" if "connectionList s j = Some (Some r) \<or> Connected r \<in> set (ws_workers s) \<or> r \<in> set (RequestQueue s) \<or>
      Busy r \<in> set (ws_workers s)" for r j
    using that D(1) [of j r] D(5,7,8) [of r] by auto
  from assms n show ?thesis
    unfolding sockets_ok_def
    by (auto simp: ws_getConnect_def enqueue_def ws_put_def opened_def new_request_def Let_def less_Suc_eq)
qed

lemma take_request_ok:
  assumes "sockets_ok s"
  shows "sockets_ok (take_request i s)"
proof -
  have a: "set (take i ws @ drop (Suc i) ws) \<subseteq> set ws" for ws :: "worker_at list"
    using set_take_subset [of i ws] set_drop_subset [of "Suc i" ws] by auto
  have b: "set ((ws_workers s)[i := Busy r]) \<subseteq> insert (Busy r) (set (ws_workers s))" for r by (rule set_update_subset_insert)
  show ?thesis
  proof (cases "RequestQueue s")
    case Nil
    with a [of "ws_workers s"] assms show ?thesis unfolding sockets_ok_def
      by (auto simp: take_request_def opened_def)
  next
    case (Cons r rs)
    with b [of r] assms show ?thesis unfolding sockets_ok_def
      by (auto simp: take_request_def opened_def)
  qed
qed

text \<open>A worker moves on.\<close>

lemma move_worker_ok:
  assumes "sockets_ok u" and "worker_ok u r w" and "r < ws_next u"
  shows "sockets_ok (u\<lparr>ws_workers := (ws_workers u)[i := w]\<rparr>)"
proof -
  have "set ((ws_workers u)[i := w]) \<subseteq> insert w (set (ws_workers u))" by (rule set_update_subset_insert)
  with assms show ?thesis unfolding sockets_ok_def by (auto simp: opened_def worker_ok_def)
qed

lemma worker_sockets_ok:
  assumes "sockets_ok s" and "multiConn a i s = Some t"
  shows "sockets_ok t"
proof (cases "i < length (ws_workers s)")
  case True
  then have m: "ws_workers s ! i \<in> set (ws_workers s)" by simp
  note D = sockets_okD [OF assms(1)]
  show ?thesis
  proof (cases "ws_workers s ! i")
    case Free
    with assms True take_request_ok show ?thesis by (auto simp: multiConn_def)
  next
    case (Busy r)
    then obtain u w where u: "perform_request a r s = Some (u, w)" "t = u\<lparr>ws_workers := (ws_workers s)[i := w]\<rparr>"
      using assms(2) True by (auto simp: multiConn_def split: bind_splits)
    have r: "r < ws_next s" using D(8) [of r] Busy m by simp
    have q: "ws_workers u = ws_workers s" "ws_next u = ws_next s" using perform_same_queue [OF u(1)] by (simp_all add: same_queue_def)
    show ?thesis using move_worker_ok [of u r w i] perform_sockets_ok [OF assms(1) u(1) r] r q u(2) by simp
  next
    case (Connected r)
    let ?i = "socketID (ws_requests s r)"
    let ?u = "s\<lparr>connectionList := (connectionList s)(?i \<mapsto> Some r)\<rparr>"
    have c: "r < ws_next s" "np_conn (ws_requests s r) \<noteq> None" using D(5,6) [of r] Connected m by auto
    then have "sockets_ok ?u" using assms(1) unfolding sockets_ok_def by (auto simp: opened_def)
    from move_worker_ok [OF this, of r "Telling (WebsocketOpen ?i)" i] c(1)
    show ?thesis using assms(2) True Connected by (simp add: multiConn_def connectCallback_def worker_ok_def Let_def)
  next
    case (Telling e)
    have "sockets_ok (ws_emit e s)" using D(11) [of e] Telling m by (intro emit_sockets_ok [OF assms(1)]) simp
    moreover have "set ((ws_workers s)[i := Free]) \<subseteq> insert Free (set (ws_workers s))" by (rule set_update_subset_insert)
    ultimately have "sockets_ok ((ws_emit e s)\<lparr>ws_workers := (ws_workers s)[i := Free]\<rparr>)"
      unfolding sockets_ok_def by (auto simp: opened_def ws_emit_def)
    with assms(2) True Telling show ?thesis by (simp add: multiConn_def)
  qed
next
  case False
  with assms show ?thesis by (simp add: multiConn_def)
qed

text \<open>JavaScript uses a socket only when it was told that it is open.\<close>

definition js_waits :: "websockets \<Rightarrow> ws_step \<Rightarrow> bool" where
  "js_waits s e =
     (case e of
        WsSend _ i \<Rightarrow> WebsocketOpen i \<in> set (ws_events s)
      | WsSendBinary _ i \<Rightarrow> WebsocketOpen i \<in> set (ws_events s)
      | WsPing i \<Rightarrow> WebsocketOpen i \<in> set (ws_events s)
      | WsClose _ _ i \<Rightarrow> WebsocketOpen i \<in> set (ws_events s)
      | _ \<Rightarrow> True)"

fun js_waits_run :: "websockets \<Rightarrow> ws_step list \<Rightarrow> bool" where
  "js_waits_run s [] \<longleftrightarrow> True"
| "js_waits_run s (e # es) \<longleftrightarrow> js_waits s e \<and> (case ws_do s e of None \<Rightarrow> True | Some t \<Rightarrow> js_waits_run t es)"

lemma ws_do_sockets_ok:
  assumes "sockets_ok s" and "js_waits s e" and "ws_do s e = Some t"
  shows "sockets_ok t"
proof (cases e)
  case (WsConnect url i)
  with assms connect_js_ok show ?thesis by (auto split: if_splits)
next
  case (WsSend msg i)
  with assms(2) have "WebsocketOpen i \<in> set (ws_events s)" by (simp add: js_waits_def)
  then have "sockets_ok (ws_send msg i s)" unfolding ws_send_def by (rule with_socket_ok [OF assms(1)]) (rule put_enqueue_ok [OF assms(1)]; simp)
  with assms WsSend show ?thesis by (auto split: if_splits)
next
  case (WsSendBinary msg i)
  with assms(2) have "WebsocketOpen i \<in> set (ws_events s)" by (simp add: js_waits_def)
  then have "sockets_ok (ws_sendBinary msg i s)" unfolding ws_sendBinary_def
    by (rule with_socket_ok [OF assms(1)]) (rule put_enqueue_ok [OF assms(1)]; simp)
  with assms WsSendBinary show ?thesis by (auto split: if_splits)
next
  case (WsPing i)
  with assms(2) have "WebsocketOpen i \<in> set (ws_events s)" by (simp add: js_waits_def)
  moreover have "sockets_ok (s\<lparr>ws_js := JsPush r (Some REQUEST_MESSAGE_TYPE_PING)\<rparr>)" if "r < ws_next s" "opened s r" for r
    using assms(1) that unfolding sockets_ok_def by (auto simp: opened_def)
  ultimately have "sockets_ok (ws_ping i s)" unfolding ws_ping_def by (rule with_socket_ok [OF assms(1)])
  with assms WsPing show ?thesis by (auto split: if_splits)
next
  case (WsClose code reason i)
  with assms(2) have "WebsocketOpen i \<in> set (ws_events s)" by (simp add: js_waits_def)
  then have "sockets_ok (ws_getClose code reason i s)" unfolding ws_getClose_def
    by (rule with_socket_ok [OF assms(1)]) (rule put_enqueue_ok [OF assms(1)]; simp)
  with assms WsClose show ?thesis by (auto split: if_splits)
next
  case WsPush
  with assms push_sockets_ok show ?thesis by auto
next
  case WsPost
  have "sockets_ok (post_queue s)" using assms(1) unfolding sockets_ok_def by (auto simp: post_queue_def opened_def)
  with assms(3) WsPost show ?thesis by simp
next
  case WsPoll
  have "sockets_ok (pollThread s)" using assms(1) unfolding sockets_ok_def
    by (cases "poll_thread s") (auto simp: pollThread_def opened_def)
  with assms(3) WsPoll show ?thesis by simp
next
  case (WsWorker a i)
  with assms worker_sockets_ok show ?thesis by auto
next
  case (WsMessage op content r)
  have "sockets_ok (ws_emit (WebsocketMessage i ty c) s)" for i ty c by (rule emit_sockets_ok [OF assms(1)]) simp
  with assms WsMessage show ?thesis by (auto simp: onMessageHandler_def split: if_splits)
qed

lemma new_sockets_ok: "sockets_ok new_websockets"
  by (simp add: sockets_ok_def new_websockets_def new_request_def open_first_def)

lemma ws_run_sockets_ok: "run_opt ws_do s es = Some t \<Longrightarrow> js_waits_run s es \<Longrightarrow> sockets_ok s \<Longrightarrow> sockets_ok t"
proof (induction es arbitrary: s)
  case (Cons e es)
  then obtain u where "ws_do s e = Some u" "run_opt ws_do u es = Some t" by (cases "ws_do s e") auto
  with Cons ws_do_sockets_ok show ?case by fastforce
qed simp

section \<open>Properties\<close>

lemma find_colon: "CHR '':'' \<notin> set x \<Longrightarrow> find_sub '':'' (x @ CHR '':'' # y) = Some (length x)"
  by (induction x) auto

lemma find_no_colon: "CHR '':'' \<notin> set x \<Longrightarrow> find_sub '':'' x = None"
  by (induction x) auto

text \<open>Addresses: what stands before \<open>://\<close> is a scheme that ends in \<open>s\<close>, the host has no colon; host and
  port come back.\<close>

theorem address_roundtrip:
  assumes "CHR '':'' \<notin> set scheme" and "CHR '':'' \<notin> set host"
  shows "parseUrl (scheme @ ''s://'' @ host @ '':'' @ port) = Some (host, port)"
proof -
  have "contains ''s://'' (scheme @ ''s://'' @ host @ '':'' @ port)"
    using find_sub_at [of scheme "''s://''" "host @ '':'' @ port"] by (auto simp: contains_def)
  moreover have "find_sub '':'' (scheme @ ''s://'' @ host @ '':'' @ port) = Some (length (scheme @ ''s''))"
    using find_colon [of "scheme @ ''s''" "''//'' @ host @ '':'' @ port"] assms(1) by simp
  moreover have "drop (length (scheme @ ''s'') + 3) (scheme @ ''s://'' @ host @ '':'' @ port) = host @ '':'' @ port"
    by simp
  ultimately show ?thesis using find_colon [OF assms(2), of port] by (simp add: parseUrl_def)
qed

text \<open>Without a port, the host is taken for the port as well.\<close>

theorem address_without_port:
  assumes "CHR '':'' \<notin> set scheme" and "CHR '':'' \<notin> set host"
  shows "parseUrl (scheme @ ''s://'' @ host) = Some (host, host)"
proof -
  have "contains ''s://'' (scheme @ ''s://'' @ host)"
    using find_sub_at [of scheme "''s://''" host] by (auto simp: contains_def)
  moreover have "find_sub '':'' (scheme @ ''s://'' @ host) = Some (length (scheme @ ''s''))"
    using find_colon [of "scheme @ ''s''" "''//'' @ host"] assms(1) by simp
  moreover have "drop (length (scheme @ ''s'') + 3) (scheme @ ''s://'' @ host) = host" by simp
  ultimately show ?thesis using find_no_colon [OF assms(2)] by (simp add: parseUrl_def)
qed

text \<open>C36: Whatever JavaScript, nopoll and the threads do, in any order: the operations are taken in the order in
  which they were put into the queue, each once; there are never more than five workers and their number is
  known; and while an operation waits, the thread that starts workers is not asleep.\<close>

theorem queue_is_served:
  assumes "run_opt ws_do new_websockets es = Some s"
  shows "ws_taken s @ RequestQueue s = ws_pushed s \<and> currentWorkerThreadCount s = length (ws_workers s) \<and> length (ws_workers s) \<le> 5 \<and>
    (RequestQueue s = [] \<or> poll_thread s = PollLoop \<or> 0 < startDownloadingThread s \<or> ws_js s = JsPost)"
proof -
  have "queue_ok s" by (rule ws_run_queue_ok [OF assms new_queue_ok])
  then show ?thesis
    by (auto simp: queue_ok_def MAX_WORKER_THEAD_COUNT_def) (metis poll_at.exhaust)
qed

text \<open>The operation at the front of the queue is taken within three steps of the threads, unless all five
  workers are busy.\<close>

theorem front_operation_taken:
  assumes "run_opt ws_do new_websockets es = Some s" and "ws_js s \<noteq> JsPost" and "RequestQueue s = r # rs"
    and "length (ws_workers s) < 5 \<or> Free \<in> set (ws_workers s)"
  shows "\<exists>es t. length es \<le> 3 \<and> set es \<subseteq> insert WsPoll (range (WsWorker a)) \<and> run_opt ws_do s es = Some t \<and>
    RequestQueue t = rs \<and> ws_taken t = ws_taken s @ [r]"
proof (cases "Free \<in> set (ws_workers s)")
  case True
  then obtain i where i: "i < length (ws_workers s)" "ws_workers s ! i = Free" by (auto simp: in_set_conv_nth)
  with assms(3) have "run_opt ws_do s [WsWorker a i] = Some (s\<lparr>RequestQueue := rs, ws_workers := (ws_workers s)[i := Busy r],
      ws_taken := ws_taken s @ [r]\<rparr>)"
    by (simp add: multiConn_def take_request_def)
  then show ?thesis by (intro exI [of _ "[WsWorker a i]"] exI) (auto simp del: run_opt.simps)
next
  case False
  note Q = ws_run_queue_ok [OF assms(1) new_queue_ok, unfolded queue_ok_def]
  let ?n = "length (ws_workers s)"
  define s1 where "s1 = (if poll_thread s = PollWait then pollThread s else s)"
  have s1: "poll_thread s1 = PollLoop" "RequestQueue s1 = r # rs" "ws_workers s1 = ws_workers s" "ws_taken s1 = ws_taken s"
      "currentWorkerThreadCount s1 < MAX_WORKER_THEAD_COUNT"
    using Q assms(2-4) False by (cases "poll_thread s"; simp add: s1_def pollThread_def MAX_WORKER_THEAD_COUNT_def)+
  let ?es = "if poll_thread s = PollWait then [WsPoll] else []"
  have a: "run_opt ws_do s (?es @ [WsPoll, WsWorker a ?n]) = run_opt ws_do s1 [WsPoll, WsWorker a ?n]" by (simp add: s1_def)
  have "\<exists>t. run_opt ws_do s1 [WsPoll, WsWorker a ?n] = Some t \<and> RequestQueue t = rs \<and> ws_taken t = ws_taken s @ [r]"
    using s1 by (simp add: pollThread_def multiConn_def take_request_def nth_append)
  with a show ?thesis by (intro exI [of _ "?es @ [WsPoll, WsWorker a ?n]"]) (auto simp del: run_opt.simps)
qed

text \<open>C37: As long as JavaScript uses a socket only after it was told that it is open, it is told that a socket was
  opened before it is told that it was closed or that something failed on it, and an operation is accepted only
  for a socket with a connection; whatever JavaScript, nopoll and the threads do otherwise, the callbacks of the
  workers interrupted between the change of the list and the event.\<close>

theorem opened_before_reports:
  assumes "run_opt ws_do new_websockets es = Some s" and "js_waits_run new_websockets es"
  shows "(\<forall>before e behind i. ws_events s = before @ e # behind \<longrightarrow> reports_on e = Some i \<longrightarrow> WebsocketOpen i \<in> set before) \<and>
    (\<forall>i r. connectionList s i = Some (Some r) \<longrightarrow> socketID (ws_requests s r) = i \<and> np_conn (ws_requests s r) \<noteq> None)"
proof -
  have "sockets_ok s" by (rule ws_run_sockets_ok [OF assms new_sockets_ok])
  then show ?thesis using sockets_okD(2,3,10) by (simp add: open_first_def)
qed

text \<open>The only fault is a binary frame: when no zero byte comes before the end of the buffer, its length is
  counted beyond it.\<close>

theorem only_binary_faults:
  assumes "ws_do s e = None"
  shows "\<exists>a i r c bytes behind. e = WsWorker a i \<and> ws_workers s ! i = Busy r \<and> messageType (ws_requests s r) = REQUEST_MESSAGE_TYPE_SENDBINARY \<and>
    np_conn (ws_requests s r) = Some c \<and> an_decoded a = Some (bytes, behind) \<and> CHR 0x00 \<notin> set (bytes @ behind)"
proof -
  obtain a i where e: "e = WsWorker a i" "multiConn a i s = None" using assms by (cases e) auto
  then obtain r where r: "ws_workers s ! i = Busy r" "perform_request a r s = None"
    by (auto simp: multiConn_def connectCallback_def Let_def split: if_splits worker_at.splits bind_splits)
  then show ?thesis
    using e by (auto simp: perform_request_def sendBinaryNopoll_def Let_def split: MessageType.splits prod.splits option.splits if_splits)
qed

text \<open>Two messages that JavaScript sends before a worker gets to the first: the second is sent twice, and the
  first never.\<close>

theorem second_message_overwrites:
  assumes "connectionList s i = Some (Some r)" and "np_conn (ws_requests s r) = Some c" and "RequestQueue s = []" and "ws_js s = JsFree"
    and "ws_workers s = Free # ws" and "an_sent a = int (length m2)"
  shows "\<exists>t. run_opt ws_do s ([WsSend m1 i, WsPush, WsPost, WsSend m2 i, WsPush, WsPost] @ replicate 4 (WsWorker a 0)) = Some t \<and>
    ws_calls t = ws_calls s @ [SendText c m2, SendText c m2] \<and> ws_events t = ws_events s"
  using assms
  by (simp add: ws_send_def with_socket_def enqueue_def push_request_def ws_put_def post_queue_def multiConn_def take_request_def perform_request_def
      sendNopoll_def ws_call_def Let_def eval_nat_numeral)

text \<open>A message that is sent right before the socket is closed is lost, and the socket is closed twice.\<close>

theorem close_overtakes_message:
  assumes "connectionList s i = Some (Some r)" and "np_conn (ws_requests s r) = Some c" and "RequestQueue s = []" and "ws_js s = JsFree"
    and "ws_workers s = Free # ws" and "socketID (ws_requests s r) = i"
  shows "\<exists>t. run_opt ws_do s ([WsSend m i, WsPush, WsPost, WsClose code reason i, WsPush, WsPost] @ replicate 6 (WsWorker a 0)) = Some t \<and>
    ws_calls t = ws_calls s @ [CloseExt c code reason, CloseExt c code reason] \<and>
    ws_events t = ws_events s @ [WebsocketClosed i code reason, WebsocketClosed i code reason]"
  using assms
  by (simp add: ws_send_def ws_getClose_def with_socket_def enqueue_def push_request_def ws_put_def post_queue_def multiConn_def take_request_def
      perform_request_def closeNopoll_def disconnectCallback_def ws_emit_def ws_call_def Let_def eval_nat_numeral)

text \<open>A socket that cannot be opened is never reported: no event comes, and what is sent on it is dropped
  without one.\<close>

theorem failed_open_is_silent:
  assumes "i < length (ws_workers s)" and "ws_workers s ! i = Busy r" and "messageType (ws_requests s r) = REQUEST_MESSAGE_TYPE_OPEN"
    and "an_conn a = None" and "ws_js s = JsFree" and "connectionList s j = None" and "j = socketID (ws_requests s r)"
  shows "\<exists>t. run_opt ws_do s [WsWorker a i, WsSend m j, WsPing j, WsClose code reason j] = Some t \<and> ws_events t = ws_events s \<and>
    RequestQueue t = RequestQueue s"
  using assms
  by (auto simp: multiConn_def perform_request_def getConnectNopoll_def ws_send_def ws_ping_def ws_getClose_def with_socket_def
      ws_call_def Let_def split: option.splits prod.splits)

text \<open>A message that arrives as soon as the connection is set up comes before the event that it is open.\<close>

theorem message_before_open:
  assumes "i < length (ws_workers s)" and "ws_workers s ! i = Busy r" and "messageType (ws_requests s r) = REQUEST_MESSAGE_TYPE_OPEN"
    and "an_conn a = Some c" and "parseUrl (np_url (ws_requests s r)) = Some (host, port)"
  shows "\<exists>t. run_opt ws_do s [WsWorker a i, WsMessage op content r, WsWorker a i, WsWorker a i] = Some t \<and>
    ws_events t = ws_events s @ [WebsocketMessage (socketID (ws_requests s r)) ''unKnown'' (c_str content), WebsocketOpen (socketID (ws_requests s r))]"
  using assms
  by (simp add: multiConn_def perform_request_def getConnectNopoll_def onMessageHandler_def message_type_def connectCallback_def
      ws_emit_def ws_call_def ws_put_def Let_def)

section \<open>Examples\<close>

definition sample_answer :: "int \<Rightarrow> nopoll_answer" where
  "sample_answer n = \<lparr>an_conn = Some 3, an_sent = n, an_decoded = Some (''ab'', ''c'')\<rparr>"

abbreviation sample_open :: "ws_step list" where
  "sample_open \<equiv> [WsConnect ''wss://h:80'' 7, WsPush, WsPost, WsPoll, WsWorker (sample_answer 1) 0, WsWorker (sample_answer 1) 0,
     WsWorker (sample_answer 1) 0, WsWorker (sample_answer 1) 0]"

definition sample_socket :: websockets where
  "sample_socket = new_websockets
     \<lparr>ws_requests := (\<lambda>_. new_request '''' 0)(0 := (new_request ''wss://h:80'' 7)\<lparr>np_conn := Some 3\<rparr>), ws_next := 1,
      startDownloadingThread := 1, ws_workers := [Free], currentWorkerThreadCount := 1,
      connectionList := [7 \<mapsto> Some 0], ws_events := [WebsocketOpen 7], ws_calls := [ConnNew ''h'' ''80''], ws_pushed := [0], ws_taken := [0]\<rparr>"

lemma sample_address: "parseUrl ''wss://h:80'' = Some (''h'', ''80'')"
  by (simp add: parseUrl_def contains_def)

lemma sample_open_run: "run_opt ws_do new_websockets sample_open = Some sample_socket"
  by (simp add: sample_address ws_ops new_websockets_def sample_socket_def sample_answer_def multiConn_def perform_request_def
      MAX_WORKER_THEAD_COUNT_def new_request_def c_str_def Let_def fun_eq_iff)

lemma address_roundtrip_witness: "parseUrl (''ws'' @ ''s://'' @ ''h'' @ '':'' @ ''80'') = Some (''h'', ''80'')"
  by (rule address_roundtrip) simp_all

lemma address_without_port_witness: "parseUrl (''ws'' @ ''s://'' @ ''h'') = Some (''h'', ''h'')"
  by (rule address_without_port) simp_all

lemma queue_is_served_witness:
  "ws_taken sample_socket @ RequestQueue sample_socket = ws_pushed sample_socket \<and>
   currentWorkerThreadCount sample_socket = length (ws_workers sample_socket) \<and> length (ws_workers sample_socket) \<le> 5 \<and>
   (RequestQueue sample_socket = [] \<or> poll_thread sample_socket = PollLoop \<or> 0 < startDownloadingThread sample_socket \<or> ws_js sample_socket = JsPost)"
  using queue_is_served [OF sample_open_run] by blast

lemma front_operation_taken_witness:
  "\<exists>s es t. run_opt ws_do new_websockets [WsConnect ''wss://h:80'' 7, WsPush, WsPost] = Some s \<and> length es \<le> 3 \<and>
     set es \<subseteq> insert WsPoll (range (WsWorker (sample_answer 1))) \<and> run_opt ws_do s es = Some t \<and> RequestQueue t = [] \<and> ws_taken t = ws_taken s @ [0]"
proof -
  obtain s where s: "run_opt ws_do new_websockets [WsConnect ''wss://h:80'' 7, WsPush, WsPost] = Some s" "ws_js s \<noteq> JsPost" "RequestQueue s = [0]"
      "length (ws_workers s) < 5 \<or> Free \<in> set (ws_workers s)"
    by (simp add: ws_ops new_websockets_def Let_def)
  from front_operation_taken [OF s] s(1) show ?thesis by blast
qed

abbreviation sample_use :: "ws_step list" where
  "sample_use \<equiv> [WsPing 7, WsPush, WsPost, WsWorker (sample_answer 1) 0, WsWorker (sample_answer 1) 0,
     WsClose 1000 ''bye'' 7, WsPush, WsPost, WsWorker (sample_answer 1) 0, WsWorker (sample_answer 1) 0, WsWorker (sample_answer 1) 0]"

lemma js_waits_append:
  "js_waits_run s (es @ es') \<longleftrightarrow> js_waits_run s es \<and> (case run_opt ws_do s es of None \<Rightarrow> True | Some t \<Rightarrow> js_waits_run t es')"
  by (induction es arbitrary: s) (auto split: option.splits bind_splits)

lemma opened_before_reports_witness:
  "\<exists>t. run_opt ws_do new_websockets (sample_open @ sample_use) = Some t \<and>
     ws_events t = [WebsocketOpen 7] @ WebsocketClosed 7 1000 ''bye'' # [] \<and> WebsocketOpen 7 \<in> set [WebsocketOpen 7]"
proof -
  obtain t where t: "run_opt ws_do new_websockets (sample_open @ sample_use) = Some t" "ws_events t = [WebsocketOpen 7] @ WebsocketClosed 7 1000 ''bye'' # []"
    unfolding run_opt_append sample_open_run
    by (simp add: sample_socket_def ws_ops new_websockets_def multiConn_def perform_request_def new_request_def Let_def)
  have "js_waits_run new_websockets sample_open"
    by (simp add: js_waits_def sample_address ws_ops new_websockets_def sample_answer_def multiConn_def perform_request_def
      MAX_WORKER_THEAD_COUNT_def new_request_def c_str_def Let_def)
  moreover have "js_waits_run sample_socket sample_use"
    by (simp add: js_waits_def sample_socket_def ws_ops new_websockets_def multiConn_def perform_request_def new_request_def Let_def)
  ultimately have "js_waits_run new_websockets (sample_open @ sample_use)" by (simp only: js_waits_append sample_open_run option.case)
  from opened_before_reports [OF t(1) this] t show ?thesis by simp
qed

text \<open>A socket that JavaScript closes as soon as the module has it in its list, before it is told that the socket
  is open: another worker can report the end first.\<close>

theorem close_overtakes_open:
  "\<exists>t. run_opt ws_do new_websockets
      ([WsConnect ''wss://h:80'' 7, WsPush, WsPost, WsPoll] @ replicate 3 (WsWorker (sample_answer 1) 0) @
       [WsClose 1000 ''bye'' 7, WsPush, WsPost, WsPoll] @ replicate 3 (WsWorker (sample_answer 1) 1) @ [WsWorker (sample_answer 1) 0]) = Some t \<and>
    ws_events t = [WebsocketClosed 7 1000 ''bye'', WebsocketOpen 7]"
  by (simp add: sample_address ws_ops new_websockets_def sample_answer_def multiConn_def perform_request_def
      MAX_WORKER_THEAD_COUNT_def new_request_def c_str_def Let_def eval_nat_numeral)

lemma only_binary_faults_witness:
  "\<exists>s a i r c bytes behind. ws_do s (WsWorker (sample_answer 1) 0) = None \<and>
     WsWorker (sample_answer 1) 0 = WsWorker a i \<and> ws_workers s ! i = Busy r \<and> messageType (ws_requests s r) = REQUEST_MESSAGE_TYPE_SENDBINARY \<and>
     np_conn (ws_requests s r) = Some c \<and> an_decoded a = Some (bytes, behind) \<and> CHR 0x00 \<notin> set (bytes @ behind)"
proof -
  obtain s where s: "run_opt ws_do sample_socket [WsSendBinary ''YWJj'' 7, WsPush, WsPost, WsWorker (sample_answer 1) 0] = Some s"
      "ws_do s (WsWorker (sample_answer 1) 0) = None"
    by (simp add: sample_socket_def sample_answer_def ws_ops new_websockets_def multiConn_def perform_request_def new_request_def Let_def)
  from only_binary_faults [OF s(2)] s(2) show ?thesis by blast
qed

lemma second_message_overwrites_witness:
  "\<exists>t. run_opt ws_do sample_socket ([WsSend ''one'' 7, WsPush, WsPost, WsSend ''two'' 7, WsPush, WsPost] @ replicate 4 (WsWorker (sample_answer 3) 0)) = Some t \<and>
     ws_calls t = ws_calls sample_socket @ [SendText 3 ''two'', SendText 3 ''two''] \<and> ws_events t = ws_events sample_socket"
  by (rule second_message_overwrites [where r = 0 and ws = "[]"]) (simp_all add: sample_socket_def new_websockets_def sample_answer_def)

lemma close_overtakes_message_witness:
  "\<exists>t. run_opt ws_do sample_socket ([WsSend ''one'' 7, WsPush, WsPost, WsClose 1000 ''bye'' 7, WsPush, WsPost] @ replicate 6 (WsWorker (sample_answer 3) 0)) = Some t \<and>
     ws_calls t = ws_calls sample_socket @ [CloseExt 3 1000 ''bye'', CloseExt 3 1000 ''bye''] \<and>
     ws_events t = ws_events sample_socket @ [WebsocketClosed 7 1000 ''bye'', WebsocketClosed 7 1000 ''bye'']"
  by (rule close_overtakes_message [where r = 0 and ws = "[]"]) (simp_all add: sample_socket_def new_websockets_def new_request_def)

abbreviation sample_opening :: "ws_step list" where
  "sample_opening \<equiv> [WsConnect ''wss://h:80'' 7, WsPush, WsPost, WsPoll, WsWorker (sample_answer 1) 0]"

lemma sample_opening_run:
  obtains s where "run_opt ws_do new_websockets sample_opening = Some s" and "ws_workers s = [Busy 0]" and "ws_js s = JsFree"
    and "connectionList s 7 = None" and "ws_requests s 0 = new_request ''wss://h:80'' 7"
  by (simp add: ws_ops new_websockets_def multiConn_def MAX_WORKER_THEAD_COUNT_def new_request_def c_str_def Let_def)

lemma failed_open_is_silent_witness:
  "\<exists>s t. run_opt ws_do new_websockets sample_opening = Some s \<and>
     run_opt ws_do s [WsWorker ((sample_answer 1)\<lparr>an_conn := None\<rparr>) 0, WsSend ''m'' 7, WsPing 7, WsClose 1000 '''' 7] = Some t \<and>
     ws_events t = ws_events s \<and> RequestQueue t = RequestQueue s"
proof -
  obtain s where s: "run_opt ws_do new_websockets sample_opening = Some s" "ws_workers s = [Busy 0]" "ws_js s = JsFree"
      "connectionList s 7 = None" "ws_requests s 0 = new_request ''wss://h:80'' 7"
    by (rule sample_opening_run)
  have "\<exists>t. run_opt ws_do s [WsWorker ((sample_answer 1)\<lparr>an_conn := None\<rparr>) 0, WsSend ''m'' 7, WsPing 7, WsClose 1000 '''' 7] = Some t \<and>
     ws_events t = ws_events s \<and> RequestQueue t = RequestQueue s"
    by (rule failed_open_is_silent [where r = 0]) (simp_all add: s new_request_def)
  with s(1) show ?thesis by blast
qed

lemma message_before_open_witness:
  "\<exists>s t. run_opt ws_do new_websockets sample_opening = Some s \<and>
     run_opt ws_do s [WsWorker (sample_answer 1) 0, WsMessage NOPOLL_TEXT_FRAME ''hi'' 0, WsWorker (sample_answer 1) 0,
       WsWorker (sample_answer 1) 0] = Some t \<and>
     ws_events t = ws_events s @ [WebsocketMessage (socketID (ws_requests s 0)) ''unKnown'' (c_str ''hi''), WebsocketOpen (socketID (ws_requests s 0))]"
proof -
  obtain s where s: "run_opt ws_do new_websockets sample_opening = Some s" "ws_workers s = [Busy 0]" "ws_js s = JsFree"
      "connectionList s 7 = None" "ws_requests s 0 = new_request ''wss://h:80'' 7"
    by (rule sample_opening_run)
  have "\<exists>t. run_opt ws_do s [WsWorker (sample_answer 1) 0, WsMessage NOPOLL_TEXT_FRAME ''hi'' 0, WsWorker (sample_answer 1) 0,
       WsWorker (sample_answer 1) 0] = Some t \<and>
     ws_events t = ws_events s @ [WebsocketMessage (socketID (ws_requests s 0)) ''unKnown'' (c_str ''hi''), WebsocketOpen (socketID (ws_requests s 0))]"
    by (rule message_before_open [where c = 3]) (simp_all add: s new_request_def sample_answer_def sample_address)
  with s(1) show ?thesis by blast
qed

end
