(* ===== verification/Images.thy ===== *)
theory Images imports HttpText Caches "HOL-Library.Monad_Syntax" begin

text \<open>
  The image component (\<open>components/RSkComponentImage.cpp\<close>) and where an image is drawn
  (\<open>views/common/RSkImageUtils.cpp\<close>).

  Decoding an image, reading a file and the filters are Skia's: \<open>image_api\<close>. The network layer is what is
  around the component: the component's calls to it are recorded, and what it answers are events. Painting is
  two steps when it sends a request: the network layer's thread may answer before \<open>sendRequest\<close> returns. An
  operation that reads \<open>sources[0]\<close> of an empty vector or uses a null pointer gives \<open>None\<close>.

  Painting, new props and the end of the component belong to the main loop, the callbacks to the network
  thread; the members they share (\<open>hasToTriggerEvent_\<close>, \<open>networkImageData_\<close>, \<open>isRequestInProgress_\<close>,
  \<open>remoteCurlRequest_\<close>) are neither locked nor atomic. \<open>image_do\<close> is what one thread does when it is alone;
  \<open>image_use_step\<close> has both threads, and a step of the main loop inside a callback is a data race, \<open>None\<close>.
\<close>

section \<open>The target rectangle\<close>

datatype ImageResizeMode = Cover | Contain | Stretch | Center | Repeat

definition centered :: "f_rect \<Rightarrow> scalar \<Rightarrow> scalar \<Rightarrow> f_rect" where
  "centered t w h = \<lparr>rx = rx t + (rw t - w) / 2, ry = ry t + (rh t - h) / 2, rw = w, rh = h\<rparr>"

text \<open>The size of an image scaled into the frame, of \<open>Contain\<close> and of \<open>Repeat\<close>.\<close>

definition contain_size :: "scalar \<Rightarrow> f_rect \<Rightarrow> scalar \<times> scalar" where
  "contain_size srcAR t = (if rw t / rh t \<le> srcAR then (rw t, rw t / srcAR) else (rh t * srcAR, rh t))"

definition computeTargetRect :: "scalar \<Rightarrow> scalar \<Rightarrow> f_rect \<Rightarrow> ImageResizeMode \<Rightarrow> f_rect" where
  "computeTargetRect sw sh t mode =
     (let srcAR = sw / sh; targetAR = rw t / rh t
      in case mode of
           Cover \<Rightarrow>
             if targetAR \<le> srcAR
             then (let h = rh t; w = h * srcAR in \<lparr>rx = rx t + (rw t - w) / 2, ry = ry t, rw = w, rh = h\<rparr>)
             else (let w = rw t; h = w / srcAR in \<lparr>rx = rx t, ry = ry t + (rh t - h) / 2, rw = w, rh = h\<rparr>)
         | Contain \<Rightarrow> (let (w, h) = contain_size srcAR t in centered t w h)
         | Center \<Rightarrow>
             (let (w, h) = (if rh t < sh then (rw t, rw t / srcAR) else (sw, sh));
                  (w, h) = (if rw t < sw then (rh t * srcAR, rh t) else (w, h))
              in centered t w h)
         | Repeat \<Rightarrow>
             if sw \<le> rw t \<and> sh \<le> rh t then \<lparr>rx = rx t, ry = ry t, rw = sw, rh = sh\<rparr>
             else (let (w, h) = contain_size srcAR t in \<lparr>rx = rx t, ry = ry t, rw = w, rh = h\<rparr>)
         | Stretch \<Rightarrow> t)"

section \<open>The component\<close>

datatype source_type = LocalSource | RemoteSource | InvalidSource

datatype load_event = OnLoadStart | OnLoad | OnLoadEnd | OnError

datatype net_call = CallSend nat string | CallAbort nat

record 'img image_api =
  decode :: "string \<Rightarrow> 'img option"
  file_data :: "string \<Rightarrow> string option"
  img_width :: "'img \<Rightarrow> int"
  img_height :: "'img \<Rightarrow> int"
  uniq_img :: "'img \<Rightarrow> bool"
  cache_order :: "(string, 'img) entry_order"

text \<open>\<open>sending\<close>: \<open>sendRequest\<close> of the network layer has not returned yet.\<close>

record 'img image_comp =
  im_alive :: bool
  im_frame :: f_rect
  im_sources :: "(source_type \<times> string) list"
  im_mode :: ImageResizeMode
  networkImageData :: "'img option"
  hasToTriggerEvent :: bool
  canCacheData :: bool
  im_expiry :: scalar
  isRequestInProgress :: bool
  remoteCurlRequest :: "nat option"
  im_sending :: bool
  im_next :: nat
  im_events :: "load_event list"
  net_calls :: "net_call list"
  im_cache :: "(string, 'img) cache_state"

definition new_image :: "f_rect \<Rightarrow> (source_type \<times> string) list \<Rightarrow> ImageResizeMode \<Rightarrow> (string, 'img) cache_state \<Rightarrow> 'img image_comp" where
  "new_image fr srcs mode cache = \<lparr>im_alive = True, im_frame = fr, im_sources = srcs, im_mode = mode, networkImageData = None,
     hasToTriggerEvent = False, canCacheData = True, im_expiry = DEFAULT_MAX_CACHE_EXPIRY_TIME, isRequestInProgress = False,
     remoteCurlRequest = None, im_sending = False, im_next = 0, im_events = [], net_calls = [], im_cache = cache\<rparr>"

definition emit_load :: "load_event list \<Rightarrow> 'img image_comp \<Rightarrow> 'img image_comp" where
  "emit_load es s = s\<lparr>im_events := im_events s @ es\<rparr>"

definition sendErrorEvents :: "'img image_comp \<Rightarrow> 'img image_comp" where
  "sendErrorEvents s = (emit_load [OnError, OnLoadEnd] s)\<lparr>hasToTriggerEvent := False\<rparr>"

definition sendSuccessEvents :: "'img image_comp \<Rightarrow> 'img image_comp" where
  "sendSuccessEvents s = (emit_load [OnLoad, OnLoadEnd] s)\<lparr>hasToTriggerEvent := False\<rparr>"

definition start_load :: "'img image_comp \<Rightarrow> 'img image_comp" where
  "start_load s = (if hasToTriggerEvent s then s else (emit_load [OnLoadStart] s)\<lparr>hasToTriggerEvent := True\<rparr>)"

definition generateUriPath :: "string \<Rightarrow> string" where
  "generateUriPath path = (if take 14 path = ''file://assets/'' then ''./'' @ drop 7 path else path)"

definition insert_image ::
  "'img image_api \<Rightarrow> scalar \<times> scalar \<Rightarrow> scalar \<Rightarrow> string \<Rightarrow> 'img \<Rightarrow> scalar \<Rightarrow> 'img image_comp \<Rightarrow> 'img image_comp option" where
  "insert_image api usage now uri img e s =
     do { (ok, c) \<leftarrow> imageDataInsertInCache (cache_order api) (uniq_img api) usage uri (Some img) e now (im_cache s);
          Some (s\<lparr>im_cache := c\<rparr>) }"

definition getLocalImageData ::
  "'img image_api \<Rightarrow> scalar \<times> scalar \<Rightarrow> scalar \<Rightarrow> string \<Rightarrow> 'img image_comp \<Rightarrow> ('img option \<times> 'img image_comp) option" where
  "getLocalImageData api usage now uri s =
     (case file_data api (generateUriPath uri) of
        None \<Rightarrow> Some (None, s)
      | Some bytes \<Rightarrow>
          do { s1 \<leftarrow> (case decode api bytes of
                      None \<Rightarrow> Some s
                    | Some img \<Rightarrow> insert_image api usage now uri img (now + DEFAULT_MAX_CACHE_EXPIRY_TIME) s);
               Some (decode api bytes, start_load s1) })"

definition requestNetworkImageData :: "string \<Rightarrow> 'img image_comp \<Rightarrow> 'img image_comp" where
  "requestNetworkImageData uri s =
     (let r = im_next s;
          s1 = start_load (s\<lparr>remoteCurlRequest := Some r, im_next := Suc r, canCacheData := True,
                 im_expiry := DEFAULT_MAX_CACHE_EXPIRY_TIME\<rparr>)
      in s1\<lparr>net_calls := net_calls s1 @ [CallSend r uri], im_sending := True\<rparr>)"

definition sendReturned :: "'img image_comp \<Rightarrow> 'img image_comp" where
  "sendReturned s = (if im_sending s then s\<lparr>im_sending := False, isRequestInProgress := True\<rparr> else s)"

text \<open>The image to draw, at the start of \<open>OnPaint\<close>.\<close>

definition image_to_draw ::
  "'img image_api \<Rightarrow> scalar \<times> scalar \<Rightarrow> scalar \<Rightarrow> 'img image_comp \<Rightarrow> ('img option \<times> 'img image_comp) option" where
  "image_to_draw api usage now s =
     (case networkImageData s of
        Some img \<Rightarrow> Some (Some img, s)
      | None \<Rightarrow>
          (case im_sources s of
             [] \<Rightarrow> Some (None, s)
           | (ty, uri) # _ \<Rightarrow>
               (case findImageDataInCache uri (fst (im_cache s)) of
                  Some img \<Rightarrow> Some (Some img, s)
                | None \<Rightarrow>
                    if ty = LocalSource then getLocalImageData api usage now uri s
                    else if \<not> isRequestInProgress s \<and> ty = RemoteSource then Some (None, requestNetworkImageData uri s)
                    else Some (None, s))))"

text \<open>
  What is drawn: the shadow and the background of the frame, the shadow of the image, the image, clipped to
  the frame if it is larger, and the border. \<open>shadow\<close>: the layer has a visible shadow; \<open>hollow\<close> is what
  \<open>drawShadow\<close> answers.
\<close>

datatype 'img draw_op = DrawShadow | DrawBackground | DrawContentShadow f_rect | SaveCanvas | ClipFrame f_rect
  | DrawImage 'img f_rect | RestoreCanvas | DrawBorder

definition draw_image_ops :: "'img image_api \<Rightarrow> bool \<Rightarrow> 'img image_comp \<Rightarrow> 'img \<Rightarrow> 'img draw_op list" where
  "draw_image_ops api hollow s img =
     (let t = computeTargetRect (of_int (img_width api img)) (of_int (img_height api img)) (im_frame s) (im_mode s);
          clip = rw (im_frame s) < rw t \<or> rh (im_frame s) < rh t
      in (if hollow then [DrawContentShadow t] else []) @ (if clip then [SaveCanvas, ClipFrame (im_frame s)] else []) @
         [DrawImage img t] @ (if clip then [RestoreCanvas] else []) @ [DrawBorder])"

definition OnPaint ::
  "'img image_api \<Rightarrow> scalar \<times> scalar \<Rightarrow> bool \<Rightarrow> bool \<Rightarrow> scalar \<Rightarrow> 'img image_comp \<Rightarrow> ('img draw_op list \<times> 'img image_comp) option" where
  "OnPaint api usage shadow hollow now s =
     do { (image, s1) \<leftarrow> image_to_draw api usage now s;
          let ops = (if shadow then [DrawShadow] else []) @ [DrawBackground];
          case image of
            Some img \<Rightarrow>
              Some (ops @ draw_image_ops api (shadow \<and> hollow) s1 img, if hasToTriggerEvent s1 then sendSuccessEvents s1 else s1)
          | None \<Rightarrow>
              (case im_sources s1 of
                 [] \<Rightarrow> None
               | (ty, uri) # _ \<Rightarrow> Some (ops, if ty \<noteq> RemoteSource then sendErrorEvents (start_load s1) else s1)) }"

text \<open>\<open>drawAndSubmit\<close> records the picture with \<open>OnPaint\<close>.\<close>

definition drawAndSubmit :: "'img image_api \<Rightarrow> scalar \<times> scalar \<Rightarrow> bool \<Rightarrow> bool \<Rightarrow> scalar \<Rightarrow> 'img image_comp \<Rightarrow> 'img image_comp option" where
  "drawAndSubmit api usage shadow hollow now s = map_option snd (OnPaint api usage shadow hollow now s)"

text \<open>\<open>strcmp\<close> with the address of the first source.\<close>

definition is_current :: "string \<Rightarrow> 'img image_comp \<Rightarrow> bool option" where
  "is_current path s = (case im_sources s of [] \<Rightarrow> None | (ty, uri) # _ \<Rightarrow> Some (path = uri))"

definition processImageData ::
  "'img image_api \<Rightarrow> scalar \<times> scalar \<Rightarrow> bool \<Rightarrow> bool \<Rightarrow> scalar \<Rightarrow> string \<Rightarrow> string option \<Rightarrow> 'img image_comp
     \<Rightarrow> (bool \<times> 'img image_comp) option" where
  "processImageData api usage shadow hollow now path response s =
     (case findImageDataInCache path (fst (im_cache s)) of
        Some img \<Rightarrow>
          do { current \<leftarrow> is_current path s;
               s1 \<leftarrow> (if current then drawAndSubmit api usage shadow hollow now s else Some s);
               Some (True, s1) }
      | None \<Rightarrow>
          (case response of
             None \<Rightarrow> Some (False, s)
           | Some bytes \<Rightarrow>
               (case decode api bytes of
                  None \<Rightarrow> Some (False, s)
                | Some img \<Rightarrow>
                    do { s1 \<leftarrow> (if canCacheData s then insert_image api usage now path img (now + im_expiry s) s else Some s);
                         current \<leftarrow> is_current path s1;
                         s2 \<leftarrow> (if current then drawAndSubmit api usage shadow hollow now (s1\<lparr>networkImageData := Some img\<rparr>) else Some s1);
                         Some (True, s2) })))"

section \<open>The network layer's callbacks\<close>

text \<open>
  The headers of request \<open>r\<close> arrived; \<open>resp\<close> are the responses as they are now. What may be cached is asked
  of the request the component remembers, which may be another one by now, or none.
\<close>

definition image_headers :: "nat \<Rightarrow> scalar \<Rightarrow> (nat \<Rightarrow> curl_response) \<Rightarrow> 'img image_comp \<Rightarrow> 'img image_comp option" where
  "image_headers r now resp s =
     (if \<not> im_alive s \<or> map_of (headerBuffer (resp r)) ''Cache-Control'' = None then Some s
      else do { r' \<leftarrow> remoteCurlRequest s;
                (keep, y) \<leftarrow> shouldCacheData now (resp r');
                Some (if keep then s\<lparr>canCacheData := True, im_expiry := cacheExpiryTime (if r' = r then y else resp r)\<rparr>
                      else s\<lparr>canCacheData := False\<rparr>) })"

definition image_completed ::
  "'img image_api \<Rightarrow> scalar \<times> scalar \<Rightarrow> bool \<Rightarrow> bool \<Rightarrow> scalar \<Rightarrow> string \<Rightarrow> string option \<Rightarrow> 'img image_comp \<Rightarrow> 'img image_comp option" where
  "image_completed api usage shadow hollow now url body s =
     (if \<not> im_alive s then Some s
      else do { (ok, s1) \<leftarrow> processImageData api usage shadow hollow now url body s;
                let s2 = (if \<not> ok \<and> hasToTriggerEvent s1 then sendErrorEvents s1 else s1);
                Some (s2\<lparr>isRequestInProgress := False, remoteCurlRequest := None\<rparr>) })"

section \<open>New props and the end\<close>

definition abort_request :: "'img image_comp \<Rightarrow> 'img image_comp" where
  "abort_request s =
     (case remoteCurlRequest s of
        Some r \<Rightarrow>
          if isRequestInProgress s
          then s\<lparr>net_calls := net_calls s @ [CallAbort r], remoteCurlRequest := None, isRequestInProgress := False\<rparr> else s
      | None \<Rightarrow> s)"

text \<open>The props are replaced afterwards, by the caller.\<close>

definition updateComponentProps ::
  "bool \<Rightarrow> (source_type \<times> string) list \<Rightarrow> ImageResizeMode \<Rightarrow> 'img image_comp \<Rightarrow> 'img image_comp option" where
  "updateComponentProps force srcs mode s =
     do { changed \<leftarrow> (if force then Some True
                     else case (im_sources s, srcs) of
                            ((_, old) # _, (_, new) # _) \<Rightarrow> Some (old \<noteq> new)
                          | _ \<Rightarrow> None);
          let s1 = (if changed
                    then (emit_load [OnLoadStart] ((abort_request s)\<lparr>networkImageData := None\<rparr>))\<lparr>hasToTriggerEvent := True\<rparr>
                    else s);
          Some (s1\<lparr>im_sources := srcs, im_mode := mode\<rparr>) }"

definition destroy_image :: "'img image_comp \<Rightarrow> 'img image_comp" where
  "destroy_image s = (abort_request s)\<lparr>im_alive := False\<rparr>"

section \<open>Steps\<close>

datatype image_step =
  Paint "scalar \<times> scalar" bool bool scalar
| SendReturned
| Headers nat scalar "nat \<Rightarrow> curl_response"
| Arrived "scalar \<times> scalar" bool bool scalar string "string option"
| NewProps bool "(source_type \<times> string) list" ImageResizeMode
| Destroyed

fun image_do :: "'img image_api \<Rightarrow> 'img image_comp \<Rightarrow> image_step \<Rightarrow> 'img image_comp option" where
  "image_do api s (Paint usage shadow hollow now) = map_option snd (OnPaint api usage shadow hollow now s)"
| "image_do api s SendReturned = Some (sendReturned s)"
| "image_do api s (Headers r now resp) = image_headers r now resp s"
| "image_do api s (Arrived usage shadow hollow now url body) = image_completed api usage shadow hollow now url body s"
| "image_do api s (NewProps force srcs mode) = updateComponentProps force srcs mode s"
| "image_do api s Destroyed = Some (destroy_image s)"




section \<open>Where an image is drawn\<close>

definition same_center :: "f_rect \<Rightarrow> f_rect \<Rightarrow> bool" where
  "same_center a b \<longleftrightarrow> rx a + rw a / 2 = rx b + rw b / 2 \<and> ry a + rh a / 2 = ry b + rh b / 2"

definition keeps_shape :: "scalar \<Rightarrow> scalar \<Rightarrow> f_rect \<Rightarrow> bool" where
  "keeps_shape sw sh r \<longleftrightarrow> rw r * sh = rh r * sw"

lemma same_center_centered [simp]: "same_center (centered t w h) t"
  by (simp add: same_center_def centered_def field_simps)

lemma contain_size_fits:
  assumes "0 < sw" "0 < sh" "0 < rw t" "0 < rh t" and "contain_size (sw / sh) t = (w, h)"
  shows "w \<le> rw t" "h \<le> rh t" "w = rw t \<or> h = rh t" "w * sh = h * sw"
proof -
  have "w \<le> rw t \<and> h \<le> rh t \<and> (w = rw t \<or> h = rh t) \<and> w * sh = h * sw"
  proof (cases "rw t / rh t \<le> sw / sh")
    case True
    then have "rw t * sh \<le> sw * rh t" using assms(1-4) by (simp add: field_simps)
    then have "rw t / (sw / sh) \<le> rh t" using assms(1,2) by (simp add: field_simps)
    with True assms show ?thesis by (auto simp: contain_size_def field_simps)
  next
    case False
    then have "sw * rh t \<le> rw t * sh" using assms(1-4) by (simp add: field_simps)
    then have "rh t * (sw / sh) \<le> rw t" using assms(1,2) by (simp add: field_simps)
    with False assms show ?thesis by (auto simp: contain_size_def field_simps)
  qed
  then show "w \<le> rw t" "h \<le> rh t" "w = rw t \<or> h = rh t" "w * sh = h * sw" by auto
qed

lemma contain_cover_rects:
  assumes "0 < sw" "0 < sh" "0 < rw t" "0 < rh t"
  defines "a \<equiv> computeTargetRect sw sh t Contain" and "b \<equiv> computeTargetRect sw sh t Cover"
  shows "rw a \<le> rw t \<and> rh a \<le> rh t \<and> (rw a = rw t \<or> rh a = rh t) \<and> keeps_shape sw sh a \<and> same_center a t"
    and "rw t \<le> rw b \<and> rh t \<le> rh b \<and> (rw b = rw t \<or> rh b = rh t) \<and> keeps_shape sw sh b \<and> same_center b t"
proof -
  obtain w h where wh: "contain_size (sw / sh) t = (w, h)" by fastforce
  then have "a = centered t w h" by (simp add: a_def computeTargetRect_def)
  with contain_size_fits [OF assms(1-4) wh]
  show "rw a \<le> rw t \<and> rh a \<le> rh t \<and> (rw a = rw t \<or> rh a = rh t) \<and> keeps_shape sw sh a \<and> same_center a t"
    by (simp add: keeps_shape_def) (simp add: centered_def)
  show "rw t \<le> rw b \<and> rh t \<le> rh b \<and> (rw b = rw t \<or> rh b = rh t) \<and> keeps_shape sw sh b \<and> same_center b t"
  proof (cases "rw t / rh t \<le> sw / sh")
    case True
    then have "rw t \<le> rh t * (sw / sh)" using assms(1-4) by (simp add: field_simps)
    with True assms(1-4) show ?thesis
      by (simp add: b_def computeTargetRect_def keeps_shape_def same_center_def Let_def field_simps)
  next
    case False
    then have "rh t \<le> rw t / (sw / sh)" using assms(1-4) by (simp add: field_simps)
    with False assms(1-4) show ?thesis
      by (simp add: b_def computeTargetRect_def keeps_shape_def same_center_def Let_def field_simps)
  qed
qed

text \<open>C32: \<open>contain\<close> draws the whole image inside the frame, as large as fits, and \<open>cover\<close> covers the whole
  frame, no larger than needed; both keep the image's shape and are centered.\<close>

theorem contain_fits_cover_covers:
  assumes "0 < sw" "0 < sh" "0 < rw t" "0 < rh t"
  shows "let a = computeTargetRect sw sh t Contain; b = computeTargetRect sw sh t Cover
     in (rw a \<le> rw t \<and> rh a \<le> rh t \<and> (rw a = rw t \<or> rh a = rh t) \<and> keeps_shape sw sh a \<and> same_center a t) \<and>
        (rw t \<le> rw b \<and> rh t \<le> rh b \<and> (rw b = rw t \<or> rh b = rh t) \<and> keeps_shape sw sh b \<and> same_center b t)"
  using contain_cover_rects [OF assms] by (simp add: Let_def)

text \<open>\<open>center\<close> draws an image that fits at its own size; but one that is larger than the frame in one
  direction only is never made smaller to fit: it is drawn at its own size or larger.\<close>

theorem center_never_shrinks:
  assumes "0 < sw" "0 < sh" "0 < rw t" "0 < rh t"
  defines "r \<equiv> computeTargetRect sw sh t Center"
  shows "sw \<le> rw t \<Longrightarrow> sh \<le> rh t \<Longrightarrow> rw r = sw \<and> rh r = sh \<and> same_center r t"
    and "sw \<le> rw t \<Longrightarrow> rh t < sh \<Longrightarrow> sw \<le> rw r \<and> sh \<le> rh r \<and> rh t < rh r"
    and "rw t < sw \<Longrightarrow> sh \<le> rh t \<Longrightarrow> sw \<le> rw r \<and> sh \<le> rh r \<and> rw t < rw r"
proof -
  show "sw \<le> rw t \<Longrightarrow> sh \<le> rh t \<Longrightarrow> rw r = sw \<and> rh r = sh \<and> same_center r t"
    by (simp add: r_def computeTargetRect_def) (simp add: centered_def)
  show "sw \<le> rw r \<and> sh \<le> rh r \<and> rh t < rh r" if "sw \<le> rw t" "rh t < sh"
  proof -
    have "sh * sw \<le> sh * rw t" using that(1) assms(2) by simp
    then have "sh \<le> rw t / (sw / sh)" using assms(1,2) by (simp add: field_simps)
    with that show ?thesis by (simp add: r_def computeTargetRect_def centered_def)
  qed
  show "sw \<le> rw r \<and> sh \<le> rh r \<and> rw t < rw r" if "rw t < sw" "sh \<le> rh t"
  proof -
    have "sw * sh \<le> sw * rh t" using that(2) assms(1) by simp
    then have "sw \<le> rh t * (sw / sh)" using assms(1,2) by (simp add: field_simps)
    with that show ?thesis by (simp add: r_def computeTargetRect_def centered_def)
  qed
qed

section \<open>What JavaScript hears of a load\<close>







lemma insert_image_frame:
  "insert_image api usage now uri img e s = Some s' \<Longrightarrow> \<exists>c. s' = s\<lparr>im_cache := c\<rparr>"
  by (auto simp: insert_image_def split: bind_splits)









lemma abort_request_frame [simp]:
  "im_events (abort_request s) = im_events s" "hasToTriggerEvent (abort_request s) = hasToTriggerEvent s"
  by (simp_all add: abort_request_def split: option.split)



text \<open>What the two threads do to the flag and the events, one access after the other: telling JavaScript of an
  image, and of new sources. In one of the orders the flag says that no load is open, although the last that
  JavaScript heard is the start of one.\<close>

datatype flag_access = Emit load_event | SetFlag bool

fun do_access :: "flag_access \<Rightarrow> 'img image_comp \<Rightarrow> 'img image_comp" where
  "do_access (Emit e) s = emit_load [e] s"
| "do_access (SetFlag b) s = s\<lparr>hasToTriggerEvent := b\<rparr>"

definition success_accesses :: "flag_access list" where
  "success_accesses = [Emit OnLoad, Emit OnLoadEnd, SetFlag False]"

definition restart_accesses :: "flag_access list" where
  "restart_accesses = [Emit OnLoadStart, SetFlag True]"

lemma accesses_alone:
  "fold do_access success_accesses s = sendSuccessEvents s"
  "fold do_access restart_accesses s = (emit_load [OnLoadStart] s)\<lparr>hasToTriggerEvent := True\<rparr>"
  by (simp_all add: success_accesses_def restart_accesses_def sendSuccessEvents_def emit_load_def)

theorem restart_inside_callback_is_forgotten:
  "\<exists>as \<in> shuffles success_accesses restart_accesses. \<forall>s.
     im_events (fold do_access as s) = im_events s @ [OnLoad, OnLoadEnd, OnLoadStart] \<and>
     \<not> hasToTriggerEvent (fold do_access as s)"
proof (rule bexI)
  let ?as = "[Emit OnLoad, Emit OnLoadEnd, Emit OnLoadStart, SetFlag True, SetFlag False]"
  show "\<forall>s. im_events (fold do_access ?as s) = im_events s @ [OnLoad, OnLoadEnd, OnLoadStart] \<and> \<not> hasToTriggerEvent (fold do_access ?as s)"
    by (simp add: emit_load_def)
  show "?as \<in> shuffles success_accesses restart_accesses" by (simp add: success_accesses_def restart_accesses_def Cons_in_shuffles_iff)
qed

section \<open>Loads that go wrong\<close>

text \<open>A view without sources, and without an image from before, cannot be painted: the code reads the first
  source to see whether to report an error.\<close>

theorem no_source_faults:
  assumes "im_sources s = []" and "networkImageData s = None"
  shows "OnPaint api usage shadow hollow now s = None"
  using assms by (simp add: OnPaint_def image_to_draw_def Let_def)

text \<open>No request can be sent any more.\<close>

definition stuck :: "'img image_comp \<Rightarrow> bool" where
  "stuck s \<longleftrightarrow> isRequestInProgress s \<and> remoteCurlRequest s = None \<and> \<not> im_sending s"

text \<open>Painting does not touch the request unless it sends one.\<close>

definition same_net :: "'img image_comp \<Rightarrow> 'img image_comp \<Rightarrow> bool" where
  "same_net s s' \<longleftrightarrow> isRequestInProgress s' = isRequestInProgress s \<and> remoteCurlRequest s' = remoteCurlRequest s \<and>
     im_sending s' = im_sending s \<and> net_calls s' = net_calls s \<and> im_alive s' = im_alive s"

lemma same_net_refl [simp]: "same_net s s"
  by (simp add: same_net_def)

lemma same_net_trans: "same_net a b \<Longrightarrow> same_net b c \<Longrightarrow> same_net a c"
  by (simp add: same_net_def)

lemma same_net_events [simp]:
  "same_net s (start_load s)" "same_net s (sendErrorEvents s)" "same_net s (sendSuccessEvents s)" "same_net s (emit_load es s)"
  by (simp_all add: same_net_def start_load_def sendErrorEvents_def sendSuccessEvents_def emit_load_def)

lemma insert_same_net: "insert_image api usage now uri img e s = Some s' \<Longrightarrow> same_net s s'"
  by (drule insert_image_frame) (auto simp: same_net_def)

lemma local_same_net:
  assumes "getLocalImageData api usage now uri s = Some (i, s')"
  shows "same_net s s'"
proof (cases "file_data api (generateUriPath uri)")
  case None
  with assms show ?thesis by (simp add: getLocalImageData_def)
next
  case (Some bytes)
  let ?m = "case decode api bytes of None \<Rightarrow> Some s | Some img \<Rightarrow> insert_image api usage now uri img (now + DEFAULT_MAX_CACHE_EXPIRY_TIME) s"
  obtain s1 where s1: "?m = Some s1" using assms Some by (cases ?m) (auto simp: getLocalImageData_def)
  then have "same_net s s1" by (cases "decode api bytes") (auto intro: insert_same_net)
  moreover have "s' = start_load s1" using assms Some s1 by (simp add: getLocalImageData_def)
  ultimately show ?thesis using same_net_trans same_net_events(1) by blast
qed

lemma image_to_draw_same_net:
  assumes "image_to_draw api usage now s = Some (i, s')" and "isRequestInProgress s \<or> networkImageData s \<noteq> None \<or>
    (\<exists>ty uri rest. im_sources s = (ty, uri) # rest \<and> findImageDataInCache uri (fst (im_cache s)) \<noteq> None)"
  shows "same_net s s'"
  using assms by (auto simp: image_to_draw_def split: option.splits list.splits if_splits intro: local_same_net)

lemma OnPaint_same_net:
  assumes p: "OnPaint api usage shadow hollow now s = Some (ops, s')" and c: "isRequestInProgress s \<or> networkImageData s \<noteq> None \<or>
    (\<exists>ty uri rest. im_sources s = (ty, uri) # rest \<and> findImageDataInCache uri (fst (im_cache s)) \<noteq> None)"
  shows "same_net s s'"
proof -
  obtain i s1 where i: "image_to_draw api usage now s = Some (i, s1)"
    using p by (cases "image_to_draw api usage now s") (auto simp: OnPaint_def)
  have s1: "same_net s s1" by (rule image_to_draw_same_net [OF i c])
  have "s' = s1 \<or> s' = sendErrorEvents (start_load s1) \<or> s' = sendSuccessEvents s1"
    using p i by (cases i) (auto simp: OnPaint_def Let_def split: list.splits if_splits)
  with s1 show ?thesis using same_net_trans same_net_events by blast
qed


lemma process_same_net:
  assumes p: "processImageData api usage shadow hollow now path resp s = Some (b, s')"
  shows "same_net s s'"
proof -
  have draw: "same_net s s2"
    if "(if d then drawAndSubmit api usage shadow hollow now s1 else Some s3) = Some s2" "same_net s s1" "same_net s s3"
      "d \<longrightarrow> networkImageData s1 \<noteq> None \<or>
        (\<exists>ty uri rest. im_sources s1 = (ty, uri) # rest \<and> findImageDataInCache uri (fst (im_cache s1)) \<noteq> None)"
    for d s1 s2 s3
    using that by (auto simp: drawAndSubmit_def split: if_splits dest!: OnPaint_same_net intro: same_net_trans)
  show ?thesis
  proof (cases "findImageDataInCache path (fst (im_cache s))")
    case (Some img)
    then obtain c where c: "is_current path s = Some c" using p by (cases "is_current path s") (auto simp: processImageData_def)
    from p Some c have "(if c then drawAndSubmit api usage shadow hollow now s else Some s) = Some s'"
      by (cases "if c then drawAndSubmit api usage shadow hollow now s else Some s") (simp_all add: processImageData_def)
    then show ?thesis by (rule draw) (use c Some in \<open>auto simp: is_current_def split: list.splits\<close>)
  next
    case None
    show ?thesis
    proof (cases "resp = None \<or> decode api (the resp) = None")
      case True
      with p None show ?thesis by (auto simp: processImageData_def split: option.splits)
    next
      case False
      then obtain bytes img where r: "resp = Some bytes" "decode api bytes = Some img" by auto
      let ?m = "if canCacheData s then insert_image api usage now path img (now + im_expiry s) s else Some s"
      obtain s1 where s1: "?m = Some s1" using p None r by (cases ?m) (auto simp: processImageData_def)
      then have e: "same_net s s1" by (auto split: if_splits intro: insert_same_net)
      obtain c where c: "is_current path s1 = Some c" using p None r s1 by (cases "is_current path s1") (auto simp: processImageData_def)
      from p None r s1 c have d: "(if c then drawAndSubmit api usage shadow hollow now (s1\<lparr>networkImageData := Some img\<rparr>) else Some s1) = Some s'"
        by (cases "if c then drawAndSubmit api usage shadow hollow now (s1\<lparr>networkImageData := Some img\<rparr>) else Some s1")
          (simp_all add: processImageData_def)
      have "same_net s (s1\<lparr>networkImageData := Some img\<rparr>)" using e by (simp add: same_net_def)
      then show ?thesis by (rule draw [OF d _ e]) simp
    qed
  qed
qed

lemma arrived_net:
  assumes "im_alive s" and "image_do api s (Arrived usage shadow hollow now url body) = Some s'"
  shows "\<not> isRequestInProgress s' \<and> remoteCurlRequest s' = None \<and> im_sending s' = im_sending s \<and> net_calls s' = net_calls s \<and> im_alive s'"
proof -
  obtain b s1 where p: "processImageData api usage shadow hollow now url body s = Some (b, s1)"
    using assms by (cases "processImageData api usage shadow hollow now url body s") (auto simp: image_completed_def)
  let ?s2 = "if \<not> b \<and> hasToTriggerEvent s1 then sendErrorEvents s1 else s1"
  have "same_net s ?s2" using process_same_net [OF p] by (auto intro: same_net_trans)
  moreover have "s' = ?s2\<lparr>isRequestInProgress := False, remoteCurlRequest := None\<rparr>"
    using assms p by (simp add: image_completed_def Let_def)
  ultimately show ?thesis using assms(1) by (simp add: same_net_def)
qed

definition no_answer :: "image_step \<Rightarrow> bool" where
  "no_answer e \<longleftrightarrow> (case e of Arrived usage shadow hollow now url body \<Rightarrow> False | _ \<Rightarrow> True)"

lemma stuck_step:
  assumes "stuck s" and "no_answer e" and "image_do api s e = Some s'"
  shows "stuck s' \<and> net_calls s' = net_calls s"
proof (cases e)
  case (Paint usage shadow hollow now)
  then obtain ops where "OnPaint api usage shadow hollow now s = Some (ops, s')" using assms(3) by auto
  from OnPaint_same_net [OF this] assms(1) show ?thesis by (auto simp: stuck_def same_net_def)
next
  case SendReturned
  with assms(1,3) show ?thesis by (auto simp: sendReturned_def stuck_def)
next
  case (Headers r now resp)
  with assms(1,3) show ?thesis by (auto simp: image_headers_def stuck_def split: if_splits)
next
  case (NewProps force srcs mode)
  with assms(1,3) show ?thesis
    by (auto simp: updateComponentProps_def stuck_def abort_request_def emit_load_def Let_def split: bind_splits if_splits)
next
  case Destroyed
  with assms(1,3) show ?thesis by (auto simp: destroy_image_def stuck_def abort_request_def)
qed (use assms(2) in \<open>simp add: no_answer_def\<close>)

text \<open>When the answer comes before \<open>sendRequest\<close> returned (the network layer answers from its cache in a
  thread of its own), the component believes for ever that a request is running: whatever is painted and
  whatever sources it is given, no image is requested again.\<close>

theorem early_answer_ends_loading:
  assumes "im_alive s" and "im_sending s" and "\<forall>e \<in> set es. no_answer e"
    and "run_opt (image_do api) s ([Arrived usage shadow hollow now url body, SendReturned] @ es) = Some s'"
  shows "net_calls s' = net_calls s"
proof -
  obtain s1 where s1: "image_do api s (Arrived usage shadow hollow now url body) = Some s1"
      "run_opt (image_do api) (sendReturned s1) es = Some s'"
    using assms(4) by (cases "image_do api s (Arrived usage shadow hollow now url body)") auto
  note A = arrived_net [OF assms(1) s1(1)]
  have st: "stuck (sendReturned s1)" "net_calls (sendReturned s1) = net_calls s" using A assms(2) by (simp_all add: sendReturned_def stuck_def)
  have "net_calls s' = net_calls t" if "run_opt (image_do api) t es = Some s'" "stuck t" for t
    using that assms(3)
  proof (induction es arbitrary: t)
    case (Cons e es)
    then obtain t1 where t1: "image_do api t e = Some t1" "run_opt (image_do api) t1 es = Some s'"
      by (cases "image_do api t e") auto
    with Cons stuck_step [OF Cons.prems(2) _ t1(1)] show ?case by auto
  qed simp
  from this [OF s1(2) st(1)] st(2) show ?thesis by simp
qed

text \<open>The answer of a request that the component has given up makes it forget the request that is running:
  the next painting sends it once more.\<close>

theorem late_answer_repeats_request:
  assumes "im_alive s" and "im_sources s = (RemoteSource, url) # rest" and "networkImageData s = None"
    and "findImageDataInCache url (fst (im_cache s)) = None" and "old \<noteq> url"
    and "findImageDataInCache old (fst (im_cache s)) \<noteq> None"
  shows "\<exists>s'. run_opt (image_do api) s [Arrived usage sh ho now old body, Paint usage sh ho now2] = Some s' \<and>
    net_calls s' = net_calls s @ [CallSend (im_next s) url]"
proof -
  obtain img where "findImageDataInCache old (fst (im_cache s)) = Some img" using assms(6) by blast
  then have p: "processImageData api usage sh ho now old body s = Some (True, s)"
    using assms(2,5) by (simp add: processImageData_def is_current_def)
  let ?s1 = "s\<lparr>isRequestInProgress := False, remoteCurlRequest := None\<rparr>"
  have "image_do api s (Arrived usage sh ho now old body) = Some ?s1"
    using assms(1) p by (simp add: image_completed_def)
  moreover have "image_to_draw api usage now2 ?s1 = Some (None, requestNetworkImageData url ?s1)"
    using assms(2-4) by (simp add: image_to_draw_def)
  moreover have "im_sources (requestNetworkImageData url ?s1) = (RemoteSource, url) # rest"
    using assms(2) by (simp add: requestNetworkImageData_def start_load_def emit_load_def Let_def)
  moreover have "net_calls (requestNetworkImageData url ?s1) = net_calls s @ [CallSend (im_next s) url]"
    by (simp add: requestNetworkImageData_def start_load_def emit_load_def Let_def)
  ultimately show ?thesis by (simp add: OnPaint_def Let_def)
qed

lemma OnPaint_cache:
  assumes "networkImageData s = Some img"
  shows "\<exists>ops s'. OnPaint api usage shadow hollow now s = Some (ops, s') \<and> im_cache s' = im_cache s"
  using assms by (simp add: OnPaint_def image_to_draw_def Let_def sendSuccessEvents_def emit_load_def)

text \<open>An image whose response has a \<open>max-age\<close> is kept for as long as since 1970, and more: the expiry time
  the network layer computed from the clock is added to the clock once more.\<close>

theorem dated_image_never_expires:
  assumes "im_alive s" and "im_sources s = (RemoteSource, url) # rest" and "remoteCurlRequest s = Some r"
    and "cache_inv (im_cache s)" and "permutes_entries (cache_order api)"
    and "map_of (headerBuffer (resp r)) ''Cache-Control'' \<noteq> None"
    and "shouldCacheData now (resp r) = Some (True, y)" and "now \<le> cacheExpiryTime y"
    and "findImageDataInCache url (fst (im_cache s)) = None" and "decode api bytes = Some img"
    and "fst usage < hwm_limit" and "snd usage < hwm_limit"
  shows "\<exists>s' e. run_opt (image_do api) s [Headers r now resp, Arrived usage sh ho now2 url (Some bytes)] = Some s' \<and>
    map_of (cacheMap (fst (im_cache s'))) url = Some (img, e) \<and> now + now2 \<le> e"
proof -
  let ?s1 = "s\<lparr>canCacheData := True, im_expiry := cacheExpiryTime y\<rparr>"
  have h: "image_headers r now resp s = Some ?s1" using assms(1,3,6,7) by (auto simp: image_headers_def)
  obtain c tmo where c: "im_cache s = (c, tmo)" by fastforce
  let ?e = "now2 + cacheExpiryTime y"
  have none: "map_of (cacheMap c) url = None" using assms(9) c by (simp add: findImageDataInCache_def)
  have ev: "evictAsNeeded (cache_order api) (uniq_img api) usage c = (True, c)" using assms(11,12) by (simp add: evictAsNeeded_def)
  from insert_image_ok [OF assms(4) [unfolded c] assms(5)] obtain ok st where
    ins: "imageDataInsertInCache (cache_order api) (uniq_img api) usage url (Some img) ?e now2 (c, tmo) = Some (ok, st)" by blast
  then have arm: "arm_timer now2 ?e (c\<lparr>cacheMap := insert_entry url (img, ?e) (cacheMap c)\<rparr>, tmo) = Some st"
    using ev by (auto simp: imageDataInsertInCache_def)
  have m: "map_of (cacheMap (fst st)) url = Some (img, ?e)"
    using arm_timer_cache(1) [of now2 ?e "c\<lparr>cacheMap := insert_entry url (img, ?e) (cacheMap c)\<rparr>" tmo "fst st" "snd st"] arm none
    by (simp add: insert_entry_def)
  let ?s2 = "?s1\<lparr>im_cache := st\<rparr>"
  have i: "insert_image api usage now2 url img ?e ?s1 = Some ?s2" using ins c by (simp add: insert_image_def)
  obtain ops s3 where d: "OnPaint api usage sh ho now2 (?s2\<lparr>networkImageData := Some img\<rparr>) = Some (ops, s3)" "im_cache s3 = st"
    using OnPaint_cache [of "?s2\<lparr>networkImageData := Some img\<rparr>" img api usage sh ho now2] by auto
  have "processImageData api usage sh ho now2 url (Some bytes) ?s1 = Some (True, s3)"
    using assms(2,9,10) i d(1) by (simp add: processImageData_def is_current_def drawAndSubmit_def)
  then have "image_do api ?s1 (Arrived usage sh ho now2 url (Some bytes)) = Some (s3\<lparr>isRequestInProgress := False, remoteCurlRequest := None\<rparr>)"
    using assms(1) by (simp add: image_completed_def)
  with h d(2) m assms(8) show ?thesis by simp
qed


section \<open>Examples\<close>

definition sample_api :: "nat image_api" where
  "sample_api = \<lparr>decode = (\<lambda>b. if b = [] then None else Some (length b)), file_data = (\<lambda>_. None), img_width = int, img_height = (\<lambda>_. 1),
     uniq_img = (\<lambda>_. True), cache_order = (\<lambda>es. es)\<rparr>"

lemma find_in_new: "findImageDataInCache k new_cache = None"
  by (simp add: findImageDataInCache_def new_cache_def)

definition sample_frame :: f_rect where
  "sample_frame = \<lparr>rx = 0, ry = 0, rw = 100, rh = 100\<rparr>"

definition sample_image :: "nat image_comp" where
  "sample_image = new_image sample_frame [(RemoteSource, ''http://a'')] Center (new_cache, None)"

lemmas image_eval = OnPaint_def image_to_draw_def findImageDataInCache_def new_cache_def requestNetworkImageData_def start_load_def
  emit_load_def sample_image_def new_image_def Let_def

lemma contain_fits_cover_covers_witness:
  "rw (computeTargetRect 200 100 sample_frame Contain) \<le> rw sample_frame \<and> rh sample_frame \<le> rh (computeTargetRect 200 100 sample_frame Cover)"
  using contain_fits_cover_covers [of 200 100 sample_frame] by (simp add: sample_frame_def Let_def)

lemma center_never_shrinks_witness: "200 \<le> rh (computeTargetRect 10 200 sample_frame Center)"
  using center_never_shrinks(2) [of 10 200 sample_frame] by (simp add: sample_frame_def)



lemma no_source_faults_witness:
  "OnPaint sample_api (0, 0) False False 0 (sample_image\<lparr>im_sources := []\<rparr>) = None"
  by (rule no_source_faults) (simp_all add: sample_image_def new_image_def)

lemma early_answer_ends_loading_witness:
  "\<exists>s'. run_opt (image_do sample_api) (sample_image\<lparr>im_sending := True\<rparr>)
      ([Arrived (0, 0) False False 0 ''http://a'' None, SendReturned] @ [Paint (0, 0) False False 0]) = Some s' \<and> net_calls s' = []"
proof -
  have "\<exists>s'. run_opt (image_do sample_api) (sample_image\<lparr>im_sending := True\<rparr>)
      ([Arrived (0, 0) False False 0 ''http://a'' None, SendReturned] @ [Paint (0, 0) False False 0]) = Some s'"
    by (simp add: image_eval image_completed_def processImageData_def sendReturned_def)
  then obtain s' where s': "run_opt (image_do sample_api) (sample_image\<lparr>im_sending := True\<rparr>)
      ([Arrived (0, 0) False False 0 ''http://a'' None, SendReturned] @ [Paint (0, 0) False False 0]) = Some s'" by blast
  have "net_calls s' = net_calls (sample_image\<lparr>im_sending := True\<rparr>)"
    by (rule early_answer_ends_loading [OF _ _ _ s']) (simp_all add: sample_image_def new_image_def no_answer_def)
  with s' show ?thesis by (simp add: sample_image_def new_image_def)
qed

lemma late_answer_repeats_request_witness:
  "\<exists>s'. run_opt (image_do sample_api) (sample_image\<lparr>im_cache := (new_cache\<lparr>cacheMap := [(''old'', 1, 5)]\<rparr>, None)\<rparr>)
      [Arrived (0, 0) False False 0 ''old'' None, Paint (0, 0) False False 1] = Some s' \<and> net_calls s' = [CallSend 0 ''http://a'']"
  using late_answer_repeats_request [of "sample_image\<lparr>im_cache := (new_cache\<lparr>cacheMap := [(''old'', 1, 5)]\<rparr>, None)\<rparr>" "''http://a''" "[]" "''old''"
      sample_api "(0, 0)" False False 0 None 1]
  by (simp add: sample_image_def new_image_def findImageDataInCache_def)

lemma dated_image_never_expires_witness:
  "\<exists>s' e. run_opt (image_do sample_api) (sample_image\<lparr>remoteCurlRequest := Some 0\<rparr>)
      [Headers 0 1000 (\<lambda>_. (new_response 200 False)\<lparr>headerBuffer := [(''Cache-Control'', ''max-age=60'')]\<rparr>),
       Arrived (0, 0) False False 1000 ''http://a'' (Some ''x'')] = Some s' \<and>
    map_of (cacheMap (fst (im_cache s'))) ''http://a'' = Some (1, e) \<and> 1000 + 1000 \<le> e"
proof -
  let ?x = "(new_response 200 False)\<lparr>headerBuffer := [(''Cache-Control'', ''max-age=60'')]\<rparr>"
  have "\<exists>y. shouldCacheData 1000 ?x = Some (True, y) \<and> 1000 \<le> cacheExpiryTime y"
    by (simp add: shouldCacheData_def contains_def max_age_token.simps strtok_def c_str_def atoi_def is_space_def is_digit_def
        DEFAULT_MAX_CACHE_EXPIRY_TIME_def Let_def)
  then obtain y where "shouldCacheData 1000 ?x = Some (True, y)" "1000 \<le> cacheExpiryTime y" by blast
  then show ?thesis
    by (intro dated_image_never_expires [where y = y])
      (simp_all add: sample_image_def new_image_def sample_api_def permutes_entries_def new_cache_inv find_in_new hwm_limit_def)
qed

end
