(* ===== verification/LayerLinks.thy ===== *)
theory LayerLinks imports Prelude "HOL-Library.Monad_Syntax" begin

text \<open>
  The pointers between layers (\<open>rns_shell/compositor/layers/Layer.cpp\<close>): a layer has a raw pointer to its
  parent and shared pointers to its children. Components insert and mark layers when they are mounted and
  unmounted (\<open>RSkComponent.cpp\<close>); what is marked leaves the tree at the next \<open>prePaint\<close> of its parent.

  A layer is an address; an address without a layer (\<open>None\<close>) is one that must not be used. Operations give
  \<open>None\<close> when they use such an address or run for ever. That destroying a layer leaves the parent pointers of
  its children is not modelled: a layer lives while its component does.
\<close>

section \<open>State and operations\<close>

record layer_link =
  lk_parent :: "nat option"
  lk_children :: "nat list"
  lk_remove :: bool

type_synonym links = "nat \<Rightarrow> layer_link option"

definition new_link :: layer_link where
  "new_link = \<lparr>lk_parent = None, lk_children = [], lk_remove = False\<rparr>"

text \<open>The walk up from a parent pointer.\<close>

partial_function (option) has_ancestor :: "links \<Rightarrow> nat \<Rightarrow> nat option \<Rightarrow> bool option" where
  "has_ancestor h a p =
     (case p of
        None \<Rightarrow> Some False
      | Some q \<Rightarrow> if q = a then Some True else (case h q of None \<Rightarrow> None | Some l \<Rightarrow> has_ancestor h a (lk_parent l)))"

definition hasAncestor :: "links \<Rightarrow> nat \<Rightarrow> nat \<Rightarrow> bool option" where
  "hasAncestor h c a = do { l \<leftarrow> h c; has_ancestor h a (lk_parent l) }"

partial_function (option) rootLayer :: "links \<Rightarrow> nat \<Rightarrow> nat option" where
  "rootLayer h c =
     (case h c of
        None \<Rightarrow> None
      | Some l \<Rightarrow> (case lk_parent l of None \<Rightarrow> Some c | Some p \<Rightarrow> rootLayer h p))"

definition put_parent :: "nat \<Rightarrow> nat option \<Rightarrow> links \<Rightarrow> links option" where
  "put_parent c p h = do { l \<leftarrow> h c; Some (h(c \<mapsto> l\<lparr>lk_parent := p\<rparr>)) }"

definition setParent :: "nat \<Rightarrow> nat option \<Rightarrow> links \<Rightarrow> links option" where
  "setParent c p h =
     (case p of
        None \<Rightarrow> put_parent c p h
      | Some q \<Rightarrow> do { below \<leftarrow> hasAncestor h q c; if below then Some h else put_parent c p h })"

text \<open>\<open>removeChild(child, index)\<close>: the layer at the index goes, whichever it is.\<close>

definition removeChildAt :: "nat \<Rightarrow> nat \<Rightarrow> nat \<Rightarrow> links \<Rightarrow> links option" where
  "removeChildAt p c i h =
     do { l \<leftarrow> h p;
          if length (lk_children l) \<le> i then Some h
          else do { h1 \<leftarrow> setParent c None h;
                    l1 \<leftarrow> h1 p;
                    Some (h1(p \<mapsto> l1\<lparr>lk_children := erase_at i (lk_children l1)\<rparr>)) } }"

definition removeChild :: "nat \<Rightarrow> nat \<Rightarrow> links \<Rightarrow> links option" where
  "removeChild p c h =
     do { l \<leftarrow> h p;
          case find_index (\<lambda>x. x = c) (lk_children l) of None \<Rightarrow> Some h | Some i \<Rightarrow> removeChildAt p c i h }"

definition removeFromParent :: "nat \<Rightarrow> links \<Rightarrow> links option" where
  "removeFromParent c h = do { l \<leftarrow> h c; case lk_parent l of None \<Rightarrow> Some h | Some p \<Rightarrow> removeChild p c h }"

text \<open>\<open>insert_nth\<close> is \<open>vector::insert\<close> at the smaller of the index and the size.\<close>

definition insert_nth :: "nat \<Rightarrow> 'a \<Rightarrow> 'a list \<Rightarrow> 'a list" where
  "insert_nth i x xs = take i xs @ x # drop i xs"

definition insertChild :: "nat \<Rightarrow> nat \<Rightarrow> nat \<Rightarrow> links \<Rightarrow> links option" where
  "insertChild p c i h =
     do { h1 \<leftarrow> removeFromParent c h;
          h2 \<leftarrow> setParent c (Some p) h1;
          l \<leftarrow> h2 p;
          Some (h2(p \<mapsto> l\<lparr>lk_children := insert_nth i c (lk_children l)\<rparr>)) }"

definition appendChild :: "nat \<Rightarrow> nat \<Rightarrow> links \<Rightarrow> links option" where
  "appendChild p c h = do { l \<leftarrow> h p; insertChild p c (length (lk_children l)) h }"

text \<open>\<open>invalidate(LayerRemoveInvalidate)\<close>.\<close>

definition mark_removed :: "nat \<Rightarrow> links \<Rightarrow> links option" where
  "mark_removed c h = do { l \<leftarrow> h c; Some (h(c \<mapsto> l\<lparr>lk_remove := True\<rparr>)) }"

text \<open>The end of \<open>prePaint\<close>: the marked children are collected by index and removed, the last index first.\<close>

definition marked :: "links \<Rightarrow> nat \<Rightarrow> bool" where
  "marked h c \<longleftrightarrow> (case h c of None \<Rightarrow> False | Some l \<Rightarrow> lk_remove l)"

definition recycleChildList :: "links \<Rightarrow> nat list \<Rightarrow> (nat \<times> nat) list" where
  "recycleChildList h cs = filter (\<lambda>(i, c). marked h c) (enumerate 0 cs)"

fun remove_recycled :: "nat \<Rightarrow> (nat \<times> nat) list \<Rightarrow> links \<Rightarrow> links option" where
  "remove_recycled p [] h = Some h"
| "remove_recycled p ((i, c) # rs) h = do { h1 \<leftarrow> removeChildAt p c i h; remove_recycled p rs h1 }"

definition recycle :: "nat \<Rightarrow> links \<Rightarrow> links option" where
  "recycle p h = do { l \<leftarrow> h p; remove_recycled p (rev (recycleChildList h (lk_children l))) h }"

text \<open>What components do with layers: \<open>mountChildComponent\<close>, \<open>unmountChildComponent\<close>, and the frames.\<close>

datatype layer_op = CreateLayer nat | MountLayer nat nat nat | UnmountLayer nat | PrePaintLayer nat

fun layer_op_step :: "links \<Rightarrow> layer_op \<Rightarrow> links option" where
  "layer_op_step h (CreateLayer c) = (if h c = None then Some (h(c \<mapsto> new_link)) else None)"
| "layer_op_step h (MountLayer p c i) = insertChild p c i h"
| "layer_op_step h (UnmountLayer c) = mark_removed c h"
| "layer_op_step h (PrePaintLayer p) = recycle p h"

section \<open>Well-formed trees\<close>

definition par :: "links \<Rightarrow> nat \<Rightarrow> nat option" where
  "par h c = (case h c of None \<Rightarrow> None | Some l \<Rightarrow> lk_parent l)"

definition kids :: "links \<Rightarrow> nat \<Rightarrow> nat list" where
  "kids h p = (case h p of None \<Rightarrow> [] | Some l \<Rightarrow> lk_children l)"

text \<open>The pairs of a parent and its child.\<close>

definition edges :: "links \<Rightarrow> (nat \<times> nat) set" where
  "edges h = {(p, c). par h c = Some p}"

definition links_ok :: "links \<Rightarrow> bool" where
  "links_ok h \<longleftrightarrow> (\<forall>p. distinct (kids h p)) \<and> (\<forall>p c. c \<in> set (kids h p) \<longleftrightarrow> par h c = Some p) \<and>
     (\<forall>c p. par h c = Some p \<longrightarrow> h p \<noteq> None) \<and> wf (edges h)"

lemma upd_simps [simp]:
  "par (h(c \<mapsto> l)) x = (if x = c then lk_parent l else par h x)"
  "kids (h(c \<mapsto> l)) x = (if x = c then lk_children l else kids h x)"
  "marked (h(c \<mapsto> l)) x = (if x = c then lk_remove l else marked h x)"
  by (simp_all add: par_def kids_def marked_def)

lemma link_at: "h c = Some l \<Longrightarrow> lk_parent l = par h c \<and> lk_children l = kids h c \<and> lk_remove l = marked h c"
  by (simp add: par_def kids_def marked_def)

lemma par_live: "par h c = Some p \<Longrightarrow> h c \<noteq> None"
  by (auto simp: par_def split: option.splits)

lemma has_ancestor_iff:
  assumes "wf (edges h)" and "\<And>c p. par h c = Some p \<Longrightarrow> h p \<noteq> None"
  shows "has_ancestor h a (par h c) = Some ((a, c) \<in> (edges h)\<^sup>+)"
  using assms(1)
proof (induction c rule: wf_induct_rule)
  case (less c)
  show ?case
  proof (cases "par h c")
    case None
    then have "(a, c) \<notin> (edges h)\<^sup>+" by (auto simp: edges_def elim: tranclE)
    with None show ?thesis by (subst has_ancestor.simps) simp
  next
    case (Some p)
    then obtain l where l: "h p = Some l" "lk_parent l = par h p" using assms(2) by (auto simp: par_def)
    have e: "(p, c) \<in> edges h" using Some by (simp add: edges_def)
    have "(a, c) \<in> (edges h)\<^sup>+ \<longleftrightarrow> a = p \<or> (a, p) \<in> (edges h)\<^sup>+"
    proof
      assume "(a, c) \<in> (edges h)\<^sup>+"
      then show "a = p \<or> (a, p) \<in> (edges h)\<^sup>+"
        by (cases rule: trancl.cases) (use Some in \<open>auto simp: edges_def\<close>)
    qed (use e in \<open>auto intro: trancl.intros\<close>)
    with less [OF e] Some l show ?thesis by (subst has_ancestor.simps) auto
  qed
qed

lemma links_okD:
  assumes "links_ok h"
  shows "distinct (kids h p)" "c \<in> set (kids h p) \<longleftrightarrow> par h c = Some p" "par h c = Some p \<Longrightarrow> h p \<noteq> None" "wf (edges h)"
    "par h c \<noteq> Some c"
proof -
  show w: "wf (edges h)" using assms by (simp add: links_ok_def)
  show "par h c \<noteq> Some c"
  proof
    assume "par h c = Some c"
    then have "(c, c) \<in> edges h" by (simp add: edges_def)
    with w show False by (simp add: wf_not_refl)
  qed
qed (use assms in \<open>auto simp: links_ok_def\<close>)

lemma erase_found: "find_index (\<lambda>x. x = c) xs = Some i \<Longrightarrow> erase_at i xs = remove1 c xs"
  by (induction xs arbitrary: i) (auto split: if_splits)

lemma erase_at_remove1: "distinct xs \<Longrightarrow> i < length xs \<Longrightarrow> erase_at i xs = remove1 (xs ! i) xs"
proof (induction xs arbitrary: i)
  case (Cons x xs)
  then show ?case by (cases i) auto
qed simp

lemma find_index_nth: "find_index P xs = Some i \<Longrightarrow> i < length xs \<and> P (xs ! i)"
  using find_index_Some by blast

text \<open>What an operation leaves: the same layers and marks, with these parents and children.\<close>

definition rewired :: "links \<Rightarrow> (nat \<Rightarrow> nat option) \<Rightarrow> (nat \<Rightarrow> nat list) \<Rightarrow> links \<Rightarrow> bool" where
  "rewired h pr ks h' \<longleftrightarrow> par h' = pr \<and> kids h' = ks \<and> marked h' = marked h \<and> dom h' = dom h"

lemma removeChildAt_effect:
  assumes ok: "links_ok h" and i: "i < length (kids h p)" and c: "c = kids h p ! i"
  shows "\<exists>h'. removeChildAt p c i h = Some h' \<and> links_ok h' \<and>
    rewired h ((par h)(c := None)) ((kids h)(p := remove1 c (kids h p))) h'"
proof -
  note D = links_okD [OF ok]
  have pc: "par h c = Some p" using D(2) i c nth_mem by blast
  then obtain lp lc where l: "h p = Some lp" "h c = Some lc" using D(3) par_live by fastforce
  have ne: "c \<noteq> p" using D(5) pc by blast
  let ?h = "h(c \<mapsto> lc\<lparr>lk_parent := None\<rparr>, p \<mapsto> lp\<lparr>lk_children := erase_at i (lk_children lp)\<rparr>)"
  have e: "erase_at i (kids h p) = remove1 c (kids h p)" using erase_at_remove1 D(1) i c by blast
  have "removeChildAt p c i h = Some ?h"
    using l i ne link_at [of h p lp] by (simp add: removeChildAt_def setParent_def put_parent_def)
  moreover have r: "rewired h ((par h)(c := None)) ((kids h)(p := remove1 c (kids h p))) ?h"
    using l ne e link_at [of h p lp] link_at [of h c lc] by (auto simp: rewired_def fun_eq_iff)
  moreover have "links_ok ?h"
  proof -
    have "edges ?h \<subseteq> edges h" using ne l link_at [of h p lp] by (auto simp: edges_def split: if_splits)
    then have w: "wf (edges ?h)" using D(4) wf_subset by blast
    have live: "h q \<noteq> None \<longleftrightarrow> ?h q \<noteq> None" for q
      using r unfolding rewired_def by (metis domIff)
    have k: "kids ?h q = (if q = p then remove1 c (kids h p) else kids h q)" "par ?h x = (if x = c then None else par h x)" for q x
      using r by (simp_all add: rewired_def)
    have "set (remove1 c (kids h p)) = set (kids h p) - {c}" using D(1) by (rule set_remove1_eq)
    moreover have "c \<notin> set (kids h q)" if "q \<noteq> p" for q using that pc D(2) by auto
    ultimately have iff: "x \<in> set (kids ?h q) \<longleftrightarrow> par ?h x = Some q" for x q
      unfolding k using D(2) [of x q] D(2) [of x p] by auto
    show ?thesis
      unfolding links_ok_def
    proof (intro conjI allI impI)
      show "distinct (kids ?h q)" for q unfolding k using D(1) by simp
      show "?h q \<noteq> None" if "par ?h x = Some q" for x q
      proof -
        have "par h x = Some q" using that unfolding k by (simp split: if_splits)
        then have "h q \<noteq> None" by (rule D(3))
        then show ?thesis using live by blast
      qed
    qed (use iff w in blast)+
  qed
  ultimately show ?thesis by blast
qed

definition detached :: "links \<Rightarrow> nat \<Rightarrow> nat \<Rightarrow> nat list" where
  "detached h c = (\<lambda>q. if par h c = Some q then remove1 c (kids h q) else kids h q)"

lemma removeFromParent_effect:
  assumes ok: "links_ok h" and c: "h c \<noteq> None"
  shows "\<exists>h'. removeFromParent c h = Some h' \<and> links_ok h' \<and> rewired h ((par h)(c := None)) (detached h c) h'"
proof (cases "par h c")
  case None
  then have "removeFromParent c h = Some h" using c by (auto simp: removeFromParent_def par_def)
  moreover have "rewired h ((par h)(c := None)) (detached h c) h"
    using None by (auto simp: rewired_def detached_def)
  ultimately show ?thesis using ok by blast
next
  case (Some p)
  note D = links_okD [OF ok]
  have "c \<in> set (kids h p)" using D(2) Some by blast
  then obtain i where i: "find_index (\<lambda>x. x = c) (kids h p) = Some i" using find_index_exists [of c "kids h p" "\<lambda>x. x = c"] by blast
  then have i': "i < length (kids h p)" "c = kids h p ! i" using find_index_nth [OF i] by simp_all
  obtain lc lp where l: "h c = Some lc" "h p = Some lp" using c D(3) [OF Some] by blast
  have "removeFromParent c h = removeChildAt p c i h"
    using l Some i link_at [of h c lc] link_at [of h p lp] by (simp add: removeFromParent_def removeChild_def)
  moreover have "detached h c = (kids h)(p := remove1 c (kids h p))"
    using Some by (auto simp: detached_def)
  ultimately show ?thesis using removeChildAt_effect [OF ok i'] by auto
qed

lemma hasAncestor_iff: "links_ok h \<Longrightarrow> h c \<noteq> None \<Longrightarrow> hasAncestor h c a = Some ((a, c) \<in> (edges h)\<^sup>+)"
  using has_ancestor_iff [of h a c] links_okD(3,4) by (auto simp: hasAncestor_def par_def)

lemma insertChild_effect:
  assumes ok: "links_ok h" and c: "h c \<noteq> None" and p: "h p \<noteq> None" and ne: "c \<noteq> p" and anc: "(c, p) \<notin> (edges h)\<^sup>+"
  shows "\<exists>h'. insertChild p c i h = Some h' \<and> links_ok h' \<and>
    rewired h ((par h)(c := Some p)) ((detached h c)(p := insert_nth i c (detached h c p))) h'"
proof -
  obtain h1 where h1: "removeFromParent c h = Some h1" "links_ok h1" "rewired h ((par h)(c := None)) (detached h c) h1"
    using removeFromParent_effect [OF ok c] by blast
  note D = links_okD [OF h1(2)]
  have d: "h1 c \<noteq> None" "h1 p \<noteq> None" using h1(3) c p unfolding rewired_def by (metis domIff)+
  then obtain lc lp where l: "h1 c = Some lc" "h1 p = Some lp" by blast
  have sub: "edges h1 \<subseteq> edges h" using h1(3) by (auto simp: edges_def rewired_def split: if_splits)
  then have a1: "(c, p) \<notin> (edges h1)\<^sup>+" using anc trancl_mono by blast
  let ?h = "h1(c \<mapsto> lc\<lparr>lk_parent := Some p\<rparr>, p \<mapsto> lp\<lparr>lk_children := insert_nth i c (lk_children lp)\<rparr>)"
  have "insertChild p c i h = Some ?h"
    using h1(1) l a1 ne hasAncestor_iff [OF h1(2) d(2)] by (simp add: insertChild_def setParent_def put_parent_def)
  moreover have r1: "par ?h = (par h1)(c := Some p)" "kids ?h = (kids h1)(p := insert_nth i c (kids h1 p))"
      "marked ?h = marked h1" "dom ?h = dom h1"
    using l ne link_at [of h1 c lc] link_at [of h1 p lp] by (auto simp: fun_eq_iff)
  have r: "rewired h ((par h)(c := Some p)) ((detached h c)(p := insert_nth i c (detached h c p))) ?h"
    using h1(3) by (simp only: rewired_def r1) simp
  moreover have "links_ok ?h"
  proof -
    have root: "par h1 c = None" using h1(3) by (simp add: rewired_def)
    have "edges ?h = insert (p, c) (edges h1)" using root unfolding edges_def r1 by auto
    moreover have "(c, p) \<notin> (edges h1)\<^sup>*" using a1 ne by (auto dest: rtranclD)
    ultimately have w: "wf (edges ?h)" using D(4) by (simp add: wf_insert)
    have k: "set (insert_nth i c (kids h1 p)) = insert c (set (kids h1 p))"
      by (metis append_take_drop_id insert_nth_def list.simps(15) set_append Un_insert_right)
    have c': "c \<notin> set (kids h1 q)" for q using D(2) root by simp
    then have dist: "distinct (insert_nth i c (kids h1 p))"
      using D(1) [of p] by (auto simp: insert_nth_def dest: in_set_takeD in_set_dropD) (metis append_take_drop_id distinct_append disjoint_iff)
    show ?thesis
      unfolding links_ok_def
    proof (intro conjI allI impI)
      show "distinct (kids ?h q)" for q unfolding r1 using D(1) dist by simp
      show "x \<in> set (kids ?h q) \<longleftrightarrow> par ?h x = Some q" for x q
        unfolding r1 using k c' [of q] D(2) [of x q] root by auto
      show "?h q \<noteq> None" if "par ?h x = Some q" for x q
        using that D(3) [of x q] d(2) unfolding r1 by (auto split: if_splits)
      show "wf (edges ?h)" by (rule w)
    qed
  qed
  ultimately show ?thesis by blast
qed


section \<open>Removing what is marked\<close>

lemma recycle_suffix:
  assumes "links_ok h" and "kids h p = xs @ ys"
  shows "\<exists>h'. remove_recycled p (rev (filter (\<lambda>(i, c). M c) (enumerate 0 xs))) h = Some h' \<and> links_ok h' \<and>
    rewired h (\<lambda>c. if c \<in> set xs \<and> M c then None else par h c) ((kids h)(p := filter (\<lambda>c. \<not> M c) xs @ ys)) h'"
  using assms
proof (induction xs arbitrary: ys h rule: rev_induct)
  case Nil
  then have "(kids h)(p := ys) = kids h" by (simp add: fun_upd_idem)
  with Nil show ?case by (simp add: rewired_def)
next
  case (snoc x xs)
  note D = links_okD [OF snoc.prems(1)]
  have dist: "x \<notin> set xs" "x \<notin> set ys" using D(1) [of p] snoc.prems(2) by auto
  show ?case
  proof (cases "M x")
    case True
    have i: "length xs < length (kids h p)" "x = kids h p ! length xs" using snoc.prems(2) by simp_all
    obtain h1 where h1: "removeChildAt p x (length xs) h = Some h1" "links_ok h1"
        "rewired h ((par h)(x := None)) ((kids h)(p := remove1 x (kids h p))) h1"
      using removeChildAt_effect [OF snoc.prems(1) i] by blast
    have "kids h1 p = xs @ ys" using h1(3) snoc.prems(2) dist by (simp add: rewired_def remove1_append)
    from snoc.IH [OF h1(2) this] obtain h' where h': "remove_recycled p (rev (filter (\<lambda>(i, c). M c) (enumerate 0 xs))) h1 = Some h'"
        "links_ok h'" "rewired h1 (\<lambda>c. if c \<in> set xs \<and> M c then None else par h1 c) ((kids h1)(p := filter (\<lambda>c. \<not> M c) xs @ ys)) h'"
      by blast
    have "rewired h (\<lambda>c. if c \<in> set (xs @ [x]) \<and> M c then None else par h c) ((kids h)(p := filter (\<lambda>c. \<not> M c) (xs @ [x]) @ ys)) h'"
      using h'(3) h1(3) True by (auto simp: rewired_def fun_eq_iff)
    moreover have "remove_recycled p (rev (filter (\<lambda>(i, c). M c) (enumerate 0 (xs @ [x])))) h = Some h'"
      using True h1(1) h'(1) by (simp add: enumerate_append_eq)
    ultimately show ?thesis using h'(2) by blast
  next
    case False
    have "kids h p = xs @ (x # ys)" using snoc.prems(2) by simp
    from snoc.IH [OF snoc.prems(1) this] obtain h' where h': "remove_recycled p (rev (filter (\<lambda>(i, c). M c) (enumerate 0 xs))) h = Some h'"
        "links_ok h'" "rewired h (\<lambda>c. if c \<in> set xs \<and> M c then None else par h c) ((kids h)(p := filter (\<lambda>c. \<not> M c) xs @ x # ys)) h'"
      by blast
    have "rewired h (\<lambda>c. if c \<in> set (xs @ [x]) \<and> M c then None else par h c) ((kids h)(p := filter (\<lambda>c. \<not> M c) (xs @ [x]) @ ys)) h'"
      using h'(3) False by (auto simp: rewired_def fun_eq_iff)
    moreover have "remove_recycled p (rev (filter (\<lambda>(i, c). M c) (enumerate 0 (xs @ [x])))) h = Some h'"
      using False h'(1) by (simp add: enumerate_append_eq)
    ultimately show ?thesis using h'(2) by blast
  qed
qed

lemma recycle_effect:
  assumes ok: "links_ok h" and p: "h p \<noteq> None"
  shows "\<exists>h'. recycle p h = Some h' \<and> links_ok h' \<and>
    rewired h (\<lambda>c. if c \<in> set (kids h p) \<and> marked h c then None else par h c) ((kids h)(p := filter (\<lambda>c. \<not> marked h c) (kids h p))) h'"
proof -
  obtain l where l: "h p = Some l" using p by blast
  have "recycle p h = remove_recycled p (rev (filter (\<lambda>(i, c). marked h c) (enumerate 0 (kids h p)))) h"
    using l link_at [of h p l] by (simp add: recycle_def recycleChildList_def)
  with recycle_suffix [OF ok, of p "kids h p" "[]" "marked h"] show ?thesis by simp
qed

lemma mark_effect:
  assumes "links_ok h" and "h c \<noteq> None"
  shows "\<exists>h'. mark_removed c h = Some h' \<and> links_ok h' \<and> par h' = par h \<and> kids h' = kids h \<and>
    marked h' = (marked h)(c := True) \<and> dom h' = dom h"
proof -
  obtain l where l: "h c = Some l" using assms(2) by blast
  let ?h = "h(c \<mapsto> l\<lparr>lk_remove := True\<rparr>)"
  have e: "par ?h = par h" "kids ?h = kids h" "marked ?h = (marked h)(c := True)" "dom ?h = dom h"
    using l link_at [of h c l] by (auto simp: fun_eq_iff)
  have "links_ok ?h" using assms(1) unfolding links_ok_def edges_def e by (metis e(4) domIff)
  with l e show ?thesis by (auto simp: mark_removed_def)
qed

lemma create_effect:
  assumes "links_ok h" and "h c = None"
  shows "links_ok (h(c \<mapsto> new_link))" "par (h(c \<mapsto> new_link)) = par h" "kids (h(c \<mapsto> new_link)) = kids h"
    "marked (h(c \<mapsto> new_link)) = marked h"
proof -
  show e: "par (h(c \<mapsto> new_link)) = par h" "kids (h(c \<mapsto> new_link)) = kids h" "marked (h(c \<mapsto> new_link)) = marked h"
    using assms(2) by (auto simp: fun_eq_iff new_link_def par_def kids_def marked_def)
  show "links_ok (h(c \<mapsto> new_link))" using assms unfolding links_ok_def edges_def e by auto
qed

section \<open>The order of the layers and the order of React\<close>

text \<open>
  What React holds for the children of each view: a mounted view is inserted at its index, an unmounted one
  is taken out at once.
\<close>

fun react_step :: "(nat \<Rightarrow> nat list) \<Rightarrow> layer_op \<Rightarrow> nat \<Rightarrow> nat list" where
  "react_step s (CreateLayer c) = s"
| "react_step s (MountLayer p c i) = s(p := insert_nth i c (s p))"
| "react_step s (UnmountLayer c) = (\<lambda>p. remove1 c (s p))"
| "react_step s (PrePaintLayer p) = s"

text \<open>The children that are not marked.\<close>

definition shown :: "links \<Rightarrow> nat \<Rightarrow> nat list" where
  "shown h p = filter (\<lambda>c. \<not> marked h c) (kids h p)"

text \<open>
  A view is mounted when its layer is neither below another nor above its new parent nor marked, and
  nothing that stands before its place is marked.
\<close>

fun layer_allowed :: "links \<Rightarrow> layer_op \<Rightarrow> bool" where
  "layer_allowed h (CreateLayer c) \<longleftrightarrow> h c = None"
| "layer_allowed h (MountLayer p c i) \<longleftrightarrow> h p \<noteq> None \<and> h c \<noteq> None \<and> c \<noteq> p \<and> par h c = None \<and> \<not> marked h c \<and>
     hasAncestor h p c = Some False \<and> (\<forall>x \<in> set (take i (kids h p)). \<not> marked h x)"
| "layer_allowed h (UnmountLayer c) \<longleftrightarrow> h c \<noteq> None"
| "layer_allowed h (PrePaintLayer p) \<longleftrightarrow> h p \<noteq> None"

lemma filter_insert_nth:
  "P x \<Longrightarrow> \<forall>y \<in> set (take i xs). P y \<Longrightarrow> filter P (insert_nth i x xs) = insert_nth i x (filter P xs)"
proof (induction i arbitrary: xs)
  case 0
  then show ?case by (simp add: insert_nth_def)
next
  case (Suc i)
  then show ?case by (cases xs) (auto simp: insert_nth_def)
qed

lemma layer_step_ok:
  assumes ok: "links_ok h" and al: "layer_allowed h e"
  shows "\<exists>h'. layer_op_step h e = Some h' \<and> links_ok h' \<and> shown h' = react_step (shown h) e"
proof (cases e)
  case (CreateLayer c)
  have "h c = None" using al CreateLayer by simp
  note C = create_effect [OF ok this]
  have "shown (h(c \<mapsto> new_link)) = shown h" unfolding shown_def C(2-4) by simp
  with al CreateLayer C(1) show ?thesis by simp
next
  case (MountLayer p c i)
  have anc: "(c, p) \<notin> (edges h)\<^sup>+" using al MountLayer hasAncestor_iff [OF ok, of p c] by simp
  have l: "h c \<noteq> None" "h p \<noteq> None" "c \<noteq> p" and pc: "par h c = None" using al MountLayer by simp_all
  obtain h' where h': "insertChild p c i h = Some h'" "links_ok h'"
      "rewired h ((par h)(c := Some p)) ((detached h c)(p := insert_nth i c (detached h c p))) h'"
    using insertChild_effect [OF ok l anc] by blast
  have "detached h c = kids h" using pc by (auto simp: detached_def)
  with h'(3) have "shown h' = react_step (shown h) e"
    using al MountLayer by (auto simp: rewired_def shown_def fun_eq_iff filter_insert_nth)
  with h'(1,2) MountLayer show ?thesis by auto
next
  case (UnmountLayer c)
  with al obtain h' where h': "mark_removed c h = Some h'" "links_ok h'" "kids h' = kids h" "marked h' = (marked h)(c := True)"
    using mark_effect [OF ok, of c] by auto
  have "shown h' p = remove1 c (shown h p)" for p
    using links_okD(1) [OF ok, of p] unfolding shown_def h'(3,4)
    by (auto simp: distinct_remove1_removeAll removeAll_filter_not_eq intro: filter_cong)
  with h' UnmountLayer show ?thesis by (auto simp: fun_eq_iff)
next
  case (PrePaintLayer p)
  with al recycle_effect [OF ok, of p] show ?thesis by (fastforce simp: rewired_def shown_def fun_eq_iff)
qed


lemma walk_up:
  assumes "wf (edges h)" and "\<And>c p. par h c = Some p \<Longrightarrow> h p \<noteq> None" and "h c \<noteq> None"
  shows "\<exists>r. rootLayer h c = Some r \<and> par h r = None \<and> (r, c) \<in> (edges h)\<^sup>*"
  using assms(1,3)
proof (induction c rule: wf_induct_rule)
  case (less c)
  then obtain l where l: "h c = Some l" "lk_parent l = par h c" by (auto simp: par_def)
  show ?case
  proof (cases "par h c")
    case None
    with l show ?thesis by (subst rootLayer.simps) auto
  next
    case (Some p)
    then have e: "(p, c) \<in> edges h" by (simp add: edges_def)
    obtain r where r: "rootLayer h p = Some r" "par h r = None" "(r, p) \<in> (edges h)\<^sup>*"
      using less.IH [OF e] assms(2) [OF Some] by blast
    have "rootLayer h c = Some r" using l Some r(1) by (subst rootLayer.simps) simp
    with r e show ?thesis by (meson rtrancl.rtrancl_into_rtrancl)
  qed
qed

section \<open>Properties\<close>

fun layers_allowed :: "links \<Rightarrow> layer_op list \<Rightarrow> bool" where
  "layers_allowed h [] \<longleftrightarrow> True"
| "layers_allowed h (e # es) \<longleftrightarrow>
     layer_allowed h e \<and> (case layer_op_step h e of None \<Rightarrow> False | Some h' \<Rightarrow> layers_allowed h' es)"

lemma no_layers_ok: "links_ok (\<lambda>_. None)"
  by (simp add: links_ok_def edges_def par_def kids_def)

lemma layers_run_ok:
  "links_ok h \<Longrightarrow> layers_allowed h es \<Longrightarrow>
    \<exists>h'. run_opt layer_op_step h es = Some h' \<and> links_ok h' \<and> shown h' = fold (\<lambda>e s. react_step s e) es (shown h)"
proof (induction es arbitrary: h)
  case (Cons e es)
  then obtain h1 where h1: "layer_op_step h e = Some h1" "links_ok h1" "shown h1 = react_step (shown h) e"
    using layer_step_ok [of h e] by auto
  moreover have "layers_allowed h1 es" using Cons.prems(2) h1(1) by simp
  ultimately obtain h' where "run_opt layer_op_step h1 es = Some h'" "links_ok h'" "shown h' = fold (\<lambda>e s. react_step s e) es (shown h1)"
    using Cons.IH by blast
  with h1 show ?case by simp
qed simp

text \<open>C25: As long as every view that is mounted is not marked for removal, has no parent and is not the new
  parent or above it, and nothing marked stands before its place, mounting, unmounting and the frames keep
  the order of the layers that React asked for: the layers of a view that are not about to leave are the
  views React has there, in its order, and no layer is lost. This leaves out views that are moved,
  unmounted and mounted again before the next frame, for which it fails.\<close>

theorem layers_follow_react:
  assumes "layers_allowed (\<lambda>_. None) es"
  shows "\<exists>h. run_opt layer_op_step (\<lambda>_. None) es = Some h \<and>
    (\<forall>p. shown h p = fold (\<lambda>e s. react_step s e) es (\<lambda>_. []) p)"
proof -
  have "shown (\<lambda>_. None) = (\<lambda>_. [])" by (simp add: shown_def kids_def fun_eq_iff)
  with layers_run_ok [OF no_layers_ok assms] show ?thesis by auto
qed

text \<open>Under the same conditions parents and children stay consistent, every walk up the parents ends, at a
  layer without a parent, and \<open>hasAncestor\<close> answers whether the walk meets the layer.\<close>

theorem layer_walks_end:
  assumes "layers_allowed (\<lambda>_. None) es" and "run_opt layer_op_step (\<lambda>_. None) es = Some h" and "h c \<noteq> None"
  shows "\<exists>r. rootLayer h c = Some r \<and> par h r = None" and "hasAncestor h c a = Some ((a, c) \<in> (edges h)\<^sup>+)"
    and "c \<in> set (kids h p) \<longleftrightarrow> par h c = Some p"
proof -
  have ok: "links_ok h" using layers_run_ok [OF no_layers_ok assms(1)] assms(2) by auto
  note D = links_okD [OF ok]
  show "\<exists>r. rootLayer h c = Some r \<and> par h r = None" using walk_up [OF D(4)] D(3) assms(3) by blast
  show "hasAncestor h c a = Some ((a, c) \<in> (edges h)\<^sup>+)" by (rule hasAncestor_iff [OF ok assms(3)])
  show "c \<in> set (kids h p) \<longleftrightarrow> par h c = Some p" by (rule D(2))
qed

text \<open>Removing the marked children by their indexes, the last one first, is taking the marked ones out:
  exactly they lose their parent, and the others keep their order.\<close>

theorem recycle_removes_marked:
  assumes "links_ok h" and "h p \<noteq> None"
  shows "\<exists>h'. recycle p h = Some h' \<and> kids h' = (kids h)(p := filter (\<lambda>c. \<not> marked h c) (kids h p)) \<and>
    (\<forall>c. par h' c = (if par h c = Some p \<and> marked h c then None else par h c))"
  using recycle_effect [OF assms] links_okD(2) [OF assms(1)] by (fastforce simp: rewired_def)

text \<open>C26: A view that is unmounted and mounted again before the next frame vanishes with that frame: its layer
  is still marked, at any later frame too.\<close>

theorem moved_view_vanishes:
  assumes "links_ok h" and "h c \<noteq> None" and "h q \<noteq> None" and "c \<noteq> q" and "(c, q) \<notin> (edges h)\<^sup>+"
  shows "\<exists>h'. run_opt layer_op_step h [UnmountLayer c, MountLayer q c i, PrePaintLayer q] = Some h' \<and>
    c \<notin> set (kids h' q) \<and> par h' c = None \<and> marked h' c"
proof -
  obtain h1 where h1: "mark_removed c h = Some h1" "links_ok h1" "par h1 = par h" "kids h1 = kids h"
      "marked h1 = (marked h)(c := True)" "dom h1 = dom h"
    using mark_effect [OF assms(1,2)] by blast
  have e: "edges h1 = edges h" by (simp add: edges_def h1(3))
  have l: "h1 c \<noteq> None" "h1 q \<noteq> None" using assms(2,3) h1(6) by (metis domIff)+
  obtain h2 where h2: "insertChild q c i h1 = Some h2" "links_ok h2"
      "rewired h1 ((par h1)(c := Some q)) ((detached h1 c)(q := insert_nth i c (detached h1 c q))) h2"
    using insertChild_effect [OF h1(2) l assms(4)] assms(5) e by auto
  have "h2 q \<noteq> None" using l(2) h2(3) unfolding rewired_def by (metis domIff)
  then obtain h3 where h3: "recycle q h2 = Some h3"
      "rewired h2 (\<lambda>c. if c \<in> set (kids h2 q) \<and> marked h2 c then None else par h2 c) ((kids h2)(q := filter (\<lambda>c. \<not> marked h2 c) (kids h2 q))) h3"
    using recycle_effect [OF h2(2)] by blast
  have "c \<in> set (kids h2 q)" "marked h2 c" using h2(3) h1(5) by (auto simp: rewired_def insert_nth_def)
  with h3(2) have "c \<notin> set (kids h3 q) \<and> par h3 c = None \<and> marked h3 c" by (simp add: rewired_def)
  with h1(1) h2(1) h3(1) show ?thesis by simp
qed

lemma insert_nth_append: "insert_nth (length xs + n) x (xs @ ys) = xs @ insert_nth n x ys"
  by (simp add: insert_nth_def)

text \<open>A view that takes the place behind its neighbour in the same transaction in which the view before
  both is unmounted is painted before that neighbour instead: indexes count the layers that are about to leave.\<close>

theorem removal_shifts_next_mount:
  assumes "links_ok h" and "kids h p = xs @ a # b # ys" and "\<forall>x \<in> set (kids h p). \<not> marked h x"
    and "h c \<noteq> None" and "h p \<noteq> None" and "c \<noteq> p" and "par h c = None" and "\<not> marked h c" and "(c, p) \<notin> (edges h)\<^sup>+"
  shows "\<exists>h'. run_opt layer_op_step h [UnmountLayer a, MountLayer p c (length xs + 1), PrePaintLayer p] = Some h' \<and>
    kids h' p = xs @ c # b # ys \<and>
    fold (\<lambda>e s. react_step s e) [UnmountLayer a, MountLayer p c (length xs + 1), PrePaintLayer p] (kids h) p = xs @ b # c # ys"
proof -
  note D = links_okD [OF assms(1)]
  have d: "a \<notin> set xs" "distinct (xs @ a # b # ys)" using D(1) [of p] assms(2) by auto
  have pa: "par h a = Some p" using D(2) [of a p] assms(2) by simp
  have ca: "c \<noteq> a" using pa assms(7) by auto
  obtain h1 where h1: "mark_removed a h = Some h1" "links_ok h1" "par h1 = par h" "kids h1 = kids h"
      "marked h1 = (marked h)(a := True)" "dom h1 = dom h"
    using mark_effect [OF assms(1), of a] par_live [OF pa] by blast
  have e: "edges h1 = edges h" by (simp add: edges_def h1(3))
  have l: "h1 c \<noteq> None" "h1 p \<noteq> None" using assms(4,5) h1(6) by (metis domIff)+
  let ?i = "length xs + 1"
  obtain h2 where h2: "insertChild p c ?i h1 = Some h2" "links_ok h2"
      "rewired h1 ((par h1)(c := Some p)) ((detached h1 c)(p := insert_nth ?i c (detached h1 c p))) h2"
    using insertChild_effect [OF h1(2) l assms(6)] assms(9) e by auto
  have k2: "kids h2 p = xs @ a # c # b # ys"
    using h2(3) h1(3,4) assms(2,7) insert_nth_append [of xs 1 c "a # b # ys"] by (simp add: rewired_def detached_def insert_nth_def)
  have "h2 p \<noteq> None" using l(2) h2(3) unfolding rewired_def by (metis domIff)
  then obtain h3 where h3: "recycle p h2 = Some h3" "kids h3 = (kids h2)(p := filter (\<lambda>c. \<not> marked h2 c) (kids h2 p))"
    using recycle_removes_marked [OF h2(2)] by blast
  have m: "marked h2 = (marked h)(a := True)" using h2(3) h1(5) by (simp add: rewired_def)
  have "filter (\<lambda>x. \<not> marked h2 x) (kids h2 p) = xs @ c # b # ys"
  proof -
    have keep: "filter (\<lambda>x. \<not> marked h2 x) zs = zs" if "set zs \<subseteq> set xs \<union> set ys \<union> {b, c}" for zs
      unfolding m by (rule filter_True) (use that assms(2,3,8) d ca in auto)
    have f: "filter (\<lambda>x. \<not> marked h2 x) xs = xs" "filter (\<lambda>x. \<not> marked h2 x) (c # b # ys) = c # b # ys"
      by (rule keep; auto)+
    have "filter (\<lambda>x. \<not> marked h2 x) (a # c # b # ys) = filter (\<lambda>x. \<not> marked h2 x) (c # b # ys)" by (simp add: m)
    then show ?thesis by (simp only: k2 filter_append f)
  qed
  moreover have "insert_nth ?i c (remove1 a (kids h p)) = xs @ b # c # ys"
    using d assms(2) by (simp add: insert_nth_def remove1_append)
  ultimately show ?thesis using h1(1) h2(1) h3 by simp
qed

lemma root_is_top: "rootLayer h c = Some r \<Longrightarrow> par h r = None \<and> (r, c) \<in> (edges h)\<^sup>*"
proof -
  assume "rootLayer h c = Some r"
  then show ?thesis
  proof (rule rootLayer.raw_induct [where P = "\<lambda>h c r. par h r = None \<and> (r, c) \<in> (edges h)\<^sup>*", rotated])
    fix rec h c r
    assume IH: "\<And>h c r. rec h c = Some r \<Longrightarrow> par h r = None \<and> (r, c) \<in> (edges h)\<^sup>*"
      and b: "(case h c of None \<Rightarrow> None | Some l \<Rightarrow> (case lk_parent l of None \<Rightarrow> Some c | Some p \<Rightarrow> rec h p)) = Some r"
    then obtain l where l: "h c = Some l" by (cases "h c") simp_all
    show "par h r = None \<and> (r, c) \<in> (edges h)\<^sup>*"
    proof (cases "lk_parent l")
      case (Some p)
      with b l have "rec h p = Some r" by simp
      moreover have "(p, c) \<in> edges h" using l Some by (simp add: edges_def par_def)
      ultimately show ?thesis using IH by (meson rtrancl.rtrancl_into_rtrancl)
    qed (use l b in \<open>simp add: par_def\<close>)
  qed
qed

text \<open>Nothing refuses to put a layer into itself: its parent is then itself, and the walk to its root runs for ever.\<close>

theorem layer_in_itself:
  assumes "links_ok h" and "h c \<noteq> None" and "par h c = None"
  shows "\<exists>h'. insertChild c c i h = Some h' \<and> rootLayer h' c = None"
proof -
  obtain l where l: "h c = Some l" using assms(2) by blast
  have p: "lk_parent l = None" using l assms(3) by (simp add: par_def)
  have a: "hasAncestor h c c = Some False" using l p by (simp add: hasAncestor_def has_ancestor.simps)
  let ?h = "h(c \<mapsto> l\<lparr>lk_parent := Some c, lk_children := insert_nth i c (lk_children l)\<rparr>)"
  have i: "insertChild c c i h = Some ?h"
    using l p a by (simp add: insertChild_def removeFromParent_def setParent_def put_parent_def)
  have "(r, c) \<in> (edges ?h)\<^sup>* \<Longrightarrow> r = c" for r
    by (induction rule: converse_rtrancl_induct) (auto simp: edges_def split: if_splits)
  then have "rootLayer ?h c \<noteq> Some r" for r using root_is_top [of ?h c r] by auto
  with i show ?thesis by (meson not_None_eq)
qed


section \<open>Examples\<close>

text \<open>A root with two views in it, and a third view that is not mounted.\<close>

definition three_views :: "layer_op list" where
  "three_views = [CreateLayer 0, CreateLayer 1, CreateLayer 2, CreateLayer 3, MountLayer 0 1 0, MountLayer 0 2 1]"

definition three_links :: links where
  "three_links = [0 \<mapsto> \<lparr>lk_parent = None, lk_children = [1, 2], lk_remove = False\<rparr>,
     1 \<mapsto> \<lparr>lk_parent = Some 0, lk_children = [], lk_remove = False\<rparr>,
     2 \<mapsto> \<lparr>lk_parent = Some 0, lk_children = [], lk_remove = False\<rparr>,
     3 \<mapsto> \<lparr>lk_parent = None, lk_children = [], lk_remove = False\<rparr>]"

lemmas layer_eval = new_link_def insertChild_def removeFromParent_def setParent_def put_parent_def hasAncestor_def
  has_ancestor.simps insert_nth_def par_def kids_def marked_def

lemma three_views_run:
  "layers_allowed (\<lambda>_. None) three_views" "run_opt layer_op_step (\<lambda>_. None) three_views = Some three_links"
  by (simp_all add: three_views_def three_links_def layer_eval fun_upd_twist)

lemma three_links_ok: "links_ok three_links"
  using layers_run_ok [OF no_layers_ok three_views_run(1)] three_views_run(2) by simp

lemma three_links_edges: "(c, 0) \<notin> (edges three_links)\<^sup>+"
  by (auto simp: edges_def three_links_def par_def elim!: tranclE split: if_splits)

lemma layers_follow_react_witness:
  "\<exists>h. run_opt layer_op_step (\<lambda>_. None) (three_views @ [UnmountLayer 1, PrePaintLayer 0]) = Some h \<and> shown h 0 = [2]"
proof -
  have "layers_allowed (\<lambda>_. None) (three_views @ [UnmountLayer 1, PrePaintLayer 0])"
    by (simp add: three_views_def layer_eval mark_removed_def recycle_def recycleChildList_def removeChildAt_def)
  from layers_follow_react [OF this] show ?thesis by (auto simp: three_views_def insert_nth_def)
qed

lemma layer_walks_end_witness: "\<exists>r. rootLayer three_links 1 = Some r \<and> par three_links r = None"
  by (rule layer_walks_end(1) [OF three_views_run]) (simp add: three_links_def)

lemma recycle_removes_marked_witness:
  "\<exists>h'. recycle 0 three_links = Some h' \<and> kids h' = (kids three_links)(0 := [1, 2])"
  using recycle_removes_marked [OF three_links_ok, of 0] by (auto simp: three_links_def kids_def marked_def)

lemma moved_view_vanishes_witness:
  "\<exists>h'. run_opt layer_op_step three_links [UnmountLayer 1, MountLayer 0 1 1, PrePaintLayer 0] = Some h' \<and>
    1 \<notin> set (kids h' 0) \<and> par h' 1 = None \<and> marked h' 1"
  by (rule moved_view_vanishes [OF three_links_ok]) (use three_links_edges in \<open>simp_all add: three_links_def\<close>)

lemma removal_shifts_next_mount_witness:
  "\<exists>h'. run_opt layer_op_step three_links [UnmountLayer 1, MountLayer 0 3 1, PrePaintLayer 0] = Some h' \<and> kids h' 0 = [3, 2]"
  using removal_shifts_next_mount [OF three_links_ok, of 0 "[]" 1 2 "[]" 3] three_links_edges
  by (auto simp: three_links_def kids_def marked_def par_def)

lemma layer_in_itself_witness: "\<exists>h'. insertChild 0 0 0 three_links = Some h' \<and> rootLayer h' 0 = None"
  by (rule layer_in_itself [OF three_links_ok]) (simp_all add: three_links_def par_def)

end
