(* ===== verification/Transactions.thy ===== *)
theory Transactions imports Components begin

text \<open>
  When transactions are mounted (\<open>MountingManager.cpp\<close> and \<open>rns_shell/platform/linux/TaskLoop.cpp\<close>):
  the thread that commits tells the mounting manager, which asks the main loop to pull what was committed
  and to process it, unless it believes that a pull is under way. The two threads share two flags, so both
  sides are taken apart into the steps that read or write them. The \<open>MountingCoordinator\<close> of React Native
  is a parameter: what it takes and what it hands out. Counters of the commits, and of the commits seen by
  the last pull, are there for the statements only.
\<close>

section \<open>State\<close>

text \<open>A command remembers how many commits came before it.\<close>

datatype mm_task = PerformTransaction | HandleCommand view_data string nat

datatype main_at = AtIdle | AtBegin | AtPull | AtClear | AtCheck

datatype js_at = JsIdle | JsCommitted | JsTested bool

record 'c mounting =
  coordinator :: 'c
  mm_nav :: nav
  transactionInFlight :: bool
  followUpTransactionRequired :: bool
  mm_main :: main_at
  mm_js :: js_at
  main_tasks :: "mm_task list"
  loop_running :: bool
  commits :: nat
  pulled :: nat
  given :: "mutation list"
  renders :: nat
  commands_handled :: "(cid option \<times> string \<times> nat \<times> nat) list"

definition new_mounting :: "bool \<Rightarrow> 'c \<Rightarrow> nav \<Rightarrow> 'c mounting" where
  "new_mounting running c reg = \<lparr>coordinator = c, mm_nav = reg, transactionInFlight = False, followUpTransactionRequired = False,
     mm_main = AtIdle, mm_js = JsIdle, main_tasks = [], loop_running = running, commits = 0, pulled = 0, given = [],
     renders = 0, commands_handled = []\<rparr>"

section \<open>The main loop\<close>

text \<open>A task for a loop that is not running is dropped.\<close>

definition dispatch :: "mm_task \<Rightarrow> 'c mounting \<Rightarrow> 'c mounting" where
  "dispatch t s = (if loop_running s then s\<lparr>main_tasks := main_tasks s @ [t]\<rparr> else s)"

text \<open>The component is looked up when the task runs.\<close>

definition handle_command :: "view_data \<Rightarrow> string \<Rightarrow> nat \<Rightarrow> 'c mounting \<Rightarrow> 'c mounting" where
  "handle_command v name k s =
     s\<lparr>commands_handled := commands_handled s @ [(GetComponent v (mm_nav s), name, k, pulled s)]\<rparr>"

definition run_task :: "'c mounting \<Rightarrow> 'c mounting" where
  "run_task s =
     (case (mm_main s, main_tasks s) of
        (AtIdle, PerformTransaction # ts) \<Rightarrow> s\<lparr>main_tasks := ts, mm_main := AtBegin\<rparr>
      | (AtIdle, HandleCommand v name k # ts) \<Rightarrow> handle_command v name k (s\<lparr>main_tasks := ts\<rparr>)
      | _ \<Rightarrow> s)"

section \<open>The committing thread\<close>

definition schedulerDidDispatchCommand :: "view_data \<Rightarrow> string \<Rightarrow> 'c mounting \<Rightarrow> 'c mounting" where
  "schedulerDidDispatchCommand v name s = dispatch (HandleCommand v name (commits s)) s"

text \<open>\<open>schedulerDidFinishTransaction\<close>: the flag is read, and afterwards one of the flags is set.\<close>

definition test_in_flight :: "'c mounting \<Rightarrow> 'c mounting" where
  "test_in_flight s = s\<lparr>mm_js := JsTested (transactionInFlight s)\<rparr>"

definition act_on_flag :: "bool \<Rightarrow> 'c mounting \<Rightarrow> 'c mounting" where
  "act_on_flag in_flight s =
     (if in_flight then s\<lparr>followUpTransactionRequired := True, mm_js := JsIdle\<rparr>
      else dispatch PerformTransaction (s\<lparr>transactionInFlight := True, mm_js := JsIdle\<rparr>))"

definition schedulerDidFinishTransaction :: "'c mounting \<Rightarrow> 'c mounting" where
  "schedulerDidFinishTransaction s = act_on_flag (transactionInFlight s) s"

section \<open>Performing a transaction\<close>

definition begin_round :: "'c mounting \<Rightarrow> 'c mounting" where
  "begin_round s = s\<lparr>followUpTransactionRequired := False, transactionInFlight := True, mm_main := AtPull\<rparr>"

text \<open>A list of mutations that is not empty begins and ends a change of the layer tree.\<close>

definition pull_transaction :: "('c \<Rightarrow> mutation list \<times> 'c) \<Rightarrow> 'c mounting \<Rightarrow> 'c mounting option" where
  "pull_transaction pull s =
     (case pull (coordinator s) of (ms, c) \<Rightarrow>
        do { reg \<leftarrow> ProcessMutations (mm_nav s) ms;
             Some (s\<lparr>coordinator := c, mm_nav := reg, pulled := commits s, given := given s @ ms,
                     renders := renders s + (if ms = [] then 0 else 1), mm_main := AtClear\<rparr>) })"

definition clear_in_flight :: "'c mounting \<Rightarrow> 'c mounting" where
  "clear_in_flight s = s\<lparr>transactionInFlight := False, mm_main := AtCheck\<rparr>"

definition check_follow_up :: "'c mounting \<Rightarrow> 'c mounting" where
  "check_follow_up s = s\<lparr>mm_main := if followUpTransactionRequired s then AtBegin else AtIdle\<rparr>"

text \<open>One step of \<open>performTransaction\<close>.\<close>

definition performTransaction :: "('c \<Rightarrow> mutation list \<times> 'c) \<Rightarrow> 'c mounting \<Rightarrow> 'c mounting option" where
  "performTransaction pull s =
     (case mm_main s of
        AtIdle \<Rightarrow> Some s
      | AtBegin \<Rightarrow> Some (begin_round s)
      | AtPull \<Rightarrow> pull_transaction pull s
      | AtClear \<Rightarrow> Some (clear_in_flight s)
      | AtCheck \<Rightarrow> Some (check_follow_up s))"

section \<open>Steps\<close>

text \<open>
  The committing thread gives a revision to the coordinator (\<open>Commit\<close>) and then calls
  \<open>schedulerDidFinishTransaction\<close> (\<open>ReadFlag\<close>, \<open>SetFlag\<close>).
\<close>

datatype 'r mm_event = Commit 'r | ReadFlag | SetFlag | SendCommand view_data string | LoopStarts | TakeTask | Perform

fun mm_step :: "('r \<Rightarrow> 'c \<Rightarrow> 'c) \<Rightarrow> ('c \<Rightarrow> mutation list \<times> 'c) \<Rightarrow> 'c mounting \<Rightarrow> 'r mm_event \<Rightarrow> 'c mounting option" where
  "mm_step push pull s (Commit r) =
     Some (if mm_js s = JsIdle then s\<lparr>coordinator := push r (coordinator s), commits := Suc (commits s), mm_js := JsCommitted\<rparr> else s)"
| "mm_step push pull s ReadFlag = Some (if mm_js s = JsCommitted then test_in_flight s else s)"
| "mm_step push pull s SetFlag = Some (case mm_js s of JsTested b \<Rightarrow> act_on_flag b s | _ \<Rightarrow> s)"
| "mm_step push pull s (SendCommand v name) = Some (if mm_js s = JsIdle then schedulerDidDispatchCommand v name s else s)"
| "mm_step push pull s LoopStarts = Some (s\<lparr>loop_running := True\<rparr>)"
| "mm_step push pull s TakeTask = Some (run_task s)"
| "mm_step push pull s Perform = performTransaction pull s"

section \<open>A pull that is on its way\<close>

definition pull_comes :: "'c mounting \<Rightarrow> mm_task list \<Rightarrow> bool" where
  "pull_comes s ts \<longleftrightarrow> PerformTransaction \<in> set ts \<or> mm_main s = AtBegin \<or> mm_main s = AtPull \<or>
     (followUpTransactionRequired s \<and> (mm_main s = AtClear \<or> mm_main s = AtCheck))"

definition commands_wait :: "'c mounting \<Rightarrow> bool" where
  "commands_wait s \<longleftrightarrow>
     (\<forall>ts v name k ts'. main_tasks s = ts @ HandleCommand v name k # ts' \<longrightarrow> k \<le> pulled s \<or> pull_comes s ts)"

definition mounting_ok :: "'c mounting \<Rightarrow> bool" where
  "mounting_ok s \<longleftrightarrow> loop_running s \<and>
     (transactionInFlight s \<longrightarrow> PerformTransaction \<in> set (main_tasks s) \<or> mm_main s \<in> {AtBegin, AtPull, AtClear}) \<and>
     (mm_js s = JsTested True \<longrightarrow> PerformTransaction \<in> set (main_tasks s) \<or> mm_main s \<noteq> AtIdle) \<and>
     (mm_js s = JsIdle \<longrightarrow> commits s \<le> pulled s \<or> pull_comes s (main_tasks s)) \<and> commands_wait s \<and>
     (\<forall>v name k. HandleCommand v name k \<in> set (main_tasks s) \<longrightarrow> k \<le> commits s) \<and>
     (\<forall>(c, name, k, p) \<in> set (commands_handled s). k \<le> p)"

text \<open>The main loop does not leave \<open>performTransaction\<close> between the two steps of the other thread.\<close>

definition no_race :: "'c mounting \<Rightarrow> 'r mm_event \<Rightarrow> bool" where
  "no_race s e \<longleftrightarrow> \<not> (e = Perform \<and> mm_main s = AtCheck \<and> mm_js s = JsTested True)"

lemma pull_comes_Nil [simp]: "pull_comes s [] \<longleftrightarrow> mm_main s = AtBegin \<or> mm_main s = AtPull \<or>
    (followUpTransactionRequired s \<and> (mm_main s = AtClear \<or> mm_main s = AtCheck))"
  by (simp add: pull_comes_def)

lemma commands_wait_add:
  assumes "commands_wait s" and "\<And>v name k. t = HandleCommand v name k \<Longrightarrow> k \<le> pulled s \<or> pull_comes s (main_tasks s)"
  shows "commands_wait (s\<lparr>main_tasks := main_tasks s @ [t]\<rparr>)"
  unfolding commands_wait_def
proof (intro allI impI)
  fix ts v name k ts'
  assume "main_tasks (s\<lparr>main_tasks := main_tasks s @ [t]\<rparr>) = ts @ HandleCommand v name k # ts'"
  then have e: "main_tasks s @ [t] = ts @ HandleCommand v name k # ts'" by simp
  show "k \<le> pulled (s\<lparr>main_tasks := main_tasks s @ [t]\<rparr>) \<or> pull_comes (s\<lparr>main_tasks := main_tasks s @ [t]\<rparr>) ts"
  proof (cases ts' rule: rev_exhaust)
    case Nil
    with e assms(2) show ?thesis by (simp add: pull_comes_def)
  next
    case (snoc us u)
    with e have "main_tasks s = ts @ HandleCommand v name k # us" by simp
    with assms(1) show ?thesis by (auto simp: commands_wait_def pull_comes_def)
  qed
qed

lemma commands_waitI:
  assumes "commands_wait s" and "main_tasks t = main_tasks s"
    and "\<And>ts. pull_comes s ts \<Longrightarrow> pull_comes t ts \<or> commits s \<le> pulled t" and "pulled s \<le> pulled t"
    and "\<And>v name k. HandleCommand v name k \<in> set (main_tasks s) \<Longrightarrow> k \<le> commits s"
  shows "commands_wait t"
  unfolding commands_wait_def
proof (intro allI impI)
  fix ts v name k ts'
  assume "main_tasks t = ts @ HandleCommand v name k # ts'"
  then have m: "main_tasks s = ts @ HandleCommand v name k # ts'" using assms(2) by simp
  then have "k \<le> commits s" using assms(5) [of v name k] by simp
  moreover have "k \<le> pulled s \<or> pull_comes s ts" using assms(1) m by (auto simp: commands_wait_def)
  ultimately show "k \<le> pulled t \<or> pull_comes t ts" using assms(3) [of ts] assms(4) by auto
qed

lemma mounting_okD:
  assumes "mounting_ok s"
  shows "loop_running s" and "transactionInFlight s \<Longrightarrow> PerformTransaction \<in> set (main_tasks s) \<or> mm_main s \<in> {AtBegin, AtPull, AtClear}"
    and "mm_js s = JsTested True \<Longrightarrow> PerformTransaction \<in> set (main_tasks s) \<or> mm_main s \<noteq> AtIdle"
    and "mm_js s = JsIdle \<Longrightarrow> commits s \<le> pulled s \<or> pull_comes s (main_tasks s)" and "commands_wait s"
    and "HandleCommand v name k \<in> set (main_tasks s) \<Longrightarrow> k \<le> commits s"
    and "x \<in> set (commands_handled s) \<Longrightarrow> fst (snd (snd x)) \<le> snd (snd (snd x))"
  using assms by (auto simp: mounting_ok_def)

lemma flag_ok:
  assumes "mounting_ok s" and "mm_js s = JsTested b"
  shows "mounting_ok (act_on_flag b s)"
proof (cases b)
  case True
  note D = mounting_okD [OF assms(1)]
  have "PerformTransaction \<in> set (main_tasks s) \<or> mm_main s \<noteq> AtIdle" using D(3) assms(2) True by simp
  then have c: "pull_comes (act_on_flag b s) (main_tasks s)"
    by (cases "mm_main s") (simp_all add: act_on_flag_def pull_comes_def True)
  have "commands_wait (act_on_flag b s)"
    by (rule commands_waitI [OF D(5) _ _ _ D(6)]) (auto simp: act_on_flag_def pull_comes_def True)
  with D c True assms(1) show ?thesis by (auto simp: mounting_ok_def act_on_flag_def)
next
  case False
  note D = mounting_okD [OF assms(1)]
  let ?s = "s\<lparr>transactionInFlight := True, mm_js := JsIdle\<rparr>"
  have "commands_wait ?s"
    by (rule commands_waitI [OF D(5) _ _ _ D(6)]) (auto simp: pull_comes_def)
  then have "commands_wait (?s\<lparr>main_tasks := main_tasks ?s @ [PerformTransaction]\<rparr>)"
    by (rule commands_wait_add) simp
  with D False assms(1) show ?thesis by (auto simp: mounting_ok_def act_on_flag_def dispatch_def pull_comes_def)
qed

lemma command_ok:
  assumes "mounting_ok s" and "mm_js s = JsIdle"
  shows "mounting_ok (schedulerDidDispatchCommand v name s)"
proof -
  note D = mounting_okD [OF assms(1)]
  have "commands_wait (s\<lparr>main_tasks := main_tasks s @ [HandleCommand v name (commits s)]\<rparr>)"
    using D(4) assms(2) by (intro commands_wait_add [OF D(5)]) auto
  with assms D(1) show ?thesis
    by (auto simp: mounting_ok_def schedulerDidDispatchCommand_def dispatch_def pull_comes_def)
qed

lemma take_ok:
  assumes "mounting_ok s"
  shows "mounting_ok (run_task s)"
proof (cases "mm_main s = AtIdle \<and> main_tasks s \<noteq> []")
  case True
  then obtain t ts where ts: "main_tasks s = t # ts" by (cases "main_tasks s") auto
  note D = mounting_okD [OF assms]
  have w: "k \<le> pulled s \<or> pull_comes s (t # us)" if "ts = us @ HandleCommand v name k # us'" for us v name k us'
    using D(5) ts that unfolding commands_wait_def by (metis append_Cons)
  show ?thesis
  proof (cases t)
    case PerformTransaction
    then show ?thesis using True ts D assms w by (auto simp: mounting_ok_def run_task_def commands_wait_def pull_comes_def)
  next
    case (HandleCommand v name k)
    have k: "k \<le> pulled s" using D(5) ts HandleCommand True
      unfolding commands_wait_def by (metis append_Nil pull_comes_Nil main_at.distinct(1,3,5,7))
    have st: "HandleCommand a b c \<in> set ts \<Longrightarrow> c \<le> commits s" for a b c using D(6) [of a b c] ts by simp
    show ?thesis using HandleCommand True ts D(1-5,7) assms w k st
      by (auto simp: mounting_ok_def run_task_def handle_command_def commands_wait_def pull_comes_def)
  qed
next
  case False
  then have "run_task s = s" by (auto simp: run_task_def split: list.splits main_at.splits)
  with assms show ?thesis by simp
qed

lemma perform_ok:
  assumes "mounting_ok s" and "performTransaction pull s = Some s'" and "\<not> (mm_main s = AtCheck \<and> mm_js s = JsTested True)"
  shows "mounting_ok s'"
proof -
  note D = mounting_okD [OF assms(1)]
  have w: "commands_wait s'" if "main_tasks s' = main_tasks s" "\<And>ts. pull_comes s ts \<Longrightarrow> pull_comes s' ts \<or> commits s \<le> pulled s'"
      "pulled s \<le> pulled s' \<or> pulled s' = commits s"
  proof (cases "pulled s \<le> pulled s'")
    case True
    with that D show ?thesis by (intro commands_waitI [OF D(5) _ _ _ D(6)]) auto
  next
    case False
    have "k \<le> commits s" if "main_tasks s = ts @ HandleCommand v name k # ts'" for ts v name k ts'
      using D(6) [of v name k] that by simp
    with False that show ?thesis unfolding commands_wait_def by metis
  qed
  show ?thesis
  proof (cases "mm_main s")
    case AtPull
    then obtain ms c reg where p: "pull (coordinator s) = (ms, c)" "s' = s\<lparr>coordinator := c, mm_nav := reg, pulled := commits s,
        given := given s @ ms, renders := renders s + (if ms = [] then 0 else 1), mm_main := AtClear\<rparr>"
      using assms(2) by (auto simp: performTransaction_def pull_transaction_def split: prod.splits bind_splits)
    have "commands_wait s'" by (rule w) (simp_all add: p)
    with D AtPull assms(1) show ?thesis by (auto simp: mounting_ok_def p)
  next
    case AtBegin
    with assms(2) have s': "s' = begin_round s" by (simp add: performTransaction_def)
    have "commands_wait s'" by (rule w) (auto simp: s' begin_round_def pull_comes_def)
    with D AtBegin assms(1) show ?thesis by (auto simp: mounting_ok_def s' begin_round_def pull_comes_def)
  next
    case AtClear
    with assms(2) have s': "s' = clear_in_flight s" by (simp add: performTransaction_def)
    have "commands_wait s'" by (rule w) (auto simp: s' clear_in_flight_def pull_comes_def AtClear)
    with D AtClear assms(1) show ?thesis by (auto simp: mounting_ok_def s' clear_in_flight_def pull_comes_def)
  next
    case AtCheck
    with assms(2) have s': "s' = check_follow_up s" by (simp add: performTransaction_def)
    have "commands_wait s'" by (rule w) (auto simp: s' check_follow_up_def pull_comes_def AtCheck)
    with D AtCheck assms(1,3) show ?thesis by (auto simp: mounting_ok_def s' check_follow_up_def pull_comes_def)
  next
    case AtIdle
    with assms show ?thesis by (simp add: performTransaction_def)
  qed
qed

lemma mm_step_ok:
  assumes "mounting_ok s" and "no_race s e" and "mm_step push pull s e = Some s'"
  shows "mounting_ok s'"
proof (cases e)
  case (Commit r)
  note D = mounting_okD [OF assms(1)]
  show ?thesis
  proof (cases "mm_js s = JsIdle")
    case True
    let ?t = "s\<lparr>coordinator := push r (coordinator s), commits := Suc (commits s), mm_js := JsCommitted\<rparr>"
    have "commands_wait ?t" by (rule commands_waitI [OF D(5) _ _ _ D(6)]) (auto simp: pull_comes_def)
    with D assms(1,3) Commit True show ?thesis by (fastforce simp: mounting_ok_def)
  qed (use assms Commit in simp)
next
  case ReadFlag
  note D = mounting_okD [OF assms(1)]
  have "commands_wait (test_in_flight s)"
    by (rule commands_waitI [OF D(5) _ _ _ D(6)]) (auto simp: test_in_flight_def pull_comes_def)
  with D have "mounting_ok (test_in_flight s)" using assms(1) by (auto simp: mounting_ok_def test_in_flight_def)
  with assms ReadFlag show ?thesis by (auto split: if_splits)
next
  case SetFlag
  with assms flag_ok show ?thesis by (auto split: js_at.splits)
next
  case (SendCommand v name)
  with assms command_ok show ?thesis by (auto split: if_splits)
next
  case LoopStarts
  note D = mounting_okD [OF assms(1)]
  have "s\<lparr>loop_running := True\<rparr> = s" using D(1) by (cases s) simp
  then have "s' = s" using assms(3) LoopStarts by simp
  with assms show ?thesis by simp
next
  case TakeTask
  with assms take_ok show ?thesis by auto
next
  case Perform
  with assms perform_ok show ?thesis by (auto simp: no_race_def)
qed

section \<open>Properties\<close>

inductive mounting_reach :: "('r \<Rightarrow> 'c \<Rightarrow> 'c) \<Rightarrow> ('c \<Rightarrow> mutation list \<times> 'c) \<Rightarrow> 'c mounting \<Rightarrow> 'c mounting \<Rightarrow> bool" for push pull s0 where
  mounting_start: "mounting_reach push pull s0 s0"
| mounting_next: "mounting_reach push pull s0 s \<Longrightarrow> no_race s e \<Longrightarrow> mm_step push pull s e = Some t \<Longrightarrow> mounting_reach push pull s0 t"

lemma new_mounting_ok: "mounting_ok (new_mounting True c reg)"
  by (simp add: mounting_ok_def new_mounting_def commands_wait_def)

lemma mounting_reach_ok: "mounting_reach push pull s0 s \<Longrightarrow> mounting_ok s0 \<Longrightarrow> mounting_ok s"
  by (induction rule: mounting_reach.induct) (auto intro: mm_step_ok)

text \<open>C34: With a running main loop, and as long as \<open>performTransaction\<close> does not end between the two steps in
  which the committing thread reads and sets the flags, no commit is forgotten: after
  \<open>schedulerDidFinishTransaction\<close> either all that was committed has been mounted, or a pull is on its way.\<close>

theorem no_commit_forgotten:
  assumes "mounting_reach push pull (new_mounting True c reg) s" and "mm_js s = JsIdle"
  shows "commits s \<le> pulled s \<or> PerformTransaction \<in> set (main_tasks s) \<or> mm_main s = AtBegin \<or> mm_main s = AtPull \<or>
    (followUpTransactionRequired s \<and> (mm_main s = AtClear \<or> mm_main s = AtCheck))"
  using mounting_okD(4) [OF mounting_reach_ok [OF assms(1) new_mounting_ok] assms(2)] by (simp add: pull_comes_def)

text \<open>Under the same conditions a command that JavaScript sends after a commit is handled when that commit,
  and all before it, have been mounted.\<close>

theorem commands_see_commits:
  assumes "mounting_reach push pull (new_mounting True c reg) s" and "(cp, name, k, p) \<in> set (commands_handled s)"
  shows "k \<le> p"
  using mounting_okD(7) [OF mounting_reach_ok [OF assms(1) new_mounting_ok] assms(2)] by simp

lemma ProcessMutations_append: "ProcessMutations s (ms @ ns) = Option.bind (ProcessMutations s ms) (\<lambda>t. ProcessMutations t ns)"
  by (induction ms arbitrary: s) (auto simp: ProcessMutations_def split: bind_split)

text \<open>Whatever the interleaving, the component tree is what the mutations make of it that the coordinator
  handed out, all of them once and in its order.\<close>

theorem mutations_applied_in_order:
  assumes "run_opt (mm_step push pull) (new_mounting b c reg) es = Some s"
  shows "ProcessMutations reg (given s) = Some (mm_nav s)"
proof -
  have "ProcessMutations reg (given s') = Some (mm_nav s')" if "run_opt (mm_step push pull) s es = Some s'"
    "ProcessMutations reg (given s) = Some (mm_nav s)" for s s'
    using that
  proof (induction es arbitrary: s)
    case (Cons e es)
    then obtain t where t: "mm_step push pull s e = Some t" "run_opt (mm_step push pull) t es = Some s'"
      by (cases "mm_step push pull s e") auto
    have "ProcessMutations reg (given t) = Some (mm_nav t)"
    proof (cases e)
      case Perform
      with t(1) Cons.prems(2) show ?thesis
        by (auto simp: performTransaction_def begin_round_def pull_transaction_def clear_in_flight_def check_follow_up_def
            ProcessMutations_append split: main_at.splits prod.splits bind_splits)
    qed (use t(1) Cons.prems(2) in \<open>auto simp: test_in_flight_def act_on_flag_def schedulerDidDispatchCommand_def dispatch_def run_task_def
        handle_command_def split: if_splits js_at.splits main_at.splits list.splits mm_task.splits\<close>)
    with Cons.IH t(2) show ?case by blast
  qed simp
  from this [OF assms] show ?thesis by (simp add: new_mounting_def ProcessMutations_def)
qed

text \<open>When \<open>performTransaction\<close> ends between the two steps, the commit waits: nothing will mount it before
  another one comes.\<close>

theorem commit_race_waits:
  assumes "mm_main s = AtClear" and "mm_js s = JsCommitted" and "transactionInFlight s" and "\<not> followUpTransactionRequired s"
    and "main_tasks s = []" and "pulled s < commits s"
  shows "\<exists>t. run_opt (mm_step push pull) s [ReadFlag, Perform, Perform, SetFlag] = Some t \<and> mm_js t = JsIdle \<and> pulled t < commits t \<and>
    (\<forall>n. run_opt (mm_step push pull) t (concat (replicate n [TakeTask, Perform])) = Some t)"
proof -
  let ?t = "s\<lparr>transactionInFlight := False, mm_main := AtIdle, followUpTransactionRequired := True, mm_js := JsIdle\<rparr>"
  have "run_opt (mm_step push pull) ?t (concat (replicate n [TakeTask, Perform])) = Some ?t" for n
    by (induction n) (simp_all add: run_task_def performTransaction_def assms(5))
  with assms show ?thesis
    by (simp add: test_in_flight_def performTransaction_def clear_in_flight_def check_follow_up_def act_on_flag_def)
qed

definition never_pulls :: "'c mounting \<Rightarrow> bool" where
  "never_pulls s \<longleftrightarrow> transactionInFlight s \<and> mm_main s = AtIdle \<and> PerformTransaction \<notin> set (main_tasks s) \<and> mm_js s \<noteq> JsTested False"

lemma never_pulls_step:
  assumes "never_pulls s"
  shows "\<exists>t. mm_step push pull s e = Some t \<and> never_pulls t \<and> mm_nav t = mm_nav s \<and> pulled t = pulled s"
  using assms
  by (cases e) (auto simp: never_pulls_def test_in_flight_def act_on_flag_def schedulerDidDispatchCommand_def dispatch_def run_task_def
      handle_command_def performTransaction_def split: js_at.splits list.splits mm_task.splits)

text \<open>A transaction that is announced before the main loop runs is dropped by \<open>dispatch\<close>, but the flag
  stays set: no transaction is ever mounted, whatever is committed later and whatever the main loop does.\<close>

theorem early_announcement_blocks:
  assumes "\<not> loop_running s" and "mm_js s = JsCommitted" and "\<not> transactionInFlight s" and "mm_main s = AtIdle"
    and "PerformTransaction \<notin> set (main_tasks s)"
  shows "\<exists>t. run_opt (mm_step push pull) s (ReadFlag # SetFlag # es) = Some t \<and> mm_nav t = mm_nav s \<and> pulled t = pulled s"
proof -
  let ?s = "s\<lparr>transactionInFlight := True, mm_js := JsIdle\<rparr>"
  have "\<exists>t. run_opt (mm_step push pull) u es = Some t \<and> mm_nav t = mm_nav u \<and> pulled t = pulled u" if "never_pulls u" for u
    using that
  proof (induction es arbitrary: u)
    case (Cons e es)
    obtain v where v: "mm_step push pull u e = Some v" "never_pulls v" "mm_nav v = mm_nav u" "pulled v = pulled u"
      using never_pulls_step [OF Cons.prems] by blast
    from Cons.IH [OF v(2)] v show ?case by auto
  qed simp
  from this [of ?s] assms show ?thesis by (simp add: never_pulls_def test_in_flight_def act_on_flag_def dispatch_def)
qed

section \<open>Examples\<close>

text \<open>A coordinator that hands out what it was given, in order.\<close>

definition sample_push :: "mutation list \<Rightarrow> mutation list \<Rightarrow> mutation list" where
  "sample_push r c = c @ r"

definition sample_pull :: "mutation list \<Rightarrow> mutation list \<times> mutation list" where
  "sample_pull c = (c, [])"

definition sample_mounting :: "bool \<Rightarrow> mutation list mounting" where
  "sample_mounting b = new_mounting b [] (nav_init (\<lambda>_. None))"

fun race_free :: "mutation list mounting \<Rightarrow> mutation list mm_event list \<Rightarrow> bool" where
  "race_free s [] = True"
| "race_free s (e # es) =
     (\<not> ((case e of Perform \<Rightarrow> True | _ \<Rightarrow> False) \<and> mm_main s = AtCheck \<and> mm_js s = JsTested True) \<and>
      (case mm_step sample_push sample_pull s e of None \<Rightarrow> False | Some t \<Rightarrow> race_free t es))"

lemma race_free_reach:
  assumes "mounting_reach sample_push sample_pull s0 s" and "race_free s es" and "run_opt (mm_step sample_push sample_pull) s es = Some t"
  shows "mounting_reach sample_push sample_pull s0 t"
  using assms
proof (induction es arbitrary: s)
  case (Cons e es)
  then obtain u where u: "mm_step sample_push sample_pull s e = Some u" "race_free u es"
      "run_opt (mm_step sample_push sample_pull) u es = Some t"
    by (auto split: option.splits)
  have "no_race s e" using Cons.prems(2) by (auto simp: no_race_def)
  from Cons.IH [OF mounting_next [OF Cons.prems(1) this u(1)] u(2,3)] show ?case .
qed simp

lemmas sample_simps = sample_mounting_def new_mounting_def sample_push_def sample_pull_def test_in_flight_def act_on_flag_def dispatch_def
  schedulerDidDispatchCommand_def run_task_def handle_command_def performTransaction_def begin_round_def pull_transaction_def
  clear_in_flight_def check_follow_up_def ProcessMutations_def

abbreviation one_commit :: "mutation list mm_event list" where
  "one_commit \<equiv> [Commit [], ReadFlag, SetFlag]"

lemma no_commit_forgotten_witness:
  "\<exists>s. run_opt (mm_step sample_push sample_pull) (sample_mounting True) one_commit = Some s \<and> pulled s < commits s \<and>
     (commits s \<le> pulled s \<or> PerformTransaction \<in> set (main_tasks s) \<or> mm_main s = AtBegin \<or> mm_main s = AtPull \<or>
       (followUpTransactionRequired s \<and> (mm_main s = AtClear \<or> mm_main s = AtCheck)))"
proof -
  have f: "race_free (sample_mounting True) one_commit" by (simp add: sample_simps)
  obtain s where s: "run_opt (mm_step sample_push sample_pull) (sample_mounting True) one_commit = Some s"
      "mm_js s = JsIdle" "pulled s < commits s"
    by (simp add: sample_simps)
  have "mounting_reach sample_push sample_pull (sample_mounting True) s"
    by (rule race_free_reach [OF mounting_start f s(1)])
  then show ?thesis using no_commit_forgotten [OF _ s(2)] s unfolding sample_mounting_def by metis
qed

lemma commands_see_commits_witness:
  "\<exists>s. run_opt (mm_step sample_push sample_pull) (sample_mounting True)
      (one_commit @ [SendCommand \<lparr>v_handle = 0, v_tag = 1, v_props = None\<rparr> ''focus'', TakeTask, Perform, Perform, Perform, Perform, TakeTask]) =
        Some s \<and> (None, ''focus'', 1, 1) \<in> set (commands_handled s) \<and> (1::nat) \<le> 1"
proof -
  let ?es = "one_commit @ [SendCommand \<lparr>v_handle = 0, v_tag = 1, v_props = None\<rparr> ''focus'', TakeTask, Perform, Perform, Perform, Perform, TakeTask]"
  have f: "race_free (sample_mounting True) ?es" by (simp add: sample_simps)
  obtain s where s: "run_opt (mm_step sample_push sample_pull) (sample_mounting True) ?es = Some s"
      "(None, ''focus'', 1, 1) \<in> set (commands_handled s)"
    by (simp add: sample_simps GetComponent_def nav_init_def)
  have "mounting_reach sample_push sample_pull (sample_mounting True) s"
    by (rule race_free_reach [OF mounting_start f s(1)])
  from commands_see_commits [OF this [unfolded sample_mounting_def] s(2)] s show ?thesis by blast
qed

lemma mutations_applied_in_order_witness:
  "\<exists>s. run_opt (mm_step sample_push sample_pull) (sample_mounting True) (one_commit @ [TakeTask, Perform, Perform]) = Some s \<and>
     ProcessMutations (nav_init (\<lambda>_. None)) (given s) = Some (mm_nav s)"
proof -
  obtain s where s: "run_opt (mm_step sample_push sample_pull) (sample_mounting True) (one_commit @ [TakeTask, Perform, Perform]) = Some s"
    by (simp add: sample_simps)
  with mutations_applied_in_order [OF s [unfolded sample_mounting_def]] show ?thesis by blast
qed

lemma commit_race_waits_witness:
  "\<exists>s. run_opt (mm_step sample_push sample_pull) (sample_mounting True) (one_commit @ [TakeTask, Perform, Perform, Commit []]) = Some s \<and>
     (\<exists>t. run_opt (mm_step sample_push sample_pull) s [ReadFlag, Perform, Perform, SetFlag] = Some t \<and> mm_js t = JsIdle \<and>
        pulled t < commits t \<and> (\<forall>n. run_opt (mm_step sample_push sample_pull) t (concat (replicate n [TakeTask, Perform])) = Some t))"
proof -
  obtain s where s: "run_opt (mm_step sample_push sample_pull) (sample_mounting True) (one_commit @ [TakeTask, Perform, Perform, Commit []]) = Some s"
      "mm_main s = AtClear" "mm_js s = JsCommitted" "transactionInFlight s" "\<not> followUpTransactionRequired s"
      "main_tasks s = []" "pulled s < commits s"
    by (simp add: sample_simps)
  from commit_race_waits [OF s(2-7)] s(1) show ?thesis by blast
qed

lemma early_announcement_blocks_witness:
  "\<exists>s t. run_opt (mm_step sample_push sample_pull) (sample_mounting False) [Commit []] = Some s \<and>
     run_opt (mm_step sample_push sample_pull) s (ReadFlag # SetFlag # LoopStarts # one_commit @ [TakeTask, Perform]) = Some t \<and>
     mm_nav t = mm_nav s \<and> pulled t = pulled s"
proof -
  obtain s where s: "run_opt (mm_step sample_push sample_pull) (sample_mounting False) [Commit []] = Some s"
      "\<not> loop_running s" "mm_js s = JsCommitted" "\<not> transactionInFlight s" "mm_main s = AtIdle"
      "PerformTransaction \<notin> set (main_tasks s)"
    by (simp add: sample_simps)
  from early_announcement_blocks [OF s(2-6)] s(1) show ?thesis by blast
qed

end
