(* ===== verification/PlatformWindows.thy ===== *)
theory PlatformWindows imports RnsKeys begin

text \<open>
  Windows and keys of the two platforms: X11 (\<open>rns_shell/platform/graphics/x11/WindowX11.cpp\<close> and
  \<open>X11KeyMap.cpp\<close>, the event loop included) and libwpe (\<open>libwpe/WindowLibWPE.cpp\<close> and \<open>WpeKeyMap.cpp\<close>).
  The key symbols \<open>XK_...\<close> and \<open>WPE_KEY_...\<close> are constants of system headers: here they are names, and
  their values an argument (\<open>val\<close>). What X11 says of the keyboard (\<open>XkbKeycodeToKeysym\<close>) is an argument too.
\<close>

section \<open>The key tables\<close>

datatype key_symbol = Sym string | Code int

fun symbol_code :: "(string \<Rightarrow> int) \<Rightarrow> key_symbol \<Rightarrow> int" where
  "symbol_code val (Sym n) = val n"
| "symbol_code val (Code c) = c"

definition x11_navigation :: "(key_symbol \<times> rnsKey) list" where
  "x11_navigation = [
    (Sym ''Left'', RNS_KEY_Left), (Sym ''Right'', RNS_KEY_Right), (Sym ''Up'', RNS_KEY_Up),
    (Sym ''Down'', RNS_KEY_Down), (Sym ''Return'', RNS_KEY_Select), (Sym ''Select'', RNS_KEY_Select),
    (Sym ''Menu'', RNS_KEY_Menu), (Sym ''Pause'', RNS_KEY_AudioPause), (Sym ''BackSpace'', RNS_KEY_Back)]"

definition x11_digits :: "(key_symbol \<times> rnsKey) list" where
  "x11_digits = [
    (Sym ''0'', RNS_KEY_0), (Sym ''1'', RNS_KEY_1), (Sym ''2'', RNS_KEY_2), (Sym ''3'', RNS_KEY_3),
    (Sym ''4'', RNS_KEY_4), (Sym ''5'', RNS_KEY_5), (Sym ''6'', RNS_KEY_6), (Sym ''7'', RNS_KEY_7),
    (Sym ''8'', RNS_KEY_8), (Sym ''9'', RNS_KEY_9)]"

definition x11_cancel :: "(key_symbol \<times> rnsKey) list" where
  "x11_cancel = [
    (Sym ''Cancel'', RNS_KEY_Cancel)]"

definition x11_upper :: "(key_symbol \<times> rnsKey) list" where
  "x11_upper = [
    (Sym ''A'', RNS_KEY_A), (Sym ''B'', RNS_KEY_B), (Sym ''C'', RNS_KEY_C), (Sym ''D'', RNS_KEY_D),
    (Sym ''E'', RNS_KEY_E), (Sym ''F'', RNS_KEY_F), (Sym ''G'', RNS_KEY_G), (Sym ''H'', RNS_KEY_H),
    (Sym ''I'', RNS_KEY_I), (Sym ''J'', RNS_KEY_J), (Sym ''K'', RNS_KEY_K), (Sym ''L'', RNS_KEY_L),
    (Sym ''M'', RNS_KEY_M), (Sym ''N'', RNS_KEY_N), (Sym ''O'', RNS_KEY_O), (Sym ''P'', RNS_KEY_P),
    (Sym ''Q'', RNS_KEY_Q), (Sym ''R'', RNS_KEY_R), (Sym ''S'', RNS_KEY_S), (Sym ''T'', RNS_KEY_T),
    (Sym ''U'', RNS_KEY_U), (Sym ''V'', RNS_KEY_V), (Sym ''W'', RNS_KEY_W), (Sym ''X'', RNS_KEY_X),
    (Sym ''Y'', RNS_KEY_Y), (Sym ''Z'', RNS_KEY_Z)]"

definition x11_lower :: "(key_symbol \<times> rnsKey) list" where
  "x11_lower = [
    (Sym ''a'', RNS_KEY_a), (Sym ''b'', RNS_KEY_b), (Sym ''c'', RNS_KEY_c), (Sym ''d'', RNS_KEY_d),
    (Sym ''e'', RNS_KEY_e), (Sym ''f'', RNS_KEY_f), (Sym ''g'', RNS_KEY_g), (Sym ''h'', RNS_KEY_h),
    (Sym ''i'', RNS_KEY_i), (Sym ''j'', RNS_KEY_j), (Sym ''k'', RNS_KEY_k), (Sym ''l'', RNS_KEY_l),
    (Sym ''m'', RNS_KEY_m), (Sym ''n'', RNS_KEY_n), (Sym ''o'', RNS_KEY_o), (Sym ''p'', RNS_KEY_p),
    (Sym ''q'', RNS_KEY_q), (Sym ''r'', RNS_KEY_r), (Sym ''s'', RNS_KEY_s), (Sym ''t'', RNS_KEY_t),
    (Sym ''u'', RNS_KEY_u), (Sym ''v'', RNS_KEY_v), (Sym ''w'', RNS_KEY_w), (Sym ''x'', RNS_KEY_x),
    (Sym ''y'', RNS_KEY_y), (Sym ''z'', RNS_KEY_z)]"

definition x11_modifiers :: "(key_symbol \<times> rnsKey) list" where
  "x11_modifiers = [
    (Sym ''Caps_Lock'', RNS_KEY_Caps_Lock), (Sym ''Alt_L'', RNS_KEY_Alt_L), (Sym ''Alt_R'', RNS_KEY_Alt_R),
    (Sym ''Shift_L'', RNS_KEY_Shift_L), (Sym ''Shift_R'', RNS_KEY_Shift_R), (Sym ''Control_L'', RNS_KEY_Control_L),
    (Sym ''Control_R'', RNS_KEY_Control_R)]"

definition x11_special :: "(key_symbol \<times> rnsKey) list" where
  "x11_special = [
    (Sym ''Tab'', RNS_KEY_Tab), (Sym ''grave'', RNS_KEY_Grave), (Sym ''asciitilde'', RNS_KEY_Asciitilde),
    (Sym ''exclam'', RNS_KEY_Exclam), (Sym ''at'', RNS_KEY_At), (Sym ''numbersign'', RNS_KEY_Numbersign),
    (Sym ''dollar'', RNS_KEY_Dollar), (Sym ''asciicircum'', RNS_KEY_Asciicircum),
    (Sym ''ampersand'', RNS_KEY_Ampersand), (Sym ''asterisk'', RNS_KEY_Asterisk),
    (Sym ''parenleft'', RNS_KEY_ParenLeft), (Sym ''parenright'', RNS_KEY_ParenRight),
    (Sym ''underscore'', RNS_KEY_Underscore), (Sym ''Delete'', RNS_KEY_Delete), (Sym ''Page_Up'', RNS_KEY_Page_Up),
    (Sym ''Page_Down'', RNS_KEY_Page_Down), (Sym ''slash'', RNS_KEY_Shash), (Sym ''period'', RNS_KEY_Period),
    (Sym ''comma'', RNS_KEY_Comma), (Sym ''question'', RNS_KEY_Question), (Sym ''apostrophe'', RNS_KEY_Apostrophe),
    (Sym ''quotedbl'', RNS_KEY_Quotedbl), (Sym ''colon'', RNS_KEY_Colon), (Sym ''semicolon'', RNS_KEY_Semicolon),
    (Sym ''bar'', RNS_KEY_Bar), (Sym ''backslash'', RNS_KEY_BackSlash), (Sym ''braceleft'', RNS_KEY_BraceLeft),
    (Sym ''braceright'', RNS_KEY_BraceRight), (Sym ''bracketleft'', RNS_KEY_BracketLeft),
    (Sym ''bracketright'', RNS_KEY_BracketRight), (Sym ''Escape'', RNS_KEY_Escape), (Sym ''space'', RNS_KEY_Space),
    (Sym ''Home'', RNS_KEY_Home), (Sym ''End'', RNS_KEY_EndKey), (Sym ''Insert'', RNS_KEY_Insert)]"

definition x11_arithmetic :: "(key_symbol \<times> rnsKey) list" where
  "x11_arithmetic = [
    (Sym ''minus'', RNS_KEY_Minus), (Sym ''equal'', RNS_KEY_Equal), (Sym ''percent'', RNS_KEY_Percent),
    (Sym ''plus'', RNS_KEY_Plus), (Sym ''greater'', RNS_KEY_Greater), (Sym ''less'', RNS_KEY_Less)]"

definition x11_keys :: "(key_symbol \<times> rnsKey) list" where
  "x11_keys = x11_navigation @ x11_digits @ x11_cancel @ x11_upper @ x11_lower @ x11_modifiers @ x11_special @ x11_arithmetic"

definition wpe_remote :: "(key_symbol \<times> rnsKey) list" where
  "wpe_remote = [
    (Sym ''Left'', RNS_KEY_Left), (Sym ''Right'', RNS_KEY_Right), (Sym ''Up'', RNS_KEY_Up),
    (Sym ''Down'', RNS_KEY_Down), (Sym ''Select'', RNS_KEY_Select), (Sym ''ISO_Enter'', RNS_KEY_Select),
    (Sym ''Return'', RNS_KEY_Select), (Sym ''PowerOff'', RNS_KEY_PowerOff), (Sym ''AudioMedia'', RNS_KEY_AudioMedia),
    (Code 61543, RNS_KEY_Menu), (Sym ''Menu'', RNS_KEY_Menu), (Code 61517, RNS_KEY_AudioLowerVolume),
    (Sym ''AudioLowerVolume'', RNS_KEY_AudioLowerVolume), (Code 61516, RNS_KEY_AudioRaiseVolume),
    (Sym ''AudioRaiseVolume'', RNS_KEY_AudioRaiseVolume), (Code 61510, RNS_KEY_ChannelUp),
    (Code 61511, RNS_KEY_ChannelDown), (Code 61460, RNS_KEY_Help), (Sym ''Refresh'', RNS_KEY_Refresh),
    (Code 61522, RNS_KEY_AudioStop), (Sym ''AudioStop'', RNS_KEY_AudioStop), (Code 61521, RNS_KEY_AudioPlay),
    (Sym ''AudioPlay'', RNS_KEY_AudioPlay), (Code 65299, RNS_KEY_AudioPause),
    (Sym ''AudioPause'', RNS_KEY_AudioPause), (Sym ''Back'', RNS_KEY_Back), (Code 61532, RNS_KEY_AudioNext),
    (Sym ''AudioNext'', RNS_KEY_AudioNext), (Code 61529, RNS_KEY_AudioRewind),
    (Sym ''AudioRewind'', RNS_KEY_AudioRewind), (Code 61530, RNS_KEY_AudioForward),
    (Sym ''AudioForward'', RNS_KEY_AudioForward), (Code 61531, RNS_KEY_AudioPrev),
    (Sym ''AudioPrev'', RNS_KEY_AudioPrev), (Code 61507, RNS_KEY_Green), (Sym ''Green'', RNS_KEY_Green),
    (Code 61506, RNS_KEY_Red), (Sym ''Red'', RNS_KEY_Red), (Code 61509, RNS_KEY_Blue), (Sym ''Blue'', RNS_KEY_Blue),
    (Code 61508, RNS_KEY_Yellow), (Sym ''Yellow'', RNS_KEY_Yellow)]"

definition wpe_digits :: "(key_symbol \<times> rnsKey) list" where
  "wpe_digits = [
    (Sym ''1'', RNS_KEY_1), (Sym ''2'', RNS_KEY_2), (Sym ''3'', RNS_KEY_3), (Sym ''4'', RNS_KEY_4),
    (Sym ''5'', RNS_KEY_5), (Sym ''6'', RNS_KEY_6), (Sym ''7'', RNS_KEY_7), (Sym ''8'', RNS_KEY_8),
    (Sym ''9'', RNS_KEY_9), (Sym ''0'', RNS_KEY_0)]"

definition wpe_more :: "(key_symbol \<times> rnsKey) list" where
  "wpe_more = [
    (Code 61487, RNS_KEY_TvRad), (Code 61495, RNS_KEY_Aud), (Code 61526, RNS_KEY_AudioRecord),
    (Sym ''AudioRecord'', RNS_KEY_AudioRecord), (Code 61538, RNS_KEY_Cancel), (Sym ''Cancel'', RNS_KEY_Cancel),
    (Code 61518, RNS_KEY_Mute), (Sym ''AudioMute'', RNS_KEY_Mute), (Code 61467, RNS_KEY_Guia)]"

definition wpe_upper :: "(key_symbol \<times> rnsKey) list" where
  "wpe_upper = [
    (Sym ''A'', RNS_KEY_A), (Sym ''B'', RNS_KEY_B), (Sym ''C'', RNS_KEY_C), (Sym ''D'', RNS_KEY_D),
    (Sym ''E'', RNS_KEY_E), (Sym ''F'', RNS_KEY_F), (Sym ''G'', RNS_KEY_G), (Sym ''H'', RNS_KEY_H),
    (Sym ''I'', RNS_KEY_I), (Sym ''J'', RNS_KEY_J), (Sym ''K'', RNS_KEY_K), (Sym ''L'', RNS_KEY_L),
    (Sym ''M'', RNS_KEY_M), (Sym ''N'', RNS_KEY_N), (Sym ''O'', RNS_KEY_O), (Sym ''P'', RNS_KEY_P),
    (Sym ''Q'', RNS_KEY_Q), (Sym ''R'', RNS_KEY_R), (Sym ''S'', RNS_KEY_S), (Sym ''T'', RNS_KEY_T),
    (Sym ''U'', RNS_KEY_U), (Sym ''V'', RNS_KEY_V), (Sym ''W'', RNS_KEY_W), (Sym ''X'', RNS_KEY_X),
    (Sym ''Y'', RNS_KEY_Y), (Sym ''Z'', RNS_KEY_Z)]"

definition wpe_lower :: "(key_symbol \<times> rnsKey) list" where
  "wpe_lower = [
    (Sym ''a'', RNS_KEY_a), (Sym ''b'', RNS_KEY_b), (Sym ''c'', RNS_KEY_c), (Sym ''d'', RNS_KEY_d),
    (Sym ''e'', RNS_KEY_e), (Sym ''f'', RNS_KEY_f), (Sym ''g'', RNS_KEY_g), (Sym ''h'', RNS_KEY_h),
    (Sym ''i'', RNS_KEY_i), (Sym ''j'', RNS_KEY_j), (Sym ''k'', RNS_KEY_k), (Sym ''l'', RNS_KEY_l),
    (Sym ''m'', RNS_KEY_m), (Sym ''n'', RNS_KEY_n), (Sym ''o'', RNS_KEY_o), (Sym ''p'', RNS_KEY_p),
    (Sym ''q'', RNS_KEY_q), (Sym ''r'', RNS_KEY_r), (Sym ''s'', RNS_KEY_s), (Sym ''t'', RNS_KEY_t),
    (Sym ''u'', RNS_KEY_u), (Sym ''v'', RNS_KEY_v), (Sym ''w'', RNS_KEY_w), (Sym ''x'', RNS_KEY_x),
    (Sym ''y'', RNS_KEY_y), (Sym ''z'', RNS_KEY_z)]"

definition wpe_modifiers :: "(key_symbol \<times> rnsKey) list" where
  "wpe_modifiers = [
    (Sym ''Caps_Lock'', RNS_KEY_Caps_Lock), (Sym ''Alt_L'', RNS_KEY_Alt_L), (Sym ''Alt_R'', RNS_KEY_Alt_R),
    (Sym ''Shift_L'', RNS_KEY_Shift_L), (Sym ''Shift_R'', RNS_KEY_Shift_R), (Sym ''Control_L'', RNS_KEY_Control_L),
    (Sym ''Control_R'', RNS_KEY_Control_R)]"

definition wpe_special :: "(key_symbol \<times> rnsKey) list" where
  "wpe_special = [
    (Sym ''Tab'', RNS_KEY_Tab), (Sym ''grave'', RNS_KEY_Grave), (Sym ''BackSpace'', RNS_KEY_Back),
    (Sym ''asciitilde'', RNS_KEY_Asciitilde), (Sym ''exclam'', RNS_KEY_Exclam), (Sym ''at'', RNS_KEY_At),
    (Sym ''numbersign'', RNS_KEY_Numbersign), (Sym ''dollar'', RNS_KEY_Dollar),
    (Sym ''asciicircum'', RNS_KEY_Asciicircum), (Sym ''ampersand'', RNS_KEY_Ampersand),
    (Sym ''asterisk'', RNS_KEY_Asterisk), (Sym ''braceleft'', RNS_KEY_BraceLeft),
    (Sym ''braceright'', RNS_KEY_BraceRight), (Sym ''underscore'', RNS_KEY_Underscore),
    (Sym ''Delete'', RNS_KEY_Delete), (Sym ''Page_Up'', RNS_KEY_Page_Up), (Sym ''Page_Down'', RNS_KEY_Page_Down),
    (Sym ''slash'', RNS_KEY_Shash), (Sym ''period'', RNS_KEY_Period), (Sym ''comma'', RNS_KEY_Comma),
    (Sym ''question'', RNS_KEY_Question), (Sym ''apostrophe'', RNS_KEY_Apostrophe),
    (Sym ''quotedbl'', RNS_KEY_Quotedbl), (Sym ''semicolon'', RNS_KEY_Semicolon), (Sym ''colon'', RNS_KEY_Colon),
    (Sym ''bar'', RNS_KEY_Bar), (Sym ''backslash'', RNS_KEY_BackSlash), (Sym ''parenleft'', RNS_KEY_ParenLeft),
    (Sym ''parenright'', RNS_KEY_ParenRight), (Sym ''bracketleft'', RNS_KEY_BracketLeft),
    (Sym ''bracketright'', RNS_KEY_BracketRight), (Sym ''Escape'', RNS_KEY_Escape), (Sym ''space'', RNS_KEY_Space),
    (Sym ''Home'', RNS_KEY_Home), (Sym ''End'', RNS_KEY_EndKey), (Sym ''Insert'', RNS_KEY_Insert)]"

definition wpe_arithmetic :: "(key_symbol \<times> rnsKey) list" where
  "wpe_arithmetic = [
    (Sym ''minus'', RNS_KEY_Minus), (Sym ''equal'', RNS_KEY_Equal), (Sym ''percent'', RNS_KEY_Percent),
    (Sym ''plus'', RNS_KEY_Plus), (Sym ''greater'', RNS_KEY_Greater), (Sym ''less'', RNS_KEY_Less)]"

definition wpe_keys :: "(key_symbol \<times> rnsKey) list" where
  "wpe_keys = wpe_remote @ wpe_digits @ wpe_more @ wpe_upper @ wpe_lower @ wpe_modifiers @ wpe_special @ wpe_arithmetic"

text \<open>A \<open>switch\<close> over a table; the labels of a \<open>switch\<close> differ.\<close>

definition switch_key :: "(string \<Rightarrow> int) \<Rightarrow> (key_symbol \<times> rnsKey) list \<Rightarrow> int \<Rightarrow> rnsKey" where
  "switch_key val keys code = (case find (\<lambda>(s, k). symbol_code val s = code) keys of None \<Rightarrow> RNS_KEY_UnKnown | Some (s, k) \<Rightarrow> k)"

definition keyIdentifierForX11KeyCode :: "(string \<Rightarrow> int) \<Rightarrow> int \<Rightarrow> rnsKey" where
  "keyIdentifierForX11KeyCode val code = switch_key val x11_keys code"

definition keyIdentifierForWPEKeyCode :: "(string \<Rightarrow> int) \<Rightarrow> int \<Rightarrow> rnsKey" where
  "keyIdentifierForWPEKeyCode val code = switch_key val wpe_keys code"

section \<open>Windows of X11\<close>

datatype WindowType = MainWindow | SubWindow

record xwindow =
  winType :: WindowType
  currentWindowDimension :: "int \<times> int"

text \<open>What leaves the event loop: notifications, and the call of the application.\<close>

datatype x_output = DimensionEvent | SizeChanged int int | HWKey WindowType rnsKey rnsKeyAction | WindowExposed nat

text \<open>\<open>gWindowMap\<close> by the identifier X11 gave.\<close>

record x11 =
  gWindowMap :: "nat \<Rightarrow> xwindow option"
  window_count :: nat
  currentScreenSize :: "int \<times> int"
  x_done :: bool
  x_out :: "x_output list"

definition emit_x :: "x_output list \<Rightarrow> x11 \<Rightarrow> x11" where
  "emit_x os s = s\<lparr>x_out := x_out s @ os\<rparr>"

text \<open>The size of a new window: the one asked for, that of the screen, or a default.\<close>

definition initial_size :: "int \<times> int \<Rightarrow> (int \<times> int) option \<Rightarrow> int \<times> int" where
  "initial_size dimension screen =
     (if 0 < fst dimension \<and> 0 < snd dimension then dimension else (case screen of Some wh \<Rightarrow> wh | None \<Rightarrow> (1280, 720)))"

text \<open>The recorded dimension of a new window is not set (\<open>junk\<close>).\<close>

definition initWindow :: "nat \<Rightarrow> WindowType \<Rightarrow> int \<times> int \<Rightarrow> x11 \<Rightarrow> x11" where
  "initWindow w ty junk s =
     s\<lparr>gWindowMap := (gWindowMap s)(w \<mapsto> \<lparr>winType = ty, currentWindowDimension = junk\<rparr>), window_count := Suc (window_count s)\<rparr>"

definition closeWindow :: "nat \<Rightarrow> x11 \<Rightarrow> x11" where
  "closeWindow w s =
     (if gWindowMap s w = None then s else s\<lparr>gWindowMap := (gWindowMap s)(w := None), window_count := window_count s - 1\<rparr>)"

definition onKey :: "xwindow \<Rightarrow> rnsKey \<Rightarrow> rnsKeyAction \<Rightarrow> x11 \<Rightarrow> x11" where
  "onKey win k a s = emit_x [HWKey (winType win) k a] s"

section \<open>Events of X11\<close>

text \<open>\<open>KeyEvent window pressed time keycode shift lock\<close>.\<close>

datatype x_event = ConfigureRoot int int | Configure nat int int | UnmapNotify nat | DeleteMessage nat | KeyEvent nat bool nat nat bool bool
  | Expose nat | OtherEvent nat

text \<open>The release that belongs to a repetition: the next event, if it has arrived, presses the same key at the same time.\<close>

definition repeat_follows :: "nat \<Rightarrow> nat \<Rightarrow> x_event option \<Rightarrow> bool" where
  "repeat_follows time keycode next =
     (case next of Some (KeyEvent w pressed t kc sh lk) \<Rightarrow> pressed \<and> t = time \<and> kc = keycode | _ \<Rightarrow> False)"

definition shift_level :: "bool \<Rightarrow> bool \<Rightarrow> nat" where
  "shift_level shift lock = (if shift \<noteq> lock then 1 else 0)"

text \<open>\<open>handleEvent\<close>; the result tells that the loop is to end.\<close>

definition handleEvent :: "(string \<Rightarrow> int) \<Rightarrow> (nat \<Rightarrow> nat \<Rightarrow> int) \<Rightarrow> x_event \<Rightarrow> x_event option \<Rightarrow> nat \<Rightarrow> xwindow \<Rightarrow> x11 \<Rightarrow> bool \<times> x11" where
  "handleEvent val keysym e next w win s =
     (case e of
        KeyEvent _ pressed time keycode shift lock \<Rightarrow>
          if \<not> pressed \<and> repeat_follows time keycode next then (False, s)
          else (False, onKey win (keyIdentifierForX11KeyCode val (keysym keycode (shift_level shift lock)))
                         (if pressed then RNS_KEY_Press else RNS_KEY_Release) s)
      | DeleteMessage _ \<Rightarrow> (window_count s = 1, s)
      | Expose _ \<Rightarrow> (False, emit_x [WindowExposed w] s)
      | _ \<Rightarrow> (False, s))"

definition configure_root :: "int \<Rightarrow> int \<Rightarrow> x11 \<Rightarrow> x11" where
  "configure_root w h s = (if currentScreenSize s \<noteq> (w, h) then emit_x [DimensionEvent] (s\<lparr>currentScreenSize := (w, h)\<rparr>) else s)"

definition configure_window :: "nat \<Rightarrow> int \<Rightarrow> int \<Rightarrow> x11 \<Rightarrow> x11" where
  "configure_window x w h s =
     (case gWindowMap s x of
        None \<Rightarrow> s
      | Some win \<Rightarrow>
          if winType win = MainWindow \<and> currentWindowDimension win \<noteq> (w, h)
          then emit_x [SizeChanged w h, DimensionEvent] (s\<lparr>gWindowMap := (gWindowMap s)(x \<mapsto> win\<lparr>currentWindowDimension := (w, h)\<rparr>)\<rparr>)
          else s)"

definition window_event :: "(string \<Rightarrow> int) \<Rightarrow> (nat \<Rightarrow> nat \<Rightarrow> int) \<Rightarrow> x_event \<Rightarrow> x_event option \<Rightarrow> nat \<Rightarrow> x11 \<Rightarrow> x11" where
  "window_event val keysym e next x s =
     (case gWindowMap s x of
        None \<Rightarrow> s
      | Some win \<Rightarrow> (case handleEvent val keysym e next x win s of (stop, t) \<Rightarrow> if stop then t\<lparr>x_done := True\<rparr> else t))"

fun x_event_step :: "(string \<Rightarrow> int) \<Rightarrow> (nat \<Rightarrow> nat \<Rightarrow> int) \<Rightarrow> x_event \<Rightarrow> x_event option \<Rightarrow> x11 \<Rightarrow> x11" where
  "x_event_step val keysym (ConfigureRoot w h) next s = configure_root w h s"
| "x_event_step val keysym (Configure x w h) next s = configure_window x w h s"
| "x_event_step val keysym (UnmapNotify x) next s = s"
| "x_event_step val keysym (DeleteMessage x) next s = window_event val keysym (DeleteMessage x) next x s"
| "x_event_step val keysym (KeyEvent x p t kc sh lk) next s = window_event val keysym (KeyEvent x p t kc sh lk) next x s"
| "x_event_step val keysym (Expose x) next s = window_event val keysym (Expose x) next x s"
| "x_event_step val keysym (OtherEvent x) next s = window_event val keysym (OtherEvent x) next x s"

text \<open>The loop; each event comes with whether its successor is in the queue already when it is handled.\<close>

fun createEventLoop :: "(string \<Rightarrow> int) \<Rightarrow> (nat \<Rightarrow> nat \<Rightarrow> int) \<Rightarrow> (x_event \<times> bool) list \<Rightarrow> x11 \<Rightarrow> x11" where
  "createEventLoop val keysym [] s = s"
| "createEventLoop val keysym ((e, arrived) # es) s =
     (if x_done s then s
      else createEventLoop val keysym es
             (x_event_step val keysym e (case es of (e', _) # _ \<Rightarrow> if arrived then Some e' else None | [] \<Rightarrow> None) s))"

section \<open>Windows of libwpe\<close>

text \<open>A window has its type from \<open>createNativeWindow\<close> only after \<open>initWindow\<close>: until then it is a main window.\<close>

record wpe_window =
  wpe_type :: WindowType
  viewWidth :: int
  viewHeight :: int

text \<open>\<open>wpe_app\<close>: the event loop has been given the application.\<close>

record wpe =
  wpe_app :: bool
  wpe_screen :: "int \<times> int"
  wpe_quit :: bool
  wpe_out :: "x_output list"

text \<open>The size asked for, that of the view, or a default.\<close>

definition render_target_size :: "int \<times> int \<Rightarrow> wpe_window \<Rightarrow> wpe_window" where
  "render_target_size dimension win =
     (if 0 < fst dimension \<and> 0 < snd dimension then win\<lparr>viewWidth := fst dimension, viewHeight := snd dimension\<rparr>
      else if viewWidth win \<le> 0 \<or> viewHeight win \<le> 0 then win\<lparr>viewWidth := 1280, viewHeight := 720\<rparr> else win)"

definition size_changed :: "wpe_window \<Rightarrow> wpe \<Rightarrow> wpe" where
  "size_changed win s = (if wpe_type win = MainWindow \<and> wpe_app s then s\<lparr>wpe_out := wpe_out s @ [SizeChanged (viewWidth win) (viewHeight win)]\<rparr> else s)"

definition setViewSize :: "int \<Rightarrow> int \<Rightarrow> wpe_window \<Rightarrow> wpe \<Rightarrow> wpe_window \<times> wpe" where
  "setViewSize w h win s =
     (let win1 = win\<lparr>viewWidth := w, viewHeight := h\<rparr> in (win1, size_changed win1 (s\<lparr>wpe_screen := (w, h)\<rparr>)))"

text \<open>\<open>given\<close>: the size that the backend reports during \<open>wpe_view_backend_initialize\<close>, if it does.\<close>

definition createNativeWindow :: "int \<times> int \<Rightarrow> (int \<times> int) option \<Rightarrow> WindowType \<Rightarrow> wpe \<Rightarrow> wpe_window \<times> wpe" where
  "createNativeWindow dimension given ty s =
     (let win = \<lparr>wpe_type = MainWindow, viewWidth = - 1, viewHeight = - 1\<rparr>;
          (win1, s1) = (case given of None \<Rightarrow> (win, s) | Some (w, h) \<Rightarrow> setViewSize w h win s);
          win2 = render_target_size dimension win1
      in (win2\<lparr>wpe_type := ty\<rparr>, size_changed win2 s1))"

definition handle_keyboard_event :: "(string \<Rightarrow> int) \<Rightarrow> int \<Rightarrow> bool \<Rightarrow> bool \<Rightarrow> bool \<Rightarrow> wpe_window \<Rightarrow> wpe \<Rightarrow> wpe" where
  "handle_keyboard_event val code pressed control shift win s =
     (let s1 = s\<lparr>wpe_out := wpe_out s @ [HWKey (wpe_type win) (keyIdentifierForWPEKeyCode val code) (if pressed then RNS_KEY_Press else RNS_KEY_Release)]\<rparr>
      in if pressed \<and> control \<and> shift \<and> code = val ''Escape'' then s1
         else if code = val ''Escape'' then s1\<lparr>wpe_quit := True\<rparr> else s1)"


section \<open>Tables as functions\<close>

definition labels_differ :: "(string \<Rightarrow> int) \<Rightarrow> (key_symbol \<times> rnsKey) list \<Rightarrow> bool" where
  "labels_differ val keys \<longleftrightarrow> distinct (map (symbol_code val \<circ> fst) keys)"

lemma switch_key_entry:
  assumes "labels_differ val keys" and "(s, k) \<in> set keys"
  shows "switch_key val keys (symbol_code val s) = k"
proof -
  have "find (\<lambda>(s', k). symbol_code val s' = symbol_code val s) keys = Some (s, k)"
    using assms
  proof (induction keys)
    case (Cons x xs)
    show ?case
    proof (cases "x = (s, k)")
      case False
      with Cons.prems have m: "(s, k) \<in> set xs" by auto
      then have "(symbol_code val \<circ> fst) (s, k) \<in> set (map (symbol_code val \<circ> fst) xs)" by (metis image_eqI image_set)
      then have "symbol_code val (fst x) \<noteq> symbol_code val s" using Cons.prems(1)
        by (metis (no_types, lifting) comp_apply distinct.simps(2) fst_conv labels_differ_def list.simps(9))
      with m Cons show ?thesis by (auto simp: labels_differ_def split: prod.splits)
    qed simp
  qed simp
  then show ?thesis by (simp add: switch_key_def)
qed

text \<open>The names of the symbols of the printable characters.\<close>

definition punctuation :: "(string \<times> char) list" where
  "punctuation = [(''grave'', CHR 0x60), (''asciitilde'', CHR ''~''), (''exclam'', CHR ''!''), (''at'', CHR ''@''), (''numbersign'', CHR ''#''),
    (''dollar'', CHR ''$''), (''asciicircum'', CHR ''^''), (''ampersand'', CHR ''&''), (''asterisk'', CHR ''*''), (''parenleft'', CHR ''(''),
    (''parenright'', CHR '')''), (''underscore'', CHR ''_''), (''slash'', CHR ''/''), (''period'', CHR ''.''), (''comma'', CHR '',''),
    (''question'', CHR ''?''), (''apostrophe'', CHR 0x27), (''quotedbl'', CHR 0x22), (''colon'', CHR '':''), (''semicolon'', CHR '';''),
    (''bar'', CHR ''|''), (''backslash'', CHR 0x5C), (''braceleft'', CHR ''{''), (''braceright'', CHR ''}''), (''bracketleft'', CHR ''[''),
    (''bracketright'', CHR '']''), (''space'', CHR '' ''), (''minus'', CHR ''-''), (''equal'', CHR ''=''), (''percent'', CHR ''%''),
    (''plus'', CHR ''+''), (''greater'', CHR ''>''), (''less'', CHR ''<'')]"

definition letters_and_digits :: string where
  "letters_and_digits = ''1234567890ABCDEFGHIJKLMNOPQRSTUVWXYZabcdefghijklmnopqrstuvwxyz''"

text \<open>The digits and letters of both tables are the same entries.\<close>

definition single_entries :: "(key_symbol \<times> rnsKey) list" where
  "single_entries = map (\<lambda>(c, k). (Sym [c], k)) (zip letters_and_digits [RNS_KEY_1..RNS_KEY_z])"

lemma x11_singles: "x11_digits @ x11_upper @ x11_lower = [(Sym ''0'', RNS_KEY_0)] @ take 9 single_entries @ drop 10 single_entries"
  by code_simp

lemma wpe_singles: "wpe_digits @ wpe_upper @ wpe_lower = single_entries"
  by code_simp

lemma single_names: "list_all (\<lambda>(c, k). key_name k = Some [c]) (zip letters_and_digits [RNS_KEY_1..RNS_KEY_z])"
  by code_simp

lemma punctuation_check:
  "list_all (\<lambda>(n, c). list_ex (\<lambda>(s, k). s = Sym n \<and> key_name k = Some [c]) (x11_special @ x11_arithmetic)) punctuation"
  by code_simp

lemma special_check: "list_all (\<lambda>e. e \<in> set (wpe_special @ wpe_arithmetic)) (x11_special @ x11_arithmetic)"
  by code_simp

lemma navigation_check:
  "list_all (\<lambda>e. e = (Sym ''Pause'', RNS_KEY_AudioPause) \<or> e = (Sym ''BackSpace'', RNS_KEY_Back) \<or> e \<in> set (wpe_remote @ wpe_more)) (x11_navigation @ x11_cancel)"
  by code_simp

lemma modifiers_same: "x11_modifiers = wpe_modifiers"
  by code_simp

lemma x11_set: "set x11_keys = set (x11_digits @ x11_upper @ x11_lower) \<union> set (x11_special @ x11_arithmetic) \<union> set (x11_navigation @ x11_cancel) \<union> set x11_modifiers"
  by (auto simp: x11_keys_def)

lemma wpe_set: "set wpe_keys = set (wpe_digits @ wpe_upper @ wpe_lower) \<union> set (wpe_special @ wpe_arithmetic) \<union> set (wpe_remote @ wpe_more) \<union> set wpe_modifiers"
  by (auto simp: wpe_keys_def)

lemma x11_entry_in_wpe:
  assumes "(s, k) \<in> set x11_keys" and "s \<noteq> Sym ''Pause''"
  shows "(s, k) \<in> set wpe_keys"
proof -
  have z: "(Sym ''0'', RNS_KEY_0) \<in> set single_entries" by code_simp
  have b: "(Sym ''BackSpace'', RNS_KEY_Back) \<in> set wpe_special" by code_simp
  have "set (x11_digits @ x11_upper @ x11_lower) \<subseteq> set single_entries"
    unfolding x11_singles using z set_take_subset [of 9 single_entries] set_drop_subset [of 10 single_entries] by auto
  moreover have "set (x11_special @ x11_arithmetic) \<subseteq> set (wpe_special @ wpe_arithmetic)"
    using special_check by (simp only: list_all_iff) blast
  moreover have "set (x11_navigation @ x11_cancel) \<subseteq> insert (Sym ''Pause'', RNS_KEY_AudioPause) (insert (Sym ''BackSpace'', RNS_KEY_Back) (set (wpe_remote @ wpe_more)))"
    using navigation_check by (simp only: list_all_iff) blast
  ultimately show ?thesis
    using assms b unfolding x11_set wpe_set wpe_singles modifiers_same by auto
qed

lemma pause_entry: "(s, k) \<in> set x11_keys \<Longrightarrow> s = Sym ''Pause'' \<Longrightarrow> k = RNS_KEY_AudioPause"
proof -
  have "list_all (\<lambda>(s, k). s = Sym ''Pause'' \<longrightarrow> k = RNS_KEY_AudioPause) x11_keys" by code_simp
  then show "(s, k) \<in> set x11_keys \<Longrightarrow> s = Sym ''Pause'' \<Longrightarrow> k = RNS_KEY_AudioPause" by (auto simp: list_all_iff)
qed

definition printable :: "string \<Rightarrow> char \<Rightarrow> bool" where
  "printable n c \<longleftrightarrow> (n, c) \<in> set punctuation \<or> (n = [c] \<and> c \<in> set letters_and_digits)"

lemma printable_entry:
  assumes "printable n c"
  shows "\<exists>k. (Sym n, k) \<in> set x11_keys \<and> key_name k = Some [c]"
proof (cases "(n, c) \<in> set punctuation")
  case True
  with punctuation_check have "list_ex (\<lambda>(s, k). s = Sym n \<and> key_name k = Some [c]) (x11_special @ x11_arithmetic)"
    by (auto simp: list_all_iff)
  then obtain k where "(Sym n, k) \<in> set (x11_special @ x11_arithmetic)" "key_name k = Some [c]" by (auto simp: list_ex_iff)
  then show ?thesis unfolding x11_set by blast
next
  case False
  with assms have n: "n = [c]" "c \<in> set letters_and_digits" by (auto simp: printable_def)
  have l: "length letters_and_digits = length [RNS_KEY_1..RNS_KEY_z]" by code_simp
  obtain i where i: "i < length letters_and_digits" "letters_and_digits ! i = c" using n(2) by (auto simp: in_set_conv_nth)
  define k where "k = [RNS_KEY_1..RNS_KEY_z] ! i"
  have z: "zip letters_and_digits [RNS_KEY_1..RNS_KEY_z] ! i = (c, k)" and iz: "i < length (zip letters_and_digits [RNS_KEY_1..RNS_KEY_z])"
    using i l by (simp_all add: k_def)
  then have m: "(c, k) \<in> set (zip letters_and_digits [RNS_KEY_1..RNS_KEY_z])" by (metis nth_mem)
  with single_names have name: "key_name k = Some [c]" by (auto simp: list_all_iff)
  have e: "(Sym n, k) \<in> set single_entries" using m n(1) by (force simp: single_entries_def)
  have "single_entries = take 9 single_entries @ [(Sym ''0'', RNS_KEY_0)] @ drop 10 single_entries" by code_simp
  then have "set single_entries = set (take 9 single_entries @ [(Sym ''0'', RNS_KEY_0)] @ drop 10 single_entries)" by (rule arg_cong)
  then have "set single_entries = set (x11_digits @ x11_upper @ x11_lower)" unfolding x11_singles by auto
  with e name show ?thesis unfolding x11_set by blast
qed

section \<open>Properties\<close>

text \<open>Both platforms agree: every key symbol that the X11 table lists gives the same key on libwpe (where
  the pause key is listed by its number).\<close>

theorem platforms_agree_on_keys:
  assumes "labels_differ vx x11_keys" and "labels_differ vw wpe_keys" and "\<forall>n. n \<noteq> ''Pause'' \<longrightarrow> vx n = vw n" and "vx ''Pause'' = 65299"
    and "(Sym n, k) \<in> set x11_keys"
  shows "keyIdentifierForX11KeyCode vx (vx n) = k" and "keyIdentifierForWPEKeyCode vw (vx n) = k"
proof -
  show "keyIdentifierForX11KeyCode vx (vx n) = k"
    using switch_key_entry [OF assms(1,5)] by (simp add: keyIdentifierForX11KeyCode_def)
  show "keyIdentifierForWPEKeyCode vw (vx n) = k"
  proof (cases "n = ''Pause''")
    case True
    have "(Code 65299, RNS_KEY_AudioPause) \<in> set wpe_keys" unfolding wpe_keys_def by (simp add: wpe_remote_def)
    with switch_key_entry [OF assms(2) this] pause_entry [OF assms(5)] True assms(4) show ?thesis
      by (simp add: keyIdentifierForWPEKeyCode_def)
  next
    case False
    with switch_key_entry [OF assms(2) x11_entry_in_wpe [OF assms(5)]] assms(3) show ?thesis
      by (simp add: keyIdentifierForWPEKeyCode_def)
  qed
qed

text \<open>C38: What is typed is what is printed on the key: the symbol of each printable character gives the key whose
  name in \<open>RNSKeyMap\<close> is that character.\<close>

theorem typed_character_is_named:
  assumes "labels_differ val x11_keys" and "printable n c"
  shows "key_name (keyIdentifierForX11KeyCode val (val n)) = Some [c]"
proof -
  obtain k where "(Sym n, k) \<in> set x11_keys" "key_name k = Some [c]" using printable_entry [OF assms(2)] by blast
  with switch_key_entry [OF assms(1), of "Sym n" k] show ?thesis by (simp add: keyIdentifierForX11KeyCode_def)
qed

text \<open>A key that is held down: when X11's repetitions arrive as pairs of a release and a press, the rest of
  the program sees the presses and one release, at the end.\<close>

theorem held_key_released_once:
  assumes "gWindowMap s w = Some win" and "\<not> x_done s"
    and "k = keyIdentifierForX11KeyCode val (keysym kc (shift_level sh lk))"
  shows "x_out (createEventLoop val keysym ((KeyEvent w True tp kc sh lk, b) #
      concat (map (\<lambda>t. [(KeyEvent w False t kc sh lk, True), (KeyEvent w True t kc sh lk, b)]) ts) @ [(KeyEvent w False tr kc sh lk, False)]) s) =
    x_out s @ replicate (Suc (length ts)) (HWKey (winType win) k RNS_KEY_Press) @ [HWKey (winType win) k RNS_KEY_Release]"
proof -
  have p: "x_event_step val keysym (KeyEvent w True t kc sh lk) next u = emit_x [HWKey (winType win) k RNS_KEY_Press] u"
    if "gWindowMap u w = Some win" for t "next" u
    using that by (simp add: window_event_def handleEvent_def onKey_def assms(3))
  have r: "x_event_step val keysym (KeyEvent w False t kc sh lk) (Some (KeyEvent w True t kc sh lk)) u = u" if "gWindowMap u w = Some win" for t u
    using that by (simp add: window_event_def handleEvent_def repeat_follows_def)
  have l: "x_event_step val keysym (KeyEvent w False t kc sh lk) None u = emit_x [HWKey (winType win) k RNS_KEY_Release] u"
    if "gWindowMap u w = Some win" for t u
    using that by (simp add: window_event_def handleEvent_def onKey_def assms(3) repeat_follows_def)
  have "x_out (createEventLoop val keysym
      (concat (map (\<lambda>t. [(KeyEvent w False t kc sh lk, True), (KeyEvent w True t kc sh lk, b)]) ts) @ [(KeyEvent w False tr kc sh lk, False)]) u) =
      x_out u @ replicate (length ts) (HWKey (winType win) k RNS_KEY_Press) @ [HWKey (winType win) k RNS_KEY_Release]"
    if "gWindowMap u w = Some win" "\<not> x_done u" for u
    using that
  proof (induction ts arbitrary: u)
    case Nil
    then show ?case using l [of u tr] by (simp add: emit_x_def)
  next
    case (Cons t ts)
    let ?v = "emit_x [HWKey (winType win) k RNS_KEY_Press] u"
    have v: "gWindowMap ?v w = Some win" "\<not> x_done ?v" using Cons.prems by (simp_all add: emit_x_def)
    show ?case using Cons.IH [OF v] Cons.prems p r by (simp add: emit_x_def)
  qed
  from this [of "emit_x [HWKey (winType win) k RNS_KEY_Press] s"] assms(1,2) p [OF assms(1)] show ?thesis
    by (simp add: emit_x_def)
qed

text \<open>When the press of a repetition has not arrived yet while its release is handled, the release is passed
  on: the key seems to be pressed twice.\<close>

theorem late_repetition_released:
  assumes "gWindowMap s w = Some win" and "\<not> x_done s"
    and "k = keyIdentifierForX11KeyCode val (keysym kc (shift_level sh lk))"
  shows "x_out (createEventLoop val keysym [(KeyEvent w True tp kc sh lk, b), (KeyEvent w False t kc sh lk, False), (KeyEvent w True t kc sh lk, b)] s) =
    x_out s @ [HWKey (winType win) k RNS_KEY_Press, HWKey (winType win) k RNS_KEY_Release, HWKey (winType win) k RNS_KEY_Press]"
  using assms by (simp add: window_event_def handleEvent_def onKey_def repeat_follows_def emit_x_def)

text \<open>With caps lock on, the keys of the digits type what is printed above the digits: caps lock is taken for
  shift on every key.\<close>

theorem caps_lock_shifts_digits:
  assumes "gWindowMap s w = Some win" and "\<not> x_done s" and "labels_differ val x11_keys"
    and "keysym kc 0 = val ''1''" and "keysym kc 1 = val ''exclam''"
  shows "x_out (createEventLoop val keysym [(KeyEvent w True t kc False True, b)] s) = x_out s @ [HWKey (winType win) RNS_KEY_Exclam RNS_KEY_Press]"
proof -
  have "(Sym ''exclam'', RNS_KEY_Exclam) \<in> set x11_keys" by (simp add: x11_keys_def x11_special_def)
  from switch_key_entry [OF assms(3) this] assms show ?thesis
    by (simp add: window_event_def handleEvent_def onKey_def emit_x_def shift_level_def keyIdentifierForX11KeyCode_def)
qed

text \<open>When shift is let go before the letter, the capital letter is pressed and the small one released.\<close>

theorem shift_changes_release:
  assumes "gWindowMap s w = Some win" and "\<not> x_done s" and "labels_differ val x11_keys"
    and "keysym kc 0 = val ''a''" and "keysym kc 1 = val ''A''"
  shows "x_out (createEventLoop val keysym [(KeyEvent w True t kc True False, b), (KeyEvent w False t' kc False False, False)] s) =
    x_out s @ [HWKey (winType win) RNS_KEY_A RNS_KEY_Press, HWKey (winType win) RNS_KEY_a RNS_KEY_Release]"
proof -
  have "(Sym ''a'', RNS_KEY_a) \<in> set x11_keys" "(Sym ''A'', RNS_KEY_A) \<in> set x11_keys"
    by (simp_all add: x11_keys_def x11_lower_def x11_upper_def)
  from switch_key_entry [OF assms(3) this(1)] switch_key_entry [OF assms(3) this(2)] assms show ?thesis
    by (simp add: window_event_def handleEvent_def onKey_def emit_x_def shift_level_def keyIdentifierForX11KeyCode_def repeat_follows_def)
qed

text \<open>However often X11 reports the size of the main window, the application is told each change once, in
  order, and JavaScript is notified after it; the window remembers the last size.\<close>

theorem resizes_reported_once:
  assumes "gWindowMap s w = Some win" and "winType win = MainWindow" and "\<not> x_done s"
  shows "x_out (createEventLoop val keysym (map (\<lambda>(a, b). (Configure w a b, c)) sizes) s) =
      x_out s @ concat (map (\<lambda>(a, b). [SizeChanged a b, DimensionEvent]) (tl (remdups_adj (currentWindowDimension win # sizes))))"
    and "gWindowMap (createEventLoop val keysym (map (\<lambda>(a, b). (Configure w a b, c)) sizes) s) w =
      Some (win\<lparr>currentWindowDimension := last (currentWindowDimension win # sizes)\<rparr>)"
proof -
  have "x_out (createEventLoop val keysym (map (\<lambda>(a, b). (Configure w a b, c)) sizes) s) =
      x_out s @ concat (map (\<lambda>(a, b). [SizeChanged a b, DimensionEvent]) (tl (remdups_adj (currentWindowDimension win # sizes)))) \<and>
    gWindowMap (createEventLoop val keysym (map (\<lambda>(a, b). (Configure w a b, c)) sizes) s) w =
      Some (win\<lparr>currentWindowDimension := last (currentWindowDimension win # sizes)\<rparr>)"
    using assms
  proof (induction sizes arbitrary: s win)
    case (Cons ab sizes)
    obtain a b where ab: "ab = (a, b)" by fastforce
    show ?case
    proof (cases "currentWindowDimension win = (a, b)")
      case True
      then have "configure_window w a b s = s" using Cons.prems by (simp add: configure_window_def)
      with Cons.IH [OF Cons.prems] Cons.prems(3) ab True show ?thesis by simp
    next
      case False
      let ?win = "win\<lparr>currentWindowDimension := (a, b)\<rparr>"
      let ?s = "emit_x [SizeChanged a b, DimensionEvent] (s\<lparr>gWindowMap := (gWindowMap s)(w \<mapsto> ?win)\<rparr>)"
      have c: "configure_window w a b s = ?s" using False Cons.prems by (simp add: configure_window_def)
      have "gWindowMap ?s w = Some ?win" "winType ?win = MainWindow" "\<not> x_done ?s" using Cons.prems by (simp_all add: emit_x_def)
      from Cons.IH [OF this] c Cons.prems(3) ab False show ?thesis
        by (cases sizes) (auto simp: emit_x_def remdups_adj_Cons split: list.splits)
    qed
  qed (simp add: assms)
  then show "x_out (createEventLoop val keysym (map (\<lambda>(a, b). (Configure w a b, c)) sizes) s) =
      x_out s @ concat (map (\<lambda>(a, b). [SizeChanged a b, DimensionEvent]) (tl (remdups_adj (currentWindowDimension win # sizes))))"
    and "gWindowMap (createEventLoop val keysym (map (\<lambda>(a, b). (Configure w a b, c)) sizes) s) w =
      Some (win\<lparr>currentWindowDimension := last (currentWindowDimension win # sizes)\<rparr>)" by auto
qed

text \<open>Closing the main window ends the program only if no other window is open: with the keyboard or an
  alert on the screen the request is dropped.\<close>

theorem close_needs_single_window:
  assumes "gWindowMap s w = Some win" and "\<not> x_done s"
  shows "x_done (createEventLoop val keysym [(DeleteMessage w, b)] s) \<longleftrightarrow> window_count s = 1"
    and "window_count s \<noteq> 1 \<Longrightarrow> createEventLoop val keysym [(DeleteMessage w, b)] s = s"
  using assms by (simp_all add: window_event_def handleEvent_def)

text \<open>On libwpe a new window counts as the main window while it is set up: opening the keyboard or an alert
  tells the application that its own size changed.\<close>

theorem new_window_resizes_application:
  assumes "wpe_app s" and "0 < w" and "0 < h"
  shows "wpe_out (snd (createNativeWindow (w, h) given SubWindow s)) =
    wpe_out s @ (case given of None \<Rightarrow> [] | Some (a, b) \<Rightarrow> [SizeChanged a b]) @ [SizeChanged w h]"
  using assms by (auto simp: createNativeWindow_def setViewSize_def size_changed_def render_target_size_def Let_def split: option.splits prod.splits)

text \<open>Escape with control and shift is meant not to end the program, but letting it go does.\<close>

theorem escape_release_quits:
  assumes "\<not> wpe_quit s"
  shows "\<not> wpe_quit (handle_keyboard_event val (val ''Escape'') True True True win s)"
    and "wpe_quit (handle_keyboard_event val (val ''Escape'') False True True win (handle_keyboard_event val (val ''Escape'') True True True win s))"
  using assms by (simp_all add: handle_keyboard_event_def)

section \<open>Examples\<close>

definition sample_value :: "string \<Rightarrow> int" where
  "sample_value n = (if n = ''Pause'' then 65299 else 100000 + foldl (\<lambda>h c. (h * 31 + of_char c) mod 65521) 0 n)"

lemma sample_labels: "labels_differ sample_value x11_keys" "labels_differ sample_value wpe_keys"
  by code_simp+

definition sample_keysym :: "nat \<Rightarrow> nat \<Rightarrow> int" where
  "sample_keysym kc level =
     sample_value (if kc = 10 then (if level = 0 then ''1'' else ''exclam'') else (if level = 0 then ''a'' else ''A''))"

definition sample_x11 :: x11 where
  "sample_x11 = \<lparr>gWindowMap = [5 \<mapsto> \<lparr>winType = MainWindow, currentWindowDimension = (0, 0)\<rparr>], window_count = 1, currentScreenSize = (1280, 720),
     x_done = False, x_out = []\<rparr>"

lemma sample_x11_window: "gWindowMap sample_x11 5 = Some \<lparr>winType = MainWindow, currentWindowDimension = (0, 0)\<rparr>" "\<not> x_done sample_x11"
  "x_out sample_x11 = []" "window_count sample_x11 = 1"
  by (simp_all add: sample_x11_def)

lemma platforms_agree_on_keys_witness:
  "keyIdentifierForX11KeyCode sample_value (sample_value ''q'') = RNS_KEY_q \<and> keyIdentifierForWPEKeyCode sample_value (sample_value ''q'') = RNS_KEY_q"
proof -
  have e: "(Sym ''q'', RNS_KEY_q) \<in> set x11_keys" by (simp add: x11_keys_def x11_lower_def)
  have v: "\<forall>n. n \<noteq> ''Pause'' \<longrightarrow> sample_value n = sample_value n" "sample_value ''Pause'' = 65299" by (simp_all add: sample_value_def)
  show ?thesis using platforms_agree_on_keys [OF sample_labels v e] by blast
qed

lemma typed_character_is_named_witness: "key_name (keyIdentifierForX11KeyCode sample_value (sample_value ''grave'')) = Some [CHR 0x60]"
  by (rule typed_character_is_named [OF sample_labels(1)]) (simp add: printable_def punctuation_def)

lemma held_key_released_once_witness:
  "x_out (createEventLoop sample_value sample_keysym ((KeyEvent 5 True 1 38 False False, False) #
      concat (map (\<lambda>t. [(KeyEvent 5 False t 38 False False, True), (KeyEvent 5 True t 38 False False, False)]) [30, 60]) @
      [(KeyEvent 5 False 80 38 False False, False)]) sample_x11) =
    x_out sample_x11 @ replicate (Suc (length [30, 60 :: nat]))
      (HWKey MainWindow (keyIdentifierForX11KeyCode sample_value (sample_keysym 38 (shift_level False False))) RNS_KEY_Press) @
      [HWKey MainWindow (keyIdentifierForX11KeyCode sample_value (sample_keysym 38 (shift_level False False))) RNS_KEY_Release]"
  using held_key_released_once [where val = sample_value and keysym = sample_keysym and kc = 38 and sh = False and lk = False and tp = 1 and
    b = False and ts = "[30, 60]" and tr = 80, OF sample_x11_window(1,2) refl] by simp

lemma late_repetition_released_witness:
  "x_out (createEventLoop sample_value sample_keysym [(KeyEvent 5 True 1 38 False False, False), (KeyEvent 5 False 30 38 False False, False),
      (KeyEvent 5 True 30 38 False False, False)] sample_x11) =
    x_out sample_x11 @ [HWKey MainWindow (keyIdentifierForX11KeyCode sample_value (sample_keysym 38 (shift_level False False))) RNS_KEY_Press,
      HWKey MainWindow (keyIdentifierForX11KeyCode sample_value (sample_keysym 38 (shift_level False False))) RNS_KEY_Release,
      HWKey MainWindow (keyIdentifierForX11KeyCode sample_value (sample_keysym 38 (shift_level False False))) RNS_KEY_Press]"
  using late_repetition_released [where val = sample_value and keysym = sample_keysym and kc = 38 and sh = False and lk = False and tp = 1 and
    b = False and t = 30, OF sample_x11_window(1,2) refl] by simp

lemma caps_lock_shifts_digits_witness:
  "x_out (createEventLoop sample_value sample_keysym [(KeyEvent 5 True 1 10 False True, False)] sample_x11) =
    x_out sample_x11 @ [HWKey MainWindow RNS_KEY_Exclam RNS_KEY_Press]"
  using caps_lock_shifts_digits [OF sample_x11_window(1,2) sample_labels(1), of sample_keysym 10 1 False] by (simp add: sample_keysym_def)

lemma shift_changes_release_witness:
  "x_out (createEventLoop sample_value sample_keysym [(KeyEvent 5 True 1 38 True False, False), (KeyEvent 5 False 9 38 False False, False)] sample_x11) =
    x_out sample_x11 @ [HWKey MainWindow RNS_KEY_A RNS_KEY_Press, HWKey MainWindow RNS_KEY_a RNS_KEY_Release]"
  using shift_changes_release [OF sample_x11_window(1,2) sample_labels(1), of sample_keysym 38 1 False 9] by (simp add: sample_keysym_def)

lemma resizes_reported_once_witness:
  "x_out (createEventLoop sample_value sample_keysym (map (\<lambda>(a, b). (Configure 5 a b, False)) [(800, 600), (800, 600), (640, 480)]) sample_x11) =
      x_out sample_x11 @ concat (map (\<lambda>(a, b). [SizeChanged a b, DimensionEvent]) (tl (remdups_adj [(0, 0), (800, 600), (800, 600), (640, 480)])))"
  using resizes_reported_once(1) [OF sample_x11_window(1) _ sample_x11_window(2), of sample_value sample_keysym False "[(800, 600), (800, 600), (640, 480)]"]
  by simp

lemma close_needs_single_window_witness:
  "x_done (createEventLoop sample_value sample_keysym [(DeleteMessage 5, False)] sample_x11) \<and>
   createEventLoop sample_value sample_keysym [(DeleteMessage 5, False)] (sample_x11\<lparr>window_count := 2\<rparr>) = sample_x11\<lparr>window_count := 2\<rparr>"
proof -
  have "gWindowMap (sample_x11\<lparr>window_count := 2\<rparr>) 5 = Some \<lparr>winType = MainWindow, currentWindowDimension = (0, 0)\<rparr>" "\<not> x_done (sample_x11\<lparr>window_count := 2\<rparr>)"
    by (simp_all add: sample_x11_def)
  from close_needs_single_window(2) [OF this] close_needs_single_window(1) [OF sample_x11_window(1,2)] sample_x11_window(4) show ?thesis by simp
qed

lemma new_window_resizes_application_witness:
  "wpe_out (snd (createNativeWindow (400, 300) None SubWindow \<lparr>wpe_app = True, wpe_screen = (1280, 720), wpe_quit = False, wpe_out = []\<rparr>)) =
    wpe_out \<lparr>wpe_app = True, wpe_screen = (1280, 720), wpe_quit = False, wpe_out = []\<rparr> @ [] @ [SizeChanged 400 300]"
  using new_window_resizes_application [of "\<lparr>wpe_app = True, wpe_screen = (1280, 720), wpe_quit = False, wpe_out = []\<rparr>" 400 300 None] by simp

lemma escape_release_quits_witness:
  "wpe_quit (handle_keyboard_event sample_value (sample_value ''Escape'') False True True \<lparr>wpe_type = MainWindow, viewWidth = 1, viewHeight = 1\<rparr>
     (handle_keyboard_event sample_value (sample_value ''Escape'') True True True \<lparr>wpe_type = MainWindow, viewWidth = 1, viewHeight = 1\<rparr>
        \<lparr>wpe_app = True, wpe_screen = (1280, 720), wpe_quit = False, wpe_out = []\<rparr>))"
  by (rule escape_release_quits(2)) simp

end
