(* ===== verification/ViewDrawing.thy ===== *)
theory ViewDrawing imports SkGeom begin

text \<open>
  What every view draws: its background, border and shadow (\<open>RSkDrawUtils.cpp\<close>, \<open>RSkConversion.h\<close>,
  \<open>RSkComponentView.cpp\<close>), and the part of \<open>RSkComponent::updateProps\<close> that keeps the style of a
  layer. What goes to the canvas is a list of operations. Colors and rectangles of edges of React
  Native, rectangles and filters of Skia, and cosine and sine (of degrees) are the fields of a record
  \<open>draw_api\<close> that the model takes as an argument, with what is documented of them in \<open>draw_laws\<close>.
\<close>

section \<open>What the code uses of other libraries\<close>

record 'a edges =
  eLeft :: 'a
  eTop :: 'a
  eRight :: 'a
  eBottom :: 'a

record corners =
  topLeft :: scalar
  topRight :: scalar
  bottomLeft :: scalar
  bottomRight :: scalar

record color_components =
  red :: scalar
  green :: scalar
  blue :: scalar
  alpha :: scalar

record sk_rect =
  sLeft :: scalar
  sTop :: scalar
  sRight :: scalar
  sBottom :: scalar

text \<open>A \<open>SharedColor\<close> may be not specified; \<open>*color\<close> is then the value \<open>unspecified\<close>.\<close>

type_synonym 'c shared_color = "'c option"

record ('c, 'm, 'i) draw_api =
  colorComponentsFromColor :: "'c \<Rightarrow> color_components"
  unspecified :: 'c
  blackColor :: 'c
  colors_isUniform :: "'c shared_color edges \<Rightarrow> bool"
  widths_isUniform :: "scalar edges \<Rightarrow> bool"
  rect_MakeXYWH :: "scalar \<Rightarrow> scalar \<Rightarrow> scalar \<Rightarrow> scalar \<Rightarrow> sk_rect"
  rect_inset :: "scalar \<Rightarrow> scalar \<Rightarrow> sk_rect \<Rightarrow> sk_rect"
  computeFastBounds :: "'m \<Rightarrow> sk_irect \<Rightarrow> sk_rect"
  filterBounds :: "'i \<Rightarrow> sk_irect \<Rightarrow> sk_irect"
  size_isEmpty :: "scalar \<times> scalar \<Rightarrow> bool"
  cosine :: "scalar \<Rightarrow> scalar"
  sine :: "scalar \<Rightarrow> scalar"

definition uniform :: "'a edges \<Rightarrow> bool" where
  "uniform e \<longleftrightarrow> eLeft e = eTop e \<and> eLeft e = eRight e \<and> eLeft e = eBottom e"

definition draw_laws :: "('c, 'm, 'i) draw_api \<Rightarrow> bool" where
  "draw_laws d \<longleftrightarrow>
     (\<forall>e. colors_isUniform d e \<longleftrightarrow> uniform e) \<and> (\<forall>e. widths_isUniform d e \<longleftrightarrow> uniform e) \<and>
     (\<forall>x y w h. rect_MakeXYWH d x y w h = \<lparr>sLeft = x, sTop = y, sRight = x + w, sBottom = y + h\<rparr>) \<and>
     (\<forall>dx dy r. rect_inset d dx dy r =
        \<lparr>sLeft = sLeft r + dx, sTop = sTop r + dy, sRight = sRight r - dx, sBottom = sBottom r - dy\<rparr>) \<and>
     (\<forall>w h. size_isEmpty d (w, h) \<longleftrightarrow> w \<le> 0 \<or> h \<le> 0)"

section \<open>Colors\<close>

text \<open>A color of Skia, as the arguments of \<open>SkColorSetARGB\<close>.\<close>

datatype sk_color = SkARGB (getA: int) int int int

abbreviation SK_ColorTRANSPARENT :: sk_color where "SK_ColorTRANSPARENT \<equiv> SkARGB 0 0 0 0"
abbreviation SK_ColorBLACK :: sk_color where "SK_ColorBLACK \<equiv> SkARGB 255 0 0 0"

definition MAX_8BIT :: scalar where
  "MAX_8BIT = 25599 / 100"

definition RSkColorFromSharedColor :: "('c, 'm, 'i) draw_api \<Rightarrow> 'c shared_color \<Rightarrow> sk_color \<Rightarrow> sk_color" where
  "RSkColorFromSharedColor d sharedColor defaultColor =
     (case sharedColor of
        Some c \<Rightarrow>
          let v = colorComponentsFromColor d c
          in SkARGB (trunc (alpha v * MAX_8BIT)) (trunc (red v * MAX_8BIT)) (trunc (green v * MAX_8BIT)) (trunc (blue v * MAX_8BIT))
      | None \<Rightarrow> defaultColor)"

definition isOpaque :: "scalar \<Rightarrow> bool" where
  "isOpaque opacity \<longleftrightarrow> MAX_8BIT \<le> opacity"

text \<open>\<open>*color\<close>.\<close>

definition color_value :: "('c, 'm, 'i) draw_api \<Rightarrow> 'c shared_color \<Rightarrow> 'c" where
  "color_value d c = (case c of Some x \<Rightarrow> x | None \<Rightarrow> unspecified d)"

section \<open>Borders\<close>

datatype BorderStyle = Solid | Dotted | Dashed

datatype FrameType = FilledRect | MonoChromeStrokedRect | PolyChromeStrokedRect | DiscretePath | InvisibleFrame

datatype BorderEdges = RightEdge | LeftEdge | TopEdge | BottomEdge

record 'c border_metrics =
  borderColors :: "'c shared_color edges"
  borderWidths :: "scalar edges"
  borderRadii :: corners
  borderStyles :: "BorderStyle edges"

definition isBorderColorVisible :: "('c, 'm, 'i) draw_api \<Rightarrow> 'c shared_color \<Rightarrow> bool" where
  "isBorderColorVisible d c = (case c of None \<Rightarrow> True | Some x \<Rightarrow> alpha (colorComponentsFromColor d x) \<noteq> 0)"

definition isBorderEdgeVisible :: "('c, 'm, 'i) draw_api \<Rightarrow> 'c shared_color \<Rightarrow> scalar \<Rightarrow> bool" where
  "isBorderEdgeVisible d c thickness \<longleftrightarrow> thickness \<noteq> 0 \<and> isBorderColorVisible d c"

definition hasVisibleBorder :: "('c, 'm, 'i) draw_api \<Rightarrow> 'c shared_color edges \<Rightarrow> scalar edges \<Rightarrow> bool" where
  "hasVisibleBorder d c w \<longleftrightarrow>
     isBorderEdgeVisible d (eLeft c) (eLeft w) \<or> isBorderEdgeVisible d (eRight c) (eRight w) \<or>
     isBorderEdgeVisible d (eTop c) (eTop w) \<or> isBorderEdgeVisible d (eBottom c) (eBottom w)"

definition hasVisibleBackGround :: "('c, 'm, 'i) draw_api \<Rightarrow> 'c shared_color \<Rightarrow> bool" where
  "hasVisibleBackGround d c = (case c of None \<Rightarrow> False | Some x \<Rightarrow> alpha (colorComponentsFromColor d x) \<noteq> 0)"

definition detectFrameBorderType :: "('c, 'm, 'i) draw_api \<Rightarrow> 'c shared_color edges \<Rightarrow> scalar edges \<Rightarrow> FrameType" where
  "detectFrameBorderType d c w =
     (if \<not> hasVisibleBorder d c w then InvisibleFrame
      else if \<not> widths_isUniform d w then DiscretePath
      else if colors_isUniform d c then MonoChromeStrokedRect
      else if isBorderColorVisible d (eLeft c) \<and> isBorderColorVisible d (eRight c) \<and>
              isBorderColorVisible d (eTop c) \<and> isBorderColorVisible d (eBottom c)
      then PolyChromeStrokedRect else DiscretePath)"

definition hasUniformBorderEdges :: "('c, 'm, 'i) draw_api \<Rightarrow> 'c border_metrics \<Rightarrow> bool" where
  "hasUniformBorderEdges d b \<longleftrightarrow> colors_isUniform d (borderColors b) \<and> widths_isUniform d (borderWidths b)"

section \<open>Painting rectangles and paths\<close>

datatype paint_style = kFill | kStroke | kStrokeAndFill

record ('m, 'i) sk_paint =
  paint_color :: sk_color
  paint_style :: paint_style
  strokeWidth :: scalar
  dashIntervals :: "scalar list"
  roundJoin :: bool
  roundCap :: bool
  maskFilter :: "'m option"
  imageFilter :: "'i option"

datatype path_op = MoveTo scalar scalar | LineTo scalar scalar | AddArc sk_rect scalar scalar

datatype ('m, 'i) canvas_op =
    DrawRRect sk_rect corners "('m, 'i) sk_paint"
  | DrawPath "path_op list" "('m, 'i) sk_paint"
  | DrawLine "scalar \<times> scalar" "scalar \<times> scalar" "('m, 'i) sk_paint"
  | SaveLayerAlpha sk_irect nat
  | SaveLayer sk_irect
  | ClipRRectDifference sk_rect corners
  | Restore

definition new_paint :: "('m, 'i) sk_paint" where
  "new_paint = \<lparr>paint_color = SK_ColorBLACK, paint_style = kFill, strokeWidth = 0, dashIntervals = [],
     roundJoin = False, roundCap = False, maskFilter = None, imageFilter = None\<rparr>"

text \<open>The widths of the dashes are integers, and halving one rounds towards zero.\<close>

definition setPathEffect :: "BorderStyle \<Rightarrow> int \<Rightarrow> ('m, 'i) sk_paint \<Rightarrow> ('m, 'i) sk_paint" where
  "setPathEffect style w p =
     (case style of
        Solid \<Rightarrow> p
      | Dashed \<Rightarrow> p\<lparr>dashIntervals := [of_int w, of_int (trunc (of_int w / 2))], roundJoin := True\<rparr>
      | Dotted \<Rightarrow> p\<lparr>dashIntervals := [0, of_int (w + 3)], roundJoin := True, roundCap := True\<rparr>)"

definition setStyle :: "int \<Rightarrow> paint_style \<Rightarrow> BorderStyle \<Rightarrow> ('m, 'i) sk_paint \<Rightarrow> ('m, 'i) sk_paint" where
  "setStyle w style border p =
     (let q = p\<lparr>paint_style := style, strokeWidth := of_int w\<rparr>
      in if border = Dashed \<or> border = Dotted then setPathEffect border w q else q)"

text \<open>\<open>drawRect\<close>; the width of the stroke is converted to an integer when \<open>setStyle\<close> is called.\<close>

definition drawRect ::
    "('c, 'm, 'i) draw_api \<Rightarrow> FrameType \<Rightarrow> f_rect \<Rightarrow> 'c border_metrics \<Rightarrow> sk_color \<Rightarrow> 'm option \<Rightarrow> ('m, 'i) canvas_op list" where
  "drawRect d ty frame b color mf =
     (let w = (if \<not> hasUniformBorderEdges d b \<and> ty = FilledRect then 0 else eLeft (borderWidths b));
          p = new_paint\<lparr>paint_color := color, maskFilter := mf\<rparr>;
          rect = rect_MakeXYWH d (rx frame) (ry frame) (rw frame) (rh frame);
          rect1 = (if 0 < w then rect_inset d (w / 2) (w / 2) rect else rect);
          p1 = (if ty = FilledRect then setStyle (trunc w) kStrokeAndFill Solid p
                else if ty = MonoChromeStrokedRect \<or> ty = PolyChromeStrokedRect
                then setStyle (trunc w) kStroke (eLeft (borderStyles b)) p
                else p)
      in [DrawRRect rect1 (borderRadii b) p1])"

definition drawPath :: "('c, 'm, 'i) draw_api \<Rightarrow> path_op list \<Rightarrow> 'c shared_color \<Rightarrow> 'i option \<Rightarrow> ('m, 'i) canvas_op list" where
  "drawPath d path color imf =
     [DrawPath path (new_paint\<lparr>paint_color := RSkColorFromSharedColor d color SK_ColorBLACK, imageFilter := imf\<rparr>)]"

record path_metrics =
  outterStart :: "scalar \<times> scalar"
  outterEnd :: "scalar \<times> scalar"
  innerStart :: "scalar \<times> scalar"
  innerEnd :: "scalar \<times> scalar"
  startRadius :: scalar
  endRadius :: scalar
  angle :: scalar

text \<open>The path of a side: from the middle of one corner to the middle of the next, and back along the
  inner edge.\<close>

definition createPath :: "('c, 'm, 'i) draw_api \<Rightarrow> path_metrics \<Rightarrow> BorderEdges \<Rightarrow> path_op list" where
  "createPath d m edge =
     (let verticalEdge = (edge = LeftEdge \<or> edge = RightEdge);
          growCW = (edge = TopEdge \<or> edge = RightEdge);
          cornerOnRightEdge = (edge = BottomEdge \<or> edge = RightEdge \<or> edge = TopEdge);
          cornerOnBottomEdge = (edge = LeftEdge \<or> edge = BottomEdge \<or> edge = RightEdge);
          sweep = (if growCW then 45 else - 45 :: scalar);
          (sx, sy) = outterStart m; (ex, ey) = outterEnd m;
          r1 = startRadius m; r2 = endRadius m;
          startX = (if cornerOnRightEdge \<and> verticalEdge then sx - r1 * 2 else sx);
          startY = (if cornerOnBottomEdge \<and> \<not> verticalEdge then sy - r1 * 2 else sy);
          startRect = rect_MakeXYWH d startX startY (r1 * 2) (r1 * 2);
          endRect = rect_MakeXYWH d (if cornerOnRightEdge then ex - r2 * 2 else ex)
                      (if cornerOnBottomEdge then ey - r2 * 2 else ey) (r2 * 2) (r2 * 2);
          endX = (if r2 \<noteq> 0 \<and> \<not> verticalEdge then ex - r2 else ex);
          endY = (if r2 \<noteq> 0 \<and> verticalEdge then ey - r2 else ey);
          a = angle m - sweep;
          (cx, cy) = (if r1 \<noteq> 0
                      then ((sLeft startRect + sRight startRect) / 2 + r1 * cosine d a,
                            (sTop startRect + sBottom startRect) / 2 + r1 * sine d a)
                      else (sx, sy))
      in [MoveTo sx sy] @ (if r1 \<noteq> 0 then [AddArc startRect a sweep] else []) @ [LineTo endX endY] @
         (if r2 \<noteq> 0 then [AddArc endRect (angle m) sweep] else []) @
         [LineTo (fst (innerEnd m)) (snd (innerEnd m)), LineTo (fst (innerStart m)) (snd (innerStart m)), LineTo cx cy])"

definition edge_metrics :: "BorderEdges \<Rightarrow> f_rect \<Rightarrow> scalar edges \<Rightarrow> corners \<Rightarrow> path_metrics" where
  "edge_metrics edge frame w r =
     (let x0 = rx frame; y0 = ry frame; x1 = rx frame + rw frame; y1 = ry frame + rh frame
      in case edge of
           RightEdge \<Rightarrow> \<lparr>outterStart = (x1, y0), outterEnd = (x1, y1), innerStart = (x1 - eRight w, y0 + eTop w),
             innerEnd = (x1 - eRight w, y1 - eBottom w), startRadius = topRight r, endRadius = bottomRight r, angle = 0\<rparr>
         | BottomEdge \<Rightarrow> \<lparr>outterStart = (x0, y1), outterEnd = (x1, y1), innerStart = (x0 + eLeft w, y1 - eBottom w),
             innerEnd = (x1 - eRight w, y1 - eBottom w), startRadius = bottomLeft r, endRadius = bottomRight r, angle = 90\<rparr>
         | LeftEdge \<Rightarrow> \<lparr>outterStart = (x0, y0), outterEnd = (x0, y1), innerStart = (x0 + eLeft w, y0 + eTop w),
             innerEnd = (x0 + eLeft w, y1 - eBottom w), startRadius = topLeft r, endRadius = bottomLeft r, angle = 180\<rparr>
         | TopEdge \<Rightarrow> \<lparr>outterStart = (x0, y0), outterEnd = (x1, y0), innerStart = (x0 + eLeft w, y0 + eTop w),
             innerEnd = (x1 - eRight w, y0 + eTop w), startRadius = topLeft r, endRadius = topRight r, angle = 270\<rparr>)"

definition edge_of :: "BorderEdges \<Rightarrow> 'a edges \<Rightarrow> 'a" where
  "edge_of edge e = (case edge of RightEdge \<Rightarrow> eRight e | LeftEdge \<Rightarrow> eLeft e | TopEdge \<Rightarrow> eTop e | BottomEdge \<Rightarrow> eBottom e)"

definition createAndDrawDiscretePath ::
    "('c, 'm, 'i) draw_api \<Rightarrow> BorderEdges \<Rightarrow> f_rect \<Rightarrow> 'c border_metrics \<Rightarrow> 'i option \<Rightarrow> ('m, 'i) canvas_op list" where
  "createAndDrawDiscretePath d edge frame b imf =
     drawPath d (createPath d (edge_metrics edge frame (borderWidths b) (borderRadii b)) edge)
       (edge_of edge (borderColors b)) imf"

definition edge_order :: "BorderEdges list" where
  "edge_order = [RightEdge, LeftEdge, TopEdge, BottomEdge]"

definition drawDiscretePath :: "('c, 'm, 'i) draw_api \<Rightarrow> f_rect \<Rightarrow> 'c border_metrics \<Rightarrow> 'i option \<Rightarrow> ('m, 'i) canvas_op list" where
  "drawDiscretePath d frame b imf =
     concat (map (\<lambda>e. if isBorderEdgeVisible d (edge_of e (borderColors b)) (edge_of e (borderWidths b))
                       then createAndDrawDiscretePath d e frame b imf else []) edge_order)"

section \<open>Background, border and shadow\<close>

definition drawBackground :: "('c, 'm, 'i) draw_api \<Rightarrow> f_rect \<Rightarrow> 'c border_metrics \<Rightarrow> 'c shared_color \<Rightarrow> ('m, 'i) canvas_op list" where
  "drawBackground d frame b bg =
     (if hasVisibleBackGround d bg then drawRect d FilledRect frame b (RSkColorFromSharedColor d bg SK_ColorTRANSPARENT) None else [])"

text \<open>\<open>BACKGROUND_COLOR_DIFFERENT_FROM_BORDER_COLOR\<close>.\<close>

definition differs_from_background :: "('c, 'm, 'i) draw_api \<Rightarrow> 'c shared_color \<Rightarrow> 'c shared_color \<Rightarrow> bool" where
  "differs_from_background d bg color =
     (case color of None \<Rightarrow> color_value d bg \<noteq> blackColor d | Some c \<Rightarrow> c \<noteq> color_value d bg)"

definition drawBorder :: "('c, 'm, 'i) draw_api \<Rightarrow> f_rect \<Rightarrow> 'c border_metrics \<Rightarrow> 'c shared_color \<Rightarrow> ('m, 'i) canvas_op list" where
  "drawBorder d frame b bg =
     (let ty = detectFrameBorderType d (borderColors b) (borderWidths b)
      in if ty = MonoChromeStrokedRect \<and> differs_from_background d bg (eLeft (borderColors b))
         then drawRect d MonoChromeStrokedRect frame b (RSkColorFromSharedColor d (eLeft (borderColors b)) SK_ColorBLACK) None
         else if ty = PolyChromeStrokedRect \<or> ty = DiscretePath
         then concat (map (\<lambda>e. if differs_from_background d bg (edge_of e (borderColors b)) \<and>
                                   isBorderEdgeVisible d (edge_of e (borderColors b)) (edge_of e (borderWidths b))
                                then createAndDrawDiscretePath d e frame b None else []) edge_order)
         else [])"

definition getShadowBounds :: "sk_rect_api \<Rightarrow> ('c, 'm, 'i) draw_api \<Rightarrow> sk_irect \<Rightarrow> 'm option \<Rightarrow> 'i option \<Rightarrow> sk_irect" where
  "getShadowBounds sk d frame mf imf =
     (case mf of
        Some m \<Rightarrow>
          let s = computeFastBounds d m frame
          in irect_makeXYWH sk (trunc (sLeft s)) (trunc (sTop s)) (trunc (sRight s - sLeft s)) (trunc (sBottom s - sTop s))
      | None \<Rightarrow> (case imf of Some i \<Rightarrow> filterBounds d i frame | None \<Rightarrow> frame))"

definition drawShadow ::
    "sk_rect_api \<Rightarrow> ('c, 'm, 'i) draw_api \<Rightarrow> f_rect \<Rightarrow> 'c border_metrics \<Rightarrow> 'c shared_color \<Rightarrow> sk_color \<Rightarrow> scalar \<times> scalar \<Rightarrow>
      scalar \<Rightarrow> scalar \<Rightarrow> 'i option \<Rightarrow> 'm option \<Rightarrow> ('m, 'i) canvas_op list \<times> bool" where
  "drawShadow sk d frame b bg shadowColor offset shadowOpacity frameOpacity imf mf =
     (if shadowOpacity = 0 then ([], False)
      else let ty = (if hasVisibleBackGround d bg then FilledRect else detectFrameBorderType d (borderColors b) (borderWidths b))
      in if ty = InvisibleFrame then ([], True)
      else let shadowFrame = frame\<lparr>rx := rx frame + fst offset, ry := ry frame + snd offset\<rparr>;
               bounds = getShadowBounds sk d
                 (irect_makeXYWH sk (trunc (rx shadowFrame)) (trunc (ry shadowFrame)) (trunc (rw shadowFrame)) (trunc (rh shadowFrame))) mf imf;
               w = eLeft (borderWidths b);
               rect = rect_MakeXYWH d (rx frame) (ry frame) (rw frame) (rh frame);
               clipRect = (if w \<noteq> 0 then rect_inset d (w / 2) (w / 2) rect else rect);
               transparent = (if isOpaque shadowOpacity then [] else [SaveLayerAlpha bounds (trunc_u shadowOpacity)]);
               clip = (if ty = FilledRect \<and> isOpaque frameOpacity
                       then (if transparent = [] then [SaveLayer bounds] else []) @ [ClipRRectDifference clipRect (borderRadii b)]
                       else []);
               shadow = (if ty \<noteq> DiscretePath then drawRect d ty shadowFrame b shadowColor mf else drawDiscretePath d frame b imf)
      in (transparent @ clip @ shadow @ (if transparent = [] \<and> clip = [] then [] else [Restore]), ty \<noteq> FilledRect))"

definition drawUnderline :: "('c, 'm, 'i) draw_api \<Rightarrow> f_rect \<Rightarrow> 'c shared_color \<Rightarrow> ('m, 'i) canvas_op list" where
  "drawUnderline d frame color =
     [DrawLine (rx frame, ry frame + rh frame - 3) (rx frame + rw frame, ry frame + rh frame - 3)
        (new_paint\<lparr>paint_color := RSkColorFromSharedColor d color SK_ColorBLACK, paint_style := kStroke, strokeWidth := 1\<rparr>)]"

section \<open>The style of a layer\<close>

record 'c view_style_props =
  p_opacity :: scalar
  p_shadowOpacity :: scalar
  p_shadowRadius :: scalar
  p_shadowOffset :: "scalar \<times> scalar"
  p_shadowColor :: "'c shared_color"
  p_backgroundColor :: "'c shared_color"
  p_transform :: "scalar list"
  p_clipsContent :: bool

text \<open>\<open>MakeBlur\<close> and \<open>DropShadowOnly\<close> are Skia's.\<close>

record ('m, 'i) filter_api =
  MakeBlur :: "scalar \<Rightarrow> 'm option"
  DropShadowOnly :: "scalar \<times> scalar \<Rightarrow> scalar \<Rightarrow> sk_color \<Rightarrow> 'i option"

record ('m, 'i) layer_style =
  layerOpacity :: scalar
  shadowOpacity :: scalar
  shadowRadius :: scalar
  shadowOffset :: "scalar \<times> scalar"
  shadowColor :: sk_color
  shadowImageFilter :: "'i option"
  shadowMaskFilter :: "'m option"
  isShadowVisible :: bool
  backgroundColor :: sk_color
  transformMatrix :: "scalar list"
  masksToBounds :: bool

definition RSkTransformTo2DMatrix :: "scalar list \<Rightarrow> scalar list" where
  "RSkTransformTo2DMatrix m = map ((!) m) [0, 4, 12, 1, 5, 13, 3, 7, 15]"

definition needsShadowPainting :: "('c, 'm, 'i) draw_api \<Rightarrow> ('m, 'i) layer_style \<Rightarrow> bool" where
  "needsShadowPainting d l \<longleftrightarrow>
     \<not> (shadowOpacity l = 0 \<or> layerOpacity l = 0 \<or> getA (shadowColor l) = 0 \<or>
        (size_isEmpty d (shadowOffset l) \<and> isOpaque (layerOpacity l)))"

text \<open>The drawing part of \<open>updateProps\<close>.\<close>

definition update_style ::
    "('c, 'm, 'i) draw_api \<Rightarrow> ('m, 'i) filter_api \<Rightarrow> bool \<Rightarrow> 'c view_style_props \<Rightarrow> 'c view_style_props \<Rightarrow>
      ('m, 'i) layer_style \<Rightarrow> ('m, 'i) layer_style" where
  "update_style d f force old new l =
     (let opacity_changed = (force \<or> p_opacity old \<noteq> p_opacity new);
          shadowOpacity_changed = (force \<or> p_shadowOpacity old \<noteq> p_shadowOpacity new);
          radius_changed = (force \<or> p_shadowRadius old \<noteq> p_shadowRadius new);
          offset_changed = (force \<or> p_shadowOffset old \<noteq> p_shadowOffset new);
          color_changed = (force \<or> p_shadowColor old \<noteq> p_shadowColor new);
          createShadowFilter = (shadowOpacity_changed \<or> radius_changed \<or> offset_changed \<or> color_changed);
          l1 = l\<lparr>layerOpacity := if opacity_changed then (if 1 < p_opacity new then 1 else p_opacity new) * MAX_8BIT else layerOpacity l,
                 shadowOpacity := if shadowOpacity_changed then (if 1 < p_shadowOpacity new then 1 else p_shadowOpacity new) * MAX_8BIT else shadowOpacity l,
                 shadowRadius := if radius_changed then p_shadowRadius new else shadowRadius l,
                 shadowOffset := if offset_changed then p_shadowOffset new else shadowOffset l,
                 shadowColor := if color_changed then RSkColorFromSharedColor d (p_shadowColor new) SK_ColorBLACK else shadowColor l\<rparr>
      in l1\<lparr>isShadowVisible := needsShadowPainting d l1,
            shadowImageFilter := if createShadowFilter then DropShadowOnly f (shadowOffset l1) (shadowRadius l1) (shadowColor l1) else shadowImageFilter l1,
            shadowMaskFilter := if createShadowFilter then MakeBlur f (shadowRadius l1) else shadowMaskFilter l1,
            backgroundColor := if force \<or> p_backgroundColor old \<noteq> p_backgroundColor new
              then RSkColorFromSharedColor d (p_backgroundColor new) SK_ColorTRANSPARENT else backgroundColor l1,
            transformMatrix := if force \<or> p_transform old \<noteq> p_transform new then RSkTransformTo2DMatrix (p_transform new) else transformMatrix l1,
            masksToBounds := if force \<or> p_clipsContent old \<noteq> p_clipsContent new then p_clipsContent new else masksToBounds l1\<rparr>)"

text \<open>\<open>RSkComponentView::OnPaint\<close>.\<close>

definition view_OnPaint ::
    "sk_rect_api \<Rightarrow> ('c, 'm, 'i) draw_api \<Rightarrow> f_rect \<Rightarrow> 'c border_metrics \<Rightarrow> 'c shared_color \<Rightarrow> ('m, 'i) layer_style \<Rightarrow> ('m, 'i) canvas_op list" where
  "view_OnPaint sk d frame b bg l =
     (if isShadowVisible l
      then fst (drawShadow sk d frame b bg (shadowColor l) (shadowOffset l) (shadowOpacity l) (layerOpacity l)
                  (shadowImageFilter l) (shadowMaskFilter l)) else []) @
     drawBackground d frame b bg @ drawBorder d frame b bg"

section \<open>Specification\<close>

text \<open>An instance of what is documented, with whole numbers as colors.\<close>

definition draw_ref :: "(nat, nat, nat) draw_api" where
  "draw_ref = \<lparr>colorComponentsFromColor = (\<lambda>c. \<lparr>red = of_nat (c div 16777216) / 255, green = of_nat (c div 65536 mod 256) / 255,
       blue = of_nat (c div 256 mod 256) / 255, alpha = of_nat (c mod 256) / 255\<rparr>),
     unspecified = 4294967296, blackColor = 255, colors_isUniform = uniform, widths_isUniform = uniform,
     rect_MakeXYWH = (\<lambda>x y w h. \<lparr>sLeft = x, sTop = y, sRight = x + w, sBottom = y + h\<rparr>),
     rect_inset = (\<lambda>dx dy r. \<lparr>sLeft = sLeft r + dx, sTop = sTop r + dy, sRight = sRight r - dx, sBottom = sBottom r - dy\<rparr>),
     computeFastBounds = (\<lambda>m r. \<lparr>sLeft = of_int (fLeft r), sTop = of_int (fTop r), sRight = of_int (fRight r), sBottom = of_int (fBottom r)\<rparr>),
     filterBounds = (\<lambda>i r. r), size_isEmpty = (\<lambda>(w, h). w \<le> 0 \<or> h \<le> 0),
     cosine = (\<lambda>a. 7 / 10), sine = (\<lambda>a. 7 / 10)\<rparr>"

lemma draw_ref_laws [simp]: "draw_laws draw_ref"
  by (simp add: draw_laws_def draw_ref_def)

lemma draw_laws_simps:
  assumes "draw_laws d"
  shows "colors_isUniform d e \<longleftrightarrow> uniform e" and "widths_isUniform d e' \<longleftrightarrow> uniform e'"
    and "rect_MakeXYWH d x y w h = \<lparr>sLeft = x, sTop = y, sRight = x + w, sBottom = y + h\<rparr>"
    and "rect_inset d dx dy r = \<lparr>sLeft = sLeft r + dx, sTop = sTop r + dy, sRight = sRight r - dx, sBottom = sBottom r - dy\<rparr>"
    and "size_isEmpty d (a, b) \<longleftrightarrow> a \<le> 0 \<or> b \<le> 0"
  using assms by (simp_all add: draw_laws_def)

text \<open>What a path covers when its corners are not rounded: the polygon of its points is convex.\<close>

primrec path_point :: "path_op \<Rightarrow> (scalar \<times> scalar) list" where
  "path_point (MoveTo x y) = [(x, y)]"
| "path_point (LineTo x y) = [(x, y)]"
| "path_point (AddArc r a s) = []"

definition side_of :: "scalar \<times> scalar \<Rightarrow> scalar \<times> scalar \<Rightarrow> scalar \<times> scalar \<Rightarrow> scalar" where
  "side_of a b p = (fst b - fst a) * (snd p - snd a) - (snd b - snd a) * (fst p - fst a)"

definition path_covers :: "path_op list \<Rightarrow> scalar \<times> scalar \<Rightarrow> bool" where
  "path_covers path p =
     (let ps = concat (map path_point path); es = zip ps (tl ps)
      in (\<forall>(a, b) \<in> set es. 0 \<le> side_of a b p) \<or> (\<forall>(a, b) \<in> set es. side_of a b p \<le> 0))"

abbreviation side_path :: "('c, 'm, 'i) draw_api \<Rightarrow> f_rect \<Rightarrow> scalar edges \<Rightarrow> corners \<Rightarrow> BorderEdges \<Rightarrow> path_op list" where
  "side_path d frame w r e \<equiv> createPath d (edge_metrics e frame w r) e"

definition in_frame :: "f_rect \<Rightarrow> scalar \<times> scalar \<Rightarrow> bool" where
  "in_frame frame p \<longleftrightarrow> rx frame \<le> fst p \<and> fst p \<le> rx frame + rw frame \<and> ry frame \<le> snd p \<and> snd p \<le> ry frame + rh frame"

text \<open>The distance of a point from an outer edge. A point is inside the border when it is farther from every
  edge that has a width than this width.\<close>

definition edge_dist :: "f_rect \<Rightarrow> scalar \<times> scalar \<Rightarrow> BorderEdges \<Rightarrow> scalar" where
  "edge_dist frame p e = (case e of RightEdge \<Rightarrow> rx frame + rw frame - fst p | LeftEdge \<Rightarrow> fst p - rx frame
     | TopEdge \<Rightarrow> snd p - ry frame | BottomEdge \<Rightarrow> ry frame + rh frame - snd p)"

definition inside_border :: "f_rect \<Rightarrow> scalar edges \<Rightarrow> scalar \<times> scalar \<Rightarrow> bool" where
  "inside_border frame w p \<longleftrightarrow> (\<forall>e. 0 < edge_of e w \<longrightarrow> edge_of e w < edge_dist frame p e)"

definition square_corners :: corners where
  "square_corners = \<lparr>topLeft = 0, topRight = 0, bottomLeft = 0, bottomRight = 0\<rparr>"

lemma side_path_points:
  "concat (map path_point (side_path d frame w square_corners RightEdge)) =
     (let x1 = rx frame + rw frame; y0 = ry frame; y1 = ry frame + rh frame
      in [(x1, y0), (x1, y1), (x1 - eRight w, y1 - eBottom w), (x1 - eRight w, y0 + eTop w), (x1, y0)])"
  "concat (map path_point (side_path d frame w square_corners LeftEdge)) =
     (let x0 = rx frame; y0 = ry frame; y1 = ry frame + rh frame
      in [(x0, y0), (x0, y1), (x0 + eLeft w, y1 - eBottom w), (x0 + eLeft w, y0 + eTop w), (x0, y0)])"
  "concat (map path_point (side_path d frame w square_corners TopEdge)) =
     (let x0 = rx frame; y0 = ry frame; x1 = rx frame + rw frame
      in [(x0, y0), (x1, y0), (x1 - eRight w, y0 + eTop w), (x0 + eLeft w, y0 + eTop w), (x0, y0)])"
  "concat (map path_point (side_path d frame w square_corners BottomEdge)) =
     (let x0 = rx frame; y1 = ry frame + rh frame; x1 = rx frame + rw frame
      in [(x0, y1), (x1, y1), (x1 - eRight w, y1 - eBottom w), (x0 + eLeft w, y1 - eBottom w), (x0, y1)])"
  by (simp_all add: createPath_def edge_metrics_def square_corners_def Let_def)

lemma trapezoid_iff:
  fixes H :: scalar
  assumes "a + b = H" and "0 < H" and "0 < r" and "0 \<le> t" and "0 \<le> q" and "t + q \<le> H"
  shows "(0 \<le> H * u \<and> u * q \<le> b * r \<and> 0 \<le> (r - u) * (H - t - q) \<and> u * t \<le> a * r) \<or>
         (H * u \<le> 0 \<and> b * r \<le> u * q \<and> (r - u) * (H - t - q) \<le> 0 \<and> a * r \<le> u * t) \<longleftrightarrow>
    0 \<le> u \<and> u \<le> r \<and> u * q \<le> b * r \<and> u * t \<le> a * r" (is "?A \<or> ?B \<longleftrightarrow> ?C")
proof
  assume "?A \<or> ?B"
  then show ?C
  proof
    assume A: ?A
    with assms(2) have u: "0 \<le> u" by (simp add: zero_le_mult_iff)
    moreover have "u \<le> r"
    proof (rule ccontr)
      assume "\<not> u \<le> r"
      with A assms(6) have "H = t + q" by (auto simp: zero_le_mult_iff)
      then have "u * H = u * q + u * t" by (simp add: algebra_simps)
      also have "\<dots> \<le> (a + b) * r" using A by (simp add: algebra_simps)
      finally have "u * H \<le> H * r" using assms(1) by simp
      with assms(2) \<open>\<not> u \<le> r\<close> show False by (simp add: mult.commute)
    qed
    ultimately show ?thesis using A by simp
  next
    assume B: ?B
    with assms(2) have u: "u \<le> 0" by (simp add: mult_le_0_iff)
    with assms(4,5) have "u * q \<le> 0" "u * t \<le> 0" by (simp_all add: mult_nonpos_nonneg)
    with B have "b * r \<le> 0" "a * r \<le> 0" by auto
    with assms(3) have "b \<le> 0" "a \<le> 0" by (simp_all add: mult_le_0_iff)
    with assms(1,2) show ?thesis by simp
  qed
next
  assume ?C
  with assms(2,6) show "?A \<or> ?B" by (simp add: mult_nonneg_nonneg)
qed

definition fits :: "f_rect \<Rightarrow> scalar edges \<Rightarrow> bool" where
  "fits frame w \<longleftrightarrow> 0 < rw frame \<and> 0 < rh frame \<and> 0 \<le> eLeft w \<and> 0 \<le> eRight w \<and> 0 \<le> eTop w \<and> 0 \<le> eBottom w \<and>
     eLeft w + eRight w \<le> rw frame \<and> eTop w + eBottom w \<le> rh frame"

text \<open>A side covers what is nearer to its edge than to the neighbouring ones, in proportion to the widths.\<close>

lemma side_covers_iff:
  assumes "fits frame w" and "0 < edge_of e w"
  shows "path_covers (side_path d frame w square_corners e) p \<longleftrightarrow>
    0 \<le> edge_dist frame p e \<and> edge_dist frame p e \<le> edge_of e w \<and>
    (\<forall>e'. e' \<in> (if e \<in> {LeftEdge, RightEdge} then {TopEdge, BottomEdge} else {LeftEdge, RightEdge}) \<longrightarrow>
       edge_dist frame p e * edge_of e' w \<le> edge_dist frame p e' * edge_of e w)"
proof (cases e)
  case RightEdge
  have "path_covers (side_path d frame w square_corners RightEdge) p \<longleftrightarrow>
     (0 \<le> rh frame * (rx frame + rw frame - fst p) \<and> (rx frame + rw frame - fst p) * eBottom w \<le> (ry frame + rh frame - snd p) * eRight w \<and> 0 \<le> (eRight w - (rx frame + rw frame - fst p)) * (rh frame - eTop w - eBottom w) \<and> (rx frame + rw frame - fst p) * eTop w \<le> (snd p - ry frame) * eRight w) \<or>
     (rh frame * (rx frame + rw frame - fst p) \<le> 0 \<and> (ry frame + rh frame - snd p) * eRight w \<le> (rx frame + rw frame - fst p) * eBottom w \<and> (eRight w - (rx frame + rw frame - fst p)) * (rh frame - eTop w - eBottom w) \<le> 0 \<and> (snd p - ry frame) * eRight w \<le> (rx frame + rw frame - fst p) * eTop w)"
    by (simp add: path_covers_def side_path_points side_of_def Let_def algebra_simps)
  also have "\<dots> \<longleftrightarrow> 0 \<le> (rx frame + rw frame - fst p) \<and> (rx frame + rw frame - fst p) \<le> eRight w \<and> (rx frame + rw frame - fst p) * eBottom w \<le> (ry frame + rh frame - snd p) * eRight w \<and> (rx frame + rw frame - fst p) * eTop w \<le> (snd p - ry frame) * eRight w"
    by (rule trapezoid_iff) (use assms RightEdge in \<open>auto simp: fits_def edge_of_def\<close>)
  finally show ?thesis using RightEdge by (auto simp: edge_of_def edge_dist_def)
next
  case LeftEdge
  have "path_covers (side_path d frame w square_corners LeftEdge) p \<longleftrightarrow>
     (0 \<le> rh frame * (fst p - rx frame) \<and> (fst p - rx frame) * eBottom w \<le> (ry frame + rh frame - snd p) * eLeft w \<and> 0 \<le> (eLeft w - (fst p - rx frame)) * (rh frame - eTop w - eBottom w) \<and> (fst p - rx frame) * eTop w \<le> (snd p - ry frame) * eLeft w) \<or>
     (rh frame * (fst p - rx frame) \<le> 0 \<and> (ry frame + rh frame - snd p) * eLeft w \<le> (fst p - rx frame) * eBottom w \<and> (eLeft w - (fst p - rx frame)) * (rh frame - eTop w - eBottom w) \<le> 0 \<and> (snd p - ry frame) * eLeft w \<le> (fst p - rx frame) * eTop w)"
    by (simp add: path_covers_def side_path_points side_of_def Let_def algebra_simps disj_commute)
  also have "\<dots> \<longleftrightarrow> 0 \<le> (fst p - rx frame) \<and> (fst p - rx frame) \<le> eLeft w \<and> (fst p - rx frame) * eBottom w \<le> (ry frame + rh frame - snd p) * eLeft w \<and> (fst p - rx frame) * eTop w \<le> (snd p - ry frame) * eLeft w"
    by (rule trapezoid_iff) (use assms LeftEdge in \<open>auto simp: fits_def edge_of_def\<close>)
  finally show ?thesis using LeftEdge by (auto simp: edge_of_def edge_dist_def)
next
  case TopEdge
  have "path_covers (side_path d frame w square_corners TopEdge) p \<longleftrightarrow>
     (0 \<le> rw frame * (snd p - ry frame) \<and> (snd p - ry frame) * eRight w \<le> (rx frame + rw frame - fst p) * eTop w \<and> 0 \<le> (eTop w - (snd p - ry frame)) * (rw frame - eLeft w - eRight w) \<and> (snd p - ry frame) * eLeft w \<le> (fst p - rx frame) * eTop w) \<or>
     (rw frame * (snd p - ry frame) \<le> 0 \<and> (rx frame + rw frame - fst p) * eTop w \<le> (snd p - ry frame) * eRight w \<and> (eTop w - (snd p - ry frame)) * (rw frame - eLeft w - eRight w) \<le> 0 \<and> (fst p - rx frame) * eTop w \<le> (snd p - ry frame) * eLeft w)"
    by (simp add: path_covers_def side_path_points side_of_def Let_def algebra_simps)
  also have "\<dots> \<longleftrightarrow> 0 \<le> (snd p - ry frame) \<and> (snd p - ry frame) \<le> eTop w \<and> (snd p - ry frame) * eRight w \<le> (rx frame + rw frame - fst p) * eTop w \<and> (snd p - ry frame) * eLeft w \<le> (fst p - rx frame) * eTop w"
    by (rule trapezoid_iff) (use assms TopEdge in \<open>auto simp: fits_def edge_of_def\<close>)
  finally show ?thesis using TopEdge by (auto simp: edge_of_def edge_dist_def)
next
  case BottomEdge
  have "path_covers (side_path d frame w square_corners BottomEdge) p \<longleftrightarrow>
     (0 \<le> rw frame * (ry frame + rh frame - snd p) \<and> (ry frame + rh frame - snd p) * eRight w \<le> (rx frame + rw frame - fst p) * eBottom w \<and> 0 \<le> (eBottom w - (ry frame + rh frame - snd p)) * (rw frame - eLeft w - eRight w) \<and> (ry frame + rh frame - snd p) * eLeft w \<le> (fst p - rx frame) * eBottom w) \<or>
     (rw frame * (ry frame + rh frame - snd p) \<le> 0 \<and> (rx frame + rw frame - fst p) * eBottom w \<le> (ry frame + rh frame - snd p) * eRight w \<and> (eBottom w - (ry frame + rh frame - snd p)) * (rw frame - eLeft w - eRight w) \<le> 0 \<and> (fst p - rx frame) * eBottom w \<le> (ry frame + rh frame - snd p) * eLeft w)"
    by (simp add: path_covers_def side_path_points side_of_def Let_def algebra_simps disj_commute)
  also have "\<dots> \<longleftrightarrow> 0 \<le> (ry frame + rh frame - snd p) \<and> (ry frame + rh frame - snd p) \<le> eBottom w \<and> (ry frame + rh frame - snd p) * eRight w \<le> (rx frame + rw frame - fst p) * eBottom w \<and> (ry frame + rh frame - snd p) * eLeft w \<le> (fst p - rx frame) * eBottom w"
    by (rule trapezoid_iff) (use assms BottomEdge in \<open>auto simp: fits_def edge_of_def\<close>)
  finally show ?thesis using BottomEdge by (auto simp: edge_of_def edge_dist_def)
qed

lemma edge_simps [simp]:
  "edge_of RightEdge w = eRight w" "edge_of LeftEdge w = eLeft w" "edge_of TopEdge w = eTop w" "edge_of BottomEdge w = eBottom w"
  by (simp_all add: edge_of_def)

lemma all_edges: "(\<forall>e. P e) \<longleftrightarrow> P RightEdge \<and> P LeftEdge \<and> P TopEdge \<and> P BottomEdge"
  by (metis BorderEdges.exhaust)

lemma in_frame_iff: "in_frame frame p \<longleftrightarrow> (\<forall>e. 0 \<le> edge_dist frame p e)"
  by (auto simp: all_edges in_frame_def edge_dist_def)

lemma nearest_edge:
  assumes "0 < edge_of e0 w"
  obtains e where "0 < edge_of e w" and "\<And>e'. 0 < edge_of e' w \<Longrightarrow> edge_dist frame p e / edge_of e w \<le> edge_dist frame p e' / edge_of e' w"
proof -
  let ?S = "{e. 0 < edge_of e w}"
  have "UNIV = {RightEdge, LeftEdge, TopEdge, BottomEdge}" by (auto intro: BorderEdges.exhaust)
  then have "finite ?S" by (metis finite.emptyI finite.insertI finite_subset subset_UNIV)
  let ?e = "arg_min_on (\<lambda>e. edge_dist frame p e / edge_of e w) ?S"
  have S: "?S \<noteq> {}" using assms by auto
  have "?e \<in> ?S" by (rule arg_min_if_finite(1) [OF \<open>finite ?S\<close> S])
  moreover have "edge_dist frame p ?e / edge_of ?e w \<le> edge_dist frame p e' / edge_of e' w" if "0 < edge_of e' w" for e'
    using arg_min_if_finite(2) [OF \<open>finite ?S\<close> S, of "\<lambda>e. edge_dist frame p e / edge_of e w"] that by (force simp: not_less)
  ultimately show ?thesis by (intro that [of ?e]) auto
qed

text \<open>C40: The sides of a border with square corners cover the frame less its inside, and nothing else.\<close>

theorem sides_tile_border:
  assumes "fits frame w"
  shows "(\<exists>e. 0 < edge_of e w \<and> path_covers (side_path d frame w square_corners e) p) \<longleftrightarrow> in_frame frame p \<and> \<not> inside_border frame w p"
proof
  assume "\<exists>e. 0 < edge_of e w \<and> path_covers (side_path d frame w square_corners e) p"
  then obtain e where e: "0 < edge_of e w" "path_covers (side_path d frame w square_corners e) p" by blast
  note c = e(2) [unfolded side_covers_iff [OF assms e(1)]]
  have "0 \<le> edge_dist frame p e'" for e'
  proof -
    have near: "0 \<le> edge_dist frame p e''"
      if "e'' \<in> (if e \<in> {LeftEdge, RightEdge} then {TopEdge, BottomEdge} else {LeftEdge, RightEdge})" for e''
    proof -
      have "0 \<le> edge_dist frame p e * edge_of e'' w"
        using c assms by (cases e'') (auto simp: fits_def mult_nonneg_nonneg)
      also have "\<dots> \<le> edge_dist frame p e'' * edge_of e w" using c that by blast
      finally show ?thesis using e(1) by (simp add: zero_le_mult_iff)
    qed
    show ?thesis
    proof (cases "e' \<in> (if e \<in> {LeftEdge, RightEdge} then {TopEdge, BottomEdge} else {LeftEdge, RightEdge})")
      case False
      with c assms show ?thesis by (cases e; cases e') (auto simp: fits_def edge_dist_def)
    qed (rule near)
  qed
  moreover have "\<not> inside_border frame w p" using c e(1) by (auto simp: inside_border_def not_less intro!: exI [of _ e])
  ultimately show "in_frame frame p \<and> \<not> inside_border frame w p" by (simp add: in_frame_iff)
next
  assume a: "in_frame frame p \<and> \<not> inside_border frame w p"
  then obtain e0 where e0: "0 < edge_of e0 w" "edge_dist frame p e0 \<le> edge_of e0 w" by (auto simp: inside_border_def not_less)
  obtain e where e: "0 < edge_of e w" "\<And>e'. 0 < edge_of e' w \<Longrightarrow> edge_dist frame p e / edge_of e w \<le> edge_dist frame p e' / edge_of e' w"
    using nearest_edge [OF e0(1)] by blast
  have "edge_dist frame p e0 / edge_of e0 w \<le> 1" using e0 by simp
  with e(2) [OF e0(1)] have "edge_dist frame p e / edge_of e w \<le> 1" by (rule order_trans)
  moreover have "edge_dist frame p e * edge_of e' w \<le> edge_dist frame p e' * edge_of e w" for e'
  proof (cases "0 < edge_of e' w")
    case True
    with e(2) [OF True] e(1) show ?thesis by (simp add: divide_simps)
  next
    case False
    with assms have "edge_of e' w = 0" by (cases e') (auto simp: fits_def)
    with a e(1) show ?thesis by (simp add: in_frame_iff)
  qed
  ultimately show "\<exists>e. 0 < edge_of e w \<and> path_covers (side_path d frame w square_corners e) p"
    using a e(1) by (auto simp: side_covers_iff [OF assms] in_frame_iff divide_le_eq intro!: exI [of _ e])
qed

text \<open>The corners of a frame: the two sides that meet there, clockwise, the circle of its radius, and the angle
  at which its quarter begins.\<close>

datatype corner = TopLeft | TopRight | BottomRight | BottomLeft

primrec sides_at :: "corner \<Rightarrow> BorderEdges \<times> BorderEdges" where
  "sides_at TopLeft = (LeftEdge, TopEdge)"
| "sides_at TopRight = (TopEdge, RightEdge)"
| "sides_at BottomRight = (RightEdge, BottomEdge)"
| "sides_at BottomLeft = (BottomEdge, LeftEdge)"

primrec quarter_at :: "corner \<Rightarrow> scalar" where
  "quarter_at TopLeft = 180"
| "quarter_at TopRight = 270"
| "quarter_at BottomRight = 0"
| "quarter_at BottomLeft = 90"

primrec corner_of :: "corner \<Rightarrow> corners \<Rightarrow> scalar" where
  "corner_of TopLeft r = topLeft r"
| "corner_of TopRight r = topRight r"
| "corner_of BottomRight r = bottomRight r"
| "corner_of BottomLeft r = bottomLeft r"

definition corner_circle :: "f_rect \<Rightarrow> corners \<Rightarrow> corner \<Rightarrow> sk_rect" where
  "corner_circle frame r c =
     (let m = 2 * corner_of c r;
          x = (if c \<in> {TopLeft, BottomLeft} then rx frame else rx frame + rw frame - m);
          y = (if c \<in> {TopLeft, TopRight} then ry frame else ry frame + rh frame - m)
      in \<lparr>sLeft = x, sTop = y, sRight = x + m, sBottom = y + m\<rparr>)"

primrec arc_covers :: "sk_rect \<Rightarrow> scalar \<Rightarrow> path_op \<Rightarrow> bool" where
  "arc_covers rect x (AddArc r a s) \<longleftrightarrow> r = rect \<and> ((min a (a + s) \<le> x \<and> x \<le> max a (a + s)) \<or> (min a (a + s) \<le> x - 360 \<and> x - 360 \<le> max a (a + s)))"
| "arc_covers rect x (MoveTo a b) \<longleftrightarrow> False"
| "arc_covers rect x (LineTo a b) \<longleftrightarrow> False"

definition arc_at :: "sk_rect \<Rightarrow> scalar \<Rightarrow> path_op list \<Rightarrow> bool" where
  "arc_at rect x path \<longleftrightarrow> list_ex (arc_covers rect x) path"

definition arcs :: "path_op list \<Rightarrow> path_op list" where
  "arcs path = [op \<leftarrow> path. case op of AddArc _ _ _ \<Rightarrow> True | _ \<Rightarrow> False]"

lemma side_arcs:
  assumes "draw_laws d"
  shows "arcs (side_path d frame w r TopEdge) = (if topLeft r \<noteq> 0 then [AddArc (corner_circle frame r TopLeft) 225 45] else []) @
      (if topRight r \<noteq> 0 then [AddArc (corner_circle frame r TopRight) 270 45] else [])"
    and "arcs (side_path d frame w r RightEdge) = (if topRight r \<noteq> 0 then [AddArc (corner_circle frame r TopRight) (- 45) 45] else []) @
      (if bottomRight r \<noteq> 0 then [AddArc (corner_circle frame r BottomRight) 0 45] else [])"
    and "arcs (side_path d frame w r BottomEdge) = (if bottomLeft r \<noteq> 0 then [AddArc (corner_circle frame r BottomLeft) 135 (- 45)] else []) @
      (if bottomRight r \<noteq> 0 then [AddArc (corner_circle frame r BottomRight) 90 (- 45)] else [])"
    and "arcs (side_path d frame w r LeftEdge) = (if topLeft r \<noteq> 0 then [AddArc (corner_circle frame r TopLeft) 225 (- 45)] else []) @
      (if bottomLeft r \<noteq> 0 then [AddArc (corner_circle frame r BottomLeft) 180 (- 45)] else [])"
  by (simp_all add: arcs_def createPath_def edge_metrics_def corner_circle_def draw_laws_simps [OF assms] Let_def algebra_simps)

lemma arc_at_arcs: "arc_at rect x path \<longleftrightarrow> list_ex (arc_covers rect x) (arcs path)"
  by (induction path) (auto simp: arc_at_def arcs_def split: path_op.splits)

text \<open>At a rounded corner the two sides draw one half each of the same quarter of a circle, which touches
  the edges of the frame, and they meet in its middle.\<close>

theorem rounded_corners_shared:
  assumes "draw_laws d" and "corner_of c r \<noteq> 0" and "quarter_at c \<le> x" and "x \<le> quarter_at c + 90"
  shows "(arc_at (corner_circle frame r c) x (side_path d frame w r (fst (sides_at c))) \<longleftrightarrow> x \<le> quarter_at c + 45) \<and>
    (arc_at (corner_circle frame r c) x (side_path d frame w r (snd (sides_at c))) \<longleftrightarrow> quarter_at c + 45 \<le> x)"
proof -
  note arcs = arc_at_arcs side_arcs [OF assms(1)]
  show ?thesis
  proof (cases c)
    case TopLeft
    with assms(2-) show ?thesis by (auto simp: arcs)
  next
    case TopRight
    with assms(2-) show ?thesis by (auto simp: arcs)
  next
    case BottomRight
    with assms(2-) show ?thesis by (auto simp: arcs)
  next
    case BottomLeft
    with assms(2-) show ?thesis by (auto simp: arcs)
  qed
qed

section \<open>What is painted\<close>

text \<open>The color of a side is black if it is not specified.\<close>

definition side_color :: "('c, 'm, 'i) draw_api \<Rightarrow> 'c shared_color \<Rightarrow> 'c" where
  "side_color d c = (case c of Some x \<Rightarrow> x | None \<Rightarrow> blackColor d)"

text \<open>A stroked rectangle draws all sides.\<close>

definition side_drawn :: "('c, 'm, 'i) draw_api \<Rightarrow> f_rect \<Rightarrow> 'c border_metrics \<Rightarrow> BorderEdges \<Rightarrow> ('m, 'i) canvas_op list \<Rightarrow> bool" where
  "side_drawn d frame b e ops \<longleftrightarrow>
     (\<exists>op \<in> set ops. case op of
        DrawRRect r c p \<Rightarrow> paint_style p = kStroke \<and> paint_color p = RSkColorFromSharedColor d (edge_of e (borderColors b)) SK_ColorBLACK
      | DrawPath path p \<Rightarrow> path = side_path d frame (borderWidths b) (borderRadii b) e \<and>
          paint_color p = RSkColorFromSharedColor d (edge_of e (borderColors b)) SK_ColorBLACK
      | _ \<Rightarrow> False)"

lemma side_path_start:
  "\<exists>l. side_path d frame w r e = MoveTo (if e = RightEdge then rx frame + rw frame else rx frame) (if e = BottomEdge then ry frame + rh frame else ry frame) # l"
  by (cases e) (simp_all add: createPath_def edge_metrics_def Let_def)

lemma side_path_inj:
  assumes "0 < rw frame" and "0 < rh frame"
  shows "side_path d frame w r e = side_path d frame w r e' \<longleftrightarrow> e = e'"
proof -
  have tl: "side_path d frame w r LeftEdge \<noteq> side_path d frame w r TopEdge"
    using assms by (auto simp: createPath_def edge_metrics_def Let_def)
  obtain l l' where "side_path d frame w r e = MoveTo (if e = RightEdge then rx frame + rw frame else rx frame) (if e = BottomEdge then ry frame + rh frame else ry frame) # l"
    "side_path d frame w r e' = MoveTo (if e' = RightEdge then rx frame + rw frame else rx frame) (if e' = BottomEdge then ry frame + rh frame else ry frame) # l'"
    using side_path_start by metis
  with assms tl show ?thesis by (cases e; cases e') auto
qed

lemma drawPath_side:
  "createAndDrawDiscretePath d e frame b imf =
     [DrawPath (side_path d frame (borderWidths b) (borderRadii b) e)
       (new_paint\<lparr>paint_color := RSkColorFromSharedColor d (edge_of e (borderColors b)) SK_ColorBLACK, imageFilter := imf\<rparr>)]"
  by (simp add: createAndDrawDiscretePath_def drawPath_def)

lemma style_simps [simp]:
  "paint_style (setStyle w s b p) = s" "strokeWidth (setStyle w s b p) = of_int w" "paint_color (setStyle w s b p) = paint_color p"
  by (auto simp: setStyle_def setPathEffect_def Let_def split: BorderStyle.splits)

lemma trunc_zero [simp]: "trunc 0 = 0"
  by (simp add: trunc_def)

lemma uniform_edge: "uniform e \<Longrightarrow> edge_of s e = eLeft e"
  unfolding uniform_def by (cases s) auto

lemma some_edge: "(\<exists>e. P e) \<longleftrightarrow> P RightEdge \<or> P LeftEdge \<or> P TopEdge \<or> P BottomEdge"
  using all_edges [of "\<lambda>e. \<not> P e"] by blast

lemma visible_edge_at: "hasVisibleBorder d c w \<longleftrightarrow> (\<exists>e. isBorderEdgeVisible d (edge_of e c) (edge_of e w))"
  by (auto simp: hasVisibleBorder_def some_edge)

lemma set_edge_order [simp]: "set edge_order = UNIV"
  by (auto simp: edge_order_def intro: BorderEdges.exhaust)

text \<open>A side of the border is drawn exactly when it can be seen and its color, black if none is specified,
  is not that of the background.\<close>

theorem visible_sides_drawn:
  assumes "draw_laws d" and "0 < rw frame" and "0 < rh frame"
    and "unspecified d \<noteq> blackColor d" and "\<forall>e c. edge_of e (borderColors b) = Some c \<longrightarrow> c \<noteq> unspecified d"
  shows "side_drawn d frame b e (drawBorder d frame b bg) \<longleftrightarrow>
    isBorderEdgeVisible d (edge_of e (borderColors b)) (edge_of e (borderWidths b)) \<and>
    (case bg of None \<Rightarrow> True | Some c \<Rightarrow> side_color d (edge_of e (borderColors b)) \<noteq> c)"
proof -
  let ?c = "borderColors b" and ?w = "borderWidths b"
  note laws = draw_laws_simps [OF assms(1)]
  have differs: "differs_from_background d bg (edge_of e ?c) \<longleftrightarrow> (case bg of None \<Rightarrow> True | Some c \<Rightarrow> side_color d (edge_of e ?c) \<noteq> c)" for e
    using assms(4,5) by (auto simp: differs_from_background_def color_value_def side_color_def split: option.splits)
  show ?thesis
  proof (cases "hasVisibleBorder d ?c ?w \<and> uniform ?w \<and> uniform ?c")
    case True
    then have "isBorderEdgeVisible d (edge_of e ?c) (edge_of e ?w)"
      using visible_edge_at [of d ?c ?w] uniform_edge [of ?c] uniform_edge [of ?w] by auto
    moreover have left: "edge_of e ?c = eLeft ?c" using True uniform_edge by blast
    moreover have "detectFrameBorderType d ?c ?w = MonoChromeStrokedRect" using True by (simp add: detectFrameBorderType_def laws)
    ultimately have "side_drawn d frame b e (drawBorder d frame b bg) \<longleftrightarrow>
      differs_from_background d bg (edge_of e ?c) \<and> isBorderEdgeVisible d (edge_of e ?c) (edge_of e ?w)"
      by (simp add: drawBorder_def drawRect_def side_drawn_def new_paint_def Let_def)
    with differs show ?thesis by auto
  next
    case False
    have "side_drawn d frame b e (drawBorder d frame b bg) \<longleftrightarrow>
      differs_from_background d bg (edge_of e ?c) \<and> isBorderEdgeVisible d (edge_of e ?c) (edge_of e ?w)"
    proof (cases "hasVisibleBorder d ?c ?w")
      case True
      with False have "detectFrameBorderType d ?c ?w \<in> {PolyChromeStrokedRect, DiscretePath}" by (simp add: detectFrameBorderType_def laws)
      then have "set (drawBorder d frame b bg) = {DrawPath (side_path d frame ?w (borderRadii b) e')
          (new_paint\<lparr>paint_color := RSkColorFromSharedColor d (edge_of e' ?c) SK_ColorBLACK, imageFilter := None\<rparr>) | e'.
          differs_from_background d bg (edge_of e' ?c) \<and> isBorderEdgeVisible d (edge_of e' ?c) (edge_of e' ?w)}"
        by (auto simp: drawBorder_def drawPath_side)
      then show ?thesis by (auto simp: side_drawn_def side_path_inj [OF assms(2,3)] new_paint_def)
    next
      case invisible: False
      then show ?thesis using visible_edge_at [of d ?c ?w]
        by (auto simp: drawBorder_def detectFrameBorderType_def side_drawn_def Let_def)
    qed
    with differs show ?thesis by auto
  qed
qed

text \<open>How far an operation paints: half of the stroke lies outside of the rectangle.\<close>

definition painted_bounds :: "('m, 'i) canvas_op \<Rightarrow> sk_rect option" where
  "painted_bounds op =
     (case op of
        DrawRRect r c p \<Rightarrow>
          let h = (if paint_style p = kFill then 0 else strokeWidth p / 2)
          in Some \<lparr>sLeft = sLeft r - h, sTop = sTop r - h, sRight = sRight r + h, sBottom = sBottom r + h\<rparr>
      | _ \<Rightarrow> None)"

definition frame_rect :: "f_rect \<Rightarrow> sk_rect" where
  "frame_rect f = \<lparr>sLeft = rx f, sTop = ry f, sRight = rx f + rw f, sBottom = ry f + rh f\<rparr>"

text \<open>A background, and a border whose width is a whole number, are painted exactly up to the frame.\<close>

theorem painting_fills_frame:
  assumes "draw_laws d" and "eLeft (borderWidths b) = of_int n" and "0 \<le> n"
    and "op \<in> set (drawRect d ty frame b color mf)" and "ty \<in> {FilledRect, MonoChromeStrokedRect, PolyChromeStrokedRect}"
  shows "painted_bounds op = Some (frame_rect frame)"
  using assms(2-5) by (auto simp: drawRect_def draw_laws_simps [OF assms(1)] painted_bounds_def frame_rect_def Let_def)

text \<open>A uniform border whose width is not a whole number ends inside the frame: the stroke is cut to a whole
  number, but moved inside by half of its full width.\<close>

theorem fractional_border_leaves_gap:
  assumes "draw_laws d" and "detectFrameBorderType d (borderColors b) (borderWidths b) = MonoChromeStrokedRect"
    and "eLeft (borderWidths b) = w" and "of_int n < w" and "w < of_int n + 1" and "0 \<le> n"
    and "op \<in> set (drawBorder d frame b bg)"
  shows "\<exists>r. painted_bounds op = Some r \<and> sLeft (frame_rect frame) < sLeft r \<and> sTop (frame_rect frame) < sTop r \<and>
    sRight r < sRight (frame_rect frame) \<and> sBottom r < sBottom (frame_rect frame)"
proof -
  have w: "0 < w" using assms(4,6) by (meson less_le_trans not_less of_int_0_le_iff)
  have "\<lfloor>w\<rfloor> = n" using assms(4,5) by (simp add: floor_eq_iff)
  with w have "trunc w = n" by (simp add: trunc_def)
  with assms(2-7) w show ?thesis
    by (auto simp: drawBorder_def drawRect_def draw_laws_simps [OF assms(1)] painted_bounds_def frame_rect_def Let_def split: if_splits)
qed

section \<open>The state of the canvas\<close>

text \<open>The clip in force and the saved ones; restoring more than was saved is \<open>None\<close>.\<close>

type_synonym canvas = "(sk_rect \<times> corners) list \<times> (sk_rect \<times> corners) list list"

definition canvas_step :: "canvas \<Rightarrow> ('m, 'i) canvas_op \<Rightarrow> canvas option" where
  "canvas_step c op =
     (case op of
        SaveLayerAlpha b a \<Rightarrow> Some (fst c, fst c # snd c)
      | SaveLayer b \<Rightarrow> Some (fst c, fst c # snd c)
      | ClipRRectDifference r k \<Rightarrow> Some ((r, k) # fst c, snd c)
      | Restore \<Rightarrow> (case snd c of [] \<Rightarrow> None | x # xs \<Rightarrow> Some (x, xs))
      | _ \<Rightarrow> Some c)"

definition plain_op :: "('m, 'i) canvas_op \<Rightarrow> bool" where
  "plain_op op = (case op of DrawRRect _ _ _ \<Rightarrow> True | DrawPath _ _ \<Rightarrow> True | DrawLine _ _ _ \<Rightarrow> True | _ \<Rightarrow> False)"

lemma plain_ops_keep: "list_all plain_op ops \<Longrightarrow> run_opt canvas_step c ops = Some c"
  by (induction ops) (auto simp: plain_op_def canvas_step_def split: canvas_op.splits)

lemma plain_drawing:
  "list_all plain_op (drawRect d ty frame b color mf)" "list_all plain_op (createAndDrawDiscretePath d e frame b imf)"
  "list_all plain_op (drawDiscretePath d frame b imf)" "list_all plain_op (drawBackground d frame b bg)"
  "list_all plain_op (drawBorder d frame b bg)"
proof -
  show r: "list_all plain_op (drawRect d ty frame b color mf)" for ty b color mf by (simp add: drawRect_def plain_op_def Let_def)
  show p: "list_all plain_op (createAndDrawDiscretePath d e frame b imf)" for e b imf by (simp add: drawPath_side plain_op_def)
  show "list_all plain_op (drawDiscretePath d frame b imf)" by (simp add: drawDiscretePath_def edge_order_def p)
  show "list_all plain_op (drawBackground d frame b bg)" by (simp add: drawBackground_def r)
  show "list_all plain_op (drawBorder d frame b bg)" by (simp add: drawBorder_def edge_order_def r p Let_def)
qed

lemma drawShadow_keeps_canvas: "run_opt canvas_step c (fst (drawShadow sk d frame b bg col off so fo imf mf)) = Some c"
  by (auto simp: drawShadow_def Let_def run_opt_append plain_ops_keep plain_drawing canvas_step_def)

text \<open>Whatever a view draws, the canvas is left as it was: nothing that is drawn later is clipped or
  made transparent by it.\<close>

theorem view_leaves_canvas:
  "run_opt canvas_step c (view_OnPaint sk d frame b bg l) = Some c"
  by (simp add: view_OnPaint_def run_opt_append drawShadow_keeps_canvas plain_ops_keep plain_drawing)

section \<open>Colors and styles\<close>

lemma byte_roundtrip:
  assumes "n \<le> 255"
  shows "trunc (of_nat n * MAX_8BIT / 255) = int n"
proof -
  have e: "of_nat n * MAX_8BIT / 255 = of_nat n + of_nat n * (99 / 25500)" by (simp add: MAX_8BIT_def)
  have "of_nat n * (99 / 25500 :: scalar) < 1" using assms by (simp add: mult_imp_less_div_pos)
  then have "\<lfloor>of_nat n + of_nat n * (99 / 25500 :: scalar)\<rfloor> = int n" by (simp add: floor_eq_iff)
  then show ?thesis unfolding e by (simp add: trunc_def)
qed

text \<open>A color given in bytes is drawn with the same bytes.\<close>

theorem color_bytes_roundtrip:
  assumes "a \<le> 255" and "r \<le> 255" and "g \<le> 255" and "b \<le> 255"
    and "colorComponentsFromColor d c = \<lparr>red = of_nat r / 255, green = of_nat g / 255, blue = of_nat b / 255, alpha = of_nat a / 255\<rparr>"
  shows "RSkColorFromSharedColor d (Some c) other = SkARGB (int a) (int r) (int g) (int b)"
  using assms by (simp add: RSkColorFromSharedColor_def byte_roundtrip)

lemma force_ignores_old: "update_style d f True x new l = update_style d f True y new l"
  by (simp add: update_style_def)

lemma update_is_forced: "update_style d f False old new (update_style d f True x old l) = update_style d f True y new l"
  by (simp add: update_style_def needsShadowPainting_def Let_def)

text \<open>The properties of a view and the style of its layer, over the updates React sends; the first one is
  forced.\<close>

definition style_updates :: "('c, 'm, 'i) draw_api \<Rightarrow> ('m, 'i) filter_api \<Rightarrow> ('m, 'i) layer_style \<Rightarrow> 'c view_style_props \<Rightarrow> 'c view_style_props list \<Rightarrow> 'c view_style_props \<times> ('m, 'i) layer_style" where
  "style_updates d f l p ps = foldl (\<lambda>(old, l) new. (new, update_style d f False old new l)) (p, update_style d f True p p l) ps"

text \<open>Updating only what changed gives the style that a forced update with the last properties gives.\<close>

theorem incremental_style_is_full:
  "snd (style_updates d f l p ps) = update_style d f True p (last (p # ps)) l"
proof -
  have "foldl (\<lambda>(old, l) new. (new, update_style d f False old new l)) (p, update_style d f True x p l) ps =
      (last (p # ps), update_style d f True x (last (p # ps)) l)" for p x
  proof (induction ps arbitrary: p)
    case (Cons q ps)
    then show ?case by (simp add: update_is_forced [where y = x])
  qed simp
  then show ?thesis by (simp add: style_updates_def)
qed

text \<open>An opaque view whose shadow lies to the left of it, above it, or moved along one axis only (as by
  default), draws none: \<open>isEmpty\<close> is true of every size that has a component that is not positive.\<close>

theorem shadow_along_axis_hidden:
  assumes "draw_laws d" and "isOpaque (layerOpacity l)" and "shadowOffset l = (x, y)" and "x \<le> 0 \<or> y \<le> 0"
  shows "\<not> needsShadowPainting d l"
  using assms by (simp add: needsShadowPainting_def draw_laws_simps)

section \<open>Examples\<close>

definition sample_frame :: f_rect where
  "sample_frame = \<lparr>rx = 10, ry = 20, rw = 100, rh = 50\<rparr>"

definition sample_border :: "scalar \<Rightarrow> nat border_metrics" where
  "sample_border w = \<lparr>borderColors = \<lparr>eLeft = None, eTop = None, eRight = None, eBottom = None\<rparr>,
     borderWidths = \<lparr>eLeft = w, eTop = w, eRight = w, eBottom = w\<rparr>, borderRadii = square_corners,
     borderStyles = \<lparr>eLeft = Solid, eTop = Solid, eRight = Solid, eBottom = Solid\<rparr>\<rparr>"

lemma sample_mono: "0 < w \<Longrightarrow> detectFrameBorderType draw_ref (borderColors (sample_border w)) (borderWidths (sample_border w)) = MonoChromeStrokedRect"
  by (simp add: detectFrameBorderType_def draw_laws_simps [OF draw_ref_laws] sample_border_def uniform_def hasVisibleBorder_def
      isBorderEdgeVisible_def isBorderColorVisible_def)

lemma sides_tile_border_witness:
  "\<exists>e. 0 < edge_of e (borderWidths (sample_border 4)) \<and>
     path_covers (createPath draw_ref (edge_metrics e sample_frame (borderWidths (sample_border 4)) square_corners) e) (11, 40)"
  using sides_tile_border [of sample_frame "borderWidths (sample_border 4)" draw_ref "(11, 40)"]
  by (simp add: fits_def sample_frame_def sample_border_def in_frame_def inside_border_def all_edges edge_dist_def)

lemma rounded_corners_shared_witness:
  "\<not> arc_at (corner_circle sample_frame (square_corners\<lparr>topLeft := 8\<rparr>) TopLeft) 200
     (createPath draw_ref (edge_metrics TopEdge sample_frame (borderWidths (sample_border 4)) (square_corners\<lparr>topLeft := 8\<rparr>)) TopEdge)"
  using rounded_corners_shared [OF draw_ref_laws, of TopLeft "square_corners\<lparr>topLeft := 8\<rparr>" 200 sample_frame "borderWidths (sample_border 4)"]
  by simp

lemma visible_sides_drawn_witness:
  "side_drawn draw_ref sample_frame (sample_border 4) TopEdge (drawBorder draw_ref sample_frame (sample_border 4) (Some 16777215))"
proof -
  have "side_drawn draw_ref sample_frame (sample_border 4) TopEdge (drawBorder draw_ref sample_frame (sample_border 4) (Some 16777215)) \<longleftrightarrow>
    isBorderEdgeVisible draw_ref (edge_of TopEdge (borderColors (sample_border 4))) (edge_of TopEdge (borderWidths (sample_border 4))) \<and>
    (case Some 16777215 of None \<Rightarrow> True | Some c \<Rightarrow> side_color draw_ref (edge_of TopEdge (borderColors (sample_border 4))) \<noteq> c)"
    by (rule visible_sides_drawn [OF draw_ref_laws]) (simp_all add: sample_frame_def sample_border_def draw_ref_def edge_of_def split: BorderEdges.splits)
  then show ?thesis by (simp add: sample_border_def isBorderEdgeVisible_def isBorderColorVisible_def side_color_def draw_ref_def)
qed

lemma painting_fills_frame_witness:
  "\<exists>op. drawBackground draw_ref sample_frame (sample_border 4) (Some 255) = [op] \<and> painted_bounds op = Some (frame_rect sample_frame)"
proof -
  let ?col = "RSkColorFromSharedColor draw_ref (Some 255) SK_ColorTRANSPARENT"
  obtain op where op: "drawRect draw_ref FilledRect sample_frame (sample_border 4) ?col None = [op]" by (simp add: drawRect_def Let_def)
  have "painted_bounds op = Some (frame_rect sample_frame)"
    by (rule painting_fills_frame [OF draw_ref_laws, of "sample_border 4" 4 op FilledRect sample_frame ?col None])
      (simp_all only: op, simp_all add: sample_border_def)
  with op show ?thesis by (simp add: drawBackground_def hasVisibleBackGround_def draw_ref_def)
qed

lemma fractional_border_leaves_gap_witness:
  "\<exists>op r. drawBorder draw_ref sample_frame (sample_border (3 / 2)) None = [op] \<and> painted_bounds op = Some r \<and> 10 < sLeft r"
proof -
  have "differs_from_background draw_ref None (eLeft (borderColors (sample_border (3 / 2))))"
    by (simp add: differs_from_background_def sample_border_def color_value_def draw_ref_def)
  then obtain op where op: "drawBorder draw_ref sample_frame (sample_border (3 / 2)) None = [op]"
    using sample_mono [of "3 / 2"] by (simp add: drawBorder_def drawRect_def Let_def)
  have "\<exists>r. painted_bounds op = Some r \<and> sLeft (frame_rect sample_frame) < sLeft r \<and> sTop (frame_rect sample_frame) < sTop r \<and>
    sRight r < sRight (frame_rect sample_frame) \<and> sBottom r < sBottom (frame_rect sample_frame)"
    by (rule fractional_border_leaves_gap [OF draw_ref_laws sample_mono [of "3 / 2"], where n = 1 and w = "3 / 2" and bg = None])
      (simp_all add: op, simp add: sample_border_def)
  with op show ?thesis by (auto simp: frame_rect_def sample_frame_def)
qed

lemma color_bytes_roundtrip_witness:
  "RSkColorFromSharedColor draw_ref (Some 305419896) SK_ColorBLACK = SkARGB 120 18 52 86"
  using color_bytes_roundtrip [of 120 18 52 86 draw_ref 305419896 SK_ColorBLACK] by (simp add: draw_ref_def)

definition sample_layer :: "(nat, nat) layer_style" where
  "sample_layer = \<lparr>layerOpacity = MAX_8BIT, shadowOpacity = MAX_8BIT, shadowRadius = 3, shadowOffset = (0, - 3), shadowColor = SK_ColorBLACK,
     shadowImageFilter = None, shadowMaskFilter = None, isShadowVisible = False, backgroundColor = SK_ColorTRANSPARENT,
     transformMatrix = [1, 0, 0, 0, 1, 0, 0, 0, 1], masksToBounds = False\<rparr>"

lemma shadow_along_axis_hidden_witness: "\<not> needsShadowPainting draw_ref sample_layer"
  by (rule shadow_along_axis_hidden [OF draw_ref_laws, where x = 0 and y = "- 3"]) (simp_all add: sample_layer_def isOpaque_def)

end
