(* ===== verification/Indicators.thy ===== *)
theory Indicators imports ViewDrawing "HOL-Library.Monad_Syntax" begin

text \<open>
  Activity indicators: the request of animation frames from JavaScript (\<open>RnsJsRaf.cpp\<close>), the manager that
  turns all indicators together (\<open>RSkComponentActivityIndicatorManager.cpp\<close>) and the component
  (\<open>RSkComponentActivityIndicator.cpp\<close>).

  The frames that JavaScript still has to call are the list \<open>pending\<close>; the engine gives each request a
  number that is not 0. The manager keeps weak references: a component that is destroyed is gone from
  \<open>ind_comps\<close> before its destructor removes it from the list.

  The components live on the main loop, the callback of a frame on the thread of JavaScript, and nothing is
  locked. The callback is therefore five steps, between which the main loop can do something: taking the
  frame, going through the indicators, testing \<open>isActive_\<close>, asking for the next frame, storing its number.
\<close>

section \<open>State\<close>

text \<open>\<open>rafId_\<close> is undefined at first; \<open>previousValue\<close> is static. \<open>js_pc\<close> says where the thread of JavaScript
  is: not in the callback, called with a time, at \<open>RnsRequestAnimationFrame\<close>, behind its test, or with its
  result.\<close>

datatype js_pc = JsIdle | JsCalled scalar | JsAsking | JsTested bool | JsAnswered nat

record raf =
  isActive :: bool
  rafId :: "nat option"
  pending :: "nat list"
  next_raf :: nat
  previousValue :: "scalar option"
  js_pc :: js_pc

record indicator =
  ind_tag :: int
  ind_layer :: bool
  initialPropertiesParsed :: bool
  animating :: bool
  rotation :: int
  layout_invalid :: nat

record indicators =
  ind_comps :: "nat \<Rightarrow> indicator option"
  actIndComponentList :: "nat list"
  animRequest :: raf
  flushes :: nat

definition new_raf :: raf where
  "new_raf = \<lparr>isActive = False, rafId = None, pending = [], next_raf = 1, previousValue = None, js_pc = JsIdle\<rparr>"

definition new_indicators :: indicators where
  "new_indicators = \<lparr>ind_comps = (\<lambda>_. None), actIndComponentList = [], animRequest = new_raf, flushes = 0\<rparr>"

section \<open>Animation frames\<close>

text \<open>\<open>1 / RNS_ANIMATION_FRAME_RATE\<close> is a division of integers.\<close>

definition RNS_ANIMATION_FRAME_RATE :: int where "RNS_ANIMATION_FRAME_RATE = 60"

definition RNS_ANIMATION_FRAME_RATE_THROTTLE :: int where
  "RNS_ANIMATION_FRAME_RATE_THROTTLE = 1 div RNS_ANIMATION_FRAME_RATE"

text \<open>\<open>ask_frame\<close> is \<open>RnsRequestAnimationFrame\<close> behind its test of \<open>isActive_\<close>.\<close>

definition ask_frame :: "bool \<Rightarrow> raf \<Rightarrow> nat \<times> raf" where
  "ask_frame active r =
     (if \<not> active then (0, r)
      else (next_raf r, r\<lparr>pending := pending r @ [next_raf r], next_raf := Suc (next_raf r)\<rparr>))"

definition RnsRequestAnimationFrame :: "raf \<Rightarrow> nat \<times> raf" where
  "RnsRequestAnimationFrame r = ask_frame (isActive r) r"

definition raf_request :: "raf \<Rightarrow> raf" where
  "raf_request r = (let (i, r') = RnsRequestAnimationFrame r in r'\<lparr>rafId := Some i\<rparr>)"

text \<open>\<open>asNumber\<close> of the undefined value fails.\<close>

definition RnsCancelAnimationFrame :: "raf \<Rightarrow> raf option" where
  "RnsCancelAnimationFrame r =
     (case rafId r of
        None \<Rightarrow> None
      | Some i \<Rightarrow> Some (if i \<noteq> 0 then r\<lparr>pending := filter (\<lambda>j. j \<noteq> i) (pending r)\<rparr> else r))"

definition raf_start :: "raf \<Rightarrow> raf" where
  "raf_start r = (if \<not> isActive r then raf_request (r\<lparr>isActive := True\<rparr>) else r)"

definition raf_stop :: "raf \<Rightarrow> raf option" where
  "raf_stop r = (if isActive r then RnsCancelAnimationFrame (r\<lparr>isActive := False\<rparr>) else Some r)"

section \<open>The manager\<close>

definition addComponent :: "nat \<Rightarrow> indicators \<Rightarrow> indicators" where
  "addComponent c s =
     (case ind_comps s c of
        None \<Rightarrow> s
      | Some x \<Rightarrow>
          if ind_layer x
          then let l = actIndComponentList s @ [c]
               in s\<lparr>actIndComponentList := l, animRequest := if length l = 1 then raf_start (animRequest s) else animRequest s\<rparr>
          else s)"

text \<open>\<open>removeComponent\<close> erases the first component that is gone or has the tag.\<close>

definition removeComponent :: "int \<Rightarrow> indicators \<Rightarrow> indicators option" where
  "removeComponent tag s =
     (if actIndComponentList s = [] then Some s
      else let l = (case find_index (\<lambda>c. case ind_comps s c of None \<Rightarrow> True | Some x \<Rightarrow> ind_tag x = tag) (actIndComponentList s) of
                      Some i \<Rightarrow> erase_at i (actIndComponentList s)
                    | None \<Rightarrow> actIndComponentList s)
           in if l = [] then map_option (\<lambda>r. s\<lparr>actIndComponentList := l, animRequest := r\<rparr>) (raf_stop (animRequest s))
              else Some (s\<lparr>actIndComponentList := l\<rparr>))"

definition RNS_ACTIVITY_INDICATOR_ROTATION_ANGLE :: int where
  "RNS_ACTIVITY_INDICATOR_ROTATION_ANGLE = 360 div RNS_ANIMATION_FRAME_RATE"

definition turn :: "indicator \<Rightarrow> indicator" where
  "turn x = (if ind_layer x
             then x\<lparr>rotation := rotation x + RNS_ACTIVITY_INDICATOR_ROTATION_ANGLE, layout_invalid := Suc (layout_invalid x)\<rparr> else x)"

definition turn_in :: "(nat \<Rightarrow> indicator option) \<Rightarrow> nat \<Rightarrow> (nat \<Rightarrow> indicator option)" where
  "turn_in m c = m(c := map_option turn (m c))"

definition handleActivityIndicatorAnimation :: "indicators \<Rightarrow> indicators" where
  "handleActivityIndicatorAnimation s =
     (case actIndComponentList s of
        [] \<Rightarrow> s
      | c # cs \<Rightarrow>
          (case ind_comps s c of
             None \<Rightarrow> s
           | Some x \<Rightarrow>
               if ind_layer x
               then s\<lparr>ind_comps := foldl turn_in (ind_comps s) (actIndComponentList s), flushes := Suc (flushes s)\<rparr> else s))"

text \<open>The function that JavaScript calls for a frame, with the time: one step after the other.\<close>

definition raf_begin :: "nat \<Rightarrow> scalar \<Rightarrow> indicators \<Rightarrow> indicators option" where
  "raf_begin i t s =
     (let r = animRequest s
      in if js_pc r = JsIdle \<and> i \<in> set (pending r)
         then Some (s\<lparr>animRequest := r\<lparr>pending := remove1 i (pending r), js_pc := JsCalled t\<rparr>\<rparr>) else None)"

definition raf_callback :: "scalar \<Rightarrow> indicators \<Rightarrow> indicators" where
  "raf_callback t s =
     (let prev = (case previousValue (animRequest s) of None \<Rightarrow> t | Some p \<Rightarrow> p);
          s1 = s\<lparr>animRequest := (animRequest s)\<lparr>previousValue := Some prev, js_pc := JsAsking\<rparr>\<rparr>
      in if of_int (RNS_ANIMATION_FRAME_RATE_THROTTLE * 1000) < t - prev
         then (handleActivityIndicatorAnimation s1)\<lparr>animRequest := (animRequest s1)\<lparr>previousValue := Some t\<rparr>\<rparr>
         else s1)"

definition raf_next :: "raf \<Rightarrow> raf option" where
  "raf_next r =
     (case js_pc r of
        JsAsking \<Rightarrow> Some (r\<lparr>js_pc := JsTested (isActive r)\<rparr>)
      | JsTested b \<Rightarrow> (let (i, r') = ask_frame b r in Some (r'\<lparr>js_pc := JsAnswered i\<rparr>))
      | JsAnswered i \<Rightarrow> Some (r\<lparr>rafId := Some i, js_pc := JsIdle\<rparr>)
      | _ \<Rightarrow> None)"

text \<open>One step of the thread in the callback.\<close>

definition js_step :: "indicators \<Rightarrow> indicators option" where
  "js_step s =
     (case js_pc (animRequest s) of
        JsCalled t \<Rightarrow> Some (raf_callback t s)
      | _ \<Rightarrow> map_option (\<lambda>r. s\<lparr>animRequest := r\<rparr>) (raf_next (animRequest s)))"

section \<open>The component\<close>

text \<open>\<open>updateComponentProps\<close>, after which the new properties are stored.\<close>

definition ind_updateProps :: "bool \<Rightarrow> nat \<Rightarrow> indicators \<Rightarrow> indicators option" where
  "ind_updateProps new c s =
     (case ind_comps s c of
        None \<Rightarrow> Some s
      | Some x \<Rightarrow>
          do { s1 \<leftarrow> (if \<not> initialPropertiesParsed x \<or> animating x \<noteq> new
                      then (let s0 = s\<lparr>ind_comps := (ind_comps s)(c := Some (x\<lparr>initialPropertiesParsed := True\<rparr>))\<rparr>
                            in if new then Some (addComponent c s0) else removeComponent (ind_tag x) s0)
                      else Some s);
               Some (s1\<lparr>ind_comps := (ind_comps s1)(c := map_option (\<lambda>y. y\<lparr>animating := new\<rparr>) (ind_comps s1 c))\<rparr>) })"

definition ind_destroy :: "nat \<Rightarrow> indicators \<Rightarrow> indicators option" where
  "ind_destroy c s =
     (case ind_comps s c of
        None \<Rightarrow> Some s
      | Some x \<Rightarrow> removeComponent (ind_tag x) (s\<lparr>ind_comps := (ind_comps s)(c := None)\<rparr>))"

text \<open>What the component paints: a pale circle and an arc.\<close>

definition ind_OnPaint :: "('c, 'm, 'i) draw_api \<Rightarrow> f_rect \<Rightarrow> 'c shared_color \<Rightarrow> bool \<Rightarrow> bool \<Rightarrow> ('m, 'i) canvas_op list" where
  "ind_OnPaint d frame color anim hidesWhenStopped =
     (let col = RSkColorFromSharedColor d color (SkARGB 255 153 153 153);
          width = rw frame * (125 / 10) / 100;
          rect = rect_inset d (width / 2) (width / 2) (rect_MakeXYWH d (rx frame) (ry frame) (rw frame) (rh frame));
          paint = new_paint\<lparr>paint_style := kStroke, strokeWidth := width, paint_color := col\<rparr>;
          pale = getA col * 20 div 100
      in if \<not> anim \<and> hidesWhenStopped then []
         else if width = 0 then []
         else if col \<noteq> SkARGB 0 0 0 0 \<and> getA col \<noteq> 0
         then (if pale \<noteq> 0
               then [DrawPath [AddArc rect 0 360] (paint\<lparr>paint_color := (case col of SkARGB a r g b \<Rightarrow> SkARGB pale r g b)\<rparr>)] else []) @
              [DrawPath [AddArc rect 0 80] paint]
         else [])"

section \<open>Steps\<close>

datatype ind_step = IndCreate nat int bool | IndUpdate nat bool | IndDestroy nat | JsFrame nat scalar | JsStep

text \<open>A new component has a layer and the properties it was created with, but has not looked at them. A step
  that its thread cannot take now changes nothing.\<close>

fun ind_do :: "indicators \<Rightarrow> ind_step \<Rightarrow> indicators option" where
  "ind_do s (IndCreate c tag b) = Some (s\<lparr>ind_comps := (ind_comps s)(c := Some \<lparr>ind_tag = tag, ind_layer = True,
     initialPropertiesParsed = False, animating = b, rotation = 0, layout_invalid = 0\<rparr>)\<rparr>)"
| "ind_do s (IndUpdate c new) = ind_updateProps new c s"
| "ind_do s (IndDestroy c) = ind_destroy c s"
| "ind_do s (JsFrame i t) = Some (case raf_begin i t s of None \<Rightarrow> s | Some u \<Rightarrow> u)"
| "ind_do s JsStep = Some (case js_step s of None \<Rightarrow> s | Some u \<Rightarrow> u)"

text \<open>React gives new components tags that are not in use. The list of turning indicators has no lock: it must
  not change while a frame is called and goes through it; and the frames must not be started or stopped while a
  callback asks for its next one.\<close>

definition undisturbed :: "nat list \<Rightarrow> raf \<Rightarrow> nat list \<Rightarrow> raf \<Rightarrow> bool" where
  "undisturbed l r l' r' = (case js_pc r of JsIdle \<Rightarrow> True | JsCalled _ \<Rightarrow> l' = l | _ \<Rightarrow> isActive r' = isActive r)"

definition ind_allowed :: "indicators \<Rightarrow> ind_step \<Rightarrow> bool" where
  "ind_allowed s e =
     ((case e of IndCreate c tag b \<Rightarrow> ind_comps s c = None \<and> (\<forall>k x. ind_comps s k = Some x \<longrightarrow> ind_tag x \<noteq> tag) | _ \<Rightarrow> True) \<and>
      (case ind_do s e of None \<Rightarrow> True | Some t \<Rightarrow> undisturbed (actIndComponentList s) (animRequest s) (actIndComponentList t) (animRequest t)))"

inductive ind_reach :: "indicators \<Rightarrow> bool" where
  start: "ind_reach new_indicators"
| step: "ind_reach s \<Longrightarrow> ind_allowed s e \<Longrightarrow> ind_do s e = Some t \<Longrightarrow> ind_reach t"

section \<open>Invariant\<close>

definition spins :: "indicators \<Rightarrow> nat \<Rightarrow> bool" where
  "spins s c = (case ind_comps s c of None \<Rightarrow> False | Some x \<Rightarrow> initialPropertiesParsed x \<and> animating x)"

text \<open>Frames are active exactly while some indicator turns; then one is asked for, unless a callback is about
  to ask for it. While it has not stored the number, the one that is stored is of a frame that was called.\<close>

definition raf_ok :: "bool \<Rightarrow> raf \<Rightarrow> bool" where
  "raf_ok b r \<longleftrightarrow> 0 < next_raf r \<and> (isActive r \<longleftrightarrow> b) \<and> (b \<longrightarrow> rafId r \<noteq> None) \<and>
     (case js_pc r of
        JsIdle \<Rightarrow> (if b then (\<exists>i. rafId r = Some i \<and> i \<noteq> 0 \<and> pending r = [i]) else pending r = [])
      | JsCalled _ \<Rightarrow> b \<and> pending r = []
      | JsAsking \<Rightarrow> b \<and> pending r = []
      | JsTested c \<Rightarrow> b \<and> c \<and> pending r = []
      | JsAnswered i \<Rightarrow> b \<and> i \<noteq> 0 \<and> pending r = [i])"

definition comps_ok :: "(nat \<Rightarrow> indicator option) \<Rightarrow> bool" where
  "comps_ok m \<longleftrightarrow> (\<forall>c x. m c = Some x \<longrightarrow> ind_layer x) \<and>
     (\<forall>c k x y. m c = Some x \<longrightarrow> m k = Some y \<longrightarrow> ind_tag x = ind_tag y \<longrightarrow> c = k)"

definition ind_ok :: "indicators \<Rightarrow> bool" where
  "ind_ok s \<longleftrightarrow> distinct (actIndComponentList s) \<and> (\<forall>c. c \<in> set (actIndComponentList s) \<longleftrightarrow> spins s c) \<and>
     comps_ok (ind_comps s) \<and> raf_ok (actIndComponentList s \<noteq> []) (animRequest s)"

lemma comps_ok_gone: "comps_ok m \<Longrightarrow> comps_ok (m(c := None))"
  unfolding comps_ok_def by (metis fun_upd_apply option.distinct(1))

lemma comps_ok_new: "comps_ok m \<Longrightarrow> ind_layer y \<Longrightarrow> \<forall>k x. m k = Some x \<longrightarrow> k = c \<or> ind_tag x \<noteq> ind_tag y \<Longrightarrow> comps_ok (m(c := Some y))"
  unfolding comps_ok_def by (metis fun_upd_apply option.inject)

lemma comps_ok_same: "comps_ok m \<Longrightarrow> m c = Some x \<Longrightarrow> ind_layer y = ind_layer x \<Longrightarrow> ind_tag y = ind_tag x \<Longrightarrow> comps_ok (m(c := Some y))"
  by (rule comps_ok_new) (auto simp: comps_ok_def)

lemma erase_unique:
  assumes "c \<in> set l" and "P c" and "\<forall>k \<in> set l. P k \<longrightarrow> k = c"
  shows "\<exists>i. find_index P l = Some i \<and> erase_at i l = remove1 c l"
  using assms
proof (induction l)
  case (Cons k l)
  show ?case
  proof (cases "k = c")
    case False
    with Cons.prems(3) have k: "\<not> P k" by simp
    from False Cons.prems(1) have "c \<in> set l" by simp
    from Cons.IH [OF this Cons.prems(2)] Cons.prems(3) obtain i where "find_index P l = Some i" "erase_at i l = remove1 c l" by auto
    with k False show ?thesis by (intro exI [of _ "Suc i"]) simp
  qed (use Cons.prems(2) in simp)
qed simp

lemma raf_start_ok: "raf_ok False r \<Longrightarrow> raf_ok True (raf_start r)"
  by (auto simp: raf_ok_def raf_start_def raf_request_def RnsRequestAnimationFrame_def ask_frame_def Let_def split: js_pc.splits)

lemma raf_stop_ok:
  assumes "raf_ok True r"
  shows "\<exists>t. raf_stop r = Some t \<and> \<not> isActive t \<and> (js_pc r = JsIdle \<longrightarrow> raf_ok False t)"
proof -
  from assms obtain i where i: "rafId r = Some i" "isActive r" by (auto simp: raf_ok_def)
  let ?t = "if i \<noteq> 0 then r\<lparr>isActive := False, pending := filter (\<lambda>j. j \<noteq> i) (pending r)\<rparr> else r\<lparr>isActive := False\<rparr>"
  have "raf_stop r = Some ?t" using i by (simp add: raf_stop_def RnsCancelAnimationFrame_def)
  moreover have "\<not> isActive ?t" by simp
  moreover have "js_pc r = JsIdle \<longrightarrow> raf_ok False ?t" using assms i by (auto simp: raf_ok_def)
  ultimately show ?thesis by blast
qed

text \<open>Removing by a tag, when one component in the list is gone or has it, or none.\<close>

lemma remove_ok:
  assumes "raf_ok (actIndComponentList s \<noteq> []) (animRequest s)"
    and "c \<in> set (actIndComponentList s) \<Longrightarrow> (case ind_comps s c of None \<Rightarrow> True | Some x \<Rightarrow> ind_tag x = tag)"
    and "\<forall>k \<in> set (actIndComponentList s). (case ind_comps s k of None \<Rightarrow> True | Some x \<Rightarrow> ind_tag x = tag) \<longrightarrow> k = c"
  shows "\<exists>r. removeComponent tag s = Some (s\<lparr>actIndComponentList := remove1 c (actIndComponentList s), animRequest := r\<rparr>) \<and>
    (undisturbed (actIndComponentList s) (animRequest s) (remove1 c (actIndComponentList s)) r \<longrightarrow>
       raf_ok (remove1 c (actIndComponentList s) \<noteq> []) r)"
proof (cases "actIndComponentList s = []")
  case True
  with assms(1) show ?thesis by (intro exI [of _ "animRequest s"]) (simp add: removeComponent_def)
next
  case ne: False
  let ?P = "\<lambda>c. case ind_comps s c of None \<Rightarrow> True | Some x \<Rightarrow> ind_tag x = tag"
  let ?l = "remove1 c (actIndComponentList s)"
  have l: "(case find_index ?P (actIndComponentList s) of Some i \<Rightarrow> erase_at i (actIndComponentList s) | None \<Rightarrow> actIndComponentList s) = ?l"
  proof (cases "c \<in> set (actIndComponentList s)")
    case True
    from erase_unique [OF this assms(2) [OF this] assms(3)] show ?thesis by auto
  next
    case False
    with assms(3) have "\<forall>k \<in> set (actIndComponentList s). \<not> ?P k" by blast
    then have "find_index ?P (actIndComponentList s) = None" by (simp add: find_index_None)
    with False show ?thesis by (simp add: remove1_idem)
  qed
  show ?thesis
  proof (cases "?l = []")
    case True
    from ne assms(1) have "raf_ok True (animRequest s)" by simp
    from raf_stop_ok [OF this] obtain t where t: "raf_stop (animRequest s) = Some t" "\<not> isActive t"
        "js_pc (animRequest s) = JsIdle \<longrightarrow> raf_ok False t" by blast
    moreover have "isActive (animRequest s)" using \<open>raf_ok True (animRequest s)\<close> by (simp add: raf_ok_def)
    ultimately have "undisturbed (actIndComponentList s) (animRequest s) ?l t \<longrightarrow> raf_ok False t"
      using ne True by (auto simp: undisturbed_def split: js_pc.splits)
    with ne l True t(1) show ?thesis unfolding removeComponent_def by (auto simp: Let_def)
  next
    case False
    then have "removeComponent tag s = Some (s\<lparr>actIndComponentList := ?l, animRequest := animRequest s\<rparr>)"
      using ne l unfolding removeComponent_def by (simp add: Let_def)
    with False ne assms(1) show ?thesis by (intro exI [of _ "animRequest s"]) simp
  qed
qed


lemma ind_okD:
  assumes "ind_ok s"
  shows "distinct (actIndComponentList s)" and "c \<in> set (actIndComponentList s) \<longleftrightarrow> spins s c"
    and "comps_ok (ind_comps s)" and "raf_ok (actIndComponentList s \<noteq> []) (animRequest s)"
  using assms unfolding ind_ok_def by blast+

lemma create_ok:
  assumes "ind_ok s" and "ind_allowed s (IndCreate c tag b)"
  shows "\<exists>t. ind_do s (IndCreate c tag b) = Some t \<and> ind_ok t"
proof -
  let ?x = "\<lparr>ind_tag = tag, ind_layer = True, initialPropertiesParsed = False, animating = b, rotation = 0, layout_invalid = 0\<rparr>"
  let ?t = "s\<lparr>ind_comps := (ind_comps s)(c := Some ?x)\<rparr>"
  have fresh: "ind_comps s c = None" "\<forall>k y. ind_comps s k = Some y \<longrightarrow> ind_tag y \<noteq> tag" using assms(2) by (auto simp: ind_allowed_def)
  have "spins ?t k = spins s k" for k using fresh(1) by (simp add: spins_def)
  moreover have "comps_ok ((ind_comps s)(c := Some ?x))" using fresh by (intro comps_ok_new [OF ind_okD(3) [OF assms(1)]]) auto
  ultimately have "ind_ok ?t" using assms(1) by (simp add: ind_ok_def)
  then show ?thesis by simp
qed

lemma same_tag:
  assumes "ind_ok s" and "ind_comps s c = Some x" and "\<forall>k. k \<noteq> c \<longrightarrow> m k = ind_comps s k"
  shows "\<forall>k \<in> set (actIndComponentList s). (case m k of None \<Rightarrow> True | Some y \<Rightarrow> ind_tag y = ind_tag x) \<longrightarrow> k = c"
proof (intro ballI impI)
  fix k assume k: "k \<in> set (actIndComponentList s)" "case m k of None \<Rightarrow> True | Some y \<Rightarrow> ind_tag y = ind_tag x"
  show "k = c"
  proof (rule ccontr)
    assume "k \<noteq> c"
    moreover obtain y where "ind_comps s k = Some y" using k(1) ind_okD(2) [OF assms(1), of k] by (auto simp: spins_def split: option.splits)
    moreover from calculation assms(3) k(2) have "ind_tag y = ind_tag x" by simp
    ultimately show False using assms(2) ind_okD(3) [OF assms(1)] unfolding comps_ok_def by blast
  qed
qed

lemma remove_listed:
  assumes "ind_ok s" and "ind_comps s c = Some x" and "\<forall>k. k \<noteq> c \<longrightarrow> m k = ind_comps s k"
    and "case m c of None \<Rightarrow> True | Some y \<Rightarrow> ind_tag y = ind_tag x"
  shows "\<exists>r. removeComponent (ind_tag x) (s\<lparr>ind_comps := m\<rparr>) =
      Some (s\<lparr>ind_comps := m, actIndComponentList := remove1 c (actIndComponentList s), animRequest := r\<rparr>) \<and>
    (undisturbed (actIndComponentList s) (animRequest s) (remove1 c (actIndComponentList s)) r \<longrightarrow>
       raf_ok (remove1 c (actIndComponentList s) \<noteq> []) r)"
proof -
  let ?u = "s\<lparr>ind_comps := m\<rparr>"
  have u: "actIndComponentList ?u = actIndComponentList s" "animRequest ?u = animRequest s" "ind_comps ?u = m" by simp_all
  show ?thesis
    using remove_ok [of ?u c "ind_tag x", unfolded u, OF ind_okD(4) [OF assms(1)] assms(4) same_tag [OF assms(1-3)]] .
qed

lemma destroy_ok:
  assumes "ind_ok s"
  shows "\<exists>t. ind_do s (IndDestroy c) = Some t \<and> (undisturbed (actIndComponentList s) (animRequest s) (actIndComponentList t) (animRequest t) \<longrightarrow> ind_ok t)"
proof (cases "ind_comps s c")
  case None
  with assms show ?thesis by (simp add: ind_destroy_def)
next
  case (Some x)
  note ok = ind_okD [OF assms]
  let ?u = "s\<lparr>ind_comps := (ind_comps s)(c := None)\<rparr>"
  obtain r where r: "removeComponent (ind_tag x) ?u = Some (?u\<lparr>actIndComponentList := remove1 c (actIndComponentList s), animRequest := r\<rparr>)"
      "undisturbed (actIndComponentList s) (animRequest s) (remove1 c (actIndComponentList s)) r \<longrightarrow>
        raf_ok (remove1 c (actIndComponentList s) \<noteq> []) r"
    using remove_listed [OF assms Some, of "ind_comps ?u"] by auto
  let ?t = "?u\<lparr>actIndComponentList := remove1 c (actIndComponentList s), animRequest := r\<rparr>"
  have "spins ?t k \<longleftrightarrow> spins s k \<and> k \<noteq> c" for k by (simp add: spins_def)
  then have "undisturbed (actIndComponentList s) (animRequest s) (actIndComponentList ?t) (animRequest ?t) \<longrightarrow> ind_ok ?t" using ok(1) ok(2) r(2) comps_ok_gone [OF ok(3)] by (auto simp: ind_ok_def)
  with Some r(1) show ?thesis by (simp add: ind_destroy_def)
qed

lemma update_ok:
  assumes "ind_ok s"
  shows "\<exists>t. ind_do s (IndUpdate c new) = Some t \<and> (undisturbed (actIndComponentList s) (animRequest s) (actIndComponentList t) (animRequest t) \<longrightarrow> ind_ok t)"
proof (cases "ind_comps s c")
  case None
  with assms show ?thesis by (simp add: ind_updateProps_def)
next
  case (Some x)
  note ok = ind_okD [OF assms]
  let ?y = "x\<lparr>initialPropertiesParsed := True, animating := new\<rparr>"
  let ?u = "s\<lparr>ind_comps := (ind_comps s)(c := Some (x\<lparr>initialPropertiesParsed := True\<rparr>))\<rparr>"
  have comps: "comps_ok ((ind_comps s)(c := Some ?y))" by (rule comps_ok_same [OF ok(3) Some]) simp_all
  have layer: "ind_layer x" using ok(3) Some by (simp add: comps_ok_def)
  show ?thesis
  proof (cases "\<not> initialPropertiesParsed x \<or> animating x \<noteq> new")
    case False
    then have "x\<lparr>animating := new\<rparr> = x" by simp
    with Some have "s\<lparr>ind_comps := (ind_comps s)(c := map_option (animating_update (\<lambda>_. new)) (ind_comps s c))\<rparr> = s" by (simp add: fun_upd_idem)
    with False Some assms show ?thesis by (simp add: ind_updateProps_def)
  next
    case changed: True
    show ?thesis
    proof (cases new)
      case True
      with changed have "c \<notin> set (actIndComponentList s)" using ok(2) [of c] Some by (auto simp: spins_def)
      let ?l = "actIndComponentList s @ [c]"
      let ?r = "if length ?l = 1 then raf_start (animRequest s) else animRequest s"
      let ?t = "s\<lparr>ind_comps := (ind_comps s)(c := Some ?y), actIndComponentList := ?l, animRequest := ?r\<rparr>"
      have "raf_ok True ?r" using ok(4) raf_start_ok by (cases "actIndComponentList s") (auto simp del: fun_upd_apply)
      moreover have "spins ?t k \<longleftrightarrow> spins s k \<or> k = c" for k using True by (simp add: spins_def)
      moreover have "distinct ?l" using ok(1) \<open>c \<notin> set (actIndComponentList s)\<close> by simp
      moreover have "k \<in> set ?l \<longleftrightarrow> spins s k \<or> k = c" for k using ok(2) [of k] by auto
      ultimately have "ind_ok ?t" using comps unfolding ind_ok_def by simp
      moreover have "ind_do s (IndUpdate c new) = Some ?t"
        using changed Some True layer by (simp add: ind_updateProps_def addComponent_def Let_def)
      ultimately show ?thesis by blast
    next
      case False
      obtain r where r: "removeComponent (ind_tag x) ?u = Some (?u\<lparr>actIndComponentList := remove1 c (actIndComponentList s), animRequest := r\<rparr>)"
        "undisturbed (actIndComponentList s) (animRequest s) (remove1 c (actIndComponentList s)) r \<longrightarrow>
          raf_ok (remove1 c (actIndComponentList s) \<noteq> []) r"
        using remove_listed [OF assms Some, of "ind_comps ?u"] by auto
      let ?t = "s\<lparr>ind_comps := (ind_comps s)(c := Some ?y), actIndComponentList := remove1 c (actIndComponentList s), animRequest := r\<rparr>"
      have "spins ?t k \<longleftrightarrow> spins s k \<and> k \<noteq> c" for k using False by (simp add: spins_def)
      moreover have "k \<in> set (remove1 c (actIndComponentList s)) \<longleftrightarrow> spins s k \<and> k \<noteq> c" for k using ok(1) ok(2) [of k] by auto
      ultimately have "undisturbed (actIndComponentList s) (animRequest s) (actIndComponentList ?t) (animRequest ?t) \<longrightarrow> ind_ok ?t" using ok(1) comps r(2) by (auto simp: ind_ok_def)
      moreover have "ind_do s (IndUpdate c new) = Some ?t"
        using changed Some False r(1) by (simp add: ind_updateProps_def Let_def)
      ultimately show ?thesis by blast
    qed
  qed
qed

lemma turn_in_fold: "distinct l \<Longrightarrow> foldl turn_in m l c = (if c \<in> set l then map_option turn (m c) else m c)"
  by (induction l arbitrary: m) (auto simp: turn_in_def)

lemma turn_same [simp]: "ind_tag (turn x) = ind_tag x" "ind_layer (turn x) = ind_layer x"
    "initialPropertiesParsed (turn x) = initialPropertiesParsed x" "animating (turn x) = animating x"
  by (simp_all add: turn_def)

text \<open>What a callback does when some indicator turns: all in the list turn if time has passed.\<close>

lemma callback_list:
  assumes "ind_ok s" and "actIndComponentList s \<noteq> []"
  shows "raf_callback t s = s\<lparr>
      ind_comps := if (\<exists>p. previousValue (animRequest s) = Some p \<and> p < t)
        then foldl turn_in (ind_comps s) (actIndComponentList s) else ind_comps s,
      flushes := if (\<exists>p. previousValue (animRequest s) = Some p \<and> p < t) then Suc (flushes s) else flushes s,
      animRequest := (animRequest s)\<lparr>js_pc := JsAsking, previousValue :=
        (case previousValue (animRequest s) of None \<Rightarrow> Some t | Some p \<Rightarrow> Some (if p < t then t else p))\<rparr>\<rparr>"
proof -
  obtain c cs where l: "actIndComponentList s = c # cs" using assms(2) by (cases "actIndComponentList s") auto
  then have "spins s c" using ind_okD(2) [OF assms(1), of c] by simp
  then obtain x where "ind_comps s c = Some x" by (auto simp: spins_def split: option.splits)
  moreover from this have "ind_layer x" using ind_okD(3) [OF assms(1)] by (simp add: comps_ok_def)
  ultimately have h: "handleActivityIndicatorAnimation (s\<lparr>animRequest := r\<rparr>) =
      s\<lparr>animRequest := r, ind_comps := foldl turn_in (ind_comps s) (actIndComponentList s), flushes := Suc (flushes s)\<rparr>" for r
    using l by (simp add: handleActivityIndicatorAnimation_def)
  have throttle: "RNS_ANIMATION_FRAME_RATE_THROTTLE = 0"
    by (simp add: RNS_ANIMATION_FRAME_RATE_THROTTLE_def RNS_ANIMATION_FRAME_RATE_def)
  show ?thesis by (auto simp: raf_callback_def Let_def throttle h split: option.splits)
qed

lemma callback_comps:
  assumes "ind_ok s" and "actIndComponentList s \<noteq> []"
  shows "ind_comps (raf_callback t s) c =
    (if (\<exists>p. previousValue (animRequest s) = Some p \<and> p < t) \<and> spins s c then map_option turn (ind_comps s c) else ind_comps s c)"
  using turn_in_fold [OF ind_okD(1) [OF assms(1)]] ind_okD(2) [OF assms(1), of c] by (auto simp: callback_list [OF assms])

lemma callback_ok:
  assumes "ind_ok s" and "js_pc (animRequest s) = JsCalled t"
  shows "ind_ok (raf_callback t s)"
proof -
  note ok = ind_okD [OF assms(1)]
  have ne: "actIndComponentList s \<noteq> []" using ok(4) assms(2) by (auto simp: raf_ok_def)
  note fc = callback_comps [OF assms(1) ne, of t]
  have "spins (raf_callback t s) k = spins s k" for k by (auto simp: spins_def fc split: option.splits)
  moreover have "comps_ok (ind_comps (raf_callback t s))"
  proof -
    have *: "\<exists>y. ind_comps s k = Some y \<and> ind_tag y = ind_tag x \<and> ind_layer y = ind_layer x" if "ind_comps (raf_callback t s) k = Some x" for k x
      using that by (auto simp: fc split: if_splits)
    show ?thesis using ok(3) * unfolding comps_ok_def by metis
  qed
  moreover have "raf_ok True (animRequest (raf_callback t s))" using ok(4) ne assms(2) by (simp add: callback_list [OF assms(1) ne] raf_ok_def)
  moreover have "actIndComponentList (raf_callback t s) = actIndComponentList s" by (simp add: callback_list [OF assms(1) ne])
  ultimately show ?thesis using ok(1,2) ne unfolding ind_ok_def by simp
qed

lemma raf_ok_ok: "ind_ok s \<Longrightarrow> raf_ok (actIndComponentList s \<noteq> []) r \<Longrightarrow> ind_ok (s\<lparr>animRequest := r\<rparr>)"
  by (simp add: ind_ok_def spins_def)

lemma begin_ok: "ind_ok s \<Longrightarrow> raf_begin i t s = Some u \<Longrightarrow> ind_ok u"
  using ind_okD(4) [of s] by (auto simp: raf_begin_def Let_def raf_ok_def split: if_splits intro!: raf_ok_ok)

lemma js_step_ok:
  assumes "ind_ok s" and "js_step s = Some u"
  shows "ind_ok u"
proof (cases "\<exists>t. js_pc (animRequest s) = JsCalled t")
  case True
  with assms callback_ok show ?thesis by (auto simp: js_step_def)
next
  case False
  with assms(2) obtain r where u: "u = s\<lparr>animRequest := r\<rparr>" "raf_next (animRequest s) = Some r"
    by (auto simp: js_step_def split: js_pc.splits)
  from ind_okD(4) [OF assms(1)] u(2) have "raf_ok (actIndComponentList s \<noteq> []) r"
    by (auto simp: raf_next_def raf_ok_def ask_frame_def split: js_pc.splits)
  with u(1) assms(1) raf_ok_ok show ?thesis by simp
qed

lemma ind_step_ok:
  assumes "ind_ok s" and "ind_allowed s e"
  shows "\<exists>t. ind_do s e = Some t \<and> ind_ok t"
proof (cases e)
  case (IndCreate c tag b)
  with create_ok assms show ?thesis by simp
next
  case (IndUpdate c b)
  with update_ok [OF assms(1), of c b] assms(2) show ?thesis by (auto simp: ind_allowed_def)
next
  case (IndDestroy c)
  with destroy_ok [OF assms(1), of c] assms(2) show ?thesis by (auto simp: ind_allowed_def)
next
  case (JsFrame i t)
  with begin_ok assms(1) show ?thesis by (auto split: option.splits)
next
  case JsStep
  with js_step_ok assms(1) show ?thesis by (auto split: option.splits)
qed

lemma ind_reach_ok: "ind_reach s \<Longrightarrow> ind_ok s"
proof (induction rule: ind_reach.induct)
  case start
  show ?case by (simp add: ind_ok_def new_indicators_def new_raf_def raf_ok_def comps_ok_def spins_def)
next
  case (step s e t)
  from ind_step_ok [OF step.IH step.hyps(2)] step.hyps(3) show ?case by simp
qed

text \<open>A callback that runs now and has not asked for its next frame yet.\<close>

definition will_ask :: "js_pc \<Rightarrow> bool" where
  "will_ask pc = (case pc of JsCalled _ \<Rightarrow> True | JsAsking \<Rightarrow> True | JsTested _ \<Rightarrow> True | _ \<Rightarrow> False)"

text \<open>C35: Whatever activity indicators are created, updated, destroyed or animated, the main loop and the
  callback of a frame step by step in any order, no step fails, and JavaScript is asked for exactly one frame while
  some indicator has to turn, the callback that is about to ask for the next one included, and for none
  otherwise; as long as the list of turning indicators does not change while a frame goes through it, and
  frames are not started or stopped while a callback asks for its next one.\<close>

theorem one_frame_while_spinning:
  assumes "ind_reach s" and "ind_allowed s e"
  shows "\<exists>t. ind_do s e = Some t \<and>
    length (pending (animRequest t)) + (if will_ask (js_pc (animRequest t)) then 1 else 0) = (if \<exists>c. spins t c then 1 else 0)"
proof -
  from ind_step_ok [OF ind_reach_ok [OF assms(1)] assms(2)] obtain t where t: "ind_do s e = Some t" "ind_ok t" by blast
  have "actIndComponentList t = [] \<longleftrightarrow> \<not> (\<exists>c. spins t c)" using ind_okD(2) [OF t(2)] by (metis all_not_in_conv set_empty)
  moreover have "length (pending (animRequest t)) + (if will_ask (js_pc (animRequest t)) then 1 else 0) =
      (if actIndComponentList t = [] then 0 else 1)"
    using ind_okD(4) [OF t(2)] by (auto simp: raf_ok_def will_ask_def split: js_pc.splits if_splits)
  ultimately show ?thesis using t(1) by auto
qed

theorem one_frame_while_spinning_witness:
  "\<exists>t. ind_do new_indicators (IndCreate 0 7 True) = Some t \<and>
    length (pending (animRequest t)) + (if will_ask (js_pc (animRequest t)) then 1 else 0) = (if \<exists>c. spins t c then 1 else 0)"
  by (rule one_frame_while_spinning [OF ind_reach.start]) (simp add: ind_allowed_def undisturbed_def new_indicators_def new_raf_def)

lemmas ind_eval = new_indicators_def new_raf_def ind_updateProps_def addComponent_def raf_start_def raf_request_def RnsRequestAnimationFrame_def
  ask_frame_def Let_def raf_begin_def js_step_def raf_callback_def raf_next_def RNS_ANIMATION_FRAME_RATE_THROTTLE_def
  RNS_ANIMATION_FRAME_RATE_def ind_destroy_def removeComponent_def raf_stop_def RnsCancelAnimationFrame_def spins_def

text \<open>The indicator leaves the list between the request of the next frame and the store of its number: the old
  number is cancelled, and a frame stays asked for although nothing turns.\<close>

theorem stop_in_callback_leaves_frame:
  "\<exists>s. run_opt ind_do new_indicators
      [IndCreate 0 7 True, IndUpdate 0 True, JsFrame 1 t, JsStep, JsStep, JsStep, IndDestroy 0, JsStep] = Some s \<and>
    pending (animRequest s) = [2] \<and> \<not> isActive (animRequest s) \<and> js_pc (animRequest s) = JsIdle \<and> (\<forall>c. \<not> spins s c)"
  by (simp add: ind_eval)

text \<open>Once the time of a frame is known, a later one, however soon it comes, turns every indicator that
  animates by six degrees and no other.\<close>

theorem every_frame_turns:
  assumes "ind_reach s" and "js_pc (animRequest s) = JsCalled t"
    and "previousValue (animRequest s) = Some p" and "p < t" and "ind_comps s c = Some x"
  shows "\<exists>u. ind_do s JsStep = Some u \<and> ind_comps u c = Some (if initialPropertiesParsed x \<and> animating x
           then x\<lparr>rotation := rotation x + 6, layout_invalid := Suc (layout_invalid x)\<rparr> else x)"
proof -
  note ok = ind_reach_ok [OF assms(1)]
  have sp: "spins s c \<longleftrightarrow> initialPropertiesParsed x \<and> animating x" using assms(5) by (simp add: spins_def)
  have "ind_layer x" using ind_okD(3) [OF ok] assms(5) by (simp add: comps_ok_def)
  then have turn: "turn x = x\<lparr>rotation := rotation x + 6, layout_invalid := Suc (layout_invalid x)\<rparr>"
    by (simp add: turn_def RNS_ACTIVITY_INDICATOR_ROTATION_ANGLE_def RNS_ANIMATION_FRAME_RATE_def)
  have "actIndComponentList s \<noteq> []" using ind_okD(4) [OF ok] assms(2) by (auto simp: raf_ok_def)
  from callback_comps [OF ok this, of t c] show ?thesis using assms(2-5) sp turn by (simp add: js_step_def)
qed

definition one_indicator :: "ind_step list" where
  "one_indicator = [IndCreate 0 7 True, IndUpdate 0 True, JsFrame 1 100, JsStep, JsStep, JsStep, JsStep, JsFrame 2 101]"

fun ind_runs :: "indicators \<Rightarrow> ind_step list \<Rightarrow> bool" where
  "ind_runs s [] \<longleftrightarrow> True"
| "ind_runs s (e # es) \<longleftrightarrow> ind_allowed s e \<and> (case ind_do s e of None \<Rightarrow> True | Some t \<Rightarrow> ind_runs t es)"

lemma ind_reach_run: "ind_reach s \<Longrightarrow> ind_runs s es \<Longrightarrow> run_opt ind_do s es = Some t \<Longrightarrow> ind_reach t"
  by (induction es arbitrary: s) (auto split: option.splits bind_splits intro: ind_reach.step)

lemma one_indicator_reach:
  "\<exists>s. run_opt ind_do new_indicators one_indicator = Some s \<and> ind_reach s \<and> js_pc (animRequest s) = JsCalled 101 \<and>
    previousValue (animRequest s) = Some 100 \<and>
    ind_comps s 0 = Some \<lparr>ind_tag = 7, ind_layer = True, initialPropertiesParsed = True, animating = True, rotation = 0, layout_invalid = 0\<rparr>"
proof -
  let ?s = "\<lparr>ind_comps = [0 \<mapsto> \<lparr>ind_tag = 7, ind_layer = True, initialPropertiesParsed = True, animating = True, rotation = 0, layout_invalid = 0\<rparr>],
    actIndComponentList = [0], animRequest = \<lparr>isActive = True, rafId = Some 2, pending = [], next_raf = 3, previousValue = Some 100, js_pc = JsCalled 101\<rparr>,
    flushes = 0\<rparr>"
  have r: "run_opt ind_do new_indicators one_indicator = Some ?s" by (simp add: one_indicator_def ind_eval)
  have "ind_runs new_indicators one_indicator" by (simp add: one_indicator_def ind_allowed_def undisturbed_def ind_eval)
  from ind_reach_run [OF ind_reach.start this r] r show ?thesis by simp
qed

theorem every_frame_turns_witness:
  "\<exists>s u. run_opt ind_do new_indicators one_indicator = Some s \<and> ind_do s JsStep = Some u \<and>
    ind_comps u 0 = Some \<lparr>ind_tag = 7, ind_layer = True, initialPropertiesParsed = True, animating = True, rotation = 6, layout_invalid = 1\<rparr>"
proof -
  from one_indicator_reach obtain s where s: "run_opt ind_do new_indicators one_indicator = Some s" "ind_reach s"
    "js_pc (animRequest s) = JsCalled 101" "previousValue (animRequest s) = Some 100"
    "ind_comps s 0 = Some \<lparr>ind_tag = 7, ind_layer = True, initialPropertiesParsed = True, animating = True, rotation = 0, layout_invalid = 0\<rparr>"
    by blast
  from every_frame_turns [OF s(2-4) _ s(5)] s(1) show ?thesis by simp
qed

end
