(* ===== verification/NativeProps.thy ===== *)
theory NativeProps imports ViewDrawing Containers begin

text \<open>
  Properties that JavaScript sets on a view past React (\<open>Uimanager::updateView\<close> of \<open>UiManagerModule.cpp\<close>), and
  the registry of component providers it looks the view up in (\<open>ComponentViewRegistry.cpp\<close>,
  \<open>RSkComponentProvider.h\<close>), next to the updates that React sends. Of a component the model keeps the
  properties that style its layer and the style itself. The descriptors of components and
  \<open>cloneProps\<close> are React Native's and parameters.
\<close>

section \<open>Components and providers\<close>

record ('c, 'm, 'i) view_comp =
  comp_props :: "'c view_style_props"
  comp_style :: "('m, 'i) layer_style"

record ('c, 'm, 'i) provider =
  provider_name :: string
  provider_comps :: "int \<Rightarrow> ('c, 'm, 'i) view_comp option"

type_synonym ('c, 'm, 'i) view_registry = "(nat, ('c, 'm, 'i) provider) amap"

datatype ui_note = FlushBegin | Invalidated int | FlushRequired

record ('c, 'm, 'i) ui =
  ui_registry :: "('c, 'm, 'i) view_registry"
  ui_notes :: "ui_note list"

record ('c, 'm, 'i, 'r) react_api =
  hasDescriptor :: "nat \<Rightarrow> bool"
  cloneProps :: "'c view_style_props \<Rightarrow> 'r \<Rightarrow> 'c view_style_props"

definition Register :: "nat \<Rightarrow> ('c, 'm, 'i) provider \<Rightarrow> ('c, 'm, 'i) view_registry \<Rightarrow> ('c, 'm, 'i) view_registry" where
  "Register handle p reg = am_put handle p reg"

text \<open>The three \<open>GetProvider\<close>: by handle, by name and by the tag of a component. They give the handle with
  the provider.\<close>

definition provider_by_handle :: "nat \<Rightarrow> ('c, 'm, 'i) view_registry \<Rightarrow> (nat \<times> ('c, 'm, 'i) provider) option" where
  "provider_by_handle h reg = map_option (Pair h) (am_find reg h)"

definition provider_by_name :: "string \<Rightarrow> ('c, 'm, 'i) view_registry \<Rightarrow> (nat \<times> ('c, 'm, 'i) provider) option" where
  "provider_by_name name reg = find (\<lambda>(h, p). provider_name p = name) reg"

definition provider_by_tag :: "int \<Rightarrow> ('c, 'm, 'i) view_registry \<Rightarrow> (nat \<times> ('c, 'm, 'i) provider) option" where
  "provider_by_tag tag reg = find (\<lambda>(h, p). provider_name p \<noteq> ''RootView'' \<and> provider_comps p tag \<noteq> None) reg"

definition put_view :: "nat \<Rightarrow> ('c, 'm, 'i) provider \<Rightarrow> int \<Rightarrow> ('c, 'm, 'i) view_comp \<Rightarrow> ('c, 'm, 'i) ui \<Rightarrow> ('c, 'm, 'i) ui" where
  "put_view h p tag v u = u\<lparr>ui_registry := am_put h (p\<lparr>provider_comps := (provider_comps p)(tag := Some v)\<rparr>) (ui_registry u)\<rparr>"

section \<open>Operations\<close>

text \<open>\<open>Uimanager::updateView\<close>.\<close>

definition updateView ::
    "('c, 'm, 'i) draw_api \<Rightarrow> ('m, 'i) filter_api \<Rightarrow> ('c, 'm, 'i, 'r) react_api \<Rightarrow> int \<Rightarrow> string \<Rightarrow> 'r \<Rightarrow> ('c, 'm, 'i) ui \<Rightarrow> ('c, 'm, 'i) ui" where
  "updateView d f re tag name raw u =
     (case (if name = '''' then provider_by_tag tag (ui_registry u) else provider_by_name name (ui_registry u)) of
        None \<Rightarrow> u
      | Some (h, p) \<Rightarrow>
          (case provider_comps p tag of
             Some v \<Rightarrow>
               if hasDescriptor re h
               then let v' = v\<lparr>comp_style := update_style d f False (comp_props v) (cloneProps re (comp_props v) raw) (comp_style v)\<rparr>
                    in (put_view h p tag v' u)\<lparr>ui_notes := ui_notes u @ [FlushBegin, Invalidated tag, FlushRequired]\<rparr>
               else u
           | None \<Rightarrow> u))"

text \<open>An update of the properties by React: \<open>updateComponentData\<close> stores them.\<close>

definition react_update ::
    "('c, 'm, 'i) draw_api \<Rightarrow> ('m, 'i) filter_api \<Rightarrow> nat \<Rightarrow> int \<Rightarrow> 'c view_style_props \<Rightarrow> ('c, 'm, 'i) ui \<Rightarrow> ('c, 'm, 'i) ui" where
  "react_update d f h tag new u =
     (case am_find (ui_registry u) h of
        None \<Rightarrow> u
      | Some p \<Rightarrow>
          (case provider_comps p tag of
             None \<Rightarrow> u
           | Some v \<Rightarrow> put_view h p tag \<lparr>comp_props = new, comp_style = update_style d f False (comp_props v) new (comp_style v)\<rparr> u))"

section \<open>Looking up\<close>

lemma find_first_Some: "find P xs = Some x \<Longrightarrow> x \<in> set xs \<and> P x"
  by (induction xs) (auto split: if_splits)

lemma find_first_None: "find P xs = None \<longleftrightarrow> (\<forall>x \<in> set xs. \<not> P x)"
  by (induction xs) auto

text \<open>The search by tag finds a provider that has the component, whenever one other than the provider of
  root views has it.\<close>

theorem provider_found_by_tag:
  "(case provider_by_tag tag reg of
      Some (h, p) \<Rightarrow> (h, p) \<in> set reg \<and> provider_comps p tag \<noteq> None
    | None \<Rightarrow> \<forall>(h, p) \<in> set reg. provider_comps p tag \<noteq> None \<longrightarrow> provider_name p = ''RootView'')"
proof (cases "provider_by_tag tag reg")
  case None
  with None [unfolded provider_by_tag_def find_first_None] show ?thesis by auto
next
  case (Some hp)
  with find_first_Some [OF this [unfolded provider_by_tag_def]] show ?thesis by auto
qed

definition view_at :: "nat \<Rightarrow> int \<Rightarrow> ('c, 'm, 'i) ui \<Rightarrow> ('c, 'm, 'i) view_comp option" where
  "view_at h tag u = Option.bind (am_find (ui_registry u) h) (\<lambda>p. provider_comps p tag)"

lemma view_at_put: "view_at h' t (put_view h p tag v u) = (if h' = h then (if t = tag then Some v else provider_comps p t) else view_at h' t u)"
  by (auto simp: view_at_def put_view_def am_find_put)

lemma registered_find:
  assumes "am_ok reg" and "(h, p) \<in> set reg"
  shows "am_find reg h = Some p"
  using assms by (induction reg) (force simp: am_ok_Cons)+

text \<open>The properties that are set past React are used for the style of the layer, but not kept: those of the
  component stay what React sent.\<close>

theorem native_props_not_kept:
  assumes "am_ok (ui_registry u)"
  shows "map_option comp_props (view_at h t (updateView d f re tag name raw u)) = map_option comp_props (view_at h t u)"
proof (cases "if name = '''' then provider_by_tag tag (ui_registry u) else provider_by_name name (ui_registry u)")
  case None
  then show ?thesis by (simp add: updateView_def)
next
  case (Some hp)
  then obtain k p where hp: "hp = (k, p)" by (cases hp)
  have "(k, p) \<in> set (ui_registry u)"
    using Some find_first_Some by (force simp: hp provider_by_tag_def provider_by_name_def split: if_splits)
  with assms have "am_find (ui_registry u) k = Some p" by (rule registered_find)
  then have at: "view_at k t u = provider_comps p t" for t by (simp add: view_at_def)
  have "view_at h t (x\<lparr>ui_notes := ns\<rparr>) = view_at h t x" for x :: "('a, 'b, 'c) ui" and ns by (simp add: view_at_def)
  then show ?thesis using Some by (auto simp: updateView_def hp view_at_put at Let_def split: option.splits)
qed

section \<open>Properties\<close>

lemma updateView_found:
  assumes "provider_by_tag tag (ui_registry u) = Some (h, p)" and "provider_comps p tag = Some v" and "hasDescriptor re h"
  shows "view_at h tag (updateView d f re tag '''' raw u) =
    Some (v\<lparr>comp_style := update_style d f False (comp_props v) (cloneProps re (comp_props v) raw) (comp_style v)\<rparr>)"
  using assms by (simp add: updateView_def Let_def view_at_def put_view_def am_find_put)

lemma find_put_same: "am_ok reg \<Longrightarrow> find P reg = Some (h, p) \<Longrightarrow> P (h, p') \<Longrightarrow> find P (am_put h p' reg) = Some (h, p')"
proof (induction reg)
  case (Cons kq reg)
  obtain k q where kq: "kq = (k, q)" by fastforce
  show ?case
  proof (cases "P kq")
    case True
    with Cons.prems show ?thesis by (simp add: kq)
  next
    case False
    with Cons.prems have find: "find P reg = Some (h, p)" by simp
    then have "k < h" using find_first_Some [OF find] Cons.prems(1) by (force simp: kq am_ok_Cons)
    then have "h \<noteq> k" "\<not> h < k" by simp_all
    with False find Cons show ?thesis by (simp add: kq am_ok_Cons)
  qed
qed simp

text \<open>A property that is set past React and set back again keeps its first value on the screen: the second
  call compares with the properties React sent, and sees no change.\<close>

theorem reverting_native_opacity_lost:
  assumes "am_ok (ui_registry u)" and "provider_by_tag tag (ui_registry u) = Some (h, p)" and "provider_comps p tag = Some v" and "hasDescriptor re h"
    and "cloneProps re (comp_props v) r1 = (comp_props v)\<lparr>p_opacity := x\<rparr>" and "x \<noteq> p_opacity (comp_props v)" and "x \<le> 1"
    and "cloneProps re (comp_props v) r2 = comp_props v"
  shows "map_option (\<lambda>v. layerOpacity (comp_style v)) (view_at h tag (updateView d f re tag '''' r2 (updateView d f re tag '''' r1 u))) = Some (x * MAX_8BIT)"
proof -
  let ?v = "v\<lparr>comp_style := update_style d f False (comp_props v) (cloneProps re (comp_props v) r1) (comp_style v)\<rparr>"
  let ?u = "updateView d f re tag '''' r1 u"
  let ?p = "p\<lparr>provider_comps := (provider_comps p)(tag := Some ?v)\<rparr>"
  have reg: "ui_registry ?u = am_put h ?p (ui_registry u)"
    using assms(2-4) by (simp add: updateView_def Let_def put_view_def)
  have "provider_by_tag tag (am_put h ?p (ui_registry u)) = Some (h, ?p)"
    unfolding provider_by_tag_def
    by (rule find_put_same [OF assms(1) assms(2) [unfolded provider_by_tag_def]])
      (use find_first_Some [OF assms(2) [unfolded provider_by_tag_def]] in simp)
  then have "view_at h tag (updateView d f re tag '''' r2 ?u) =
      Some (?v\<lparr>comp_style := update_style d f False (comp_props ?v) (cloneProps re (comp_props ?v) r2) (comp_style ?v)\<rparr>)"
    by (intro updateView_found [where p = ?p]) (simp_all add: reg assms(4))
  then show ?thesis using assms(5-8) by (simp add: update_style_def Let_def)
qed

text \<open>A background that is set past React is never painted: painting takes it from the properties React
  sent.\<close>

definition view_painting :: "sk_rect_api \<Rightarrow> ('c, 'm, 'i) draw_api \<Rightarrow> f_rect \<Rightarrow> 'c border_metrics \<Rightarrow> ('c, 'm, 'i) view_comp \<Rightarrow> ('m, 'i) canvas_op list" where
  "view_painting sk d frame b v = view_OnPaint sk d frame b (p_backgroundColor (comp_props v)) (comp_style v)"

theorem native_background_not_painted:
  assumes "provider_by_tag tag (ui_registry u) = Some (h, p)" and "provider_comps p tag = Some v" and "hasDescriptor re h"
    and "cloneProps re (comp_props v) raw = (comp_props v)\<lparr>p_backgroundColor := c\<rparr>" and "isShadowVisible (comp_style v) = needsShadowPainting d (comp_style v)"
  shows "map_option (view_painting sk d frame b) (view_at h tag (updateView d f re tag '''' raw u)) = Some (view_painting sk d frame b v)"
  using assms(4,5) by (simp add: updateView_found [OF assms(1-3)] view_painting_def view_OnPaint_def update_style_def needsShadowPainting_def Let_def)

section \<open>Examples\<close>

definition sample_props :: "nat view_style_props" where
  "sample_props = \<lparr>p_opacity = 1, p_shadowOpacity = 0, p_shadowRadius = 3, p_shadowOffset = (0, - 3), p_shadowColor = None, p_backgroundColor = None,
     p_transform = [1, 0, 0, 0, 0, 1, 0, 0, 0, 0, 1, 0, 0, 0, 0, 1], p_clipsContent = False\<rparr>"

definition sample_filters :: "(nat, nat) filter_api" where
  "sample_filters = \<lparr>MakeBlur = (\<lambda>r. None), DropShadowOnly = (\<lambda>off r c. None)\<rparr>"

definition sample_react :: "(nat, nat, nat, nat view_style_props \<Rightarrow> nat view_style_props) react_api" where
  "sample_react = \<lparr>hasDescriptor = (\<lambda>h. True), cloneProps = (\<lambda>p r. r p)\<rparr>"

definition sample_view :: "(nat, nat, nat) view_comp" where
  "sample_view = \<lparr>comp_props = sample_props, comp_style = update_style draw_ref sample_filters True sample_props sample_props sample_layer\<rparr>"

definition sample_ui :: "(nat, nat, nat) ui" where
  "sample_ui = \<lparr>ui_registry = [(1, \<lparr>provider_name = ''View'', provider_comps = [7 \<mapsto> sample_view]\<rparr>)], ui_notes = []\<rparr>"

lemma sample_ui_found:
  "provider_by_tag 7 (ui_registry sample_ui) = Some (1, \<lparr>provider_name = ''View'', provider_comps = [7 \<mapsto> sample_view]\<rparr>)"
  by (simp add: provider_by_tag_def sample_ui_def)

lemma native_props_not_kept_witness:
  "map_option comp_props (view_at 1 7 (updateView draw_ref sample_filters sample_react 7 '''' (\<lambda>p. p\<lparr>p_opacity := 1 / 2\<rparr>) sample_ui)) = Some sample_props"
proof -
  have "am_ok (ui_registry sample_ui)" by (simp add: sample_ui_def am_ok_def)
  from native_props_not_kept [OF this, of 1 7] show ?thesis by (simp add: sample_ui_def view_at_def sample_view_def)
qed

lemma reverting_native_opacity_lost_witness:
  "map_option (\<lambda>v. layerOpacity (comp_style v)) (view_at 1 7 (updateView draw_ref sample_filters sample_react 7 '''' (\<lambda>p. p\<lparr>p_opacity := 1\<rparr>)
     (updateView draw_ref sample_filters sample_react 7 '''' (\<lambda>p. p\<lparr>p_opacity := 1 / 2\<rparr>) sample_ui))) = Some (1 / 2 * MAX_8BIT)"
  by (rule reverting_native_opacity_lost [OF _ sample_ui_found, where v = sample_view])
    (simp_all add: sample_ui_def am_ok_def sample_react_def sample_view_def sample_props_def)

lemma native_background_not_painted_witness:
  "map_option (view_painting sk_rect_ref draw_ref sample_frame (sample_border 0)) (view_at 1 7
     (updateView draw_ref sample_filters sample_react 7 '''' (\<lambda>p. p\<lparr>p_backgroundColor := Some 255\<rparr>) sample_ui)) =
   Some (view_painting sk_rect_ref draw_ref sample_frame (sample_border 0) sample_view)"
  by (rule native_background_not_painted [OF sample_ui_found, where c = "Some 255"])
    (simp_all add: sample_react_def, simp add: sample_view_def update_style_def needsShadowPainting_def Let_def)

end
