(* ===== verification/EventEmitters.thy ===== *)
theory EventEmitters imports NotifCenter SkGeom "HOL-Library.Monad_Syntax" begin

text \<open>
  The modules that pass events on to JavaScript (\<open>RSkBaseEventEmitter.cpp\<close>, \<open>RSkEventEmitter.cpp\<close>), as
  \<open>RSkTVNavigationEventEmitter\<close> and \<open>RSkKeyboardObserver\<close> use them with a notification center, and
  \<open>RSkAppStateModule\<close> with the application manager of the platform. A module counts the listeners
  JavaScript has; it listens to the center from the first of them on, until there are none left.

  The state of a module stands beside that of its center. A call of a listener of the module by the
  event thread of the center is a call of its handler.
\<close>

section \<open>State\<close>

text \<open>\<open>listenerCount_\<close> is an \<open>int\<close> of 32 bits; \<open>listener_count_range\<close> shows that it is at most the number of calls,
  so that it is the integer here for fewer than \<open>2^31\<close> of them. \<open>bridgeInstance_\<close> is whether there is one; \<open>navEventId_\<close> starts as \<open>UINT_MAX\<close>. What is sent to JavaScript, and
  the callbacks that are handed to it, are recorded; \<open>em_ids\<close> are the listeners that call this module.\<close>

record emitter =
  listenerCount :: int
  navEventId :: nat
  bridgeInstance :: bool
  js_events :: "(string \<times> args option) list"
  completed :: nat
  em_ids :: "nat set"

definition new_emitter :: "bool \<Rightarrow> emitter" where
  "new_emitter b = \<lparr>listenerCount = 0, navEventId = 2 ^ 32 - 1, bridgeInstance = b, js_events = [], completed = 0, em_ids = {}\<rparr>"

text \<open>What a module listens for, with the type of the arguments, and what it sends for it.\<close>

record em_kind =
  tvEventName :: string
  em_sig :: nat
  event_for :: "args \<Rightarrow> string \<times> args option"

section \<open>Operations\<close>

definition sendEventWithName :: "string \<Rightarrow> args option \<Rightarrow> bool \<Rightarrow> emitter \<Rightarrow> emitter option" where
  "sendEventWithName name params callback e =
     (if 1 \<le> listenerCount e
      then (if bridgeInstance e
            then Some (e\<lparr>js_events := js_events e @ [(name, params)], completed := completed e + (if callback then 1 else 0)\<rparr>)
            else None)
      else Some e)"

definition startObserving :: "em_kind \<Rightarrow> emitter \<times> center \<Rightarrow> emitter \<times> center" where
  "startObserving k s =
     (let (i, c) = nc_addListener (tvEventName k) (Some (em_sig k)) (snd s)
      in ((fst s)\<lparr>navEventId := i, em_ids := insert i (em_ids (fst s))\<rparr>, c))"

definition stopObserving :: "emitter \<times> center \<Rightarrow> emitter \<times> center" where
  "stopObserving s = (fst s, nc_removeListener (navEventId (fst s)) (snd s))"

definition em_addListener :: "em_kind \<Rightarrow> emitter \<times> center \<Rightarrow> emitter \<times> center" where
  "em_addListener k s =
     (let e = (fst s)\<lparr>listenerCount := listenerCount (fst s) + 1\<rparr>
      in if listenerCount e = 1 then startObserving k (e, snd s) else (e, snd s))"

definition em_removeListeners :: "int \<Rightarrow> emitter \<times> center \<Rightarrow> emitter \<times> center" where
  "em_removeListeners n s =
     (let e = (fst s)\<lparr>listenerCount := max (listenerCount (fst s) - n) 0\<rparr>
      in if listenerCount e = 0 then stopObserving (e, snd s) else (e, snd s))"

text \<open>The calls from JavaScript. A value of the wrong type makes \<open>getString\<close> or \<open>getNumber\<close> fail an
  assertion.\<close>

datatype js_value = JsString string | JsNumber scalar | JsOther

definition addListenerWrapper :: "em_kind \<Rightarrow> js_value list \<Rightarrow> emitter \<times> center \<Rightarrow> (emitter \<times> center) option" where
  "addListenerWrapper k args s =
     (if length args \<noteq> 1 then Some s
      else (case hd args of JsString name \<Rightarrow> Some (em_addListener k s) | _ \<Rightarrow> None))"

definition removeListenersWrapper :: "js_value list \<Rightarrow> emitter \<times> center \<Rightarrow> (emitter \<times> center) option" where
  "removeListenersWrapper args s =
     (if length args \<noteq> 1 then Some s
      else (case hd args of JsNumber x \<Rightarrow> Some (em_removeListeners (trunc x) s) | _ \<Rightarrow> None))"

text \<open>\<open>handleTVNavigationEventNotification\<close> and \<open>handleOnScreenKeyboardEventNotification\<close>.\<close>

definition handle_notification :: "em_kind \<Rightarrow> bool \<Rightarrow> args \<Rightarrow> emitter \<Rightarrow> emitter option" where
  "handle_notification k callback a e = sendEventWithName (fst (event_for k a)) (snd (event_for k a)) callback e"

text \<open>\<open>RSkAppStateModule\<close>: the events of the application manager.\<close>

datatype app_event = OnChange args | OnMemoryWarning | OnFocus | OnBlur

definition app_state_event :: "app_event \<Rightarrow> emitter \<Rightarrow> emitter option" where
  "app_state_event ev e =
     (case ev of
        OnChange a \<Rightarrow> sendEventWithName ''appStateDidChange'' (Some a) False e
      | OnMemoryWarning \<Rightarrow> sendEventWithName ''memoryWarning'' None False e
      | OnFocus \<Rightarrow> sendEventWithName ''appStateFocusChange'' (Some [1]) False e
      | OnBlur \<Rightarrow> sendEventWithName ''appStateFocusChange'' (Some [0]) False e)"

text \<open>\<open>lazyInit\<close> and \<open>getCurrentAppState\<close>; \<open>create\<close> is what the plugin gives, and the result is what the callback
  gets, if a function was passed.\<close>

definition lazyInit :: "'h option \<Rightarrow> 'h option \<Rightarrow> 'h option" where
  "lazyInit create handle = (case handle of None \<Rightarrow> create | Some h \<Rightarrow> Some h)"

definition getCurrentAppState :: "('h \<Rightarrow> string) \<Rightarrow> 'h option \<Rightarrow> bool \<Rightarrow> nat \<Rightarrow> 'h option \<Rightarrow> string option \<times> 'h option" where
  "getCurrentAppState currentState create isFunction argc handle =
     (if argc \<noteq> 2 then (None, handle)
      else let h = lazyInit create handle
           in (if isFunction then Some (case h of Some x \<Rightarrow> currentState x | None \<Rightarrow> ''unknown'') else None, h))"

section \<open>Steps\<close>

datatype em_step = EmAdd | EmRemove int | EmNotify args | EmRun

text \<open>A step of the event thread calls the handler if the listener it runs is one of the module.\<close>

definition em_run :: "em_kind \<Rightarrow> emitter \<times> center \<Rightarrow> (emitter \<times> center) option" where
  "em_run k s =
     do { c \<leftarrow> nc_run (snd s);
          e \<leftarrow> (case drop (length (fired (snd s))) (fired c) of
                 [(i, a)] \<Rightarrow> if i \<in> em_ids (fst s) then handle_notification k False a (fst s) else Some (fst s)
               | _ \<Rightarrow> Some (fst s));
          Some (e, c) }"

fun em_do :: "em_kind \<Rightarrow> emitter \<times> center \<Rightarrow> em_step \<Rightarrow> (emitter \<times> center) option" where
  "em_do k s EmAdd = Some (em_addListener k s)"
| "em_do k s (EmRemove n) = Some (em_removeListeners n s)"
| "em_do k s (EmNotify a) = Some (fst s, nc_emit (tvEventName k) (em_sig k) a (snd s))"
| "em_do k s EmRun = em_run k s"

lemma listener_count_range:
  assumes "run_opt (em_do k) s ops = Some t" and "0 \<le> listenerCount (fst s)" and "\<forall>n. EmRemove n \<in> set ops \<longrightarrow> 0 \<le> n"
  shows "0 \<le> listenerCount (fst t) \<and> listenerCount (fst t) \<le> listenerCount (fst s) + int (length ops)"
  using assms
proof (induction ops arbitrary: s)
  case (Cons op ops)
  then obtain u where u: "em_do k s op = Some u" "run_opt (em_do k) u ops = Some t" by (auto split: bind_splits)
  have "listenerCount e' = listenerCount e" if "handle_notification k cb a e = Some e'" for cb a e e'
    using that by (auto simp: handle_notification_def sendEventWithName_def split: if_splits)
  then have "0 \<le> listenerCount (fst u) \<and> listenerCount (fst u) \<le> listenerCount (fst s) + 1"
    using u(1) Cons.prems(2,3)
    by (cases op) (force simp: em_addListener_def em_removeListeners_def startObserving_def stopObserving_def em_run_def Let_def
      split: prod.splits bind_splits list.splits if_splits)+
  with Cons.IH [OF u(2)] Cons.prems(3) show ?case by simp
qed simp

section \<open>Calls that the event thread has time for\<close>

text \<open>A call followed by the steps of the event thread that it asks for.\<close>

definition settled_call :: "em_kind \<Rightarrow> emitter \<times> center \<Rightarrow> em_step \<Rightarrow> (emitter \<times> center) option" where
  "settled_call k s op = run_opt (em_do k) s [op, EmRun, EmRun]"

text \<open>What a module promises: the number of listeners, and the events that came while there was one.\<close>

fun listening :: "(int \<times> args list) \<Rightarrow> em_step \<Rightarrow> (int \<times> args list)" where
  "listening (n, evs) EmAdd = (n + 1, evs)"
| "listening (n, evs) (EmRemove k) = (max (n - k) 0, evs)"
| "listening (n, evs) (EmNotify a) = (n, if 1 \<le> n then evs @ [a] else evs)"
| "listening (n, evs) EmRun = (n, evs)"

definition observing_ok :: "em_kind \<Rightarrow> emitter \<times> center \<Rightarrow> bool" where
  "observing_ok k s \<longleftrightarrow>
     (case s of (e, c) \<Rightarrow>
        nc_ok c \<and> tasks c = [] \<and> firing c = None \<and> 0 \<le> listenerCount e \<and> bridgeInstance e \<and>
        (if listenerCount e = 0
         then am_find (listenersList c) (tvEventName k) = None \<and> navEventId e \<notin> set (map_ids (listenersList c))
         else am_find (listenersList c) (tvEventName k) = Some [\<lparr>lid = navEventId e, lsig = em_sig k\<rparr>] \<and> navEventId e \<in> em_ids e))"

lemma live_settled: "tasks c = [] \<Longrightarrow> firing c = None \<Longrightarrow> live_ids c = set (map_ids (listenersList c))"
  by (simp add: live_ids_def firing_ids_def)

lemma em_idle: "tasks c = [] \<Longrightarrow> firing c = None \<Longrightarrow> em_do k (e, c) EmRun = Some (e, c)"
  by (simp add: em_run_def nc_run_def)

lemma remove_own_entry:
  assumes "am_ok m" and "distinct (map_ids m)" and "am_find m name = Some [l]"
  shows "am_find (remove_from (lid l) m) name = None"
  using assms
proof (induction m)
  case (Cons p m)
  obtain name' ls where p: "p = (name', ls)" by (cases p)
  show ?case
  proof (cases "name' = name")
    case True
    with Cons.prems(3) have "ls = [l]" by (simp add: p)
    moreover have "name \<notin> fst ` set m" using Cons.prems(1) True by (auto simp: p am_ok_Cons)
    ultimately show ?thesis by (simp add: p map_of_eq_None_iff)
  next
    case False
    with Cons.prems(3) have find: "am_find m name = Some [l]" by (simp add: p)
    from am_find_ids [OF find] have "lid l \<in> set (map_ids m)" by simp
    with Cons.prems(2) have "find_index (\<lambda>k. lid k = lid l) ls = None" by (auto simp: p find_index_None)
    with False Cons.IH [OF _ _ find] Cons.prems show ?thesis by (simp add: p am_ok_Cons)
  qed
qed simp

lemma settled_idle:
  "em_do k s op = Some (e, c) \<Longrightarrow> tasks c = [] \<Longrightarrow> firing c = None \<Longrightarrow> settled_call k s op = Some (e, c)"
  by (simp add: settled_call_def em_idle del: em_do.simps)

lemma settled_add:
  assumes "observing_ok k (e, c)" and "last_listener c + 1 < 2 ^ 32"
  shows "\<exists>t d. settled_call k (e, c) EmAdd = Some (t, d) \<and> observing_ok k (t, d) \<and> listenerCount t = listenerCount e + 1 \<and>
    js_events t = js_events e \<and> last_listener d \<le> last_listener c + 1"
proof (cases "listenerCount e = 0")
  case True
  note ok = assms(1) [unfolded observing_ok_def prod.case]
  let ?i = "last_listener c + 1"
  let ?l = "\<lparr>lid = ?i, lsig = em_sig k\<rparr>"
  let ?c = "snd (nc_addListener (tvEventName k) (Some (em_sig k)) c)"
  let ?d = "add_handler (tvEventName k) ?l (?c\<lparr>tasks := []\<rparr>)"
  have c: "?c = c\<lparr>last_listener := ?i, tasks := [AddTask (tvEventName k) ?l]\<rparr>" and fst: "fst (nc_addListener (tvEventName k) (Some (em_sig k)) c) = ?i"
    using assms(2) ok by (simp_all add: nc_addListener_def Let_def)
  have okc: "nc_ok ?c" using nc_add_ok [OF _ assms(2)] ok by blast
  have "nc_run ?c = Some ?d" using ok by (simp add: c nc_run_def)
  with nc_run_ok [OF okc this] have okd: "nc_ok ?d" by blast
  have none: "am_find (listenersList c) (tvEventName k) = None" using ok True by simp
  have find: "am_find (listenersList ?d) (tvEventName k) = Some [?l]" using none by (simp add: c add_handler_def am_find_put)
  let ?e = "e\<lparr>listenerCount := 1, navEventId := ?i, em_ids := insert ?i (em_ids e)\<rparr>"
  have step: "em_do k (e, c) EmAdd = Some (?e, ?c)"
    using True fst by (simp add: em_addListener_def startObserving_def Let_def split_beta)
  have run: "em_do k (?e, ?c) EmRun = Some (?e, ?d)" using \<open>nc_run ?c = Some ?d\<close> by (simp add: em_run_def) (simp add: c add_handler_def split: option.splits)
  have d: "tasks ?d = []" "firing ?d = None" "last_listener ?d = ?i" using ok by (simp_all add: c add_handler_def split: option.splits)
  have "settled_call k (e, c) EmAdd = Some (?e, ?d)"
    unfolding settled_call_def using step run em_idle [OF d(1,2), of k ?e] by simp
  moreover have "observing_ok k (?e, ?d)" using ok okd find d(1,2) by (simp add: observing_ok_def)
  ultimately show ?thesis using True d(3) by (intro exI [of _ ?e] exI [of _ ?d]) simp
next
  case False
  note ok = assms(1) [unfolded observing_ok_def prod.case]
  let ?e = "e\<lparr>listenerCount := listenerCount e + 1\<rparr>"
  from False have "em_do k (e, c) EmAdd = Some (?e, c)" by (simp add: em_addListener_def)
  then have "settled_call k (e, c) EmAdd = Some (?e, c)" by (rule settled_idle) (use ok in simp_all)
  moreover have "observing_ok k (?e, c)" using ok False by (auto simp: observing_ok_def)
  ultimately show ?thesis by (intro exI [of _ ?e] exI [of _ c]) simp
qed

lemma settled_remove:
  assumes "observing_ok k (e, c)" and "0 \<le> n"
  shows "\<exists>t d. settled_call k (e, c) (EmRemove n) = Some (t, d) \<and> observing_ok k (t, d) \<and> listenerCount t = max (listenerCount e - n) 0 \<and>
    js_events t = js_events e \<and> last_listener d = last_listener c"
proof -
  note ok = assms(1) [unfolded observing_ok_def prod.case]
  let ?e = "e\<lparr>listenerCount := max (listenerCount e - n) 0\<rparr>"
  let ?c = "if listenerCount ?e = 0 then nc_removeListener (navEventId e) c else c"
  have c: "tasks ?c = []" "firing ?c = None" "last_listener ?c = last_listener c" using ok by (simp_all add: nc_removeListener_def)
  have "em_do k (e, c) (EmRemove n) = Some (?e, ?c)" by (simp add: em_removeListeners_def stopObserving_def Let_def)
  from settled_idle [OF this c(1,2)] have call: "settled_call k (e, c) (EmRemove n) = Some (?e, ?c)" .
  have dist: "distinct (map_ids (listenersList c))" and am: "am_ok (listenersList c)" using ok by (simp_all add: nc_ok_def)
  have okc: "nc_ok ?c" using ok nc_remove_ok by simp
  have "observing_ok k (?e, ?c)"
  proof (cases "listenerCount ?e = 0")
    case zero: True
    have "am_find (listenersList ?c) (tvEventName k) = None \<and> navEventId e \<notin> set (map_ids (listenersList ?c))"
    proof (cases "listenerCount e = 0")
      case True
      then have "am_find (listenersList c) (tvEventName k) = None" "navEventId e \<notin> set (map_ids (listenersList c))" using ok by simp_all
      then show ?thesis using zero by (simp add: nc_removeListener_def remove_from_none)
    next
      case False
      then have "am_find (listenersList c) (tvEventName k) = Some [\<lparr>lid = navEventId e, lsig = em_sig k\<rparr>]" using ok by simp
      from remove_own_entry [OF am dist this] remove_from_set(2) [OF dist, of "navEventId e"] zero show ?thesis
        by (simp add: nc_removeListener_def)
    qed
    with zero ok okc c show ?thesis by (simp add: observing_ok_def)
  next
    case False
    with ok assms(2) have "listenerCount e \<noteq> 0" by auto
    moreover have "0 < max (listenerCount e - n) 0" using False by simp
    ultimately show ?thesis using ok False by (simp add: observing_ok_def)
  qed
  with call c(3) show ?thesis by (intro exI [of _ ?e] exI [of _ ?c]) simp
qed

lemma settled_notify:
  assumes "observing_ok k (e, c)"
  shows "\<exists>t d. settled_call k (e, c) (EmNotify a) = Some (t, d) \<and> observing_ok k (t, d) \<and> listenerCount t = listenerCount e \<and>
    js_events t = js_events e @ (if 1 \<le> listenerCount e then [event_for k a] else []) \<and> last_listener d = last_listener c"
proof -
  note ok = assms [unfolded observing_ok_def prod.case]
  show ?thesis
  proof (cases "listenerCount e = 0")
    case True
    then have "settled_call k (e, c) (EmNotify a) = Some (e, c)"
      using ok by (simp add: settled_call_def em_run_def nc_run_def nc_emit_def)
    with True assms show ?thesis by simp
  next
    case False
    with ok have count: "1 \<le> listenerCount e" by simp
    let ?i = "navEventId e"
    let ?e = "e\<lparr>js_events := js_events e @ [event_for k a]\<rparr>"
    let ?d = "c\<lparr>fired := fired c @ [(?i, a)], stray_unlocks := Suc (stray_unlocks c)\<rparr>"
    have find: "am_find (listenersList c) (tvEventName k) = Some [\<lparr>lid = ?i, lsig = em_sig k\<rparr>]" "?i \<in> em_ids e" using ok False by simp_all
    have "settled_call k (e, c) (EmNotify a) = Some (?e, ?d)"
      using ok count find by (simp add: settled_call_def em_run_def nc_run_def nc_emit_def handle_notification_def sendEventWithName_def)
    moreover have "nc_ok ?d \<and> live_ids ?d \<subseteq> live_ids c"
      by (rule nc_ok_frame) (use ok in \<open>simp_all add: firing_ids_def\<close>)
    then have "observing_ok k (?e, ?d)" using ok False find by (simp add: observing_ok_def)
    ultimately show ?thesis using count by (intro exI [of _ ?e] exI [of _ ?d]) simp
  qed
qed

section \<open>Properties\<close>

definition em_op_ok :: "em_step \<Rightarrow> bool" where
  "em_op_ok op = (case op of EmRemove n \<Rightarrow> 0 \<le> n | EmRun \<Rightarrow> False | _ \<Rightarrow> True)"

text \<open>C31: When the event thread has time after every call, a module keeps its promise: it counts the listeners,
  and JavaScript gets every event that comes while there is one, once and in order, and no other.\<close>

theorem settled_emitter_listens:
  assumes "nc_ok c" and "tasks c = []" and "firing c = None" and "am_find (listenersList c) (tvEventName k) = None"
    and "last_listener c + length ops < 2 ^ 32 - 1" and "list_all em_op_ok ops"
  shows "\<exists>e d. run_opt (settled_call k) (new_emitter True, c) ops = Some (e, d) \<and>
    listenerCount e = fst (foldl listening (0, []) ops) \<and> js_events e = map (event_for k) (snd (foldl listening (0, []) ops))"
proof -
  have "\<exists>t d. run_opt (settled_call k) (e, c) ops = Some (t, d) \<and>
      listenerCount t = fst (foldl listening (listenerCount e, evs) ops) \<and> js_events t = map (event_for k) (snd (foldl listening (listenerCount e, evs) ops))"
    if "observing_ok k (e, c)" "last_listener c + length ops < 2 ^ 32 - 1" "list_all em_op_ok ops" "js_events e = map (event_for k) evs" for e c evs
    using that
  proof (induction ops arbitrary: e c evs)
    case (Cons op ops)
    obtain t d where t: "settled_call k (e, c) op = Some (t, d)" "observing_ok k (t, d)" "last_listener d \<le> last_listener c + 1"
      and evs: "listening (listenerCount e, evs) op = (listenerCount t, evs @ (if \<exists>a. op = EmNotify a \<and> 1 \<le> listenerCount e then [SOME a. op = EmNotify a] else []))"
        "js_events t = map (event_for k) (evs @ (if \<exists>a. op = EmNotify a \<and> 1 \<le> listenerCount e then [SOME a. op = EmNotify a] else []))"
    proof (cases op)
      case EmAdd
      with settled_add [OF Cons.prems(1)] Cons.prems(2,4) that show ?thesis by force
    next
      case (EmRemove n)
      with settled_remove [OF Cons.prems(1), of n] Cons.prems(3,4) that show ?thesis by (force simp: em_op_ok_def)
    next
      case (EmNotify a)
      with settled_notify [OF Cons.prems(1), of a] Cons.prems(4) that show ?thesis by force
    next
      case EmRun
      with Cons.prems(3) show ?thesis by (simp add: em_op_ok_def)
    qed
    have "last_listener d + length ops < 2 ^ 32 - 1" using t(3) Cons.prems(2) by simp
    from Cons.IH [OF t(2) this _ evs(2)] Cons.prems(3) t(1) evs(1) show ?case by simp
  qed simp
  moreover have "2 ^ 32 - 1 \<notin> set (map_ids (listenersList c))"
  proof
    assume "2 ^ 32 - 1 \<in> set (map_ids (listenersList c))"
    then have "2 ^ 32 - 1 \<le> last_listener c" using assms(1) by (auto simp: nc_ok_def live_ids_def)
    with assms(5) show False by simp
  qed
  then have "observing_ok k (new_emitter True, c)" using assms(1-4) by (simp add: observing_ok_def new_emitter_def)
  ultimately show ?thesis using assms(5,6) by (force simp: new_emitter_def)
qed

text \<open>When JavaScript unsubscribes and subscribes again before the event thread gets to the first
  registration, both registrations are carried out, and every event is sent twice.\<close>

theorem quick_resubscription_doubles:
  assumes "nc_ok c" and "tasks c = []" and "firing c = None" and "am_find (listenersList c) (tvEventName k) = None"
    and "last_listener c + 2 < 2 ^ 32"
  shows "\<exists>e d. run_opt (em_do k) (new_emitter True, c) [EmAdd, EmRemove 1, EmAdd, EmRun, EmRun, EmNotify a, EmRun, EmRun, EmRun] = Some (e, d) \<and>
    listenerCount e = 1 \<and> js_events e = [event_for k a, event_for k a]"
proof -
  have "\<forall>i \<in> set (map_ids (listenersList c)). i \<le> last_listener c"
    using assms(1) live_settled [OF assms(2,3)] by (simp add: nc_ok_def)
  then have "last_listener c + 1 \<notin> set (map_ids (listenersList c))" by auto
  then have none: "remove_from (last_listener c + 1) (listenersList c) = listenersList c" by (rule remove_from_none)
  let ?n = "tvEventName k" and ?i = "last_listener c + 1"
  let ?l = "\<lparr>lid = ?i, lsig = em_sig k\<rparr>" and ?m = "\<lparr>lid = ?i + 1, lsig = em_sig k\<rparr>"
  let ?e = "\<lparr>listenerCount = 1, navEventId = ?i + 1, bridgeInstance = True, js_events = [], completed = 0, em_ids = {?i + 1, ?i}\<rparr>"
  let ?m1 = "am_put ?n [?l] (listenersList c)"
  let ?m2 = "am_put ?n [?l, ?m] ?m1"
  let ?c = "c\<lparr>last_listener := ?i + 1, listenersList := ?m2\<rparr>"
  have "run_opt (em_do k) (new_emitter True, c) [EmAdd, EmRemove 1, EmAdd] =
      Some (?e, c\<lparr>last_listener := ?i + 1, tasks := [AddTask ?n ?l, AddTask ?n ?m]\<rparr>)"
    using assms(2,5) none
    by (simp add: em_addListener_def em_removeListeners_def startObserving_def stopObserving_def new_emitter_def nc_addListener_def
        nc_removeListener_def Let_def)
  moreover have "em_do k (?e, c\<lparr>last_listener := ?i + 1, tasks := [AddTask ?n ?l, AddTask ?n ?m]\<rparr>) EmRun =
      Some (?e, c\<lparr>last_listener := ?i + 1, tasks := [AddTask ?n ?m], listenersList := ?m1\<rparr>)"
    using assms(3,4) by (simp add: em_run_def nc_run_def add_handler_def)
  moreover have "em_do k (?e, c\<lparr>last_listener := ?i + 1, tasks := [AddTask ?n ?m], listenersList := ?m1\<rparr>) EmRun = Some (?e, ?c)"
    using assms(2,3) by (simp add: em_run_def nc_run_def add_handler_def am_find_put)
  moreover have "run_opt (em_do k) (?e, ?c) [EmNotify a, EmRun, EmRun, EmRun] =
      Some (?e\<lparr>js_events := [event_for k a, event_for k a]\<rparr>, ?c\<lparr>fired := fired c @ [(?i, a), (?i + 1, a)], stray_unlocks := Suc (stray_unlocks c)\<rparr>)"
    using assms(2,3) by (simp add: nc_emit_def em_run_def nc_run_def am_find_put handle_notification_def sendEventWithName_def)
  ultimately have "run_opt (em_do k) (new_emitter True, c) ([EmAdd, EmRemove 1, EmAdd] @ [EmRun, EmRun] @ [EmNotify a, EmRun, EmRun, EmRun]) =
      Some (?e\<lparr>js_events := [event_for k a, event_for k a]\<rparr>, ?c\<lparr>fired := fired c @ [(?i, a), (?i + 1, a)], stray_unlocks := Suc (stray_unlocks c)\<rparr>)"
    unfolding run_opt_append by (simp del: em_do.simps)
  then show ?thesis by auto
qed

text \<open>An event for which JavaScript listens is sent through the bridge without testing that there is one,
  although its absence is noticed.\<close>

theorem missing_bridge_faults:
  "sendEventWithName name p cb e = None \<longleftrightarrow> 1 \<le> listenerCount e \<and> \<not> bridgeInstance e"
  by (simp add: sendEventWithName_def)

text \<open>The events of the application manager reach JavaScript exactly while it listens, in their order.\<close>

theorem app_state_events_sent:
  assumes "bridgeInstance e" and "run_opt (\<lambda>e ev. app_state_event ev e) e evs = Some t"
  shows "map fst (js_events t) = map fst (js_events e) @ (if 1 \<le> listenerCount e
      then map (\<lambda>ev. case ev of OnChange a \<Rightarrow> ''appStateDidChange'' | OnMemoryWarning \<Rightarrow> ''memoryWarning'' | _ \<Rightarrow> ''appStateFocusChange'') evs else [])"
  using assms
proof (induction evs arbitrary: e)
  case (Cons ev evs)
  then obtain u where u: "app_state_event ev e = Some u" "run_opt (\<lambda>e ev. app_state_event ev e) u evs = Some t" by (auto split: bind_splits)
  then have "bridgeInstance u" "listenerCount u = listenerCount e" "map fst (js_events u) = map fst (js_events e) @ (if 1 \<le> listenerCount e
      then [case ev of OnChange a \<Rightarrow> ''appStateDidChange'' | OnMemoryWarning \<Rightarrow> ''memoryWarning'' | _ \<Rightarrow> ''appStateFocusChange''] else [])"
    using Cons.prems(1) by (auto simp: app_state_event_def sendEventWithName_def split: app_event.splits if_splits)
  with Cons.IH [OF _ u(2)] show ?case by simp
qed simp

section \<open>Examples\<close>

text \<open>\<open>RSkTVNavigationEventEmitter\<close>.\<close>

definition tv_kind :: em_kind where
  "tv_kind = \<lparr>tvEventName = ''RCTTVNavigationEventNotification'', em_sig = 0, event_for = (\<lambda>a. (''onHWKeyEvent'', Some a))\<rparr>"

lemma settled_emitter_listens_witness:
  "\<exists>e d. run_opt (settled_call tv_kind) (new_emitter True, nc_init) [EmNotify [1], EmAdd, EmAdd, EmNotify [2], EmRemove 1, EmNotify [3], EmRemove 1, EmNotify [4]] = Some (e, d) \<and>
     listenerCount e = 0 \<and> js_events e = [(''onHWKeyEvent'', Some [2]), (''onHWKeyEvent'', Some [3])]"
  using settled_emitter_listens [OF nc_init_ok, of tv_kind "[EmNotify [1], EmAdd, EmAdd, EmNotify [2], EmRemove 1, EmNotify [3], EmRemove 1, EmNotify [4]]"]
  by (simp add: nc_init_def em_op_ok_def tv_kind_def)

lemma quick_resubscription_doubles_witness:
  "\<exists>e d. run_opt (em_do tv_kind) (new_emitter True, nc_init) [EmAdd, EmRemove 1, EmAdd, EmRun, EmRun, EmNotify [31], EmRun, EmRun, EmRun] = Some (e, d) \<and>
     listenerCount e = 1 \<and> js_events e = [(''onHWKeyEvent'', Some [31]), (''onHWKeyEvent'', Some [31])]"
  using quick_resubscription_doubles [OF nc_init_ok, of tv_kind "[31]"] by (simp add: nc_init_def tv_kind_def del: em_do.simps)

lemma app_state_events_sent_witness:
  "\<exists>t. run_opt (\<lambda>e ev. app_state_event ev e) (new_emitter True) [OnChange [0], OnFocus] = Some t \<and> map fst (js_events t) = []"
proof -
  obtain t where t: "run_opt (\<lambda>e ev. app_state_event ev e) (new_emitter True) [OnChange [0], OnFocus] = Some t"
    by (simp add: app_state_event_def sendEventWithName_def new_emitter_def)
  from app_state_events_sent [OF _ this] show ?thesis using t by (simp add: new_emitter_def)
qed

end
