(* ===== verification/TextDrawing.thy ===== *)
theory TextDrawing imports ViewDrawing begin

text \<open>
  Text: the attributes that paragraphs are built from and their measurement (\<open>RSkTextLayoutManager.cpp\<close>), the
  lines and the position of a paragraph (\<open>RSkTextUtils.cpp\<close>), and the paragraph component
  (\<open>RSkComponentText.cpp\<close>).

  A built paragraph is its style and the styled pieces of text that were added to the builder. What Skia
  computes for a paragraph that is laid out in a width, and the default attributes of React Native, are the fields of
  a record \<open>text_api\<close> that the model takes as an argument. A number that may be \<open>NaN\<close> is an option.
\<close>

section \<open>Attributes\<close>

datatype TextAlignment = Natural | LeftAlignment | CenterAlignment | RightAlignment | Justified
datatype TextAlign = kAlignStart | kAlignLeft | kAlignRight | kAlignCenter | kAlignJustify
datatype FontWeight = Weight100 | Weight200 | Weight300 | Regular | Weight500 | Weight600 | Bold | Weight800 | Weight900
datatype sk_weight = kThin_Weight | kExtraLight_Weight | kLight_Weight | kNormal_Weight | kMedium_Weight | kSemiBold_Weight
  | kBold_Weight | kExtraBold_Weight | kBlack_Weight
datatype FontStyle = NormalStyle | Italic | Oblique
datatype sk_slant = kUpright_Slant | kItalic_Slant
datatype TextDecorationLineType = NoLine | Underline | Strikethrough | UnderlineStrikethrough
datatype EllipsizeMode = Clip | Head | Tail | Middle

text \<open>A decoration of Skia is whether it underlines and whether it strikes through.\<close>

type_synonym sk_decoration = "bool \<times> bool"

definition convertTextAlign :: "TextAlignment \<Rightarrow> TextAlign" where
  "convertTextAlign a =
     (case a of Natural \<Rightarrow> kAlignLeft | LeftAlignment \<Rightarrow> kAlignLeft | CenterAlignment \<Rightarrow> kAlignCenter
      | RightAlignment \<Rightarrow> kAlignRight | Justified \<Rightarrow> kAlignJustify)"

text \<open>The ratio is 255.9999.\<close>

definition convertTextColor :: "('c, 'm, 'i) draw_api \<Rightarrow> 'c shared_color \<Rightarrow> sk_color" where
  "convertTextColor d c =
     (let v = colorComponentsFromColor d (color_value d c); ratio = 2559999 / 10000
      in SkARGB (trunc (alpha v * ratio)) (trunc (red v * ratio)) (trunc (green v * ratio)) (trunc (blue v * ratio)))"

definition convertFontStyle :: "FontStyle \<Rightarrow> sk_slant" where
  "convertFontStyle s = (case s of Italic \<Rightarrow> kItalic_Slant | _ \<Rightarrow> kUpright_Slant)"

definition convertFontWeight :: "FontWeight \<Rightarrow> sk_weight" where
  "convertFontWeight w =
     (case w of Weight100 \<Rightarrow> kThin_Weight | Weight200 \<Rightarrow> kExtraLight_Weight | Weight300 \<Rightarrow> kLight_Weight
      | Weight500 \<Rightarrow> kMedium_Weight | Weight600 \<Rightarrow> kSemiBold_Weight | Weight800 \<Rightarrow> kExtraBold_Weight
      | Weight900 \<Rightarrow> kBlack_Weight | Bold \<Rightarrow> kBold_Weight | Regular \<Rightarrow> kNormal_Weight)"

definition convertDecoration :: "TextDecorationLineType \<Rightarrow> sk_decoration" where
  "convertDecoration l =
     (case l of Underline \<Rightarrow> (True, False) | Strikethrough \<Rightarrow> (False, True) | UnderlineStrikethrough \<Rightarrow> (True, True) | NoLine \<Rightarrow> (False, False))"

record 'c text_attributes =
  ta_fontFamily :: string
  ta_fontSize :: "scalar option"
  ta_fontSizeMultiplier :: "scalar option"
  ta_fontWeight :: "FontWeight option"
  ta_fontStyle :: "FontStyle option"
  ta_letterSpacing :: "scalar option"
  ta_lineHeight :: "scalar option"
  ta_alignment :: "TextAlignment option"
  ta_textAlignVertical :: string
  ta_decorationLine :: "TextDecorationLineType option"
  ta_foregroundColor :: "'c shared_color"
  ta_backgroundColor :: "'c shared_color"
  ta_decorationColor :: "'c shared_color"
  ta_shadowOffset :: "(scalar \<times> scalar) option"
  ta_shadowRadius :: "scalar option"
  ta_shadowColor :: "'c shared_color"

text \<open>A piece of an attributed string: text, or a view of which the size is known.\<close>

datatype 'c fragment = TextFragment string "'c text_attributes" | Attachment scalar scalar

definition isAttachment :: "'c fragment \<Rightarrow> bool" where
  "isAttachment f = (case f of Attachment w h \<Rightarrow> True | _ \<Rightarrow> False)"

text \<open>A fragment that is a view has attributes as well, of which only the vertical alignment is looked at. The
  model gives it none.\<close>

definition align_vertical :: "'c fragment \<Rightarrow> string" where
  "align_vertical f = (case f of TextFragment s a \<Rightarrow> ta_textAlignVertical a | _ \<Rightarrow> '''')"

section \<open>Paragraphs of Skia\<close>

record text_shadow =
  ts_color :: sk_color
  ts_offset :: "scalar \<times> scalar"
  ts_radius :: scalar

record text_style =
  st_fontSize :: scalar
  st_fontFamily :: string
  st_weight :: sk_weight
  st_slant :: sk_slant
  st_height :: "scalar option"
  st_decoration :: sk_decoration
  st_shadows :: "text_shadow list"
  st_letterSpacing :: scalar
  st_colors :: "(sk_color \<times> sk_color \<times> sk_color) option"

text \<open>\<open>ps_maxLines\<close> is \<open>None\<close> for the largest number.\<close>

record para_style =
  ps_align :: TextAlign
  ps_maxLines :: "nat option"
  ps_ellipsis :: bool

record sk_paragraph =
  pg_style :: para_style
  pg_runs :: "(text_style \<times> string) list"

record line_metrics =
  fBaseline :: scalar
  fLineNumber :: nat

record 'c text_api =
  getLineMetrics :: "sk_paragraph \<Rightarrow> scalar \<Rightarrow> line_metrics list"
  getHeight :: "sk_paragraph \<Rightarrow> scalar \<Rightarrow> scalar"
  getMaxIntrinsicWidth :: "sk_paragraph \<Rightarrow> scalar \<Rightarrow> scalar"
  getMaxWidth :: "sk_paragraph \<Rightarrow> scalar \<Rightarrow> scalar"
  default_fontSize :: scalar
  default_fontSizeMultiplier :: scalar
  default_foregroundColor :: "'c shared_color"
  default_backgroundColor :: "'c shared_color"

text \<open>\<open>RSkSkTextLayout\<close>: the builder holds the style and the pieces that the next paragraph is built from.\<close>

record text_layout =
  tl_shadow :: text_shadow
  tl_paraStyle :: para_style
  tl_paragraph :: "(sk_paragraph \<times> scalar option) option"
  tl_builder :: "sk_paragraph option"

definition new_text_layout :: text_layout where
  "new_text_layout = \<lparr>tl_shadow = \<lparr>ts_color = SK_ColorBLACK, ts_offset = (0, 0), ts_radius = 0\<rparr>,
     tl_paraStyle = \<lparr>ps_align = kAlignStart, ps_maxLines = None, ps_ellipsis = False\<rparr>, tl_paragraph = None, tl_builder = None\<rparr>"

section \<open>Building\<close>

text \<open>A new builder starts from the style of the paragraph.\<close>

definition new_builder :: "text_layout \<Rightarrow> text_layout" where
  "new_builder lay = lay\<lparr>tl_builder := Some \<lparr>pg_style = tl_paraStyle lay, pg_runs = []\<rparr>\<rparr>"

definition positive_or :: "scalar option \<Rightarrow> scalar \<Rightarrow> scalar" where
  "positive_or x y = (case x of Some v \<Rightarrow> if 0 < v then v else y | None \<Rightarrow> y)"

definition value_or :: "'a option \<Rightarrow> 'a \<Rightarrow> 'a" where
  "value_or x y = (case x of Some v \<Rightarrow> v | None \<Rightarrow> y)"

definition color_or :: "'c shared_color \<Rightarrow> 'c shared_color \<Rightarrow> 'c shared_color" where
  "color_or x y = (if x = None then y else x)"

definition shadow_step :: "'c text_attributes \<Rightarrow> text_shadow \<Rightarrow> text_shadow" where
  "shadow_step a sh =
     (let (dx, dy) = value_or (ta_shadowOffset a) (0, 0)
      in sh\<lparr>ts_offset := (fst (ts_offset sh) + dx, snd (ts_offset sh) + dy)\<rparr>)"

definition run_style :: "('c, 'm, 'i) draw_api \<Rightarrow> 'c text_api \<Rightarrow> bool \<Rightarrow> text_shadow \<Rightarrow> 'c text_attributes \<Rightarrow> text_style" where
  "run_style d api decorated sh a =
     (let fontSize = positive_or (ta_fontSize a) (default_fontSize api);
          offset = value_or (ta_shadowOffset a) (0, 0)
      in \<lparr>st_fontSize = fontSize * value_or (ta_fontSizeMultiplier a) (default_fontSizeMultiplier api),
          st_fontFamily = ta_fontFamily a,
          st_weight = (case ta_fontWeight a of Some w \<Rightarrow> convertFontWeight w | None \<Rightarrow> kNormal_Weight),
          st_slant = (case ta_fontStyle a of Some s \<Rightarrow> convertFontStyle s | None \<Rightarrow> kUpright_Slant),
          st_height = (case ta_lineHeight a of Some h \<Rightarrow> if 0 < h then Some (h / fontSize) else None | None \<Rightarrow> None),
          st_decoration = (case ta_decorationLine a of Some l \<Rightarrow> convertDecoration l | None \<Rightarrow> (False, False)),
          st_shadows = (if ta_backgroundColor a = None then [sh, shadow_step a sh] else []) @
            [\<lparr>ts_color = convertTextColor d (color_or (ta_shadowColor a) (ta_foregroundColor a)), ts_offset = offset,
              ts_radius = positive_or (ta_shadowRadius a) 0\<rparr>],
          st_letterSpacing = value_or (ta_letterSpacing a) 0,
          st_colors = (if decorated
            then Some (convertTextColor d (color_or (ta_foregroundColor a) (default_foregroundColor api)),
                       convertTextColor d (color_or (ta_backgroundColor a) (default_backgroundColor api)),
                       convertTextColor d (color_or (ta_decorationColor a) (ta_foregroundColor a)))
            else None)\<rparr>)"

text \<open>The text is taken up to its first zero character.\<close>

definition buildText ::
    "('c, 'm, 'i) draw_api \<Rightarrow> 'c text_api \<Rightarrow> bool \<Rightarrow> 'c text_attributes \<Rightarrow> string \<Rightarrow> text_layout \<Rightarrow> text_layout" where
  "buildText d api decorated a s lay =
     (let style = run_style d api decorated (tl_shadow lay) a;
          ps = (tl_paraStyle lay)\<lparr>ps_align := (case ta_alignment a of Some x \<Rightarrow> convertTextAlign x | None \<Rightarrow> ps_align (tl_paraStyle lay)),
                                 ps_maxLines := None\<rparr>
      in lay\<lparr>tl_shadow := if ta_backgroundColor a = None then shadow_step a (tl_shadow lay) else tl_shadow lay,
            tl_paraStyle := ps,
            tl_builder := map_option (\<lambda>b. \<lparr>pg_style = ps, pg_runs = pg_runs b @ [(style, takeWhile (\<lambda>c. c \<noteq> CHR 0x00) s)]\<rparr>) (tl_builder lay)\<rparr>)"

definition build_step :: "('c, 'm, 'i) draw_api \<Rightarrow> 'c text_api \<Rightarrow> bool \<Rightarrow> 'c fragment \<Rightarrow> text_layout \<times> nat \<Rightarrow> text_layout \<times> nat" where
  "build_step d api decorated f s =
     (case f of
        Attachment w h \<Rightarrow> (fst s, Suc (snd s))
      | TextFragment t a \<Rightarrow> (buildText d api decorated a t (fst s), snd s))"

definition buildParagraph ::
    "('c, 'm, 'i) draw_api \<Rightarrow> 'c text_api \<Rightarrow> bool \<Rightarrow> 'c fragment list \<Rightarrow> text_layout \<Rightarrow> text_layout \<times> nat" where
  "buildParagraph d api decorated fs lay = fold (build_step d api decorated) fs (lay, 0)"

section \<open>Measuring\<close>

definition calculateFramePoint :: "scalar \<times> scalar \<Rightarrow> scalar \<times> scalar \<Rightarrow> scalar \<Rightarrow> scalar \<times> scalar" where
  "calculateFramePoint origin rect layoutWidth =
     (if fst origin + fst rect < layoutWidth then (fst origin + fst rect, snd origin)
      else (fst rect - (layoutWidth - fst origin), snd origin + snd rect))"

text \<open>The size of the text and its attachments. The paragraph that is measured has no width limit of its own.\<close>

definition doMeasure ::
    "('c, 'm, 'i) draw_api \<Rightarrow> 'c text_api \<Rightarrow> 'c fragment list \<Rightarrow> scalar \<Rightarrow> (scalar \<times> scalar) \<times> (scalar \<times> scalar) list" where
  "doMeasure d api fs maxWidth =
     (let p = the (tl_builder (fst (buildParagraph d api False fs (new_builder new_text_layout))));
          width = (if getMaxIntrinsicWidth api p maxWidth < getMaxWidth api p maxWidth
                   then getMaxIntrinsicWidth api p maxWidth else getMaxWidth api p maxWidth);
          height = getHeight api p maxWidth;
          sizes = List.map_filter (\<lambda>f. case f of Attachment w h \<Rightarrow> Some (w, h) | _ \<Rightarrow> None) fs;
          point = foldl (\<lambda>q r. calculateFramePoint q r maxWidth) (calculateFramePoint (0, 0) (width, height) maxWidth) sizes
      in ((width, if sizes \<noteq> [] then snd point + snd (last sizes) else height), sizes))"

section \<open>Lines\<close>

definition getLines :: "line_metrics list \<Rightarrow> scalar \<Rightarrow> nat" where
  "getLines metrics frameHeight =
     (case find (\<lambda>m. frameHeight < fBaseline m) metrics of Some m \<Rightarrow> fLineNumber m | None \<Rightarrow> length metrics)"

definition getTextLines :: "line_metrics list \<Rightarrow> nat \<Rightarrow> scalar \<Rightarrow> nat" where
  "getTextLines metrics maxLines frameHeight =
     (let n = getLines metrics frameHeight in if maxLines \<noteq> 0 \<and> n \<noteq> 0 \<and> maxLines < n then maxLines else n)"

text \<open>A fragment decides if it is aligned to the center or the bottom.\<close>

definition yPosOffset :: "'c fragment list \<Rightarrow> scalar \<Rightarrow> scalar \<Rightarrow> scalar" where
  "yPosOffset fs paraHeight frameHeight =
     (case find (\<lambda>f. paraHeight < frameHeight \<and> (align_vertical f = ''center'' \<or> align_vertical f = ''bottom'')) fs of
        Some f \<Rightarrow> if align_vertical f = ''center'' then (frameHeight - paraHeight) / 2 else frameHeight - paraHeight
      | None \<Rightarrow> 0)"

record layout_metrics =
  lm_frame :: f_rect
  lm_content :: "scalar \<times> scalar"
  lm_insets :: "scalar \<times> scalar"

text \<open>The builder and the paragraph exist when the lines are set.\<close>

definition setTextLines :: "'c text_api \<Rightarrow> layout_metrics \<Rightarrow> nat \<Rightarrow> EllipsizeMode \<Rightarrow> text_layout \<Rightarrow> text_layout" where
  "setTextLines api lm maxLines mode lay =
     (let p = fst (the (tl_paragraph lay));
          n = getTextLines (getLineMetrics api p (fst (lm_content lm))) maxLines (snd (lm_content lm))
      in if n \<noteq> 0
         then let ps = (tl_paraStyle lay)\<lparr>ps_maxLines := Some n, ps_ellipsis := ps_ellipsis (tl_paraStyle lay) \<or> maxLines \<noteq> 0 \<and> mode = Tail\<rparr>;
                  b = (the (tl_builder lay))\<lparr>pg_style := ps\<rparr>
              in lay\<lparr>tl_paraStyle := ps, tl_builder := Some b, tl_paragraph := Some (b, Some (fst (lm_content lm)))\<rparr>
         else lay\<lparr>tl_paragraph := Some (p, Some (fst (lm_content lm)))\<rparr>)"

section \<open>Painting\<close>

datatype ('m, 'i) text_op =
    ViewOps "('m, 'i) canvas_op list"
  | SaveText
  | ClipText scalar scalar scalar scalar
  | FillColor sk_color
  | PaintParagraph sk_paragraph scalar scalar
  | RestoreText

text \<open>\<open>drawText\<close> as it is called by a paragraph of its own (\<open>isParent\<close> is false).\<close>

definition drawText ::
    "('c, 'm, 'i) draw_api \<Rightarrow> 'c text_api \<Rightarrow> sk_paragraph \<times> scalar option \<Rightarrow> 'c fragment list \<Rightarrow> layout_metrics \<Rightarrow> 'c shared_color \<Rightarrow>
      ('m, 'i) text_op list" where
  "drawText d api p fs lm bg =
     (let fr = lm_frame lm;
          col = RSkColorFromSharedColor d bg SK_ColorTRANSPARENT;
          y = yPosOffset fs (case snd p of Some w \<Rightarrow> getHeight api (fst p) w | None \<Rightarrow> 0) (snd (lm_content lm))
      in [SaveText, ClipText (rx fr) (ry fr) (rw fr) (rh fr)] @
         (if bg \<noteq> None \<and> col \<noteq> SK_ColorTRANSPARENT \<and> getA col \<noteq> 0 then [FillColor col] else []) @
         [PaintParagraph (fst p) (rx fr + fst (lm_insets lm)) (ry fr + snd (lm_insets lm) + y), RestoreText])"

record 'c paragraph_props =
  pp_fragments :: "'c fragment list"
  pp_maxLines :: nat
  pp_ellipsizeMode :: EllipsizeMode
  pp_background :: "'c shared_color"
  pp_border :: "'c border_metrics"

text \<open>\<open>RSkComponentParagraph::OnPaint\<close>. The result has what the component keeps: the layout and the two
  counters.\<close>

record para_comp =
  textLayout :: text_layout
  expectedAttachmentCount :: nat
  currentAttachmentCount :: nat

definition new_para_comp :: para_comp where
  "new_para_comp = \<lparr>textLayout = new_text_layout, expectedAttachmentCount = 0, currentAttachmentCount = 0\<rparr>"

definition para_OnPaint ::
    "sk_rect_api \<Rightarrow> ('c, 'm, 'i) draw_api \<Rightarrow> 'c text_api \<Rightarrow> layout_metrics \<Rightarrow> 'c paragraph_props \<Rightarrow> ('m, 'i) layer_style \<Rightarrow>
      para_comp \<Rightarrow> ('m, 'i) text_op list \<times> para_comp" where
  "para_OnPaint sk d api lm pr l c =
     (let lay0 = new_builder (textLayout c);
          lay1 = (if isShadowVisible l
                 then lay0\<lparr>tl_shadow := \<lparr>ts_color = shadowColor l, ts_offset = shadowOffset l, ts_radius = shadowRadius l\<rparr>\<rparr> else lay0);
          (lay2, n) = buildParagraph d api True (pp_fragments pr) lay1;
          lay3 = lay2\<lparr>tl_paragraph := map_option (\<lambda>b. (b, None)) (tl_builder lay2)\<rparr>
      in if n \<noteq> 0 then ([], \<lparr>textLayout = lay3, expectedAttachmentCount = n, currentAttachmentCount = 0\<rparr>)
         else let lay4 = setTextLines api lm (pp_maxLines pr) (pp_ellipsizeMode pr) lay3
              in ((if isShadowVisible l
                   then [ViewOps (fst (drawShadow sk d (lm_frame lm) (pp_border pr) (pp_background pr) (shadowColor l) (shadowOffset l)
                                         (shadowOpacity l) (layerOpacity l) (shadowImageFilter l) (shadowMaskFilter l)))] else []) @
                  drawText d api (the (tl_paragraph lay4)) (pp_fragments pr) lm (pp_background pr) @
                  [ViewOps (drawBorder d (lm_frame lm) (pp_border pr) (pp_background pr))],
                  \<lparr>textLayout = lay4, expectedAttachmentCount = n, currentAttachmentCount = 0\<rparr>))"

section \<open>Building, painting\<close>

lemma build_step_simps [simp]: "build_step d api b (TextFragment t a) s = (buildText d api b a t (fst s), snd s)"
    "build_step d api b (Attachment w h) s = (fst s, Suc (snd s))"
  by (simp_all add: build_step_def)

lemma build_count: "snd (fold (build_step d api b) fs (lay, n)) = n + length (filter isAttachment fs)"
  by (induction fs arbitrary: lay n) (auto simp: build_step_def isAttachment_def split: fragment.splits)

lemma attachments_counted: "snd (buildParagraph d api b fs lay) = length (filter isAttachment fs)"
  by (simp add: buildParagraph_def build_count)

text \<open>The text of a fragment, and the alignment that it asks for.\<close>

definition run_text :: "'c fragment \<Rightarrow> string option" where
  "run_text f = (case f of TextFragment s a \<Rightarrow> Some (takeWhile (\<lambda>c. c \<noteq> CHR 0x00) s) | _ \<Rightarrow> None)"

definition run_align :: "'c fragment \<Rightarrow> TextAlignment option" where
  "run_align f = (case f of TextFragment s a \<Rightarrow> ta_alignment a | _ \<Rightarrow> None)"

definition run_shadow :: "'c fragment \<Rightarrow> text_shadow \<Rightarrow> text_shadow" where
  "run_shadow f sh = (case f of TextFragment s a \<Rightarrow> if ta_backgroundColor a = None then shadow_step a sh else sh | _ \<Rightarrow> sh)"

lemma build_runs:
  assumes "tl_builder lay = Some p"
  shows "\<exists>q. tl_builder (fst (fold (build_step d api b) fs (lay, n))) = Some q \<and>
    map snd (pg_runs q) = map snd (pg_runs p) @ List.map_filter run_text fs"
  using assms
proof (induction fs arbitrary: lay n p)
  case (Cons f fs)
  show ?case
  proof (cases f)
    case (TextFragment s a)
    have b: "tl_builder (buildText d api b a s lay) = Some \<lparr>pg_style = tl_paraStyle (buildText d api b a s lay),
        pg_runs = pg_runs p @ [(run_style d api b (tl_shadow lay) a, takeWhile (\<lambda>c. c \<noteq> CHR 0x00) s)]\<rparr>"
      using Cons.prems by (simp add: buildText_def Let_def)
    from Cons.IH [OF b, of n] TextFragment show ?thesis by (auto simp: build_step_def map_filter_simps run_text_def)
  next
    case (Attachment w h)
    from Cons.IH [OF Cons.prems, of "Suc n"] Attachment show ?thesis by (simp add: build_step_def map_filter_simps run_text_def)
  qed
qed (simp add: map_filter_simps)

lemma build_align: "ps_align (tl_paraStyle (fst (fold (build_step d api b) fs (lay, n)))) =
    (case find (\<lambda>f. run_align f \<noteq> None) (rev fs) of Some f \<Rightarrow> convertTextAlign (the (run_align f)) | None \<Rightarrow> ps_align (tl_paraStyle lay))"
proof (induction fs arbitrary: lay n)
  case (Cons f fs)
  have app: "find P (xs @ ys) = (case find P xs of None \<Rightarrow> find P ys | Some x \<Rightarrow> Some x)" for P and xs ys :: "'a fragment list"
    by (induction xs) auto
  show ?case
    by (cases f) (auto simp: Cons.IH app buildText_def Let_def run_align_def split: option.splits)
qed simp

lemma build_shadow: "tl_shadow (fst (fold (build_step d api b) fs (lay, n))) = fold run_shadow fs (tl_shadow lay)"
  by (induction fs arbitrary: lay n) (auto simp: build_step_def buildText_def run_shadow_def Let_def split: fragment.splits)

lemma build_ellipsis: "ps_ellipsis (tl_paraStyle (fst (fold (build_step d api b) fs (lay, n)))) = ps_ellipsis (tl_paraStyle lay)"
  by (induction fs arbitrary: lay n) (auto simp: build_step_def buildText_def Let_def split: fragment.splits)

lemma build_maxLines: "\<exists>f \<in> set fs. \<not> isAttachment f \<Longrightarrow>
    ps_maxLines (tl_paraStyle (fst (fold (build_step d api b) fs (lay, n)))) = None"
proof (induction fs arbitrary: lay n rule: rev_induct)
  case (snoc f fs)
  then show ?case
    by (cases f) (auto simp: build_step_def buildText_def Let_def isAttachment_def split: fragment.splits)
qed simp

definition with_shadow :: "('m, 'i) layer_style \<Rightarrow> text_layout \<Rightarrow> text_layout" where
  "with_shadow l lay = (if isShadowVisible l
     then lay\<lparr>tl_shadow := \<lparr>ts_color = shadowColor l, ts_offset = shadowOffset l, ts_radius = shadowRadius l\<rparr>\<rparr> else lay)"

lemma with_shadow_simps [simp]: "tl_builder (with_shadow l lay) = tl_builder lay" "tl_paraStyle (with_shadow l lay) = tl_paraStyle lay"
  "\<not> isShadowVisible l \<Longrightarrow> with_shadow l lay = lay"
  by (simp_all add: with_shadow_def)

lemma set_lines_keeps: "tl_shadow (setTextLines api lm m md lay) = tl_shadow lay"
    "ps_align (tl_paraStyle (setTextLines api lm m md lay)) = ps_align (tl_paraStyle lay)"
    "ps_ellipsis (tl_paraStyle lay) \<Longrightarrow> ps_ellipsis (tl_paraStyle (setTextLines api lm m md lay))"
  by (simp_all add: setTextLines_def Let_def)

lemma set_lines_runs:
  assumes "tl_builder lay = Some b" and "tl_paragraph lay = Some (b, w)"
  shows "\<exists>q. tl_paragraph (setTextLines api lm m md lay) = Some (q, Some (fst (lm_content lm))) \<and> pg_runs q = pg_runs b"
  using assms by (simp add: setTextLines_def Let_def)

text \<open>The layout that a component keeps after it was painted, without and with attachments.\<close>

definition built :: "('c, 'm, 'i) draw_api \<Rightarrow> 'c text_api \<Rightarrow> 'c paragraph_props \<Rightarrow> ('m, 'i) layer_style \<Rightarrow> para_comp \<Rightarrow> text_layout" where
  "built d api pr l c =
     (let lay = fst (fold (build_step d api True) (pp_fragments pr) (with_shadow l (new_builder (textLayout c)), 0))
      in lay\<lparr>tl_paragraph := map_option (\<lambda>b. (b, None)) (tl_builder lay)\<rparr>)"

lemma paint_cases:
  "para_OnPaint sk d api lm pr l c =
    (let n = length (filter isAttachment (pp_fragments pr))
     in if n \<noteq> 0 then ([], \<lparr>textLayout = built d api pr l c, expectedAttachmentCount = n, currentAttachmentCount = 0\<rparr>)
        else let lay = setTextLines api lm (pp_maxLines pr) (pp_ellipsizeMode pr) (built d api pr l c)
             in ((if isShadowVisible l
                   then [ViewOps (fst (drawShadow sk d (lm_frame lm) (pp_border pr) (pp_background pr) (shadowColor l) (shadowOffset l)
                                         (shadowOpacity l) (layerOpacity l) (shadowImageFilter l) (shadowMaskFilter l)))] else []) @
                  drawText d api (the (tl_paragraph lay)) (pp_fragments pr) lm (pp_background pr) @
                  [ViewOps (drawBorder d (lm_frame lm) (pp_border pr) (pp_background pr))],
                 \<lparr>textLayout = lay, expectedAttachmentCount = n, currentAttachmentCount = 0\<rparr>))"
  unfolding para_OnPaint_def built_def with_shadow_def [symmetric] Let_def attachments_counted split_def
  by (simp add: buildParagraph_def)

text \<open>A paragraph without views in it paints once, and what it paints is the text of its fragments,
  each up to its first zero character, in order.\<close>

theorem whole_text_painted:
  assumes "\<forall>f \<in> set (pp_fragments pr). \<not> isAttachment f"
  shows "\<exists>p x y. filter (\<lambda>op. case op of PaintParagraph q a b \<Rightarrow> True | _ \<Rightarrow> False) (fst (para_OnPaint sk d api lm pr l c)) = [PaintParagraph p x y] \<and>
    map snd (pg_runs p) = List.map_filter run_text (pp_fragments pr)"
proof -
  have none: "filter isAttachment (pp_fragments pr) = []" using assms by (simp add: filter_empty_conv)
  have "tl_builder (with_shadow l (new_builder (textLayout c))) = Some \<lparr>pg_style = tl_paraStyle (textLayout c), pg_runs = []\<rparr>"
    by (simp add: new_builder_def)
  from build_runs [OF this, of d api True "pp_fragments pr" 0] obtain b where b: "tl_builder (built d api pr l c) = Some b"
      "tl_paragraph (built d api pr l c) = Some (b, None)" "map snd (pg_runs b) = List.map_filter run_text (pp_fragments pr)"
    by (auto simp: built_def Let_def)
  from set_lines_runs [OF b(1,2)] obtain q where
    "tl_paragraph (setTextLines api lm (pp_maxLines pr) (pp_ellipsizeMode pr) (built d api pr l c)) = Some (q, Some (fst (lm_content lm)))"
    "pg_runs q = pg_runs b" by blast
  with b(3) none show ?thesis by (simp add: paint_cases drawText_def Let_def)
qed

text \<open>A paragraph with a view in it paints nothing, its text and border included.\<close>

theorem attachment_hides_text:
  assumes "f \<in> set (pp_fragments pr)" and "isAttachment f"
  shows "fst (para_OnPaint sk d api lm pr l c) = []"
proof -
  have "filter isAttachment (pp_fragments pr) \<noteq> []" using assms by (auto simp: filter_empty_conv)
  then show ?thesis by (simp add: paint_cases Let_def)
qed

text \<open>Without a visible shadow of the layer, the shadow of a text moves by its offset with every painting.\<close>

theorem text_shadow_drifts:
  assumes "\<not> isShadowVisible l" and "pp_fragments pr = [TextFragment s a]" and "ta_backgroundColor a = None" and "ta_shadowOffset a = Some (dx, dy)"
  shows "ts_offset (tl_shadow (textLayout (((\<lambda>c. snd (para_OnPaint sk d api lm pr l c)) ^^ n) new_para_comp))) = (of_nat n * dx, of_nat n * dy)"
proof (induction n)
  case 0
  show ?case by (simp add: new_para_comp_def new_text_layout_def)
next
  case (Suc n)
  have "tl_shadow (textLayout (snd (para_OnPaint sk d api lm pr l c))) = shadow_step a (tl_shadow (textLayout c))" for c
    using assms(1-3) by (simp add: paint_cases Let_def isAttachment_def set_lines_keeps built_def build_shadow build_step_def buildText_def new_builder_def)
  with Suc.IH assms(4) show ?case by (simp add: shadow_step_def value_or_def Let_def algebra_simps)
qed

text \<open>The alignment of a paragraph is the one of the last fragment that has one; when none has, it stays
  what it was when the paragraph was painted before.\<close>

theorem alignment_of_last_fragment:
  "ps_align (tl_paraStyle (textLayout (snd (para_OnPaint sk d api lm pr l c)))) =
    (case find (\<lambda>f. run_align f \<noteq> None) (rev (pp_fragments pr)) of
       Some f \<Rightarrow> convertTextAlign (the (run_align f)) | None \<Rightarrow> ps_align (tl_paraStyle (textLayout c)))"
  by (simp add: paint_cases Let_def set_lines_keeps built_def build_align new_builder_def split: option.splits)

text \<open>Once a limit of lines has put an ellipsis at the end, the paragraph keeps it for good, also without
  a limit.\<close>

theorem ellipsis_kept:
  assumes "ps_ellipsis (tl_paraStyle (textLayout c))"
  shows "ps_ellipsis (tl_paraStyle (textLayout (snd (para_OnPaint sk d api lm pr l c))))"
  using assms by (simp add: paint_cases Let_def set_lines_keeps built_def build_ellipsis new_builder_def)

section \<open>Lines and position\<close>

text \<open>Lines as Skia numbers them: from 0, from the top to the bottom.\<close>

definition metrics_ok :: "line_metrics list \<Rightarrow> bool" where
  "metrics_ok ms \<longleftrightarrow> sorted (map fBaseline ms) \<and> map fLineNumber ms = [0..<length ms]"

lemma find_prefix:
  assumes "sorted (map g xs)"
  shows "find (\<lambda>m. h < g m) xs =
    (let k = length (filter (\<lambda>m. g m \<le> (h :: scalar)) xs) in if k < length xs then Some (xs ! k) else None)"
  using assms
proof (induction xs)
  case (Cons x xs)
  show ?case
  proof (cases "h < g x")
    case True
    with Cons.prems have "\<forall>m \<in> set xs. \<not> g m \<le> h" by auto
    with True show ?thesis by (simp add: Let_def filter_empty_conv)
  next
    case False
    with Cons.IH Cons.prems show ?thesis by (simp add: Let_def)
  qed
qed simp

lemma lines_in_frame: "metrics_ok ms \<Longrightarrow> getLines ms h = length (filter (\<lambda>m. fBaseline m \<le> h) ms)"
proof -
  assume ok: "metrics_ok ms"
  let ?k = "length (filter (\<lambda>m. fBaseline m \<le> h) ms)"
  have "fLineNumber (ms ! ?k) = ?k" if "?k < length ms"
    using ok that nth_map [of ?k ms fLineNumber] by (simp add: metrics_ok_def)
  moreover have "\<not> ?k < length ms \<longrightarrow> length ms = ?k" using length_filter_le [of "\<lambda>m. fBaseline m \<le> h" ms] by linarith
  ultimately show ?thesis using ok by (auto simp: getLines_def find_prefix metrics_ok_def Let_def)
qed

text \<open>The lines asked for are those whose baseline is inside the frame, as far as the limit allows.\<close>

theorem lines_asked_for:
  assumes "metrics_ok ms"
  shows "getTextLines ms maxLines h =
    (let k = length (filter (\<lambda>m. fBaseline m \<le> h) ms) in if maxLines = 0 then k else min k maxLines)"
  using lines_in_frame [OF assms] by (auto simp: getTextLines_def Let_def)

theorem lines_asked_for_witness:
  "getTextLines [\<lparr>fBaseline = 10, fLineNumber = 0\<rparr>, \<lparr>fBaseline = 22, fLineNumber = 1\<rparr>, \<lparr>fBaseline = 34, fLineNumber = 2\<rparr>] 0 30 = 2"
  using lines_asked_for [of "[\<lparr>fBaseline = 10, fLineNumber = 0\<rparr>, \<lparr>fBaseline = 22, fLineNumber = 1\<rparr>, \<lparr>fBaseline = 34, fLineNumber = 2\<rparr>]" 0 30]
  by (simp add: metrics_ok_def Let_def upt_rec)

text \<open>In a frame lower than the first baseline the limit of lines is not set: the paragraph has no limit and gets
  no ellipsis.\<close>

theorem low_frame_ignores_limit:
  assumes "metrics_ok (getLineMetrics api p (fst (lm_content lm)))" and "tl_paragraph lay = Some (p, w)"
    and "\<forall>m \<in> set (getLineMetrics api p (fst (lm_content lm))). snd (lm_content lm) < fBaseline m"
  shows "setTextLines api lm maxLines mode lay = lay\<lparr>tl_paragraph := Some (p, Some (fst (lm_content lm)))\<rparr>"
proof -
  have "filter (\<lambda>m. fBaseline m \<le> snd (lm_content lm)) (getLineMetrics api p (fst (lm_content lm))) = []"
    using assms(3) by (auto simp: filter_empty_conv)
  with lines_in_frame [OF assms(1)] assms(2) show ?thesis
    by (simp add: setTextLines_def getTextLines_def)
qed

text \<open>A paragraph that is not higher than its frame is placed inside the frame.\<close>

theorem text_inside_frame:
  assumes "paraHeight \<le> frameHeight"
  shows "0 \<le> yPosOffset fs paraHeight frameHeight \<and> yPosOffset fs paraHeight frameHeight + paraHeight \<le> frameHeight"
  using assms by (auto simp: yPosOffset_def field_simps split: option.splits)

theorem text_inside_frame_witness:
  "0 \<le> yPosOffset ([] :: nat fragment list) 20 30 \<and> yPosOffset ([] :: nat fragment list) 20 30 + 20 \<le> (30 :: scalar)"
  by (rule text_inside_frame) simp

section \<open>Measuring\<close>

lemma sizes_of: "List.map_filter (\<lambda>f. case f of Attachment w h \<Rightarrow> Some (w, h) | _ \<Rightarrow> None) fs = [] \<longleftrightarrow> \<not> (\<exists>f \<in> set fs. isAttachment f)"
  by (induction fs) (auto simp: map_filter_simps isAttachment_def split: fragment.splits)

text \<open>The measured width is never more than the natural width of the text or the width it was laid out in, and
  without views the height is that of the paragraph.\<close>

theorem measured_size:
  assumes "\<forall>f \<in> set fs. \<not> isAttachment f"
  shows "\<exists>p. doMeasure d api fs maxWidth =
      ((min (getMaxIntrinsicWidth api p maxWidth) (getMaxWidth api p maxWidth), getHeight api p maxWidth), []) \<and>
    map snd (pg_runs p) = List.map_filter run_text fs"
proof -
  have "tl_builder (new_builder new_text_layout) = Some \<lparr>pg_style = tl_paraStyle new_text_layout, pg_runs = []\<rparr>"
    by (simp add: new_builder_def)
  from build_runs [OF this, of d api False fs 0] obtain b where
    "tl_builder (fst (buildParagraph d api False fs (new_builder new_text_layout))) = Some b" "map snd (pg_runs b) = List.map_filter run_text fs"
    by (auto simp: buildParagraph_def)
  moreover have "List.map_filter (\<lambda>f. case f of Attachment w h \<Rightarrow> Some (w, h) | _ \<Rightarrow> None) fs = []" using assms sizes_of by blast
  ultimately show ?thesis by (intro exI [of _ b]) (simp add: doMeasure_def Let_def min_def)
qed

text \<open>A view after a text that fits into one line is measured as if the text had no height: with a view
  lower than the text, the text is measured too low.\<close>

theorem view_shrinks_text:
  assumes "0 \<le> w" and "0 < maxWidth" and "vh < hh"
    and "\<And>p. getMaxIntrinsicWidth api p maxWidth = tw" and "\<And>p. getMaxWidth api p maxWidth = maxWidth" and "\<And>p. getHeight api p maxWidth = hh"
    and "tw + w < maxWidth"
  shows "snd (fst (doMeasure d api [TextFragment s a, Attachment w vh] maxWidth)) = vh \<and> vh < hh"
  using assms by (simp add: doMeasure_def map_filter_simps calculateFramePoint_def Let_def)

definition text_ref :: "nat text_api" where
  "text_ref = \<lparr>getLineMetrics = (\<lambda>p w. [\<lparr>fBaseline = 15, fLineNumber = 0\<rparr>]), getHeight = (\<lambda>p w. 20), getMaxIntrinsicWidth = (\<lambda>p w. 40),
     getMaxWidth = (\<lambda>p w. w), default_fontSize = 14, default_fontSizeMultiplier = 1, default_foregroundColor = Some 0, default_backgroundColor = None\<rparr>"

definition sample_attributes :: "nat text_attributes" where
  "sample_attributes = \<lparr>ta_fontFamily = '''', ta_fontSize = None, ta_fontSizeMultiplier = None, ta_fontWeight = Some Bold, ta_fontStyle = None,
     ta_letterSpacing = None, ta_lineHeight = None, ta_alignment = Some Justified, ta_textAlignVertical = ''center'', ta_decorationLine = None,
     ta_foregroundColor = Some 0, ta_backgroundColor = None, ta_decorationColor = None, ta_shadowOffset = Some (2, 3), ta_shadowRadius = None,
     ta_shadowColor = None\<rparr>"

definition sample_paragraph :: "nat fragment list \<Rightarrow> nat paragraph_props" where
  "sample_paragraph fs = \<lparr>pp_fragments = fs, pp_maxLines = 1, pp_ellipsizeMode = Tail, pp_background = None, pp_border = sample_border 0\<rparr>"

definition sample_lm :: layout_metrics where
  "sample_lm = \<lparr>lm_frame = sample_frame, lm_content = (100, 10), lm_insets = (0, 0)\<rparr>"

theorem view_shrinks_text_witness:
  "snd (fst (doMeasure draw_ref text_ref [TextFragment ''a'' sample_attributes, Attachment 10 5] 100)) = 5 \<and> (5 :: scalar) < 20"
  by (rule view_shrinks_text [where tw = 40 and hh = 20]) (simp_all add: text_ref_def)

theorem measured_size_witness:
  "\<exists>p. doMeasure draw_ref text_ref [TextFragment ''a'' sample_attributes] 100 =
      ((min (getMaxIntrinsicWidth text_ref p 100) (getMaxWidth text_ref p 100), getHeight text_ref p 100), []) \<and>
    map snd (pg_runs p) = List.map_filter run_text [TextFragment ''a'' sample_attributes]"
  by (rule measured_size) (simp add: isAttachment_def)

theorem whole_text_painted_witness:
  "\<exists>p x y. filter (\<lambda>op. case op of PaintParagraph q a b \<Rightarrow> True | _ \<Rightarrow> False)
      (fst (para_OnPaint sk_rect_ref draw_ref text_ref sample_lm (sample_paragraph [TextFragment ''a'' sample_attributes]) (sample_layer) new_para_comp)) = [PaintParagraph p x y] \<and>
    map snd (pg_runs p) = List.map_filter run_text (pp_fragments (sample_paragraph [TextFragment ''a'' sample_attributes]))"
  by (rule whole_text_painted) (simp add: sample_paragraph_def isAttachment_def)

theorem attachment_hides_text_witness:
  "fst (para_OnPaint sk_rect_ref draw_ref text_ref sample_lm (sample_paragraph [TextFragment ''a'' sample_attributes, Attachment 10 5]) sample_layer new_para_comp) = []"
  by (rule attachment_hides_text [of "Attachment 10 5"]) (simp_all add: sample_paragraph_def isAttachment_def)

theorem text_shadow_drifts_witness:
  "ts_offset (tl_shadow (textLayout (((\<lambda>c. snd (para_OnPaint sk_rect_ref draw_ref text_ref sample_lm (sample_paragraph [TextFragment ''a'' sample_attributes])
      (sample_layer\<lparr>isShadowVisible := False\<rparr>) c)) ^^ 5) new_para_comp))) = (of_nat 5 * 2, of_nat 5 * 3)"
  by (rule text_shadow_drifts [of _ _ "''a''" sample_attributes]) (simp_all add: sample_paragraph_def sample_attributes_def)

theorem ellipsis_kept_witness:
  "ps_ellipsis (tl_paraStyle (textLayout (snd (para_OnPaint sk_rect_ref draw_ref text_ref sample_lm (sample_paragraph []) sample_layer
     (new_para_comp\<lparr>textLayout := new_text_layout\<lparr>tl_paraStyle := \<lparr>ps_align = kAlignStart, ps_maxLines = None, ps_ellipsis = True\<rparr>\<rparr>\<rparr>)))))"
  by (rule ellipsis_kept) simp

theorem low_frame_ignores_limit_witness:
  "setTextLines text_ref sample_lm 1 Tail (new_text_layout\<lparr>tl_paragraph := Some (\<lparr>pg_style = tl_paraStyle new_text_layout, pg_runs = []\<rparr>, None)\<rparr>) =
    (new_text_layout\<lparr>tl_paragraph := Some (\<lparr>pg_style = tl_paraStyle new_text_layout, pg_runs = []\<rparr>, None)\<rparr>)
      \<lparr>tl_paragraph := Some (\<lparr>pg_style = tl_paraStyle new_text_layout, pg_runs = []\<rparr>, Some (fst (lm_content sample_lm)))\<rparr>"
  by (rule low_frame_ignores_limit) (simp_all add: text_ref_def sample_lm_def metrics_ok_def)

end
