(* ===== verification/MemoryMonitor.thy ===== *)
theory MemoryMonitor imports Prelude "HOL-Library.Monad_Syntax" begin

text \<open>
  The application manager of the Ubuntu plugin: memory pressure from the control group
  (\<open>ApplicationManagerCgroupMemory.cpp\<close>), and the managers that report it (\<open>ApplicationManager.cpp\<close>,
  \<open>RNSApplicationManagerInterface.cpp\<close>).

  Of the kernel the model keeps the open file descriptors and what is polled. Each call asks \<open>kfail\<close> whether it
  fails; \<open>kalloc\<close> is the number of a new descriptor. \<open>close\<close> releases its descriptor also when it reports an
  error, and releasing a descriptor ends its polling, as Linux does.
\<close>

section \<open>The kernel\<close>

record kern =
  kfail :: "nat \<Rightarrow> bool"
  kalloc :: "int list \<Rightarrow> int"
  kcalls :: nat
  kopen :: "int list"
  kpoll :: "(int \<times> int) list"

definition kalloc_ok :: "kern \<Rightarrow> bool" where
  "kalloc_ok k \<longleftrightarrow> (\<forall>l. 0 < kalloc k l \<and> kalloc k l \<notin> set l)"

text \<open>\<open>epoll_create\<close>, \<open>eventfd\<close> and \<open>open\<close>; a call that gives no descriptor; \<open>close\<close>.\<close>

definition k_open :: "kern \<Rightarrow> int \<times> kern" where
  "k_open k =
     (if kfail k (kcalls k) then (-1, k\<lparr>kcalls := Suc (kcalls k)\<rparr>)
      else (kalloc k (kopen k), k\<lparr>kcalls := Suc (kcalls k), kopen := kalloc k (kopen k) # kopen k\<rparr>))"

definition k_call :: "kern \<Rightarrow> bool \<times> kern" where
  "k_call k = (\<not> kfail k (kcalls k), k\<lparr>kcalls := Suc (kcalls k)\<rparr>)"

definition k_close :: "int \<Rightarrow> kern \<Rightarrow> kern" where
  "k_close fd k = k\<lparr>kcalls := Suc (kcalls k), kopen := filter (\<lambda>g. g \<noteq> fd) (kopen k), kpoll := filter (\<lambda>(e, g). e \<noteq> fd \<and> g \<noteq> fd) (kpoll k)\<rparr>"

text \<open>A write to an event descriptor; it fails for one that is not open.\<close>

definition k_signal :: "int \<Rightarrow> kern \<Rightarrow> bool \<times> kern" where
  "k_signal fd k = (let (ok, k') = k_call k in (ok \<and> fd \<in> set (kopen k), k'))"

section \<open>Watching the memory\<close>

text \<open>\<open>epfd_\<close> and \<open>exitEfd_\<close> have no initial value, \<open>memEfd_\<close> is 0. \<open>cg_worker\<close>: the thread was started.\<close>

record cgroup =
  epfd :: "int option"
  exitEfd :: "int option"
  memEfd :: int
  cg_worker :: bool

definition new_cgroup :: cgroup where
  "new_cgroup = \<lparr>epfd = None, exitEfd = None, memEfd = 0, cg_worker = False\<rparr>"

definition addToEpollWait :: "int \<Rightarrow> int \<Rightarrow> kern \<Rightarrow> bool \<times> kern" where
  "addToEpollWait ep fd k = (let (ok, k') = k_call k in (ok, if ok then k'\<lparr>kpoll := (ep, fd) # kpoll k'\<rparr> else k'))"

definition removeFromEpollWait :: "int \<Rightarrow> int \<Rightarrow> kern \<Rightarrow> bool \<times> kern" where
  "removeFromEpollWait ep fd k =
     (let (ok, k') = k_call k in (ok, if ok then k'\<lparr>kpoll := filter (\<lambda>p. p \<noteq> (ep, fd)) (kpoll k')\<rparr> else k'))"

text \<open>Close what was opened.\<close>

definition close_opened :: "int \<Rightarrow> kern \<Rightarrow> kern" where
  "close_opened fd k = (if 0 \<le> fd then k_close fd k else k)"

definition configureEventControl :: "int \<Rightarrow> int \<Rightarrow> kern \<Rightarrow> bool \<times> kern" where
  "configureEventControl ep eventFd k =
     (let (control, k1) = k_open k;
          (result, k2) = (if control = -1 then (False, k1)
                          else let (written, k') = k_call k1
                               in if \<not> written then (False, k') else addToEpollWait ep eventFd k')
      in (result, close_opened control k2))"

text \<open>\<open>startMonitoringCgroupMemoryPressure\<close> and \<open>startMonitoringCgroupMemoryThreshold\<close>, which differ in the file they
  open and in the text they write.\<close>

definition startMonitoring :: "int \<Rightarrow> kern \<Rightarrow> int \<times> kern" where
  "startMonitoring ep k =
     (let (eventFd, k1) = k_open k;
          (result, memoryFd, k2) =
            (if eventFd = -1 then (False, -1, k1)
             else let (f, k') = k_open k1
                  in if f = -1 then (False, f, k')
                     else let (r, k'') = configureEventControl ep eventFd k' in (r, f, k''));
          (eventFd', k3) = (if \<not> result then (if 0 \<le> eventFd then (-1, k_close eventFd k2) else (eventFd, k2)) else (eventFd, k2))
      in (eventFd', close_opened memoryFd k3))"

definition cg_new :: "kern \<Rightarrow> cgroup \<times> kern" where
  "cg_new k =
     (let (ep, k1) = k_open k
      in if ep < 0 then (new_cgroup\<lparr>epfd := Some ep\<rparr>, k1)
         else let (ex, k2) = k_open k1
              in if ex = -1 then (new_cgroup\<lparr>epfd := Some ep, exitEfd := Some ex\<rparr>, k2)
                 else let (ok, k3) = addToEpollWait ep ex k2
                      in if \<not> ok then (new_cgroup\<lparr>epfd := Some ep, exitEfd := Some ex\<rparr>, k3)
                         else let (m, k4) = startMonitoring ep k3
                              in (\<lparr>epfd = Some ep, exitEfd = Some ex, memEfd = m, cg_worker = True\<rparr>, k4))"

text \<open>The destructor. It faults when it reads a member that was never set, and when the thread is neither ended
  nor joined, for which \<open>std::thread\<close> ends the program.\<close>

datatype cg_fault = UninitializedMember | ThreadNotJoined

definition cg_destroy :: "cgroup \<Rightarrow> kern \<Rightarrow> cg_fault + kern" where
  "cg_destroy c k =
     (case (exitEfd c, epfd c) of
        (Some ex, Some ep) \<Rightarrow>
          (let (joined, k1) = (if ex \<noteq> 0 then k_signal ex k else (False, k));
               k2 = (if ep \<noteq> 0 then k_close ep k1 else k1);
               k3 = (if ex \<noteq> 0 then k_close ex k2 else k2)
           in if cg_worker c \<and> \<not> joined then Inl ThreadNotJoined else Inr k3)
      | _ \<Rightarrow> Inl UninitializedMember)"

text \<open>The thread: what \<open>epoll_wait\<close> gives is a batch of descriptors with whether reading them succeeds, or
  nothing for an error. The result is the notifications, and whether the thread has ended.\<close>

fun monitor_batch :: "int \<Rightarrow> (int \<times> bool) list \<Rightarrow> int list \<times> bool" where
  "monitor_batch ex [] = ([], False)"
| "monitor_batch ex ((fd, ok) # evs) =
     (if ex = fd then ([], True)
      else let (ns, e) = monitor_batch ex evs in (if ok then fd # ns else ns, e))"

fun monitorThread :: "int \<Rightarrow> (int \<times> bool) list option list \<Rightarrow> int list \<times> bool" where
  "monitorThread ex [] = ([], False)"
| "monitorThread ex (None # bs) = monitorThread ex bs"
| "monitorThread ex (Some b # bs) =
     (let (ns, e) = monitor_batch ex b in if e then (ns, True) else let (ns', e') = monitorThread ex bs in (ns @ ns', e'))"

section \<open>The managers\<close>

text \<open>A manager has a thread of its own; a task for a change of the state reads the state when it runs. What the
  clients are told is recorded.\<close>

datatype app_note = NoteChange string | NoteMemoryWarning | NoteFocus | NoteBlur

datatype app_task = TellState | Tell app_note

record app_manager =
  am_state :: string
  am_tasks :: "app_task list"

definition dispatchOnChange :: "string \<Rightarrow> app_manager \<Rightarrow> app_manager" where
  "dispatchOnChange next m =
     (if am_state m = next then m else m\<lparr>am_state := next, am_tasks := am_tasks m @ [TellState]\<rparr>)"

definition dispatchOnMemoryWarning :: "app_manager \<Rightarrow> app_manager" where
  "dispatchOnMemoryWarning m = m\<lparr>am_tasks := am_tasks m @ [Tell NoteMemoryWarning]\<rparr>"

definition dispatchOnFocus :: "app_manager \<Rightarrow> app_manager" where
  "dispatchOnFocus m = m\<lparr>am_tasks := am_tasks m @ [Tell NoteFocus]\<rparr>"

definition dispatchOnBlur :: "app_manager \<Rightarrow> app_manager" where
  "dispatchOnBlur m = m\<lparr>am_tasks := am_tasks m @ [Tell NoteBlur]\<rparr>"

definition new_app_manager :: app_manager where
  "new_app_manager = dispatchOnFocus (dispatchOnChange ''active'' \<lparr>am_state = ''inactive'', am_tasks = []\<rparr>)"

definition told :: "app_manager \<Rightarrow> app_task \<Rightarrow> app_note" where
  "told m t = (case t of TellState \<Rightarrow> NoteChange (am_state m) | Tell n \<Rightarrow> n)"

text \<open>\<open>initializeCgroupMemory\<close> watches the memory once and binds the first manager; it is kept until the program
  ends.\<close>

record app_managers =
  am_managers :: "nat \<Rightarrow> app_manager option"
  am_next :: nat
  am_bound :: "nat option"
  am_notes :: "(nat \<times> app_note) list"

definition new_app_managers :: app_managers where
  "new_app_managers = \<lparr>am_managers = (\<lambda>_. None), am_next = 0, am_bound = None, am_notes = []\<rparr>"

datatype am_step = AmCreate | AmDestroy nat | AmMemory | AmChange nat string | AmRun nat

text \<open>The members of a manager are destroyed in the reverse of their order: the state first, then the thread,
  which finishes its tasks. A task that reads the state then faults, and so does a memory event when the bound
  manager is gone.\<close>

fun am_do :: "app_managers \<Rightarrow> am_step \<Rightarrow> app_managers option" where
  "am_do s AmCreate =
     Some (s\<lparr>am_managers := (am_managers s)(am_next s := Some new_app_manager), am_next := Suc (am_next s),
             am_bound := (case am_bound s of None \<Rightarrow> Some (am_next s) | Some b \<Rightarrow> Some b)\<rparr>)"
| "am_do s (AmDestroy i) =
     (case am_managers s i of
        None \<Rightarrow> Some s
      | Some m \<Rightarrow> if TellState \<in> set (am_tasks m) then None
                  else Some (s\<lparr>am_managers := (am_managers s)(i := None),
                               am_notes := am_notes s @ map (\<lambda>t. (i, told m t)) (am_tasks m)\<rparr>))"
| "am_do s AmMemory =
     (case am_bound s of
        None \<Rightarrow> Some s
      | Some b \<Rightarrow> (case am_managers s b of
                     None \<Rightarrow> None
                   | Some m \<Rightarrow> Some (s\<lparr>am_managers := (am_managers s)(b := Some (dispatchOnMemoryWarning m))\<rparr>)))"
| "am_do s (AmChange i next) =
     Some (s\<lparr>am_managers := (am_managers s)(i := map_option (dispatchOnChange next) (am_managers s i))\<rparr>)"
| "am_do s (AmRun i) =
     (case am_managers s i of
        None \<Rightarrow> Some s
      | Some m \<Rightarrow>
          (case am_tasks m of
             [] \<Rightarrow> Some s
           | t # ts \<Rightarrow> Some (s\<lparr>am_managers := (am_managers s)(i := Some (m\<lparr>am_tasks := ts\<rparr>)),
                               am_notes := am_notes s @ [(i, told m t)]\<rparr>)))"

section \<open>Descriptors\<close>

definition kpoll_ok :: "kern \<Rightarrow> bool" where
  "kpoll_ok k \<longleftrightarrow> (\<forall>(e, g) \<in> set (kpoll k). e \<in> set (kopen k) \<and> g \<in> set (kopen k))"

text \<open>What a step changes of the open descriptors and of what is polled.\<close>

definition k_same :: "kern \<Rightarrow> kern \<Rightarrow> bool" where
  "k_same k k' \<longleftrightarrow> kfail k' = kfail k \<and> kalloc k' = kalloc k \<and> set (kopen k') = set (kopen k) \<and> kpoll k' = kpoll k"

definition k_gained :: "int \<Rightarrow> kern \<Rightarrow> kern \<Rightarrow> bool" where
  "k_gained fd k k' \<longleftrightarrow> 0 < fd \<and> fd \<notin> set (kopen k) \<and> kfail k' = kfail k \<and> kalloc k' = kalloc k \<and>
     set (kopen k') = insert fd (set (kopen k)) \<and> kpoll k' = kpoll k"

lemma k_open_cases:
  assumes "kalloc_ok k"
  obtains "fst (k_open k) = -1" "k_same k (snd (k_open k))"
  | "k_gained (fst (k_open k)) k (snd (k_open k))"
proof (cases "kfail k (kcalls k)")
  case True
  with that(1) show thesis by (simp add: k_open_def k_same_def)
next
  case False
  with that(2) assms show thesis by (simp add: k_open_def k_gained_def kalloc_ok_def)
qed

lemma k_call_same: "k_same k (snd (k_call k))"
  by (simp add: k_call_def k_same_def)

lemma k_same_ok: "k_same k k' \<Longrightarrow> kalloc_ok k' = kalloc_ok k" "k_same k k' \<Longrightarrow> kpoll_ok k' = kpoll_ok k"
  by (simp_all add: k_same_def kalloc_ok_def kpoll_ok_def)

lemma k_gained_ok: "k_gained fd k k' \<Longrightarrow> kalloc_ok k' = kalloc_ok k" "k_gained fd k k' \<Longrightarrow> kpoll_ok k \<Longrightarrow> kpoll_ok k'"
  by (auto simp: k_gained_def kalloc_ok_def kpoll_ok_def)

lemma k_same_trans: "k_same k k' \<Longrightarrow> k_same k' k'' \<Longrightarrow> k_same k k''"
  by (simp add: k_same_def)

lemma k_close_fresh:
  assumes "k_gained fd k k1" and "kpoll_ok k" and "k_same k1 k2"
  shows "k_same k (k_close fd k2)"
proof -
  have "filter (\<lambda>(e, g). e \<noteq> fd \<and> g \<noteq> fd) (kpoll k) = kpoll k"
    using assms(1,2) by (intro filter_True) (auto simp: k_gained_def kpoll_ok_def)
  with assms(1,3) show ?thesis by (auto simp: k_same_def k_gained_def k_close_def)
qed

text \<open>With a second descriptor in between, that is now polled.\<close>

definition k_watched :: "int \<Rightarrow> int \<Rightarrow> kern \<Rightarrow> kern \<Rightarrow> bool" where
  "k_watched ep fd k k' \<longleftrightarrow> kfail k' = kfail k \<and> kalloc k' = kalloc k \<and> set (kopen k') = set (kopen k) \<and> kpoll k' = (ep, fd) # kpoll k"

lemma k_close_watched:
  assumes "k_gained f k k1" and "kpoll_ok k" and "k_watched ep fd k1 k2" and "ep \<in> set (kopen k)" and "fd \<in> set (kopen k)"
  shows "k_watched ep fd k (k_close f k2)"
proof -
  have "filter (\<lambda>(e, g). e \<noteq> f \<and> g \<noteq> f) (kpoll k) = kpoll k"
    using assms(1,2) by (intro filter_True) (auto simp: k_gained_def kpoll_ok_def)
  moreover have "f \<noteq> ep" "f \<noteq> fd" using assms(1,4,5) by (auto simp: k_gained_def)
  ultimately show ?thesis using assms(1,3) by (auto simp: k_watched_def k_gained_def k_close_def)
qed

lemma addToEpollWait_cases:
  obtains "\<not> fst (addToEpollWait ep fd k)" "k_same k (snd (addToEpollWait ep fd k))"
  | "fst (addToEpollWait ep fd k)" "k_watched ep fd k (snd (addToEpollWait ep fd k))"
  using that by (cases "kfail k (kcalls k)") (simp_all add: addToEpollWait_def k_call_def k_same_def k_watched_def)

lemma configure_cases:
  assumes "kalloc_ok k" and "kpoll_ok k" and "ep \<in> set (kopen k)" and "fd \<in> set (kopen k)"
  obtains "\<not> fst (configureEventControl ep fd k)" "k_same k (snd (configureEventControl ep fd k))"
  | "fst (configureEventControl ep fd k)" "k_watched ep fd k (snd (configureEventControl ep fd k))"
proof (rule k_open_cases [OF assms(1)])
  assume "fst (k_open k) = -1" "k_same k (snd (k_open k))"
  with that(1) show thesis by (simp add: configureEventControl_def close_opened_def split_def Let_def)
next
  let ?c = "fst (k_open k)" and ?k = "snd (k_open k)"
  assume g: "k_gained ?c k ?k"
  then have c: "0 \<le> ?c" "?c \<noteq> -1" by (auto simp: k_gained_def)
  let ?w = "k_call ?k"
  show thesis
  proof (cases "fst ?w")
    case False
    have "k_same k (k_close ?c (snd ?w))" by (rule k_close_fresh [OF g assms(2) k_call_same])
    with False c that(1) show thesis by (simp add: configureEventControl_def close_opened_def split_def Let_def)
  next
    case written: True
    let ?a = "addToEpollWait ep fd (snd ?w)"
    have conf: "configureEventControl ep fd k = (fst ?a, k_close ?c (snd ?a))"
      using written c by (simp add: configureEventControl_def close_opened_def split_def Let_def)
    show thesis
    proof (rule addToEpollWait_cases [of ep fd "snd ?w"])
      assume "\<not> fst ?a" "k_same (snd ?w) (snd ?a)"
      moreover from k_close_fresh [OF g assms(2) k_same_trans [OF k_call_same this(2)]]
      have "k_same k (k_close ?c (snd ?a))" .
      ultimately show thesis using that(1) unfolding conf fst_conv snd_conv by blast
    next
      assume "fst ?a" "k_watched ep fd (snd ?w) (snd ?a)"
      moreover from this have "k_watched ep fd ?k (snd ?a)" using k_call_same [of ?k] by (simp add: k_watched_def k_same_def)
      then have "k_watched ep fd k (k_close ?c (snd ?a))" by (rule k_close_watched [OF g assms(2) _ assms(3,4)])
      ultimately show thesis using that(2) conf by simp
    qed
  qed
qed

text \<open>Starting to watch: either nothing stays open, or the one descriptor that is watched.\<close>

lemma startMonitoring_cases:
  assumes "kalloc_ok k" and "kpoll_ok k" and "ep \<in> set (kopen k)"
  obtains "fst (startMonitoring ep k) = -1" "k_same k (snd (startMonitoring ep k))"
  | k' where "k_gained (fst (startMonitoring ep k)) k k'" "k_watched ep (fst (startMonitoring ep k)) k' (snd (startMonitoring ep k))"
proof (rule k_open_cases [OF assms(1)])
  assume "fst (k_open k) = -1" "k_same k (snd (k_open k))"
  with that(1) show thesis by (simp add: startMonitoring_def close_opened_def split_def Let_def)
next
  let ?e = "fst (k_open k)" and ?k = "snd (k_open k)"
  assume g: "k_gained ?e k ?k"
  then have e: "0 \<le> ?e" "?e \<noteq> -1" by (auto simp: k_gained_def)
  have ok: "kalloc_ok ?k" "kpoll_ok ?k" using k_gained_ok [OF g] assms(1,2) by simp_all
  show thesis
  proof (rule k_open_cases [OF ok(1)])
    assume m: "fst (k_open ?k) = -1" "k_same ?k (snd (k_open ?k))"
    have "k_same k (k_close ?e (snd (k_open ?k)))" by (rule k_close_fresh [OF g assms(2) m(2)])
    with m(1) e that(1) show thesis by (simp add: startMonitoring_def close_opened_def split_def Let_def)
  next
    let ?m = "fst (k_open ?k)" and ?j = "snd (k_open ?k)"
    assume h: "k_gained ?m ?k ?j"
    then have m: "0 \<le> ?m" "?m \<noteq> -1" by (auto simp: k_gained_def)
    have okj: "kalloc_ok ?j" "kpoll_ok ?j" using k_gained_ok [OF h] ok by simp_all
    have ins: "ep \<in> set (kopen ?j)" "?e \<in> set (kopen ?j)" "ep \<in> set (kopen ?k)" "?e \<in> set (kopen ?k)"
      using g h assms(3) by (auto simp: k_gained_def)
    let ?c = "configureEventControl ep ?e ?j"
    have start: "startMonitoring ep k = (if fst ?c then (?e, k_close ?m (snd ?c)) else (-1, k_close ?m (k_close ?e (snd ?c))))"
      using e m by (simp add: startMonitoring_def close_opened_def split_def Let_def)
    show thesis
    proof (rule configure_cases [OF okj ins(1,2)])
      assume f: "\<not> fst ?c" "k_same ?j (snd ?c)"
      have "k_close ?m (k_close ?e (snd ?c)) = k_close ?e (k_close ?m (snd ?c))"
        by (simp add: k_close_def conj_ac)
      moreover have "k_same ?k (k_close ?m (snd ?c))" by (rule k_close_fresh [OF h ok(2) f(2)])
      then have "k_same k (k_close ?e (k_close ?m (snd ?c)))" by (rule k_close_fresh [OF g assms(2)])
      ultimately show thesis using f(1) start that(1) by simp
    next
      assume f: "fst ?c" "k_watched ep ?e ?j (snd ?c)"
      have "k_watched ep ?e ?k (k_close ?m (snd ?c))" by (rule k_close_watched [OF h ok(2) f(2) ins(3,4)])
      with g f(1) start that(2) show thesis by simp
    qed
  qed
qed

text \<open>C28: Whichever system calls fail, starting to watch the memory either gives no descriptor and leaves
  every descriptor and all polling as it was, or adds exactly the one it gives.\<close>

theorem monitoring_leaks_nothing:
  assumes "kalloc_ok k" and "kpoll_ok k" and "ep \<in> set (kopen k)"
  shows "(case startMonitoring ep k of (fd, k') \<Rightarrow>
      if fd = -1 then set (kopen k') = set (kopen k) \<and> kpoll k' = kpoll k
      else fd \<notin> set (kopen k) \<and> set (kopen k') = insert fd (set (kopen k)) \<and> kpoll k' = (ep, fd) # kpoll k)"
  by (rule startMonitoring_cases [OF assms]) (auto simp: k_same_def k_gained_def k_watched_def split_def)

definition sample_kern :: "nat \<Rightarrow> kern" where
  "sample_kern n = \<lparr>kfail = (\<lambda>i. i = n), kalloc = (\<lambda>l. Max (set (2 # l)) + 1), kcalls = 0, kopen = [3, 2, 1, 0], kpoll = []\<rparr>"

lemma sample_kern_ok: "kalloc_ok (sample_kern n)" "kpoll_ok (sample_kern n)"
proof -
  have "0 < Max (set (2 # l)) + 1 \<and> Max (set (2 # l)) + 1 \<notin> set l" for l :: "int list"
  proof -
    have "2 \<le> Max (set (2 # l))" by (rule Max_ge) simp_all
    moreover have "\<forall>x \<in> set l. x < Max (set (2 # l)) + 1"
    proof
      fix x assume "x \<in> set l"
      then have "x \<le> Max (set (2 # l))" by (intro Max_ge) simp_all
      then show "x < Max (set (2 # l)) + 1" by simp
    qed
    then have "Max (set (2 # l)) + 1 \<notin> set l" by blast
    ultimately show ?thesis by linarith
  qed
  then show "kalloc_ok (sample_kern n)" by (simp add: kalloc_ok_def sample_kern_def)
qed (simp add: kpoll_ok_def sample_kern_def)

theorem monitoring_leaks_nothing_witness:
  "(case startMonitoring 3 (sample_kern 3) of (fd, k') \<Rightarrow>
      if fd = -1 then set (kopen k') = set (kopen (sample_kern 3)) \<and> kpoll k' = kpoll (sample_kern 3)
      else fd \<notin> set (kopen (sample_kern 3)) \<and> set (kopen k') = insert fd (set (kopen (sample_kern 3))) \<and>
        kpoll k' = (3, fd) # kpoll (sample_kern 3))"
  by (rule monitoring_leaks_nothing [OF sample_kern_ok]) (simp add: sample_kern_def)

lemma startMonitoring_open:
  assumes "kalloc_ok k" and "kpoll_ok k" and "ep \<in> set (kopen k)"
  shows "if fst (startMonitoring ep k) = -1 then set (kopen (snd (startMonitoring ep k))) = set (kopen k)
    else fst (startMonitoring ep k) \<notin> set (kopen k) \<and>
      set (kopen (snd (startMonitoring ep k))) = insert (fst (startMonitoring ep k)) (set (kopen k))"
  by (rule startMonitoring_cases [OF assms]) (auto simp: k_same_def k_gained_def k_watched_def)

section \<open>Life of the watch\<close>

lemma cg_new_cases:
  assumes "kalloc_ok k" and "kpoll_ok k" and "\<not> kfail k (kcalls k)"
  shows "\<exists>ep ex. epfd (fst (cg_new k)) = Some ep \<and> exitEfd (fst (cg_new k)) = Some ex \<and> 0 < ep \<and> ep \<notin> set (kopen k) \<and>
    (ex = -1 \<and> \<not> cg_worker (fst (cg_new k)) \<and> set (kopen (snd (cg_new k))) = insert ep (set (kopen k)) \<or>
     0 < ex \<and> ex \<notin> set (kopen k) \<and> ex \<noteq> ep \<and>
      (\<not> cg_worker (fst (cg_new k)) \<and> set (kopen (snd (cg_new k))) = {ep, ex} \<union> set (kopen k) \<or>
       cg_worker (fst (cg_new k)) \<and>
        (if memEfd (fst (cg_new k)) = -1 then set (kopen (snd (cg_new k))) = {ep, ex} \<union> set (kopen k)
         else memEfd (fst (cg_new k)) \<notin> {ep, ex} \<union> set (kopen k) \<and>
           set (kopen (snd (cg_new k))) = {memEfd (fst (cg_new k)), ep, ex} \<union> set (kopen k))))"
proof -
  let ?ep = "fst (k_open k)" and ?k1 = "snd (k_open k)"
  have g1: "k_gained ?ep k ?k1"
    using assms(1,3) by (simp add: k_open_def k_gained_def kalloc_ok_def)
  have ep: "0 < ?ep" "?ep \<notin> set (kopen k)" "set (kopen ?k1) = insert ?ep (set (kopen k))" using g1 by (auto simp: k_gained_def)
  have ok1: "kalloc_ok ?k1" "kpoll_ok ?k1" using k_gained_ok [OF g1] assms(1,2) by simp_all
  show ?thesis
  proof (rule k_open_cases [OF ok1(1)])
    assume "fst (k_open ?k1) = -1" "k_same ?k1 (snd (k_open ?k1))"
    with ep show ?thesis by (simp add: cg_new_def new_cgroup_def k_same_def split_def Let_def)
  next
    let ?ex = "fst (k_open ?k1)" and ?k2 = "snd (k_open ?k1)"
    assume g2: "k_gained ?ex ?k1 ?k2"
    then have ex: "0 < ?ex" "?ex \<noteq> ?ep" "?ex \<notin> set (kopen k)" "set (kopen ?k2) = {?ep, ?ex} \<union> set (kopen k)"
      using ep by (auto simp: k_gained_def)
    have ok2: "kalloc_ok ?k2" "kpoll_ok ?k2" using k_gained_ok [OF g2] ok1 by simp_all
    let ?a = "addToEpollWait ?ep ?ex ?k2"
    show ?thesis
    proof (rule addToEpollWait_cases [of ?ep ?ex ?k2])
      assume "\<not> fst ?a" "k_same ?k2 (snd ?a)"
      with ep ex show ?thesis by (simp add: cg_new_def new_cgroup_def k_same_def split_def Let_def)
    next
      let ?k3 = "snd ?a"
      assume a: "fst ?a" "k_watched ?ep ?ex ?k2 ?k3"
      then have o3: "set (kopen ?k3) = {?ep, ?ex} \<union> set (kopen k)" using ex by (simp add: k_watched_def)
      have ok3: "kalloc_ok ?k3" "kpoll_ok ?k3" "?ep \<in> set (kopen ?k3)"
        using ok2 a(2) ex(4) by (auto simp: kalloc_ok_def kpoll_ok_def k_watched_def)
      have new: "cg_new k = (\<lparr>epfd = Some ?ep, exitEfd = Some ?ex, memEfd = fst (startMonitoring ?ep ?k3), cg_worker = True\<rparr>,
          snd (startMonitoring ?ep ?k3))"
        using ep(1) ex(1) a(1) by (simp add: cg_new_def split_def Let_def)
      show ?thesis
        using startMonitoring_open [OF ok3] ep ex o3 unfolding new by (auto split: if_splits)
    qed
  qed
qed

lemma k_close_open [simp]: "set (kopen (k_close fd k)) = set (kopen k) - {fd}"
  by (auto simp: k_close_def)

lemma k_signal_open [simp]: "kopen (snd (k_signal fd k)) = kopen k" "fst (k_signal fd k) \<longleftrightarrow> \<not> kfail k (kcalls k) \<and> fd \<in> set (kopen k)"
  by (simp_all add: k_signal_def k_call_def)

text \<open>Unless the first system call or the last write fails, watching the memory can be ended: the
  thread is joined and every descriptor is closed but the one of the memory events.\<close>

theorem watch_ends_but_leaks_memory_event:
  assumes "kalloc_ok k" and "kpoll_ok k" and "\<forall>fd \<in> set (kopen k). 0 \<le> fd" and "\<not> kfail k (kcalls k)"
    and "\<not> kfail (snd (cg_new k)) (kcalls (snd (cg_new k)))"
  shows "(case cg_new k of (c, k1) \<Rightarrow>
      \<exists>k2. cg_destroy c k1 = Inr k2 \<and>
        set (kopen k2) = set (kopen k) \<union> (if cg_worker c \<and> memEfd c \<noteq> -1 then {memEfd c} else {}))"
proof -
  let ?c = "fst (cg_new k)" and ?k1 = "snd (cg_new k)"
  from cg_new_cases [OF assms(1,2,4)] obtain ep ex where c: "epfd ?c = Some ep" "exitEfd ?c = Some ex" "0 < ep" "ep \<notin> set (kopen k)"
    and cases: "ex = -1 \<and> \<not> cg_worker ?c \<and> set (kopen ?k1) = insert ep (set (kopen k)) \<or>
     0 < ex \<and> ex \<notin> set (kopen k) \<and> ex \<noteq> ep \<and>
      (\<not> cg_worker ?c \<and> set (kopen ?k1) = {ep, ex} \<union> set (kopen k) \<or>
       cg_worker ?c \<and>
        (if memEfd ?c = -1 then set (kopen ?k1) = {ep, ex} \<union> set (kopen k)
         else memEfd ?c \<notin> {ep, ex} \<union> set (kopen k) \<and> set (kopen ?k1) = {memEfd ?c, ep, ex} \<union> set (kopen k)))" by blast
  have "ex \<noteq> 0" using cases by auto
  with c have "cg_destroy ?c ?k1 =
      (if cg_worker ?c \<and> ex \<notin> set (kopen ?k1) then Inl ThreadNotJoined else Inr (k_close ex (k_close ep (snd (k_signal ex ?k1)))))"
    using assms(5) by (simp add: cg_destroy_def split_def Let_def)
  moreover have "\<not> (cg_worker ?c \<and> ex \<notin> set (kopen ?k1))" using cases by (auto split: if_splits)
  ultimately have d: "cg_destroy ?c ?k1 = Inr (k_close ex (k_close ep (snd (k_signal ex ?k1))))" by simp
  have "-1 \<notin> set (kopen k)" using assms(3) by force
  with cases c(3,4) have "set (kopen ?k1) - {ep} - {ex} = set (kopen k) \<union> (if cg_worker ?c \<and> memEfd ?c \<noteq> -1 then {memEfd ?c} else {})"
    by (auto split: if_splits)
  with d show ?thesis by (simp add: split_def)
qed

theorem watch_ends_but_leaks_memory_event_witness:
  "(case cg_new (sample_kern 100) of (c, k1) \<Rightarrow>
      \<exists>k2. cg_destroy c k1 = Inr k2 \<and>
        set (kopen k2) = set (kopen (sample_kern 100)) \<union> (if cg_worker c \<and> memEfd c \<noteq> -1 then {memEfd c} else {}))"
proof (rule watch_ends_but_leaks_memory_event [OF sample_kern_ok])
  show "\<not> kfail (snd (cg_new (sample_kern 100))) (kcalls (snd (cg_new (sample_kern 100))))"
    by (simp add: sample_kern_def cg_new_def k_open_def k_call_def addToEpollWait_def startMonitoring_def configureEventControl_def
        close_opened_def k_close_def split_def Let_def)
qed (simp_all add: sample_kern_def)

text \<open>When the first system call fails, the destructor reads a descriptor that was never set.\<close>

theorem failed_watch_reads_unset_member:
  assumes "kfail k (kcalls k)"
  shows "cg_destroy (fst (cg_new k)) (snd (cg_new k)) = Inl UninitializedMember"
  using assms by (simp add: cg_new_def k_open_def cg_destroy_def new_cgroup_def)

theorem failed_watch_reads_unset_member_witness:
  "cg_destroy (fst (cg_new (sample_kern 0))) (snd (cg_new (sample_kern 0))) = Inl UninitializedMember"
  by (rule failed_watch_reads_unset_member) (simp add: sample_kern_def)

section \<open>The thread\<close>

lemma monitor_batch_spec:
  "monitor_batch ex b = (map fst (filter snd (takeWhile (\<lambda>(fd, ok). ex \<noteq> fd) b)), ex \<in> fst ` set b)"
  by (induction ex b rule: monitor_batch.induct) auto

text \<open>The thread notifies of every event it could read before the first exit event, in the order the
  kernel gave them, and of none after it, however the events are spread over its calls.\<close>

theorem events_notified_until_exit:
  "monitorThread ex bs =
     (let evs = concat (map (case_option [] id) bs)
      in (map fst (filter snd (takeWhile (\<lambda>(fd, ok). ex \<noteq> fd) evs)), ex \<in> fst ` set evs))"
proof (induction ex bs rule: monitorThread.induct)
  case (3 ex b bs)
  show ?case
  proof (cases "ex \<in> fst ` set b")
    case True
    then obtain ok where "(ex, ok) \<in> set b" by auto
    then have "takeWhile (\<lambda>(fd, ok). ex \<noteq> fd) (b @ xs) = takeWhile (\<lambda>(fd, ok). ex \<noteq> fd) b" for xs
      by (intro takeWhile_append1) auto
    with True show ?thesis by (auto simp: monitor_batch_spec Let_def)
  next
    case False
    then have "\<forall>x \<in> set b. ex \<noteq> fst x" by force
    then have tw: "takeWhile (\<lambda>p. ex \<noteq> fst p) b = b" "takeWhile (\<lambda>p. ex \<noteq> fst p) (b @ xs) = b @ takeWhile (\<lambda>p. ex \<noteq> fst p) xs" for xs
      by (auto intro: takeWhile_append2 simp: takeWhile_eq_all_conv)
    have mb: "monitor_batch ex b = (map fst (filter snd b), False)"
      unfolding monitor_batch_spec split_def tw(1) using False by simp
    have mem: "ex \<in> fst ` set (b @ xs) \<longleftrightarrow> ex \<in> fst ` set xs" for xs using False by auto
    have "concat (map (case_option [] id) (Some b # bs)) = b @ concat (map (case_option [] id) bs)" by simp
    with mb 3 [OF refl mb [symmetric] not_False_eq_True [THEN iffD2, OF TrueI]] show ?thesis
      by (simp only: Let_def split_def monitorThread.simps mem tw(2)) (simp add: split_def)
  qed
qed (simp_all add: Let_def)

section \<open>The managers\<close>

text \<open>Once the first manager is gone, the next memory event calls into it, whatever managers were
  created since; while it lives, it alone is told.\<close>

theorem memory_event_goes_to_first_manager:
  assumes "am_bound s = Some b"
  shows "am_do s AmMemory = (case am_managers s b of
      None \<Rightarrow> None
    | Some m \<Rightarrow> Some (s\<lparr>am_managers := (am_managers s)(b \<mapsto> m\<lparr>am_tasks := am_tasks m @ [Tell NoteMemoryWarning]\<rparr>)\<rparr>)) \<and>
    (\<forall>t. am_do s AmCreate = Some t \<longrightarrow> am_bound t = Some b)"
  using assms by (auto simp: dispatchOnMemoryWarning_def split: option.splits)

text \<open>Two changes of the state before the thread runs tell the client the second state twice, and never
  the first.\<close>

theorem quick_change_told_twice:
  assumes "am_managers s i = Some m" and "am_tasks m = []" and "am_state m \<noteq> a" and "a \<noteq> b"
  shows "\<exists>t. run_opt am_do s [AmChange i a, AmChange i b, AmRun i, AmRun i] = Some t \<and>
    am_notes t = am_notes s @ [(i, NoteChange b), (i, NoteChange b)]"
  using assms by (simp add: dispatchOnChange_def told_def)

text \<open>A manager that is destroyed before its thread has told its first state reads the state after it was
  destroyed.\<close>

theorem early_destruction_reads_destroyed_state:
  "run_opt am_do new_app_managers [AmCreate, AmDestroy 0] = None"
  by (simp add: new_app_managers_def new_app_manager_def dispatchOnChange_def dispatchOnFocus_def)

end
