(* ===== verification/ImageLoader.thy ===== *)
theory ImageLoader imports Caches "HOL-Library.Monad_Syntax" begin

text \<open>
  The module that tells JavaScript the size of an image (\<open>core_modules/RSkImageLoader.cpp\<close>).

  An image is its width and height; decoding and the eviction questions of the image cache are parameters. A request
  is under shared pointers: one is captured by its own completion callback, which the request holds, and
  one may be in \<open>imageRequestList_\<close>. The pointer of \<open>getImageSize\<close> itself is gone when the network answers. Using a
  request that nobody owns is a fault (\<open>None\<close>).
\<close>

section \<open>State\<close>

type_synonym image_size = "int \<times> int"

record size_request =
  sr_url :: string
  sr_callback :: nat
  sr_closure :: bool
  sr_owners :: nat

record image_loader =
  il_requests :: "nat \<Rightarrow> size_request"
  il_next :: nat
  imageRequestList :: "string \<Rightarrow> nat option"
  il_cache :: "(string, image_size) cache_state"
  il_answers :: "(nat \<times> image_size option) list"

record decode_api =
  MakeFromEncoded :: "string \<Rightarrow> image_size option"
  eviction_order :: "(string, image_size) entry_order"
  only_cached :: "image_size \<Rightarrow> bool"

definition new_loader :: "(string, image_size) cache_state \<Rightarrow> image_loader" where
  "new_loader c = \<lparr>il_requests = (\<lambda>_. \<lparr>sr_url = '''', sr_callback = 0, sr_closure = False, sr_owners = 0\<rparr>), il_next = 0,
     imageRequestList = (\<lambda>_. None), il_cache = c, il_answers = []\<rparr>"

section \<open>Operations\<close>

definition handleResolveBlock :: "nat \<Rightarrow> image_size \<Rightarrow> image_loader \<Rightarrow> image_loader" where
  "handleResolveBlock cb img l = l\<lparr>il_answers := il_answers l @ [(cb, Some img)]\<rparr>"

definition handleRejectBlock :: "nat \<Rightarrow> image_loader \<Rightarrow> image_loader" where
  "handleRejectBlock cb l = l\<lparr>il_answers := il_answers l @ [(cb, None)]\<rparr>"

text \<open>The list of requests keeps the first of those for an address.\<close>

definition getImageSize :: "string \<Rightarrow> nat \<Rightarrow> image_loader \<Rightarrow> image_loader" where
  "getImageSize uri cb l =
     (if take 4 uri \<noteq> ''http'' then handleRejectBlock cb l
      else case findImageDataInCache uri (fst (il_cache l)) of
             Some img \<Rightarrow> handleResolveBlock cb img l
           | None \<Rightarrow>
               let r = il_next l; listed = (imageRequestList l uri = None)
               in l\<lparr>il_requests := (il_requests l)(r := \<lparr>sr_url = uri, sr_callback = cb, sr_closure = True, sr_owners = if listed then 2 else 1\<rparr>),
                    il_next := Suc r,
                    imageRequestList := if listed then (imageRequestList l)(uri \<mapsto> r) else imageRequestList l\<rparr>)"

definition drop_request :: "nat \<Rightarrow> image_loader \<Rightarrow> image_loader" where
  "drop_request r l = l\<lparr>il_requests := (il_requests l)(r := (il_requests l r)\<lparr>sr_owners := sr_owners (il_requests l r) - 1\<rparr>)\<rparr>"

text \<open>\<open>imageRequestList_.erase\<close>, and taking the callback out of the request, which destroys what it captured.\<close>

definition erase_listed :: "string \<Rightarrow> image_loader \<Rightarrow> image_loader" where
  "erase_listed uri l =
     (case imageRequestList l uri of None \<Rightarrow> l | Some r \<Rightarrow> (drop_request r l)\<lparr>imageRequestList := (imageRequestList l)(uri := None)\<rparr>)"

definition reset_callback :: "nat \<Rightarrow> image_loader \<Rightarrow> image_loader" where
  "reset_callback r l =
     (if sr_closure (il_requests l r)
      then drop_request r (l\<lparr>il_requests := (il_requests l)(r := (il_requests l r)\<lparr>sr_closure := False\<rparr>)\<rparr>) else l)"

definition owned :: "nat \<Rightarrow> image_loader \<Rightarrow> bool" where
  "owned r l \<longleftrightarrow> 0 < sr_owners (il_requests l r)"

text \<open>The completion callback of a request; \<open>body\<close> is the body of the response, if there is one.\<close>

definition DEFAULT_EXPIRY :: scalar where
  "DEFAULT_EXPIRY = 1800000"

definition size_completion :: "decode_api \<Rightarrow> scalar \<times> scalar \<Rightarrow> scalar \<Rightarrow> nat \<Rightarrow> string option \<Rightarrow> image_loader \<Rightarrow> image_loader option" where
  "size_completion api usage now r body l =
     (let q = il_requests l r
      in case (case body of None \<Rightarrow> None | Some b \<Rightarrow> if b = [] then None else MakeFromEncoded api b) of
           Some img \<Rightarrow>
             do { let l1 = handleResolveBlock (sr_callback q) img l;
                  (ok, c) \<leftarrow> imageDataInsertInCache (eviction_order api) (only_cached api) usage (sr_url q) (Some img) (now + DEFAULT_EXPIRY) now (il_cache l1);
                  let l2 = reset_callback r (l1\<lparr>il_cache := c\<rparr>);
                  if owned r l2 then Some (erase_listed (sr_url q) l2) else None }
         | None \<Rightarrow> Some (reset_callback r (erase_listed (sr_url q) (handleRejectBlock (sr_callback q) l))))"

text \<open>The network thread calls it and then takes the handle out of the request.\<close>

definition size_answered :: "decode_api \<Rightarrow> scalar \<times> scalar \<Rightarrow> scalar \<Rightarrow> nat \<Rightarrow> string option \<Rightarrow> image_loader \<Rightarrow> image_loader option" where
  "size_answered api usage now r body l =
     do { l1 \<leftarrow> (if sr_closure (il_requests l r) then size_completion api usage now r body l else Some l);
          if owned r l1 then Some l1 else None }"

text \<open>The thread that answers from the response cache owns the request while it runs.\<close>

definition take_request :: "nat \<Rightarrow> image_loader \<Rightarrow> image_loader" where
  "take_request r l = l\<lparr>il_requests := (il_requests l)(r := (il_requests l r)\<lparr>sr_owners := sr_owners (il_requests l r) + 1\<rparr>)\<rparr>"

definition size_from_cache :: "decode_api \<Rightarrow> scalar \<times> scalar \<Rightarrow> scalar \<Rightarrow> nat \<Rightarrow> string option \<Rightarrow> image_loader \<Rightarrow> image_loader option" where
  "size_from_cache api usage now r body l =
     do { l1 \<leftarrow> (if sr_closure (il_requests l r) then size_completion api usage now r body (take_request r l) else Some (take_request r l));
          Some (drop_request r l1) }"

section \<open>Steps\<close>

datatype loader_step =
    GetSize string nat
  | Answer "scalar \<times> scalar" scalar nat "string option"
  | CacheAnswer "scalar \<times> scalar" scalar nat "string option"

fun loader_do :: "decode_api \<Rightarrow> image_loader \<Rightarrow> loader_step \<Rightarrow> image_loader option" where
  "loader_do api l (GetSize uri cb) = Some (getImageSize uri cb l)"
| "loader_do api l (Answer usage now r body) = size_answered api usage now r body l"
| "loader_do api l (CacheAnswer usage now r body) = size_from_cache api usage now r body l"

text \<open>A request is answered once: while it has its callback.\<close>

definition answer_due :: "image_loader \<Rightarrow> loader_step \<Rightarrow> bool" where
  "answer_due l e =
     (case e of GetSize u c \<Rightarrow> True | Answer us now r body \<Rightarrow> sr_closure (il_requests l r) | CacheAnswer us now r body \<Rightarrow> sr_closure (il_requests l r))"

inductive loader_reach :: "decode_api \<Rightarrow> (string, image_size) cache_state \<Rightarrow> image_loader \<Rightarrow> bool" for api c where
  start: "loader_reach api c (new_loader c)"
| step: "loader_reach api c l \<Longrightarrow> answer_due l e \<Longrightarrow> loader_do api l e = Some l' \<Longrightarrow> loader_reach api c l'"

section \<open>Requests\<close>

text \<open>Who owns a request: its callback, the list, and \<open>x\<close> others.\<close>

definition loader_ok :: "(nat \<Rightarrow> nat) \<Rightarrow> image_loader \<Rightarrow> bool" where
  "loader_ok x l \<longleftrightarrow>
     (\<forall>r. sr_owners (il_requests l r) = (if sr_closure (il_requests l r) then 1 else 0) +
        (if imageRequestList l (sr_url (il_requests l r)) = Some r then 1 else 0) + x r) \<and>
     (\<forall>u r. imageRequestList l u = Some r \<longrightarrow> r < il_next l \<and> sr_url (il_requests l r) = u)"

lemma loader_okD:
  assumes "loader_ok x l"
  shows "sr_owners (il_requests l r) = (if sr_closure (il_requests l r) then 1 else 0) +
      (if imageRequestList l (sr_url (il_requests l r)) = Some r then 1 else 0) + x r"
    and "imageRequestList l u = Some r \<Longrightarrow> r < il_next l" and "imageRequestList l u = Some r \<Longrightarrow> sr_url (il_requests l r) = u"
  using assms unfolding loader_ok_def by blast+

lemma quiet_ok [simp]: "loader_ok x (l\<lparr>il_answers := as\<rparr>) = loader_ok x l" "loader_ok x (l\<lparr>il_cache := c\<rparr>) = loader_ok x l"
  by (simp_all add: loader_ok_def)

lemma resolve_ok [simp]: "loader_ok x (handleResolveBlock cb img l) = loader_ok x l" "loader_ok x (handleRejectBlock cb l) = loader_ok x l"
  by (simp_all add: handleResolveBlock_def handleRejectBlock_def)

lemma erase_listed_ok:
  assumes "loader_ok x l"
  shows "loader_ok x (erase_listed u l)"
proof (cases "imageRequestList l u")
  case None
  with assms show ?thesis by (simp add: erase_listed_def)
next
  case (Some j)
  note ok = loader_okD [OF assms]
  have url: "sr_url (il_requests l j) = u" using ok(3) [OF Some] .
  show ?thesis unfolding loader_ok_def
  proof (intro conjI allI impI)
    fix r
    show "sr_owners (il_requests (erase_listed u l) r) = (if sr_closure (il_requests (erase_listed u l) r) then 1 else 0) +
        (if imageRequestList (erase_listed u l) (sr_url (il_requests (erase_listed u l) r)) = Some r then 1 else 0) + x r"
      using ok(1) [of r] Some url by (cases "r = j") (auto simp: erase_listed_def drop_request_def)
  next
    fix v r assume v: "imageRequestList (erase_listed u l) v = Some r"
    then have "imageRequestList l v = Some r" using Some by (auto simp: erase_listed_def drop_request_def split: if_splits)
    from ok(2,3) [OF this] Some show "r < il_next (erase_listed u l)" "sr_url (il_requests (erase_listed u l) r) = v"
      by (auto simp: erase_listed_def drop_request_def)
  qed
qed

lemma change_ok:
  assumes "loader_ok x l" and "sr_url q = sr_url (il_requests l r)" and "\<forall>k. k \<noteq> r \<longrightarrow> y k = x k"
    and "sr_owners q = (if sr_closure q then 1 else 0) + (if imageRequestList l (sr_url q) = Some r then 1 else 0) + y r"
  shows "loader_ok y (l\<lparr>il_requests := (il_requests l)(r := q)\<rparr>)"
  unfolding loader_ok_def
proof (intro conjI allI impI)
  fix i
  show "sr_owners (il_requests (l\<lparr>il_requests := (il_requests l)(r := q)\<rparr>) i) =
      (if sr_closure (il_requests (l\<lparr>il_requests := (il_requests l)(r := q)\<rparr>) i) then 1 else 0) +
      (if imageRequestList (l\<lparr>il_requests := (il_requests l)(r := q)\<rparr>) (sr_url (il_requests (l\<lparr>il_requests := (il_requests l)(r := q)\<rparr>) i)) = Some i
       then 1 else 0) + y i"
    using loader_okD(1) [OF assms(1), of i] assms(3,4) by (cases "i = r") simp_all
next
  fix u i assume "imageRequestList (l\<lparr>il_requests := (il_requests l)(r := q)\<rparr>) u = Some i"
  then have u: "imageRequestList l u = Some i" by simp
  show "i < il_next (l\<lparr>il_requests := (il_requests l)(r := q)\<rparr>)" using loader_okD(2) [OF assms(1) u] by simp
  show "sr_url (il_requests (l\<lparr>il_requests := (il_requests l)(r := q)\<rparr>) i) = u" using loader_okD(3) [OF assms(1) u] assms(2) by auto
qed

lemma reset_callback_ok:
  assumes "loader_ok x l"
  shows "loader_ok x (reset_callback r l)"
proof (cases "sr_closure (il_requests l r)")
  case True
  have "reset_callback r l = l\<lparr>il_requests := (il_requests l)(r := (il_requests l r)\<lparr>sr_closure := False, sr_owners := sr_owners (il_requests l r) - 1\<rparr>)\<rparr>"
    using True by (simp add: reset_callback_def drop_request_def)
  with change_ok [OF assms, of "(il_requests l r)\<lparr>sr_closure := False, sr_owners := sr_owners (il_requests l r) - 1\<rparr>" r x]
    loader_okD(1) [OF assms, of r] True show ?thesis by simp
qed (use assms in \<open>simp add: reset_callback_def\<close>)

lemma take_size_request_ok:
  assumes "loader_ok x l"
  shows "loader_ok (x(r := x r + 1)) (take_request r l)"
  unfolding take_request_def using loader_okD(1) [OF assms, of r] by (intro change_ok [OF assms]) simp_all

lemma drop_request_ok:
  assumes "loader_ok (x(r := x r + 1)) l"
  shows "loader_ok x (drop_request r l)"
  unfolding drop_request_def using loader_okD(1) [OF assms, of r] by (intro change_ok [OF assms]) simp_all

lemma reset_closure [simp]: "\<not> sr_closure (il_requests (reset_callback r l) r)"
  by (simp add: reset_callback_def drop_request_def)

lemma erase_closure [simp]: "sr_closure (il_requests (erase_listed u l) r) = sr_closure (il_requests l r)" "sr_url (il_requests (erase_listed u l) r) = sr_url (il_requests l r)"
  by (simp_all add: erase_listed_def drop_request_def split: option.splits)

lemma reset_url [simp]: "sr_url (il_requests (reset_callback k l) r) = sr_url (il_requests l r)" "imageRequestList (reset_callback k l) = imageRequestList l"
  by (simp_all add: reset_callback_def drop_request_def)

lemma erase_gone [simp]: "imageRequestList (erase_listed u l) u = None"
  by (simp add: erase_listed_def split: option.splits)

text \<open>After its completion neither the callback nor the list owns the request.\<close>

lemma completion_frees:
  assumes "loader_ok x l" and "size_completion api usage now r body l = Some l'"
  shows "loader_ok x l' \<and> \<not> sr_closure (il_requests l' r) \<and> imageRequestList l' (sr_url (il_requests l' r)) = None"
proof (cases "(case body of None \<Rightarrow> None | Some b \<Rightarrow> if b = [] then None else MakeFromEncoded api b)")
  case None
  with assms(2) have l': "l' = reset_callback r (erase_listed (sr_url (il_requests l r)) (handleRejectBlock (sr_callback (il_requests l r)) l))"
    by (simp add: size_completion_def Let_def)
  have "sr_url (il_requests l' r) = sr_url (il_requests l r)" by (simp add: l' handleRejectBlock_def)
  with assms(1) show ?thesis by (simp add: l' erase_listed_ok reset_callback_ok)
next
  case (Some img)
  with assms(2) obtain c where l': "l' = erase_listed (sr_url (il_requests l r)) (reset_callback r ((handleResolveBlock (sr_callback (il_requests l r)) img l)\<lparr>il_cache := c\<rparr>))"
    by (auto simp: size_completion_def Let_def split: bind_splits if_splits)
  have "sr_url (il_requests l' r) = sr_url (il_requests l r)" by (simp add: l' handleResolveBlock_def)
  with assms(1) show ?thesis by (simp add: l' erase_listed_ok reset_callback_ok)
qed

lemma freed_by_answer:
  assumes "loader_ok (\<lambda>_. 0) l" and "sr_closure (il_requests l r)"
  shows "size_answered api usage now r body l = None"
proof (cases "size_completion api usage now r body l")
  case (Some l')
  from completion_frees [OF assms(1) Some] loader_okD(1) [of "\<lambda>_. 0" l' r] have "\<not> owned r l'" by (simp add: owned_def)
  with Some assms(2) show ?thesis by (simp add: size_answered_def)
qed (use assms(2) in \<open>simp add: size_answered_def\<close>)

lemma cache_answer_ok:
  assumes "loader_ok (\<lambda>_. 0) l" and "size_from_cache api usage now r body l = Some l'"
  shows "loader_ok (\<lambda>_. 0) l'"
proof -
  have t: "loader_ok ((\<lambda>_. 0)(r := (\<lambda>_. 0) r + 1)) (take_request r l)" using take_size_request_ok [OF assms(1)] .
  obtain l1 where l1: "l' = drop_request r l1"
      "l1 = take_request r l \<or> size_completion api usage now r body (take_request r l) = Some l1"
    using assms(2) by (auto simp: size_from_cache_def split: bind_splits if_splits)
  then have "loader_ok ((\<lambda>_. 0)(r := (\<lambda>_. 0) r + 1)) l1" using t completion_frees [OF t] by blast
  from drop_request_ok [OF this] l1(1) show ?thesis by simp
qed

lemma get_size_ok:
  assumes "loader_ok (\<lambda>_. 0) l"
  shows "loader_ok (\<lambda>_. 0) (getImageSize uri cb l)"
proof (cases "take 4 uri \<noteq> ''http'' \<or> findImageDataInCache uri (fst (il_cache l)) \<noteq> None")
  case True
  with assms show ?thesis by (auto simp: getImageSize_def split: option.splits)
next
  case False
  then have find: "take 4 uri = ''http''" "findImageDataInCache uri (fst (il_cache l)) = None" by blast+
  note ok = loader_okD [OF assms]
  let ?r = "il_next l"
  let ?l = "getImageSize uri cb l"
  have new: "imageRequestList l u \<noteq> Some ?r" for u using ok(2) [of u ?r] by auto
  have get: "il_requests ?l = (il_requests l)(?r := \<lparr>sr_url = uri, sr_callback = cb, sr_closure = True,
        sr_owners = if imageRequestList l uri = None then 2 else 1\<rparr>)" "il_next ?l = Suc ?r"
      "imageRequestList ?l = (if imageRequestList l uri = None then (imageRequestList l)(uri \<mapsto> ?r) else imageRequestList l)"
    using find by (simp_all add: getImageSize_def Let_def)
  show ?thesis unfolding loader_ok_def
  proof (intro conjI allI impI)
    fix i
    show "sr_owners (il_requests ?l i) = (if sr_closure (il_requests ?l i) then 1 else 0) +
        (if imageRequestList ?l (sr_url (il_requests ?l i)) = Some i then 1 else 0) + 0"
    proof (cases "i = ?r")
      case True
      with new [of uri] show ?thesis by (simp add: get)
    next
      case False
      with ok(1) [of i] show ?thesis by (cases "sr_url (il_requests l i) = uri") (auto simp: get)
    qed
  next
    fix u i assume "imageRequestList ?l u = Some i"
    then have u: "u = uri \<and> i = ?r \<or> imageRequestList l u = Some i" by (auto simp: get split: if_splits)
    show "i < il_next ?l" using u ok(2) [of u i] by (auto simp: get)
    show "sr_url (il_requests ?l i) = u" using u ok(2,3) [of u i] by (auto simp: get)
  qed
qed

lemma loader_reach_ok: "loader_reach api c l \<Longrightarrow> loader_ok (\<lambda>_. 0) l"
proof (induction rule: loader_reach.induct)
  case start
  show ?case by (simp add: loader_ok_def new_loader_def)
next
  case (step l e l')
  show ?case
  proof (cases e)
    case (GetSize u cb)
    with step get_size_ok show ?thesis by auto
  next
    case (Answer us now r body)
    with step freed_by_answer [OF step.IH] show ?thesis by (simp add: answer_due_def)
  next
    case (CacheAnswer us now r body)
    with step cache_answer_ok [OF step.IH] show ?thesis by simp
  qed
qed

text \<open>Whatever requests were made and answered from the response cache before, the answer of the network to a request for a size ends in the use of a request that the completion
  callback has freed, whether the image could be decoded or not.\<close>

theorem size_request_freed_by_answer:
  assumes "loader_reach api c l" and "sr_closure (il_requests l r)"
  shows "loader_do api l (Answer usage now r body) = None"
  using freed_by_answer [OF loader_reach_ok [OF assms(1)] assms(2)] by simp

definition sample_decode :: decode_api where
  "sample_decode = \<lparr>MakeFromEncoded = (\<lambda>_. Some (640, 480)), eviction_order = (\<lambda>es. es), only_cached = (\<lambda>_. True)\<rparr>"

theorem size_request_freed_by_answer_witness:
  "loader_do sample_decode (getImageSize ''http://x'' 7 (new_loader (new_cache, None))) (Answer (0, 0) 1 0 (Some ''png'')) = None"
proof (rule size_request_freed_by_answer [of _ "(new_cache, None)"])
  show "loader_reach sample_decode (new_cache, None) (getImageSize ''http://x'' 7 (new_loader (new_cache, None)))"
    by (rule loader_reach.step [OF loader_reach.start, of _ "GetSize ''http://x'' 7"]) (simp_all add: answer_due_def)
  show "sr_closure (il_requests (getImageSize ''http://x'' 7 (new_loader (new_cache, None))) 0)"
    by (simp add: getImageSize_def new_loader_def findImageDataInCache_def new_cache_def)
qed

text \<open>A size is answered at once, and exactly once, for an address that is not of the web or whose image is in
  the cache; otherwise nothing is answered yet, and one more request waits for the network.\<close>

theorem size_answered_at_once:
  "(let l' = getImageSize uri cb l
    in if take 4 uri \<noteq> ''http'' then il_answers l' = il_answers l @ [(cb, None)] \<and> il_next l' = il_next l
       else case findImageDataInCache uri (fst (il_cache l)) of
              Some img \<Rightarrow> il_answers l' = il_answers l @ [(cb, Some img)] \<and> il_next l' = il_next l
            | None \<Rightarrow> il_answers l' = il_answers l \<and> il_next l' = Suc (il_next l))"
  by (simp add: getImageSize_def handleResolveBlock_def handleRejectBlock_def Let_def split: option.splits)

end
