(* ===== verification/GlContexts.thy ===== *)
theory GlContexts imports SkGeom HttpText "HOL-Library.Monad_Syntax" begin

text \<open>
  Contexts of windows: EGL (\<open>GLWindowContextEGL.cpp\<close>, \<open>PlatformDisplay.cpp\<close>), GLX (\<open>GLWindowContextGLX.cpp\<close>), and
  what they share (\<open>GLWindowContext.cpp\<close>).

  What EGL, GLX and Skia answer are the fields of records that the model takes as an argument. Of their objects the
  model keeps which contexts and surfaces exist.
\<close>

section \<open>Extensions\<close>

text \<open>\<open>isExtensionSupported\<close> looks for a name that ends at a blank or at the end of the list. For an empty name
  the search may not end.\<close>

partial_function (option) ext_scan :: "string \<Rightarrow> string \<Rightarrow> bool option" where
  "ext_scan e s =
     (case find_sub e s of
        None \<Rightarrow> Some False
      | Some k \<Rightarrow> let rest = drop (k + length e) s
                  in if rest = [] \<or> hd rest = CHR '' '' then Some True else ext_scan e rest)"

definition isExtensionSupported :: "string option \<Rightarrow> string \<Rightarrow> bool option" where
  "isExtensionSupported l e = (case l of None \<Rightarrow> Some False | Some s \<Rightarrow> ext_scan e s)"

section \<open>EGL\<close>

datatype egl_surface_type = PbufferSurface | WindowSurface | PixmapSurface | Surfaceless

text \<open>The attributes of a context: of the client version 2 of OpenGL ES, of the core profile 3.2, or none.\<close>

datatype ctx_attributes = EsVersion2 | CoreProfile | CoreProfileKHR | AnyContext

record egl_api =
  opengl_es :: bool
  default_display :: bool
  egl_initialize :: "(nat \<times> nat) option"
  bind_api :: bool
  egl_extensions :: "string option"
  choose_config :: "egl_surface_type \<Rightarrow> (int \<times> int \<times> int \<times> int) option option"
  context_created :: "nat \<Rightarrow> ctx_attributes \<Rightarrow> bool"
  surface_created :: "nat \<Rightarrow> bool"
  has_platform_surface :: bool

text \<open>\<open>egl_static\<close> are the static attributes of \<open>createContextForEGLVersion\<close>; \<open>egl_display\<close> is whether the display is
  initialized, and whether there is one. \<open>egl_calls\<close> counts what EGL was asked to make.\<close>

record egl_state =
  egl_display :: "(bool \<times> nat \<times> nat) option"
  egl_static :: "ctx_attributes option"
  egl_contexts :: "nat list"
  egl_surfaces :: "nat list"
  egl_calls :: nat

definition new_egl :: egl_state where
  "new_egl = \<lparr>egl_display = None, egl_static = None, egl_contexts = [], egl_surfaces = [], egl_calls = 0\<rparr>"

definition initializeEGLDisplay :: "egl_api \<Rightarrow> egl_state \<Rightarrow> egl_state" where
  "initializeEGLDisplay api s =
     s\<lparr>egl_display := Some (if \<not> default_display api then (False, 0, 0)
        else case egl_initialize api of Some (major, minor) \<Rightarrow> (True, major, minor) | None \<Rightarrow> (False, 0, 0))\<rparr>"

definition with_display :: "egl_api \<Rightarrow> egl_state \<Rightarrow> egl_state" where
  "with_display api s = (if egl_display s = None then initializeEGLDisplay api s else s)"

definition has_display :: "egl_state \<Rightarrow> bool" where
  "has_display s = (case egl_display s of Some (b, _) \<Rightarrow> b | None \<Rightarrow> False)"

definition eglCheckVersion :: "nat \<Rightarrow> nat \<Rightarrow> egl_state \<Rightarrow> bool" where
  "eglCheckVersion major minor s =
     (case egl_display s of Some (_, a, b) \<Rightarrow> major < a \<or> a = major \<and> minor \<le> b | None \<Rightarrow> False)"

text \<open>A configuration is taken if its colors have eight bits each.\<close>

definition getEGLConfig :: "egl_api \<Rightarrow> egl_surface_type \<Rightarrow> bool" where
  "getEGLConfig api t = (case choose_config api t of Some (Some c) \<Rightarrow> c = (8, 8, 8, 8) | _ \<Rightarrow> False)"

definition egl_create :: "egl_api \<Rightarrow> ctx_attributes \<Rightarrow> egl_state \<Rightarrow> nat option \<times> egl_state" where
  "egl_create api a s =
     (let c = egl_calls s; s' = s\<lparr>egl_calls := Suc c\<rparr>
      in if context_created api c a then (Some c, s'\<lparr>egl_contexts := c # egl_contexts s\<rparr>) else (None, s'))"

definition first_attributes :: "egl_api \<Rightarrow> egl_state \<Rightarrow> ctx_attributes option option" where
  "first_attributes api s =
     (if opengl_es api then Some None
      else if eglCheckVersion 1 5 s then Some (Some CoreProfile)
      else if eglCheckVersion 1 4 s
      then map_option (\<lambda>b. if b then Some CoreProfileKHR else None) (isExtensionSupported (egl_extensions api) ''EGL_KHR_create_context'')
      else Some None)"

definition createContextForEGLVersion :: "egl_api \<Rightarrow> egl_state \<Rightarrow> (nat option \<times> egl_state) option" where
  "createContextForEGLVersion api s =
     (case egl_static s of
        Some a \<Rightarrow> Some (egl_create api a s)
      | None \<Rightarrow>
          do { first \<leftarrow> first_attributes api s;
               Some (case first of
                   Some a \<Rightarrow> (let (c, s1) = egl_create api a (s\<lparr>egl_static := Some a\<rparr>)
                              in if c \<noteq> None then (c, s1) else egl_create api AnyContext (s1\<lparr>egl_static := Some AnyContext\<rparr>))
                 | None \<Rightarrow> (let a = (if opengl_es api then EsVersion2 else AnyContext)
                            in egl_create api a (s\<lparr>egl_static := Some a\<rparr>))) })"

definition egl_make_surface :: "egl_api \<Rightarrow> egl_state \<Rightarrow> nat option \<times> egl_state" where
  "egl_make_surface api s =
     (let c = egl_calls s; s' = s\<lparr>egl_calls := Suc c\<rparr>
      in if surface_created api c then (Some c, s'\<lparr>egl_surfaces := c # egl_surfaces s\<rparr>) else (None, s'))"

definition eglDestroyContext :: "nat \<Rightarrow> egl_state \<Rightarrow> egl_state" where
  "eglDestroyContext c s = s\<lparr>egl_contexts := filter (\<lambda>d. d \<noteq> c) (egl_contexts s)\<rparr>"

definition eglDestroySurface :: "nat \<Rightarrow> egl_state \<Rightarrow> egl_state" where
  "eglDestroySurface c s = s\<lparr>egl_surfaces := filter (\<lambda>d. d \<noteq> c) (egl_surfaces s)\<rparr>"

text \<open>The result is the context and the surface of a window. A surface that the platform does not make is tried once
  more.\<close>

definition createWindowContext :: "egl_api \<Rightarrow> egl_state \<Rightarrow> ((nat \<times> nat) option \<times> egl_state) option" where
  "createWindowContext api s =
     (if \<not> getEGLConfig api WindowSurface then Some (None, s)
      else do { (c, s1) \<leftarrow> createContextForEGLVersion api s;
                Some (case c of
                    None \<Rightarrow> (None, s1)
                  | Some ctx \<Rightarrow>
                      (let (f, s2) = (if has_platform_surface api then egl_make_surface api s1 else (None, s1));
                           (f', s3) = (if f = None then egl_make_surface api s2 else (f, s2))
                       in case f' of
                            None \<Rightarrow> (None, eglDestroyContext ctx s3)
                          | Some surface \<Rightarrow> (Some (ctx, surface), s3))) })"

definition createSharingContext :: "egl_api \<Rightarrow> egl_state \<Rightarrow> (nat option \<times> egl_state) option" where
  "createSharingContext api s =
     (let s1 = with_display api s
      in if \<not> has_display s1 \<or> \<not> bind_api api then Some (None, s1)
         else do { a \<leftarrow> isExtensionSupported (egl_extensions api) ''EGL_KHR_surfaceless_context'';
                   b \<leftarrow> isExtensionSupported (egl_extensions api) ''EGL_KHR_surfaceless_opengl'';
                   if \<not> a \<and> \<not> b then Some (None, s1)
                   else if \<not> getEGLConfig api Surfaceless then Some (None, s1)
                   else createContextForEGLVersion api s1 })"

text \<open>\<open>sharingGLContext\<close> of the display is not implemented and gives nothing. \<open>window\<close> is whether there is a native
  window.\<close>

definition createContext :: "egl_api \<Rightarrow> bool \<Rightarrow> egl_state \<Rightarrow> ((nat \<times> nat) option \<times> egl_state) option" where
  "createContext api window s =
     (let s1 = with_display api s
      in if \<not> has_display s1 \<or> \<not> bind_api api then Some (None, s1)
         else do { (sharing, s2) \<leftarrow> createSharingContext api s1;
                   if window then createWindowContext api s2 else Some (None, s2) })"

definition onDestroyContext :: "nat \<times> nat \<Rightarrow> egl_state \<Rightarrow> egl_state" where
  "onDestroyContext w s = eglDestroySurface (snd w) (eglDestroyContext (fst w) s)"

section \<open>Swapping\<close>

text \<open>\<open>swapInterval\<close> looks up the functions for partial updates; the result is whether there is one to set the damage
  and one to swap with damage.\<close>

definition swap_functions :: "string option \<Rightarrow> (bool \<times> bool) option" where
  "swap_functions l =
     do { age \<leftarrow> isExtensionSupported l ''EGL_EXT_buffer_age'';
          if \<not> age then Some (False, False)
          else do { partial \<leftarrow> isExtensionSupported l ''EGL_KHR_partial_update'';
                    ext \<leftarrow> isExtensionSupported l ''EGL_EXT_swap_buffers_with_damage'';
                    khr \<leftarrow> isExtensionSupported l ''EGL_KHR_swap_buffers_with_damage'';
                    Some (partial, ext \<or> khr) } }"

definition rectsToInts :: "sk_rect_api \<Rightarrow> int \<Rightarrow> sk_irect list \<Rightarrow> int list" where
  "rectsToInts sk height rects = concat (map (\<lambda>r. [fLeft r, height - fBottom r, irect_width sk r, irect_height sk r]) rects)"

datatype swap_call = SwapWithDamage "int list" nat | SwapBuffers

definition onSwapBuffers :: "sk_rect_api \<Rightarrow> bool \<Rightarrow> bool \<Rightarrow> int \<Rightarrow> sk_irect list \<Rightarrow> swap_call list" where
  "onSwapBuffers sk valid with_damage height damage =
     (if valid then (if with_damage then [SwapWithDamage (rectsToInts sk height damage) (length damage)] else [SwapBuffers]) else [])"

section \<open>Skia contexts\<close>

text \<open>\<open>initializeContext\<close>: with a number of samples that Skia refuses, half of them are tried. The result is the
  number and whether there is a context.\<close>

function initializeContext :: "(nat \<Rightarrow> bool) \<Rightarrow> nat \<Rightarrow> nat \<times> bool" where
  "initializeContext makeGL samples =
     (if makeGL samples then (samples, True)
      else if 1 < samples then initializeContext makeGL (samples div 2) else (samples, False))"
  by pat_completeness auto
termination by (relation "measure snd") auto

declare initializeContext.simps [simp del]

section \<open>GLX\<close>

datatype glx_profile = Compatibility | Core

text \<open>\<open>glx_create\<close>: whether a context is returned, and whether an X error came.\<close>

record glx_api =
  glx_create :: "nat \<Rightarrow> glx_profile \<Rightarrow> bool \<times> bool"
  glx_makeCurrent :: bool
  debug_tool :: bool

type_synonym glx_context = "nat \<times> glx_profile"

text \<open>The loop over the profiles of one version. The second list is the contexts that were overwritten.\<close>

fun glx_profiles :: "glx_api \<Rightarrow> nat \<Rightarrow> glx_profile list \<Rightarrow> glx_context option \<times> glx_context list \<Rightarrow> glx_context option \<times> glx_context list" where
  "glx_profiles api minor [] s = s"
| "glx_profiles api minor (p # ps) (c, lost) =
     (let (created, err) = glx_create api minor p;
          lost' = lost @ (case c of Some d \<Rightarrow> [d] | None \<Rightarrow> []);
          c' = (if created then Some (minor, p) else None)
      in if err then glx_profiles api minor ps (c', lost')
         else if created \<and> p = Compatibility \<and> glx_makeCurrent api \<and> debug_tool api then glx_profiles api minor ps (None, lost')
         else if created then (c', lost') else glx_profiles api minor ps (c', lost'))"

fun glx_versions :: "glx_api \<Rightarrow> nat list \<Rightarrow> glx_context option \<times> glx_context list \<Rightarrow> glx_context option \<times> glx_context list" where
  "glx_versions api [] s = s"
| "glx_versions api (m # ms) (c, lost) =
     (if c \<noteq> None then (c, lost) else glx_versions api ms (glx_profiles api m [Compatibility, Core] (c, lost)))"

definition glx_createWindowContext :: "glx_api \<Rightarrow> bool \<Rightarrow> bool \<Rightarrow> glx_context option \<times> glx_context list" where
  "glx_createWindowContext api attribs config = (if attribs \<and> config then glx_versions api [2, 1, 0] (None, []) else (None, []))"

section \<open>Names in the list of extensions\<close>

fun blank_words :: "string \<Rightarrow> string list" where
  "blank_words [] = [[]]"
| "blank_words (c # s) = (if c = CHR '' '' then [] # blank_words s else (c # hd (blank_words s)) # tl (blank_words s))"

lemma words_ne [simp]: "blank_words s \<noteq> []"
  by (cases s) auto

lemma words_split: "hd (blank_words s) # tl (blank_words s) = blank_words s"
  by simp

lemma words_append: "blank_words (p @ t) = butlast (blank_words p) @ (last (blank_words p) @ hd (blank_words t)) # tl (blank_words t)"
proof (induction p)
  case (Cons c p)
  show ?case
  proof (cases "c = CHR '' ''")
    case True
    with Cons.IH show ?thesis by simp
  next
    case False
    show ?thesis
    proof (cases "tl (blank_words p)")
      case Nil
      then have "blank_words p = [hd (blank_words p)]" using words_split [of p] by simp
      then obtain w where "blank_words p = [w]" by blast
      with False Cons.IH show ?thesis by simp
    next
      case (Cons w ws)
      then have "blank_words p = hd (blank_words p) # w # ws" using words_split [of p] by simp
      then obtain v where "blank_words p = v # w # ws" by blast
      with False Cons.IH show ?thesis by simp
    qed
  qed
qed simp

lemma words_plain: "CHR '' '' \<notin> set e \<Longrightarrow> blank_words (e @ t) = (e @ hd (blank_words t)) # tl (blank_words t)"
  by (induction e) auto

lemma word_inside: "w \<in> set (blank_words s) \<Longrightarrow> \<exists>a b. s = a @ w @ b"
proof (induction s arbitrary: w)
  case (Cons c s)
  show ?case
  proof (cases "c = CHR '' ''")
    case True
    with Cons.prems consider "w = []" | "w \<in> set (blank_words s)" by auto
    then show ?thesis
    proof cases
      case 2
      with Cons.IH obtain a b where "s = a @ w @ b" by blast
      then have "c # s = (c # a) @ w @ b" by simp
      then show ?thesis by blast
    qed auto
  next
    case False
    with Cons.prems consider "w = c # hd (blank_words s)" | "w \<in> set (tl (blank_words s))" by auto
    then show ?thesis
    proof cases
      case 1
      obtain u v where "s = u @ v" "hd (blank_words s) = u"
      proof -
        have "\<exists>v. s = hd (blank_words s) @ v"
          by (induction s) auto
        then show thesis using that by blast
      qed
      with 1 have "c # s = [] @ w @ v" by simp
      then show ?thesis by blast
    next
      case 2
      then have "w \<in> set (blank_words s)" using list.set_sel(2) [of "blank_words s" w] by simp
      with Cons.IH obtain a b where "s = a @ w @ b" by blast
      then have "c # s = (c # a) @ w @ b" by simp
      then show ?thesis by blast
    qed
  qed
qed simp

text \<open>No name in the list is longer and ends like the one that is looked for.\<close>

definition no_longer_name :: "string \<Rightarrow> string \<Rightarrow> bool" where
  "no_longer_name e s \<longleftrightarrow> (\<forall>w \<in> set (blank_words s). drop (length w - length e) w = e \<longrightarrow> w = e)"

lemma no_later_word:
  assumes "drop (length h - length e) h = e" and "e \<noteq> []"
  shows "drop (length (x @ e @ h) - length e) (x @ e @ h) = e"
proof -
  have "length e \<le> length h" using assms by (metis diff_is_0_eq' drop0 le_cases)
  then have "length (x @ e @ h) - length e = length (x @ e) + (length h - length e)" by simp
  then show ?thesis using assms(1) by simp
qed

text \<open>C39: An extension is found exactly if it is one of the names in the list, provided no other name in it ends
  with the one that is looked for.\<close>

theorem extension_is_listed_name:
  assumes "e \<noteq> []" and "CHR '' '' \<notin> set e" and "no_longer_name e s"
  shows "isExtensionSupported (Some s) e = Some (e \<in> set (blank_words s))"
proof -
  have "ext_scan e s = Some (e \<in> set (blank_words s))"
    using assms(3)
  proof (induction s rule: length_induct)
    case (1 s)
    show ?case
    proof (cases "find_sub e s")
      case None
      have "e \<notin> set (blank_words s)"
      proof
        assume "e \<in> set (blank_words s)"
        from word_inside [OF this] obtain a b where "s = a @ e @ b" by blast
        with find_sub_at [of a e b] None show False by auto
      qed
      with None show ?thesis by (simp add: ext_scan.simps)
    next
      case (Some k)
      from find_sub_Some [OF Some] obtain b where b: "s = take k s @ e @ b" and first: "\<forall>j < k. take (length e) (drop j s) \<noteq> e" by blast
      have k: "length (take k s) = k" using b by (metis append_take_drop_id length_append length_take le_add1 min.absorb2 nat_le_linear take_all same_append_eq append_self_conv assms(1) append_is_Nil_conv)
      have rest: "drop (k + length e) s = b" using b k by (metis append.assoc append_eq_conv_conj length_append)
      let ?p = "take k s" and ?h = "hd (blank_words b)"
      let ?m = "last (blank_words ?p) @ e @ ?h"
      have words: "blank_words s = butlast (blank_words ?p) @ ?m # tl (blank_words b)"
        using words_append [of ?p "e @ b"] words_plain [OF assms(2), of b] b by simp
      have ends: "drop (length w - length e) w = e \<Longrightarrow> w = e" if "w \<in> set (blank_words s)" for w
        using 1(2) that by (simp add: no_longer_name_def)
      show ?thesis
      proof (cases "b = [] \<or> hd b = CHR '' ''")
        case True
        then have "?h = []" by (cases b) auto
        with ends [of ?m] words have "e \<in> set (blank_words s)" by simp
        with True Some rest show ?thesis by (simp add: ext_scan.simps)
      next
        case False
        then have "?h \<noteq> []" by (cases b) auto
        have ne: "?m \<noteq> e"
        proof
          assume "?m = e"
          then have "length ?m = length e" by (rule arg_cong)
          with \<open>?h \<noteq> []\<close> show False by simp
        qed
        have "?m \<in> set (blank_words s)" by (subst words) simp
        with ends ne have m: "drop (length ?m - length e) ?m \<noteq> e" by blast
        have h: "drop (length ?h - length e) ?h \<noteq> e" using no_later_word [of ?h e "last (blank_words ?p)"] m assms(1) by blast
        have "e \<notin> set (butlast (blank_words ?p))"
        proof
          assume "e \<in> set (butlast (blank_words ?p))"
          from word_inside [OF in_set_butlastD [OF this]] obtain x y where "?p = x @ e @ y" by blast
          with b have s: "s = x @ e @ y @ e @ b" and "length x < k" using k assms(1) by (auto simp: arg_cong [of "?p" "x @ e @ y" length])
          from s have "take (length e) (drop (length x) s) = e" by simp
          with first \<open>length x < k\<close> show False by blast
        qed
        moreover have "e \<noteq> ?m" using ne by metis
        moreover have "e \<noteq> ?h" using h by auto
        ultimately have mem: "e \<in> set (blank_words s) \<longleftrightarrow> e \<in> set (blank_words b)"
          using words words_split [of b] by (metis Un_iff list.set_intros(2) set_ConsD set_append)
        have "no_longer_name e b" unfolding no_longer_name_def
        proof (intro ballI impI)
          fix w assume w: "w \<in> set (blank_words b)" "drop (length w - length e) w = e"
          with h have "w \<noteq> ?h" by auto
          with w(1) words_split [of b] have "w \<in> set (tl (blank_words b))" by (metis set_ConsD)
          with words have "w \<in> set (blank_words s)" by simp
          from ends [OF this] w(2) show "w = e" by simp
        qed
        moreover have "length b < length s" using b assms(1) by (metis add_less_cancel_left length_append length_greater_0_conv less_add_same_cancel2 add.assoc trans_less_add2 add_pos_nonneg le0 add.commute)
        ultimately have "ext_scan e b = Some (e \<in> set (blank_words b))" using 1(1) by blast
        with False Some rest mem show ?thesis by (simp add: ext_scan.simps)
      qed
    qed
  qed
  then show ?thesis by (simp add: isExtensionSupported_def)
qed

section \<open>Contexts of windows\<close>

definition egl_ok :: "egl_state \<Rightarrow> bool" where
  "egl_ok s \<longleftrightarrow> (\<forall>c \<in> set (egl_contexts s) \<union> set (egl_surfaces s). c < egl_calls s)"

text \<open>What making a context adds: at most the one it gives.\<close>

definition egl_gained :: "nat option \<Rightarrow> egl_state \<Rightarrow> egl_state \<Rightarrow> bool" where
  "egl_gained c s t \<longleftrightarrow> egl_surfaces t = egl_surfaces s \<and> egl_display t = egl_display s \<and> egl_calls s \<le> egl_calls t \<and>
     (case c of None \<Rightarrow> egl_contexts t = egl_contexts s
      | Some d \<Rightarrow> egl_contexts t = d # egl_contexts s \<and> egl_calls s \<le> d \<and> d < egl_calls t)"

lemma egl_create_gained: "egl_gained (fst (egl_create api a s)) s (snd (egl_create api a s))"
  by (simp add: egl_create_def egl_gained_def Let_def)

lemma gained_static: "egl_gained c (s\<lparr>egl_static := a\<rparr>) t = egl_gained c s t"
  by (simp add: egl_gained_def split: option.split)

lemma gained_trans: "egl_gained None s t \<Longrightarrow> egl_gained c t u \<Longrightarrow> egl_gained c s u"
  by (auto simp: egl_gained_def split: option.splits)

lemma create_context_gained:
  assumes "createContextForEGLVersion api s = Some (c, t)"
  shows "egl_gained c s t"
proof (cases "egl_static s")
  case (Some a)
  with assms egl_create_gained [of api a s] show ?thesis by (simp add: createContextForEGLVersion_def)
next
  case None
  with assms obtain first where f: "first_attributes api s = Some first" by (auto simp: createContextForEGLVersion_def split: bind_splits)
  show ?thesis
  proof (cases first)
    case None
    define a where "a = (if opengl_es api then EsVersion2 else AnyContext)"
    have "(c, t) = egl_create api a (s\<lparr>egl_static := Some a\<rparr>)"
      using assms f None \<open>egl_static s = None\<close> by (simp add: createContextForEGLVersion_def a_def Let_def split: if_splits)
    with egl_create_gained [of api a "s\<lparr>egl_static := Some a\<rparr>"] show ?thesis by (metis fst_conv snd_conv gained_static)
  next
    case (Some a)
    let ?e = "egl_create api a (s\<lparr>egl_static := Some a\<rparr>)"
    have g: "egl_gained (fst ?e) s (snd ?e)" using egl_create_gained [of api a "s\<lparr>egl_static := Some a\<rparr>"] by (simp add: gained_static)
    have r: "(c, t) = (if fst ?e \<noteq> None then ?e else egl_create api AnyContext ((snd ?e)\<lparr>egl_static := Some AnyContext\<rparr>))"
      using assms f Some \<open>egl_static s = None\<close>
      by (auto simp: createContextForEGLVersion_def split_def Let_def prod_eq_iff split: if_splits)
    show ?thesis
    proof (cases "fst ?e = None")
      case True
      have "egl_gained c (snd ?e) t"
        using r True egl_create_gained [of api AnyContext "(snd ?e)\<lparr>egl_static := Some AnyContext\<rparr>"] by (metis fst_conv snd_conv gained_static)
      with g True show ?thesis by (metis gained_trans)
    next
      case False
      with r g show ?thesis by (metis fst_conv snd_conv)
    qed
  qed
qed

text \<open>What stays of the window's own context: nothing if it could not be made, and otherwise nothing after it is
  destroyed.\<close>

lemma window_context_balanced:
  assumes "createWindowContext api s = Some (w, t)" and "egl_ok s"
  shows "case w of None \<Rightarrow> egl_contexts t = egl_contexts s \<and> egl_surfaces t = egl_surfaces s
    | Some x \<Rightarrow> egl_contexts (onDestroyContext x t) = egl_contexts s \<and> egl_surfaces (onDestroyContext x t) = egl_surfaces s"
proof (cases "getEGLConfig api WindowSurface")
  case False
  with assms(1) show ?thesis by (auto simp: createWindowContext_def)
next
  case True
  with assms(1) obtain c s1 where c: "createContextForEGLVersion api s = Some (c, s1)" by (auto simp: createWindowContext_def split: bind_splits)
  note g = create_context_gained [OF c]
  show ?thesis
  proof (cases c)
    case None
    with True c assms(1) g show ?thesis by (auto simp: createWindowContext_def egl_gained_def)
  next
    case (Some ctx)
    have fresh: "filter (\<lambda>d. d \<noteq> k) (egl_contexts s) = egl_contexts s" "filter (\<lambda>d. d \<noteq> k) (egl_surfaces s) = egl_surfaces s" if "egl_calls s \<le> k" for k
    proof -
      have "\<forall>c \<in> set (egl_contexts s) \<union> set (egl_surfaces s). c \<noteq> k" using assms(2) that by (metis egl_ok_def leD)
      then show "filter (\<lambda>d. d \<noteq> k) (egl_contexts s) = egl_contexts s" "filter (\<lambda>d. d \<noteq> k) (egl_surfaces s) = egl_surfaces s"
        by (simp_all add: filter_True)
    qed
    have gs: "egl_contexts s1 = ctx # egl_contexts s" "egl_surfaces s1 = egl_surfaces s" "egl_calls s \<le> ctx" "egl_calls s \<le> egl_calls s1"
      using g Some by (simp_all add: egl_gained_def)
    let ?f = "if has_platform_surface api then egl_make_surface api s1 else (None, s1)"
    let ?f' = "if fst ?f = None then egl_make_surface api (snd ?f) else ?f"
    have r: "(w, t) = (case fst ?f' of None \<Rightarrow> (None, eglDestroyContext ctx (snd ?f')) | Some x \<Rightarrow> (Some (ctx, x), snd ?f'))"
      using True c assms(1) Some
      by (cases "has_platform_surface api"; cases "fst (egl_make_surface api s1)")
        (simp_all add: createWindowContext_def split_def Let_def cong: option.case_cong)
    have m: "egl_contexts (snd (egl_make_surface api u)) = egl_contexts u \<and> egl_calls u \<le> egl_calls (snd (egl_make_surface api u)) \<and>
        (case fst (egl_make_surface api u) of None \<Rightarrow> egl_surfaces (snd (egl_make_surface api u)) = egl_surfaces u
         | Some x \<Rightarrow> x = egl_calls u \<and> egl_surfaces (snd (egl_make_surface api u)) = x # egl_surfaces u)" for u
      by (simp add: egl_make_surface_def Let_def)
    have f': "egl_contexts (snd ?f') = ctx # egl_contexts s \<and>
        (case fst ?f' of None \<Rightarrow> egl_surfaces (snd ?f') = egl_surfaces s | Some x \<Rightarrow> egl_calls s \<le> x \<and> egl_surfaces (snd ?f') = x # egl_surfaces s)"
      using m [of s1] m [of "snd ?f"] gs by (auto split: option.splits)
    show ?thesis
    proof (cases "fst ?f'")
      case None
      with r f' fresh(1) [OF gs(3)] show ?thesis by (simp add: eglDestroyContext_def)
    next
      case (Some x)
      with r f' fresh(1) [OF gs(3)] fresh(2) [of x] show ?thesis
        by (simp add: onDestroyContext_def eglDestroyContext_def eglDestroySurface_def)
    qed
  qed
qed

lemma with_display_same [simp]: "egl_contexts (with_display api s) = egl_contexts s" "egl_surfaces (with_display api s) = egl_surfaces s"
    "egl_calls (with_display api s) = egl_calls s" "with_display api (with_display api s) = with_display api s"
  by (simp_all add: with_display_def initializeEGLDisplay_def)

lemma sharing_gained:
  assumes "createSharingContext api s = Some (c, t)"
  shows "egl_gained c (with_display api s) t"
proof -
  have none: "egl_gained None u u" for u by (simp add: egl_gained_def)
  show ?thesis
    using assms none create_context_gained [of api "with_display api s" c t]
    by (auto simp: createSharingContext_def Let_def split: if_splits bind_splits)
qed

text \<open>When the context of a window was made and destroyed again, or could not be made, exactly the sharing
  context that was made for it is left, and nobody will destroy it.\<close>

theorem sharing_context_left_over:
  assumes "egl_ok s" and "createContext api window s = Some (w, t)" and "has_display (with_display api s)" and "bind_api api"
    and "createSharingContext api s = Some (sharing, u)"
  shows "egl_contexts (case w of None \<Rightarrow> t | Some x \<Rightarrow> onDestroyContext x t) =
      (case sharing of None \<Rightarrow> [] | Some c \<Rightarrow> [c]) @ egl_contexts s \<and>
    egl_surfaces (case w of None \<Rightarrow> t | Some x \<Rightarrow> onDestroyContext x t) = egl_surfaces s"
proof -
  have same: "createSharingContext api (with_display api s) = Some (sharing, u)" using assms(5) by (simp add: createSharingContext_def)
  note g = sharing_gained [OF assms(5)]
  have u: "egl_contexts u = (case sharing of None \<Rightarrow> [] | Some c \<Rightarrow> [c]) @ egl_contexts s" "egl_surfaces u = egl_surfaces s"
    using g by (auto simp: egl_gained_def split: option.splits)
  have ok: "egl_ok u"
    unfolding egl_ok_def
  proof
    fix c assume "c \<in> set (egl_contexts u) \<union> set (egl_surfaces u)"
    with u have "sharing = Some c \<or> c \<in> set (egl_contexts s) \<union> set (egl_surfaces s)" by (auto split: option.splits)
    then show "c < egl_calls u"
    proof
      assume "sharing = Some c"
      with g show ?thesis by (simp add: egl_gained_def)
    next
      assume "c \<in> set (egl_contexts s) \<union> set (egl_surfaces s)"
      with assms(1) have "c < egl_calls s" by (simp add: egl_ok_def)
      with g show ?thesis by (simp add: egl_gained_def)
    qed
  qed
  show ?thesis
  proof (cases window)
    case False
    with assms(2-4) same u show ?thesis by (auto simp: createContext_def Let_def)
  next
    case True
    with assms(2-4) same have "createWindowContext api u = Some (w, t)" by (simp add: createContext_def Let_def)
    from window_context_balanced [OF this ok] u show ?thesis by (cases w) simp_all
  qed
qed

definition sample_egl :: egl_api where
  "sample_egl = \<lparr>opengl_es = True, default_display = True, egl_initialize = Some (1, 5), bind_api = True,
     egl_extensions = Some ''EGL_KHR_surfaceless_context EGL_EXT_buffer_age'', choose_config = (\<lambda>_. Some (Some (8, 8, 8, 8))),
     context_created = (\<lambda>_ _. True), surface_created = (\<lambda>_. True), has_platform_surface = True\<rparr>"

lemma sample_sharing: "createSharingContext sample_egl new_egl = Some (Some 0, snd (egl_create sample_egl EsVersion2
    ((with_display sample_egl new_egl)\<lparr>egl_static := Some EsVersion2\<rparr>)))"
  by (simp add: createSharingContext_def sample_egl_def new_egl_def with_display_def initializeEGLDisplay_def has_display_def getEGLConfig_def
      isExtensionSupported_def ext_scan.simps createContextForEGLVersion_def first_attributes_def egl_create_def Let_def)

lemma sample_window: "\<exists>t. createContext sample_egl True new_egl = Some (Some (1, 2), t)"
  by (simp add: createContext_def createWindowContext_def createSharingContext_def sample_egl_def new_egl_def with_display_def initializeEGLDisplay_def
      has_display_def getEGLConfig_def isExtensionSupported_def ext_scan.simps createContextForEGLVersion_def first_attributes_def
      egl_create_def egl_make_surface_def Let_def numeral_2_eq_2)

theorem sharing_context_left_over_witness:
  "\<exists>t. createContext sample_egl True new_egl = Some (Some (1, 2), t) \<and> egl_contexts (onDestroyContext (1, 2) t) = [0] \<and>
     egl_surfaces (onDestroyContext (1, 2) t) = []"
proof -
  obtain t where t: "createContext sample_egl True new_egl = Some (Some (1, 2), t)" using sample_window by blast
  have "egl_ok new_egl" "has_display (with_display sample_egl new_egl)" "bind_api sample_egl"
    by (simp_all add: egl_ok_def new_egl_def sample_egl_def with_display_def initializeEGLDisplay_def has_display_def)
  from sharing_context_left_over [OF this(1) t this(2,3) sample_sharing] t show ?thesis by (simp add: new_egl_def)
qed

theorem extension_is_listed_name_witness:
  "isExtensionSupported (Some ''EA EAB'') ''EA'' = Some True"
  using extension_is_listed_name [of "''EA''" "''EA EAB''"]
  by (simp add: no_longer_name_def)

section \<open>Damage and samples\<close>

text \<open>The damage handed to EGL, whose rows count from the bottom, covers the same pixels.\<close>

theorem damage_mirrored:
  assumes "sk_rect_laws sk" and "0 \<le> fLeft r" and "0 \<le> fTop r" and "fLeft r \<le> fRight r" and "fTop r \<le> fBottom r"
    and "fRight r < 2 ^ 31" and "fBottom r < 2 ^ 31"
  shows "\<exists>x y w h. rectsToInts sk height [r] = [x, y, w, h] \<and>
    (\<forall>px py. x \<le> px \<and> px < x + w \<and> y \<le> py \<and> py < y + h \<longleftrightarrow>
       fLeft r \<le> px \<and> px < fRight r \<and> fTop r \<le> height - 1 - py \<and> height - 1 - py < fBottom r)"
proof -
  have "irect_width sk r = fRight r - fLeft r" "irect_height sk r = fBottom r - fTop r"
    using assms by (auto simp: sk_rect_laws_def int32_def intro!: wrap32_id)
  then show ?thesis by (auto simp: rectsToInts_def)
qed

text \<open>The context has the first number of samples Skia takes, of the ones halved from the one asked for; there is none
  only if Skia refuses a single sample too.\<close>

theorem samples_halved:
  "(case initializeContext makeGL n of (k, made) \<Rightarrow>
      (\<exists>i. k = n div 2 ^ i \<and> (\<forall>j < i. \<not> makeGL (n div 2 ^ j))) \<and> (if made then makeGL k else \<not> makeGL k \<and> k \<le> 1))"
proof (induction makeGL n rule: initializeContext.induct)
  case (1 makeGL n)
  show ?case
  proof (cases "makeGL n \<or> n \<le> 1")
    case True
    then show ?thesis by (subst initializeContext.simps) (auto intro!: exI [of _ 0])
  next
    case False
    obtain k made where r: "initializeContext makeGL (n div 2) = (k, made)" by fastforce
    with 1 False obtain i where i: "k = n div 2 div 2 ^ i" "\<forall>j < i. \<not> makeGL (n div 2 div 2 ^ j)" "if made then makeGL k else \<not> makeGL k \<and> k \<le> 1"
      by auto
    have "k = n div 2 ^ Suc i" using i(1) by (simp add: div_mult2_eq)
    moreover have "\<not> makeGL (n div 2 ^ j)" if "j < Suc i" for j
      using that False i(2) by (cases j) (simp_all add: div_mult2_eq)
    moreover have "initializeContext makeGL n = (k, made)" using False r by (subst initializeContext.simps) simp
    ultimately show ?thesis using i(3) by (auto intro!: exI [of _ "Suc i"])
  qed
qed

section \<open>GLX\<close>

definition glx_usable :: "glx_api \<Rightarrow> glx_context \<Rightarrow> bool" where
  "glx_usable api c = (case c of (minor, p) \<Rightarrow> glx_create api minor p = (True, False) \<and>
     \<not> (p = Compatibility \<and> glx_makeCurrent api \<and> debug_tool api))"

lemma glx_profiles_find:
  assumes "\<forall>m p. snd (glx_create api m p) \<longrightarrow> \<not> fst (glx_create api m p)"
  shows "glx_profiles api m ps (None, []) = (find (glx_usable api) (map (Pair m) ps), [])"
proof (induction ps)
  case (Cons p ps)
  obtain created err where e: "glx_create api m p = (created, err)" by fastforce
  with assms have "err \<longrightarrow> \<not> created" by (metis fst_conv snd_conv)
  with e Cons.IH show ?case by (cases err; cases created) (auto simp: glx_usable_def)
qed simp

lemma find_append_Some: "find P (xs @ ys) = (case find P xs of None \<Rightarrow> find P ys | Some x \<Rightarrow> Some x)"
  by (induction xs) auto

lemma glx_versions_done: "glx_versions api ms (Some c, lost) = (Some c, lost)"
  by (cases ms) auto

lemma glx_versions_find:
  assumes "\<forall>m p. snd (glx_create api m p) \<longrightarrow> \<not> fst (glx_create api m p)"
  shows "glx_versions api ms (None, []) = (find (glx_usable api) (concat (map (\<lambda>m. map (Pair m) [Compatibility, Core]) ms)), [])"
proof (induction ms)
  case (Cons m ms)
  show ?case
    using Cons.IH glx_versions_done
    by (simp only: glx_versions.simps glx_profiles_find [OF assms] list.map concat.simps find_append_Some) (auto split: option.split)
qed simp

text \<open>When an X error comes without a context, the context is the first usable one, newer versions before older ones and the
  compatibility profile before the core profile, and none is lost.\<close>

theorem newest_usable_context:
  assumes "\<forall>m p. snd (glx_create api m p) \<longrightarrow> \<not> fst (glx_create api m p)"
  shows "glx_createWindowContext api True True =
    (find (glx_usable api) [(2, Compatibility), (2, Core), (1, Compatibility), (1, Core), (0, Compatibility), (0, Core)], [])"
  using glx_versions_find [OF assms, of "[2, 1, 0]"] by (simp only: glx_createWindowContext_def list.map concat.simps append.simps if_True simp_thms)

theorem newest_usable_context_witness:
  "glx_createWindowContext \<lparr>glx_create = (\<lambda>m p. (m \<le> 1, False)), glx_makeCurrent = True, debug_tool = True\<rparr> True True = (Some (1, Core), [])"
  using newest_usable_context [of "\<lparr>glx_create = (\<lambda>m p. (m \<le> 1, False)), glx_makeCurrent = True, debug_tool = True\<rparr>"] by (simp add: glx_usable_def)

end
