(* ===== verification/Spec2Isabelle.thy ===== *)
theory Spec2Isabelle imports Osk NotifCenter ScrollView InputEvents TimingModule Caches Compositor Windows NetworkModule WebSockets Images LayerLinks Transactions PlatformWindows Indicators NativeProps EventEmitters TextDrawing MemoryMonitor ImageLoader GlContexts begin

text \<open>
  A model of the runtime of React Native Skia: the C++ program under \<open>src/ReactSkia\<close> and
  \<open>src/rns_shell\<close> that shows React Native applications on devices with Skia. File names below are
  relative to \<open>src/ReactSkia\<close> unless they begin with \<open>rns_shell\<close>.

  \<^bold>\<open>The program.\<close> React (Fabric, in JavaScript and C++) computes a tree of shadow views and announces
  transactions. \<open>MountingManager\<close> pulls them on the main loop and creates, deletes, inserts, removes and updates
  the components (\<open>RSkComponent\<close> and its subclasses). Every component owns a layer; the compositor lays the layers
  out, collects what has to be painted again and paints it into the back buffer of a window. Keys come from the
  window system through the notification center to the input event manager, which offers them to the focused
  component (text fields, scroll views, TV events) and otherwise lets the spatial navigator move the focus. The
  SDK has an on-screen keyboard and alerts in windows of their own, a timer, caches, HTTP and web sockets; native
  modules offer these to JavaScript, each with callbacks that come back on other threads.

  \<^bold>\<open>How it is modelled.\<close> Objects are records, the fields named as in the code; the methods are functions on
  them with the branches and the order of the code. An operation that can dereference null or a deleted object,
  read outside a table or throw gives \<open>None\<close> or the value of an error type; the theorems that something never
  faults say that it does not. Threads, callbacks and foreign calls are the events of a step function, and a theorem
  over \<open>run_opt\<close> or over reachable states is about every order of the steps. What a thread does under a lock, or
  without touching what another thread uses, is one step. Where threads share fields without a lock, the accesses are
  steps of their own (the flags of \<open>Transactions\<close>, the frames of \<open>Indicators\<close>, the queue and the reports of
  \<open>WebSockets\<close>, the flag of \<open>Images\<close>), or the use of the shared data by two threads at once is marked and
  excluded by a hypothesis (the clean-up of \<open>Caches\<close>, the callbacks of \<open>Images\<close>). Where the code posts a task, the task waits in a list
  until a step runs it. Integers are \<open>int\<close> or \<open>nat\<close>, with the
  wrap-around written out where the code computes near the bounds (lengths of strings, the position of the text of
  the keyboard), and words of 64 and 32 bits for the identifiers of requests; coordinates that the code has as \<open>float\<close> are the type
  \<open>scalar\<close> of exact rationals, so rounding of floats is outside the model. Libraries that are not part of the
  repository's sources (Skia, folly, libcurl, nopoll, React Native, X11, EGL, the kernel) are parameters: records
  of functions, or the answers in the events. Facts about them are named hypotheses that state their documented
  behaviour (\<open>sk_rect_laws\<close> for the rectangles of Skia, \<open>draw_laws\<close> for its colors and filters, \<open>svs_laws\<close> for the sorted sets
  of folly), and each theorem that uses one has a
  witness with a concrete instance.

  The model is that of the default build: X11 with GLX, partial updates on, TV navigation on, the on-screen
  keyboard and alerts built in; key throttling, bitmaps of scroll layers and partial updates by
  \<open>EGL_buffer_age\<close> only where the text of a theory says so.

  \<^bold>\<open>Shared theories.\<close>

  \<^item> \<open>Prelude\<close>: checked access to vectors, searching, running a list of steps (\<open>run_opt\<close>), and the locales
    \<open>strict_weak\<close> and \<open>strict_total\<close> of comparators.
  \<^item> \<open>Containers\<close>: \<open>std::map\<close> as a sorted association list and \<open>sdk/ThreadSafeQueue.h\<close>. The locales
    \<open>ordered_map\<close> and \<open>fifo_queue\<close> state what the clients rely on; \<open>std_map\<close> and \<open>tsq\<close> interpret them.
  \<^item> \<open>SkGeom\<close>: rectangles of Skia and the parameter \<open>sk_rect_api\<close>. \<open>RnsKeys\<close>: \<open>sdk/RNSKeyCodeMapping.h\<close>.

  \<^bold>\<open>On-screen keyboard\<close> (\<open>sdk/OSKLayout.h\<close>, \<open>sdk/OnScreenKeyBoard.cpp\<close>). \<open>OskLayout\<close> has the key tables and
  both passes of \<open>createOSKLayout\<close>; \<open>OskDisplay\<close> the range of the text that is visible; \<open>Osk\<close> the life cycle,
  the keys and the events to the client. The lemmas show that tables, siblings and layouts fit together, that
  every key can be reached, that no access is out of range, and which key a press sends.

  \<^bold>\<open>Events and keys.\<close> \<open>NotifCenter\<close> (\<open>sdk/NotificationCenter\<close>): listeners, queue and the event thread, one
  callback per step. \<open>InputEvents\<close> (\<open>core_modules/RSkInputEventManager.cpp\<close>): repetition of keys, the way a key
  takes through text field, remote-control event, navigator and callbacks. \<open>EventEmitters\<close>
  (\<open>LegacyNativeModules/RSkBaseEventEmitter.cpp\<close>, \<open>core_modules/RSkEventEmitter.cpp\<close>,
  \<open>modules/RSkTVNavigationEventEmitter.cpp\<close>, \<open>core_modules/RSkAppStateModule.cpp\<close>): counted subscriptions on
  top of the notification center, against a specification that counts listeners.

  \<^bold>\<open>Components and focus.\<close> \<open>Components\<close> is the heap of components with their parents and their lists of
  focusable components (\<open>components/RSkComponent.cpp\<close>, \<open>core_modules/RSkSpatialNavigatorContainer.cpp\<close>) and the five
  mount instructions of \<open>MountingManager.cpp\<close>; \<open>Mounting\<close> proves that the lists stay exact for mutations in the
  order of React; \<open>Transactions\<close> has the flags and tasks between the JavaScript thread and the main loop, with
  \<open>rns_shell/platform/linux/TaskLoop.cpp\<close>. \<open>SpatialNav\<close> (\<open>core_modules/RSkSpatialNavigator.cpp\<close>) has the rules for
  candidates, their order, the searches and the moves; its locale \<open>sorted_set\<close> says what insertion into a set ordered by a comparator gives, and
  \<open>candidates\<close> interprets it with the comparator of the code. \<open>NavSafety\<close> proves that searches end, use live components only, and choose the
  nearest candidate. The searches through nested containers are \<open>partial_function\<close>s; the theorems that they
  return are by induction over the finite, acyclic relation of containers.

  \<^bold>\<open>Components with behaviour of their own.\<close> \<open>ScrollLayer\<close> and \<open>ScrollView\<close>
  (\<open>components/RSkComponentScrollView.cpp\<close>, \<open>rns_shell/compositor/layers/ScrollLayer.cpp\<close>): positions, paging,
  snapping, bars. \<open>TextInput\<close> (\<open>components/RSkComponentTextInput.cpp\<close>) and \<open>TextEditing\<close>: the field and its
  refinement of a plain editor, for uncontrolled fields and for controlled ones with their queue and worker.
  \<open>Images\<close> (\<open>components/RSkComponentImage.cpp\<close>, \<open>views/common/RSkImageUtils.cpp\<close>): resize modes, requests, load
  events. \<open>Indicators\<close> (\<open>utils/RnsJsRaf.cpp\<close>, \<open>components/RSkComponentActivityIndicator.cpp\<close> and
  \<open>RSkComponentActivityIndicatorManager.cpp\<close>): animation frames are asked for exactly while something turns.
  \<open>TextDrawing\<close> (\<open>textlayoutmanager/RSkTextLayoutManager.cpp\<close>, \<open>views/common/RSkTextUtils.cpp\<close>,
  \<open>components/RSkComponentText.cpp\<close>): paragraphs, their lines, their measure, and what a layout keeps from one
  painting to the next. \<open>ViewDrawing\<close> (\<open>views/common/RSkDrawUtils.cpp\<close>, \<open>RSkConversion.h\<close>,
  \<open>components/RSkComponentView.cpp\<close>): shadow, background and border as a list of canvas operations. \<open>NativeProps\<close>
  (\<open>LegacyNativeModules/uimanager/UiManagerModule.cpp\<close>, \<open>ComponentViewRegistry.cpp\<close>): properties set past React.

  \<^bold>\<open>Painting.\<close> \<open>Damage\<close> has the two routines that add a dirty rectangle; the locale \<open>dirty_list\<close> states what a
  list of damage promises, and both routines interpret it. \<open>Layers\<close> (\<open>rns_shell/compositor/layers/Layer.cpp\<close>) is
  layout, prePaint and paint of a tree; \<open>LayerLinks\<close> the pointers between layers with marks of removal, against the
  order React asked for; \<open>Compositor\<close> (\<open>rns_shell/compositor/Compositor.cpp\<close>) scheduling, with the
  lock and its owner, resizes and a main loop that may not run, and clipping by the age of the buffer. \<open>Windows\<close> (\<open>sdk/WindowDelegator.cpp\<close>, \<open>sdk/Alert.cpp\<close>) is the same for windows of the SDK.
  \<open>PlatformWindows\<close> (\<open>rns_shell/platform/graphics/x11\<close> and \<open>libwpe\<close>) maps keys and follows windows; \<open>GlContexts\<close>
  (\<open>rns_shell/platform/graphics/gl\<close>) chooses configurations and contexts and says which ones stay allocated.

  \<^bold>\<open>Services.\<close> \<open>FollyTimer\<close> (\<open>sdk/FollyTimer.cpp\<close>) with the locale \<open>timer_client\<close>: while a client has something
  to wait for, a wake-up is on its way. \<open>TimingModule\<close> (\<open>core_modules/RSkTimingModule.cpp\<close>) and \<open>Caches\<close>
  (\<open>sdk/ThreadSafeCache.h\<close>, \<open>views/common/RSkImageCacheManager.cpp\<close>) interpret it. \<open>HttpText\<close> and \<open>Network\<close>
  (\<open>sdk/CurlNetworking.cpp\<close>): header lines, bodies, cache control, the worker thread with libcurl as events;
  \<open>NetworkModule\<close> (\<open>modules/platform/libcurl/RSkNetworkingModule.cpp\<close>) on top of it, with the ownership of requests;
  \<open>WebSockets\<close> (\<open>sdk/NopollWebsocket.cpp\<close>, \<open>modules/platform/nopoll/RSkWebSocketModule.cpp\<close>); \<open>ImageLoader\<close>
  (\<open>core_modules/RSkImageLoader.cpp\<close>). \<open>MemoryMonitor\<close> (\<open>pluginfactory/plugins/ubuntu\<close>,
  \<open>pluginfactory/interfaces/RNSApplicationManagerInterface.cpp\<close>): the watch of the control group's memory, with a
  kernel whose calls may fail in any way and that keeps the open descriptors, and the managers that report it.

  \<^bold>\<open>Where the code does not do what it means to\<close>, the model does as the code does, and a theorem exhibits it: its
  name says what happens (\<open>commit_race_waits\<close>, \<open>stop_in_callback_leaves_frame\<close>, \<open>close_overtakes_open\<close>,
  \<open>restart_inside_callback_is_forgotten\<close>, \<open>lost_render_blocks_rendering\<close>, \<open>cache_keeps_last_piece\<close>).
  The hypotheses of the positive theorems exclude those situations, and the text before each theorem says which.

  \<^bold>\<open>Bounds.\<close> Walks through pointers (\<open>nearestAncestorContainer\<close>, \<open>has_ancestor\<close>, \<open>rootLayer\<close>, \<open>advanceFocusInDirection\<close>)
  and the search in the list of EGL extensions are \<open>partial_function\<close>s, where a loop that does not end is \<open>None\<close>, and
  theorems say when they return. The one loop with fuel narrows the visible text of the keyboard (\<open>OskDisplay\<close>); it
  gets one more than the length of the range, which every turn shortens. Runs are lists of steps of any length; the
  tables of the keyboard are finite and evaluated in full.

  \<^bold>\<open>Not modelled\<close>: the start of the application and of the JavaScript engine (\<open>RNInstance.cpp\<close>,
  \<open>ReactSkiaApp.cpp\<close>), registration tables and constants of native modules (\<open>JSITurboModuleManager.cpp\<close>, view
  managers, device information), the loading of plugins, the component factories, loading of GL functions for Skia,
  raster contexts and the connection to a display, all of which are calls into libraries without a state of their
  own; the pixels of the keyboard, of alerts and of indicators; \<open>src/sk_app\<close>, a copy of an example of Skia; build
  tools, JavaScript packages and vendored code.
\<close>

end
